(* ===== verification/Worker_Prelude.thy ===== *)
theory Worker_Prelude
  imports Main "HOL-Library.AList" "HOL-Library.Multiset" "HOL-Library.List_Lexorder" "HOL-Library.Char_ord"
begin

text \<open>
  Shared vocabulary of the development: the Rust integer types with their bounds written out,
  \<open>Result\<close> values with the \<open>?\<close> operator, fallible folds (a \<open>for\<close> loop whose body may
  return early), indexed vectors with Rust's out-of-range behaviour, stable \<open>sort_by\<close> on a
  sort key, and the generic lemmas on lists and association lists that the component theories use.
\<close>

section \<open>Automation collections\<close>

named_theorems res_simps "case analysis of results"
named_theorems width_simps "bounds of the machine integers"

section \<open>Machine integers\<close>

text \<open>
  \<open>i32\<close> and \<open>i64\<close> values are integers, \<open>usize\<close>, \<open>u32\<close> and \<open>u64\<close> values are naturals
  (the targets of the worker are 64-bit). The operations that can leave the range are written out:
  \<open>saturating_*\<close> clamp, \<open>checked_*\<close> return \<open>None\<close>, plain \<open>+\<close> on \<open>i32\<close> wraps (release build).
\<close>

type_synonym i32 = int
type_synonym i64 = int
type_synonym usize = nat
type_synonym u64 = nat
type_synonym uuid = string

definition i32_max :: int where
  "i32_max = 2147483647"

definition i64_max :: int where
  "i64_max = 9223372036854775807"

definition u64_max :: nat where
  "u64_max = 18446744073709551615"

definition wrap_i32 :: "int \<Rightarrow> i32" where
  "wrap_i32 n = (n + 2147483648) mod 4294967296 - 2147483648"

definition saturating_add :: "nat \<Rightarrow> nat \<Rightarrow> nat" where
  "saturating_add a b = min (a + b) u64_max"

definition saturating_mul :: "nat \<Rightarrow> nat \<Rightarrow> nat" where
  "saturating_mul a b = min (a * b) u64_max"

text \<open>\<open>saturating_sub\<close> stops at 0, as subtraction of naturals does.\<close>

definition saturating_sub :: "nat \<Rightarrow> nat \<Rightarrow> nat" where
  "saturating_sub a b = a - b"

text \<open>\<open>usize::try_from\<close> of an \<open>i32\<close>, and of an \<open>i64\<close>: fails exactly on negative values.\<close>

definition usize_try_from :: "int \<Rightarrow> usize option" where
  "usize_try_from n = (if n < 0 then None else Some (nat n))"

definition unwrap_or :: "'a \<Rightarrow> 'a option \<Rightarrow> 'a" where
  "unwrap_or d x = (case x of None \<Rightarrow> d | Some v \<Rightarrow> v)"

lemma unwrap_or_simps [simp]: "unwrap_or d None = d" "unwrap_or d (Some v) = v"
  by (simp_all add: unwrap_or_def)

lemma usize_try_from_nonneg [simp]: "0 \<le> n \<Longrightarrow> usize_try_from n = Some (nat n)"
  by (simp add: usize_try_from_def)

lemma usize_try_from_neg [simp]: "n < 0 \<Longrightarrow> usize_try_from n = None"
  by (simp add: usize_try_from_def)

lemma usize_try_from_eq_Some [simp]:
  "usize_try_from n = Some k \<longleftrightarrow> 0 \<le> n \<and> k = nat n"
  by (auto simp: usize_try_from_def)

lemma usize_try_from_eq_None [simp]: "usize_try_from n = None \<longleftrightarrow> n < 0"
  by (auto simp: usize_try_from_def)

lemma wrap_i32_id [width_simps]:
  "- 2147483648 \<le> n \<Longrightarrow> n \<le> 2147483647 \<Longrightarrow> wrap_i32 n = n"
  by (simp add: wrap_i32_def)

lemma wrap_i32_lower: "- 2147483648 \<le> wrap_i32 n"
  by (simp add: wrap_i32_def)

lemma wrap_i32_upper: "wrap_i32 n \<le> 2147483647"
  using pos_mod_bound [of 4294967296 "n + 2147483648"] by (simp add: wrap_i32_def)

lemma saturating_add_le [width_simps]: "saturating_add a b \<le> u64_max"
  by (simp add: saturating_add_def)

lemma saturating_add_exact [width_simps]:
  "a + b \<le> u64_max \<Longrightarrow> saturating_add a b = a + b"
  by (simp add: saturating_add_def)

lemma saturating_add_gt_iff:
  "c \<le> u64_max \<Longrightarrow> c < saturating_add a b \<longleftrightarrow> c < a + b \<and> c < u64_max"
  by (auto simp: saturating_add_def)

text \<open>The decimal text of an unsigned integer.\<close>

fun show_nat :: "nat \<Rightarrow> string" where
  "show_nat n = (if n < 10 then [char_of (48 + n)] else show_nat (n div 10) @ [char_of (48 + n mod 10)])"

declare show_nat.simps [simp del]

definition show_int :: "int \<Rightarrow> string" where
  "show_int n = (if n < 0 then CHR ''-'' # show_nat (nat (- n)) else show_nat (nat n))"

section \<open>Results and the question-mark operator\<close>

text \<open>
  A \<open>Result<T, E>\<close> is a value of \<open>'e + 'a\<close>: \<open>Inl\<close> is \<open>Err\<close>, \<open>Inr\<close> is \<open>Ok\<close>.
  \<open>res_bind m f\<close> is \<open>f(m?)\<close>, \<open>ensure c e\<close> is \<open>if !c { return Err(e) }\<close>.
\<close>

definition res_bind :: "'e + 'a \<Rightarrow> ('a \<Rightarrow> 'e + 'b) \<Rightarrow> 'e + 'b" where
  "res_bind m f = (case m of Inl e \<Rightarrow> Inl e | Inr a \<Rightarrow> f a)"

definition ensure :: "bool \<Rightarrow> 'e \<Rightarrow> 'e + unit" where
  "ensure c e = (if c then Inr () else Inl e)"

definition ok_or :: "'e \<Rightarrow> 'a option \<Rightarrow> 'e + 'a" where
  "ok_or e x = (case x of None \<Rightarrow> Inl e | Some v \<Rightarrow> Inr v)"

definition map_err :: "('e \<Rightarrow> 'f) \<Rightarrow> 'e + 'a \<Rightarrow> 'f + 'a" where
  "map_err f m = (case m of Inl e \<Rightarrow> Inl (f e) | Inr a \<Rightarrow> Inr a)"

definition is_ok :: "'e + 'a \<Rightarrow> bool" where
  "is_ok m = (case m of Inl _ \<Rightarrow> False | Inr _ \<Rightarrow> True)"

lemma res_bind_simps [simp]:
  "res_bind (Inl e) f = Inl e" "res_bind (Inr a) f = f a"
  by (simp_all add: res_bind_def)

lemma res_bind_eq_Inr [res_simps]:
  "res_bind m f = Inr b \<longleftrightarrow> (\<exists>a. m = Inr a \<and> f a = Inr b)"
  by (cases m) auto

lemma res_bind_eq_Inl [res_simps]:
  "res_bind m f = Inl e \<longleftrightarrow> m = Inl e \<or> (\<exists>a. m = Inr a \<and> f a = Inl e)"
  by (cases m) auto

lemma ensure_eq_Inr [res_simps]: "ensure c e = Inr u \<longleftrightarrow> c"
  by (simp add: ensure_def)

lemma ensure_eq_Inl [res_simps]: "ensure c e = Inl e' \<longleftrightarrow> \<not> c \<and> e' = e"
  by (auto simp: ensure_def)

lemma ensure_simps [simp]: "ensure True e = Inr ()" "ensure False e = Inl e"
  by (simp_all add: ensure_def)

lemma ok_or_simps [simp]: "ok_or e None = Inl e" "ok_or e (Some v) = Inr v"
  by (simp_all add: ok_or_def)

lemma ok_or_eq_Inr [res_simps]: "ok_or e x = Inr v \<longleftrightarrow> x = Some v"
  by (cases x) auto

lemma ok_or_eq_Inl [res_simps]: "ok_or e x = Inl e' \<longleftrightarrow> x = None \<and> e' = e"
  by (cases x) auto

lemma map_err_simps [simp]: "map_err f (Inl e) = Inl (f e)" "map_err f (Inr a) = Inr a"
  by (simp_all add: map_err_def)

lemma map_err_eq_Inr [res_simps]: "map_err f m = Inr a \<longleftrightarrow> m = Inr a"
  by (cases m) auto

lemma map_err_eq_Inl [res_simps]: "map_err f m = Inl e \<longleftrightarrow> (\<exists>e'. m = Inl e' \<and> e = f e')"
  by (cases m) auto

lemma is_ok_simps [simp]: "is_ok (Inl e) = False" "is_ok (Inr a) = True"
  by (simp_all add: is_ok_def)

lemma is_ok_iff: "is_ok m \<longleftrightarrow> (\<exists>a. m = Inr a)"
  by (cases m) auto

section \<open>Loops that may return early\<close>

text \<open>
  \<open>try_fold step s xs\<close> is \<open>for x in xs { s = step(s, x)?; } Ok(s)\<close>; \<open>try_map\<close> collects an
  iterator of results into a result of a vector.
\<close>

fun try_fold :: "('s \<Rightarrow> 'a \<Rightarrow> 'e + 's) \<Rightarrow> 's \<Rightarrow> 'a list \<Rightarrow> 'e + 's" where
  "try_fold step s [] = Inr s"
| "try_fold step s (x # xs) = res_bind (step s x) (\<lambda>s'. try_fold step s' xs)"

fun try_map :: "('a \<Rightarrow> 'e + 'b) \<Rightarrow> 'a list \<Rightarrow> 'e + 'b list" where
  "try_map f [] = Inr []"
| "try_map f (x # xs) = res_bind (f x) (\<lambda>y. res_bind (try_map f xs) (\<lambda>ys. Inr (y # ys)))"

lemma try_fold_append:
  "try_fold step s (xs @ ys) = res_bind (try_fold step s xs) (\<lambda>s'. try_fold step s' ys)"
proof (induction xs arbitrary: s)
  case Nil
  then show ?case by simp
next
  case (Cons x xs)
  then show ?case by (cases "step s x") simp_all
qed

lemma try_fold_invariant:
  assumes "try_fold step s xs = Inr t" and "P s"
    and "\<And>s x t. x \<in> set xs \<Longrightarrow> P s \<Longrightarrow> step s x = Inr t \<Longrightarrow> P t"
  shows "P t"
  using assms
proof (induction xs arbitrary: s)
  case Nil
  then show ?case by simp
next
  case (Cons x xs)
  from Cons.prems(1) obtain s' where step: "step s x = Inr s'" and rest: "try_fold step s' xs = Inr t"
    by (auto simp: res_simps)
  have "P s'" by (rule Cons.prems(3) [OF _ Cons.prems(2) step]) simp
  with rest show ?case by (rule Cons.IH) (rule Cons.prems(3); simp)
qed

lemma try_fold_total:
  assumes "\<And>s x. x \<in> set xs \<Longrightarrow> step s x = Inr (f s x)"
  shows "try_fold step s xs = Inr (foldl f s xs)"
  using assms by (induction xs arbitrary: s) simp_all

lemma try_fold_ok:
  assumes "\<And>s x. x \<in> set xs \<Longrightarrow> \<exists>t. step s x = Inr t"
  shows "\<exists>t. try_fold step s xs = Inr t"
  using assms
proof (induction xs arbitrary: s)
  case Nil
  then show ?case by simp
next
  case (Cons x xs)
  obtain t where "step s x = Inr t" using Cons.prems [of x s] by auto
  with Cons.IH [of t] Cons.prems show ?case by simp
qed

lemma try_fold_check:
  "try_fold (\<lambda>_. f) () xs = Inr u \<longleftrightarrow> (\<forall>x \<in> set xs. f x = Inr ())"
  by (induction xs) (auto simp: res_simps)

lemma try_fold_check_fails:
  "try_fold (\<lambda>_. f) () xs = Inl e \<Longrightarrow> \<exists>x \<in> set xs. f x = Inl e"
  by (induction xs) (auto simp: res_simps)

lemma try_fold_fails:
  assumes "try_fold step s xs = Inl e"
  obtains ys x zs s' where "xs = ys @ x # zs" "try_fold step s ys = Inr s'" "step s' x = Inl e"
  using assms
proof (induction xs arbitrary: s thesis)
  case Nil
  then show ?case by simp
next
  case (Cons x xs)
  show ?case
  proof (cases "step s x")
    case (Inl e')
    with Cons.prems show ?thesis by (intro Cons.prems(1) [of "[]" x xs s]) auto
  next
    case (Inr s1)
    with Cons.prems(2) have "try_fold step s1 xs = Inl e" by simp
    then obtain ys y zs s' where "xs = ys @ y # zs" "try_fold step s1 ys = Inr s'" "step s' y = Inl e"
      using Cons.IH by blast
    with Inr show ?thesis by (intro Cons.prems(1) [of "x # ys" y zs s']) auto
  qed
qed

lemma try_map_eq_Inr:
  "try_map f xs = Inr ys \<longleftrightarrow> list_all2 (\<lambda>x y. f x = Inr y) xs ys"
  by (induction xs arbitrary: ys) (auto simp: res_simps list_all2_Cons1)

lemma try_map_length: "try_map f xs = Inr ys \<Longrightarrow> length ys = length xs"
  by (auto simp: try_map_eq_Inr dest: list_all2_lengthD)

lemma try_map_total:
  "(\<And>x. x \<in> set xs \<Longrightarrow> f x = Inr (g x)) \<Longrightarrow> try_map f xs = Inr (map g xs)"
  by (induction xs) simp_all

lemma try_map_fails:
  "try_map f xs = Inl e \<Longrightarrow> \<exists>x \<in> set xs. f x = Inl e"
  by (induction xs) (auto simp: res_simps)

section \<open>Vectors\<close>

text \<open>\<open>get\<close> of a slice, and adjacent pairs (\<open>windows(2)\<close>).\<close>

definition vec_get :: "'a list \<Rightarrow> nat \<Rightarrow> 'a option" where
  "vec_get xs i = (if i < length xs then Some (xs ! i) else None)"

lemma vec_get_eq_Some [simp]: "vec_get xs i = Some x \<longleftrightarrow> i < length xs \<and> x = xs ! i"
  by (auto simp: vec_get_def)

lemma vec_get_eq_None [simp]: "vec_get xs i = None \<longleftrightarrow> length xs \<le> i"
  by (auto simp: vec_get_def)

fun windows2 :: "'a list \<Rightarrow> ('a \<times> 'a) list" where
  "windows2 (x # y # xs) = (x, y) # windows2 (y # xs)"
| "windows2 _ = []"

lemma windows2_all_iff:
  "transp P \<Longrightarrow> (\<forall>(a, b) \<in> set (windows2 xs). P a b) \<longleftrightarrow> sorted_wrt P xs"
  by (induction xs rule: windows2.induct) (auto dest: transpD)

section \<open>Stable sorting by a comparison\<close>

text \<open>
  \<open>sort_by\<close> is stable, so on a total preorder its result is determined; the model is the stable
  insertion sort. The comparison \<open>le a b\<close> is \<open>cmp(a, b) != Greater\<close>.
\<close>

fun insert_by :: "('a \<Rightarrow> 'a \<Rightarrow> bool) \<Rightarrow> 'a \<Rightarrow> 'a list \<Rightarrow> 'a list" where
  "insert_by le x [] = [x]"
| "insert_by le x (y # ys) = (if le x y then x # y # ys else y # insert_by le x ys)"

fun sort_by :: "('a \<Rightarrow> 'a \<Rightarrow> bool) \<Rightarrow> 'a list \<Rightarrow> 'a list" where
  "sort_by le [] = []"
| "sort_by le (x # xs) = insert_by le x (sort_by le xs)"

lemma mset_insert_by [simp]: "mset (insert_by le x ys) = add_mset x (mset ys)"
  by (induction ys) auto

lemma mset_sort_by [simp]: "mset (sort_by le xs) = mset xs"
  by (induction xs) auto

lemma set_sort_by [simp]: "set (sort_by le xs) = set xs"
  by (metis mset_sort_by set_mset_mset)

lemma length_sort_by [simp]: "length (sort_by le xs) = length xs"
  by (metis mset_sort_by size_mset)

lemma distinct_sort_by [simp]: "distinct (sort_by le xs) = distinct xs"
  by (metis mset_eq_imp_distinct_iff mset_sort_by)

lemma set_insert_by [simp]: "set (insert_by le x ys) = insert x (set ys)"
  by (induction ys) auto

lemma sorted_wrt_insert_by:
  assumes "totalp le" "reflp le" "transp le" "sorted_wrt le ys"
  shows "sorted_wrt le (insert_by le x ys)"
  using assms(4)
proof (induction ys)
  case Nil
  then show ?case by simp
next
  case (Cons y ys)
  show ?case
  proof (cases "le x y")
    case True
    with Cons.prems assms(3) show ?thesis by (auto dest: transpD)
  next
    case False
    then have "le y x" using assms(1,2) by (metis reflpD totalpD)
    with False Cons show ?thesis by simp
  qed
qed

lemma sorted_wrt_sort_by:
  assumes "totalp le" "reflp le" "transp le"
  shows "sorted_wrt le (sort_by le xs)"
  by (induction xs) (simp_all add: sorted_wrt_insert_by assms)

text \<open>On distinct keys under a strict total order the sorted list is unique.\<close>

lemma sorted_wrt_mset_unique:
  assumes "antisymp_on (set xs) le" "sorted_wrt le xs" "sorted_wrt le ys" "mset xs = mset ys"
  shows "xs = ys"
  using assms
proof (induction xs arbitrary: ys)
  case Nil
  then show ?case by simp
next
  case (Cons x xs)
  then obtain y ys' where ys: "ys = y # ys'" by (cases ys) auto
  have sets: "set (x # xs) = set ys" using Cons.prems(4) by (metis set_mset_mset)
  have "x = y"
  proof (rule ccontr)
    assume neq: "x \<noteq> y"
    with sets ys have "x \<in> set ys'" "y \<in> set xs" by auto
    then have "le x y" "le y x" using Cons.prems(2,3) ys by auto
    with neq \<open>y \<in> set xs\<close> Cons.prems(1) show False by (auto dest: antisymp_onD)
  qed
  with Cons.prems ys have "mset xs = mset ys'" "sorted_wrt le xs" "sorted_wrt le ys'" by auto
  with Cons.IH Cons.prems(1) \<open>x = y\<close> ys show ?case
    by (metis antisymp_on_subset set_subset_Cons)
qed

text \<open>\<open>min_by\<close> returns the first minimal element.\<close>

fun min_by :: "('a \<Rightarrow> 'a \<Rightarrow> bool) \<Rightarrow> 'a list \<Rightarrow> 'a option" where
  "min_by le [] = None"
| "min_by le (x # xs) = Some (foldl (\<lambda>best y. if le best y then best else y) x xs)"

lemma min_by_eq_None [simp]: "min_by le xs = None \<longleftrightarrow> xs = []"
  by (cases xs) auto

lemma foldl_min_by:
  assumes "totalp le" "reflp le" "transp le"
  shows "foldl (\<lambda>best y. if le best y then best else y) x xs \<in> set (x # xs) \<and>
    (\<forall>y \<in> set (x # xs). le (foldl (\<lambda>best y. if le best y then best else y) x xs) y)"
proof (induction xs arbitrary: x)
  case Nil
  then show ?case using assms(2) by (simp add: reflpD)
next
  case (Cons z zs)
  have "le x z \<or> le z x" using assms(1,2) by (metis reflpD totalpD)
  then show ?case using Cons [of x] Cons [of z] assms(3) by (auto dest: transpD)
qed

lemma min_by_SomeD:
  assumes "min_by le xs = Some m" "totalp le" "reflp le" "transp le"
  shows "m \<in> set xs" "y \<in> set xs \<Longrightarrow> le m y"
  using assms(1) foldl_min_by [OF assms(2-4)] by (cases xs; auto)+

lemma filter_eq_distinct: "distinct xs \<Longrightarrow> filter (\<lambda>x. x = a) xs = (if a \<in> set xs then [a] else [])"
  by (induction xs) (auto simp: filter_empty_conv)

section \<open>Runs of a sorted list\<close>

lemma sorted_filter_none:
  assumes "sorted (map f (x # xs))" "\<not> f x < (k::'a::linorder)"
  shows "filter (\<lambda>x. f x < k) xs = []" and "filter (\<lambda>x. k \<le> f x) xs = xs"
  using assms by (fastforce simp: filter_empty_conv filter_id_conv)+

lemma take_sorted_filter:
  "sorted (map f xs) \<Longrightarrow>
     take (length (filter (\<lambda>x. f x < (k::'a::linorder)) xs)) xs = filter (\<lambda>x. f x < k) xs"
proof (induction xs)
  case (Cons x xs)
  then show ?case using sorted_filter_none [of f x xs k] by (cases "f x < k") simp_all
qed simp

lemma drop_sorted_filter:
  "sorted (map f xs) \<Longrightarrow>
     drop (length (filter (\<lambda>x. f x < (k::'a::linorder)) xs)) xs = filter (\<lambda>x. k \<le> f x) xs"
proof (induction xs)
  case (Cons x xs)
  then show ?case using sorted_filter_none [of f x xs k] by (cases "f x < k") auto
qed simp

text \<open>The elements with one key form a segment, located by the counts of smaller keys.\<close>

lemma sorted_segment:
  fixes f :: "'a \<Rightarrow> nat"
  assumes "sorted (map f xs)"
  shows "take (length (filter (\<lambda>x. f x < Suc k) xs) - length (filter (\<lambda>x. f x < k) xs))
           (drop (length (filter (\<lambda>x. f x < k) xs)) xs) = filter (\<lambda>x. f x = k) xs"
proof -
  let ?a = "length (filter (\<lambda>x. f x < k) xs)" and ?b = "length (filter (\<lambda>x. f x < Suc k) xs)"
  have "take (?b - ?a) (drop ?a xs) = drop ?a (take ?b xs)" by (simp add: drop_take)
  also have "take ?b xs = filter (\<lambda>x. f x < Suc k) xs" by (rule take_sorted_filter [OF assms])
  also have "drop ?a (filter (\<lambda>x. f x < Suc k) xs) = filter (\<lambda>x. k \<le> f x) (filter (\<lambda>x. f x < Suc k) xs)"
  proof -
    have "sorted (map f (filter (\<lambda>x. f x < Suc k) xs))" using assms by (rule sorted_filter)
    moreover have "filter (\<lambda>x. f x < k) (filter (\<lambda>x. f x < Suc k) xs) = filter (\<lambda>x. f x < k) xs"
      by (auto simp: filter_filter intro: filter_cong)
    ultimately show ?thesis using drop_sorted_filter [of f "filter (\<lambda>x. f x < Suc k) xs" k] by simp
  qed
  also have "\<dots> = filter (\<lambda>x. f x = k) xs"
    by (auto simp: filter_filter intro: filter_cong)
  finally show ?thesis .
qed

lemma length_filter_less_Suc:
  fixes f :: "'a \<Rightarrow> nat"
  shows "length (filter (\<lambda>x. f x < Suc k) xs) =
    length (filter (\<lambda>x. f x < k) xs) + length (filter (\<lambda>x. f x = k) xs)"
  by (induction xs) auto

lemma filter_less_Suc_sorted:
  fixes f :: "'a \<Rightarrow> nat"
  assumes "sorted (map f xs)"
  shows "filter (\<lambda>x. f x < Suc n) xs = filter (\<lambda>x. f x < n) xs @ filter (\<lambda>x. f x = n) xs"
  using assms
proof (induction xs)
  case (Cons x xs)
  then show ?case using sorted_filter_none(1) [of f x xs n] by (cases "f x < n") auto
qed simp

lemma concat_filter_sorted:
  fixes f :: "'a \<Rightarrow> nat"
  assumes "sorted (map f xs)"
  shows "concat (map (\<lambda>c. filter (\<lambda>x. f x = c) xs) [0..<n]) = filter (\<lambda>x. f x < n) xs"
  by (induction n) (simp_all add: filter_less_Suc_sorted [OF assms])

lemma map_nth_segment:
  "b \<le> length xs \<Longrightarrow> map (\<lambda>i. g (xs ! i)) [a..<b] = map g (take (b - a) (drop a xs))"
  by (rule nth_equalityI) auto

section \<open>Texts\<close>

text \<open>
  Texts are ASCII character lists. \<open>trim\<close> removes white space at both ends; \<open>split_on\<close> is
  \<open>str::split\<close> with a character, which yields at least one segment.
\<close>

definition is_whitespace :: "char \<Rightarrow> bool" where
  "is_whitespace c = (c = CHR 0x20 \<or> (CHR 0x09 \<le> c \<and> c \<le> CHR 0x0D))"

definition trim_start :: "string \<Rightarrow> string" where
  "trim_start s = dropWhile is_whitespace s"

definition trim :: "string \<Rightarrow> string" where
  "trim s = rev (trim_start (rev (trim_start s)))"

fun split_on :: "char \<Rightarrow> string \<Rightarrow> string list" where
  "split_on c [] = [[]]"
| "split_on c (x # xs) =
     (if x = c then [] # split_on c xs
      else case split_on c xs of [] \<Rightarrow> [[x]] | seg # segs \<Rightarrow> (x # seg) # segs)"

definition is_ascii_hexdigit :: "char \<Rightarrow> bool" where
  "is_ascii_hexdigit c =
     (CHR ''0'' \<le> c \<and> c \<le> CHR ''9'' \<or> CHR ''a'' \<le> c \<and> c \<le> CHR ''f'' \<or> CHR ''A'' \<le> c \<and> c \<le> CHR ''F'')"

lemma split_on_not_Nil [simp]: "split_on c s \<noteq> []"
  by (cases s) (auto split: list.split)

lemma split_on_segments: "seg \<in> set (split_on c s) \<Longrightarrow> c \<notin> set seg"
  by (induction s arbitrary: seg) (auto split: if_splits list.splits)

section \<open>Association lists as hash maps\<close>

text \<open>
  A \<open>HashMap\<close> is an association list with distinct keys: \<open>map_of\<close> is \<open>get\<close>,
  \<open>AList.update\<close> is \<open>insert\<close> and \<open>AList.delete\<close> is \<open>remove\<close>. The order of the list stands for
  the unspecified iteration order of the map.
\<close>

definition alist_wf :: "('k \<times> 'v) list \<Rightarrow> bool" where
  "alist_wf es = distinct (map fst es)"

lemma alist_wf_Nil [simp]: "alist_wf []"
  by (simp add: alist_wf_def)

lemma alist_wf_Cons [simp]: "alist_wf ((k, v) # es) \<longleftrightarrow> k \<notin> fst ` set es \<and> alist_wf es"
  by (simp add: alist_wf_def)

lemma alist_wf_update [simp]: "alist_wf es \<Longrightarrow> alist_wf (AList.update k v es)"
  by (simp add: alist_wf_def distinct_update)

lemma alist_wf_delete [simp]: "alist_wf es \<Longrightarrow> alist_wf (AList.delete k es)"
  by (simp add: alist_wf_def distinct_delete)

lemma alist_get_iff: "alist_wf es \<Longrightarrow> map_of es k = Some v \<longleftrightarrow> (k, v) \<in> set es"
  by (simp add: alist_wf_def map_of_eq_Some_iff)

lemma update_fresh: "k \<notin> fst ` set es \<Longrightarrow> AList.update k v es = es @ [(k, v)]"
  by (induction es) auto

lemma delete_not_in [simp]: "k \<notin> fst ` set es \<Longrightarrow> AList.delete k es = es"
  by (induction es) auto

lemma fst_set_delete [simp]: "fst ` set (AList.delete k es) = fst ` set es - {k}"
  by (induction es) auto

lemma fst_set_update [simp]: "fst ` set (AList.update k v es) = insert k (fst ` set es)"
  by (induction es) auto

lemma in_set_update: "x \<in> set (AList.update k v es) \<Longrightarrow> x = (k, v) \<or> x \<in> set es"
  by (induction es) (auto split: if_splits)

lemma set_delete: "set (AList.delete k es) = {(a, b) \<in> set es. a \<noteq> k}"
  by (induction es) auto

lemma length_delete_less: "k \<in> fst ` set es \<Longrightarrow> length (AList.delete k es) < length es"
  by (induction es) (auto simp: AList.delete_eq intro: le_imp_less_Suc)

text \<open>The weight of an association list under a measure of its entries.\<close>

definition alist_sum :: "('v \<Rightarrow> nat) \<Rightarrow> ('k \<times> 'v) list \<Rightarrow> nat" where
  "alist_sum f es = sum_list (map (f \<circ> snd) es)"

lemma alist_sum_simps [simp]:
  "alist_sum f [] = 0" "alist_sum f ((k, v) # es) = f v + alist_sum f es"
  "alist_sum f (es @ fs) = alist_sum f es + alist_sum f fs"
  by (simp_all add: alist_sum_def)

lemma alist_sum_delete:
  "alist_wf es \<Longrightarrow> map_of es k = Some v \<Longrightarrow> alist_sum f es = f v + alist_sum f (AList.delete k es)"
  by (induction es) (auto split: if_splits)

lemma alist_sum_delete_le: "alist_sum f (AList.delete k es) \<le> alist_sum f es"
  by (induction es) auto

lemma alist_sum_member: "(k, v) \<in> set es \<Longrightarrow> f v \<le> alist_sum f es"
  by (induction es) auto

lemma alist_sum_pos: "0 < alist_sum f es \<Longrightarrow> \<exists>(k, v) \<in> set es. 0 < f v"
  by (induction es) force+

lemma alist_sum_update_same:
  assumes "alist_wf es" "map_of es k = Some v" "f w = f v"
  shows "alist_sum f (AList.update k w es) = alist_sum f es"
  using assms by (induction es) (auto split: if_splits)

end
