(* ===== verification/Float64.thy ===== *)
theory Float64
  imports Worker_Prelude Complex_Main
begin

text \<open>
  IEEE-754 binary64 (\<open>f64\<close>) as the Rust code uses it. A finite value carries the rational it
  denotes; negative zero, the infinities and NaN are values of their own. Arithmetic computes the
  exact rational result and rounds it to nearest, ties to even, with gradual underflow and overflow
  to infinity. NaN payloads and NaN signs are not represented: there is one NaN, which
  \<open>total_cmp\<close> places above every number (the code compares absolute values only, and \<open>abs\<close>
  clears the sign bit).
\<close>

section \<open>Values and rounding\<close>

datatype f64 = NaN | PosInf | NegInf | NegZero | Fin rat

definition pow2 :: "int \<Rightarrow> rat" where
  "pow2 k = (if 0 \<le> k then of_int (2 ^ nat k) else 1 / of_int (2 ^ nat (- k)))"

fun bit_len :: "int \<Rightarrow> int" where
  "bit_len n = (if n \<le> 0 then 0 else 1 + bit_len (n div 2))"

declare bit_len.simps [simp del]

text \<open>The exponent of the leading bit of a positive rational.\<close>

definition ilog2 :: "rat \<Rightarrow> int" where
  "ilog2 q =
     (let (n, d) = quotient_of q; e = bit_len n - bit_len d
      in if pow2 e \<le> q then e else e - 1)"

definition round_half_even :: "rat \<Rightarrow> int" where
  "round_half_even q =
     (let f = \<lfloor>q\<rfloor>; r = q - of_int f
      in if r < 1 / 2 then f else if 1 / 2 < r then f + 1 else if even f then f else f + 1)"

definition ulp_exp :: "rat \<Rightarrow> int" where
  "ulp_exp q = max (ilog2 \<bar>q\<bar>) (- 1022) - 52"

definition round_mag :: "rat \<Rightarrow> rat" where
  "round_mag q = of_int (round_half_even (q / pow2 (ulp_exp q))) * pow2 (ulp_exp q)"

definition f64_round :: "rat \<Rightarrow> f64" where
  "f64_round q =
     (if q = 0 then Fin 0
      else let v = round_mag \<bar>q\<bar>
           in if 0 < v \<and> 1024 \<le> ilog2 v then (if q < 0 then NegInf else PosInf)
              else if v = 0 then (if q < 0 then NegZero else Fin 0)
              else Fin (if q < 0 then - v else v))"

text \<open>A decimal literal of the source denotes the nearest binary64 value.\<close>

definition f64_lit :: "rat \<Rightarrow> f64" where
  "f64_lit q = f64_round q"

section \<open>Classification\<close>

fun is_finite :: "f64 \<Rightarrow> bool" where
  "is_finite (Fin q) = True"
| "is_finite NegZero = True"
| "is_finite _ = False"

fun f64_val :: "f64 \<Rightarrow> rat" where
  "f64_val (Fin q) = q"
| "f64_val _ = 0"

text \<open>The sign bit; NaN is taken as positive.\<close>

fun f64_sign :: "f64 \<Rightarrow> bool" where
  "f64_sign (Fin q) = (q < 0)"
| "f64_sign NegZero = True"
| "f64_sign NegInf = True"
| "f64_sign _ = False"

definition f64_is_zero :: "f64 \<Rightarrow> bool" where
  "f64_is_zero x = (x = NegZero \<or> x = Fin 0)"

definition signed_inf :: "bool \<Rightarrow> f64" where
  "signed_inf s = (if s then NegInf else PosInf)"

definition signed_zero :: "bool \<Rightarrow> f64" where
  "signed_zero s = (if s then NegZero else Fin 0)"

section \<open>Arithmetic\<close>

text \<open>Addition: an exact zero sum is +0 unless both operands are -0.\<close>

definition f64_add :: "f64 \<Rightarrow> f64 \<Rightarrow> f64" where
  "f64_add x y =
     (if x = NaN \<or> y = NaN then NaN
      else if x = PosInf then (if y = NegInf then NaN else PosInf)
      else if x = NegInf then (if y = PosInf then NaN else NegInf)
      else if y = PosInf \<or> y = NegInf then y
      else if x = NegZero \<and> y = NegZero then NegZero
      else f64_round (f64_val x + f64_val y))"

fun f64_neg :: "f64 \<Rightarrow> f64" where
  "f64_neg NaN = NaN"
| "f64_neg PosInf = NegInf"
| "f64_neg NegInf = PosInf"
| "f64_neg NegZero = Fin 0"
| "f64_neg (Fin q) = (if q = 0 then NegZero else Fin (- q))"

definition f64_sub :: "f64 \<Rightarrow> f64 \<Rightarrow> f64" where
  "f64_sub x y = f64_add x (f64_neg y)"

definition f64_mul :: "f64 \<Rightarrow> f64 \<Rightarrow> f64" where
  "f64_mul x y =
     (let s = (f64_sign x \<noteq> f64_sign y) in
      if x = NaN \<or> y = NaN then NaN
      else if \<not> is_finite x then (if f64_is_zero y then NaN else signed_inf s)
      else if \<not> is_finite y then (if f64_is_zero x then NaN else signed_inf s)
      else if f64_is_zero x \<or> f64_is_zero y then signed_zero s
      else f64_round (f64_val x * f64_val y))"

definition f64_div :: "f64 \<Rightarrow> f64 \<Rightarrow> f64" where
  "f64_div x y =
     (let s = (f64_sign x \<noteq> f64_sign y) in
      if x = NaN \<or> y = NaN then NaN
      else if \<not> is_finite x then (if is_finite y then signed_inf s else NaN)
      else if \<not> is_finite y then signed_zero s
      else if f64_is_zero y then (if f64_is_zero x then NaN else signed_inf s)
      else if f64_is_zero x then signed_zero s
      else f64_round (f64_val x / f64_val y))"

fun f64_abs :: "f64 \<Rightarrow> f64" where
  "f64_abs NaN = NaN"
| "f64_abs PosInf = PosInf"
| "f64_abs NegInf = PosInf"
| "f64_abs NegZero = Fin 0"
| "f64_abs (Fin q) = Fin \<bar>q\<bar>"

section \<open>Comparison\<close>

text \<open>The IEEE comparisons are false whenever an operand is NaN, and identify the two zeros.\<close>

fun f64_less :: "f64 \<Rightarrow> f64 \<Rightarrow> bool" where
  "f64_less NaN _ = False"
| "f64_less _ NaN = False"
| "f64_less PosInf _ = False"
| "f64_less _ NegInf = False"
| "f64_less NegInf _ = True"
| "f64_less _ PosInf = True"
| "f64_less x y = (f64_val x < f64_val y)"

definition f64_eq :: "f64 \<Rightarrow> f64 \<Rightarrow> bool" where
  "f64_eq x y = (x \<noteq> NaN \<and> y \<noteq> NaN \<and> (x = y \<or> f64_is_zero x \<and> f64_is_zero y))"

definition f64_le :: "f64 \<Rightarrow> f64 \<Rightarrow> bool" where
  "f64_le x y = (f64_less x y \<or> f64_eq x y)"

text \<open>The arithmetic and order symbols denote the binary64 operations.\<close>

instantiation f64 :: "{zero, one, plus, minus, uminus, times, abs, ord}"
begin

definition zero_f64 :: f64 where
  "zero_f64 = Fin 0"

definition one_f64 :: f64 where
  "one_f64 = Fin 1"

definition plus_f64 :: "f64 \<Rightarrow> f64 \<Rightarrow> f64" where
  "plus_f64 = f64_add"

definition minus_f64 :: "f64 \<Rightarrow> f64 \<Rightarrow> f64" where
  "minus_f64 = f64_sub"

definition uminus_f64 :: "f64 \<Rightarrow> f64" where
  "uminus_f64 = f64_neg"

definition times_f64 :: "f64 \<Rightarrow> f64 \<Rightarrow> f64" where
  "times_f64 = f64_mul"

definition abs_f64 :: "f64 \<Rightarrow> f64" where
  "abs_f64 = f64_abs"

definition less_f64 :: "f64 \<Rightarrow> f64 \<Rightarrow> bool" where
  "less_f64 = f64_less"

definition less_eq_f64 :: "f64 \<Rightarrow> f64 \<Rightarrow> bool" where
  "less_eq_f64 = f64_le"

instance ..

end

lemmas f64_ops = zero_f64_def one_f64_def plus_f64_def minus_f64_def uminus_f64_def times_f64_def
  abs_f64_def less_f64_def less_eq_f64_def

text \<open>\<open>f64::max\<close>, \<open>f64::min\<close> (a NaN operand is ignored), \<open>clamp\<close>, \<open>recip\<close>, \<open>signum\<close>, \<open>ceil\<close>.\<close>

definition f64_max :: "f64 \<Rightarrow> f64 \<Rightarrow> f64" where
  "f64_max x y = (if x = NaN then y else if y = NaN then x else if f64_less x y then y else x)"

definition f64_min :: "f64 \<Rightarrow> f64 \<Rightarrow> f64" where
  "f64_min x y = (if x = NaN then y else if y = NaN then x else if f64_less y x then y else x)"

definition f64_clamp :: "f64 \<Rightarrow> f64 \<Rightarrow> f64 \<Rightarrow> f64" where
  "f64_clamp lo hi x = (if f64_less x lo then lo else if f64_less hi x then hi else x)"

definition f64_recip :: "f64 \<Rightarrow> f64" where
  "f64_recip x = f64_div (Fin 1) x"

definition f64_signum :: "f64 \<Rightarrow> f64" where
  "f64_signum x = (if x = NaN then NaN else if f64_sign x then Fin (- 1) else Fin 1)"

fun f64_ceil :: "f64 \<Rightarrow> f64" where
  "f64_ceil (Fin q) = (if q < 0 \<and> \<lceil>q\<rceil> = 0 then NegZero else Fin (of_int \<lceil>q\<rceil>))"
| "f64_ceil x = x"

text \<open>
  \<open>total_cmp\<close> as a less-or-equal test: the order of the bit patterns, with -0 below +0 and NaN
  on top.
\<close>

fun total_rank :: "f64 \<Rightarrow> nat \<times> rat \<times> nat" where
  "total_rank NegInf = (0, 0, 0)"
| "total_rank (Fin q) = (1, q, 1)"
| "total_rank NegZero = (1, 0, 0)"
| "total_rank PosInf = (2, 0, 0)"
| "total_rank NaN = (3, 0, 0)"

definition total_le :: "f64 \<Rightarrow> f64 \<Rightarrow> bool" where
  "total_le x y =
     (case (total_rank x, total_rank y) of
        ((a, p, i), (b, q, j)) \<Rightarrow> a < b \<or> a = b \<and> (p < q \<or> p = q \<and> i \<le> j))"

text \<open>The iterator sum of binary64 values folds from -0, the neutral element of addition.\<close>

definition f64_sum :: "f64 list \<Rightarrow> f64" where
  "f64_sum xs = foldl f64_add NegZero xs"

text \<open>
  Formatting with no decimals and parsing the text as \<open>usize\<close>: fails on NaN, on an infinity,
  on a value whose text carries a minus sign, and above \<open>usize::MAX\<close>.
\<close>

fun f64_to_usize :: "f64 \<Rightarrow> usize option" where
  "f64_to_usize (Fin q) =
     (if q < 0 then None
      else let n = nat (round_half_even q) in if n \<le> u64_max then Some n else None)"
| "f64_to_usize _ = None"

text \<open>
  The bit pattern (NaN is the quiet NaN) and its little-endian bytes. The significand of a finite
  value is its quotient by the unit in the last place; without the hidden bit it is subnormal.
\<close>

fun f64_bits :: "f64 \<Rightarrow> int" where
  "f64_bits NaN = 9221120237041090560"
| "f64_bits PosInf = 9218868437227405312"
| "f64_bits NegInf = 18442240474082181120"
| "f64_bits NegZero = 9223372036854775808"
| "f64_bits (Fin q) =
     (if q = 0 then 0
      else let e = ulp_exp q;
               significand = \<lfloor>\<bar>q\<bar> / pow2 e\<rfloor>;
               magnitude = (if significand < 4503599627370496 then significand
                            else (e + 1075) * 4503599627370496 + (significand - 4503599627370496))
           in (if q < 0 then 9223372036854775808 else 0) + magnitude)"

definition f64_to_le_bytes :: "f64 \<Rightarrow> nat list" where
  "f64_to_le_bytes x = map (\<lambda>i. nat (f64_bits x div 256 ^ i mod 256)) [0..<8]"

section \<open>Rounding is correct on representable values\<close>

lemma pow2_powi: "pow2 k = 2 powi k"
  by (simp add: pow2_def power_int_def inverse_eq_divide power_one_over)

lemma pow2_pos [simp]: "0 < pow2 k"
  by (simp add: pow2_powi)

lemma pow2_nonneg [simp]: "0 \<le> pow2 k"
  by (simp add: pow2_powi)

lemma pow2_neq_0 [simp]: "pow2 k \<noteq> 0"
  by (simp add: pow2_powi)

lemma pow2_add: "pow2 (a + b) = pow2 a * pow2 b"
  by (simp add: pow2_powi power_int_add)

lemma pow2_diff: "pow2 (a - b) = pow2 a / pow2 b"
  by (simp add: pow2_powi power_int_diff)

lemma pow2_strict_mono: "a < b \<Longrightarrow> pow2 a < pow2 b"
  by (simp add: pow2_powi power_int_strict_increasing)

lemma pow2_less_iff [simp]: "pow2 a < pow2 b \<longleftrightarrow> a < b"
  using pow2_strict_mono [of a b] pow2_strict_mono [of b a] by (cases a b rule: linorder_cases) auto

lemma pow2_le_iff [simp]: "pow2 a \<le> pow2 b \<longleftrightarrow> a \<le> b"
  using pow2_less_iff [of b a] by (simp only: not_less [symmetric])

lemma pow2_Suc: "pow2 (1 + k) = 2 * pow2 k"
  by (simp add: pow2_powi power_int_add)

lemma pow2_nonneg_int: "0 \<le> k \<Longrightarrow> pow2 k = of_int (2 ^ nat k)"
  by (simp add: pow2_def)

lemma bit_len_nonneg: "0 \<le> bit_len n"
  by (induction n rule: bit_len.induct) (simp add: bit_len.simps)

lemma bit_len_bounds: "0 < n \<Longrightarrow> pow2 (bit_len n - 1) \<le> of_int n \<and> of_int n < pow2 (bit_len n)"
proof (induction n rule: bit_len.induct)
  case (1 n)
  show ?case
  proof (cases "n = 1")
    case True
    then show ?thesis by (simp add: bit_len.simps [of 1] bit_len.simps [of 0] pow2_def)
  next
    case False
    with "1.prems" have half: "0 < n div 2" by auto
    let ?l = "bit_len (n div 2)"
    have len: "bit_len n = 1 + ?l" using "1.prems" by (simp add: bit_len.simps [of n])
    from 1 half have IH: "pow2 (?l - 1) \<le> of_int (n div 2)" "of_int (n div 2) < pow2 ?l" by auto
    have l: "0 \<le> ?l" by (rule bit_len_nonneg)
    from IH(2) have "n div 2 < 2 ^ nat ?l" by (simp only: pow2_nonneg_int [OF l] of_int_less_iff)
    then have "n < 2 * 2 ^ nat ?l" by linarith
    then have "of_int n < (of_int (2 * 2 ^ nat ?l) :: rat)" by (simp only: of_int_less_iff)
    then have up: "of_int n < pow2 (1 + ?l)" by (simp add: pow2_Suc pow2_nonneg_int [OF l])
    have "2 * (n div 2) \<le> n" by simp
    then have "2 * of_int (n div 2) \<le> (of_int n :: rat)"
      by (metis of_int_le_iff of_int_mult of_int_numeral)
    moreover have "pow2 ?l = 2 * pow2 (?l - 1)" by (simp add: pow2_powi power_int_diff)
    ultimately have "pow2 ?l \<le> of_int n" using IH(1) by linarith
    with up len show ?thesis by simp
  qed
qed

lemma ilog2_bounds:
  assumes "0 < q"
  shows "pow2 (ilog2 q) \<le> q" and "q < pow2 (ilog2 q + 1)"
proof -
  obtain n d where nd: "quotient_of q = (n, d)" by (cases "quotient_of q")
  then have d: "0 < d" and q: "q = of_int n / of_int d"
    by (simp_all add: quotient_of_denom_pos quotient_of_div)
  with assms have n: "0 < n" by (simp add: zero_less_divide_iff)
  define e where "e = bit_len n - bit_len d"
  note bn = bit_len_bounds [OF n] and bd = bit_len_bounds [OF d]
  have d': "(0::rat) < of_int d" using d by simp
  have "q < pow2 (bit_len n) / pow2 (bit_len d - 1)"
    unfolding q using bn bd n d by (intro frac_less) auto
  then have up: "q < pow2 (e + 1)"
    by (simp add: e_def pow2_diff pow2_add)
  have "pow2 (bit_len n - 1) / pow2 (bit_len d) \<le> q"
    unfolding q using bn bd n d' by (intro frac_le) auto
  then have low: "pow2 (e - 1) \<le> q"
    by (simp add: e_def pow2_diff pow2_add field_simps)
  have log: "ilog2 q = (if pow2 e \<le> q then e else e - 1)"
    by (simp add: ilog2_def nd e_def)
  show "pow2 (ilog2 q) \<le> q" using log low by simp
  show "q < pow2 (ilog2 q + 1)" using log up by auto
qed

lemma ilog2_less_iff: "0 < q \<Longrightarrow> ilog2 q < k \<longleftrightarrow> q < pow2 k"
  using ilog2_bounds [of q] pow2_le_iff [of "ilog2 q + 1" k] pow2_le_iff [of k "ilog2 q"]
  by (metis less_le_trans not_le zless_add1_eq add1_zle_eq order_le_less_trans)

lemma ilog2_le_iff: "0 < q \<Longrightarrow> k \<le> ilog2 q \<longleftrightarrow> pow2 k \<le> q"
  using ilog2_less_iff [of q k] by (metis not_le)

lemma round_half_even_of_int [simp]: "round_half_even (of_int n) = n"
  by (simp add: round_half_even_def)

lemma round_half_even_nonneg: "0 \<le> q \<Longrightarrow> 0 \<le> round_half_even q"
  by (simp add: round_half_even_def Let_def)

lemma round_half_even_close: "\<bar>of_int (round_half_even q) - q\<bar> \<le> 1 / 2"
proof -
  have "of_int \<lfloor>q\<rfloor> \<le> q" "q < of_int \<lfloor>q\<rfloor> + 1" using floor_correct [of q] by simp_all
  then show ?thesis by (simp add: round_half_even_def Let_def abs_le_iff split: if_split)
qed

text \<open>A rational is representable when it is an integer multiple of a unit in the last place.\<close>

definition representable :: "rat \<Rightarrow> bool" where
  "representable q =
     (q = 0 \<or> ilog2 \<bar>q\<bar> < 1024 \<and> \<bar>q\<bar> / pow2 (ulp_exp q) = of_int \<lfloor>\<bar>q\<bar> / pow2 (ulp_exp q)\<rfloor>)"

lemma ulp_exp_abs [simp]: "ulp_exp \<bar>q\<bar> = ulp_exp q"
  by (simp add: ulp_exp_def)

lemma f64_round_representable: "representable q \<Longrightarrow> f64_round q = Fin q"
proof (cases "q = 0")
  case True
  then show ?thesis by (simp add: f64_round_def)
next
  case False
  assume rep: "representable q"
  let ?u = "pow2 (ulp_exp q)"
  from rep False have int: "\<bar>q\<bar> / ?u = of_int \<lfloor>\<bar>q\<bar> / ?u\<rfloor>" and top: "ilog2 \<bar>q\<bar> < 1024"
    by (auto simp: representable_def)
  have "round_mag \<bar>q\<bar> = of_int (round_half_even (of_int \<lfloor>\<bar>q\<bar> / ?u\<rfloor>)) * ?u"
    using int by (simp add: round_mag_def)
  also have "\<dots> = \<bar>q\<bar>" using int by (simp add: field_simps)
  finally show ?thesis using False top by (simp add: f64_round_def Let_def)
qed

lemma representable_of_int:
  assumes "\<bar>n\<bar> < 9007199254740992"
  shows "representable (of_int n)"
proof (cases "n = 0")
  case True
  then show ?thesis by (simp add: representable_def)
next
  case False
  let ?q = "\<bar>of_int n\<bar> :: rat"
  have pos: "0 < ?q" using False by simp
  have "?q < 9007199254740992" using assms by (metis of_int_abs of_int_less_numeral_iff)
  then have "?q < pow2 53" by (simp add: pow2_def)
  then have lg: "ilog2 ?q < 53" using ilog2_less_iff [OF pos] by simp
  have "1 \<le> ?q" using False by (metis of_int_1_le_iff of_int_abs zero_less_abs_iff int_one_le_iff_zero_less)
  then have "pow2 0 \<le> ?q" by (simp add: pow2_def)
  then have lg0: "0 \<le> ilog2 ?q" using ilog2_le_iff [OF pos] by simp
  let ?k = "52 - ilog2 ?q"
  have u: "ulp_exp (of_int n) = - ?k" using lg0 by (simp add: ulp_exp_def)
  have k: "0 \<le> ?k" using lg by simp
  have "?q / pow2 (- ?k) = ?q * pow2 ?k"
    unfolding pow2_powi power_int_minus by (simp add: divide_inverse del: minus_diff_eq)
  also have "\<dots> = of_int (\<bar>n\<bar> * 2 ^ nat ?k)" using k by (simp add: pow2_def)
  finally have "?q / pow2 (ulp_exp (of_int n)) = of_int (\<bar>n\<bar> * 2 ^ nat ?k)" by (simp only: u)
  then show ?thesis using lg by (simp add: representable_def)
qed

lemma f64_round_of_int [simp]: "\<bar>n\<bar> < 9007199254740992 \<Longrightarrow> f64_round (of_int n) = Fin (of_int n)"
  by (intro f64_round_representable representable_of_int)

lemma f64_round_numeral [simp]:
  "numeral k < (9007199254740992::int) \<Longrightarrow> f64_round (numeral k) = Fin (numeral k)"
  "numeral k < (9007199254740992::int) \<Longrightarrow> f64_round (- numeral k) = Fin (- numeral k)"
  using f64_round_of_int [of "numeral k"] f64_round_of_int [of "- numeral k"] by simp_all

lemma f64_round_0_1 [simp]: "f64_round 0 = Fin 0" "f64_round 1 = Fin 1" "f64_round (- 1) = Fin (- 1)"
  using f64_round_of_int [of 0] f64_round_of_int [of 1] f64_round_of_int [of "- 1"] by simp_all

section \<open>Sign and order\<close>

text \<open>Values of the order of magnitude that comparisons with zero see.\<close>

definition f64_nonneg :: "f64 \<Rightarrow> bool" where
  "f64_nonneg x = f64_le (Fin 0) x"

lemma f64_nonneg_simps [simp]:
  "f64_nonneg NaN = False" "f64_nonneg PosInf = True" "f64_nonneg NegInf = False"
  "f64_nonneg NegZero = True" "f64_nonneg (Fin q) = (0 \<le> q)"
  by (auto simp: f64_nonneg_def f64_le_def f64_eq_def f64_is_zero_def)

lemma round_mag_nonneg: "0 \<le> q \<Longrightarrow> 0 \<le> round_mag q"
  by (simp add: round_mag_def round_half_even_nonneg)

lemma f64_round_nonneg: "0 \<le> q \<Longrightarrow> f64_nonneg (f64_round q)"
  using round_mag_nonneg [of q] by (simp add: f64_round_def Let_def)

lemma f64_round_not_NaN [simp]: "f64_round q \<noteq> NaN"
  by (simp add: f64_round_def Let_def)

lemma f64_abs_nonneg: "x \<noteq> NaN \<Longrightarrow> f64_nonneg (f64_abs x)"
  by (cases x) auto

lemma f64_abs_NaN_iff [simp]: "f64_abs x = NaN \<longleftrightarrow> x = NaN"
  by (cases x) auto

lemma f64_add_nonneg: "f64_nonneg x \<Longrightarrow> f64_nonneg y \<Longrightarrow> f64_nonneg (f64_add x y)"
  by (cases x; cases y) (auto simp: f64_add_def intro: f64_round_nonneg)

lemma f64_less_irrefl [simp]: "\<not> f64_less x x"
  by (cases x) auto

lemma f64_less_asym: "f64_less x y \<Longrightarrow> \<not> f64_less y x"
  by (cases x; cases y) auto

lemma f64_less_trans: "f64_less x y \<Longrightarrow> f64_less y z \<Longrightarrow> f64_less x z"
  by (cases x; cases y; cases z) auto

lemma f64_le_trans: "f64_le x y \<Longrightarrow> f64_le y z \<Longrightarrow> f64_le x z"
  by (cases x; cases y; cases z) (auto simp: f64_le_def f64_eq_def f64_is_zero_def)

lemma f64_le_NaN [simp]: "\<not> f64_le NaN x" "\<not> f64_le x NaN"
  by (cases x; simp add: f64_le_def f64_eq_def)+

lemma f64_not_le_iff_less: "x \<noteq> NaN \<Longrightarrow> y \<noteq> NaN \<Longrightarrow> \<not> f64_le x y \<longleftrightarrow> f64_less y x"
  by (cases x; cases y) (auto simp: f64_le_def f64_eq_def f64_is_zero_def)

lemma f64_max_not_NaN: "y \<noteq> NaN \<Longrightarrow> f64_max x y \<noteq> NaN"
  by (auto simp: f64_max_def)

lemma f64_max_ge2: "y \<noteq> NaN \<Longrightarrow> f64_le y (f64_max x y)"
  by (cases x; cases y) (auto simp: f64_max_def f64_le_def f64_eq_def f64_is_zero_def)

lemma f64_clamp_range:
  assumes "x \<noteq> NaN" "f64_le lo hi"
  shows "f64_le lo (f64_clamp lo hi x)" and "f64_le (f64_clamp lo hi x) hi"
  using assms
  by (cases x; cases lo; cases hi; auto simp: f64_clamp_def f64_le_def f64_eq_def f64_is_zero_def)+

section \<open>The total order\<close>

lemma total_le_refl [simp]: "total_le x x"
  by (cases x) (auto simp: total_le_def)

lemma total_le_trans: "total_le x y \<Longrightarrow> total_le y z \<Longrightarrow> total_le x z"
  by (cases x; cases y; cases z) (auto simp: total_le_def)

lemma total_le_linear: "total_le x y \<or> total_le y x"
  by (cases x; cases y) (auto simp: total_le_def)

lemma total_le_antisym: "total_le x y \<Longrightarrow> total_le y x \<Longrightarrow> x = y"
  by (cases x; cases y) (auto simp: total_le_def split: if_splits)

text \<open>On numbers, the total order refines the IEEE order.\<close>

lemma total_le_imp_le: "total_le x y \<Longrightarrow> y \<noteq> NaN \<Longrightarrow> f64_le x y"
  by (cases x; cases y) (auto simp: total_le_def f64_le_def f64_eq_def f64_is_zero_def)

section \<open>Machine values\<close>

text \<open>The values a binary64 register can hold; on them sign changes are exact.\<close>

definition f64_wf :: "f64 \<Rightarrow> bool" where
  "f64_wf x = (case x of Fin q \<Rightarrow> representable q | _ \<Rightarrow> True)"

lemma f64_wf_simps [simp]: "f64_wf (Fin q) = representable q" "f64_wf NaN" "f64_wf PosInf" "f64_wf NegInf" "f64_wf NegZero"
  by (simp_all add: f64_wf_def)

lemma ulp_exp_uminus [simp]: "ulp_exp (- q) = ulp_exp q"
  by (simp add: ulp_exp_def)

lemma representable_uminus [simp]: "representable (- q) = representable q"
  by (simp add: representable_def)

lemma representable_abs [simp]: "representable \<bar>q\<bar> = representable q"
  by (simp add: abs_if)

lemma f64_round_sign: "f64_less (f64_round q) (Fin 0) \<Longrightarrow> q < 0"
  using f64_round_nonneg [of q] by (cases "f64_round q"; cases "q < 0") auto

section \<open>Rounding is monotone\<close>

lemma round_half_even_mono: "p \<le> q \<Longrightarrow> round_half_even p \<le> round_half_even q"
proof -
  assume le: "p \<le> q"
  have floors: "\<lfloor>p\<rfloor> \<le> \<lfloor>q\<rfloor>" using le by (rule floor_mono)
  show ?thesis
  proof (cases "\<lfloor>p\<rfloor> = \<lfloor>q\<rfloor>")
    case True
    with le show ?thesis by (simp add: round_half_even_def Let_def)
  next
    case False
    then have "\<lfloor>p\<rfloor> + 1 \<le> \<lfloor>q\<rfloor>" using floors by linarith
    moreover have "round_half_even p \<le> \<lfloor>p\<rfloor> + 1" "\<lfloor>q\<rfloor> \<le> round_half_even q"
      by (simp_all add: round_half_even_def Let_def)
    ultimately show ?thesis by linarith
  qed
qed

lemma ilog2_mono: "0 < p \<Longrightarrow> p \<le> q \<Longrightarrow> ilog2 p \<le> ilog2 q"
  using ilog2_le_iff [of p "ilog2 p"] ilog2_le_iff [of q "ilog2 p"] by linarith

lemma round_mag_le_pow2:
  assumes "0 < q" "q \<le> pow2 k" "ulp_exp q \<le> k"
  shows "round_mag q \<le> pow2 k"
proof -
  let ?e = "ulp_exp q"
  have "q / pow2 ?e \<le> pow2 (k - ?e)" using assms(2) by (simp add: pow2_diff divide_right_mono)
  also have "\<dots> = of_int (2 ^ nat (k - ?e))" using assms(3) by (simp add: pow2_nonneg_int)
  finally have "round_half_even (q / pow2 ?e) \<le> 2 ^ nat (k - ?e)"
    using round_half_even_mono round_half_even_of_int by metis
  then have "of_int (round_half_even (q / pow2 ?e)) \<le> pow2 (k - ?e)"
    using assms(3) by (metis diff_ge_0_iff_ge of_int_le_iff pow2_nonneg_int)
  then have "round_mag q \<le> pow2 (k - ?e) * pow2 ?e" by (simp add: round_mag_def)
  then show ?thesis by (simp flip: pow2_add)
qed

lemma round_mag_ge_pow2:
  assumes "0 < q" "pow2 k \<le> q" "ulp_exp q \<le> k"
  shows "pow2 k \<le> round_mag q"
proof -
  let ?e = "ulp_exp q"
  have "of_int (2 ^ nat (k - ?e)) = pow2 (k - ?e)" using assms(3) by (simp add: pow2_nonneg_int)
  also have "\<dots> \<le> q / pow2 ?e" using assms(2) by (simp add: pow2_diff divide_right_mono)
  finally have "2 ^ nat (k - ?e) \<le> round_half_even (q / pow2 ?e)"
    using round_half_even_mono round_half_even_of_int by metis
  then have "pow2 (k - ?e) \<le> of_int (round_half_even (q / pow2 ?e))"
    using assms(3) by (metis diff_ge_0_iff_ge of_int_le_iff pow2_nonneg_int)
  then have "pow2 (k - ?e) * pow2 ?e \<le> round_mag q" by (simp add: round_mag_def)
  then show ?thesis by (simp flip: pow2_add)
qed

lemma round_mag_mono:
  assumes "0 < p" "p \<le> q"
  shows "round_mag p \<le> round_mag q"
proof (cases "ulp_exp p = ulp_exp q")
  case True
  have "p / pow2 (ulp_exp q) \<le> q / pow2 (ulp_exp q)" using assms(2) by (simp add: divide_right_mono)
  from round_half_even_mono [OF this] True show ?thesis by (simp add: round_mag_def)
next
  case False
  have "0 < q" using assms by simp
  have lg: "ilog2 p \<le> ilog2 q" by (rule ilog2_mono [OF assms])
  with False have k: "ilog2 p < ilog2 q" "ulp_exp p \<le> ilog2 q" "ulp_exp q = ilog2 q - 52"
    using assms \<open>0 < q\<close> by (simp_all add: ulp_exp_def max_def split: if_splits)
  have "p \<le> pow2 (ilog2 q)" using k(1) ilog2_less_iff [OF assms(1), of "ilog2 q"] by simp
  then have "round_mag p \<le> pow2 (ilog2 q)" using k(2) by (rule round_mag_le_pow2 [OF assms(1)])
  also have "pow2 (ilog2 q) \<le> q" using ilog2_le_iff [OF \<open>0 < q\<close>, of "ilog2 q"] by simp
  then have "pow2 (ilog2 q) \<le> round_mag q" using k(3) by (intro round_mag_ge_pow2 [OF \<open>0 < q\<close>]) simp_all
  finally show ?thesis .
qed

lemma f64_round_mono:
  assumes "0 \<le> p" "p \<le> q"
  shows "f64_le (f64_round p) (f64_round q)"
proof (cases "p = 0")
  case True
  with assms f64_round_nonneg [of q] show ?thesis by (simp add: f64_nonneg_def)
next
  case False
  with assms have pos: "0 < p" "0 < q" by auto
  have le: "round_mag p \<le> round_mag q" by (rule round_mag_mono [OF pos(1) assms(2)])
  have nn: "0 \<le> round_mag p" using pos by (simp add: round_mag_nonneg)
  show ?thesis
  proof (cases "0 < round_mag p")
    case True
    then show ?thesis using pos le ilog2_mono [OF True le]
      by (auto simp: f64_round_def Let_def f64_le_def f64_eq_def f64_is_zero_def)
  next
    case False
    then have "round_mag p = 0" using nn by simp
    then show ?thesis using pos le by (auto simp: f64_round_def Let_def f64_le_def f64_eq_def f64_is_zero_def)
  qed
qed

lemma ilog2_pow2 [simp]: "ilog2 (pow2 k) = k"
proof -
  have "k \<le> ilog2 (pow2 k)" using ilog2_le_iff [of "pow2 k" k] by simp
  moreover have "ilog2 (pow2 k) < k + 1" using ilog2_less_iff [of "pow2 k" "k + 1"] by simp
  ultimately show ?thesis by linarith
qed

lemma representable_pow2_multiple:
  assumes "0 < v" "v = of_int n * pow2 e" "- 1074 \<le> e" "v \<le> pow2 (e + 53)" "ilog2 v < 1024"
  shows "representable v"
proof -
  let ?u = "ulp_exp v"
  have "\<exists>m. v / pow2 ?u = of_int m"
  proof (cases "?u \<le> e")
    case True
    have "v / pow2 ?u = of_int n * pow2 (e - ?u)" by (simp add: assms(2) pow2_diff)
    also have "\<dots> = of_int (n * 2 ^ nat (e - ?u))" using True by (simp add: pow2_nonneg_int)
    finally show ?thesis by blast
  next
    case False
    have "ilog2 v \<le> e + 53" using ilog2_mono [OF assms(1,4)] ilog2_pow2 by simp
    with False assms(1,3) have lg: "ilog2 v = e + 53" and u: "?u = e + 1" by (auto simp: ulp_exp_def max_def split: if_splits)
    have "pow2 (e + 53) \<le> v" using lg ilog2_le_iff [OF assms(1), of "e + 53"] by simp
    with assms(4) have "v = pow2 (e + 53)" by simp
    then have "v / pow2 ?u = pow2 ((e + 53) - (e + 1))" using u by (simp only: pow2_diff)
    also have "\<dots> = of_int (2 ^ 52)" by (simp add: pow2_def)
    finally show ?thesis by blast
  qed
  then obtain m where "v / pow2 ?u = of_int m" ..
  with assms(1,5) show ?thesis by (simp add: representable_def)
qed

lemma representable_0 [simp]: "representable 0"
  by (simp add: representable_def)

lemma f64_round_wf [simp]: "f64_wf (f64_round q)"
proof -
  have main: "representable (round_mag p)" if p: "0 < p" and v: "0 < round_mag p" "ilog2 (round_mag p) < 1024" for p
  proof (rule representable_pow2_multiple [OF v(1) _ _ _ v(2)])
    show "round_mag p = of_int (round_half_even (p / pow2 (ulp_exp p))) * pow2 (ulp_exp p)" by (simp add: round_mag_def)
    show "- 1074 \<le> ulp_exp p" by (simp add: ulp_exp_def)
    have "ilog2 p < ulp_exp p + 53" using p by (simp add: ulp_exp_def)
    then have "p \<le> pow2 (ulp_exp p + 53)" using ilog2_less_iff [OF p, of "ulp_exp p + 53"] by simp
    then show "round_mag p \<le> pow2 (ulp_exp p + 53)" by (rule round_mag_le_pow2 [OF p]) simp
  qed
  show ?thesis
  proof (cases "q = 0")
    case True
    then show ?thesis by (simp add: representable_def)
  next
    case False
    then have "0 < \<bar>q\<bar>" by simp
    with main [of "\<bar>q\<bar>"] round_mag_nonneg [of "\<bar>q\<bar>"] show ?thesis
      by (auto simp: f64_round_def Let_def not_le)
  qed
qed

lemma f64_add_wf: "f64_wf x \<Longrightarrow> f64_wf y \<Longrightarrow> f64_wf (f64_add x y)"
  by (auto simp: f64_add_def signed_zero_def signed_inf_def representable_def split: if_split)

lemma f64_mul_wf [simp]: "f64_wf (f64_mul x y)"
  by (auto simp: f64_mul_def Let_def signed_zero_def signed_inf_def)

lemma f64_div_wf [simp]: "f64_wf (f64_div x y)"
  by (auto simp: f64_div_def Let_def signed_zero_def signed_inf_def)

text \<open>Sums of non-negative values never fall below an operand, and shares of a sum lie in [0, 1].\<close>

lemma f64_le_simps:
  "f64_le (Fin a) (Fin b) = (a \<le> b)" "f64_le NegZero (Fin b) = (0 \<le> b)" "f64_le (Fin a) NegZero = (a \<le> 0)"
  "f64_le NegZero NegZero" "f64_le PosInf PosInf" "f64_le (Fin a) PosInf" "f64_le NegZero PosInf"
  "\<not> f64_le PosInf (Fin a)" "\<not> f64_le PosInf NegZero"
  by (auto simp: f64_le_def f64_eq_def f64_is_zero_def)

lemma f64_add_ge:
  assumes "f64_wf x" "f64_nonneg x" "f64_nonneg y"
  shows "f64_le x (f64_add x y)" and "f64_le x (f64_add y x)"
proof -
  have fin: "f64_le (Fin a) (f64_round (a + b))" if "representable a" "0 \<le> a" "0 \<le> b" for a b
    using f64_round_mono [of a "a + b"] f64_round_representable [OF that(1)] that by simp
  have zero: "f64_le NegZero (f64_round b)" if "0 \<le> b" for b
    using f64_round_nonneg [OF that] by (cases "f64_round b") (auto simp: f64_le_def f64_eq_def f64_is_zero_def)
  show "f64_le x (f64_add x y)"
    using assms fin zero fin [where b = 0] by (cases x; cases y) (auto simp: f64_add_def f64_le_simps)
  then show "f64_le x (f64_add y x)"
    using assms by (cases x; cases y) (auto simp: f64_add_def add.commute)
qed

lemma foldl_add_ge:
  assumes "f64_wf a" "f64_nonneg a" "\<forall>v \<in> set xs. f64_nonneg v \<and> f64_wf v"
  shows "f64_le a (foldl f64_add a xs) \<and> f64_wf (foldl f64_add a xs) \<and> (\<forall>v \<in> set xs. f64_le v (foldl f64_add a xs))"
  using assms
proof (induction xs arbitrary: a)
  case Nil
  then show ?case by (cases a) (auto simp: f64_le_def f64_eq_def f64_is_zero_def)
next
  case (Cons x xs)
  let ?a = "f64_add a x"
  have "f64_wf ?a" "f64_nonneg ?a" using Cons.prems by (simp_all add: f64_add_wf f64_add_nonneg)
  then have IH: "f64_le ?a (foldl f64_add ?a xs)" "f64_wf (foldl f64_add ?a xs)"
    "\<forall>v \<in> set xs. f64_le v (foldl f64_add ?a xs)"
    using Cons.IH [of ?a] Cons.prems(3) by simp_all
  moreover have "f64_le a ?a" "f64_le x ?a" using Cons.prems by (simp_all add: f64_add_ge)
  ultimately show ?case by (auto intro: f64_le_trans)
qed

lemma f64_sum_ge:
  assumes "\<forall>v \<in> set xs. f64_nonneg v \<and> f64_wf v" "v \<in> set xs"
  shows "f64_le v (f64_sum xs)"
  using foldl_add_ge [of NegZero xs] assms by (simp add: f64_sum_def)

lemma f64_sum_nonneg: "\<forall>v \<in> set xs. f64_nonneg v \<Longrightarrow> f64_nonneg (f64_sum xs)"
proof -
  have "f64_nonneg (foldl f64_add a xs)" if "f64_nonneg a" "\<forall>v \<in> set xs. f64_nonneg v" for a
    using that by (induction xs arbitrary: a) (simp_all add: f64_add_nonneg)
  then show "\<forall>v \<in> set xs. f64_nonneg v \<Longrightarrow> f64_nonneg (f64_sum xs)" by (simp add: f64_sum_def)
qed

lemma f64_share:
  assumes "f64_nonneg v" "f64_le v s" "is_finite s" "f64_less (Fin 0) s"
  shows "f64_le (Fin 0) (f64_div v s) \<and> f64_le (f64_div v s) (Fin 1) \<and> is_finite (f64_div v s)"
proof -
  have fin: "f64_nonneg (f64_round (a / b)) \<and> f64_le (f64_round (a / b)) (Fin 1) \<and> is_finite (f64_round (a / b))"
    if "0 \<le> a" "a \<le> b" "0 < b" for a b
  proof -
    have "0 \<le> a / b" "a / b \<le> 1" using that by simp_all
    then have "f64_nonneg (f64_round (a / b))" "f64_le (f64_round (a / b)) (Fin 1)"
      using f64_round_nonneg [of "a / b"] f64_round_mono [of "a / b" 1] by simp_all
    then show ?thesis by (cases "f64_round (a / b)") (auto simp: f64_le_def f64_eq_def f64_is_zero_def)
  qed
  show ?thesis
    using assms fin
    by (cases v; cases s)
       (auto simp: f64_div_def f64_is_zero_def f64_le_simps signed_zero_def f64_nonneg_def [symmetric] split: if_splits)
qed

end
