(* ===== verification/Csc_Matrix.thy ===== *)
theory Csc_Matrix
  imports Worker_Prelude Float64
begin

text \<open>
  The compressed sparse column matrix of \<open>crates/suitesparse-ffi/src/matrix.rs\<close>. The value type
  is a type variable: at \<open>f64\<close> the definitions are the binary64 code, at an exact ring they state
  what the same code computes without rounding. Theorems: construction from triplets succeeds
  exactly on in-range triplets and yields a well-formed matrix whose entry at a position is the
  in-order sum of the triplets there; \<open>validate\<close> decides well-formedness and never indexes out
  of bounds; \<open>mul_vector\<close> is the matrix-vector product.
\<close>

section \<open>Data\<close>

record 'v matrix_triplet =
  t_row :: i32
  t_col :: i32
  t_value :: 'v

record 'v csc_matrix =
  nrows :: i32
  ncols :: i32
  col_ptr :: "i32 list"
  row_idx :: "i32 list"
  csc_values :: "'v list"

text \<open>\<open>SliceIndexPanic\<close> is not an error value of the code: it stands for the panic of a slice
  index out of range.\<close>

datatype matrix_error =
    InvalidDimensions i32 i32
  | InvalidColPtrLength usize usize
  | InvalidColPtrStart
  | NonMonotonicColPtr
  | InvalidNnz i32 usize
  | RowOutOfRange i32 i32
  | ColOutOfRange i32 i32
  | NonSortedOrDuplicateRows
  | IndexOverflow
  | SliceIndexPanic

datatype panic = IndexOutOfBounds

section \<open>Operations\<close>

text \<open>
  The bytes owned by the three vectors at their capacities. The allocator's choice of capacity for
  a vector of a given length is the parameter \<open>cap\<close>.
\<close>

definition csc_estimated_owned_bytes :: "(usize \<Rightarrow> usize) \<Rightarrow> 'v csc_matrix \<Rightarrow> usize" where
  "csc_estimated_owned_bytes cap m =
     saturating_add
       (saturating_add (saturating_mul (cap (length (col_ptr m))) 4)
                       (saturating_mul (cap (length (row_idx m))) 4))
       (saturating_mul (cap (length (csc_values m))) 8)"

definition slice :: "'a list \<Rightarrow> usize \<Rightarrow> usize \<Rightarrow> 'a list option" where
  "slice xs start stop =
     (if start \<le> stop \<and> stop \<le> length xs then Some (take (stop - start) (drop start xs)) else None)"

text \<open>The last loop of \<open>validate\<close>: the rows of one column are strictly increasing.\<close>

definition validate_column :: "'v csc_matrix \<Rightarrow> usize \<Rightarrow> matrix_error + unit" where
  "validate_column m col =
     res_bind (ok_or IndexOverflow (usize_try_from (col_ptr m ! col))) (\<lambda>start.
     res_bind (ok_or IndexOverflow (usize_try_from (col_ptr m ! (col + 1)))) (\<lambda>stop.
     res_bind (ok_or SliceIndexPanic (slice (row_idx m) start stop)) (\<lambda>rows.
     ensure (\<not> list_ex (\<lambda>(a, b). b \<le> a) (windows2 rows)) NonSortedOrDuplicateRows)))"

definition validate :: "'v csc_matrix \<Rightarrow> matrix_error + unit" where
  "validate m =
     res_bind (ensure (\<not> (nrows m \<le> 0 \<or> ncols m \<le> 0)) (InvalidDimensions (nrows m) (ncols m))) (\<lambda>_.
     res_bind (ok_or IndexOverflow (usize_try_from (ncols m))) (\<lambda>n.
     res_bind (ensure (length (col_ptr m) = n + 1)
                      (InvalidColPtrLength (length (col_ptr m)) (n + 1))) (\<lambda>_.
     res_bind (ensure (vec_get (col_ptr m) 0 = Some 0) InvalidColPtrStart) (\<lambda>_.
     res_bind (ensure (\<not> list_ex (\<lambda>(a, b). b < a) (windows2 (col_ptr m))) NonMonotonicColPtr) (\<lambda>_.
     (let nnz = length (csc_values m) in
     res_bind (if length (row_idx m) \<noteq> nnz
               then (if int (length (row_idx m)) \<le> i32_max
                     then Inl (InvalidNnz (int (length (row_idx m))) nnz) else Inl IndexOverflow)
               else Inr ()) (\<lambda>_.
     (let l = (if col_ptr m = [] then - 1 else last (col_ptr m)) in
     res_bind (ensure (usize_try_from l = Some nnz) (InvalidNnz l nnz)) (\<lambda>_.
     res_bind (try_fold (\<lambda>_ row. ensure (0 \<le> row \<and> row < nrows m) (RowOutOfRange row (nrows m)))
                        () (row_idx m)) (\<lambda>_.
     try_fold (\<lambda>_ col. validate_column m col) () [0..<n]))))))))))"

definition csc_new ::
  "i32 \<Rightarrow> i32 \<Rightarrow> i32 list \<Rightarrow> i32 list \<Rightarrow> 'v list \<Rightarrow> matrix_error + 'v csc_matrix" where
  "csc_new nr nc cp ri vs =
     (let m = \<lparr>nrows = nr, ncols = nc, col_ptr = cp, row_idx = ri, csc_values = vs\<rparr>
      in res_bind (validate m) (\<lambda>_. Inr m))"

text \<open>One step of the aggregation loop: range checks, the zero threshold, then \<open>entry += value\<close>.\<close>

definition acc_triplet ::
  "i32 \<Rightarrow> i32 \<Rightarrow> 'v \<Rightarrow> ((i32 \<times> i32) \<times> 'v::{zero,plus,abs,ord}) list \<Rightarrow> 'v matrix_triplet
   \<Rightarrow> matrix_error + ((i32 \<times> i32) \<times> 'v) list" where
  "acc_triplet nr nc eps acc t =
     (if \<not> (0 \<le> t_row t \<and> t_row t < nr) then Inl (RowOutOfRange (t_row t) nr)
      else if \<not> (0 \<le> t_col t \<and> t_col t < nc) then Inl (ColOutOfRange (t_col t) nc)
      else if \<bar>t_value t\<bar> \<le> eps then Inr acc
      else let k = (t_row t, t_col t)
           in Inr (AList.update k (unwrap_or 0 (map_of acc k) + t_value t) acc))"

definition kept_entries :: "'v::{abs,ord} \<Rightarrow> ((i32 \<times> i32) \<times> 'v) list \<Rightarrow> (i32 \<times> i32 \<times> 'v) list" where
  "kept_entries eps acc =
     map (\<lambda>((row, col), value). (row, col, value)) (filter (\<lambda>(_, value). eps < \<bar>value\<bar>) acc)"

definition entry_le :: "i32 \<times> i32 \<times> 'v \<Rightarrow> i32 \<times> i32 \<times> 'v \<Rightarrow> bool" where
  "entry_le a b =
     (case (a, b) of ((ra, ca, _), (rb, cb, _)) \<Rightarrow> ca < cb \<or> ca = cb \<and> ra \<le> rb)"

definition count_column :: "i32 list \<Rightarrow> i32 \<times> i32 \<times> 'v \<Rightarrow> matrix_error + i32 list" where
  "count_column cp e =
     res_bind (ok_or IndexOverflow (usize_try_from (fst (snd e)))) (\<lambda>c.
     res_bind (ensure (c + 1 < length cp) SliceIndexPanic) (\<lambda>_.
     Inr (cp[c + 1 := wrap_i32 (cp ! (c + 1) + 1)])))"

definition prefix_sum_step :: "i32 list \<Rightarrow> usize \<Rightarrow> i32 list" where
  "prefix_sum_step cp col = cp[col + 1 := wrap_i32 (cp ! (col + 1) + cp ! col)]"

text \<open>
  \<open>from_triplet_iter\<close>. The iteration order of the hash map \<open>acc\<close> is the order of its association
  list; \<open>from_triplet_iter_order\<close> below shows that any other order gives the same matrix.
\<close>

definition csc_of_acc ::
  "i32 \<Rightarrow> i32 \<Rightarrow> 'v::{zero,plus,abs,ord} \<Rightarrow> ((i32 \<times> i32) \<times> 'v) list \<Rightarrow> matrix_error + 'v csc_matrix"
where
  "csc_of_acc nr nc eps acc =
     (let entries = sort_by entry_le (kept_entries eps acc) in
      res_bind (ok_or IndexOverflow (usize_try_from nc)) (\<lambda>n.
      res_bind (try_fold count_column (replicate (n + 1) 0) entries) (\<lambda>counts.
      let cp = foldl prefix_sum_step counts [0..<n] in
      csc_new nr nc cp (map fst entries) (map (snd \<circ> snd) entries))))"

definition from_triplet_iter ::
  "i32 \<Rightarrow> i32 \<Rightarrow> 'v::{zero,plus,abs,ord} matrix_triplet list \<Rightarrow> 'v \<Rightarrow> matrix_error + 'v csc_matrix"
where
  "from_triplet_iter nr nc triplets eps =
     (if nr \<le> 0 \<or> nc \<le> 0 then Inl (InvalidDimensions nr nc)
      else res_bind (try_fold (acc_triplet nr nc eps) [] triplets) (\<lambda>acc.
           csc_of_acc nr nc eps acc))"

definition from_triplets ::
  "i32 \<Rightarrow> i32 \<Rightarrow> 'v::{zero,plus,abs,ord} matrix_triplet list \<Rightarrow> 'v \<Rightarrow> matrix_error + 'v csc_matrix"
where
  "from_triplets nr nc triplets eps = from_triplet_iter nr nc triplets eps"

definition shape :: "'v csc_matrix \<Rightarrow> i32 \<times> i32" where
  "shape m = (nrows m, ncols m)"

definition nnz :: "'v csc_matrix \<Rightarrow> usize" where
  "nnz m = length (csc_values m)"

definition mul_entry ::
  "'v::{plus,times} csc_matrix \<Rightarrow> 'v \<Rightarrow> 'v list \<Rightarrow> usize \<Rightarrow> panic + 'v list" where
  "mul_entry m xj out idx =
     (if \<not> (idx < length (row_idx m) \<and> idx < length (csc_values m)) then Inl IndexOutOfBounds
      else let row = unwrap_or 0 (usize_try_from (row_idx m ! idx))
           in if row < length out then Inr (out[row := out ! row + csc_values m ! idx * xj])
              else Inl IndexOutOfBounds)"

definition mul_column ::
  "'v::{plus,times} csc_matrix \<Rightarrow> 'v list \<Rightarrow> usize \<times> 'v \<Rightarrow> panic + 'v list" where
  "mul_column m out e =
     (case e of (col, xj) \<Rightarrow>
        if \<not> col + 1 < length (col_ptr m) then Inl IndexOutOfBounds
        else let start = unwrap_or 0 (usize_try_from (col_ptr m ! col));
                 stop = unwrap_or 0 (usize_try_from (col_ptr m ! (col + 1)))
             in try_fold (mul_entry m xj) out [start..<stop])"

definition mul_vector :: "'v::{zero,plus,times} csc_matrix \<Rightarrow> 'v list \<Rightarrow> panic + 'v list" where
  "mul_vector m x =
     (let out = replicate (unwrap_or 0 (usize_try_from (nrows m))) 0;
          n = unwrap_or 0 (usize_try_from (ncols m))
      in if length x \<noteq> n then Inr out
         else try_fold (mul_column m) out (take n (enumerate 0 x)))"

section \<open>Well-formed matrices\<close>

text \<open>What \<open>validate\<close> promises, stated declaratively.\<close>

abbreviation cptr :: "'v csc_matrix \<Rightarrow> nat \<Rightarrow> nat" where
  "cptr m c \<equiv> nat (col_ptr m ! c)"

definition column_rows :: "'v csc_matrix \<Rightarrow> nat \<Rightarrow> i32 list" where
  "column_rows m c = take (cptr m (c + 1) - cptr m c) (drop (cptr m c) (row_idx m))"

definition csc_wf :: "'v csc_matrix \<Rightarrow> bool" where
  "csc_wf m \<longleftrightarrow>
     0 < nrows m \<and> 0 < ncols m \<and> length (col_ptr m) = nat (ncols m) + 1 \<and>
     col_ptr m ! 0 = 0 \<and> sorted (col_ptr m) \<and> length (row_idx m) = length (csc_values m) \<and>
     last (col_ptr m) = int (length (csc_values m)) \<and>
     (\<forall>row \<in> set (row_idx m). 0 \<le> row \<and> row < nrows m) \<and>
     (\<forall>c < nat (ncols m). sorted_wrt (<) (column_rows m c))"

lemma windows2_decreasing: "list_ex (\<lambda>(a, b). b < (a::int)) (windows2 xs) \<longleftrightarrow> \<not> sorted xs"
proof -
  have "list_ex (\<lambda>(a, b). b < (a::int)) (windows2 xs) \<longleftrightarrow> \<not> (\<forall>(a, b) \<in> set (windows2 xs). a \<le> b)"
    by (simp add: list_ex_iff case_prod_unfold not_le)
  also have "(\<forall>(a, b) \<in> set (windows2 xs). a \<le> b) \<longleftrightarrow> sorted xs"
    by (rule windows2_all_iff) simp
  finally show ?thesis .
qed

lemma windows2_nonincreasing: "list_ex (\<lambda>(a, b). b \<le> (a::int)) (windows2 xs) \<longleftrightarrow> \<not> sorted_wrt (<) xs"
proof -
  have "list_ex (\<lambda>(a, b). b \<le> (a::int)) (windows2 xs) \<longleftrightarrow> \<not> (\<forall>(a, b) \<in> set (windows2 xs). a < b)"
    by (simp add: list_ex_iff case_prod_unfold not_less)
  also have "(\<forall>(a, b) \<in> set (windows2 xs). a < b) \<longleftrightarrow> sorted_wrt (<) xs"
    by (rule windows2_all_iff) simp
  finally show ?thesis .
qed

text \<open>Column pointers that start at 0, ascend and end at the number of entries stay in range.\<close>

lemma col_ptr_range:
  assumes "length cp = n + 1" "cp ! 0 = (0::int)" "sorted cp" "last cp = int k" "c \<le> n"
  shows "0 \<le> cp ! c" "cp ! c \<le> int k"
proof -
  have "last cp = cp ! n" using assms(1) by (metis add_diff_cancel_right' last_conv_nth list.size(3) nat.distinct(1) add_is_0 one_neq_zero)
  moreover have "cp ! 0 \<le> cp ! c" "cp ! c \<le> cp ! n"
    using assms(1,3,5) by (simp_all add: sorted_iff_nth_mono)
  ultimately show "0 \<le> cp ! c" "cp ! c \<le> int k" using assms(2,4) by simp_all
qed

lemma csc_wf_cptr:
  assumes "csc_wf m" "c \<le> nat (ncols m)"
  shows "0 \<le> col_ptr m ! c" "cptr m c \<le> length (csc_values m)"
  using col_ptr_range [of "col_ptr m" "nat (ncols m)" "length (csc_values m)" c] assms
  by (auto simp: csc_wf_def)

lemma csc_wf_cptr_mono:
  assumes "csc_wf m" "c \<le> d" "d \<le> nat (ncols m)"
  shows "cptr m c \<le> cptr m d"
  using assms by (intro nat_mono) (auto simp: csc_wf_def sorted_iff_nth_mono)

lemma validate_column_iff:
  assumes "length (col_ptr m) = n + 1" "col_ptr m ! 0 = 0" "sorted (col_ptr m)"
    "last (col_ptr m) = int (length (csc_values m))" "length (row_idx m) = length (csc_values m)" "c < n"
  shows "validate_column m c = ensure (sorted_wrt (<) (column_rows m c)) NonSortedOrDuplicateRows"
proof -
  note r = col_ptr_range [OF assms(1-4)]
  have lo: "0 \<le> col_ptr m ! c" and hi: "0 \<le> col_ptr m ! (c + 1)" and
    top: "col_ptr m ! (c + 1) \<le> int (length (row_idx m))"
    using r [of c] r [of "c + 1"] assms(5,6) by simp_all
  have "col_ptr m ! c \<le> col_ptr m ! (c + 1)"
    using assms(1,3,6) by (simp add: sorted_iff_nth_mono)
  with lo hi top have "slice (row_idx m) (cptr m c) (cptr m (c + 1)) = Some (column_rows m c)"
    by (auto simp: slice_def column_rows_def)
  with lo hi show ?thesis by (simp add: validate_column_def windows2_nonincreasing)
qed

lemma validate_ok_iff: "validate m = Inr u \<longleftrightarrow> csc_wf m"
proof (cases "0 < nrows m \<and> 0 < ncols m \<and> length (col_ptr m) = nat (ncols m) + 1 \<and>
     col_ptr m ! 0 = 0 \<and> sorted (col_ptr m) \<and> length (row_idx m) = length (csc_values m) \<and>
     last (col_ptr m) = int (length (csc_values m))")
  case True
  then have "\<And>c. c < nat (ncols m) \<Longrightarrow> validate_column m c = Inr () \<longleftrightarrow> sorted_wrt (<) (column_rows m c)"
    by (simp add: validate_column_iff res_simps)
  with True show ?thesis
    by (auto simp: validate_def csc_wf_def res_simps try_fold_check windows2_decreasing Let_def)
next
  case False
  then show ?thesis
    by (auto simp: validate_def csc_wf_def res_simps windows2_decreasing Let_def split: if_splits)
qed

lemma validate_no_panic: "validate m \<noteq> Inl SliceIndexPanic"
proof
  assume a: "validate m = Inl SliceIndexPanic"
  then have pre: "length (col_ptr m) = nat (ncols m) + 1" "col_ptr m ! 0 = 0" "sorted (col_ptr m)"
      "last (col_ptr m) = int (length (csc_values m))" "length (row_idx m) = length (csc_values m)"
    and "try_fold (\<lambda>_. validate_column m) () [0..<nat (ncols m)] = Inl SliceIndexPanic"
    by (auto simp: validate_def res_simps windows2_decreasing Let_def split: if_splits
        dest: try_fold_check_fails)
  then obtain c where "c < nat (ncols m)" "validate_column m c = Inl SliceIndexPanic"
    by (auto dest: try_fold_check_fails)
  with validate_column_iff [OF pre] show False by (simp add: res_simps)
qed

lemma csc_new_ok_iff:
  "csc_new nr nc cp ri vs = Inr m \<longleftrightarrow>
     m = \<lparr>nrows = nr, ncols = nc, col_ptr = cp, row_idx = ri, csc_values = vs\<rparr> \<and> csc_wf m"
  by (auto simp: csc_new_def Let_def res_simps validate_ok_iff)

section \<open>Construction from triplets\<close>

text \<open>The values that reach the accumulator at one position, in the order of the triplets.\<close>

abbreviation t_pos :: "'v matrix_triplet \<Rightarrow> i32 \<times> i32" where
  "t_pos t \<equiv> (t_row t, t_col t)"

definition triplet_in_range :: "i32 \<Rightarrow> i32 \<Rightarrow> 'v matrix_triplet \<Rightarrow> bool" where
  "triplet_in_range nr nc t \<longleftrightarrow> 0 \<le> t_row t \<and> t_row t < nr \<and> 0 \<le> t_col t \<and> t_col t < nc"

definition values_at :: "'v::{abs,ord} \<Rightarrow> 'v matrix_triplet list \<Rightarrow> i32 \<times> i32 \<Rightarrow> 'v list" where
  "values_at eps ts k = map t_value (filter (\<lambda>t. t_pos t = k \<and> \<not> \<bar>t_value t\<bar> \<le> eps) ts)"

definition merged_at :: "'v::{zero,plus,abs,ord} \<Rightarrow> 'v matrix_triplet list \<Rightarrow> i32 \<times> i32 \<Rightarrow> 'v option" where
  "merged_at eps ts k =
     (if values_at eps ts k = [] then None else Some (foldl (+) 0 (values_at eps ts k)))"

lemma values_at_snoc:
  "values_at eps (ts @ [t]) k =
     values_at eps ts k @ (if t_pos t = k \<and> \<not> \<bar>t_value t\<bar> \<le> eps then [t_value t] else [])"
  by (simp add: values_at_def)

lemma acc_loop:
  assumes "list_all (triplet_in_range nr nc) ts"
  shows "\<exists>acc. try_fold (acc_triplet nr nc eps) [] ts = Inr acc \<and> alist_wf acc \<and>
    map_of acc = merged_at eps ts \<and> fst ` set acc \<subseteq> {0..<nr} \<times> {0..<nc}"
  using assms
proof (induction ts rule: rev_induct)
  case Nil
  then show ?case by (auto simp: merged_at_def values_at_def)
next
  case (snoc t ts)
  then obtain acc where acc: "try_fold (acc_triplet nr nc eps) [] ts = Inr acc" "alist_wf acc"
    "map_of acc = merged_at eps ts" "fst ` set acc \<subseteq> {0..<nr} \<times> {0..<nc}" by auto
  from snoc.prems have rng: "triplet_in_range nr nc t" by simp
  show ?case
  proof (cases "\<bar>t_value t\<bar> \<le> eps")
    case True
    with rng have "acc_triplet nr nc eps acc t = Inr acc"
      by (simp add: acc_triplet_def triplet_in_range_def)
    moreover have "merged_at eps (ts @ [t]) = merged_at eps ts"
      using True by (auto simp: merged_at_def values_at_snoc)
    ultimately show ?thesis using acc by (simp add: try_fold_append)
  next
    case False
    let ?acc = "AList.update (t_pos t) (unwrap_or 0 (map_of acc (t_pos t)) + t_value t) acc"
    from False rng have step: "acc_triplet nr nc eps acc t = Inr ?acc"
      by (simp add: acc_triplet_def triplet_in_range_def Let_def)
    have "map_of ?acc = merged_at eps (ts @ [t])"
      using False acc(3) by (auto simp: update_conv merged_at_def values_at_snoc fun_eq_iff)
    moreover have "fst ` set ?acc \<subseteq> {0..<nr} \<times> {0..<nc}"
      using acc(4) rng by (auto simp: triplet_in_range_def)
    ultimately show ?thesis using acc step by (simp add: try_fold_append)
  qed
qed

lemma acc_loop_ok_range:
  assumes "try_fold (acc_triplet nr nc eps) acc ts = Inr acc'"
  shows "list_all (triplet_in_range nr nc) ts"
  using assms
  by (induction ts arbitrary: acc) (auto simp: acc_triplet_def triplet_in_range_def res_simps split: if_splits)

subsection \<open>Column counts and prefix sums\<close>

abbreviation e_col :: "i32 \<times> i32 \<times> 'v \<Rightarrow> nat" where
  "e_col e \<equiv> nat (fst (snd e))"

abbreviation cols_below :: "(i32 \<times> i32 \<times> 'v) list \<Rightarrow> nat \<Rightarrow> nat" where
  "cols_below es k \<equiv> length (filter (\<lambda>e. e_col e < k) es)"

abbreviation cols_equal :: "(i32 \<times> i32 \<times> 'v) list \<Rightarrow> nat \<Rightarrow> nat" where
  "cols_equal es k \<equiv> length (filter (\<lambda>e. e_col e = k) es)"

lemma count_loop:
  assumes "\<forall>e \<in> set es. 0 \<le> fst (snd e) \<and> e_col e < n" "int (length es) \<le> i32_max"
  shows "try_fold count_column (replicate (n + 1) 0) es =
    Inr (0 # map (\<lambda>k. int (cols_equal es k)) [0..<n])"
  using assms
proof (induction es rule: rev_induct)
  case Nil
  have "replicate (n + 1) (0::int) = 0 # map (\<lambda>k. 0) [0..<n]"
    by (simp add: map_replicate_const)
  then show ?case by simp
next
  case (snoc e es)
  let ?c = "e_col e" and ?f = "\<lambda>es k. int (cols_equal es k)"
  from snoc.prems have c: "0 \<le> fst (snd e)" "?c < n" by auto
  have IH: "try_fold count_column (replicate (n + 1) 0) es = Inr (0 # map (?f es) [0..<n])"
    using snoc by simp
  have "int (length es) + 1 \<le> 2147483647" using snoc.prems(2) by (simp add: i32_max_def)
  then have "?f es ?c + 1 \<le> 2147483647"
    using length_filter_le [of "\<lambda>e. e_col e = ?c" es] by linarith
  then have "wrap_i32 (?f es ?c + 1) = ?f es ?c + 1" by (intro wrap_i32_id) simp_all
  then have "count_column (0 # map (?f es) [0..<n]) e = Inr (0 # (map (?f es) [0..<n])[?c := ?f es ?c + 1])"
    using c by (simp add: count_column_def)
  also have "(map (?f es) [0..<n])[?c := ?f es ?c + 1] = map (?f (es @ [e])) [0..<n]"
    by (rule nth_equalityI) (auto simp: nth_list_update)
  finally show ?case using IH by (simp add: try_fold_append)
qed

lemma prefix_loop:
  assumes "j \<le> n" "int (length es) \<le> i32_max"
  shows "foldl prefix_sum_step (0 # map (\<lambda>k. int (cols_equal es k)) [0..<n]) [0..<j] =
    map (\<lambda>k. int (if k \<le> j then cols_below es k else cols_equal es (k - 1))) [0..<n + 1]"
  using assms(1)
proof (induction j)
  case 0
  have "0 # map (\<lambda>k. int (cols_equal es k)) [0..<n] =
      map (\<lambda>k. int (if k \<le> 0 then cols_below es k else cols_equal es (k - 1))) [0..<n + 1]"
    by (rule nth_equalityI) (auto simp: nth_Cons split: nat.split simp del: upt_Suc)
  then show ?case by simp
next
  case (Suc j)
  let ?g = "\<lambda>j k. int (if k \<le> j then cols_below es k else cols_equal es (k - 1))"
  have sum: "int (cols_equal es j) + int (cols_below es j) = int (cols_below es (Suc j))"
    by (simp add: length_filter_less_Suc)
  have "int (cols_below es (Suc j)) \<le> 2147483647"
    using length_filter_le [of "\<lambda>e. e_col e < Suc j" es] assms(2) unfolding i32_max_def by linarith
  then have w: "wrap_i32 (int (cols_equal es j) + int (cols_below es j)) = int (cols_below es (Suc j))"
    unfolding sum by (intro wrap_i32_id) simp_all
  have "foldl prefix_sum_step (0 # map (\<lambda>k. int (cols_equal es k)) [0..<n]) [0..<Suc j] =
      prefix_sum_step (map (?g j) [0..<n + 1]) j"
    using Suc by simp
  also have "\<dots> = (map (?g j) [0..<n + 1])[j + 1 := int (cols_below es (Suc j))]"
    using Suc.prems w by (simp add: prefix_sum_step_def del: upt_Suc)
  also have "\<dots> = map (?g (Suc j)) [0..<n + 1]"
    by (rule nth_equalityI) (auto simp: nth_list_update le_Suc_eq simp del: upt_Suc)
  finally show ?case .
qed

subsection \<open>Sorted entries\<close>

definition entry_less :: "i32 \<times> i32 \<times> 'v \<Rightarrow> i32 \<times> i32 \<times> 'v \<Rightarrow> bool" where
  "entry_less a b =
     (case (a, b) of ((ra, ca, _), (rb, cb, _)) \<Rightarrow> ca < cb \<or> ca = cb \<and> ra < rb)"

definition positions :: "(i32 \<times> i32 \<times> 'v) list \<Rightarrow> (i32 \<times> i32) list" where
  "positions es = map (\<lambda>(r, c, _). (r, c)) es"

lemma entry_le_preorder: "totalp entry_le" "reflp entry_le" "transp entry_le"
  by (auto simp: entry_le_def totalp_on_def reflp_def transp_def)

lemma positions_kept:
  "positions (kept_entries eps acc) = map fst (filter (\<lambda>(_, v). eps < \<bar>v\<bar>) acc)"
  by (induction acc) (auto simp: positions_def kept_entries_def)

lemma distinct_positions_sort:
  "distinct (positions (sort_by entry_le es)) \<longleftrightarrow> distinct (positions es)"
  unfolding positions_def by (rule mset_eq_imp_distinct_iff) simp

lemma strict_of_distinct:
  "sorted_wrt entry_le es \<Longrightarrow> distinct (positions es) \<Longrightarrow> sorted_wrt entry_less es"
proof (induction es)
  case (Cons e es)
  have "entry_less e f" if f: "f \<in> set es" for f
  proof -
    have "entry_le e f" using Cons.prems(1) f by simp
    moreover have "(fst e, fst (snd e)) \<noteq> (fst f, fst (snd f))"
      using Cons.prems(2) f by (auto simp: positions_def case_prod_unfold image_iff)
    ultimately show ?thesis by (auto simp: entry_le_def entry_less_def case_prod_unfold)
  qed
  with Cons show ?case by (simp add: positions_def)
qed simp

lemma sort_entries_strict:
  assumes "distinct (positions es)"
  shows "sorted_wrt entry_less (sort_by entry_le es)"
  using assms
  by (intro strict_of_distinct sorted_wrt_sort_by entry_le_preorder) (simp add: distinct_positions_sort)

lemma cols_below_mono: "i \<le> j \<Longrightarrow> cols_below es i \<le> cols_below es j"
  by (induction es) auto

lemma set_kept_entries:
  "alist_wf acc \<Longrightarrow> set (kept_entries eps acc) = {(r, c, v). map_of acc (r, c) = Some v \<and> eps < \<bar>v\<bar>}"
  by (force simp: kept_entries_def alist_get_iff image_iff)

text \<open>The order in which the hash map yields its entries does not matter.\<close>

lemma sort_entries_unique:
  assumes "alist_wf acc" "alist_wf acc'" "map_of acc = map_of acc'"
  shows "sort_by entry_le (kept_entries eps acc) = sort_by entry_le (kept_entries eps acc')"
proof (rule sorted_wrt_mset_unique)
  have d: "distinct (positions (kept_entries eps a))" if "alist_wf a" for a :: "((i32 \<times> i32) \<times> 'a) list"
    using that by (simp add: positions_kept alist_wf_def distinct_map_filter)
  then have "distinct (kept_entries eps acc)" "distinct (kept_entries eps acc')"
    using assms(1,2) by (simp_all add: positions_def distinct_map)
  then show "mset (sort_by entry_le (kept_entries eps acc)) = mset (sort_by entry_le (kept_entries eps acc'))"
    using assms by (simp add: set_eq_iff_mset_eq_distinct [symmetric] set_kept_entries)
  show "sorted_wrt entry_less (sort_by entry_le (kept_entries eps acc))"
    "sorted_wrt entry_less (sort_by entry_le (kept_entries eps acc'))"
    using d assms(1,2) by (simp_all add: sort_entries_strict)
  show "antisymp_on (set (sort_by entry_le (kept_entries eps acc))) entry_less"
    by (auto simp: antisymp_on_def entry_less_def)
qed

subsection \<open>The built matrix\<close>

definition csc_entries :: "'v csc_matrix \<Rightarrow> (i32 \<times> i32 \<times> 'v) list" where
  "csc_entries m = concat (map (\<lambda>c.
     map (\<lambda>i. (row_idx m ! i, int c, csc_values m ! i)) [cptr m c..<cptr m (c + 1)]) [0..<nat (ncols m)])"

definition csc_entry :: "'v::zero csc_matrix \<Rightarrow> i32 \<Rightarrow> i32 \<Rightarrow> 'v" where
  "csc_entry m r c =
     unwrap_or 0 (map_of (map (\<lambda>(r, c, v). ((r, c), v)) (csc_entries m)) (r, c))"

lemma sorted_cols:
  assumes "sorted_wrt entry_less es" "\<forall>e \<in> set es. 0 \<le> fst (snd e)"
  shows "sorted (map e_col es)"
proof -
  have "sorted_wrt (\<lambda>a b. e_col a \<le> e_col b) es"
    using assms(1) by (rule sorted_wrt_mono_rel [rotated]) (auto simp: entry_less_def nat_mono)
  then show ?thesis by (simp add: sorted_wrt_map)
qed

text \<open>
  A matrix whose arrays are the columns of a strictly sorted entry list is well formed, and its
  entries are that list.
\<close>

lemma csc_of_sorted:
  fixes es :: "(i32 \<times> i32 \<times> 'v) list"
  assumes dims: "0 < nr" "0 < nc" and sorted: "sorted_wrt entry_less es"
    and rng: "\<forall>(r, c, v) \<in> set es. 0 \<le> r \<and> r < nr \<and> 0 \<le> c \<and> c < nc"
    and m: "m = \<lparr>nrows = nr, ncols = nc, col_ptr = map (\<lambda>k. int (cols_below es k)) [0..<nat nc + 1],
      row_idx = map fst es, csc_values = map (snd \<circ> snd) es\<rparr>"
  shows "csc_wf m" and "csc_entries m = es"
proof -
  let ?n = "nat nc"
  have rng': "\<forall>e \<in> set es. 0 \<le> fst (snd e) \<and> e_col e < ?n" using rng by auto
  then have cols: "sorted (map e_col es)" using sorted by (simp add: sorted_cols)
  have cptr: "cptr m k = cols_below es k" if "k \<le> ?n" for k
    using that by (simp add: m del: upt_Suc)
  have all: "cols_below es ?n = length es" using rng' by simp
  have seg: "take (cptr m (c + 1) - cptr m c) (drop (cptr m c) es) = filter (\<lambda>e. e_col e = c) es"
    if "c < ?n" for c using sorted_segment [OF cols, of c] that by (simp add: cptr)
  have rows: "column_rows m c = map fst (filter (\<lambda>e. e_col e = c) es)" if "c < ?n" for c
    unfolding seg [OF that, symmetric] by (simp add: column_rows_def m take_map drop_map)
  have strict: "sorted_wrt (<) (column_rows m c)" if c: "c < ?n" for c
  proof -
    have "sorted_wrt entry_less (filter (\<lambda>e. e_col e = c) es)" using sorted by (rule sorted_wrt_filter)
    then have "sorted_wrt (\<lambda>a b. fst a < fst b) (filter (\<lambda>e. e_col e = c) es)"
    proof (rule sorted_wrt_mono_rel [rotated])
      fix a b
      assume ab: "a \<in> set (filter (\<lambda>e. e_col e = c) es)" "b \<in> set (filter (\<lambda>e. e_col e = c) es)"
        and less: "entry_less a b"
      from ab rng' have "fst (snd a) = fst (snd b)" by (metis (mono_tags, lifting) eq_nat_nat_iff mem_Collect_eq set_filter)
      with less show "fst a < fst b" by (simp add: entry_less_def case_prod_unfold)
    qed
    then show ?thesis by (simp add: rows [OF c] sorted_wrt_map)
  qed
  have "sorted (map (\<lambda>k. int (cols_below es k)) [0..<?n + 1])"
    by (auto simp: sorted_iff_nth_mono cols_below_mono simp del: upt_Suc)
  moreover have "last (map (\<lambda>k. int (cols_below es k)) [0..<?n + 1]) = int (length es)"
    using all by simp
  ultimately show "csc_wf m"
    using dims rng strict cptr [of 0] unfolding csc_wf_def by (auto simp: m nth_append simp del: upt_Suc)
  have col: "map (\<lambda>i. (row_idx m ! i, int c, csc_values m ! i)) [cptr m c..<cptr m (c + 1)]
    = filter (\<lambda>e. e_col e = c) es" if c: "c < ?n" for c
  proof -
    have le: "cptr m (c + 1) \<le> length es" using c by (simp add: cptr)
    have "map (\<lambda>i. (row_idx m ! i, int c, csc_values m ! i)) [cptr m c..<cptr m (c + 1)]
      = map (\<lambda>i. (\<lambda>e. (fst e, int c, snd (snd e))) (es ! i)) [cptr m c..<cptr m (c + 1)]"
      using le by (intro map_cong) (auto simp: m)
    also have "\<dots> = map (\<lambda>e. (fst e, int c, snd (snd e))) (filter (\<lambda>e. e_col e = c) es)"
      unfolding seg [OF c, symmetric] by (rule map_nth_segment [OF le])
    also have "\<dots> = filter (\<lambda>e. e_col e = c) es"
      using rng' by (intro map_idI) (auto simp: prod_eq_iff)
    finally show ?thesis .
  qed
  have "ncols m = nc" by (simp add: m)
  then have "csc_entries m = concat (map (\<lambda>c. filter (\<lambda>e. e_col e = c) es) [0..<?n])"
    unfolding csc_entries_def by (intro arg_cong [where f = concat] map_cong) (simp, rule col, simp)
  also have "\<dots> = es" using concat_filter_sorted [OF cols, of ?n] rng' by simp
  finally show "csc_entries m = es" .
qed

subsection \<open>Correctness of the construction\<close>

text \<open>The kept entries of the accumulator, by position.\<close>

lemma csc_of_acc_ok:
  fixes acc :: "((i32 \<times> i32) \<times> 'v::{zero,plus,abs,ord}) list"
  assumes wf: "alist_wf acc" and rng: "fst ` set acc \<subseteq> {0..<nr} \<times> {0..<nc}"
    and dims: "0 < nr" "0 < nc" and small: "int (length acc) \<le> i32_max"
  obtains m where "csc_of_acc nr nc eps acc = Inr m" "csc_wf m" "nrows m = nr" "ncols m = nc"
    "csc_entries m = sort_by entry_le (kept_entries eps acc)"
proof -
  define es where "es = sort_by entry_le (kept_entries eps acc)"
  define m where "m = \<lparr>nrows = nr, ncols = nc, col_ptr = map (\<lambda>k. int (cols_below es k)) [0..<nat nc + 1],
      row_idx = map fst es, csc_values = map (snd \<circ> snd) es\<rparr>"
  have len: "int (length es) \<le> i32_max"
    using small length_filter_le [of "\<lambda>(_, v). eps < \<bar>v\<bar>" acc] unfolding es_def kept_entries_def
    by (simp only: length_sort_by length_map)
  have rng': "\<forall>(r, c, v) \<in> set es. 0 \<le> r \<and> r < nr \<and> 0 \<le> c \<and> c < nc"
    using rng by (fastforce simp: es_def kept_entries_def)
  have strict: "sorted_wrt entry_less es"
    using wf unfolding es_def
    by (intro sort_entries_strict) (simp add: positions_kept alist_wf_def distinct_map_filter)
  note built = csc_of_sorted [OF dims strict rng' m_def]
  have "try_fold count_column (replicate (nat nc + 1) 0) es =
      Inr (0 # map (\<lambda>k. int (cols_equal es k)) [0..<nat nc])"
    using rng' by (intro count_loop len) auto
  moreover have "foldl prefix_sum_step (0 # map (\<lambda>k. int (cols_equal es k)) [0..<nat nc]) [0..<nat nc]
      = col_ptr m"
    by (auto simp: prefix_loop [OF order_refl len] m_def simp del: upt_Suc)
  ultimately have "csc_of_acc nr nc eps acc = csc_new nr nc (col_ptr m) (map fst es) (map (snd \<circ> snd) es)"
    using dims by (simp add: csc_of_acc_def es_def [symmetric] Let_def)
  also have "\<dots> = Inr m" using built(1) by (simp add: csc_new_ok_iff m_def)
  finally show thesis using built by (intro that [of m]) (simp_all add: m_def es_def)
qed

text \<open>The value the construction leaves at a position.\<close>

definition built_entry :: "'v::{zero,plus,abs,ord} \<Rightarrow> 'v matrix_triplet list \<Rightarrow> i32 \<times> i32 \<Rightarrow> 'v" where
  "built_entry eps ts k =
     (case merged_at eps ts k of None \<Rightarrow> 0 | Some s \<Rightarrow> if eps < \<bar>s\<bar> then s else 0)"

lemma map_of_entries:
  assumes "distinct (positions es)"
  shows "map_of (map (\<lambda>(r, c, v). ((r, c), v)) es) (r, c) = Some v \<longleftrightarrow> (r, c, v) \<in> set es"
proof -
  have "map fst (map (\<lambda>(r, c, v). ((r, c), v)) es) = positions es"
    by (simp add: positions_def case_prod_unfold comp_def)
  with assms show ?thesis by (subst map_of_eq_Some_iff) force+
qed

lemma map_of_entries_None:
  "map_of (map (\<lambda>(r, c, v). ((r, c), v)) es) (r, c) = None \<longleftrightarrow> (\<forall>v. (r, c, v) \<notin> set es)"
  by (force simp: map_of_eq_None_iff)

text \<open>What is stored at a position, if anything: an absent entry differs from a stored zero.\<close>

definition csc_stored :: "'v csc_matrix \<Rightarrow> i32 \<Rightarrow> i32 \<Rightarrow> 'v option" where
  "csc_stored m r c = map_of (map (\<lambda>(r, c, v). ((r, c), v)) (csc_entries m)) (r, c)"

definition built_stored :: "'v::{zero,plus,abs,ord} \<Rightarrow> 'v matrix_triplet list \<Rightarrow> i32 \<times> i32 \<Rightarrow> 'v option" where
  "built_stored eps ts k =
     (case merged_at eps ts k of None \<Rightarrow> None | Some s \<Rightarrow> if eps < \<bar>s\<bar> then Some s else None)"

lemma csc_stored_None_iff: "csc_stored m r c = None \<longleftrightarrow> (r, c) \<notin> set (positions (csc_entries m))"
  by (force simp: csc_stored_def positions_def map_of_entries_None)

lemma csc_entry_of_stored: "csc_stored m r c = built_stored eps ts (r, c) \<Longrightarrow> csc_entry m r c = built_entry eps ts (r, c)"
  by (simp add: csc_entry_def csc_stored_def built_entry_def built_stored_def split: option.split)

lemma csc_stored_built:
  assumes wf: "alist_wf acc" and m: "csc_entries m = sort_by entry_le (kept_entries eps acc)"
    and acc: "map_of acc = merged_at eps ts"
  shows "csc_stored m r c = built_stored eps ts (r, c)"
proof -
  let ?es = "sort_by entry_le (kept_entries eps acc)"
  have d: "distinct (positions ?es)"
    using wf by (simp add: distinct_positions_sort positions_kept alist_wf_def distinct_map_filter)
  have mem: "(r, c, v) \<in> set ?es \<longleftrightarrow> merged_at eps ts (r, c) = Some v \<and> eps < \<bar>v\<bar>" for v
    by (simp add: set_kept_entries [OF wf] acc)
  show ?thesis
  proof (cases "map_of (map (\<lambda>(r, c, v). ((r, c), v)) ?es) (r, c)")
    case None
    then have "\<forall>v. (r, c, v) \<notin> set ?es" by (rule map_of_entries_None [THEN iffD1])
    with None mem show ?thesis
      by (simp add: csc_stored_def m built_stored_def split: option.split)
  next
    case (Some v)
    then have "(r, c, v) \<in> set ?es" using map_of_entries [OF d, of r c v] by (rule iffD1 [rotated])
    with Some mem show ?thesis by (simp add: csc_stored_def m built_stored_def)
  qed
qed

section \<open>Matrix-vector product\<close>

text \<open>One entry's effect on the output vector.\<close>

definition apply_entry :: "'v::{plus,times} list \<Rightarrow> 'v list \<Rightarrow> i32 \<times> i32 \<times> 'v \<Rightarrow> 'v list" where
  "apply_entry x out e =
     (case e of (r, c, v) \<Rightarrow> out[nat r := out ! nat r + v * x ! nat c])"

lemma length_apply_entries [simp]: "length (foldl (apply_entry x) out es) = length out"
  by (induction es arbitrary: out) (auto simp: apply_entry_def)

lemma mul_column_eq:
  assumes wf: "csc_wf m" and c: "c < nat (ncols m)" and out: "length out = nat (nrows m)"
    and x: "c < length x"
  shows "mul_column m out (c, x ! c) = Inr (foldl (apply_entry x) out
    (map (\<lambda>i. (row_idx m ! i, int c, csc_values m ! i)) [cptr m c..<cptr m (c + 1)]))"
proof -
  note ptr = csc_wf_cptr [OF wf, of c] csc_wf_cptr [OF wf, of "c + 1"]
  have rows: "0 \<le> row_idx m ! i \<and> nat (row_idx m ! i) < nat (nrows m)" if "i < length (csc_values m)" for i
    using wf that by (simp add: csc_wf_def)
  have step: "try_fold (mul_entry m (x ! c)) out is =
      Inr (foldl (apply_entry x) out (map (\<lambda>i. (row_idx m ! i, int c, csc_values m ! i)) is))"
    if "\<forall>i \<in> set is. i < length (csc_values m)" "length out = nat (nrows m)" for out "is"
    using that
  proof (induction "is" arbitrary: out)
    case (Cons i "is")
    have "mul_entry m (x ! c) out i = Inr (apply_entry x out (row_idx m ! i, int c, csc_values m ! i))"
      using Cons.prems rows [of i] wf by (simp add: mul_entry_def apply_entry_def csc_wf_def Let_def)
    moreover have "length (apply_entry x out (row_idx m ! i, int c, csc_values m ! i)) = nat (nrows m)"
      using Cons.prems(2) by (simp add: apply_entry_def)
    ultimately show ?case using Cons by simp
  qed simp
  have "c + 1 < length (col_ptr m)" using wf c by (simp add: csc_wf_def)
  then have "mul_column m out (c, x ! c) = try_fold (mul_entry m (x ! c)) out [cptr m c..<cptr m (c + 1)]"
    using ptr c by (simp add: mul_column_def)
  also have "\<dots> = Inr (foldl (apply_entry x) out
      (map (\<lambda>i. (row_idx m ! i, int c, csc_values m ! i)) [cptr m c..<cptr m (c + 1)]))"
    using ptr c out by (intro step) auto
  finally show ?thesis .
qed

text \<open>On a well-formed matrix the product never panics and applies the entries in column order.\<close>

lemma mul_vector_entries:
  assumes wf: "csc_wf m" and len: "length x = nat (ncols m)"
  shows "mul_vector m x = Inr (foldl (apply_entry x) (replicate (nat (nrows m)) 0) (csc_entries m))"
proof -
  let ?out = "replicate (nat (nrows m)) 0" and ?n = "nat (ncols m)"
  let ?col = "\<lambda>c. map (\<lambda>i. (row_idx m ! i, int c, csc_values m ! i)) [cptr m c..<cptr m (c + 1)]"
  have "try_fold (mul_column m) ?out (map (\<lambda>c. (c, x ! c)) [0..<k]) =
      Inr (foldl (apply_entry x) ?out (concat (map ?col [0..<k])))" if "k \<le> ?n" for k
    using that
  proof (induction k)
    case (Suc k)
    then show ?case using mul_column_eq [OF wf, of k] len by (simp add: try_fold_append)
  qed simp
  moreover have "take ?n (enumerate 0 x) = map (\<lambda>c. (c, x ! c)) [0..<?n]"
    using len by (intro nth_equalityI) (simp_all add: nth_enumerate_eq)
  moreover have "0 < nrows m" "0 < ncols m" using wf by (simp_all add: csc_wf_def)
  ultimately show ?thesis using len by (simp add: mul_vector_def csc_entries_def)
qed

lemma apply_entries_nth:
  assumes "\<forall>(i, c, v) \<in> set es. 0 \<le> i" "r < length out"
  shows "foldl (apply_entry x) out es ! r =
    foldl (+) (out ! r) (map (\<lambda>(i, c, v). v * x ! nat c) (filter (\<lambda>e. fst e = int r) es))"
  using assms
proof (induction es arbitrary: out)
  case (Cons e es)
  obtain i c v where e: "e = (i, c, v)" by (cases e)
  show ?case
  proof (cases "i = int r")
    case True
    with Cons e show ?thesis by (simp add: apply_entry_def)
  next
    case False
    with Cons e have "nat i \<noteq> r" by auto
    with False Cons e show ?thesis by (simp add: apply_entry_def)
  qed
qed simp

lemma csc_entries_range:
  assumes "csc_wf m" "(r, c, v) \<in> set (csc_entries m)"
  shows "0 \<le> r" "r < nrows m" "0 \<le> c" "c < ncols m"
proof -
  from assms(2) obtain k i where k: "k < nat (ncols m)" "c = int k" and
    i: "cptr m k \<le> i" "i < cptr m (k + 1)" "r = row_idx m ! i"
    by (auto simp: csc_entries_def)
  have "cptr m (k + 1) \<le> length (csc_values m)" using csc_wf_cptr(2) [OF assms(1), of "k + 1"] k by simp
  with i assms(1) have "r \<in> set (row_idx m)" by (simp add: csc_wf_def)
  then show "0 \<le> r" "r < nrows m" using assms(1) by (simp_all add: csc_wf_def)
  show "0 \<le> c" "c < ncols m" using k by simp_all
qed

lemma foldl_plus_sum_list: "foldl (+) (a::'v::comm_monoid_add) xs = a + sum_list xs"
  by (induction xs arbitrary: a) (simp_all add: add.assoc)

text \<open>In exact arithmetic the row of the product is the sum over the row's entries.\<close>

lemma sum_list_entries_by_col:
  fixes es :: "(i32 \<times> i32 \<times> 'v::semiring_0) list"
  assumes "distinct (positions es)" "\<forall>(i, c, v) \<in> set es. 0 \<le> c \<and> c < int n"
  shows "(\<Sum>(i, c, v) \<leftarrow> filter (\<lambda>e. fst e = r) es. v * x ! nat c) =
    (\<Sum>c < n. unwrap_or 0 (map_of (map (\<lambda>(r, c, v). ((r, c), v)) es) (r, int c)) * x ! c)"
  using assms
proof (induction es)
  case (Cons e es)
  obtain i c v where e: "e = (i, c, v)" by (cases e)
  let ?M = "\<lambda>es k. map_of (map (\<lambda>(r, c, v). ((r, c), v)) es) k"
  from Cons.prems e have c: "0 \<le> c" "nat c < n" by auto
  have "\<forall>v. (i, c, v) \<notin> set es" using Cons.prems(1) e by (force simp: positions_def)
  then have fresh: "?M es (i, c) = None" by (rule map_of_entries_None [THEN iffD2])
  have IH: "(\<Sum>(i, c, v) \<leftarrow> filter (\<lambda>e. fst e = r) es. v * x ! nat c) =
      (\<Sum>c < n. unwrap_or 0 (?M es (r, int c)) * x ! c)"
    by (rule Cons.IH) (use Cons.prems in \<open>auto simp: positions_def\<close>)
  show ?case
  proof (cases "i = r")
    case True
    have "(\<Sum>k < n. unwrap_or 0 (?M (e # es) (r, int k)) * x ! k) =
        (\<Sum>k < n. (if k = nat c then v * x ! nat c else 0) + unwrap_or 0 (?M es (r, int k)) * x ! k)"
      using e True c fresh by (intro sum.cong) auto
    also have "\<dots> = v * x ! nat c + (\<Sum>k < n. unwrap_or 0 (?M es (r, int k)) * x ! k)"
      using c by (simp add: sum.distrib)
    finally show ?thesis using e True IH by simp
  next
    case False
    with e IH show ?thesis by simp
  qed
qed simp

text \<open>Positions of a well-formed matrix are distinct.\<close>

lemma csc_wf_distinct:
  assumes wf: "csc_wf m"
  shows "distinct (positions (csc_entries m))"
proof -
  let ?col = "\<lambda>c. map (\<lambda>i. (row_idx m ! i, int c)) [cptr m c..<cptr m (c + 1)]"
  have pos: "positions (csc_entries m) = concat (map ?col [0..<nat (ncols m)])"
    by (simp add: positions_def csc_entries_def map_concat comp_def)
  have cols: "distinct (?col c)" if c: "c < nat (ncols m)" for c
  proof -
    have le: "cptr m (c + 1) \<le> length (row_idx m)"
      using csc_wf_cptr(2) [OF wf, of "c + 1"] wf c by (simp add: csc_wf_def)
    have "map (\<lambda>i. row_idx m ! i) [cptr m c..<cptr m (c + 1)] = column_rows m c"
      unfolding column_rows_def using map_nth_segment [OF le, of "\<lambda>x. x" "cptr m c"] by simp
    moreover have "distinct (column_rows m c)" using wf c by (simp add: csc_wf_def strict_sorted_iff)
    ultimately have "distinct (map (\<lambda>i. row_idx m ! i) [cptr m c..<cptr m (c + 1)])" by simp
    then show ?thesis unfolding distinct_map by (simp add: inj_on_def)
  qed
  have "distinct (concat (map ?col [0..<k]))" if "k \<le> nat (ncols m)" for k
    using that
  proof (induction k)
    case (Suc k)
    have "set (concat (map ?col [0..<k])) \<inter> set (?col k) = {}" by auto
    with Suc cols [of k] show ?case by simp
  qed simp
  then show ?thesis by (simp add: pos)
qed

subsection \<open>The product as a linear map\<close>

lemma mul_vector_row:
  assumes wf: "csc_wf m" and len: "length x = nat (ncols m)"
  obtains out where "mul_vector m x = Inr out" "length out = nat (nrows m)"
    "\<And>r. r < nat (nrows m) \<Longrightarrow> out ! r = foldl (+) 0
       (map (\<lambda>(i, c, v). v * x ! nat c) (filter (\<lambda>e. fst e = int r) (csc_entries m)))"
proof (rule that [OF mul_vector_entries [OF wf len]])
  have "\<forall>(i, c, v) \<in> set (csc_entries m). 0 \<le> i" using csc_entries_range [OF wf] by auto
  then show "foldl (apply_entry x) (replicate (nat (nrows m)) 0) (csc_entries m) ! r = foldl (+) 0
       (map (\<lambda>(i, c, v). v * x ! nat c) (filter (\<lambda>e. fst e = int r) (csc_entries m)))"
    if "r < nat (nrows m)" for r
    using that by (subst apply_entries_nth) simp_all
qed simp

lemma mul_vector_exact:
  fixes m :: "'v::comm_semiring_0 csc_matrix"
  assumes wf: "csc_wf m" and len: "length x = nat (ncols m)"
  shows "mul_vector m x = Inr (map (\<lambda>r. \<Sum>c < nat (ncols m). csc_entry m (int r) (int c) * x ! c)
    [0..<nat (nrows m)])"
proof -
  obtain out where out: "mul_vector m x = Inr out" "length out = nat (nrows m)"
    "\<And>r. r < nat (nrows m) \<Longrightarrow> out ! r = foldl (+) 0
       (map (\<lambda>(i, c, v). v * x ! nat c) (filter (\<lambda>e. fst e = int r) (csc_entries m)))"
    using mul_vector_row [OF wf len] by blast
  have "0 < ncols m" using wf by (simp add: csc_wf_def)
  then have "\<forall>(i, c, v) \<in> set (csc_entries m). 0 \<le> c \<and> c < int (nat (ncols m))"
    using csc_entries_range [OF wf] by auto
  then have "out ! r = (\<Sum>c < nat (ncols m). csc_entry m (int r) (int c) * x ! c)" if "r < nat (nrows m)" for r
    using out(3) [OF that] sum_list_entries_by_col [OF csc_wf_distinct [OF wf], where n = "nat (ncols m)" and r = "int r" and x = x]
    by (simp add: foldl_plus_sum_list csc_entry_def)
  with out show ?thesis by (auto intro: nth_equalityI)
qed

text \<open>
  What a client of a matrix relies on: dimensions, entries and the product. The client lemmas are
  linearity of the product and the composition of two products.
\<close>

locale matrix_product =
  fixes wf :: "'m \<Rightarrow> bool"
    and rows :: "'m \<Rightarrow> nat"
    and cols :: "'m \<Rightarrow> nat"
    and entry :: "'m \<Rightarrow> nat \<Rightarrow> nat \<Rightarrow> 'v::comm_semiring_0"
    and product :: "'m \<Rightarrow> 'v list \<Rightarrow> 'v list"
  assumes product_length: "wf m \<Longrightarrow> length x = cols m \<Longrightarrow> length (product m x) = rows m"
    and product_nth: "wf m \<Longrightarrow> length x = cols m \<Longrightarrow> r < rows m \<Longrightarrow>
      product m x ! r = (\<Sum>c < cols m. entry m r c * x ! c)"
begin

lemma product_add:
  assumes "wf m" "length x = cols m" "length y = cols m"
  shows "product m (map2 (+) x y) = map2 (+) (product m x) (product m y)"
  using assms
  by (intro nth_equalityI) (simp_all add: product_length product_nth distrib_left sum.distrib)

lemma product_scale:
  assumes "wf m" "length x = cols m"
  shows "product m (map ((*) a) x) = map ((*) a) (product m x)"
  using assms
  by (intro nth_equalityI)
     (simp_all add: product_length product_nth sum_distrib_left mult.left_commute)

lemma product_compose:
  assumes "wf b" "wf c" "length x = cols b" "cols c = rows b" "r < rows c"
  shows "product c (product b x) ! r = (\<Sum>j < cols b. (\<Sum>f < cols c. entry c r f * entry b f j) * x ! j)"
proof -
  have "product c (product b x) ! r = (\<Sum>f < cols c. entry c r f * (\<Sum>j < cols b. entry b f j * x ! j))"
    using assms by (simp add: product_length product_nth)
  also have "\<dots> = (\<Sum>f < cols c. \<Sum>j < cols b. entry c r f * entry b f j * x ! j)"
    by (simp add: sum_distrib_left mult.assoc)
  also have "\<dots> = (\<Sum>j < cols b. (\<Sum>f < cols c. entry c r f * entry b f j) * x ! j)"
    by (subst sum.swap) (simp add: sum_distrib_right)
  finally show ?thesis .
qed

end

definition csc_product :: "'v::{zero,plus,times} csc_matrix \<Rightarrow> 'v list \<Rightarrow> 'v list" where
  "csc_product m x = (case mul_vector m x of Inl _ \<Rightarrow> [] | Inr out \<Rightarrow> out)"

interpretation csc: matrix_product csc_wf "\<lambda>m. nat (nrows m)" "\<lambda>m. nat (ncols m)"
  "\<lambda>m r c. csc_entry m (int r) (int c)" csc_product
  by unfold_locales (simp_all add: csc_product_def mul_vector_exact)

section \<open>Properties of the sparse matrix\<close>

lemma length_acc_triplets:
  "try_fold (acc_triplet nr nc eps) acc ts = Inr acc' \<Longrightarrow> length acc' \<le> length acc + length ts"
proof (induction ts arbitrary: acc)
  case (Cons t ts)
  then obtain a where a: "acc_triplet nr nc eps acc t = Inr a" "try_fold (acc_triplet nr nc eps) a ts = Inr acc'"
    by (auto simp: res_simps)
  have "length (AList.update k v acc) \<le> Suc (length acc)" for k and v :: 'a
    by (induction acc) auto
  with a(1) have "length a \<le> Suc (length acc)"
    by (auto simp: acc_triplet_def Let_def split: if_splits)
  with Cons.IH [OF a(2)] show ?case by simp
qed simp

lemma from_triplet_iter_ok:
  fixes eps :: "'v::{zero,plus,abs,ord}"
  assumes "0 < nr" "0 < nc" "list_all (triplet_in_range nr nc) ts" "int (length ts) \<le> i32_max"
  obtains m where "from_triplet_iter nr nc ts eps = Inr m" "csc_wf m" "nrows m = nr" "ncols m = nc"
    "\<And>r c. csc_stored m r c = built_stored eps ts (r, c)"
proof -
  obtain acc where acc: "try_fold (acc_triplet nr nc eps) [] ts = Inr acc" "alist_wf acc"
    "map_of acc = merged_at eps ts" "fst ` set acc \<subseteq> {0..<nr} \<times> {0..<nc}"
    using acc_loop [OF assms(3)] by blast
  have "int (length acc) \<le> i32_max" using length_acc_triplets [OF acc(1)] assms(4) by simp
  then obtain m where m: "csc_of_acc nr nc eps acc = Inr m" "csc_wf m" "nrows m = nr" "ncols m = nc"
    "csc_entries m = sort_by entry_le (kept_entries eps acc)"
    using csc_of_acc_ok [OF acc(2,4) assms(1,2), where eps = eps] by blast
  show thesis
  proof (rule that [of m])
    show "from_triplet_iter nr nc ts eps = Inr m"
      using assms(1,2) acc(1) m(1) by (simp add: from_triplet_iter_def)
    show "csc_stored m r c = built_stored eps ts (r, c)" for r c
      by (rule csc_stored_built [OF acc(2) m(5) acc(3)])
  qed (use m in simp_all)
qed

lemma from_triplet_iter_okD:
  assumes "from_triplet_iter nr nc ts eps = Inr m"
  shows "0 < nr" "0 < nc" "list_all (triplet_in_range nr nc) ts" "csc_wf m" "nrows m = nr" "ncols m = nc"
  using assms
  by (auto simp: from_triplet_iter_def csc_of_acc_def csc_new_ok_iff res_simps Let_def
      dest: acc_loop_ok_range split: if_splits)

text \<open>
  C10. Building a matrix from triplets: for positive dimensions, in-range indices and at most
  \<open>i32::MAX\<close> triplets, \<open>from_triplet_iter\<close> returns a well-formed matrix of those dimensions, and
  the entry at each position is the sum, in the order of the triplets, of the values there that
  exceed the zero threshold, or 0 when there is none or the sum itself is within the threshold.
\<close>

theorem from_triplet_iter_correct:
  fixes eps :: "'v::{zero,plus,abs,ord}"
  assumes "0 < nr" "0 < nc" "list_all (triplet_in_range nr nc) ts" "int (length ts) \<le> i32_max"
  shows "\<exists>m. from_triplet_iter nr nc ts eps = Inr m \<and> csc_wf m \<and> nrows m = nr \<and> ncols m = nc \<and>
    (\<forall>r c. csc_entry m r c =
       (case values_at eps ts (r, c) of
          [] \<Rightarrow> 0
        | v # vs \<Rightarrow> (let s = foldl (+) 0 (v # vs) in if eps < \<bar>s\<bar> then s else 0)))"
proof -
  obtain m where m: "from_triplet_iter nr nc ts eps = Inr m" "csc_wf m" "nrows m = nr" "ncols m = nc"
    "\<And>r c. csc_entry m r c = built_entry eps ts (r, c)"
    by (rule from_triplet_iter_ok [OF assms, where eps = eps]) (blast intro: csc_entry_of_stored)
  then show ?thesis
    by (intro exI [of _ m]) (auto simp: built_entry_def merged_at_def Let_def split: list.split)
qed

theorem from_triplet_iter_correct_witness:
  "\<exists>m. from_triplet_iter 2 2 [\<lparr>t_row = 0, t_col = 0, t_value = Fin 1\<rparr>,
      \<lparr>t_row = 0, t_col = 0, t_value = Fin 2\<rparr>] (Fin 0) = Inr m \<and> csc_wf m \<and> csc_entry m 0 0 = Fin 3"
proof -
  have "values_at (Fin 0) [\<lparr>t_row = 0, t_col = 0, t_value = Fin 1\<rparr>,
      \<lparr>t_row = 0, t_col = 0, t_value = Fin 2\<rparr>] (0, 0) = [Fin 1, Fin 2]"
    by code_simp
  moreover have "foldl (+) 0 [Fin 1, Fin 2] = Fin 3" "Fin 0 < \<bar>Fin 3\<bar>" by code_simp+
  ultimately show ?thesis
    using from_triplet_iter_correct [of 2 2 "[\<lparr>t_row = 0, t_col = 0, t_value = Fin 1\<rparr>,
      \<lparr>t_row = 0, t_col = 0, t_value = Fin 2\<rparr>]" "Fin 0"]
    by (auto simp: triplet_in_range_def i32_max_def)
qed

text \<open>
  An out-of-range triplet is reported: for positive dimensions the construction fails with the
  range error of the first offending triplet, the row index being checked before the column index.
\<close>

theorem from_triplet_iter_range_error:
  fixes eps :: "'v::{zero,plus,abs,ord}"
  assumes "0 < nr" "0 < nc" "list_all (triplet_in_range nr nc) ys" "\<not> triplet_in_range nr nc t"
  shows "from_triplet_iter nr nc (ys @ t # zs) eps =
    Inl (if 0 \<le> t_row t \<and> t_row t < nr then ColOutOfRange (t_col t) nc else RowOutOfRange (t_row t) nr)"
proof -
  obtain acc where acc: "try_fold (acc_triplet nr nc eps) [] ys = Inr acc"
    using acc_loop [OF assms(3)] by blast
  have "acc_triplet nr nc eps acc t =
      Inl (if 0 \<le> t_row t \<and> t_row t < nr then ColOutOfRange (t_col t) nc else RowOutOfRange (t_row t) nr)"
    using assms(4) by (auto simp: acc_triplet_def triplet_in_range_def)
  with acc assms(1,2) show ?thesis by (simp add: from_triplet_iter_def try_fold_append)
qed

theorem from_triplet_iter_range_error_witness:
  "from_triplet_iter 2 2 [\<lparr>t_row = 1, t_col = 2, t_value = Fin 1\<rparr>] (Fin 0) = Inl (ColOutOfRange 2 2)"
  using from_triplet_iter_range_error [of 2 2 "[]" "\<lparr>t_row = 1, t_col = 2, t_value = Fin 1\<rparr>" "[]" "Fin 0"]
  by (simp add: triplet_in_range_def)

text \<open>
  The hash map that aggregates duplicate triplets has no specified iteration order; the built
  matrix (or error) is the same for every order in which it may yield its entries.
\<close>

theorem from_triplet_iter_order:
  assumes "alist_wf acc" "mset acc' = mset acc"
  shows "csc_of_acc nr nc eps acc' = csc_of_acc nr nc eps acc"
proof -
  have "mset (map fst acc') = mset (map fst acc)" using assms(2) by simp
  then have wf: "alist_wf acc'" using assms(1) unfolding alist_wf_def by (metis mset_eq_imp_distinct_iff)
  have "map_of acc' = map_of acc"
  proof
    fix k
    have "set acc' = set acc" using assms(2) by (rule mset_eq_setD)
    then show "map_of acc' k = map_of acc k"
      using alist_get_iff [OF wf, of k] alist_get_iff [OF assms(1), of k] by (metis not_None_eq)
  qed
  then show ?thesis using sort_entries_unique [OF wf assms(1)] by (simp add: csc_of_acc_def)
qed

theorem from_triplet_iter_order_witness:
  "csc_of_acc 2 2 (0::int) [((1, 1), 5), ((0, 0), 7)] = csc_of_acc 2 2 0 [((0, 0), 7), ((1, 1), 5)]"
  by (rule from_triplet_iter_order) (simp_all add: alist_wf_def)

text \<open>
  \<open>validate\<close> accepts exactly the well-formed matrices, and its slice indexing never panics:
  the checks that precede the per-column loop put every column range inside the row array.
\<close>

theorem validate_correct:
  "(validate m = Inr () \<longleftrightarrow> csc_wf m) \<and> validate m \<noteq> Inl SliceIndexPanic"
  by (simp add: validate_ok_iff validate_no_panic)

text \<open>
  The matrix-vector product never indexes out of range on a well-formed matrix, returns one
  value per row, and in exact arithmetic that value is the sum over the columns of entry times
  vector component.
\<close>

theorem mul_vector_correct:
  fixes m :: "'v::comm_semiring_0 csc_matrix"
  assumes "csc_wf m" "length x = nat (ncols m)"
  shows "mul_vector m x = Inr (map (\<lambda>r. \<Sum>c < nat (ncols m). csc_entry m (int r) (int c) * x ! c)
    [0..<nat (nrows m)])"
  using assms by (rule mul_vector_exact)

definition demo_matrix :: "int csc_matrix" where
  "demo_matrix = \<lparr>nrows = 2, ncols = 2, col_ptr = [0, 2, 3], row_idx = [0, 1, 1], csc_values = [2, 3, 4]\<rparr>"

lemma demo_matrix_wf: "csc_wf demo_matrix"
proof -
  have "validate demo_matrix = Inr ()" by code_simp
  then show ?thesis by (simp add: validate_ok_iff)
qed

theorem mul_vector_correct_witness:
  "mul_vector demo_matrix [10, 1] = Inr (map (\<lambda>r. \<Sum>c < 2. csc_entry demo_matrix (int r) (int c) * [10, 1] ! c) [0..<2])
   \<and> mul_vector demo_matrix [10, 1] = Inr [20, 34]"
proof -
  have "mul_vector demo_matrix [10, 1] = Inr [20, 34]" by code_simp
  then show ?thesis
    using mul_vector_correct [OF demo_matrix_wf, of "[10, 1]"] by (simp add: demo_matrix_def)
qed

text \<open>
  In binary64 the product of a row is the rounded sum of the rounded products of the row's
  entries, taken in column order starting from +0, so the result is deterministic.
\<close>

theorem mul_vector_f64:
  fixes m :: "f64 csc_matrix"
  assumes "csc_wf m" "length x = nat (ncols m)" "r < nat (nrows m)"
  shows "\<exists>out. mul_vector m x = Inr out \<and> length out = nat (nrows m) \<and>
    out ! r = foldl f64_add (Fin 0)
      (map (\<lambda>(i, c, v). f64_mul v (x ! nat c)) (filter (\<lambda>e. fst e = int r) (csc_entries m)))"
  using mul_vector_row [OF assms(1,2)] assms(3) by (metis plus_f64_def times_f64_def zero_f64_def)

theorem mul_vector_f64_witness:
  "\<exists>out. mul_vector \<lparr>nrows = 1, ncols = 1, col_ptr = [0, 1], row_idx = [0], csc_values = [Fin 2]\<rparr> [Fin 3]
     = Inr out \<and> length out = 1 \<and> out ! 0 = Fin 6"
proof -
  let ?m = "\<lparr>nrows = 1, ncols = 1, col_ptr = [0, 1], row_idx = [0], csc_values = [Fin 2]\<rparr>"
  have "validate ?m = Inr ()" by code_simp
  then have wf: "csc_wf ?m" by (simp add: validate_ok_iff)
  have "foldl f64_add (Fin 0) (map (\<lambda>(i, c, v). f64_mul v ([Fin 3] ! nat c))
      (filter (\<lambda>e. fst e = int 0) (csc_entries ?m))) = Fin 6" by code_simp
  then show ?thesis using mul_vector_f64 [OF wf, of "[Fin 3]" 0] by simp
qed

end
