(* ===== verification/Data_Builder.thy ===== *)
theory Data_Builder
  imports Csc_Matrix
begin

text \<open>
  \<open>crates/solver-core/src/data_builder.rs\<close>: the matrices \<open>M = I - A\<close>, \<open>B\<close> and \<open>C\<close> of one model
  version from its sparse entries. The build fails exactly on non-positive dimensions or an
  out-of-range entry. In binary64 every stored coefficient is the rounded in-order sum of the
  coefficients listed for its position, so \<open>M\<close> is \<open>I - A\<close> as far as rounding and the zero threshold
  allow, and a NaN erases its position; in exact arithmetic the threshold alone costs a known bound.
\<close>

section \<open>Data and the build\<close>

record 'v sparse_triplet =
  s_row :: i32
  s_col :: i32
  s_value :: 'v

record 'v model_sparse_data =
  model_version :: uuid
  process_count :: i32
  flow_count :: i32
  impact_count :: i32
  technosphere_entries :: "'v sparse_triplet list"
  biosphere_entries :: "'v sparse_triplet list"
  characterization_factors :: "'v sparse_triplet list"

record 'v built_matrices =
  bm_m :: "'v csc_matrix"
  bm_b :: "'v csc_matrix"
  bm_c :: "'v csc_matrix"
  m_nnz :: usize
  b_nnz :: usize
  c_nnz :: usize

datatype data_builder_error =
    BuilderInvalidDimensions i32 i32 i32
  | BuilderMatrix matrix_error

record 'v data_builder =
  zero_epsilon :: 'v

definition data_builder_default :: "f64 data_builder" where
  "data_builder_default = \<lparr>zero_epsilon = f64_lit (1 / 10 ^ 15)\<rparr>"

definition to_matrix_triplet :: "'v sparse_triplet \<Rightarrow> 'v matrix_triplet" where
  "to_matrix_triplet t = \<lparr>t_row = s_row t, t_col = s_col t, t_value = s_value t\<rparr>"

text \<open>The triplets of \<open>M\<close>: the negated technosphere entries, then the unit diagonal.\<close>

definition negated_triplet :: "'v::uminus sparse_triplet \<Rightarrow> 'v matrix_triplet" where
  "negated_triplet t = \<lparr>t_row = s_row t, t_col = s_col t, t_value = - s_value t\<rparr>"

definition diagonal_triplet :: "i32 \<Rightarrow> 'v::one matrix_triplet" where
  "diagonal_triplet i = \<lparr>t_row = i, t_col = i, t_value = 1\<rparr>"

definition m_triplets :: "'v::{one,uminus} model_sparse_data \<Rightarrow> 'v matrix_triplet list" where
  "m_triplets data = map negated_triplet (technosphere_entries data) @
     map diagonal_triplet [0..process_count data - 1]"

definition build ::
  "'v::{zero,one,plus,uminus,abs,ord} data_builder \<Rightarrow> 'v model_sparse_data
   \<Rightarrow> data_builder_error + 'v built_matrices" where
  "build self data =
     (if process_count data \<le> 0 \<or> flow_count data \<le> 0 \<or> impact_count data \<le> 0
      then Inl (BuilderInvalidDimensions (process_count data) (flow_count data) (impact_count data))
      else
        res_bind (map_err BuilderMatrix
          (from_triplet_iter (process_count data) (process_count data) (m_triplets data)
             (zero_epsilon self))) (\<lambda>m.
        res_bind (map_err BuilderMatrix
          (from_triplet_iter (flow_count data) (process_count data)
             (map to_matrix_triplet (biosphere_entries data)) (zero_epsilon self))) (\<lambda>b.
        res_bind (map_err BuilderMatrix
          (from_triplet_iter (impact_count data) (flow_count data)
             (map to_matrix_triplet (characterization_factors data)) (zero_epsilon self))) (\<lambda>c.
        Inr \<lparr>bm_m = m, bm_b = b, bm_c = c, m_nnz = nnz m, b_nnz = nnz b, c_nnz = nnz c\<rparr>))))"

section \<open>The built matrices\<close>

definition sparse_in_range :: "i32 \<Rightarrow> i32 \<Rightarrow> 'v sparse_triplet \<Rightarrow> bool" where
  "sparse_in_range nr nc t \<longleftrightarrow> 0 \<le> s_row t \<and> s_row t < nr \<and> 0 \<le> s_col t \<and> s_col t < nc"

text \<open>The inputs a build accepts: positive dimensions, indices in range, sizes within \<open>i32\<close>.\<close>

definition model_wf :: "'v model_sparse_data \<Rightarrow> bool" where
  "model_wf data \<longleftrightarrow>
     0 < process_count data \<and> 0 < flow_count data \<and> 0 < impact_count data \<and>
     list_all (sparse_in_range (process_count data) (process_count data)) (technosphere_entries data) \<and>
     list_all (sparse_in_range (flow_count data) (process_count data)) (biosphere_entries data) \<and>
     list_all (sparse_in_range (impact_count data) (flow_count data)) (characterization_factors data) \<and>
     int (length (technosphere_entries data)) + process_count data \<le> i32_max \<and>
     int (length (biosphere_entries data)) \<le> i32_max \<and>
     int (length (characterization_factors data)) \<le> i32_max"

lemma sparse_in_range_triplet [simp]:
  "triplet_in_range nr nc (to_matrix_triplet t) \<longleftrightarrow> sparse_in_range nr nc t"
  "triplet_in_range nr nc (negated_triplet t) \<longleftrightarrow> sparse_in_range nr nc t"
  by (simp_all add: triplet_in_range_def to_matrix_triplet_def negated_triplet_def sparse_in_range_def)

lemma diagonal_in_range [simp]: "triplet_in_range n n (diagonal_triplet i) \<longleftrightarrow> 0 \<le> i \<and> i < n"
  by (auto simp: triplet_in_range_def diagonal_triplet_def)

lemma m_triplets_in_range:
  "list_all (triplet_in_range (process_count data) (process_count data)) (m_triplets data) \<longleftrightarrow>
     list_all (sparse_in_range (process_count data) (process_count data)) (technosphere_entries data)"
  by (simp add: m_triplets_def list_all_iff ball_Un)

lemma length_m_triplets:
  "0 < process_count data \<Longrightarrow>
     int (length (m_triplets data)) = int (length (technosphere_entries data)) + process_count data"
  by (simp add: m_triplets_def)

lemma build_ok:
  fixes self :: "'v::{zero,one,plus,uminus,abs,ord} data_builder"
  assumes "model_wf data"
  obtains bm where "build self data = Inr bm"
    "csc_wf (bm_m bm)" "shape (bm_m bm) = (process_count data, process_count data)"
    "csc_wf (bm_b bm)" "shape (bm_b bm) = (flow_count data, process_count data)"
    "csc_wf (bm_c bm)" "shape (bm_c bm) = (impact_count data, flow_count data)"
    "\<And>r c. csc_stored (bm_m bm) r c = built_stored (zero_epsilon self) (m_triplets data) (r, c)"
    "\<And>r c. csc_stored (bm_b bm) r c =
       built_stored (zero_epsilon self) (map to_matrix_triplet (biosphere_entries data)) (r, c)"
    "\<And>r c. csc_stored (bm_c bm) r c =
       built_stored (zero_epsilon self) (map to_matrix_triplet (characterization_factors data)) (r, c)"
proof -
  let ?P = "process_count data" and ?F = "flow_count data" and ?I = "impact_count data"
  let ?e = "zero_epsilon self"
  from assms have dims: "0 < ?P" "0 < ?F" "0 < ?I" by (simp_all add: model_wf_def)
  obtain m where m: "from_triplet_iter ?P ?P (m_triplets data) ?e = Inr m" "csc_wf m"
    "nrows m = ?P" "ncols m = ?P" "\<And>r c. csc_stored m r c = built_stored ?e (m_triplets data) (r, c)"
    by (rule from_triplet_iter_ok [of ?P ?P "m_triplets data" ?e])
       (use assms in \<open>auto simp: model_wf_def m_triplets_in_range length_m_triplets\<close>)
  obtain b where b: "from_triplet_iter ?F ?P (map to_matrix_triplet (biosphere_entries data)) ?e = Inr b"
    "csc_wf b" "nrows b = ?F" "ncols b = ?P"
    "\<And>r c. csc_stored b r c = built_stored ?e (map to_matrix_triplet (biosphere_entries data)) (r, c)"
    by (rule from_triplet_iter_ok [of ?F ?P "map to_matrix_triplet (biosphere_entries data)" ?e])
       (use assms in \<open>auto simp: model_wf_def list.pred_map comp_def\<close>)
  obtain c where c: "from_triplet_iter ?I ?F (map to_matrix_triplet (characterization_factors data)) ?e = Inr c"
    "csc_wf c" "nrows c = ?I" "ncols c = ?F"
    "\<And>r k. csc_stored c r k = built_stored ?e (map to_matrix_triplet (characterization_factors data)) (r, k)"
    by (rule from_triplet_iter_ok [of ?I ?F "map to_matrix_triplet (characterization_factors data)" ?e])
       (use assms in \<open>auto simp: model_wf_def list.pred_map comp_def\<close>)
  let ?bm = "\<lparr>bm_m = m, bm_b = b, bm_c = c, m_nnz = nnz m, b_nnz = nnz b, c_nnz = nnz c\<rparr>"
  have "build self data = Inr ?bm" using dims m b c by (simp add: build_def)
  then show thesis by (rule that) (simp_all add: m b c shape_def)
qed

lemma build_okD:
  assumes "build self data = Inr bm"
  shows "csc_wf (bm_m bm)" "shape (bm_m bm) = (process_count data, process_count data)"
    "csc_wf (bm_b bm)" "shape (bm_b bm) = (flow_count data, process_count data)"
    "csc_wf (bm_c bm)" "shape (bm_c bm) = (impact_count data, flow_count data)"
    "m_nnz bm = nnz (bm_m bm)" "b_nnz bm = nnz (bm_b bm)" "c_nnz bm = nnz (bm_c bm)"
  using assms
  by (auto simp: build_def res_simps shape_def dest: from_triplet_iter_okD split: if_splits)

text \<open>The effect of the zero threshold on one position, in exact ordered arithmetic.\<close>

abbreviation raw_sum :: "'v::comm_monoid_add matrix_triplet list \<Rightarrow> i32 \<times> i32 \<Rightarrow> 'v" where
  "raw_sum ts k \<equiv> sum_list (map t_value (filter (\<lambda>t. t_pos t = k) ts))"

lemma sum_values_at_close:
  fixes eps :: "'v::linordered_idom"
  assumes "0 \<le> eps"
  shows "\<bar>sum_list (values_at eps ts k) - raw_sum ts k\<bar> \<le> of_nat (length (filter (\<lambda>t. t_pos t = k) ts)) * eps"
proof (induction ts)
  case (Cons t ts)
  let ?n = "of_nat (length (filter (\<lambda>t. t_pos t = k) ts)) :: 'v"
  show ?case
  proof (cases "t_pos t = k \<and> \<bar>t_value t\<bar> \<le> eps")
    case True
    then have "\<bar>sum_list (values_at eps ts k) - (t_value t + raw_sum ts k)\<bar> \<le> ?n * eps + eps"
      using Cons by (simp add: abs_le_iff)
    with True show ?thesis by (simp add: values_at_def distrib_right add.commute)
  next
    case False
    then show ?thesis using Cons assms by (auto simp: values_at_def distrib_right)
  qed
qed (simp add: values_at_def)

lemma built_entry_close:
  fixes eps :: "'v::linordered_idom"
  assumes "0 \<le> eps"
  shows "\<bar>built_entry eps ts k - raw_sum ts k\<bar> \<le> of_nat (length (filter (\<lambda>t. t_pos t = k) ts) + 1) * eps"
proof -
  let ?s = "sum_list (values_at eps ts k)"
  have "\<bar>built_entry eps ts k - ?s\<bar> \<le> eps"
    using assms by (auto simp: built_entry_def merged_at_def foldl_plus_sum_list not_less split: if_splits)
  moreover have "\<bar>built_entry eps ts k - raw_sum ts k\<bar> \<le> \<bar>built_entry eps ts k - ?s\<bar> + \<bar>?s - raw_sum ts k\<bar>"
    using abs_triangle_ineq [of "built_entry eps ts k - ?s" "?s - raw_sum ts k"] by simp
  ultimately show ?thesis using sum_values_at_close [OF assms, of ts k] by (simp add: distrib_right)
qed

abbreviation entries_at :: "'v sparse_triplet list \<Rightarrow> i32 \<Rightarrow> i32 \<Rightarrow> 'v sparse_triplet list" where
  "entries_at ts r c \<equiv> filter (\<lambda>t. s_row t = r \<and> s_col t = c) ts"

definition coefficient_sum :: "'v::comm_monoid_add sparse_triplet list \<Rightarrow> i32 \<Rightarrow> i32 \<Rightarrow> 'v" where
  "coefficient_sum ts r c = sum_list (map s_value (entries_at ts r c))"

lemma raw_sum_plain:
  "raw_sum (map to_matrix_triplet ts) (r, c) = coefficient_sum ts r c"
  "length (filter (\<lambda>t. t_pos t = (r, c)) (map to_matrix_triplet ts)) = length (entries_at ts r c)"
  by (simp_all add: coefficient_sum_def filter_map comp_def to_matrix_triplet_def)

lemma filter_diagonal:
  "filter (\<lambda>t. t_pos t = (r, c)) (map diagonal_triplet [0..n - 1]) =
     (if r = c \<and> 0 \<le> r \<and> r < n then [diagonal_triplet r] else [])"
proof -
  have "filter (\<lambda>i. i = r) [0..n - 1] = (if 0 \<le> r \<and> r < n then [r] else [])"
    by (subst filter_eq_distinct) auto
  then show ?thesis by (auto simp: filter_map comp_def diagonal_triplet_def)
qed

lemma raw_sum_m:
  fixes data :: "'v::linordered_idom model_sparse_data"
  assumes "0 \<le> r" "r < process_count data"
  shows "raw_sum (m_triplets data) (r, c) =
      (if r = c then 1 else 0) - coefficient_sum (technosphere_entries data) r c"
    and "length (filter (\<lambda>t. t_pos t = (r, c)) (m_triplets data)) =
      length (entries_at (technosphere_entries data) r c) + (if r = c then 1 else 0)"
proof -
  have neg: "filter (\<lambda>t. t_pos t = (r, c)) (map negated_triplet (technosphere_entries data)) =
      map negated_triplet (entries_at (technosphere_entries data) r c)"
    by (simp add: filter_map comp_def negated_triplet_def)
  have "sum_list (map (t_value \<circ> negated_triplet) ts) = - sum_list (map s_value ts)" for ts :: "'v sparse_triplet list"
    by (induction ts) (simp_all add: negated_triplet_def)
  then show "raw_sum (m_triplets data) (r, c) =
      (if r = c then 1 else 0) - coefficient_sum (technosphere_entries data) r c"
    using assms
    by (simp only: m_triplets_def filter_append neg filter_diagonal)
       (simp add: coefficient_sum_def diagonal_triplet_def)
  show "length (filter (\<lambda>t. t_pos t = (r, c)) (m_triplets data)) =
      length (entries_at (technosphere_entries data) r c) + (if r = c then 1 else 0)"
    using assms by (simp only: m_triplets_def filter_append neg filter_diagonal) simp
qed

text \<open>
  In exact arithmetic the coefficient of \<open>M\<close> at \<open>(r, c)\<close> is that of \<open>I - A\<close> up to the zero
  threshold once per entry at that position plus once for the sum, and \<open>B\<close> and \<open>C\<close> carry the
  sums of their entries with the same bound: what the threshold alone costs, without rounding.
\<close>

theorem build_exact_close:
  fixes self :: "'v::linordered_idom data_builder"
  assumes "model_wf data" "0 \<le> zero_epsilon self"
    "0 \<le> r" "r < process_count data" "0 \<le> c" "c < process_count data"
  shows "\<exists>bm. build self data = Inr bm \<and>
    \<bar>csc_entry (bm_m bm) r c - ((if r = c then 1 else 0) - coefficient_sum (technosphere_entries data) r c)\<bar>
      \<le> of_nat (length (entries_at (technosphere_entries data) r c) + (if r = c then 2 else 1)) * zero_epsilon self \<and>
    (\<forall>f. \<bar>csc_entry (bm_b bm) f c - coefficient_sum (biosphere_entries data) f c\<bar>
      \<le> of_nat (length (entries_at (biosphere_entries data) f c) + 1) * zero_epsilon self) \<and>
    (\<forall>i f. \<bar>csc_entry (bm_c bm) i f - coefficient_sum (characterization_factors data) i f\<bar>
      \<le> of_nat (length (entries_at (characterization_factors data) i f) + 1) * zero_epsilon self)"
proof -
  obtain bm where bm: "build self data = Inr bm"
    "\<And>r c. csc_entry (bm_m bm) r c = built_entry (zero_epsilon self) (m_triplets data) (r, c)"
    "\<And>r c. csc_entry (bm_b bm) r c =
       built_entry (zero_epsilon self) (map to_matrix_triplet (biosphere_entries data)) (r, c)"
    "\<And>r c. csc_entry (bm_c bm) r c =
       built_entry (zero_epsilon self) (map to_matrix_triplet (characterization_factors data)) (r, c)"
    by (rule build_ok [OF assms(1), of self]) (blast intro: csc_entry_of_stored)
  note close = built_entry_close [OF assms(2)]
  have "\<bar>csc_entry (bm_m bm) r c - ((if r = c then 1 else 0) - coefficient_sum (technosphere_entries data) r c)\<bar>
      \<le> of_nat (length (entries_at (technosphere_entries data) r c) + (if r = c then 2 else 1)) * zero_epsilon self"
    using close [of "m_triplets data" "(r, c)"]
    unfolding bm(2) raw_sum_m [OF assms(3,4)] by (cases "r = c") (auto simp: add.commute)
  moreover have "\<bar>csc_entry (bm_b bm) f c - coefficient_sum (biosphere_entries data) f c\<bar>
      \<le> of_nat (length (entries_at (biosphere_entries data) f c) + 1) * zero_epsilon self" for f
    using close [of "map to_matrix_triplet (biosphere_entries data)" "(f, c)"] by (simp only: bm(3) raw_sum_plain)
  moreover have "\<bar>csc_entry (bm_c bm) i f - coefficient_sum (characterization_factors data) i f\<bar>
      \<le> of_nat (length (entries_at (characterization_factors data) i f) + 1) * zero_epsilon self" for i f
    using close [of "map to_matrix_triplet (characterization_factors data)" "(i, f)"]
    by (simp only: bm(4) raw_sum_plain)
  ultimately show ?thesis using bm(1) by blast
qed

subsection \<open>The build in binary64\<close>

text \<open>The coefficients listed for one position, in list order.\<close>

definition coefficients_at :: "'v sparse_triplet list \<Rightarrow> i32 \<Rightarrow> i32 \<Rightarrow> 'v list" where
  "coefficients_at ts r c = map s_value (entries_at ts r c)"

text \<open>
  What binary64 arithmetic leaves of the values listed for one position: the values within the
  threshold are skipped, the others are added in order from +0, and the sum is stored when it
  exceeds the threshold itself.
\<close>

definition stored_sum :: "f64 \<Rightarrow> f64 list \<Rightarrow> f64 option" where
  "stored_sum eps vs =
     (let kept = filter (\<lambda>v. \<not> f64_le (f64_abs v) eps) vs; s = foldl f64_add (Fin 0) kept
      in if kept \<noteq> [] \<and> f64_less eps (f64_abs s) then Some s else None)"

lemma built_stored_f64: "built_stored eps ts k = stored_sum eps (map t_value (filter (\<lambda>t. t_pos t = k) ts))"
proof -
  have "values_at eps ts k = filter (\<lambda>v. \<not> f64_le (f64_abs v) eps) (map t_value (filter (\<lambda>t. t_pos t = k) ts))"
    by (simp add: values_at_def filter_map comp_def f64_ops)
  then show ?thesis by (simp add: built_stored_def merged_at_def stored_sum_def Let_def f64_ops)
qed

lemma values_plain:
  "map t_value (filter (\<lambda>t. t_pos t = (r, c)) (map to_matrix_triplet ts)) = coefficients_at ts r c"
  by (simp add: coefficients_at_def filter_map comp_def to_matrix_triplet_def)

lemma values_m:
  fixes data :: "f64 model_sparse_data"
  shows "map t_value (filter (\<lambda>t. t_pos t = (r, c)) (m_triplets data)) =
    map f64_neg (coefficients_at (technosphere_entries data) r c) @
      (if r = c \<and> 0 \<le> r \<and> r < process_count data then [Fin 1] else [])"
  by (simp only: m_triplets_def filter_append filter_diagonal)
     (simp add: coefficients_at_def filter_map comp_def negated_triplet_def diagonal_triplet_def f64_ops)

text \<open>Adding a machine value to +0 is exact apart from the sign of zero; addition commutes.\<close>

lemma f64_add_zero: "f64_wf x \<Longrightarrow> x \<noteq> NegZero \<Longrightarrow> f64_add (Fin 0) x = x"
  by (cases x) (simp_all add: f64_add_def f64_round_representable)

lemma f64_add_commute: "f64_add x y = f64_add y x"
  by (auto simp: f64_add_def add.commute)

lemma f64_neg_facts:
  "f64_abs (f64_neg a) = f64_abs a" "f64_wf (f64_neg a) \<longleftrightarrow> f64_wf a" "f64_neg a = NegZero \<longleftrightarrow> a = Fin 0"
  by (cases a; simp)+

lemma f64_less_imp_not_le: "f64_less x y \<Longrightarrow> \<not> f64_le y x"
  by (cases x; cases y) (auto simp: f64_le_def f64_eq_def f64_is_zero_def)

lemma not_less_Fin0: "f64_nonneg eps \<Longrightarrow> \<not> f64_less eps (Fin 0)"
  by (cases eps) auto

text \<open>The reference sum at the positions of \<open>M\<close> that have at most one technosphere coefficient.\<close>

lemma stored_sum_nil [simp]: "stored_sum eps [] = None"
  by (simp add: stored_sum_def)

lemma stored_sum_unit: "f64_less eps (Fin 1) \<Longrightarrow> stored_sum eps [Fin 1] = Some (Fin 1)"
  using f64_less_imp_not_le [of eps "Fin 1"] f64_add_zero [of "Fin 1"] representable_of_int [of 1]
  by (simp add: stored_sum_def)

lemma stored_sum_neg:
  assumes "f64_nonneg eps" "f64_wf a" "f64_less eps (f64_abs a)"
  shows "stored_sum eps [f64_neg a] = Some (f64_neg a)"
    and "stored_sum eps [f64_neg a, Fin 1] = (if f64_less eps (Fin 1) then
      (if f64_less eps (f64_abs (f64_sub (Fin 1) a)) then Some (f64_sub (Fin 1) a) else None)
      else Some (f64_neg a))"
proof -
  have "a \<noteq> Fin 0" using assms(1,3) not_less_Fin0 by auto
  then have z: "f64_add (Fin 0) (f64_neg a) = f64_neg a"
    using assms(2) by (simp add: f64_add_zero f64_neg_facts)
  have one: "f64_le (Fin 1) eps \<longleftrightarrow> \<not> f64_less eps (Fin 1)"
    using f64_not_le_iff_less [of "Fin 1" eps] assms(1) by (cases "eps = NaN") auto
  note d = stored_sum_def f64_neg_facts z f64_less_imp_not_le [OF assms(3)] assms(3) f64_sub_def one
  show "stored_sum eps [f64_neg a] = Some (f64_neg a)" by (simp add: d)
  show "stored_sum eps [f64_neg a, Fin 1] = (if f64_less eps (Fin 1) then
      (if f64_less eps (f64_abs (f64_sub (Fin 1) a)) then Some (f64_sub (Fin 1) a) else None)
      else Some (f64_neg a))"
    by (simp add: d f64_add_commute [of "Fin 1"])
qed

section \<open>Properties of the build\<close>

text \<open>
  C5. The build of a model with positive dimensions, in-range entries and sizes within \<open>i32\<close>
  succeeds with well-formed matrices of the model's shapes, and in binary64 what they store is
  determined position by position. \<open>M\<close> stores at \<open>(r, c)\<close> the rounded in-order sum of the negated
  technosphere coefficients there followed by the unit of the diagonal, leaving out the values
  within the zero threshold and storing nothing when the sum is within it; \<open>B\<close> and \<open>C\<close> store the
  sums of their own coefficients in the same way. Hence, for a threshold between 0 and 1, \<open>M\<close> is
  \<open>I - A\<close> in binary64 wherever \<open>A\<close> has at most one coefficient: without one the unit diagonal and
  nothing else; with a coefficient \<open>a\<close> above the threshold exactly \<open>-a\<close> off the diagonal and the
  correctly rounded \<open>1 - a\<close> on it, unless that is within the threshold.
\<close>

theorem build_m_is_identity_minus_a:
  fixes self :: "f64 data_builder"
  assumes "model_wf data"
  shows "\<exists>bm. build self data = Inr bm \<and>
    csc_wf (bm_m bm) \<and> shape (bm_m bm) = (process_count data, process_count data) \<and>
    csc_wf (bm_b bm) \<and> shape (bm_b bm) = (flow_count data, process_count data) \<and>
    csc_wf (bm_c bm) \<and> shape (bm_c bm) = (impact_count data, flow_count data) \<and>
    (\<forall>r c. csc_stored (bm_m bm) r c = stored_sum (zero_epsilon self)
       (map f64_neg (coefficients_at (technosphere_entries data) r c) @
        (if r = c \<and> 0 \<le> r \<and> r < process_count data then [Fin 1] else []))) \<and>
    (\<forall>f c. csc_stored (bm_b bm) f c =
       stored_sum (zero_epsilon self) (coefficients_at (biosphere_entries data) f c)) \<and>
    (\<forall>i f. csc_stored (bm_c bm) i f =
       stored_sum (zero_epsilon self) (coefficients_at (characterization_factors data) i f)) \<and>
    (f64_nonneg (zero_epsilon self) \<and> f64_less (zero_epsilon self) (Fin 1) \<longrightarrow>
      (\<forall>r c. 0 \<le> r \<and> r < process_count data \<longrightarrow>
        (coefficients_at (technosphere_entries data) r c = [] \<longrightarrow>
          csc_stored (bm_m bm) r c = (if r = c then Some (Fin 1) else None)) \<and>
        (\<forall>a. coefficients_at (technosphere_entries data) r c = [a] \<and> f64_wf a \<and>
             f64_less (zero_epsilon self) (f64_abs a) \<longrightarrow>
          csc_stored (bm_m bm) r c =
            (if r \<noteq> c then Some (f64_neg a)
             else if f64_less (zero_epsilon self) (f64_abs (f64_sub (Fin 1) a))
             then Some (f64_sub (Fin 1) a) else None))))"
proof -
  obtain bm where bm: "build self data = Inr bm"
    "csc_wf (bm_m bm)" "shape (bm_m bm) = (process_count data, process_count data)"
    "csc_wf (bm_b bm)" "shape (bm_b bm) = (flow_count data, process_count data)"
    "csc_wf (bm_c bm)" "shape (bm_c bm) = (impact_count data, flow_count data)"
    "\<And>r c. csc_stored (bm_m bm) r c = built_stored (zero_epsilon self) (m_triplets data) (r, c)"
    "\<And>r c. csc_stored (bm_b bm) r c =
       built_stored (zero_epsilon self) (map to_matrix_triplet (biosphere_entries data)) (r, c)"
    "\<And>r c. csc_stored (bm_c bm) r c =
       built_stored (zero_epsilon self) (map to_matrix_triplet (characterization_factors data)) (r, c)"
    by (rule build_ok [OF assms(1), of self]) (rule that)
  have m: "csc_stored (bm_m bm) r c = stored_sum (zero_epsilon self)
       (map f64_neg (coefficients_at (technosphere_entries data) r c) @
        (if r = c \<and> 0 \<le> r \<and> r < process_count data then [Fin 1] else []))" for r c
    by (simp only: bm(8) built_stored_f64 values_m)
  have bc: "csc_stored (bm_b bm) r c = stored_sum (zero_epsilon self) (coefficients_at (biosphere_entries data) r c)"
    "csc_stored (bm_c bm) r c = stored_sum (zero_epsilon self) (coefficients_at (characterization_factors data) r c)"
    for r c by (simp_all only: bm(9,10) built_stored_f64 values_plain)
  show ?thesis
    by (intro exI [of _ bm] conjI impI allI bm(1-7) m bc) (auto simp: m stored_sum_unit stored_sum_neg)
qed

definition demo_model :: "f64 model_sparse_data" where
  "demo_model = \<lparr>model_version = ''m'', process_count = 2, flow_count = 1, impact_count = 1,
     technosphere_entries = [\<lparr>s_row = 0, s_col = 1, s_value = Fin (1 / 2)\<rparr>, \<lparr>s_row = 1, s_col = 1, s_value = Fin (1 / 4)\<rparr>],
     biosphere_entries = [\<lparr>s_row = 0, s_col = 0, s_value = Fin 2\<rparr>, \<lparr>s_row = 0, s_col = 0, s_value = Fin 3\<rparr>],
     characterization_factors = [\<lparr>s_row = 0, s_col = 0, s_value = Fin 3\<rparr>]\<rparr>"

lemma demo_model_wf: "model_wf demo_model"
  by (simp add: model_wf_def demo_model_def sparse_in_range_def i32_max_def)

lemma demo_coefficients:
  "coefficients_at (technosphere_entries demo_model) 0 0 = []"
  "coefficients_at (technosphere_entries demo_model) 0 1 = [Fin (1 / 2)]"
  "coefficients_at (technosphere_entries demo_model) 1 1 = [Fin (1 / 4)]"
  "coefficients_at (biosphere_entries demo_model) 0 0 = [Fin 2, Fin 3]"
  by (simp_all add: coefficients_at_def demo_model_def)

lemma demo_binary64:
  "f64_nonneg (zero_epsilon data_builder_default)" "f64_less (zero_epsilon data_builder_default) (Fin 1)"
  "f64_less (zero_epsilon data_builder_default) (Fin (1 / 2))"
  "f64_less (zero_epsilon data_builder_default) (Fin (1 / 4))"
  "f64_less (zero_epsilon data_builder_default) (Fin (3 / 4))"
  "f64_sub (Fin 1) (Fin (1 / 4)) = Fin (3 / 4)"
  "representable (1 / 2)" "representable (1 / 4)"
  "stored_sum (zero_epsilon data_builder_default) [Fin 2, Fin 3] = Some (Fin 5)"
  by code_simp+

theorem build_m_is_identity_minus_a_witness:
  "\<exists>bm. build data_builder_default demo_model = Inr bm \<and>
     csc_stored (bm_m bm) 0 0 = Some (Fin 1) \<and> csc_stored (bm_m bm) 0 1 = Some (Fin (- 1 / 2)) \<and>
     csc_stored (bm_m bm) 1 0 = None \<and> csc_stored (bm_m bm) 1 1 = Some (Fin (3 / 4)) \<and>
     csc_stored (bm_b bm) 0 0 = Some (Fin 5)"
proof -
  obtain bm where bm: "build data_builder_default demo_model = Inr bm"
    "\<forall>f c. csc_stored (bm_b bm) f c =
       stored_sum (zero_epsilon data_builder_default) (coefficients_at (biosphere_entries demo_model) f c)"
    "\<forall>r c. 0 \<le> r \<and> r < process_count demo_model \<longrightarrow>
        (coefficients_at (technosphere_entries demo_model) r c = [] \<longrightarrow>
          csc_stored (bm_m bm) r c = (if r = c then Some (Fin 1) else None)) \<and>
        (\<forall>a. coefficients_at (technosphere_entries demo_model) r c = [a] \<and> f64_wf a \<and>
             f64_less (zero_epsilon data_builder_default) (f64_abs a) \<longrightarrow>
          csc_stored (bm_m bm) r c =
            (if r \<noteq> c then Some (f64_neg a)
             else if f64_less (zero_epsilon data_builder_default) (f64_abs (f64_sub (Fin 1) a))
             then Some (f64_sub (Fin 1) a) else None))"
    using build_m_is_identity_minus_a [OF demo_model_wf, of data_builder_default] demo_binary64(1,2) by blast
  have n: "process_count demo_model = 2" "coefficients_at (technosphere_entries demo_model) 1 0 = []"
    by (simp_all add: demo_model_def coefficients_at_def)
  note m = bm(3) [THEN spec, THEN spec]
  have "csc_stored (bm_m bm) 0 1 = Some (Fin (- 1 / 2))" "csc_stored (bm_m bm) 1 1 = Some (Fin (3 / 4))"
    using m [of 0 1] m [of 1 1] by (simp_all add: n demo_coefficients demo_binary64)
  with bm show ?thesis
    by (intro exI [of _ bm]) (simp add: n demo_coefficients demo_binary64)
qed

text \<open>
  The build succeeds only on well-formed input: for entry lists within the \<open>i32\<close> size it
  returns matrices exactly when the dimensions are positive and every entry is in range, and a
  non-positive dimension is reported before any entry is looked at.
\<close>

theorem build_succeeds_iff:
  fixes self :: "'v::{zero,one,plus,uminus,abs,ord} data_builder"
  assumes "int (length (technosphere_entries data)) + process_count data \<le> i32_max"
    "int (length (biosphere_entries data)) \<le> i32_max" "int (length (characterization_factors data)) \<le> i32_max"
  shows "(is_ok (build self data) \<longleftrightarrow> model_wf data) \<and>
    (process_count data \<le> 0 \<or> flow_count data \<le> 0 \<or> impact_count data \<le> 0 \<longrightarrow>
      build self data = Inl (BuilderInvalidDimensions (process_count data) (flow_count data) (impact_count data)))"
proof -
  have "model_wf data" if ok: "build self data = Inr bm" for bm
  proof -
    have "0 < process_count data" "0 < flow_count data" "0 < impact_count data"
      "list_all (triplet_in_range (process_count data) (process_count data)) (m_triplets data)"
      "list_all (triplet_in_range (flow_count data) (process_count data)) (map to_matrix_triplet (biosphere_entries data))"
      "list_all (triplet_in_range (impact_count data) (flow_count data)) (map to_matrix_triplet (characterization_factors data))"
      using ok by (auto simp: build_def res_simps dest: from_triplet_iter_okD split: if_splits)
    then show ?thesis using assms by (simp add: model_wf_def m_triplets_in_range list.pred_map comp_def)
  qed
  moreover have "is_ok (build self data)" if "model_wf data"
    by (rule build_ok [OF that, of self]) simp
  ultimately show ?thesis by (auto simp: is_ok_iff build_def)
qed

theorem build_succeeds_iff_witness:
  "is_ok (build data_builder_default demo_model) \<and> \<not> is_ok (build data_builder_default (demo_model\<lparr>flow_count := 0\<rparr>))"
  using build_succeeds_iff [of demo_model data_builder_default]
    build_succeeds_iff [of "demo_model\<lparr>flow_count := 0\<rparr>" data_builder_default]
  by (simp add: model_wf_def demo_model_def sparse_in_range_def i32_max_def)

lemma foldl_add_nan: "NaN \<in> set xs \<Longrightarrow> foldl (+) a xs = NaN"
proof -
  have "foldl (+) NaN xs = NaN" for xs by (induction xs) (simp_all add: f64_ops f64_add_def)
  moreover have "a + NaN = NaN" for a by (simp add: f64_ops f64_add_def)
  moreover assume "NaN \<in> set xs"
  then obtain ys zs where "xs = ys @ NaN # zs" by (meson split_list)
  ultimately show ?thesis by simp
qed

lemma stored_sum_nan:
  assumes "NaN \<in> set vs"
  shows "stored_sum eps vs = None"
proof -
  let ?kept = "filter (\<lambda>v. \<not> f64_le (f64_abs v) eps) vs"
  have "NaN \<in> set ?kept" using assms by simp
  then have "foldl f64_add (Fin 0) ?kept = NaN" using foldl_add_nan [of ?kept "Fin 0"] by (simp add: f64_ops)
  then show ?thesis by (cases eps) (simp_all add: stored_sum_def)
qed

text \<open>
  C40. A NaN coefficient silently erases its position, in each of the three matrices: for a
  well-formed model the build succeeds, and a position for which the model lists a NaN among its
  technosphere, biosphere or characterization coefficients has no stored entry in \<open>M\<close>, \<open>B\<close> or \<open>C\<close>
  respectively, whatever other coefficients are listed for it; in \<open>M\<close> that includes the unit of the
  diagonal. The aggregation loop lets the NaN through (its absolute value is not within the
  threshold), the sum becomes NaN, and the final filter discards it (its absolute value does not
  exceed the threshold).
\<close>

theorem nan_coefficient_erases_position:
  fixes self :: "f64 data_builder"
  assumes "model_wf data"
  shows "\<exists>bm. build self data = Inr bm \<and>
    (\<forall>r c. NaN \<in> set (coefficients_at (technosphere_entries data) r c) \<longrightarrow>
      (r, c) \<notin> set (positions (csc_entries (bm_m bm)))) \<and>
    (\<forall>f c. NaN \<in> set (coefficients_at (biosphere_entries data) f c) \<longrightarrow>
      (f, c) \<notin> set (positions (csc_entries (bm_b bm)))) \<and>
    (\<forall>i f. NaN \<in> set (coefficients_at (characterization_factors data) i f) \<longrightarrow>
      (i, f) \<notin> set (positions (csc_entries (bm_c bm))))"
proof -
  obtain bm where bm: "build self data = Inr bm"
    "\<And>r c. csc_stored (bm_m bm) r c = built_stored (zero_epsilon self) (m_triplets data) (r, c)"
    "\<And>r c. csc_stored (bm_b bm) r c =
       built_stored (zero_epsilon self) (map to_matrix_triplet (biosphere_entries data)) (r, c)"
    "\<And>r c. csc_stored (bm_c bm) r c =
       built_stored (zero_epsilon self) (map to_matrix_triplet (characterization_factors data)) (r, c)"
    by (rule build_ok [OF assms(1), of self]) (rule that)
  have "NaN \<in> f64_neg ` set vs" if "NaN \<in> set vs" for vs using that by force
  then show ?thesis
    by (intro exI [of _ bm] conjI allI impI bm(1))
       (simp_all only: bm(2-4) csc_stored_None_iff [symmetric] built_stored_f64 values_m values_plain,
        simp_all add: stored_sum_nan)
qed

definition nan_model :: "f64 model_sparse_data" where
  "nan_model = \<lparr>model_version = ''m'', process_count = 1, flow_count = 1, impact_count = 1,
      technosphere_entries = [\<lparr>s_row = 0, s_col = 0, s_value = NaN\<rparr>],
      biosphere_entries = [\<lparr>s_row = 0, s_col = 0, s_value = NaN\<rparr>, \<lparr>s_row = 0, s_col = 0, s_value = Fin 2\<rparr>],
      characterization_factors = [\<lparr>s_row = 0, s_col = 0, s_value = Fin 1\<rparr>, \<lparr>s_row = 0, s_col = 0, s_value = NaN\<rparr>]\<rparr>"

theorem nan_coefficient_erases_position_witness:
  "\<exists>bm. build data_builder_default nan_model = Inr bm \<and>
     (0, 0) \<notin> set (positions (csc_entries (bm_m bm))) \<and> (0, 0) \<notin> set (positions (csc_entries (bm_b bm))) \<and>
     (0, 0) \<notin> set (positions (csc_entries (bm_c bm)))"
proof -
  have "model_wf nan_model" by (simp add: model_wf_def nan_model_def sparse_in_range_def i32_max_def)
  moreover have "NaN \<in> set (coefficients_at (technosphere_entries nan_model) 0 0)"
    "NaN \<in> set (coefficients_at (biosphere_entries nan_model) 0 0)"
    "NaN \<in> set (coefficients_at (characterization_factors nan_model) 0 0)"
    by (simp_all add: coefficients_at_def nan_model_def)
  ultimately show ?thesis
    using nan_coefficient_erases_position [of nan_model data_builder_default] by blast
qed

end
