(* ===== verification/Umfpack_Ffi.thy ===== *)
theory Umfpack_Ffi
  imports Csc_Matrix
begin

text \<open>
  The wrapper \<open>crates/suitesparse-ffi/src/umfpack.rs\<close> around the UMFPACK C library. The library's
  functions are a record of parameters; the wrapper's control flow, its status handling, the
  release of handles and the memory figures are modelled. The handles created and freed by a call
  are recorded as a trace, so that leaks can be stated.
\<close>

section \<open>The C library\<close>

type_synonym handle = nat

text \<open>
  Each function takes its input arrays and the initial contents of its output arrays, and returns
  the status with the written outputs; an out-pointer that stays null is \<open>None\<close>.
\<close>

record umfpack_lib =
  umfpack_di_defaults :: "f64 list \<Rightarrow> f64 list"
  umfpack_di_symbolic :: "i32 \<Rightarrow> i32 \<Rightarrow> i32 list \<Rightarrow> i32 list \<Rightarrow> f64 list \<Rightarrow> f64 list \<Rightarrow> f64 list
    \<Rightarrow> i32 \<times> handle option \<times> f64 list"
  umfpack_di_numeric :: "i32 list \<Rightarrow> i32 list \<Rightarrow> f64 list \<Rightarrow> handle \<Rightarrow> f64 list \<Rightarrow> f64 list
    \<Rightarrow> i32 \<times> handle option \<times> f64 list"
  umfpack_di_solve :: "i32 \<Rightarrow> i32 list \<Rightarrow> i32 list \<Rightarrow> f64 list \<Rightarrow> f64 list \<Rightarrow> f64 list \<Rightarrow> handle
    \<Rightarrow> f64 list \<Rightarrow> f64 list \<Rightarrow> i32 \<times> f64 list"

datatype umf_event =
    SymbolicCreated handle
  | NumericCreated handle
  | SymbolicFreed handle
  | NumericFreed handle

datatype live_handle = SymbolicHandle handle | NumericHandle handle

text \<open>The handles alive after a trace.\<close>

fun apply_event :: "live_handle multiset \<Rightarrow> umf_event \<Rightarrow> live_handle multiset" where
  "apply_event hs (SymbolicCreated h) = add_mset (SymbolicHandle h) hs"
| "apply_event hs (NumericCreated h) = add_mset (NumericHandle h) hs"
| "apply_event hs (SymbolicFreed h) = hs - {#SymbolicHandle h#}"
| "apply_event hs (NumericFreed h) = hs - {#NumericHandle h#}"

definition live :: "umf_event list \<Rightarrow> live_handle multiset" where
  "live evs = foldl apply_event {#} evs"

section \<open>Constants and data\<close>

definition UMFPACK_INFO_LEN :: usize where "UMFPACK_INFO_LEN = 90"
definition UMFPACK_CONTROL_LEN :: usize where "UMFPACK_CONTROL_LEN = 20"
definition UMFPACK_OK :: i32 where "UMFPACK_OK = 0"
definition UMFPACK_WARNING_SINGULAR :: i32 where "UMFPACK_WARNING_SINGULAR = 1"
definition UMFPACK_A :: i32 where "UMFPACK_A = 0"
definition UMFPACK_PRL :: usize where "UMFPACK_PRL = 0"
definition UMFPACK_SIZE_OF_UNIT :: usize where "UMFPACK_SIZE_OF_UNIT = 3"
definition UMFPACK_SYMBOLIC_SIZE :: usize where "UMFPACK_SYMBOLIC_SIZE = 14"
definition UMFPACK_NUMERIC_SIZE_ESTIMATE :: usize where "UMFPACK_NUMERIC_SIZE_ESTIMATE = 20"
definition UMFPACK_PEAK_MEMORY_ESTIMATE :: usize where "UMFPACK_PEAK_MEMORY_ESTIMATE = 21"
definition UMFPACK_NUMERIC_SIZE :: usize where "UMFPACK_NUMERIC_SIZE = 40"
definition UMFPACK_PEAK_MEMORY :: usize where "UMFPACK_PEAK_MEMORY = 41"

lemmas umfpack_consts =
  UMFPACK_INFO_LEN_def UMFPACK_CONTROL_LEN_def UMFPACK_OK_def UMFPACK_WARNING_SINGULAR_def
  UMFPACK_A_def UMFPACK_PRL_def UMFPACK_SIZE_OF_UNIT_def UMFPACK_SYMBOLIC_SIZE_def
  UMFPACK_NUMERIC_SIZE_ESTIMATE_def UMFPACK_PEAK_MEMORY_ESTIMATE_def UMFPACK_NUMERIC_SIZE_def
  UMFPACK_PEAK_MEMORY_def

record umfpack_numeric_options =
  uo_print_level :: f64

definition umfpack_numeric_options_default :: umfpack_numeric_options where
  "umfpack_numeric_options_default = \<lparr>uo_print_level = Fin 0\<rparr>"

record factorization_stats =
  symbolic_status :: i32
  numeric_status :: i32
  symbolic_info :: "f64 list"
  numeric_info :: "f64 list"

datatype umfpack_error =
    UmfMatrix matrix_error
  | UmfRhsDimensionMismatch usize usize
  | SingularMatrix
  | SymbolicStatus i32
  | NumericStatus i32
  | SolveStatus i32
  | NullHandle

record umfpack_factorization =
  uf_matrix :: "f64 csc_matrix"
  uf_symbolic :: handle
  uf_numeric :: handle
  uf_control :: "f64 list"
  uf_stats :: factorization_stats

section \<open>Memory figures\<close>

text \<open>
  A figure is the product of the unit count and the unit size, each rounded up. The decimal text of
  the product is parsed as \<open>usize\<close>: an infinite product and a negative zero do not parse.
\<close>

definition info_units_to_bytes :: "f64 list \<Rightarrow> usize \<Rightarrow> usize option" where
  "info_units_to_bytes info index =
     (let units = info ! index; bytes_per_unit = info ! UMFPACK_SIZE_OF_UNIT in
      if \<not> is_finite units \<or> units < Fin 0 \<or> \<not> is_finite bytes_per_unit \<or> f64_le bytes_per_unit (Fin 0)
      then None
      else f64_to_usize (f64_ceil (f64_ceil units * f64_ceil bytes_per_unit)))"

definition uf_estimated_owned_bytes :: "(usize \<Rightarrow> usize) \<Rightarrow> umfpack_factorization \<Rightarrow> usize" where
  "uf_estimated_owned_bytes cap f =
     (let symbolic = unwrap_or 0 (info_units_to_bytes (symbolic_info (uf_stats f)) UMFPACK_SYMBOLIC_SIZE);
          numeric = unwrap_or 0 (info_units_to_bytes (numeric_info (uf_stats f)) UMFPACK_NUMERIC_SIZE)
      in saturating_add (saturating_add (csc_estimated_owned_bytes cap (uf_matrix f)) symbolic) numeric)"

definition reported_peak_bytes :: "umfpack_factorization \<Rightarrow> usize option" where
  "reported_peak_bytes f =
     (case info_units_to_bytes (numeric_info (uf_stats f)) UMFPACK_PEAK_MEMORY of
        Some b \<Rightarrow> Some b
      | None \<Rightarrow> info_units_to_bytes (symbolic_info (uf_stats f)) UMFPACK_PEAK_MEMORY_ESTIMATE)"

definition reported_numeric_estimate_bytes :: "umfpack_factorization \<Rightarrow> usize option" where
  "reported_numeric_estimate_bytes f =
     info_units_to_bytes (symbolic_info (uf_stats f)) UMFPACK_NUMERIC_SIZE_ESTIMATE"

section \<open>Factorization, solve and release\<close>

abbreviation created :: "(handle \<Rightarrow> umf_event) \<Rightarrow> handle option \<Rightarrow> umf_event list" where
  "created ev h \<equiv> (case h of None \<Rightarrow> [] | Some p \<Rightarrow> [ev p])"

text \<open>The part of \<open>factorize\<close> after a symbolic factorization was obtained.\<close>

definition factorize_numeric ::
  "umfpack_lib \<Rightarrow> f64 csc_matrix \<Rightarrow> f64 list \<Rightarrow> i32 \<Rightarrow> f64 list \<Rightarrow> handle
   \<Rightarrow> (umfpack_error + umfpack_factorization) \<times> umf_event list" where
  "factorize_numeric lib m control sym_status sym_info symbolic =
     (case umfpack_di_numeric lib (col_ptr m) (row_idx m) (csc_values m) symbolic control
             (replicate UMFPACK_INFO_LEN (Fin (- 1))) of
        (status, numeric_ptr, info) \<Rightarrow>
          (let evs = created NumericCreated numeric_ptr in
           if status = UMFPACK_WARNING_SINGULAR then (Inl SingularMatrix, evs @ [SymbolicFreed symbolic])
           else if status \<noteq> UMFPACK_OK then (Inl (NumericStatus status), evs @ [SymbolicFreed symbolic])
           else case numeric_ptr of
                  None \<Rightarrow> (Inl NullHandle, evs)
                | Some numeric \<Rightarrow>
                    (Inr \<lparr>uf_matrix = m, uf_symbolic = symbolic, uf_numeric = numeric, uf_control = control,
                          uf_stats = \<lparr>symbolic_status = sym_status, numeric_status = status,
                                      symbolic_info = sym_info, numeric_info = info\<rparr>\<rparr>, evs)))"

definition factorize ::
  "umfpack_lib \<Rightarrow> f64 csc_matrix \<Rightarrow> umfpack_numeric_options
   \<Rightarrow> (umfpack_error + umfpack_factorization) \<times> umf_event list" where
  "factorize lib m options =
     (case validate m of
        Inl e \<Rightarrow> (Inl (UmfMatrix e), [])
      | Inr _ \<Rightarrow>
          if nrows m \<noteq> ncols m then (Inl (UmfMatrix (InvalidDimensions (nrows m) (ncols m))), [])
          else
            let control = (umfpack_di_defaults lib (replicate UMFPACK_CONTROL_LEN (Fin 0)))
                            [UMFPACK_PRL := uo_print_level options]
            in case umfpack_di_symbolic lib (nrows m) (ncols m) (col_ptr m) (row_idx m) (csc_values m)
                      control (replicate UMFPACK_INFO_LEN (Fin (- 1))) of
                 (status, symbolic_ptr, info) \<Rightarrow>
                   (let evs = created SymbolicCreated symbolic_ptr in
                    if status = UMFPACK_WARNING_SINGULAR then (Inl SingularMatrix, evs)
                    else if status \<noteq> UMFPACK_OK then (Inl (SymbolicStatus status), evs)
                    else case symbolic_ptr of
                           None \<Rightarrow> (Inl NullHandle, evs)
                         | Some symbolic \<Rightarrow>
                             (case factorize_numeric lib m control status info symbolic of
                                (r, evs') \<Rightarrow> (r, evs @ evs'))))"

definition uf_solve :: "umfpack_lib \<Rightarrow> umfpack_factorization \<Rightarrow> f64 list \<Rightarrow> umfpack_error + f64 list" where
  "uf_solve lib f rhs =
     (case usize_try_from (ncols (uf_matrix f)) of
        None \<Rightarrow> Inl NullHandle
      | Some n \<Rightarrow>
          if length rhs \<noteq> n then Inl (UmfRhsDimensionMismatch (length rhs) n)
          else (case umfpack_di_solve lib UMFPACK_A (col_ptr (uf_matrix f)) (row_idx (uf_matrix f))
                       (csc_values (uf_matrix f)) (replicate n (Fin 0)) rhs (uf_numeric f) (uf_control f)
                       (replicate UMFPACK_INFO_LEN (Fin (- 1))) of
                  (status, x) \<Rightarrow>
                    if status = UMFPACK_WARNING_SINGULAR then Inl SingularMatrix
                    else if status \<noteq> UMFPACK_OK then Inl (SolveStatus status)
                    else Inr x))"

definition solve_many ::
  "umfpack_lib \<Rightarrow> umfpack_factorization \<Rightarrow> f64 list list \<Rightarrow> umfpack_error + f64 list list" where
  "solve_many lib f rhs_list = try_map (uf_solve lib f) rhs_list"

definition uf_drop :: "umfpack_factorization \<Rightarrow> umf_event list" where
  "uf_drop f = [SymbolicFreed (uf_symbolic f), NumericFreed (uf_numeric f)]"

section \<open>Documented behaviour of the library\<close>

text \<open>
  What the UMFPACK user guide states of its output objects: a symbolic object is created exactly
  when the call succeeds, a numeric object exactly when the call succeeds or only warns of a
  singular matrix, and the solution is written into the caller's vector.
\<close>

definition umfpack_contract :: "umfpack_lib \<Rightarrow> bool" where
  "umfpack_contract lib \<longleftrightarrow>
     (\<forall>nr nc ap ai ax control info status ptr info'.
        umfpack_di_symbolic lib nr nc ap ai ax control info = (status, ptr, info') \<longrightarrow>
        (ptr \<noteq> None \<longleftrightarrow> status = UMFPACK_OK)) \<and>
     (\<forall>ap ai ax s control info status ptr info'.
        umfpack_di_numeric lib ap ai ax s control info = (status, ptr, info') \<longrightarrow>
        (ptr \<noteq> None \<longleftrightarrow> status = UMFPACK_OK \<or> status = UMFPACK_WARNING_SINGULAR)) \<and>
     (\<forall>sys ap ai ax x b n control info status x'.
        umfpack_di_solve lib sys ap ai ax x b n control info = (status, x') \<longrightarrow> length x' = length x)"

lemma factorize_okD:
  assumes "factorize lib m options = (Inr f, evs)"
  shows "csc_wf m" "nrows m = ncols m" "uf_matrix f = m"
    "evs = [SymbolicCreated (uf_symbolic f), NumericCreated (uf_numeric f)]"
    "symbolic_status (uf_stats f) = UMFPACK_OK" "numeric_status (uf_stats f) = UMFPACK_OK"
proof -
  have "validate m = Inr ()" using assms by (auto simp: factorize_def split: sum.splits)
  then show "csc_wf m" by (simp add: validate_ok_iff)
  show "nrows m = ncols m" "uf_matrix f = m"
    "evs = [SymbolicCreated (uf_symbolic f), NumericCreated (uf_numeric f)]"
    "symbolic_status (uf_stats f) = UMFPACK_OK" "numeric_status (uf_stats f) = UMFPACK_OK"
    using assms
    by (auto simp: factorize_def factorize_numeric_def Let_def umfpack_consts
        split: sum.splits if_splits prod.splits option.splits)
qed

lemma contract_symbolic:
  "umfpack_contract lib \<Longrightarrow> umfpack_di_symbolic lib nr nc ap ai ax control info = (status, ptr, info') \<Longrightarrow>
     (ptr = None) = (status \<noteq> UMFPACK_OK)"
  unfolding umfpack_contract_def by metis

lemma contract_numeric:
  "umfpack_contract lib \<Longrightarrow> umfpack_di_numeric lib ap ai ax s control info = (status, ptr, info') \<Longrightarrow>
     (ptr = None) = (status \<noteq> UMFPACK_OK \<and> status \<noteq> UMFPACK_WARNING_SINGULAR)"
  unfolding umfpack_contract_def by metis

lemma contract_solve:
  "umfpack_contract lib \<Longrightarrow> umfpack_di_solve lib sys ap ai ax x b n control info = (status, x') \<Longrightarrow>
     length x' = length x"
  unfolding umfpack_contract_def by metis

text \<open>The outcomes of an unsuccessful factorization under the documented behaviour.\<close>

lemma factorize_numeric_errD:
  assumes "umfpack_contract lib" "factorize_numeric lib m control st info s = (Inl e, evs)"
  shows "live (SymbolicCreated s # evs) = {#} \<or>
    e = SingularMatrix \<and> (\<exists>h. live (SymbolicCreated s # evs) = {#NumericHandle h#})"
proof -
  obtain status ptr info' where call: "umfpack_di_numeric lib (col_ptr m) (row_idx m) (csc_values m) s control
      (replicate UMFPACK_INFO_LEN (Fin (- 1))) = (status, ptr, info')" by (rule prod_cases3)
  note ptr = contract_numeric [OF assms(1) call]
  show ?thesis
    using assms(2) ptr
    by (cases ptr) (auto simp: factorize_numeric_def call live_def UMFPACK_WARNING_SINGULAR_def UMFPACK_OK_def
        split: if_splits)
qed

lemma factorize_errD:
  assumes "umfpack_contract lib" "factorize lib m options = (Inl e, evs)"
  shows "live evs = {#} \<or> (e = SingularMatrix \<and> (\<exists>h. live evs = {#NumericHandle h#}))"
proof (cases "validate m = Inr () \<and> nrows m = ncols m")
  case False
  with assms(2) have "evs = []" by (auto simp: factorize_def split: sum.splits if_splits)
  then show ?thesis by (simp add: live_def)
next
  case True
  let ?control = "(umfpack_di_defaults lib (replicate UMFPACK_CONTROL_LEN (Fin 0)))[UMFPACK_PRL := uo_print_level options]"
  obtain status ptr info where call: "umfpack_di_symbolic lib (nrows m) (ncols m) (col_ptr m) (row_idx m)
      (csc_values m) ?control (replicate UMFPACK_INFO_LEN (Fin (- 1))) = (status, ptr, info)" by (rule prod_cases3)
  note ptr = contract_symbolic [OF assms(1) call]
  show ?thesis
  proof (cases ptr)
    case None
    with True assms(2) ptr call have "evs = []" by (auto simp: factorize_def Let_def split: if_splits)
    then show ?thesis by (simp add: live_def)
  next
    case (Some s)
    obtain r evs' where num: "factorize_numeric lib m ?control status info s = (r, evs')" by fastforce
    from Some ptr have "status = UMFPACK_OK" "status \<noteq> UMFPACK_WARNING_SINGULAR"
      by (simp_all add: UMFPACK_OK_def UMFPACK_WARNING_SINGULAR_def)
    with True call num Some assms(2) have "r = Inl e" "evs = SymbolicCreated s # evs'"
      by (simp_all add: factorize_def Let_def)
    with factorize_numeric_errD [OF assms(1)] num show ?thesis by blast
  qed
qed

section \<open>Properties of the wrapper\<close>

text \<open>
  Handle ownership. A successful factorization owns exactly one symbolic and one numeric
  handle, and dropping it leaves none alive. Under the documented behaviour of UMFPACK an
  unsuccessful one leaves no handle alive, except for the numeric object of a singular matrix.
\<close>

theorem factorize_handles:
  assumes "umfpack_contract lib"
  shows "case factorize lib m options of
      (Inr f, evs) \<Rightarrow> live evs = {#SymbolicHandle (uf_symbolic f), NumericHandle (uf_numeric f)#} \<and>
        live (evs @ uf_drop f) = {#}
    | (Inl e, evs) \<Rightarrow> e \<noteq> SingularMatrix \<longrightarrow> live evs = {#}"
proof -
  obtain r evs where f: "factorize lib m options = (r, evs)" by fastforce
  show ?thesis
  proof (cases r)
    case (Inl e)
    with factorize_errD [OF assms, of m options e evs] f show ?thesis by auto
  next
    case (Inr fac)
    with factorize_okD(4) [of lib m options fac evs] f show ?thesis by (simp add: live_def uf_drop_def)
  qed
qed

definition demo_lib :: "umfpack_lib" where
  "demo_lib = \<lparr>umfpack_di_defaults = (\<lambda>c. c),
     umfpack_di_symbolic = (\<lambda>_ _ _ _ _ _ info. (0, Some 7, info)),
     umfpack_di_numeric = (\<lambda>_ _ ax _ _ info. if hd ax = Fin 0 then (1, Some 8, info) else (0, Some 8, info)),
     umfpack_di_solve = (\<lambda>_ _ _ ax x b _ _ _. (0, map (\<lambda>i. f64_div (unwrap_or (Fin 0) (vec_get b i)) (hd ax)) [0..<length x]))\<rparr>"

definition demo_1x1 :: "f64 \<Rightarrow> f64 csc_matrix" where
  "demo_1x1 v = \<lparr>nrows = 1, ncols = 1, col_ptr = [0, 1], row_idx = [0], csc_values = [v]\<rparr>"

lemma demo_lib_contract: "umfpack_contract demo_lib"
  by (simp add: umfpack_contract_def demo_lib_def umfpack_consts)

lemma demo_1x1_valid: "validate (demo_1x1 v) = Inr ()"
  by (simp add: validate_def demo_1x1_def validate_column_def slice_def)

theorem factorize_handles_witness:
  "\<exists>f evs. factorize demo_lib (demo_1x1 (Fin 2)) umfpack_numeric_options_default = (Inr f, evs) \<and>
     live (evs @ uf_drop f) = {#}"
proof -
  obtain f evs where "factorize demo_lib (demo_1x1 (Fin 2)) umfpack_numeric_options_default = (Inr f, evs)"
    using demo_1x1_valid [of "Fin 2"]
    by (simp add: factorize_def factorize_numeric_def demo_lib_def demo_1x1_def umfpack_consts Let_def)
  then show ?thesis
    using factorize_handles [OF demo_lib_contract, of "demo_1x1 (Fin 2)" umfpack_numeric_options_default] by auto
qed

text \<open>
  C38. The numeric object of a singular matrix is never released: when UMFPACK warns of a singular
  matrix it has created the numeric object, and the wrapper returns its error after freeing the
  symbolic object only.
\<close>

theorem singular_factorization_leaks_numeric:
  assumes "validate m = Inr ()" "nrows m = ncols m"
    "\<And>control info. \<exists>s info'. umfpack_di_symbolic lib (nrows m) (ncols m) (col_ptr m) (row_idx m)
       (csc_values m) control info = (UMFPACK_OK, Some s, info')"
    "\<And>s control info. \<exists>info'. umfpack_di_numeric lib (col_ptr m) (row_idx m) (csc_values m) s control info =
       (UMFPACK_WARNING_SINGULAR, Some h, info')"
  shows "\<exists>evs. factorize lib m options = (Inl SingularMatrix, evs) \<and> live evs = {#NumericHandle h#}"
proof -
  let ?control = "(umfpack_di_defaults lib (replicate UMFPACK_CONTROL_LEN (Fin 0)))[UMFPACK_PRL := uo_print_level options]"
  let ?info = "replicate UMFPACK_INFO_LEN (Fin (- 1))"
  obtain s i1 where s: "umfpack_di_symbolic lib (nrows m) (ncols m) (col_ptr m) (row_idx m) (csc_values m) ?control ?info =
      (UMFPACK_OK, Some s, i1)" using assms(3) by blast
  obtain i2 where "umfpack_di_numeric lib (col_ptr m) (row_idx m) (csc_values m) s ?control ?info =
      (UMFPACK_WARNING_SINGULAR, Some h, i2)" using assms(4) by blast
  with s assms(1,2) show ?thesis
    by (simp add: factorize_def factorize_numeric_def Let_def live_def UMFPACK_OK_def UMFPACK_WARNING_SINGULAR_def)
qed

theorem singular_factorization_leaks_numeric_witness:
  "\<exists>evs. factorize demo_lib (demo_1x1 (Fin 0)) umfpack_numeric_options_default = (Inl SingularMatrix, evs) \<and>
     live evs = {#NumericHandle 8#}"
  by (rule singular_factorization_leaks_numeric [OF demo_1x1_valid])
     (simp_all add: demo_1x1_def demo_lib_def umfpack_consts)

text \<open>
  \<open>factorize\<close> hands only square well-formed matrices to UMFPACK and keeps the matrix it was
  given; \<open>solve\<close> on its result accepts exactly right-hand sides of the matrix dimension and
  returns a vector of that length whenever UMFPACK reports success.
\<close>

theorem solve_dimensions:
  assumes "umfpack_contract lib" "factorize lib m options = (Inr f, evs)"
  shows "csc_wf m \<and> nrows m = ncols m \<and> uf_matrix f = m \<and>
    (length rhs \<noteq> nat (ncols m) \<longrightarrow> uf_solve lib f rhs = Inl (UmfRhsDimensionMismatch (length rhs) (nat (ncols m)))) \<and>
    (\<forall>x. uf_solve lib f rhs = Inr x \<longrightarrow> length x = nat (ncols m) \<and> length rhs = nat (ncols m))"
proof -
  note ok = factorize_okD [OF assms(2)]
  have pos: "0 < ncols m" using ok(1) by (simp add: csc_wf_def)
  have "length x = nat (ncols m) \<and> length rhs = nat (ncols m)" if "uf_solve lib f rhs = Inr x" for x
  proof -
    obtain status x' where call: "umfpack_di_solve lib UMFPACK_A (col_ptr m) (row_idx m) (csc_values m)
        (replicate (nat (ncols m)) (Fin 0)) rhs (uf_numeric f) (uf_control f)
        (replicate UMFPACK_INFO_LEN (Fin (- 1))) = (status, x')" by fastforce
    have "length x' = nat (ncols m)" using contract_solve [OF assms(1) call] by simp
    with that pos ok(3) call show ?thesis by (simp add: uf_solve_def split: if_splits)
  qed
  moreover have "uf_solve lib f rhs = Inl (UmfRhsDimensionMismatch (length rhs) (nat (ncols m)))"
    if "length rhs \<noteq> nat (ncols m)"
    using that pos ok(3) by (simp add: uf_solve_def)
  ultimately show ?thesis using ok(1-3) by blast
qed

theorem solve_dimensions_witness:
  "\<exists>f evs. factorize demo_lib (demo_1x1 (Fin 2)) umfpack_numeric_options_default = (Inr f, evs) \<and>
     uf_solve demo_lib f [Fin 4, Fin 4] = Inl (UmfRhsDimensionMismatch 2 1)"
proof -
  obtain f evs where f: "factorize demo_lib (demo_1x1 (Fin 2)) umfpack_numeric_options_default = (Inr f, evs)"
    using demo_1x1_valid [of "Fin 2"]
    by (simp add: factorize_def factorize_numeric_def demo_lib_def demo_1x1_def umfpack_consts Let_def)
  with solve_dimensions [OF demo_lib_contract f, of "[Fin 4, Fin 4]"] show ?thesis
    by (simp add: demo_1x1_def)
qed

text \<open>
  The memory figures are exact below \<open>2^53\<close>: an info array with a whole number of units and a
  positive whole unit size yields their product.
\<close>

theorem info_units_to_bytes_exact:
  assumes "info ! index = Fin (of_nat u)" "info ! UMFPACK_SIZE_OF_UNIT = Fin (of_nat b)" "0 < b"
    "u * b < 9007199254740992"
  shows "info_units_to_bytes info index = Some (u * b)"
proof -
  have "f64_round (of_int (int (u * b))) = Fin (of_int (int (u * b)))"
    using assms(4) by (intro f64_round_of_int) linarith
  then have "f64_round (of_nat u * of_nat b) = Fin (of_nat (u * b))" by simp
  then have "f64_ceil (Fin (of_nat u)) * f64_ceil (Fin (of_nat b)) = Fin (of_nat (u * b))"
    using assms(3) by (cases "u = 0") (simp_all add: f64_ops f64_mul_def signed_zero_def f64_is_zero_def)
  moreover have "u * b \<le> u64_max" using assms(4) by (simp add: u64_max_def)
  moreover have "f64_to_usize (f64_ceil (Fin (of_nat n))) = Some n" if "n \<le> u64_max" for n
    using that round_half_even_of_int [of "int n"] by simp
  moreover have "\<not> Fin (of_nat u) < Fin 0" "\<not> f64_le (Fin (of_nat b)) (Fin 0)"
    using assms(3) by (simp_all add: f64_ops f64_le_def f64_eq_def f64_is_zero_def)
  ultimately show ?thesis
    using assms(1,2) by (simp only: info_units_to_bytes_def Let_def is_finite.simps if_False not_True_eq_False simp_thms)
qed

theorem info_units_to_bytes_exact_witness:
  "info_units_to_bytes ((replicate 90 (Fin 0))[3 := Fin 16, 14 := Fin 100]) 14 = Some 1600"
  using info_units_to_bytes_exact [of "(replicate 90 (Fin 0))[3 := Fin 16, 14 := Fin 100]" 14 100 16]
  by (simp add: umfpack_consts)

end
