(* ===== verification/Matrix_Validator.thy ===== *)
theory Matrix_Validator
  imports Csc_Matrix
begin

text \<open>
  \<open>crates/solver-core/src/validator.rs\<close>: the structural pre-check of \<open>M\<close> before factorization.
  The loops are modelled with their slice indexing; on a well-formed matrix they never panic, and
  the reported counts are the numbers of empty columns, empty rows and weak diagonal entries.
\<close>

section \<open>The report\<close>

datatype validation_status = StatusOk | WarningNearSingular | FailedInvalidStructure

record matrix_stats =
  ms_nrows :: i32
  ms_ncols :: i32
  ms_nnz :: usize
  sparsity :: f64
  empty_columns :: usize
  empty_rows :: usize
  near_zero_diagonal :: usize

text \<open>The formatted messages, by their template and argument.\<close>

datatype validation_message =
    NotSquare
  | EmptyColumnsDetected usize
  | EmptyRowsDetected usize
  | NearZeroDiagonal usize

record validation_report =
  vr_status :: validation_status
  vr_stats :: matrix_stats
  vr_messages :: "validation_message list"

definition u32_max :: nat where
  "u32_max = 4294967295"

section \<open>The scan\<close>

text \<open>The inner loop over the entries of a column: row counts, weak diagonals, diagonal seen.\<close>

definition scan_entry ::
  "'v::{abs,ord} csc_matrix \<Rightarrow> 'v \<Rightarrow> usize \<Rightarrow> usize list \<times> usize \<times> bool \<Rightarrow> usize
   \<Rightarrow> panic + (usize list \<times> usize \<times> bool)" where
  "scan_entry m eps col st idx =
     (case st of (row_counts, near_zero, found_diag) \<Rightarrow>
        if \<not> idx < length (row_idx m) then Inl IndexOutOfBounds
        else
          let row = unwrap_or 0 (usize_try_from (row_idx m ! idx));
              row_counts = (if row < length row_counts
                            then row_counts[row := row_counts ! row + 1] else row_counts)
          in if row = col
             then (if \<not> idx < length (csc_values m) then Inl IndexOutOfBounds
                   else Inr (row_counts,
                             (if \<bar>csc_values m ! idx\<bar> \<le> eps then near_zero + 1 else near_zero), True))
             else Inr (row_counts, near_zero, found_diag))"

definition scan_column ::
  "'v::{abs,ord} csc_matrix \<Rightarrow> 'v \<Rightarrow> usize \<times> usize list \<times> usize \<Rightarrow> usize
   \<Rightarrow> panic + (usize \<times> usize list \<times> usize)" where
  "scan_column m eps st col =
     (case st of (empty_cols, row_counts, near_zero) \<Rightarrow>
        if \<not> col + 1 < length (col_ptr m) then Inl IndexOutOfBounds
        else
          let start = unwrap_or 0 (usize_try_from (col_ptr m ! col));
              stop = unwrap_or 0 (usize_try_from (col_ptr m ! (col + 1)));
              empty_cols = (if start = stop then empty_cols + 1 else empty_cols)
          in res_bind (try_fold (scan_entry m eps col) (row_counts, near_zero, False) [start..<stop])
               (\<lambda>(row_counts, near_zero, found_diag).
                  Inr (empty_cols, row_counts, (if \<not> found_diag then near_zero + 1 else near_zero))))"

definition validate_factorization_matrix ::
  "'v::{abs,ord} csc_matrix \<Rightarrow> 'v \<Rightarrow> panic + validation_report" where
  "validate_factorization_matrix m diag_epsilon =
     (let nr = nrows m; nc = ncols m;
          total_cells = Fin (of_int (max nr 1)) * Fin (of_int (max nc 1));
          k = nnz m;
          messages = (if nr \<noteq> nc then [NotSquare] else [])
      in res_bind (try_fold (scan_column m diag_epsilon)
                     (0, replicate (unwrap_or 0 (usize_try_from nr)) 0, 0)
                     [0..<unwrap_or 0 (usize_try_from nc)])
           (\<lambda>(empty_cols, row_counts, near_zero).
              let empty_rws = length (filter (\<lambda>count. count = 0) row_counts);
                  messages = messages @ (if empty_cols > 0 then [EmptyColumnsDetected empty_cols] else []);
                  messages = messages @ (if empty_rws > 0 then [EmptyRowsDetected empty_rws] else []);
                  messages = messages @ (if near_zero > 0 then [NearZeroDiagonal near_zero] else []);
                  status = (if messages \<noteq> [] then WarningNearSingular else StatusOk);
                  status = (if nr \<le> 0 \<or> nc \<le> 0 \<or> nr \<noteq> nc then FailedInvalidStructure else status);
                  nnz_f64 = (if k \<le> u32_max then Fin (of_nat k) else Fin (of_nat u32_max))
              in Inr \<lparr>vr_status = status,
                      vr_stats = \<lparr>ms_nrows = nr, ms_ncols = nc, ms_nnz = k,
                                  sparsity = Fin 1 - f64_div nnz_f64 total_cells,
                                  empty_columns = empty_cols, empty_rows = empty_rws,
                                  near_zero_diagonal = near_zero\<rparr>,
                      vr_messages = messages\<rparr>))"

section \<open>What the scan counts\<close>

abbreviation col_entries :: "'v csc_matrix \<Rightarrow> nat \<Rightarrow> (i32 \<times> i32 \<times> 'v) list" where
  "col_entries m c \<equiv> map (\<lambda>i. (row_idx m ! i, int c, csc_values m ! i)) [cptr m c..<cptr m (c + 1)]"

abbreviation row_count :: "(i32 \<times> i32 \<times> 'v) list \<Rightarrow> nat \<Rightarrow> nat" where
  "row_count es r \<equiv> length (filter (\<lambda>e. fst e = int r) es)"

lemma scan_entries:
  assumes "\<forall>i \<in> set is. i < length (row_idx m) \<and> i < length (csc_values m) \<and>
      0 \<le> row_idx m ! i \<and> row_idx m ! i < int (length rc)"
  shows "\<exists>rc'. try_fold (scan_entry m eps c) (rc, nz, fd) is =
      Inr (rc', nz + length (filter (\<lambda>i. row_idx m ! i = int c \<and> \<bar>csc_values m ! i\<bar> \<le> eps) is),
           fd \<or> (\<exists>i \<in> set is. row_idx m ! i = int c)) \<and>
    length rc' = length rc \<and>
    (\<forall>r < length rc. rc' ! r = rc ! r + length (filter (\<lambda>i. row_idx m ! i = int r) is))"
  using assms
proof (induction "is" arbitrary: rc nz fd)
  case (Cons i "is")
  let ?r = "nat (row_idx m ! i)"
  let ?rc = "rc[?r := rc ! ?r + 1]"
  let ?nz = "nz + (if ?r = c \<and> \<bar>csc_values m ! i\<bar> \<le> eps then 1 else 0)"
  have step: "scan_entry m eps c (rc, nz, fd) i = Inr (?rc, ?nz, fd \<or> ?r = c)"
    using Cons.prems by (auto simp: scan_entry_def Let_def nat_less_iff)
  have "\<forall>i \<in> set is. i < length (row_idx m) \<and> i < length (csc_values m) \<and>
      0 \<le> row_idx m ! i \<and> row_idx m ! i < int (length ?rc)" using Cons.prems by simp
  then obtain rc' where rc': "try_fold (scan_entry m eps c) (?rc, ?nz, fd \<or> ?r = c) is =
      Inr (rc', ?nz + length (filter (\<lambda>i. row_idx m ! i = int c \<and> \<bar>csc_values m ! i\<bar> \<le> eps) is),
           (fd \<or> ?r = c) \<or> (\<exists>i \<in> set is. row_idx m ! i = int c))"
    "length rc' = length rc"
    "\<forall>r < length rc. rc' ! r = ?rc ! r + length (filter (\<lambda>i. row_idx m ! i = int r) is)"
    using Cons.IH [of ?rc ?nz "fd \<or> ?r = c"] by auto
  have "?r = r \<longleftrightarrow> row_idx m ! i = int r" for r using Cons.prems by auto
  with rc' step show ?case by (intro exI [of _ rc']) (auto simp: nth_list_update)
qed simp

lemma csc_wf_index:
  assumes "csc_wf m" "c < nat (ncols m)" "i \<in> set [cptr m c..<cptr m (c + 1)]"
  shows "i < length (row_idx m)" "i < length (csc_values m)" "0 \<le> row_idx m ! i" "row_idx m ! i < nrows m"
proof -
  have "cptr m (c + 1) \<le> length (csc_values m)" using csc_wf_cptr(2) [OF assms(1), of "c + 1"] assms(2) by simp
  with assms(3) show b: "i < length (csc_values m)" by simp
  then show "i < length (row_idx m)" using assms(1) by (simp add: csc_wf_def)
  then have "row_idx m ! i \<in> set (row_idx m)" by simp
  with assms(1) show "0 \<le> row_idx m ! i" "row_idx m ! i < nrows m" by (auto simp: csc_wf_def)
qed

text \<open>Column \<open>c\<close> has a stored diagonal coefficient above the threshold.\<close>

definition strong_diagonal :: "'v::{abs,ord} csc_matrix \<Rightarrow> 'v \<Rightarrow> nat \<Rightarrow> bool" where
  "strong_diagonal m eps c \<longleftrightarrow> list_ex (\<lambda>(r, _, v). r = int c \<and> \<not> \<bar>v\<bar> \<le> eps) (col_entries m c)"

lemma column_index_inj:
  assumes "csc_wf m" "c < nat (ncols m)"
  shows "inj_on (\<lambda>i. row_idx m ! i) (set [cptr m c..<cptr m (c + 1)])"
proof -
  have "cptr m (c + 1) \<le> length (row_idx m)"
    using csc_wf_cptr(2) [OF assms(1), of "c + 1"] assms by (simp add: csc_wf_def)
  then have "map (\<lambda>i. row_idx m ! i) [cptr m c..<cptr m (c + 1)] = column_rows m c"
    unfolding column_rows_def using map_nth_segment [of "cptr m (c + 1)" "row_idx m" "\<lambda>x. x" "cptr m c"] by simp
  moreover have "distinct (column_rows m c)" using assms by (simp add: csc_wf_def strict_sorted_iff)
  ultimately have "distinct (map (\<lambda>i. row_idx m ! i) [cptr m c..<cptr m (c + 1)])" by simp
  then show ?thesis unfolding distinct_map by blast
qed

lemma filter_unique:
  assumes "distinct xs" "inj_on f (set xs)"
  shows "length (filter (\<lambda>x. f x = a \<and> P x) xs) = (if \<exists>x \<in> set xs. f x = a \<and> P x then 1 else 0)"
proof -
  have "length (filter (\<lambda>x. f x = a \<and> P x) xs) = card {x \<in> set xs. f x = a \<and> P x}"
    using assms(1) by (metis distinct_card distinct_filter set_filter)
  also have "\<dots> = (if \<exists>x \<in> set xs. f x = a \<and> P x then 1 else 0)"
  proof (cases "\<exists>x \<in> set xs. f x = a \<and> P x")
    case True
    then obtain x where "x \<in> set xs" "f x = a" "P x" by blast
    with assms(2) have "{x \<in> set xs. f x = a \<and> P x} = {x}" by (auto dest: inj_onD)
    with True show ?thesis by simp
  next
    case False
    then have "{x \<in> set xs. f x = a \<and> P x} = {}" by blast
    then have "card {x \<in> set xs. f x = a \<and> P x} = 0" by (simp only: card.empty)
    with False show ?thesis by (simp only: if_False)
  qed
  finally show ?thesis .
qed

lemma scan_column_step:
  assumes wf: "csc_wf m" and c: "c < nat (ncols m)" and rc: "length rc = nat (nrows m)"
  shows "\<exists>rc'. scan_column m eps (ec, rc, nz) c =
      Inr (ec + (if col_entries m c = [] then 1 else 0), rc', nz + (if strong_diagonal m eps c then 0 else 1)) \<and>
    length rc' = nat (nrows m) \<and> (\<forall>r < nat (nrows m). rc' ! r = rc ! r + row_count (col_entries m c) r)"
proof -
  let ?is = "[cptr m c..<cptr m (c + 1)]"
  let ?weak = "length (filter (\<lambda>i. row_idx m ! i = int c \<and> \<bar>csc_values m ! i\<bar> \<le> eps) ?is)"
  have bounds: "0 \<le> col_ptr m ! c" "0 \<le> col_ptr m ! (c + 1)" "c + 1 < length (col_ptr m)"
    using csc_wf_cptr(1) [OF wf, of c] csc_wf_cptr(1) [OF wf, of "c + 1"] c wf by (simp_all add: csc_wf_def)
  have mono: "cptr m c \<le> cptr m (c + 1)" by (rule csc_wf_cptr_mono [OF wf]) (use c in auto)
  have rng: "\<forall>i \<in> set ?is. i < length (row_idx m) \<and> i < length (csc_values m) \<and>
      0 \<le> row_idx m ! i \<and> row_idx m ! i < int (length rc)"
    using csc_wf_index [OF wf c] rc wf by (simp add: csc_wf_def)
  obtain rc' where rc': "try_fold (scan_entry m eps c) (rc, nz, False) ?is =
      Inr (rc', nz + ?weak, \<exists>i \<in> set ?is. row_idx m ! i = int c)" "length rc' = length rc"
    "\<forall>r < length rc. rc' ! r = rc ! r + length (filter (\<lambda>i. row_idx m ! i = int r) ?is)"
    using scan_entries [OF rng, of eps c nz False] by auto
  have weak: "?weak + (if \<exists>i \<in> set ?is. row_idx m ! i = int c then 0 else 1) =
      (if strong_diagonal m eps c then 0 else 1)"
  proof -
    note u = filter_unique [OF distinct_upt column_index_inj [OF wf c]]
    have "strong_diagonal m eps c \<longleftrightarrow> (\<exists>i \<in> set ?is. row_idx m ! i = int c \<and> \<not> \<bar>csc_values m ! i\<bar> \<le> eps)"
      by (simp add: strong_diagonal_def list_ex_iff)
    moreover have "i = j" if "i \<in> set ?is" "j \<in> set ?is" "row_idx m ! i = int c" "row_idx m ! j = int c" for i j
      using inj_onD [OF column_index_inj [OF wf c]] that by metis
    ultimately show ?thesis unfolding u by (smt (verit) add.right_neutral add_0)
  qed
  have cnt: "row_count (col_entries m c) r = length (filter (\<lambda>i. row_idx m ! i = int r) ?is)" for r
    by (simp add: filter_map comp_def)
  have empty: "col_entries m c = [] \<longleftrightarrow> cptr m c = cptr m (c + 1)" using mono by auto
  have "scan_column m eps (ec, rc, nz) c = Inr (ec + (if cptr m c = cptr m (c + 1) then 1 else 0), rc',
      nz + (?weak + (if \<exists>i \<in> set ?is. row_idx m ! i = int c then 0 else 1)))"
    using bounds rc'(1) by (simp add: scan_column_def Let_def)
  then show ?thesis using rc'(2,3) rc unfolding weak empty cnt by auto
qed

lemma scan_columns:
  assumes wf: "csc_wf m" and k: "k \<le> nat (ncols m)"
  shows "\<exists>rc. try_fold (scan_column m eps) (0, replicate (nat (nrows m)) 0, 0) [0..<k] =
      Inr (length (filter (\<lambda>c. col_entries m c = []) [0..<k]), rc,
           length (filter (\<lambda>c. \<not> strong_diagonal m eps c) [0..<k])) \<and>
    length rc = nat (nrows m) \<and>
    (\<forall>r < nat (nrows m). rc ! r = row_count (concat (map (col_entries m) [0..<k])) r)"
  using k
proof (induction k)
  case (Suc k)
  then obtain rc where rc: "try_fold (scan_column m eps) (0, replicate (nat (nrows m)) 0, 0) [0..<k] =
      Inr (length (filter (\<lambda>c. col_entries m c = []) [0..<k]), rc,
           length (filter (\<lambda>c. \<not> strong_diagonal m eps c) [0..<k]))" "length rc = nat (nrows m)"
    "\<forall>r < nat (nrows m). rc ! r = row_count (concat (map (col_entries m) [0..<k])) r"
    by auto
  from Suc.prems have "k < nat (ncols m)" by simp
  from scan_column_step [OF wf this rc(2), of eps "length (filter (\<lambda>c. col_entries m c = []) [0..<k])"
      "length (filter (\<lambda>c. \<not> strong_diagonal m eps c) [0..<k])"]
  obtain rc' where "scan_column m eps (length (filter (\<lambda>c. col_entries m c = []) [0..<k]), rc,
       length (filter (\<lambda>c. \<not> strong_diagonal m eps c) [0..<k])) k =
      Inr (length (filter (\<lambda>c. col_entries m c = []) [0..<k]) + (if col_entries m k = [] then 1 else 0), rc',
           length (filter (\<lambda>c. \<not> strong_diagonal m eps c) [0..<k]) + (if strong_diagonal m eps k then 0 else 1))"
    "length rc' = nat (nrows m)" "\<forall>r < nat (nrows m). rc' ! r = rc ! r + row_count (col_entries m k) r"
    by blast
  with rc show ?case by (intro exI [of _ rc']) (simp add: try_fold_append)
qed simp

lemma report_fields:
  assumes "0 < nrows m" "0 < ncols m"
    "try_fold (scan_column m eps) (0, replicate (nat (nrows m)) 0, 0) [0..<nat (ncols m)] = Inr (ec, rc, nz)"
  shows "\<exists>rep. validate_factorization_matrix m eps = Inr rep \<and>
    empty_columns (vr_stats rep) = ec \<and> empty_rows (vr_stats rep) = length (filter (\<lambda>n. n = 0) rc) \<and>
    near_zero_diagonal (vr_stats rep) = nz \<and>
    vr_status rep = (if nrows m \<noteq> ncols m then FailedInvalidStructure
       else if ec = 0 \<and> length (filter (\<lambda>n. n = 0) rc) = 0 \<and> nz = 0 then StatusOk else WarningNearSingular) \<and>
    (vr_messages rep = [] \<longleftrightarrow> vr_status rep = StatusOk)"
  using assms by (simp add: validate_factorization_matrix_def Let_def)

text \<open>The report of a well-formed matrix in closed form.\<close>

lemma validate_report:
  assumes wf: "csc_wf m"
  obtains rep where "validate_factorization_matrix m eps = Inr rep"
    "empty_columns (vr_stats rep) = length (filter (\<lambda>c. col_entries m c = []) [0..<nat (ncols m)])"
    "empty_rows (vr_stats rep) = length (filter (\<lambda>r. row_count (csc_entries m) r = 0) [0..<nat (nrows m)])"
    "near_zero_diagonal (vr_stats rep) = length (filter (\<lambda>c. \<not> strong_diagonal m eps c) [0..<nat (ncols m)])"
    "vr_status rep = (if nrows m \<noteq> ncols m then FailedInvalidStructure
       else if empty_columns (vr_stats rep) = 0 \<and> empty_rows (vr_stats rep) = 0 \<and>
         near_zero_diagonal (vr_stats rep) = 0 then StatusOk else WarningNearSingular)"
    "(vr_messages rep = []) = (vr_status rep = StatusOk)"
proof -
  have dims: "0 < nrows m" "0 < ncols m" using wf by (simp_all add: csc_wf_def)
  obtain rc where rc: "try_fold (scan_column m eps) (0, replicate (nat (nrows m)) 0, 0) [0..<nat (ncols m)] =
      Inr (length (filter (\<lambda>c. col_entries m c = []) [0..<nat (ncols m)]), rc,
           length (filter (\<lambda>c. \<not> strong_diagonal m eps c) [0..<nat (ncols m)]))" "length rc = nat (nrows m)"
    "\<forall>r < nat (nrows m). rc ! r = row_count (csc_entries m) r"
    using scan_columns [OF wf order_refl, of eps] unfolding csc_entries_def by blast
  have "rc = map (row_count (csc_entries m)) [0..<nat (nrows m)]"
    using rc(2,3) by (auto intro: nth_equalityI)
  then have er: "length (filter (\<lambda>n. n = 0) rc) = length (filter (\<lambda>r. row_count (csc_entries m) r = 0) [0..<nat (nrows m)])"
    by (simp add: filter_map comp_def)
  from report_fields [OF dims rc(1)] that show thesis unfolding er by metis
qed

lemma csc_entries_cols:
  "(r, int c, v) \<in> set (csc_entries m) \<longleftrightarrow> c < nat (ncols m) \<and> (r, int c, v) \<in> set (col_entries m c)"
  by (auto simp: csc_entries_def)

lemma csc_entry_stored:
  "csc_wf m \<Longrightarrow> (r, c, v) \<in> set (csc_entries m) \<Longrightarrow> csc_entry m r c = v"
  using map_of_entries [OF csc_wf_distinct, of m r c v] by (simp add: csc_entry_def)

lemma strong_diagonal_iff:
  assumes "c < nat (ncols m)"
  shows "strong_diagonal m eps c \<longleftrightarrow> (\<exists>v. (int c, int c, v) \<in> set (csc_entries m) \<and> \<not> \<bar>v\<bar> \<le> eps)"
  using assms unfolding strong_diagonal_def list_ex_iff csc_entries_cols by force

lemma strong_diagonal_entry:
  assumes "csc_wf m" "c < nat (ncols m)" "\<bar>0\<bar> \<le> eps"
  shows "strong_diagonal m eps c \<longleftrightarrow> \<not> \<bar>csc_entry m (int c) (int c)\<bar> \<le> (eps :: 'v::{zero,abs,ord})"
proof (cases "\<exists>v. (int c, int c, v) \<in> set (csc_entries m)")
  case True
  then show ?thesis using csc_entry_stored [OF assms(1), of "int c" "int c"]
    unfolding strong_diagonal_iff [OF assms(2)] by blast
next
  case False
  then have "csc_entry m (int c) (int c) = 0"
    using map_of_entries_None [of "csc_entries m" "int c" "int c"] by (simp add: csc_entry_def)
  with False assms(3) show ?thesis unfolding strong_diagonal_iff [OF assms(2)] by simp
qed

section \<open>Properties of the pre-check\<close>

text \<open>
  On a well-formed matrix the pre-check never indexes out of range, and its counts are the
  numbers of columns without an entry, of rows without an entry, and of columns whose diagonal
  coefficient is missing or within the threshold.
\<close>

theorem validate_factorization_matrix_counts:
  fixes eps :: "'v::{zero,abs,ord}"
  assumes "csc_wf m" "\<bar>0\<bar> \<le> eps"
  shows "\<exists>rep. validate_factorization_matrix m eps = Inr rep \<and>
    empty_columns (vr_stats rep) = card {c. c < nat (ncols m) \<and> (\<forall>r v. (r, int c, v) \<notin> set (csc_entries m))} \<and>
    empty_rows (vr_stats rep) = card {r. r < nat (nrows m) \<and> (\<forall>c v. (int r, c, v) \<notin> set (csc_entries m))} \<and>
    near_zero_diagonal (vr_stats rep) =
      card {c. c < nat (ncols m) \<and> \<bar>csc_entry m (int c) (int c)\<bar> \<le> eps}"
proof -
  have count: "length (filter P [0..<n]) = card {c. c < n \<and> P c}" for P n
    by (subst distinct_card [symmetric]) (auto intro: arg_cong [where f = card])
  obtain rep where rep: "validate_factorization_matrix m eps = Inr rep"
    "empty_columns (vr_stats rep) = length (filter (\<lambda>c. col_entries m c = []) [0..<nat (ncols m)])"
    "empty_rows (vr_stats rep) = length (filter (\<lambda>r. row_count (csc_entries m) r = 0) [0..<nat (nrows m)])"
    "near_zero_diagonal (vr_stats rep) = length (filter (\<lambda>c. \<not> strong_diagonal m eps c) [0..<nat (ncols m)])"
    by (rule validate_report [OF assms(1), of eps]) (rule that)
  have "col_entries m c = [] \<longleftrightarrow> (\<forall>r v. (r, int c, v) \<notin> set (csc_entries m))" if "c < nat (ncols m)" for c
    using that unfolding csc_entries_cols by (cases "col_entries m c") force+
  then have ec: "{c. c < nat (ncols m) \<and> col_entries m c = []} =
      {c. c < nat (ncols m) \<and> (\<forall>r v. (r, int c, v) \<notin> set (csc_entries m))}" by blast
  have er: "row_count (csc_entries m) r = 0 \<longleftrightarrow> (\<forall>c v. (int r, c, v) \<notin> set (csc_entries m))" for r
    by (auto simp: filter_empty_conv)
  have nz: "{c. c < nat (ncols m) \<and> \<not> strong_diagonal m eps c} =
      {c. c < nat (ncols m) \<and> \<bar>csc_entry m (int c) (int c)\<bar> \<le> eps}"
    using strong_diagonal_entry [OF assms(1) _ assms(2)] by blast
  from rep show ?thesis unfolding count ec er nz by blast
qed

lemma demo_matrix_diag: "csc_entry demo_matrix 0 0 = 2" "csc_entry demo_matrix 1 1 = 4"
  by (simp_all add: csc_entry_def csc_entries_def demo_matrix_def upt_rec)

lemma demo_matrix_dims: "nat (ncols demo_matrix) = 2"
  by (simp add: demo_matrix_def)

theorem validate_factorization_matrix_counts_witness:
  "\<exists>rep. validate_factorization_matrix demo_matrix 2 = Inr rep \<and> near_zero_diagonal (vr_stats rep) = 1"
proof -
  have "{c. c < nat (ncols demo_matrix) \<and> \<bar>csc_entry demo_matrix (int c) (int c)\<bar> \<le> 2} = {0}"
    unfolding demo_matrix_dims by (auto simp: less_2_cases_iff demo_matrix_diag)
  then have "card {c. c < nat (ncols demo_matrix) \<and> \<bar>csc_entry demo_matrix (int c) (int c)\<bar> \<le> 2} = 1"
    by simp
  with validate_factorization_matrix_counts [OF demo_matrix_wf, of 2] show ?thesis by (metis abs_zero zero_le_numeral)
qed

text \<open>
  The status: a non-square matrix is refused as structurally invalid; a square matrix passes
  without a warning exactly when every diagonal coefficient exceeds the threshold (then no row and
  no column is empty), and the message list is empty exactly in that case.
\<close>

theorem validate_factorization_matrix_status:
  fixes eps :: "'v::{zero,abs,ord}"
  assumes "csc_wf m" "\<bar>0\<bar> \<le> eps"
  shows "\<exists>rep. validate_factorization_matrix m eps = Inr rep \<and>
    (vr_status rep = FailedInvalidStructure \<longleftrightarrow> nrows m \<noteq> ncols m) \<and>
    (vr_status rep = StatusOk \<longleftrightarrow> nrows m = ncols m \<and>
       (\<forall>c < nat (ncols m). \<not> \<bar>csc_entry m (int c) (int c)\<bar> \<le> eps)) \<and>
    (vr_messages rep = [] \<longleftrightarrow> vr_status rep = StatusOk)"
proof -
  obtain rep where rep: "validate_factorization_matrix m eps = Inr rep"
    "empty_columns (vr_stats rep) = length (filter (\<lambda>c. col_entries m c = []) [0..<nat (ncols m)])"
    "empty_rows (vr_stats rep) = length (filter (\<lambda>r. row_count (csc_entries m) r = 0) [0..<nat (nrows m)])"
    "near_zero_diagonal (vr_stats rep) = length (filter (\<lambda>c. \<not> strong_diagonal m eps c) [0..<nat (ncols m)])"
    "vr_status rep = (if nrows m \<noteq> ncols m then FailedInvalidStructure
       else if empty_columns (vr_stats rep) = 0 \<and> empty_rows (vr_stats rep) = 0 \<and>
         near_zero_diagonal (vr_stats rep) = 0 then StatusOk else WarningNearSingular)"
    "(vr_messages rep = []) = (vr_status rep = StatusOk)"
    by (rule validate_report [OF assms(1), of eps]) (rule that)
  have full: "col_entries m c \<noteq> []" "row_count (csc_entries m) c \<noteq> 0"
    if strong: "strong_diagonal m eps c" and c: "c < nat (ncols m)" for c
  proof -
    obtain v where v: "(int c, int c, v) \<in> set (col_entries m c)"
      using strong by (force simp: strong_diagonal_def list_ex_iff)
    then show "col_entries m c \<noteq> []" by force
    have "(int c, int c, v) \<in> set (csc_entries m)" unfolding csc_entries_cols using v c by (rule conjI [rotated])
    then show "row_count (csc_entries m) c \<noteq> 0" by (force simp: filter_empty_conv)
  qed
  have none: "length (filter P [0..<n]) = 0 \<longleftrightarrow> (\<forall>c < n. \<not> P c)" for P n
    by (auto simp: filter_empty_conv)
  have "vr_status rep = StatusOk \<longleftrightarrow> nrows m = ncols m \<and> (\<forall>c < nat (ncols m). strong_diagonal m eps c)"
  proof (cases "nrows m = ncols m \<and> (\<forall>c < nat (ncols m). strong_diagonal m eps c)")
    case True
    then have "\<forall>c < nat (ncols m). col_entries m c \<noteq> []" "\<forall>c < nat (nrows m). row_count (csc_entries m) c \<noteq> 0"
      using full by presburger+
    with True have "empty_columns (vr_stats rep) = 0" "empty_rows (vr_stats rep) = 0"
      "near_zero_diagonal (vr_stats rep) = 0" unfolding rep(2-4) none by blast+
    with True rep(5) show ?thesis by simp
  next
    case False
    then have "nrows m \<noteq> ncols m \<or> near_zero_diagonal (vr_stats rep) \<noteq> 0" unfolding rep(4) none by blast
    with False rep(5) show ?thesis by auto
  qed
  with rep(1,5,6) strong_diagonal_entry [OF assms(1) _ assms(2)] show ?thesis by auto
qed

theorem validate_factorization_matrix_status_witness:
  "\<exists>rep. validate_factorization_matrix demo_matrix 1 = Inr rep \<and> vr_status rep = StatusOk"
proof -
  have "\<forall>c < nat (ncols demo_matrix). \<not> \<bar>csc_entry demo_matrix (int c) (int c)\<bar> \<le> 1"
    unfolding demo_matrix_dims by (auto simp: less_2_cases_iff demo_matrix_diag)
  moreover have "nrows demo_matrix = ncols demo_matrix" by (simp add: demo_matrix_def)
  ultimately show ?thesis
    using validate_factorization_matrix_status [OF demo_matrix_wf, of 1] by (metis abs_zero zero_le_one)
qed

end
