(* ===== verification/Factorization_Cache.thy ===== *)
theory Factorization_Cache
  imports Umfpack_Ffi Matrix_Validator
begin

text \<open>
  The byte-bounded factorization cache of \<open>crates/solver-core/src/cache.rs\<close>. The state behind the
  mutex is a record; every method is a function on it. The invariant says that the resident-byte
  counter is the sum of the entries' estimates and never exceeds the capacity; eviction removes
  least-recently-used ready entries only; the cache refines a map from keys to states.
\<close>

section \<open>Data\<close>

datatype solver_backend = Umfpack

datatype factorization_state = Pending | Building | Ready | Failed | Stale

record factorization_key =
  fk_model_version :: uuid
  fk_backend :: solver_backend
  fk_options_hash :: string

text \<open>The hash function of the \<open>blake3\<close> crate, as lower-case hexadecimal text, is a parameter.\<close>

definition key_new :: "(nat list \<Rightarrow> string) \<Rightarrow> uuid \<Rightarrow> solver_backend \<Rightarrow> nat list \<Rightarrow> factorization_key" where
  "key_new blake3_hex version backend options_bytes =
     \<lparr>fk_model_version = version, fk_backend = backend, fk_options_hash = blake3_hex options_bytes\<rparr>"

definition backend_as_u8 :: "solver_backend \<Rightarrow> nat" where
  "backend_as_u8 b = (case b of Umfpack \<Rightarrow> 0)"

definition factorization_id :: "factorization_key \<Rightarrow> string" where
  "factorization_id key =
     fk_model_version key @ '':'' @ fk_options_hash key @ '':'' @ show_nat (backend_as_u8 (fk_backend key))"

record prepared_model =
  pm_factorization :: umfpack_factorization
  pm_b :: "f64 csc_matrix"
  pm_c :: "f64 csc_matrix"
  pm_validation :: validation_report

definition pm_estimated_owned_bytes :: "(usize \<Rightarrow> usize) \<Rightarrow> prepared_model \<Rightarrow> usize" where
  "pm_estimated_owned_bytes cap p =
     saturating_add
       (saturating_add (uf_estimated_owned_bytes cap (pm_factorization p)) (csc_estimated_owned_bytes cap (pm_b p)))
       (csc_estimated_owned_bytes cap (pm_c p))"

text \<open>\<open>SystemTime::now()\<close> is an argument of the operations that read it.\<close>

type_synonym system_time = nat

record cache_meta =
  cm_state :: factorization_state
  cm_updated_at :: system_time
  cm_error_message :: "string option"
  cm_estimated_bytes :: usize
  cm_last_access :: u64

record cache_entry =
  ce_prepared :: "prepared_model option"
  ce_meta :: cache_meta

record cache_telemetry =
  ct_capacity_bytes :: usize
  ct_resident_bytes :: usize
  ct_entry_count :: usize
  ct_ready_entry_count :: usize
  ct_eviction_count :: u64
  ct_invalidation_count :: u64
  ct_admission_rejection_count :: u64
  ct_hit_count :: u64
  ct_miss_count :: u64

record admission_error =
  ae_estimated_bytes :: usize
  ae_capacity_bytes :: usize

record cache_inner =
  entries :: "(factorization_key \<times> cache_entry) list"
  capacity_bytes :: usize
  resident_bytes :: usize
  access_clock :: u64
  eviction_count :: u64
  invalidation_count :: u64
  admission_rejection_count :: u64
  hit_count :: u64
  miss_count :: u64

section \<open>Operations\<close>

definition DEFAULT_CAPACITY_BYTES :: usize where
  "DEFAULT_CAPACITY_BYTES = 1024 * 1024 * 1024"

definition with_capacity :: "usize \<Rightarrow> cache_inner" where
  "with_capacity capacity =
     \<lparr>entries = [], capacity_bytes = capacity, resident_bytes = 0, access_clock = 0, eviction_count = 0,
      invalidation_count = 0, admission_rejection_count = 0, hit_count = 0, miss_count = 0\<rparr>"

definition cache_new :: cache_inner where
  "cache_new = with_capacity DEFAULT_CAPACITY_BYTES"

text \<open>\<open>next_access\<close> advances the clock; the access stamp is the clock after it.\<close>

definition next_access :: "cache_inner \<Rightarrow> cache_inner" where
  "next_access c = c\<lparr>access_clock := saturating_add (access_clock c) 1\<rparr>"

definition remove_entry :: "factorization_key \<Rightarrow> cache_inner \<Rightarrow> cache_inner" where
  "remove_entry key c =
     (case map_of (entries c) key of
        None \<Rightarrow> c
      | Some entry \<Rightarrow>
          c\<lparr>entries := AList.delete key (entries c),
            resident_bytes := saturating_sub (resident_bytes c) (cm_estimated_bytes (ce_meta entry))\<rparr>)"

text \<open>The block shared by the operations that store an entry without prepared state.\<close>

definition insert_unprepared ::
  "system_time \<Rightarrow> factorization_state \<Rightarrow> string option \<Rightarrow> factorization_key \<Rightarrow> cache_inner \<Rightarrow> cache_inner" where
  "insert_unprepared now st err key c =
     (let c = next_access c in
      c\<lparr>entries := AList.update key
          \<lparr>ce_prepared = None,
           ce_meta = \<lparr>cm_state = st, cm_updated_at = now, cm_error_message = err,
                      cm_estimated_bytes = 0, cm_last_access = access_clock c\<rparr>\<rparr> (entries c)\<rparr>)"

definition set_building :: "system_time \<Rightarrow> factorization_key \<Rightarrow> cache_inner \<Rightarrow> cache_inner" where
  "set_building now key c = insert_unprepared now Building None key (remove_entry key c)"

definition set_failed :: "system_time \<Rightarrow> factorization_key \<Rightarrow> string \<Rightarrow> cache_inner \<Rightarrow> cache_inner" where
  "set_failed now key msg c = insert_unprepared now Failed (Some msg) key (remove_entry key c)"

text \<open>The eviction order: last access, then the id of the key.\<close>

definition lru_le :: "factorization_key \<times> cache_entry \<Rightarrow> factorization_key \<times> cache_entry \<Rightarrow> bool" where
  "lru_le l r =
     (let a = cm_last_access (ce_meta (snd l)); b = cm_last_access (ce_meta (snd r)) in
      a < b \<or> a = b \<and> factorization_id (fst l) \<le> factorization_id (fst r))"

definition eviction_candidates :: "cache_inner \<Rightarrow> (factorization_key \<times> cache_entry) list" where
  "eviction_candidates c = filter (\<lambda>(_, entry). cm_estimated_bytes (ce_meta entry) > 0) (entries c)"

definition eviction_key :: "cache_inner \<Rightarrow> factorization_key option" where
  "eviction_key c = map_option fst (min_by lru_le (eviction_candidates c))"

definition evict :: "factorization_key \<Rightarrow> cache_inner \<Rightarrow> cache_inner" where
  "evict key c =
     (let c = remove_entry key c in c\<lparr>eviction_count := saturating_add (eviction_count c) 1\<rparr>)"

lemma lru_le_preorder: "totalp lru_le" "reflp lru_le" "transp lru_le"
  by (auto simp: lru_le_def Let_def totalp_on_def reflp_on_def transp_on_def)

lemma eviction_key_in:
  assumes "eviction_key c = Some k"
  shows "k \<in> fst ` set (entries c)"
proof -
  obtain x where "min_by lru_le (eviction_candidates c) = Some x" "k = fst x"
    using assms by (auto simp: eviction_key_def)
  with min_by_SomeD(1) [OF this(1) lru_le_preorder] show ?thesis by (auto simp: eviction_candidates_def)
qed

lemma length_remove_entry: "k \<in> fst ` set (entries c) \<Longrightarrow> length (entries (remove_entry k c)) < length (entries c)"
  by (auto simp: remove_entry_def length_delete_less map_of_eq_None_iff split: option.splits)

function evict_until_fits :: "usize \<Rightarrow> cache_inner \<Rightarrow> cache_inner" where
  "evict_until_fits estimated c =
     (if saturating_add (resident_bytes c) estimated > capacity_bytes c
      then (case eviction_key c of
              None \<Rightarrow> c
            | Some k \<Rightarrow> evict_until_fits estimated (evict k c))
      else c)"
  by pat_completeness auto
termination
  by (relation "measure (\<lambda>(_, c). length (entries c))")
     (auto simp: evict_def Let_def dest: eviction_key_in intro: length_remove_entry)

declare evict_until_fits.simps [simp del]

definition set_ready ::
  "(usize \<Rightarrow> usize) \<Rightarrow> system_time \<Rightarrow> factorization_key \<Rightarrow> prepared_model \<Rightarrow> cache_inner
   \<Rightarrow> (admission_error + usize) \<times> cache_inner" where
  "set_ready cap now key prepared c =
     (let estimated = pm_estimated_owned_bytes cap prepared;
          c = remove_entry key c
      in if estimated > capacity_bytes c
         then let c = c\<lparr>admission_rejection_count := saturating_add (admission_rejection_count c) 1\<rparr>
              in (Inl \<lparr>ae_estimated_bytes = estimated, ae_capacity_bytes = capacity_bytes c\<rparr>,
                  insert_unprepared now Failed
                    (Some (''cache admission rejected: estimated_bytes='' @ show_nat estimated @
                           '' capacity_bytes='' @ show_nat (capacity_bytes c))) key c)
         else let c = evict_until_fits estimated c;
                  c = next_access c;
                  c = c\<lparr>resident_bytes := saturating_add (resident_bytes c) estimated\<rparr>
              in (Inr estimated,
                  c\<lparr>entries := AList.update key
                      \<lparr>ce_prepared = Some prepared,
                       ce_meta = \<lparr>cm_state = Ready, cm_updated_at = now, cm_error_message = None,
                                  cm_estimated_bytes = estimated, cm_last_access = access_clock c\<rparr>\<rparr>
                      (entries c)\<rparr>))"

definition model_keys :: "uuid \<Rightarrow> cache_inner \<Rightarrow> factorization_key list" where
  "model_keys version c = filter (\<lambda>key. fk_model_version key = version) (map fst (entries c))"

definition invalidate_model :: "system_time \<Rightarrow> uuid \<Rightarrow> cache_inner \<Rightarrow> usize \<times> cache_inner" where
  "invalidate_model now version c =
     (let keys = model_keys version c;
          c = foldl (\<lambda>c key. insert_unprepared now Stale None key (remove_entry key c)) c keys
      in (length keys,
          c\<lparr>invalidation_count := saturating_add (invalidation_count c) (length keys)\<rparr>))"

definition get_ready ::
  "system_time \<Rightarrow> factorization_key \<Rightarrow> cache_inner \<Rightarrow> prepared_model option \<times> cache_inner" where
  "get_ready now key c =
     (let prepared = (case map_of (entries c) key of
                        None \<Rightarrow> None
                      | Some entry \<Rightarrow> if cm_state (ce_meta entry) = Ready then ce_prepared entry else None)
      in case prepared of
           Some p \<Rightarrow>
             let c = next_access c;
                 c = (case map_of (entries c) key of
                        None \<Rightarrow> c
                      | Some entry \<Rightarrow>
                          c\<lparr>entries := AList.update key
                              (entry\<lparr>ce_meta := (ce_meta entry)\<lparr>cm_last_access := access_clock c,
                                                                cm_updated_at := now\<rparr>\<rparr>) (entries c)\<rparr>)
             in (Some p, c\<lparr>hit_count := saturating_add (hit_count c) 1\<rparr>)
         | None \<Rightarrow> (None, c\<lparr>miss_count := saturating_add (miss_count c) 1\<rparr>))"

definition cache_state :: "factorization_key \<Rightarrow> cache_inner \<Rightarrow> factorization_state option" where
  "cache_state key c = map_option (\<lambda>entry. cm_state (ce_meta entry)) (map_of (entries c) key)"

definition cache_error :: "factorization_key \<Rightarrow> cache_inner \<Rightarrow> string option" where
  "cache_error key c = Option.bind (map_of (entries c) key) (\<lambda>entry. cm_error_message (ce_meta entry))"

definition telemetry :: "cache_inner \<Rightarrow> cache_telemetry" where
  "telemetry c =
     \<lparr>ct_capacity_bytes = capacity_bytes c, ct_resident_bytes = resident_bytes c,
      ct_entry_count = length (entries c),
      ct_ready_entry_count = length (filter (\<lambda>(_, entry). cm_state (ce_meta entry) = Ready) (entries c)),
      ct_eviction_count = eviction_count c, ct_invalidation_count = invalidation_count c,
      ct_admission_rejection_count = admission_rejection_count c, ct_hit_count = hit_count c,
      ct_miss_count = miss_count c\<rparr>"

section \<open>The invariant\<close>

abbreviation entry_bytes :: "cache_entry \<Rightarrow> usize" where
  "entry_bytes e \<equiv> cm_estimated_bytes (ce_meta e)"

definition entry_ok :: "(usize \<Rightarrow> usize) \<Rightarrow> u64 \<Rightarrow> cache_entry \<Rightarrow> bool" where
  "entry_ok cap clock e \<longleftrightarrow>
     (case ce_prepared e of
        None \<Rightarrow> cm_state (ce_meta e) \<noteq> Ready \<and> entry_bytes e = 0
      | Some p \<Rightarrow> cm_state (ce_meta e) = Ready \<and> cm_error_message (ce_meta e) = None \<and>
          entry_bytes e = pm_estimated_owned_bytes cap p) \<and>
     cm_last_access (ce_meta e) \<le> clock"

text \<open>
  The capacity is below \<open>usize::MAX\<close>: at \<open>usize::MAX\<close> the saturating sum in the loop condition can
  never exceed it and the loop would not evict.
\<close>

definition cache_inv :: "(usize \<Rightarrow> usize) \<Rightarrow> cache_inner \<Rightarrow> bool" where
  "cache_inv cap c \<longleftrightarrow>
     alist_wf (entries c) \<and> resident_bytes c = alist_sum entry_bytes (entries c) \<and>
     resident_bytes c \<le> capacity_bytes c \<and> capacity_bytes c < u64_max \<and> access_clock c \<le> u64_max \<and>
     list_all (\<lambda>(_, e). entry_ok cap (access_clock c) e) (entries c)"

lemma entry_ok_mono: "entry_ok cap n e \<Longrightarrow> n \<le> m \<Longrightarrow> entry_ok cap m e"
  by (simp add: entry_ok_def)

lemma cache_inv_with_capacity: "n < u64_max \<Longrightarrow> cache_inv cap (with_capacity n)"
  by (simp add: cache_inv_def with_capacity_def)

lemma remove_entry_fields [simp]:
  "entries (remove_entry k c) = AList.delete k (entries c)"
  "capacity_bytes (remove_entry k c) = capacity_bytes c"
  "access_clock (remove_entry k c) = access_clock c"
  by (auto simp: remove_entry_def map_of_eq_None_iff split: option.splits)

lemma remove_entry_bytes:
  assumes "alist_wf (entries c)" "resident_bytes c = alist_sum entry_bytes (entries c)"
  shows "resident_bytes (remove_entry k c) = alist_sum entry_bytes (AList.delete k (entries c))"
  using assms alist_sum_delete [OF assms(1), of k]
  by (auto simp: remove_entry_def saturating_sub_def map_of_eq_None_iff split: option.splits)

lemma cache_inv_remove_entry: "cache_inv cap c \<Longrightarrow> cache_inv cap (remove_entry k c)"
  using alist_sum_delete_le [of entry_bytes k "entries c"]
  by (auto simp: cache_inv_def remove_entry_bytes list_all_iff set_delete)

lemma next_access_fields [simp]:
  "entries (next_access c) = entries c" "capacity_bytes (next_access c) = capacity_bytes c"
  "resident_bytes (next_access c) = resident_bytes c" "access_clock c \<le> u64_max \<Longrightarrow> access_clock c \<le> access_clock (next_access c)"
  "access_clock (next_access c) \<le> u64_max"
  by (simp_all add: next_access_def saturating_add_def)

text \<open>Storing an entry under a fresh key.\<close>

lemma cache_inv_insert:
  assumes "cache_inv cap c" "k \<notin> fst ` set (entries c)" "entries c' = AList.update k e (entries c)"
    "resident_bytes c' = resident_bytes c + entry_bytes e" "resident_bytes c' \<le> capacity_bytes c"
    "capacity_bytes c' = capacity_bytes c" "access_clock c \<le> access_clock c'" "access_clock c' \<le> u64_max"
    "entry_ok cap (access_clock c') e"
  shows "cache_inv cap c'"
  using assms by (auto simp: cache_inv_def update_fresh alist_wf_def list_all_iff intro: entry_ok_mono)

lemma cache_inv_insert_unprepared:
  assumes "cache_inv cap c" "st \<noteq> Ready" "k \<notin> fst ` set (entries c)"
  shows "cache_inv cap (insert_unprepared now st err k c)"
  by (rule cache_inv_insert [OF assms(1,3)])
     (use assms in \<open>auto simp: insert_unprepared_def Let_def entry_ok_def cache_inv_def\<close>)

lemma fresh_after_remove: "k \<notin> fst ` set (entries (remove_entry k c))"
  by simp

lemma cache_inv_set_building: "cache_inv cap c \<Longrightarrow> cache_inv cap (set_building now k c)"
  unfolding set_building_def
  by (rule cache_inv_insert_unprepared [OF cache_inv_remove_entry _ fresh_after_remove]) simp_all

lemma cache_inv_set_failed: "cache_inv cap c \<Longrightarrow> cache_inv cap (set_failed now k msg c)"
  unfolding set_failed_def
  by (rule cache_inv_insert_unprepared [OF cache_inv_remove_entry _ fresh_after_remove]) simp_all

lemma cache_inv_counters:
  "cache_inv cap (c\<lparr>admission_rejection_count := n\<rparr>) = cache_inv cap c"
  "cache_inv cap (c\<lparr>eviction_count := n\<rparr>) = cache_inv cap c"
  "cache_inv cap (c\<lparr>invalidation_count := n\<rparr>) = cache_inv cap c"
  "cache_inv cap (c\<lparr>hit_count := n\<rparr>) = cache_inv cap c"
  "cache_inv cap (c\<lparr>miss_count := n\<rparr>) = cache_inv cap c"
  by (simp_all add: cache_inv_def)

lemma cache_inv_invalidate: "cache_inv cap c \<Longrightarrow> cache_inv cap (snd (invalidate_model now v c))"
proof -
  have "cache_inv cap c \<Longrightarrow>
      cache_inv cap (foldl (\<lambda>c key. insert_unprepared now Stale None key (remove_entry key c)) c keys)" for keys
  proof (induction keys arbitrary: c)
    case (Cons k keys)
    then show ?case
      using cache_inv_insert_unprepared [OF cache_inv_remove_entry [OF Cons.prems] _ fresh_after_remove] by simp
  qed simp
  then show "cache_inv cap c \<Longrightarrow> cache_inv cap (snd (invalidate_model now v c))"
    by (simp add: invalidate_model_def cache_inv_counters Let_def)
qed

lemma cache_inv_entry:
  assumes "cache_inv cap c" "map_of (entries c) k = Some e"
  shows "entry_ok cap (access_clock c) e"
  using assms map_of_SomeD [OF assms(2)] by (fastforce simp: cache_inv_def list_all_iff)

text \<open>Refreshing the stamps of a stored entry.\<close>

lemma cache_inv_touch:
  assumes "cache_inv cap c" "map_of (entries c) k = Some e"
    "entry_bytes e' = entry_bytes e" "entry_ok cap (access_clock c') e'"
    "entries c' = AList.update k e' (entries c)" "resident_bytes c' = resident_bytes c"
    "capacity_bytes c' = capacity_bytes c" "access_clock c \<le> access_clock c'" "access_clock c' \<le> u64_max"
  shows "cache_inv cap c'"
proof -
  have wf: "alist_wf (entries c)" using assms(1) by (simp add: cache_inv_def)
  have "alist_sum entry_bytes (AList.update k e' (entries c)) = alist_sum entry_bytes (entries c)"
    by (rule alist_sum_update_same [OF wf assms(2,3)])
  moreover have "entry_ok cap (access_clock c') (snd x)" if "x \<in> set (AList.update k e' (entries c))" for x
    using in_set_update [OF that] assms(1,4,8) by (auto simp: cache_inv_def list_all_iff case_prod_unfold intro: entry_ok_mono)
  ultimately show ?thesis
    using assms wf by (auto simp: cache_inv_def list_all_iff)
qed

lemma cache_inv_get_ready: 
  assumes "cache_inv cap c"
  shows "cache_inv cap (snd (get_ready now k c))"
proof (cases "\<exists>e p. map_of (entries c) k = Some e \<and> cm_state (ce_meta e) = Ready \<and> ce_prepared e = Some p")
  case True
  then obtain e p where e: "map_of (entries c) k = Some e" "cm_state (ce_meta e) = Ready" "ce_prepared e = Some p"
    by blast
  have clock: "access_clock c \<le> u64_max" using assms by (simp add: cache_inv_def)
  have "entry_ok cap (access_clock c) e" by (rule cache_inv_entry [OF assms e(1)])
  then show ?thesis
    using e clock
    by (intro cache_inv_touch [OF assms e(1), where e' = "e\<lparr>ce_meta := (ce_meta e)\<lparr>
          cm_last_access := access_clock (next_access c), cm_updated_at := now\<rparr>\<rparr>"])
       (auto simp: get_ready_def Let_def entry_ok_def)
next
  case False
  then have "snd (get_ready now k c) = c\<lparr>miss_count := saturating_add (miss_count c) 1\<rparr>"
    by (auto simp: get_ready_def Let_def split: option.splits)
  then show ?thesis using assms by (simp add: cache_inv_counters)
qed

section \<open>Eviction\<close>

lemma evict_fields [simp]:
  "entries (evict k c) = AList.delete k (entries c)" "capacity_bytes (evict k c) = capacity_bytes c"
  "access_clock (evict k c) = access_clock c"
  "resident_bytes (evict k c) = resident_bytes (remove_entry k c)"
  by (simp_all add: evict_def Let_def)

lemma cache_inv_evict: "cache_inv cap c \<Longrightarrow> cache_inv cap (evict k c)"
  using cache_inv_remove_entry [of cap c k] by (simp add: evict_def Let_def cache_inv_counters)

lemma eviction_keyE:
  assumes "eviction_key c = Some k" "alist_wf (entries c)"
  obtains e where "map_of (entries c) k = Some e" "0 < entry_bytes e"
    "\<And>x. x \<in> set (entries c) \<Longrightarrow> 0 < entry_bytes (snd x) \<Longrightarrow> lru_le (k, e) x"
proof -
  obtain x where x: "min_by lru_le (eviction_candidates c) = Some x" "k = fst x"
    using assms by (auto simp: eviction_key_def)
  note m = min_by_SomeD [OF x(1) lru_le_preorder]
  obtain e where e: "x = (k, e)" using x(2) by (cases x) auto
  show thesis
  proof (rule that [of e])
    show "map_of (entries c) k = Some e" "0 < entry_bytes e"
      using m(1) e alist_get_iff [OF assms(2)] by (auto simp: eviction_candidates_def)
    show "lru_le (k, e) y" if "y \<in> set (entries c)" "0 < entry_bytes (snd y)" for y
      using m(2) [of y] that e by (simp add: eviction_candidates_def case_prod_unfold)
  qed
qed

lemma eviction_key_None: "eviction_key c = None \<Longrightarrow> alist_sum entry_bytes (entries c) = 0"
  using alist_sum_pos [of entry_bytes "entries c"]
  by (fastforce simp: eviction_key_def eviction_candidates_def filter_empty_conv)

text \<open>The loop keeps the invariant and makes room for any entry within the capacity.\<close>

lemma evict_until_fits_room:
  assumes "cache_inv cap c" "est \<le> capacity_bytes c"
  shows "cache_inv cap (evict_until_fits est c) \<and>
    resident_bytes (evict_until_fits est c) + est \<le> capacity_bytes c \<and>
    capacity_bytes (evict_until_fits est c) = capacity_bytes c \<and>
    access_clock (evict_until_fits est c) = access_clock c \<and>
    set (entries (evict_until_fits est c)) \<subseteq> set (entries c)"
  using assms
proof (induction est c rule: evict_until_fits.induct)
  case (1 est c)
  have cap: "capacity_bytes c < u64_max" using "1.prems" by (simp add: cache_inv_def)
  consider (fits) "\<not> capacity_bytes c < saturating_add (resident_bytes c) est"
    | (stuck) "capacity_bytes c < saturating_add (resident_bytes c) est" "eviction_key c = None"
    | (go) k where "capacity_bytes c < saturating_add (resident_bytes c) est" "eviction_key c = Some k"
    by (cases "eviction_key c") auto
  then show ?case
  proof cases
    case fits
    then have "resident_bytes c + est \<le> capacity_bytes c"
      using cap "1.prems" by (auto simp: saturating_add_def min_def split: if_splits)
    with fits "1.prems" show ?thesis by (simp add: evict_until_fits.simps [of est c])
  next
    case stuck
    then have "resident_bytes c = 0" using eviction_key_None "1.prems" by (simp add: cache_inv_def)
    with stuck "1.prems" show ?thesis by (simp add: evict_until_fits.simps [of est c])
  next
    case go
    then have "evict_until_fits est c = evict_until_fits est (evict k c)"
      by (simp add: evict_until_fits.simps [of est c])
    with "1.IH" [OF go] cache_inv_evict "1.prems" show ?thesis by (auto simp: set_delete)
  qed
qed

lemmas evict_room = evict_until_fits_room [THEN conjunct1]
  evict_until_fits_room [THEN conjunct2, THEN conjunct1]
  evict_until_fits_room [THEN conjunct2, THEN conjunct2, THEN conjunct1]
  evict_until_fits_room [THEN conjunct2, THEN conjunct2, THEN conjunct2, THEN conjunct1]
  evict_until_fits_room [THEN conjunct2, THEN conjunct2, THEN conjunct2, THEN conjunct2]

lemma cache_inv_set_ready:
  assumes "cache_inv cap c"
  shows "cache_inv cap (snd (set_ready cap now k p c))"
proof (cases "pm_estimated_owned_bytes cap p > capacity_bytes c")
  case True
  have "cache_inv cap ((remove_entry k c)\<lparr>admission_rejection_count := n\<rparr>)" for n
    unfolding cache_inv_counters by (rule cache_inv_remove_entry [OF assms])
  with True show ?thesis
    by (simp add: set_ready_def Let_def cache_inv_insert_unprepared)
next
  case False
  let ?est = "pm_estimated_owned_bytes cap p"
  let ?c = "evict_until_fits ?est (remove_entry k c)"
  have fits: "?est \<le> capacity_bytes (remove_entry k c)" using False by simp
  note inv = cache_inv_remove_entry [OF assms, of k]
  note room = evict_room [OF inv fits]
  have cap: "capacity_bytes c < u64_max" "access_clock c \<le> u64_max" using assms by (simp_all add: cache_inv_def)
  have sum: "saturating_add (resident_bytes ?c) ?est = resident_bytes ?c + ?est"
    using room(2) cap by (simp add: saturating_add_def)
  have fresh: "k \<notin> fst ` set (entries ?c)"
    using room(5) fresh_after_remove [of k c] by blast
  show ?thesis
    by (rule cache_inv_insert [OF room(1) fresh, where e = "\<lparr>ce_prepared = Some p,
           ce_meta = \<lparr>cm_state = Ready, cm_updated_at = now, cm_error_message = None,
             cm_estimated_bytes = ?est, cm_last_access = access_clock (next_access ?c)\<rparr>\<rparr>"])
       (use False room sum cap in \<open>simp_all add: set_ready_def Let_def entry_ok_def next_access_def saturating_add_def\<close>)
qed

text \<open>
  The eviction order: what the loop removes precedes, in the order of last access and id, every
  sized entry it keeps, and its last victim had to go.
\<close>

lemma evict_step:
  assumes "\<not> evict_until_fits est c = c"
  obtains k where "capacity_bytes c < saturating_add (resident_bytes c) est" "eviction_key c = Some k"
    "evict_until_fits est c = evict_until_fits est (evict k c)"
  using assms by (cases "eviction_key c") (auto simp: evict_until_fits.simps [of est c] split: if_splits)

lemma evict_subset: "set (entries (evict_until_fits est c)) \<subseteq> set (entries c)"
proof (induction est c rule: evict_until_fits.induct)
  case (1 est c)
  show ?case
  proof (cases "evict_until_fits est c = c")
    case False
    then obtain k where "capacity_bytes c < saturating_add (resident_bytes c) est" "eviction_key c = Some k"
      "evict_until_fits est c = evict_until_fits est (evict k c)" by (rule evict_step)
    with "1.IH" [of k] show ?thesis by (auto simp: set_delete)
  qed simp
qed

lemma evict_removes:
  assumes "\<not> evict_until_fits est c = c" "alist_wf (entries c)"
  obtains z where "z \<in> set (entries c)" "z \<notin> set (entries (evict_until_fits est c))"
proof -
  obtain k where k: "eviction_key c = Some k" "evict_until_fits est c = evict_until_fits est (evict k c)"
    using evict_step [OF assms(1)] by metis
  obtain e where "map_of (entries c) k = Some e" using eviction_keyE [OF k(1) assms(2)] by metis
  moreover have "(k, e) \<notin> set (entries (evict_until_fits est c))"
    using evict_subset [of est "evict k c"] k(2) by (auto simp: set_delete)
  ultimately show thesis using that [of "(k, e)"] alist_get_iff [OF assms(2)] by blast
qed

lemma evict_bytes:
  assumes "cache_inv cap c" "map_of (entries c) k = Some e"
  shows "resident_bytes (evict k c) + entry_bytes e = resident_bytes c"
  using assms alist_sum_delete [of "entries c" k e entry_bytes]
  by (simp add: cache_inv_def remove_entry_bytes)

definition lru_evidence :: "usize \<Rightarrow> cache_inner \<Rightarrow> cache_inner \<Rightarrow> factorization_key \<times> cache_entry \<Rightarrow> bool" where
  "lru_evidence est c c' x \<longleftrightarrow> 0 < entry_bytes (snd x) \<and>
     (\<forall>y \<in> set (entries c'). 0 < entry_bytes (snd y) \<longrightarrow> lru_le x y) \<and>
     (\<exists>z \<in> set (entries c) - set (entries c'). lru_le x z \<and>
        capacity_bytes c < resident_bytes c' + entry_bytes (snd z) + est)"

lemma evict_until_fits_lru:
  assumes "cache_inv cap c" "x \<in> set (entries c)" "x \<notin> set (entries (evict_until_fits est c))"
  shows "lru_evidence est c (evict_until_fits est c) x"
  using assms
proof (induction est c arbitrary: x rule: evict_until_fits.induct)
  case (1 est c)
  have wf: "alist_wf (entries c)" using "1.prems"(1) by (simp add: cache_inv_def)
  have "\<not> evict_until_fits est c = c" using "1.prems"(2,3) by metis
  then obtain k where k: "capacity_bytes c < saturating_add (resident_bytes c) est" "eviction_key c = Some k"
    and f: "evict_until_fits est c = evict_until_fits est (evict k c)" by (rule evict_step)
  obtain e where e: "map_of (entries c) k = Some e" "0 < entry_bytes e"
    "\<And>y. y \<in> set (entries c) \<Longrightarrow> 0 < entry_bytes (snd y) \<Longrightarrow> lru_le (k, e) y"
    using eviction_keyE [OF k(2) wf] by metis
  let ?d = "evict k c" and ?f = "evict_until_fits est (evict k c)"
  have IH: "lru_evidence est ?d ?f z" if "z \<in> set (entries ?d)" "z \<notin> set (entries ?f)" for z
    using "1.IH" [OF k cache_inv_evict [OF "1.prems"(1)]] that by blast
  have kd: "(k, e) \<in> set (entries c)" using e(1) alist_get_iff [OF wf] by blast
  have sub: "set (entries ?f) \<subseteq> set (entries ?d)" "set (entries ?d) \<subseteq> set (entries c)"
    using evict_subset [of est ?d] by (auto simp: set_delete)
  show ?case
  proof (cases "x = (k, e)")
    case False
    then have "fst x \<noteq> k" using "1.prems"(2) e(1) alist_get_iff [OF wf, of k "snd x"] by (cases x) auto
    then have "x \<in> set (entries ?d)" using "1.prems"(2) by (auto simp: set_delete)
    then have "lru_evidence est ?d ?f x" using IH "1.prems"(3) f by simp
    with sub show ?thesis unfolding f lru_evidence_def by auto
  next
    case True
    have "\<exists>z \<in> set (entries c) - set (entries ?f). lru_le (k, e) z \<and>
        capacity_bytes c < resident_bytes ?f + entry_bytes (snd z) + est"
    proof (cases "?f = ?d")
      case True
      have "(k, e) \<notin> set (entries ?d)" by (simp add: set_delete)
      moreover have "capacity_bytes c < resident_bytes ?d + entry_bytes e + est"
        using k(1) evict_bytes [OF "1.prems"(1) e(1)] by (simp add: saturating_add_def)
      moreover have "lru_le (k, e) (k, e)" using lru_le_preorder(2) by (simp add: reflpD)
      ultimately show ?thesis using kd True by (intro bexI [of _ "(k, e)"]) auto
    next
      case False
      then obtain z0 where "z0 \<in> set (entries ?d)" "z0 \<notin> set (entries ?f)"
        by (rule evict_removes) (use wf in simp)
      from IH [OF this] obtain z where z: "z \<in> set (entries ?d) - set (entries ?f)"
        "capacity_bytes c < resident_bytes ?f + entry_bytes (snd z) + est"
        by (auto simp: lru_evidence_def)
      then have "0 < entry_bytes (snd z)" using IH [of z] by (auto simp: lru_evidence_def)
      with z sub(2) e(3) [of z] show ?thesis by (intro bexI [of _ z]) auto
    qed
    with True e(2,3) sub show ?thesis unfolding f lru_evidence_def by auto
  qed
qed

section \<open>The cache as a map of slots\<close>

text \<open>
  The abstract state: for each key its state, its prepared model and its error message. The
  operations are updates of this map; only \<open>set_ready\<close> may also drop ready slots of other keys.
\<close>

type_synonym slot = "factorization_state \<times> prepared_model option \<times> string option"

definition slot_of :: "cache_entry \<Rightarrow> slot" where
  "slot_of e = (cm_state (ce_meta e), ce_prepared e, cm_error_message (ce_meta e))"

definition cache_view :: "cache_inner \<Rightarrow> factorization_key \<rightharpoonup> slot" where
  "cache_view c k = map_option slot_of (map_of (entries c) k)"

lemma map_of_delete: "map_of (AList.delete k es) = (map_of es)(k := None)"
  by (simp add: delete_conv')

lemma cache_view_insert_unprepared:
  "cache_view (insert_unprepared now st err k c) = (cache_view c)(k \<mapsto> (st, None, err))"
  by (auto simp: cache_view_def insert_unprepared_def Let_def update_conv' slot_of_def)

lemma cache_view_remove_entry: "cache_view (remove_entry k c) = (cache_view c)(k := None)"
  by (auto simp: cache_view_def map_of_delete)

lemma cache_view_set_building: "cache_view (set_building now k c) = (cache_view c)(k \<mapsto> (Building, None, None))"
  by (simp add: set_building_def cache_view_insert_unprepared cache_view_remove_entry)

lemma cache_view_set_failed: "cache_view (set_failed now k msg c) = (cache_view c)(k \<mapsto> (Failed, None, Some msg))"
  by (simp add: set_failed_def cache_view_insert_unprepared cache_view_remove_entry)

lemma model_keys_iff: "k \<in> set (model_keys v c) \<longleftrightarrow> k \<in> dom (cache_view c) \<and> fk_model_version k = v"
  by (auto simp: model_keys_def cache_view_def dom_def map_of_eq_None_iff image_iff
      dest: map_of_SomeD)

lemma cache_view_invalidate_loop:
  "cache_view (foldl (\<lambda>c key. insert_unprepared now Stale None key (remove_entry key c)) c keys) =
     (\<lambda>k. if k \<in> set keys then Some (Stale, None, None) else cache_view c k)"
  by (induction keys arbitrary: c) (auto simp: cache_view_insert_unprepared cache_view_remove_entry fun_eq_iff)

lemma cache_view_invalidate_model:
  "cache_view (snd (invalidate_model now v c)) =
     (\<lambda>k. if fk_model_version k = v \<and> cache_view c k \<noteq> None then Some (Stale, None, None) else cache_view c k)"
proof -
  have "cache_view (c\<lparr>invalidation_count := n\<rparr>) = cache_view c" for c n by (simp add: cache_view_def fun_eq_iff)
  then show ?thesis
    by (auto simp: invalidate_model_def Let_def cache_view_invalidate_loop model_keys_iff fun_eq_iff)
qed

definition slot_ready :: "slot option \<Rightarrow> prepared_model option" where
  "slot_ready s = (case s of Some (Ready, p, _) \<Rightarrow> p | _ \<Rightarrow> None)"

lemma get_ready_result: "fst (get_ready now k c) = slot_ready (cache_view c k)"
  by (auto simp: get_ready_def Let_def slot_ready_def cache_view_def slot_of_def
      split: option.splits factorization_state.splits)

lemma cache_view_get_ready: "cache_view (snd (get_ready now k c)) = cache_view c"
  by (auto simp: get_ready_def Let_def cache_view_def update_conv' slot_of_def fun_eq_iff split: option.splits)

lemma map_of_evict:
  assumes "cache_inv cap c" "map_of (entries (evict_until_fits est c)) k = Some e"
  shows "map_of (entries c) k = Some e"
proof -
  have "alist_wf (entries c)" using assms(1) by (simp add: cache_inv_def)
  then show ?thesis using evict_subset [of est c] map_of_SomeD [OF assms(2)] by (auto simp: alist_get_iff)
qed

lemma cache_view_evict:
  assumes "cache_inv cap c"
  shows "cache_view (evict_until_fits est c) k = cache_view c k \<or>
    cache_view (evict_until_fits est c) k = None \<and> (\<exists>p. cache_view c k = Some (Ready, Some p, None))"
proof (cases "map_of (entries (evict_until_fits est c)) k")
  case (Some e)
  with map_of_evict [OF assms] show ?thesis by (simp add: cache_view_def)
next
  case None
  show ?thesis
  proof (cases "map_of (entries c) k")
    case (Some e)
    then have x: "(k, e) \<in> set (entries c)" "(k, e) \<notin> set (entries (evict_until_fits est c))"
      using None by (auto dest: map_of_SomeD simp: map_of_eq_None_iff image_iff)
    from evict_until_fits_lru [OF assms x] have "0 < entry_bytes e" by (simp add: lru_evidence_def)
    with cache_inv_entry [OF assms Some] obtain p where "slot_of e = (Ready, Some p, None)"
      by (auto simp: entry_ok_def slot_of_def split: option.splits)
    with None Some show ?thesis by (simp add: cache_view_def)
  qed (use None in \<open>simp add: cache_view_def\<close>)
qed

lemma set_ready_err:
  assumes "set_ready cap now k p c = (Inl err, c')"
  shows "capacity_bytes c < pm_estimated_owned_bytes cap p" "\<exists>msg. cache_view c' = (cache_view c)(k \<mapsto> (Failed, None, Some msg))"
proof -
  show lt: "capacity_bytes c < pm_estimated_owned_bytes cap p"
    using assms by (auto simp: set_ready_def Let_def split: if_splits)
  have "cache_view ((remove_entry k c)\<lparr>admission_rejection_count := n\<rparr>) = (cache_view c)(k := None)" for n
    using cache_view_remove_entry [of k c] by (simp add: cache_view_def fun_eq_iff)
  with lt assms show "\<exists>msg. cache_view c' = (cache_view c)(k \<mapsto> (Failed, None, Some msg))"
    by (auto simp: set_ready_def Let_def cache_view_insert_unprepared)
qed

lemma set_ready_ok:
  assumes "cache_inv cap c" "set_ready cap now k p c = (Inr n, c')"
  shows "n = pm_estimated_owned_bytes cap p" "n \<le> capacity_bytes c" "cache_view c' k = Some (Ready, Some p, None)"
    "j \<noteq> k \<Longrightarrow> cache_view c' j = cache_view c j \<or>
       cache_view c' j = None \<and> (\<exists>q. cache_view c j = Some (Ready, Some q, None))"
proof -
  show le: "n = pm_estimated_owned_bytes cap p" "n \<le> capacity_bytes c"
    using assms(2) by (auto simp: set_ready_def Let_def split: if_splits)
  let ?d = "evict_until_fits n (remove_entry k c)"
  have "cache_view c' = (cache_view ?d)(k \<mapsto> (Ready, Some p, None))"
    using assms(2) le by (auto simp: set_ready_def Let_def cache_view_def update_conv' slot_of_def fun_eq_iff)
  then show "cache_view c' k = Some (Ready, Some p, None)"
    "j \<noteq> k \<Longrightarrow> cache_view c' j = cache_view c j \<or>
       cache_view c' j = None \<and> (\<exists>q. cache_view c j = Some (Ready, Some q, None))"
    using cache_view_evict [OF cache_inv_remove_entry [OF assms(1), of k], of n j]
    by (simp_all add: cache_view_remove_entry)
qed

section \<open>The interface the solver service relies on\<close>

text \<open>
  A store of prepared models by key: the laws a client needs about what a lookup returns after each
  update. The client lemmas: a model stored under a key is served until that key is changed or the
  slot is evicted by another store, and a key marked as building or failed is never served.
\<close>

locale prepared_store =
  fixes inv :: "'c \<Rightarrow> bool"
    and view :: "'c \<Rightarrow> 'k \<Rightarrow> slot option"
    and building :: "'t \<Rightarrow> 'k \<Rightarrow> 'c \<Rightarrow> 'c"
    and failed :: "'t \<Rightarrow> 'k \<Rightarrow> string \<Rightarrow> 'c \<Rightarrow> 'c"
    and ready :: "'t \<Rightarrow> 'k \<Rightarrow> prepared_model \<Rightarrow> 'c \<Rightarrow> ('e + nat) \<times> 'c"
    and get :: "'t \<Rightarrow> 'k \<Rightarrow> 'c \<Rightarrow> prepared_model option \<times> 'c"
  assumes inv_building: "inv c \<Longrightarrow> inv (building t k c)"
    and view_building: "view (building t k c) = (view c)(k \<mapsto> (Building, None, None))"
    and inv_failed: "inv c \<Longrightarrow> inv (failed t k msg c)"
    and view_failed: "view (failed t k msg c) = (view c)(k \<mapsto> (Failed, None, Some msg))"
    and inv_ready: "inv c \<Longrightarrow> inv (snd (ready t k p c))"
    and view_ready: "inv c \<Longrightarrow> ready t k p c = (Inr n, c') \<Longrightarrow> view c' k = Some (Ready, Some p, None)"
    and view_ready_other: "inv c \<Longrightarrow> ready t k p c = (Inr n, c') \<Longrightarrow> j \<noteq> k \<Longrightarrow>
      view c' j = view c j \<or> view c' j = None \<and> (\<exists>q. view c j = Some (Ready, Some q, None))"
    and view_ready_err: "inv c \<Longrightarrow> ready t k p c = (Inl e, c') \<Longrightarrow>
      \<exists>msg. view c' = (view c)(k \<mapsto> (Failed, None, Some msg))"
    and inv_get: "inv c \<Longrightarrow> inv (snd (get t k c))"
    and view_get: "view (snd (get t k c)) = view c"
    and get_result: "fst (get t k c) = slot_ready (view c k)"
begin

lemma get_after_ready:
  assumes "inv c" "ready t k p c = (Inr n, c')"
  shows "fst (get t' k c') = Some p"
  using view_ready [OF assms] by (simp add: get_result slot_ready_def)

lemma gets_keep_serving:
  assumes "inv c" "ready t k p c = (Inr n, c')"
  shows "fst (get t' k (foldl (\<lambda>c (t, j). snd (get t j c)) c' gs)) = Some p"
proof -
  have "view (foldl (\<lambda>c (t, j). snd (get t j c)) c' gs) = view c'"
    by (induction gs arbitrary: c') (auto simp: view_get)
  with view_ready [OF assms] show ?thesis by (simp add: get_result slot_ready_def)
qed

lemma unready_not_served:
  "fst (get t' k (building t k c)) = None" "fst (get t' k (failed t k msg c)) = None"
  by (simp_all add: get_result view_building view_failed slot_ready_def)

lemma rejected_not_served:
  assumes "inv c" "ready t k p c = (Inl e, c')"
  shows "fst (get t' k c') = None"
  using view_ready_err [OF assms] by (auto simp: get_result slot_ready_def)

lemma ready_never_forges:
  assumes "inv c" "ready t k p c = (r, c')" "fst (get t' j c') = Some q"
  shows "(j = k \<and> q = p) \<or> fst (get t' j c) = Some q"
proof (cases r)
  case (Inl e)
  with assms view_ready_err [of c t k p e c'] show ?thesis
    by (cases "j = k") (auto simp: get_result slot_ready_def)
next
  case (Inr n)
  with assms view_ready [of c t k p n c'] view_ready_other [of c t k p n c' j] show ?thesis
    by (cases "j = k") (auto simp: get_result slot_ready_def)
qed

end

interpretation fc: prepared_store "cache_inv cap" cache_view set_building set_failed "set_ready cap" get_ready
proof unfold_locales
  show "cache_inv cap c \<Longrightarrow> set_ready cap t k p c = (Inr n, c') \<Longrightarrow>
      cache_view c' k = Some (Ready, Some p, None)" for c t k p n c'
    by (rule set_ready_ok(3))
  show "cache_inv cap c \<Longrightarrow> set_ready cap t k p c = (Inr n, c') \<Longrightarrow> j \<noteq> k \<Longrightarrow>
      cache_view c' j = cache_view c j \<or>
      cache_view c' j = None \<and> (\<exists>q. cache_view c j = Some (Ready, Some q, None))" for c t k p n c' j
    by (rule set_ready_ok(4))
  show "set_ready cap t k p c = (Inl e, c') \<Longrightarrow>
      \<exists>msg. cache_view c' = (cache_view c)(k \<mapsto> (Failed, None, Some msg))" for c t k p e c'
    by (rule set_ready_err(2))
qed (simp_all add: cache_inv_set_building cache_view_set_building cache_inv_set_failed cache_view_set_failed
    cache_inv_set_ready cache_inv_get_ready cache_view_get_ready get_ready_result)

section \<open>Reachable caches\<close>

text \<open>The states a cache of a given capacity can be in, over any sequence of operations.\<close>

inductive cache_reachable :: "(usize \<Rightarrow> usize) \<Rightarrow> usize \<Rightarrow> cache_inner \<Rightarrow> bool" for cap n where
  init: "cache_reachable cap n (with_capacity n)"
| building: "cache_reachable cap n c \<Longrightarrow> cache_reachable cap n (set_building now k c)"
| ready: "cache_reachable cap n c \<Longrightarrow> cache_reachable cap n (snd (set_ready cap now k p c))"
| failed: "cache_reachable cap n c \<Longrightarrow> cache_reachable cap n (set_failed now k msg c)"
| invalidate: "cache_reachable cap n c \<Longrightarrow> cache_reachable cap n (snd (invalidate_model now v c))"
| get: "cache_reachable cap n c \<Longrightarrow> cache_reachable cap n (snd (get_ready now k c))"

lemma capacity_fixed [simp]:
  "capacity_bytes (insert_unprepared now st err k c) = capacity_bytes c"
  "capacity_bytes (set_building now k c) = capacity_bytes c"
  "capacity_bytes (set_failed now k msg c) = capacity_bytes c"
  "capacity_bytes (snd (get_ready now k c)) = capacity_bytes c"
  by (auto simp: insert_unprepared_def set_building_def set_failed_def get_ready_def Let_def split: option.splits)

lemma capacity_invalidate [simp]: "capacity_bytes (snd (invalidate_model now v c)) = capacity_bytes c"
proof -
  have "capacity_bytes (foldl (\<lambda>c key. insert_unprepared now Stale None key (remove_entry key c)) c keys) =
      capacity_bytes c" for keys
    by (induction keys arbitrary: c) simp_all
  then show ?thesis by (simp add: invalidate_model_def Let_def)
qed

lemma capacity_set_ready [simp]:
  assumes "cache_inv cap c"
  shows "capacity_bytes (snd (set_ready cap now k p c)) = capacity_bytes c"
  using evict_room(3) [OF cache_inv_remove_entry [OF assms, of k], of "pm_estimated_owned_bytes cap p"]
  by (simp add: set_ready_def Let_def)

lemma cache_reachable_inv:
  assumes "cache_reachable cap n c" "n < u64_max"
  shows "cache_inv cap c \<and> capacity_bytes c = n"
  using assms
proof (induction rule: cache_reachable.induct)
  case init
  then show ?case by (simp add: cache_inv_with_capacity) (simp add: with_capacity_def)
qed (simp_all add: cache_inv_set_building cache_inv_set_failed cache_inv_set_ready cache_inv_get_ready cache_inv_invalidate)

section \<open>Properties of the cache\<close>

text \<open>
  C3. In every state a cache can reach, the resident-byte counter is the sum of the byte estimates
  of its ready entries and is within the configured capacity, keys are stored once, and exactly the
  ready entries hold a prepared model.
\<close>

theorem cache_within_capacity:
  assumes "cache_reachable cap n c" "n < u64_max"
  shows "resident_bytes c \<le> n \<and> alist_wf (entries c) \<and>
    resident_bytes c =
      (\<Sum>(k, e) \<leftarrow> entries c. case ce_prepared e of None \<Rightarrow> 0 | Some p \<Rightarrow> pm_estimated_owned_bytes cap p) \<and>
    (\<forall>(k, e) \<in> set (entries c). cm_state (ce_meta e) = Ready \<longleftrightarrow> ce_prepared e \<noteq> None)"
proof -
  have inv: "cache_inv cap c" "capacity_bytes c = n" using cache_reachable_inv [OF assms] by blast+
  have ok: "entry_ok cap (access_clock c) e" if "(k, e) \<in> set (entries c)" for k e
    using inv(1) that by (auto simp: cache_inv_def list_all_iff)
  have "alist_sum entry_bytes (entries c) =
      (\<Sum>(k, e) \<leftarrow> entries c. case ce_prepared e of None \<Rightarrow> 0 | Some p \<Rightarrow> pm_estimated_owned_bytes cap p)"
    unfolding alist_sum_def
    by (rule arg_cong [where f = sum_list], rule map_cong) (auto dest!: ok simp: entry_ok_def split: option.splits)
  moreover have "cm_state (ce_meta e) = Ready \<longleftrightarrow> ce_prepared e \<noteq> None" if "(k, e) \<in> set (entries c)" for k e
    using ok [OF that] by (auto simp: entry_ok_def split: option.splits)
  ultimately show ?thesis using inv by (auto simp: cache_inv_def)
qed

definition demo_key :: "string \<Rightarrow> factorization_key" where
  "demo_key v = \<lparr>fk_model_version = v, fk_backend = Umfpack, fk_options_hash = ''h''\<rparr>"

definition demo_prepared :: "f64 \<Rightarrow> prepared_model" where
  "demo_prepared v =
     \<lparr>pm_factorization = \<lparr>uf_matrix = demo_1x1 v, uf_symbolic = 7, uf_numeric = 8, uf_control = [],
        uf_stats = \<lparr>symbolic_status = 0, numeric_status = 0, symbolic_info = replicate 90 (Fin (- 1)),
                    numeric_info = replicate 90 (Fin (- 1))\<rparr>\<rparr>,
      pm_b = demo_1x1 (Fin 1), pm_c = demo_1x1 (Fin 1),
      pm_validation = \<lparr>vr_status = StatusOk,
        vr_stats = \<lparr>ms_nrows = 1, ms_ncols = 1, ms_nnz = 1, sparsity = Fin 0, empty_columns = 0,
                    empty_rows = 0, near_zero_diagonal = 0\<rparr>, vr_messages = []\<rparr>\<rparr>"

text \<open>Two models of 60 bytes each in a cache of 100 bytes.\<close>

definition demo_cache1 :: cache_inner where
  "demo_cache1 = snd (set_ready id 1 (demo_key ''a'') (demo_prepared (Fin 1)) (with_capacity 100))"

definition demo_cache2 :: cache_inner where
  "demo_cache2 = snd (set_ready id 2 (demo_key ''b'') (demo_prepared (Fin 2)) demo_cache1)"

lemma demo_prepared_bytes: "pm_estimated_owned_bytes id (demo_prepared v) = 60"
  by (simp add: pm_estimated_owned_bytes_def uf_estimated_owned_bytes_def csc_estimated_owned_bytes_def
      demo_prepared_def demo_1x1_def info_units_to_bytes_def umfpack_consts f64_ops Let_def
      saturating_add_def saturating_mul_def u64_max_def)

lemma demo_reachable: "cache_reachable id 100 demo_cache1" "cache_reachable id 100 demo_cache2"
  unfolding demo_cache2_def demo_cache1_def by (intro cache_reachable.intros)+

theorem cache_within_capacity_witness: "resident_bytes demo_cache2 \<le> 100"
  using cache_within_capacity [OF demo_reachable(2)] by (simp add: u64_max_def)

text \<open>
  Eviction is least-recently-used and minimal. When storing a model succeeds, every entry that
  disappeared was ready, was last used before (or, at equal stamps, has a smaller id than) every
  ready entry that stayed, and among the victims there is one, used no earlier, whose bytes would
  not have fitted beside the result.
\<close>

theorem set_ready_evicts_lru:
  assumes "cache_reachable cap n c" "n < u64_max" "set_ready cap now k p c = (Inr b, c')"
    "(j, e) \<in> set (entries c)" "j \<noteq> k" "(j, e) \<notin> set (entries c')"
  shows "cm_state (ce_meta e) = Ready \<and>
    (\<forall>(i, d) \<in> set (entries c'). i \<noteq> k \<and> cm_state (ce_meta d) = Ready \<and> 0 < entry_bytes d \<longrightarrow> lru_le (j, e) (i, d)) \<and>
    (\<exists>(i, d) \<in> set (entries c) - set (entries c'). i \<noteq> k \<and> lru_le (j, e) (i, d) \<and>
       n < resident_bytes c' + entry_bytes d)"
proof -
  have inv: "cache_inv cap c" and cap: "capacity_bytes c = n" using cache_reachable_inv [OF assms(1,2)] by blast+
  note inv' = cache_inv_remove_entry [OF inv, of k]
  have b: "b = pm_estimated_owned_bytes cap p" "b \<le> capacity_bytes (remove_entry k c)"
    using set_ready_ok(1,2) [OF inv assms(3)] by simp_all
  let ?d = "evict_until_fits b (remove_entry k c)"
  note room = evict_room [OF inv' b(2)]
  have fresh: "k \<notin> fst ` set (entries ?d)" using room(5) fresh_after_remove [of k c] by blast
  obtain ne where c': "entries c' = entries ?d @ [(k, ne)]"
    "resident_bytes c' = saturating_add (resident_bytes ?d) b"
    using assms(3) b fresh by (auto simp: set_ready_def Let_def update_fresh split: if_splits)
  have bytes: "resident_bytes c' = resident_bytes ?d + b"
    using c'(2) room(2) cap assms(2) by (simp add: saturating_add_def)
  have old: "(j, e) \<in> set (entries (remove_entry k c))" "(j, e) \<notin> set (entries ?d)"
    using assms(4-6) c'(1) by (auto simp: set_delete)
  have ev: "lru_evidence b (remove_entry k c) ?d (j, e)" by (rule evict_until_fits_lru [OF inv' old])
  have "entry_ok cap (access_clock c) e" using inv assms(4) by (auto simp: cache_inv_def list_all_iff)
  then have "cm_state (ce_meta e) = Ready" using ev
    by (auto simp: lru_evidence_def entry_ok_def split: option.splits)
  moreover have "lru_le (j, e) (i, d)" if "(i, d) \<in> set (entries c')" "i \<noteq> k" "0 < entry_bytes d" for i d
    using ev that c'(1) by (auto simp: lru_evidence_def)
  moreover obtain i d where "(i, d) \<in> set (entries (remove_entry k c))" "(i, d) \<notin> set (entries ?d)" "lru_le (j, e) (i, d)"
    "n < resident_bytes c' + entry_bytes d"
    using ev cap bytes by (auto simp: lru_evidence_def)
  ultimately show ?thesis using c'(1) by (fastforce simp: set_delete)
qed

theorem set_ready_evicts_lru_witness:
  "\<exists>e c'. set_ready id 2 (demo_key ''b'') (demo_prepared (Fin 2)) demo_cache1 = (Inr 60, c') \<and>
     (demo_key ''a'', e) \<in> set (entries demo_cache1) \<and> (demo_key ''a'', e) \<notin> set (entries c') \<and>
     cm_state (ce_meta e) = Ready"
proof -
  let ?e = "\<lparr>ce_prepared = Some (demo_prepared (Fin 1)), ce_meta = \<lparr>cm_state = Ready, cm_updated_at = 1,
      cm_error_message = None, cm_estimated_bytes = 60, cm_last_access = 1\<rparr>\<rparr>"
  have c1: "entries demo_cache1 = [(demo_key ''a'', ?e)]" "resident_bytes demo_cache1 = 60" "capacity_bytes demo_cache1 = 100"
    by (simp_all add: demo_cache1_def set_ready_def Let_def demo_prepared_bytes with_capacity_def remove_entry_def
        evict_until_fits.simps saturating_add_def u64_max_def next_access_def)
  have ab: "demo_key ''b'' \<noteq> demo_key ''a''" by (simp add: demo_key_def)
  have ev: "evict_until_fits 60 demo_cache1 = evict (demo_key ''a'') demo_cache1"
    using c1 by (subst evict_until_fits.simps, subst evict_until_fits.simps)
      (simp add: eviction_key_def eviction_candidates_def saturating_add_def u64_max_def evict_def remove_entry_def
        saturating_sub_def Let_def)
  obtain c' where c': "set_ready id 2 (demo_key ''b'') (demo_prepared (Fin 2)) demo_cache1 = (Inr 60, c')"
    "(demo_key ''a'', ?e) \<notin> set (entries c')"
    using c1 ab ev by (simp add: set_ready_def Let_def demo_prepared_bytes remove_entry_def)
  with set_ready_evicts_lru [OF demo_reachable(1) _ c'(1), of "demo_key ''a''" ?e] c1 ab show ?thesis
    by (auto simp: u64_max_def)
qed

text \<open>
  C11. The cache refines a map from keys to slots: marking a key as building or failed and a lookup
  act on that map as one update or none; storing a model either is refused, exactly when its byte
  estimate exceeds the capacity, and marks the key failed, or makes the key ready and at most drops
  ready slots of other keys; a lookup returns the model of a ready slot.
\<close>

theorem cache_refines_slot_map:
  assumes "cache_reachable cap n c" "n < u64_max"
  shows "cache_view (set_building now k c) = (cache_view c)(k \<mapsto> (Building, None, None)) \<and>
    cache_view (set_failed now k msg c) = (cache_view c)(k \<mapsto> (Failed, None, Some msg)) \<and>
    cache_view (snd (get_ready now k c)) = cache_view c \<and>
    fst (get_ready now k c) = (case cache_view c k of Some (Ready, p, _) \<Rightarrow> p | _ \<Rightarrow> None) \<and>
    (case set_ready cap now k p c of
       (Inl err, c') \<Rightarrow> n < pm_estimated_owned_bytes cap p \<and>
         (\<exists>msg. cache_view c' = (cache_view c)(k \<mapsto> (Failed, None, Some msg)))
     | (Inr b, c') \<Rightarrow> b = pm_estimated_owned_bytes cap p \<and> b \<le> n \<and>
         cache_view c' k = Some (Ready, Some p, None) \<and>
         (\<forall>j. j \<noteq> k \<longrightarrow> cache_view c' j = cache_view c j \<or>
            cache_view c' j = None \<and> (\<exists>q. cache_view c j = Some (Ready, Some q, None))))"
proof -
  have inv: "cache_inv cap c" and cap: "capacity_bytes c = n" using cache_reachable_inv [OF assms] by blast+
  have "case set_ready cap now k p c of
       (Inl err, c') \<Rightarrow> n < pm_estimated_owned_bytes cap p \<and>
         (\<exists>msg. cache_view c' = (cache_view c)(k \<mapsto> (Failed, None, Some msg)))
     | (Inr b, c') \<Rightarrow> b = pm_estimated_owned_bytes cap p \<and> b \<le> n \<and>
         cache_view c' k = Some (Ready, Some p, None) \<and>
         (\<forall>j. j \<noteq> k \<longrightarrow> cache_view c' j = cache_view c j \<or>
            cache_view c' j = None \<and> (\<exists>q. cache_view c j = Some (Ready, Some q, None)))"
    using set_ready_err [of cap now k p c] set_ready_ok [OF inv, of now k p] cap
    by (auto split: prod.split sum.split)
  then show ?thesis
    by (simp add: cache_view_set_building cache_view_set_failed cache_view_get_ready get_ready_result slot_ready_def)
qed

theorem cache_refines_slot_map_witness:
  "cache_view (set_building 5 (demo_key ''x'') demo_cache2) (demo_key ''x'') = Some (Building, None, None)"
  using cache_refines_slot_map [OF demo_reachable(2), where now = 5 and k = "demo_key ''x''"]
  by (simp add: u64_max_def)

lemma factorization_id_inj:
  assumes "length (fk_model_version k) = length (fk_model_version j)" "factorization_id k = factorization_id j"
  shows "k = j"
proof -
  have "fk_backend k = fk_backend j" by (cases "fk_backend k"; cases "fk_backend j") simp
  with assms show ?thesis by (simp add: factorization_id_def factorization_key.equality)
qed

lemma min_by_unique:
  assumes "antisymp_on (set xs) le" "totalp le" "reflp le" "transp le" "set ys = set xs"
  shows "min_by le ys = min_by le xs"
proof (cases "min_by le xs")
  case None
  with assms(5) show ?thesis by simp
next
  case (Some x)
  then have "ys \<noteq> []" using assms(5) by (cases xs) auto
  then obtain y where y: "min_by le ys = Some y" by (cases ys) auto
  note mx = min_by_SomeD [OF Some assms(2-4)] and my = min_by_SomeD [OF y assms(2-4)]
  have "x = y" using mx(1) my(1) mx(2) [of y] my(2) [of x] assms(1,5) by (auto dest: antisymp_onD)
  with Some y show ?thesis by simp
qed

text \<open>
  Eviction does not depend on the hash map's iteration order: when the model versions in the
  keys have the fixed length of a UUID text, every order of the entries selects the same victim.
\<close>

theorem eviction_key_order_independent:
  assumes "alist_wf (entries c)" "mset (entries c') = mset (entries c)"
    "\<forall>(k, e) \<in> set (entries c). length (fk_model_version k) = 36"
  shows "eviction_key c' = eviction_key c"
proof -
  have "set (eviction_candidates c') = set (eviction_candidates c)"
    using mset_eq_setD [OF assms(2)] by (auto simp: eviction_candidates_def)
  moreover have "antisymp_on (set (eviction_candidates c)) lru_le"
  proof (rule antisymp_onI)
    fix x y assume xy: "x \<in> set (eviction_candidates c)" "y \<in> set (eviction_candidates c)" "lru_le x y" "lru_le y x"
    then have "factorization_id (fst x) = factorization_id (fst y)" by (auto simp: lru_le_def Let_def)
    then have "fst x = fst y"
      using xy(1,2) assms(3) by (intro factorization_id_inj) (auto simp: eviction_candidates_def case_prod_unfold)
    then show "x = y"
      using xy(1,2) eq_key_imp_eq_value [of "entries c" "fst x" "snd x" "snd y"] assms(1)
      by (cases x; cases y) (simp add: eviction_candidates_def alist_wf_def)
  qed
  ultimately have "min_by lru_le (eviction_candidates c') = min_by lru_le (eviction_candidates c)"
    by (intro min_by_unique lru_le_preorder)
  then show ?thesis by (simp add: eviction_key_def)
qed

theorem eviction_key_order_independent_witness:
  "let e = \<lparr>ce_prepared = None, ce_meta = \<lparr>cm_state = Ready, cm_updated_at = 1, cm_error_message = None,
             cm_estimated_bytes = 5, cm_last_access = 3\<rparr>\<rparr>;
       a = (demo_key (replicate 36 CHR ''a''), e); b = (demo_key (replicate 36 CHR ''b''), e)
   in eviction_key ((with_capacity 9)\<lparr>entries := [a, b]\<rparr>) = eviction_key ((with_capacity 9)\<lparr>entries := [b, a]\<rparr>)"
  unfolding Let_def
  by (rule eviction_key_order_independent) (simp_all add: demo_key_def)

text \<open>
  Invalidating a model returns the number of its keys, leaves each of them stale and unserved,
  leaves every other key as it was, and releases all bytes held for the model.
\<close>

lemma filter_put:
  "\<not> P k \<Longrightarrow> filter (\<lambda>(k, e). P k) (AList.update k e (AList.delete k es)) = filter (\<lambda>(k, e). P k) es"
proof -
  assume p: "\<not> P k"
  then have "filter (\<lambda>(k, e). P k) (AList.delete k es) = filter (\<lambda>(k, e). P k) es" by (induction es) auto
  moreover have "k \<notin> fst ` set (AList.delete k es)" by simp
  ultimately show ?thesis using p by (simp add: update_fresh)
qed

lemma invalidate_keeps_others:
  assumes "\<forall>k \<in> set keys. fk_model_version k = v"
  shows "filter (\<lambda>(k, e). fk_model_version k \<noteq> v)
      (entries (foldl (\<lambda>c key. insert_unprepared now Stale None key (remove_entry key c)) c keys)) =
    filter (\<lambda>(k, e). fk_model_version k \<noteq> v) (entries c)"
  using assms
  by (induction keys arbitrary: c) (simp_all add: insert_unprepared_def Let_def filter_put [of "\<lambda>k. fk_model_version k \<noteq> v"])

lemma alist_sum_filter:
  "\<forall>(k, e) \<in> set es. \<not> P k \<longrightarrow> f e = 0 \<Longrightarrow> alist_sum f (filter (\<lambda>(k, e). P k) es) = alist_sum f es"
  by (induction es) auto

theorem invalidate_model_releases:
  assumes "cache_reachable cap n c" "n < u64_max" "invalidate_model now v c = (released, c')"
  shows "released = card {k \<in> dom (cache_view c). fk_model_version k = v} \<and>
    (\<forall>k. cache_view c' k = (if fk_model_version k = v \<and> k \<in> dom (cache_view c)
       then Some (Stale, None, None) else cache_view c k)) \<and>
    (\<forall>k t. fk_model_version k = v \<longrightarrow> fst (get_ready t k c') = None) \<and>
    resident_bytes c' = alist_sum entry_bytes (filter (\<lambda>(k, e). fk_model_version k \<noteq> v) (entries c))"
proof -
  have inv: "cache_inv cap c" using cache_reachable_inv [OF assms(1,2)] by blast
  have c': "c' = snd (invalidate_model now v c)" "released = length (model_keys v c)"
    using assms(3) by (auto simp: invalidate_model_def Let_def)
  have inv': "cache_inv cap c'" using cache_inv_invalidate [OF inv] c'(1) by simp
  have view: "cache_view c' = (\<lambda>k. if fk_model_version k = v \<and> cache_view c k \<noteq> None
      then Some (Stale, None, None) else cache_view c k)"
    unfolding c'(1) by (rule cache_view_invalidate_model)
  have keys: "set (model_keys v c) = {k \<in> dom (cache_view c). fk_model_version k = v}"
    using model_keys_iff by blast
  have "distinct (model_keys v c)" using inv by (simp add: model_keys_def cache_inv_def alist_wf_def)
  then have released: "released = card {k \<in> dom (cache_view c). fk_model_version k = v}"
    using distinct_card [of "model_keys v c"] keys c'(2) by simp
  have stale: "\<not> cm_state (ce_meta e) = Ready" if "(k, e) \<in> set (entries c')" "fk_model_version k = v" for k e
  proof -
    have "map_of (entries c') k = Some e" using that(1) inv' by (simp add: alist_get_iff cache_inv_def)
    then show ?thesis using view that(2) by (auto simp: cache_view_def slot_of_def fun_eq_iff split: if_splits dest!: spec [of _ k])
  qed
  have "entry_bytes e = 0" if "(k, e) \<in> set (entries c')" "fk_model_version k = v" for k e
    using stale [OF that] inv' that(1) by (auto simp: cache_inv_def list_all_iff entry_ok_def split: option.splits)
  then have "alist_sum entry_bytes (filter (\<lambda>(k, e). fk_model_version k \<noteq> v) (entries c')) = alist_sum entry_bytes (entries c')"
    by (intro alist_sum_filter) auto
  moreover have "filter (\<lambda>(k, e). fk_model_version k \<noteq> v) (entries c') = filter (\<lambda>(k, e). fk_model_version k \<noteq> v) (entries c)"
    using invalidate_keeps_others [of "model_keys v c" v now c] c'(1)
    by (simp add: invalidate_model_def Let_def model_keys_iff)
  ultimately have bytes: "resident_bytes c' = alist_sum entry_bytes (filter (\<lambda>(k, e). fk_model_version k \<noteq> v) (entries c))"
    using inv' by (simp add: cache_inv_def)
  have "fst (get_ready t k c') = None" if "fk_model_version k = v" for k t
    using that unfolding get_ready_result view by (cases "cache_view c k = None") (simp_all add: slot_ready_def)
  with released view bytes show ?thesis by (auto simp: dom_def)
qed

theorem invalidate_model_releases_witness:
  "fst (get_ready 9 (demo_key ''b'') (snd (invalidate_model 8 ''b'' demo_cache2))) = None"
proof -
  obtain released c' where c': "invalidate_model 8 ''b'' demo_cache2 = (released, c')" by fastforce
  with invalidate_model_releases [OF demo_reachable(2) _ c'] show ?thesis
    by (simp add: u64_max_def demo_key_def)
qed

end
