(* ===== verification/Solver_Service.thy ===== *)
theory Solver_Service
  imports Data_Builder Factorization_Cache
begin

text \<open>
  The solver service of \<open>crates/solver-core/src/service.rs\<close>: prepare builds, validates, admits,
  factorizes and caches a model; solve answers right-hand sides from the cached factorization;
  invalidate marks a model stale. The UMFPACK library, the BLAKE3 hash and the allocator's vector
  capacities are parameters, the clock readings arguments.
\<close>

section \<open>Data\<close>

record numeric_options =
  no_print_level :: f64

definition numeric_options_default :: numeric_options where
  "numeric_options_default = \<lparr>no_print_level = Fin 0\<rparr>"

record solve_options =
  return_x :: bool
  return_g :: bool
  return_h :: bool

definition solve_options_default :: solve_options where
  "solve_options_default = \<lparr>return_x = True, return_g = True, return_h = True\<rparr>"

record factorization_diagnostics =
  fd_validation :: validation_report
  fd_backend :: solver_backend
  fd_m_nnz :: usize
  fd_b_nnz :: usize
  fd_c_nnz :: usize
  cache_entry_estimated_bytes :: usize
  factorization_reported_peak_bytes :: "usize option"
  fd_cache :: cache_telemetry

record prepare_result =
  pr_factorization_id :: string
  pr_status :: factorization_state
  pr_diagnostics :: factorization_diagnostics

record solve_result =
  sr_x :: "f64 list option"
  sr_g :: "f64 list option"
  sr_h :: "f64 list option"
  sr_factorization_state :: factorization_state

record solve_computation_timing =
  solve_mx_sec :: f64
  bx_sec :: f64
  cg_sec :: f64
  comparable_compute_sec :: f64

record timed_solve_result =
  ts_result :: solve_result
  ts_timing :: solve_computation_timing

text \<open>\<open>IndexPanic\<close> stands for the panic of a slice index out of range in a called routine.\<close>

datatype solver_error =
    SolverDataBuilder data_builder_error
  | SolverFactorization umfpack_error
  | NotPrepared uuid
  | ValidationFailed validation_report
  | RhsDimensionMismatch usize usize
  | WorkloadAdmissionRejected usize usize f64
  | CacheAdmission admission_error
  | IndexPanic

record solver_service =
  sv_cache :: cache_inner
  sv_builder :: "f64 data_builder"
  admission_fill_in_multiplier :: f64

definition service_new :: solver_service where
  "service_new = \<lparr>sv_cache = cache_new, sv_builder = data_builder_default, admission_fill_in_multiplier = Fin 8\<rparr>"

definition with_cache_policy :: "usize \<Rightarrow> f64 \<Rightarrow> solver_service" where
  "with_cache_policy capacity multiplier =
     \<lparr>sv_cache = with_capacity capacity, sv_builder = data_builder_default,
      admission_fill_in_multiplier = f64_max multiplier (Fin 1)\<rparr>"

section \<open>Error texts stored in the cache\<close>

fun matrix_error_text :: "matrix_error \<Rightarrow> string" where
  "matrix_error_text (InvalidDimensions nr nc) =
     ''invalid matrix dimensions ('' @ show_int nr @ '', '' @ show_int nc @ '')''"
| "matrix_error_text (InvalidColPtrLength got expected) =
     ''col_ptr length '' @ show_nat got @ '' does not match ncols+1 ('' @ show_nat expected @ '')''"
| "matrix_error_text InvalidColPtrStart = ''col_ptr must start at 0''"
| "matrix_error_text NonMonotonicColPtr = ''col_ptr must be non-decreasing''"
| "matrix_error_text (InvalidNnz l n) =
     ''final col_ptr value '' @ show_int l @ '' does not match nnz '' @ show_nat n"
| "matrix_error_text (RowOutOfRange row nr) =
     ''row index '' @ show_int row @ '' out of range [0, '' @ show_int nr @ '')''"
| "matrix_error_text (ColOutOfRange col nc) =
     ''column index '' @ show_int col @ '' out of range [0, '' @ show_int nc @ '')''"
| "matrix_error_text NonSortedOrDuplicateRows = ''row indices within each column must be strictly increasing''"
| "matrix_error_text IndexOverflow = ''matrix conversion overflow''"
| "matrix_error_text SliceIndexPanic = ''''"

fun umfpack_error_text :: "umfpack_error \<Rightarrow> string" where
  "umfpack_error_text (UmfMatrix e) = ''invalid matrix: '' @ matrix_error_text e"
| "umfpack_error_text (UmfRhsDimensionMismatch rhs_len n) =
     ''RHS length '' @ show_nat rhs_len @ '' does not match matrix columns '' @ show_nat n"
| "umfpack_error_text SingularMatrix = ''matrix is singular''"
| "umfpack_error_text (SymbolicStatus st) = ''umfpack symbolic factorization returned status '' @ show_int st"
| "umfpack_error_text (NumericStatus st) = ''umfpack numeric factorization returned status '' @ show_int st"
| "umfpack_error_text (SolveStatus st) = ''umfpack solve returned status '' @ show_int st"
| "umfpack_error_text NullHandle = ''umfpack returned null pointer''"

section \<open>Prepare\<close>

definition service_factorization_key :: "(nat list \<Rightarrow> string) \<Rightarrow> uuid \<Rightarrow> numeric_options \<Rightarrow> factorization_key" where
  "service_factorization_key blake3_hex version options =
     key_new blake3_hex version Umfpack (f64_to_le_bytes (no_print_level options))"

text \<open>The admission estimate: the three matrices plus the scaled size of \<open>M\<close>.\<close>

definition workload_estimated_bytes :: "(usize \<Rightarrow> usize) \<Rightarrow> f64 \<Rightarrow> f64 built_matrices \<Rightarrow> usize" where
  "workload_estimated_bytes cap multiplier ms =
     (let matrix_bytes = saturating_add
            (saturating_add (csc_estimated_owned_bytes cap (bm_m ms)) (csc_estimated_owned_bytes cap (bm_b ms)))
            (csc_estimated_owned_bytes cap (bm_c ms));
          m_owned_bytes_f64 = f64_round (of_nat (csc_estimated_owned_bytes cap (bm_m ms)));
          scaled = f64_ceil (m_owned_bytes_f64 * multiplier);
          working_estimate = unwrap_or u64_max (f64_to_usize scaled)
      in saturating_add matrix_bytes working_estimate)"

text \<open>
  \<open>prepare\<close>. The clock is read at \<open>set_building\<close> (\<open>now 0\<close>) and at the operation that ends the
  attempt (\<open>now 1\<close>).
\<close>

definition prepare ::
  "umfpack_lib \<Rightarrow> (nat list \<Rightarrow> string) \<Rightarrow> (usize \<Rightarrow> usize) \<Rightarrow> (nat \<Rightarrow> system_time) \<Rightarrow> f64 model_sparse_data
   \<Rightarrow> numeric_options \<Rightarrow> solver_service \<Rightarrow> (solver_error + prepare_result) \<times> solver_service" where
  "prepare lib blake3_hex cap now data options self =
     (let key = service_factorization_key blake3_hex (model_version data) options;
          self = self\<lparr>sv_cache := set_building (now 0) key (sv_cache self)\<rparr>;
          fail = (\<lambda>msg err. (Inl err, self\<lparr>sv_cache := set_failed (now 1) key msg (sv_cache self)\<rparr>))
      in case build (sv_builder self) data of
           Inl e \<Rightarrow> (Inl (SolverDataBuilder e), self)
         | Inr matrices \<Rightarrow>
         (case validate_factorization_matrix (bm_m matrices) (f64_lit (1 / 10 ^ 12)) of
            Inl _ \<Rightarrow> (Inl IndexPanic, self)
          | Inr validation \<Rightarrow>
            if vr_status validation = FailedInvalidStructure
            then fail ''matrix structural validation failed'' (ValidationFailed validation)
            else
              let estimated = workload_estimated_bytes cap (admission_fill_in_multiplier self) matrices;
                  capacity = ct_capacity_bytes (telemetry (sv_cache self))
              in if estimated > capacity
                 then fail (''workload admission rejected: estimated_bytes='' @ show_nat estimated @
                            '' capacity_bytes='' @ show_nat capacity)
                        (WorkloadAdmissionRejected estimated capacity (admission_fill_in_multiplier self))
                 else (case fst (factorize lib (bm_m matrices) \<lparr>uo_print_level = no_print_level options\<rparr>) of
                         Inl e \<Rightarrow> fail (''factorization failed: '' @ umfpack_error_text e) (SolverFactorization e)
                       | Inr factorization \<Rightarrow>
                         (case set_ready cap (now 1) key
                                 \<lparr>pm_factorization = factorization, pm_b = bm_b matrices, pm_c = bm_c matrices,
                                  pm_validation = validation\<rparr> (sv_cache self) of
                            (Inl e, c) \<Rightarrow> (Inl (CacheAdmission e), self\<lparr>sv_cache := c\<rparr>)
                          | (Inr bytes, c) \<Rightarrow>
                              (Inr \<lparr>pr_factorization_id = factorization_id key, pr_status = Ready,
                                    pr_diagnostics =
                                      \<lparr>fd_validation = validation, fd_backend = Umfpack,
                                       fd_m_nnz = m_nnz matrices, fd_b_nnz = b_nnz matrices, fd_c_nnz = c_nnz matrices,
                                       cache_entry_estimated_bytes = bytes,
                                       factorization_reported_peak_bytes = reported_peak_bytes factorization,
                                       fd_cache = telemetry c\<rparr>\<rparr>,
                               self\<lparr>sv_cache := c\<rparr>)))))"

definition factorization_status ::
  "(nat list \<Rightarrow> string) \<Rightarrow> uuid \<Rightarrow> numeric_options \<Rightarrow> solver_service \<Rightarrow> factorization_state option" where
  "factorization_status blake3_hex version options self =
     cache_state (service_factorization_key blake3_hex version options) (sv_cache self)"

section \<open>Solve\<close>

text \<open>
  The computation of one solve on a prepared model. \<open>elapsed\<close> gives the durations measured around
  the back-substitution and the two products; a stage that is not run contributes 0.
\<close>

definition solve_prepared ::
  "umfpack_lib \<Rightarrow> f64 \<times> f64 \<times> f64 \<Rightarrow> prepared_model \<Rightarrow> f64 list \<Rightarrow> solve_options
   \<Rightarrow> solver_error + timed_solve_result" where
  "solve_prepared lib elapsed prepared rhs so =
     (let process_count = unwrap_or 0 (usize_try_from (ncols (uf_matrix (pm_factorization prepared))));
          (mx, bx, cg) = elapsed
      in if length rhs \<noteq> process_count then Inl (RhsDimensionMismatch (length rhs) process_count)
         else
         res_bind (map_err SolverFactorization (uf_solve lib (pm_factorization prepared) rhs)) (\<lambda>x.
         res_bind (if return_g so \<or> return_h so
                   then map_err (\<lambda>_. IndexPanic)
                          (res_bind (mul_vector (pm_b prepared) x) (\<lambda>g. Inr (Some g)))
                   else Inr None) (\<lambda>g.
         let bx_s = (if return_g so \<or> return_h so then bx else Fin 0) in
         res_bind (if return_h so
                   then (case g of
                           None \<Rightarrow> Inr None
                         | Some g_vec \<Rightarrow> map_err (\<lambda>_. IndexPanic)
                             (res_bind (mul_vector (pm_c prepared) g_vec) (\<lambda>h. Inr (Some h))))
                   else Inr None) (\<lambda>h.
         let cg_s = (if return_h so then cg else Fin 0) in
         Inr \<lparr>ts_result = \<lparr>sr_x = (if return_x so then Some x else None),
                           sr_g = (if return_g so then g else None), sr_h = h,
                           sr_factorization_state = Ready\<rparr>,
              ts_timing = \<lparr>solve_mx_sec = mx, bx_sec = bx_s, cg_sec = cg_s,
                           comparable_compute_sec = mx + bx_s + cg_s\<rparr>\<rparr>))))"

definition solve_one_timed ::
  "umfpack_lib \<Rightarrow> (nat list \<Rightarrow> string) \<Rightarrow> system_time \<Rightarrow> f64 \<times> f64 \<times> f64 \<Rightarrow> uuid \<Rightarrow> numeric_options
   \<Rightarrow> f64 list \<Rightarrow> solve_options \<Rightarrow> solver_service \<Rightarrow> (solver_error + timed_solve_result) \<times> solver_service" where
  "solve_one_timed lib blake3_hex now elapsed version options rhs so self =
     (let key = service_factorization_key blake3_hex version options
      in case get_ready now key (sv_cache self) of
           (prepared, c) \<Rightarrow>
             (res_bind (ok_or (NotPrepared version) prepared) (\<lambda>p. solve_prepared lib elapsed p rhs so),
              self\<lparr>sv_cache := c\<rparr>))"

text \<open>\<open>solve_one\<close> discards the timing, so the durations it measured do not matter.\<close>

definition solve_one ::
  "umfpack_lib \<Rightarrow> (nat list \<Rightarrow> string) \<Rightarrow> system_time \<Rightarrow> uuid \<Rightarrow> numeric_options
   \<Rightarrow> f64 list \<Rightarrow> solve_options \<Rightarrow> solver_service \<Rightarrow> (solver_error + solve_result) \<times> solver_service" where
  "solve_one lib blake3_hex now version options rhs so self =
     (case solve_one_timed lib blake3_hex now (Fin 0, Fin 0, Fin 0) version options rhs so self of
        (r, self') \<Rightarrow> (res_bind r (\<lambda>t. Inr (ts_result t)), self'))"

fun solve_batch_loop ::
  "umfpack_lib \<Rightarrow> (nat list \<Rightarrow> string) \<Rightarrow> system_time \<Rightarrow> uuid \<Rightarrow> numeric_options \<Rightarrow> solve_options
   \<Rightarrow> solve_result list \<Rightarrow> f64 list list \<Rightarrow> solver_service \<Rightarrow> (solver_error + solve_result list) \<times> solver_service" where
  "solve_batch_loop lib blake3_hex now version options so items [] self = (Inr items, self)"
| "solve_batch_loop lib blake3_hex now version options so items (rhs # rest) self =
     (case solve_one lib blake3_hex now version options rhs so self of
        (Inl e, self') \<Rightarrow> (Inl e, self')
      | (Inr item, self') \<Rightarrow>
          solve_batch_loop lib blake3_hex now version options so (items @ [item]) rest self')"

definition solve_batch ::
  "umfpack_lib \<Rightarrow> (nat list \<Rightarrow> string) \<Rightarrow> system_time \<Rightarrow> uuid \<Rightarrow> numeric_options
   \<Rightarrow> f64 list list \<Rightarrow> solve_options \<Rightarrow> solver_service \<Rightarrow> (solver_error + solve_result list) \<times> solver_service" where
  "solve_batch lib blake3_hex now version options rhs_batch so self =
     solve_batch_loop lib blake3_hex now version options so [] rhs_batch self"

definition service_invalidate :: "system_time \<Rightarrow> uuid \<Rightarrow> solver_service \<Rightarrow> usize \<times> solver_service" where
  "service_invalidate now version self =
     (case invalidate_model now version (sv_cache self) of (n, c) \<Rightarrow> (n, self\<lparr>sv_cache := c\<rparr>))"

section \<open>Reachable services\<close>

inductive service_reachable ::
  "umfpack_lib \<Rightarrow> (nat list \<Rightarrow> string) \<Rightarrow> (usize \<Rightarrow> usize) \<Rightarrow> usize \<Rightarrow> solver_service \<Rightarrow> bool"
  for lib hash cap n where
  start: "service_reachable lib hash cap n (with_cache_policy n multiplier)"
| prepared: "service_reachable lib hash cap n s \<Longrightarrow>
    service_reachable lib hash cap n (snd (prepare lib hash cap now data options s))"
| solved: "service_reachable lib hash cap n s \<Longrightarrow>
    service_reachable lib hash cap n (snd (solve_one_timed lib hash t elapsed v options rhs so s))"
| invalidated: "service_reachable lib hash cap n s \<Longrightarrow>
    service_reachable lib hash cap n (snd (service_invalidate t v s))"

abbreviation service_key :: "(nat list \<Rightarrow> string) \<Rightarrow> f64 model_sparse_data \<Rightarrow> numeric_options \<Rightarrow> factorization_key" where
  "service_key hash data options \<equiv> service_factorization_key hash (model_version data) options"

abbreviation building_cache ::
  "(nat list \<Rightarrow> string) \<Rightarrow> (nat \<Rightarrow> system_time) \<Rightarrow> f64 model_sparse_data \<Rightarrow> numeric_options \<Rightarrow> solver_service \<Rightarrow> cache_inner" where
  "building_cache hash now data options s \<equiv> set_building (now 0) (service_key hash data options) (sv_cache s)"

abbreviation prepared_of :: "umfpack_factorization \<Rightarrow> f64 built_matrices \<Rightarrow> validation_report \<Rightarrow> prepared_model" where
  "prepared_of f ms vr \<equiv> \<lparr>pm_factorization = f, pm_b = bm_b ms, pm_c = bm_c ms, pm_validation = vr\<rparr>"

lemma prepare_okD:
  assumes "prepare lib hash cap now data options s = (Inr r, s')"
  obtains ms vr f n where "build (sv_builder s) data = Inr ms"
    "validate_factorization_matrix (bm_m ms) (f64_lit (1 / 10 ^ 12)) = Inr vr" "vr_status vr \<noteq> FailedInvalidStructure"
    "fst (factorize lib (bm_m ms) \<lparr>uo_print_level = no_print_level options\<rparr>) = Inr f"
    "set_ready cap (now 1) (service_key hash data options) (prepared_of f ms vr) (building_cache hash now data options s) =
       (Inr n, sv_cache s')"
    "cache_entry_estimated_bytes (pr_diagnostics r) = n" "pr_status r = Ready"
  using assms
  by (auto simp: prepare_def Let_def split: sum.splits if_splits prod.splits)

lemma validate_factorization_f64:
  assumes "csc_wf m"
  shows "validate_factorization_matrix m eps \<noteq> Inl e"
  using validate_report [OF assms, of eps] by (metis Inl_Inr_False)

lemma prepare_errD:
  assumes "prepare lib hash cap now data options s = (Inl e, s')"
  shows "(\<exists>b. e = SolverDataBuilder b \<and> sv_cache s' = building_cache hash now data options s) \<or>
    (\<exists>msg. sv_cache s' = set_failed (now 1) (service_key hash data options) msg (building_cache hash now data options s) \<and>
       e \<noteq> IndexPanic \<and> (\<forall>b. e \<noteq> SolverDataBuilder b)) \<or>
    (\<exists>p a. e = CacheAdmission a \<and> set_ready cap (now 1) (service_key hash data options) p
       (building_cache hash now data options s) = (Inl a, sv_cache s'))"
proof -
  have "validate_factorization_matrix (bm_m ms) (f64_lit (1 / 10 ^ 12)) \<noteq> Inl p"
    if "build (sv_builder s) data = Inr ms" for ms p
    by (rule validate_factorization_f64 [OF build_okD(1) [OF that]])
  with assms show ?thesis
    by (auto simp: prepare_def Let_def split: sum.splits if_splits prod.splits)
qed

lemma prepare_cache_inv:
  assumes "cache_inv cap (sv_cache s)"
  shows "cache_inv cap (sv_cache (snd (prepare lib hash cap now data options s)))"
proof -
  have b: "cache_inv cap (building_cache hash now data options s)" by (rule fc.inv_building [OF assms])
  obtain r s' where p: "prepare lib hash cap now data options s = (r, s')" by fastforce
  show ?thesis
  proof (cases r)
    case (Inr ok)
    with p obtain ms vr f n where "set_ready cap (now 1) (service_key hash data options) (prepared_of f ms vr)
        (building_cache hash now data options s) = (Inr n, sv_cache s')"
      by (auto elim: prepare_okD)
    with fc.inv_ready [OF b] p show ?thesis by (metis snd_conv)
  next
    case (Inl e)
    with p prepare_errD [of lib hash cap now data options s e s'] b fc.inv_failed [OF b] fc.inv_ready [OF b]
    show ?thesis by (metis snd_conv)
  qed
qed

lemma service_reachable_inv:
  assumes "service_reachable lib hash cap n s" "n < u64_max"
  shows "cache_inv cap (sv_cache s)"
  using assms
proof (induction rule: service_reachable.induct)
  case (start multiplier)
  then show ?case by (simp add: with_cache_policy_def cache_inv_with_capacity)
next
  case (prepared s now data options)
  then show ?case by (simp add: prepare_cache_inv)
next
  case (solved s t elapsed v options rhs so)
  then show ?case
    using fc.inv_get [of cap "sv_cache s" t] by (simp add: solve_one_timed_def Let_def case_prod_unfold)
next
  case (invalidated s t v)
  then show ?case
    using cache_inv_invalidate [of cap "sv_cache s" t v] by (simp add: service_invalidate_def case_prod_unfold)
qed

section \<open>Solving from the cache\<close>

lemma solve_one_view:
  "fst (solve_one lib hash t v options rhs so s) =
     (case slot_ready (cache_view (sv_cache s) (service_factorization_key hash v options)) of
        None \<Rightarrow> Inl (NotPrepared v)
      | Some p \<Rightarrow> res_bind (solve_prepared lib (Fin 0, Fin 0, Fin 0) p rhs so) (\<lambda>r. Inr (ts_result r)))"
  using get_ready_result [of t "service_factorization_key hash v options" "sv_cache s"]
  by (auto simp: solve_one_def solve_one_timed_def Let_def split: prod.split option.split)

lemma solve_one_keeps_view: "cache_view (sv_cache (snd (solve_one lib hash t v options rhs so s))) = cache_view (sv_cache s)"
  using cache_view_get_ready [of t "service_factorization_key hash v options" "sv_cache s"]
  by (simp add: solve_one_def solve_one_timed_def Let_def case_prod_unfold)

lemma solve_batch_view:
  assumes "slot_ready (cache_view (sv_cache s) (service_factorization_key hash v options)) = Some p"
  shows "fst (solve_batch_loop lib hash t v options so items rhss s) =
    res_bind (try_map (\<lambda>rhs. res_bind (solve_prepared lib (Fin 0, Fin 0, Fin 0) p rhs so) (\<lambda>r. Inr (ts_result r))) rhss)
      (\<lambda>rs. Inr (items @ rs))"
  using assms
proof (induction rhss arbitrary: items s)
  case (Cons rhs rhss)
  let ?f = "\<lambda>rhs. res_bind (solve_prepared lib (Fin 0, Fin 0, Fin 0) p rhs so) (\<lambda>r. Inr (ts_result r))"
  obtain r s' where r: "solve_one lib hash t v options rhs so s = (r, s')" by fastforce
  have view: "cache_view (sv_cache s') = cache_view (sv_cache s)"
    using solve_one_keeps_view [of lib hash t v options rhs so s] r by simp
  have res: "?f rhs = r"
    using solve_one_view [of lib hash t v options rhs so s] r Cons.prems by simp
  show ?case
  proof (cases r)
    case (Inl e)
    with r res show ?thesis by simp
  next
    case (Inr item)
    have IH: "fst (solve_batch_loop lib hash t v options so (items @ [item]) rhss s') =
        res_bind (try_map ?f rhss) (\<lambda>rs. Inr ((items @ [item]) @ rs))"
      by (rule Cons.IH) (simp add: view Cons.prems)
    with r res Inr show ?thesis by (cases "try_map ?f rhss") simp_all
  qed
qed simp

text \<open>A product on a matrix of matching width yields one value per row.\<close>

lemma mul_vector_product:
  assumes "csc_wf m" "length x = nat (ncols m)"
  shows "mul_vector m x = Inr (csc_product m x)" "length (csc_product m x) = nat (nrows m)"
proof -
  obtain out where "mul_vector m x = Inr out" "length out = nat (nrows m)"
    using mul_vector_row [OF assms] by metis
  then show "mul_vector m x = Inr (csc_product m x)" "length (csc_product m x) = nat (nrows m)"
    by (simp_all add: csc_product_def)
qed

lemma solve_prepared_ok:
  assumes "csc_wf (pm_b p)" "csc_wf (pm_c p)" "ncols (pm_b p) = ncols (uf_matrix (pm_factorization p))"
    "ncols (pm_c p) = nrows (pm_b p)" "0 < ncols (pm_b p)"
    "uf_solve lib (pm_factorization p) rhs = Inr x" "length x = nat (ncols (pm_b p))" "length rhs = nat (ncols (pm_b p))"
  shows "solve_prepared lib elapsed p rhs so =
    Inr \<lparr>ts_result = \<lparr>sr_x = (if return_x so then Some x else None),
           sr_g = (if return_g so then Some (csc_product (pm_b p) x) else None),
           sr_h = (if return_h so then Some (csc_product (pm_c p) (csc_product (pm_b p) x)) else None),
           sr_factorization_state = Ready\<rparr>,
         ts_timing = (case elapsed of (mx, bx, cg) \<Rightarrow>
           (let b = (if return_g so \<or> return_h so then bx else Fin 0); c = (if return_h so then cg else Fin 0)
            in \<lparr>solve_mx_sec = mx, bx_sec = b, cg_sec = c, comparable_compute_sec = mx + b + c\<rparr>))\<rparr>"
proof -
  note g = mul_vector_product [OF assms(1,7)]
  have h: "mul_vector (pm_c p) (csc_product (pm_b p) x) = Inr (csc_product (pm_c p) (csc_product (pm_b p) x))"
    by (rule mul_vector_product(1) [OF assms(2)]) (simp add: g(2) assms(4))
  show ?thesis
    using assms(3,5,6,8) g(1) h by (cases elapsed) (simp add: solve_prepared_def Let_def)
qed

section \<open>Properties of the service\<close>

lemma factorization_status_view:
  "factorization_status hash v options s =
     map_option fst (cache_view (sv_cache s) (service_factorization_key hash v options))"
  by (simp add: factorization_status_def cache_state_def cache_view_def slot_of_def option.map_comp comp_def)

lemma solve_one_same_view:
  assumes "cache_view (sv_cache s) = cache_view (sv_cache s')"
  shows "fst (solve_one lib hash t v options rhs so s) = fst (solve_one lib hash t' v options rhs so s')"
  by (simp add: solve_one_view assms)

text \<open>What a solve returns after a successful prepare, by the outcome of UMFPACK.\<close>

lemma prepare_solve_cases:
  assumes "service_reachable lib hash cap n s" "n < u64_max" "umfpack_contract lib"
    "prepare lib hash cap now data options s = (Inr r, s')"
  obtains ms f where "build (sv_builder s) data = Inr ms" "uf_matrix f = bm_m ms"
    "fst (factorize lib (bm_m ms) \<lparr>uo_print_level = no_print_level options\<rparr>) = Inr f"
    "factorization_status hash (model_version data) options s' = Some Ready"
    "\<And>rhs x. length rhs = nat (process_count data) \<Longrightarrow> uf_solve lib f rhs = Inr x \<Longrightarrow> length x = nat (process_count data)"
    "\<And>rhs t so. length rhs = nat (process_count data) \<Longrightarrow>
       fst (solve_one lib hash t (model_version data) options rhs so s') =
        (case uf_solve lib f rhs of
           Inl e \<Rightarrow> Inl (SolverFactorization e)
         | Inr x \<Rightarrow> Inr \<lparr>sr_x = (if return_x so then Some x else None),
             sr_g = (if return_g so then Some (csc_product (bm_b ms) x) else None),
             sr_h = (if return_h so then Some (csc_product (bm_c ms) (csc_product (bm_b ms) x)) else None),
             sr_factorization_state = Ready\<rparr>)"
proof -
  have inv: "cache_inv cap (building_cache hash now data options s)"
    by (rule fc.inv_building [OF service_reachable_inv [OF assms(1,2)]])
  obtain ms vr f n where ok: "build (sv_builder s) data = Inr ms"
    "fst (factorize lib (bm_m ms) \<lparr>uo_print_level = no_print_level options\<rparr>) = Inr f"
    "set_ready cap (now 1) (service_key hash data options) (prepared_of f ms vr) (building_cache hash now data options s) =
       (Inr n, sv_cache s')"
    using prepare_okD [OF assms(4)] by metis
  let ?p = "prepared_of f ms vr"
  note bm = build_okD [OF ok(1)]
  note view = fc.view_ready [OF inv ok(3)]
  from ok(2) obtain evs where "factorize lib (bm_m ms) \<lparr>uo_print_level = no_print_level options\<rparr> = (Inr f, evs)"
    by (cases "factorize lib (bm_m ms) \<lparr>uo_print_level = no_print_level options\<rparr>") auto
  then have fm: "uf_matrix f = bm_m ms" by (rule factorize_okD(3))
  have dims: "ncols (bm_m ms) = process_count data" "nrows (bm_b ms) = flow_count data" "ncols (bm_b ms) = process_count data"
    "nrows (bm_c ms) = impact_count data" "ncols (bm_c ms) = flow_count data" "0 < process_count data"
    using bm by (simp_all add: shape_def csc_wf_def)
  have len: "length x = nat (process_count data)"
    if "length rhs = nat (process_count data)" "uf_solve lib f rhs = Inr x" for rhs x
    using that fm dims assms(3) by (auto simp: uf_solve_def split: if_splits prod.splits dest: contract_solve)
  have solve: "fst (solve_one lib hash t (model_version data) options rhs so s') =
      res_bind (solve_prepared lib (Fin 0, Fin 0, Fin 0) ?p rhs so) (\<lambda>r. Inr (ts_result r))" for t rhs so
    using view by (simp add: solve_one_view slot_ready_def)
  have failed: "solve_prepared lib (Fin 0, Fin 0, Fin 0) ?p rhs so = Inl (SolverFactorization e)"
    if "length rhs = nat (process_count data)" "uf_solve lib f rhs = Inl e" for rhs so e
    using that fm dims by (simp add: solve_prepared_def)
  have solved: "res_bind (solve_prepared lib (Fin 0, Fin 0, Fin 0) ?p rhs so) (\<lambda>r. Inr (ts_result r)) =
      Inr \<lparr>sr_x = (if return_x so then Some x else None),
             sr_g = (if return_g so then Some (csc_product (bm_b ms) x) else None),
             sr_h = (if return_h so then Some (csc_product (bm_c ms) (csc_product (bm_b ms) x)) else None),
             sr_factorization_state = Ready\<rparr>"
    if "length rhs = nat (process_count data)" "uf_solve lib f rhs = Inr x" for rhs so x
    using len [OF that] that bm fm dims by (subst solve_prepared_ok [where x = x]) simp_all
  have "factorization_status hash (model_version data) options s' = Some Ready"
    using view by (simp add: factorization_status_view)
  with that [OF ok(1) fm ok(2)] len show thesis
    using solve failed solved by (auto split: sum.split)
qed

text \<open>
  C1. Prepare, then solve. After a successful prepare the model is ready; a right-hand side of the
  model's process count is solved with the factorization, symbolic and numeric objects included, that
  \<open>factorize\<close> returned for \<open>M = I - A\<close> under the given options, and when UMFPACK succeeds
  the answer is \<open>x\<close>, \<open>g = Bx\<close> and \<open>h = Cg\<close> as selected, of the model's dimensions, with no index
  out of range.
\<close>

theorem prepare_then_solve:
  assumes "service_reachable lib hash cap n s" "n < u64_max" "umfpack_contract lib"
    "prepare lib hash cap now data options s = (Inr r, s')" "length rhs = nat (process_count data)"
  shows "factorization_status hash (model_version data) options s' = Some Ready \<and>
    (\<exists>ms f. build (sv_builder s) data = Inr ms \<and> uf_matrix f = bm_m ms \<and>
      fst (factorize lib (bm_m ms) \<lparr>uo_print_level = no_print_level options\<rparr>) = Inr f \<and>
      fst (solve_one lib hash t (model_version data) options rhs so s') =
        (case uf_solve lib f rhs of
           Inl e \<Rightarrow> Inl (SolverFactorization e)
         | Inr x \<Rightarrow> Inr \<lparr>sr_x = (if return_x so then Some x else None),
             sr_g = (if return_g so then Some (csc_product (bm_b ms) x) else None),
             sr_h = (if return_h so then Some (csc_product (bm_c ms) (csc_product (bm_b ms) x)) else None),
             sr_factorization_state = Ready\<rparr>) \<and>
      (\<forall>x. uf_solve lib f rhs = Inr x \<longrightarrow> length x = nat (process_count data) \<and>
         length (csc_product (bm_b ms) x) = nat (flow_count data) \<and>
         length (csc_product (bm_c ms) (csc_product (bm_b ms) x)) = nat (impact_count data)))"
proof -
  obtain ms f where ok: "build (sv_builder s) data = Inr ms" "uf_matrix f = bm_m ms"
    "fst (factorize lib (bm_m ms) \<lparr>uo_print_level = no_print_level options\<rparr>) = Inr f"
    "factorization_status hash (model_version data) options s' = Some Ready"
    and len: "\<And>rhs x. length rhs = nat (process_count data) \<Longrightarrow> uf_solve lib f rhs = Inr x \<Longrightarrow> length x = nat (process_count data)"
    and solve: "\<And>rhs t so. length rhs = nat (process_count data) \<Longrightarrow>
       fst (solve_one lib hash t (model_version data) options rhs so s') =
        (case uf_solve lib f rhs of
           Inl e \<Rightarrow> Inl (SolverFactorization e)
         | Inr x \<Rightarrow> Inr \<lparr>sr_x = (if return_x so then Some x else None),
             sr_g = (if return_g so then Some (csc_product (bm_b ms) x) else None),
             sr_h = (if return_h so then Some (csc_product (bm_c ms) (csc_product (bm_b ms) x)) else None),
             sr_factorization_state = Ready\<rparr>)"
    by (rule prepare_solve_cases [OF assms(1-4)]) blast
  note bm = build_okD [OF ok(1)]
  have dims: "nrows (bm_b ms) = flow_count data" "ncols (bm_b ms) = process_count data"
    "nrows (bm_c ms) = impact_count data" "ncols (bm_c ms) = flow_count data"
    using bm by (simp_all add: shape_def csc_wf_def)
  have "length (csc_product (bm_b ms) x) = nat (flow_count data)"
    "length (csc_product (bm_c ms) (csc_product (bm_b ms) x)) = nat (impact_count data)" if "uf_solve lib f rhs = Inr x" for x
    using mul_vector_product(2) [OF bm(3)] mul_vector_product(2) [OF bm(5)] len [OF assms(5) that] dims by simp_all
  with ok len [OF assms(5)] solve [OF assms(5)] show ?thesis
    by (intro conjI exI [of _ ms] exI [of _ f]) auto
qed

lemma service_new_policy: "service_new = with_cache_policy DEFAULT_CAPACITY_BYTES (Fin 8)"
  by (simp add: service_new_def with_cache_policy_def cache_new_def f64_max_def f64_ops)

lemma service_new_reachable: "service_reachable lib hash cap DEFAULT_CAPACITY_BYTES service_new"
  unfolding service_new_policy by (rule service_reachable.start)

definition demo_hash :: "nat list \<Rightarrow> string" where
  "demo_hash bytes = map char_of bytes"

text \<open>One process whose only flow emits 2 per unit with a characterization factor of 3.\<close>

definition demo_data :: "f64 model_sparse_data" where
  "demo_data = \<lparr>model_version = ''v'', process_count = 1, flow_count = 1, impact_count = 1,
     technosphere_entries = [], biosphere_entries = [\<lparr>s_row = 0, s_col = 0, s_value = Fin 2\<rparr>],
     characterization_factors = [\<lparr>s_row = 0, s_col = 0, s_value = Fin 3\<rparr>]\<rparr>"

definition demo_service :: solver_service where
  "demo_service = with_cache_policy 1000 (Fin 2)"

definition demo_matrices :: "f64 built_matrices" where
  "demo_matrices = \<lparr>bm_m = demo_1x1 (Fin 1), bm_b = demo_1x1 (Fin 2), bm_c = demo_1x1 (Fin 3), m_nnz = 1, b_nnz = 1, c_nnz = 1\<rparr>"

lemma demo_build: "build data_builder_default demo_data = Inr demo_matrices"
  by code_simp

lemma demo_validated:
  "\<exists>vr. validate_factorization_matrix (demo_1x1 (Fin 1)) (f64_lit (1 / 10 ^ 12)) = Inr vr \<and> vr_status vr = StatusOk"
proof -
  have "\<not> \<bar>Fin 1\<bar> \<le> f64_lit (1 / 10 ^ 12)" by code_simp
  then show ?thesis
    by (simp add: validate_factorization_matrix_def demo_1x1_def scan_column_def scan_entry_def Let_def)
qed

lemma demo_workload: "workload_estimated_bytes id (f64_max (Fin 2) (Fin 1)) demo_matrices = 100"
proof -
  have "f64_ceil (f64_round 20 * f64_max (Fin 2) (Fin 1)) = Fin 40" by code_simp
  then show ?thesis
    by (simp add: workload_estimated_bytes_def demo_matrices_def csc_estimated_owned_bytes_def demo_1x1_def Let_def
        saturating_add_def saturating_mul_def u64_max_def round_half_even_def)
qed

lemma demo_factorized: "\<exists>f. fst (factorize demo_lib (demo_1x1 (Fin 1)) o') = Inr f \<and>
    uf_matrix f = demo_1x1 (Fin 1) \<and> uf_stats f = \<lparr>symbolic_status = 0, numeric_status = 0,
      symbolic_info = replicate 90 (Fin (- 1)), numeric_info = replicate 90 (Fin (- 1))\<rparr>"
  using demo_1x1_valid [of "Fin 1"]
  by (simp add: factorize_def factorize_numeric_def demo_lib_def demo_1x1_def umfpack_consts Let_def)

lemma demo_prepare_policy:
  assumes "workload_estimated_bytes id (f64_max multiplier (Fin 1)) demo_matrices \<le> n" "60 \<le> n"
  shows "\<exists>r s'. prepare demo_lib demo_hash id (\<lambda>i. i) demo_data numeric_options_default (with_cache_policy n multiplier) = (Inr r, s')"
proof -
  obtain vr where vr: "validate_factorization_matrix (demo_1x1 (Fin 1)) (f64_lit (1 / 10 ^ 12)) = Inr vr"
    "vr_status vr = StatusOk" using demo_validated by blast
  obtain f where f: "fst (factorize demo_lib (demo_1x1 (Fin 1)) \<lparr>uo_print_level = no_print_level numeric_options_default\<rparr>) = Inr f"
    "uf_matrix f = demo_1x1 (Fin 1)" "uf_stats f = \<lparr>symbolic_status = 0, numeric_status = 0,
      symbolic_info = replicate 90 (Fin (- 1)), numeric_info = replicate 90 (Fin (- 1))\<rparr>"
    using demo_factorized by blast
  have bytes: "pm_estimated_owned_bytes id \<lparr>pm_factorization = f, pm_b = demo_1x1 (Fin 2), pm_c = demo_1x1 (Fin 3), pm_validation = vr\<rparr> = 60"
    using f by (simp add: pm_estimated_owned_bytes_def uf_estimated_owned_bytes_def csc_estimated_owned_bytes_def
      demo_1x1_def info_units_to_bytes_def umfpack_consts f64_ops Let_def saturating_add_def saturating_mul_def u64_max_def)
  show ?thesis
    using vr f(1) demo_build assms bytes
    by (simp add: prepare_def with_cache_policy_def Let_def demo_matrices_def telemetry_def
        set_ready_def with_capacity_def split: prod.split)
qed

lemma demo_prepare:
  "\<exists>r s'. prepare demo_lib demo_hash id (\<lambda>i. i) demo_data numeric_options_default demo_service = (Inr r, s')"
  unfolding demo_service_def by (rule demo_prepare_policy) (simp_all add: demo_workload)

lemma demo_service_reachable: "service_reachable demo_lib demo_hash id 1000 demo_service"
  unfolding demo_service_def by (rule service_reachable.start)

theorem prepare_then_solve_witness:
  "\<exists>r s'. prepare demo_lib demo_hash id (\<lambda>i. i) demo_data numeric_options_default demo_service = (Inr r, s') \<and>
     factorization_status demo_hash ''v'' numeric_options_default s' = Some Ready"
proof -
  obtain r s' where p: "prepare demo_lib demo_hash id (\<lambda>i. i) demo_data numeric_options_default demo_service = (Inr r, s')"
    using demo_prepare by blast
  have v: "model_version demo_data = ''v''" "nat (process_count demo_data) = 1" by (simp_all add: demo_data_def)
  have "factorization_status demo_hash (model_version demo_data) numeric_options_default s' = Some Ready"
    using prepare_then_solve [OF demo_service_reachable _ demo_lib_contract p, of "[Fin 1]"] v by (simp add: u64_max_def)
  with p v show ?thesis by auto
qed

text \<open>
  C37. A failed prepare never leaves a servable model and never touches another key. The key ends
  up failed, except when the matrices could not be built: then it stays in the building state.
  No slice index goes out of range.
\<close>

theorem prepare_failure_state:
  assumes "service_reachable lib hash cap n s" "n < u64_max"
    "prepare lib hash cap now data options s = (Inl e, s')"
  shows "factorization_status hash (model_version data) options s' =
      Some (if \<exists>b. e = SolverDataBuilder b then Building else Failed) \<and>
    fst (solve_one lib hash t (model_version data) options rhs so s') = Inl (NotPrepared (model_version data)) \<and>
    (\<forall>k. k \<noteq> service_key hash data options \<longrightarrow> cache_view (sv_cache s') k = cache_view (sv_cache s) k) \<and>
    e \<noteq> IndexPanic"
proof -
  let ?k = "service_key hash data options"
  have inv: "cache_inv cap (building_cache hash now data options s)"
    by (rule fc.inv_building [OF service_reachable_inv [OF assms(1,2)]])
  note fails = prepare_errD [OF assms(3)]
  have "(\<exists>st msg. cache_view (sv_cache s') = (cache_view (sv_cache s))(?k \<mapsto> (st, None, msg)) \<and>
      st = (if \<exists>b. e = SolverDataBuilder b then Building else Failed)) \<and> e \<noteq> IndexPanic"
    using fails fc.view_ready_err [OF inv, of "now 1" ?k]
    by (auto simp: fc.view_building fc.view_failed dest!: fc.view_ready_err [OF inv])
  then obtain st msg where v: "cache_view (sv_cache s') = (cache_view (sv_cache s))(?k \<mapsto> (st, None, msg))"
    "st = (if \<exists>b. e = SolverDataBuilder b then Building else Failed)" and np: "e \<noteq> IndexPanic" by blast
  from v(2) have "st \<noteq> Ready" by (auto split: if_splits)
  with v have "slot_ready (cache_view (sv_cache s') ?k) = None" by (cases st) (simp_all add: slot_ready_def)
  with v np show ?thesis by (simp add: factorization_status_view solve_one_view)
qed

theorem prepare_failure_state_witness:
  "\<exists>s'. prepare demo_lib demo_hash id (\<lambda>i. i) (demo_data\<lparr>flow_count := 0\<rparr>) numeric_options_default demo_service =
       (Inl (SolverDataBuilder (BuilderInvalidDimensions 1 0 1)), s') \<and>
     factorization_status demo_hash ''v'' numeric_options_default s' = Some Building"
proof -
  have v: "model_version (demo_data\<lparr>flow_count := 0\<rparr>) = ''v''" by (simp add: demo_data_def)
  obtain s' where p: "prepare demo_lib demo_hash id (\<lambda>i. i) (demo_data\<lparr>flow_count := 0\<rparr>) numeric_options_default demo_service =
       (Inl (SolverDataBuilder (BuilderInvalidDimensions 1 0 1)), s')"
    by (simp add: prepare_def Let_def build_def demo_data_def)
  have "factorization_status demo_hash (model_version (demo_data\<lparr>flow_count := 0\<rparr>)) numeric_options_default s' = Some Building"
    using prepare_failure_state [OF demo_service_reachable _ p] by (simp add: u64_max_def)
  with p v show ?thesis by auto
qed

text \<open>
  A batch on a ready model returns one result per right-hand side, each the result of solving
  it alone, and on a failure the error of the first right-hand side that fails; on a model that is
  not ready a non-empty batch fails with \<open>NotPrepared\<close>.
\<close>

theorem solve_batch_pointwise:
  "fst (solve_batch lib hash t v options rhss so s) =
     (if rhss = [] then Inr []
      else if slot_ready (cache_view (sv_cache s) (service_factorization_key hash v options)) = None
      then Inl (NotPrepared v)
      else try_map (\<lambda>rhs. fst (solve_one lib hash t v options rhs so s)) rhss)"
proof (cases "slot_ready (cache_view (sv_cache s) (service_factorization_key hash v options))")
  case None
  have "fst (solve_batch_loop lib hash t v options so [] (rhs # rest) s) = Inl (NotPrepared v)" for rhs rest
    using None solve_one_view [of lib hash t v options rhs so s]
    by (cases "solve_one lib hash t v options rhs so s") simp
  with None show ?thesis by (cases rhss) (simp_all add: solve_batch_def)
next
  case (Some p)
  then have "(\<lambda>rhs. fst (solve_one lib hash t v options rhs so s)) =
      (\<lambda>rhs. res_bind (solve_prepared lib (Fin 0, Fin 0, Fin 0) p rhs so) (\<lambda>r. Inr (ts_result r)))"
    by (simp add: solve_one_view)
  with solve_batch_view [OF Some, of lib t so "[]" rhss] Some show ?thesis
    by (cases "try_map (\<lambda>rhs. fst (solve_one lib hash t v options rhs so s)) rhss") (auto simp: solve_batch_def)
qed

text \<open>
  Once a model is invalidated no right-hand side is solved for it until it is prepared again,
  and models of other versions are solved as before.
\<close>

theorem invalidate_stops_solving:
  assumes "service_invalidate t v s = (released, s')"
  shows "fst (solve_one lib hash t' v options rhs so s') = Inl (NotPrepared v) \<and>
    (w \<noteq> v \<longrightarrow> fst (solve_one lib hash t' w options rhs so s') = fst (solve_one lib hash t' w options rhs so s))"
proof -
  have c: "sv_cache s' = snd (invalidate_model t v (sv_cache s))"
    using assms by (auto simp: service_invalidate_def split: prod.splits)
  have key: "fk_model_version (service_factorization_key hash u options) = u" for u
    by (simp add: service_factorization_key_def key_new_def)
  have view: "cache_view (sv_cache s') (service_factorization_key hash u options) =
      (if u = v \<and> cache_view (sv_cache s) (service_factorization_key hash u options) \<noteq> None
       then Some (Stale, None, None) else cache_view (sv_cache s) (service_factorization_key hash u options))" for u
    unfolding c cache_view_invalidate_model by (simp add: key)
  have "slot_ready (cache_view (sv_cache s') (service_factorization_key hash v options)) = None"
    unfolding view
    by (cases "cache_view (sv_cache s) (service_factorization_key hash v options) = None") (simp_all add: slot_ready_def)
  then show ?thesis by (auto simp: solve_one_view view)
qed

theorem invalidate_stops_solving_witness:
  "\<exists>r s'. prepare demo_lib demo_hash id (\<lambda>i. i) demo_data numeric_options_default demo_service = (Inr r, s') \<and>
     fst (solve_one demo_lib demo_hash 5 ''v'' numeric_options_default [Fin 1] solve_options_default
       (snd (service_invalidate 4 ''v'' s'))) = Inl (NotPrepared ''v'')"
proof -
  obtain r s' where p: "prepare demo_lib demo_hash id (\<lambda>i. i) demo_data numeric_options_default demo_service = (Inr r, s')"
    using demo_prepare by blast
  obtain k s'' where e: "service_invalidate 4 ''v'' s' = (k, s'')" by fastforce
  show ?thesis using invalidate_stops_solving [OF e, of demo_lib demo_hash 5 numeric_options_default "[Fin 1]"
      solve_options_default] e p by auto
qed

end
