(* ===== verification/Artifact_Gc.thy ===== *)
theory Artifact_Gc
  imports Worker_Prelude
begin

text \<open>
  The garbage-collection state machine of \<open>crates/solver-worker/src/artifact_gc.rs\<close>. The backend
  trait is a record of parameters over an abstract backend state; time and RFC 3339 parsing are
  parameters too. The model keeps a log of the backend calls, so that ordering claims (delete
  before complete, no deletion outside a lease, no call in a refused run) can be stated.
\<close>

section \<open>Data\<close>

definition ARTIFACT_GC_MAX_BATCH_SIZE :: i64 where "ARTIFACT_GC_MAX_BATCH_SIZE = 500"
definition ARTIFACT_GC_MAX_BATCHES :: i64 where "ARTIFACT_GC_MAX_BATCHES = 100"
definition ARTIFACT_GC_MAX_LEASE_SECONDS :: i64 where "ARTIFACT_GC_MAX_LEASE_SECONDS = 3600"
definition ARTIFACT_GC_MAX_DETAIL_LIMIT :: i64 where "ARTIFACT_GC_MAX_DETAIL_LIMIT = 50000"
definition ARTIFACT_GC_MAX_COMPLETION_ROUNDS :: u64 where "ARTIFACT_GC_MAX_COMPLETION_ROUNDS = 10000"
definition ARTIFACT_GC_COMPLETION_CALL_ATTEMPTS :: u64 where "ARTIFACT_GC_COMPLETION_CALL_ATTEMPTS = 3"

datatype artifact_gc_phase = ObjectDelete | DetailCleanup

record artifact_gc_candidate =
  artifact_id :: uuid
  storage_bucket :: "string option"
  storage_path :: "string option"
  artifact_role :: string
  lifecycle_state :: string
  gc_phase :: artifact_gc_phase
  object_delete_required :: bool
  checksum_sha256 :: string
  artifact_expires_at :: string

record artifact_gc_claim =
  claim_token :: uuid
  lease_expires_at :: string
  claim_items :: "artifact_gc_candidate list"

record artifact_gc_renewal =
  renewal_token :: uuid
  renewal_expires_at :: string
  renewal_artifact_ids :: "uuid list"

record write_set_item =
  wi_artifact_id :: uuid
  wi_storage_bucket :: string
  wi_storage_path :: string

record write_set_candidate =
  write_set_id :: uuid
  ws_status :: string
  ws_items :: "write_set_item list"

record write_set_claim =
  reconcile_token :: uuid
  ws_lease_expires_at :: string
  write_sets :: "write_set_candidate list"

record artifact_gc_completion =
  details_remaining :: u64
  gcc_deleted_occurrences :: u64
  gcc_deleted_affected_roots :: u64
  gcc_deleted_issues :: u64

datatype object_delete_outcome = ObjDeleted | ObjMissing

record artifact_gc_run_options =
  ro_batch_size :: i64
  ro_max_batches :: i64
  ro_lease_seconds :: i64
  ro_detail_limit :: i64
  ro_execute :: bool

record artifact_gc_totals =
  batches :: u64
  candidates :: u64
  objects_deleted :: u64
  objects_missing :: u64
  detail_cleanup_candidates :: u64
  completed :: u64
  retryable_failures :: u64
  completion_rounds :: u64
  deleted_occurrences :: u64
  deleted_affected_roots :: u64
  deleted_issues :: u64
  lease_handoffs :: u64
  staging_write_sets_cleaned :: u64
  staging_objects_deleted :: u64
  staging_objects_missing :: u64
  staging_reconcile_handoffs :: u64

definition totals_default :: artifact_gc_totals where
  "totals_default = \<lparr>batches = 0, candidates = 0, objects_deleted = 0, objects_missing = 0,
     detail_cleanup_candidates = 0, completed = 0, retryable_failures = 0, completion_rounds = 0,
     deleted_occurrences = 0, deleted_affected_roots = 0, deleted_issues = 0, lease_handoffs = 0,
     staging_write_sets_cleaned = 0, staging_objects_deleted = 0, staging_objects_missing = 0,
     staging_reconcile_handoffs = 0\<rparr>"

text \<open>
  Errors: a lost lease is told apart from every other failure, whose text is kept. \<open>inc\<close> is
  \<open>saturating_add(1)\<close>.
\<close>

datatype gc_error = LeaseLost string | GcFailure string

abbreviation inc :: "u64 \<Rightarrow> u64" where
  "inc n \<equiv> saturating_add n 1"

section \<open>Candidate validation\<close>

datatype candidate_error =
    InconsistentPhase
  | OmittedBucket
  | InvalidStoragePath
  | ExposedLocator
  | OmittedRole
  | InvalidChecksum
  | OmittedExpiry

fun candidate_error_text :: "candidate_error \<Rightarrow> string" where
  "candidate_error_text InconsistentPhase = ''artifact GC object-delete candidate has inconsistent phase''"
| "candidate_error_text OmittedBucket = ''artifact GC candidate omitted storage bucket''"
| "candidate_error_text InvalidStoragePath = ''artifact GC candidate has invalid storage path''"
| "candidate_error_text ExposedLocator = ''artifact GC detail-cleanup candidate exposed an object locator''"
| "candidate_error_text OmittedRole = ''artifact GC candidate omitted artifact role''"
| "candidate_error_text InvalidChecksum = ''artifact GC candidate has invalid SHA-256 checksum''"
| "candidate_error_text OmittedExpiry = ''artifact GC candidate omitted artifact expiry''"

definition validate_storage_path :: "string \<Rightarrow> candidate_error + unit" where
  "validate_storage_path raw =
     (let path = trim raw in
      ensure (\<not> (path = [] \<or> hd path = CHR ''/'' \<or> CHR 0x5C \<in> set path \<or>
        list_ex (\<lambda>segment. segment = [] \<or> segment = ''.'' \<or> segment = ''..'') (split_on CHR ''/'' path)))
        InvalidStoragePath)"

definition candidate_validate :: "artifact_gc_candidate \<Rightarrow> candidate_error + unit" where
  "candidate_validate self =
     res_bind (case gc_phase self of
         ObjectDelete \<Rightarrow>
           res_bind (ensure (\<not> (\<not> object_delete_required self \<or> lifecycle_state self \<noteq> ''expired'')) InconsistentPhase) (\<lambda>_.
           res_bind (ensure (trim (unwrap_or [] (storage_bucket self)) \<noteq> []) OmittedBucket) (\<lambda>_.
           validate_storage_path (unwrap_or [] (storage_path self))))
       | DetailCleanup \<Rightarrow>
           ensure (\<not> (object_delete_required self \<or> lifecycle_state self \<noteq> ''deleted'' \<or>
                     storage_bucket self \<noteq> None \<or> storage_path self \<noteq> None)) ExposedLocator) (\<lambda>_.
     res_bind (ensure (trim (artifact_role self) \<noteq> []) OmittedRole) (\<lambda>_.
     res_bind (ensure (length (checksum_sha256 self) = 64 \<and> list_all is_ascii_hexdigit (checksum_sha256 self))
                InvalidChecksum) (\<lambda>_.
     ensure (trim (artifact_expires_at self) \<noteq> []) OmittedExpiry)))"

definition validated_range :: "string \<Rightarrow> i64 \<Rightarrow> i64 \<Rightarrow> gc_error + i64" where
  "validated_range name limit v =
     (if \<not> (1 \<le> v \<and> v \<le> limit)
      then Inl (GcFailure (''artifact GC '' @ name @ '' must be between 1 and '' @ show_int limit)) else Inr v)"

definition validated_batch_size :: "i64 \<Rightarrow> gc_error + i64" where
  "validated_batch_size = validated_range ''batch size'' ARTIFACT_GC_MAX_BATCH_SIZE"

definition validated_max_batches :: "i64 \<Rightarrow> gc_error + i64" where
  "validated_max_batches = validated_range ''max batches'' ARTIFACT_GC_MAX_BATCHES"

definition validated_lease_seconds :: "i64 \<Rightarrow> gc_error + i64" where
  "validated_lease_seconds = validated_range ''lease seconds'' ARTIFACT_GC_MAX_LEASE_SECONDS"

definition validated_detail_limit :: "i64 \<Rightarrow> gc_error + i64" where
  "validated_detail_limit = validated_range ''detail limit'' ARTIFACT_GC_MAX_DETAIL_LIMIT"

section \<open>The backend and the machine state\<close>

text \<open>
  Instants are nanoseconds. Each backend method maps the backend state to its result and the new
  state; \<open>be_delete_object\<close> is the deletion under the given timeout, \<open>None\<close> when the timeout
  elapses; \<open>be_now\<close> reads a clock that the backend state advances; \<open>parse_rfc3339\<close> is the parser
  of the \<open>chrono\<close> crate. Backend errors are their texts.
\<close>

type_synonym instant = int

record 's gc_backend =
  expected_bucket :: string
  parse_rfc3339 :: "string \<Rightarrow> string + instant"
  be_now :: "'s \<Rightarrow> instant \<times> 's"
  be_preview :: "i64 \<Rightarrow> 's \<Rightarrow> (string + artifact_gc_candidate list) \<times> 's"
  be_claim :: "i64 \<Rightarrow> i64 \<Rightarrow> 's \<Rightarrow> (string + artifact_gc_claim) \<times> 's"
  be_renew :: "uuid \<Rightarrow> i64 \<Rightarrow> 's \<Rightarrow> (string + artifact_gc_renewal) \<times> 's"
  be_delete_object :: "int \<Rightarrow> string \<Rightarrow> 's \<Rightarrow> (string + object_delete_outcome) option \<times> 's"
  be_complete :: "uuid \<Rightarrow> artifact_gc_candidate \<Rightarrow> object_delete_outcome \<Rightarrow> i64 \<Rightarrow> 's \<Rightarrow> (string + artifact_gc_completion) \<times> 's"
  be_fail :: "uuid \<Rightarrow> artifact_gc_candidate \<Rightarrow> string \<Rightarrow> 's \<Rightarrow> (string + unit) \<times> 's"
  be_claim_stale_write_sets :: "i64 \<Rightarrow> i64 \<Rightarrow> 's \<Rightarrow> (string + write_set_claim) \<times> 's"
  be_complete_stale_write_set :: "uuid \<Rightarrow> uuid \<Rightarrow> 's \<Rightarrow> (string + unit) \<times> 's"

datatype gc_call =
    Now instant
  | Preview i64
  | Claim i64
  | Renew uuid
  | Delete string int "(string + object_delete_outcome) option"
  | Complete uuid artifact_gc_candidate object_delete_outcome
  | Fail uuid artifact_gc_candidate string
  | ClaimStale
  | CompleteStale uuid

record 's gc_state =
  gs_backend :: 's
  gs_totals :: artifact_gc_totals
  gs_log :: "gc_call list"

type_synonym ('s, 'a) gc = "'s gc_state \<Rightarrow> (gc_error + 'a) \<times> 's gc_state"

definition gc_return :: "'a \<Rightarrow> ('s, 'a) gc" where
  "gc_return a = (\<lambda>s. (Inr a, s))"

definition gc_throw :: "gc_error \<Rightarrow> ('s, 'a) gc" where
  "gc_throw e = (\<lambda>s. (Inl e, s))"

definition gc_bind :: "('s, 'a) gc \<Rightarrow> ('a \<Rightarrow> ('s, 'b) gc) \<Rightarrow> ('s, 'b) gc" where
  "gc_bind m f = (\<lambda>s. case m s of (Inl e, s') \<Rightarrow> (Inl e, s') | (Inr a, s') \<Rightarrow> f a s')"

text \<open>The result of \<open>m\<close> as a value, its effects kept: a call whose \<open>Result\<close> is matched on.\<close>

definition gc_attempt :: "('s, 'a) gc \<Rightarrow> ('s, gc_error + 'a) gc" where
  "gc_attempt m = (\<lambda>s. case m s of (r, s') \<Rightarrow> (Inr r, s'))"

definition gc_lift :: "gc_error + 'a \<Rightarrow> ('s, 'a) gc" where
  "gc_lift r = (\<lambda>s. (r, s))"

definition gc_tally :: "(artifact_gc_totals \<Rightarrow> artifact_gc_totals) \<Rightarrow> ('s, unit) gc" where
  "gc_tally f = (\<lambda>s. (Inr (), s\<lparr>gs_totals := f (gs_totals s)\<rparr>))"

definition gc_totals :: "('s, artifact_gc_totals) gc" where
  "gc_totals = (\<lambda>s. (Inr (gs_totals s), s))"

definition gc_call :: "('s \<Rightarrow> 'r \<times> 's) \<Rightarrow> ('r \<Rightarrow> gc_call) \<Rightarrow> ('r \<Rightarrow> gc_error + 'a) \<Rightarrow> ('s, 'a) gc" where
  "gc_call f ev res = (\<lambda>s. case f (gs_backend s) of
     (r, b) \<Rightarrow> (res r, s\<lparr>gs_backend := b, gs_log := gs_log s @ [ev r]\<rparr>))"

abbreviation backend_result :: "string + 'a \<Rightarrow> gc_error + 'a" where
  "backend_result \<equiv> map_err GcFailure"

definition gc_now :: "'s gc_backend \<Rightarrow> ('s, instant) gc" where
  "gc_now be = gc_call (be_now be) Now Inr"

section \<open>The claim lease\<close>

definition claim_deadline :: "'s gc_backend \<Rightarrow> artifact_gc_claim \<Rightarrow> gc_error + instant" where
  "claim_deadline be claim =
     map_err (\<lambda>e. GcFailure (''invalid artifact GC leaseExpiresAt: '' @ e)) (parse_rfc3339 be (lease_expires_at claim))"

text \<open>Integer division of \<open>i64\<close> truncates; lease lengths are positive here.\<close>

definition renew_margin :: "i64 \<Rightarrow> int" where
  "renew_margin lease_seconds = max (lease_seconds div 3) 1 * 1000000000"

definition ensure_current_claim ::
  "'s gc_backend \<Rightarrow> i64 \<Rightarrow> artifact_gc_claim \<Rightarrow> ('s, artifact_gc_claim) gc" where
  "ensure_current_claim be lease_seconds claim =
     gc_bind (gc_lift (claim_deadline be claim)) (\<lambda>deadline.
     gc_bind (gc_now be) (\<lambda>now.
     if deadline > now + renew_margin lease_seconds then gc_return claim
     else
     gc_bind (gc_call (be_renew be (claim_token claim) lease_seconds) (\<lambda>_. Renew (claim_token claim))
               (map_err LeaseLost)) (\<lambda>renewal.
     if renewal_token renewal \<noteq> claim_token claim
     then gc_throw (LeaseLost ''Database renewed a different claim token'')
     else
     let claim = claim\<lparr>lease_expires_at := renewal_expires_at renewal\<rparr> in
     gc_bind (gc_lift (claim_deadline be claim)) (\<lambda>deadline.
     gc_bind (gc_now be) (\<lambda>now.
     if deadline \<le> now then gc_throw (LeaseLost ''renewed claim is already expired'')
     else gc_return claim)))))"

section \<open>Completion\<close>

definition attempts_exhausted :: gc_error where
  "attempts_exhausted = GcFailure (''artifact GC completion failed after '' @
     show_nat ARTIFACT_GC_COMPLETION_CALL_ATTEMPTS @ '' attempts'')"

definition rounds_exhausted :: gc_error where
  "rounds_exhausted = GcFailure (''artifact GC detail cleanup exceeded '' @
     show_nat ARTIFACT_GC_MAX_COMPLETION_ROUNDS @ '' bounded rounds'')"

text \<open>The retry loop of one completion round; \<open>left\<close> counts the attempts still allowed.\<close>

fun complete_attempts ::
  "'s gc_backend \<Rightarrow> artifact_gc_candidate \<Rightarrow> object_delete_outcome \<Rightarrow> i64 \<Rightarrow> i64 \<Rightarrow> nat \<Rightarrow> artifact_gc_claim
   \<Rightarrow> ('s, artifact_gc_claim \<times> artifact_gc_completion) gc" where
  "complete_attempts be cand outcome lease_seconds detail_limit 0 claim =
     gc_throw attempts_exhausted"
| "complete_attempts be cand outcome lease_seconds detail_limit (Suc left) claim =
     gc_bind (ensure_current_claim be lease_seconds claim) (\<lambda>claim.
     gc_bind (gc_attempt (gc_call (be_complete be (claim_token claim) cand outcome detail_limit)
                (\<lambda>_. Complete (claim_token claim) cand outcome) backend_result)) (\<lambda>r.
     case r of
       Inr completion \<Rightarrow> gc_return (claim, completion)
     | Inl e \<Rightarrow>
         if left = 0 then gc_throw attempts_exhausted
         else complete_attempts be cand outcome lease_seconds detail_limit left claim))"

definition add_completion :: "artifact_gc_completion \<Rightarrow> artifact_gc_completion \<Rightarrow> artifact_gc_completion" where
  "add_completion aggregate c =
     \<lparr>details_remaining = details_remaining c,
      gcc_deleted_occurrences = saturating_add (gcc_deleted_occurrences aggregate) (gcc_deleted_occurrences c),
      gcc_deleted_affected_roots = saturating_add (gcc_deleted_affected_roots aggregate) (gcc_deleted_affected_roots c),
      gcc_deleted_issues = saturating_add (gcc_deleted_issues aggregate) (gcc_deleted_issues c)\<rparr>"

definition completion_default :: artifact_gc_completion where
  "completion_default = \<lparr>details_remaining = 0, gcc_deleted_occurrences = 0, gcc_deleted_affected_roots = 0,
     gcc_deleted_issues = 0\<rparr>"

text \<open>The rounds of \<open>complete_claimed_candidate\<close>; \<open>left\<close> counts the rounds still allowed.\<close>

fun complete_rounds ::
  "'s gc_backend \<Rightarrow> artifact_gc_candidate \<Rightarrow> object_delete_outcome \<Rightarrow> i64 \<Rightarrow> i64 \<Rightarrow> nat \<Rightarrow> artifact_gc_completion
   \<Rightarrow> artifact_gc_claim \<Rightarrow> ('s, artifact_gc_claim) gc" where
  "complete_rounds be cand outcome lease_seconds detail_limit 0 aggregate claim =
     gc_throw rounds_exhausted"
| "complete_rounds be cand outcome lease_seconds detail_limit (Suc left) aggregate claim =
     gc_bind (ensure_current_claim be lease_seconds claim) (\<lambda>claim.
     gc_bind (complete_attempts be cand outcome lease_seconds detail_limit
                ARTIFACT_GC_COMPLETION_CALL_ATTEMPTS claim) (\<lambda>(claim, completion).
     let aggregate = add_completion aggregate completion in
     if details_remaining completion = 0
     then gc_bind (gc_tally (\<lambda>t. t\<lparr>
            completion_rounds := saturating_add (completion_rounds t) (ARTIFACT_GC_MAX_COMPLETION_ROUNDS - left),
            deleted_occurrences := saturating_add (deleted_occurrences t) (gcc_deleted_occurrences aggregate),
            deleted_affected_roots := saturating_add (deleted_affected_roots t) (gcc_deleted_affected_roots aggregate),
            deleted_issues := saturating_add (deleted_issues t) (gcc_deleted_issues aggregate),
            completed := inc (completed t)\<rparr>)) (\<lambda>_. gc_return claim)
     else complete_rounds be cand outcome lease_seconds detail_limit left aggregate claim))"

definition complete_claimed_candidate ::
  "'s gc_backend \<Rightarrow> artifact_gc_candidate \<Rightarrow> object_delete_outcome \<Rightarrow> i64 \<Rightarrow> i64 \<Rightarrow> artifact_gc_claim
   \<Rightarrow> ('s, artifact_gc_claim) gc" where
  "complete_claimed_candidate be cand outcome lease_seconds detail_limit claim =
     complete_rounds be cand outcome lease_seconds detail_limit ARTIFACT_GC_MAX_COMPLETION_ROUNDS
       completion_default claim"

section \<open>Processing one candidate\<close>

definition record_failure ::
  "'s gc_backend \<Rightarrow> artifact_gc_candidate \<Rightarrow> i64 \<Rightarrow> artifact_gc_claim \<Rightarrow> string \<Rightarrow> ('s, artifact_gc_claim) gc" where
  "record_failure be cand lease_seconds claim msg =
     gc_bind (ensure_current_claim be lease_seconds claim) (\<lambda>claim.
     gc_bind (gc_call (be_fail be (claim_token claim) cand msg) (\<lambda>_. Fail (claim_token claim) cand msg)
               backend_result) (\<lambda>_.
     gc_bind (gc_tally (\<lambda>t. t\<lparr>retryable_failures := inc (retryable_failures t)\<rparr>)) (\<lambda>_.
     gc_return claim)))"

definition process_claimed_candidate ::
  "'s gc_backend \<Rightarrow> i64 \<Rightarrow> i64 \<Rightarrow> artifact_gc_candidate \<Rightarrow> artifact_gc_claim \<Rightarrow> ('s, artifact_gc_claim) gc" where
  "process_claimed_candidate be lease_seconds detail_limit cand claim =
     (case candidate_validate cand of
        Inl e \<Rightarrow> record_failure be cand lease_seconds claim (take 1000 (candidate_error_text e))
      | Inr _ \<Rightarrow>
        if \<not> object_delete_required cand
        then gc_bind (gc_tally (\<lambda>t. t\<lparr>detail_cleanup_candidates := inc (detail_cleanup_candidates t)\<rparr>)) (\<lambda>_.
             complete_claimed_candidate be cand ObjDeleted lease_seconds detail_limit claim)
        else if unwrap_or [] (storage_bucket cand) \<noteq> expected_bucket be
        then record_failure be cand lease_seconds claim
               (''artifact_gc_bucket_mismatch: candidate_bucket='' @ unwrap_or [] (storage_bucket cand) @
                '', configured_bucket='' @ expected_bucket be)
        else
        gc_bind (ensure_current_claim be lease_seconds claim) (\<lambda>claim.
        gc_bind (gc_lift (claim_deadline be claim)) (\<lambda>deadline.
        gc_bind (gc_now be) (\<lambda>now.
        if deadline - now < 0 then gc_throw (LeaseLost ''claim expired before object deletion'')
        else
        gc_bind (gc_call (be_delete_object be (deadline - now) (unwrap_or [] (storage_path cand)))
                  (Delete (unwrap_or [] (storage_path cand)) (deadline - now)) Inr) (\<lambda>deletion.
        case deletion of
          None \<Rightarrow> gc_throw (LeaseLost ''object deletion reached claim deadline'')
        | Some (Inr outcome) \<Rightarrow>
            gc_bind (gc_tally (\<lambda>t. case outcome of
                ObjDeleted \<Rightarrow> t\<lparr>objects_deleted := inc (objects_deleted t)\<rparr>
              | ObjMissing \<Rightarrow> t\<lparr>objects_missing := inc (objects_missing t)\<rparr>)) (\<lambda>_.
            complete_claimed_candidate be cand outcome lease_seconds detail_limit claim)
        | Some (Inl e) \<Rightarrow> record_failure be cand lease_seconds claim (take 1000 e))))))"

section \<open>Reconciling stale write sets\<close>

text \<open>
  The object loop of one write set. \<open>Inr True\<close>: every object was deleted or missing; \<open>Inr False\<close>:
  the lease ran out and the reconciliation was handed over.
\<close>

definition staging_handoff :: "('s, unit) gc" where
  "staging_handoff = gc_tally (\<lambda>t. t\<lparr>staging_reconcile_handoffs := inc (staging_reconcile_handoffs t)\<rparr>)"

fun reconcile_items :: "'s gc_backend \<Rightarrow> instant \<Rightarrow> write_set_item list \<Rightarrow> ('s, bool) gc" where
  "reconcile_items be deadline [] = gc_return True"
| "reconcile_items be deadline (item # items) =
     (if wi_storage_bucket item \<noteq> expected_bucket be
      then gc_throw (GcFailure (''staging reconcile bucket mismatch for artifact '' @ wi_artifact_id item))
      else
      gc_bind (gc_now be) (\<lambda>now.
      if deadline - now < 0 then gc_bind staging_handoff (\<lambda>_. gc_return False)
      else
      gc_bind (gc_call (be_delete_object be (deadline - now) (wi_storage_path item))
                (Delete (wi_storage_path item) (deadline - now)) Inr) (\<lambda>deletion.
      case deletion of
        None \<Rightarrow> gc_bind staging_handoff (\<lambda>_. gc_return False)
      | Some (Inl e) \<Rightarrow> gc_throw (GcFailure e)
      | Some (Inr outcome) \<Rightarrow>
          gc_bind (gc_tally (\<lambda>t. case outcome of
              ObjDeleted \<Rightarrow> t\<lparr>staging_objects_deleted := inc (staging_objects_deleted t)\<rparr>
            | ObjMissing \<Rightarrow> t\<lparr>staging_objects_missing := inc (staging_objects_missing t)\<rparr>)) (\<lambda>_.
          reconcile_items be deadline items))))"

fun reconcile_stale_write_sets :: "'s gc_backend \<Rightarrow> i64 \<Rightarrow> nat \<Rightarrow> ('s, unit) gc" where
  "reconcile_stale_write_sets be lease_seconds 0 = gc_return ()"
| "reconcile_stale_write_sets be lease_seconds (Suc left) =
     gc_bind (gc_call (be_claim_stale_write_sets be 1 lease_seconds) (\<lambda>_. ClaimStale) backend_result) (\<lambda>claim.
     case write_sets claim of
       [] \<Rightarrow> gc_return ()
     | write_set # rest \<Rightarrow>
       if rest \<noteq> [] then gc_throw (GcFailure ''staging reconciliation exceeded the single-write-set claim bound'')
       else
       gc_bind (gc_lift (map_err (\<lambda>e. GcFailure (''invalid staging reconcile leaseExpiresAt: '' @ e))
                  (parse_rfc3339 be (ws_lease_expires_at claim)))) (\<lambda>deadline.
       if ws_status write_set \<noteq> ''cleanup_pending'' \<or> length (ws_items write_set) > 500
       then gc_throw (GcFailure ''Database returned an invalid staging reconciliation candidate'')
       else
       gc_bind (reconcile_items be deadline (ws_items write_set)) (\<lambda>finished.
       if \<not> finished then gc_return ()
       else
       gc_bind (gc_now be) (\<lambda>now.
       if deadline \<le> now then staging_handoff
       else
       gc_bind (gc_call (be_complete_stale_write_set be (write_set_id write_set) (reconcile_token claim))
                 (\<lambda>_. CompleteStale (write_set_id write_set)) backend_result) (\<lambda>_.
       gc_bind (gc_tally (\<lambda>t. t\<lparr>staging_write_sets_cleaned := inc (staging_write_sets_cleaned t)\<rparr>)) (\<lambda>_.
       reconcile_stale_write_sets be lease_seconds left))))))"

section \<open>The run\<close>

text \<open>The candidates of one claim: \<open>True\<close> when all were processed, \<open>False\<close> after a lease handoff.\<close>

fun process_items ::
  "'s gc_backend \<Rightarrow> i64 \<Rightarrow> i64 \<Rightarrow> artifact_gc_candidate list \<Rightarrow> artifact_gc_claim \<Rightarrow> ('s, bool) gc" where
  "process_items be lease_seconds detail_limit [] claim = gc_return True"
| "process_items be lease_seconds detail_limit (cand # cands) claim =
     gc_bind (gc_attempt (process_claimed_candidate be lease_seconds detail_limit cand claim)) (\<lambda>r.
     case r of
       Inr claim \<Rightarrow> process_items be lease_seconds detail_limit cands claim
     | Inl (LeaseLost e) \<Rightarrow>
         gc_bind (gc_tally (\<lambda>t. t\<lparr>lease_handoffs := inc (lease_handoffs t)\<rparr>)) (\<lambda>_. gc_return False)
     | Inl (GcFailure e) \<Rightarrow> gc_throw (GcFailure e))"

text \<open>
  The batch loop; \<open>left\<close> is \<open>max_batches\<close> minus the batches already claimed, which each iteration
  increases by one.
\<close>

fun gc_batches :: "'s gc_backend \<Rightarrow> i64 \<Rightarrow> i64 \<Rightarrow> i64 \<Rightarrow> nat \<Rightarrow> ('s, unit) gc" where
  "gc_batches be batch_size lease_seconds detail_limit 0 = gc_return ()"
| "gc_batches be batch_size lease_seconds detail_limit (Suc left) =
     gc_bind (gc_call (be_claim be batch_size lease_seconds) (\<lambda>_. Claim batch_size) backend_result) (\<lambda>claim.
     if length (claim_items claim) > nat batch_size
     then gc_throw (GcFailure ''artifact GC claim exceeded requested batch bound'')
     else if claim_items claim = [] then gc_return ()
     else
     gc_bind (gc_tally (\<lambda>t. t\<lparr>batches := inc (batches t),
                              candidates := saturating_add (candidates t) (length (claim_items claim))\<rparr>)) (\<lambda>_.
     gc_bind (process_items be lease_seconds detail_limit (claim_items claim) claim) (\<lambda>finished.
     if finished then gc_batches be batch_size lease_seconds detail_limit left else gc_return ())))"

record artifact_gc_run_report =
  preview_items :: "artifact_gc_candidate list"
  report_totals :: artifact_gc_totals

definition run_artifact_gc ::
  "'s gc_backend \<Rightarrow> artifact_gc_run_options \<Rightarrow> ('s, artifact_gc_run_report) gc" where
  "run_artifact_gc be options =
     gc_bind (gc_lift (validated_batch_size (ro_batch_size options))) (\<lambda>batch_size.
     gc_bind (gc_lift (validated_max_batches (ro_max_batches options))) (\<lambda>max_batches.
     gc_bind (gc_lift (validated_lease_seconds (ro_lease_seconds options))) (\<lambda>lease_seconds.
     gc_bind (gc_lift (validated_detail_limit (ro_detail_limit options))) (\<lambda>detail_limit.
     if \<not> ro_execute options
     then gc_bind (gc_call (be_preview be batch_size) (\<lambda>_. Preview batch_size) backend_result) (\<lambda>items.
          if length items > nat batch_size
          then gc_throw (GcFailure ''artifact GC preview exceeded requested batch bound'')
          else gc_return \<lparr>preview_items = items, report_totals = totals_default\<lparr>candidates := length items\<rparr>\<rparr>)
     else
     gc_bind (gc_tally (\<lambda>_. totals_default)) (\<lambda>_.
     gc_bind (reconcile_stale_write_sets be lease_seconds (nat max_batches)) (\<lambda>_.
     gc_bind gc_totals (\<lambda>t.
     gc_bind (if staging_reconcile_handoffs t > 0 then gc_return ()
              else gc_batches be batch_size lease_seconds detail_limit (nat max_batches)) (\<lambda>_.
     gc_bind gc_totals (\<lambda>t.
     gc_return \<lparr>preview_items = [], report_totals = t\<rparr>)))))))))"

section \<open>The callback variants\<close>

text \<open>
  \<open>complete_artifact_details\<close> and \<open>process_artifact_gc_candidate\<close> take the backend operations as
  closures; a closure is a function on the state \<open>'s\<close> it captures.
\<close>

fun details_attempts :: "('s \<Rightarrow> (string + artifact_gc_completion) \<times> 's) \<Rightarrow> nat \<Rightarrow> 's \<Rightarrow> (gc_error + artifact_gc_completion) \<times> 's" where
  "details_attempts complete 0 s = (Inl attempts_exhausted, s)"
| "details_attempts complete (Suc left) s =
     (case complete s of
        (Inr c, s') \<Rightarrow> (Inr c, s')
      | (Inl e, s') \<Rightarrow> if left = 0 then (Inl attempts_exhausted, s') else details_attempts complete left s')"

fun details_rounds ::
  "('s \<Rightarrow> (string + artifact_gc_completion) \<times> 's) \<Rightarrow> nat \<Rightarrow> artifact_gc_completion \<Rightarrow> 's
   \<Rightarrow> (gc_error + u64 \<times> artifact_gc_completion) \<times> 's" where
  "details_rounds complete 0 agg s = (Inl rounds_exhausted, s)"
| "details_rounds complete (Suc left) agg s =
     (case details_attempts complete ARTIFACT_GC_COMPLETION_CALL_ATTEMPTS s of
        (Inl e, s') \<Rightarrow> (Inl e, s')
      | (Inr c, s') \<Rightarrow>
          (let agg = add_completion agg c in
           if details_remaining c = 0 then (Inr (ARTIFACT_GC_MAX_COMPLETION_ROUNDS - left, agg), s')
           else details_rounds complete left agg s'))"

definition complete_artifact_details ::
  "('s \<Rightarrow> (string + artifact_gc_completion) \<times> 's) \<Rightarrow> 's \<Rightarrow> (gc_error + u64 \<times> artifact_gc_completion) \<times> 's" where
  "complete_artifact_details complete s =
     details_rounds complete ARTIFACT_GC_MAX_COMPLETION_ROUNDS completion_default s"

datatype artifact_gc_process_outcome =
    CompletedObject object_delete_outcome
  | CompletedDetailCleanup
  | RetryRecorded

definition process_artifact_gc_candidate ::
  "artifact_gc_candidate \<Rightarrow> string \<Rightarrow> (string \<Rightarrow> 's \<Rightarrow> (string + object_delete_outcome) \<times> 's)
   \<Rightarrow> (object_delete_outcome \<Rightarrow> 's \<Rightarrow> (string + unit) \<times> 's) \<Rightarrow> (string \<Rightarrow> 's \<Rightarrow> (string + unit) \<times> 's)
   \<Rightarrow> 's \<Rightarrow> (string + artifact_gc_process_outcome) \<times> 's" where
  "process_artifact_gc_candidate cand bucket delete complete_gc failure s =
     (case candidate_validate cand of
        Inl e \<Rightarrow> (Inl (candidate_error_text e), s)
      | Inr _ \<Rightarrow>
        if \<not> object_delete_required cand
        then (case complete_gc ObjDeleted s of
                (Inl e, s') \<Rightarrow> (Inl e, s') | (Inr _, s') \<Rightarrow> (Inr CompletedDetailCleanup, s'))
        else let candidate_bucket = unwrap_or [] (storage_bucket cand) in
        if candidate_bucket \<noteq> bucket
        then (case failure (''artifact_gc_bucket_mismatch: candidate_bucket='' @ candidate_bucket @
                              '', configured_bucket='' @ bucket) s of
                (Inl e, s') \<Rightarrow> (Inl e, s') | (Inr _, s') \<Rightarrow> (Inr RetryRecorded, s'))
        else (case delete (unwrap_or [] (storage_path cand)) s of
                (Inr outcome, s') \<Rightarrow>
                  (case complete_gc outcome s' of
                     (Inl e, s'') \<Rightarrow> (Inl e, s'') | (Inr _, s'') \<Rightarrow> (Inr (CompletedObject outcome), s''))
              | (Inl e, s') \<Rightarrow>
                  (case failure e s' of
                     (Inl e', s'') \<Rightarrow> (Inl e', s'') | (Inr _, s'') \<Rightarrow> (Inr RetryRecorded, s''))))"

section \<open>Traces of the machine\<close>

text \<open>
  \<open>emits m P\<close>: whatever \<open>m\<close> does, it only appends to the log, and what it appends satisfies \<open>P\<close>.
\<close>

definition emits :: "('s, 'a) gc \<Rightarrow> (gc_call list \<Rightarrow> bool) \<Rightarrow> bool" where
  "emits m P \<longleftrightarrow> (\<forall>s. \<exists>ev. gs_log (snd (m s)) = gs_log s @ ev \<and> P ev)"

named_theorems gc_emits "what the steps of the machine append to the log"

lemma emitsD: "emits m P \<Longrightarrow> m s = (r, s') \<Longrightarrow> \<exists>ev. gs_log s' = gs_log s @ ev \<and> P ev"
  unfolding emits_def by (metis snd_conv)

lemma emits_mono: "emits m P \<Longrightarrow> (\<And>ev. P ev \<Longrightarrow> Q ev) \<Longrightarrow> emits m Q"
  unfolding emits_def by blast

lemma emits_quiet:
  "P [] \<Longrightarrow> emits (gc_return a) P" "P [] \<Longrightarrow> emits (gc_throw e) P" "P [] \<Longrightarrow> emits (gc_lift r) P"
  "P [] \<Longrightarrow> emits (gc_tally f) P" "P [] \<Longrightarrow> emits gc_totals P"
  by (simp_all add: emits_def gc_return_def gc_throw_def gc_lift_def gc_tally_def gc_totals_def)

lemma emits_call: "(\<And>r. P [ev r]) \<Longrightarrow> emits (gc_call f ev res) P"
  by (auto simp: emits_def gc_call_def split: prod.split)

lemma emits_attempt: "emits m P \<Longrightarrow> emits (gc_attempt m) P"
  by (auto simp: emits_def gc_attempt_def split: prod.split) (metis snd_conv)

lemma emits_bind:
  assumes "emits m P" "\<And>a. emits (f a) P" "\<And>xs ys. P xs \<Longrightarrow> P ys \<Longrightarrow> P (xs @ ys)"
  shows "emits (gc_bind m f) P"
  unfolding emits_def
proof
  fix s
  obtain r s1 where m: "m s = (r, s1)" by fastforce
  then obtain e1 where e1: "gs_log s1 = gs_log s @ e1" "P e1" using emitsD [OF assms(1)] by blast
  show "\<exists>ev. gs_log (snd (gc_bind m f s)) = gs_log s @ ev \<and> P ev"
  proof (cases r)
    case (Inl e)
    with m e1 show ?thesis by (auto simp: gc_bind_def)
  next
    case (Inr a)
    obtain e2 where "gs_log (snd (f a s1)) = gs_log s1 @ e2" "P e2"
      using assms(2) unfolding emits_def by blast
    with m e1 Inr assms(3) show ?thesis by (auto simp: gc_bind_def)
  qed
qed

text \<open>Lists of calls of allowed kinds.\<close>

lemma emits_all_bind:
  "emits m (list_all K) \<Longrightarrow> (\<And>a. emits (f a) (list_all K)) \<Longrightarrow> emits (gc_bind m f) (list_all K)"
  by (rule emits_bind) simp_all

lemmas emits_intros = emits_quiet emits_call emits_attempt emits_all_bind

fun lease_call :: "gc_call \<Rightarrow> bool" where
  "lease_call (Now _) = True"
| "lease_call (Renew _) = True"
| "lease_call _ = False"

lemma emits_ensure_current_claim: "emits (ensure_current_claim be ls claim) (list_all lease_call)"
  unfolding ensure_current_claim_def gc_now_def Let_def
  by (auto intro!: emits_intros)

fun completion_call :: "artifact_gc_candidate \<Rightarrow> object_delete_outcome \<Rightarrow> gc_call \<Rightarrow> bool" where
  "completion_call cand outcome (Complete _ c out) = (c = cand \<and> out = outcome)"
| "completion_call cand outcome e = lease_call e"

lemma lease_completion: "lease_call e \<Longrightarrow> completion_call cand outcome e"
  by (cases e) auto

lemma emits_lease_completion: "emits (ensure_current_claim be ls claim) (list_all (completion_call cand outcome))"
  by (rule emits_mono [OF emits_ensure_current_claim]) (auto simp: list_all_iff lease_completion)

lemma emits_complete_attempts:
  "emits (complete_attempts be cand outcome ls dl n claim) (list_all (completion_call cand outcome))"
proof (induction n arbitrary: claim)
  case (Suc n)
  then show ?case
    by (auto intro!: emits_intros emits_lease_completion split: sum.split)
qed (simp add: emits_quiet)

lemma emits_complete_rounds:
  "emits (complete_rounds be cand outcome ls dl n agg claim) (list_all (completion_call cand outcome))"
proof (induction n arbitrary: agg claim)
  case (Suc n)
  then show ?case
    by (auto intro!: emits_intros emits_lease_completion emits_complete_attempts split: prod.split simp: Let_def)
qed (simp add: emits_quiet)

fun failure_call :: "artifact_gc_candidate \<Rightarrow> gc_call \<Rightarrow> bool" where
  "failure_call cand (Fail _ c _) = (c = cand)"
| "failure_call cand e = lease_call e"

lemma emits_record_failure: "emits (record_failure be cand ls claim msg) (list_all (failure_call cand))"
proof -
  have "lease_call e \<Longrightarrow> failure_call cand e" for e by (cases e) auto
  then have "emits (ensure_current_claim be ls claim) (list_all (failure_call cand))"
    by (intro emits_mono [OF emits_ensure_current_claim]) (auto simp: list_all_iff)
  then show ?thesis unfolding record_failure_def by (auto intro!: emits_intros)
qed

section \<open>Objects are deleted before their metadata is completed\<close>

definition deletes_object :: "artifact_gc_candidate \<Rightarrow> object_delete_outcome \<Rightarrow> gc_call \<Rightarrow> bool" where
  "deletes_object c outcome e \<longleftrightarrow> (\<exists>t. e = Delete (unwrap_or [] (storage_path c)) t (Some (Inr outcome)))"

text \<open>
  Every completion call is for a valid candidate and, when an object has to go, comes after a
  deletion of that object with the outcome it reports.
\<close>

fun log_ordered :: "gc_call list \<Rightarrow> gc_call list \<Rightarrow> bool" where
  "log_ordered seen [] = True"
| "log_ordered seen (e # es) =
     ((\<forall>tok c outcome. e = Complete tok c outcome \<longrightarrow> candidate_validate c = Inr () \<and>
         (object_delete_required c \<longrightarrow> list_ex (deletes_object c outcome) seen)) \<and> log_ordered (seen @ [e]) es)"

lemma log_ordered_append: "log_ordered seen (xs @ ys) \<longleftrightarrow> log_ordered seen xs \<and> log_ordered (seen @ xs) ys"
  by (induction xs arbitrary: seen) auto

lemma log_ordered_mono: "log_ordered seen es \<Longrightarrow> set seen \<subseteq> set seen' \<Longrightarrow> log_ordered seen' es"
proof (induction es arbitrary: seen seen')
  case (Cons e es)
  from Cons.IH [of "seen @ [e]" "seen' @ [e]"] Cons.prems show ?case
    by (fastforce simp: list_ex_iff)
qed simp

lemma log_ordered_join: "log_ordered [] xs \<Longrightarrow> log_ordered [] ys \<Longrightarrow> log_ordered [] (xs @ ys)"
  by (simp add: log_ordered_append log_ordered_mono [of "[]"])

lemma log_ordered_completions:
  assumes "list_all (completion_call cand outcome) es" "candidate_validate cand = Inr ()"
    "object_delete_required cand \<Longrightarrow> list_ex (deletes_object cand outcome) seen"
  shows "log_ordered seen es"
  using assms by (induction es arbitrary: seen) auto

lemma log_ordered_silent:
  "\<forall>e \<in> set es. \<forall>tok c outcome. e \<noteq> Complete tok c outcome \<Longrightarrow> log_ordered seen es"
  by (induction es arbitrary: seen) auto

lemma log_ordered_declarative:
  "log_ordered seen (ys @ Complete tok c outcome # zs) \<Longrightarrow>
     candidate_validate c = Inr () \<and> (object_delete_required c \<longrightarrow> list_ex (deletes_object c outcome) (seen @ ys))"
  by (simp add: log_ordered_append)

lemma emits_call_bind:
  assumes "\<And>r. emits (g r) (\<lambda>ys. P (ev r # ys))"
  shows "emits (gc_bind (gc_call f ev Inr) g) P"
  unfolding emits_def
proof
  fix s :: "'b gc_state"
  obtain r b where f: "f (gs_backend s) = (r, b)" by fastforce
  let ?s = "s\<lparr>gs_backend := b, gs_log := gs_log s @ [ev r]\<rparr>"
  obtain ys where "gs_log (snd (g r ?s)) = gs_log ?s @ ys" "P (ev r # ys)"
    using assms unfolding emits_def by blast
  with f show "\<exists>es. gs_log (snd (gc_bind (gc_call f ev Inr) g s)) = gs_log s @ es \<and> P es"
    by (intro exI [of _ "ev r # ys"]) (simp add: gc_bind_def gc_call_def)
qed

lemma emits_ordered_bind:
  "emits m (log_ordered []) \<Longrightarrow> (\<And>a. emits (f a) (log_ordered [])) \<Longrightarrow> emits (gc_bind m f) (log_ordered [])"
  by (rule emits_bind) (simp_all add: log_ordered_join)

lemma emits_ordered_lease: "emits (ensure_current_claim be ls claim) (log_ordered [])"
  by (rule emits_mono [OF emits_ensure_current_claim]) (auto intro!: log_ordered_silent simp: list_all_iff)

lemma emits_ordered_failure: "emits (record_failure be cand ls claim msg) (log_ordered [])"
  by (rule emits_mono [OF emits_record_failure]) (auto intro!: log_ordered_silent simp: list_all_iff)

lemma emits_after_delete:
  assumes "candidate_validate cand = Inr ()"
    "object_delete_required cand \<Longrightarrow> list_ex (deletes_object cand outcome) seen"
  shows "emits (gc_bind (gc_tally g) (\<lambda>_. complete_claimed_candidate be cand outcome ls dl claim)) (log_ordered seen)"
proof -
  have "emits (gc_bind (gc_tally g) (\<lambda>_. complete_claimed_candidate be cand outcome ls dl claim))
      (list_all (completion_call cand outcome))"
    unfolding complete_claimed_candidate_def by (intro emits_all_bind emits_quiet emits_complete_rounds) simp
  then show ?thesis by (rule emits_mono) (auto intro: log_ordered_completions assms)
qed

lemma emits_process_claimed: "emits (process_claimed_candidate be ls dl cand claim) (log_ordered [])"
proof (cases "candidate_validate cand")
  case (Inl e)
  then show ?thesis by (simp add: process_claimed_candidate_def emits_ordered_failure)
next
  case (Inr u)
  then have v: "candidate_validate cand = Inr ()" by simp
  let ?p = "unwrap_or [] (storage_path cand)"
  have del: "emits (case d of
        None \<Rightarrow> gc_throw (LeaseLost ''object deletion reached claim deadline'')
      | Some (Inr outcome) \<Rightarrow> gc_bind (gc_tally (\<lambda>t. case outcome of
              ObjDeleted \<Rightarrow> t\<lparr>objects_deleted := inc (objects_deleted t)\<rparr>
            | ObjMissing \<Rightarrow> t\<lparr>objects_missing := inc (objects_missing t)\<rparr>)) (\<lambda>_.
          complete_claimed_candidate be cand outcome ls dl claim)
      | Some (Inl e) \<Rightarrow> record_failure be cand ls claim (take 1000 e)) (\<lambda>ys. log_ordered [] (Delete ?p t d # ys))" for d t claim
  proof (cases d)
    case (Some r)
    show ?thesis
    proof (cases r)
      case (Inl e)
      with Some show ?thesis
        using emits_mono [OF emits_ordered_failure, of "\<lambda>ys. log_ordered [] (Delete ?p t d # ys)"]
        by (simp add: log_ordered_mono [of "[]"])
    next
      case (Inr outcome)
      have "list_ex (deletes_object cand outcome) [Delete ?p t d]" using Some Inr by (simp add: deletes_object_def)
      from emits_after_delete [OF v this] Some Inr show ?thesis by simp
    qed
  qed (simp add: emits_quiet)
  show ?thesis
    unfolding process_claimed_candidate_def v gc_now_def
    by (auto intro!: emits_ordered_bind emits_ordered_lease emits_ordered_failure emits_after_delete [OF v]
        emits_call_bind [OF del] emits_quiet emits_call)
qed

lemma emits_ordered_batches:
  "emits (process_items be ls dl cands claim) (log_ordered [])"
  "emits (gc_batches be bs ls dl n) (log_ordered [])"
proof -
  show items: "emits (process_items be ls dl cands claim) (log_ordered [])" for cands claim
  proof (induction cands arbitrary: claim)
    case (Cons cand cands)
    then show ?case
      by (auto intro!: emits_ordered_bind emits_attempt emits_process_claimed emits_quiet
          split: sum.split gc_error.split)
  qed (simp add: emits_quiet)
  show "emits (gc_batches be bs ls dl n) (log_ordered [])"
    by (induction n) (auto intro!: emits_ordered_bind emits_quiet emits_call items)
qed

lemma emits_ordered_reconcile:
  "emits (reconcile_items be deadline items) (log_ordered [])"
  "emits (reconcile_stale_write_sets be ls n) (log_ordered [])"
proof -
  show items: "emits (reconcile_items be deadline items) (log_ordered [])" for items deadline
  proof (induction items)
    case (Cons item items)
    then show ?case unfolding reconcile_items.simps gc_now_def staging_handoff_def
      by (auto intro!: emits_ordered_bind emits_quiet emits_call split: option.split sum.split)
  qed (simp add: emits_quiet)
  show "emits (reconcile_stale_write_sets be ls n) (log_ordered [])"
  proof (induction n)
    case (Suc n)
    then show ?case unfolding reconcile_stale_write_sets.simps gc_now_def staging_handoff_def
      by (auto intro!: emits_ordered_bind emits_quiet emits_call items split: list.split)
  qed (simp add: emits_quiet)
qed

lemma emits_ordered_run: "emits (run_artifact_gc be options) (log_ordered [])"
  unfolding run_artifact_gc_def
  by (auto intro!: emits_ordered_bind emits_quiet emits_call emits_ordered_batches emits_ordered_reconcile)

section \<open>Accounting\<close>

definition core :: "artifact_gc_totals \<Rightarrow> u64 \<times> u64 \<times> u64 \<times> u64 \<times> u64" where
  "core t = (batches t, candidates t, completed t, retryable_failures t, lease_handoffs t)"

definition keeps_core :: "('s, 'a) gc \<Rightarrow> bool" where
  "keeps_core m \<longleftrightarrow> (\<forall>s. core (gs_totals (snd (m s))) = core (gs_totals s))"

text \<open>A settled candidate is counted once, as completed or as a retryable failure.\<close>

definition settled_one :: "artifact_gc_totals \<Rightarrow> artifact_gc_totals \<Rightarrow> bool" where
  "settled_one t t' \<longleftrightarrow> batches t' = batches t \<and> candidates t' = candidates t \<and> lease_handoffs t' = lease_handoffs t \<and>
     (completed t' = inc (completed t) \<and> retryable_failures t' = retryable_failures t \<or>
      completed t' = completed t \<and> retryable_failures t' = inc (retryable_failures t))"

definition settles :: "('s, 'a) gc \<Rightarrow> bool" where
  "settles m \<longleftrightarrow> (\<forall>s. case fst (m s) of
     Inr _ \<Rightarrow> settled_one (gs_totals s) (gs_totals (snd (m s)))
   | Inl _ \<Rightarrow> core (gs_totals (snd (m s))) = core (gs_totals s))"

lemma settled_one_core: "core t = core u \<Longrightarrow> settled_one t t' = settled_one u t'"
  by (simp add: core_def settled_one_def)

lemma keeps_core_basic:
  "keeps_core (gc_return a)" "keeps_core (gc_throw e)" "keeps_core (gc_lift r)" "keeps_core gc_totals"
  "(\<And>t. core (f t) = core t) \<Longrightarrow> keeps_core (gc_tally f)" "keeps_core (gc_call g ev res)"
  by (simp_all add: keeps_core_def gc_return_def gc_throw_def gc_lift_def gc_totals_def gc_tally_def gc_call_def
      split: prod.split)

lemma keeps_core_bind:
  assumes "keeps_core m" "\<And>a. keeps_core (f a)"
  shows "keeps_core (gc_bind m f)"
  unfolding keeps_core_def
proof
  fix s
  obtain r s1 where m: "m s = (r, s1)" by fastforce
  then have "core (gs_totals s1) = core (gs_totals s)" using assms(1) unfolding keeps_core_def by (metis snd_conv)
  moreover have "core (gs_totals (snd (f a s1))) = core (gs_totals s1)" for a using assms(2) unfolding keeps_core_def by blast
  ultimately show "core (gs_totals (snd (gc_bind m f s))) = core (gs_totals s)"
    using m by (cases r) (simp_all add: gc_bind_def)
qed

lemma keeps_core_attempt: "keeps_core m \<Longrightarrow> keeps_core (gc_attempt m)"
  by (simp add: keeps_core_def gc_attempt_def case_prod_unfold)

lemmas keeps_core_intros = keeps_core_basic keeps_core_bind keeps_core_attempt

lemma settles_bind:
  assumes "keeps_core m" "\<And>a. settles (f a)"
  shows "settles (gc_bind m f)"
  unfolding settles_def
proof
  fix s
  obtain r s1 where m: "m s = (r, s1)" by fastforce
  then have c: "core (gs_totals s1) = core (gs_totals s)" using assms(1) unfolding keeps_core_def by (metis snd_conv)
  have f: "case fst (f a s1) of
     Inr _ \<Rightarrow> settled_one (gs_totals s) (gs_totals (snd (f a s1)))
   | Inl _ \<Rightarrow> core (gs_totals (snd (f a s1))) = core (gs_totals s)" for a
    using assms(2) [of a, unfolded settles_def, rule_format, of s1] by (simp add: c settled_one_core [OF c] split: sum.splits)
  show "case fst (gc_bind m f s) of
     Inr _ \<Rightarrow> settled_one (gs_totals s) (gs_totals (snd (gc_bind m f s)))
   | Inl _ \<Rightarrow> core (gs_totals (snd (gc_bind m f s))) = core (gs_totals s)"
  proof (cases r)
    case (Inr a)
    then have "gc_bind m f s = f a s1" using m by (simp add: gc_bind_def)
    with f [of a] show ?thesis by (simp split: sum.splits)
  qed (use m c in \<open>simp add: gc_bind_def\<close>)
qed

lemma settles_throw: "settles (gc_throw e)"
  by (simp add: settles_def gc_throw_def)

lemma settles_tally:
  "(\<And>t. settled_one t (f t)) \<Longrightarrow> settles (gc_bind (gc_tally f) (\<lambda>_. gc_return a))"
  by (simp add: settles_def gc_bind_def gc_tally_def gc_return_def)

lemma keeps_core_ensure: "keeps_core (ensure_current_claim be ls claim)"
  unfolding ensure_current_claim_def gc_now_def Let_def by (auto intro!: keeps_core_intros)

lemma keeps_core_attempts: "keeps_core (complete_attempts be cand outcome ls dl n claim)"
proof (induction n arbitrary: claim)
  case (Suc n)
  then show ?case by (auto intro!: keeps_core_intros keeps_core_ensure split: sum.split)
qed (simp add: keeps_core_basic)

lemma settles_rounds: "settles (complete_rounds be cand outcome ls dl n agg claim)"
proof (induction n arbitrary: agg claim)
  case (Suc n)
  then show ?case
    by (auto intro!: settles_bind [OF keeps_core_ensure] settles_bind [OF keeps_core_attempts] settles_tally
        simp: settled_one_def Let_def split: prod.split)
qed (simp add: settles_throw)

lemma settles_failure: "settles (record_failure be cand ls claim msg)"
  unfolding record_failure_def
  by (intro settles_bind [OF keeps_core_ensure] settles_bind [OF keeps_core_basic(6)] settles_tally)
     (simp add: settled_one_def)

lemma settles_process: "settles (process_claimed_candidate be ls dl cand claim)"
proof -
  have core: "core (case outcome of ObjDeleted \<Rightarrow> t\<lparr>objects_deleted := inc (objects_deleted t)\<rparr>
            | ObjMissing \<Rightarrow> t\<lparr>objects_missing := inc (objects_missing t)\<rparr>) = core t" for outcome t
    by (cases outcome) (simp_all add: core_def)
  show ?thesis
    unfolding process_claimed_candidate_def complete_claimed_candidate_def gc_now_def
    by (auto intro!: settles_bind settles_rounds settles_failure settles_throw keeps_core_basic keeps_core_ensure
        simp: core core_def split: sum.split option.split)
       (simp_all add: core_def split: object_delete_outcome.split)
qed

abbreviation settled :: "artifact_gc_totals \<Rightarrow> nat" where
  "settled t \<equiv> completed t + retryable_failures t"

lemma settled_one_exact:
  assumes "settled_one t t'" "settled t < u64_max"
  shows "settled t' = settled t + 1" "batches t' = batches t" "candidates t' = candidates t" "lease_handoffs t' = lease_handoffs t"
  using assms by (auto simp: settled_one_def saturating_add_def)

text \<open>The candidates of one claim: all settled, or a handoff after a prefix of them.\<close>

lemma process_items_accounting:
  assumes "process_items be ls dl cands claim s = (Inr finished, s')" "settled (gs_totals s) + length cands < u64_max"
    "lease_handoffs (gs_totals s) = 0"
  shows "batches (gs_totals s') = batches (gs_totals s) \<and> candidates (gs_totals s') = candidates (gs_totals s) \<and>
    settled (gs_totals s') \<le> settled (gs_totals s) + length cands \<and>
    (if finished then settled (gs_totals s') = settled (gs_totals s) + length cands \<and> lease_handoffs (gs_totals s') = 0
     else lease_handoffs (gs_totals s') = 1)"
  using assms
proof (induction cands arbitrary: claim s)
  case Nil
  then show ?case by (auto simp: gc_return_def)
next
  case (Cons cand cands)
  obtain r s1 where p: "process_claimed_candidate be ls dl cand claim s = (r, s1)" by fastforce
  have st: "case r of Inr _ \<Rightarrow> settled_one (gs_totals s) (gs_totals s1) | Inl _ \<Rightarrow> core (gs_totals s1) = core (gs_totals s)"
    using settles_process [of be ls dl cand claim, unfolded settles_def, rule_format, of s] p
    by (simp split: sum.splits)
  have lt: "settled (gs_totals s) < u64_max" using Cons.prems(2) by simp
  show ?case
  proof (cases r)
    case (Inr claim')
    note one = settled_one_exact [OF _ lt, of "gs_totals s1"]
    have rest: "process_items be ls dl cands claim' s1 = (Inr finished, s')"
      using Cons.prems(1) p Inr by (simp add: gc_bind_def gc_attempt_def)
    from Cons.IH [OF rest] one st Inr Cons.prems(2,3) show ?thesis by (auto split: if_splits)
  next
    case (Inl e)
    then show ?thesis
      using Cons.prems p st
      by (cases e) (auto simp: gc_bind_def gc_attempt_def gc_tally_def gc_return_def gc_throw_def core_def
          saturating_add_def u64_max_def)
  qed
qed

lemma gc_batches_accounting:
  assumes "gc_batches be bs ls dl n s = (Inr (), s')" "0 < bs" "bs \<le> 500"
    "candidates (gs_totals s) + n * nat bs < u64_max" "batches (gs_totals s) + n < u64_max"
    "settled (gs_totals s) = candidates (gs_totals s)" "lease_handoffs (gs_totals s) = 0"
  shows "settled (gs_totals s') \<le> candidates (gs_totals s') \<and>
    batches (gs_totals s') \<le> batches (gs_totals s) + n \<and>
    candidates (gs_totals s') + batches (gs_totals s) * nat bs \<le> candidates (gs_totals s) + batches (gs_totals s') * nat bs \<and>
    (lease_handoffs (gs_totals s') = 0 \<longrightarrow> settled (gs_totals s') = candidates (gs_totals s'))"
  using assms
proof (induction n arbitrary: s)
  case 0
  then show ?case by (simp add: gc_return_def)
next
  case (Suc n)
  obtain r b where call: "be_claim be bs ls (gs_backend s) = (r, b)" by fastforce
  let ?s1 = "s\<lparr>gs_backend := b, gs_log := gs_log s @ [Claim bs]\<rparr>"
  from Suc.prems(1) call obtain claim where r: "r = Inr claim" and len: "length (claim_items claim) \<le> nat bs"
    by (cases r) (auto simp: gc_bind_def gc_call_def gc_throw_def split: if_splits)
  show ?case
  proof (cases "claim_items claim = []")
    case True
    with Suc.prems call r show ?thesis by (auto simp: gc_bind_def gc_call_def gc_return_def)
  next
    case False
    let ?t = "gs_totals s" and ?k = "length (claim_items claim)"
    let ?s2 = "?s1\<lparr>gs_totals := ?t\<lparr>batches := inc (batches ?t), candidates := saturating_add (candidates ?t) ?k\<rparr>\<rparr>"
    have add: "inc (batches ?t) = batches ?t + 1" "saturating_add (candidates ?t) ?k = candidates ?t + ?k"
      using Suc.prems(4,5) len by (simp_all add: saturating_add_def)
    obtain finished s3 where items: "process_items be ls dl (claim_items claim) claim ?s2 = (Inr finished, s3)"
      and rest: "(if finished then gc_batches be bs ls dl n else gc_return ()) s3 = (Inr (), s')"
      using Suc.prems(1) call r len False
      by (auto simp: gc_bind_def gc_call_def gc_tally_def split: prod.splits sum.splits if_splits)
    have lt: "settled (gs_totals ?s2) + ?k < u64_max" using Suc.prems(4,6) len by simp
    note acc = process_items_accounting [OF items lt]
    show ?thesis
    proof (cases finished)
      case True
      have "gc_batches be bs ls dl n s3 = (Inr (), s')" using rest True by simp
      from Suc.IH [OF this Suc.prems(2,3)] acc add Suc.prems(4-7) len True show ?thesis
        by (auto simp: algebra_simps)
    next
      case False
      with rest acc add Suc.prems(4-7) len show ?thesis by (auto simp: gc_return_def)
    qed
  qed
qed

lemma validated_range_iff: "validated_range name limit v = Inr w \<longleftrightarrow> w = v \<and> 1 \<le> v \<and> v \<le> limit"
  by (auto simp: validated_range_def)

lemma keeps_core_reconcile: "keeps_core (reconcile_stale_write_sets be ls n)"
proof -
  have tally: "core (case out of ObjDeleted \<Rightarrow> t\<lparr>staging_objects_deleted := inc (staging_objects_deleted t)\<rparr>
            | ObjMissing \<Rightarrow> t\<lparr>staging_objects_missing := inc (staging_objects_missing t)\<rparr>) = core t" for out t
    by (cases out) (simp_all add: core_def)
  have handoff: "keeps_core staging_handoff"
    unfolding staging_handoff_def by (rule keeps_core_basic(5)) (simp add: core_def)
  have items: "keeps_core (reconcile_items be deadline items)" for deadline items
  proof (induction items)
    case (Cons item items)
    then show ?case unfolding reconcile_items.simps gc_now_def
      by (auto intro!: keeps_core_intros handoff simp: tally split: option.split sum.split)
  qed (simp add: keeps_core_basic)
  show ?thesis
  proof (induction n)
    case (Suc n)
    have "core (t\<lparr>staging_write_sets_cleaned := inc (staging_write_sets_cleaned t)\<rparr>) = core t" for t
      by (simp add: core_def)
    with Suc show ?case unfolding reconcile_stale_write_sets.simps gc_now_def
      by (auto intro!: keeps_core_intros handoff items split: list.split)
  qed (simp add: keeps_core_basic)
qed

section \<open>Properties of the collector\<close>

text \<open>
  C7. Object before metadata. In the calls of a whole run, a completion is only ever requested for
  a valid candidate, and when the candidate has an object to delete, that object's deletion was
  called earlier in the run and returned exactly the outcome the completion reports; a failed or
  timed-out deletion never reaches completion.
\<close>

theorem gc_deletes_before_completing:
  "\<exists>ev. gs_log (snd (run_artifact_gc be options s)) = gs_log s @ ev \<and>
    (\<forall>ys tok c outcome zs. ev = ys @ Complete tok c outcome # zs \<longrightarrow>
       candidate_validate c = Inr () \<and>
       (object_delete_required c \<longrightarrow> (\<exists>t. Delete (unwrap_or [] (storage_path c)) t (Some (Inr outcome)) \<in> set ys)))"
proof -
  obtain ev where ev: "gs_log (snd (run_artifact_gc be options s)) = gs_log s @ ev" "log_ordered [] ev"
    using emits_ordered_run [of be options] unfolding emits_def by blast
  have "candidate_validate c = Inr () \<and>
       (object_delete_required c \<longrightarrow> (\<exists>t. Delete (unwrap_or [] (storage_path c)) t (Some (Inr outcome)) \<in> set ys))"
    if "ev = ys @ Complete tok c outcome # zs" for ys tok c outcome zs
    using log_ordered_declarative [of "[]" ys tok c outcome zs] ev(2) that
    by (auto simp: list_ex_iff deletes_object_def)
  with ev(1) show ?thesis by blast
qed

definition demo_candidate :: artifact_gc_candidate where
  "demo_candidate = \<lparr>artifact_id = ''a1'', storage_bucket = Some ''b'', storage_path = Some ''x/y'', artifact_role = ''r'',
     lifecycle_state = ''expired'', gc_phase = ObjectDelete, object_delete_required = True,
     checksum_sha256 = replicate 64 CHR ''0'', artifact_expires_at = ''t''\<rparr>"

text \<open>A backend whose state is the number of claims still to be handed out and whose clock stands still.\<close>

definition demo_backend :: "nat gc_backend" where
  "demo_backend = \<lparr>expected_bucket = ''b'', parse_rfc3339 = (\<lambda>_. Inr 1000000000000), be_now = (\<lambda>s. (0, s)),
     be_preview = (\<lambda>_ s. (Inr [demo_candidate], s)),
     be_claim = (\<lambda>_ _ s. (Inr \<lparr>claim_token = ''k'', lease_expires_at = ''t'',
        claim_items = (if s = 0 then [] else [demo_candidate])\<rparr>, s - 1)),
     be_renew = (\<lambda>k _ s. (Inr \<lparr>renewal_token = k, renewal_expires_at = ''t'', renewal_artifact_ids = []\<rparr>, s)),
     be_delete_object = (\<lambda>_ _ s. (Some (Inr ObjDeleted), s)),
     be_complete = (\<lambda>_ _ _ _ s. (Inr completion_default, s)),
     be_fail = (\<lambda>_ _ _ s. (Inr (), s)),
     be_claim_stale_write_sets = (\<lambda>_ _ s. (Inr \<lparr>reconcile_token = ''r'', ws_lease_expires_at = ''t'', write_sets = []\<rparr>, s)),
     be_complete_stale_write_set = (\<lambda>_ _ s. (Inr (), s))\<rparr>"

definition demo_options :: "bool \<Rightarrow> artifact_gc_run_options" where
  "demo_options exec = \<lparr>ro_batch_size = 2, ro_max_batches = 3, ro_lease_seconds = 60, ro_detail_limit = 5, ro_execute = exec\<rparr>"

definition demo_start :: "nat gc_state" where
  "demo_start = \<lparr>gs_backend = 1, gs_totals = totals_default, gs_log = []\<rparr>"

theorem gc_deletes_before_completing_witness:
  "\<exists>ev. gs_log (snd (run_artifact_gc demo_backend (demo_options True) demo_start)) = ev \<and>
    (\<forall>ys tok c outcome zs. ev = ys @ Complete tok c outcome # zs \<longrightarrow> candidate_validate c = Inr ())"
proof -
  have "gs_log demo_start = []" by (simp add: demo_start_def)
  then show ?thesis
    using gc_deletes_before_completing [of demo_backend "demo_options True" demo_start] by (metis append_Nil)
qed

text \<open>
  Accounting. A run that executes and succeeds claims at most \<open>max_batches\<close> batches of at most
  \<open>batch_size\<close> candidates, never counts a candidate twice, and without a lease handoff every
  claimed candidate was either completed or recorded as a retryable failure.
\<close>

theorem gc_run_accounts_for_candidates:
  assumes "run_artifact_gc be options s = (Inr report, s')" "ro_execute options"
  shows "let t = report_totals report in
    completed t + retryable_failures t \<le> candidates t \<and> batches t \<le> nat (ro_max_batches options) \<and>
    candidates t \<le> batches t * nat (ro_batch_size options) \<and>
    (lease_handoffs t = 0 \<longrightarrow> completed t + retryable_failures t = candidates t)"
proof -
  let ?bs = "ro_batch_size options" and ?mb = "ro_max_batches options" and ?ls = "ro_lease_seconds options"
  let ?dl = "ro_detail_limit options"
  have opts: "1 \<le> ?bs" "?bs \<le> 500" "1 \<le> ?mb" "?mb \<le> 100"
    "validated_batch_size ?bs = Inr ?bs" "validated_max_batches ?mb = Inr ?mb"
    "validated_lease_seconds ?ls = Inr ?ls" "validated_detail_limit ?dl = Inr ?dl"
    using assms(1)
    by (auto simp: run_artifact_gc_def gc_bind_def gc_lift_def validated_batch_size_def validated_max_batches_def
        validated_lease_seconds_def validated_detail_limit_def validated_range_def ARTIFACT_GC_MAX_BATCH_SIZE_def
        ARTIFACT_GC_MAX_BATCHES_def split: if_splits)
  obtain s1 where s1: "reconcile_stale_write_sets be ?ls (nat ?mb) (s\<lparr>gs_totals := totals_default\<rparr>) = (Inr (), s1)"
    and rest: "(if staging_reconcile_handoffs (gs_totals s1) > 0 then gc_return ()
        else gc_batches be ?bs ?ls ?dl (nat ?mb)) s1 = (Inr (), s')" "report_totals report = gs_totals s'"
    using assms opts(5-8)
    by (auto simp: run_artifact_gc_def gc_bind_def gc_lift_def gc_tally_def gc_totals_def gc_return_def
        split: prod.splits sum.splits if_splits)
  have core: "core (gs_totals s1) = core totals_default"
    using keeps_core_reconcile [of be ?ls "nat ?mb", unfolded keeps_core_def, rule_format, of "s\<lparr>gs_totals := totals_default\<rparr>"] s1
    by simp
  then have zero: "batches (gs_totals s1) = 0" "candidates (gs_totals s1) = 0" "completed (gs_totals s1) = 0"
    "retryable_failures (gs_totals s1) = 0" "lease_handoffs (gs_totals s1) = 0"
    by (simp_all add: core_def totals_default_def)
  show ?thesis
  proof (cases "staging_reconcile_handoffs (gs_totals s1) > 0")
    case True
    with rest zero show ?thesis by (auto simp: gc_return_def)
  next
    case False
    have "nat ?mb * nat ?bs \<le> 100 * 500" using opts by (intro mult_le_mono) auto
    moreover have "nat ?mb \<le> 100" using opts by simp
    ultimately have "candidates (gs_totals s1) + nat ?mb * nat ?bs < u64_max" "batches (gs_totals s1) + nat ?mb < u64_max"
      using zero by (simp_all add: u64_max_def)
    with gc_batches_accounting [of be ?bs ?ls ?dl "nat ?mb" s1 s'] rest False opts zero show ?thesis
      by (simp add: Let_def)
  qed
qed

lemma demo_candidate_valid: "candidate_validate demo_candidate = Inr ()"
proof -
  have "validate_storage_path ''x/y'' = Inr ()" by code_simp
  then show ?thesis by (simp add: candidate_validate_def demo_candidate_def trim_def trim_start_def is_whitespace_def
      is_ascii_hexdigit_def less_eq_char_def list_all_iff)
qed

lemma demo_backend_fields:
  "expected_bucket demo_backend = ''b''" "parse_rfc3339 demo_backend text = Inr 1000000000000"
  "be_now demo_backend b = (0, b)" "be_delete_object demo_backend n path b = (Some (Inr ObjDeleted), b)"
  "be_claim demo_backend n l b = (Inr \<lparr>claim_token = ''k'', lease_expires_at = ''t'',
        claim_items = (if b = 0 then [] else [demo_candidate])\<rparr>, b - 1)"
  "be_complete demo_backend k c out n b = (Inr completion_default, b)"
  "be_claim_stale_write_sets demo_backend n l b =
     (Inr \<lparr>reconcile_token = ''r'', ws_lease_expires_at = ''t'', write_sets = []\<rparr>, b)"
  by (simp_all add: demo_backend_def)

lemmas demo_step = demo_backend_fields gc_bind_def gc_lift_def gc_call_def gc_return_def gc_now_def gc_tally_def
  gc_attempt_def gc_totals_def claim_deadline_def

lemma demo_lease: "ensure_current_claim demo_backend 60 claim s = (Inr claim, s\<lparr>gs_log := gs_log s @ [Now 0]\<rparr>)"
  by (simp add: ensure_current_claim_def demo_step renew_margin_def)

lemma demo_complete:
  "\<exists>s'. complete_claimed_candidate demo_backend demo_candidate out 60 5 claim s = (Inr claim, s') \<and> gs_backend s' = gs_backend s"
proof -
  have c: "ARTIFACT_GC_MAX_COMPLETION_ROUNDS = Suc 9999" "ARTIFACT_GC_COMPLETION_CALL_ATTEMPTS = Suc 2"
    by (simp_all add: ARTIFACT_GC_MAX_COMPLETION_ROUNDS_def ARTIFACT_GC_COMPLETION_CALL_ATTEMPTS_def)
  have "details_remaining completion_default = 0" by (simp add: completion_default_def)
  then show ?thesis
    by (simp only: complete_claimed_candidate_def c(1) complete_rounds.simps(2))
       (simp only: c(2) complete_attempts.simps(2) demo_step demo_lease Let_def, simp)
qed

lemma demo_process:
  "\<exists>s'. process_claimed_candidate demo_backend 60 5 demo_candidate claim s = (Inr claim, s') \<and> gs_backend s' = gs_backend s"
proof -
  let ?t = "gs_totals s"
  let ?s = "s\<lparr>gs_log := gs_log s @ [Now 0, Now 0, Delete ''x/y'' 1000000000000 (Some (Inr ObjDeleted))],
      gs_totals := ?t\<lparr>objects_deleted := inc (objects_deleted ?t)\<rparr>\<rparr>"
  have "process_claimed_candidate demo_backend 60 5 demo_candidate claim s =
      complete_claimed_candidate demo_backend demo_candidate ObjDeleted 60 5 claim ?s"
    using demo_candidate_valid
    by (simp add: process_claimed_candidate_def demo_step demo_lease) (simp add: demo_candidate_def)
  with demo_complete [of ObjDeleted claim ?s] show ?thesis by simp
qed

lemma demo_run:
  "\<exists>report s'. run_artifact_gc demo_backend (demo_options True) demo_start = (Inr report, s')"
proof -
  let ?claim = "\<lparr>claim_token = ''k'', lease_expires_at = ''t'', claim_items = [demo_candidate]\<rparr>"
  have "\<exists>s'. gc_batches demo_backend 2 60 5 (Suc (Suc 1)) s = (Inr (), s')" if "gs_backend s = 1" for s
  proof -
    have items: "\<exists>s'. process_items demo_backend 60 5 [demo_candidate] ?claim s1 = (Inr True, s') \<and> gs_backend s' = gs_backend s1" for s1
      using demo_process [of ?claim s1] by (auto simp: gc_bind_def gc_attempt_def gc_return_def)
    have "\<exists>s'. gc_batches demo_backend 2 60 5 (Suc 1) s1 = (Inr (), s')" if "gs_backend s1 = 0" for s1
      using that by (simp add: demo_step)
    then show ?thesis
      using that items [of "s\<lparr>gs_backend := 0, gs_log := gs_log s @ [Claim 2], gs_totals := (gs_totals s)\<lparr>
          batches := inc (batches (gs_totals s)), candidates := saturating_add (candidates (gs_totals s)) 1\<rparr>\<rparr>"]
      by (subst gc_batches.simps(2)) (auto simp: demo_step simp del: gc_batches.simps process_items.simps)
  qed
  then obtain s' where "gc_batches demo_backend 2 60 5 (Suc (Suc 1))
      (demo_start\<lparr>gs_totals := totals_default, gs_log := gs_log demo_start @ [ClaimStale]\<rparr>) = (Inr (), s')"
    by (metis demo_start_def gc_state.select_convs(1) gc_state.update_convs(2,3))
  then show ?thesis
    by (simp add: run_artifact_gc_def demo_options_def validated_batch_size_def validated_max_batches_def validated_lease_seconds_def
        validated_detail_limit_def validated_range_def ARTIFACT_GC_MAX_BATCH_SIZE_def ARTIFACT_GC_MAX_BATCHES_def
        ARTIFACT_GC_MAX_LEASE_SECONDS_def ARTIFACT_GC_MAX_DETAIL_LIMIT_def numeral_3_eq_3 demo_step totals_default_def
        del: gc_batches.simps)
qed

theorem gc_run_accounts_for_candidates_witness:
  "\<exists>report s'. run_artifact_gc demo_backend (demo_options True) demo_start = (Inr report, s') \<and>
     completed (report_totals report) + retryable_failures (report_totals report) \<le> candidates (report_totals report)"
proof -
  obtain report s' where r: "run_artifact_gc demo_backend (demo_options True) demo_start = (Inr report, s')"
    using demo_run by blast
  with gc_run_accounts_for_candidates [OF r] show ?thesis by (auto simp: Let_def demo_options_def)
qed

text \<open>
  Nothing is touched without a valid request: out-of-range options are refused before any
  backend call, and a run that does not execute makes exactly one call, the preview.
\<close>

theorem gc_dry_run_is_harmless:
  "(\<not> (1 \<le> ro_batch_size options \<and> ro_batch_size options \<le> 500 \<and> 1 \<le> ro_max_batches options \<and> ro_max_batches options \<le> 100 \<and>
      1 \<le> ro_lease_seconds options \<and> ro_lease_seconds options \<le> 3600 \<and>
      1 \<le> ro_detail_limit options \<and> ro_detail_limit options \<le> 50000) \<longrightarrow>
      (\<exists>e. run_artifact_gc be options s = (Inl e, s))) \<and>
   (\<not> ro_execute options \<longrightarrow>
      gs_log (snd (run_artifact_gc be options s)) \<in> {gs_log s, gs_log s @ [Preview (ro_batch_size options)]})"
proof -
  note defs = run_artifact_gc_def gc_bind_def gc_lift_def validated_batch_size_def validated_max_batches_def
    validated_lease_seconds_def validated_detail_limit_def validated_range_def ARTIFACT_GC_MAX_BATCH_SIZE_def
    ARTIFACT_GC_MAX_BATCHES_def ARTIFACT_GC_MAX_LEASE_SECONDS_def ARTIFACT_GC_MAX_DETAIL_LIMIT_def
  show ?thesis
    by (auto simp: defs gc_call_def gc_throw_def gc_return_def split: prod.split sum.split)
qed

theorem gc_dry_run_is_harmless_witness:
  "gs_log (snd (run_artifact_gc demo_backend (demo_options False) demo_start)) \<in> {[], [Preview 2]}"
  using gc_dry_run_is_harmless [of "demo_options False" demo_backend demo_start]
  by (simp add: demo_options_def demo_start_def)

text \<open>
  The storage path of an accepted object-deletion candidate cannot leave the bucket: trimmed, it
  is not empty, has no backslash, and none of its slash-separated segments is empty or a dot or a
  double dot; an accepted detail-cleanup candidate carries no locator at all.
\<close>

theorem validated_candidate_locator:
  assumes "candidate_validate c = Inr ()"
  shows "if object_delete_required c
    then \<exists>path. storage_path c = Some path \<and> CHR 0x5C \<notin> set (trim path) \<and>
      (\<forall>segment \<in> set (split_on CHR ''/'' (trim path)). segment \<notin> {[], ''.'', ''..''}) \<and> storage_bucket c \<noteq> None
    else storage_path c = None \<and> storage_bucket c = None"
proof (cases "gc_phase c")
  case ObjectDelete
  have tn: "trim [] = []" by (simp add: trim_def trim_start_def)
  from ObjectDelete assms have req: "object_delete_required c" "trim (unwrap_or [] (storage_bucket c)) \<noteq> []"
    "validate_storage_path (unwrap_or [] (storage_path c)) = Inr ()"
    by (auto simp: candidate_validate_def res_simps)
  from req(3) tn have "storage_path c \<noteq> None"
    by (cases "storage_path c") (auto simp: validate_storage_path_def Let_def res_simps)
  then obtain path where path: "storage_path c = Some path" by blast
  from req(3) path have "CHR 0x5C \<notin> set (trim path)"
    "\<forall>segment \<in> set (split_on CHR ''/'' (trim path)). segment \<notin> {[], ''.'', ''..''}"
    by (auto simp: validate_storage_path_def Let_def res_simps list_ex_iff)
  moreover have "storage_bucket c \<noteq> None" using req(2) tn by (cases "storage_bucket c") auto
  ultimately show ?thesis using req(1) path by auto
next
  case DetailCleanup
  with assms show ?thesis by (auto simp: candidate_validate_def res_simps)
qed

theorem validated_candidate_locator_witness:
  "\<exists>path. storage_path demo_candidate = Some path \<and> CHR 0x5C \<notin> set (trim path)"
proof -
  have "object_delete_required demo_candidate" by (simp add: demo_candidate_def)
  with validated_candidate_locator [OF demo_candidate_valid] show ?thesis by auto
qed

lemma details_rounds_finish:
  assumes step: "\<And>s. \<exists>c s'. complete s = (Inr c, s') \<and> details_remaining c = left s' \<and> (left s' < left s \<or> left s' = 0)"
    and "left s \<le> n" "0 < n" "n \<le> ARTIFACT_GC_MAX_COMPLETION_ROUNDS"
  shows "\<exists>round agg' s'. details_rounds complete n agg s = (Inr (round, agg'), s') \<and> details_remaining agg' = 0 \<and>
    ARTIFACT_GC_MAX_COMPLETION_ROUNDS - n < round \<and> round \<le> ARTIFACT_GC_MAX_COMPLETION_ROUNDS - n + max 1 (left s)"
  using assms(2-4)
proof (induction n arbitrary: agg s)
  case (Suc n)
  obtain c s' where c: "complete s = (Inr c, s')" "details_remaining c = left s'" "left s' < left s \<or> left s' = 0"
    using step by blast
  have three: "ARTIFACT_GC_COMPLETION_CALL_ATTEMPTS = Suc 2" by (simp add: ARTIFACT_GC_COMPLETION_CALL_ATTEMPTS_def)
  have att: "details_attempts complete ARTIFACT_GC_COMPLETION_CALL_ATTEMPTS s = (Inr c, s')"
    unfolding three details_attempts.simps using c(1) by simp
  show ?case
  proof (cases "left s' = 0")
    case True
    then show ?thesis using att c Suc.prems by (auto simp: Let_def add_completion_def)
  next
    case False
    then have lt: "left s' < left s" using c(3) by simp
    then have "left s' \<le> n" "0 < n" using Suc.prems False by simp_all
    then obtain round agg' s'' where "details_rounds complete n (add_completion agg c) s' = (Inr (round, agg'), s'')"
      "details_remaining agg' = 0" "ARTIFACT_GC_MAX_COMPLETION_ROUNDS - n < round"
      "round \<le> ARTIFACT_GC_MAX_COMPLETION_ROUNDS - n + max 1 (left s')"
      using Suc.IH [of s' "add_completion agg c"] Suc.prems by auto
    then show ?thesis using att c False lt Suc.prems by (auto simp: Let_def)
  qed
qed simp

text \<open>
  Detail cleanup finishes: if every completion call succeeds and reports a number of remaining
  details that decreases (or is zero), starting from at most the allowed number of rounds, then
  \<open>complete_artifact_details\<close> returns after at most that many rounds with nothing remaining.
\<close>

theorem complete_artifact_details_finishes:
  assumes "\<And>s. \<exists>c s'. complete s = (Inr c, s') \<and> details_remaining c = left s' \<and> (left s' < left s \<or> left s' = 0)"
    and "left s \<le> 10000"
  shows "\<exists>round agg s'. complete_artifact_details complete s = (Inr (round, agg), s') \<and>
    details_remaining agg = 0 \<and> 1 \<le> round \<and> round \<le> max 1 (left s)"
proof -
  have "left s \<le> ARTIFACT_GC_MAX_COMPLETION_ROUNDS" "0 < ARTIFACT_GC_MAX_COMPLETION_ROUNDS"
    using assms(2) by (simp_all add: ARTIFACT_GC_MAX_COMPLETION_ROUNDS_def)
  from details_rounds_finish [OF assms(1) this order_refl, of completion_default] show ?thesis
    unfolding complete_artifact_details_def by auto
qed

theorem complete_artifact_details_finishes_witness:
  "\<exists>round agg s'. complete_artifact_details
      (\<lambda>n. (Inr \<lparr>details_remaining = n - 1, gcc_deleted_occurrences = 1, gcc_deleted_affected_roots = 0,
                gcc_deleted_issues = 0\<rparr>, n - 1)) (7 :: nat) = (Inr (round, agg), s') \<and> round \<le> 7"
  using complete_artifact_details_finishes [of "\<lambda>n. (Inr \<lparr>details_remaining = n - 1, gcc_deleted_occurrences = 1,
      gcc_deleted_affected_roots = 0, gcc_deleted_issues = 0\<rparr>, n - 1)" "\<lambda>n. n" 7] by force

text \<open>
  The callback variant deletes the object first: unless the candidate is a detail cleanup, the
  completion closure is called only with the outcome the deletion closure returned for the
  candidate's path; a bucket mismatch or a failed deletion is recorded and never completed.
\<close>

theorem process_candidate_delete_first:
  assumes "candidate_validate cand = Inr ()" "object_delete_required cand"
  shows "process_artifact_gc_candidate cand bucket delete complete_gc failure s =
    (let path = unwrap_or [] (storage_path cand) in
     if storage_bucket cand \<noteq> Some bucket
     then (case failure (''artifact_gc_bucket_mismatch: candidate_bucket='' @ unwrap_or [] (storage_bucket cand) @
             '', configured_bucket='' @ bucket) s of (Inl e, s') \<Rightarrow> (Inl e, s') | (Inr _, s') \<Rightarrow> (Inr RetryRecorded, s'))
     else case delete path s of
       (Inr outcome, s') \<Rightarrow> (case complete_gc outcome s' of
          (Inl e, s'') \<Rightarrow> (Inl e, s'') | (Inr _, s'') \<Rightarrow> (Inr (CompletedObject outcome), s''))
     | (Inl e, s') \<Rightarrow> (case failure e s' of
          (Inl e', s'') \<Rightarrow> (Inl e', s'') | (Inr _, s'') \<Rightarrow> (Inr RetryRecorded, s'')))"
proof -
  have tn: "trim [] = []" by (simp add: trim_def trim_start_def)
  have "gc_phase cand = ObjectDelete" using assms by (cases "gc_phase cand") (auto simp: candidate_validate_def res_simps)
  then have "storage_bucket cand \<noteq> None"
    using assms(1) tn by (cases "storage_bucket cand") (auto simp: candidate_validate_def res_simps)
  then obtain b where "storage_bucket cand = Some b" by blast
  then show ?thesis using assms by (simp add: process_artifact_gc_candidate_def Let_def)
qed

theorem process_candidate_delete_first_witness:
  "process_artifact_gc_candidate demo_candidate ''b'' (\<lambda>p log. (Inr ObjMissing, log @ [p]))
     (\<lambda>out log. (Inr (), log @ [''complete''])) (\<lambda>msg log. (Inr (), log @ [''fail''])) [] =
   (Inr (CompletedObject ObjMissing), [''x/y'', ''complete''])"
proof -
  have c: "object_delete_required demo_candidate" "storage_bucket demo_candidate = Some ''b''"
    "storage_path demo_candidate = Some ''x/y''" by (simp_all add: demo_candidate_def)
  show ?thesis unfolding process_candidate_delete_first [OF demo_candidate_valid c(1)] by (simp add: c)
qed

end
