(* ===== verification/Contribution_Path.thy ===== *)
theory Contribution_Path
  imports Solver_Service
begin

text \<open>
  Contribution-path analysis of \<open>crates/solver-worker/src/contribution_path.rs\<close>: the direct impact
  of every process, and a bounded depth-first walk over the provider graph from a root process. The
  walk recurses until the depth bound. Theorems: the option bounds, that every reported branch
  is a path of the provider graph from the root within the depth bound and cut at its first
  repetition, that at most \<open>max_nodes\<close> processes are expanded, and when the analysis succeeds.
\<close>

section \<open>The snapshot index\<close>

text \<open>
  Of the index document (\<open>crates/solver-worker/src/snapshot_index.rs\<close>) the optional calculation
  evidence is left out: nothing here reads it. Identifiers are their printed form.
\<close>

record snapshot_process_map_entry =
  pe_process_id :: uuid
  pe_process_index :: i32
  pe_process_version :: string
  pe_process_name :: "string option"
  pe_location :: "string option"

record snapshot_impact_map_entry =
  ie_impact_id :: uuid
  ie_impact_index :: i32
  ie_impact_version :: "string option"
  ie_impact_key :: string
  ie_impact_name :: string
  ie_unit :: string

record snapshot_index_document =
  si_version :: nat
  si_snapshot_id :: uuid
  si_process_count :: i32
  si_impact_count :: i32
  si_process_map :: "snapshot_process_map_entry list"
  si_impact_map :: "snapshot_impact_map_entry list"

definition derive_snapshot_index_url :: "string \<Rightarrow> string" where
  "derive_snapshot_index_url artifact_url =
     (if CHR ''/'' \<in> set artifact_url
      then rev (dropWhile (\<lambda>c. c \<noteq> CHR ''/'') (rev artifact_url)) @ ''snapshot-index-v1.json''
      else artifact_url @ ''/snapshot-index-v1.json'')"

section \<open>Options\<close>

definition DIRECT_EPSILON :: f64 where
  "DIRECT_EPSILON = f64_lit (1 / 10 ^ 12)"

record contribution_path_options =
  max_depth :: usize
  top_k_children :: usize
  cutoff_share :: f64
  max_nodes :: usize

definition default_cutoff_share :: f64 where
  "default_cutoff_share = f64_lit (1 / 100)"

definition contribution_path_options_default :: contribution_path_options where
  "contribution_path_options_default =
     \<lparr>max_depth = 4, top_k_children = 5, cutoff_share = default_cutoff_share, max_nodes = 200\<rparr>"

definition clamp_nat :: "nat \<Rightarrow> nat \<Rightarrow> nat \<Rightarrow> nat" where
  "clamp_nat lo hi n = (if n < lo then lo else if n > hi then hi else n)"

definition normalized :: "contribution_path_options \<Rightarrow> contribution_path_options" where
  "normalized self =
     \<lparr>max_depth = clamp_nat 1 8 (max_depth self),
      top_k_children = clamp_nat 1 20 (top_k_children self),
      cutoff_share = (if is_finite (cutoff_share self) \<and> Fin 0 \<le> cutoff_share self
                      then f64_min (cutoff_share self) (Fin 1) else default_cutoff_share),
      max_nodes = clamp_nat 10 2000 (max_nodes self)\<rparr>"

section \<open>Results\<close>

record path_process_contribution =
  pc_process_id :: uuid
  pc_process_index :: i32
  pc_label :: string
  pc_location :: "string option"
  pc_direct_impact :: f64
  pc_share_of_total :: f64
  pc_is_root :: bool
  pc_depth_min :: "usize option"

record path_branch =
  br_rank :: usize
  br_path_process_ids :: "uuid list"
  br_path_labels :: "string list"
  br_path_score :: f64
  br_terminal_reason :: string

record path_link =
  ln_source_process_id :: uuid
  ln_target_process_id :: uuid
  ln_depth_from_root :: usize
  ln_cycle_cut :: bool
  ln_direct_impact :: f64
  ln_share_of_total :: f64

record contribution_path_summary =
  sm_total_impact :: f64
  sm_unit :: string
  sm_coverage_ratio :: f64
  sm_expanded_node_count :: usize
  sm_truncated_node_count :: usize
  sm_computed_at :: string

record contribution_path_root =
  rt_process_id :: uuid
  rt_label :: string

record contribution_path_impact =
  im_impact_id :: uuid
  im_label :: string
  im_unit :: string

record contribution_path_meta =
  mt_source :: string
  mt_snapshot_index_version :: nat

record contribution_path_artifact =
  ar_version :: nat
  ar_format :: string
  ar_snapshot_id :: uuid
  ar_job_id :: uuid
  ar_process_id :: uuid
  ar_impact_id :: uuid
  ar_amount :: f64
  ar_options :: contribution_path_options
  ar_summary :: contribution_path_summary
  ar_root :: contribution_path_root
  ar_impact :: contribution_path_impact
  ar_process_contributions :: "path_process_contribution list"
  ar_branches :: "path_branch list"
  ar_links :: "path_link list"
  ar_meta :: contribution_path_meta

datatype path_error =
    MissingX
  | MissingH
  | ProcessIndexOverflow i32
  | ImpactIndexOverflow i32
  | ProcessCountOverflow i32
  | XLengthMismatch usize i32
  | ImpactOutOfBounds i32 usize
  | ProcessOutOfBounds i32 usize
  | RootProcessMissing
  | ImpactMissing
  | FlowIndexOverflow i32
  | BiosphereFlowOverflow i32
  | BiosphereProcessOverflow i32
  | BiosphereProcessOutOfRange usize usize
  | ProviderOverflow i32
  | ConsumerOverflow i32
  | TechnosphereOutOfBounds usize usize usize
  | CurrentIndexOverflow i32
  | CurrentIndexMissing
  | ProviderMissing i32
  | IndexMissing i32

section \<open>Direct contributions\<close>

text \<open>The characterization factor of the analysed impact per flow.\<close>

definition add_cf :: "i32 \<Rightarrow> (usize \<times> f64) list \<Rightarrow> f64 sparse_triplet \<Rightarrow> path_error + (usize \<times> f64) list" where
  "add_cf impact_index acc cf =
     (if s_row cf = impact_index
      then res_bind (ok_or (FlowIndexOverflow (s_col cf)) (usize_try_from (s_col cf))) (\<lambda>flow.
           Inr (AList.update flow (unwrap_or (Fin 0) (map_of acc flow) + s_value cf) acc))
      else Inr acc)"

definition add_intensity ::
  "(usize \<times> f64) list \<Rightarrow> f64 list \<Rightarrow> f64 sparse_triplet \<Rightarrow> path_error + f64 list" where
  "add_intensity cf_by_flow acc triplet =
     res_bind (ok_or (BiosphereFlowOverflow (s_row triplet)) (usize_try_from (s_row triplet))) (\<lambda>flow.
     case map_of cf_by_flow flow of
       None \<Rightarrow> Inr acc
     | Some cf_value \<Rightarrow>
         res_bind (ok_or (BiosphereProcessOverflow (s_col triplet)) (usize_try_from (s_col triplet))) (\<lambda>process.
         if process \<ge> length acc then Inl (BiosphereProcessOutOfRange process (length acc))
         else Inr (acc[process := acc ! process + cf_value * s_value triplet])))"

text \<open>Activity times intensity per process.\<close>

definition direct_contributions :: "i32 \<Rightarrow> f64 model_sparse_data \<Rightarrow> f64 list \<Rightarrow> path_error + f64 list" where
  "direct_contributions impact_index data x =
     res_bind (try_fold (add_cf impact_index) [] (characterization_factors data)) (\<lambda>cf_by_flow.
     res_bind (try_fold (add_intensity cf_by_flow) (replicate (length x) (Fin 0)) (biosphere_entries data)) (\<lambda>intensity.
     Inr (map2 (*) x intensity)))"

definition total_abs_contribution :: "f64 list \<Rightarrow> f64" where
  "total_abs_contribution direct = f64_max (f64_sum (map (\<lambda>v. \<bar>v\<bar>) direct)) DIRECT_EPSILON"

definition add_provider :: "usize \<Rightarrow> i32 list list \<Rightarrow> f64 sparse_triplet \<Rightarrow> path_error + i32 list list" where
  "add_provider n adjacency triplet =
     res_bind (ok_or (ProviderOverflow (s_row triplet)) (usize_try_from (s_row triplet))) (\<lambda>provider.
     res_bind (ok_or (ConsumerOverflow (s_col triplet)) (usize_try_from (s_col triplet))) (\<lambda>consumer.
     if provider \<ge> n \<or> consumer \<ge> n
     then Inl (TechnosphereOutOfBounds provider consumer n)
     else Inr (adjacency[consumer := adjacency ! consumer @ [s_row triplet]])))"

definition build_provider_adjacency :: "f64 model_sparse_data \<Rightarrow> path_error + i32 list list" where
  "build_provider_adjacency data =
     res_bind (ok_or (ProcessCountOverflow (process_count data)) (usize_try_from (process_count data))) (\<lambda>n.
     res_bind (try_fold (add_provider n) (replicate n []) (technosphere_entries data)) (\<lambda>adjacency.
     Inr (map (\<lambda>providers. remdups_adj (sort providers)) adjacency)))"

section \<open>The walk\<close>

text \<open>
  What the walk reads: the graph, the contributions and the index entries by process index (the
  last entry wins, as when a map is collected from an iterator).
\<close>

record walk_context =
  wc_adjacency :: "i32 list list"
  wc_direct :: "f64 list"
  wc_total_abs :: f64
  wc_meta :: "i32 \<Rightarrow> snapshot_process_map_entry option"
  wc_options :: contribution_path_options

record traversal_state =
  expanded_nodes :: "i32 list"
  min_depth :: "(i32 \<times> usize) list"
  truncated_node_count :: usize
  tv_branches :: "path_branch list"
  tv_links :: "path_link list"

definition meta_by_index :: "snapshot_process_map_entry list \<Rightarrow> i32 \<Rightarrow> snapshot_process_map_entry option" where
  "meta_by_index process_map i = List.find (\<lambda>e. pe_process_index e = i) (rev process_map)"

definition process_id_for_index :: "walk_context \<Rightarrow> i32 \<Rightarrow> path_error + uuid" where
  "process_id_for_index cx i = ok_or (IndexMissing i) (map_option pe_process_id (wc_meta cx i))"

definition entry_label :: "snapshot_process_map_entry \<Rightarrow> string" where
  "entry_label e = unwrap_or (pe_process_id e) (pe_process_name e)"

definition label_for_index :: "walk_context \<Rightarrow> i32 \<Rightarrow> path_error + string" where
  "label_for_index cx i = ok_or (IndexMissing i) (map_option entry_label (wc_meta cx i))"

text \<open>\<open>get\<close> of a contribution by an \<open>i32\<close> index that may be negative or too large.\<close>

definition direct_at :: "f64 list \<Rightarrow> i32 \<Rightarrow> f64 option" where
  "direct_at direct i = Option.bind (usize_try_from i) (vec_get direct)"

definition path_score :: "f64 list \<Rightarrow> i32 list \<Rightarrow> f64" where
  "path_score direct path = f64_sum (map (\<lambda>v. \<bar>v\<bar>) (List.map_filter (direct_at direct) (drop 1 path)))"

definition record_branch :: "walk_context \<Rightarrow> i32 list \<Rightarrow> string \<Rightarrow> traversal_state \<Rightarrow> path_error + traversal_state" where
  "record_branch cx path reason st =
     res_bind (try_map (process_id_for_index cx) path) (\<lambda>ids.
     res_bind (try_map (label_for_index cx) path) (\<lambda>labels.
     Inr (st\<lparr>tv_branches := tv_branches st @
        [\<lparr>br_rank = 0, br_path_process_ids = ids, br_path_labels = labels,
          br_path_score = path_score (wc_direct cx) path, br_terminal_reason = reason\<rparr>]\<rparr>)))"

type_synonym ranked = "i32 \<times> f64 \<times> f64"

text \<open>Decreasing magnitude of the contribution, then increasing index.\<close>

definition ranked_le :: "ranked \<Rightarrow> ranked \<Rightarrow> bool" where
  "ranked_le l r =
     (let a = \<bar>fst (snd l)\<bar>; b = \<bar>fst (snd r)\<bar> in
      total_le b a \<and> (\<not> total_le a b \<or> fst l \<le> fst r))"

definition rank_providers :: "walk_context \<Rightarrow> i32 list \<Rightarrow> ranked list" where
  "rank_providers cx providers =
     filter (\<lambda>(_, _, share). cutoff_share (wc_options cx) \<le> share)
       (List.map_filter (\<lambda>p. map_option (\<lambda>direct. (p, direct, f64_div \<bar>direct\<bar> (wc_total_abs cx)))
                              (direct_at (wc_direct cx) p)) providers)"

definition push_link ::
  "walk_context \<Rightarrow> i32 \<Rightarrow> uuid \<Rightarrow> usize \<Rightarrow> bool \<Rightarrow> f64 \<Rightarrow> f64 \<Rightarrow> traversal_state \<Rightarrow> path_error + traversal_state" where
  "push_link cx source target depth cycle direct share st =
     res_bind (process_id_for_index cx source) (\<lambda>source_id.
     Inr (st\<lparr>tv_links := tv_links st @
        [\<lparr>ln_source_process_id = source_id, ln_target_process_id = target, ln_depth_from_root = depth,
          ln_cycle_cut = cycle, ln_direct_impact = direct, ln_share_of_total = share\<rparr>]\<rparr>))"

definition truncate_by :: "usize \<Rightarrow> traversal_state \<Rightarrow> traversal_state" where
  "truncate_by n st = st\<lparr>truncated_node_count := truncated_node_count st + n\<rparr>"

definition note_depth :: "i32 \<Rightarrow> usize \<Rightarrow> traversal_state \<Rightarrow> traversal_state" where
  "note_depth p depth st =
     st\<lparr>expanded_nodes := List.insert p (expanded_nodes st),
        min_depth := AList.update p (case map_of (min_depth st) p of None \<Rightarrow> depth | Some d \<Rightarrow> min d depth) (min_depth st)\<rparr>"

text \<open>
  One iteration of the loop over the ranked providers; \<open>descend\<close> is the recursive call. The state
  carries \<open>expanded_any\<close>.
\<close>

definition walk_child ::
  "walk_context \<Rightarrow> (i32 \<Rightarrow> i32 list \<Rightarrow> traversal_state \<Rightarrow> path_error + traversal_state)
   \<Rightarrow> i32 \<Rightarrow> usize \<Rightarrow> i32 list \<Rightarrow> traversal_state \<times> bool \<Rightarrow> nat \<times> ranked \<Rightarrow> path_error + (traversal_state \<times> bool)" where
  "walk_child cx descend current depth path acc child =
     (case acc of (st, any) \<Rightarrow> case child of (position, p, direct, share) \<Rightarrow>
        if position \<ge> top_k_children (wc_options cx) then Inr (truncate_by 1 st, any)
        else
        res_bind (ok_or (ProviderMissing p) (wc_meta cx p)) (\<lambda>target.
        if p \<in> set path
        then res_bind (push_link cx current (pe_process_id target) (depth + 1) True direct share st) (\<lambda>st.
             res_bind (record_branch cx (path @ [p]) ''cycle_cut'' (truncate_by 1 st)) (\<lambda>st.
             Inr (st, True)))
        else if p \<notin> set (expanded_nodes st) \<and> length (expanded_nodes st) \<ge> max_nodes (wc_options cx)
        then res_bind (record_branch cx (path @ [p]) ''max_nodes'' (truncate_by 1 st)) (\<lambda>st.
             Inr (st, True))
        else
        res_bind (push_link cx current (pe_process_id target) (depth + 1) False direct share
                   (note_depth p (depth + 1) st)) (\<lambda>st.
        res_bind (descend p (path @ [p]) st) (\<lambda>st.
        Inr (st, True)))))"

function walk :: "walk_context \<Rightarrow> usize \<Rightarrow> i32 \<Rightarrow> i32 list \<Rightarrow> traversal_state \<Rightarrow> path_error + traversal_state" where
  "walk cx depth =
     (if depth \<ge> max_depth (wc_options cx)
      then (\<lambda>current path st. record_branch cx path ''max_depth'' (truncate_by 1 st))
      else (\<lambda>current path st.
        res_bind (ok_or (CurrentIndexOverflow current) (usize_try_from current)) (\<lambda>i.
        res_bind (ok_or CurrentIndexMissing (vec_get (wc_adjacency cx) i)) (\<lambda>providers.
        if providers = [] then record_branch cx path ''leaf'' st
        else
        let ranked = rank_providers cx providers in
        if ranked = [] then record_branch cx path ''cutoff'' (truncate_by (length providers) st)
        else
        res_bind (try_fold (walk_child cx (walk cx (depth + 1)) current depth path) (st, False)
                   (enumerate 0 (sort_by ranked_le ranked))) (\<lambda>(st, expanded_any).
        if \<not> expanded_any then record_branch cx path ''top_k'' st else Inr st)))))"
  by pat_completeness auto

termination walk
  by (relation "measure (\<lambda>(cx, depth). max_depth (wc_options cx) - depth)") auto

declare walk.simps [simp del]

text \<open>Branches by decreasing score, then by the joined labels.\<close>

fun join :: "string \<Rightarrow> string list \<Rightarrow> string" where
  "join sep [] = []"
| "join sep [x] = x"
| "join sep (x # y # ys) = x @ sep @ join sep (y # ys)"

definition branch_le :: "path_branch \<Rightarrow> path_branch \<Rightarrow> bool" where
  "branch_le l r =
     (let a = br_path_score l; b = br_path_score r in
      total_le b a \<and> (\<not> total_le a b \<or> join '' > '' (br_path_labels l) \<le> join '' > '' (br_path_labels r)))"

definition number_branches :: "path_branch list \<Rightarrow> path_branch list" where
  "number_branches bs = map (\<lambda>(i, b). b\<lparr>br_rank := i + 1\<rparr>) (enumerate 0 bs)"

definition traverse_upstream :: "walk_context \<Rightarrow> i32 \<Rightarrow> path_error + traversal_state" where
  "traverse_upstream cx root_index =
     res_bind (walk cx 0 root_index [root_index]
       \<lparr>expanded_nodes = [root_index], min_depth = [(root_index, 0)], truncated_node_count = 0, tv_branches = [], tv_links = []\<rparr>) (\<lambda>st.
     Inr (st\<lparr>tv_branches := number_branches (sort_by branch_le (tv_branches st))\<rparr>))"

section \<open>The analysis\<close>

definition contribution_of_entry ::
  "walk_context \<Rightarrow> i32 \<Rightarrow> traversal_state \<Rightarrow> snapshot_process_map_entry \<Rightarrow> path_process_contribution option" where
  "contribution_of_entry cx process_index st e =
     Option.bind (direct_at (wc_direct cx) (pe_process_index e)) (\<lambda>direct.
     if \<bar>direct\<bar> \<le> DIRECT_EPSILON \<and> pe_process_index e \<noteq> process_index then None
     else Some \<lparr>pc_process_id = pe_process_id e, pc_process_index = pe_process_index e, pc_label = entry_label e,
                pc_location = pe_location e, pc_direct_impact = direct,
                pc_share_of_total = f64_div \<bar>direct\<bar> (wc_total_abs cx),
                pc_is_root = (pe_process_index e = process_index),
                pc_depth_min = map_of (min_depth st) (pe_process_index e)\<rparr>)"

definition contribution_le :: "path_process_contribution \<Rightarrow> path_process_contribution \<Rightarrow> bool" where
  "contribution_le l r =
     (let a = \<bar>pc_direct_impact l\<bar>; b = \<bar>pc_direct_impact r\<bar> in
      total_le b a \<and> (\<not> total_le a b \<or> pc_label l \<le> pc_label r))"

text \<open>
  \<open>hash_order\<close> is the order in which the hash set of expanded nodes is iterated (the sum of the
  covered contributions is taken in that order), \<open>computed_at\<close> the formatted clock reading.
\<close>

definition analyze_contribution_path ::
  "(i32 list \<Rightarrow> i32 list) \<Rightarrow> string \<Rightarrow> uuid \<Rightarrow> uuid \<Rightarrow> uuid \<Rightarrow> uuid \<Rightarrow> i32 \<Rightarrow> i32 \<Rightarrow> f64 \<Rightarrow> contribution_path_options
   \<Rightarrow> snapshot_index_document \<Rightarrow> f64 model_sparse_data \<Rightarrow> solve_result \<Rightarrow> path_error + contribution_path_artifact" where
  "analyze_contribution_path hash_order computed_at snapshot_id job_id process_id impact_id process_index impact_index
     amount options snapshot_index data solved =
     (let norm = normalized options in
     res_bind (ok_or MissingX (sr_x solved)) (\<lambda>x.
     res_bind (ok_or MissingH (sr_h solved)) (\<lambda>h.
     res_bind (ok_or (ProcessIndexOverflow process_index) (usize_try_from process_index)) (\<lambda>root_index.
     res_bind (ok_or (ImpactIndexOverflow impact_index) (usize_try_from impact_index)) (\<lambda>target_impact.
     res_bind (ok_or (ProcessCountOverflow (process_count data)) (usize_try_from (process_count data))) (\<lambda>n.
     res_bind (ensure (length x = n) (XLengthMismatch (length x) (process_count data))) (\<lambda>_.
     res_bind (ensure (target_impact < length h) (ImpactOutOfBounds impact_index (length h))) (\<lambda>_.
     res_bind (ensure (root_index < length x) (ProcessOutOfBounds process_index (length x))) (\<lambda>_.
     res_bind (ok_or RootProcessMissing
        (List.find (\<lambda>e. pe_process_index e = process_index) (si_process_map snapshot_index))) (\<lambda>root_process.
     res_bind (ok_or ImpactMissing
        (List.find (\<lambda>e. ie_impact_index e = impact_index) (si_impact_map snapshot_index))) (\<lambda>impact.
     res_bind (direct_contributions impact_index data x) (\<lambda>direct.
     let total_impact = h ! target_impact;
         total_abs = total_abs_contribution direct
     in
     res_bind (build_provider_adjacency data) (\<lambda>adjacency.
     let cx = \<lparr>wc_adjacency = adjacency, wc_direct = direct, wc_total_abs = total_abs,
               wc_meta = meta_by_index (si_process_map snapshot_index), wc_options = norm\<rparr>
     in
     res_bind (traverse_upstream cx process_index) (\<lambda>st.
     let covered_abs = f64_sum (map (\<lambda>v. \<bar>v\<bar>) (List.map_filter (direct_at direct) (hash_order (expanded_nodes st))))
     in
     Inr \<lparr>ar_version = 1, ar_format = ''contribution-path:v1'', ar_snapshot_id = snapshot_id, ar_job_id = job_id,
          ar_process_id = process_id, ar_impact_id = impact_id, ar_amount = amount, ar_options = norm,
          ar_summary = \<lparr>sm_total_impact = total_impact, sm_unit = ie_unit impact,
            sm_coverage_ratio = f64_clamp (Fin 0) (Fin 1) (f64_div covered_abs total_abs),
            sm_expanded_node_count = length (expanded_nodes st),
            sm_truncated_node_count = truncated_node_count st, sm_computed_at = computed_at\<rparr>,
          ar_root = \<lparr>rt_process_id = pe_process_id root_process, rt_label = entry_label root_process\<rparr>,
          ar_impact = \<lparr>im_impact_id = ie_impact_id impact, im_label = ie_impact_name impact, im_unit = ie_unit impact\<rparr>,
          ar_process_contributions = sort_by contribution_le
            (List.map_filter (contribution_of_entry cx process_index st) (si_process_map snapshot_index)),
          ar_branches = tv_branches st, ar_links = tv_links st,
          ar_meta = \<lparr>mt_source = ''solve_one_path_analysis'', mt_snapshot_index_version = si_version snapshot_index\<rparr>\<rparr>))))))))))))))"

section \<open>Paths of the provider graph\<close>

text \<open>
  An edge the walk can follow leads from a process to one of its listed providers whose share of the
  total is at least the cutoff. An open path starts at the root and repeats no process; a closed
  path is the list of processes of a reported branch.
\<close>

definition share_of :: "walk_context \<Rightarrow> f64 \<Rightarrow> f64" where
  "share_of cx direct = f64_div \<bar>direct\<bar> (wc_total_abs cx)"

definition provider_edge :: "walk_context \<Rightarrow> i32 \<Rightarrow> i32 \<Rightarrow> bool" where
  "provider_edge cx c p =
     (0 \<le> c \<and> nat c < length (wc_adjacency cx) \<and> p \<in> set (wc_adjacency cx ! nat c) \<and>
      (case direct_at (wc_direct cx) p of
         None \<Rightarrow> False
       | Some direct \<Rightarrow> cutoff_share (wc_options cx) \<le> share_of cx direct))"

definition open_path :: "walk_context \<Rightarrow> i32 \<Rightarrow> i32 list \<Rightarrow> bool" where
  "open_path cx r path =
     (path \<noteq> [] \<and> hd path = r \<and> successively (provider_edge cx) path \<and> distinct path)"

definition closed_path :: "walk_context \<Rightarrow> i32 \<Rightarrow> i32 list \<Rightarrow> string \<Rightarrow> bool" where
  "closed_path cx r path reason =
     (path \<noteq> [] \<and> hd path = r \<and> successively (provider_edge cx) path \<and> distinct (butlast path) \<and>
      length path \<le> max_depth (wc_options cx) + 1 \<and> (reason = ''cycle_cut'' \<longleftrightarrow> \<not> distinct path))"

lemma open_path_snoc:
  assumes "open_path cx r path" "provider_edge cx (last path) p" "p \<notin> set path"
  shows "open_path cx r (path @ [p])"
  using assms by (auto simp: open_path_def successively_append_iff)

lemma closed_path_snoc:
  assumes "open_path cx r path" "provider_edge cx (last path) p" "length path \<le> max_depth (wc_options cx)"
    "reason = ''cycle_cut'' \<longleftrightarrow> p \<in> set path"
  shows "closed_path cx r (path @ [p]) reason"
  using assms by (auto simp: open_path_def closed_path_def successively_append_iff)

lemma closed_path_open:
  assumes "open_path cx r path" "length path \<le> max_depth (wc_options cx) + 1" "reason \<noteq> ''cycle_cut''"
  shows "closed_path cx r path reason"
  using assms by (auto simp: open_path_def closed_path_def distinct_butlast)

lemma rank_providersD:
  assumes "(p, direct, share) \<in> set (rank_providers cx providers)"
  shows "p \<in> set providers \<and> direct_at (wc_direct cx) p = Some direct \<and> share = share_of cx direct \<and>
         cutoff_share (wc_options cx) \<le> share"
  using assms by (auto simp: rank_providers_def share_of_def map_filter_def)

lemma in_enumerateD: "(i, x) \<in> set (enumerate n xs) \<Longrightarrow> x \<in> set xs"
  by (induction xs arbitrary: n) auto

section \<open>Invariants of the walk\<close>

text \<open>
  The walk changes its state by four actions: it counts truncated nodes, notes the depth of a
  process it descends into, pushes a link and records a branch. A property of the state that the
  four keep, on the paths the walk can be on, holds after the walk.
\<close>

locale traversal_invariant =
  fixes inv :: "walk_context \<Rightarrow> i32 \<Rightarrow> traversal_state \<Rightarrow> bool"
  assumes inv_truncate: "inv cx r st \<Longrightarrow> inv cx r (truncate_by n st)"
    and inv_record: "inv cx r st \<Longrightarrow> closed_path cx r path reason
      \<Longrightarrow> record_branch cx path reason st = Inr st' \<Longrightarrow> inv cx r st'"
    and inv_link: "inv cx r st \<Longrightarrow> provider_edge cx c p \<Longrightarrow> wc_meta cx p = Some target
      \<Longrightarrow> direct_at (wc_direct cx) p = Some direct \<Longrightarrow> 0 < depth \<Longrightarrow> depth \<le> max_depth (wc_options cx)
      \<Longrightarrow> push_link cx c (pe_process_id target) depth cycle direct (share_of cx direct) st = Inr st'
      \<Longrightarrow> inv cx r st'"
    and inv_note: "inv cx r st \<Longrightarrow> open_path cx r (path @ [p]) \<Longrightarrow> path \<noteq> []
      \<Longrightarrow> length path \<le> max_depth (wc_options cx)
      \<Longrightarrow> p \<in> set (expanded_nodes st) \<or> length (expanded_nodes st) < max_nodes (wc_options cx)
      \<Longrightarrow> inv cx r (note_depth p (length path) st)"
begin

lemma inv_walk_child:
  assumes inv: "inv cx r st" and path: "open_path cx r path" "last path = current" "length path = depth + 1"
    and depth: "depth < max_depth (wc_options cx)"
    and edge: "provider_edge cx current p" "direct_at (wc_direct cx) p = Some direct" "share = share_of cx direct"
    and descend: "\<And>st st'. inv cx r st \<Longrightarrow> open_path cx r (path @ [p]) \<Longrightarrow> descend p (path @ [p]) st = Inr st'
      \<Longrightarrow> inv cx r st'"
    and step: "walk_child cx descend current depth path (st, any) (position, p, direct, share) = Inr (st', any')"
  shows "inv cx r st'"
proof (cases "position \<ge> top_k_children (wc_options cx)")
  case True
  with step inv show ?thesis by (auto simp: walk_child_def inv_truncate)
next
  case small: False
  then obtain target where target: "wc_meta cx p = Some target"
    using step by (auto simp: walk_child_def res_simps)
  have len: "length path \<le> max_depth (wc_options cx)" using path depth by simp
  have "path \<noteq> []" using path(1) by (simp add: open_path_def)
  consider (cycle) "p \<in> set path"
    | (full) "p \<notin> set path" "p \<notin> set (expanded_nodes st)" "length (expanded_nodes st) \<ge> max_nodes (wc_options cx)"
    | (descend) "p \<notin> set path" "p \<in> set (expanded_nodes st) \<or> length (expanded_nodes st) < max_nodes (wc_options cx)"
    by fastforce
  then show ?thesis
  proof cases
    case cycle
    then obtain st1 where
      link: "push_link cx current (pe_process_id target) (depth + 1) True direct share st = Inr st1" and
      rec: "record_branch cx (path @ [p]) ''cycle_cut'' (truncate_by 1 st1) = Inr st'"
      using step small target by (auto simp: walk_child_def res_simps)
    have "inv cx r st1" by (rule inv_link [OF inv edge(1) target edge(2) _ _ link [unfolded edge(3)]]) (use depth in auto)
    moreover have "closed_path cx r (path @ [p]) ''cycle_cut''"
      using closed_path_snoc [OF path(1) _ len] path(2) edge(1) cycle by simp
    ultimately show ?thesis using inv_record [OF inv_truncate _ rec] by simp
  next
    case full
    then have rec: "record_branch cx (path @ [p]) ''max_nodes'' (truncate_by 1 st) = Inr st'"
      using step small target by (auto simp: walk_child_def res_simps)
    have "closed_path cx r (path @ [p]) ''max_nodes''"
      using closed_path_snoc [OF path(1) _ len] path(2) edge(1) full by simp
    with inv_record [OF inv_truncate [OF inv] _ rec] show ?thesis by simp
  next
    case descend'': descend
    then obtain st1 where
      link: "push_link cx current (pe_process_id target) (depth + 1) False direct share (note_depth p (depth + 1) st) = Inr st1"
      and rec: "descend p (path @ [p]) st1 = Inr st'"
      using step small target by (auto simp: walk_child_def res_simps split: if_splits)
    have op: "open_path cx r (path @ [p])" using open_path_snoc path edge(1) descend'' by simp
    have "inv cx r (note_depth p (depth + 1) st)"
      using inv_note [OF inv op \<open>path \<noteq> []\<close> len descend''(2)] path(3) by simp
    then have "inv cx r st1" by (rule inv_link [OF _ edge(1) target edge(2) _ _ link [unfolded edge(3)]]) (use depth in auto)
    with descend op rec show ?thesis by blast
  qed
qed

lemma inv_walk:
  assumes "inv cx r st" "open_path cx r path" "last path = current" "length path = depth + 1"
    "depth \<le> max_depth (wc_options cx)" "walk cx depth current path st = Inr st'"
  shows "inv cx r st'"
  using assms
proof (induction cx depth arbitrary: current path st st' rule: walk.induct)
  case (1 cx depth)
  show ?case
  proof (cases "depth \<ge> max_depth (wc_options cx)")
    case True
    then have "record_branch cx path ''max_depth'' (truncate_by 1 st) = Inr st'"
      using 1(7) by (simp add: walk.simps [of cx depth])
    moreover have "closed_path cx r path ''max_depth''" using 1 by (intro closed_path_open) auto
    ultimately show ?thesis using inv_record inv_truncate "1.prems"(1) by blast
  next
    case False
    then have depth: "depth < max_depth (wc_options cx)" by simp
    have closed: "closed_path cx r path reason" if "reason \<noteq> ''cycle_cut''" for reason
      using 1 that by (intro closed_path_open) auto
    from False 1(7) obtain i providers where i: "usize_try_from current = Some i"
      and providers: "vec_get (wc_adjacency cx) i = Some providers"
      by (auto simp: walk.simps [of cx depth] res_simps)
    have edge: "provider_edge cx current p" if "(p, direct, share) \<in> set (rank_providers cx providers)" for p direct share
      using rank_providersD [OF that] i providers by (auto simp: provider_edge_def)
    consider (leaf) "providers = []" "record_branch cx path ''leaf'' st = Inr st'"
      | (cutoff) "record_branch cx path ''cutoff'' (truncate_by (length providers) st) = Inr st'"
      | (loop) st1 any where
          "try_fold (walk_child cx (walk cx (depth + 1)) current depth path) (st, False)
             (enumerate 0 (sort_by ranked_le (rank_providers cx providers))) = Inr (st1, any)"
          "(if any then Inr st1 else record_branch cx path ''top_k'' st1) = Inr st'"
      using False 1(7) i providers
      by (auto simp: walk.simps [of cx depth] res_simps Let_def split: if_splits)
    then show ?thesis
    proof cases
      case leaf
      show ?thesis by (rule inv_record [OF "1.prems"(1) closed leaf(2)]) simp
    next
      case cutoff
      show ?thesis by (rule inv_record [OF inv_truncate [OF "1.prems"(1)] closed cutoff]) simp
    next
      case loop
      have "inv cx r (fst (st1, any))"
      proof (rule try_fold_invariant [OF loop(1)])
        show "inv cx r (fst (st, False))" using "1.prems"(1) by simp
      next
        fix s x t
        assume x: "x \<in> set (enumerate 0 (sort_by ranked_le (rank_providers cx providers)))"
          and s: "inv cx r (fst s)" and t: "walk_child cx (walk cx (depth + 1)) current depth path s x = Inr t"
        obtain position p direct share where xx: "x = (position, p, direct, share)" by (cases x) auto
        with x have mem: "(p, direct, share) \<in> set (rank_providers cx providers)"
          using in_enumerateD by fastforce
        then have ne: "providers \<noteq> []" "rank_providers cx providers \<noteq> []"
          using rank_providersD [OF mem] by force+
        have "inv cx r (fst t)"
          by (rule inv_walk_child [OF s "1.prems"(2-4) depth edge [OF mem], where position = position
                and direct = direct and share = share and any = "snd s" and any' = "snd t" and descend = "walk cx (depth + 1)"])
             (use rank_providersD [OF mem] t xx 1(1) [OF False ne(1) refl ne(2)] depth "1.prems"(3,4) in auto)
        then show "inv cx r (fst t)" .
      qed
      then have inv1: "inv cx r st1" by simp
      then show ?thesis using loop(2) inv_record [OF inv1 closed [of "''top_k''"]] by (cases any) auto
    qed
  qed
qed

lemma inv_traverse:
  assumes "traverse_upstream cx r = Inr st"
    and "inv cx r \<lparr>expanded_nodes = [r], min_depth = [(r, 0)], truncated_node_count = 0, tv_branches = [], tv_links = []\<rparr>"
  obtains st0 where "inv cx r st0" "st = st0\<lparr>tv_branches := number_branches (sort_by branch_le (tv_branches st0))\<rparr>"
proof -
  obtain st0 where walk: "walk cx 0 r [r]
      \<lparr>expanded_nodes = [r], min_depth = [(r, 0)], truncated_node_count = 0, tv_branches = [], tv_links = []\<rparr> = Inr st0"
    and st: "st = st0\<lparr>tv_branches := number_branches (sort_by branch_le (tv_branches st0))\<rparr>"
    using assms(1) by (auto simp: traverse_upstream_def res_simps)
  have "inv cx r st0" by (rule inv_walk [OF assms(2) _ _ _ _ walk]) (auto simp: open_path_def)
  with st show ?thesis by (rule that [rotated])
qed

end

section \<open>What the walk reports\<close>

definition branch_of :: "walk_context \<Rightarrow> i32 \<Rightarrow> path_branch \<Rightarrow> bool" where
  "branch_of cx r b \<longleftrightarrow>
     (\<exists>path. closed_path cx r path (br_terminal_reason b) \<and> (\<forall>i \<in> set path. wc_meta cx i \<noteq> None) \<and>
             br_path_process_ids b = map (\<lambda>i. pe_process_id (the (wc_meta cx i))) path \<and>
             br_path_labels b = map (\<lambda>i. entry_label (the (wc_meta cx i))) path \<and>
             br_path_score b = path_score (wc_direct cx) path)"

definition link_of :: "walk_context \<Rightarrow> path_link \<Rightarrow> bool" where
  "link_of cx l \<longleftrightarrow>
     (\<exists>c p source target direct. provider_edge cx c p \<and> wc_meta cx c = Some source \<and> wc_meta cx p = Some target \<and>
        direct_at (wc_direct cx) p = Some direct \<and> ln_source_process_id l = pe_process_id source \<and>
        ln_target_process_id l = pe_process_id target \<and> 0 < ln_depth_from_root l \<and>
        ln_depth_from_root l \<le> max_depth (wc_options cx) \<and> ln_direct_impact l = direct \<and>
        ln_share_of_total l = share_of cx direct)"

definition reported :: "walk_context \<Rightarrow> i32 \<Rightarrow> traversal_state \<Rightarrow> bool" where
  "reported cx r st \<longleftrightarrow> (\<forall>b \<in> set (tv_branches st). branch_of cx r b) \<and> (\<forall>l \<in> set (tv_links st). link_of cx l)"

definition expansion :: "walk_context \<Rightarrow> i32 \<Rightarrow> traversal_state \<Rightarrow> bool" where
  "expansion cx r st \<longleftrightarrow>
     distinct (expanded_nodes st) \<and> r \<in> set (expanded_nodes st) \<and>
     length (expanded_nodes st) \<le> max 1 (max_nodes (wc_options cx)) \<and>
     fst ` set (min_depth st) = set (expanded_nodes st) \<and>
     (\<forall>p d. map_of (min_depth st) p = Some d \<longrightarrow>
        d \<le> max_depth (wc_options cx) \<and> (\<exists>path. open_path cx r path \<and> last path = p \<and> length path = d + 1))"

lemma meta_ids:
  assumes "try_map (process_id_for_index cx) path = Inr ids" "try_map (label_for_index cx) path = Inr labels"
  shows "(\<forall>i \<in> set path. wc_meta cx i \<noteq> None) \<and> ids = map (\<lambda>i. pe_process_id (the (wc_meta cx i))) path \<and>
         labels = map (\<lambda>i. entry_label (the (wc_meta cx i))) path"
  using assms
  by (induction path arbitrary: ids labels) (auto simp: res_simps process_id_for_index_def label_for_index_def)

interpretation rep: traversal_invariant reported
proof (unfold_locales, goal_cases)
  case (1 cx r st n)
  then show ?case by (simp add: reported_def truncate_by_def)
next
  case (2 cx r st path reason st')
  from 2(3) obtain ids labels where ids: "try_map (process_id_for_index cx) path = Inr ids"
    "try_map (label_for_index cx) path = Inr labels"
    and st': "st' = st\<lparr>tv_branches := tv_branches st @ [\<lparr>br_rank = 0, br_path_process_ids = ids,
      br_path_labels = labels, br_path_score = path_score (wc_direct cx) path, br_terminal_reason = reason\<rparr>]\<rparr>"
    by (auto simp: record_branch_def res_simps)
  then show ?case using 2(1,2) meta_ids [OF ids] by (auto simp: reported_def branch_of_def)
next
  case (3 cx r st c p target direct depth cycle st')
  from 3(7) obtain source where source: "wc_meta cx c = Some source"
    and st': "st' = st\<lparr>tv_links := tv_links st @ [\<lparr>ln_source_process_id = pe_process_id source,
      ln_target_process_id = pe_process_id target, ln_depth_from_root = depth, ln_cycle_cut = cycle,
      ln_direct_impact = direct, ln_share_of_total = share_of cx direct\<rparr>]\<rparr>"
    by (auto simp: push_link_def res_simps process_id_for_index_def)
  have "link_of cx (last (tv_links st'))"
    unfolding link_of_def st'
    by (intro exI [of _ c] exI [of _ p] exI [of _ source] exI [of _ target] exI [of _ direct]) (use 3 source in simp)
  with 3(1) st' show ?case by (auto simp: reported_def)
next
  case (4 cx r st path p)
  then show ?case by (simp add: reported_def note_depth_def)
qed

interpretation xp: traversal_invariant expansion
proof (unfold_locales, goal_cases)
  case (1 cx r st n)
  then show ?case by (simp add: expansion_def truncate_by_def)
next
  case (2 cx r st path reason st')
  then have "expanded_nodes st' = expanded_nodes st" "min_depth st' = min_depth st"
    by (auto simp: record_branch_def res_simps)
  with 2(1) show ?case by (simp add: expansion_def)
next
  case (3 cx r st c p target direct depth cycle st')
  then have "expanded_nodes st' = expanded_nodes st" "min_depth st' = min_depth st"
    by (auto simp: push_link_def res_simps)
  with 3(1) show ?case by (simp add: expansion_def)
next
  case (4 cx r st path p)
  have new: "\<exists>q. open_path cx r q \<and> last q = p \<and> length q = length path + 1"
    using 4(2) by (intro exI [of _ "path @ [p]"]) simp
  have card: "length (List.insert p (expanded_nodes st)) \<le> max 1 (max_nodes (wc_options cx))"
    using 4(1,5) by (auto simp: expansion_def List.insert_def)
  have depths: "d \<le> max_depth (wc_options cx) \<and> (\<exists>q. open_path cx r q \<and> last q = p' \<and> length q = d + 1)"
    if "map_of (min_depth (note_depth p (length path) st)) p' = Some d" for p' d
    using that 4(1,4) new
    by (auto simp: expansion_def note_depth_def update_conv' min_def split: option.splits if_splits)
  have "fst ` set (min_depth (note_depth p (length path) st)) = set (expanded_nodes (note_depth p (length path) st))"
    using 4(1) by (simp add: expansion_def note_depth_def)
  with 4(1) depths card show ?case by (auto simp: expansion_def note_depth_def)
qed

lemma number_branches_nth:
  assumes "i < length bs"
  shows "number_branches bs ! i = (bs ! i)\<lparr>br_rank := i + 1\<rparr>"
  using assms by (simp add: number_branches_def nth_enumerate_eq)

lemma length_number_branches [simp]: "length (number_branches bs) = length bs"
  by (simp add: number_branches_def)

lemma branch_of_rank [simp]: "branch_of cx r (b\<lparr>br_rank := k\<rparr>) = branch_of cx r b"
  by (simp add: branch_of_def)

lemma number_branches_all:
  assumes "\<And>b k. P b \<Longrightarrow> P (b\<lparr>br_rank := k\<rparr>)" "\<forall>b \<in> set bs. P b"
  shows "\<forall>b \<in> set (number_branches bs). P b"
  using assms by (auto simp: number_branches_def dest: in_enumerateD)

lemma branch_le_refl: "reflp branch_le"
  by (simp add: reflp_def branch_le_def)

lemma branch_le_total: "totalp branch_le"
  using total_le_linear by (auto simp: totalp_on_def branch_le_def Let_def)

lemma branch_le_trans: "transp branch_le"
  by (rule transpI) (auto simp: branch_le_def Let_def intro: total_le_trans order_trans dest: total_le_trans)

lemma reported_of_traverse:
  assumes "traverse_upstream cx r = Inr st"
  shows "reported cx r st"
proof (rule rep.inv_traverse [OF assms])
  show "reported cx r \<lparr>expanded_nodes = [r], min_depth = [(r, 0)], truncated_node_count = 0, tv_branches = [], tv_links = []\<rparr>"
    by (simp add: reported_def)
next
  fix st0 assume "reported cx r st0" "st = st0\<lparr>tv_branches := number_branches (sort_by branch_le (tv_branches st0))\<rparr>"
  then show ?thesis
    using number_branches_all [of "branch_of cx r" "sort_by branch_le (tv_branches st0)"] by (simp add: reported_def)
qed

lemma expansion_of_traverse:
  assumes "traverse_upstream cx r = Inr st"
  shows "expansion cx r st"
proof (rule xp.inv_traverse [OF assms])
  have "open_path cx r [r]" by (simp add: open_path_def)
  then show "expansion cx r \<lparr>expanded_nodes = [r], min_depth = [(r, 0)], truncated_node_count = 0, tv_branches = [], tv_links = []\<rparr>"
    by (auto simp: expansion_def intro!: exI [of _ "[r]"])
next
  fix st0 assume "expansion cx r st0" "st = st0\<lparr>tv_branches := number_branches (sort_by branch_le (tv_branches st0))\<rparr>"
  then show ?thesis by (simp add: expansion_def)
qed

text \<open>
  C9. Every branch the traversal reports is a path of the provider graph: it starts at the root,
  each step leads to a provider of the previous process with a share of at least the cutoff, it has at
  most \<open>max_depth\<close> steps, and it repeats a process only as its last one, exactly when the branch is
  marked \<open>cycle_cut\<close>; its identifiers, labels and score are those of the path. Every link is an edge
  of that graph with its depth within the bound.
\<close>

theorem traversal_reports_provider_paths:
  assumes "traverse_upstream cx r = Inr st"
  shows "(\<forall>b \<in> set (tv_branches st). branch_of cx r b) \<and> (\<forall>l \<in> set (tv_links st). link_of cx l)"
  using reported_of_traverse [OF assms] by (simp add: reported_def)

text \<open>
  C35. The traversal expands at most \<open>max_nodes\<close> distinct processes, the root among them; it
  records a depth exactly for the expanded processes, and each recorded depth is at most
  \<open>max_depth\<close> and is the number of steps of a repetition-free provider path from the root to the
  process.
\<close>

theorem traversal_expansion_bounded:
  assumes "traverse_upstream cx r = Inr st"
  shows "distinct (expanded_nodes st) \<and> r \<in> set (expanded_nodes st) \<and>
         length (expanded_nodes st) \<le> max 1 (max_nodes (wc_options cx)) \<and>
         fst ` set (min_depth st) = set (expanded_nodes st) \<and>
         (\<forall>p d. map_of (min_depth st) p = Some d \<longrightarrow>
            d \<le> max_depth (wc_options cx) \<and> (\<exists>path. open_path cx r path \<and> last path = p \<and> length path = d + 1))"
  using expansion_of_traverse [OF assms] by (simp add: expansion_def)

text \<open>
  The reported branches are ranked: the ranks are 1, 2, ... in the order of the list, and the
  path scores never increase along it.
\<close>

theorem traversal_branches_ranked:
  assumes "traverse_upstream cx r = Inr st"
  shows "map br_rank (tv_branches st) = [1..<length (tv_branches st) + 1] \<and>
         sorted_wrt (\<lambda>a b. total_le (br_path_score b) (br_path_score a)) (tv_branches st)"
proof -
  obtain bs where st: "tv_branches st = number_branches (sort_by branch_le bs)"
    using assms by (auto simp: traverse_upstream_def res_simps)
  have "sorted_wrt branch_le (sort_by branch_le bs)" (is "sorted_wrt _ ?bs")
    by (rule sorted_wrt_sort_by) (rule branch_le_total branch_le_refl branch_le_trans)+
  then have "sorted_wrt (\<lambda>a b. total_le (br_path_score b) (br_path_score a)) (number_branches ?bs)"
    by (simp add: sorted_wrt_iff_nth_less number_branches_nth branch_le_def Let_def)
  moreover have "map br_rank (number_branches ?bs) = [1..<length (number_branches ?bs) + 1]"
    by (rule nth_equalityI) (simp_all add: number_branches_nth del: upt_Suc)
  ultimately show ?thesis unfolding st by blast
qed

section \<open>When the traversal succeeds\<close>

text \<open>Every process of the graph has an index entry and every listed provider is a process.\<close>

definition walk_ready :: "walk_context \<Rightarrow> bool" where
  "walk_ready cx =
     (list_all (\<lambda>i. wc_meta cx (int i) \<noteq> None) [0..<length (wc_adjacency cx)] \<and>
      list_all (list_all (\<lambda>p. 0 \<le> p \<and> nat p < length (wc_adjacency cx))) (wc_adjacency cx))"

definition is_process :: "walk_context \<Rightarrow> i32 \<Rightarrow> bool" where
  "is_process cx i = (0 \<le> i \<and> nat i < length (wc_adjacency cx))"

lemma walk_ready_meta: "walk_ready cx \<Longrightarrow> is_process cx i \<Longrightarrow> \<exists>e. wc_meta cx i = Some e"
  by (auto simp: walk_ready_def is_process_def list_all_iff dest: bspec [of _ _ "nat i"])

lemma walk_ready_provider:
  assumes "walk_ready cx" "is_process cx c" "p \<in> set (wc_adjacency cx ! nat c)"
  shows "is_process cx p"
  using assms by (auto simp: walk_ready_def is_process_def list_all_iff)

lemma record_branch_ok:
  assumes "walk_ready cx" "\<forall>i \<in> set path. is_process cx i"
  shows "\<exists>st'. record_branch cx path reason st = Inr st'"
proof -
  have meta: "wc_meta cx i = Some (the (wc_meta cx i))" if "i \<in> set path" for i
    using walk_ready_meta [OF assms(1)] assms(2) that by fastforce
  have "try_map (process_id_for_index cx) path = Inr (map (\<lambda>i. pe_process_id (the (wc_meta cx i))) path)"
    by (rule try_map_total) (metis meta ok_or_simps(2) option.simps(9) process_id_for_index_def)
  moreover have "try_map (label_for_index cx) path = Inr (map (\<lambda>i. entry_label (the (wc_meta cx i))) path)"
    by (rule try_map_total) (metis meta ok_or_simps(2) option.simps(9) label_for_index_def)
  ultimately show ?thesis by (simp add: record_branch_def)
qed

lemma push_link_ok:
  assumes "walk_ready cx" "is_process cx c"
  shows "\<exists>st'. push_link cx c target depth cycle direct share st = Inr st'"
  using walk_ready_meta [OF assms] by (auto simp: push_link_def process_id_for_index_def)

lemma walk_child_ok:
  assumes "walk_ready cx" "is_process cx current" "is_process cx p" "\<forall>i \<in> set path. is_process cx i"
    and descend: "\<And>st. \<exists>st'. descend p (path @ [p]) st = Inr st'"
  shows "\<exists>t. walk_child cx descend current depth path s (position, p, direct, share) = Inr t"
proof -
  obtain st any where s: "s = (st, any)" by (cases s)
  obtain target where target: "wc_meta cx p = Some target" using walk_ready_meta [OF assms(1,3)] by blast
  have path: "\<forall>i \<in> set (path @ [p]). is_process cx i" using assms(3,4) by simp
  note links = push_link_ok [OF assms(1,2)] and branches = record_branch_ok [OF assms(1) path]
  obtain l where l: "push_link cx current (pe_process_id target) (depth + 1) True direct share st = Inr l"
    using links by blast
  obtain l' where l': "push_link cx current (pe_process_id target) (depth + 1) False direct share (note_depth p (depth + 1) st) = Inr l'"
    using links by blast
  obtain b where b: "record_branch cx (path @ [p]) ''cycle_cut'' (truncate_by 1 l) = Inr b" using branches by blast
  obtain b' where b': "record_branch cx (path @ [p]) ''max_nodes'' (truncate_by 1 st) = Inr b'" using branches by blast
  obtain w where w: "descend p (path @ [p]) l' = Inr w" using descend by blast
  show ?thesis
    unfolding walk_child_def using s target l l' b b' w by auto
qed

lemma walk_ok:
  assumes "walk_ready cx" "is_process cx current" "\<forall>i \<in> set path. is_process cx i"
  shows "\<exists>st'. walk cx depth current path st = Inr st'"
  using assms
proof (induction cx depth arbitrary: current path st rule: walk.induct)
  case (1 cx depth)
  note branches = record_branch_ok [OF "1.prems"(1,3)]
  show ?case
  proof (cases "depth \<ge> max_depth (wc_options cx)")
    case True
    with branches show ?thesis by (simp add: walk.simps [of cx depth])
  next
    case False
    obtain providers where providers: "providers = wc_adjacency cx ! nat current" by simp
    let ?ranked = "rank_providers cx providers"
    have loop: "\<exists>t. try_fold (walk_child cx (walk cx (depth + 1)) current depth path) s
        (enumerate 0 (sort_by ranked_le ?ranked)) = Inr t" if ne: "providers \<noteq> []" "?ranked \<noteq> []" for s
    proof (rule try_fold_ok)
      fix s x assume "x \<in> set (enumerate 0 (sort_by ranked_le ?ranked))"
      moreover obtain position p direct share where x: "x = (position, p, direct, share)" by (cases x) auto
      ultimately have mem: "(p, direct, share) \<in> set ?ranked" using in_enumerateD by fastforce
      have p: "is_process cx p"
        using walk_ready_provider "1.prems" rank_providersD [OF mem] providers by blast
      show "\<exists>t. walk_child cx (walk cx (depth + 1)) current depth path s x = Inr t"
        unfolding x
      proof (rule walk_child_ok [OF "1.prems"(1,2) p "1.prems"(3)])
        fix st show "\<exists>st'. walk cx (depth + 1) p (path @ [p]) st = Inr st'"
          by (rule "1.IH" [OF False ne(1) refl ne(2) "1.prems"(1) p]) (use "1.prems"(3) p in simp)
      qed
    qed
    have idx: "usize_try_from current = Some (nat current)" "vec_get (wc_adjacency cx) (nat current) = Some providers"
      using "1.prems"(2) providers by (auto simp: is_process_def)
    obtain b where b: "record_branch cx path ''leaf'' st = Inr b" using branches by blast
    obtain b' where b': "record_branch cx path ''cutoff'' (truncate_by (length providers) st) = Inr b'"
      using branches by blast
    show ?thesis
    proof (cases "providers = [] \<or> ?ranked = []")
      case True
      with False idx b b' show ?thesis by (auto simp: walk.simps [of cx depth] vec_get_def)
    next
      case ne: False
      then obtain st1 any where t: "try_fold (walk_child cx (walk cx (depth + 1)) current depth path) (st, False)
          (enumerate 0 (sort_by ranked_le ?ranked)) = Inr (st1, any)"
        using loop by (metis surj_pair)
      obtain b'' where "record_branch cx path ''top_k'' st1 = Inr b''" using branches by blast
      with ne False idx t show ?thesis by (auto simp: walk.simps [of cx depth] vec_get_def)
    qed
  qed
qed

lemma traverse_ok:
  assumes "walk_ready cx" "is_process cx r"
  shows "\<exists>st. traverse_upstream cx r = Inr st"
proof -
  have "\<forall>i \<in> set [r]. is_process cx i" using assms(2) by simp
  then obtain st' where "walk cx 0 r [r] \<lparr>expanded_nodes = [r], min_depth = [(r, 0)], truncated_node_count = 0,
      tv_branches = [], tv_links = []\<rparr> = Inr st'"
    using walk_ok [OF assms] by blast
  then show ?thesis by (simp add: traverse_upstream_def)
qed

section \<open>The provider graph\<close>

definition technosphere_in_range :: "f64 model_sparse_data \<Rightarrow> bool" where
  "technosphere_in_range data =
     list_all (\<lambda>t. 0 \<le> s_row t \<and> s_row t < process_count data \<and> 0 \<le> s_col t \<and> s_col t < process_count data)
       (technosphere_entries data)"

definition push_provider :: "i32 list list \<Rightarrow> f64 sparse_triplet \<Rightarrow> i32 list list" where
  "push_provider adjacency t =
     adjacency[nat (s_col t) := adjacency ! nat (s_col t) @ [s_row t]]"

lemma length_push_providers [simp]: "length (foldl push_provider adjacency ts) = length adjacency"
  by (induction ts arbitrary: adjacency) (simp_all add: push_provider_def)

lemma set_push_providers:
  assumes "c < length adjacency" "\<forall>t \<in> set ts. 0 \<le> s_col t"
  shows "set (foldl push_provider adjacency ts ! c) =
         set (adjacency ! c) \<union> {s_row t | t. t \<in> set ts \<and> s_col t = int c}"
  using assms
proof (induction ts arbitrary: adjacency)
  case Nil
  then show ?case by simp
next
  case (Cons t ts)
  have "c = nat (s_col t) \<longleftrightarrow> s_col t = int c" using Cons.prems(2) by auto
  with Cons show ?case by (auto simp: push_provider_def nth_list_update)
qed

lemma distinct_remdups_adj_sorted: "sorted (xs :: i32 list) \<Longrightarrow> distinct (remdups_adj xs)"
  by (induction xs rule: remdups_adj.induct) (auto dest: order_antisym)

lemma remdups_adj_sort: "sorted (remdups_adj (sort xs)) \<and> distinct (remdups_adj (sort (xs :: i32 list)))"
  by (simp add: sorted_remdups_adj distinct_remdups_adj_sorted)

lemma build_provider_adjacency_ok:
  assumes "0 \<le> process_count data" "technosphere_in_range data"
  shows "build_provider_adjacency data =
         Inr (map (\<lambda>ps. remdups_adj (sort ps))
               (foldl push_provider (replicate (nat (process_count data)) []) (technosphere_entries data)))"
proof -
  have "try_fold (add_provider (nat (process_count data))) (replicate (nat (process_count data)) []) (technosphere_entries data)
      = Inr (foldl push_provider (replicate (nat (process_count data)) []) (technosphere_entries data))"
    by (rule try_fold_total)
       (use assms(2) in \<open>auto simp: add_provider_def push_provider_def technosphere_in_range_def list_all_iff\<close>)
  with assms(1) show ?thesis by (simp add: build_provider_adjacency_def)
qed

lemma build_provider_adjacency_fails:
  assumes "build_provider_adjacency data = Inr adjacency"
  shows "0 \<le> process_count data \<and> technosphere_in_range data"
proof -
  obtain n adj where n: "usize_try_from (process_count data) = Some n"
    and fold: "try_fold (add_provider n) (replicate n []) (technosphere_entries data) = Inr adj"
    using assms by (auto simp: build_provider_adjacency_def res_simps)
  have "0 \<le> s_row t \<and> nat (s_row t) < n \<and> 0 \<le> s_col t \<and> nat (s_col t) < n" if "t \<in> set ts"
    "try_fold (add_provider n) a ts = Inr a'" for t ts a a'
    using that
  proof (induction ts arbitrary: a)
    case Nil
    then show ?case by simp
  next
    case (Cons u ts)
    then show ?case by (auto simp: res_simps add_provider_def split: if_splits)
  qed
  with n fold show ?thesis by (fastforce simp: technosphere_in_range_def list_all_iff)
qed

lemma adjacency_facts:
  assumes "build_provider_adjacency data = Inr adjacency"
  shows "length adjacency = nat (process_count data)"
    and "c < length adjacency \<Longrightarrow> sorted (adjacency ! c) \<and> distinct (adjacency ! c) \<and>
         set (adjacency ! c) = s_row ` set (filter (\<lambda>t. s_col t = int c) (technosphere_entries data))"
    and "c < length adjacency \<Longrightarrow> p \<in> set (adjacency ! c) \<Longrightarrow> 0 \<le> p \<and> nat p < length adjacency"
proof -
  note ok = build_provider_adjacency_fails [OF assms]
  let ?adj = "foldl push_provider (replicate (nat (process_count data)) []) (technosphere_entries data)"
  have adj: "adjacency = map (\<lambda>ps. remdups_adj (sort ps)) ?adj"
    using assms build_provider_adjacency_ok ok by simp
  then show len: "length adjacency = nat (process_count data)" by simp
  have cols: "\<forall>t \<in> set (technosphere_entries data). 0 \<le> s_col t"
    using ok by (auto simp: technosphere_in_range_def list_all_iff)
  show set: "sorted (adjacency ! c) \<and> distinct (adjacency ! c) \<and>
      set (adjacency ! c) = s_row ` set (filter (\<lambda>t. s_col t = int c) (technosphere_entries data))"
    if "c < length adjacency" for c
    using set_push_providers [OF _ cols, of c "replicate (nat (process_count data)) []"] that remdups_adj_sort
    by (auto simp: adj)
  show "0 \<le> p \<and> nat p < length adjacency" if "c < length adjacency" "p \<in> set (adjacency ! c)" for c p
    using set [OF that(1)] that(2) ok len by (auto simp: technosphere_in_range_def list_all_iff)
qed

text \<open>
  The provider graph is built exactly when the process count is not negative and every
  technosphere entry is in range; then every process has the strictly increasing list of the
  processes that occur as rows of its technosphere column.
\<close>

theorem provider_adjacency_correct:
  "(case build_provider_adjacency data of
      Inl e \<Rightarrow> process_count data < 0 \<or> \<not> technosphere_in_range data
    | Inr adjacency \<Rightarrow>
        0 \<le> process_count data \<and> technosphere_in_range data \<and> length adjacency = nat (process_count data) \<and>
        list_all (\<lambda>c. sorted (adjacency ! c) \<and> distinct (adjacency ! c) \<and>
           set (adjacency ! c) = s_row ` set (filter (\<lambda>t. s_col t = int c) (technosphere_entries data)))
          [0..<length adjacency])"
proof (cases "build_provider_adjacency data")
  case (Inl e)
  then show ?thesis using build_provider_adjacency_ok [of data] by (cases "process_count data < 0") auto
next
  case (Inr adjacency)
  then show ?thesis
    using build_provider_adjacency_fails [OF Inr] adjacency_facts(1,2) [OF Inr] by (simp add: list_all_iff)
qed

section \<open>Bounds of the summary\<close>

lemma abs_nonneg_of_finite: "is_finite v \<Longrightarrow> f64_nonneg \<bar>v\<bar>"
  by (cases v) (simp_all add: abs_f64_def)

lemma div_nonneg_not_NaN:
  assumes "f64_nonneg c" "is_finite t" "f64_less (Fin 0) t"
  shows "f64_div c t \<noteq> NaN"
  using assms by (cases c; cases t) (auto simp: f64_div_def f64_is_zero_def signed_inf_def signed_zero_def)

lemma DIRECT_EPSILON_pos: "f64_less (Fin 0) DIRECT_EPSILON"
  by code_simp

lemma f64_max_pos: "f64_less (Fin 0) b \<Longrightarrow> f64_less (Fin 0) (f64_max a b)"
  by (cases a; cases b) (auto simp: f64_max_def)

lemma total_abs_pos: "f64_less (Fin 0) (total_abs_contribution direct)"
  unfolding total_abs_contribution_def by (rule f64_max_pos [OF DIRECT_EPSILON_pos])

lemma direct_at_mem: "direct_at direct i = Some v \<Longrightarrow> v \<in> set direct"
  by (auto simp: direct_at_def bind_eq_Some_conv)

lemma normalized_bounds:
  "1 \<le> max_depth (normalized options) \<and> max_depth (normalized options) \<le> 8 \<and>
   1 \<le> top_k_children (normalized options) \<and> top_k_children (normalized options) \<le> 20 \<and>
   10 \<le> max_nodes (normalized options) \<and> max_nodes (normalized options) \<le> 2000"
  by (simp add: normalized_def clamp_nat_def)

lemma analyzeE:
  assumes "analyze_contribution_path hash_order computed_at snapshot_id job_id process_id impact_id process_index
      impact_index amount options snapshot_index data solved = Inr art"
  obtains x h direct adjacency st where "sr_x solved = Some x" "sr_h solved = Some h"
    "direct_contributions impact_index data x = Inr direct" "build_provider_adjacency data = Inr adjacency"
    "traverse_upstream \<lparr>wc_adjacency = adjacency, wc_direct = direct, wc_total_abs = total_abs_contribution direct,
       wc_meta = meta_by_index (si_process_map snapshot_index), wc_options = normalized options\<rparr> process_index = Inr st"
    "ar_options art = normalized options" "ar_branches art = tv_branches st" "ar_links art = tv_links st"
    "sm_total_impact (ar_summary art) = h ! nat impact_index"
    "sm_expanded_node_count (ar_summary art) = length (expanded_nodes st)"
    "sm_coverage_ratio (ar_summary art) = f64_clamp (Fin 0) (Fin 1)
       (f64_div (f64_sum (map (\<lambda>v. \<bar>v\<bar>) (List.map_filter (direct_at direct) (hash_order (expanded_nodes st)))))
                (total_abs_contribution direct))"
  using assms unfolding analyze_contribution_path_def Let_def
  by (auto simp: res_simps)

text \<open>
  The summary and the options of an analysis stay in their documented ranges: the options are
  the clamped ones, between one and \<open>max_nodes\<close> (at most 2000) processes are expanded, no link is
  deeper than \<open>max_depth\<close> (at most 8), and the coverage ratio lies between 0 and 1 whenever the direct
  contributions and their total are finite, in whatever order the expanded set is summed.
\<close>

theorem analysis_summary_bounds:
  assumes "analyze_contribution_path hash_order computed_at snapshot_id job_id process_id impact_id process_index
      impact_index amount options snapshot_index data solved = Inr art"
    and "sr_x solved = Some x" "direct_contributions impact_index data x = Inr direct"
    and "list_all is_finite direct" "is_finite (total_abs_contribution direct)"
  shows "Fin 0 \<le> sm_coverage_ratio (ar_summary art) \<and> sm_coverage_ratio (ar_summary art) \<le> Fin 1 \<and>
         1 \<le> sm_expanded_node_count (ar_summary art) \<and>
         sm_expanded_node_count (ar_summary art) \<le> max_nodes (ar_options art) \<and> max_nodes (ar_options art) \<le> 2000 \<and>
         (\<forall>l \<in> set (ar_links art). ln_depth_from_root l \<le> max_depth (ar_options art)) \<and> max_depth (ar_options art) \<le> 8"
proof (rule analyzeE [OF assms(1)])
  fix x' h direct' adjacency and st :: traversal_state
  let ?cx = "\<lparr>wc_adjacency = adjacency, wc_direct = direct', wc_total_abs = total_abs_contribution direct',
       wc_meta = meta_by_index (si_process_map snapshot_index), wc_options = normalized options\<rparr>"
  let ?covered = "f64_sum (map (\<lambda>v. \<bar>v\<bar>) (List.map_filter (direct_at direct') (hash_order (expanded_nodes st))))"
  assume x: "sr_x solved = Some x'" and d: "direct_contributions impact_index data x' = Inr direct'"
    and tr: "traverse_upstream ?cx process_index = Inr st" and opt: "ar_options art = normalized options"
    and links: "ar_links art = tv_links st"
    and nodes: "sm_expanded_node_count (ar_summary art) = length (expanded_nodes st)"
    and cov: "sm_coverage_ratio (ar_summary art) = f64_clamp (Fin 0) (Fin 1) (f64_div ?covered (total_abs_contribution direct'))"
  have same: "direct' = direct" using assms(2,3) x d by simp
  have "\<forall>v \<in> set (map (\<lambda>v. \<bar>v\<bar>) (List.map_filter (direct_at direct) ps)). f64_nonneg v" for ps
    using assms(4) direct_at_mem abs_nonneg_of_finite
    by (fastforce simp: map_filter_def list_all_iff)
  then have "f64_nonneg ?covered" unfolding same by (rule f64_sum_nonneg)
  then have "f64_div ?covered (total_abs_contribution direct') \<noteq> NaN"
    using div_nonneg_not_NaN [OF _ assms(5) total_abs_pos] same by simp
  moreover have "f64_le (Fin 0) (Fin 1)" by code_simp
  ultimately have ratio: "Fin 0 \<le> sm_coverage_ratio (ar_summary art)" "sm_coverage_ratio (ar_summary art) \<le> Fin 1"
    unfolding cov less_eq_f64_def by (rule f64_clamp_range)+
  have exp: "expansion ?cx process_index st" by (rule expansion_of_traverse [OF tr])
  then have "1 \<le> length (expanded_nodes st)" by (cases "expanded_nodes st") (auto simp: expansion_def)
  moreover have "length (expanded_nodes st) \<le> max_nodes (normalized options)"
    using exp normalized_bounds [of options] by (simp add: expansion_def)
  moreover have "\<forall>l \<in> set (tv_links st). link_of ?cx l" using reported_of_traverse [OF tr] by (simp add: reported_def)
  then have "\<forall>l \<in> set (tv_links st). ln_depth_from_root l \<le> max_depth (normalized options)"
    by (auto simp: link_of_def)
  ultimately show ?thesis using ratio normalized_bounds [of options] by (simp add: opt nodes links)
qed

section \<open>When the analysis succeeds\<close>

definition entries_in_range :: "i32 \<Rightarrow> f64 model_sparse_data \<Rightarrow> bool" where
  "entries_in_range impact_index data =
     (list_all (\<lambda>t. s_row t = impact_index \<longrightarrow> 0 \<le> s_col t) (characterization_factors data) \<and>
      list_all (\<lambda>t. 0 \<le> s_row t \<and> 0 \<le> s_col t \<and> s_col t < process_count data) (biosphere_entries data))"

definition indexed :: "snapshot_index_document \<Rightarrow> i32 \<Rightarrow> i32 \<Rightarrow> bool" where
  "indexed snapshot_index n impact_index =
     (list_all (\<lambda>i. list_ex (\<lambda>e. pe_process_index e = int i) (si_process_map snapshot_index)) [0..<nat n] \<and>
      list_ex (\<lambda>e. ie_impact_index e = impact_index) (si_impact_map snapshot_index))"

lemma add_intensity_ok:
  assumes "0 \<le> s_row t" "0 \<le> s_col t" "nat (s_col t) < length acc"
  shows "\<exists>acc'. add_intensity cf acc t = Inr acc' \<and> length acc' = length acc"
  using assms by (auto simp: add_intensity_def split: option.splits)

lemma intensity_ok:
  assumes "list_all (\<lambda>t. 0 \<le> s_row t \<and> 0 \<le> s_col t \<and> nat (s_col t) < length acc) ts"
  shows "\<exists>acc'. try_fold (add_intensity cf) acc ts = Inr acc' \<and> length acc' = length acc"
  using assms
proof (induction ts arbitrary: acc)
  case Nil
  then show ?case by simp
next
  case (Cons t ts)
  then obtain acc1 where "add_intensity cf acc t = Inr acc1" "length acc1 = length acc"
    using add_intensity_ok [of t acc cf] by auto
  with Cons.IH [of acc1] Cons.prems show ?case by simp
qed

lemma direct_contributions_ok:
  assumes "entries_in_range impact_index data" "process_count data = int (length x)"
  shows "\<exists>direct. direct_contributions impact_index data x = Inr direct \<and> length direct = length x"
proof -
  have "\<exists>cf. try_fold (add_cf impact_index) [] (characterization_factors data) = Inr cf"
    by (rule try_fold_ok) (use assms(1) in \<open>auto simp: add_cf_def entries_in_range_def list_all_iff\<close>)
  then obtain cf where cf: "try_fold (add_cf impact_index) [] (characterization_factors data) = Inr cf" ..
  obtain acc where "try_fold (add_intensity cf) (replicate (length x) (Fin 0)) (biosphere_entries data) = Inr acc"
    "length acc = length x"
    using intensity_ok [of "replicate (length x) (Fin 0)" "biosphere_entries data" cf] assms
    by (auto simp: entries_in_range_def list_all_iff nat_less_iff)
  with cf show ?thesis by (simp add: direct_contributions_def)
qed

lemma find_ex: "list_ex P xs \<Longrightarrow> \<exists>e. List.find P xs = Some e"
  by (induction xs) auto

lemma meta_by_index_ex: "list_ex (\<lambda>e. pe_process_index e = i) es \<Longrightarrow> meta_by_index es i \<noteq> None"
  using find_ex [of _ "rev es"] by (auto simp: meta_by_index_def list_ex_iff)

text \<open>
  The analysis of a solved model succeeds: when the solution and the impacts are present and of
  the model's length, the root and the impact are in range and every process and the impact are in
  the snapshot index, and all matrix entries are in range, it returns an artifact for them.
\<close>

theorem analysis_succeeds:
  assumes "sr_x solved = Some x" "sr_h solved = Some h" "process_count data = int (length x)"
    and "0 \<le> process_index" "process_index < process_count data" "0 \<le> impact_index" "nat impact_index < length h"
    and "indexed snapshot_index (process_count data) impact_index"
    and "technosphere_in_range data" "entries_in_range impact_index data"
  shows "\<exists>art. analyze_contribution_path hash_order computed_at snapshot_id job_id process_id impact_id process_index
           impact_index amount options snapshot_index data solved = Inr art \<and>
         sm_total_impact (ar_summary art) = h ! nat impact_index"
proof -
  obtain adjacency where adj: "build_provider_adjacency data = Inr adjacency"
    using build_provider_adjacency_ok assms(3,9) by fastforce
  obtain direct where direct: "direct_contributions impact_index data x = Inr direct"
    using direct_contributions_ok [OF assms(10,3)] by blast
  let ?cx = "\<lparr>wc_adjacency = adjacency, wc_direct = direct, wc_total_abs = total_abs_contribution direct,
       wc_meta = meta_by_index (si_process_map snapshot_index), wc_options = normalized options\<rparr>"
  note graph = adjacency_facts [OF adj]
  have len: "length adjacency = length x" using graph assms(3) by simp
  have "meta_by_index (si_process_map snapshot_index) (int i) \<noteq> None" if "i < length adjacency" for i
    using assms(3,8) len that by (intro meta_by_index_ex) (simp add: indexed_def list_all_iff)
  moreover have "0 \<le> p \<and> nat p < length adjacency" if "ps \<in> set adjacency" "p \<in> set ps" for ps p
    using that graph(3) by (metis in_set_conv_nth)
  ultimately have "walk_ready ?cx" unfolding walk_ready_def by (simp add: list_all_iff)
  moreover have "is_process ?cx process_index" using assms(3-5) len by (simp add: is_process_def)
  ultimately obtain st where st: "traverse_upstream ?cx process_index = Inr st" using traverse_ok by blast
  have "list_ex (\<lambda>e. pe_process_index e = process_index) (si_process_map snapshot_index)"
    using assms(4,5,8) by (auto simp: indexed_def list_all_iff dest: bspec [of _ _ "nat process_index"])
  then obtain p where p: "List.find (\<lambda>e. pe_process_index e = process_index) (si_process_map snapshot_index) = Some p"
    using find_ex by blast
  obtain i where i: "List.find (\<lambda>e. ie_impact_index e = impact_index) (si_impact_map snapshot_index) = Some i"
    using assms(8) find_ex unfolding indexed_def by blast
  have root: "nat process_index < length x" using assms(3-5) by linarith
  show ?thesis
    unfolding analyze_contribution_path_def Let_def
    using assms(1-4,6,7) root adj direct st p i by simp
qed

text \<open>
  Clamping the traversal options is idempotent and gives a depth between 1 and 8, between 1 and
  20 children per node, between 10 and 2000 nodes and a cutoff share that is finite and between 0 and
  1, whatever the caller passed.
\<close>

theorem normalized_options_bounds:
  "normalized (normalized options) = normalized options \<and>
   1 \<le> max_depth (normalized options) \<and> max_depth (normalized options) \<le> 8 \<and>
   1 \<le> top_k_children (normalized options) \<and> top_k_children (normalized options) \<le> 20 \<and>
   10 \<le> max_nodes (normalized options) \<and> max_nodes (normalized options) \<le> 2000 \<and>
   is_finite (cutoff_share (normalized options)) \<and>
   Fin 0 \<le> cutoff_share (normalized options) \<and> cutoff_share (normalized options) \<le> Fin 1"
proof -
  have cut: "is_finite c' \<and> Fin 0 \<le> c' \<and> c' \<le> Fin 1 \<and> f64_min c' (Fin 1) = c'"
    if "c' = (if is_finite c \<and> Fin 0 \<le> c then f64_min c (Fin 1) else default_cutoff_share)" for c c'
  proof (cases "is_finite c \<and> Fin 0 \<le> c")
    case True
    with that show ?thesis
      by (cases c) (auto simp: f64_min_def less_eq_f64_def f64_le_def f64_eq_def f64_is_zero_def)
  next
    case False
    have "is_finite default_cutoff_share \<and> Fin 0 \<le> default_cutoff_share \<and> default_cutoff_share \<le> Fin 1 \<and>
      f64_min default_cutoff_share (Fin 1) = default_cutoff_share" by code_simp
    moreover have "c' = default_cutoff_share" using that False by (simp only: if_False)
    ultimately show ?thesis by simp
  qed
  note c = cut [of "cutoff_share (normalized options)" "cutoff_share options"]
  have "normalized (normalized options) = normalized options"
    using c by (simp add: normalized_def clamp_nat_def)
  with c normalized_bounds [of options] show ?thesis by (simp add: normalized_def)
qed

section \<open>Concrete analyses\<close>

text \<open>Three processes that supply each other in a cycle, each with one unit of emission.\<close>

definition example_entry :: "i32 \<Rightarrow> string \<Rightarrow> snapshot_process_map_entry" where
  "example_entry i name = \<lparr>pe_process_id = name, pe_process_index = i, pe_process_version = ''01.00.000'',
     pe_process_name = None, pe_location = None\<rparr>"

definition example_index :: snapshot_index_document where
  "example_index = \<lparr>si_version = 1, si_snapshot_id = ''s'', si_process_count = 3, si_impact_count = 1,
     si_process_map = [example_entry 0 ''a'', example_entry 1 ''b'', example_entry 2 ''c''],
     si_impact_map = [\<lparr>ie_impact_id = ''i'', ie_impact_index = 0, ie_impact_version = None, ie_impact_key = ''gwp'',
       ie_impact_name = ''climate'', ie_unit = ''kg''\<rparr>]\<rparr>"

definition example_data :: "f64 model_sparse_data" where
  "example_data = \<lparr>model_version = ''m'', process_count = 3, flow_count = 1, impact_count = 1,
     technosphere_entries = [\<lparr>s_row = 1, s_col = 0, s_value = Fin 1\<rparr>, \<lparr>s_row = 2, s_col = 1, s_value = Fin 1\<rparr>,
       \<lparr>s_row = 0, s_col = 2, s_value = Fin 1\<rparr>],
     biosphere_entries = [\<lparr>s_row = 0, s_col = 0, s_value = Fin 1\<rparr>, \<lparr>s_row = 0, s_col = 1, s_value = Fin 1\<rparr>,
       \<lparr>s_row = 0, s_col = 2, s_value = Fin 1\<rparr>],
     characterization_factors = [\<lparr>s_row = 0, s_col = 0, s_value = Fin 1\<rparr>]\<rparr>"

definition example_solved :: solve_result where
  "example_solved = \<lparr>sr_x = Some [Fin 1, Fin 2, Fin 1], sr_g = None, sr_h = Some [Fin 4], sr_factorization_state = Ready\<rparr>"

definition example_context :: walk_context where
  "example_context =
     \<lparr>wc_adjacency = [[1], [2], [0]], wc_direct = [Fin 1, Fin 2, Fin 1], wc_total_abs = Fin 4,
      wc_meta = meta_by_index (si_process_map example_index), wc_options = contribution_path_options_default\<rparr>"

definition example_state :: traversal_state where
  "example_state = projr (traverse_upstream example_context 0)"

definition example_analysis :: "path_error + contribution_path_artifact" where
  "example_analysis = analyze_contribution_path id ''now'' ''s'' ''j'' ''a'' ''i'' 0 0 (Fin 1)
     contribution_path_options_default example_index example_data example_solved"

lemma ok_projr: "is_ok m \<Longrightarrow> m = Inr (projr m)"
  by (cases m) simp_all

lemma example_traverse: "traverse_upstream example_context 0 = Inr example_state"
  unfolding example_state_def by (rule ok_projr) code_simp

lemma example_lengths: "length (tv_branches example_state) = 1" "length (tv_links example_state) = 3"
  by code_simp+

lemma traversal_reports_provider_paths_witness:
  "branch_of example_context 0 (tv_branches example_state ! 0) \<and> link_of example_context (tv_links example_state ! 2)"
  using traversal_reports_provider_paths [OF example_traverse] example_lengths by simp

lemma traversal_expansion_bounded_witness:
  "distinct (expanded_nodes example_state) \<and> length (expanded_nodes example_state) \<le> max 1 200 \<and>
   fst ` set (min_depth example_state) = set (expanded_nodes example_state)"
  using traversal_expansion_bounded [OF example_traverse]
  by (simp add: example_context_def contribution_path_options_default_def)

lemma traversal_branches_ranked_witness:
  "map br_rank (tv_branches example_state) = [1]"
  using traversal_branches_ranked [OF example_traverse] example_lengths by simp

lemma example_direct: "direct_contributions 0 example_data [Fin 1, Fin 2, Fin 1] = Inr [Fin 1, Fin 2, Fin 1]"
  by code_simp

lemma example_total: "total_abs_contribution [Fin 1, Fin 2, Fin 1] = Fin 4"
  by code_simp

lemma example_adjacency: "build_provider_adjacency example_data = Inr [[1], [2], [0]]"
  by code_simp

lemma default_options_normalized: "normalized contribution_path_options_default = contribution_path_options_default"
proof -
  have "f64_min default_cutoff_share (Fin 1) = default_cutoff_share \<and> is_finite default_cutoff_share \<and>
    Fin 0 \<le> default_cutoff_share" by code_simp
  then show ?thesis by (simp add: normalized_def contribution_path_options_default_def clamp_nat_def)
qed

lemma example_analysis_ok: "example_analysis = Inr (projr example_analysis)"
proof (rule ok_projr)
  have ctx: "\<lparr>wc_adjacency = [[1], [2], [0]], wc_direct = [Fin 1, Fin 2, Fin 1], wc_total_abs = Fin 4,
      wc_meta = meta_by_index (si_process_map example_index), wc_options = contribution_path_options_default\<rparr> = example_context"
    by (simp add: example_context_def)
  have "List.find (\<lambda>e. pe_process_index e = 0) (si_process_map example_index) = Some (example_entry 0 ''a'')"
    "List.find (\<lambda>e. ie_impact_index e = 0) (si_impact_map example_index) = Some (hd (si_impact_map example_index))"
    by code_simp+
  moreover have "sr_x example_solved = Some [Fin 1, Fin 2, Fin 1]" "sr_h example_solved = Some [Fin 4]"
    "process_count example_data = 3"
    by (simp_all add: example_solved_def example_data_def)
  ultimately show "is_ok example_analysis"
    unfolding example_analysis_def analyze_contribution_path_def Let_def default_options_normalized
    by (simp add: example_direct example_total example_adjacency ctx example_traverse)
qed

lemma analysis_summary_bounds_witness:
  "Fin 0 \<le> sm_coverage_ratio (ar_summary (projr example_analysis)) \<and>
   sm_coverage_ratio (ar_summary (projr example_analysis)) \<le> Fin 1"
proof -
  have x: "sr_x example_solved = Some [Fin 1, Fin 2, Fin 1]" by (simp add: example_solved_def)
  have "list_all is_finite [Fin 1, Fin 2, Fin 1]" "is_finite (total_abs_contribution [Fin 1, Fin 2, Fin 1])"
    by (simp_all add: example_total)
  then show ?thesis
    using analysis_summary_bounds [OF example_analysis_ok [unfolded example_analysis_def] x example_direct]
    by (simp add: example_analysis_def)
qed

lemma analysis_succeeds_witness:
  "\<exists>art. example_analysis = Inr art \<and> sm_total_impact (ar_summary art) = Fin 4"
proof -
  have "indexed example_index (process_count example_data) 0" by code_simp
  moreover have "technosphere_in_range example_data" "entries_in_range 0 example_data" by code_simp+
  ultimately show ?thesis
    unfolding example_analysis_def
    using analysis_succeeds [of example_solved "[Fin 1, Fin 2, Fin 1]" "[Fin 4]" example_data 0 0 example_index]
    by (simp add: example_solved_def example_data_def)
qed

lemma provider_adjacency_correct_witness:
  "set ([[1], [2], [0]] ! 1) = s_row ` set (filter (\<lambda>t. s_col t = int 1) (technosphere_entries example_data))"
  using provider_adjacency_correct [of example_data] by (simp add: example_adjacency)

end
