(* ===== verification/Signed_Flow.thy ===== *)
theory Signed_Flow
  imports Worker_Prelude Float64
begin

text \<open>
  \<open>crates/solver-worker/src/signed_flow.rs\<close>: signed exchange coefficients, the normalization of the
  quantitative reference, and the resolution of a residual coefficient against weighted reference
  ports, in binary64. What the resolver accepts is shown to be a balance: opposite signs,
  non-negative finite activities, weights that sum to one and a closed total.
\<close>

section \<open>Data\<close>

definition SIGNED_FLOW_CLOSURE_TOLERANCE :: f64 where
  "SIGNED_FLOW_CLOSURE_TOLERANCE = f64_lit (1 / 10 ^ 12)"

datatype signed_flow_direction = Input | Output

definition direction_sign :: "signed_flow_direction \<Rightarrow> f64" where
  "direction_sign d = (case d of Input \<Rightarrow> Fin (- 1) | Output \<Rightarrow> Fin 1)"

datatype technosphere_boundary_policy = Closed | Open | Cutoff

datatype signed_flow_error =
    UnsupportedBoundaryPolicy string
  | AmountNotFinite
  | CoefficientNotFinite
  | ReferenceNotFinite
  | ReferenceZero
  | ScaleNotFinitePositive
  | ResidualNotFinite
  | ZeroResidualWithPorts
  | NoPorts
  | WeightInvalid
  | WeightsDoNotClose f64
  | PortCoefficientInvalid
  | PortSameSign
  | ActivityInvalid
  | BalanceDoesNotClose f64

definition policy_parse :: "string \<Rightarrow> signed_flow_error + technosphere_boundary_policy" where
  "policy_parse value =
     (if value = ''closed'' then Inr Closed
      else if value = ''open'' then Inr Open
      else if value = ''cutoff'' then Inr Cutoff
      else Inl (UnsupportedBoundaryPolicy value))"

definition policy_as_str :: "technosphere_boundary_policy \<Rightarrow> string" where
  "policy_as_str p = (case p of Closed \<Rightarrow> ''closed'' | Open \<Rightarrow> ''open'' | Cutoff \<Rightarrow> ''cutoff'')"

definition requires_closure :: "technosphere_boundary_policy \<Rightarrow> bool" where
  "requires_closure p = (p = Closed)"

record reference_pivot =
  rp_raw_coefficient :: f64
  rp_scale :: f64
  rp_coefficient :: f64

record weighted_reference_port =
  wp_reference_coefficient :: f64
  wp_routing_weight :: f64

record balance_contribution =
  bc_reference_coefficient :: f64
  bc_routing_weight :: f64
  bc_activity_requirement :: f64

record signed_flow_balance =
  sb_residual_coefficient :: f64
  sb_contributions :: "balance_contribution list"
  sb_closure_residual :: f64

section \<open>Operations\<close>

definition signed_coefficient :: "signed_flow_direction \<Rightarrow> f64 \<Rightarrow> signed_flow_error + f64" where
  "signed_coefficient direction amount =
     res_bind (ensure (is_finite amount) AmountNotFinite) (\<lambda>_.
     (let coefficient = direction_sign direction * amount in
      res_bind (ensure (is_finite coefficient) CoefficientNotFinite) (\<lambda>_.
      Inr coefficient)))"

definition normalize_reference_coefficient :: "f64 \<Rightarrow> signed_flow_error + reference_pivot" where
  "normalize_reference_coefficient raw =
     res_bind (ensure (is_finite raw) ReferenceNotFinite) (\<lambda>_.
     res_bind (ensure (\<not> f64_eq raw (Fin 0)) ReferenceZero) (\<lambda>_.
     (let scale = f64_recip \<bar>raw\<bar>; coefficient = f64_signum raw in
      res_bind (ensure (is_finite scale \<and> Fin 0 < scale) ScaleNotFinitePositive) (\<lambda>_.
      Inr \<lparr>rp_raw_coefficient = raw, rp_scale = scale, rp_coefficient = coefficient\<rparr>))))"

text \<open>The first loop: the routing weights are checked and summed.\<close>

definition add_weight :: "f64 \<Rightarrow> weighted_reference_port \<Rightarrow> signed_flow_error + f64" where
  "add_weight weight_sum port =
     res_bind (ensure (is_finite (wp_routing_weight port) \<and> Fin 0 \<le> wp_routing_weight port) WeightInvalid) (\<lambda>_.
     Inr (weight_sum + wp_routing_weight port))"

text \<open>The second loop: one contribution per port and the balanced total.\<close>

definition route_port ::
  "f64 \<Rightarrow> balance_contribution list \<times> f64 \<Rightarrow> weighted_reference_port
   \<Rightarrow> signed_flow_error + (balance_contribution list \<times> f64)" where
  "route_port residual st port =
     (case st of (contributions, balanced) \<Rightarrow>
        let reference = wp_reference_coefficient port in
        res_bind (ensure (is_finite reference \<and> \<not> f64_eq reference (Fin 0)) PortCoefficientInvalid) (\<lambda>_.
        res_bind (ensure (\<not> Fin 0 \<le> residual * reference) PortSameSign) (\<lambda>_.
        let activity = f64_div (- residual) reference * wp_routing_weight port in
        res_bind (ensure (is_finite activity \<and> Fin 0 \<le> activity) ActivityInvalid) (\<lambda>_.
        Inr (contributions @ [\<lparr>bc_reference_coefficient = reference, bc_routing_weight = wp_routing_weight port,
                               bc_activity_requirement = activity\<rparr>],
             balanced + reference * activity)))))"

definition resolve_weighted_balance ::
  "f64 \<Rightarrow> weighted_reference_port list \<Rightarrow> signed_flow_error + signed_flow_balance" where
  "resolve_weighted_balance residual ports =
     res_bind (ensure (is_finite residual) ResidualNotFinite) (\<lambda>_.
     if f64_eq residual (Fin 0)
     then res_bind (ensure (ports = []) ZeroResidualWithPorts) (\<lambda>_.
          Inr \<lparr>sb_residual_coefficient = residual, sb_contributions = [], sb_closure_residual = Fin 0\<rparr>)
     else
     res_bind (ensure (ports \<noteq> []) NoPorts) (\<lambda>_.
     res_bind (try_fold add_weight (Fin 0) ports) (\<lambda>weight_sum.
     res_bind (ensure (is_finite weight_sum \<and> \<bar>weight_sum - Fin 1\<bar> \<le> SIGNED_FLOW_CLOSURE_TOLERANCE)
                (WeightsDoNotClose weight_sum)) (\<lambda>_.
     res_bind (try_fold (route_port residual) ([], Fin 0) ports) (\<lambda>(contributions, balanced).
     (let closure_residual = residual + balanced;
          closure_scale = f64_max \<bar>residual\<bar> (Fin 1)
      in res_bind (ensure (\<bar>closure_residual\<bar> \<le> SIGNED_FLOW_CLOSURE_TOLERANCE * closure_scale)
                    (BalanceDoesNotClose closure_residual)) (\<lambda>_.
         Inr \<lparr>sb_residual_coefficient = residual, sb_contributions = contributions,
              sb_closure_residual = closure_residual\<rparr>)))))))"

section \<open>The loops\<close>

lemma add_weights_ok:
  "try_fold add_weight s ports = Inr w \<Longrightarrow>
     w = foldl (+) s (map wp_routing_weight ports) \<and>
     list_all (\<lambda>p. is_finite (wp_routing_weight p) \<and> Fin 0 \<le> wp_routing_weight p) ports"
  by (induction ports arbitrary: s) (auto simp: res_simps add_weight_def)

definition port_activity :: "f64 \<Rightarrow> weighted_reference_port \<Rightarrow> f64" where
  "port_activity residual p = f64_div (- residual) (wp_reference_coefficient p) * wp_routing_weight p"

definition contribution_of :: "f64 \<Rightarrow> weighted_reference_port \<Rightarrow> balance_contribution" where
  "contribution_of residual p =
     \<lparr>bc_reference_coefficient = wp_reference_coefficient p, bc_routing_weight = wp_routing_weight p,
      bc_activity_requirement = port_activity residual p\<rparr>"

definition port_ok :: "f64 \<Rightarrow> weighted_reference_port \<Rightarrow> bool" where
  "port_ok residual p \<longleftrightarrow> is_finite (wp_reference_coefficient p) \<and> \<not> f64_eq (wp_reference_coefficient p) (Fin 0) \<and>
     \<not> Fin 0 \<le> residual * wp_reference_coefficient p \<and>
     is_finite (port_activity residual p) \<and> Fin 0 \<le> port_activity residual p"

lemma route_port_eq:
  "route_port residual (cs, b) p = Inr st \<longleftrightarrow> port_ok residual p \<and>
     st = (cs @ [contribution_of residual p], b + wp_reference_coefficient p * port_activity residual p)"
  by (auto simp: route_port_def Let_def res_simps port_ok_def contribution_of_def port_activity_def)

lemma route_ports_ok:
  "try_fold (route_port residual) (cs, b) ports = Inr (cs', b') \<longleftrightarrow>
     list_all (port_ok residual) ports \<and> cs' = cs @ map (contribution_of residual) ports \<and>
     b' = foldl (+) b (map (\<lambda>p. wp_reference_coefficient p * port_activity residual p) ports)"
  by (induction ports arbitrary: cs b) (auto simp: res_simps route_port_eq)

text \<open>A negative product has operands of opposite signs.\<close>

lemma f64_mul_neg_sign:
  assumes "is_finite x" "is_finite y" "\<not> Fin 0 \<le> x * y"
  shows "f64_val x * f64_val y < 0"
proof -
  have nn: "x * y \<noteq> NaN" using assms(1,2) by (cases x; cases y) (auto simp: f64_ops f64_mul_def signed_zero_def)
  have nz: "\<not> f64_is_zero x" "\<not> f64_is_zero y"
    using assms by (cases x; cases y; auto simp: f64_ops f64_mul_def signed_zero_def f64_is_zero_def f64_le_def f64_eq_def split: if_splits)+
  then have "x * y = f64_round (f64_val x * f64_val y)"
    using assms(1,2) by (cases x; cases y) (auto simp: f64_ops f64_mul_def)
  moreover have "f64_less (x * y) (Fin 0)" using assms(3) nn by (simp add: f64_ops f64_not_le_iff_less)
  ultimately show ?thesis using f64_round_sign by simp
qed

lemma resolve_weighted_balanceD:
  assumes "resolve_weighted_balance residual ports = Inr sb" "\<not> f64_eq residual (Fin 0)"
  shows "sb_contributions sb = map (contribution_of residual) ports \<and> ports \<noteq> [] \<and>
    (\<forall>p \<in> set ports. is_finite (wp_routing_weight p) \<and> Fin 0 \<le> wp_routing_weight p \<and>
       f64_val residual * f64_val (wp_reference_coefficient p) < 0 \<and>
       is_finite (port_activity residual p) \<and> Fin 0 \<le> port_activity residual p) \<and>
    \<bar>foldl (+) (Fin 0) (map wp_routing_weight ports) - Fin 1\<bar> \<le> SIGNED_FLOW_CLOSURE_TOLERANCE \<and>
    sb_closure_residual sb = residual +
      foldl (+) (Fin 0) (map (\<lambda>c. bc_reference_coefficient c * bc_activity_requirement c) (sb_contributions sb)) \<and>
    \<bar>sb_closure_residual sb\<bar> \<le> SIGNED_FLOW_CLOSURE_TOLERANCE * f64_max \<bar>residual\<bar> (Fin 1)"
proof -
  obtain w cs b where ok: "is_finite residual" "ports \<noteq> []" "try_fold add_weight (Fin 0) ports = Inr w"
    "\<bar>w - Fin 1\<bar> \<le> SIGNED_FLOW_CLOSURE_TOLERANCE" "try_fold (route_port residual) ([], Fin 0) ports = Inr (cs, b)"
    "\<bar>residual + b\<bar> \<le> SIGNED_FLOW_CLOSURE_TOLERANCE * f64_max \<bar>residual\<bar> (Fin 1)"
    "sb = \<lparr>sb_residual_coefficient = residual, sb_contributions = cs, sb_closure_residual = residual + b\<rparr>"
    using assms by (auto simp: resolve_weighted_balance_def res_simps Let_def)
  note w = add_weights_ok [OF ok(3)]
  from ok(5) have route: "list_all (port_ok residual) ports" "cs = map (contribution_of residual) ports"
    "b = foldl (+) (Fin 0) (map (\<lambda>p. wp_reference_coefficient p * port_activity residual p) ports)"
    by (simp_all add: route_ports_ok)
  have "f64_val residual * f64_val (wp_reference_coefficient p) < 0" if "p \<in> set ports" for p
    using that route(1) ok(1) f64_mul_neg_sign by (auto simp: list_all_iff port_ok_def)
  moreover have "b = foldl (+) (Fin 0) (map (\<lambda>c. bc_reference_coefficient c * bc_activity_requirement c) cs)"
    unfolding route(2,3) by (simp add: comp_def contribution_of_def)
  ultimately show ?thesis using ok(2,4,6,7) w route by (auto simp: list_all_iff port_ok_def)
qed

section \<open>Properties of the signed-flow primitives\<close>

text \<open>
  C6. What the resolver accepts is a balance. The contributions are those of the ports in order;
  every port weight is finite and non-negative and the weights sum to one within the tolerance;
  every reference coefficient has the sign opposite to the residual and every activity is finite
  and non-negative; and the residual plus the sum of coefficient times activity is zero within the
  tolerance scaled by the residual.
\<close>

theorem resolve_weighted_balance_sound:
  assumes "resolve_weighted_balance residual ports = Inr sb" "\<not> f64_eq residual (Fin 0)"
  shows "sb_contributions sb = map (contribution_of residual) ports \<and> ports \<noteq> [] \<and>
    (\<forall>p \<in> set ports. is_finite (wp_routing_weight p) \<and> Fin 0 \<le> wp_routing_weight p \<and>
       f64_val residual * f64_val (wp_reference_coefficient p) < 0 \<and>
       is_finite (port_activity residual p) \<and> Fin 0 \<le> port_activity residual p) \<and>
    \<bar>foldl (+) (Fin 0) (map wp_routing_weight ports) - Fin 1\<bar> \<le> SIGNED_FLOW_CLOSURE_TOLERANCE \<and>
    sb_closure_residual sb = residual +
      foldl (+) (Fin 0) (map (\<lambda>c. bc_reference_coefficient c * bc_activity_requirement c) (sb_contributions sb)) \<and>
    \<bar>sb_closure_residual sb\<bar> \<le> SIGNED_FLOW_CLOSURE_TOLERANCE * f64_max \<bar>residual\<bar> (Fin 1)"
  by (rule resolve_weighted_balanceD [OF assms])

theorem resolve_weighted_balance_sound_witness:
  "\<exists>sb. resolve_weighted_balance (Fin 4) [\<lparr>wp_reference_coefficient = Fin (- 1), wp_routing_weight = Fin (1 / 4)\<rparr>,
      \<lparr>wp_reference_coefficient = Fin (- 1), wp_routing_weight = Fin (3 / 4)\<rparr>] = Inr sb \<and>
     map bc_activity_requirement (sb_contributions sb) = [Fin 1, Fin 3]"
proof -
  let ?ps = "[\<lparr>wp_reference_coefficient = Fin (- 1), wp_routing_weight = Fin (1 / 4)\<rparr>,
      \<lparr>wp_reference_coefficient = Fin (- 1), wp_routing_weight = Fin (3 / 4)\<rparr>]"
  have "is_ok (resolve_weighted_balance (Fin 4) ?ps)" by code_simp
  then obtain sb where sb: "resolve_weighted_balance (Fin 4) ?ps = Inr sb" by (auto simp: is_ok_iff)
  have "map bc_activity_requirement (map (contribution_of (Fin 4)) ?ps) = [Fin 1, Fin 3]" by code_simp
  moreover have "\<not> f64_eq (Fin 4) (Fin 0)" by (simp add: f64_eq_def f64_is_zero_def)
  ultimately show ?thesis using resolve_weighted_balance_sound [OF sb] sb by auto
qed

text \<open>
  The common case always resolves: a finite non-zero residual against one unit port of the
  opposite sign and full weight yields exactly one contribution whose activity is the residual's
  magnitude, and the closure residual is exactly zero.
\<close>

theorem resolve_unit_port:
  assumes "representable q" "q \<noteq> 0"
  shows "resolve_weighted_balance (Fin q)
      [\<lparr>wp_reference_coefficient = (if 0 < q then Fin (- 1) else Fin 1), wp_routing_weight = Fin 1\<rparr>] =
    Inr \<lparr>sb_residual_coefficient = Fin q,
         sb_contributions = [\<lparr>bc_reference_coefficient = (if 0 < q then Fin (- 1) else Fin 1),
           bc_routing_weight = Fin 1, bc_activity_requirement = Fin \<bar>q\<bar>\<rparr>],
         sb_closure_residual = Fin 0\<rparr>"
proof -
  note r = f64_round_representable
  have rq: "f64_round q = Fin q" "f64_round (- q) = Fin (- q)" using assms(1) r by simp_all
  have tol: "f64_le (Fin 0) SIGNED_FLOW_CLOSURE_TOLERANCE" by code_simp
  have tol2: "f64_le (Fin 0) (f64_mul SIGNED_FLOW_CLOSURE_TOLERANCE (f64_max (Fin \<bar>q\<bar>) (Fin 1)))"
  proof -
    obtain t where t: "SIGNED_FLOW_CLOSURE_TOLERANCE = Fin t" "0 < t"
    proof -
      have "SIGNED_FLOW_CLOSURE_TOLERANCE = Fin (f64_val SIGNED_FLOW_CLOSURE_TOLERANCE)"
        "0 < f64_val SIGNED_FLOW_CLOSURE_TOLERANCE" by code_simp+
      then show thesis using that by blast
    qed
    have "\<exists>v. f64_max (Fin \<bar>q\<bar>) (Fin 1) = Fin v \<and> 0 < v"
      using assms(2) by (cases "\<bar>q\<bar> < 1") (simp_all add: f64_max_def)
    then obtain v where v: "f64_max (Fin \<bar>q\<bar>) (Fin 1) = Fin v" "0 < v" by blast
    have "f64_nonneg (f64_round (t * v))" using t v by (intro f64_round_nonneg) simp
    moreover have "f64_mul (Fin t) (Fin v) = f64_round (t * v)" using t(2) v(2) by (simp add: f64_mul_def f64_is_zero_def)
    ultimately show ?thesis using t(1) v(1) by (simp only: f64_nonneg_def)
  qed
  show ?thesis
  proof (cases "0 < q")
    case True
    then show ?thesis using rq assms tol tol2
      by (simp add: resolve_weighted_balance_def add_weight_def route_port_def Let_def f64_ops f64_add_def f64_sub_def
          f64_mul_def f64_div_def f64_eq_def f64_is_zero_def f64_le_def)
  next
    case False
    then show ?thesis using rq assms tol tol2
      by (simp add: resolve_weighted_balance_def add_weight_def route_port_def Let_def f64_ops f64_add_def f64_sub_def
          f64_mul_def f64_div_def f64_eq_def f64_is_zero_def f64_le_def)
  qed
qed

theorem resolve_unit_port_witness:
  "resolve_weighted_balance (Fin 5) [\<lparr>wp_reference_coefficient = Fin (- 1), wp_routing_weight = Fin 1\<rparr>] =
    Inr \<lparr>sb_residual_coefficient = Fin 5, sb_contributions = [\<lparr>bc_reference_coefficient = Fin (- 1),
           bc_routing_weight = Fin 1, bc_activity_requirement = Fin 5\<rparr>], sb_closure_residual = Fin 0\<rparr>"
  using resolve_unit_port [of 5] representable_of_int [of 5] by simp

text \<open>
  The signed coefficient of a finite amount is the amount itself for an output and its negation
  for an input, with no rounding; only non-finite amounts are refused.
\<close>

theorem signed_coefficient_exact:
  assumes "f64_wf amount"
  shows "signed_coefficient d amount =
    (if is_finite amount then Inr (case d of Input \<Rightarrow> - amount | Output \<Rightarrow> amount) else Inl AmountNotFinite)"
proof (cases amount)
  case (Fin q)
  then have "f64_round q = Fin q" "f64_round (- q) = Fin (- q)"
    using assms by (simp_all add: f64_round_representable)
  with Fin show ?thesis
    by (cases d; cases "q = 0"; cases "q < 0")
       (simp_all add: signed_coefficient_def Let_def direction_sign_def f64_ops f64_mul_def f64_is_zero_def signed_zero_def)
qed (cases d; simp add: signed_coefficient_def Let_def direction_sign_def f64_ops f64_mul_def f64_is_zero_def signed_zero_def)+

theorem signed_coefficient_exact_witness: "signed_coefficient Input (Fin 3) = Inr (Fin (- 3))"
  using signed_coefficient_exact [of "Fin 3" Input] representable_of_int [of 3] by (simp add: f64_ops)

text \<open>
  A normalized reference is a unit pivot with the sign of the raw coefficient and a positive
  finite scale; normalization fails exactly on non-finite, zero, or so small coefficients that
  their reciprocal overflows.
\<close>

theorem normalize_reference_pivot:
  "case normalize_reference_coefficient raw of
     Inr p \<Rightarrow> rp_raw_coefficient p = raw \<and> rp_scale p = f64_div (Fin 1) \<bar>raw\<bar> \<and> is_finite (rp_scale p) \<and>
       Fin 0 < rp_scale p \<and> rp_coefficient p = (if f64_val raw < 0 then Fin (- 1) else Fin 1) \<and> f64_val raw \<noteq> 0
   | Inl e \<Rightarrow> \<not> is_finite raw \<or> f64_val raw = 0 \<or> \<not> is_finite (f64_div (Fin 1) \<bar>raw\<bar>) \<or> \<not> Fin 0 < f64_div (Fin 1) \<bar>raw\<bar>"
  by (cases raw)
     (auto simp: normalize_reference_coefficient_def res_bind_def ensure_def Let_def f64_recip_def f64_signum_def
       f64_eq_def f64_is_zero_def)

theorem normalize_reference_pivot_witness:
  "\<exists>p. normalize_reference_coefficient (Fin (- 4)) = Inr p \<and> rp_coefficient p = Fin (- 1) \<and> Fin 0 < rp_scale p"
proof -
  have "is_ok (normalize_reference_coefficient (Fin (- 4)))" by code_simp
  then obtain p where p: "normalize_reference_coefficient (Fin (- 4)) = Inr p" by (auto simp: is_ok_iff)
  note pivot = normalize_reference_pivot [of "Fin (- 4)", unfolded p sum.case]
  have "f64_val (Fin (- 4)) < 0" by simp
  with pivot have "rp_coefficient p = Fin (- 1)" "Fin 0 < rp_scale p" by metis+
  with p show ?thesis by blast
qed

text \<open>
  The identifiers of the boundary policies round-trip, every other text is refused, and only
  the closed policy makes unresolved balances blockers.
\<close>

theorem boundary_policy_roundtrip:
  "policy_parse (policy_as_str p) = Inr p \<and>
   (\<forall>v q. policy_parse v = Inr q \<longleftrightarrow> v = policy_as_str q) \<and> (requires_closure p \<longleftrightarrow> policy_as_str p = ''closed'')"
proof -
  have "policy_parse v = Inr q \<longleftrightarrow> v = policy_as_str q" for v q
    by (cases q) (auto simp: policy_parse_def policy_as_str_def)
  then show ?thesis by (cases p) (auto simp: requires_closure_def policy_as_str_def)
qed

end
