(* ===== verification/Provider_Linking.thy ===== *)
theory Provider_Linking
  imports Signed_Flow
begin

text \<open>
  The provider resolution of \<open>crates/solver-worker/src/bin/snapshot_builder.rs\<close>: how the snapshot
  builder chooses, among several processes that can balance an exchange, the providers and their
  routing weights. Locations are parsed into descriptors, candidates are tiered or scored by
  geography and time, and one of six rules decides. Theorems: a resolution routes a non-empty list of
  candidates with finite non-negative weights, the strict rule picks a clear best candidate, the
  volume rule keeps exactly the best geography tier, and the score and the tier agree.
\<close>

section \<open>Data\<close>

datatype provider_rule =
    StrictUniqueProvider
  | BestProviderStrict
  | SplitByProcessVolume
  | SplitByEvidenceStrict
  | SplitByEvidenceHybrid
  | SplitEqual

datatype provider_resolution_strategy =
    UniqueProviderStrategy
  | SelectedModelResultStrategy
  | BestProviderStrictStrategy
  | SplitByEvidenceStrategy
  | SplitByProcessVolumeStrategy
  | SplitEqualStrategy
  | SplitEqualFallbackStrategy

datatype geography_tier = LocalSubnational | SameCountry | SameRegion | GlobalTier | OtherTier

datatype provider_supply_region_source = ExchangeLocation | ConsumerProcessLocation | Unspecified

datatype provider_failure_reason =
    NoProviderCandidates
  | RejectedNonReferenceOnly
  | RuleRequiresUniqueProvider
  | NoCandidateGeMinScore
  | Top1BelowTop1MinScore
  | Top1Top2RatioTooClose
  | ScoreSumNonPositive
  | NoOppositeSignReference
  | LineageOverlapRequiresBindingReason

datatype exchange_direction = ExchangeInput | ExchangeOutput

datatype allocation_fraction_state = AllocationPresent | AllocationSparseZero | AllocationMissing | AllocationInvalid

record parsed_exchange =
  ex_process_idx :: i32
  ex_flow_id :: uuid
  ex_direction :: "exchange_direction option"
  ex_direction_label :: string
  ex_internal_id :: "string option"
  ex_exchange_id :: string
  ex_flow_version :: string
  ex_is_reference_exchange :: bool
  ex_raw_amount :: "f64 option"
  ex_signed_raw_coefficient :: "f64 option"
  ex_amount :: "f64 option"
  ex_allocation_state :: allocation_fraction_state
  ex_allocation_fraction :: f64
  ex_allocation_target_internal_id :: string
  ex_location :: "string option"

record process_meta =
  meta_process_idx :: i32
  meta_process_id :: uuid
  meta_process_version :: string
  meta_process_name :: "string option"
  meta_model_id :: "uuid option"
  meta_model_version :: "string option"
  meta_location :: "string option"
  meta_reference_year :: "i32 option"
  meta_annual_supply_or_production_volume :: "f64 option"

record provider_candidate_score =
  cs_provider_idx :: i32
  cs_provider_id :: uuid
  cs_geo_score :: f64
  cs_time_score :: f64
  cs_final_score :: f64

record supply_region_anchor =
  sra_source :: provider_supply_region_source
  sra_location :: "string option"

record multi_provider_resolution =
  mr_allocations :: "(i32 \<times> f64) list"
  mr_resolution_strategy :: provider_resolution_strategy
  mr_used_equal_fallback :: bool
  mr_volume_fallback_to_one_count :: i32
  mr_geography_tier :: "geography_tier option"

datatype multi_provider_decision =
    Resolved multi_provider_resolution
  | Unresolved provider_failure_reason

datatype link_error =
    MissingConsumerMeta i32
  | MissingProviderMeta i32
  | EmptyProviderCandidates
  | VolumeWeightSumNotPositive
  | VolumeFallbackCountOverflow
  | UnsupportedProviderRule string

section \<open>Rules as texts\<close>

definition provider_rule_as_str :: "provider_rule \<Rightarrow> string" where
  "provider_rule_as_str r =
     (case r of
        StrictUniqueProvider \<Rightarrow> ''strict_unique_provider''
      | BestProviderStrict \<Rightarrow> ''best_provider_strict''
      | SplitByProcessVolume \<Rightarrow> ''split_by_process_volume''
      | SplitByEvidenceStrict \<Rightarrow> ''split_by_evidence''
      | SplitByEvidenceHybrid \<Rightarrow> ''split_by_evidence_hybrid''
      | SplitEqual \<Rightarrow> ''split_equal'')"

definition provider_rule_parse :: "string \<Rightarrow> link_error + provider_rule" where
  "provider_rule_parse v =
     (if v = ''strict_unique_provider'' then Inr StrictUniqueProvider
      else if v = ''best_provider_strict'' then Inr BestProviderStrict
      else if v = ''split_by_process_volume'' then Inr SplitByProcessVolume
      else if v = ''split_by_evidence'' then Inr SplitByEvidenceStrict
      else if v = ''split_by_evidence_hybrid'' then Inr SplitByEvidenceHybrid
      else if v = ''split_equal'' then Inr SplitEqual
      else Inl (UnsupportedProviderRule v))"

section \<open>Locations\<close>

record location_descriptor =
  loc_canonical :: "string option"
  loc_country_code :: "string option"
  loc_region_group :: "string option"
  loc_is_subnational :: bool
  loc_is_global :: bool

definition is_ascii_alphabetic :: "char \<Rightarrow> bool" where
  "is_ascii_alphabetic c = (CHR ''a'' \<le> c \<and> c \<le> CHR ''z'' \<or> CHR ''A'' \<le> c \<and> c \<le> CHR ''Z'')"

definition to_ascii_uppercase :: "char \<Rightarrow> char" where
  "to_ascii_uppercase c = (if CHR ''a'' \<le> c \<and> c \<le> CHR ''z'' then char_of (of_char c - 32 :: nat) else c)"

definition extract_country_code :: "string \<Rightarrow> string option" where
  "extract_country_code location =
     (if location = ''GLO'' then None
      else let token = trim (takeWhile (\<lambda>c. c \<notin> {CHR ''-'', CHR ''_'', CHR '' ''}) location) in
           if length token = 2 \<and> list_all is_ascii_alphabetic token then Some token else None)"

definition region_group_from_code :: "string \<Rightarrow> string option" where
  "region_group_from_code code =
     (if code \<in> set [''GLO'', ''ROW''] then Some ''GLOBAL''
      else if code \<in> set [''RER'', ''EU'', ''EU27'', ''EU28'', ''EFTA'', ''WEU'', ''EEU'', ''AT'', ''BE'', ''BG'', ''CH'',
        ''CY'', ''CZ'', ''DE'', ''DK'', ''EE'', ''ES'', ''FI'', ''FR'', ''GB'', ''GR'', ''HR'', ''HU'',
        ''IE'', ''IS'', ''IT'', ''LI'', ''LT'', ''LU'', ''LV'', ''MT'', ''NL'', ''NO'', ''PL'', ''PT'',
        ''RO'', ''SE'', ''SI'', ''SK''] then Some ''EUROPE''
      else if code \<in> set [''APAC'', ''RAS'', ''SAS'', ''EAS'', ''OCE'', ''CN'', ''JP'', ''KR'', ''IN'', ''AU'', ''NZ'', ''ID'',
        ''TH'', ''VN'', ''MY'', ''SG'', ''PH'', ''PK'', ''BD''] then Some ''APAC''
      else if code \<in> set [''RNA'', ''NAM'', ''US'', ''CA'', ''MX''] then Some ''NORTH_AMERICA''
      else if code \<in> set [''RLA'', ''LATAM'', ''BR'', ''AR'', ''CL'', ''CO'', ''PE'', ''UY'', ''PY'', ''BO'', ''EC'', ''VE'',
        ''CR'', ''GT'', ''HN'', ''NI'', ''SV'', ''PA'', ''DO'', ''CU''] then Some ''LATAM''
      else if code \<in> set [''RAF'', ''AFR'', ''ZA'', ''EG'', ''NG'', ''KE'', ''GH'', ''DZ'', ''MA'', ''TN'', ''ET'', ''TZ'',
        ''UG''] then Some ''AFRICA''
      else if code \<in> set [''RME'', ''MEA'', ''AE'', ''SA'', ''QA'', ''KW'', ''OM'', ''BH'', ''IL'', ''TR'', ''IR'', ''IQ'',
        ''JO'', ''LB''] then Some ''MIDDLE_EAST''
      else None)"

definition canonical_location :: "string option \<Rightarrow> string option" where
  "canonical_location location =
     (case map_option trim location of
        None \<Rightarrow> None
      | Some v \<Rightarrow> if v = [] then None
                  else Some (map (\<lambda>c. if c = CHR ''_'' then CHR ''-'' else c) (map to_ascii_uppercase v)))"

definition parse_location_descriptor :: "string option \<Rightarrow> location_descriptor" where
  "parse_location_descriptor location =
     (case canonical_location location of
        None \<Rightarrow> \<lparr>loc_canonical = None, loc_country_code = None, loc_region_group = None,
                 loc_is_subnational = False, loc_is_global = False\<rparr>
      | Some canonical \<Rightarrow>
          let country_code = extract_country_code canonical in
          \<lparr>loc_canonical = Some canonical,
           loc_country_code = country_code,
           loc_region_group = (case region_group_from_code canonical of
              Some g \<Rightarrow> Some g
            | None \<Rightarrow> Option.bind country_code region_group_from_code),
           loc_is_subnational = (CHR ''-'' \<in> set canonical \<and> country_code \<noteq> None),
           loc_is_global = (canonical = ''GLO'' \<or> canonical = ''ROW'')\<rparr>)"

definition geo_score :: "string option \<Rightarrow> string option \<Rightarrow> f64" where
  "geo_score consumer_location provider_location =
     (let consumer = parse_location_descriptor consumer_location;
          provider = parse_location_descriptor provider_location in
      if loc_is_subnational consumer \<and> loc_is_subnational provider \<and> loc_canonical consumer \<noteq> None \<and>
         loc_canonical consumer = loc_canonical provider then f64_lit 1
      else if loc_country_code consumer \<noteq> None \<and> loc_country_code consumer = loc_country_code provider
      then f64_lit (85 / 100)
      else if loc_region_group consumer \<noteq> None \<and> loc_region_group consumer = loc_region_group provider
      then f64_lit (6 / 10)
      else if loc_is_global provider then f64_lit (4 / 10)
      else f64_lit (1 / 10))"

definition provider_geography_tier :: "string option \<Rightarrow> string option \<Rightarrow> geography_tier" where
  "provider_geography_tier consumer_location provider_location =
     (let consumer = parse_location_descriptor consumer_location;
          provider = parse_location_descriptor provider_location in
      if loc_is_subnational consumer \<and> loc_is_subnational provider \<and> loc_canonical consumer \<noteq> None \<and>
         loc_canonical consumer = loc_canonical provider then LocalSubnational
      else if loc_country_code consumer \<noteq> None \<and> loc_country_code consumer = loc_country_code provider
      then SameCountry
      else if \<not> loc_is_global provider \<and> loc_region_group consumer \<noteq> None \<and>
              loc_region_group consumer = loc_region_group provider
      then SameRegion
      else if loc_is_global provider then GlobalTier
      else OtherTier)"

definition provider_geography_tier_rank :: "geography_tier \<Rightarrow> nat" where
  "provider_geography_tier_rank tier =
     (case tier of LocalSubnational \<Rightarrow> 0 | SameCountry \<Rightarrow> 1 | SameRegion \<Rightarrow> 2 | GlobalTier \<Rightarrow> 3 | OtherTier \<Rightarrow> 4)"

text \<open>The difference and its absolute value are \<open>i32\<close> operations that wrap in a release build.\<close>

definition time_score :: "i32 option \<Rightarrow> i32 option \<Rightarrow> f64" where
  "time_score consumer_year provider_year =
     (case (consumer_year, provider_year) of
        (Some l, Some r) \<Rightarrow>
          let diff = wrap_i32 \<bar>wrap_i32 (l - r)\<bar> in
          if diff \<le> 1 then f64_lit 1
          else if diff \<le> 3 then f64_lit (85 / 100)
          else if diff \<le> 5 then f64_lit (65 / 100)
          else if diff \<le> 10 then f64_lit (4 / 10)
          else f64_lit (2 / 10)
      | _ \<Rightarrow> f64_lit (5 / 10))"

definition location_descriptor_is_usable :: "location_descriptor \<Rightarrow> bool" where
  "location_descriptor_is_usable d = (loc_is_global d \<or> loc_country_code d \<noteq> None \<or> loc_region_group d \<noteq> None)"

definition normalize_usable_supply_region_location :: "string option \<Rightarrow> string option" where
  "normalize_usable_supply_region_location location =
     (let d = parse_location_descriptor location in
      if location_descriptor_is_usable d then loc_canonical d else None)"

definition resolve_supply_region_anchor :: "string option \<Rightarrow> string option \<Rightarrow> supply_region_anchor" where
  "resolve_supply_region_anchor exchange_location consumer_location =
     (case normalize_usable_supply_region_location exchange_location of
        Some l \<Rightarrow> \<lparr>sra_source = ExchangeLocation, sra_location = Some l\<rparr>
      | None \<Rightarrow>
          (case normalize_usable_supply_region_location consumer_location of
             Some l \<Rightarrow> \<lparr>sra_source = ConsumerProcessLocation, sra_location = Some l\<rparr>
           | None \<Rightarrow> \<lparr>sra_source = Unspecified, sra_location = None\<rparr>))"

section \<open>Candidates\<close>

definition process_meta_for_idx :: "process_meta list \<Rightarrow> i32 \<Rightarrow> process_meta option" where
  "process_meta_for_idx metas i = Option.bind (usize_try_from i) (vec_get metas)"

definition supply_region_anchor_for_exchange ::
  "parsed_exchange \<Rightarrow> process_meta list \<Rightarrow> link_error + supply_region_anchor" where
  "supply_region_anchor_for_exchange exchange metas =
     res_bind (ok_or (MissingConsumerMeta (ex_process_idx exchange)) (process_meta_for_idx metas (ex_process_idx exchange)))
       (\<lambda>consumer. Inr (resolve_supply_region_anchor (ex_location exchange) (meta_location consumer)))"

definition provider_volume_raw_weight :: "process_meta \<Rightarrow> f64 \<times> bool" where
  "provider_volume_raw_weight provider =
     (case meta_annual_supply_or_production_volume provider of
        Some v \<Rightarrow> if is_finite v \<and> Fin 0 < v then (v, False) else (Fin 1, True)
      | None \<Rightarrow> (Fin 1, True))"

definition same_model_step ::
  "process_meta list \<Rightarrow> uuid \<Rightarrow> i32 list \<Rightarrow> i32 \<Rightarrow> link_error + i32 list" where
  "same_model_step metas consumer_model_id same_model p =
     res_bind (ok_or (MissingProviderMeta p) (process_meta_for_idx metas p)) (\<lambda>provider.
     Inr (if meta_model_id provider = Some consumer_model_id then same_model @ [p] else same_model))"

definition same_model_preferred_provider_indices ::
  "i32 \<Rightarrow> i32 list \<Rightarrow> process_meta list \<Rightarrow> link_error + i32 list" where
  "same_model_preferred_provider_indices consumer_idx providers metas =
     res_bind (ok_or (MissingConsumerMeta consumer_idx) (process_meta_for_idx metas consumer_idx)) (\<lambda>consumer.
     case meta_model_id consumer of
       None \<Rightarrow> Inr providers
     | Some m \<Rightarrow>
         res_bind (try_fold (same_model_step metas m) [] providers) (\<lambda>same_model.
         Inr (if same_model = [] then providers else same_model)))"

definition AUTO_LINK_GEO_WEIGHT :: f64 where
  "AUTO_LINK_GEO_WEIGHT = f64_lit (7 / 10)"

definition AUTO_LINK_TIME_WEIGHT :: f64 where
  "AUTO_LINK_TIME_WEIGHT = f64_lit (3 / 10)"

definition AUTO_LINK_MIN_SCORE :: f64 where
  "AUTO_LINK_MIN_SCORE = f64_lit (35 / 100)"

definition AUTO_LINK_TOP1_MIN_SCORE :: f64 where
  "AUTO_LINK_TOP1_MIN_SCORE = f64_lit (55 / 100)"

definition AUTO_LINK_TOP1_TOP2_MIN_RATIO :: f64 where
  "AUTO_LINK_TOP1_TOP2_MIN_RATIO = f64_lit (12 / 10)"

definition F64_EPSILON :: f64 where
  "F64_EPSILON = Fin (1 / 2 ^ 52)"

definition final_score_of :: "f64 \<Rightarrow> f64 \<Rightarrow> f64" where
  "final_score_of geo time = AUTO_LINK_GEO_WEIGHT * geo + AUTO_LINK_TIME_WEIGHT * time"

definition score_candidate ::
  "process_meta list \<Rightarrow> process_meta \<Rightarrow> supply_region_anchor \<Rightarrow> i32 \<Rightarrow> link_error + provider_candidate_score" where
  "score_candidate metas consumer anchor p =
     res_bind (ok_or (MissingProviderMeta p) (process_meta_for_idx metas p)) (\<lambda>provider.
     let geo = geo_score (sra_location anchor) (meta_location provider);
         time = time_score (meta_reference_year consumer) (meta_reference_year provider) in
     Inr \<lparr>cs_provider_idx = p, cs_provider_id = meta_process_id provider, cs_geo_score = geo, cs_time_score = time,
          cs_final_score = final_score_of geo time\<rparr>)"

text \<open>Decreasing final, geography and time score, then increasing identifier.\<close>

definition score_le :: "provider_candidate_score \<Rightarrow> provider_candidate_score \<Rightarrow> bool" where
  "score_le l r =
     (if cs_final_score l \<noteq> cs_final_score r then total_le (cs_final_score r) (cs_final_score l)
      else if cs_geo_score l \<noteq> cs_geo_score r then total_le (cs_geo_score r) (cs_geo_score l)
      else if cs_time_score l \<noteq> cs_time_score r then total_le (cs_time_score r) (cs_time_score l)
      else cs_provider_id l \<le> cs_provider_id r)"

definition score_provider_candidates ::
  "i32 \<Rightarrow> string option \<Rightarrow> i32 list \<Rightarrow> process_meta list \<Rightarrow> link_error + provider_candidate_score list" where
  "score_provider_candidates consumer_idx exchange_location providers metas =
     res_bind (ok_or (MissingConsumerMeta consumer_idx) (process_meta_for_idx metas consumer_idx)) (\<lambda>consumer.
     let anchor = resolve_supply_region_anchor exchange_location (meta_location consumer) in
     res_bind (same_model_preferred_provider_indices consumer_idx providers metas) (\<lambda>candidates.
     res_bind (try_map (score_candidate metas consumer anchor) candidates) (\<lambda>scored.
     Inr (sort_by score_le scored))))"

section \<open>Rules\<close>

definition tier_of_provider ::
  "process_meta list \<Rightarrow> supply_region_anchor \<Rightarrow> i32 \<Rightarrow> link_error + (i32 \<times> geography_tier)" where
  "tier_of_provider metas anchor p =
     res_bind (ok_or (MissingProviderMeta p) (process_meta_for_idx metas p)) (\<lambda>provider.
     Inr (p, provider_geography_tier (sra_location anchor) (meta_location provider)))"

definition raw_weight_of_provider :: "process_meta list \<Rightarrow> i32 \<Rightarrow> link_error + (i32 \<times> f64 \<times> bool)" where
  "raw_weight_of_provider metas p =
     res_bind (ok_or (MissingProviderMeta p) (process_meta_for_idx metas p)) (\<lambda>provider.
     Inr (p, provider_volume_raw_weight provider))"

definition split_by_process_volume ::
  "parsed_exchange \<Rightarrow> i32 list \<Rightarrow> process_meta list \<Rightarrow> link_error + multi_provider_resolution" where
  "split_by_process_volume exchange providers metas =
     res_bind (supply_region_anchor_for_exchange exchange metas) (\<lambda>anchor.
     res_bind (same_model_preferred_provider_indices (ex_process_idx exchange) providers metas) (\<lambda>providers.
     res_bind (try_map (tier_of_provider metas anchor) providers) (\<lambda>tiered.
     res_bind (ok_or EmptyProviderCandidates
        (min_by (\<lambda>a b. provider_geography_tier_rank a \<le> provider_geography_tier_rank b) (map snd tiered))) (\<lambda>selected_tier.
     res_bind (try_map (raw_weight_of_provider metas) (map fst (filter (\<lambda>(p, tier). tier = selected_tier) tiered))) (\<lambda>raw_weights.
     let weight_sum = f64_sum (map (\<lambda>(p, w, b). w) raw_weights) in
     if weight_sum \<le> F64_EPSILON \<or> \<not> is_finite weight_sum then Inl VolumeWeightSumNotPositive
     else
     let fallbacks = length (filter (\<lambda>(p, w, b). b) raw_weights) in
     if int fallbacks > i32_max then Inl VolumeFallbackCountOverflow
     else Inr \<lparr>mr_allocations = map (\<lambda>(p, w, b). (p, f64_div w weight_sum)) raw_weights,
               mr_resolution_strategy = SplitByProcessVolumeStrategy, mr_used_equal_fallback = False,
               mr_volume_fallback_to_one_count = int fallbacks, mr_geography_tier = Some selected_tier\<rparr>)))))"

definition plain_resolution :: "(i32 \<times> f64) list \<Rightarrow> provider_resolution_strategy \<Rightarrow> bool \<Rightarrow> multi_provider_resolution" where
  "plain_resolution allocations strategy fallback =
     \<lparr>mr_allocations = allocations, mr_resolution_strategy = strategy, mr_used_equal_fallback = fallback,
      mr_volume_fallback_to_one_count = 0, mr_geography_tier = None\<rparr>"

definition split_equal :: "i32 list \<Rightarrow> multi_provider_resolution" where
  "split_equal providers =
     (let share = f64_div (Fin 1) (f64_round (of_nat (length providers))) in
      plain_resolution (map (\<lambda>p. (p, share)) providers) SplitEqualStrategy False)"

definition split_equal_fallback :: "i32 list \<Rightarrow> multi_provider_resolution" where
  "split_equal_fallback providers =
     (split_equal providers)\<lparr>mr_resolution_strategy := SplitEqualFallbackStrategy, mr_used_equal_fallback := True\<rparr>"

definition scored_candidates ::
  "parsed_exchange \<Rightarrow> i32 list \<Rightarrow> process_meta list \<Rightarrow> f64 \<Rightarrow> link_error + provider_candidate_score list" where
  "scored_candidates exchange providers metas min_score =
     res_bind (score_provider_candidates (ex_process_idx exchange) (ex_location exchange) providers metas) (\<lambda>scored.
     Inr (filter (\<lambda>c. min_score \<le> cs_final_score c) scored))"

definition best_provider :: "provider_candidate_score list \<Rightarrow> multi_provider_decision" where
  "best_provider scored =
     (case scored of
        [] \<Rightarrow> Unresolved NoCandidateGeMinScore
      | top1 # rest \<Rightarrow>
          if cs_final_score top1 < AUTO_LINK_TOP1_MIN_SCORE then Unresolved Top1BelowTop1MinScore
          else if (case rest of
                     [] \<Rightarrow> False
                   | top2 # _ \<Rightarrow> F64_EPSILON < cs_final_score top2 \<and>
                       f64_div (cs_final_score top1) (cs_final_score top2) < AUTO_LINK_TOP1_TOP2_MIN_RATIO)
          then Unresolved Top1Top2RatioTooClose
          else Resolved (plain_resolution [(cs_provider_idx top1, Fin 1)] BestProviderStrictStrategy False))"

definition score_sum :: "provider_candidate_score list \<Rightarrow> f64" where
  "score_sum scored = f64_sum (map cs_final_score scored)"

definition evidence_split :: "provider_candidate_score list \<Rightarrow> multi_provider_resolution" where
  "evidence_split scored =
     plain_resolution (map (\<lambda>c. (cs_provider_idx c, f64_div (cs_final_score c) (score_sum scored))) scored)
       SplitByEvidenceStrategy False"

definition resolve_multi_provider ::
  "provider_rule \<Rightarrow> parsed_exchange \<Rightarrow> i32 list \<Rightarrow> process_meta list \<Rightarrow> link_error + multi_provider_decision" where
  "resolve_multi_provider rule exchange providers metas =
     (if providers = [] then Inr (Unresolved NoProviderCandidates)
      else case rule of
        StrictUniqueProvider \<Rightarrow> Inr (Unresolved RuleRequiresUniqueProvider)
      | SplitEqual \<Rightarrow> Inr (Resolved (split_equal providers))
      | SplitByProcessVolume \<Rightarrow>
          res_bind (split_by_process_volume exchange providers metas) (\<lambda>r. Inr (Resolved r))
      | BestProviderStrict \<Rightarrow>
          res_bind (scored_candidates exchange providers metas AUTO_LINK_MIN_SCORE) (\<lambda>scored. Inr (best_provider scored))
      | SplitByEvidenceStrict \<Rightarrow>
          res_bind (scored_candidates exchange providers metas AUTO_LINK_MIN_SCORE) (\<lambda>scored.
          Inr (if scored = [] then Unresolved NoCandidateGeMinScore
               else if score_sum scored \<le> F64_EPSILON then Unresolved ScoreSumNonPositive
               else Resolved (evidence_split scored)))
      | SplitByEvidenceHybrid \<Rightarrow>
          res_bind (scored_candidates exchange providers metas AUTO_LINK_MIN_SCORE) (\<lambda>scored.
          Inr (Resolved (if scored = [] \<or> score_sum scored \<le> F64_EPSILON then split_equal_fallback providers
                         else evidence_split scored))))"

definition best_tier_step ::
  "process_meta list \<Rightarrow> string option \<Rightarrow> geography_tier option \<Rightarrow> i32 \<times> f64
   \<Rightarrow> link_error + geography_tier option" where
  "best_tier_step metas location best alloc =
     res_bind (ok_or (MissingProviderMeta (fst alloc)) (process_meta_for_idx metas (fst alloc))) (\<lambda>provider.
     let tier = provider_geography_tier location (meta_location provider) in
     Inr (if (case best of Some current \<Rightarrow> provider_geography_tier_rank tier < provider_geography_tier_rank current
              | None \<Rightarrow> True)
          then Some tier else best))"

definition best_geography_tier_for_allocations ::
  "string option \<Rightarrow> (i32 \<times> f64) list \<Rightarrow> process_meta list \<Rightarrow> link_error + geography_tier option" where
  "best_geography_tier_for_allocations location allocations metas =
     try_fold (best_tier_step metas location) None allocations"

section \<open>Scores\<close>

text \<open>A share is a finite value between 0 and 1; products and weighted sums of shares are bounded.\<close>

definition proper_share :: "f64 \<Rightarrow> bool" where
  "proper_share w = (is_finite w \<and> Fin 0 \<le> w \<and> w \<le> Fin 1)"

lemma proper_shareI: "f64_le (Fin 0) w \<Longrightarrow> f64_le w (Fin 1) \<Longrightarrow> proper_share w"
  by (cases w) (auto simp: proper_share_def less_eq_f64_def f64_le_simps f64_nonneg_def [symmetric])

lemma proper_lit: "0 \<le> q \<Longrightarrow> q \<le> 1 \<Longrightarrow> proper_share (f64_lit q)"
  unfolding f64_lit_def
  using f64_round_mono [of q 1] f64_round_nonneg [of q] by (intro proper_shareI) (simp_all add: f64_nonneg_def)

lemma f64_mul_share:
  assumes "proper_share w" "f64_wf w" "proper_share g"
  shows "f64_nonneg (w * g) \<and> f64_le (w * g) w"
proof -
  have "f64_nonneg (f64_round (a * b)) \<and> f64_le (f64_round (a * b)) (Fin a)"
    if "representable a" "0 \<le> a" "0 \<le> b" "b \<le> 1" for a b
    using f64_round_mono [of "a * b" a] f64_round_representable [OF that(1)] f64_round_nonneg [of "a * b"] that
    by (simp add: mult_left_le)
  with assms show ?thesis
    by (cases w; cases g)
       (auto simp: proper_share_def less_eq_f64_def times_f64_def f64_mul_def f64_is_zero_def signed_zero_def f64_le_simps)
qed

lemma f64_add_le:
  assumes "f64_nonneg x" "f64_nonneg y" "f64_le x a" "f64_le y b" "is_finite a" "is_finite b"
  shows "f64_le (f64_add x y) (f64_add a b)"
proof -
  have round: "f64_le (f64_round p) (f64_round q)" if "0 \<le> p" "p \<le> q" for p q
    using f64_round_mono that by blast
  have zero: "f64_le NegZero (f64_round p)" if "0 \<le> p" for p
    using f64_round_nonneg [OF that] by (cases "f64_round p") (auto simp: f64_le_simps)
  have plus: "f64_le (Fin 0) (f64_round p)" if "0 \<le> p" for p
    using f64_round_nonneg [OF that] by (simp add: f64_nonneg_def)
  have zero': "f64_le (f64_round p) NegZero" if "p = 0" for p
    using that by (simp add: f64_le_simps)
  show ?thesis
    using assms
    by (cases x; cases y; cases a; cases b)
       (auto simp: f64_add_def f64_le_simps intro!: round zero zero' plus)
qed

lemma final_score_bounds:
  assumes "proper_share g" "proper_share t"
  shows "f64_wf (final_score_of g t) \<and> proper_share (final_score_of g t)"
proof -
  have w: "proper_share AUTO_LINK_GEO_WEIGHT" "f64_wf AUTO_LINK_GEO_WEIGHT"
      "proper_share AUTO_LINK_TIME_WEIGHT" "f64_wf AUTO_LINK_TIME_WEIGHT"
    by (simp_all add: AUTO_LINK_GEO_WEIGHT_def AUTO_LINK_TIME_WEIGHT_def proper_lit) (simp_all add: f64_lit_def)
  note g = f64_mul_share [OF w(1,2) assms(1)] and t = f64_mul_share [OF w(3,4) assms(2)]
  have "f64_le (f64_add AUTO_LINK_GEO_WEIGHT AUTO_LINK_TIME_WEIGHT) (Fin 1)" by code_simp
  moreover have "f64_le (final_score_of g t) (f64_add AUTO_LINK_GEO_WEIGHT AUTO_LINK_TIME_WEIGHT)"
    unfolding final_score_of_def plus_f64_def
    using g t w by (intro f64_add_le) (simp_all add: proper_share_def)
  ultimately have "f64_le (final_score_of g t) (Fin 1)" by (rule f64_le_trans [rotated])
  moreover have "f64_nonneg (final_score_of g t)"
    unfolding final_score_of_def plus_f64_def using g t by (simp add: f64_add_nonneg)
  moreover have "f64_wf (final_score_of g t)"
    unfolding final_score_of_def plus_f64_def times_f64_def by (intro f64_add_wf f64_mul_wf)
  ultimately show ?thesis by (simp add: proper_shareI f64_nonneg_def)
qed

lemma geo_score_share: "proper_share (geo_score c p)"
  unfolding geo_score_def Let_def by (simp add: proper_lit)

lemma time_score_share: "proper_share (time_score c p)"
  unfolding time_score_def Let_def by (auto simp: proper_lit split: option.split)

lemma score_le_refl: "reflp score_le"
  by (simp add: reflp_def score_le_def)

lemma score_le_total: "totalp score_le"
  using total_le_linear by (auto simp: totalp_on_def score_le_def)

lemma score_le_trans: "transp score_le"
  by (rule transpI) (auto simp: score_le_def split: if_splits intro: total_le_trans dest: total_le_antisym)

lemma score_le_final: "score_le l r \<Longrightarrow> total_le (cs_final_score r) (cs_final_score l)"
  by (simp add: score_le_def split: if_splits)

section \<open>Candidates and resolutions\<close>

definition in_model :: "process_meta list \<Rightarrow> uuid \<Rightarrow> i32 \<Rightarrow> bool" where
  "in_model metas m p = (Option.bind (process_meta_for_idx metas p) meta_model_id = Some m)"

lemma same_model_fold:
  "try_fold (same_model_step metas m) acc ps = Inr r \<Longrightarrow> r = acc @ filter (in_model metas m) ps"
proof (induction ps arbitrary: acc)
  case Nil
  then show ?case by simp
next
  case (Cons p ps)
  then obtain meta where meta: "process_meta_for_idx metas p = Some meta"
    by (auto simp: same_model_step_def res_simps)
  then have "same_model_step metas m acc p = Inr (if in_model metas m p then acc @ [p] else acc)"
    by (simp add: same_model_step_def in_model_def)
  with Cons.prems Cons.IH [of "if in_model metas m p then acc @ [p] else acc"] show ?case
    by (simp split: if_splits)
qed

text \<open>
  The preferred candidates are the providers of the consumer's own model when there are any, and
  all providers otherwise.
\<close>

lemma same_model_preferred:
  assumes "same_model_preferred_provider_indices c providers metas = Inr qs"
  shows "set qs \<subseteq> set providers" "providers \<noteq> [] \<Longrightarrow> qs \<noteq> []" "distinct providers \<Longrightarrow> distinct qs"
proof -
  from assms consider "qs = providers" | m where "qs = filter (in_model metas m) providers" "qs \<noteq> []"
    by (auto simp: same_model_preferred_provider_indices_def res_simps split: option.splits if_splits
        dest!: same_model_fold)
  then show "set qs \<subseteq> set providers" "providers \<noteq> [] \<Longrightarrow> qs \<noteq> []" "distinct providers \<Longrightarrow> distinct qs"
    by (cases; auto)+
qed

definition score_of :: "process_meta list \<Rightarrow> i32 \<Rightarrow> string option \<Rightarrow> i32 \<Rightarrow> f64" where
  "score_of metas consumer_idx exchange_location p =
     (case (process_meta_for_idx metas consumer_idx, process_meta_for_idx metas p) of
        (Some consumer, Some provider) \<Rightarrow>
          final_score_of
            (geo_score (sra_location (resolve_supply_region_anchor exchange_location (meta_location consumer))) (meta_location provider))
            (time_score (meta_reference_year consumer) (meta_reference_year provider))
      | _ \<Rightarrow> NaN)"

lemma score_candidatesD:
  assumes "score_provider_candidates c loc providers metas = Inr scored"
  obtains qs where "same_model_preferred_provider_indices c providers metas = Inr qs"
    "mset (map cs_provider_idx scored) = mset qs" "sorted_wrt score_le scored"
    "\<forall>s \<in> set scored. score_of metas c loc (cs_provider_idx s) = cs_final_score s \<and>
       f64_wf (cs_final_score s) \<and> proper_share (cs_final_score s)"
proof -
  from assms obtain consumer qs raw where consumer: "process_meta_for_idx metas c = Some consumer"
    and qs: "same_model_preferred_provider_indices c providers metas = Inr qs"
    and raw: "try_map (score_candidate metas consumer (resolve_supply_region_anchor loc (meta_location consumer))) qs = Inr raw"
    and scored: "scored = sort_by score_le raw"
    by (auto simp: score_provider_candidates_def res_simps Let_def)
  have "list_all2 (\<lambda>p s. cs_provider_idx s = p \<and> score_of metas c loc p = cs_final_score s \<and>
      f64_wf (cs_final_score s) \<and> proper_share (cs_final_score s)) qs raw"
    using raw unfolding try_map_eq_Inr
    by (rule list_all2_mono)
       (auto simp: score_candidate_def res_simps Let_def score_of_def consumer final_score_bounds geo_score_share time_score_share)
  then have "map cs_provider_idx raw = qs"
    and all: "\<forall>s \<in> set raw. score_of metas c loc (cs_provider_idx s) = cs_final_score s \<and>
       f64_wf (cs_final_score s) \<and> proper_share (cs_final_score s)"
    by (induction rule: list_all2_induct) auto
  then have "mset (map cs_provider_idx scored) = mset qs" by (metis mset_map mset_sort_by scored)
  moreover have "sorted_wrt score_le scored"
    unfolding scored by (rule sorted_wrt_sort_by) (rule score_le_total score_le_refl score_le_trans)+
  moreover have "set scored = set raw" by (simp add: scored)
  ultimately show ?thesis using all by (intro that [OF qs]) simp_all
qed

definition routes_within :: "i32 list \<Rightarrow> multi_provider_resolution \<Rightarrow> bool" where
  "routes_within providers r =
     (mr_allocations r \<noteq> [] \<and> set (map fst (mr_allocations r)) \<subseteq> set providers \<and>
      (distinct providers \<longrightarrow> distinct (map fst (mr_allocations r))) \<and>
      list_all (\<lambda>(p, w). proper_share w) (mr_allocations r))"

lemma share_of_sum:
  assumes "list_all (\<lambda>v. f64_nonneg v \<and> f64_wf v \<and> is_finite v) ws" "w \<in> set ws" "\<not> f64_sum ws \<le> F64_EPSILON"
  shows "proper_share (f64_div w (f64_sum ws))"
proof (cases "is_finite (f64_sum ws)")
  case True
  have "f64_nonneg (f64_sum ws)" using assms(1) by (intro f64_sum_nonneg) (simp add: list_all_iff)
  with True assms(3) have "f64_less (Fin 0) (f64_sum ws)"
    by (cases "f64_sum ws") (auto simp: less_eq_f64_def F64_EPSILON_def f64_le_simps)
  moreover have "f64_le w (f64_sum ws)" using assms(1,2) by (intro f64_sum_ge) (simp_all add: list_all_iff)
  ultimately show ?thesis
    using f64_share [of w "f64_sum ws"] assms True by (intro proper_shareI) (simp_all add: list_all_iff)
next
  case False
  have "f64_nonneg (f64_sum ws)" using assms(1) by (intro f64_sum_nonneg) (simp add: list_all_iff)
  with False have "f64_sum ws = PosInf" by (cases "f64_sum ws") auto
  moreover have "f64_nonneg w" "is_finite w" using assms(1,2) by (simp_all add: list_all_iff)
  ultimately show ?thesis
    by (cases w) (auto intro!: proper_shareI simp: f64_div_def signed_zero_def f64_le_simps)
qed

lemma split_equal_routes:
  assumes "providers \<noteq> []"
  shows "routes_within providers (split_equal providers)" "routes_within providers (split_equal_fallback providers)"
proof -
  have "1 \<le> (of_nat (length providers) :: rat)" using assms by (cases providers) auto
  then have "f64_le (Fin 1) (f64_round (of_nat (length providers)))"
    using f64_round_mono [of 1 "of_nat (length providers)"] by simp
  then have "proper_share (f64_div (Fin 1) (f64_round (of_nat (length providers))))"
    using f64_share [of "Fin 1" "f64_round (of_nat (length providers))"]
    by (cases "f64_round (of_nat (length providers))")
       (auto intro!: proper_shareI simp: f64_le_simps f64_div_def f64_is_zero_def signed_zero_def)
  with assms show "routes_within providers (split_equal providers)" "routes_within providers (split_equal_fallback providers)"
    by (simp_all add: routes_within_def split_equal_def split_equal_fallback_def plain_resolution_def Let_def list_all_iff o_def)
qed

lemma scored_candidatesD:
  assumes "scored_candidates exchange providers metas m = Inr scored"
  shows "set (map cs_provider_idx scored) \<subseteq> set providers"
    "distinct providers \<Longrightarrow> distinct (map cs_provider_idx scored)"
    "sorted_wrt score_le scored"
    "s \<in> set scored \<Longrightarrow> m \<le> cs_final_score s \<and> f64_wf (cs_final_score s) \<and> proper_share (cs_final_score s) \<and>
       score_of metas (ex_process_idx exchange) (ex_location exchange) (cs_provider_idx s) = cs_final_score s"
proof -
  from assms obtain all where all: "score_provider_candidates (ex_process_idx exchange) (ex_location exchange) providers metas = Inr all"
    and scored: "scored = filter (\<lambda>c. m \<le> cs_final_score c) all"
    by (auto simp: scored_candidates_def res_simps)
  obtain qs where qs: "same_model_preferred_provider_indices (ex_process_idx exchange) providers metas = Inr qs"
    and ms: "mset (map cs_provider_idx all) = mset qs" and sorted: "sorted_wrt score_le all"
    and sc: "\<forall>s \<in> set all. score_of metas (ex_process_idx exchange) (ex_location exchange) (cs_provider_idx s) = cs_final_score s \<and>
       f64_wf (cs_final_score s) \<and> proper_share (cs_final_score s)"
    by (rule score_candidatesD [OF all])
  have "set (map cs_provider_idx all) = set qs" using ms by (rule mset_eq_setD)
  with same_model_preferred(1) [OF qs] show "set (map cs_provider_idx scored) \<subseteq> set providers"
    by (auto simp: scored)
  have "distinct (map cs_provider_idx all)" if "distinct providers"
    using same_model_preferred(3) [OF qs that] ms by (metis mset_eq_imp_distinct_iff)
  then show "distinct providers \<Longrightarrow> distinct (map cs_provider_idx scored)"
    by (simp add: scored distinct_map_filter)
  show "sorted_wrt score_le scored" using sorted by (simp add: scored sorted_wrt_filter)
  show "s \<in> set scored \<Longrightarrow> m \<le> cs_final_score s \<and> f64_wf (cs_final_score s) \<and> proper_share (cs_final_score s) \<and>
       score_of metas (ex_process_idx exchange) (ex_location exchange) (cs_provider_idx s) = cs_final_score s"
    using sc by (simp add: scored)
qed

lemma evidence_split_routes:
  assumes "scored_candidates exchange providers metas m = Inr scored" "scored \<noteq> []" "\<not> score_sum scored \<le> F64_EPSILON"
  shows "routes_within providers (evidence_split scored)"
proof -
  note sc = scored_candidatesD [OF assms(1)]
  have "list_all (\<lambda>v. f64_nonneg v \<and> f64_wf v \<and> is_finite v) (map cs_final_score scored)"
    using sc(4) by (auto simp: list_all_iff proper_share_def less_eq_f64_def f64_nonneg_def)
  from share_of_sum [OF this] assms(3)
  have "proper_share (f64_div (cs_final_score s) (score_sum scored))" if "s \<in> set scored" for s
    using that by (auto simp: score_sum_def)
  with assms(2) sc(1,2) show ?thesis
    by (auto simp: routes_within_def evidence_split_def plain_resolution_def list_all_iff o_def)
qed

section \<open>The volume rule\<close>

definition provider_tier :: "process_meta list \<Rightarrow> supply_region_anchor \<Rightarrow> i32 \<Rightarrow> geography_tier" where
  "provider_tier metas anchor p =
     provider_geography_tier (sra_location anchor) (Option.bind (process_meta_for_idx metas p) meta_location)"

definition raw_weight :: "process_meta list \<Rightarrow> i32 \<Rightarrow> f64" where
  "raw_weight metas p =
     (case process_meta_for_idx metas p of None \<Rightarrow> Fin 1 | Some m \<Rightarrow> fst (provider_volume_raw_weight m))"

definition machine_volumes :: "process_meta list \<Rightarrow> bool" where
  "machine_volumes metas =
     list_all (\<lambda>m. case meta_annual_supply_or_production_volume m of None \<Rightarrow> True | Some v \<Rightarrow> f64_wf v) metas"

lemma split_by_process_volumeD:
  assumes "split_by_process_volume exchange providers metas = Inr r"
  obtains anchor qs tier where
    "supply_region_anchor_for_exchange exchange metas = Inr anchor"
    "same_model_preferred_provider_indices (ex_process_idx exchange) providers metas = Inr qs"
    "mr_geography_tier r = Some tier" "tier \<in> provider_tier metas anchor ` set qs"
    "\<forall>q \<in> set qs. provider_geography_tier_rank tier \<le> provider_geography_tier_rank (provider_tier metas anchor q)"
    "map fst (mr_allocations r) = filter (\<lambda>q. provider_tier metas anchor q = tier) qs"
    "\<not> f64_sum (map (raw_weight metas) (map fst (mr_allocations r))) \<le> F64_EPSILON"
    "mr_allocations r = map (\<lambda>q. (q, f64_div (raw_weight metas q) (f64_sum (map (raw_weight metas) (map fst (mr_allocations r))))))
       (map fst (mr_allocations r))"
proof -
  from assms obtain anchor qs tiered tier raws where
    anchor: "supply_region_anchor_for_exchange exchange metas = Inr anchor" and
    qs: "same_model_preferred_provider_indices (ex_process_idx exchange) providers metas = Inr qs" and
    tiered: "try_map (tier_of_provider metas anchor) qs = Inr tiered" and
    tier: "min_by (\<lambda>a b. provider_geography_tier_rank a \<le> provider_geography_tier_rank b) (map snd tiered) = Some tier" and
    raws: "try_map (raw_weight_of_provider metas) (map fst (filter (\<lambda>(p, t). t = tier) tiered)) = Inr raws" and
    sum: "\<not> f64_sum (map (\<lambda>(p, w, b). w) raws) \<le> F64_EPSILON" and
    alloc: "mr_allocations r = map (\<lambda>(p, w, b). (p, f64_div w (f64_sum (map (\<lambda>(p, w, b). w) raws)))) raws"
      "mr_geography_tier r = Some tier"
    by (auto simp: split_by_process_volume_def res_simps Let_def split: if_splits)
  have tiered_eq: "tiered = map (\<lambda>q. (q, provider_tier metas anchor q)) qs"
    using tiered unfolding try_map_eq_Inr
    by (induction rule: list_all2_induct) (auto simp: tier_of_provider_def res_simps provider_tier_def)
  let ?sel = "filter (\<lambda>q. provider_tier metas anchor q = tier) qs"
  have sel: "map fst (filter (\<lambda>(p, t). t = tier) tiered) = ?sel"
    by (simp add: tiered_eq filter_map o_def)
  have raws_eq: "map (\<lambda>(p, w, b). (p, w)) raws = map (\<lambda>q. (q, raw_weight metas q)) ?sel"
    using raws unfolding sel try_map_eq_Inr
    by (induction rule: list_all2_induct)
       (auto simp: raw_weight_of_provider_def res_simps raw_weight_def split: prod.splits)
  have ws: "map (\<lambda>(p, w, b). w) raws = map (raw_weight metas) ?sel"
    using arg_cong [OF raws_eq, of "map snd"] by (simp add: o_def case_prod_unfold)
  have "mr_allocations r = map (\<lambda>(p, w). (p, f64_div w (f64_sum (map (raw_weight metas) ?sel)))) (map (\<lambda>(p, w, b). (p, w)) raws)"
    unfolding alloc ws by (simp add: o_def case_prod_unfold)
  then have al: "mr_allocations r = map (\<lambda>q. (q, f64_div (raw_weight metas q) (f64_sum (map (raw_weight metas) ?sel)))) ?sel"
    unfolding raws_eq by (simp add: o_def)
  then have fsts: "map fst (mr_allocations r) = ?sel" by (simp add: o_def)
  let ?le = "\<lambda>a b. provider_geography_tier_rank a \<le> provider_geography_tier_rank b"
  have ord: "totalp ?le" "reflp ?le" "transp ?le" by (auto simp: totalp_on_def reflp_def transp_def)
  have min: "tier \<in> set (map snd tiered)"
    "\<forall>t \<in> set (map snd tiered). provider_geography_tier_rank tier \<le> provider_geography_tier_rank t"
    using min_by_SomeD [OF tier ord] by blast+
  show ?thesis
  proof (rule that [OF anchor qs alloc(2)])
    show "tier \<in> provider_tier metas anchor ` set qs" using min(1) by (auto simp: tiered_eq)
    show "\<forall>q \<in> set qs. provider_geography_tier_rank tier \<le> provider_geography_tier_rank (provider_tier metas anchor q)"
      using min(2) by (simp add: tiered_eq)
    show "map fst (mr_allocations r) = ?sel" by (rule fsts)
    show "\<not> f64_sum (map (raw_weight metas) (map fst (mr_allocations r))) \<le> F64_EPSILON" using sum unfolding fsts ws .
    show "mr_allocations r = map (\<lambda>q. (q, f64_div (raw_weight metas q) (f64_sum (map (raw_weight metas) (map fst (mr_allocations r))))))
       (map fst (mr_allocations r))" unfolding fsts by (rule al)
  qed
qed

lemma raw_weight_machine:
  assumes "machine_volumes metas"
  shows "f64_nonneg (raw_weight metas p) \<and> f64_wf (raw_weight metas p) \<and> is_finite (raw_weight metas p)"
proof (cases "process_meta_for_idx metas p")
  case None
  then show ?thesis using representable_of_int [of 1] by (simp add: raw_weight_def)
next
  case (Some m)
  then have "m \<in> set metas" by (auto simp: process_meta_for_idx_def bind_eq_Some_conv)
  with assms have wf: "case meta_annual_supply_or_production_volume m of None \<Rightarrow> True | Some v \<Rightarrow> f64_wf v"
    by (simp add: machine_volumes_def list_all_iff)
  have pos: "f64_nonneg v" if "is_finite v" "Fin 0 < v" for v
    using that by (cases v) (auto simp: less_f64_def)
  show ?thesis using Some wf pos representable_of_int [of 1]
    by (auto simp: raw_weight_def provider_volume_raw_weight_def split: option.splits)
qed

lemma volume_split_routes:
  assumes "split_by_process_volume exchange providers metas = Inr r" "machine_volumes metas"
  shows "routes_within providers r"
proof (rule split_by_process_volumeD [OF assms(1)])
  fix anchor qs tier
  assume qs: "same_model_preferred_provider_indices (ex_process_idx exchange) providers metas = Inr qs"
    and tier: "tier \<in> provider_tier metas anchor ` set qs"
    and fsts: "map fst (mr_allocations r) = filter (\<lambda>q. provider_tier metas anchor q = tier) qs"
    and sum: "\<not> f64_sum (map (raw_weight metas) (map fst (mr_allocations r))) \<le> F64_EPSILON"
    and al: "mr_allocations r = map (\<lambda>q. (q, f64_div (raw_weight metas q) (f64_sum (map (raw_weight metas) (map fst (mr_allocations r))))))
       (map fst (mr_allocations r))"
  have "list_all (\<lambda>v. f64_nonneg v \<and> f64_wf v \<and> is_finite v) (map (raw_weight metas) (map fst (mr_allocations r)))"
    using raw_weight_machine [OF assms(2)] by (simp add: list_all_iff)
  from share_of_sum [OF this _ sum]
  have "list_all (\<lambda>(p, w). proper_share w) (mr_allocations r)" by (subst al) (auto simp: list_all_iff)
  moreover have "map fst (mr_allocations r) \<noteq> []" using tier by (auto simp: fsts filter_empty_conv)
  moreover have "set (map fst (mr_allocations r)) \<subseteq> set providers"
    using same_model_preferred(1) [OF qs] unfolding fsts by auto
  moreover have "distinct providers \<Longrightarrow> distinct (map fst (mr_allocations r))"
    using same_model_preferred(3) [OF qs] unfolding fsts by simp
  ultimately show ?thesis by (simp add: routes_within_def)
qed

section \<open>What the rules decide\<close>

lemma resolution_routes:
  assumes "resolve_multi_provider rule exchange providers metas = Inr (Resolved r)" "machine_volumes metas"
  shows "routes_within providers r"
proof -
  have ne: "providers \<noteq> []" using assms(1) by (auto simp: resolve_multi_provider_def)
  have best: "routes_within providers r"
    if "scored_candidates exchange providers metas m = Inr scored" "best_provider scored = Resolved r" for scored m
  proof -
    from that(2) obtain top1 rest where "scored = top1 # rest"
      "r = plain_resolution [(cs_provider_idx top1, Fin 1)] BestProviderStrictStrategy False"
      by (auto simp: best_provider_def split: list.splits if_splits)
    moreover have "proper_share (Fin 1)" using proper_lit [of 1] by (simp add: f64_lit_def)
    ultimately show ?thesis
      using scored_candidatesD(1) [OF that(1)] by (auto simp: routes_within_def plain_resolution_def)
  qed
  show ?thesis
    using assms ne best
    by (auto simp: resolve_multi_provider_def res_simps split_equal_routes [OF ne] evidence_split_routes volume_split_routes
        split: provider_rule.splits if_splits)
qed

text \<open>
  Whatever the rule, a resolved exchange is routed to a non-empty list of candidates, each
  candidate at most once, with weights that are finite and between 0 and 1.
\<close>

theorem resolution_routes_candidates:
  assumes "resolve_multi_provider rule exchange providers metas = Inr (Resolved r)" "machine_volumes metas"
  shows "mr_allocations r \<noteq> [] \<and> set (map fst (mr_allocations r)) \<subseteq> set providers \<and>
         (distinct providers \<longrightarrow> distinct (map fst (mr_allocations r))) \<and>
         list_all (\<lambda>(p, w). is_finite w \<and> Fin 0 \<le> w \<and> w \<le> Fin 1) (mr_allocations r)"
  using resolution_routes [OF assms] by (simp add: routes_within_def proper_share_def)

text \<open>
  The best-provider rule resolves to the candidate with the highest score: at least 0.55, no
  other scored candidate is above it, and a runner-up of the minimum score is at least 1.2 times
  lower (in the rounded quotient).
\<close>

theorem best_provider_is_clear_winner:
  assumes "resolve_multi_provider BestProviderStrict exchange providers metas = Inr (Resolved r)"
  shows "\<exists>p scored. mr_allocations r = [(p, Fin 1)] \<and> p \<in> set providers \<and>
           scored_candidates exchange providers metas AUTO_LINK_MIN_SCORE = Inr scored \<and>
           \<not> score_of metas (ex_process_idx exchange) (ex_location exchange) p < AUTO_LINK_TOP1_MIN_SCORE \<and>
           cs_provider_idx (hd scored) = p \<and>
           list_all (\<lambda>s. cs_final_score s \<le> cs_final_score (hd scored) \<and>
             (F64_EPSILON < cs_final_score (hd (tl scored)) \<and> tl scored \<noteq> [] \<longrightarrow>
              \<not> f64_div (cs_final_score (hd scored)) (cs_final_score (hd (tl scored))) < AUTO_LINK_TOP1_TOP2_MIN_RATIO)) scored"
proof -
  from assms obtain scored where sc: "scored_candidates exchange providers metas AUTO_LINK_MIN_SCORE = Inr scored"
    and best: "best_provider scored = Resolved r"
    by (auto simp: resolve_multi_provider_def res_simps split: if_splits)
  from best obtain top1 rest where scored: "scored = top1 # rest"
    and alloc: "mr_allocations r = [(cs_provider_idx top1, Fin 1)]"
    and top: "\<not> cs_final_score top1 < AUTO_LINK_TOP1_MIN_SCORE"
    and ratio: "rest \<noteq> [] \<Longrightarrow> F64_EPSILON < cs_final_score (hd rest) \<Longrightarrow>
      \<not> f64_div (cs_final_score top1) (cs_final_score (hd rest)) < AUTO_LINK_TOP1_TOP2_MIN_RATIO"
    by (auto simp: best_provider_def plain_resolution_def split: list.splits if_splits)
  note facts = scored_candidatesD [OF sc]
  have "cs_final_score s \<le> cs_final_score top1" if "s \<in> set scored" for s
  proof -
    have "total_le (cs_final_score s) (cs_final_score top1)"
      using facts(3) that scored by (auto dest: score_le_final)
    moreover have "cs_final_score top1 \<noteq> NaN"
      using facts(4) [of top1] scored by (auto simp: proper_share_def)
    ultimately show ?thesis by (simp add: less_eq_f64_def total_le_imp_le)
  qed
  moreover have "cs_provider_idx top1 \<in> set providers" using facts(1) scored by auto
  moreover have "score_of metas (ex_process_idx exchange) (ex_location exchange) (cs_provider_idx top1) = cs_final_score top1"
    using facts(4) [of top1] scored by auto
  ultimately show ?thesis
    using sc alloc top ratio scored by (intro exI [of _ "cs_provider_idx top1"] exI [of _ scored]) (auto simp: list_all_iff)
qed

text \<open>
  The volume rule keeps exactly the preferred candidates of the best geography tier present and
  weights each by its annual volume, 1 when it has no positive finite volume, over the sum.
\<close>

theorem volume_rule_best_tier:
  assumes "resolve_multi_provider SplitByProcessVolume exchange providers metas = Inr (Resolved r)"
  shows "\<exists>anchor qs tier. supply_region_anchor_for_exchange exchange metas = Inr anchor \<and>
    same_model_preferred_provider_indices (ex_process_idx exchange) providers metas = Inr qs \<and>
    mr_geography_tier r = Some tier \<and>
    list_all (\<lambda>q. provider_geography_tier_rank tier \<le> provider_geography_tier_rank (provider_tier metas anchor q)) qs \<and>
    map fst (mr_allocations r) = filter (\<lambda>q. provider_tier metas anchor q = tier) qs \<and> mr_allocations r \<noteq> [] \<and>
    map snd (mr_allocations r) =
      map (\<lambda>q. f64_div (raw_weight metas q) (f64_sum (map (raw_weight metas) (map fst (mr_allocations r))))) (map fst (mr_allocations r))"
proof -
  have "split_by_process_volume exchange providers metas = Inr r"
    using assms by (auto simp: resolve_multi_provider_def res_simps split: if_splits)
  then show ?thesis
  proof (rule split_by_process_volumeD)
    fix anchor qs tier
    assume facts: "supply_region_anchor_for_exchange exchange metas = Inr anchor"
      "same_model_preferred_provider_indices (ex_process_idx exchange) providers metas = Inr qs"
      "mr_geography_tier r = Some tier" "tier \<in> provider_tier metas anchor ` set qs"
      "\<forall>q \<in> set qs. provider_geography_tier_rank tier \<le> provider_geography_tier_rank (provider_tier metas anchor q)"
      "map fst (mr_allocations r) = filter (\<lambda>q. provider_tier metas anchor q = tier) qs"
      "mr_allocations r = map (\<lambda>q. (q, f64_div (raw_weight metas q) (f64_sum (map (raw_weight metas) (map fst (mr_allocations r))))))
       (map fst (mr_allocations r))"
    have "map fst (mr_allocations r) \<noteq> []" using facts(4) by (auto simp: facts(6) filter_empty_conv)
    then have "mr_allocations r \<noteq> []" by auto
    moreover have "map snd (mr_allocations r) =
      map (\<lambda>q. f64_div (raw_weight metas q) (f64_sum (map (raw_weight metas) (map fst (mr_allocations r))))) (map fst (mr_allocations r))"
      using arg_cong [OF facts(7), of "map snd"] by (simp only: map_map o_def snd_conv)
    ultimately show ?thesis using facts(1-3,5,6) by (auto simp: list_all_iff)
  qed
qed

section \<open>Score and tier\<close>

lemma global_canonical:
  "loc_is_global (parse_location_descriptor l) \<longleftrightarrow> canonical_location l \<in> {Some ''GLO'', Some ''ROW''}"
  by (auto simp: parse_location_descriptor_def Let_def split: option.splits)

lemma region_global: "region_group_from_code c = Some ''GLOBAL'' \<longleftrightarrow> c = ''GLO'' \<or> c = ''ROW''"
  by (simp add: region_group_from_code_def)

lemma region_group_global:
  "loc_region_group (parse_location_descriptor l) = Some ''GLOBAL'' \<longleftrightarrow> loc_is_global (parse_location_descriptor l)"
proof (cases "canonical_location l")
  case None
  then show ?thesis by (simp add: parse_location_descriptor_def)
next
  case (Some c)
  have "length code = 2" if "extract_country_code c = Some code" for code
    using that by (auto simp: extract_country_code_def Let_def split: if_splits)
  then have "region_group_from_code code \<noteq> Some ''GLOBAL''" if "extract_country_code c = Some code" for code
    using that region_global [of code] by fastforce
  moreover have "region_group_from_code ''GLO'' = Some ''GLOBAL''" "region_group_from_code ''ROW'' = Some ''GLOBAL''"
    by (simp_all add: region_global)
  ultimately show ?thesis using Some region_global [of c]
    by (auto simp: parse_location_descriptor_def Let_def bind_eq_Some_conv split: option.splits)
qed

lemma tier_choice:
  assumes "G \<Longrightarrow> (R \<and> R') = S"
  shows "(if A then a else if B then b else if R \<and> R' then r else if G then g else z) =
    (case (if A then LocalSubnational else if B then SameCountry else if \<not> G \<and> R \<and> R' then SameRegion
           else if G then GlobalTier else OtherTier) of
       LocalSubnational \<Rightarrow> a | SameCountry \<Rightarrow> b | SameRegion \<Rightarrow> r | GlobalTier \<Rightarrow> if S then r else g | OtherTier \<Rightarrow> z)"
  using assms by auto

text \<open>
  The geography score is a function of the geography tier, 1, 0.85, 0.6, 0.4 and 0.1 from the
  nearest tier to the farthest, with one exception: a global provider for a global consumer scores 0.6.
\<close>

theorem geo_score_by_tier:
  "geo_score c p =
     (case provider_geography_tier c p of
        LocalSubnational \<Rightarrow> f64_lit 1
      | SameCountry \<Rightarrow> f64_lit (85 / 100)
      | SameRegion \<Rightarrow> f64_lit (6 / 10)
      | GlobalTier \<Rightarrow> if loc_is_global (parse_location_descriptor c) then f64_lit (6 / 10) else f64_lit (4 / 10)
      | OtherTier \<Rightarrow> f64_lit (1 / 10))"
proof -
  have "loc_region_group (parse_location_descriptor c) \<noteq> None \<and>
      loc_region_group (parse_location_descriptor c) = loc_region_group (parse_location_descriptor p) \<longleftrightarrow>
      loc_is_global (parse_location_descriptor c)" if "loc_is_global (parse_location_descriptor p)"
    using that region_group_global [of p] region_group_global [of c] by auto
  then show ?thesis unfolding geo_score_def provider_geography_tier_def Let_def by (rule tier_choice)
qed

text \<open>The provider rules round-trip through their texts and every other text is refused.\<close>

theorem provider_rule_roundtrip:
  "provider_rule_parse (provider_rule_as_str r) = Inr r \<and>
   (\<forall>v q. provider_rule_parse v = Inr q \<longleftrightarrow> v = provider_rule_as_str q)"
proof -
  have "provider_rule_parse v = Inr q \<longleftrightarrow> v = provider_rule_as_str q" for v q
    by (cases q) (auto simp: provider_rule_parse_def provider_rule_as_str_def)
  then show ?thesis by blast
qed

section \<open>A concrete choice\<close>

text \<open>A Chinese consumer with a Chinese and a German candidate; the Chinese one has volume 3.\<close>

definition example_meta :: "i32 \<Rightarrow> string \<Rightarrow> string \<Rightarrow> f64 option \<Rightarrow> process_meta" where
  "example_meta i pid loc volume =
     \<lparr>meta_process_idx = i, meta_process_id = pid, meta_process_version = ''01.00.000'', meta_process_name = None,
      meta_model_id = None, meta_model_version = None, meta_location = Some loc, meta_reference_year = Some 2020,
      meta_annual_supply_or_production_volume = volume\<rparr>"

definition example_metas :: "process_meta list" where
  "example_metas = [example_meta 0 ''a'' ''CN'' None, example_meta 1 ''b'' '' cn_GD '' (Some (Fin 3)), example_meta 2 ''c'' ''DE'' None]"

definition example_exchange :: parsed_exchange where
  "example_exchange =
     \<lparr>ex_process_idx = 0, ex_flow_id = ''f'', ex_direction = Some ExchangeInput, ex_direction_label = ''Input'',
      ex_internal_id = Some ''1'', ex_exchange_id = ''0:1'', ex_flow_version = ''01.00.000'', ex_is_reference_exchange = False,
      ex_raw_amount = Some (Fin 2), ex_signed_raw_coefficient = Some (Fin (- 2)), ex_amount = Some (Fin 2),
      ex_allocation_state = AllocationMissing, ex_allocation_fraction = Fin 1, ex_allocation_target_internal_id = ''0'',
      ex_location = None\<rparr>"

lemma example_volumes: "machine_volumes example_metas"
  using representable_of_int [of 3] by (simp add: machine_volumes_def example_metas_def example_meta_def)

lemma example_geography:
  "resolve_supply_region_anchor None (Some ''CN'') = \<lparr>sra_source = ConsumerProcessLocation, sra_location = Some ''CN''\<rparr>"
  "provider_geography_tier (Some ''CN'') (Some '' cn_GD '') = SameCountry"
  "provider_geography_tier (Some ''CN'') (Some ''DE'') = OtherTier"
  "geo_score (Some ''CN'') (Some '' cn_GD '') = f64_lit (17 / 20)"
  "geo_score (Some ''CN'') (Some ''DE'') = f64_lit (1 / 10)"
  "time_score (Some 2020) (Some 2020) = f64_lit 1"
  by code_simp+

lemma example_constants:
  "AUTO_LINK_MIN_SCORE = Fin (3152519739159347 / 9007199254740992)" "AUTO_LINK_TOP1_MIN_SCORE = Fin (2476979795053773 / 4503599627370496)"
  "AUTO_LINK_TOP1_TOP2_MIN_RATIO = Fin (5404319552844595 / 4503599627370496)" "F64_EPSILON = Fin (1 / 4503599627370496)"
  by code_simp+

lemma example_scores:
  "final_score_of (f64_lit (17 / 20)) (f64_lit 1) = Fin (2015360833248297 / 2251799813685248)"
  "final_score_of (f64_lit (1 / 10)) (f64_lit 1) = Fin (3332663724254167 / 9007199254740992)"
  by code_simp+

lemma example_ratio:
  "f64_div (Fin (2015360833248297 / 2251799813685248)) (Fin (3332663724254167 / 9007199254740992)) = Fin (5446921170941343 / 2251799813685248)"
  by code_simp

lemma example_weights:
  "f64_sum [Fin 3] = Fin 3" "\<not> Fin 3 \<le> F64_EPSILON" "Fin 0 < Fin 3" "0 \<le> i32_max"
  by code_simp+

lemmas example_defs = example_exchange_def example_metas_def example_meta_def process_meta_for_idx_def vec_get_def
  same_model_preferred_provider_indices_def

lemma example_resolved:
  "\<exists>r. resolve_multi_provider BestProviderStrict example_exchange [1, 2] example_metas = Inr (Resolved r)"
  "\<exists>r. resolve_multi_provider SplitByProcessVolume example_exchange [1, 2] example_metas = Inr (Resolved r)"
proof -
  show "\<exists>r. resolve_multi_provider BestProviderStrict example_exchange [1, 2] example_metas = Inr (Resolved r)"
    by (simp add: resolve_multi_provider_def scored_candidates_def score_provider_candidates_def score_candidate_def
        best_provider_def score_le_def example_defs example_geography example_scores example_constants example_ratio
        Let_def total_le_def less_eq_f64_def less_f64_def f64_le_simps)
  show "\<exists>r. resolve_multi_provider SplitByProcessVolume example_exchange [1, 2] example_metas = Inr (Resolved r)"
    by (simp add: resolve_multi_provider_def split_by_process_volume_def supply_region_anchor_for_exchange_def
        tier_of_provider_def raw_weight_of_provider_def provider_volume_raw_weight_def provider_geography_tier_rank_def
        example_defs example_geography example_weights Let_def i32_max_def)
qed

lemma resolution_routes_candidates_witness:
  "\<exists>r. resolve_multi_provider SplitByProcessVolume example_exchange [1, 2] example_metas = Inr (Resolved r) \<and>
     mr_allocations r \<noteq> [] \<and> set (map fst (mr_allocations r)) \<subseteq> set [1, 2]"
  using example_resolved(2) resolution_routes_candidates [OF _ example_volumes] by blast

lemma best_provider_is_clear_winner_witness:
  "\<exists>r p. resolve_multi_provider BestProviderStrict example_exchange [1, 2] example_metas = Inr (Resolved r) \<and>
     mr_allocations r = [(p, Fin 1)] \<and> p \<in> set [1, 2]"
  using example_resolved(1) best_provider_is_clear_winner [of example_exchange "[1, 2]" example_metas] by blast

lemma volume_rule_best_tier_witness:
  "\<exists>r tier. resolve_multi_provider SplitByProcessVolume example_exchange [1, 2] example_metas = Inr (Resolved r) \<and>
     mr_geography_tier r = Some tier \<and> mr_allocations r \<noteq> []"
  using example_resolved(2) volume_rule_best_tier [of example_exchange "[1, 2]" example_metas] by blast

end
