(* ===== verification/Provider_Lineage.thy ===== *)
theory Provider_Lineage
  imports Provider_Linking
begin

text \<open>
  The provider lineage of \<open>crates/solver-worker/src/bin/snapshot_builder.rs\<close>: which processes are
  results and components of which life-cycle models, and the gate that keeps a model result and its
  own components from balancing the same exchange together. Theorems: on acyclic lineages the
  component index is the transitive closure, on cyclic ones it depends on the order in which the
  models are visited, and a list of several providers that passes the gate has no two providers
  that overlap.
\<close>

section \<open>JSON documents\<close>

text \<open>
  The value type of the \<open>serde_json\<close> crate, whose variants the source matches on; an object is the
  list of its members. \<open>json_at\<close> is a pointer whose steps are member names.
\<close>

datatype json_number = PosInt nat | NegInt int | Float f64

datatype json =
    Null
  | Bool bool
  | Number json_number
  | String string
  | Array "json list"
  | Object "(string \<times> json) list"

fun json_get :: "json \<Rightarrow> string \<Rightarrow> json option" where
  "json_get (Object ms) key = map_of ms key"
| "json_get _ key = None"

fun json_as_str :: "json \<Rightarrow> string option" where
  "json_as_str (String s) = Some s"
| "json_as_str _ = None"

fun json_at :: "json \<Rightarrow> string list \<Rightarrow> json option" where
  "json_at v [] = Some v"
| "json_at v (key # keys) = Option.bind (json_get v key) (\<lambda>w. json_at w keys)"

section \<open>Identities and the index\<close>

record versioned_process_identity =
  vp_process_id :: uuid
  vp_process_version :: string

record versioned_model_identity =
  vm_model_id :: uuid
  vm_model_version :: string

record request_root_process =
  rr_process_id :: uuid
  rr_process_version :: string

record lifecycle_model_lineage_row =
  lr_identity :: versioned_model_identity
  lr_json :: json

text \<open>
  Hash maps and hash sets are association lists and distinct lists in their iteration order, which
  the program does not control.
\<close>

record provider_lineage_index =
  li_model_components :: "(versioned_model_identity \<times> versioned_process_identity list) list"
  li_result_models :: "(versioned_process_identity \<times> versioned_model_identity list) list"
  li_component_models :: "(versioned_process_identity \<times> versioned_model_identity list) list"
  li_selected_results :: "versioned_process_identity list"

definition versioned_process_identity_new :: "uuid \<Rightarrow> string \<Rightarrow> versioned_process_identity" where
  "versioned_process_identity_new i v = \<lparr>vp_process_id = i, vp_process_version = trim v\<rparr>"

definition process_identity :: "process_meta \<Rightarrow> versioned_process_identity" where
  "process_identity m = versioned_process_identity_new (meta_process_id m) (meta_process_version m)"

text \<open>\<open>parse_uuid\<close> is the parser of the \<open>uuid\<close> crate.\<close>

definition exact_reference :: "(string \<Rightarrow> uuid option) \<Rightarrow> (string \<times> json) list \<Rightarrow> versioned_process_identity list" where
  "exact_reference parse_uuid ms =
     (case (Option.bind (Option.bind (map_of ms ''@refObjectId'') json_as_str) (\<lambda>v. parse_uuid (trim v)),
            Option.bind (Option.bind (map_of ms ''@version'') json_as_str)
              (\<lambda>v. if trim v = [] then None else Some (trim v))) of
        (Some i, Some v) \<Rightarrow> [versioned_process_identity_new i v]
      | _ \<Rightarrow> [])"

fun collect_exact_process_references :: "(string \<Rightarrow> uuid option) \<Rightarrow> json \<Rightarrow> versioned_process_identity list" where
  "collect_exact_process_references parse_uuid (Array items) =
     concat (map (collect_exact_process_references parse_uuid) items)"
| "collect_exact_process_references parse_uuid (Object ms) =
     exact_reference parse_uuid ms @ concat (map (\<lambda>(k, v). collect_exact_process_references parse_uuid v) ms)"
| "collect_exact_process_references parse_uuid _ = []"

definition lifecycle_model_result_references :: "(string \<Rightarrow> uuid option) \<Rightarrow> json \<Rightarrow> versioned_process_identity list" where
  "lifecycle_model_result_references parse_uuid doc =
     (case json_at doc [''lifeCycleModelDataSet'', ''lifeCycleModelInformation'', ''dataSetInformation'',
        ''referenceToResultingProcess''] of
        None \<Rightarrow> []
      | Some v \<Rightarrow> remdups (collect_exact_process_references parse_uuid v))"

definition lifecycle_model_component_references :: "(string \<Rightarrow> uuid option) \<Rightarrow> json \<Rightarrow> versioned_process_identity list" where
  "lifecycle_model_component_references parse_uuid doc =
     (let reference = (\<lambda>item. case json_get item ''referenceToProcess'' of
            None \<Rightarrow> [] | Some r \<Rightarrow> collect_exact_process_references parse_uuid r) in
      case json_at doc [''lifeCycleModelDataSet'', ''lifeCycleModelInformation'', ''technology'', ''processes'',
        ''processInstance''] of
        Some (Array items) \<Rightarrow> remdups (concat (map reference items))
      | Some (Object ms) \<Rightarrow> remdups (reference (Object ms))
      | _ \<Rightarrow> [])"

type_synonym components = "(versioned_model_identity \<times> versioned_process_identity list) list"
type_synonym result_models = "(versioned_process_identity \<times> versioned_model_identity list) list"

definition set_union :: "'a list \<Rightarrow> 'a list \<Rightarrow> 'a list" where
  "set_union xs ys = foldl (\<lambda>acc y. if y \<in> set acc then acc else acc @ [y]) xs ys"

definition own_components :: "components \<Rightarrow> versioned_model_identity \<Rightarrow> versioned_process_identity list" where
  "own_components direct model = unwrap_or [] (map_of direct model)"

text \<open>The models that have a direct component as a result, the model itself left out.\<close>

definition nested_models :: "components \<Rightarrow> result_models \<Rightarrow> versioned_model_identity \<Rightarrow> versioned_model_identity list" where
  "nested_models direct results model =
     filter (\<lambda>n. n \<noteq> model) (concat (map (\<lambda>c. unwrap_or [] (map_of results c)) (own_components direct model)))"

text \<open>
  The expansion returns the components and the updated memo table. The set of models being visited
  is passed down: the source inserts the model, and removes it again before it returns.
\<close>

function expand_model_components ::
  "components \<Rightarrow> result_models \<Rightarrow> versioned_model_identity \<Rightarrow> components \<Rightarrow> versioned_model_identity list
   \<Rightarrow> versioned_process_identity list \<times> components" where
  "expand_model_components direct results model memo visiting =
     (case map_of memo model of
        Some cached \<Rightarrow> (cached, memo)
      | None \<Rightarrow>
          if model \<in> set visiting then ([], memo)
          else
          let (expanded, memo) =
            foldl (\<lambda>st nested_model.
                     let (inner, memo) = expand_model_components direct results nested_model (snd st) (model # visiting)
                     in (set_union (fst st) inner, memo))
              (own_components direct model, memo) (nested_models direct results model)
          in (expanded, AList.update model expanded memo))"
  by pat_completeness auto

definition universe :: "result_models \<Rightarrow> versioned_model_identity set" where
  "universe results = \<Union> (set ` snd ` set results)"

lemma nested_in_universe: "n \<in> set (nested_models direct results m) \<Longrightarrow> n \<in> universe results"
proof -
  assume "n \<in> set (nested_models direct results m)"
  then obtain c where "n \<in> set (unwrap_or [] (map_of results c))" by (auto simp: nested_models_def)
  then obtain ms where "map_of results c = Some ms" "n \<in> set ms" by (cases "map_of results c") auto
  then show ?thesis unfolding universe_def by (force dest: map_of_SomeD)
qed

lemma universe_finite [simp]: "finite (universe results)"
  by (auto simp: universe_def)

lemma visiting_decreases:
  assumes "model \<notin> set visiting" "n \<in> set (nested_models direct results model)"
  shows "card (insert n (universe results) - insert model (set visiting)) < card (insert model (universe results) - set visiting)"
  using assms nested_in_universe [OF assms(2)] by (intro psubset_card_mono) auto

termination expand_model_components
  by (relation "measure (\<lambda>(direct, results, model, memo, visiting). card (insert model (universe results) - set visiting))")
     (simp_all add: visiting_decreases)

declare expand_model_components.simps [simp del]

section \<open>Building the index\<close>

text \<open>Adds a value to the set stored under a key.\<close>

definition map_set_insert :: "'k \<Rightarrow> 'v \<Rightarrow> ('k \<times> 'v list) list \<Rightarrow> ('k \<times> 'v list) list" where
  "map_set_insert k v m = AList.update k (set_union (unwrap_or [] (map_of m k)) [v]) m"

definition add_model_row ::
  "(string \<Rightarrow> uuid option) \<Rightarrow> result_models \<times> components \<Rightarrow> lifecycle_model_lineage_row \<Rightarrow> result_models \<times> components" where
  "add_model_row parse_uuid st row =
     (case st of (results, direct) \<Rightarrow>
        (foldl (\<lambda>results r. map_set_insert r (lr_identity row) results) results
           (lifecycle_model_result_references parse_uuid (lr_json row)),
         AList.update (lr_identity row) (lifecycle_model_component_references parse_uuid (lr_json row)) direct))"

definition expand_all :: "components \<Rightarrow> result_models \<Rightarrow> versioned_model_identity list \<Rightarrow> components \<Rightarrow> components" where
  "expand_all direct results models memo =
     foldl (\<lambda>memo model.
       let (expanded, memo) = expand_model_components direct results model memo []
       in AList.update model expanded memo) memo models"

definition component_models_of :: "components \<Rightarrow> (versioned_process_identity \<times> versioned_model_identity list) list" where
  "component_models_of model_components =
     foldl (\<lambda>acc (model, components). foldl (\<lambda>acc c. map_set_insert c model acc) acc components) [] model_components"

text \<open>\<open>key_order\<close> is the iteration order of the hash map of models.\<close>

definition build_provider_lineage_index ::
  "(string \<Rightarrow> uuid option) \<Rightarrow> (versioned_model_identity list \<Rightarrow> versioned_model_identity list)
   \<Rightarrow> lifecycle_model_lineage_row list \<Rightarrow> request_root_process list \<Rightarrow> provider_lineage_index" where
  "build_provider_lineage_index parse_uuid key_order models request_roots =
     (let (results, direct) = foldl (add_model_row parse_uuid) ([], []) models;
          model_components = expand_all direct results (key_order (map fst direct)) []
      in \<lparr>li_model_components = model_components,
          li_result_models = results,
          li_component_models = component_models_of model_components,
          li_selected_results =
            remdups (filter (\<lambda>root. map_of results root \<noteq> None)
              (map (\<lambda>root. versioned_process_identity_new (rr_process_id root) (rr_process_version root)) request_roots))\<rparr>)"

section \<open>Relationships\<close>

datatype provider_lineage_relationship =
    ModelResultAndComponent
  | SelectedAndSupersededModelResult
  | AlternativeModelResult

datatype provider_lineage_rejection_reason =
    ModelComponentOfSelectedResult
  | SupersededModelResult
  | AlternativeModelResultReason
  | NotSelectedByExactModelResult
  | LineageOverlapRequiresBinding

definition result_models_of :: "provider_lineage_index \<Rightarrow> versioned_process_identity \<Rightarrow> versioned_model_identity list" where
  "result_models_of lineage p = unwrap_or [] (map_of (li_result_models lineage) p)"

definition component_models_at :: "provider_lineage_index \<Rightarrow> versioned_process_identity \<Rightarrow> versioned_model_identity list" where
  "component_models_at lineage p = unwrap_or [] (map_of (li_component_models lineage) p)"

definition result_of_component :: "provider_lineage_index \<Rightarrow> versioned_process_identity \<Rightarrow> versioned_process_identity \<Rightarrow> bool" where
  "result_of_component lineage p q = (set (result_models_of lineage p) \<inter> set (component_models_at lineage q) \<noteq> {})"

definition result_pair_relationship ::
  "provider_lineage_index \<Rightarrow> versioned_process_identity \<Rightarrow> versioned_process_identity
   \<Rightarrow> versioned_model_identity \<Rightarrow> versioned_model_identity \<Rightarrow> provider_lineage_relationship list" where
  "result_pair_relationship lineage l r left_model right_model =
     (if vm_model_id left_model \<noteq> vm_model_id right_model then []
      else if left_model = right_model then [AlternativeModelResult]
      else if l \<in> set (li_selected_results lineage) \<or> r \<in> set (li_selected_results lineage)
      then [SelectedAndSupersededModelResult]
      else [AlternativeModelResult])"

definition provider_lineage_relationships ::
  "versioned_process_identity \<Rightarrow> versioned_process_identity \<Rightarrow> provider_lineage_index \<Rightarrow> provider_lineage_relationship set" where
  "provider_lineage_relationships l r lineage =
     (if result_of_component lineage l r \<or> result_of_component lineage r l then {ModelResultAndComponent} else {}) \<union>
     set (concat (map (\<lambda>lm. concat (map (result_pair_relationship lineage l r lm) (result_models_of lineage r)))
           (result_models_of lineage l)))"

definition lineage_rejection_for_selected_result ::
  "versioned_process_identity \<Rightarrow> versioned_process_identity \<Rightarrow> provider_lineage_relationship set
   \<Rightarrow> provider_lineage_index \<Rightarrow> provider_lineage_rejection_reason" where
  "lineage_rejection_for_selected_result selected rejected relationships lineage =
     (if SelectedAndSupersededModelResult \<in> relationships then SupersededModelResult
      else if ModelResultAndComponent \<in> relationships \<and> result_of_component lineage selected rejected
      then ModelComponentOfSelectedResult
      else if AlternativeModelResult \<in> relationships then AlternativeModelResultReason
      else NotSelectedByExactModelResult)"

section \<open>The gate\<close>

record provider_lineage_gate =
  gt_providers :: "i32 list"
  gt_relationships_by_provider :: "(i32 \<times> provider_lineage_relationship list) list"
  gt_rejection_by_provider :: "(i32 \<times> provider_lineage_rejection_reason) list"
  gt_selected_model_result :: "i32 option"
  gt_unresolved :: bool

type_synonym identities = "(i32 \<times> versioned_process_identity) list"
type_synonym relationships_map = "(i32 \<times> provider_lineage_relationship list) list"

definition identity_of_provider :: "process_meta list \<Rightarrow> i32 \<Rightarrow> link_error + (i32 \<times> versioned_process_identity)" where
  "identity_of_provider metas p =
     res_bind (ok_or (MissingProviderMeta p) (process_meta_for_idx metas p)) (\<lambda>m. Inr (p, process_identity m))"

definition candidate_providers_by_identity :: "identities \<Rightarrow> (versioned_process_identity \<times> i32 list) list" where
  "candidate_providers_by_identity ids = foldl (\<lambda>acc (p, i). map_set_insert i p acc) [] ids"

definition result_providers_by_model :: "provider_lineage_index \<Rightarrow> identities \<Rightarrow> (versioned_model_identity \<times> i32 list) list" where
  "result_providers_by_model lineage ids =
     foldl (\<lambda>acc (p, i). foldl (\<lambda>acc m. map_set_insert m p acc) acc (result_models_of lineage i)) [] ids"

definition relate :: "provider_lineage_relationship \<Rightarrow> relationships_map \<Rightarrow> i32 list \<Rightarrow> relationships_map" where
  "relate rel m ps = foldl (\<lambda>m p. map_set_insert p rel m) m ps"

text \<open>First pass: a model with a result and a component among the candidates.\<close>

definition component_providers ::
  "provider_lineage_index \<Rightarrow> (versioned_process_identity \<times> i32 list) list \<Rightarrow> versioned_model_identity \<Rightarrow> i32 list" where
  "component_providers lineage by_identity model =
     remdups (concat (map (\<lambda>c. unwrap_or [] (map_of by_identity c)) (unwrap_or [] (map_of (li_model_components lineage) model))))"

definition overlap_step ::
  "provider_lineage_index \<Rightarrow> (versioned_process_identity \<times> i32 list) list \<Rightarrow> bool \<times> relationships_map
   \<Rightarrow> versioned_model_identity \<times> i32 list \<Rightarrow> bool \<times> relationships_map" where
  "overlap_step lineage by_identity st entry =
     (case (st, entry) of ((conflict, rels), (model, result_providers)) \<Rightarrow>
        let comps = component_providers lineage by_identity model;
            participants = set_union result_providers comps in
        if result_providers \<noteq> [] \<and> comps \<noteq> [] \<and> length participants > 1
        then (True, relate ModelResultAndComponent rels participants)
        else (conflict, rels))"

text \<open>Second pass: several results of one model, or of several versions of one model.\<close>

definition results_by_model_id ::
  "(versioned_model_identity \<times> i32 list) list \<Rightarrow> (uuid \<times> (versioned_model_identity \<times> i32 list) list) list" where
  "results_by_model_id by_model =
     foldl (\<lambda>acc (m, ps). AList.update (vm_model_id m) (AList.update m ps (unwrap_or [] (map_of acc (vm_model_id m)))) acc) [] by_model"

definition alternative_step :: "bool \<times> relationships_map \<Rightarrow> i32 list \<Rightarrow> bool \<times> relationships_map" where
  "alternative_step st ps = (if length ps > 1 then (True, relate AlternativeModelResult (snd st) ps) else st)"

definition version_step ::
  "provider_lineage_index \<Rightarrow> identities \<Rightarrow> bool \<times> relationships_map
   \<Rightarrow> uuid \<times> (versioned_model_identity \<times> i32 list) list \<Rightarrow> bool \<times> relationships_map" where
  "version_step lineage ids st entry =
     (let exact_models = snd entry;
          st = foldl alternative_step st (map snd exact_models) in
      if length exact_models \<le> 1 then st
      else
      let all_providers = remdups (concat (map snd exact_models));
          has_selected = list_ex (\<lambda>(p, i). p \<in> set all_providers \<and> i \<in> set (li_selected_results lineage)) ids;
          rel = (if has_selected then SelectedAndSupersededModelResult else AlternativeModelResult)
      in (True, relate rel (snd st) all_providers))"

definition gate_conflict :: "provider_lineage_index \<Rightarrow> identities \<Rightarrow> bool \<times> relationships_map" where
  "gate_conflict lineage ids =
     (let by_model = result_providers_by_model lineage ids;
          st = foldl (overlap_step lineage (candidate_providers_by_identity ids)) (False, []) by_model
      in foldl (version_step lineage ids) st (results_by_model_id by_model))"

definition reject_others ::
  "provider_lineage_index \<Rightarrow> i32 \<Rightarrow> versioned_process_identity \<Rightarrow> identities \<Rightarrow> (i32 \<times> provider_lineage_rejection_reason) list" where
  "reject_others lineage selected_idx selected_identity ids =
     foldl (\<lambda>acc (p, i).
       if p = selected_idx then acc
       else AList.update p (lineage_rejection_for_selected_result selected_identity i
              (provider_lineage_relationships selected_identity i lineage) lineage) acc) [] ids"

definition reject_unbound :: "relationships_map \<Rightarrow> identities \<Rightarrow> (i32 \<times> provider_lineage_rejection_reason) list" where
  "reject_unbound rels ids =
     foldl (\<lambda>acc (p, i). if map_of rels p \<noteq> None then AList.update p LineageOverlapRequiresBinding acc else acc) [] ids"

definition apply_provider_lineage_gate ::
  "i32 list \<Rightarrow> process_meta list \<Rightarrow> provider_lineage_index \<Rightarrow> link_error + provider_lineage_gate" where
  "apply_provider_lineage_gate providers metas lineage =
     res_bind (try_map (identity_of_provider metas) providers) (\<lambda>ids.
     let (conflict, rels) = gate_conflict lineage ids;
         gate = \<lparr>gt_providers = providers, gt_relationships_by_provider = rels, gt_rejection_by_provider = [],
                 gt_selected_model_result = None, gt_unresolved = False\<rparr> in
     if \<not> conflict then Inr gate
     else
     case filter (\<lambda>(p, i). i \<in> set (li_selected_results lineage)) ids of
       [(selected_idx, selected_identity)] \<Rightarrow>
         Inr (gate\<lparr>gt_providers := [selected_idx], gt_selected_model_result := Some selected_idx,
                    gt_rejection_by_provider := reject_others lineage selected_idx selected_identity ids\<rparr>)
     | _ \<Rightarrow>
         Inr (gate\<lparr>gt_providers := [], gt_unresolved := True, gt_rejection_by_provider := reject_unbound rels ids\<rparr>))"

section \<open>Maps of sets\<close>

definition entries_at :: "('k \<times> 'v list) list \<Rightarrow> 'k \<Rightarrow> 'v list" where
  "entries_at m k = unwrap_or [] (map_of m k)"

lemma set_set_union [simp]: "set (set_union xs ys) = set xs \<union> set ys"
proof -
  have "set (foldl (\<lambda>acc y. if y \<in> set acc then acc else acc @ [y]) xs ys) = set xs \<union> set ys"
    by (induction ys arbitrary: xs) auto
  then show ?thesis by (simp add: set_union_def)
qed

lemma entries_at_insert:
  "set (entries_at (map_set_insert k v m) k') = set (entries_at m k') \<union> (if k' = k then {v} else {})"
  by (simp add: entries_at_def map_set_insert_def update_conv')

lemma keys_insert [simp]: "distinct (map fst m) \<Longrightarrow> distinct (map fst (map_set_insert k v m))"
  by (simp add: map_set_insert_def distinct_update)

lemma entries_at_inserts:
  "set (entries_at (foldl (\<lambda>acc c. map_set_insert c v acc) m ks) k) = set (entries_at m k) \<union> (if k \<in> set ks then {v} else {})"
  by (induction ks arbitrary: m) (auto simp: entries_at_insert)

lemma keys_inserts: "distinct (map fst m) \<Longrightarrow> distinct (map fst (foldl (\<lambda>acc c. map_set_insert c v acc) m ks))"
  by (induction ks arbitrary: m) simp_all

lemma entries_at_nested:
  "set (entries_at (foldl (\<lambda>acc (v, i). foldl (\<lambda>acc c. map_set_insert c v acc) acc (f i)) m vs) k) =
     set (entries_at m k) \<union> {v. \<exists>i. (v, i) \<in> set vs \<and> k \<in> set (f i)}"
  by (induction vs arbitrary: m) (auto simp: entries_at_inserts split: if_splits)

lemma keys_nested:
  "distinct (map fst m) \<Longrightarrow>
   distinct (map fst (foldl (\<lambda>acc (v, i). foldl (\<lambda>acc c. map_set_insert c v acc) acc (f i)) m vs))"
  by (induction vs arbitrary: m) (auto simp: keys_inserts)

lemma entries_at_member:
  assumes "v \<in> set (entries_at m k)"
  obtains vs where "map_of m k = Some vs" "v \<in> set vs" "(k, vs) \<in> set m"
  using assms map_of_SomeD [of m k] by (cases "map_of m k") (auto simp: entries_at_def)

section \<open>The gate keeps overlapping providers apart\<close>

lemma by_identity_iff: "p \<in> set (entries_at (candidate_providers_by_identity ids) i) \<longleftrightarrow> (p, i) \<in> set ids"
proof -
  have "set (entries_at (foldl (\<lambda>acc (p, i). map_set_insert i p acc) m ids) i) = set (entries_at m i) \<union> {p. (p, i) \<in> set ids}" for m
    by (induction ids arbitrary: m) (auto simp: entries_at_insert split: if_splits)
  then show ?thesis by (simp add: candidate_providers_by_identity_def) (simp add: entries_at_def)
qed

lemma by_model_iff:
  "p \<in> set (entries_at (result_providers_by_model lineage ids) m) \<longleftrightarrow> (\<exists>i. (p, i) \<in> set ids \<and> m \<in> set (result_models_of lineage i))"
  by (simp add: result_providers_by_model_def entries_at_nested) (simp add: entries_at_def)

lemma by_model_keys: "distinct (map fst (result_providers_by_model lineage ids))"
  by (simp add: result_providers_by_model_def keys_nested)

lemma map_of_results_by_model_id:
  "map_of (entries_at (results_by_model_id xs) i) m = (if vm_model_id m = i then map_of (rev xs) m else None)"
proof (induction xs rule: rev_induct)
  case Nil
  then show ?case by (simp add: results_by_model_id_def entries_at_def)
next
  case (snoc x xs)
  obtain m0 ps0 where x: "x = (m0, ps0)" by (cases x)
  let ?R = "results_by_model_id xs"
  have step: "results_by_model_id (xs @ [x]) =
      AList.update (vm_model_id m0) (AList.update m0 ps0 (entries_at ?R (vm_model_id m0))) ?R"
    by (simp add: results_by_model_id_def x entries_at_def)
  have "entries_at (results_by_model_id (xs @ [x])) i =
      (if i = vm_model_id m0 then AList.update m0 ps0 (entries_at ?R (vm_model_id m0)) else entries_at ?R i)"
    unfolding step by (simp add: entries_at_def update_conv')
  with snoc.IH show ?case by (auto simp: x update_conv')
qed

lemma conflict_sticky:
  "fst st \<Longrightarrow> fst (foldl (overlap_step lineage by_id) st xs)"
  "fst st \<Longrightarrow> fst (foldl alternative_step st ys)"
  "fst st \<Longrightarrow> fst (foldl (version_step lineage ids) st zs)"
proof -
  show a: "fst (foldl alternative_step st ys)" if "fst st" for st ys
    using that by (induction ys arbitrary: st) (auto simp: alternative_step_def)
  show "fst st \<Longrightarrow> fst (foldl (overlap_step lineage by_id) st xs)"
    by (induction xs arbitrary: st) (auto simp: overlap_step_def Let_def split: prod.splits)
  show "fst st \<Longrightarrow> fst (foldl (version_step lineage ids) st zs)"
    by (induction zs arbitrary: st) (auto simp: version_step_def Let_def a)
qed

lemma foldl_trigger:
  assumes "x \<in> set xs" "\<And>st. fst (step st x)" "\<And>st y. fst st \<Longrightarrow> fst (step st y)"
  shows "fst (foldl step st xs)"
proof -
  have sticky: "fst st \<Longrightarrow> fst (foldl step st ys)" for st ys
    using assms(3) by (induction ys arbitrary: st) auto
  obtain ys zs where "xs = ys @ x # zs" using assms(1) by (meson split_list)
  then show ?thesis using sticky assms(2) by simp
qed

lemma overlap_conflict:
  assumes "(p, ip) \<in> set ids" "(q, iq) \<in> set ids" "p \<noteq> q" "m \<in> set (result_models_of lineage ip)"
    "iq \<in> set (entries_at (li_model_components lineage) m)"
  shows "fst (gate_conflict lineage ids)"
proof -
  let ?by = "candidate_providers_by_identity ids"
  have "p \<in> set (entries_at (result_providers_by_model lineage ids) m)" using assms(1,4) by_model_iff by blast
  then obtain ps where ps: "p \<in> set ps" "(m, ps) \<in> set (result_providers_by_model lineage ids)"
    by (rule entries_at_member)
  have "q \<in> set (component_providers lineage ?by m)"
    using assms(2,5) by_identity_iff [of q ids iq]
    by (auto simp: component_providers_def entries_at_def [symmetric])
  moreover from this have "length (set_union ps (component_providers lineage ?by m)) > 1"
    using ps(1) assms(3) card_length [of "set_union ps (component_providers lineage ?by m)"]
      card_le_Suc0_iff_eq [of "set (set_union ps (component_providers lineage ?by m))"]
    by (metis List.finite_set One_nat_def UnI1 UnI2 leI le_trans set_set_union)
  ultimately have "fst (overlap_step lineage ?by st (m, ps))" for st
    using ps(1) by (cases st) (auto simp: overlap_step_def Let_def)
  then have "fst (foldl (overlap_step lineage ?by) (False, []) (result_providers_by_model lineage ids))"
    by (rule foldl_trigger [OF ps(2)]) (use conflict_sticky(1) [where xs = "[_]"] in auto)
  then show ?thesis by (simp add: gate_conflict_def Let_def conflict_sticky(3))
qed

lemma version_conflict:
  assumes "(p, ip) \<in> set ids" "(q, iq) \<in> set ids" "p \<noteq> q" "m \<in> set (result_models_of lineage ip)"
    "m' \<in> set (result_models_of lineage iq)" "vm_model_id m = vm_model_id m'"
  shows "fst (gate_conflict lineage ids)"
proof -
  let ?by = "result_providers_by_model lineage ids"
  have "p \<in> set (entries_at ?by m)" "q \<in> set (entries_at ?by m')" using assms(1,2,4,5) by_model_iff by blast+
  then obtain ps qs where ps: "map_of ?by m = Some ps" "p \<in> set ps" and qs: "map_of ?by m' = Some qs" "q \<in> set qs"
    by (metis entries_at_member)
  let ?ex = "entries_at (results_by_model_id ?by) (vm_model_id m)"
  have rev: "map_of (rev ?by) = map_of ?by" using by_model_keys by (subst map_of_inject_set) (auto simp: rev_map [symmetric])
  have in_ex: "(m, ps) \<in> set ?ex" "(m', qs) \<in> set ?ex"
    using ps(1) qs(1) assms(6) map_of_results_by_model_id [of ?by "vm_model_id m"] rev by (auto intro!: map_of_SomeD)
  then have entry: "(vm_model_id m, ?ex) \<in> set (results_by_model_id ?by)"
    by (cases "map_of (results_by_model_id ?by) (vm_model_id m)") (auto simp: entries_at_def dest: map_of_SomeD)
  have "fst (version_step lineage ids st (vm_model_id m, ?ex))" for st
  proof (cases "m = m'")
    case True
    then have "q \<in> set ps" using ps(1) qs by simp
    then have "length ps > 1" using ps(2) assms(3) by (cases ps; cases "tl ps") auto
    then have "fst (foldl alternative_step st (map snd ?ex))" for st
      using in_ex(1) by (intro foldl_trigger [of ps]) (force simp: alternative_step_def)+
    then show ?thesis by (auto simp: version_step_def Let_def)
  next
    case False
    then have "length ?ex > 1" using in_ex by (cases ?ex; cases "tl ?ex") auto
    then show ?thesis by (simp add: version_step_def Let_def)
  qed
  then show ?thesis
    unfolding gate_conflict_def Let_def
    using entry by (intro foldl_trigger [OF entry]) (use conflict_sticky(3) [where zs = "[_]"] in auto)
qed

definition lineage_identity :: "process_meta list \<Rightarrow> i32 \<Rightarrow> versioned_process_identity" where
  "lineage_identity metas p = process_identity (the (process_meta_for_idx metas p))"

text \<open>Two providers overlap when one is a result of a model the other is a component of, or both are results of one model.\<close>

definition overlapping :: "provider_lineage_index \<Rightarrow> versioned_process_identity \<Rightarrow> versioned_process_identity \<Rightarrow> bool" where
  "overlapping lineage i j =
     (list_ex (\<lambda>m. j \<in> set (entries_at (li_model_components lineage) m)) (result_models_of lineage i) \<or>
      list_ex (\<lambda>m. i \<in> set (entries_at (li_model_components lineage) m)) (result_models_of lineage j) \<or>
      list_ex (\<lambda>m. list_ex (\<lambda>m'. vm_model_id m = vm_model_id m') (result_models_of lineage j)) (result_models_of lineage i))"

lemma gate_ids:
  assumes "try_map (identity_of_provider metas) providers = Inr ids"
  shows "ids = map (\<lambda>p. (p, lineage_identity metas p)) providers"
  using assms unfolding try_map_eq_Inr
  by (induction rule: list_all2_induct) (auto simp: identity_of_provider_def res_simps lineage_identity_def)

lemma apply_gateD:
  assumes "apply_provider_lineage_gate providers metas lineage = Inr gate"
  defines "ids \<equiv> map (\<lambda>p. (p, lineage_identity metas p)) providers"
  obtains (pass) "\<not> fst (gate_conflict lineage ids)" "gt_providers gate = providers" "gt_selected_model_result gate = None"
      "\<not> gt_unresolved gate"
    | (select) p where "fst (gate_conflict lineage ids)" "gt_providers gate = [p]" "gt_selected_model_result gate = Some p"
      "\<not> gt_unresolved gate" "filter (\<lambda>q. lineage_identity metas q \<in> set (li_selected_results lineage)) providers = [p]"
    | (refuse) "fst (gate_conflict lineage ids)" "gt_providers gate = []" "gt_selected_model_result gate = None"
      "gt_unresolved gate"
      "length (filter (\<lambda>q. lineage_identity metas q \<in> set (li_selected_results lineage)) providers) \<noteq> 1"
proof -
  from assms(1) obtain ids' where "try_map (identity_of_provider metas) providers = Inr ids'"
    by (auto simp: apply_provider_lineage_gate_def res_simps)
  then have tm: "try_map (identity_of_provider metas) providers = Inr ids" using gate_ids ids_def by blast
  obtain conflict rels where gc: "gate_conflict lineage ids = (conflict, rels)" by (cases "gate_conflict lineage ids")
  let ?sel = "filter (\<lambda>(p, i). i \<in> set (li_selected_results lineage)) ids"
  have sel: "map fst ?sel = filter (\<lambda>q. lineage_identity metas q \<in> set (li_selected_results lineage)) providers"
    by (simp add: ids_def filter_map o_def)
  note eq = assms(1) [unfolded apply_provider_lineage_gate_def tm, simplified, unfolded gc Let_def, simplified]
  show ?thesis
  proof (cases conflict)
    case False
    with eq gc show ?thesis by (intro pass) auto
  next
    case True
    show ?thesis
    proof (cases "length ?sel = 1")
      case one: True
      then obtain x where x: "?sel = [x]" by (auto simp: length_Suc_conv)
      with True eq sel gc show ?thesis by (cases x) (intro select [of "fst x"]; auto)
    next
      case other: False
      have "gt_providers gate = [] \<and> gt_selected_model_result gate = None \<and> gt_unresolved gate"
        using True eq other by (auto split: list.splits prod.splits)
      moreover have "length (filter (\<lambda>q. lineage_identity metas q \<in> set (li_selected_results lineage)) providers) \<noteq> 1"
        using other arg_cong [OF sel, of length] by simp
      ultimately show ?thesis using True gc by (intro refuse) auto
    qed
  qed
qed

lemma gate_disjoint:
  assumes "apply_provider_lineage_gate providers metas lineage = Inr gate"
    and "p \<in> set (gt_providers gate)" "q \<in> set (gt_providers gate)" "p \<noteq> q"
  shows "\<not> overlapping lineage (lineage_identity metas p) (lineage_identity metas q)"
  using assms(1)
proof (cases rule: apply_gateD)
  case pass
  let ?ids = "map (\<lambda>p. (p, lineage_identity metas p)) providers"
  have ids: "(p, lineage_identity metas p) \<in> set ?ids" "(q, lineage_identity metas q) \<in> set ?ids"
    using assms(2,3) pass(2) by auto
  show ?thesis
    using pass(1) overlap_conflict [OF ids assms(4)] overlap_conflict [OF ids(2,1) assms(4) [symmetric]]
      version_conflict [OF ids assms(4)]
    by (fastforce simp: overlapping_def list_ex_iff)
qed (use assms in auto)

text \<open>
  C8. Providers that pass the gate together do not overlap: no one of them is the result of a life-cycle
  model that has another one as a component, and no two are results of the same model, in the same or in
  different versions, so an exchange is never balanced twice through one model.
\<close>

theorem gate_prevents_double_counting:
  assumes "apply_provider_lineage_gate providers metas lineage = Inr gate"
    and "p \<in> set (gt_providers gate)" "q \<in> set (gt_providers gate)" "p \<noteq> q"
  shows "\<not> overlapping lineage (lineage_identity metas p) (lineage_identity metas q)"
  using assms by (rule gate_disjoint)

text \<open>
  The gate either passes all providers, or binds the exchange to the one provider, the only one among
  the candidates that is a selected model result, or marks it unresolved, exactly when it leaves no provider
  of a non-empty list.
\<close>

theorem gate_outcomes:
  assumes "apply_provider_lineage_gate providers metas lineage = Inr gate"
  shows "(gt_unresolved gate \<longleftrightarrow> gt_providers gate = [] \<and> providers \<noteq> []) \<and>
         (case gt_selected_model_result gate of
            Some p \<Rightarrow> gt_providers gate = [p] \<and>
              filter (\<lambda>q. lineage_identity metas q \<in> set (li_selected_results lineage)) providers = [p]
          | None \<Rightarrow> gt_unresolved gate \<or> gt_providers gate = providers)"
proof -
  have nonempty: "providers \<noteq> []" if "fst (gate_conflict lineage (map (\<lambda>p. (p, lineage_identity metas p)) providers))"
    using that by (auto simp: gate_conflict_def result_providers_by_model_def results_by_model_id_def)
  show ?thesis using assms by (cases rule: apply_gateD) (use nonempty in auto)
qed

lemma expand_keeps_keys:
  "fst ` set memo \<subseteq> fst ` set (snd (expand_model_components direct results model memo visiting))"
proof (induction direct results model memo visiting rule: expand_model_components.induct)
  case (1 direct results model memo visiting)
  show ?case
  proof (cases "map_of memo model \<noteq> None \<or> model \<in> set visiting")
    case True
    then show ?thesis by (auto simp: expand_model_components.simps [of direct results model] split: option.splits)
  next
    case False
    let ?f = "\<lambda>st n. let (inner, memo) = expand_model_components direct results n (snd st) (model # visiting)
      in (set_union (fst st) inner, memo)"
    have "fst ` set (snd st) \<subseteq> fst ` set (snd (foldl ?f st ns))" if "set ns \<subseteq> set (nested_models direct results model)" for st ns
      using that
    proof (induction ns arbitrary: st)
      case Nil
      then show ?case by simp
    next
      case (Cons n ns)
      have "fst ` set (snd st) \<subseteq> fst ` set (snd (?f st n))"
        using "1.IH" [of n st] False Cons.prems by (auto simp: case_prod_unfold Let_def)
      also have "\<dots> \<subseteq> fst ` set (snd (foldl ?f (?f st n) ns))" using Cons by simp
      finally show ?case by simp
    qed
    from this [of "nested_models direct results model" "(own_components direct model, memo)"] False show ?thesis
      by (auto simp: expand_model_components.simps [of direct results model] case_prod_unfold Let_def)
  qed
qed

lemma expand_distinct_keys:
  "distinct (map fst memo) \<Longrightarrow> distinct (map fst (snd (expand_model_components direct results model memo visiting)))"
proof (induction direct results model memo visiting rule: expand_model_components.induct)
  case (1 direct results model memo visiting)
  show ?case
  proof (cases "map_of memo model \<noteq> None \<or> model \<in> set visiting")
    case True
    with "1.prems" show ?thesis by (auto simp: expand_model_components.simps [of direct results model] split: option.splits)
  next
    case False
    let ?f = "\<lambda>st n. let (inner, memo) = expand_model_components direct results n (snd st) (model # visiting)
      in (set_union (fst st) inner, memo)"
    have "distinct (map fst (snd (foldl ?f st ns)))"
      if "set ns \<subseteq> set (nested_models direct results model)" "distinct (map fst (snd st))" for st ns
      using that
    proof (induction ns arbitrary: st)
      case Nil
      then show ?case by simp
    next
      case (Cons n ns)
      have "distinct (map fst (snd (?f st n)))"
        using "1.IH" [of n st] False Cons.prems by (auto simp: case_prod_unfold Let_def)
      with Cons show ?case by simp
    qed
    then have "distinct (map fst (snd (foldl ?f (own_components direct model, memo) (nested_models direct results model))))"
      using "1.prems" by simp
    moreover have "map_of memo model = None" "model \<notin> set visiting" using False by simp_all
    ultimately show ?thesis
      by (simp only: expand_model_components.simps [of direct results model] case_prod_unfold Let_def option.case if_False
          snd_conv distinct_update)
  qed
qed

section \<open>The component index\<close>

definition nesting :: "components \<Rightarrow> result_models \<Rightarrow> (versioned_model_identity \<times> versioned_model_identity) set" where
  "nesting direct results = {(m, n). n \<in> set (nested_models direct results m)}"

text \<open>The components of a model and of all models nested in it, at any depth.\<close>

definition all_components :: "components \<Rightarrow> result_models \<Rightarrow> versioned_model_identity \<Rightarrow> versioned_process_identity set" where
  "all_components direct results m = (\<Union>n \<in> (nesting direct results)\<^sup>* `` {m}. set (own_components direct n))"

definition memo_ok :: "components \<Rightarrow> result_models \<Rightarrow> components \<Rightarrow> bool" where
  "memo_ok direct results memo = (\<forall>m c. map_of memo m = Some c \<longrightarrow> set c = all_components direct results m)"

lemma all_components_unfold:
  "all_components direct results m =
     set (own_components direct m) \<union> (\<Union>n \<in> set (nested_models direct results m). all_components direct results n)"
proof -
  have "(nesting direct results)\<^sup>* `` {m} = {m} \<union> (\<Union>n \<in> set (nested_models direct results m). (nesting direct results)\<^sup>* `` {n})"
    by (auto simp: nesting_def elim: converse_rtranclE intro: converse_rtrancl_into_rtrancl)
  then show ?thesis by (simp add: all_components_def)
qed

lemma expand_fold:
  assumes "\<And>n memo. n \<in> set ns \<Longrightarrow> memo_ok direct results memo \<Longrightarrow>
      set (fst (f n memo)) = all_components direct results n \<and> memo_ok direct results (snd (f n memo))"
    and "memo_ok direct results (snd st)"
  shows "set (fst (foldl (\<lambda>st n. let (inner, memo) = f n (snd st) in (set_union (fst st) inner, memo)) st ns)) =
           set (fst st) \<union> (\<Union>n \<in> set ns. all_components direct results n) \<and>
         memo_ok direct results (snd (foldl (\<lambda>st n. let (inner, memo) = f n (snd st) in (set_union (fst st) inner, memo)) st ns))"
  using assms
proof (induction ns arbitrary: st)
  case Nil
  then show ?case by simp
next
  case (Cons n ns)
  obtain inner memo where f: "f n (snd st) = (inner, memo)" by (cases "f n (snd st)")
  have "set inner = all_components direct results n" "memo_ok direct results memo"
    using Cons.prems(1) [of n "snd st"] Cons.prems(2) f by simp_all
  with Cons.IH [of "(set_union (fst st) inner, memo)"] Cons.prems(1) f show ?case by auto
qed

lemma expand_correct:
  assumes "acyclic (nesting direct results)" "memo_ok direct results memo"
    "\<forall>v \<in> set visiting. (v, model) \<in> (nesting direct results)\<^sup>+"
  shows "set (fst (expand_model_components direct results model memo visiting)) = all_components direct results model \<and>
         memo_ok direct results (snd (expand_model_components direct results model memo visiting))"
  using assms
proof (induction direct results model memo visiting rule: expand_model_components.induct)
  case (1 direct results model memo visiting)
  show ?case
  proof (cases "map_of memo model")
    case (Some c)
    with "1.prems"(2) show ?thesis by (auto simp: expand_model_components.simps [of direct results model] memo_ok_def)
  next
    case None
    have fresh: "model \<notin> set visiting" using "1.prems"(1,3) by (auto simp: acyclic_def)
    let ?f = "\<lambda>n memo. expand_model_components direct results n memo (model # visiting)"
    let ?st = "foldl (\<lambda>st n. let (inner, memo) = ?f n (snd st) in (set_union (fst st) inner, memo))
      (own_components direct model, memo) (nested_models direct results model)"
    have "set (fst ?st) = set (fst (own_components direct model, memo)) \<union>
        (\<Union>n \<in> set (nested_models direct results model). all_components direct results n) \<and> memo_ok direct results (snd ?st)"
    proof (rule expand_fold)
      fix n memo' assume n: "n \<in> set (nested_models direct results model)" and ok: "memo_ok direct results memo'"
      then have edge: "(model, n) \<in> nesting direct results" by (simp add: nesting_def)
      have "\<forall>v \<in> set (model # visiting). (v, n) \<in> (nesting direct results)\<^sup>+"
        using "1.prems"(3) edge by (auto intro: trancl_into_trancl)
      with "1.IH" [where a = "([], memo')", OF None fresh n "1.prems"(1)] ok
      show "set (fst (?f n memo')) = all_components direct results n \<and> memo_ok direct results (snd (?f n memo'))"
        by simp
    qed (use "1.prems"(2) in simp)
    then have all: "set (fst ?st) = all_components direct results model" "memo_ok direct results (snd ?st)"
      using all_components_unfold [of direct results model] by auto
    have eq: "expand_model_components direct results model memo visiting = (fst ?st, AList.update model (fst ?st) (snd ?st))"
      using None fresh by (simp add: expand_model_components.simps [of direct results model] case_prod_unfold Let_def)
    show ?thesis unfolding eq using all by (auto simp: memo_ok_def update_conv')
  qed
qed

lemma expand_all_correct:
  assumes "acyclic (nesting direct results)" "memo_ok direct results memo"
  shows "memo_ok direct results (expand_all direct results models memo) \<and>
         fst ` set memo \<union> set models \<subseteq> fst ` set (expand_all direct results models memo)"
  using assms(2)
proof (induction models arbitrary: memo)
  case Nil
  then show ?case by (simp add: expand_all_def)
next
  case (Cons m ms)
  have keep: "fst ` set memo \<subseteq> fst ` set (snd (expand_model_components direct results m memo vs))" for m memo vs
    by (rule expand_keeps_keys)
  obtain e memo1 where e: "expand_model_components direct results m memo [] = (e, memo1)"
    by (cases "expand_model_components direct results m memo []")
  then have "set e = all_components direct results m" "memo_ok direct results memo1"
    using expand_correct [OF assms(1) Cons.prems, of "[]" m] by simp_all
  then have ok: "memo_ok direct results (AList.update m e memo1)" by (auto simp: memo_ok_def update_conv')
  have "expand_all direct results (m # ms) memo = expand_all direct results ms (AList.update m e memo1)"
    by (simp add: expand_all_def e)
  with Cons.IH [OF ok] keep [of memo m "[]"] e show ?case by auto
qed

definition lineage_tables :: "(string \<Rightarrow> uuid option) \<Rightarrow> lifecycle_model_lineage_row list \<Rightarrow> result_models \<times> components" where
  "lineage_tables parse_uuid models = foldl (add_model_row parse_uuid) ([], []) models"

lemma component_models_iff:
  "m \<in> set (entries_at (component_models_of mc) c) \<longleftrightarrow> (\<exists>cs. (m, cs) \<in> set mc \<and> c \<in> set cs)"
  unfolding component_models_of_def by (subst entries_at_nested [where f = "\<lambda>cs. cs"]) (simp add: entries_at_def)

lemma expand_all_keys: "distinct (map fst memo) \<Longrightarrow> distinct (map fst (expand_all direct results models memo))"
proof (induction models arbitrary: memo)
  case Nil
  then show ?case by (simp add: expand_all_def)
next
  case (Cons m ms)
  have "distinct (map fst (snd (expand_model_components direct results m memo [])))"
    using Cons.prems by (rule expand_distinct_keys)
  then show ?case
    using Cons.IH [of "AList.update m (fst (expand_model_components direct results m memo [])) (snd (expand_model_components direct results m memo []))"]
    by (simp add: expand_all_def case_prod_unfold Let_def distinct_update)
qed

text \<open>
  C39. When no life-cycle model is nested in itself, the component index is exact, whatever the iteration
  order of the hash maps: every model of the input is mapped to its own components and those of all models
  nested in it, and a process is listed under exactly the models that contain it.
\<close>

theorem lineage_index_is_closure:
  assumes "lineage_tables parse_uuid models = (results, direct)" "acyclic (nesting direct results)"
    and "set (key_order (map fst direct)) = fst ` set direct"
    and "lineage = build_provider_lineage_index parse_uuid key_order models roots"
  shows "(\<forall>m \<in> fst ` set direct. \<exists>c. map_of (li_model_components lineage) m = Some c \<and> set c = all_components direct results m) \<and>
         (\<forall>m c. map_of (li_model_components lineage) m = Some c \<longrightarrow> set c = all_components direct results m) \<and>
         (\<forall>m p. m \<in> set (component_models_at lineage p) \<longleftrightarrow>
            m \<in> fst ` set (li_model_components lineage) \<and> p \<in> all_components direct results m)"
proof -
  let ?mc = "expand_all direct results (key_order (map fst direct)) []"
  have mc: "li_model_components lineage = ?mc" "li_component_models lineage = component_models_of ?mc"
    using assms(1) by (simp_all add: assms(4) build_provider_lineage_index_def lineage_tables_def Let_def)
  have ok: "memo_ok direct results ?mc" and keys: "set (key_order (map fst direct)) \<subseteq> fst ` set ?mc"
    using expand_all_correct [OF assms(2), of "[]" "key_order (map fst direct)"] by (simp_all add: memo_ok_def)
  have dist: "distinct (map fst ?mc)" by (rule expand_all_keys) simp
  have "\<exists>c. map_of ?mc m = Some c \<and> set c = all_components direct results m" if "m \<in> fst ` set direct" for m
  proof -
    have "m \<in> fst ` set ?mc" using that keys assms(3) by blast
    then obtain c where "map_of ?mc m = Some c" by (metis (no_types) map_of_eq_None_iff not_None_eq)
    with ok show ?thesis by (auto simp: memo_ok_def)
  qed
  moreover have "m \<in> set (component_models_at lineage p) \<longleftrightarrow> m \<in> fst ` set ?mc \<and> p \<in> all_components direct results m" for m p
  proof -
    have "m \<in> set (component_models_at lineage p) \<longleftrightarrow> (\<exists>cs. map_of ?mc m = Some cs \<and> p \<in> set cs)"
      using component_models_iff [of m ?mc p] dist
      by (simp add: component_models_at_def mc entries_at_def)
    also have "\<dots> \<longleftrightarrow> m \<in> fst ` set ?mc \<and> p \<in> all_components direct results m"
      using ok by (metis (no_types) map_of_eq_None_iff memo_ok_def not_None_eq)
    finally show ?thesis .
  qed
  ultimately show ?thesis using ok by (simp add: mc memo_ok_def)
qed

section \<open>Cyclic lineages\<close>

text \<open>
  On cyclic lineages the memo table fixes what a model has when it is first expanded: a memoized entry is never
  changed again.
\<close>

lemma foldl_snd_invariant:
  assumes "\<And>n memo. n \<in> set ns \<Longrightarrow> P memo \<Longrightarrow> P (snd (f n memo))" "P (snd st)"
  shows "P (snd (foldl (\<lambda>st n. let (inner, memo) = f n (snd st) in (set_union (fst st) inner, memo)) st ns))"
  using assms by (induction ns arbitrary: st) (auto simp: case_prod_unfold Let_def)

lemma expand_fresh:
  assumes "map_of memo model = None" "model \<notin> set visiting"
  shows "expand_model_components direct results model memo visiting =
    (let st = foldl (\<lambda>st n. let (inner, memo) = expand_model_components direct results n (snd st) (model # visiting)
         in (set_union (fst st) inner, memo)) (own_components direct model, memo) (nested_models direct results model)
     in (fst st, AList.update model (fst st) (snd st)))"
  using assms by (simp add: expand_model_components.simps [of direct results model] case_prod_unfold Let_def)

lemma expand_known:
  "map_of memo model = Some c \<Longrightarrow> expand_model_components direct results model memo visiting = (c, memo)"
  "map_of memo model = None \<Longrightarrow> model \<in> set visiting \<Longrightarrow>
     expand_model_components direct results model memo visiting = ([], memo)"
  by (simp_all add: expand_model_components.simps [of direct results model])

lemma expand_keeps_entries:
  "map_of memo k = Some c \<Longrightarrow> map_of (snd (expand_model_components direct results model memo visiting)) k = Some c"
proof (induction direct results model memo visiting rule: expand_model_components.induct)
  case (1 direct results model memo visiting)
  show ?case
  proof (cases "map_of memo model = None \<and> model \<notin> set visiting")
    case False
    with "1.prems" show ?thesis by (cases "map_of memo model") (simp_all add: expand_known)
  next
    case True
    let ?f = "\<lambda>n memo. expand_model_components direct results n memo (model # visiting)"
    have "map_of (snd (foldl (\<lambda>st n. let (inner, memo) = ?f n (snd st) in (set_union (fst st) inner, memo))
        (own_components direct model, memo) (nested_models direct results model))) k = Some c"
      using True "1.prems" "1.IH" [where a = "([], m)" for m]
      by (intro foldl_snd_invariant [where P = "\<lambda>memo. map_of memo k = Some c"]) auto
    with True "1.prems" show ?thesis by (auto simp: expand_fresh Let_def update_conv')
  qed
qed

lemma expand_all_keeps_entries:
  "map_of memo k = Some c \<Longrightarrow> map_of (expand_all direct results models memo) k = Some c"
proof (induction models arbitrary: memo)
  case (Cons m ms)
  let ?e = "expand_model_components direct results m memo []"
  have keep: "map_of (snd ?e) k = Some c" using Cons.prems by (rule expand_keeps_entries)
  moreover have "fst ?e = c" if "m = k" using that Cons.prems by (simp add: expand_known)
  ultimately have "map_of (AList.update m (fst ?e) (snd ?e)) k = Some c" by (auto simp: update_conv')
  from Cons.IH [OF this] show ?case by (simp add: expand_all_def case_prod_unfold Let_def)
qed (simp add: expand_all_def)

text \<open>
  While model \<open>a\<close> is being visited, a model \<open>b\<close> whose only nested model is \<open>a\<close> is expanded to its own components,
  and that is what the memo table keeps for it.
\<close>

lemma expand_nested_cut:
  assumes "set (nested_models direct results b) = {a}" "a \<in> set visiting"
    "map_of memo a = None \<and> (\<forall>c. map_of memo b = Some c \<longrightarrow> set c = set (own_components direct b))"
  shows "(let memo' = snd (expand_model_components direct results model memo visiting) in
      map_of memo' a = None \<and> (\<forall>c. map_of memo' b = Some c \<longrightarrow> set c = set (own_components direct b)))"
  using assms
proof (induction direct results model memo visiting rule: expand_model_components.induct)
  case (1 direct results model memo visiting)
  let ?P = "\<lambda>memo. map_of memo a = None \<and> (\<forall>c. map_of memo b = Some c \<longrightarrow> set c = set (own_components direct b))"
  show ?case
  proof (cases "map_of memo model = None \<and> model \<notin> set visiting")
    case False
    with "1.prems" show ?thesis by (cases "map_of memo model") (simp_all add: expand_known)
  next
    case True
    let ?f = "\<lambda>n memo. expand_model_components direct results n memo (model # visiting)"
    let ?st = "foldl (\<lambda>st n. let (inner, memo) = ?f n (snd st) in (set_union (fst st) inner, memo))
        (own_components direct model, memo) (nested_models direct results model)"
    from True have none: "map_of memo model = None" and fresh: "model \<notin> set visiting" by simp_all
    have step: "?P (snd (?f n m))" if n: "n \<in> set (nested_models direct results model)" and m: "?P m" for n m
    proof -
      have "a \<in> set (model # visiting)" using "1.prems"(2) by simp
      moreover have "?P (snd ([], m))" using m by simp
      ultimately show ?thesis
        using "1.IH" [where a = "([], m)", OF none fresh n "1.prems"(1)] unfolding Let_def snd_conv by blast
    qed
    have P: "?P (snd ?st)"
      by (rule foldl_snd_invariant [where P = ?P], rule step) (use "1.prems"(3) in simp_all)
    have "set (fst ?st) = set (own_components direct b)" if "model = b"
    proof -
      have "set (fst (foldl (\<lambda>st n. let (inner, memo) = ?f n (snd st) in (set_union (fst st) inner, memo)) st ns)) = set (fst st)"
        if "map_of (snd st) a = None" "set ns \<subseteq> {a}" for st ns
        using that
      proof (induction ns arbitrary: st)
        case (Cons n ns)
        then have "?f n (snd st) = ([], snd st)" using "1.prems"(2) by (simp add: expand_known)
        with Cons show ?case by simp
      qed simp
      then show ?thesis using that "1.prems" by simp
    qed
    moreover have "model \<noteq> a" using True "1.prems"(2) by auto
    ultimately show ?thesis using True P by (auto simp: expand_fresh Let_def update_conv')
  qed
qed

lemma foldl_snd_reaches:
  assumes "b \<in> set ns" "\<And>memo. Q (snd (f b memo))" "\<And>n memo. Q memo \<Longrightarrow> Q (snd (f n memo))"
  shows "Q (snd (foldl (\<lambda>st n. let (inner, memo) = f n (snd st) in (set_union (fst st) inner, memo)) st ns))"
proof -
  let ?g = "\<lambda>st n. let (inner, memo) = f n (snd st) in (set_union (fst st) inner, memo)"
  obtain ys zs where ns: "ns = ys @ b # zs" using assms(1) by (meson split_list)
  have "Q (snd (?g st' b))" for st' using assms(2) by (simp add: case_prod_unfold Let_def)
  then show ?thesis unfolding ns foldl_append foldl_Cons
    by (intro foldl_snd_invariant [where P = Q]) (rule assms(3))
qed

lemma expand_records:
  assumes "model \<notin> set visiting"
  shows "\<exists>c. map_of (snd (expand_model_components direct results model memo visiting)) model = Some c"
  using assms by (cases "map_of memo model") (auto simp: expand_known expand_fresh Let_def update_conv')

lemma expand_all_fresh:
  assumes "st = foldl (\<lambda>st n. let (inner, memo) = expand_model_components direct results n (snd st) [m]
      in (set_union (fst st) inner, memo)) (own_components direct m, []) (nested_models direct results m)"
  shows "expand_all direct results (m # ms) [] =
    expand_all direct results ms (AList.update m (fst st) (AList.update m (fst st) (snd st)))"
proof -
  have "expand_model_components direct results m [] [] = (fst st, AList.update m (fst st) (snd st))"
    unfolding assms by (subst expand_fresh) (simp_all only: Let_def map_of.simps list.set empty_iff not_False_eq_True)
  then show ?thesis by (simp add: expand_all_def)
qed

text \<open>The outer model is expanded first: the inner one is left with its own components.\<close>

lemma outer_first_cuts:
  assumes "b \<in> set (nested_models direct results a)" "set (nested_models direct results b) = {a}"
  shows "\<exists>c. map_of (expand_all direct results (a # rest) []) b = Some c \<and> set c = set (own_components direct b)"
proof -
  let ?f = "\<lambda>n memo. expand_model_components direct results n memo [a]"
  let ?st = "foldl (\<lambda>st n. let (inner, memo) = ?f n (snd st) in (set_union (fst st) inner, memo))
      (own_components direct a, []) (nested_models direct results a)"
  have ne: "b \<noteq> a" using assms(1) by (simp add: nested_models_def)
  let ?P = "\<lambda>memo. map_of memo a = None \<and> (\<forall>c. map_of memo b = Some c \<longrightarrow> set c = set (own_components direct b))"
  have "?P (snd ?st)"
  proof (rule foldl_snd_invariant [where P = ?P])
    show "?P (snd (?f n memo))" if "?P memo" for n memo
      using expand_nested_cut [OF assms(2) _ that, of "[a]" n] unfolding Let_def by simp
  qed simp
  moreover have "\<exists>c. map_of (snd ?st) b = Some c"
  proof (rule foldl_snd_reaches [where Q = "\<lambda>memo. \<exists>c. map_of memo b = Some c", OF assms(1)])
    show "\<exists>c. map_of (snd (?f b memo)) b = Some c" for memo using expand_records [of b "[a]"] ne by simp
    show "\<exists>c. map_of (snd (?f n memo)) b = Some c" if "\<exists>c. map_of memo b = Some c" for n memo
      using that expand_keeps_entries by blast
  qed
  ultimately obtain c where c: "map_of (snd ?st) b = Some c" "set c = set (own_components direct b)" by blast
  from c(1) ne have "map_of (AList.update a (fst ?st) (AList.update a (fst ?st) (snd ?st))) b = Some c"
    by (simp add: update_conv')
  from expand_all_keeps_entries [OF this] have "map_of (expand_all direct results (a # rest) []) b = Some c"
    by (subst expand_all_fresh [OF refl])
  with c(2) show ?thesis by blast
qed

text \<open>The inner model is expanded first: it also has the components of the outer one.\<close>

lemma fold_collects:
  "set (fst st) \<subseteq> set (fst (foldl (\<lambda>st n. let (inner, memo) = f n (snd st) in (set_union (fst st) inner, memo)) st ns))"
  by (induction ns arbitrary: st) (fastforce simp: case_prod_unfold Let_def)+

lemma inner_first_complete:
  assumes "set (nested_models direct results b) = {a}"
  shows "\<exists>c. map_of (expand_all direct results (b # rest) []) b = Some c \<and>
    set (own_components direct a) \<union> set (own_components direct b) \<subseteq> set c"
proof -
  let ?f = "\<lambda>n memo. expand_model_components direct results n memo [b]"
  let ?g = "\<lambda>st n. let (inner, memo) = ?f n (snd st) in (set_union (fst st) inner, memo)"
  let ?st = "foldl ?g (own_components direct b, []) (nested_models direct results b)"
  obtain ns where ns: "nested_models direct results b = a # ns"
    using assms by (cases "nested_models direct results b") auto
  have ne: "a \<noteq> b" using assms by (auto simp: nested_models_def)
  have "set (own_components direct a) \<subseteq> set (fst (?f a []))"
    using fold_collects [of "(own_components direct a, [])"] expand_fresh [of "[]" a "[b]" direct results] ne
    by (simp add: Let_def case_prod_unfold)
  moreover have "set (fst (?g (own_components direct b, []) a)) \<subseteq> set (fst ?st)"
    unfolding ns foldl_Cons by (rule fold_collects)
  moreover have "set (fst (?g (own_components direct b, []) a)) = set (own_components direct b) \<union> set (fst (?f a []))"
    by (simp add: case_prod_unfold Let_def)
  ultimately have sub: "set (own_components direct a) \<union> set (own_components direct b) \<subseteq> set (fst ?st)" by blast
  have "map_of (AList.update b (fst ?st) (AList.update b (fst ?st) (snd ?st))) b = Some (fst ?st)"
    by (simp add: update_conv')
  from expand_all_keeps_entries [OF this] have "map_of (expand_all direct results (b # rest) []) b = Some (fst ?st)"
    by (subst expand_all_fresh [OF refl])
  with sub show ?thesis by blast
qed

lemma component_models_at_build:
  assumes "lineage_tables parse_uuid models = (results, direct)"
    "lineage = build_provider_lineage_index parse_uuid key_order models roots"
    "map_of (li_model_components lineage) m = Some c"
  shows "m \<in> set (component_models_at lineage p) \<longleftrightarrow> p \<in> set c"
proof -
  let ?mc = "expand_all direct results (key_order (map fst direct)) []"
  have mc: "li_model_components lineage = ?mc" "li_component_models lineage = component_models_of ?mc"
    using assms(1) by (simp_all add: assms(2) build_provider_lineage_index_def lineage_tables_def Let_def)
  have "distinct (map fst ?mc)" by (rule expand_all_keys) simp
  then have "(m, cs) \<in> set ?mc \<longleftrightarrow> cs = c" for cs
    using assms(3) by (metis eq_key_imp_eq_value map_of_SomeD mc(1))
  then show ?thesis using component_models_iff [of m ?mc p] by (simp add: component_models_at_def mc entries_at_def)
qed

text \<open>
  When two life-cycle models are nested in each other, the component index depends on the order in which
  the hash map of models is iterated. Let model \<open>a\<close> nest model \<open>b\<close> and let \<open>a\<close> be the only model nested in \<open>b\<close>,
  in any input. If the iteration meets \<open>a\<close> first, \<open>b\<close> is indexed with its own components only; if it meets \<open>b\<close>
  first, \<open>b\<close> is indexed with the components of \<open>a\<close> too. So every component that \<open>a\<close> has and \<open>b\<close> has not is listed
  under \<open>b\<close> with one order and not with the other.
\<close>

theorem cyclic_lineage_depends_on_order:
  assumes "lineage_tables parse_uuid models = (results, direct)"
    and "b \<in> set (nested_models direct results a)" "set (nested_models direct results b) = {a}"
    and "order_a (map fst direct) = a # rest_a" "order_b (map fst direct) = b # rest_b"
    and "lineage_a = build_provider_lineage_index parse_uuid order_a models roots"
    and "lineage_b = build_provider_lineage_index parse_uuid order_b models roots"
  shows "(\<exists>c. map_of (li_model_components lineage_a) b = Some c \<and> set c = set (own_components direct b)) \<and>
    (\<exists>c. map_of (li_model_components lineage_b) b = Some c \<and>
       set (own_components direct a) \<union> set (own_components direct b) \<subseteq> set c) \<and>
    (\<forall>p. p \<in> set (own_components direct a) \<and> p \<notin> set (own_components direct b) \<longrightarrow>
       b \<notin> set (component_models_at lineage_a p) \<and> b \<in> set (component_models_at lineage_b p))"
proof -
  have mc: "li_model_components lineage_a = expand_all direct results (a # rest_a) []"
    "li_model_components lineage_b = expand_all direct results (b # rest_b) []"
    using assms(1,4,5) by (simp_all add: assms(6,7) build_provider_lineage_index_def lineage_tables_def Let_def)
  obtain c1 where c1: "map_of (li_model_components lineage_a) b = Some c1" "set c1 = set (own_components direct b)"
    using outer_first_cuts [OF assms(2,3)] unfolding mc by blast
  obtain c2 where c2: "map_of (li_model_components lineage_b) b = Some c2"
    "set (own_components direct a) \<union> set (own_components direct b) \<subseteq> set c2"
    using inner_first_complete [OF assms(3)] unfolding mc by blast
  show ?thesis
    using c1 c2 component_models_at_build [OF assms(1,6) c1(1)] component_models_at_build [OF assms(1,7) c2(1)]
    by blast
qed

section \<open>Concrete lineages\<close>

definition example_reference :: "string \<Rightarrow> json" where
  "example_reference p = Object [(''@refObjectId'', String p), (''@version'', String ''01.00.000'')]"

definition example_model :: "string \<Rightarrow> string \<Rightarrow> string list \<Rightarrow> lifecycle_model_lineage_row" where
  "example_model m result comps =
     \<lparr>lr_identity = \<lparr>vm_model_id = m, vm_model_version = ''01.00.000''\<rparr>,
      lr_json = Object [(''lifeCycleModelDataSet'', Object [(''lifeCycleModelInformation'', Object
        [(''dataSetInformation'', Object [(''referenceToResultingProcess'', example_reference result)]),
         (''technology'', Object [(''processes'', Object [(''processInstance'',
            Array (map (\<lambda>c. Object [(''referenceToProcess'', example_reference c)]) comps))])])])])]\<rparr>"

definition example_process :: "string \<Rightarrow> versioned_process_identity" where
  "example_process p = \<lparr>vp_process_id = p, vp_process_version = ''01.00.000''\<rparr>"

definition example_model_id :: "string \<Rightarrow> versioned_model_identity" where
  "example_model_id m = \<lparr>vm_model_id = m, vm_model_version = ''01.00.000''\<rparr>"

text \<open>Model \<open>A\<close> has the result of model \<open>B\<close> as a component; in the cyclic variant also the other way round.\<close>

definition nested_example :: "lifecycle_model_lineage_row list" where
  "nested_example = [example_model ''A'' ''ra'' [''rb''], example_model ''B'' ''rb'' [''x'']]"

definition cyclic_example :: "lifecycle_model_lineage_row list" where
  "cyclic_example = [example_model ''A'' ''ra'' [''rb'', ''x''], example_model ''B'' ''rb'' [''ra'', ''y'']]"

definition example_lineage :: provider_lineage_index where
  "example_lineage = build_provider_lineage_index Some id nested_example []"

lemma example_tables:
  "lineage_tables Some nested_example =
     ([(example_process ''ra'', [example_model_id ''A'']), (example_process ''rb'', [example_model_id ''B''])],
      [(example_model_id ''A'', [example_process ''rb'']), (example_model_id ''B'', [example_process ''x''])])"
  by code_simp

lemma example_acyclic:
  "acyclic (nesting [(example_model_id ''A'', [example_process ''rb'']), (example_model_id ''B'', [example_process ''x''])]
     [(example_process ''ra'', [example_model_id ''A'']), (example_process ''rb'', [example_model_id ''B''])])"
proof -
  have "nesting [(example_model_id ''A'', [example_process ''rb'']), (example_model_id ''B'', [example_process ''x''])]
     [(example_process ''ra'', [example_model_id ''A'']), (example_process ''rb'', [example_model_id ''B''])]
    \<subseteq> measure (\<lambda>m. if m = example_model_id ''A'' then 0 else 1)"
    by (auto simp: nesting_def nested_models_def own_components_def example_model_id_def example_process_def split: if_splits)
  then show ?thesis by (meson acyclic_subset wf_acyclic wf_measure)
qed

lemma lineage_index_is_closure_witness:
  "\<exists>c. map_of (li_model_components example_lineage) (example_model_id ''B'') = Some c"
  using lineage_index_is_closure [OF example_tables example_acyclic _ example_lineage_def] by (simp) blast

lemma cyclic_tables:
  "lineage_tables Some cyclic_example =
     ([(example_process ''ra'', [example_model_id ''A'']), (example_process ''rb'', [example_model_id ''B''])],
      [(example_model_id ''A'', [example_process ''rb'', example_process ''x'']),
       (example_model_id ''B'', [example_process ''ra'', example_process ''y''])])"
  by code_simp

lemma cyclic_lineage_depends_on_order_witness:
  "example_model_id ''B'' \<notin> set (component_models_at (build_provider_lineage_index Some id cyclic_example []) (example_process ''x'')) \<and>
   example_model_id ''B'' \<in> set (component_models_at (build_provider_lineage_index Some rev cyclic_example []) (example_process ''x''))"
  using cyclic_lineage_depends_on_order [OF cyclic_tables, of "example_model_id ''B''" "example_model_id ''A''" id
    "[example_model_id ''B'']" rev "[example_model_id ''A'']", OF _ _ _ _ refl refl]
  by (simp add: nested_models_def own_components_def example_model_id_def example_process_def)

definition gate_metas :: "process_meta list" where
  "gate_metas = [example_meta 0 ''rb'' ''CN'' None, example_meta 1 ''x'' ''CN'' None, example_meta 2 ''z'' ''CN'' None]"

lemma gate_prevents_double_counting_witness:
  "\<exists>gate. apply_provider_lineage_gate [0, 2] gate_metas example_lineage = Inr gate \<and>
     \<not> overlapping example_lineage (lineage_identity gate_metas 0) (lineage_identity gate_metas 2)"
proof -
  let ?g = "apply_provider_lineage_gate [0, 2] gate_metas example_lineage"
  have "is_ok ?g" "gt_providers (projr ?g) = [0, 2]" by code_simp+
  then obtain gate where "?g = Inr gate" "gt_providers gate = [0, 2]" by (cases ?g) auto
  with gate_prevents_double_counting [of "[0, 2]" gate_metas example_lineage gate 0 2] show ?thesis by simp
qed

lemma gate_outcomes_witness:
  "\<exists>gate. apply_provider_lineage_gate [0, 1] gate_metas example_lineage = Inr gate \<and> gt_unresolved gate \<and> gt_providers gate = []"
proof -
  let ?g = "apply_provider_lineage_gate [0, 1] gate_metas example_lineage"
  have "is_ok ?g" "gt_unresolved (projr ?g)" by code_simp+
  then obtain gate where "?g = Inr gate" "gt_unresolved gate" by (cases ?g) auto
  with gate_outcomes [of "[0, 1]" gate_metas example_lineage gate] show ?thesis by simp
qed

end
