(* ===== verification/Balance_Compilation.thy ===== *)
theory Balance_Compilation
  imports Provider_Lineage
begin

text \<open>
  The compilation of signed flow balances of \<open>crates/solver-worker/src/bin/snapshot_builder.rs\<close> with the
  data of \<open>compiled_graph.rs\<close>: every technosphere exchange with a non-zero residual is matched with the
  reference ports of its flow, passed through the lineage gate, resolved by the provider rule and routed;
  the batch collects the decisions, the technosphere edges and the statistics. Theorems: the statistics
  account for every decision, every edge is a positive finite activity of a reference port of opposite sign
  whose residual is balanced, and unresolved exchanges write no edge.
\<close>

section \<open>Data\<close>

datatype scope_process_partition = Public | Private

datatype compiled_edge_partition = PublicToPublic | PublicToPrivate | PrivateToPublic | PrivateToPrivate

datatype compiled_flow_space = Technosphere | Biosphere | Reporting

datatype provider_output_allocation_state = OutputUnknown | OutputPresent | OutputMissing | OutputInvalid

datatype provider_candidate_eligibility =
    EligibilityUnknown
  | AcceptedReferenceOutput
  | RejectedNonReferenceOutput
  | AcceptedOppositeSignReference
  | RejectedSameSignReference

datatype provider_decision_kind = UniqueProviderDecision | MultiResolved | MultiUnresolved | NoProvider

definition from_partitions :: "scope_process_partition \<Rightarrow> scope_process_partition \<Rightarrow> compiled_edge_partition" where
  "from_partitions provider consumer =
     (case (provider, consumer) of
        (Public, Public) \<Rightarrow> PublicToPublic
      | (Public, Private) \<Rightarrow> PublicToPrivate
      | (Private, Public) \<Rightarrow> PrivateToPublic
      | (Private, Private) \<Rightarrow> PrivateToPrivate)"

record compiled_process =
  cp_process_idx :: i32
  cp_process_id :: uuid
  cp_process_version :: string
  cp_process_name :: "string option"
  cp_model_id :: "uuid option"
  cp_model_version :: "string option"
  cp_location :: "string option"
  cp_reference_year :: "i32 option"
  cp_annual_supply_or_production_volume :: "f64 option"
  cp_partition :: scope_process_partition

record flow_link_identity =
  fl_flow_id :: uuid
  fl_flow_version :: string

record reference_port_candidate =
  rc_flow_id :: uuid
  rc_flow_version :: string
  rc_process_idx :: i32
  rc_reference_exchange_internal_id :: "string option"
  rc_coefficient :: f64
  rc_raw_direction :: exchange_direction
  rc_raw_amount :: f64
  rc_signed_raw_coefficient :: f64
  rc_allocation_state :: allocation_fraction_state

record compiled_provider_candidate =
  cc_provider_idx :: i32
  cc_provider_id :: uuid
  cc_provider_version :: string
  cc_model_id :: "uuid option"
  cc_model_version :: "string option"
  cc_output_exchange_internal_id :: "string option"
  cc_output_exchange_is_reference :: bool
  cc_output_normalized_amount :: "f64 option"
  cc_output_allocation_state :: provider_output_allocation_state
  cc_eligibility :: provider_candidate_eligibility
  cc_process_name :: "string option"
  cc_location :: "string option"
  cc_reference_year :: "i32 option"
  cc_annual_supply_or_production_volume :: "f64 option"
  cc_reference_exchange_internal_id :: "string option"
  cc_reference_coefficient :: "f64 option"
  cc_lineage_relationships :: "provider_lineage_relationship list"
  cc_lineage_rejection_reason :: "provider_lineage_rejection_reason option"

record compiled_provider_allocation =
  ca_provider_idx :: i32
  ca_weight :: f64

record compiled_provider_decision =
  cd_consumer_idx :: i32
  cd_flow_id :: uuid
  cd_flow_version :: string
  cd_candidate_provider_count :: i32
  cd_matched_provider_count :: i32
  cd_candidates :: "compiled_provider_candidate list"
  cd_decision_kind :: "provider_decision_kind option"
  cd_resolution_strategy :: "provider_resolution_strategy option"
  cd_failure_reason :: "provider_failure_reason option"
  cd_used_equal_fallback :: bool
  cd_volume_fallback_to_one_count :: i32
  cd_geography_tier :: "geography_tier option"
  cd_supply_region_source :: "provider_supply_region_source option"
  cd_supply_region_location :: "string option"
  cd_exchange_location_present :: bool
  cd_allocations :: "compiled_provider_allocation list"

record compiled_technosphere_edge =
  te_provider_idx :: i32
  te_consumer_idx :: i32
  te_flow_id :: uuid
  te_amount :: f64
  te_provider_partition :: scope_process_partition
  te_consumer_partition :: scope_process_partition
  te_partition :: compiled_edge_partition

record compiled_balance_resolution =
  br_dependent_process_idx :: i32
  br_residual_exchange_internal_id :: string
  br_balancing_process_idx :: i32
  br_balancing_reference_exchange_internal_id :: string
  br_flow_id :: uuid
  br_flow_version :: string
  br_residual_coefficient :: f64
  br_reference_coefficient :: f64
  br_routing_weight :: f64
  br_activity_requirement :: f64

record compiled_release_technosphere_edge =
  re_dependent_process_idx :: i32
  re_residual_exchange_internal_id :: string
  re_balancing_process_idx :: i32
  re_balancing_reference_exchange_internal_id :: string
  re_residual_coefficient :: f64
  re_reference_coefficient :: f64
  re_routing_weight :: f64
  re_activity_requirement :: f64
  re_flow_id :: uuid
  re_flow_version :: string
  re_location :: "string option"

record compiled_unresolved_balance =
  ub_dependent_process_idx :: i32
  ub_residual_exchange_internal_id :: string
  ub_flow_id :: uuid
  ub_flow_version :: string
  ub_residual_coefficient :: f64
  ub_required_reference_sign :: f64
  ub_candidate_count :: i32
  ub_opposite_sign_candidate_count :: i32

record compiled_matching_stats =
  ms_input_edges_total :: i64
  ms_matched_unique_provider :: i64
  ms_matched_multi_provider :: i64
  ms_unmatched_no_provider :: i64
  ms_matched_multi_resolved :: i64
  ms_matched_multi_unresolved :: i64
  ms_matched_multi_fallback_equal :: i64
  ms_a_input_edges_written :: i64
  ms_residual_edges_total :: i64
  ms_a_balance_edges_written :: i64

record compiled_balance_batch =
  bb_decisions :: "compiled_provider_decision list"
  bb_technosphere_edges :: "compiled_technosphere_edge list"
  bb_release_edges :: "compiled_release_technosphere_edge list"
  bb_resolutions :: "compiled_balance_resolution list"
  bb_unresolved :: "compiled_unresolved_balance list"
  bb_matching_stats :: compiled_matching_stats

definition matching_stats_default :: compiled_matching_stats where
  "matching_stats_default =
     \<lparr>ms_input_edges_total = 0, ms_matched_unique_provider = 0, ms_matched_multi_provider = 0, ms_unmatched_no_provider = 0,
      ms_matched_multi_resolved = 0, ms_matched_multi_unresolved = 0, ms_matched_multi_fallback_equal = 0,
      ms_a_input_edges_written = 0, ms_residual_edges_total = 0, ms_a_balance_edges_written = 0\<rparr>"

definition balance_batch_default :: compiled_balance_batch where
  "balance_batch_default =
     \<lparr>bb_decisions = [], bb_technosphere_edges = [], bb_release_edges = [], bb_resolutions = [], bb_unresolved = [],
      bb_matching_stats = matching_stats_default\<rparr>"

datatype balance_error =
    LinkError link_error
  | SignedFlowError signed_flow_error
  | CountOverflow
  | MissingBalancingMeta i32
  | NoReferencePortMap
  | MissingSelectedPort i32
  | MissingDependentProcess i32
  | MissingBalancingProcess i32
  | ReferenceDirectionUnavailable string
  | ReferenceAmountUnavailable string
  | RawReferenceAmountUnavailable string
  | RawSignedReferenceUnavailable string
  | FactorNotFinite uuid
  | FactorOverflow uuid
  | BiosphereOverflow i32 i32

section \<open>Sparse accumulation\<close>

type_synonym 'k sparse_map = "('k \<times> f64) list"

definition accumulate_finite_factor :: "'k sparse_map \<Rightarrow> 'k \<Rightarrow> f64 \<Rightarrow> uuid \<Rightarrow> balance_error + 'k sparse_map" where
  "accumulate_finite_factor factors key v method_id =
     (if \<not> is_finite v then Inl (FactorNotFinite method_id)
      else let sum = unwrap_or (Fin 0) (map_of factors key) + v in
           if \<not> is_finite sum then Inl (FactorOverflow method_id) else Inr (AList.update key sum factors))"

definition retain_sparse_value :: "f64 \<Rightarrow> bool \<Rightarrow> bool" where
  "retain_sparse_value v preserve_sub_epsilon_values =
     (if \<not> is_finite v then False
      else if preserve_sub_epsilon_values then \<not> f64_eq v (Fin 0)
      else F64_EPSILON < \<bar>v\<bar>)"

definition accumulate_biosphere_edge ::
  "(i32 \<times> i32) sparse_map \<Rightarrow> i32 \<times> i32 \<Rightarrow> f64 \<Rightarrow> bool \<Rightarrow> balance_error + (i32 \<times> i32) sparse_map" where
  "accumulate_biosphere_edge b_map key amount preserve =
     (if \<not> retain_sparse_value amount preserve then Inr b_map
      else let sum = unwrap_or (Fin 0) (map_of b_map key) + amount in
           if \<not> is_finite sum then Inl (BiosphereOverflow (fst key) (snd key)) else Inr (AList.update key sum b_map))"

definition add_technosphere_edge :: "(i32 \<times> i32) sparse_map \<Rightarrow> i32 \<Rightarrow> i32 \<Rightarrow> f64 \<Rightarrow> (i32 \<times> i32) sparse_map" where
  "add_technosphere_edge a_map provider_idx consumer_idx amount =
     (if F64_EPSILON < \<bar>amount\<bar>
      then AList.update (provider_idx, consumer_idx)
             (unwrap_or (Fin 0) (map_of a_map (provider_idx, consumer_idx)) + amount) a_map
      else a_map)"

section \<open>Reference ports\<close>

definition signed_flow_direction_of :: "exchange_direction \<Rightarrow> signed_flow_direction" where
  "signed_flow_direction_of d = (case d of ExchangeInput \<Rightarrow> Input | ExchangeOutput \<Rightarrow> Output)"

definition flow_link_identity_of :: "parsed_exchange \<Rightarrow> flow_link_identity" where
  "flow_link_identity_of e = \<lparr>fl_flow_id = ex_flow_id e, fl_flow_version = ex_flow_version e\<rparr>"

definition reference_port_candidate_from_exchange :: "parsed_exchange \<Rightarrow> balance_error + reference_port_candidate" where
  "reference_port_candidate_from_exchange e =
     res_bind (ok_or (ReferenceDirectionUnavailable (ex_exchange_id e)) (ex_direction e)) (\<lambda>direction.
     res_bind (ok_or (ReferenceAmountUnavailable (ex_exchange_id e)) (ex_amount e)) (\<lambda>amount.
     res_bind (map_err SignedFlowError (signed_coefficient (signed_flow_direction_of direction) amount)) (\<lambda>coefficient.
     res_bind (ok_or (RawReferenceAmountUnavailable (ex_exchange_id e)) (ex_raw_amount e)) (\<lambda>raw_amount.
     res_bind (ok_or (RawSignedReferenceUnavailable (ex_exchange_id e)) (ex_signed_raw_coefficient e)) (\<lambda>signed_raw.
     Inr \<lparr>rc_flow_id = ex_flow_id e, rc_flow_version = ex_flow_version e, rc_process_idx = ex_process_idx e,
          rc_reference_exchange_internal_id = ex_internal_id e, rc_coefficient = coefficient,
          rc_raw_direction = direction, rc_raw_amount = raw_amount, rc_signed_raw_coefficient = signed_raw,
          rc_allocation_state = ex_allocation_state e\<rparr>)))))"

definition eligible_balancing_process_indices :: "reference_port_candidate list option \<Rightarrow> f64 \<Rightarrow> i32 list" where
  "eligible_balancing_process_indices ports residual =
     (case ports of
        None \<Rightarrow> []
      | Some ps \<Rightarrow> remdups_adj (map rc_process_idx
          (filter (\<lambda>c. \<not> f64_eq (f64_signum (rc_coefficient c)) (f64_signum residual)) ps)))"

definition compiled_allocation_state :: "allocation_fraction_state \<Rightarrow> provider_output_allocation_state" where
  "compiled_allocation_state s =
     (case s of AllocationPresent \<Rightarrow> OutputPresent | AllocationSparseZero \<Rightarrow> OutputPresent
      | AllocationMissing \<Rightarrow> OutputMissing | AllocationInvalid \<Rightarrow> OutputInvalid)"

definition nonzero_residual_coefficient :: "parsed_exchange \<Rightarrow> f64 option" where
  "nonzero_residual_coefficient e =
     (if ex_is_reference_exchange e \<or> ex_allocation_state e = AllocationInvalid then None
      else Option.bind (ex_direction e) (\<lambda>direction.
           Option.bind (ex_amount e) (\<lambda>amount.
           case signed_coefficient (signed_flow_direction_of direction) amount of
             Inl _ \<Rightarrow> None
           | Inr c \<Rightarrow> if \<not> f64_eq c (Fin 0) then Some c else None)))"

definition no_balancing_reference_failure_reason :: "reference_port_candidate list option \<Rightarrow> provider_failure_reason" where
  "no_balancing_reference_failure_reason ports =
     (case ports of Some (p # ps) \<Rightarrow> NoOppositeSignReference | _ \<Rightarrow> NoProviderCandidates)"

definition compiled_balance_candidate ::
  "process_meta list \<Rightarrow> f64 \<Rightarrow> reference_port_candidate \<Rightarrow> balance_error + compiled_provider_candidate" where
  "compiled_balance_candidate metas residual port =
     res_bind (ok_or (MissingBalancingMeta (rc_process_idx port)) (process_meta_for_idx metas (rc_process_idx port))) (\<lambda>meta.
     Inr \<lparr>cc_provider_idx = rc_process_idx port, cc_provider_id = meta_process_id meta,
          cc_provider_version = meta_process_version meta, cc_model_id = meta_model_id meta,
          cc_model_version = meta_model_version meta,
          cc_output_exchange_internal_id = rc_reference_exchange_internal_id port,
          cc_output_exchange_is_reference = True, cc_output_normalized_amount = Some (rc_raw_amount port),
          cc_output_allocation_state = compiled_allocation_state (rc_allocation_state port),
          cc_eligibility = (if \<not> f64_eq (f64_signum (rc_coefficient port)) (f64_signum residual)
                            then AcceptedOppositeSignReference else RejectedSameSignReference),
          cc_process_name = meta_process_name meta, cc_location = meta_location meta,
          cc_reference_year = meta_reference_year meta,
          cc_annual_supply_or_production_volume = meta_annual_supply_or_production_volume meta,
          cc_reference_exchange_internal_id = rc_reference_exchange_internal_id port,
          cc_reference_coefficient = Some (rc_coefficient port), cc_lineage_relationships = [],
          cc_lineage_rejection_reason = None\<rparr>)"

definition compiled_balance_candidates ::
  "reference_port_candidate list option \<Rightarrow> process_meta list \<Rightarrow> f64 \<Rightarrow> balance_error + compiled_provider_candidate list" where
  "compiled_balance_candidates ports metas residual =
     (case ports of None \<Rightarrow> Inr [] | Some ps \<Rightarrow> try_map (compiled_balance_candidate metas residual) ps)"

definition compiled_process_for_idx :: "compiled_process list \<Rightarrow> i32 \<Rightarrow> compiled_process option" where
  "compiled_process_for_idx processes i = Option.bind (usize_try_from i) (vec_get processes)"

definition i32_of_count :: "nat \<Rightarrow> balance_error + i32" where
  "i32_of_count n = (if int n \<le> i32_max then Inr (int n) else Inl CountOverflow)"

section \<open>The decision for one exchange\<close>

record balance_choice =
  ch_decision_kind :: provider_decision_kind
  ch_resolution_strategy :: "provider_resolution_strategy option"
  ch_failure_reason :: "provider_failure_reason option"
  ch_used_equal_fallback :: bool
  ch_volume_fallback_to_one_count :: i32
  ch_geography_tier :: "geography_tier option"
  ch_allocations :: "compiled_provider_allocation list"

definition failed_choice :: "provider_decision_kind \<Rightarrow> provider_failure_reason \<Rightarrow> balance_choice" where
  "failed_choice kind reason =
     \<lparr>ch_decision_kind = kind, ch_resolution_strategy = None, ch_failure_reason = Some reason,
      ch_used_equal_fallback = False, ch_volume_fallback_to_one_count = 0, ch_geography_tier = None, ch_allocations = []\<rparr>"

definition choose_unique ::
  "process_meta list \<Rightarrow> supply_region_anchor \<Rightarrow> provider_lineage_gate \<Rightarrow> i32 \<Rightarrow> balance_error + balance_choice" where
  "choose_unique metas anchor gate p =
     res_bind (ok_or (MissingBalancingMeta p) (process_meta_for_idx metas p)) (\<lambda>meta.
     Inr \<lparr>ch_decision_kind = UniqueProviderDecision,
          ch_resolution_strategy = Some (if gt_selected_model_result gate \<noteq> None then SelectedModelResultStrategy
                                         else UniqueProviderStrategy),
          ch_failure_reason = None, ch_used_equal_fallback = False, ch_volume_fallback_to_one_count = 0,
          ch_geography_tier = Some (provider_geography_tier (sra_location anchor) (meta_location meta)),
          ch_allocations = [\<lparr>ca_provider_idx = p, ca_weight = Fin 1\<rparr>]\<rparr>)"

definition choose_resolved ::
  "process_meta list \<Rightarrow> supply_region_anchor \<Rightarrow> multi_provider_resolution \<Rightarrow> balance_error + balance_choice" where
  "choose_resolved metas anchor r =
     res_bind (case mr_geography_tier r of
         Some t \<Rightarrow> Inr (Some t)
       | None \<Rightarrow> map_err LinkError (best_geography_tier_for_allocations (sra_location anchor) (mr_allocations r) metas)) (\<lambda>tier.
     Inr \<lparr>ch_decision_kind = MultiResolved, ch_resolution_strategy = Some (mr_resolution_strategy r),
          ch_failure_reason = None, ch_used_equal_fallback = mr_used_equal_fallback r,
          ch_volume_fallback_to_one_count = mr_volume_fallback_to_one_count r, ch_geography_tier = tier,
          ch_allocations = map (\<lambda>(p, w). \<lparr>ca_provider_idx = p, ca_weight = w\<rparr>) (mr_allocations r)\<rparr>)"

text \<open>The statistics are counted as the choice is made.\<close>

definition choose_balance ::
  "provider_rule \<Rightarrow> parsed_exchange \<Rightarrow> process_meta list \<Rightarrow> supply_region_anchor \<Rightarrow> provider_lineage_gate
   \<Rightarrow> reference_port_candidate list option \<Rightarrow> compiled_matching_stats \<Rightarrow> balance_error + (balance_choice \<times> compiled_matching_stats)" where
  "choose_balance rule exchange metas anchor gate ports stats =
     (if gt_unresolved gate
      then Inr (failed_choice MultiUnresolved LineageOverlapRequiresBindingReason,
                stats\<lparr>ms_matched_multi_provider := ms_matched_multi_provider stats + 1,
                      ms_matched_multi_unresolved := ms_matched_multi_unresolved stats + 1\<rparr>)
      else case gt_providers gate of
        [] \<Rightarrow> Inr (failed_choice NoProvider (no_balancing_reference_failure_reason ports),
                   stats\<lparr>ms_unmatched_no_provider := ms_unmatched_no_provider stats + 1\<rparr>)
      | [p] \<Rightarrow> res_bind (choose_unique metas anchor gate p) (\<lambda>choice.
               Inr (choice, stats\<lparr>ms_matched_unique_provider := ms_matched_unique_provider stats + 1\<rparr>))
      | providers \<Rightarrow>
          let stats = stats\<lparr>ms_matched_multi_provider := ms_matched_multi_provider stats + 1\<rparr> in
          res_bind (map_err LinkError (resolve_multi_provider rule exchange providers metas)) (\<lambda>decision.
          case decision of
            Resolved r \<Rightarrow>
              res_bind (choose_resolved metas anchor r) (\<lambda>choice.
              Inr (choice, stats\<lparr>ms_matched_multi_resolved := ms_matched_multi_resolved stats + 1,
                 ms_matched_multi_fallback_equal :=
                   ms_matched_multi_fallback_equal stats + (if mr_used_equal_fallback r then 1 else 0)\<rparr>))
          | Unresolved reason \<Rightarrow>
              Inr (failed_choice MultiUnresolved reason,
                   stats\<lparr>ms_matched_multi_unresolved := ms_matched_multi_unresolved stats + 1\<rparr>)))"

section \<open>Edges of one exchange\<close>

definition select_port ::
  "reference_port_candidate list \<Rightarrow> compiled_provider_allocation
   \<Rightarrow> balance_error + (reference_port_candidate \<times> weighted_reference_port)" where
  "select_port ports allocation =
     res_bind (ok_or (MissingSelectedPort (ca_provider_idx allocation))
       (List.find (\<lambda>port. rc_process_idx port = ca_provider_idx allocation) ports)) (\<lambda>port.
     Inr (port, \<lparr>wp_reference_coefficient = rc_coefficient port, wp_routing_weight = ca_weight allocation\<rparr>))"

definition resolution_of ::
  "parsed_exchange \<Rightarrow> f64 \<Rightarrow> reference_port_candidate \<Rightarrow> weighted_reference_port \<Rightarrow> balance_contribution
   \<Rightarrow> compiled_balance_resolution" where
  "resolution_of exchange residual port weighted contribution =
     \<lparr>br_dependent_process_idx = ex_process_idx exchange,
      br_residual_exchange_internal_id = unwrap_or [] (ex_internal_id exchange),
      br_balancing_process_idx = rc_process_idx port,
      br_balancing_reference_exchange_internal_id = unwrap_or [] (rc_reference_exchange_internal_id port),
      br_flow_id = ex_flow_id exchange, br_flow_version = ex_flow_version exchange,
      br_residual_coefficient = residual, br_reference_coefficient = rc_coefficient port,
      br_routing_weight = wp_routing_weight weighted,
      br_activity_requirement = bc_activity_requirement contribution\<rparr>"

definition release_edge_of :: "parsed_exchange \<Rightarrow> compiled_balance_resolution \<Rightarrow> compiled_release_technosphere_edge" where
  "release_edge_of exchange r =
     \<lparr>re_dependent_process_idx = br_dependent_process_idx r,
      re_residual_exchange_internal_id = br_residual_exchange_internal_id r,
      re_balancing_process_idx = br_balancing_process_idx r,
      re_balancing_reference_exchange_internal_id = br_balancing_reference_exchange_internal_id r,
      re_residual_coefficient = br_residual_coefficient r, re_reference_coefficient = br_reference_coefficient r,
      re_routing_weight = br_routing_weight r, re_activity_requirement = br_activity_requirement r,
      re_flow_id = ex_flow_id exchange, re_flow_version = ex_flow_version exchange, re_location = ex_location exchange\<rparr>"

definition push_edge ::
  "compiled_process list \<Rightarrow> parsed_exchange \<Rightarrow> f64 \<Rightarrow> compiled_process \<Rightarrow> compiled_balance_batch
   \<Rightarrow> (reference_port_candidate \<times> weighted_reference_port) \<times> balance_contribution \<Rightarrow> balance_error + compiled_balance_batch" where
  "push_edge processes exchange residual consumer batch item =
     (case item of ((port, weighted), contribution) \<Rightarrow>
        if f64_eq (bc_activity_requirement contribution) (Fin 0) then Inr batch
        else
        res_bind (ok_or (MissingBalancingProcess (rc_process_idx port)) (compiled_process_for_idx processes (rc_process_idx port)))
          (\<lambda>balancing.
        let resolution = resolution_of exchange residual port weighted contribution in
        Inr (batch\<lparr>bb_technosphere_edges := bb_technosphere_edges batch @
               [\<lparr>te_provider_idx = rc_process_idx port, te_consumer_idx = ex_process_idx exchange,
                 te_flow_id = ex_flow_id exchange, te_amount = bc_activity_requirement contribution,
                 te_provider_partition = cp_partition balancing, te_consumer_partition = cp_partition consumer,
                 te_partition = from_partitions (cp_partition balancing) (cp_partition consumer)\<rparr>],
             bb_release_edges := bb_release_edges batch @ [release_edge_of exchange resolution],
             bb_resolutions := bb_resolutions batch @ [resolution]\<rparr>)))"

definition push_balance ::
  "compiled_process list \<Rightarrow> parsed_exchange \<Rightarrow> f64 \<Rightarrow> reference_port_candidate list option
   \<Rightarrow> compiled_provider_allocation list \<Rightarrow> compiled_balance_batch \<Rightarrow> balance_error + compiled_balance_batch" where
  "push_balance processes exchange residual ports allocations batch =
     res_bind (ok_or NoReferencePortMap ports) (\<lambda>ports.
     res_bind (try_map (select_port ports) allocations) (\<lambda>weighted_ports.
     res_bind (map_err SignedFlowError (resolve_weighted_balance residual (map snd weighted_ports))) (\<lambda>balance.
     let stats = bb_matching_stats batch;
         batch = batch\<lparr>bb_matching_stats := stats\<lparr>
           ms_a_input_edges_written := ms_a_input_edges_written stats + 1,
           ms_a_balance_edges_written := ms_a_balance_edges_written stats + 1\<rparr>\<rparr> in
     res_bind (ok_or (MissingDependentProcess (ex_process_idx exchange)) (compiled_process_for_idx processes (ex_process_idx exchange)))
       (\<lambda>consumer.
     try_fold (push_edge processes exchange residual consumer) batch (zip weighted_ports (sb_contributions balance))))))"

section \<open>The compilation\<close>

text \<open>An ordered set lists the relationships in the order of their declaration.\<close>

definition ordered_relationships :: "provider_lineage_relationship list \<Rightarrow> provider_lineage_relationship list" where
  "ordered_relationships rels =
     filter (\<lambda>r. r \<in> set rels) [ModelResultAndComponent, SelectedAndSupersededModelResult, AlternativeModelResult]"

definition attach_lineage :: "provider_lineage_gate \<Rightarrow> compiled_provider_candidate \<Rightarrow> compiled_provider_candidate" where
  "attach_lineage gate c =
     c\<lparr>cc_lineage_relationships :=
         ordered_relationships (unwrap_or [] (map_of (gt_relationships_by_provider gate) (cc_provider_idx c))),
       cc_lineage_rejection_reason := map_of (gt_rejection_by_provider gate) (cc_provider_idx c)\<rparr>"

definition unresolved_of ::
  "parsed_exchange \<Rightarrow> f64 \<Rightarrow> i32 \<Rightarrow> i32 \<Rightarrow> compiled_unresolved_balance" where
  "unresolved_of exchange residual total_count opposite_count =
     \<lparr>ub_dependent_process_idx = ex_process_idx exchange,
      ub_residual_exchange_internal_id = unwrap_or [] (ex_internal_id exchange),
      ub_flow_id = ex_flow_id exchange, ub_flow_version = ex_flow_version exchange,
      ub_residual_coefficient = residual, ub_required_reference_sign = - f64_signum residual,
      ub_candidate_count = total_count, ub_opposite_sign_candidate_count = opposite_count\<rparr>"

definition decision_of ::
  "parsed_exchange \<Rightarrow> supply_region_anchor \<Rightarrow> i32 \<Rightarrow> i32 \<Rightarrow> compiled_provider_candidate list \<Rightarrow> balance_choice
   \<Rightarrow> compiled_provider_decision" where
  "decision_of exchange anchor candidate_count matched_count candidates choice =
     \<lparr>cd_consumer_idx = ex_process_idx exchange, cd_flow_id = ex_flow_id exchange, cd_flow_version = ex_flow_version exchange,
      cd_candidate_provider_count = candidate_count, cd_matched_provider_count = matched_count,
      cd_candidates = candidates, cd_decision_kind = Some (ch_decision_kind choice),
      cd_resolution_strategy = ch_resolution_strategy choice, cd_failure_reason = ch_failure_reason choice,
      cd_used_equal_fallback = ch_used_equal_fallback choice,
      cd_volume_fallback_to_one_count = ch_volume_fallback_to_one_count choice,
      cd_geography_tier = ch_geography_tier choice, cd_supply_region_source = Some (sra_source anchor),
      cd_supply_region_location = sra_location anchor, cd_exchange_location_present = (ex_location exchange \<noteq> None),
      cd_allocations = ch_allocations choice\<rparr>"

text \<open>One residual exchange that passed the two guards of the loop.\<close>

definition compile_exchange ::
  "(flow_link_identity \<Rightarrow> reference_port_candidate list option) \<Rightarrow> process_meta list \<Rightarrow> compiled_process list
   \<Rightarrow> provider_rule \<Rightarrow> provider_lineage_index \<Rightarrow> compiled_balance_batch \<Rightarrow> parsed_exchange \<Rightarrow> f64
   \<Rightarrow> balance_error + compiled_balance_batch" where
  "compile_exchange port_map metas processes rule lineage batch exchange residual =
     (let stats = bb_matching_stats batch;
          stats = stats\<lparr>ms_input_edges_total := ms_input_edges_total stats + 1,
                       ms_residual_edges_total := ms_residual_edges_total stats + 1\<rparr>;
          ports = port_map (flow_link_identity_of exchange);
          balancing = eligible_balancing_process_indices ports residual in
     res_bind (map_err LinkError (supply_region_anchor_for_exchange exchange metas)) (\<lambda>anchor.
     res_bind (map_err LinkError (apply_provider_lineage_gate balancing metas lineage)) (\<lambda>gate.
     res_bind (compiled_balance_candidates ports metas residual) (\<lambda>candidates.
     res_bind (i32_of_count (length balancing)) (\<lambda>candidate_count.
     res_bind (choose_balance rule exchange metas anchor gate ports stats) (\<lambda>(choice, stats).
     res_bind (i32_of_count (length (ch_allocations choice))) (\<lambda>matched_count.
     let batch = batch\<lparr>bb_matching_stats := stats,
           bb_decisions := bb_decisions batch @
             [decision_of exchange anchor candidate_count matched_count (map (attach_lineage gate) candidates) choice]\<rparr> in
     if ch_allocations choice = []
     then res_bind (i32_of_count (case ports of None \<Rightarrow> 0 | Some ps \<Rightarrow> length ps)) (\<lambda>total_count.
          Inr (batch\<lparr>bb_unresolved := bb_unresolved batch @ [unresolved_of exchange residual total_count candidate_count]\<rparr>))
     else push_balance processes exchange residual ports (ch_allocations choice) batch)))))))"

definition compile_step ::
  "(flow_link_identity \<Rightarrow> compiled_flow_space option) \<Rightarrow> (flow_link_identity \<Rightarrow> reference_port_candidate list option)
   \<Rightarrow> process_meta list \<Rightarrow> compiled_process list \<Rightarrow> provider_rule \<Rightarrow> provider_lineage_index
   \<Rightarrow> compiled_balance_batch \<Rightarrow> parsed_exchange \<Rightarrow> balance_error + compiled_balance_batch" where
  "compile_step space port_map metas processes rule lineage batch exchange =
     (if space (flow_link_identity_of exchange) \<noteq> Some Technosphere then Inr batch
      else case nonzero_residual_coefficient exchange of
        None \<Rightarrow> Inr batch
      | Some residual \<Rightarrow> compile_exchange port_map metas processes rule lineage batch exchange residual)"

definition compile_signed_flow_balances ::
  "parsed_exchange list \<Rightarrow> (flow_link_identity \<Rightarrow> compiled_flow_space option)
   \<Rightarrow> (flow_link_identity \<Rightarrow> reference_port_candidate list option) \<Rightarrow> process_meta list \<Rightarrow> compiled_process list
   \<Rightarrow> provider_rule \<Rightarrow> provider_lineage_index \<Rightarrow> balance_error + compiled_balance_batch" where
  "compile_signed_flow_balances exchanges space port_map metas processes rule lineage =
     try_fold (compile_step space port_map metas processes rule lineage) balance_batch_default exchanges"

section \<open>Statistics\<close>

text \<open>The five outcomes of a choice.\<close>

lemma choose_balance_cases [consumes 1, case_names overlap none unique multi unresolved]:
  assumes "choose_balance rule exchange metas anchor gate ports s = Inr (choice, s')"
  obtains (overlap) "gt_unresolved gate" "choice = failed_choice MultiUnresolved LineageOverlapRequiresBindingReason"
      "s' = s\<lparr>ms_matched_multi_provider := ms_matched_multi_provider s + 1,
               ms_matched_multi_unresolved := ms_matched_multi_unresolved s + 1\<rparr>"
  | (none) "gt_providers gate = []" "choice = failed_choice NoProvider (no_balancing_reference_failure_reason ports)"
      "s' = s\<lparr>ms_unmatched_no_provider := ms_unmatched_no_provider s + 1\<rparr>"
  | (unique) p where "gt_providers gate = [p]" "choose_unique metas anchor gate p = Inr choice"
      "s' = s\<lparr>ms_matched_unique_provider := ms_matched_unique_provider s + 1\<rparr>"
  | (multi) r where "resolve_multi_provider rule exchange (gt_providers gate) metas = Inr (Resolved r)"
      "choose_resolved metas anchor r = Inr choice"
      "s' = s\<lparr>ms_matched_multi_provider := ms_matched_multi_provider s + 1,
               ms_matched_multi_resolved := ms_matched_multi_resolved s + 1,
               ms_matched_multi_fallback_equal := ms_matched_multi_fallback_equal s + (if mr_used_equal_fallback r then 1 else 0)\<rparr>"
  | (unresolved) reason where "resolve_multi_provider rule exchange (gt_providers gate) metas = Inr (Unresolved reason)"
      "choice = failed_choice MultiUnresolved reason"
      "s' = s\<lparr>ms_matched_multi_provider := ms_matched_multi_provider s + 1,
               ms_matched_multi_unresolved := ms_matched_multi_unresolved s + 1\<rparr>"
proof (cases "gt_unresolved gate")
  case True
  with assms show ?thesis by (intro overlap) (auto simp: choose_balance_def)
next
  case False
  note here = assms [unfolded choose_balance_def]
  show ?thesis
  proof (cases "gt_providers gate")
    case Nil
    with here False show ?thesis by (intro none) auto
  next
    case (Cons p ps)
    show ?thesis
    proof (cases ps)
      case Nil
      with here False Cons show ?thesis by (intro unique [of p]) (auto simp: res_simps)
    next
      case (Cons q qs)
      with here False \<open>gt_providers gate = p # ps\<close> obtain decision where
        d: "resolve_multi_provider rule exchange (gt_providers gate) metas = Inr decision"
        and rest: "(case decision of
            Resolved r \<Rightarrow>
              res_bind (choose_resolved metas anchor r) (\<lambda>choice.
              Inr (choice, s\<lparr>ms_matched_multi_provider := ms_matched_multi_provider s + 1,
                 ms_matched_multi_resolved := ms_matched_multi_resolved s + 1,
                 ms_matched_multi_fallback_equal :=
                   ms_matched_multi_fallback_equal s + (if mr_used_equal_fallback r then 1 else 0)\<rparr>))
          | Unresolved reason \<Rightarrow>
              Inr (failed_choice MultiUnresolved reason,
                   s\<lparr>ms_matched_multi_provider := ms_matched_multi_provider s + 1,
                     ms_matched_multi_unresolved := ms_matched_multi_unresolved s + 1\<rparr>)) = Inr (choice, s')"
        by (auto simp: res_simps Let_def)
      show ?thesis
      proof (cases decision)
        case (Resolved r)
        with d rest show ?thesis by (intro multi [of r]) (auto simp: res_simps)
      next
        case (Unresolved reason)
        with d rest show ?thesis by (intro unresolved [of reason]) auto
      qed
    qed
  qed
qed

text \<open>Every decision is unique, multiple or unmatched, and is either written or unresolved.\<close>

definition stats_balanced :: "compiled_balance_batch \<Rightarrow> bool" where
  "stats_balanced b =
     (let s = bb_matching_stats b; n = int (length (bb_decisions b)) in
      ms_input_edges_total s = n \<and> ms_residual_edges_total s = n \<and>
      ms_matched_unique_provider s + ms_matched_multi_provider s + ms_unmatched_no_provider s = n \<and>
      ms_matched_multi_resolved s + ms_matched_multi_unresolved s = ms_matched_multi_provider s \<and>
      ms_matched_multi_fallback_equal s \<le> ms_matched_multi_resolved s \<and>
      ms_a_balance_edges_written s + int (length (bb_unresolved b)) = n \<and>
      ms_a_input_edges_written s = ms_a_balance_edges_written s)"

lemma choose_balance_stats:
  assumes "choose_balance rule exchange metas anchor gate ports s = Inr (choice, s')"
  shows "ms_input_edges_total s' = ms_input_edges_total s \<and> ms_residual_edges_total s' = ms_residual_edges_total s \<and>
    ms_matched_unique_provider s' + ms_matched_multi_provider s' + ms_unmatched_no_provider s' =
      ms_matched_unique_provider s + ms_matched_multi_provider s + ms_unmatched_no_provider s + 1 \<and>
    ms_matched_multi_resolved s' + ms_matched_multi_unresolved s' - ms_matched_multi_provider s' =
      ms_matched_multi_resolved s + ms_matched_multi_unresolved s - ms_matched_multi_provider s \<and>
    ms_matched_multi_resolved s' - ms_matched_multi_fallback_equal s' \<ge> ms_matched_multi_resolved s - ms_matched_multi_fallback_equal s \<and>
    ms_a_balance_edges_written s' = ms_a_balance_edges_written s \<and> ms_a_input_edges_written s' = ms_a_input_edges_written s"
  using assms by (cases rule: choose_balance_cases) simp_all

lemma push_edge_keeps:
  assumes "push_edge processes exchange residual consumer b item = Inr b'"
  shows "bb_matching_stats b' = bb_matching_stats b \<and> bb_decisions b' = bb_decisions b \<and> bb_unresolved b' = bb_unresolved b"
  using assms by (auto simp: push_edge_def res_simps Let_def split: prod.splits if_splits)

lemma push_balance_stats:
  assumes "push_balance processes exchange residual ports allocations b = Inr b'"
  shows "bb_decisions b' = bb_decisions b \<and> bb_unresolved b' = bb_unresolved b \<and>
    bb_matching_stats b' = (bb_matching_stats b)\<lparr>
      ms_a_input_edges_written := ms_a_input_edges_written (bb_matching_stats b) + 1,
      ms_a_balance_edges_written := ms_a_balance_edges_written (bb_matching_stats b) + 1\<rparr>"
proof -
  let ?b = "b\<lparr>bb_matching_stats := (bb_matching_stats b)\<lparr>
      ms_a_input_edges_written := ms_a_input_edges_written (bb_matching_stats b) + 1,
      ms_a_balance_edges_written := ms_a_balance_edges_written (bb_matching_stats b) + 1\<rparr>\<rparr>"
  from assms obtain consumer items where "try_fold (push_edge processes exchange residual consumer) ?b items = Inr b'"
    by (auto simp: push_balance_def res_simps Let_def)
  then have "bb_matching_stats b' = bb_matching_stats ?b \<and> bb_decisions b' = bb_decisions ?b \<and> bb_unresolved b' = bb_unresolved ?b"
    by (rule try_fold_invariant) (auto dest: push_edge_keeps)
  then show ?thesis by simp
qed

lemma i32_of_count_eq: "i32_of_count n = Inr c \<longleftrightarrow> c = int n \<and> int n \<le> i32_max"
  by (auto simp: i32_of_count_def)

text \<open>What one exchange adds to the batch.\<close>

lemma compile_exchangeD:
  assumes "compile_exchange port_map metas processes rule lineage b exchange residual = Inr b'"
  obtains anchor gate candidates count choice s matched b1 where
    "apply_provider_lineage_gate
       (eligible_balancing_process_indices (port_map (flow_link_identity_of exchange)) residual) metas lineage = Inr gate"
    "choose_balance rule exchange metas anchor gate (port_map (flow_link_identity_of exchange))
       ((bb_matching_stats b)\<lparr>ms_input_edges_total := ms_input_edges_total (bb_matching_stats b) + 1,
          ms_residual_edges_total := ms_residual_edges_total (bb_matching_stats b) + 1\<rparr>) = Inr (choice, s)"
    "matched = int (length (ch_allocations choice))"
    "b1 = b\<lparr>bb_matching_stats := s,
            bb_decisions := bb_decisions b @ [decision_of exchange anchor count matched (map (attach_lineage gate) candidates) choice]\<rparr>"
    "(ch_allocations choice = [] \<and> (\<exists>u. b' = b1\<lparr>bb_unresolved := bb_unresolved b1 @ [u]\<rparr>)) \<or>
     (ch_allocations choice \<noteq> [] \<and>
      push_balance processes exchange residual (port_map (flow_link_identity_of exchange)) (ch_allocations choice) b1 = Inr b')"
proof -
  let ?ports = "port_map (flow_link_identity_of exchange)"
  let ?balancing = "eligible_balancing_process_indices ?ports residual"
  let ?stats = "(bb_matching_stats b)\<lparr>ms_input_edges_total := ms_input_edges_total (bb_matching_stats b) + 1,
          ms_residual_edges_total := ms_residual_edges_total (bb_matching_stats b) + 1\<rparr>"
  from assms obtain anchor gate candidates count choice s matched where
    gate: "apply_provider_lineage_gate ?balancing metas lineage = Inr gate"
    and choice: "choose_balance rule exchange metas anchor gate ?ports ?stats = Inr (choice, s)"
    and matched: "matched = int (length (ch_allocations choice))"
    and rest: "(let b1 = b\<lparr>bb_matching_stats := s,
            bb_decisions := bb_decisions b @ [decision_of exchange anchor count matched (map (attach_lineage gate) candidates) choice]\<rparr> in
     if ch_allocations choice = []
     then res_bind (i32_of_count (case ?ports of None \<Rightarrow> 0 | Some ps \<Rightarrow> length ps)) (\<lambda>total_count.
          Inr (b1\<lparr>bb_unresolved := bb_unresolved b1 @ [unresolved_of exchange residual total_count count]\<rparr>))
     else push_balance processes exchange residual ?ports (ch_allocations choice) b1) = Inr b'"
    unfolding compile_exchange_def Let_def by (auto simp: res_simps i32_of_count_eq)
  from rest have "(ch_allocations choice = [] \<and> (\<exists>u. b' = b\<lparr>bb_matching_stats := s,
            bb_decisions := bb_decisions b @ [decision_of exchange anchor count matched (map (attach_lineage gate) candidates) choice],
            bb_unresolved := bb_unresolved b @ [u]\<rparr>)) \<or>
     (ch_allocations choice \<noteq> [] \<and> push_balance processes exchange residual ?ports (ch_allocations choice) (b\<lparr>bb_matching_stats := s,
            bb_decisions := bb_decisions b @ [decision_of exchange anchor count matched (map (attach_lineage gate) candidates) choice]\<rparr>) = Inr b')"
    by (auto simp: res_simps Let_def split: if_splits)
  then show thesis by (intro that [OF gate choice matched refl]) auto
qed

lemma compile_exchange_stats:
  assumes "compile_exchange port_map metas processes rule lineage b exchange residual = Inr b'" "stats_balanced b"
  shows "stats_balanced b'"
  using assms(1)
proof (rule compile_exchangeD)
  fix anchor gate candidates count choice s matched b1
  assume choice: "choose_balance rule exchange metas anchor gate (port_map (flow_link_identity_of exchange))
       ((bb_matching_stats b)\<lparr>ms_input_edges_total := ms_input_edges_total (bb_matching_stats b) + 1,
          ms_residual_edges_total := ms_residual_edges_total (bb_matching_stats b) + 1\<rparr>) = Inr (choice, s)"
    and b1: "b1 = b\<lparr>bb_matching_stats := s,
            bb_decisions := bb_decisions b @ [decision_of exchange anchor count matched (map (attach_lineage gate) candidates) choice]\<rparr>"
    and cases: "(ch_allocations choice = [] \<and> (\<exists>u. b' = b1\<lparr>bb_unresolved := bb_unresolved b1 @ [u]\<rparr>)) \<or>
     (ch_allocations choice \<noteq> [] \<and>
      push_balance processes exchange residual (port_map (flow_link_identity_of exchange)) (ch_allocations choice) b1 = Inr b')"
  note s = choose_balance_stats [OF choice]
  from cases show ?thesis
  proof (elim disjE conjE exE)
    fix u assume "b' = b1\<lparr>bb_unresolved := bb_unresolved b1 @ [u]\<rparr>"
    with s assms(2) b1 show ?thesis by (simp add: stats_balanced_def Let_def)
  next
    assume "push_balance processes exchange residual (port_map (flow_link_identity_of exchange)) (ch_allocations choice) b1 = Inr b'"
    from push_balance_stats [OF this] s assms(2) b1 show ?thesis by (simp add: stats_balanced_def Let_def)
  qed
qed

text \<open>
  The statistics of a compilation account for every decision: each residual exchange is counted once and
  is unique, multiple or unmatched; a multiple one is resolved or not; and each decision either wrote its
  balance or is listed as unresolved.
\<close>

theorem compilation_accounts_for_residuals:
  assumes "compile_signed_flow_balances exchanges space port_map metas processes rule lineage = Inr batch"
  shows "stats_balanced batch"
  using assms unfolding compile_signed_flow_balances_def
proof (rule try_fold_invariant)
  show "stats_balanced balance_batch_default"
    by (simp add: stats_balanced_def balance_batch_default_def matching_stats_default_def)
next
  fix b e b' assume "stats_balanced b" "compile_step space port_map metas processes rule lineage b e = Inr b'"
  then show "stats_balanced b'"
    by (auto simp: compile_step_def split: if_splits option.splits dest: compile_exchange_stats)
qed

section \<open>Decisions\<close>

text \<open>
  A decision is sound when it fails exactly if nothing is allocated, its weights are shares, and the
  providers it combines do not overlap in their model lineage.
\<close>

definition allocations_sound ::
  "process_meta list \<Rightarrow> provider_lineage_index \<Rightarrow> compiled_provider_allocation list \<Rightarrow> bool" where
  "allocations_sound metas lineage allocations =
     (list_all (\<lambda>a. is_finite (ca_weight a) \<and> Fin 0 \<le> ca_weight a \<and> ca_weight a \<le> Fin 1) allocations \<and>
      list_all (\<lambda>a. list_all (\<lambda>b. ca_provider_idx a = ca_provider_idx b \<or>
        \<not> overlapping lineage (lineage_identity metas (ca_provider_idx a)) (lineage_identity metas (ca_provider_idx b)))
        allocations) allocations)"

definition decision_sound :: "process_meta list \<Rightarrow> provider_lineage_index \<Rightarrow> compiled_provider_decision \<Rightarrow> bool" where
  "decision_sound metas lineage d =
     ((cd_allocations d = [] \<longleftrightarrow> cd_failure_reason d \<noteq> None) \<and>
      (cd_resolution_strategy d = None \<longleftrightarrow> cd_failure_reason d \<noteq> None) \<and>
      cd_matched_provider_count d = int (length (cd_allocations d)) \<and>
      allocations_sound metas lineage (cd_allocations d))"

lemma choose_balanceD:
  assumes "choose_balance rule exchange metas anchor gate ports s = Inr (choice, s')" "machine_volumes metas"
  shows "(ch_allocations choice = [] \<longleftrightarrow> ch_failure_reason choice \<noteq> None) \<and>
    (ch_resolution_strategy choice = None \<longleftrightarrow> ch_failure_reason choice \<noteq> None) \<and>
    set (map ca_provider_idx (ch_allocations choice)) \<subseteq> set (gt_providers gate) \<and>
    list_all (\<lambda>a. proper_share (ca_weight a)) (ch_allocations choice)"
  using assms(1)
proof (cases rule: choose_balance_cases)
  case (multi r)
  have "routes_within (gt_providers gate) r" by (rule resolution_routes [OF multi(1) assms(2)])
  moreover from multi(2) have "map ca_provider_idx (ch_allocations choice) = map fst (mr_allocations r)"
    "list_all (\<lambda>(p, w). proper_share w) (mr_allocations r) \<longrightarrow> list_all (\<lambda>a. proper_share (ca_weight a)) (ch_allocations choice)"
    "ch_failure_reason choice = None" "ch_resolution_strategy choice \<noteq> None"
    by (auto simp: choose_resolved_def res_simps list.pred_map comp_def case_prod_unfold)
  ultimately show ?thesis by (auto simp: routes_within_def)
next
  case (unique p)
  moreover have "proper_share (Fin 1)" using proper_lit [of 1] by (simp add: f64_lit_def)
  ultimately show ?thesis by (auto simp: choose_unique_def res_simps)
qed (auto simp: failed_choice_def)

lemma choice_allocations_sound:
  assumes "apply_provider_lineage_gate providers metas lineage = Inr gate"
    and "choose_balance rule exchange metas anchor gate ports s = Inr (choice, s')" "machine_volumes metas"
  shows "allocations_sound metas lineage (ch_allocations choice)"
  using choose_balanceD [OF assms(2,3)] gate_disjoint [OF assms(1)]
  by (fastforce simp: allocations_sound_def list_all_iff proper_share_def)

lemma compile_exchange_decisions:
  assumes "compile_exchange port_map metas processes rule lineage b exchange residual = Inr b'"
    and "machine_volumes metas" "list_all (decision_sound metas lineage) (bb_decisions b)"
  shows "list_all (decision_sound metas lineage) (bb_decisions b')"
  using assms(1)
proof (rule compile_exchangeD)
  fix anchor gate candidates candidate_count choice s matched b1
  let ?ports = "port_map (flow_link_identity_of exchange)"
  let ?d = "decision_of exchange anchor candidate_count matched (map (attach_lineage gate) candidates) choice"
  assume gate: "apply_provider_lineage_gate (eligible_balancing_process_indices ?ports residual) metas lineage = Inr gate"
    and choice: "choose_balance rule exchange metas anchor gate ?ports
       ((bb_matching_stats b)\<lparr>ms_input_edges_total := ms_input_edges_total (bb_matching_stats b) + 1,
          ms_residual_edges_total := ms_residual_edges_total (bb_matching_stats b) + 1\<rparr>) = Inr (choice, s)"
    and matched: "matched = int (length (ch_allocations choice))"
    and b1: "b1 = b\<lparr>bb_matching_stats := s, bb_decisions := bb_decisions b @ [?d]\<rparr>"
    and cases: "(ch_allocations choice = [] \<and> (\<exists>u. b' = b1\<lparr>bb_unresolved := bb_unresolved b1 @ [u]\<rparr>)) \<or>
     (ch_allocations choice \<noteq> [] \<and> push_balance processes exchange residual ?ports (ch_allocations choice) b1 = Inr b')"
  have "decision_sound metas lineage ?d"
    using choose_balanceD [OF choice assms(2)] choice_allocations_sound [OF gate choice assms(2)] matched
    by (simp add: decision_sound_def decision_of_def)
  moreover have "bb_decisions b' = bb_decisions b @ [?d]"
    using cases b1 by (auto dest: push_balance_stats)
  ultimately show ?thesis using assms(3) by simp
qed

text \<open>
  C4. No decision of the compilation counts a product twice: the providers an exchange is routed to never
  overlap in model lineage (a model result and its component, or two results of one model), each weight is a
  share between 0 and 1, and an exchange without allocation always carries the reason of its failure.
\<close>

theorem compilation_decisions_sound:
  assumes "compile_signed_flow_balances exchanges space port_map metas processes rule lineage = Inr batch"
    and "machine_volumes metas"
  shows "list_all (decision_sound metas lineage) (bb_decisions batch)"
  using assms(1) unfolding compile_signed_flow_balances_def
proof (rule try_fold_invariant)
  show "list_all (decision_sound metas lineage) (bb_decisions balance_batch_default)"
    by (simp add: balance_batch_default_def)
next
  fix b e b'
  assume "list_all (decision_sound metas lineage) (bb_decisions b)" "compile_step space port_map metas processes rule lineage b e = Inr b'"
  then show "list_all (decision_sound metas lineage) (bb_decisions b')"
    by (auto simp: compile_step_def split: if_splits option.splits dest: compile_exchange_decisions [OF _ assms(2)])
qed

section \<open>Edges\<close>

text \<open>
  An edge with its resolution comes from a residual exchange and a reference port of the same flow with the
  opposite sign; its amount is the positive finite activity that balances the routed share of the residual.
\<close>

definition edge_origin ::
  "(flow_link_identity \<Rightarrow> reference_port_candidate list option) \<Rightarrow> parsed_exchange list \<Rightarrow> compiled_balance_resolution \<Rightarrow> bool" where
  "edge_origin port_map exchanges r =
     list_ex (\<lambda>e. ex_process_idx e = br_dependent_process_idx r \<and> ex_flow_id e = br_flow_id r \<and>
       nonzero_residual_coefficient e = Some (br_residual_coefficient r) \<and>
       (case port_map (flow_link_identity_of e) of
          None \<Rightarrow> False
        | Some ports \<Rightarrow> list_ex (\<lambda>port. rc_process_idx port = br_balancing_process_idx r \<and>
            rc_coefficient port = br_reference_coefficient r) ports)) exchanges"

definition edge_sound :: "compiled_technosphere_edge \<Rightarrow> compiled_balance_resolution \<Rightarrow> bool" where
  "edge_sound edge r =
     (te_provider_idx edge = br_balancing_process_idx r \<and> te_consumer_idx edge = br_dependent_process_idx r \<and>
      te_flow_id edge = br_flow_id r \<and> te_amount edge = br_activity_requirement r \<and>
      te_partition edge = from_partitions (te_provider_partition edge) (te_consumer_partition edge) \<and>
      is_finite (te_amount edge) \<and> Fin 0 < te_amount edge \<and>
      te_amount edge = f64_div (- br_residual_coefficient r) (br_reference_coefficient r) * br_routing_weight r \<and>
      f64_val (br_residual_coefficient r) * f64_val (br_reference_coefficient r) < 0)"

definition edges_sound ::
  "(flow_link_identity \<Rightarrow> reference_port_candidate list option) \<Rightarrow> parsed_exchange list \<Rightarrow> compiled_balance_batch \<Rightarrow> bool" where
  "edges_sound port_map exchanges b =
     (list_all2 edge_sound (bb_technosphere_edges b) (bb_resolutions b) \<and>
      list_all (edge_origin port_map exchanges) (bb_resolutions b) \<and>
      map re_activity_requirement (bb_release_edges b) = map br_activity_requirement (bb_resolutions b))"

lemma nonzero_residualD: "nonzero_residual_coefficient e = Some r \<Longrightarrow> \<not> f64_eq r (Fin 0)"
  by (cases "ex_direction e"; cases "ex_amount e")
     (auto simp: nonzero_residual_coefficient_def split: if_splits sum.splits)

lemma contribution_activity: "bc_activity_requirement (contribution_of residual p) = port_activity residual p"
  by (simp add: contribution_of_def)

lemma positive_activity: "\<lbrakk>Fin 0 \<le> v; is_finite v; \<not> f64_eq v (Fin 0)\<rbrakk> \<Longrightarrow> Fin 0 < (v :: f64)"
  by (cases v) (auto simp: less_eq_f64_def less_f64_def f64_le_simps f64_eq_def f64_is_zero_def)

lemma push_edge_sound:
  assumes "push_edge processes exchange residual consumer b ((port, weighted), contribution_of residual weighted) = Inr b'"
    and "exchange \<in> set exchanges" "nonzero_residual_coefficient exchange = Some residual"
    and "port_map (flow_link_identity_of exchange) = Some ports" "port \<in> set ports"
    and "wp_reference_coefficient weighted = rc_coefficient port"
    and "f64_val residual * f64_val (rc_coefficient port) < 0"
    and "is_finite (port_activity residual weighted)" "Fin 0 \<le> port_activity residual weighted"
    and "edges_sound port_map exchanges b"
  shows "edges_sound port_map exchanges b'"
proof (cases "f64_eq (port_activity residual weighted) (Fin 0)")
  case True
  with assms(1,10) show ?thesis by (simp add: push_edge_def contribution_of_def)
next
  case False
  let ?r = "resolution_of exchange residual port weighted (contribution_of residual weighted)"
  have "edge_origin port_map exchanges ?r"
    unfolding edge_origin_def list_ex_iff using assms(2-5)
    by (intro bexI [of _ exchange]) (auto simp: resolution_of_def list_ex_iff)
  moreover have "Fin 0 < port_activity residual weighted" using assms(8,9) False by (intro positive_activity)
  ultimately have new: "edge_origin port_map exchanges ?r" "Fin 0 < port_activity residual weighted" by auto
  from assms(1) False obtain balancing :: compiled_process where
    b': "b' = b\<lparr>bb_technosphere_edges := bb_technosphere_edges b @
               [\<lparr>te_provider_idx = rc_process_idx port, te_consumer_idx = ex_process_idx exchange,
                 te_flow_id = ex_flow_id exchange, te_amount = port_activity residual weighted,
                 te_provider_partition = cp_partition balancing, te_consumer_partition = cp_partition consumer,
                 te_partition = from_partitions (cp_partition balancing) (cp_partition consumer)\<rparr>],
             bb_release_edges := bb_release_edges b @ [release_edge_of exchange ?r],
             bb_resolutions := bb_resolutions b @ [?r]\<rparr>" (is "_ = b\<lparr>bb_technosphere_edges := _ @ [?e], bb_release_edges := _, bb_resolutions := _\<rparr>")
    by (auto simp: push_edge_def res_simps Let_def contribution_activity)
  have "edge_sound ?e ?r"
    using new(2) assms(6-8) by (simp add: edge_sound_def resolution_of_def contribution_of_def port_activity_def)
  with assms(10) new(1) show ?thesis
    by (simp add: b' edges_sound_def list_all2_appendI release_edge_of_def)
qed

lemma push_balance_sound:
  assumes "push_balance processes exchange residual (port_map (flow_link_identity_of exchange)) allocations b = Inr b'"
    and "exchange \<in> set exchanges" "nonzero_residual_coefficient exchange = Some residual"
    and "edges_sound port_map exchanges b"
  shows "edges_sound port_map exchanges b'"
proof -
  let ?b = "b\<lparr>bb_matching_stats := (bb_matching_stats b)\<lparr>
      ms_a_input_edges_written := ms_a_input_edges_written (bb_matching_stats b) + 1,
      ms_a_balance_edges_written := ms_a_balance_edges_written (bb_matching_stats b) + 1\<rparr>\<rparr>"
  from assms(1) obtain ports weighted_ports balance consumer where
    ports: "port_map (flow_link_identity_of exchange) = Some ports"
    and selected: "list_all2 (\<lambda>a w. select_port ports a = Inr w) allocations weighted_ports"
    and balance: "resolve_weighted_balance residual (map snd weighted_ports) = Inr balance"
    and fold: "try_fold (push_edge processes exchange residual consumer) ?b (zip weighted_ports (sb_contributions balance)) = Inr b'"
    by (auto simp: push_balance_def res_simps Let_def try_map_eq_Inr)
  note D = resolve_weighted_balanceD [OF balance nonzero_residualD [OF assms(3)]]
  have port: "port \<in> set ports \<and> wp_reference_coefficient w = rc_coefficient port" if "(port, w) \<in> set weighted_ports" for port w
  proof -
    from selected that obtain a where "select_port ports a = Inr (port, w)"
      by (auto simp: list_all2_conv_all_nth in_set_conv_nth)
    then show ?thesis by (auto simp: select_port_def res_simps find_Some_iff)
  qed
  show ?thesis
    using fold
  proof (rule try_fold_invariant)
    show "edges_sound port_map exchanges ?b" using assms(4) by (simp add: edges_sound_def)
  next
    fix b item b'
    assume "item \<in> set (zip weighted_ports (sb_contributions balance))" and b: "edges_sound port_map exchanges b"
      and step: "push_edge processes exchange residual consumer b item = Inr b'"
    then obtain port w where item: "item = ((port, w), contribution_of residual w)" and mem: "(port, w) \<in> set weighted_ports"
      using D by (auto simp: zip_map2 zip_same_conv_map)
    from D mem port [OF mem] have "f64_val residual * f64_val (rc_coefficient port) < 0"
        "is_finite (port_activity residual w)" "Fin 0 \<le> port_activity residual w"
      by force+
    with step [unfolded item] assms(2,3) ports port [OF mem] b show "edges_sound port_map exchanges b'"
      by (intro push_edge_sound [of processes exchange residual consumer b port w b']) auto
  qed
qed

lemma compile_exchange_edges:
  assumes "compile_exchange port_map metas processes rule lineage b exchange residual = Inr b'"
    and "exchange \<in> set exchanges" "nonzero_residual_coefficient exchange = Some residual" "edges_sound port_map exchanges b"
  shows "edges_sound port_map exchanges b'"
  using assms(1)
proof (rule compile_exchangeD)
  fix anchor gate candidates candidate_count choice s matched b1
  assume b1: "b1 = b\<lparr>bb_matching_stats := s, bb_decisions := bb_decisions b @
        [decision_of exchange anchor candidate_count matched (map (attach_lineage gate) candidates) choice]\<rparr>"
    and cases: "(ch_allocations choice = [] \<and> (\<exists>u. b' = b1\<lparr>bb_unresolved := bb_unresolved b1 @ [u]\<rparr>)) \<or>
     (ch_allocations choice \<noteq> [] \<and>
      push_balance processes exchange residual (port_map (flow_link_identity_of exchange)) (ch_allocations choice) b1 = Inr b')"
  from b1 assms(4) have "edges_sound port_map exchanges b1" by (simp add: edges_sound_def)
  with cases assms(2,3) show ?thesis by (auto simp: edges_sound_def dest: push_balance_sound)
qed

text \<open>
  C2. Every technosphere edge is justified: it comes with a resolution, originates in a residual exchange and
  a reference port of the same versioned flow with the opposite sign, and its amount is positive, finite and
  exactly the computed activity \<open>(- residual / reference) * weight\<close>; an exchange that stays unresolved writes none.
\<close>

theorem compilation_edges_sound:
  assumes "compile_signed_flow_balances exchanges space port_map metas processes rule lineage = Inr batch"
  shows "list_all2 edge_sound (bb_technosphere_edges batch) (bb_resolutions batch) \<and>
         list_all (edge_origin port_map exchanges) (bb_resolutions batch) \<and>
         map re_activity_requirement (bb_release_edges batch) = map br_activity_requirement (bb_resolutions batch)"
proof -
  have "edges_sound port_map exchanges batch"
    using assms unfolding compile_signed_flow_balances_def
  proof (rule try_fold_invariant)
    show "edges_sound port_map exchanges balance_batch_default"
      by (simp add: edges_sound_def balance_batch_default_def)
  next
    fix b e b'
    assume "e \<in> set exchanges" "edges_sound port_map exchanges b" "compile_step space port_map metas processes rule lineage b e = Inr b'"
    then show "edges_sound port_map exchanges b'"
      by (auto simp: compile_step_def split: if_splits option.splits dest: compile_exchange_edges)
  qed
  then show ?thesis by (simp add: edges_sound_def)
qed

section \<open>Sparse matrices\<close>

text \<open>Accumulation keeps the keys distinct and every stored factor finite.\<close>

definition sparse_wf :: "'k sparse_map \<Rightarrow> bool" where
  "sparse_wf m = (distinct (map fst m) \<and> list_all (\<lambda>(k, v). is_finite v) m)"

lemma sparse_wf_update: "sparse_wf m \<Longrightarrow> is_finite v \<Longrightarrow> sparse_wf (AList.update k v m)"
proof -
  have "list_all (\<lambda>(k, v). is_finite v) (AList.update k v m)" if "list_all (\<lambda>(k, v). is_finite v) m" "is_finite v"
    using that by (induction m) auto
  then show "sparse_wf m \<Longrightarrow> is_finite v \<Longrightarrow> sparse_wf (AList.update k v m)"
    by (simp add: sparse_wf_def distinct_update)
qed

text \<open>
  The accumulation of biosphere entries never stores a value that is not finite: it
  either keeps the map well formed and adds the amount to the entry of its key only, or it reports an error.
\<close>

theorem accumulation_stays_finite:
  assumes "sparse_wf m" "accumulate_biosphere_edge m key amount preserve = Inr m'"
  shows "sparse_wf m' \<and> (\<forall>k. k \<noteq> key \<longrightarrow> map_of m' k = map_of m k) \<and>
         map_of m' key = (if retain_sparse_value amount preserve
                          then Some (unwrap_or (Fin 0) (map_of m key) + amount) else map_of m key)"
  using assms sparse_wf_update
  by (auto simp: accumulate_biosphere_edge_def Let_def update_conv' split: if_splits)

section \<open>Witnesses\<close>

definition example_port :: "i32 \<Rightarrow> f64 \<Rightarrow> reference_port_candidate" where
  "example_port p c =
     \<lparr>rc_flow_id = ''f'', rc_flow_version = ''01.00.000'', rc_process_idx = p, rc_reference_exchange_internal_id = Some ''0'',
      rc_coefficient = c, rc_raw_direction = ExchangeOutput, rc_raw_amount = c, rc_signed_raw_coefficient = c,
      rc_allocation_state = AllocationMissing\<rparr>"

definition example_port_map :: "flow_link_identity \<Rightarrow> reference_port_candidate list option" where
  "example_port_map f = (if fl_flow_id f = ''f'' then Some [example_port 1 (Fin 1), example_port 2 (Fin 4)] else None)"

definition example_compiled_process :: "i32 \<Rightarrow> scope_process_partition \<Rightarrow> compiled_process" where
  "example_compiled_process i p =
     \<lparr>cp_process_idx = i, cp_process_id = ''p'', cp_process_version = ''01.00.000'', cp_process_name = None, cp_model_id = None,
      cp_model_version = None, cp_location = None, cp_reference_year = None, cp_annual_supply_or_production_volume = None,
      cp_partition = p\<rparr>"

definition example_processes :: "compiled_process list" where
  "example_processes = [example_compiled_process 0 Private, example_compiled_process 1 Public, example_compiled_process 2 Public]"

definition empty_lineage :: provider_lineage_index where
  "empty_lineage = \<lparr>li_model_components = [], li_result_models = [], li_component_models = [], li_selected_results = []\<rparr>"

definition example_compilation :: "balance_error + compiled_balance_batch" where
  "example_compilation =
     compile_signed_flow_balances [example_exchange] (\<lambda>_. Some Technosphere) example_port_map example_metas example_processes
       SplitEqual empty_lineage"

lemma example_eligible:
  "eligible_balancing_process_indices (example_port_map (flow_link_identity_of example_exchange)) (Fin (- 2)) = [1, 2]"
  by code_simp

lemma example_residual: "nonzero_residual_coefficient example_exchange = Some (Fin (- 2))"
  by code_simp

lemma example_anchor:
  "supply_region_anchor_for_exchange example_exchange example_metas = Inr \<lparr>sra_source = ConsumerProcessLocation, sra_location = Some ''CN''\<rparr>"
  by code_simp

lemma example_gate:
  "apply_provider_lineage_gate [1, 2] example_metas empty_lineage = Inr \<lparr>gt_providers = [1, 2], gt_relationships_by_provider = [],
      gt_rejection_by_provider = [], gt_selected_model_result = None, gt_unresolved = False\<rparr>"
  by code_simp

lemma example_candidates:
  "is_ok (compiled_balance_candidates (example_port_map (flow_link_identity_of example_exchange)) example_metas (Fin (- 2)))"
  by code_simp

lemma example_decision:
  "resolve_multi_provider SplitEqual example_exchange [1, 2] example_metas =
     Inr (Resolved (plain_resolution [(1, Fin (1 / 2)), (2, Fin (1 / 2))] SplitEqualStrategy False))"
  by code_simp

lemma example_tier:
  "best_geography_tier_for_allocations (Some ''CN'') [(1, Fin (1 / 2)), (2, Fin (1 / 2))] example_metas = Inr (Some SameCountry)"
  by code_simp

lemma example_balance:
  "resolve_weighted_balance (Fin (- 2))
     [\<lparr>wp_reference_coefficient = Fin 1, wp_routing_weight = Fin (1 / 2)\<rparr>, \<lparr>wp_reference_coefficient = Fin 4, wp_routing_weight = Fin (1 / 2)\<rparr>] =
   Inr \<lparr>sb_residual_coefficient = Fin (- 2), sb_contributions =
      [\<lparr>bc_reference_coefficient = Fin 1, bc_routing_weight = Fin (1 / 2), bc_activity_requirement = Fin 1\<rparr>,
       \<lparr>bc_reference_coefficient = Fin 4, bc_routing_weight = Fin (1 / 2), bc_activity_requirement = Fin (1 / 4)\<rparr>],
     sb_closure_residual = Fin 0\<rparr>"
  by code_simp

lemma example_facts:
  "compiled_process_for_idx example_processes 0 = Some (example_compiled_process 0 Private)"
  "compiled_process_for_idx example_processes 1 = Some (example_compiled_process 1 Public)"
  "compiled_process_for_idx example_processes 2 = Some (example_compiled_process 2 Public)"
  "i32_of_count 1 = Inr 1" "i32_of_count (Suc (Suc 0)) = Inr 2" "ex_process_idx example_exchange = 0"
  "example_port_map (flow_link_identity_of example_exchange) = Some [example_port 1 (Fin 1), example_port 2 (Fin 4)]"
  "rc_process_idx (example_port p c) = p" "rc_coefficient (example_port p c) = c" "cp_partition (example_compiled_process i q) = q"
  "f64_eq (Fin 1) (Fin 0) = False" "f64_eq (Fin (1 / 4)) (Fin 0) = False"
  by (code_simp | simp add: example_port_def example_process_def f64_eq_def f64_is_zero_def)+

lemma example_push:
  "\<exists>b'. push_balance example_processes example_exchange (Fin (- 2)) (Some [example_port 1 (Fin 1), example_port 2 (Fin 4)])
   [\<lparr>ca_provider_idx = 1, ca_weight = Fin (1 / 2)\<rparr>, \<lparr>ca_provider_idx = 2, ca_weight = Fin (1 / 2)\<rparr>] b = Inr b' \<and>
   map te_amount (bb_technosphere_edges b') = map te_amount (bb_technosphere_edges b) @ [Fin 1, Fin (1 / 4)]"
  by (simp add: push_balance_def select_port_def example_balance example_facts push_edge_def Let_def)

lemma example_choice:
  "\<exists>choice s'. choose_balance SplitEqual example_exchange example_metas
     \<lparr>sra_source = ConsumerProcessLocation, sra_location = Some ''CN''\<rparr>
     \<lparr>gt_providers = [1, 2], gt_relationships_by_provider = [],
      gt_rejection_by_provider = [], gt_selected_model_result = None, gt_unresolved = False\<rparr>
     ports s = Inr (choice, s') \<and> ch_allocations choice = [\<lparr>ca_provider_idx = 1, ca_weight = Fin (1 / 2)\<rparr>, \<lparr>ca_provider_idx = 2, ca_weight = Fin (1 / 2)\<rparr>]"
  by (simp add: choose_balance_def example_decision choose_resolved_def plain_resolution_def example_tier)

lemma example_compilation_ok:
  obtains batch where "example_compilation = Inr batch"
    "map te_amount (bb_technosphere_edges batch) = [Fin 1, Fin (1 / 4)]"
proof -
  obtain candidates where c: "compiled_balance_candidates (Some [example_port 1 (Fin 1), example_port 2 (Fin 4)]) example_metas (Fin (- 2)) = Inr candidates"
    using example_candidates example_facts(7) by (auto simp: is_ok_iff)
  let ?s = "matching_stats_default\<lparr>ms_input_edges_total := ms_input_edges_total matching_stats_default + 1,
          ms_residual_edges_total := ms_residual_edges_total matching_stats_default + 1\<rparr>"
  obtain choice s where f: "choose_balance SplitEqual example_exchange example_metas
     \<lparr>sra_source = ConsumerProcessLocation, sra_location = Some ''CN''\<rparr>
     \<lparr>gt_providers = [1, 2], gt_relationships_by_provider = [],
      gt_rejection_by_provider = [], gt_selected_model_result = None, gt_unresolved = False\<rparr>
     (Some [example_port 1 (Fin 1), example_port 2 (Fin 4)]) ?s = Inr (choice, s)"
     "ch_allocations choice = [\<lparr>ca_provider_idx = 1, ca_weight = Fin (1 / 2)\<rparr>, \<lparr>ca_provider_idx = 2, ca_weight = Fin (1 / 2)\<rparr>]"
    using example_choice by blast
  have "\<exists>b. compile_exchange example_port_map example_metas example_processes SplitEqual empty_lineage
      balance_batch_default example_exchange (Fin (- 2)) =
    push_balance example_processes example_exchange (Fin (- 2)) (Some [example_port 1 (Fin 1), example_port 2 (Fin 4)])
      [\<lparr>ca_provider_idx = 1, ca_weight = Fin (1 / 2)\<rparr>, \<lparr>ca_provider_idx = 2, ca_weight = Fin (1 / 2)\<rparr>] b \<and> bb_technosphere_edges b = []"
    using f example_eligible [unfolded example_facts(7)]
    by (simp add: compile_exchange_def example_anchor example_gate c Let_def balance_batch_default_def example_facts) (intro exI conjI, rule refl, simp)
  then obtain b where b: "compile_exchange example_port_map example_metas example_processes SplitEqual empty_lineage
      balance_batch_default example_exchange (Fin (- 2)) =
    push_balance example_processes example_exchange (Fin (- 2)) (Some [example_port 1 (Fin 1), example_port 2 (Fin 4)])
      [\<lparr>ca_provider_idx = 1, ca_weight = Fin (1 / 2)\<rparr>, \<lparr>ca_provider_idx = 2, ca_weight = Fin (1 / 2)\<rparr>] b"
     "bb_technosphere_edges b = []" by blast
  from example_push [of b] b that show thesis
    by (auto simp: example_compilation_def compile_signed_flow_balances_def compile_step_def example_residual)
qed

lemma compilation_accounts_for_residuals_witness:
  "\<exists>batch. example_compilation = Inr batch \<and> length (bb_technosphere_edges batch) = 2 \<and> stats_balanced batch"
proof (rule example_compilation_ok)
  fix batch assume b: "example_compilation = Inr batch" "map te_amount (bb_technosphere_edges batch) = [Fin 1, Fin (1 / 4)]"
  have "stats_balanced batch" by (rule compilation_accounts_for_residuals [OF b(1) [unfolded example_compilation_def]])
  moreover have "length (map te_amount (bb_technosphere_edges batch)) = 2" by (simp add: b(2))
  ultimately show ?thesis using b(1) by (intro exI [of _ batch]) simp
qed

lemma compilation_decisions_sound_witness:
  "\<exists>batch. example_compilation = Inr batch \<and> map te_amount (bb_technosphere_edges batch) = [Fin 1, Fin (1 / 4)] \<and>
     list_all (decision_sound example_metas empty_lineage) (bb_decisions batch)"
proof (rule example_compilation_ok)
  fix batch assume b: "example_compilation = Inr batch" "map te_amount (bb_technosphere_edges batch) = [Fin 1, Fin (1 / 4)]"
  from compilation_decisions_sound [OF b(1) [unfolded example_compilation_def] example_volumes] b
  show ?thesis by (intro exI [of _ batch] conjI)
qed

lemma compilation_edges_sound_witness:
  "\<exists>batch. example_compilation = Inr batch \<and> map te_amount (bb_technosphere_edges batch) = [Fin 1, Fin (1 / 4)] \<and>
     list_all2 edge_sound (bb_technosphere_edges batch) (bb_resolutions batch)"
proof (rule example_compilation_ok)
  fix batch assume b: "example_compilation = Inr batch" "map te_amount (bb_technosphere_edges batch) = [Fin 1, Fin (1 / 4)]"
  from compilation_edges_sound [OF b(1) [unfolded example_compilation_def]] b
  show ?thesis by (intro exI [of _ batch]) simp
qed

lemma accumulation_stays_finite_witness:
  "\<exists>m. accumulate_biosphere_edge [((0, 0), Fin 1)] (0, 0) (Fin 2) True = Inr m \<and> sparse_wf m \<and> map_of m (0, 0) = Some (Fin 3)"
proof -
  have sum: "Fin 1 + Fin 2 = Fin 3" and keep: "retain_sparse_value (Fin 2) True" by code_simp+
  then have step: "accumulate_biosphere_edge [((0, 0), Fin 1)] (0, 0) (Fin 2) True = Inr [((0, 0), Fin 3)]"
    by (simp add: accumulate_biosphere_edge_def Let_def)
  have "sparse_wf [((0 :: i32, 0 :: i32), Fin 1)]" by (simp add: sparse_wf_def)
  from accumulation_stays_finite [OF this step] step show ?thesis by simp
qed

end
