(* ===== verification/Byte_Codec.thy ===== *)
theory Byte_Codec
  imports Worker_Prelude "HOL-Library.Word"
begin

text \<open>
  The byte-level encoding of the compact evidence files of \<open>crates/solver-worker/src/scope_closure.rs\<close>:
  the writer with its checked byte count, little-endian integers, length-prefixed strings and the delta
  varints of ascending ordinals, and the readers over a cursor. Every write is shown to append one byte
  string that only depends on the value, and every reader to be the left inverse of its writer.
\<close>

unbundle bit_operations_syntax

section \<open>Bytes\<close>

type_synonym u8 = "8 word"
type_synonym u16 = "16 word"
type_synonym u32 = "32 word"

datatype codec_error =
    ByteCountOverflow
  | RecordCountOverflow
  | LengthOverflow
  | OrdinalsNotSorted
  | UnexpectedEof
  | InvalidUtf8
  | VarintOverflow
  | DeltaOverflow
  | OrdinalsNotAscending
  | HeaderMismatch
  | KeysNotOrdered
  | InvalidKind
  | InvalidMode
  | OrdinalOutOfRange
  | UnexpectedPayload
  | ExcludedExceedsRoots
  | CardinalityMismatch
  | UnsupportedCategory string
  | IdentitiesNotOrdered
  | RootOutOfRange
  | PredecessorOutOfRange
  | EdgeCountOverflow
  | ByteOrEdgeCountMismatch
  | OmittedIdentity
  | Cancelled string
  | RequestedRootOutOfRange
  | SourceOutOfRange
  | NodeOutOfRange
  | WitnessNotFound
  | IndexPanic
  | WalkDiverges

text \<open>\<open>to_le_bytes\<close> of a \<open>k\<close>-byte integer and \<open>from_le_bytes\<close>.\<close>

fun le_bytes :: "nat \<Rightarrow> nat \<Rightarrow> u8 list" where
  "le_bytes 0 v = []"
| "le_bytes (Suc k) v = of_nat (v mod 256) # le_bytes k (v div 256)"

fun le_value :: "u8 list \<Rightarrow> nat" where
  "le_value [] = 0"
| "le_value (b # bs) = unat b + 256 * le_value bs"

text \<open>The bytes of a string, and the check of \<open>String::from_utf8\<close> (the table of well-formed sequences).\<close>

definition as_bytes :: "string \<Rightarrow> u8 list" where
  "as_bytes s = map (\<lambda>c. of_nat (of_char c)) s"

definition in_range :: "nat \<Rightarrow> nat \<Rightarrow> u8 \<Rightarrow> bool" where
  "in_range lo hi b = (lo \<le> unat b \<and> unat b \<le> hi)"

fun is_utf8 :: "u8 list \<Rightarrow> bool" where
  "is_utf8 [] = True"
| "is_utf8 (a # bs) =
     (if in_range 0x00 0x7F a then is_utf8 bs
      else case bs of [] \<Rightarrow> False | b # cs \<Rightarrow>
        if in_range 0xC2 0xDF a then in_range 0x80 0xBF b \<and> is_utf8 cs
        else case cs of [] \<Rightarrow> False | c # ds \<Rightarrow>
          if in_range 0xE0 0xEF a
          then in_range (if unat a = 0xE0 then 0xA0 else 0x80) (if unat a = 0xED then 0x9F else 0xBF) b \<and>
               in_range 0x80 0xBF c \<and> is_utf8 ds
          else case ds of [] \<Rightarrow> False | d # es \<Rightarrow>
            in_range 0xF0 0xF4 a \<and>
            in_range (if unat a = 0xF0 then 0x90 else 0x80) (if unat a = 0xF4 then 0x8F else 0xBF) b \<and>
            in_range 0x80 0xBF c \<and> in_range 0x80 0xBF d \<and> is_utf8 es)"

definition from_utf8 :: "u8 list \<Rightarrow> codec_error + string" where
  "from_utf8 bs = (if is_utf8 bs then Inr (map (\<lambda>b. char_of (unat b)) bs) else Inl InvalidUtf8)"

section \<open>The writer\<close>

text \<open>
  The writer keeps the uncompressed output, of which the digest is taken and which the encoder
  compresses; \<open>finish\<close> has the compressor and the hash as arguments.
\<close>

record evidence_writer =
  ew_relative_path :: string
  ew_media_type :: string
  ew_output :: "u8 list"
  ew_byte_size :: u64
  ew_record_count :: u64

record evidence_file =
  ef_relative_path :: string
  ef_media_type :: string
  ef_record_count :: u64
  ef_uncompressed_byte_size :: u64
  ef_uncompressed_sha256 :: string
  ef_compressed_byte_size :: u64
  ef_compressed_sha256 :: string

definition writer_new :: "string \<Rightarrow> string \<Rightarrow> evidence_writer" where
  "writer_new relative_path media_type =
     \<lparr>ew_relative_path = relative_path, ew_media_type = media_type, ew_output = [], ew_byte_size = 0, ew_record_count = 0\<rparr>"

definition write_all :: "evidence_writer \<Rightarrow> u8 list \<Rightarrow> codec_error + evidence_writer" where
  "write_all w bytes =
     (if ew_byte_size w + length bytes \<le> u64_max
      then Inr (w\<lparr>ew_output := ew_output w @ bytes, ew_byte_size := ew_byte_size w + length bytes\<rparr>)
      else Inl ByteCountOverflow)"

definition record_completed :: "evidence_writer \<Rightarrow> codec_error + evidence_writer" where
  "record_completed w =
     (if ew_record_count w + 1 \<le> u64_max then Inr (w\<lparr>ew_record_count := ew_record_count w + 1\<rparr>)
      else Inl RecordCountOverflow)"

definition writer_finish :: "(u8 list \<Rightarrow> u8 list) \<Rightarrow> (u8 list \<Rightarrow> string) \<Rightarrow> evidence_writer \<Rightarrow> evidence_file" where
  "writer_finish zstd sha256_hex w =
     \<lparr>ef_relative_path = ew_relative_path w, ef_media_type = ew_media_type w, ef_record_count = ew_record_count w,
      ef_uncompressed_byte_size = ew_byte_size w, ef_uncompressed_sha256 = sha256_hex (ew_output w),
      ef_compressed_byte_size = length (zstd (ew_output w)), ef_compressed_sha256 = sha256_hex (zstd (ew_output w))\<rparr>"

definition write_u16 :: "evidence_writer \<Rightarrow> u16 \<Rightarrow> codec_error + evidence_writer" where
  "write_u16 w v = write_all w (le_bytes 2 (unat v))"

definition write_u32 :: "evidence_writer \<Rightarrow> u32 \<Rightarrow> codec_error + evidence_writer" where
  "write_u32 w v = write_all w (le_bytes 4 (unat v))"

definition write_u64 :: "evidence_writer \<Rightarrow> u64 \<Rightarrow> codec_error + evidence_writer" where
  "write_u64 w v = write_all w (le_bytes 8 v)"

definition u16_try_from :: "usize \<Rightarrow> codec_error + u16" where
  "u16_try_from n = (if n < 2 ^ 16 then Inr (of_nat n) else Inl LengthOverflow)"

definition u32_try_from :: "usize \<Rightarrow> codec_error + u32" where
  "u32_try_from n = (if n < 2 ^ 32 then Inr (of_nat n) else Inl LengthOverflow)"

definition write_compact_string :: "evidence_writer \<Rightarrow> string \<Rightarrow> codec_error + evidence_writer" where
  "write_compact_string w v =
     res_bind (u32_try_from (length v)) (\<lambda>n. res_bind (write_u32 w n) (\<lambda>w. write_all w (as_bytes v)))"

text \<open>One varint: seven bits at a time, the low ones first, the high bit set on all bytes but the last.\<close>

definition varint_byte :: "u32 \<Rightarrow> u8" where
  "varint_byte delta =
     (let byte = ucast (delta AND 0x7F) in if drop_bit 7 delta \<noteq> 0 then byte OR 0x80 else byte)"

function write_varint :: "evidence_writer \<Rightarrow> u32 \<Rightarrow> codec_error + evidence_writer" where
  "write_varint w delta =
     (case write_all w [varint_byte delta] of
        Inl e \<Rightarrow> Inl e
      | Inr w \<Rightarrow> if drop_bit 7 delta = 0 then Inr w else write_varint w (drop_bit 7 delta))"
  by auto

lemma unat_drop_bit_7: "unat (drop_bit 7 (d :: u32)) = unat d div 128"
  unfolding unat_drop_bit_eq by (simp add: drop_bit_eq_div)

lemma drop_bit_7_less: "drop_bit 7 (d :: u32) \<noteq> 0 \<Longrightarrow> unat (drop_bit 7 d) < unat d"
proof -
  assume "drop_bit 7 d \<noteq> 0"
  then have "unat (drop_bit 7 d) \<noteq> 0" by (simp add: unat_eq_zero)
  then show ?thesis unfolding unat_drop_bit_7 by (cases "unat d = 0") simp_all
qed

termination write_varint
  by (relation "measure (\<lambda>(w, d). unat d)") (simp_all add: drop_bit_7_less)

declare write_varint.simps [simp del]

definition delta_step :: "evidence_writer \<times> u32 \<Rightarrow> nat \<times> u32 \<Rightarrow> codec_error + (evidence_writer \<times> u32)" where
  "delta_step s item =
     (case (s, item) of ((w, previous), (index, ordinal)) \<Rightarrow>
        res_bind (if index = 0 then Inr ordinal
                  else if previous \<le> ordinal then Inr (ordinal - previous) else Inl OrdinalsNotSorted) (\<lambda>delta.
        res_bind (write_varint w delta) (\<lambda>w. Inr (w, ordinal))))"

definition write_delta_varint :: "evidence_writer \<Rightarrow> u32 list \<Rightarrow> codec_error + evidence_writer" where
  "write_delta_varint w ordinals =
     res_bind (try_fold delta_step (w, 0) (List.enumerate 0 ordinals)) (\<lambda>(w, previous). Inr w)"

section \<open>The readers\<close>

text \<open>A cursor is the list of the bytes that are left; \<open>read_exact\<close> fails when too few are.\<close>

type_synonym 'a reader = "u8 list \<Rightarrow> codec_error + ('a \<times> u8 list)"

definition read_exact :: "usize \<Rightarrow> u8 list reader" where
  "read_exact n bs = (if n \<le> length bs then Inr (take n bs, drop n bs) else Inl UnexpectedEof)"

definition read_u8 :: "u8 reader" where
  "read_u8 bs = res_bind (read_exact 1 bs) (\<lambda>(b, bs). Inr (hd b, bs))"

definition read_u16 :: "u16 reader" where
  "read_u16 bs = res_bind (read_exact 2 bs) (\<lambda>(b, bs). Inr (of_nat (le_value b), bs))"

definition read_u32 :: "u32 reader" where
  "read_u32 bs = res_bind (read_exact 4 bs) (\<lambda>(b, bs). Inr (of_nat (le_value b), bs))"

definition read_u64 :: "u64 reader" where
  "read_u64 bs = res_bind (read_exact 8 bs) (\<lambda>(b, bs). Inr (le_value b, bs))"

definition read_compact_string :: "string reader" where
  "read_compact_string bs =
     res_bind (read_u32 bs) (\<lambda>(n, bs).
     res_bind (read_exact (unat n) bs) (\<lambda>(b, bs).
     res_bind (from_utf8 b) (\<lambda>s. Inr (s, bs))))"

function read_varint :: "u32 \<Rightarrow> nat \<Rightarrow> u32 reader" where
  "read_varint v shift bs =
     (if 35 \<le> shift then Inl VarintOverflow
      else case read_u8 bs of
        Inl e \<Rightarrow> Inl e
      | Inr (byte, bs) \<Rightarrow>
          let part = push_bit shift (ucast (byte AND 0x7F) :: u32) in
          if unat v + unat part < 2 ^ 32
          then if byte AND 0x80 = 0 then Inr (v + part, bs) else read_varint (v + part) (shift + 7) bs
          else Inl VarintOverflow)"
  by auto

termination read_varint
  by (relation "measure (\<lambda>(v, shift, bs). 35 - shift)") auto

declare read_varint.simps [simp del]

definition ordinal_step :: "u32 list \<times> u32 \<times> u8 list \<Rightarrow> nat \<Rightarrow> codec_error + (u32 list \<times> u32 \<times> u8 list)" where
  "ordinal_step s index =
     (case s of (ordinals, previous, bs) \<Rightarrow>
        res_bind (read_varint 0 0 bs) (\<lambda>(v, bs).
        res_bind (if index = 0 then Inr v
                  else if unat previous + unat v < 2 ^ 32 then Inr (previous + v) else Inl DeltaOverflow) (\<lambda>ordinal.
        if 0 < index \<and> ordinal \<le> previous then Inl OrdinalsNotAscending
        else Inr (ordinals @ [ordinal], ordinal, bs))))"

definition read_delta_varints :: "usize \<Rightarrow> u32 list reader" where
  "read_delta_varints n bs =
     res_bind (try_fold ordinal_step ([], 0, bs) [0..<n]) (\<lambda>(ordinals, previous, bs). Inr (ordinals, bs))"

section \<open>Writes append a byte string\<close>

text \<open>Writing two byte strings is writing their concatenation, errors included.\<close>

lemma write_all_append: "res_bind (write_all w a) (\<lambda>w. write_all w b) = write_all w (a @ b)"
  by (auto simp: write_all_def)

lemma write_all_Nil: "ew_byte_size w \<le> u64_max \<Longrightarrow> write_all w [] = Inr w"
  by (simp add: write_all_def)

lemma write_all_ok:
  "ew_byte_size w + length bs \<le> u64_max \<Longrightarrow>
   write_all w bs = Inr (w\<lparr>ew_output := ew_output w @ bs, ew_byte_size := ew_byte_size w + length bs\<rparr>)"
  by (simp add: write_all_def)

lemma write_allD:
  "write_all w bs = Inr w' \<Longrightarrow>
   w' = w\<lparr>ew_output := ew_output w @ bs, ew_byte_size := ew_byte_size w + length bs\<rparr> \<and> ew_byte_size w + length bs \<le> u64_max"
  by (simp add: write_all_def split: if_splits)

text \<open>The bytes of one varint and of a list of ascending ordinals.\<close>

function varint_bytes :: "u32 \<Rightarrow> u8 list" where
  "varint_bytes d = varint_byte d # (if drop_bit 7 d = 0 then [] else varint_bytes (drop_bit 7 d))"
  by auto
termination varint_bytes
  by (relation "measure unat") (simp_all add: drop_bit_7_less)

declare varint_bytes.simps [simp del]

fun delta_bytes :: "u32 \<Rightarrow> u32 list \<Rightarrow> u8 list" where
  "delta_bytes previous [] = []"
| "delta_bytes previous (x # xs) = varint_bytes (x - previous) @ delta_bytes x xs"

lemma write_varint_eq: "write_varint w d = write_all w (varint_bytes d)"
proof (induction d arbitrary: w rule: varint_bytes.induct)
  case (1 d)
  have "write_varint w d = res_bind (write_all w [varint_byte d])
      (\<lambda>w. if drop_bit 7 d = 0 then Inr w else write_varint w (drop_bit 7 d))"
    by (subst write_varint.simps) (simp add: res_bind_def)
  also have "\<dots> = write_all w (varint_bytes d)"
  proof (cases "drop_bit 7 d = 0")
    case True
    then show ?thesis
      by (subst varint_bytes.simps) (cases "write_all w [varint_byte d]", auto)
  next
    case False
    then have "res_bind (write_all w [varint_byte d]) (\<lambda>w. write_varint w (drop_bit 7 d)) =
        res_bind (write_all w [varint_byte d]) (\<lambda>w. write_all w (varint_bytes (drop_bit 7 d)))"
      using 1 by simp
    with False show ?thesis by (subst varint_bytes.simps) (simp add: write_all_append)
  qed
  finally show ?case .
qed

lemma delta_steps_eq:
  assumes "sorted (previous # xs)" "k = 0 \<Longrightarrow> previous = 0" "ew_byte_size w \<le> u64_max"
  shows "res_bind (try_fold delta_step (w, previous) (List.enumerate k xs)) (\<lambda>(w, p). Inr w) = write_all w (delta_bytes previous xs)"
  using assms
proof (induction xs arbitrary: previous w k)
  case Nil
  then show ?case by (simp add: write_all_Nil)
next
  case (Cons x xs)
  have step: "delta_step (w, previous) (k, x) = res_bind (write_all w (varint_bytes (x - previous))) (\<lambda>w. Inr (w, x))"
    using Cons.prems(1,2) by (auto simp: delta_step_def write_varint_eq)
  show ?case
  proof (cases "write_all w (varint_bytes (x - previous))")
    case (Inl e)
    then show ?thesis by (simp add: step flip: write_all_append)
  next
    case (Inr w')
    then have "ew_byte_size w' \<le> u64_max" by (auto dest: write_allD)
    then have "res_bind (try_fold delta_step (w', x) (List.enumerate (Suc k) xs)) (\<lambda>(w, p). Inr w) = write_all w' (delta_bytes x xs)"
      using Cons.prems(1) by (intro Cons.IH) auto
    with Inr show ?thesis by (simp add: step flip: write_all_append)
  qed
qed

lemma write_delta_varint_eq:
  "sorted xs \<Longrightarrow> ew_byte_size w \<le> u64_max \<Longrightarrow> write_delta_varint w xs = write_all w (delta_bytes 0 xs)"
  unfolding write_delta_varint_def by (intro delta_steps_eq) (simp_all add: sorted_wrt.simps(2) word_coorder.extremum)

section \<open>Readers invert writers\<close>

text \<open>
  The contract of an encoding: reading the bytes of a valid value in front of any rest returns the value
  and the rest. A loop that reads a number of items and checks each of them runs like the checks alone.
\<close>

definition read_loop :: "'a reader \<Rightarrow> ('s \<Rightarrow> 'a \<Rightarrow> codec_error + 's) \<Rightarrow> usize \<Rightarrow> 's \<Rightarrow> 's reader" where
  "read_loop get step n s bs =
     try_fold (\<lambda>(s, bs) _. res_bind (get bs) (\<lambda>(x, bs). res_bind (step s x) (\<lambda>s. Inr (s, bs)))) (s, bs) [0..<n]"

locale codec =
  fixes put :: "'a \<Rightarrow> u8 list" and get :: "'a reader" and valid :: "'a \<Rightarrow> bool"
  assumes get_put: "valid x \<Longrightarrow> get (put x @ rest) = Inr (x, rest)"
begin

lemma read_loop_put:
  assumes "list_all valid xs" "try_fold step s xs = Inr t"
  shows "read_loop get step (length xs) s (concat (map put xs) @ rest) = Inr (t, rest)"
proof -
  let ?f = "\<lambda>(s, bs) _. res_bind (get bs) (\<lambda>(x, bs). res_bind (step s x) (\<lambda>s. Inr (s, bs)))"
  have "try_fold ?f (s, concat (map put xs) @ rest) [k..<k + length xs] = Inr (t, rest)" for k
    using assms
  proof (induction xs arbitrary: s k)
    case (Cons x xs)
    from Cons.prems(2) obtain s' where s': "step s x = Inr s'" "try_fold step s' xs = Inr t"
      by (auto simp: res_simps)
    have "try_fold ?f (s', concat (map put xs) @ rest) [Suc k..<Suc k + length xs] = Inr (t, rest)"
      using Cons.prems(1) s'(2) by (intro Cons.IH) simp_all
    moreover have "[k..<k + length (x # xs)] = k # [Suc k..<Suc k + length xs]"
      by (simp add: upt_conv_Cons del: upt_Suc)
    ultimately show ?case using Cons.prems(1) s'(1) get_put [of x] by simp
  qed simp
  from this [of 0] show ?thesis by (simp add: read_loop_def)
qed

lemma put_inj:
  assumes "valid x" "valid y" "put x @ rest = put y @ rest'"
  shows "x = y \<and> rest = rest'"
  by (metis assms get_put prod.inject sum.inject(2))

end

lemma length_le_bytes [simp]: "length (le_bytes k v) = k"
  by (induction k arbitrary: v) auto

lemma le_value_le_bytes: "le_value (le_bytes k v) = v mod 256 ^ k"
proof (induction k arbitrary: v)
  case (Suc k)
  have "v mod 256 mod 2 ^ 8 = v mod 256" by simp
  with Suc show ?case by (simp add: unat_of_nat mod_mult2_eq)
qed simp

lemma read_exact_append [simp]: "n = length a \<Longrightarrow> read_exact n (a @ rest) = Inr (a, rest)"
  by (simp add: read_exact_def)

lemma read_u8_Cons [simp]: "read_u8 (b # rest) = Inr (b, rest)"
  by (simp add: read_u8_def read_exact_def)

interpretation u16: codec "\<lambda>v. le_bytes 2 (unat v)" read_u16 "\<lambda>_. True"
proof
  fix x :: u16 and rest
  have "unat x mod 65536 = unat x" using unsigned_less [of x, where ?'a = nat] by simp
  then show "read_u16 (le_bytes 2 (unat x) @ rest) = Inr (x, rest)"
    by (simp add: read_u16_def le_value_le_bytes del: le_bytes.simps)
qed

interpretation u32: codec "\<lambda>v. le_bytes 4 (unat v)" read_u32 "\<lambda>_. True"
proof
  fix x :: u32 and rest
  have "unat x mod 4294967296 = unat x" using unsigned_less [of x, where ?'a = nat] by simp
  then show "read_u32 (le_bytes 4 (unat x) @ rest) = Inr (x, rest)"
    by (simp add: read_u32_def le_value_le_bytes del: le_bytes.simps)
qed

interpretation u64: codec "le_bytes 8" read_u64 "\<lambda>v. v \<le> u64_max"
proof
  fix x :: u64 and rest
  assume "x \<le> u64_max"
  then have "x mod 18446744073709551616 = x" by (simp add: u64_max_def)
  then show "read_u64 (le_bytes 8 x @ rest) = Inr (x, rest)"
    by (simp add: read_u64_def le_value_le_bytes del: le_bytes.simps)
qed

lemma length_as_bytes [simp]: "length (as_bytes s) = length s"
  by (simp add: as_bytes_def)

lemma from_utf8_as_bytes: "is_utf8 (as_bytes s) \<Longrightarrow> from_utf8 (as_bytes s) = Inr s"
proof -
  have "unat (of_nat (of_char c) :: u8) = of_char c" for c :: char
    using of_char_of [of "of_char c"] by (simp add: unat_of_nat of_char_mod_256)
  then show "is_utf8 (as_bytes s) \<Longrightarrow> from_utf8 (as_bytes s) = Inr s"
    by (simp add: from_utf8_def as_bytes_def comp_def)
qed

definition string_bytes :: "string \<Rightarrow> u8 list" where
  "string_bytes s = le_bytes 4 (length s) @ as_bytes s"

definition rust_string :: "string \<Rightarrow> bool" where
  "rust_string s = (is_utf8 (as_bytes s) \<and> length s < 2 ^ 32)"

lemma write_compact_string_eq:
  "length s < 2 ^ 32 \<Longrightarrow> write_compact_string w s = write_all w (string_bytes s)"
  by (simp add: write_compact_string_def u32_try_from_def write_u32_def unat_of_nat string_bytes_def write_all_append
      del: le_bytes.simps)

interpretation str: codec string_bytes read_compact_string rust_string
proof
  fix s rest
  assume s: "rust_string s"
  then have "unat (of_nat (length s) :: u32) = length s" by (simp add: rust_string_def unat_of_nat)
  moreover from this have "read_u32 (le_bytes 4 (length s) @ as_bytes s @ rest) = Inr (of_nat (length s), as_bytes s @ rest)"
    using u32.get_put [of "of_nat (length s)" "as_bytes s @ rest"] by simp
  ultimately show "read_compact_string (string_bytes s @ rest) = Inr (s, rest)"
    using s by (simp add: read_compact_string_def string_bytes_def from_utf8_as_bytes rust_string_def)
qed

section \<open>Varints\<close>

lemma low_mask: "(0x7F :: 'a :: len word) = mask 7"
  by (simp add: mask_eq_exp_minus_1)

lemma bit_0x80: "bit (0x80 :: u8) n \<longleftrightarrow> n = 7"
  using bit_exp_iff [of 7 n, where ?'a = u8] by auto

lemma unat_and_7F: "unat (d AND 0x7F :: 'a :: len word) = unat d mod 128"
proof -
  have "unat (take_bit 7 d) = take_bit 7 (unat d)" by (rule unsigned_take_bit_eq)
  also have "\<dots> = unat d mod 128" by (simp add: take_bit_eq_mod)
  finally show ?thesis by (simp only: low_mask take_bit_eq_mask)
qed

lemma unat_ucast_small: "unat (w :: 'a :: len word) < 2 ^ LENGTH('b) \<Longrightarrow> unat (ucast w :: 'b :: len word) = unat w"
  by (simp add: unsigned_ucast_eq take_bit_eq_mod)

lemma unat_low_bits: "unat (ucast (d AND 0x7F :: u32) :: u8) = unat d mod 128"
proof -
  have "unat (d AND 0x7F) < 2 ^ 7" unfolding unat_and_7F by simp
  then have "unat (ucast (d AND 0x7F) :: u8) = unat (d AND 0x7F)" by (intro unat_ucast_small) simp
  then show ?thesis by (simp only: unat_and_7F)
qed

text \<open>A varint byte carries the low seven bits, and its high bit says whether more follow.\<close>

lemma varint_byte_and: "varint_byte d AND 0x7F = ucast (d AND 0x7F)"
  and varint_byte_high: "varint_byte d AND 0x80 = 0 \<longleftrightarrow> drop_bit 7 d = 0"
proof -
  let ?b = "ucast (d AND mask 7) :: u8"
  note bits = bit_and_iff bit_or_iff bit_mask_iff bit_ucast_iff bit_0x80
  have low: "?b AND mask 7 = ?b" by (rule bit_word_eqI) (unfold bits, auto)
  have more: "(?b OR 0x80) AND mask 7 = ?b" by (rule bit_word_eqI) (unfold bits, auto)
  show "varint_byte d AND 0x7F = ucast (d AND 0x7F)"
    unfolding varint_byte_def Let_def low_mask using low more by simp
  have "?b AND 0x80 = 0" by (rule bit_word_eqI) (unfold bits, auto)
  moreover have "bit ((?b OR 0x80) AND 0x80) 7" by (unfold bits) simp
  then have "(?b OR 0x80) AND 0x80 \<noteq> 0" by force
  ultimately show "varint_byte d AND 0x80 = 0 \<longleftrightarrow> drop_bit 7 d = 0"
    unfolding varint_byte_def Let_def low_mask by simp
qed

lemma varint_byte_low: "unat (ucast (varint_byte d AND 0x7F) :: u32) = unat d mod 128"
proof -
  have "unat d mod 128 < 2 ^ 32" by (rule order_less_le_trans [of _ 128]) simp_all
  then have "unat (ucast (ucast (d AND 0x7F) :: u8) :: u32) = unat d mod 128"
    using unat_ucast_small [of "ucast (d AND 0x7F) :: u8", where ?'b = 32] by (simp only: unat_low_bits) simp
  then show ?thesis by (simp only: varint_byte_and)
qed

lemma unat_push_bit_exact:
  assumes "unat w * 2 ^ n < 2 ^ LENGTH('a)"
  shows "unat (push_bit n (w :: 'a :: len word)) = unat w * 2 ^ n"
proof -
  have "unat (push_bit n w) = take_bit LENGTH('a) (push_bit n (unat w))" by (rule unsigned_push_bit_eq)
  with assms show ?thesis by (simp add: push_bit_eq_mult take_bit_eq_mod)
qed

lemma shifted_sum_less:
  fixes v d s n :: nat
  assumes "v < 2 ^ s" "d * 2 ^ s < 2 ^ n" "s \<le> n"
  shows "v + d * 2 ^ s < 2 ^ n"
proof -
  have n: "(2 :: nat) ^ n = 2 ^ (n - s) * 2 ^ s" using assms(3) by (simp flip: power_add)
  with assms(2) have "Suc d \<le> 2 ^ (n - s)" by simp
  then have "Suc d * 2 ^ s \<le> 2 ^ n" unfolding n by (rule mult_le_mono1)
  with assms(1) show ?thesis by simp
qed

lemma read_varint_Cons:
  assumes "shift < 35" "part = push_bit shift (ucast (b AND 0x7F))" "unat v + unat part < 2 ^ 32"
  shows "read_varint v shift (b # bs) =
    (if b AND 0x80 = 0 then Inr (v + part, bs) else read_varint (v + part) (shift + 7) bs)"
  using assms by (subst read_varint.simps) (simp only: read_u8_Cons Let_def, simp)

lemma read_varint_bytes:
  assumes "unat v < 2 ^ shift" "unat d * 2 ^ shift < 2 ^ 32" "shift < 32"
  shows "read_varint v shift (varint_bytes d @ rest) = Inr (v + push_bit shift d, rest)"
  using assms
proof (induction d arbitrary: v shift rule: varint_bytes.induct)
  case (1 d)
  let ?part = "push_bit shift (ucast (varint_byte d AND 0x7F) :: u32)"
  let ?low = "unat d mod 128 * 2 ^ shift" and ?high = "unat d div 128 * 2 ^ (shift + 7)"
  have split: "unat d * 2 ^ shift = ?low + ?high"
    by (subst mod_mult_div_eq [of "unat d" 128, symmetric], subst add_mult_distrib) (simp add: power_add)
  have part: "unat ?part = ?low"
    using 1(3) split unat_push_bit_exact [of "ucast (varint_byte d AND 0x7F) :: u32" shift] by (simp only: varint_byte_low) simp
  have whole: "unat (push_bit shift d) = unat d * 2 ^ shift" using 1(3) by (intro unat_push_bit_exact) simp
  have "unat v + unat d * 2 ^ shift < 2 ^ 32" using 1(2,3,4) by (intro shifted_sum_less) simp_all
  then have fits: "unat v + unat ?part < 2 ^ 32" using part split by simp
  have unfold: "read_varint v shift (varint_bytes d @ rest) =
      (if drop_bit 7 d = 0 then Inr (v + ?part, rest)
       else read_varint (v + ?part) (shift + 7) (varint_bytes (drop_bit 7 d) @ rest))"
  proof -
    let ?tail = "if drop_bit 7 d = 0 then [] else varint_bytes (drop_bit 7 d)"
    have "read_varint v shift (varint_bytes d @ rest) = read_varint v shift (varint_byte d # (?tail @ rest))"
      by (subst varint_bytes.simps) (simp only: append_Cons)
    also have "\<dots> = (if varint_byte d AND 0x80 = 0 then Inr (v + ?part, ?tail @ rest)
        else read_varint (v + ?part) (shift + 7) (?tail @ rest))"
      using 1(4) by (intro read_varint_Cons [OF _ refl fits]) simp
    finally show ?thesis
      by (cases "drop_bit 7 d = 0") (simp_all only: varint_byte_high if_True if_False append_Nil simp_thms)
  qed
  show ?case
  proof (cases "drop_bit 7 d = 0")
    case True
    then have "unat d div 128 = 0" using unat_drop_bit_7 [of d] by simp
    then have "unat ?part = unat (push_bit shift d)" unfolding part whole split by simp
    then have "?part = push_bit shift d" by (simp only: word_unat_eq_iff)
    with unfold show ?thesis by (simp only: True if_True simp_thms)
  next
    case False
    then have "unat d div 128 \<noteq> 0" using unat_drop_bit_7 [of d] by (metis unat_eq_zero)
    then have "1 * 2 ^ (shift + 7) \<le> ?high" by (intro mult_le_mono1) simp
    also have "\<dots> < 2 ^ 32" using 1(3) unfolding split by linarith
    finally have "(2 :: nat) ^ (shift + 7) < 2 ^ 32" by (simp only: mult_1)
    then have s: "shift + 7 < 32" by (rule power_less_imp_less_exp [rotated]) simp
    have v: "unat (v + ?part) = unat v + ?low" using fits part by (simp add: unat_word_ariths)
    have low: "unat v + ?low < 2 ^ (shift + 7)"
      using 1(2) by (intro shifted_sum_less) (simp_all add: power_add)
    have high: "unat (drop_bit 7 d) * 2 ^ (shift + 7) < 2 ^ 32" using split 1(3) by (simp add: unat_drop_bit_7)
    have "read_varint (v + ?part) (shift + 7) (varint_bytes (drop_bit 7 d) @ rest) =
        Inr (v + ?part + push_bit (shift + 7) (drop_bit 7 d), rest)"
      using False v low high s by (intro 1(1)) simp_all
    moreover have "?part + push_bit (shift + 7) (drop_bit 7 d) = push_bit shift d"
    proof -
      have "unat (push_bit (shift + 7) (drop_bit 7 d)) = ?high"
        using high by (subst unat_push_bit_exact) (simp_all add: unat_drop_bit_7)
      with part whole split 1(3) have "unat (?part + push_bit (shift + 7) (drop_bit 7 d)) = unat (push_bit shift d)"
        by (simp add: unat_word_ariths)
      then show ?thesis by (simp only: word_unat_eq_iff)
    qed
    ultimately show ?thesis using unfold False by (simp only: if_False add.assoc)
  qed
qed

interpretation vi: codec varint_bytes "read_varint 0 0" "\<lambda>_. True"
proof
  fix x :: u32 and rest
  have "unat x < 2 ^ 32" using unsigned_less [of x, where ?'a = nat] by simp
  then show "read_varint 0 0 (varint_bytes x @ rest) = Inr (x, rest)"
    using read_varint_bytes [of 0 0 x rest] by simp
qed

text \<open>Strictly ascending ordinals.\<close>

lemma ordinal_steps:
  assumes "sorted_wrt (<) xs" "k = 0 \<Longrightarrow> previous = 0" "0 < k \<Longrightarrow> (\<forall>x \<in> set xs. previous < x)"
  shows "try_fold ordinal_step (acc, previous, delta_bytes previous xs @ rest) [k..<k + length xs] =
    Inr (acc @ xs, (if xs = [] then previous else last xs), rest)"
  using assms
proof (induction xs arbitrary: acc previous k)
  case (Cons x xs)
  have upt: "[k..<k + length (x # xs)] = k # [Suc k..<Suc k + length xs]"
    by (simp add: upt_conv_Cons del: upt_Suc)
  have lt: "0 < k \<longrightarrow> previous < x" using Cons.prems(3) by simp
  have le: "previous \<le> x" using Cons.prems(2,3) by (cases "k = 0") auto
  have add: "unat previous + unat (x - previous) = unat x"
    using le by (simp add: unat_sub word_le_nat_alt)
  have fits: "unat previous + unat (x - previous) < 2 ^ 32" unfolding add using unsigned_less [of x, where ?'a = nat] by simp
  have "ordinal_step (acc, previous, delta_bytes previous (x # xs) @ rest) k = Inr (acc @ [x], x, delta_bytes x xs @ rest)"
    using vi.get_put [of "x - previous" "delta_bytes x xs @ rest"] Cons.prems(2) fits lt
    by (auto simp: ordinal_step_def not_le)
  moreover have "try_fold ordinal_step (acc @ [x], x, delta_bytes x xs @ rest) [Suc k..<Suc k + length xs] =
      Inr ((acc @ [x]) @ xs, (if xs = [] then x else last xs), rest)"
    using Cons.prems(1) by (intro Cons.IH) auto
  ultimately show ?case unfolding upt by simp
qed simp

interpretation ord: codec "delta_bytes 0" "read_delta_varints n" "\<lambda>xs. sorted_wrt (<) xs \<and> length xs = n" for n
proof
  fix xs :: "u32 list" and rest
  assume "sorted_wrt (<) xs \<and> length xs = n"
  then show "read_delta_varints n (delta_bytes 0 xs @ rest) = Inr (xs, rest)"
    using ordinal_steps [of xs 0 0 "[]" rest] by (auto simp: read_delta_varints_def)
qed

section \<open>Sizes and malformed varints\<close>

lemma varint_size:
  assumes "unat d < 2 ^ (7 * Suc k)"
  shows "length (varint_bytes d) \<le> Suc k"
  using assms
proof (induction k arbitrary: d)
  case 0
  then have "unat (drop_bit 7 d) = 0" by (simp add: unat_drop_bit_7)
  then have "drop_bit 7 d = 0" by (simp only: unat_eq_zero)
  then show ?case by (subst varint_bytes.simps) (simp only: if_True, simp)
next
  case (Suc k)
  have "unat d < 2 ^ (7 * Suc k) * 128" using Suc.prems by (simp add: power_add)
  then have "unat (drop_bit 7 d) < 2 ^ (7 * Suc k)" unfolding unat_drop_bit_7 by (rule less_mult_imp_div_less)
  then show ?case by (subst varint_bytes.simps) (simp add: Suc.IH)
qed

text \<open>A varint has at most five bytes.\<close>

lemma varint_size_le_5: "length (varint_bytes d) \<le> 5"
proof -
  have "unat d < 2 ^ 32" using unsigned_less [of d, where ?'a = nat] by simp
  then have "unat d < 2 ^ (7 * Suc 4)" by (rule order_less_le_trans) simp
  then show ?thesis using varint_size [of d 4] by simp
qed

lemma delta_size: "length (delta_bytes previous xs) \<le> 5 * length xs"
proof (induction xs arbitrary: previous)
  case (Cons x xs)
  show ?case using Cons.IH [of x] varint_size_le_5 [of "x - previous"] by simp
qed simp

text \<open>The number that a base-128 encoding denotes, low digits first, and the shape of one encoding.\<close>

primrec leb_value :: "u8 list \<Rightarrow> nat" where
  "leb_value [] = 0"
| "leb_value (b # bs) = unat (b AND 0x7F) + 128 * leb_value bs"

fun varint_shape :: "u8 list \<Rightarrow> bool" where
  "varint_shape [] = False"
| "varint_shape [b] = (b AND 0x80 = 0)"
| "varint_shape (b # bs) = (b AND 0x80 \<noteq> 0 \<and> varint_shape bs)"

lemma low_digit_less: "unat ((b :: u8) AND 0x7F) < 128"
proof -
  have "b AND 0x7F \<le> 0x7F" by (rule word_and_le1)
  then show ?thesis by (simp add: word_le_nat_alt)
qed

lemma part_of_nat:
  "push_bit s (ucast ((b :: u8) AND 0x7F) :: u32) = of_nat (unat (b AND 0x7F) * 2 ^ s)"
  by (simp add: push_bit_eq_mult)

lemma part_bound:
  assumes "k < 5"
  shows "unat (push_bit (7 * k) (ucast ((b :: u8) AND 0x7F) :: u32)) \<le> 2 ^ 32 - 2 ^ (7 * k)"
    and "k < 4 \<Longrightarrow> unat (push_bit (7 * k) (ucast (b AND 0x7F) :: u32)) \<le> 2 ^ (7 * Suc k) - 2 ^ (7 * k)"
proof -
  let ?x = "unat (b AND 0x7F)"
  have x: "?x < 128" by (rule low_digit_less)
  have u: "unat (push_bit (7 * k) (ucast (b AND 0x7F) :: u32)) = ?x * 2 ^ (7 * k) mod 2 ^ 32"
    unfolding part_of_nat by (subst unat_of_nat) simp
  have p: "(2::nat) ^ 32 = 2 ^ (32 - 7 * k) * 2 ^ (7 * k)" using assms by (simp flip: power_add)
  have "?x * 2 ^ (7 * k) mod 2 ^ 32 = (?x mod 2 ^ (32 - 7 * k)) * 2 ^ (7 * k)"
    unfolding p by (rule mod_mult_mult2)
  also have "\<dots> \<le> (2 ^ (32 - 7 * k) - 1) * 2 ^ (7 * k)"
    by (intro mult_le_mono1) (simp add: Suc_leI le_diff_conv2)
  also have "\<dots> = 2 ^ 32 - 2 ^ (7 * k)" unfolding p by (simp add: diff_mult_distrib)
  finally show "unat (push_bit (7 * k) (ucast (b AND 0x7F) :: u32)) \<le> 2 ^ 32 - 2 ^ (7 * k)"
    unfolding u .
  show "unat (push_bit (7 * k) (ucast (b AND 0x7F) :: u32)) \<le> 2 ^ (7 * Suc k) - 2 ^ (7 * k)" if "k < 4"
  proof -
    have "k = 0 \<or> k = 1 \<or> k = 2 \<or> k = 3" using that by linarith
    then show ?thesis unfolding u using x by (elim disjE) simp_all
  qed
qed

lemma read_varint_shape:
  assumes "varint_shape bs" "k \<le> 5" "k \<le> 4 \<Longrightarrow> unat v < 2 ^ (7 * k)"
  shows "read_varint v (7 * k) (bs @ rest) =
    (if k + length bs \<le> 5 then Inr (v + of_nat (leb_value bs * 2 ^ (7 * k)), rest) else Inl VarintOverflow)"
  using assms
proof (induction bs arbitrary: v k)
  case (Cons b bs)
  show ?case
  proof (cases "k = 5")
    case True
    then show ?thesis by (subst read_varint.simps) simp
  next
    case False
    let ?part = "push_bit (7 * k) (ucast (b AND 0x7F)) :: u32"
    have k: "k < 5" using False Cons.prems(2) by simp
    have v: "unat v < 2 ^ (7 * k)" using Cons.prems(3) k by simp
    have "(2::nat) ^ (7 * k) \<le> 2 ^ 32" using k by (intro power_increasing) simp_all
    then have fits: "unat v + unat ?part < 2 ^ 32" using v part_bound(1) [OF k, of b] by linarith
    have step: "read_varint v (7 * k) ((b # bs) @ rest) =
        (if b AND 0x80 = 0 then Inr (v + ?part, bs @ rest) else read_varint (v + ?part) (7 * Suc k) (bs @ rest))"
      using read_varint_Cons [OF _ refl fits, of "bs @ rest"] k by (simp add: add.commute)
    show ?thesis
    proof (cases bs)
      case Nil
      with Cons.prems(1) have "b AND 0x80 = 0" by simp
      then show ?thesis using k unfolding step by (simp add: Nil part_of_nat)
    next
      case (Cons c cs)
      with Cons.prems(1) have more: "b AND 0x80 \<noteq> 0" and shape: "varint_shape bs" by simp_all
      have "unat (v + ?part) < 2 ^ (7 * Suc k)" if "Suc k \<le> 4"
      proof -
        have "(2::nat) ^ (7 * k) \<le> 2 ^ (7 * Suc k)" by (intro power_increasing) simp_all
        then have "unat v + unat ?part < 2 ^ (7 * Suc k)" using part_bound(2) [OF k, of b] that v by linarith
        moreover have "unat (v + ?part) = unat v + unat ?part" using fits by (simp add: unat_add_lem [THEN iffD1])
        ultimately show ?thesis by simp
      qed
      with Cons.IH [OF shape, of "Suc k" "v + ?part"] k
      have "read_varint (v + ?part) (7 * Suc k) (bs @ rest) = (if Suc k + length bs \<le> 5
          then Inr (v + ?part + of_nat (leb_value bs * 2 ^ (7 * Suc k)), rest) else Inl VarintOverflow)" by simp
      moreover have "?part + of_nat (leb_value bs * 2 ^ (7 * Suc k)) = of_nat (leb_value (b # bs) * 2 ^ (7 * k))"
        unfolding part_of_nat by (simp add: algebra_simps power_add flip: of_nat_mult)
      ultimately show ?thesis using more unfolding step by (simp add: add.assoc)
    qed
  qed
qed simp

text \<open>
  The overflow check of the varint reader misses the bits that a shift moves out of the 32-bit word. Every
  encoding of at most five bytes (continuation bit on all bytes but the last), whatever follows it, is accepted
  and read as the encoded number modulo \<open>2 ^ 32\<close>, and every longer one is rejected: so a five-byte encoding of a
  number of \<open>2 ^ 32\<close> or more is read, without an error, as a different number.
\<close>

theorem oversized_varint_is_truncated:
  assumes "varint_shape bs"
  shows "read_varint 0 0 (bs @ rest) =
      (if length bs \<le> 5 then Inr (of_nat (leb_value bs), rest) else Inl VarintOverflow) \<and>
    (length bs = 5 \<and> 2 ^ 32 \<le> leb_value bs \<longrightarrow>
      (\<exists>n. read_varint 0 0 (bs @ rest) = Inr (n, rest) \<and> unat n = leb_value bs mod 2 ^ 32 \<and> unat n \<noteq> leb_value bs))"
  using read_varint_shape [OF assms, of 0 0 rest] by (auto simp: unat_of_nat)

theorem oversized_varint_is_truncated_witness:
  "leb_value [0x80, 0x80, 0x80, 0x80, 0x10] = 2 ^ 32 \<and>
   read_varint 0 0 ([0x80, 0x80, 0x80, 0x80, 0x10] @ [7]) = Inr (0, [7]) \<and>
   read_varint 0 0 ([0x80, 0x80, 0x80, 0x80, 0x80, 0x01] @ [7]) = Inl VarintOverflow"
  using oversized_varint_is_truncated [of "[0x80, 0x80, 0x80, 0x80, 0x10]" "[7]"]
    oversized_varint_is_truncated [of "[0x80, 0x80, 0x80, 0x80, 0x80, 0x01]" "[7]"]
  by simp

text \<open>
  Strictly ascending ordinals survive the delta encoding: writing them appends at most five bytes each, and
  reading as many ordinals back, in front of whatever follows, gives exactly the list.
\<close>

theorem ordinals_roundtrip:
  assumes "sorted_wrt (<) xs" "ew_byte_size w + 5 * length xs \<le> u64_max"
  shows "\<exists>bytes. write_delta_varint w xs =
      Inr (w\<lparr>ew_output := ew_output w @ bytes, ew_byte_size := ew_byte_size w + length bytes\<rparr>) \<and>
    length bytes \<le> 5 * length xs \<and> (\<forall>rest. read_delta_varints (length xs) (bytes @ rest) = Inr (xs, rest))"
proof (intro exI conjI allI)
  have "sorted xs" using assms(1) by (rule strict_sorted_imp_sorted)
  moreover have size: "length (delta_bytes 0 xs) \<le> 5 * length xs" by (rule delta_size)
  ultimately show "write_delta_varint w xs = Inr (w\<lparr>ew_output := ew_output w @ delta_bytes 0 xs,
      ew_byte_size := ew_byte_size w + length (delta_bytes 0 xs)\<rparr>)"
    using assms(2) by (simp add: write_delta_varint_eq write_all_ok)
  show "length (delta_bytes 0 xs) \<le> 5 * length xs" by (rule size)
  show "read_delta_varints (length xs) (delta_bytes 0 xs @ rest) = Inr (xs, rest)" for rest
    using assms(1) by (intro ord.get_put) simp
qed

lemma ordinals_roundtrip_witness:
  "\<exists>bytes. read_delta_varints (length [3, 130, 70000 :: u32]) bytes = Inr ([3, 130, 70000], [])"
proof -
  have "ew_byte_size (writer_new [] []) + 5 * length [3, 130, 70000 :: u32] \<le> u64_max"
    by (simp add: writer_new_def u64_max_def)
  from ordinals_roundtrip [OF _ this] obtain bytes where
    "read_delta_varints (length [3, 130, 70000 :: u32]) (bytes @ []) = Inr ([3, 130, 70000], [])" by fastforce
  then show ?thesis by blast
qed

end
