(* ===== verification/Root_Impact.thy ===== *)
theory Root_Impact
  imports Byte_Codec
begin

text \<open>
  The root impact index of \<open>crates/solver-worker/src/scope_closure.rs\<close>: which roots of a scope each issue
  affects, stored as no roots, all roots, the included or the excluded ordinals, whichever is smaller, in a
  binary file with strictly ordered keys. The writer, the decoder with all its checks, and the membership
  query are modelled; the theorems are that a written index decodes to itself and that the compact encoding
  answers membership exactly.
\<close>

section \<open>Data\<close>

datatype root_impact_mode = NoRoots | AllRoots | IncludedOrdinals | ExcludedOrdinals

record root_impact_record =
  ri_impact_key :: string
  ri_kind :: u8
  ri_source_node_ordinal :: "u32 option"
  ri_mode :: root_impact_mode
  ri_affected_root_count :: u32
  ri_encoded_ordinals :: "u32 list"

record root_impact_index =
  rx_root_count :: u32
  rx_records :: "root_impact_record list"

record root_impact_writer =
  iw_evidence :: evidence_writer
  iw_last_key :: "string option"

definition ROOT_IMPACT_INDEX_MAGIC :: "u8 list" where
  "ROOT_IMPACT_INDEX_MAGIC = as_bytes (''TGLCA-RI-V1'' @ [CHR 0x00])"

definition u32_max :: u32 where
  "u32_max = - 1"

definition mode_byte :: "root_impact_mode \<Rightarrow> u8" where
  "mode_byte mode = (case mode of NoRoots \<Rightarrow> 0 | AllRoots \<Rightarrow> 1 | IncludedOrdinals \<Rightarrow> 2 | ExcludedOrdinals \<Rightarrow> 3)"

section \<open>The writer\<close>

definition index_writer_new :: "usize \<Rightarrow> codec_error + root_impact_writer" where
  "index_writer_new root_count =
     (let evidence = writer_new ''evidence/root-impact-index-v1.bin.zst''
            ''application/vnd.tiangong.scope-closure-root-impact-index+zstd'' in
      res_bind (write_all evidence ROOT_IMPACT_INDEX_MAGIC) (\<lambda>evidence.
      res_bind (write_u16 evidence 1) (\<lambda>evidence.
      res_bind (u32_try_from root_count) (\<lambda>n.
      res_bind (write_u32 evidence n) (\<lambda>evidence.
      Inr \<lparr>iw_evidence = evidence, iw_last_key = None\<rparr>)))))"

definition index_append :: "root_impact_writer \<Rightarrow> root_impact_record \<Rightarrow> codec_error + root_impact_writer" where
  "index_append w r =
     (let key = ri_impact_key r in
      if (case iw_last_key w of None \<Rightarrow> False | Some previous \<Rightarrow> key \<le> previous) then Inl KeysNotOrdered
      else
      res_bind (u16_try_from (length key)) (\<lambda>n.
      res_bind (write_u16 (iw_evidence w) n) (\<lambda>e.
      res_bind (write_all e (as_bytes key)) (\<lambda>e.
      res_bind (write_all e [ri_kind r]) (\<lambda>e.
      res_bind (write_u32 e (unwrap_or u32_max (ri_source_node_ordinal r))) (\<lambda>e.
      res_bind (write_all e [mode_byte (ri_mode r)]) (\<lambda>e.
      res_bind (write_u32 e (ri_affected_root_count r)) (\<lambda>e.
      res_bind (u32_try_from (length (ri_encoded_ordinals r))) (\<lambda>n.
      res_bind (write_u32 e n) (\<lambda>e.
      res_bind (write_delta_varint e (ri_encoded_ordinals r)) (\<lambda>e.
      res_bind (record_completed e) (\<lambda>e.
      Inr \<lparr>iw_evidence = e, iw_last_key = Some key\<rparr>))))))))))))"

definition index_finish :: "(u8 list \<Rightarrow> u8 list) \<Rightarrow> (u8 list \<Rightarrow> string) \<Rightarrow> root_impact_writer \<Rightarrow> evidence_file" where
  "index_finish zstd sha256_hex w = writer_finish zstd sha256_hex (iw_evidence w)"

definition write_root_impact_index :: "root_impact_index \<Rightarrow> codec_error + root_impact_writer" where
  "write_root_impact_index idx =
     res_bind (index_writer_new (unat (rx_root_count idx))) (\<lambda>w. try_fold index_append w (rx_records idx))"

section \<open>The decoder\<close>

definition read_mode :: "root_impact_mode reader" where
  "read_mode bs =
     res_bind (read_u8 bs) (\<lambda>(b, bs).
     if b = 0 then Inr (NoRoots, bs) else if b = 1 then Inr (AllRoots, bs)
     else if b = 2 then Inr (IncludedOrdinals, bs) else if b = 3 then Inr (ExcludedOrdinals, bs)
     else Inl InvalidMode)"

definition decoded_count :: "u32 \<Rightarrow> root_impact_mode \<Rightarrow> u32 list \<Rightarrow> codec_error + u32" where
  "decoded_count root_count mode ordinals =
     (case mode of
        NoRoots \<Rightarrow> if ordinals \<noteq> [] then Inl UnexpectedPayload else Inr 0
      | AllRoots \<Rightarrow> if ordinals \<noteq> [] then Inl UnexpectedPayload else Inr root_count
      | IncludedOrdinals \<Rightarrow> u32_try_from (length ordinals)
      | ExcludedOrdinals \<Rightarrow>
          res_bind (u32_try_from (length ordinals)) (\<lambda>n.
          if n \<le> root_count then Inr (root_count - n) else Inl ExcludedExceedsRoots))"

definition decode_record :: "u32 \<Rightarrow> string option \<Rightarrow> root_impact_record reader" where
  "decode_record root_count previous_key bs =
     res_bind (read_u16 bs) (\<lambda>(key_length, bs).
     res_bind (read_exact (unat key_length) bs) (\<lambda>(key_bytes, bs).
     res_bind (from_utf8 key_bytes) (\<lambda>impact_key.
     if (case previous_key of None \<Rightarrow> False | Some previous \<Rightarrow> impact_key \<le> previous) then Inl KeysNotOrdered
     else
     res_bind (read_u8 bs) (\<lambda>(kind, bs).
     if kind \<noteq> 1 \<and> kind \<noteq> 2 then Inl InvalidKind
     else
     res_bind (read_u32 bs) (\<lambda>(source_node, bs).
     res_bind (read_mode bs) (\<lambda>(mode, bs).
     res_bind (read_u32 bs) (\<lambda>(affected_root_count, bs).
     res_bind (read_u32 bs) (\<lambda>(encoded_count, bs).
     res_bind (read_delta_varints (unat encoded_count) bs) (\<lambda>(ordinals, bs).
     if ordinals \<noteq> [] \<and> root_count \<le> last ordinals then Inl OrdinalOutOfRange
     else
     res_bind (decoded_count root_count mode ordinals) (\<lambda>n.
     if n \<noteq> affected_root_count then Inl CardinalityMismatch
     else Inr (\<lparr>ri_impact_key = impact_key, ri_kind = kind,
                ri_source_node_ordinal = (if source_node \<noteq> u32_max then Some source_node else None), ri_mode = mode,
                ri_affected_root_count = affected_root_count, ri_encoded_ordinals = ordinals\<rparr>, bs)))))))))))"

text \<open>Readers never give bytes back, so the loop over the records ends.\<close>

lemma read_exact_shorter: "read_exact n bs = Inr (x, rest) \<Longrightarrow> length rest + n = length bs"
  by (auto simp: read_exact_def split: if_splits)

lemma fixed_readers_shorter:
  "read_u8 bs = Inr (x, rest) \<Longrightarrow> length rest < length bs"
  "read_u16 bs = Inr (y, rest) \<Longrightarrow> length rest < length bs"
  "read_u32 bs = Inr (z, rest) \<Longrightarrow> length rest < length bs"
  "read_mode bs = Inr (m, rest) \<Longrightarrow> length rest < length bs"
  by (auto simp: read_u8_def read_u16_def read_u32_def read_mode_def res_simps split: if_splits dest!: read_exact_shorter)

lemma read_varint_shorter: "read_varint v shift bs = Inr (x, rest) \<Longrightarrow> length rest < length bs"
proof (induction v shift bs rule: read_varint.induct)
  case (1 v shift bs)
  from 1(2) obtain byte bs' where b: "\<not> 35 \<le> shift" "read_u8 bs = Inr (byte, bs')"
    by (subst (asm) read_varint.simps) (auto split: if_splits sum.splits)
  note shorter = fixed_readers_shorter(1) [OF b(2)]
  let ?part = "push_bit shift (ucast (byte AND 0x7F) :: u32)"
  have "read_varint v shift bs =
      (if unat v + unat ?part < 2 ^ 32
       then if byte AND 0x80 = 0 then Inr (v + ?part, bs') else read_varint (v + ?part) (shift + 7) bs'
       else Inl VarintOverflow)"
    using b by (subst read_varint.simps) (simp only: Let_def if_False sum.case prod.case)
  with 1(2) 1(1) [OF b(1) b(2) refl refl] shorter show ?case by (auto split: if_splits)
qed

lemma read_delta_varints_shorter: "read_delta_varints n bs = Inr (xs, rest) \<Longrightarrow> length rest \<le> length bs"
proof -
  have "length (snd (snd t)) \<le> length (snd (snd s))" if "try_fold ordinal_step s ks = Inr t" for s ks t
  proof -
    have "length (snd (snd t)) \<le> length (snd (snd s))"
      using that
    proof (rule try_fold_invariant)
      fix s' k t'
      assume "length (snd (snd s')) \<le> length (snd (snd s))" "ordinal_step s' k = Inr t'"
      then show "length (snd (snd t')) \<le> length (snd (snd s))"
        by (auto simp: ordinal_step_def res_simps split: prod.splits if_splits dest!: read_varint_shorter)
    qed simp
    then show ?thesis .
  qed
  then show "read_delta_varints n bs = Inr (xs, rest) \<Longrightarrow> length rest \<le> length bs"
    by (fastforce simp: read_delta_varints_def res_simps)
qed

lemma decode_record_shorter: "decode_record n k bs = Inr (r, rest) \<Longrightarrow> length rest < length bs"
  by (auto simp: decode_record_def res_simps split: if_splits
      dest!: fixed_readers_shorter read_exact_shorter read_delta_varints_shorter)

function decode_records :: "u32 \<Rightarrow> string option \<Rightarrow> u8 list \<Rightarrow> codec_error + root_impact_record list" where
  "decode_records root_count previous_key bs =
     (if bs = [] then Inr []
      else case decode_record root_count previous_key bs of
        Inl e \<Rightarrow> Inl e
      | Inr (r, rest) \<Rightarrow>
          (case decode_records root_count (Some (ri_impact_key r)) rest of Inl e \<Rightarrow> Inl e | Inr rs \<Rightarrow> Inr (r # rs)))"
  by auto

termination decode_records
  by (relation "measure (\<lambda>(n, k, bs). length bs)") (auto dest: decode_record_shorter)

declare decode_records.simps [simp del]

definition decode_root_impact_index :: "u8 list \<Rightarrow> codec_error + root_impact_index" where
  "decode_root_impact_index bs =
     res_bind (read_exact (length ROOT_IMPACT_INDEX_MAGIC) bs) (\<lambda>(magic, bs).
     if magic \<noteq> ROOT_IMPACT_INDEX_MAGIC then Inl HeaderMismatch
     else
     res_bind (read_u16 bs) (\<lambda>(version, bs).
     if version \<noteq> 1 then Inl HeaderMismatch
     else
     res_bind (read_u32 bs) (\<lambda>(root_count, bs).
     res_bind (decode_records root_count None bs) (\<lambda>records.
     Inr \<lparr>rx_root_count = root_count, rx_records = records\<rparr>))))"

section \<open>Membership\<close>

text \<open>\<open>slice::binary_search\<close>: the window is halved until one element is left, which is compared.\<close>

function search_base :: "u32 list \<Rightarrow> u32 \<Rightarrow> nat \<Rightarrow> nat \<Rightarrow> nat" where
  "search_base xs x base n =
     (if n \<le> 1 then base
      else let half = n div 2; mid = base + half in
           search_base xs x (if x < xs ! mid then base else mid) (n - half))"
  by auto

termination search_base
  by (relation "measure (\<lambda>(xs, x, base, n). n)") auto

declare search_base.simps [simp del]

definition binary_search_ok :: "u32 list \<Rightarrow> u32 \<Rightarrow> bool" where
  "binary_search_ok xs x = (if xs = [] then False else xs ! search_base xs x 0 (length xs) = x)"

definition decoded_impact_contains_root :: "root_impact_record \<Rightarrow> u32 \<Rightarrow> u32 \<Rightarrow> bool" where
  "decoded_impact_contains_root r root_ordinal root_count =
     (case ri_mode r of
        NoRoots \<Rightarrow> False
      | AllRoots \<Rightarrow> root_ordinal < root_count
      | IncludedOrdinals \<Rightarrow> binary_search_ok (ri_encoded_ordinals r) root_ordinal
      | ExcludedOrdinals \<Rightarrow> root_ordinal < root_count \<and> \<not> binary_search_ok (ri_encoded_ordinals r) root_ordinal)"

definition compact_root_impact_encoding :: "u32 list \<Rightarrow> usize \<Rightarrow> codec_error + (root_impact_mode \<times> u32 list)" where
  "compact_root_impact_encoding included root_count =
     (if included = [] then Inr (NoRoots, [])
      else if length included = root_count then Inr (AllRoots, [])
      else if length included \<le> saturating_sub root_count (length included) then Inr (IncludedOrdinals, included)
      else res_bind (u32_try_from root_count) (\<lambda>_.
           Inr (ExcludedOrdinals, filter (\<lambda>k. k \<notin> set included) (map of_nat [0..<root_count]))))"

section \<open>A written index decodes to itself\<close>

text \<open>What the callers of the writer guarantee of a record.\<close>

definition record_valid :: "u32 \<Rightarrow> root_impact_record \<Rightarrow> bool" where
  "record_valid root_count r =
     (is_utf8 (as_bytes (ri_impact_key r)) \<and> length (ri_impact_key r) < 2 ^ 16 \<and> (ri_kind r = 1 \<or> ri_kind r = 2) \<and>
      ri_source_node_ordinal r \<noteq> Some u32_max \<and> sorted_wrt (<) (ri_encoded_ordinals r) \<and>
      length (ri_encoded_ordinals r) < 2 ^ 32 \<and> (ri_encoded_ordinals r \<noteq> [] \<longrightarrow> last (ri_encoded_ordinals r) < root_count) \<and>
      decoded_count root_count (ri_mode r) (ri_encoded_ordinals r) = Inr (ri_affected_root_count r))"

definition record_bytes :: "root_impact_record \<Rightarrow> u8 list" where
  "record_bytes r =
     le_bytes 2 (length (ri_impact_key r)) @ as_bytes (ri_impact_key r) @ [ri_kind r] @
     le_bytes 4 (unat (unwrap_or u32_max (ri_source_node_ordinal r))) @ [mode_byte (ri_mode r)] @
     le_bytes 4 (unat (ri_affected_root_count r)) @ le_bytes 4 (length (ri_encoded_ordinals r)) @
     delta_bytes 0 (ri_encoded_ordinals r)"

definition key_follows :: "string option \<Rightarrow> string \<Rightarrow> bool" where
  "key_follows previous key = (case previous of None \<Rightarrow> True | Some p \<Rightarrow> p < key)"

lemma key_check: "(case previous of None \<Rightarrow> False | Some p \<Rightarrow> key \<le> p) \<longleftrightarrow> \<not> key_follows previous key"
  by (auto simp: key_follows_def split: option.splits)

text \<open>Chained writes into one, from the end of the chain.\<close>

lemma write_all_then:
  "(\<And>w. ew_byte_size w \<le> u64_max \<Longrightarrow> f w = res_bind (write_all w b) g) \<Longrightarrow>
   res_bind (write_all w a) f = res_bind (write_all w (a @ b)) g"
  by (auto simp: write_all_def add.assoc)

lemma index_append_eq:
  assumes "key_follows (iw_last_key w) (ri_impact_key r)" "record_valid n r" "ew_byte_size (iw_evidence w) \<le> u64_max"
  shows "index_append w r =
    res_bind (write_all (iw_evidence w) (record_bytes r)) (\<lambda>e.
    res_bind (record_completed e) (\<lambda>e. Inr \<lparr>iw_evidence = e, iw_last_key = Some (ri_impact_key r)\<rparr>))"
proof -
  have len: "unat (of_nat (length (ri_impact_key r)) :: u16) = length (ri_impact_key r)"
      "unat (of_nat (length (ri_encoded_ordinals r)) :: u32) = length (ri_encoded_ordinals r)"
    using assms(2) by (simp_all add: record_valid_def unat_of_nat)
  have sorted: "sorted (ri_encoded_ordinals r)" using assms(2) by (simp add: record_valid_def strict_sorted_imp_sorted)
  have try_from: "u16_try_from (length (ri_impact_key r)) = Inr (of_nat (length (ri_impact_key r)))"
      "u32_try_from (length (ri_encoded_ordinals r)) = Inr (of_nat (length (ri_encoded_ordinals r)))"
    using assms(2) by (simp_all add: record_valid_def u16_try_from_def u32_try_from_def)
  show ?thesis
    unfolding index_append_def Let_def key_check record_bytes_def
    using assms(1)
    by (simp only: simp_thms if_False not_True_eq_False try_from res_bind_simps write_u16_def write_u32_def len)
       (intro write_all_then, simp add: write_delta_varint_eq [OF sorted])
qed

lemma read_u16_le: "n < 2 ^ 16 \<Longrightarrow> read_u16 (le_bytes 2 n @ rest) = Inr (of_nat n, rest)"
  using u16.get_put [of "of_nat n" rest] by (simp add: unat_of_nat del: le_bytes.simps)

lemma read_u32_le: "n < 2 ^ 32 \<Longrightarrow> read_u32 (le_bytes 4 n @ rest) = Inr (of_nat n, rest)"
  using u32.get_put [of "of_nat n" rest] by (simp add: unat_of_nat del: le_bytes.simps)

lemma read_mode_byte: "read_mode (mode_byte m # rest) = Inr (m, rest)"
  by (cases m) (simp_all add: read_mode_def mode_byte_def)

lemma decode_record_bytes:
  assumes "key_follows previous (ri_impact_key r)" "record_valid n r"
  shows "decode_record n previous (record_bytes r @ rest) = Inr (r, rest)"
proof -
  note v = assms(2) [unfolded record_valid_def]
  have len: "unat (of_nat (length (ri_impact_key r)) :: u16) = length (ri_impact_key r)"
      "unat (of_nat (length (ri_encoded_ordinals r)) :: u32) = length (ri_encoded_ordinals r)"
    using v by (simp_all add: unat_of_nat)
  have fields: "read_u16 (le_bytes 2 (length (ri_impact_key r)) @ x) = Inr (of_nat (length (ri_impact_key r)), x)"
      "read_exact (length (ri_impact_key r)) (as_bytes (ri_impact_key r) @ x) = Inr (as_bytes (ri_impact_key r), x)"
      "read_u32 (le_bytes 4 (unat u) @ x) = Inr (u, x)"
      "read_u32 (le_bytes 4 (length (ri_encoded_ordinals r)) @ x) = Inr (of_nat (length (ri_encoded_ordinals r)), x)"
      "read_delta_varints (length (ri_encoded_ordinals r)) (delta_bytes 0 (ri_encoded_ordinals r) @ x) = Inr (ri_encoded_ordinals r, x)"
    for x u
    using v read_u16_le read_u32_le u32.get_put ord.get_put by simp_all
  have src: "(if unwrap_or u32_max (ri_source_node_ordinal r) \<noteq> u32_max then Some (unwrap_or u32_max (ri_source_node_ordinal r)) else None) =
      ri_source_node_ordinal r"
    using v by (cases "ri_source_node_ordinal r") auto
  show ?thesis
    unfolding decode_record_def record_bytes_def key_check
    using assms(1) v
    by (auto simp: fields len from_utf8_as_bytes read_mode_byte src not_le simp del: le_bytes.simps)
qed

lemma decode_records_bytes:
  assumes "list_all (record_valid n) rs" "sorted_wrt (<) (map ri_impact_key rs)" "rs \<noteq> [] \<longrightarrow> key_follows previous (ri_impact_key (hd rs))"
  shows "decode_records n previous (concat (map record_bytes rs)) = Inr rs"
  using assms
proof (induction rs arbitrary: previous)
  case Nil
  then show ?case by (simp add: decode_records.simps)
next
  case (Cons r rs)
  have next_key: "rs \<noteq> [] \<longrightarrow> key_follows (Some (ri_impact_key r)) (ri_impact_key (hd rs))"
    using Cons.prems(2) by (cases rs) (auto simp: key_follows_def)
  have "concat (map record_bytes (r # rs)) = record_bytes r @ concat (map record_bytes rs)" by simp
  moreover have "record_bytes r @ concat (map record_bytes rs) \<noteq> []" by (simp add: record_bytes_def numeral_2_eq_2)
  moreover have "decode_record n previous (record_bytes r @ concat (map record_bytes rs)) = Inr (r, concat (map record_bytes rs))"
    using Cons.prems by (intro decode_record_bytes) simp_all
  moreover have "decode_records n (Some (ri_impact_key r)) (concat (map record_bytes rs)) = Inr rs"
    using Cons.prems next_key by (intro Cons.IH) simp_all
  ultimately show ?case by (subst decode_records.simps) (simp only: if_False sum.case prod.case)
qed

lemma append_records:
  assumes "list_all (record_valid n) rs" "sorted_wrt (<) (map ri_impact_key rs)"
    and "rs \<noteq> [] \<longrightarrow> key_follows (iw_last_key w) (ri_impact_key (hd rs))"
    and "ew_byte_size (iw_evidence w) + length (concat (map record_bytes rs)) \<le> u64_max"
    and "ew_record_count (iw_evidence w) + length rs \<le> u64_max"
  shows "\<exists>w'. try_fold index_append w rs = Inr w' \<and>
    ew_output (iw_evidence w') = ew_output (iw_evidence w) @ concat (map record_bytes rs) \<and>
    ew_byte_size (iw_evidence w') = ew_byte_size (iw_evidence w) + length (concat (map record_bytes rs)) \<and>
    ew_record_count (iw_evidence w') = ew_record_count (iw_evidence w) + length rs"
  using assms
proof (induction rs arbitrary: w)
  case (Cons r rs)
  let ?e = "(iw_evidence w)\<lparr>ew_output := ew_output (iw_evidence w) @ record_bytes r,
      ew_byte_size := ew_byte_size (iw_evidence w) + length (record_bytes r),
      ew_record_count := ew_record_count (iw_evidence w) + 1\<rparr>"
  let ?w = "\<lparr>iw_evidence = ?e, iw_last_key = Some (ri_impact_key r)\<rparr>"
  have "index_append w r = Inr ?w"
    using Cons.prems by (subst index_append_eq [where n = n]) (simp_all add: write_all_ok record_completed_def)
  moreover have "rs \<noteq> [] \<longrightarrow> key_follows (Some (ri_impact_key r)) (ri_impact_key (hd rs))"
    using Cons.prems(2) by (cases rs) (auto simp: key_follows_def)
  then have "\<exists>w'. try_fold index_append ?w rs = Inr w' \<and>
    ew_output (iw_evidence w') = ew_output (iw_evidence ?w) @ concat (map record_bytes rs) \<and>
    ew_byte_size (iw_evidence w') = ew_byte_size (iw_evidence ?w) + length (concat (map record_bytes rs)) \<and>
    ew_record_count (iw_evidence w') = ew_record_count (iw_evidence ?w) + length rs"
    using Cons.prems by (intro Cons.IH) simp_all
  ultimately show ?case by auto
qed simp

definition index_valid :: "root_impact_index \<Rightarrow> bool" where
  "index_valid idx =
     (list_all (record_valid (rx_root_count idx)) (rx_records idx) \<and> sorted_wrt (<) (map ri_impact_key (rx_records idx)))"

lemma length_magic: "length ROOT_IMPACT_INDEX_MAGIC = 12"
  by (simp add: ROOT_IMPACT_INDEX_MAGIC_def)

lemma index_writer_new_eq:
  "index_writer_new (unat n) =
     Inr \<lparr>iw_evidence = (writer_new ''evidence/root-impact-index-v1.bin.zst''
            ''application/vnd.tiangong.scope-closure-root-impact-index+zstd'')
            \<lparr>ew_output := ROOT_IMPACT_INDEX_MAGIC @ le_bytes 2 1 @ le_bytes 4 (unat (n :: u32)), ew_byte_size := 18\<rparr>,
          iw_last_key = None\<rparr>"
proof -
  have "unat n < 2 ^ 32" using unsigned_less [of n, where ?'a = nat] by simp
  then show ?thesis
    by (simp add: index_writer_new_def writer_new_def write_all_def write_u16_def write_u32_def u32_try_from_def length_magic
        u64_max_def Let_def unat_of_nat del: le_bytes.simps)
qed

text \<open>
  C26. The root impact index round-trips: an index whose keys are strictly ordered and whose records satisfy the
  writer's contract is written without error, and decoding the bytes gives back the root count and every
  record; the byte and record counts of the file are those of its content.
\<close>

theorem root_impact_index_roundtrip:
  assumes "index_valid idx" "18 + length (concat (map record_bytes (rx_records idx))) \<le> u64_max"
    and "length (rx_records idx) \<le> u64_max"
  shows "\<exists>w. write_root_impact_index idx = Inr w \<and> decode_root_impact_index (ew_output (iw_evidence w)) = Inr idx \<and>
    ew_byte_size (iw_evidence w) = length (ew_output (iw_evidence w)) \<and>
    ew_record_count (iw_evidence w) = length (rx_records idx)"
proof -
  let ?n = "rx_root_count idx" and ?rs = "rx_records idx"
  obtain w0 where w0: "index_writer_new (unat ?n) = Inr w0" "iw_last_key w0 = None" "ew_record_count (iw_evidence w0) = 0"
      "ew_output (iw_evidence w0) = ROOT_IMPACT_INDEX_MAGIC @ le_bytes 2 1 @ le_bytes 4 (unat ?n)" "ew_byte_size (iw_evidence w0) = 18"
    by (simp add: index_writer_new_eq writer_new_def del: le_bytes.simps)
  obtain w where w: "try_fold index_append w0 ?rs = Inr w"
      "ew_output (iw_evidence w) = ew_output (iw_evidence w0) @ concat (map record_bytes ?rs)"
      "ew_byte_size (iw_evidence w) = 18 + length (concat (map record_bytes ?rs))"
      "ew_record_count (iw_evidence w) = length ?rs"
    using append_records [of ?n ?rs w0] assms w0 by (auto simp: index_valid_def key_follows_def)
  have "decode_records ?n None (concat (map record_bytes ?rs)) = Inr ?rs"
    using assms(1) by (intro decode_records_bytes) (simp_all add: index_valid_def key_follows_def)
  then have "decode_root_impact_index (ew_output (iw_evidence w)) = Inr idx"
    using read_u16_le [of 1] u32.get_put [of ?n]
    by (simp add: decode_root_impact_index_def w(2) w0(4) del: le_bytes.simps)
  with w w0 show ?thesis
    by (simp add: write_root_impact_index_def length_magic del: le_bytes.simps)
qed

section \<open>The compact encoding answers membership\<close>

lemma search_base_bounds:
  assumes "0 < n" "base + n \<le> length xs"
  shows "base \<le> search_base xs x base n \<and> search_base xs x base n < base + n"
  using assms
proof (induction xs x base n rule: search_base.induct)
  case (1 xs x base n)
  show ?case
  proof (cases "n \<le> 1")
    case True
    with 1(2) show ?thesis by (subst (1 2) search_base.simps) simp
  next
    case False
    let ?b = "if x < xs ! (base + n div 2) then base else base + n div 2"
    have "search_base xs x base n = search_base xs x ?b (n - n div 2)"
      using False by (subst search_base.simps) (simp add: Let_def)
    moreover have "?b \<le> search_base xs x ?b (n - n div 2) \<and> search_base xs x ?b (n - n div 2) < ?b + (n - n div 2)"
      using False 1(3) by (intro 1(1) [OF False refl refl]) auto
    moreover have "base \<le> ?b \<and> ?b + (n - n div 2) \<le> base + n" by auto
    ultimately show ?thesis by linarith
  qed
qed

lemma search_base_finds:
  assumes "sorted xs" "base \<le> i" "i < base + n" "base + n \<le> length xs" "xs ! i = x"
  shows "xs ! search_base xs x base n = x"
  using assms
proof (induction xs x base n arbitrary: i rule: search_base.induct)
  case (1 xs x base n)
  show ?case
  proof (cases "n \<le> 1")
    case True
    with 1(3,4) have "i = base" by simp
    with True 1(6) show ?thesis by (subst search_base.simps) simp
  next
    case False
    let ?half = "n div 2" and ?mid = "base + n div 2"
    have mid: "?mid < length xs" using False 1(5) by simp
    show ?thesis
    proof (cases "x < xs ! ?mid")
      case True
      have "i < ?mid"
      proof (rule ccontr)
        assume "\<not> i < ?mid"
        then have "xs ! ?mid \<le> xs ! i" using 1(2,4,5) by (intro sorted_nth_mono) simp_all
        with True 1(6) show False by simp
      qed
      then have "xs ! search_base xs x base (n - ?half) = x"
        using 1(1) [OF False refl refl, of i] True 1(2-6) by simp
      with True False show ?thesis by (subst search_base.simps) (simp add: Let_def)
    next
      case False': False
      obtain j where "?mid \<le> j" "j < base + n" "xs ! j = x"
      proof (cases "?mid \<le> i")
        case True
        with 1(4,6) that show ?thesis by blast
      next
        case False
        then have "xs ! i \<le> xs ! ?mid" using 1(2) mid by (intro sorted_nth_mono) simp_all
        with False' 1(6) have "xs ! ?mid = x" by simp
        with that [of ?mid] \<open>\<not> n \<le> 1\<close> show ?thesis by simp
      qed
      moreover have "?mid + (n - ?half) = base + n" by simp
      ultimately have "xs ! search_base xs x ?mid (n - ?half) = x"
        using 1(1) [OF False refl refl, of j] False' 1(2,5) by simp
      with False False' show ?thesis by (subst search_base.simps) (simp add: Let_def)
    qed
  qed
qed

lemma binary_search_ok_iff: "sorted xs \<Longrightarrow> binary_search_ok xs x \<longleftrightarrow> x \<in> set xs"
proof (cases "xs = []")
  case False
  assume s: "sorted xs"
  have "search_base xs x 0 (length xs) < length xs" using False search_base_bounds [of "length xs" 0 xs x] by simp
  moreover have "xs ! search_base xs x 0 (length xs) = x" if "x \<in> set xs"
    using that s by (metis add_0 in_set_conv_nth le0 order_refl search_base_finds)
  ultimately show ?thesis using False by (metis binary_search_ok_def nth_mem)
qed (simp add: binary_search_ok_def)

text \<open>The ordinals \<open>0 .. root_count - 1\<close> in order.\<close>

lemma ordinals_below:
  assumes "n < 2 ^ 32"
  shows "sorted_wrt (<) (map of_nat [0..<n] :: u32 list)" "set (map of_nat [0..<n] :: u32 list) = {k. k < of_nat n}"
proof -
  have unat: "unat (of_nat i :: u32) = i" if "i \<le> n" for i using that assms by (simp add: unat_of_nat)
  show "sorted_wrt (<) (map of_nat [0..<n] :: u32 list)"
    by (auto simp: sorted_wrt_iff_nth_less word_less_nat_alt unat)
  have "k \<in> of_nat ` {0..<n}" if "k < of_nat n" for k :: u32
    using that unat [of n] by (intro image_eqI [of _ _ "unat k"]) (simp_all add: word_less_nat_alt)
  then show "set (map of_nat [0..<n] :: u32 list) = {k. k < of_nat n}"
    by (auto simp: word_less_nat_alt unat)
qed

text \<open>
  C27. The compact encoding is exact and compact: for strictly ascending root ordinals below the root count, the
  mode and ordinals it chooses answer membership of every ordinal exactly, decode to the number of included
  roots, are strictly ascending and in range, and are at most half of the root count.
\<close>

theorem compact_encoding_exact:
  assumes "sorted_wrt (<) included" "set included \<subseteq> {k. k < of_nat root_count}" "root_count < 2 ^ 32"
  shows "\<exists>mode ordinals. compact_root_impact_encoding included root_count = Inr (mode, ordinals) \<and>
    (\<forall>r k. ri_mode r = mode \<and> ri_encoded_ordinals r = ordinals \<longrightarrow>
       (decoded_impact_contains_root r k (of_nat root_count) \<longleftrightarrow> k \<in> set included)) \<and>
    decoded_count (of_nat root_count) mode ordinals = Inr (of_nat (length included)) \<and>
    sorted_wrt (<) ordinals \<and> set ordinals \<subseteq> {k. k < of_nat root_count} \<and> 2 * length ordinals \<le> root_count"
proof -
  let ?all = "map of_nat [0..<root_count] :: u32 list"
  let ?excluded = "filter (\<lambda>k. k \<notin> set included) ?all"
  note all = ordinals_below [OF assms(3)]
  have inc: "sorted included" "distinct included" using assms(1) by (simp_all add: strict_sorted_iff)
  have exc: "sorted_wrt (<) ?excluded" using all(1) by (intro sorted_wrt_filter)
  then have exc': "sorted ?excluded" by (rule strict_sorted_imp_sorted)
  have dist: "distinct ?all" using all(1) by (simp only: strict_sorted_iff)
  have filt: "set (filter (\<lambda>k. k \<in> set included) ?all) = set included" using all(2) assms(2) by auto
  then have "length (filter (\<lambda>k. k \<in> set included) ?all) = length included"
    using dist inc(2) by (metis distinct_card distinct_filter)
  then have count: "length included + length ?excluded = root_count"
    using sum_length_filter_compl [of "\<lambda>k. k \<in> set included" ?all] by simp
  show ?thesis
  proof (cases "included = []")
    case True
    then show ?thesis by (simp add: compact_root_impact_encoding_def decoded_impact_contains_root_def decoded_count_def)
  next
    case ne: False
    show ?thesis
    proof (cases "length included = root_count")
      case True
      then have "length ?excluded = 0" using count by linarith
      then have "?excluded = []" by (simp only: length_0_conv)
      then have "set ?all \<subseteq> set included" by (auto simp only: filter_empty_conv)
      then have "set included = {k. k < of_nat root_count}" using assms(2) unfolding all(2) by blast
      with True ne show ?thesis
        by (simp add: compact_root_impact_encoding_def decoded_impact_contains_root_def decoded_count_def)
    next
      case few: False
      show ?thesis
      proof (cases "length included \<le> root_count - length included")
        case True
        with ne few count assms inc show ?thesis
          by (auto simp: compact_root_impact_encoding_def decoded_impact_contains_root_def decoded_count_def
              binary_search_ok_iff u32_try_from_def saturating_sub_def)
      next
        case False
        have sub: "of_nat root_count - of_nat (length ?excluded) = (of_nat (length included) :: u32)"
          using count by (metis add_diff_cancel_right' of_nat_add)
        have le: "(of_nat (length ?excluded) :: u32) \<le> of_nat root_count"
          using count assms(3) by (simp add: word_le_nat_alt unat_of_nat)
        have mem: "k < of_nat root_count \<and> k \<notin> set ?excluded \<longleftrightarrow> k \<in> set included" for k
          using all(2) assms(2) by auto
        have "compact_root_impact_encoding included root_count = Inr (ExcludedOrdinals, ?excluded)"
          using ne few False assms(3) by (simp add: compact_root_impact_encoding_def u32_try_from_def saturating_sub_def)
        moreover have "decoded_count (of_nat root_count) ExcludedOrdinals ?excluded = Inr (of_nat (length included))"
          using sub le count assms(3) by (simp add: decoded_count_def u32_try_from_def)
        moreover have "decoded_impact_contains_root r k (of_nat root_count) \<longleftrightarrow> k \<in> set included"
          if "ri_mode r = ExcludedOrdinals \<and> ri_encoded_ordinals r = ?excluded" for r k
          using that mem [of k] by (simp add: decoded_impact_contains_root_def binary_search_ok_iff [OF exc'] del: set_filter)
        moreover have "set ?excluded \<subseteq> {k. k < of_nat root_count}" using all(2) by auto
        ultimately show ?thesis using exc count False
          by (intro exI [of _ ExcludedOrdinals] exI [of _ ?excluded]) (auto simp del: set_filter)
      qed
    qed
  qed
qed

section \<open>Witnesses\<close>

definition example_index :: root_impact_index where
  "example_index = \<lparr>rx_root_count = 300, rx_records =
     [\<lparr>ri_impact_key = ''a'', ri_kind = 1, ri_source_node_ordinal = Some 7, ri_mode = IncludedOrdinals,
       ri_affected_root_count = 2, ri_encoded_ordinals = [3, 200]\<rparr>,
      \<lparr>ri_impact_key = ''b'', ri_kind = 2, ri_source_node_ordinal = None, ri_mode = ExcludedOrdinals,
       ri_affected_root_count = 299, ri_encoded_ordinals = [0]\<rparr>]\<rparr>"

lemma root_impact_index_roundtrip_witness:
  "\<exists>w. write_root_impact_index example_index = Inr w \<and> decode_root_impact_index (ew_output (iw_evidence w)) = Inr example_index"
proof -
  have "index_valid example_index"
    by (simp add: example_index_def index_valid_def record_valid_def as_bytes_def in_range_def decoded_count_def u32_try_from_def u32_max_def
        word_less_nat_alt word_le_nat_alt)
  moreover have "length (concat (map record_bytes (rx_records example_index))) \<le> 100"
    using delta_size [of 0 "[3, 200]"] delta_size [of 0 "[0]"] by (simp add: example_index_def record_bytes_def)
  ultimately show ?thesis
    using root_impact_index_roundtrip [of example_index] by (auto simp: u64_max_def example_index_def)
qed

lemma compact_encoding_exact_witness:
  "\<exists>mode ordinals. compact_root_impact_encoding [1, 2] 3 = Inr (mode, ordinals) \<and> 2 * length ordinals \<le> 3"
  using compact_encoding_exact [of "[1, 2]" 3] by (auto simp: word_less_nat_alt)

end
