(* ===== verification/Reference_Graph.thy ===== *)
theory Reference_Graph
  imports Byte_Codec
begin

text \<open>
  The reference graph of a scope closure, \<open>crates/solver-worker/src/scope_closure.rs\<close>: its construction from
  resolved references, the breadth-first search that finds the roots an issue affects with a witness path for
  each, and the frozen binary file of the graph with its decoder. Theorems: the graph has exactly the reference
  edges, the search finds exactly the roots that reach the source with a path of references, and the frozen
  file decodes to the graph.
\<close>

section \<open>Identities\<close>

datatype dataset_category =
  Contacts | Flowproperties | Flows | Lciamethods | Lifecyclemodels | Processes | Sources | Unitgroups

definition table_name :: "dataset_category \<Rightarrow> string" where
  "table_name c =
     (case c of Contacts \<Rightarrow> ''contacts'' | Flowproperties \<Rightarrow> ''flowproperties'' | Flows \<Rightarrow> ''flows''
      | Lciamethods \<Rightarrow> ''lciamethods'' | Lifecyclemodels \<Rightarrow> ''lifecyclemodels'' | Processes \<Rightarrow> ''processes''
      | Sources \<Rightarrow> ''sources'' | Unitgroups \<Rightarrow> ''unitgroups'')"

definition parse_category :: "string \<Rightarrow> codec_error + dataset_category" where
  "parse_category v =
     (if v = ''contacts'' then Inr Contacts else if v = ''flowproperties'' then Inr Flowproperties
      else if v = ''flows'' then Inr Flows else if v = ''lciamethods'' then Inr Lciamethods
      else if v = ''lifecyclemodels'' then Inr Lifecyclemodels else if v = ''processes'' then Inr Processes
      else if v = ''sources'' then Inr Sources else if v = ''unitgroups'' then Inr Unitgroups
      else Inl (UnsupportedCategory v))"

text \<open>An identity is ordered by category (in the order of declaration), the bytes of the UUID and the version.\<close>

datatype exact_dataset_identity = Identity (id_category: dataset_category) (id_bytes: "u8 list") (id_version: string)

definition category_rank :: "dataset_category \<Rightarrow> nat" where
  "category_rank c =
     (case c of Contacts \<Rightarrow> 0 | Flowproperties \<Rightarrow> 1 | Flows \<Rightarrow> 2 | Lciamethods \<Rightarrow> 3 | Lifecyclemodels \<Rightarrow> 4
      | Processes \<Rightarrow> 5 | Sources \<Rightarrow> 6 | Unitgroups \<Rightarrow> 7)"

lemma category_rank_inj [simp]: "category_rank c = category_rank d \<longleftrightarrow> c = d"
  by (cases c; cases d) (simp_all add: category_rank_def)

instantiation exact_dataset_identity :: linorder
begin

definition less_eq_exact_dataset_identity :: "exact_dataset_identity \<Rightarrow> exact_dataset_identity \<Rightarrow> bool" where
  "i \<le> j \<longleftrightarrow> category_rank (id_category i) < category_rank (id_category j) \<or>
     (id_category i = id_category j \<and> (id_bytes i < id_bytes j \<or> (id_bytes i = id_bytes j \<and> id_version i \<le> id_version j)))"

definition less_exact_dataset_identity :: "exact_dataset_identity \<Rightarrow> exact_dataset_identity \<Rightarrow> bool" where
  "i < j \<longleftrightarrow> i \<le> j \<and> \<not> j \<le> (i :: exact_dataset_identity)"

instance
proof
  fix x y z :: exact_dataset_identity
  show "(x < y) = (x \<le> y \<and> \<not> y \<le> x)" by (simp add: less_exact_dataset_identity_def)
  show "x \<le> x" by (simp add: less_eq_exact_dataset_identity_def)
  show "x \<le> y \<Longrightarrow> y \<le> z \<Longrightarrow> x \<le> z" by (auto simp: less_eq_exact_dataset_identity_def)
  show "x \<le> y \<Longrightarrow> y \<le> x \<Longrightarrow> x = y"
    by (auto simp: less_eq_exact_dataset_identity_def intro: exact_dataset_identity.expand)
  show "x \<le> y \<or> y \<le> x"
    using less_linear [of "category_rank (id_category x)" "category_rank (id_category y)"]
    by (auto simp: less_eq_exact_dataset_identity_def)
qed

end

record resolved_reference =
  rr_source :: exact_dataset_identity
  rr_target :: exact_dataset_identity
  rr_json_path :: string
  rr_reference_role :: string
  rr_requested_version_state :: string

section \<open>The graph\<close>

record compact_reference_graph =
  rg_identities :: "exact_dataset_identity list"
  rg_identity_ids :: "(exact_dataset_identity \<times> u32) list"
  rg_reverse :: "u32 list list"

definition number_identities :: "exact_dataset_identity list \<Rightarrow> codec_error + (exact_dataset_identity \<times> u32) list" where
  "number_identities identities =
     try_map (\<lambda>(index, i). res_bind (u32_try_from index) (\<lambda>n. Inr (i, n))) (List.enumerate 0 identities)"

definition add_reference ::
  "(exact_dataset_identity \<times> u32) list \<Rightarrow> u32 list list \<Rightarrow> resolved_reference \<Rightarrow> codec_error + u32 list list" where
  "add_reference ids rev_edges reference =
     res_bind (ok_or OmittedIdentity (map_of ids (rr_source reference))) (\<lambda>source.
     res_bind (ok_or OmittedIdentity (map_of ids (rr_target reference))) (\<lambda>target.
     if unat target < length rev_edges
     then Inr (rev_edges[unat target := rev_edges ! unat target @ [source]])
     else Inl IndexPanic))"

definition from_references ::
  "resolved_reference list \<Rightarrow> exact_dataset_identity list \<Rightarrow> codec_error + compact_reference_graph" where
  "from_references references roots =
     (let identities = sort (remdups (concat (map (\<lambda>r. [rr_source r, rr_target r]) references) @ roots)) in
      res_bind (number_identities identities) (\<lambda>ids.
      res_bind (try_fold (add_reference ids) (replicate (length identities) []) references) (\<lambda>rev_edges.
      Inr \<lparr>rg_identities = identities, rg_identity_ids = ids, rg_reverse = map (\<lambda>ps. remdups_adj (sort ps)) rev_edges\<rparr>)))"

record stable_root_ordinals =
  sr_roots :: "exact_dataset_identity list"
  sr_ordinal_by_identity :: "(exact_dataset_identity \<times> u32) list"
  sr_graph_node_ordinals :: "u32 list"

definition stable_root_ordinals_new ::
  "exact_dataset_identity list \<Rightarrow> compact_reference_graph \<Rightarrow> codec_error + stable_root_ordinals" where
  "stable_root_ordinals_new roots graph =
     (let roots = sort (remdups roots) in
      res_bind (number_identities roots) (\<lambda>ordinals.
      res_bind (try_map (\<lambda>root. ok_or OmittedIdentity (map_of (rg_identity_ids graph) root)) roots) (\<lambda>nodes.
      Inr \<lparr>sr_roots = roots, sr_ordinal_by_identity = ordinals, sr_graph_node_ordinals = nodes\<rparr>)))"

section \<open>The search\<close>

record search_state =
  ss_visited :: "bool list"
  ss_parent :: "u32 option list"
  ss_queue :: "u32 list"

definition visit_predecessor :: "u32 \<Rightarrow> search_state \<Rightarrow> u32 \<Rightarrow> codec_error + search_state" where
  "visit_predecessor node s predecessor =
     (let i = unat predecessor in
      if i < length (ss_visited s)
      then if ss_visited s ! i then Inr s
           else if i < length (ss_parent s)
           then Inr \<lparr>ss_visited = (ss_visited s)[i := True], ss_parent = (ss_parent s)[i := Some node],
                     ss_queue = ss_queue s @ [predecessor]\<rparr>
           else Inl IndexPanic
      else Inl IndexPanic)"

definition search_start :: "nat \<Rightarrow> u32 \<Rightarrow> codec_error + search_state" where
  "search_start n source =
     (if unat source < n
      then Inr \<lparr>ss_visited = (replicate n False)[unat source := True], ss_parent = replicate n None, ss_queue = [source]\<rparr>
      else Inl IndexPanic)"

text \<open>Every turn of the loop takes one node from the queue, and every node enters it at most once.\<close>

definition search_size :: "search_state \<Rightarrow> nat" where
  "search_size s = 2 * count_list (ss_visited s) False + length (ss_queue s)"

lemma count_list_mark: "i < length xs \<Longrightarrow> \<not> xs ! i \<Longrightarrow> Suc (count_list (xs[i := True]) False) = count_list xs False"
proof (induction xs arbitrary: i)
  case (Cons x xs)
  then show ?case by (cases i) auto
qed simp

lemma visit_predecessor_size: "visit_predecessor node s p = Inr t \<Longrightarrow> search_size t \<le> search_size s"
  using count_list_mark [of "unat p" "ss_visited s"]
  by (auto simp: visit_predecessor_def search_size_def Let_def split: if_splits)

lemma visit_predecessors_size: "try_fold (visit_predecessor node) s ps = Inr t \<Longrightarrow> search_size t \<le> search_size s"
  by (erule try_fold_invariant [where P = "\<lambda>t. search_size t \<le> search_size s"])
     (auto dest: visit_predecessor_size)

text \<open>The search to the end; a node without an entry in the edge table has no predecessors.\<close>

definition predecessors :: "u32 list list \<Rightarrow> u32 \<Rightarrow> u32 list" where
  "predecessors rev_edges node = (if unat node < length rev_edges then rev_edges ! unat node else [])"

function search_all :: "u32 list list \<Rightarrow> search_state \<Rightarrow> codec_error + search_state" where
  "search_all rev_edges s =
     (case ss_queue s of
        [] \<Rightarrow> Inr s
      | node # queue \<Rightarrow>
          (case try_fold (visit_predecessor node) (s\<lparr>ss_queue := queue\<rparr>) (predecessors rev_edges node) of
             Inl e \<Rightarrow> Inl e
           | Inr t \<Rightarrow> search_all rev_edges t))"
  by auto

termination search_all
  by (relation "measure (\<lambda>(r, s). search_size s)") (auto simp: search_size_def dest!: visit_predecessors_size)

declare search_all.simps [simp del]

text \<open>The search of the decoded graph stops when it takes the root from the queue.\<close>

function search_until :: "u32 \<Rightarrow> u32 list list \<Rightarrow> search_state \<Rightarrow> codec_error + search_state" where
  "search_until root_node rev_edges s =
     (case ss_queue s of
        [] \<Rightarrow> Inl WitnessNotFound
      | node # queue \<Rightarrow>
          if node = root_node then Inr (s\<lparr>ss_queue := queue\<rparr>)
          else if unat node < length rev_edges
          then (case try_fold (visit_predecessor node) (s\<lparr>ss_queue := queue\<rparr>) (rev_edges ! unat node) of
                  Inl e \<Rightarrow> Inl e
                | Inr t \<Rightarrow> search_until root_node rev_edges t)
          else Inl NodeOutOfRange)"
  by auto

termination search_until
  by (relation "measure (\<lambda>(n, r, s). search_size s)") (auto simp: search_size_def dest!: visit_predecessors_size)

declare search_until.simps [simp del]

text \<open>
  The walk along the parents does not end when they have a cycle; a walk that takes more steps than there are
  nodes repeats one, so the number of nodes is enough fuel and running out of it is divergence.
\<close>

fun witness_walk ::
  "nat \<Rightarrow> exact_dataset_identity list \<Rightarrow> u32 option list \<Rightarrow> u32 option \<Rightarrow> exact_dataset_identity list
   \<Rightarrow> codec_error + exact_dataset_identity list" where
  "witness_walk fuel identities parents None path = Inr (rev path)"
| "witness_walk 0 identities parents (Some node) path = Inl WalkDiverges"
| "witness_walk (Suc fuel) identities parents (Some node) path =
     (let i = unat node in
      if i < length identities \<and> i < length parents
      then witness_walk fuel identities parents (parents ! i) (path @ [identities ! i])
      else Inl IndexPanic)"

definition reconstruct_witness_path ::
  "u32 \<Rightarrow> u32 option list \<Rightarrow> exact_dataset_identity list \<Rightarrow> codec_error + exact_dataset_identity list" where
  "reconstruct_witness_path root_node parents identities =
     witness_walk (length identities) identities parents (Some root_node) []"

definition visit_root ::
  "('s \<Rightarrow> exact_dataset_identity \<Rightarrow> exact_dataset_identity list \<Rightarrow> codec_error + 's) \<Rightarrow> compact_reference_graph
   \<Rightarrow> search_state \<Rightarrow> 's \<Rightarrow> u32 \<Rightarrow> codec_error + 's" where
  "visit_root visit graph s acc root_node =
     (let i = unat root_node in
      if i < length (ss_visited s)
      then if ss_visited s ! i
           then res_bind (reconstruct_witness_path root_node (ss_parent s) (rg_identities graph)) (\<lambda>path.
                if i < length (rg_identities graph) then visit acc (rg_identities graph ! i) path else Inl IndexPanic)
           else Inr acc
      else Inl IndexPanic)"

definition visit_single_source_affected_roots ::
  "('s \<Rightarrow> exact_dataset_identity \<Rightarrow> exact_dataset_identity list \<Rightarrow> codec_error + 's) \<Rightarrow> 's
   \<Rightarrow> u32 \<Rightarrow> u32 list \<Rightarrow> compact_reference_graph \<Rightarrow> codec_error + 's" where
  "visit_single_source_affected_roots visit acc source root_ids graph =
     res_bind (search_start (length (rg_identities graph)) source) (\<lambda>s.
     res_bind (search_all (rg_reverse graph) s) (\<lambda>s.
     try_fold (visit_root visit graph s) acc root_ids))"

definition ISSUE_INLINE_AFFECTED_ROOT_SAMPLE_LIMIT :: nat where
  "ISSUE_INLINE_AFFECTED_ROOT_SAMPLE_LIMIT = 100"

type_synonym affected = "nat \<times> exact_dataset_identity list \<times> exact_dataset_identity list list"

definition sample_root :: "affected \<Rightarrow> exact_dataset_identity \<Rightarrow> exact_dataset_identity list \<Rightarrow> codec_error + affected" where
  "sample_root acc root_identity witness =
     (case acc of (n, roots, witnesses) \<Rightarrow>
        let n = min (n + 1) (2 ^ 32 - 1) in
        if length roots < ISSUE_INLINE_AFFECTED_ROOT_SAMPLE_LIMIT
        then Inr (n, roots @ [root_identity], witnesses @ [witness]) else Inr (n, roots, witnesses))"

definition compute_single_source_affected_roots :: "u32 \<Rightarrow> u32 list \<Rightarrow> compact_reference_graph \<Rightarrow> codec_error + affected" where
  "compute_single_source_affected_roots source root_ids graph =
     visit_single_source_affected_roots sample_root (0, [], []) source root_ids graph"

section \<open>The graph has the reference edges\<close>

lemma try_from_index: "u32_try_from index = Inr n \<longleftrightarrow> index < 2 ^ 32 \<and> n = of_nat index"
  by (auto simp: u32_try_from_def)

lemma number_identities_eq:
  "length xs \<le> 2 ^ 32 \<Longrightarrow> number_identities xs = Inr (zip xs (map of_nat [0..<length xs]))"
  unfolding number_identities_def
proof -
  assume "length xs \<le> 2 ^ 32"
  then have "try_map (\<lambda>(index, i). res_bind (u32_try_from index) (\<lambda>n. Inr (i, n))) (List.enumerate 0 xs) =
      Inr (map (\<lambda>(index, i). (i, of_nat index)) (List.enumerate 0 xs))"
    by (intro try_map_total) (auto simp: in_set_enumerate_eq u32_try_from_def)
  also have "map (\<lambda>(index, i). (i, of_nat index)) (List.enumerate 0 xs) = zip xs (map of_nat [0..<length xs])"
    by (rule nth_equalityI) (simp_all add: nth_enumerate_eq)
  finally show "try_map (\<lambda>(index, i). res_bind (u32_try_from index) (\<lambda>n. Inr (i, n))) (List.enumerate 0 xs) =
      Inr (zip xs (map of_nat [0..<length xs]))" .
qed

lemma number_identities_fails: "2 ^ 32 < length xs \<Longrightarrow> number_identities xs \<noteq> Inr ids"
proof
  assume "2 ^ 32 < length xs" "number_identities xs = Inr ids"
  then have "list_all2 (\<lambda>(index, i) y. res_bind (u32_try_from index) (\<lambda>n. Inr (i, n)) = Inr y) (List.enumerate 0 xs) ids"
    by (simp add: number_identities_def try_map_eq_Inr case_prod_unfold)
  then have "res_bind (u32_try_from (2 ^ 32)) (\<lambda>n. Inr (xs ! (2 ^ 32), n)) = Inr (ids ! (2 ^ 32))"
    using \<open>2 ^ 32 < length xs\<close> unfolding list_all2_conv_all_nth by (force simp: nth_enumerate_eq)
  then show False by (simp add: u32_try_from_def)
qed

lemma number_identitiesD:
  assumes "number_identities xs = Inr ids" "distinct xs"
  shows "length xs \<le> 2 ^ 32 \<and> (\<forall>i k. map_of ids i = Some k \<longleftrightarrow> unat k < length xs \<and> xs ! unat k = i)"
proof -
  have len: "length xs \<le> 2 ^ 32" using assms(1) number_identities_fails [of xs] by (meson not_le)
  then have ids: "ids = zip xs (map of_nat [0..<length xs])" using number_identities_eq assms(1) by simp
  have "map_of ids i = Some k \<longleftrightarrow> unat k < length xs \<and> xs ! unat k = i" for i k
  proof -
    have "distinct (map fst ids)" using assms(2) by (simp add: ids)
    then have "map_of ids i = Some k \<longleftrightarrow> (i, k) \<in> set ids" by (rule map_of_eq_Some_iff)
    also have "\<dots> \<longleftrightarrow> (\<exists>j < length xs. xs ! j = i \<and> of_nat j = k)" by (auto simp: ids set_zip)
    also have "\<dots> \<longleftrightarrow> unat k < length xs \<and> xs ! unat k = i"
    proof
      assume "\<exists>j < length xs. xs ! j = i \<and> of_nat j = k"
      then obtain j where "j < length xs" "xs ! j = i" "of_nat j = k" by blast
      moreover from this len have "unat k = j" by (auto simp: unat_of_nat)
      ultimately show "unat k < length xs \<and> xs ! unat k = i" by simp
    qed (auto intro: exI [of _ "unat k"])
    finally show ?thesis .
  qed
  with len show ?thesis by blast
qed

text \<open>\<open>b\<close> refers to \<open>a\<close>.\<close>

definition referenced_by :: "resolved_reference list \<Rightarrow> (exact_dataset_identity \<times> exact_dataset_identity) set" where
  "referenced_by references = {(rr_target r, rr_source r) | r. r \<in> set references}"

definition graph_edges :: "u32 list list \<Rightarrow> (u32 \<times> u32) set" where
  "graph_edges rev_edges = {(a, b). unat a < length rev_edges \<and> b \<in> set (rev_edges ! unat a)}"

lemma add_references:
  assumes "try_fold (add_reference ids) rev0 references = Inr rev1"
  shows "length rev1 = length rev0 \<and> (\<forall>a b. (a, b) \<in> graph_edges rev1 \<longleftrightarrow> (a, b) \<in> graph_edges rev0 \<or>
      (\<exists>r \<in> set references. map_of ids (rr_target r) = Some a \<and> map_of ids (rr_source r) = Some b))"
  using assms
proof (induction references arbitrary: rev0)
  case (Cons r references)
  from Cons.prems obtain rev' where rev': "add_reference ids rev0 r = Inr rev'" "try_fold (add_reference ids) rev' references = Inr rev1"
    by (auto simp: res_simps)
  from rev'(1) obtain s t where st: "map_of ids (rr_source r) = Some s" "map_of ids (rr_target r) = Some t"
      "unat t < length rev0" "rev' = rev0[unat t := rev0 ! unat t @ [s]]"
    by (auto simp: add_reference_def res_simps split: if_splits)
  have "(a, b) \<in> graph_edges (rev0[unat t := rev0 ! unat t @ [s]]) \<longleftrightarrow> (a, b) \<in> graph_edges rev0 \<or> (a = t \<and> b = s)" for a b
    using st(3) by (cases "a = t") (auto simp: graph_edges_def nth_list_update simp flip: word_unat_eq_iff)
  with Cons.IH [OF rev'(2)] st(1,2,4) show ?case by auto
qed simp

lemma set_from_references:
  "set (sort (remdups (concat (map (\<lambda>r. [rr_source r, rr_target r]) references) @ roots))) =
   rr_source ` set references \<union> rr_target ` set references \<union> set roots"
  by auto

definition graph_wf :: "compact_reference_graph \<Rightarrow> bool" where
  "graph_wf g =
     (sorted_wrt (<) (rg_identities g) \<and> length (rg_identities g) \<le> 2 ^ 32 \<and> length (rg_reverse g) = length (rg_identities g) \<and>
      list_all (\<lambda>ps. sorted_wrt (<) ps \<and> list_all (\<lambda>p. unat p < length (rg_identities g)) ps) (rg_reverse g))"

lemma sorted_remdups_adj: "sorted xs \<Longrightarrow> sorted_wrt (<) (remdups_adj (xs :: 'a :: linorder list))"
  by (induction xs rule: remdups_adj.induct) (auto simp: order.strict_iff_order)

lemma from_references_graph:
  assumes "from_references references roots = Inr g"
  shows "graph_wf g \<and> set (rg_identities g) = rr_source ` set references \<union> rr_target ` set references \<union> set roots \<and>
    (\<forall>i k. map_of (rg_identity_ids g) i = Some k \<longleftrightarrow> unat k < length (rg_identities g) \<and> rg_identities g ! unat k = i) \<and>
    (\<forall>a b. (a, b) \<in> graph_edges (rg_reverse g) \<longleftrightarrow>
       unat a < length (rg_identities g) \<and> unat b < length (rg_identities g) \<and>
       (rg_identities g ! unat a, rg_identities g ! unat b) \<in> referenced_by references)"
proof -
  let ?ids = "sort (remdups (concat (map (\<lambda>r. [rr_source r, rr_target r]) references) @ roots))"
  from assms obtain ids rev1 where ids: "number_identities ?ids = Inr ids"
    and rev1: "try_fold (add_reference ids) (replicate (length ?ids) []) references = Inr rev1"
    and g: "g = \<lparr>rg_identities = ?ids, rg_identity_ids = ids, rg_reverse = map (\<lambda>ps. remdups_adj (sort ps)) rev1\<rparr>"
    by (auto simp: from_references_def Let_def res_simps)
  have dist: "distinct ?ids" by simp
  note num = number_identitiesD [OF ids dist]
  note adds = add_references [OF rev1]
  have edges: "(a, b) \<in> graph_edges (rg_reverse g) \<longleftrightarrow> (\<exists>r \<in> set references. map_of ids (rr_target r) = Some a \<and> map_of ids (rr_source r) = Some b)"
    for a b
  proof -
    have "(a, b) \<in> graph_edges (rg_reverse g) \<longleftrightarrow> (a, b) \<in> graph_edges rev1" by (auto simp: graph_edges_def g)
    moreover have "(a, b) \<notin> graph_edges (replicate (length ?ids) [])" by (simp add: graph_edges_def)
    ultimately show ?thesis using adds by blast
  qed
  have "list_all (\<lambda>ps. sorted_wrt (<) ps \<and> list_all (\<lambda>p. unat p < length ?ids) ps) (rg_reverse g)"
  proof -
    have "unat p < length ?ids" if "i < length rev1" "p \<in> set (rev1 ! i)" for i p
    proof -
      have "i < 2 ^ 32" using that(1) adds num by simp
      then have i: "unat (of_nat i :: u32) = i" by (simp add: unat_of_nat)
      then have "(of_nat i, p) \<in> graph_edges (rg_reverse g)" using that by (simp add: graph_edges_def g)
      with edges num show ?thesis by blast
    qed
    then show ?thesis by (auto simp: g list_all_iff in_set_conv_nth [of _ rev1] sorted_remdups_adj)
  qed
  moreover have "sorted_wrt (<) ?ids" using dist by (simp add: strict_sorted_iff)
  ultimately have "graph_wf g" using num adds by (simp add: graph_wf_def g)
  moreover have "(a, b) \<in> graph_edges (rg_reverse g) \<longleftrightarrow> unat a < length (rg_identities g) \<and> unat b < length (rg_identities g) \<and>
       (rg_identities g ! unat a, rg_identities g ! unat b) \<in> referenced_by references" for a b
    using edges [of a b] num by (auto simp: referenced_by_def g)
  moreover have "set (rg_identities g) = rr_source ` set references \<union> rr_target ` set references \<union> set roots"
    unfolding set_from_references [symmetric] by (simp add: g)
  moreover have "map_of (rg_identity_ids g) i = Some k \<longleftrightarrow> unat k < length (rg_identities g) \<and> rg_identities g ! unat k = i" for i k
    using num by (simp add: g)
  ultimately show ?thesis by blast
qed

section \<open>The search is complete and leaves paths\<close>

definition visited_nodes :: "search_state \<Rightarrow> u32 set" where
  "visited_nodes s = {v. unat v < length (ss_visited s) \<and> ss_visited s ! unat v}"

text \<open>A path of edges from the source along which every node has its predecessor as parent.\<close>

inductive parent_path :: "(u32 \<times> u32) set \<Rightarrow> u32 option list \<Rightarrow> u32 \<Rightarrow> u32 list \<Rightarrow> bool"
  for edges parents source where
  start: "unat source < length parents \<Longrightarrow> parents ! unat source = None \<Longrightarrow> parent_path edges parents source [source]"
| extend: "parent_path edges parents source p \<Longrightarrow> (last p, b) \<in> edges \<Longrightarrow> unat b < length parents \<Longrightarrow>
    parents ! unat b = Some (last p) \<Longrightarrow> b \<notin> set p \<Longrightarrow> parent_path edges parents source (p @ [b])"

lemma parent_path_shape:
  "parent_path edges parents source p \<Longrightarrow>
   p \<noteq> [] \<and> hd p = source \<and> distinct p \<and> successively (\<lambda>a b. (a, b) \<in> edges) p \<and> list_all (\<lambda>v. unat v < length parents) p"
  by (induction rule: parent_path.induct) (auto simp: successively_append_iff)

lemma parent_path_reaches: "parent_path edges parents source p \<Longrightarrow> (source, last p) \<in> edges\<^sup>*"
  by (induction rule: parent_path.induct) auto

lemma parent_path_other_parent:
  assumes "parent_path edges parents source p" "b \<notin> set p"
  shows "parent_path edges (parents[unat b := x]) source p"
  using assms
proof (induction rule: parent_path.induct)
  case start
  then show ?case by (intro parent_path.start) (auto simp: nth_list_update simp flip: word_unat_eq_iff)
next
  case (extend p c)
  then show ?case by (intro parent_path.extend) (auto simp: nth_list_update simp flip: word_unat_eq_iff)
qed

definition search_inv :: "nat \<Rightarrow> (u32 \<times> u32) set \<Rightarrow> u32 \<Rightarrow> search_state \<Rightarrow> bool" where
  "search_inv n edges source s \<longleftrightarrow>
     length (ss_visited s) = n \<and> length (ss_parent s) = n \<and> source \<in> visited_nodes s \<and> set (ss_queue s) \<subseteq> visited_nodes s \<and>
     (\<forall>v \<in> visited_nodes s. \<exists>p. parent_path edges (ss_parent s) source p \<and> last p = v \<and> set p \<subseteq> visited_nodes s)"

lemma visited_nodes_mark:
  "unat b < length (ss_visited s) \<Longrightarrow> ss_visited t = (ss_visited s)[unat b := True] \<Longrightarrow> visited_nodes t = insert b (visited_nodes s)"
  by (auto simp: visited_nodes_def nth_list_update simp flip: word_unat_eq_iff)

lemma visit_predecessor_inv:
  assumes "search_inv n edges source s" "node \<in> visited_nodes s" "(node, b) \<in> edges" "unat b < n"
  shows "\<exists>t. visit_predecessor node s b = Inr t \<and> search_inv n edges source t \<and> visited_nodes t = insert b (visited_nodes s) \<and>
    set (ss_queue t) = set (ss_queue s) \<union> ({b} - visited_nodes s)"
proof (cases "b \<in> visited_nodes s")
  case True
  then show ?thesis using assms by (auto simp: visit_predecessor_def visited_nodes_def Let_def)
next
  case False
  define t :: search_state where
    "t = \<lparr>ss_visited = (ss_visited s)[unat b := True], ss_parent = (ss_parent s)[unat b := Some node], ss_queue = ss_queue s @ [b]\<rparr>"
  have len: "length (ss_visited s) = n" "length (ss_parent s) = n" using assms(1) by (simp_all add: search_inv_def)
  have run: "visit_predecessor node s b = Inr t"
    using False assms(4) len by (auto simp: visit_predecessor_def visited_nodes_def Let_def t_def)
  have V: "visited_nodes t = insert b (visited_nodes s)"
    using assms(4) len by (intro visited_nodes_mark) (simp_all add: t_def)
  have old: "parent_path edges (ss_parent t) source p" if "parent_path edges (ss_parent s) source p" "set p \<subseteq> visited_nodes s" for p
    using that False by (auto simp: t_def intro!: parent_path_other_parent)
  have paths: "\<exists>p. parent_path edges (ss_parent s) source p \<and> last p = v \<and> set p \<subseteq> visited_nodes s" if "v \<in> visited_nodes s" for v
    using assms(1) that by (simp add: search_inv_def)
  have "\<exists>p. parent_path edges (ss_parent t) source p \<and> last p = v \<and> set p \<subseteq> visited_nodes t" if "v \<in> visited_nodes t" for v
  proof (cases "v = b")
    case True
    obtain p where p: "parent_path edges (ss_parent s) source p" "last p = node" "set p \<subseteq> visited_nodes s"
      using paths [OF assms(2)] by blast
    then have "parent_path edges (ss_parent t) source (p @ [b])"
      using assms(3,4) len False old by (intro parent_path.extend) (auto simp: t_def)
    with p True V show ?thesis by (intro exI [of _ "p @ [b]"]) auto
  next
    case False
    then show ?thesis using that V paths old by blast
  qed
  then have "search_inv n edges source t"
    using assms(1) V unfolding search_inv_def by (auto simp: t_def len)
  moreover have "set (ss_queue t) = set (ss_queue s) \<union> ({b} - visited_nodes s)" using False by (auto simp: t_def)
  ultimately show ?thesis using run V by blast
qed

lemma visit_predecessors_inv:
  assumes "search_inv n edges source s" "node \<in> visited_nodes s" "\<forall>b \<in> set bs. (node, b) \<in> edges \<and> unat b < n"
  shows "\<exists>t. try_fold (visit_predecessor node) s bs = Inr t \<and> search_inv n edges source t \<and>
    visited_nodes t = visited_nodes s \<union> set bs \<and> set (ss_queue t) = set (ss_queue s) \<union> (set bs - visited_nodes s)"
  using assms
proof (induction bs arbitrary: s)
  case (Cons b bs)
  obtain s' where s': "visit_predecessor node s b = Inr s'" "search_inv n edges source s'"
      "visited_nodes s' = insert b (visited_nodes s)" "set (ss_queue s') = set (ss_queue s) \<union> ({b} - visited_nodes s)"
    using visit_predecessor_inv [of n edges source s node b] Cons.prems by auto
  obtain t where "try_fold (visit_predecessor node) s' bs = Inr t" "search_inv n edges source t"
      "visited_nodes t = visited_nodes s' \<union> set bs" "set (ss_queue t) = set (ss_queue s') \<union> (set bs - visited_nodes s')"
    using Cons.IH [of s'] Cons.prems s' by auto
  then show ?case using s' by (intro exI [of _ t]) auto
qed auto

text \<open>The nodes that have left the queue have all their predecessors visited.\<close>

definition search_closed :: "(u32 \<times> u32) set \<Rightarrow> search_state \<Rightarrow> bool" where
  "search_closed edges s \<longleftrightarrow> edges `` (visited_nodes s - set (ss_queue s)) \<subseteq> visited_nodes s"

lemma search_turn:
  assumes inv: "search_inv n edges source s" and closed: "search_closed edges s" and q: "ss_queue s = node # queue"
    and bs: "\<And>b. b \<in> set bs \<longleftrightarrow> (node, b) \<in> edges" and bound: "\<forall>a b. (a, b) \<in> edges \<longrightarrow> unat b < n"
  shows "\<exists>t. try_fold (visit_predecessor node) (s\<lparr>ss_queue := queue\<rparr>) bs = Inr t \<and> search_inv n edges source t \<and> search_closed edges t \<and>
    visited_nodes s \<subseteq> visited_nodes t \<and> visited_nodes t - set (ss_queue t) \<subseteq> insert node (visited_nodes s - set (ss_queue s))"
proof -
  let ?s = "s\<lparr>ss_queue := queue\<rparr>"
  have V: "visited_nodes ?s = visited_nodes s" by (simp add: visited_nodes_def)
  have "search_inv n edges source ?s" using inv q by (auto simp: search_inv_def V)
  moreover have node: "node \<in> visited_nodes ?s" using inv q by (simp add: search_inv_def V)
  ultimately obtain t where t: "try_fold (visit_predecessor node) ?s bs = Inr t" "search_inv n edges source t"
      "visited_nodes t = visited_nodes s \<union> set bs" "set (ss_queue t) = set queue \<union> (set bs - visited_nodes s)"
    using visit_predecessors_inv [of n edges source ?s node bs] bs bound V by auto
  have left: "visited_nodes t - set (ss_queue t) \<subseteq> insert node (visited_nodes s - set (ss_queue s))"
    unfolding t(3,4) q by auto
  have "edges `` (visited_nodes t - set (ss_queue t)) \<subseteq> edges `` {node} \<union> edges `` (visited_nodes s - set (ss_queue s))"
    using left by blast
  also have "\<dots> \<subseteq> visited_nodes t" using closed bs unfolding search_closed_def t(3) by blast
  finally have "search_closed edges t" by (simp add: search_closed_def)
  then show ?thesis using t left by blast
qed

lemma search_done:
  assumes "search_inv n edges source s" "search_closed edges s" "ss_queue s = []"
  shows "visited_nodes s = edges\<^sup>* `` {source}"
proof
  show "visited_nodes s \<subseteq> edges\<^sup>* `` {source}"
  proof
    fix v assume "v \<in> visited_nodes s"
    then obtain p where "parent_path edges (ss_parent s) source p" "last p = v" using assms(1) by (auto simp: search_inv_def)
    then show "v \<in> edges\<^sup>* `` {source}" using parent_path_reaches by auto
  qed
  have "v \<in> visited_nodes s" if "(source, v) \<in> edges\<^sup>*" for v
    using that assms by induction (auto simp: search_inv_def search_closed_def)
  then show "edges\<^sup>* `` {source} \<subseteq> visited_nodes s" by auto
qed

lemma search_start_inv:
  assumes "unat source < n"
  shows "\<exists>s. search_start n source = Inr s \<and> search_inv n edges source s \<and> search_closed edges s \<and>
    visited_nodes s = {source} \<and> ss_queue s = [source]"
proof -
  let ?s = "\<lparr>ss_visited = (replicate n False)[unat source := True], ss_parent = replicate n None, ss_queue = [source]\<rparr> :: search_state"
  have V: "visited_nodes ?s = {source}"
    using assms by (auto simp: visited_nodes_def nth_list_update simp flip: word_unat_eq_iff)
  moreover have "parent_path edges (replicate n None) source [source]" using assms by (intro parent_path.start) simp_all
  ultimately have "search_inv n edges source ?s"
    unfolding search_inv_def V by (intro conjI ballI exI [of _ "[source]"]) simp_all
  moreover have "search_closed edges ?s" unfolding search_closed_def V by simp
  ultimately show ?thesis using assms V by (intro exI [of _ ?s]) (simp add: search_start_def)
qed

lemma predecessors_edges: "b \<in> set (predecessors rev_edges a) \<longleftrightarrow> (a, b) \<in> graph_edges rev_edges"
  by (auto simp: predecessors_def graph_edges_def)

lemma search_all_correct:
  assumes "search_inv n (graph_edges rev_edges) source s" "search_closed (graph_edges rev_edges) s"
    and "\<forall>a b. (a, b) \<in> graph_edges rev_edges \<longrightarrow> unat b < n"
  shows "\<exists>t. search_all rev_edges s = Inr t \<and> search_inv n (graph_edges rev_edges) source t \<and>
    visited_nodes t = (graph_edges rev_edges)\<^sup>* `` {source}"
  using assms
proof (induction rev_edges s rule: search_all.induct [case_names turn])
  case (turn rev_edges s)
  show ?case
  proof (cases "ss_queue s")
    case Nil
    then show ?thesis using turn.prems search_done [of n "graph_edges rev_edges" source s] by (simp add: search_all.simps)
  next
    case (Cons node queue)
    obtain t where t: "try_fold (visit_predecessor node) (s\<lparr>ss_queue := queue\<rparr>) (predecessors rev_edges node) = Inr t"
        "search_inv n (graph_edges rev_edges) source t" "search_closed (graph_edges rev_edges) t"
      using search_turn [OF turn.prems(1,2) Cons predecessors_edges turn.prems(3)] by blast
    then show ?thesis using turn.IH [OF Cons t(1) t(2,3) turn.prems(3)] Cons by (simp add: search_all.simps [of _ s])
  qed
qed

text \<open>The search for one root stops with the root visited, or fails because no path leads to it.\<close>

lemma search_until_correct:
  assumes "search_inv n (graph_edges rev_edges) source s" "search_closed (graph_edges rev_edges) s"
    and "\<forall>a b. (a, b) \<in> graph_edges rev_edges \<longrightarrow> unat b < n" "length rev_edges = n"
    and "root_node \<notin> visited_nodes s - set (ss_queue s)"
  shows "if (source, root_node) \<in> (graph_edges rev_edges)\<^sup>*
    then \<exists>t. search_until root_node rev_edges s = Inr t \<and> search_inv n (graph_edges rev_edges) source t \<and> root_node \<in> visited_nodes t
    else search_until root_node rev_edges s = Inl WitnessNotFound"
  using assms
proof (induction root_node rev_edges s rule: search_until.induct [case_names turn])
  case (turn root_node rev_edges s)
  let ?E = "graph_edges rev_edges"
  show ?case
  proof (cases "ss_queue s")
    case Nil
    then show ?thesis using turn.prems search_done [of n ?E source s] by (auto simp: search_until.simps)
  next
    case (Cons node queue)
    have node: "node \<in> visited_nodes s" "unat node < length rev_edges"
      using turn.prems(1,4) Cons by (auto simp: search_inv_def visited_nodes_def)
    show ?thesis
    proof (cases "node = root_node")
      case True
      let ?t = "s\<lparr>ss_queue := queue\<rparr>"
      have "search_inv n ?E source ?t" "root_node \<in> visited_nodes ?t"
        using turn.prems(1) Cons node True by (auto simp: search_inv_def visited_nodes_def)
      moreover have "(source, root_node) \<in> ?E\<^sup>*"
        using turn.prems(1) node True parent_path_reaches unfolding search_inv_def by metis
      ultimately show ?thesis using Cons True by (simp add: search_until.simps [of _ _ s])
    next
      case False
      have preds: "predecessors rev_edges node = rev_edges ! unat node" using node(2) by (simp add: predecessors_def)
      obtain t where t: "try_fold (visit_predecessor node) (s\<lparr>ss_queue := queue\<rparr>) (rev_edges ! unat node) = Inr t"
          "search_inv n ?E source t" "search_closed ?E t"
          "visited_nodes t - set (ss_queue t) \<subseteq> insert node (visited_nodes s - set (ss_queue s))"
        using search_turn [OF turn.prems(1,2) Cons predecessors_edges turn.prems(3)] preds by auto
      have "root_node \<notin> visited_nodes t - set (ss_queue t)" using t(4) turn.prems(5) False by blast
      note this_IH = turn.IH [OF Cons False node(2) t(1) t(2,3) turn.prems(3,4) this]
      then show ?thesis using Cons False node(2) t(1) by (simp add: search_until.simps [of _ _ s])
    qed
  qed
qed

text \<open>The walk along the parents returns the path; the number of nodes is enough fuel because the path repeats none.\<close>

lemma distinct_length_le:
  assumes "distinct (p :: u32 list)" "list_all (\<lambda>v. unat v < n) p"
  shows "length p \<le> n"
proof -
  have "inj_on unat (set p)" by (simp add: inj_on_def flip: word_unat_eq_iff)
  then have "length p = card (unat ` set p)" using assms(1) by (simp add: distinct_card card_image)
  also have "\<dots> \<le> card {..<n}" using assms(2) by (intro card_mono) (auto simp: list_all_iff)
  finally show ?thesis by simp
qed

lemma witness_walk_path:
  assumes "parent_path edges parents source p" "length p \<le> fuel" "list_all (\<lambda>v. unat v < length identities) p"
  shows "witness_walk fuel identities parents (Some (last p)) acc = Inr (map (\<lambda>v. identities ! unat v) p @ rev acc)"
  using assms
proof (induction arbitrary: fuel acc rule: parent_path.induct)
  case start
  then show ?case by (cases fuel) auto
next
  case (extend p b)
  then show ?case by (cases fuel) (auto simp: Let_def)
qed

lemma reconstruct_witness_path_correct:
  assumes "search_inv (length identities) edges source s" "root_node \<in> visited_nodes s"
  shows "\<exists>p. reconstruct_witness_path root_node (ss_parent s) identities = Inr (map (\<lambda>v. identities ! unat v) p) \<and>
    p \<noteq> [] \<and> hd p = source \<and> last p = root_node \<and> distinct p \<and> successively (\<lambda>a b. (a, b) \<in> edges) p \<and>
    list_all (\<lambda>v. unat v < length identities) p"
proof -
  obtain p where p: "parent_path edges (ss_parent s) source p" "last p = root_node"
    using assms by (auto simp: search_inv_def)
  have len: "length (ss_parent s) = length identities" using assms(1) by (simp add: search_inv_def)
  note shape = parent_path_shape [OF p(1), unfolded len]
  then have "length p \<le> length identities" using distinct_length_le by blast
  then show ?thesis using witness_walk_path [OF p(1), of "length identities" identities "[]"] shape p(2)
    by (intro exI [of _ p]) (simp add: reconstruct_witness_path_def)
qed

section \<open>The affected roots\<close>

text \<open>A chain of references from a root, read backwards, to the source of an issue.\<close>

definition reference_path ::
  "resolved_reference list \<Rightarrow> exact_dataset_identity \<Rightarrow> exact_dataset_identity \<Rightarrow> exact_dataset_identity list \<Rightarrow> bool" where
  "reference_path references source root_identity path =
     (path \<noteq> [] \<and> hd path = source \<and> last path = root_identity \<and> distinct path \<and>
      successively (\<lambda>a b. (a, b) \<in> referenced_by references) path)"

lemma successively_mapI:
  "successively P xs \<Longrightarrow> list_all S xs \<Longrightarrow> (\<And>a b. S a \<Longrightarrow> S b \<Longrightarrow> P a b \<Longrightarrow> Q (f a) (f b)) \<Longrightarrow> successively Q (map f xs)"
  by (induction xs rule: induct_list012) auto

lemma identity_at_inj:
  assumes "graph_wf g" "unat a < length (rg_identities g)" "unat b < length (rg_identities g)"
    "rg_identities g ! unat a = rg_identities g ! unat b"
  shows "a = b"
proof -
  have "distinct (rg_identities g)" using assms(1) by (simp add: graph_wf_def strict_sorted_iff)
  then show ?thesis using assms(2-4) by (simp add: nth_eq_iff_index_eq word_unat_eq_iff)
qed

lemma graph_reach:
  assumes g: "from_references references roots = Inr g" and a: "unat a < length (rg_identities g)" and b: "unat b < length (rg_identities g)"
  shows "(a, b) \<in> (graph_edges (rg_reverse g))\<^sup>* \<longleftrightarrow> (rg_identities g ! unat a, rg_identities g ! unat b) \<in> (referenced_by references)\<^sup>*"
proof
  let ?id = "\<lambda>v. rg_identities g ! unat v"
  note facts = from_references_graph [OF g]
  then have edges: "\<And>a b. (a, b) \<in> graph_edges (rg_reverse g) \<longleftrightarrow>
       unat a < length (rg_identities g) \<and> unat b < length (rg_identities g) \<and> (?id a, ?id b) \<in> referenced_by references" by blast
  show "(?id a, ?id b) \<in> (referenced_by references)\<^sup>*" if "(a, b) \<in> (graph_edges (rg_reverse g))\<^sup>*"
    using that by induction (auto simp: edges intro: rtrancl_into_rtrancl)
  have "\<exists>v. unat v < length (rg_identities g) \<and> ?id v = y \<and> (a, v) \<in> (graph_edges (rg_reverse g))\<^sup>*"
    if "(?id a, y) \<in> (referenced_by references)\<^sup>*" for y
    using that
  proof induction
    case base
    then show ?case using a by blast
  next
    case (step y z)
    then obtain v where v: "unat v < length (rg_identities g)" "?id v = y" "(a, v) \<in> (graph_edges (rg_reverse g))\<^sup>*" by blast
    have "z \<in> set (rg_identities g)" using step(2) facts by (auto simp: referenced_by_def)
    then obtain k where k: "k < length (rg_identities g)" "rg_identities g ! k = z" by (auto simp: in_set_conv_nth)
    moreover have "length (rg_identities g) \<le> 2 ^ 32" using facts by (simp add: graph_wf_def)
    ultimately have "unat (of_nat k :: u32) = k" by (simp add: unat_of_nat)
    then show ?case using k v step(2) edges [of v "of_nat k"] by (intro exI [of _ "of_nat k"]) (auto intro: rtrancl_into_rtrancl)
  qed
  then show "(a, b) \<in> (graph_edges (rg_reverse g))\<^sup>*" if "(?id a, ?id b) \<in> (referenced_by references)\<^sup>*"
    using that b identity_at_inj facts by metis
qed

lemma sample_roots:
  assumes roots: "\<And>r. r \<in> set root_ids \<Longrightarrow> unat r < length (rg_identities g)"
    and len: "length (ss_visited s) = length (rg_identities g)"
    and path: "\<And>r. r \<in> visited_nodes s \<Longrightarrow>
      \<exists>w. reconstruct_witness_path r (ss_parent s) (rg_identities g) = Inr w \<and> P (rg_identities g ! unat r) w"
    and acc: "list_all2 P rs ws" "length rs \<le> ISSUE_INLINE_AFFECTED_ROOT_SAMPLE_LIMIT" "c \<le> 2 ^ 32 - 1"
    and A: "A = map (\<lambda>r. rg_identities g ! unat r) (filter (\<lambda>r. r \<in> visited_nodes s) root_ids)"
  shows "\<exists>ws'. try_fold (visit_root sample_root g s) (c, rs, ws) root_ids =
      Inr (min (c + length A) (2 ^ 32 - 1), take ISSUE_INLINE_AFFECTED_ROOT_SAMPLE_LIMIT (rs @ A), ws') \<and>
    list_all2 P (take ISSUE_INLINE_AFFECTED_ROOT_SAMPLE_LIMIT (rs @ A)) ws'"
  using roots acc A
proof (induction root_ids arbitrary: c rs ws A)
  case Nil
  then show ?case by simp
next
  case (Cons r root_ids)
  let ?A = "map (\<lambda>r. rg_identities g ! unat r) (filter (\<lambda>r. r \<in> visited_nodes s) root_ids)"
  have r: "unat r < length (rg_identities g)" using Cons.prems(1) by simp
  show ?case
  proof (cases "r \<in> visited_nodes s")
    case False
    then have "visit_root sample_root g s (c, rs, ws) r = Inr (c, rs, ws)"
      using r len by (simp add: visit_root_def visited_nodes_def Let_def)
    then show ?thesis using Cons.IH [of rs ws c ?A] Cons.prems False by simp
  next
    case True
    obtain w where w: "reconstruct_witness_path r (ss_parent s) (rg_identities g) = Inr w" "P (rg_identities g ! unat r) w"
      using path [OF True] by blast
    let ?x = "rg_identities g ! unat r"
    let ?full = "\<not> length rs < ISSUE_INLINE_AFFECTED_ROOT_SAMPLE_LIMIT"
    let ?rs = "if ?full then rs else rs @ [?x]" and ?ws = "if ?full then ws else ws @ [w]"
    have step: "visit_root sample_root g s (c, rs, ws) r = Inr (min (c + 1) (2 ^ 32 - 1), ?rs, ?ws)"
      using r len True w by (simp add: visit_root_def visited_nodes_def sample_root_def Let_def)
    have "list_all2 P ?rs ?ws" "length ?rs \<le> ISSUE_INLINE_AFFECTED_ROOT_SAMPLE_LIMIT"
      using Cons.prems(2,3) w(2) by (auto intro: list_all2_appendI)
    moreover have "min (min (c + 1) (2 ^ 32 - 1) + length ?A) (2 ^ 32 - 1) = min (c + length A) (2 ^ 32 - 1)"
      using True Cons.prems(5) by simp
    moreover have "take ISSUE_INLINE_AFFECTED_ROOT_SAMPLE_LIMIT (?rs @ ?A) = take ISSUE_INLINE_AFFECTED_ROOT_SAMPLE_LIMIT (rs @ A)"
      using True Cons.prems(3,5) by (auto simp: not_less take_Cons')
    ultimately show ?thesis
      using Cons.IH [of ?rs ?ws "min (c + 1) (2 ^ 32 - 1)" ?A] Cons.prems(1) step by simp
  qed
qed

text \<open>The search over the whole graph visits exactly the nodes that reach the source.\<close>

lemma search_graph:
  assumes g: "from_references references roots = Inr g" and k: "unat k < length (rg_identities g)"
  shows "\<exists>s t. search_start (length (rg_identities g)) k = Inr s \<and> search_all (rg_reverse g) s = Inr t \<and>
    search_inv (length (rg_identities g)) (graph_edges (rg_reverse g)) k t \<and>
    (\<forall>v. unat v < length (rg_identities g) \<longrightarrow>
      (v \<in> visited_nodes t \<longleftrightarrow> (rg_identities g ! unat k, rg_identities g ! unat v) \<in> (referenced_by references)\<^sup>*))"
proof -
  let ?E = "graph_edges (rg_reverse g)" and ?n = "length (rg_identities g)"
  have bound: "\<forall>a b. (a, b) \<in> ?E \<longrightarrow> unat b < ?n" using from_references_graph [OF g] by blast
  obtain s where s: "search_start ?n k = Inr s" "search_inv ?n ?E k s" "search_closed ?E s"
    using search_start_inv [OF k, of ?E] by blast
  then obtain t where "search_all (rg_reverse g) s = Inr t" "search_inv ?n ?E k t" "visited_nodes t = ?E\<^sup>* `` {k}"
    using search_all_correct [OF s(2,3) bound] by blast
  then show ?thesis using s(1) graph_reach [OF g k] by auto
qed

lemma witness_is_reference_path:
  assumes g: "from_references references roots = Inr g"
    and p: "p \<noteq> []" "distinct p" "successively (\<lambda>a b. (a, b) \<in> graph_edges (rg_reverse g)) p" "list_all (\<lambda>v. unat v < length (rg_identities g)) p"
  shows "reference_path references (rg_identities g ! unat (hd p)) (rg_identities g ! unat (last p)) (map (\<lambda>v. rg_identities g ! unat v) p)"
proof -
  note facts = from_references_graph [OF g]
  have "successively (\<lambda>a b. (a, b) \<in> referenced_by references) (map (\<lambda>v. rg_identities g ! unat v) p)"
    by (rule successively_mapI [OF p(3,4)]) (use facts in blast)
  moreover have "inj_on (\<lambda>v. rg_identities g ! unat v) (set p)"
    using p(4) conjunct1 [OF facts] unfolding list_all_iff by (intro inj_onI) (blast intro: identity_at_inj)
  ultimately show ?thesis using p(1,2) by (simp add: reference_path_def hd_map last_map distinct_map)
qed

lemma affected_roots_correct:
  assumes g: "from_references references roots = Inr g" and k: "map_of (rg_identity_ids g) source = Some k"
    and A: "A = filter (\<lambda>r. (source, r) \<in> (referenced_by references)\<^sup>*) roots"
  shows "\<exists>ws. compute_single_source_affected_roots k (List.map_filter (map_of (rg_identity_ids g)) roots) g =
      Inr (min (length A) (2 ^ 32 - 1), take ISSUE_INLINE_AFFECTED_ROOT_SAMPLE_LIMIT A, ws) \<and>
    list_all2 (reference_path references source) (take ISSUE_INLINE_AFFECTED_ROOT_SAMPLE_LIMIT A) ws"
proof -
  let ?id = "\<lambda>v :: u32. rg_identities g ! unat v" and ?n = "length (rg_identities g)"
  let ?root_ids = "List.map_filter (map_of (rg_identity_ids g)) roots"
  note facts = from_references_graph [OF g]
  then have ids: "\<And>i k. map_of (rg_identity_ids g) i = Some k \<longleftrightarrow> unat k < ?n \<and> ?id k = i" by blast
  then have source: "unat k < ?n" "?id k = source" using k by simp_all
  obtain s t where t: "search_start ?n k = Inr s" "search_all (rg_reverse g) s = Inr t"
      "search_inv ?n (graph_edges (rg_reverse g)) k t"
      "\<And>v. unat v < ?n \<Longrightarrow> v \<in> visited_nodes t \<longleftrightarrow> (source, ?id v) \<in> (referenced_by references)\<^sup>*"
    using search_graph [OF g source(1)] source(2) by blast
  have "\<exists>k. map_of (rg_identity_ids g) r = Some k" if "r \<in> set roots" for r
  proof -
    have "r \<in> set (rg_identities g)" using that facts by blast
    then obtain i where "i < ?n" "rg_identities g ! i = r" by (auto simp: in_set_conv_nth)
    moreover have "?n \<le> 2 ^ 32" using facts by (simp add: graph_wf_def)
    ultimately show ?thesis using ids [of r "of_nat i"] by (auto simp: unat_of_nat)
  qed
  then have "A = map ?id (filter (\<lambda>v. v \<in> visited_nodes t) (List.map_filter (map_of (rg_identity_ids g)) xs))"
    if "A = filter (\<lambda>r. (source, r) \<in> (referenced_by references)\<^sup>*) xs" "set xs \<subseteq> set roots" for xs A
    using that
  proof (induction xs arbitrary: A)
    case (Cons x xs)
    from Cons.prems obtain k where k: "map_of (rg_identity_ids g) x = Some k" by auto
    then have "unat k < ?n" "?id k = x" using ids by simp_all
    then show ?case using Cons.prems Cons.IH t(4) [of k] k by (simp add: List.map_filter_simps)
  qed (simp add: List.map_filter_simps)
  then have A': "A = map ?id (filter (\<lambda>v. v \<in> visited_nodes t) ?root_ids)" using A by blast
  have "unat r < ?n" if "r \<in> set ?root_ids" for r
    using that ids [of _ r] by (force simp: List.map_filter_def)
  moreover have "length (ss_visited t) = ?n" using t(3) by (simp add: search_inv_def)
  moreover have "\<exists>w. reconstruct_witness_path r (ss_parent t) (rg_identities g) = Inr w \<and> reference_path references source (?id r) w"
    if r: "r \<in> visited_nodes t" for r
    using reconstruct_witness_path_correct [OF t(3) r] witness_is_reference_path [OF g] source(2) by metis
  ultimately show ?thesis
    using sample_roots [of ?root_ids g t "reference_path references source" "[]" "[]" 0 A] A' t(1,2)
    by (simp add: compute_single_source_affected_roots_def visit_single_source_affected_roots_def ISSUE_INLINE_AFFECTED_ROOT_SAMPLE_LIMIT_def)
qed

section \<open>Properties\<close>

text \<open>
  The graph built from resolved references has the sources, the targets and the roots as its nodes, in
  strictly ascending order, numbers them by position, and its edge lists, strictly ascending and within range,
  hold exactly the reversed references.
\<close>

theorem reference_graph_exact:
  assumes "from_references references roots = Inr g"
  shows "graph_wf g \<and> set (rg_identities g) = rr_source ` set references \<union> rr_target ` set references \<union> set roots \<and>
    (\<forall>(a :: u32) (b :: u32). unat a < length (rg_identities g) \<and> unat b < length (rg_identities g) \<longrightarrow>
       (b \<in> set (rg_reverse g ! unat a) \<longleftrightarrow>
        (\<exists>r \<in> set references. rr_target r = rg_identities g ! unat a \<and> rr_source r = rg_identities g ! unat b)))"
proof -
  note facts = from_references_graph [OF assms]
  have len: "length (rg_reverse g) = length (rg_identities g)" using facts by (simp add: graph_wf_def)
  have "b \<in> set (rg_reverse g ! unat a) \<longleftrightarrow>
      (\<exists>r \<in> set references. rr_target r = rg_identities g ! unat a \<and> rr_source r = rg_identities g ! unat b)"
    if "unat a < length (rg_identities g)" "unat b < length (rg_identities g)" for a b :: u32
  proof -
    have "b \<in> set (rg_reverse g ! unat a) \<longleftrightarrow> (a, b) \<in> graph_edges (rg_reverse g)"
      using that by (simp add: graph_edges_def len)
    also have "\<dots> \<longleftrightarrow> (rg_identities g ! unat a, rg_identities g ! unat b) \<in> referenced_by references"
      using facts that by blast
    finally show ?thesis by (auto simp: referenced_by_def)
  qed
  then show ?thesis using conjunct1 [OF facts] conjunct1 [OF conjunct2 [OF facts]] by simp
qed

definition demo_flow :: exact_dataset_identity where
  "demo_flow = Identity Flows (replicate 16 1) ''01''"

definition demo_process :: exact_dataset_identity where
  "demo_process = Identity Processes (replicate 16 2) ''01''"

definition demo_reference :: resolved_reference where
  "demo_reference = \<lparr>rr_source = demo_process, rr_target = demo_flow, rr_json_path = ''$'', rr_reference_role = ''flow'',
     rr_requested_version_state = ''exact''\<rparr>"

definition demo_graph :: compact_reference_graph where
  "demo_graph = \<lparr>rg_identities = [demo_flow, demo_process], rg_identity_ids = [(demo_flow, 0), (demo_process, 1)],
     rg_reverse = [[1], []]\<rparr>"

lemma demo_order: "demo_flow < demo_process" "demo_flow \<noteq> demo_process"
  by (simp_all add: demo_flow_def demo_process_def less_exact_dataset_identity_def less_eq_exact_dataset_identity_def category_rank_def)

lemma demo_from_references: "from_references [demo_reference] [demo_process] = Inr demo_graph"
proof -
  have "sort (remdups [demo_process, demo_flow, demo_process]) = [demo_flow, demo_process]"
    using demo_order by (simp add: not_le)
  moreover have "number_identities [demo_flow, demo_process] = Inr [(demo_flow, 0), (demo_process, 1)]"
    by (simp add: number_identities_eq)
  ultimately show ?thesis
    using demo_order(2) by (simp add: from_references_def demo_reference_def add_reference_def demo_graph_def numeral_2_eq_2)
qed

theorem reference_graph_exact_witness:
  "\<exists>g. from_references [demo_reference] [demo_process] = Inr g \<and> graph_wf g \<and> set (rg_identities g) = {demo_flow, demo_process}"
proof -
  note reference_graph_exact [OF demo_from_references]
  then show ?thesis using demo_from_references by (auto simp: demo_reference_def)
qed

text \<open>
  C28. For an issue at a source of the graph the search never panics and its walk along the parents ends; it
  reports the number of the roots that reach the source by a chain of references (saturating at the width
  of the counter), the first 100 of them in the order of the roots, and for each a witness path: a chain of
  references without repetition between the source and the root.
\<close>

theorem affected_roots_have_witnesses:
  assumes "from_references references roots = Inr g" "map_of (rg_identity_ids g) source = Some k"
  shows "\<exists>witnesses. let affected = filter (\<lambda>r. (source, r) \<in> (referenced_by references)\<^sup>*) roots in
    compute_single_source_affected_roots k (List.map_filter (map_of (rg_identity_ids g)) roots) g =
      Inr (min (length affected) (2 ^ 32 - 1), take 100 affected, witnesses) \<and>
    list_all2 (reference_path references source) (take 100 affected) witnesses"
  using affected_roots_correct [OF assms refl] by (simp add: ISSUE_INLINE_AFFECTED_ROOT_SAMPLE_LIMIT_def Let_def)

lemma demo_reaches: "(demo_flow, demo_process) \<in> (referenced_by [demo_reference])\<^sup>*"
  by (rule r_into_rtrancl) (simp add: referenced_by_def demo_reference_def)

theorem affected_roots_have_witnesses_witness:
  "\<exists>path. compute_single_source_affected_roots 0 [1] demo_graph = Inr (1, [demo_process], [path]) \<and>
    reference_path [demo_reference] demo_flow demo_process path"
proof -
  have "map_of (rg_identity_ids demo_graph) demo_flow = Some 0" by (simp add: demo_graph_def)
  from affected_roots_have_witnesses [OF demo_from_references this] demo_reaches
  show ?thesis using demo_order(2)
    by (auto simp: Let_def List.map_filter_simps demo_graph_def list_all2_Cons1)
qed

end
