(* ===== verification/Frozen_Graph.thy ===== *)
theory Frozen_Graph
  imports Reference_Graph
begin

text \<open>
  The frozen reference graph file, \<open>crates/solver-worker/src/scope_closure.rs\<close>: the writer of the graph with
  its roots, the decoder with all its checks, and the reconstruction of one witness from the decoded graph.
  Theorems: the file of a graph decodes to the graph, and the witness found in a decoded file is a chain of the
  original references, found exactly when the root reaches the source.
\<close>

section \<open>The writer\<close>

definition FROZEN_REFERENCE_GRAPH_MAGIC :: "u8 list" where
  "FROZEN_REFERENCE_GRAPH_MAGIC = as_bytes (''TGLCA-FG-V1'' @ [CHR 0x00])"

text \<open>The cancellation token is polled every 4096 items; its answers are a function of the stage and the index.\<close>

definition poll :: "(string \<Rightarrow> nat \<Rightarrow> bool) \<Rightarrow> string \<Rightarrow> nat \<Rightarrow> codec_error + unit" where
  "poll cancelled stage index = (if index mod 4096 = 0 \<and> cancelled stage index then Inl (Cancelled stage) else Inr ())"

definition write_identity ::
  "(string \<Rightarrow> nat \<Rightarrow> bool) \<Rightarrow> evidence_writer \<Rightarrow> nat \<times> exact_dataset_identity \<Rightarrow> codec_error + evidence_writer" where
  "write_identity cancelled w item =
     (case item of (index, identity) \<Rightarrow>
        res_bind (poll cancelled ''scope_closure_frozen_graph_nodes'' index) (\<lambda>_.
        res_bind (write_compact_string w (table_name (id_category identity))) (\<lambda>w.
        res_bind (write_all w (id_bytes identity)) (\<lambda>w.
        write_compact_string w (id_version identity)))))"

definition write_predecessors ::
  "(string \<Rightarrow> nat \<Rightarrow> bool) \<Rightarrow> evidence_writer \<Rightarrow> nat \<times> u32 list \<Rightarrow> codec_error + evidence_writer" where
  "write_predecessors cancelled w item =
     (case item of (index, ps) \<Rightarrow>
        res_bind (poll cancelled ''scope_closure_frozen_graph_edges'' index) (\<lambda>_.
        res_bind (u32_try_from (length ps)) (\<lambda>n.
        res_bind (write_u32 w n) (\<lambda>w.
        write_delta_varint w ps))))"

definition count_edges :: "u64 \<Rightarrow> u32 list \<Rightarrow> codec_error + u64" where
  "count_edges edges ps =
     (if edges + length ps \<le> u64_max then Inr (edges + length ps) else Inl EdgeCountOverflow)"

definition build_frozen_reference_graph_file ::
  "(string \<Rightarrow> nat \<Rightarrow> bool) \<Rightarrow> compact_reference_graph \<Rightarrow> stable_root_ordinals \<Rightarrow> codec_error + evidence_writer" where
  "build_frozen_reference_graph_file cancelled graph roots =
     (let evidence = writer_new ''evidence/frozen-reference-graph-v1.bin.zst''
            ''application/vnd.tiangong.scope-closure-frozen-reference-graph+zstd'' in
      res_bind (write_all evidence FROZEN_REFERENCE_GRAPH_MAGIC) (\<lambda>w.
      res_bind (write_u16 w 1) (\<lambda>w.
      res_bind (u32_try_from (length (rg_identities graph))) (\<lambda>n.
      res_bind (write_u32 w n) (\<lambda>w.
      res_bind (u32_try_from (length (sr_roots roots))) (\<lambda>n.
      res_bind (write_u32 w n) (\<lambda>w.
      res_bind (try_fold count_edges 0 (rg_reverse graph)) (\<lambda>edge_count.
      res_bind (write_u64 w edge_count) (\<lambda>w.
      res_bind (try_fold (write_identity cancelled) w (List.enumerate 0 (rg_identities graph))) (\<lambda>w.
      res_bind (try_fold write_u32 w (sr_graph_node_ordinals roots)) (\<lambda>w.
      res_bind (try_fold (write_predecessors cancelled) w (List.enumerate 0 (rg_reverse graph))) (\<lambda>w.
      Inr (w\<lparr>ew_record_count := length (rg_identities graph)\<rparr>)))))))))))))"

section \<open>The decoder\<close>

record decoded_graph =
  dg_identities :: "exact_dataset_identity list"
  dg_root_node_ordinals :: "u32 list"
  dg_reverse :: "u32 list list"

definition read_identity :: "exact_dataset_identity reader" where
  "read_identity bs =
     res_bind (read_compact_string bs) (\<lambda>(name, bs).
     res_bind (parse_category name) (\<lambda>category.
     res_bind (read_exact 16 bs) (\<lambda>(uuid, bs).
     res_bind (read_compact_string bs) (\<lambda>(version, bs).
     Inr (Identity category uuid version, bs)))))"

definition push_identity :: "exact_dataset_identity list \<Rightarrow> exact_dataset_identity \<Rightarrow> codec_error + exact_dataset_identity list" where
  "push_identity identities i =
     (if identities \<noteq> [] \<and> i \<le> last identities then Inl IdentitiesNotOrdered else Inr (identities @ [i]))"

definition push_root :: "usize \<Rightarrow> u32 list \<Rightarrow> u32 \<Rightarrow> codec_error + u32 list" where
  "push_root node_count ordinals ordinal =
     (if node_count \<le> unat ordinal then Inl RootOutOfRange else Inr (ordinals @ [ordinal]))"

definition read_predecessors :: "u32 list reader" where
  "read_predecessors bs = res_bind (read_u32 bs) (\<lambda>(n, bs). read_delta_varints (unat n) bs)"

definition push_predecessors :: "usize \<Rightarrow> u32 list list \<times> u64 \<Rightarrow> u32 list \<Rightarrow> codec_error + (u32 list list \<times> u64)" where
  "push_predecessors node_count s ps =
     (case s of (rev_edges, observed) \<Rightarrow>
        if ps \<noteq> [] \<and> node_count \<le> unat (last ps) then Inl PredecessorOutOfRange
        else res_bind (count_edges observed ps) (\<lambda>observed. Inr (rev_edges @ [ps], observed)))"

definition decode_frozen_reference_graph :: "u8 list \<Rightarrow> codec_error + decoded_graph" where
  "decode_frozen_reference_graph bs =
     res_bind (read_exact (length FROZEN_REFERENCE_GRAPH_MAGIC) bs) (\<lambda>(magic, bs).
     if magic \<noteq> FROZEN_REFERENCE_GRAPH_MAGIC then Inl HeaderMismatch
     else
     res_bind (read_u16 bs) (\<lambda>(version, bs).
     if version \<noteq> 1 then Inl HeaderMismatch
     else
     res_bind (read_u32 bs) (\<lambda>(node_count, bs).
     res_bind (read_u32 bs) (\<lambda>(root_count, bs).
     res_bind (read_u64 bs) (\<lambda>(expected_edge_count, bs).
     res_bind (read_loop read_identity push_identity (unat node_count) [] bs) (\<lambda>(identities, bs).
     res_bind (read_loop read_u32 (push_root (unat node_count)) (unat root_count) [] bs) (\<lambda>(ordinals, bs).
     res_bind (read_loop read_predecessors (push_predecessors (unat node_count)) (unat node_count) ([], 0) bs)
       (\<lambda>((rev_edges, observed), bs).
     if bs \<noteq> [] \<or> observed \<noteq> expected_edge_count then Inl ByteOrEdgeCountMismatch
     else Inr \<lparr>dg_identities = identities, dg_root_node_ordinals = ordinals, dg_reverse = rev_edges\<rparr>))))))))"

definition reconstruct_frozen_graph_witness :: "decoded_graph \<Rightarrow> u32 \<Rightarrow> u32 \<Rightarrow> codec_error + exact_dataset_identity list" where
  "reconstruct_frozen_graph_witness graph source root_ordinal =
     (if \<not> unat root_ordinal < length (dg_root_node_ordinals graph) then Inl RequestedRootOutOfRange
      else
      let root_node = dg_root_node_ordinals graph ! unat root_ordinal in
      if length (dg_identities graph) \<le> unat source then Inl SourceOutOfRange
      else
      res_bind (search_start (length (dg_identities graph)) source) (\<lambda>s.
      res_bind (search_until root_node (dg_reverse graph) s) (\<lambda>s.
      reconstruct_witness_path root_node (ss_parent s) (dg_identities graph))))"

section \<open>What the writer emits\<close>

text \<open>A sequence of writes appends a byte string whenever it succeeds.\<close>

definition emits :: "(evidence_writer \<Rightarrow> codec_error + evidence_writer) \<Rightarrow> u8 list \<Rightarrow> bool" where
  "emits f bs \<longleftrightarrow> (\<forall>w w'. ew_byte_size w \<le> u64_max \<longrightarrow> f w = Inr w' \<longrightarrow>
     ew_output w' = ew_output w @ bs \<and> ew_byte_size w' \<le> u64_max)"

named_theorems emits_rules "byte strings of sequences of writes"

lemma emitsI:
  "(\<And>w w'. ew_byte_size w \<le> u64_max \<Longrightarrow> f w = Inr w' \<Longrightarrow> ew_output w' = ew_output w @ bs \<and> ew_byte_size w' \<le> u64_max) \<Longrightarrow> emits f bs"
  unfolding emits_def by blast

lemma writer_emitsD:
  "emits f bs \<Longrightarrow> ew_byte_size w \<le> u64_max \<Longrightarrow> f w = Inr w' \<Longrightarrow> ew_output w' = ew_output w @ bs \<and> ew_byte_size w' \<le> u64_max"
  unfolding emits_def by blast

lemma emits_write_all [emits_rules]: "emits (\<lambda>w. write_all w bs) bs"
  by (rule emitsI) (auto dest!: write_allD)

lemma emits_u16 [emits_rules]: "emits (\<lambda>w. write_u16 w v) (le_bytes 2 (unat v))"
  and emits_u32 [emits_rules]: "emits (\<lambda>w. write_u32 w u) (le_bytes 4 (unat u))"
  and emits_u64 [emits_rules]: "emits (\<lambda>w. write_u64 w n) (le_bytes 8 n)"
  unfolding write_u16_def write_u32_def write_u64_def by (rule emits_write_all)+

lemma emits_length:
  assumes "u32_try_from k = Inr n"
  shows "emits (\<lambda>w. write_u32 w n) (le_bytes 4 k)"
proof -
  have "unat n = k" using assms by (auto simp: try_from_index unat_of_nat)
  then show ?thesis using emits_u32 [of n] by (simp only:)
qed

lemma emits_string [emits_rules]: "length s < 2 ^ 32 \<Longrightarrow> emits (\<lambda>w. write_compact_string w s) (string_bytes s)"
  by (simp only: write_compact_string_eq emits_write_all)

lemma emits_delta [emits_rules]: "sorted xs \<Longrightarrow> emits (\<lambda>w. write_delta_varint w xs) (delta_bytes 0 xs)"
  by (rule emitsI) (metis writer_emitsD emits_write_all write_delta_varint_eq)

lemma writer_emits_bind [emits_rules]: "emits f a \<Longrightarrow> emits g b \<Longrightarrow> emits (\<lambda>w. res_bind (f w) g) (a @ b)"
proof (rule emitsI)
  fix w w'
  assume fg: "emits f a" "emits g b" and w: "ew_byte_size w \<le> u64_max" "res_bind (f w) g = Inr w'"
  from w(2) obtain v where v: "f w = Inr v" "g v = Inr w'" unfolding res_bind_eq_Inr by blast
  from writer_emitsD [OF fg(1) w(1) v(1)] writer_emitsD [OF fg(2) _ v(2)]
  show "ew_output w' = ew_output w @ a @ b \<and> ew_byte_size w' \<le> u64_max" by simp
qed

lemma emits_record_count [emits_rules]: "emits (\<lambda>w. Inr (w\<lparr>ew_record_count := k\<rparr>)) []"
  by (simp add: emits_def)

lemma emits_pure [emits_rules]: "(\<And>x. m = Inr x \<Longrightarrow> emits (f x) b) \<Longrightarrow> emits (\<lambda>w. res_bind m (\<lambda>x. f x w)) b"
  by (cases m) (simp_all, simp add: emits_def)

lemma emits_fold [emits_rules]:
  "(\<And>x. x \<in> set xs \<Longrightarrow> emits (\<lambda>w. f w x) (b x)) \<Longrightarrow> emits (\<lambda>w. try_fold f w xs) (concat (map b xs))"
proof (induction xs)
  case (Cons x xs)
  have "emits (\<lambda>w. res_bind (f w x) (\<lambda>w. try_fold f w xs)) (b x @ concat (map b xs))"
    using Cons by (intro writer_emits_bind) simp_all
  then show ?case by simp
qed (simp add: emits_def)

definition identity_bytes :: "exact_dataset_identity \<Rightarrow> u8 list" where
  "identity_bytes i = string_bytes (table_name (id_category i)) @ id_bytes i @ string_bytes (id_version i)"

definition predecessor_bytes :: "u32 list \<Rightarrow> u8 list" where
  "predecessor_bytes ps = le_bytes 4 (length ps) @ delta_bytes 0 ps"

text \<open>A UUID has 16 bytes and a version is a string of the language.\<close>

definition identity_valid :: "exact_dataset_identity \<Rightarrow> bool" where
  "identity_valid i = (length (id_bytes i) = 16 \<and> rust_string (id_version i))"

lemma table_name_size: "length (table_name c) < 2 ^ 32"
  by (cases c) (simp_all add: table_name_def)

lemma rust_string_table_name: "rust_string (table_name c)"
  by (cases c) (simp_all add: table_name_def rust_string_def as_bytes_def in_range_def)

lemma parse_table_name: "parse_category (table_name c) = Inr c"
  by (cases c) (simp_all add: table_name_def parse_category_def)

lemma emits_identity: "identity_valid i \<Longrightarrow> emits (\<lambda>w. write_identity cancelled w (k, i)) (identity_bytes i)"
  unfolding write_identity_def prod.case identity_bytes_def
  by (intro emits_rules table_name_size) (simp add: identity_valid_def rust_string_def)

lemma emits_predecessors: "sorted ps \<Longrightarrow> emits (\<lambda>w. write_predecessors cancelled w (k, ps)) (predecessor_bytes ps)"
  unfolding write_predecessors_def prod.case predecessor_bytes_def
  by (intro emits_pure writer_emits_bind emits_length emits_delta)

lemma emits_enumerate:
  assumes "\<And>k x. x \<in> set xs \<Longrightarrow> emits (\<lambda>w. f w (k, x)) (b x)"
  shows "emits (\<lambda>w. try_fold f w (List.enumerate 0 xs)) (concat (map b xs))"
proof -
  have "emits (\<lambda>w. try_fold f w (List.enumerate 0 xs)) (concat (map (\<lambda>(k, x). b x) (List.enumerate 0 xs)))"
    using assms by (intro emits_fold) (auto simp: in_set_enumerate_eq)
  moreover have "map (\<lambda>(k, x). b x) (List.enumerate 0 xs) = map b xs"
    by (rule nth_equalityI) (simp_all add: nth_enumerate_eq)
  ultimately show ?thesis by simp
qed

definition edge_total :: "u32 list list \<Rightarrow> nat" where
  "edge_total rev_edges = sum_list (map length rev_edges)"

lemma count_edges_total: "try_fold count_edges k rev_edges = Inr m \<Longrightarrow> m = k + edge_total rev_edges \<and> (rev_edges \<noteq> [] \<longrightarrow> m \<le> u64_max)"
  by (induction rev_edges arbitrary: k) (force simp: count_edges_def edge_total_def res_simps split: if_splits)+

definition frozen_bytes :: "compact_reference_graph \<Rightarrow> stable_root_ordinals \<Rightarrow> u8 list" where
  "frozen_bytes g r =
     FROZEN_REFERENCE_GRAPH_MAGIC @ le_bytes 2 (unat (1 :: u16)) @ le_bytes 4 (length (rg_identities g)) @ le_bytes 4 (length (sr_roots r)) @
     le_bytes 8 (edge_total (rg_reverse g)) @ concat (map identity_bytes (rg_identities g)) @
     concat (map (\<lambda>v. le_bytes 4 (unat v)) (sr_graph_node_ordinals r)) @ concat (map predecessor_bytes (rg_reverse g))"

lemma build_emits:
  assumes "build_frozen_reference_graph_file cancelled g r = Inr w"
    and ids: "list_all identity_valid (rg_identities g)" and ps: "list_all sorted (rg_reverse g)"
  shows "ew_output w = frozen_bytes g r \<and> length (rg_identities g) < 2 ^ 32 \<and> length (sr_roots r) < 2 ^ 32 \<and>
    edge_total (rg_reverse g) \<le> u64_max"
proof -
  let ?body = "\<lambda>w. res_bind (write_all w FROZEN_REFERENCE_GRAPH_MAGIC) (\<lambda>w.
      res_bind (write_u16 w 1) (\<lambda>w.
      res_bind (u32_try_from (length (rg_identities g))) (\<lambda>n.
      res_bind (write_u32 w n) (\<lambda>w.
      res_bind (u32_try_from (length (sr_roots r))) (\<lambda>n.
      res_bind (write_u32 w n) (\<lambda>w.
      res_bind (try_fold count_edges 0 (rg_reverse g)) (\<lambda>edge_count.
      res_bind (write_u64 w edge_count) (\<lambda>w.
      res_bind (try_fold (write_identity cancelled) w (List.enumerate 0 (rg_identities g))) (\<lambda>w.
      res_bind (try_fold write_u32 w (sr_graph_node_ordinals r)) (\<lambda>w.
      res_bind (try_fold (write_predecessors cancelled) w (List.enumerate 0 (rg_reverse g))) (\<lambda>w.
      Inr (w\<lparr>ew_record_count := length (rg_identities g)\<rparr>))))))))))))"
  from assms(1) have small: "length (rg_identities g) < 2 ^ 32" "length (sr_roots r) < 2 ^ 32"
    by (auto simp: build_frozen_reference_graph_file_def Let_def res_simps u32_try_from_def split: if_splits)
  from assms(1) obtain edges where edges: "try_fold count_edges 0 (rg_reverse g) = Inr edges"
    by (auto simp: build_frozen_reference_graph_file_def Let_def res_simps)
  have total: "x = edge_total (rg_reverse g) \<and> x \<le> u64_max" if "try_fold count_edges 0 (rg_reverse g) = Inr x" for x
    using count_edges_total [OF that] by (auto simp: edge_total_def)
  have identities: "emits (\<lambda>w. try_fold (write_identity cancelled) w (List.enumerate 0 (rg_identities g)))
      (concat (map identity_bytes (rg_identities g)))"
    using ids by (intro emits_enumerate emits_identity) (simp add: list_all_iff)
  have preds: "emits (\<lambda>w. try_fold (write_predecessors cancelled) w (List.enumerate 0 (rg_reverse g)))
      (concat (map predecessor_bytes (rg_reverse g)))"
    using ps by (intro emits_enumerate emits_predecessors) (simp add: list_all_iff)
  have edge_count: "emits (\<lambda>w. write_u64 w x) (le_bytes 8 (edge_total (rg_reverse g)))"
    if "try_fold count_edges 0 (rg_reverse g) = Inr x" for x
    using total [OF that] emits_u64 by simp
  have "emits ?body (frozen_bytes g r @ [])"
    unfolding frozen_bytes_def append_assoc
    by (intro writer_emits_bind emits_pure identities preds edge_count emits_length emits_fold emits_write_all emits_u16 emits_u32 emits_record_count)
  then have "ew_output w = frozen_bytes g r"
    using assms(1) unfolding emits_def build_frozen_reference_graph_file_def by (force simp: writer_new_def Let_def)
  then show ?thesis using small total [OF edges] by simp
qed

section \<open>The file decodes to the graph\<close>

interpretation frozen_id: codec identity_bytes read_identity identity_valid
proof
  fix i rest
  assume i: "identity_valid i"
  have "read_compact_string (string_bytes (table_name (id_category i)) @ x) = Inr (table_name (id_category i), x)" for x
    using rust_string_table_name by (rule str.get_put)
  moreover have "read_compact_string (string_bytes (id_version i) @ x) = Inr (id_version i, x)" for x
    using i by (intro str.get_put) (simp add: identity_valid_def)
  moreover have "read_exact 16 (id_bytes i @ x) = Inr (id_bytes i, x)" for x
    using i by (simp add: identity_valid_def)
  ultimately show "read_identity (identity_bytes i @ rest) = Inr (i, rest)"
    by (simp add: read_identity_def identity_bytes_def parse_table_name)
qed

interpretation frozen_preds: codec predecessor_bytes read_predecessors "\<lambda>ps. sorted_wrt (<) ps \<and> length ps < 2 ^ 32"
proof
  fix ps :: "u32 list" and rest
  assume ps: "sorted_wrt (<) ps \<and> length ps < 2 ^ 32"
  then have n: "unat (of_nat (length ps) :: u32) = length ps" by (simp add: unat_of_nat)
  have "read_u32 (le_bytes 4 (length ps) @ delta_bytes 0 ps @ rest) = Inr (of_nat (length ps), delta_bytes 0 ps @ rest)"
    using u32.get_put [of "of_nat (length ps)" "delta_bytes 0 ps @ rest"] unfolding n by simp
  then show "read_predecessors (predecessor_bytes ps @ rest) = Inr (ps, rest)"
    unfolding read_predecessors_def predecessor_bytes_def append_assoc
    by (simp only: res_bind_simps prod.case n ord.get_put [of ps "length ps", OF conjI, OF conjunct1 [OF ps] refl])
qed

lemma push_identities: "sorted_wrt (<) (acc @ xs) \<Longrightarrow> try_fold push_identity acc xs = Inr (acc @ xs)"
proof (induction xs arbitrary: acc)
  case (Cons x xs)
  have "\<not> (acc \<noteq> [] \<and> x \<le> last acc)" using Cons.prems by (cases acc rule: rev_cases) (auto simp: sorted_wrt_append not_le)
  then show ?case using Cons by (simp add: push_identity_def)
qed simp

lemma push_roots: "list_all (\<lambda>r. unat r < n) rs \<Longrightarrow> try_fold (push_root n) acc rs = Inr (acc @ rs)"
  by (induction rs arbitrary: acc) (simp_all add: push_root_def)

lemma push_predecessor_lists:
  assumes "list_all (list_all (\<lambda>p. unat p < n)) pss" "c + edge_total pss \<le> u64_max"
  shows "try_fold (push_predecessors n) (acc, c) pss = Inr (acc @ pss, c + edge_total pss)"
  using assms
proof (induction pss arbitrary: acc c)
  case (Cons ps pss)
  have "\<not> (ps \<noteq> [] \<and> n \<le> unat (last ps))" using Cons.prems(1) by (cases ps rule: rev_cases) (auto simp: not_le)
  then have "push_predecessors n (acc, c) ps = Inr (acc @ [ps], c + length ps)"
    using Cons.prems(2) by (simp add: push_predecessors_def count_edges_def edge_total_def)
  then show ?case using Cons by (simp add: edge_total_def)
qed (simp add: edge_total_def)

lemma decode_frozen_bytes:
  assumes wf: "graph_wf g" and ids: "list_all identity_valid (rg_identities g)"
    and small: "length (rg_identities g) < 2 ^ 32" "length (sr_graph_node_ordinals r) < 2 ^ 32" "edge_total (rg_reverse g) \<le> u64_max"
    and roots: "length (sr_roots r) = length (sr_graph_node_ordinals r)"
      "list_all (\<lambda>v. unat v < length (rg_identities g)) (sr_graph_node_ordinals r)"
  shows "decode_frozen_reference_graph (frozen_bytes g r) =
    Inr \<lparr>dg_identities = rg_identities g, dg_root_node_ordinals = sr_graph_node_ordinals r, dg_reverse = rg_reverse g\<rparr>"
proof -
  let ?n = "length (rg_identities g)" and ?m = "length (sr_graph_node_ordinals r)"
  have nm: "unat (of_nat ?n :: u32) = ?n" "unat (of_nat ?m :: u32) = ?m" using small by (simp_all add: unat_of_nat)
  note wf' = wf [unfolded graph_wf_def]
  have header: "read_exact (length FROZEN_REFERENCE_GRAPH_MAGIC) (FROZEN_REFERENCE_GRAPH_MAGIC @ x) = Inr (FROZEN_REFERENCE_GRAPH_MAGIC, x)"
      "read_u16 (le_bytes 2 (unat (1 :: u16)) @ x) = Inr (1, x)"
      "read_u32 (le_bytes 4 ?n @ x) = Inr (of_nat ?n, x)" "read_u32 (le_bytes 4 ?m @ x) = Inr (of_nat ?m, x)"
      "read_u64 (le_bytes 8 (edge_total (rg_reverse g)) @ x) = Inr (edge_total (rg_reverse g), x)" for x
    using u16.get_put [of 1] u32.get_put [of "of_nat ?n" x] u32.get_put [of "of_nat ?m" x] u64.get_put small(3) unfolding nm
    by (simp_all del: le_bytes.simps)
  have identities: "read_loop read_identity push_identity ?n [] (concat (map identity_bytes (rg_identities g)) @ x) =
      Inr (rg_identities g, x)" for x
    using ids push_identities [of "[]" "rg_identities g"] wf' by (intro frozen_id.read_loop_put) simp_all
  have ordinals: "read_loop read_u32 (push_root ?n) ?m [] (concat (map (\<lambda>v. le_bytes 4 (unat v)) (sr_graph_node_ordinals r)) @ x) =
      Inr (sr_graph_node_ordinals r, x)" for x
    using push_roots [OF roots(2), of "[]"] by (intro u32.read_loop_put) (simp_all add: list_all_iff)
  have "list_all (\<lambda>ps. sorted_wrt (<) ps \<and> length ps < 2 ^ 32) (rg_reverse g)"
  proof -
    have "length ps < 2 ^ 32" if "ps \<in> set (rg_reverse g)" for ps
    proof -
      have "distinct ps" "list_all (\<lambda>p. unat p < ?n) ps" using that wf' by (auto simp: list_all_iff strict_sorted_iff)
      then show ?thesis using distinct_length_le [of ps ?n] small(1) by simp
    qed
    then show ?thesis using wf' by (simp add: list_all_iff)
  qed
  then have edges: "read_loop read_predecessors (push_predecessors ?n) (length (rg_reverse g)) ([], 0) (concat (map predecessor_bytes (rg_reverse g)) @ x) =
      Inr ((rg_reverse g, edge_total (rg_reverse g)), x)" for x
    using push_predecessor_lists [of ?n "rg_reverse g" 0 "[]"] wf' small(3)
    by (intro frozen_preds.read_loop_put) (simp_all add: list_all_iff)
  have rev_len: "length (rg_reverse g) = ?n" using wf' by simp
  show ?thesis
    unfolding decode_frozen_reference_graph_def frozen_bytes_def roots(1)
    by (simp only: header res_bind_simps prod.case simp_thms if_False nm identities ordinals edges [of "[]", simplified rev_len append_Nil2])
qed

text \<open>The node ordinals of the roots are those of the sorted roots.\<close>

lemma stable_root_ordinals_correct:
  assumes g: "from_references references roots0 = Inr g" and r: "stable_root_ordinals_new roots g = Inr r"
  shows "sr_roots r = sort (remdups roots) \<and>
    list_all2 (\<lambda>root v. unat v < length (rg_identities g) \<and> rg_identities g ! unat v = root) (sr_roots r) (sr_graph_node_ordinals r)"
proof -
  from r obtain ordinals nodes where "try_map (\<lambda>root. ok_or OmittedIdentity (map_of (rg_identity_ids g) root)) (sort (remdups roots)) = Inr nodes"
    and r': "r = \<lparr>sr_roots = sort (remdups roots), sr_ordinal_by_identity = ordinals, sr_graph_node_ordinals = nodes\<rparr>"
    by (auto simp: stable_root_ordinals_new_def Let_def res_simps)
  then have "list_all2 (\<lambda>root v. map_of (rg_identity_ids g) root = Some v) (sr_roots r) (sr_graph_node_ordinals r)"
    by (simp add: try_map_eq_Inr ok_or_eq_Inr)
  then have "list_all2 (\<lambda>root v. unat v < length (rg_identities g) \<and> rg_identities g ! unat v = root) (sr_roots r) (sr_graph_node_ordinals r)"
    by (rule list_all2_mono) (use from_references_graph [OF g] in blast)
  then show ?thesis by (simp add: r')
qed

lemma frozen_file_decodes:
  assumes g: "from_references references roots0 = Inr g" and r: "stable_root_ordinals_new roots g = Inr r"
    and ids: "list_all identity_valid (rg_identities g)" and w: "build_frozen_reference_graph_file cancelled g r = Inr w"
  shows "decode_frozen_reference_graph (ew_output w) =
    Inr \<lparr>dg_identities = rg_identities g, dg_root_node_ordinals = sr_graph_node_ordinals r, dg_reverse = rg_reverse g\<rparr>"
proof -
  have wf: "graph_wf g" using from_references_graph [OF g] by blast
  then have "list_all sorted (rg_reverse g)" by (auto simp: graph_wf_def list_all_iff strict_sorted_imp_sorted)
  note bytes = build_emits [OF w ids this]
  note roots = stable_root_ordinals_correct [OF g r, THEN conjunct2]
  then have "list_all (\<lambda>v. unat v < length (rg_identities g)) (sr_graph_node_ordinals r)"
    by (auto simp: list_all2_conv_all_nth list_all_length)
  then show ?thesis using bytes wf ids list_all2_lengthD [OF roots] by (simp add: decode_frozen_bytes)
qed

lemma frozen_witness_correct:
  assumes g: "from_references references roots0 = Inr g" and r: "stable_root_ordinals_new roots g = Inr r"
    and k: "map_of (rg_identity_ids g) source = Some k" and j: "unat j < length (sr_roots r)"
    and d: "d = \<lparr>dg_identities = rg_identities g, dg_root_node_ordinals = sr_graph_node_ordinals r, dg_reverse = rg_reverse g\<rparr>"
  shows "if (source, sr_roots r ! unat j) \<in> (referenced_by references)\<^sup>*
    then \<exists>path. reconstruct_frozen_graph_witness d k j = Inr path \<and> reference_path references source (sr_roots r ! unat j) path
    else reconstruct_frozen_graph_witness d k j = Inl WitnessNotFound"
proof -
  let ?E = "graph_edges (rg_reverse g)" and ?n = "length (rg_identities g)" and ?v = "sr_graph_node_ordinals r ! unat j"
  note facts = from_references_graph [OF g]
  have source: "unat k < ?n" "rg_identities g ! unat k = source" using k facts by blast+
  note roots = stable_root_ordinals_correct [OF g r, THEN conjunct2]
  then have v: "unat ?v < ?n" "rg_identities g ! unat ?v = sr_roots r ! unat j" "unat j < length (sr_graph_node_ordinals r)"
    using j by (auto simp: list_all2_conv_all_nth)
  have rev_len: "length (rg_reverse g) = ?n" using facts by (simp add: graph_wf_def)
  have bound: "\<forall>a b. (a, b) \<in> ?E \<longrightarrow> unat b < ?n" using facts by blast
  obtain s where s: "search_start ?n k = Inr s" "search_inv ?n ?E k s" "search_closed ?E s" "visited_nodes s = {k}" "ss_queue s = [k]"
    using search_start_inv [OF source(1), of ?E] by blast
  then have until: "if (k, ?v) \<in> ?E\<^sup>*
      then \<exists>t. search_until ?v (rg_reverse g) s = Inr t \<and> search_inv ?n ?E k t \<and> ?v \<in> visited_nodes t
      else search_until ?v (rg_reverse g) s = Inl WitnessNotFound"
    using search_until_correct [OF s(2,3) bound rev_len, of ?v] by simp
  have run: "reconstruct_frozen_graph_witness d k j =
      res_bind (search_until ?v (rg_reverse g) s) (\<lambda>s. reconstruct_witness_path ?v (ss_parent s) (rg_identities g))"
    using v source s(1) by (simp add: reconstruct_frozen_graph_witness_def d Let_def)
  show ?thesis
  proof (cases "(k, ?v) \<in> ?E\<^sup>*")
    case True
    then obtain t where t: "search_until ?v (rg_reverse g) s = Inr t" "search_inv ?n ?E k t" "?v \<in> visited_nodes t" using until by auto
    obtain p where p: "reconstruct_witness_path ?v (ss_parent t) (rg_identities g) = Inr (map (\<lambda>v. rg_identities g ! unat v) p)"
        "p \<noteq> []" "hd p = k" "last p = ?v" "distinct p" "successively (\<lambda>a b. (a, b) \<in> ?E) p" "list_all (\<lambda>v. unat v < ?n) p"
      using reconstruct_witness_path_correct [OF t(2,3)] by blast
    then have "reference_path references source (sr_roots r ! unat j) (map (\<lambda>v. rg_identities g ! unat v) p)"
      using witness_is_reference_path [OF g p(2,5,6,7)] source(2) v(2) by simp
    then show ?thesis using True graph_reach [OF g source(1) v(1)] run t(1) p(1) source(2) v(2) by simp
  next
    case False
    then show ?thesis using until graph_reach [OF g source(1) v(1)] run source(2) v(2) by simp
  qed
qed

section \<open>Properties\<close>

text \<open>
  Whenever the file of a graph built from references is written, decoding its bytes succeeds and gives back
  the identities, the root ordinals and the edges of the graph, whatever the cancellation token answers.
\<close>

theorem frozen_graph_roundtrip:
  assumes "from_references references roots0 = Inr g" "stable_root_ordinals_new roots g = Inr r"
    and "list_all identity_valid (rg_identities g)" "build_frozen_reference_graph_file cancelled g r = Inr w"
  shows "decode_frozen_reference_graph (ew_output w) =
    Inr \<lparr>dg_identities = rg_identities g, dg_root_node_ordinals = sr_graph_node_ordinals r, dg_reverse = rg_reverse g\<rparr>"
  by (rule frozen_file_decodes [OF assms])

definition demo_roots :: stable_root_ordinals where
  "demo_roots = \<lparr>sr_roots = [demo_process], sr_ordinal_by_identity = [(demo_process, 0)], sr_graph_node_ordinals = [1]\<rparr>"

lemma demo_stable: "stable_root_ordinals_new [demo_process] demo_graph = Inr demo_roots"
  using demo_order(2) number_identities_eq [of "[demo_process]"]
  by (simp add: stable_root_ordinals_new_def demo_graph_def demo_roots_def)

lemma demo_valid: "list_all identity_valid (rg_identities demo_graph)"
  by (simp add: demo_graph_def demo_flow_def demo_process_def identity_valid_def rust_string_def as_bytes_def in_range_def)

lemma demo_frozen_build: "\<exists>w. build_frozen_reference_graph_file (\<lambda>_ _. False) demo_graph demo_roots = Inr w"
  by (simp add: build_frozen_reference_graph_file_def demo_graph_def demo_roots_def demo_flow_def demo_process_def
      FROZEN_REFERENCE_GRAPH_MAGIC_def write_u16_def write_u32_def write_u64_def write_all_def writer_new_def u32_try_from_def
      write_identity_def write_predecessors_def poll_def count_edges_def write_compact_string_def table_name_def
      write_delta_varint_def delta_step_def write_varint.simps drop_bit_eq_div u64_max_def)

theorem frozen_graph_roundtrip_witness:
  "\<exists>w. build_frozen_reference_graph_file (\<lambda>_ _. False) demo_graph demo_roots = Inr w \<and>
    decode_frozen_reference_graph (ew_output w) =
      Inr \<lparr>dg_identities = [demo_flow, demo_process], dg_root_node_ordinals = [1], dg_reverse = [[1], []]\<rparr>"
proof -
  obtain w where w: "build_frozen_reference_graph_file (\<lambda>_ _. False) demo_graph demo_roots = Inr w" using demo_frozen_build by blast
  from frozen_graph_roundtrip [OF demo_from_references demo_stable demo_valid w] w show ?thesis
    by (auto simp: demo_graph_def demo_roots_def)
qed

text \<open>
  C29. From the bytes of the frozen file alone, the witness of a root is reconstructed exactly when the root reaches
  the source in the original references, and it is then a chain of them without repetition; otherwise the
  reconstruction ends with the error that no witness exists. It never panics and never loops.
\<close>

theorem frozen_witness_reproducible:
  assumes "from_references references roots0 = Inr g" "stable_root_ordinals_new roots g = Inr r"
    and "list_all identity_valid (rg_identities g)" "build_frozen_reference_graph_file cancelled g r = Inr w"
    and "map_of (rg_identity_ids g) source = Some k" "unat j < length (sr_roots r)"
  shows "\<exists>d. decode_frozen_reference_graph (ew_output w) = Inr d \<and>
    (if (source, sort (remdups roots) ! unat j) \<in> (referenced_by references)\<^sup>*
     then \<exists>path. reconstruct_frozen_graph_witness d k j = Inr path \<and>
            reference_path references source (sort (remdups roots) ! unat j) path
     else reconstruct_frozen_graph_witness d k j = Inl WitnessNotFound)"
proof -
  have "sr_roots r = sort (remdups roots)" using stable_root_ordinals_correct [OF assms(1,2)] by blast
  then show ?thesis using frozen_file_decodes [OF assms(1-4)] frozen_witness_correct [OF assms(1,2,5,6) refl] by (intro exI conjI) auto
qed

theorem frozen_witness_reproducible_witness:
  "\<exists>w d path. build_frozen_reference_graph_file (\<lambda>_ _. False) demo_graph demo_roots = Inr w \<and>
    decode_frozen_reference_graph (ew_output w) = Inr d \<and> reconstruct_frozen_graph_witness d 0 0 = Inr path \<and>
    reference_path [demo_reference] demo_flow demo_process path"
proof -
  obtain w where w: "build_frozen_reference_graph_file (\<lambda>_ _. False) demo_graph demo_roots = Inr w" using demo_frozen_build by blast
  have "map_of (rg_identity_ids demo_graph) demo_flow = Some 0" by (simp add: demo_graph_def)
  moreover have "unat (0 :: u32) < length (sr_roots demo_roots)" by (simp add: demo_roots_def)
  ultimately show ?thesis
    using frozen_witness_reproducible [OF demo_from_references demo_stable demo_valid w, of demo_flow 0 0] demo_reaches w
    by (force simp: demo_roots_def)
qed

end
