(* ===== verification/Json_Value.thy ===== *)
theory Json_Value
  imports Worker_Prelude
begin

text \<open>
  JSON values (\<open>serde_json::Value\<close>) and their canonical text, the bytes from which every content hash and issue
  key of \<open>crates/solver-worker/src/scope_closure.rs\<close> is computed. A number is the text the library prints for it;
  the text of a string is an argument, since the escaping is the library's. An object is the list of its
  entries in the order in which its map iterates. Theorem: two values have the same canonical text exactly
  when they are equal up to the order of object entries.
\<close>

datatype json =
    JNull
  | JBool bool
  | JNumber string
  | JString string
  | JArray "json list"
  | JObject "(string \<times> json) list"

text \<open>The \<open>json!\<close> macro inserts entries into an ordered map.\<close>

definition json_object :: "(string \<times> json) list \<Rightarrow> json" where
  "json_object entries = JObject (sort_key fst entries)"

definition json_get :: "string \<Rightarrow> (string \<times> json) list \<Rightarrow> json option" where
  "json_get key entries = map_of entries key"

definition as_str :: "json \<Rightarrow> string option" where
  "as_str v = (case v of JString s \<Rightarrow> Some s | _ \<Rightarrow> None)"

section \<open>Canonical text\<close>

fun comma_separated :: "string list \<Rightarrow> string" where
  "comma_separated [] = []"
| "comma_separated [t] = t"
| "comma_separated (t # u # us) = t @ '','' @ comma_separated (u # us)"

lemma size_entry: "(k, v) \<in> set es \<Longrightarrow> size v < Suc (size_list (size_prod (\<lambda>_. 0) size) es)"
  by (induction es) auto

function write_canonical_json :: "(string \<Rightarrow> string) \<Rightarrow> json \<Rightarrow> string" where
  "write_canonical_json string_text JNull = ''null''"
| "write_canonical_json string_text (JBool b) = (if b then ''true'' else ''false'')"
| "write_canonical_json string_text (JNumber n) = n"
| "write_canonical_json string_text (JString s) = string_text s"
| "write_canonical_json string_text (JArray items) =
     ''['' @ comma_separated (map (write_canonical_json string_text) items) @ '']''"
| "write_canonical_json string_text (JObject entries) =
     ''{'' @ comma_separated (map (\<lambda>(key, item). string_text key @ '':'' @ write_canonical_json string_text item)
                              (sort_key fst entries)) @ ''}''"
  by pat_completeness auto

termination write_canonical_json
  by (relation "measure (\<lambda>(f, v). size v)") (auto simp: size_entry less_Suc_eq_le size_list_estimation')

definition canonical_json_sha256 :: "(string \<Rightarrow> string) \<Rightarrow> (string \<Rightarrow> string) \<Rightarrow> json \<Rightarrow> string" where
  "canonical_json_sha256 string_text sha256_hex v = sha256_hex (write_canonical_json string_text v)"

section \<open>The order of entries\<close>

text \<open>The value with every object sorted by key.\<close>

function sort_entries :: "json \<Rightarrow> json" where
  "sort_entries JNull = JNull"
| "sort_entries (JBool b) = JBool b"
| "sort_entries (JNumber n) = JNumber n"
| "sort_entries (JString s) = JString s"
| "sort_entries (JArray items) = JArray (map sort_entries items)"
| "sort_entries (JObject entries) = JObject (map (\<lambda>(key, item). (key, sort_entries item)) (sort_key fst entries))"
  by pat_completeness auto

termination sort_entries
  by (relation "measure size") (auto simp: size_entry less_Suc_eq_le size_list_estimation')

definition same_json :: "json \<Rightarrow> json \<Rightarrow> bool" where
  "same_json v w \<longleftrightarrow> sort_entries v = sort_entries w"

lemma sort_key_map_snd: "sort_key fst (map (\<lambda>(k, v). (k, f v)) es) = map (\<lambda>(k, v). (k, f v)) (sort_key fst es)"
proof (induction es)
  case (Cons e es)
  have "insort_key fst (case e of (k, v) \<Rightarrow> (k, f v)) (map (\<lambda>(k, v). (k, f v)) xs) = map (\<lambda>(k, v). (k, f v)) (insort_key fst e xs)" for xs
    by (induction xs) (auto split: prod.splits)
  then show ?case using Cons by simp
qed simp

lemma canonical_sort_entries: "write_canonical_json st (sort_entries v) = write_canonical_json st v"
proof (induction v rule: sort_entries.induct)
  case (6 entries)
  have "map (\<lambda>(k, item). st k @ '':'' @ write_canonical_json st item) (map (\<lambda>(k, item). (k, sort_entries item)) (sort_key fst entries)) =
      map (\<lambda>(k, item). st k @ '':'' @ write_canonical_json st item) (sort_key fst entries)"
    using 6 by (auto simp: comp_def split: prod.splits)
  moreover have "sort_key fst (map (\<lambda>(k, item). (k, sort_entries item)) (sort_key fst entries)) =
      map (\<lambda>(k, item). (k, sort_entries item)) (sort_key fst entries)"
    by (simp only: sort_key_map_snd sort_key_id_if_sorted sorted_sort_key)
  ultimately show ?case unfolding sort_entries.simps write_canonical_json.simps by (simp only:)
qed (simp_all add: comp_def cong: map_cong)

section \<open>The text determines the value\<close>

text \<open>
  What JSON promises of the text of a string: it starts with a quotation mark and is self-delimiting. The
  text of a number has only the characters of numbers.
\<close>

definition self_delimiting :: "(string \<Rightarrow> string) \<Rightarrow> bool" where
  "self_delimiting st \<longleftrightarrow> (\<forall>s. \<exists>rest. st s = CHR 0x22 # rest) \<and> (\<forall>s t r r'. st s @ r = st t @ r' \<longrightarrow> s = t \<and> r = r')"

definition number_char :: "char \<Rightarrow> bool" where
  "number_char c = (c \<in> set ''0123456789+-.eE'')"

definition number_start :: "char \<Rightarrow> bool" where
  "number_start c = (c \<in> set ''-0123456789'')"

fun json_wf :: "json \<Rightarrow> bool" where
  "json_wf (JNumber n) = (n \<noteq> [] \<and> number_start (hd n) \<and> list_all number_char n)"
| "json_wf (JArray items) = list_all json_wf items"
| "json_wf (JObject entries) = list_all (\<lambda>(k, v). json_wf v) entries"
| "json_wf v = True"

text \<open>What may follow a value inside a text.\<close>

definition delimited :: "string \<Rightarrow> bool" where
  "delimited r = (r = [] \<or> \<not> number_char (hd r))"

lemma comma_separated_Cons: "comma_separated (t # us) = t @ concat (map (\<lambda>u. CHR '','' # u) us)"
  by (induction us arbitrary: t) simp_all

lemma delimited_punctuation [simp]: "c \<in> {CHR '','', CHR '']'', CHR ''}''} \<Longrightarrow> delimited (c # r)"
  by (auto simp: delimited_def number_char_def)

lemma tail_inj:
  assumes "\<And>x y r r'. x \<in> set xs \<Longrightarrow> y \<in> set ys \<Longrightarrow> delimited r \<Longrightarrow> delimited r' \<Longrightarrow> f x @ r = f y @ r' \<Longrightarrow> h x = h y \<and> r = r'"
    and "c \<in> {CHR '']'', CHR ''}''}"
    and "concat (map (\<lambda>x. CHR '','' # f x) xs) @ c # r = concat (map (\<lambda>x. CHR '','' # f x) ys) @ c # r'"
  shows "map h xs = map h ys \<and> r = r'"
  using assms
proof (induction xs arbitrary: ys)
  case Nil
  then show ?case by (cases ys) auto
next
  case (Cons x xs)
  then obtain y zs where ys: "ys = y # zs" by (cases ys) auto
  let ?t = "\<lambda>zs. concat (map (\<lambda>x. CHR '','' # f x) zs)"
  have tails: "delimited (?t zs @ c # q)" for zs q using Cons.prems(2) by (cases zs) auto
  have "f x @ (?t xs @ c # r) = f y @ (?t zs @ c # r')" using Cons.prems(3) by (simp add: ys)
  then have head: "h x = h y" "?t xs @ c # r = ?t zs @ c # r'"
    using Cons.prems(1) [of x y "?t xs @ c # r" "?t zs @ c # r'"] tails ys by auto
  have "map h xs = map h zs \<and> r = r'"
    by (rule Cons.IH [OF _ Cons.prems(2) head(2)]) (rule Cons.prems(1), simp_all add: ys)
  then show ?case using head(1) ys by simp
qed

lemma comma_separated_inj:
  assumes inj: "\<And>x y r r'. x \<in> set xs \<Longrightarrow> y \<in> set ys \<Longrightarrow> delimited r \<Longrightarrow> delimited r' \<Longrightarrow> f x @ r = f y @ r' \<Longrightarrow> h x = h y \<and> r = r'"
    and c: "c \<in> {CHR '']'', CHR ''}''}" and start: "\<And>x r. x \<in> set xs \<union> set ys \<Longrightarrow> hd (f x @ r) \<noteq> c"
    and eq: "comma_separated (map f xs) @ c # r = comma_separated (map f ys) @ c # r'"
  shows "map h xs = map h ys \<and> r = r'"
proof (cases xs)
  case Nil
  have "ys = []"
  proof (rule ccontr)
    assume "ys \<noteq> []"
    then obtain y ys' where "ys = y # ys'" by (cases ys) auto
    then have "c # r = f y @ (concat (map (\<lambda>x. CHR '','' # f x) ys') @ c # r')"
      using eq Nil by (simp add: comma_separated_Cons comp_def)
    then show False using start [of y] \<open>ys = y # ys'\<close> by (metis UnCI list.sel(1) list.set_intros(1))
  qed
  then show ?thesis using Nil eq by simp
next
  case (Cons x xs')
  have "ys \<noteq> []"
  proof
    assume "ys = []"
    then have "f x @ (concat (map (\<lambda>x. CHR '','' # f x) xs') @ c # r) = c # r'"
      using eq Cons by (simp add: comma_separated_Cons comp_def)
    then show False using start [of x] Cons by (metis UnCI list.sel(1) list.set_intros(1))
  qed
  then obtain y ys' where ys: "ys = y # ys'" by (cases ys) auto
  have tails: "concat (map (\<lambda>x. CHR '','' # f x) xs) @ c # r = concat (map (\<lambda>x. CHR '','' # f x) ys) @ c # r'"
    using eq by (simp add: Cons ys comma_separated_Cons comp_def)
  show ?thesis by (rule tail_inj [OF _ c tails]) (rule inj)
qed

lemma self_delimitingD:
  "self_delimiting st \<Longrightarrow> \<exists>rest. st s = CHR 0x22 # rest"
  "self_delimiting st \<Longrightarrow> st s @ r = st t @ r' \<Longrightarrow> s = t \<and> r = r'"
  unfolding self_delimiting_def by blast+

text \<open>The first character of the text tells which kind of value it is.\<close>

definition value_kind :: "char \<Rightarrow> nat" where
  "value_kind c = (if c = CHR ''n'' then 0 else if c = CHR ''t'' then 1 else if c = CHR ''f'' then 2 else if c = CHR 0x22 then 3
     else if c = CHR ''['' then 4 else if c = CHR ''{'' then 5 else if number_start c then 6 else 7)"

fun json_kind :: "json \<Rightarrow> nat" where
  "json_kind JNull = 0"
| "json_kind (JBool b) = (if b then 1 else 2)"
| "json_kind (JString s) = 3"
| "json_kind (JArray items) = 4"
| "json_kind (JObject entries) = 5"
| "json_kind (JNumber n) = 6"

lemma value_kind_close: "value_kind (CHR '']'') = 7" "value_kind (CHR ''}'') = 7"
  by (simp_all add: value_kind_def number_start_def)

lemma canonical_head:
  assumes "self_delimiting st" "json_wf v"
  shows "value_kind (hd (write_canonical_json st v @ r)) = json_kind v"
proof (cases v)
  case (JString s)
  obtain rest where "st s = CHR 0x22 # rest" using self_delimitingD(1) [OF assms(1)] by blast
  then show ?thesis using JString by (simp add: value_kind_def)
next
  case (JNumber n)
  then show ?thesis using assms(2) by (auto simp: value_kind_def number_start_def)
qed (simp_all add: value_kind_def)

lemma number_text_inj:
  assumes "list_all number_char n" "list_all number_char m" "delimited r" "delimited r'" "n @ r = m @ r'"
  shows "n = m \<and> r = r'"
proof -
  have split: "takeWhile number_char (k @ q) = k" if "list_all number_char k" "delimited q" for k q
    using that by (cases q) (auto simp: delimited_def list_all_iff takeWhile_append)
  then have "n = m" using assms by metis
  then show ?thesis using assms(5) by simp
qed

lemma canonical_inj:
  assumes st: "self_delimiting st"
  shows "json_wf v \<Longrightarrow> json_wf w \<Longrightarrow> delimited r \<Longrightarrow> delimited r' \<Longrightarrow>
    write_canonical_json st v @ r = write_canonical_json st w @ r' \<Longrightarrow> sort_entries v = sort_entries w \<and> r = r'"
proof (induction "size v" arbitrary: v w r r' rule: less_induct)
  case less
  have kinds: "json_kind v = json_kind w"
    unfolding canonical_head [OF st less.prems(1), of r, symmetric] canonical_head [OF st less.prems(2), of r', symmetric] less.prems(5) ..
  have kind_bound: "json_kind u < 7" for u by (cases u) simp_all
  show ?case
  proof (cases v)
    case (JArray xs)
    with kinds obtain ys where ys: "w = JArray ys" by (cases w) (auto split: if_splits)
    have "map sort_entries xs = map sort_entries ys \<and> r = r'"
    proof (rule comma_separated_inj [where f = "write_canonical_json st" and c = "CHR '']''"])
      fix x y q q'
      assume xy: "x \<in> set xs" "y \<in> set ys" "delimited q" "delimited q'" "write_canonical_json st x @ q = write_canonical_json st y @ q'"
      have "size x < size v" using xy(1) JArray by (simp add: size_list_estimation' less_Suc_eq_le)
      then show "sort_entries x = sort_entries y \<and> q = q'"
        using less.hyps [of x y q q'] less.prems(1,2) xy by (auto simp: JArray ys list_all_iff)
    next
      fix x q
      assume "x \<in> set xs \<union> set ys"
      then have "json_wf x" using less.prems(1,2) by (auto simp: JArray ys list_all_iff)
      then show "hd (write_canonical_json st x @ q) \<noteq> CHR '']''"
        using canonical_head [OF st, of x q] value_kind_close(1) kind_bound [of x] by auto
    qed (use less.prems(5) JArray ys in simp_all)
    then show ?thesis by (simp add: JArray ys)
  next
    case (JObject xs)
    with kinds obtain ys where ys: "w = JObject ys" by (cases w) (auto split: if_splits)
    have "map (\<lambda>(k, u). (k, sort_entries u)) (sort_key fst xs) = map (\<lambda>(k, u). (k, sort_entries u)) (sort_key fst ys) \<and> r = r'"
    proof (rule comma_separated_inj [where f = "\<lambda>(k, u). st k @ '':'' @ write_canonical_json st u" and c = "CHR ''}''"])
      fix x y q q'
      assume xy: "x \<in> set (sort_key fst xs)" "y \<in> set (sort_key fst ys)" "delimited q" "delimited q'"
        "(case x of (k, u) \<Rightarrow> st k @ '':'' @ write_canonical_json st u) @ q = (case y of (k, u) \<Rightarrow> st k @ '':'' @ write_canonical_json st u) @ q'"
      obtain k u l t where kt: "x = (k, u)" "y = (l, t)" by (cases x, cases y)
      have "k = l \<and> '':'' @ write_canonical_json st u @ q = '':'' @ write_canonical_json st t @ q'"
        using xy(5) unfolding kt prod.case append_assoc by (rule self_delimitingD(2) [OF st])
      moreover have "size u < size v" using xy(1) JObject kt size_entry [of k u xs] by simp
      ultimately show "(case x of (k, u) \<Rightarrow> (k, sort_entries u)) = (case y of (k, u) \<Rightarrow> (k, sort_entries u)) \<and> q = q'"
        using less.hyps [of u t q q'] less.prems(1,2) xy(1-4) kt by (auto simp: JObject ys list_all_iff)
    next
      fix x :: "string \<times> json" and q
      obtain k u where "x = (k, u)" by (cases x)
      moreover obtain rest where "st k = CHR 0x22 # rest" using self_delimitingD(1) [OF st] by blast
      ultimately show "hd ((case x of (k, u) \<Rightarrow> st k @ '':'' @ write_canonical_json st u) @ q) \<noteq> CHR ''}''" by simp
    qed (use less.prems(5) JObject ys in simp_all)
    then show ?thesis by (simp add: JObject ys)
  next
    case (JNumber n)
    with kinds obtain m where m: "w = JNumber m" by (cases w) (auto split: if_splits)
    show ?thesis using number_text_inj [of n m r r'] less.prems by (simp add: JNumber m)
  next
    case (JString s)
    with kinds obtain t where t: "w = JString t" by (cases w) (auto split: if_splits)
    have "s = t \<and> r = r'" using less.prems(5) unfolding JString t write_canonical_json.simps by (rule self_delimitingD(2) [OF st])
    then show ?thesis by (simp add: JString t)
  qed (use kinds less.prems(5) in \<open>cases w; auto split: if_splits\<close>)+
qed

section \<open>Properties\<close>

text \<open>
  C30. Content hashes are taken of a text that identifies the document: two values have the same canonical text exactly when they
  are equal up to the order in which objects list their entries, at every depth.
\<close>

theorem canonical_text_identifies_value:
  assumes "self_delimiting string_text" "json_wf v" "json_wf w"
  shows "write_canonical_json string_text v = write_canonical_json string_text w \<longleftrightarrow> same_json v w"
proof
  assume "write_canonical_json string_text v = write_canonical_json string_text w"
  then show "same_json v w"
    using canonical_inj [OF assms, of "[]" "[]"] by (simp add: same_json_def delimited_def)
next
  assume "same_json v w"
  then show "write_canonical_json string_text v = write_canonical_json string_text w"
    unfolding same_json_def by (metis canonical_sort_entries)
qed

definition demo_quote :: "string \<Rightarrow> string" where
  "demo_quote s = CHR 0x22 # concat (map (\<lambda>c. [CHR ''.'', c]) s) @ [CHR 0x22]"

lemma demo_quote_tail:
  "concat (map (\<lambda>c. [CHR ''.'', c]) s) @ CHR 0x22 # r = concat (map (\<lambda>c. [CHR ''.'', c]) t) @ CHR 0x22 # r' \<Longrightarrow> s = t \<and> r = r'"
proof (induction s arbitrary: t)
  case Nil
  then show ?case by (cases t) auto
next
  case (Cons c s)
  then show ?case by (cases t) auto
qed

lemma demo_quote_self_delimiting: "self_delimiting demo_quote"
  unfolding self_delimiting_def
proof (intro conjI allI impI)
  fix s show "\<exists>rest. demo_quote s = CHR 0x22 # rest" by (simp add: demo_quote_def)
next
  fix s t r r' assume "demo_quote s @ r = demo_quote t @ r'"
  then have "s = t \<and> r = r'" by (intro demo_quote_tail) (simp add: demo_quote_def)
  then show "s = t" "r = r'" by simp_all
qed

theorem canonical_text_identifies_value_witness:
  "write_canonical_json demo_quote (JObject [(''b'', JNumber ''1''), (''a'', JArray [JNull])]) =
   write_canonical_json demo_quote (JObject [(''a'', JArray [JNull]), (''b'', JNumber ''1'')]) \<and>
   write_canonical_json demo_quote (JString ''1'') \<noteq> write_canonical_json demo_quote (JNumber ''1'')"
proof -
  let ?v = "JObject [(''b'', JNumber ''1''), (''a'', JArray [JNull])]" and ?w = "JObject [(''a'', JArray [JNull]), (''b'', JNumber ''1'')]"
  have wf: "json_wf ?v" "json_wf ?w" "json_wf (JString ''1'')" "json_wf (JNumber ''1'')"
    by (simp_all add: number_start_def number_char_def)
  have "same_json ?v ?w" by (simp add: same_json_def less_eq_char_def)
  moreover have "\<not> same_json (JString ''1'') (JNumber ''1'')" by (simp add: same_json_def)
  ultimately show ?thesis
    using canonical_text_identifies_value [OF demo_quote_self_delimiting wf(1,2)]
      canonical_text_identifies_value [OF demo_quote_self_delimiting wf(3,4)] by blast
qed

end
