(* ===== verification/Reference_Extraction.thy ===== *)
theory Reference_Extraction
  imports Reference_Graph Json_Value
begin

text \<open>
  The extraction of references from data set documents, \<open>crates/solver-worker/src/scope_closure.rs\<close>, and the policy
  that classifies them, \<open>source_reference_policy.rs\<close>. Texts are UTF-8 byte strings; the parser of UUIDs is an
  argument. Theorems: the walk visits every part of the document that is not excluded and turns each
  reference object into an edge or an issue, an edge without an issue at its path is canonical, and the
  classification of an edge is decided by its categories and its path.
\<close>

section \<open>Texts\<close>

definition ascii_lower :: "char \<Rightarrow> char" where
  "ascii_lower c = (if CHR ''A'' \<le> c \<and> c \<le> CHR ''Z'' then char_of (of_char c + 32 :: nat) else c)"

definition to_ascii_lowercase :: "string \<Rightarrow> string" where
  "to_ascii_lowercase s = map ascii_lower s"

definition eq_ignore_ascii_case :: "string \<Rightarrow> string \<Rightarrow> bool" where
  "eq_ignore_ascii_case a b = (to_ascii_lowercase a = to_ascii_lowercase b)"

definition starts_with :: "string \<Rightarrow> string \<Rightarrow> bool" where
  "starts_with s pat = (take (length pat) s = pat)"

definition ends_with :: "string \<Rightarrow> string \<Rightarrow> bool" where
  "ends_with s pat = starts_with (rev s) (rev pat)"

fun text_contains :: "string \<Rightarrow> string \<Rightarrow> bool" where
  "text_contains [] pat = (pat = [])"
| "text_contains (c # s) pat = (starts_with (c # s) pat \<or> text_contains s pat)"

text \<open>The characters with the property \<open>White_Space\<close>, encoded in UTF-8.\<close>

definition WHITE_SPACE :: "string list" where
  "WHITE_SPACE =
     map (\<lambda>c. [c]) [CHR 0x09, CHR 0x0A, CHR 0x0B, CHR 0x0C, CHR 0x0D, CHR 0x20] @
     map (\<lambda>c. [CHR 0xC2, c]) [CHR 0x85, CHR 0xA0] @ [[CHR 0xE1, CHR 0x9A, CHR 0x80]] @
     map (\<lambda>c. [CHR 0xE2, CHR 0x80, c])
       [CHR 0x80, CHR 0x81, CHR 0x82, CHR 0x83, CHR 0x84, CHR 0x85, CHR 0x86, CHR 0x87, CHR 0x88, CHR 0x89, CHR 0x8A,
        CHR 0xA8, CHR 0xA9, CHR 0xAF] @
     [[CHR 0xE2, CHR 0x81, CHR 0x9F], [CHR 0xE3, CHR 0x80, CHR 0x80]]"

lemma white_space_not_Nil: "w \<in> set WHITE_SPACE \<Longrightarrow> w \<noteq> []"
  by (auto simp: WHITE_SPACE_def)

definition white_prefix :: "string \<Rightarrow> string option" where
  "white_prefix s = find (starts_with s) WHITE_SPACE"

definition white_suffix :: "string \<Rightarrow> string option" where
  "white_suffix s = find (ends_with s) WHITE_SPACE"

lemma find_in_set: "find P xs = Some x \<Longrightarrow> x \<in> set xs \<and> P x"
  by (auto simp: find_Some_iff)

lemma white_prefix_shorter: "white_prefix s = Some w \<Longrightarrow> length s - length w < length s"
  using white_space_not_Nil [of w] by (cases s) (auto simp: white_prefix_def starts_with_def dest!: find_in_set)

lemma white_suffix_shorter: "white_suffix s = Some w \<Longrightarrow> length s - length w < length s"
  using white_space_not_Nil [of w] by (cases s) (auto simp: white_suffix_def starts_with_def ends_with_def dest!: find_in_set)

function text_trim_start :: "string \<Rightarrow> string" where
  "text_trim_start s = (case white_prefix s of None \<Rightarrow> s | Some w \<Rightarrow> text_trim_start (drop (length w) s))"
  by auto

termination text_trim_start
  by (relation "measure length") (auto dest: white_prefix_shorter)

declare text_trim_start.simps [simp del]

function text_trim_end :: "string \<Rightarrow> string" where
  "text_trim_end s = (case white_suffix s of None \<Rightarrow> s | Some w \<Rightarrow> text_trim_end (take (length s - length w) s))"
  by auto

termination text_trim_end
  by (relation "measure length") (auto dest: white_suffix_shorter)

declare text_trim_end.simps [simp del]

definition text_trim :: "string \<Rightarrow> string" where
  "text_trim s = text_trim_end (text_trim_start s)"

text \<open>\<open>split_whitespace\<close>: the maximal runs of other characters.\<close>

function split_whitespace :: "string \<Rightarrow> string \<Rightarrow> string list" where
  "split_whitespace run s =
     (case s of
        [] \<Rightarrow> if run = [] then [] else [run]
      | c # rest \<Rightarrow>
          (case white_prefix s of
             None \<Rightarrow> split_whitespace (run @ [c]) rest
           | Some w \<Rightarrow> (if run = [] then [] else [run]) @ split_whitespace [] (drop (length w) s)))"
  by auto

termination split_whitespace
  by (relation "measure (\<lambda>(run, s). length s)") (use white_prefix_shorter in force)+

declare split_whitespace.simps [simp del]

fun join_words :: "string list \<Rightarrow> string" where
  "join_words [] = []"
| "join_words [w] = w"
| "join_words (w # v # vs) = w @ '' '' @ join_words (v # vs)"

definition normalize_reference_type :: "string \<Rightarrow> string" where
  "normalize_reference_type raw = to_ascii_lowercase (join_words (split_whitespace [] raw))"

section \<open>Categories, versions\<close>

definition from_reference_type :: "string \<Rightarrow> dataset_category option" where
  "from_reference_type raw =
     (let t = normalize_reference_type raw in
      if t \<in> {''contact'', ''contact data set''} then Some Contacts
      else if t \<in> {''flow'', ''flow data set''} then Some Flows
      else if t \<in> {''flow property'', ''flow property data set''} then Some Flowproperties
      else if t \<in> {''lcia method'', ''lcia method data set''} then Some Lciamethods
      else if t \<in> {''life cycle model'', ''life cycle model data set'', ''lifecycle model'', ''lifecycle model data set''}
      then Some Lifecyclemodels
      else if t \<in> {''process'', ''process data set''} then Some Processes
      else if t \<in> {''source'', ''source data set''} then Some Sources
      else if t \<in> {''unit group'', ''unit group data set''} then Some Unitgroups
      else None)"

definition uri_segment_category :: "string \<Rightarrow> dataset_category option" where
  "uri_segment_category segment =
     (let t = to_ascii_lowercase segment in
      if t \<in> {''contacts'', ''contact''} then Some Contacts
      else if t \<in> {''flows'', ''flow''} then Some Flows
      else if t \<in> {''flowproperties'', ''flowproperty'', ''flow-properties''} then Some Flowproperties
      else if t \<in> {''lciamethods'', ''lciamethod'', ''lcia-methods''} then Some Lciamethods
      else if t \<in> {''lifecyclemodels'', ''lifecyclemodel'', ''life-cycle-models''} then Some Lifecyclemodels
      else if t \<in> {''processes'', ''process''} then Some Processes
      else if t \<in> {''sources'', ''source''} then Some Sources
      else if t \<in> {''unitgroups'', ''unitgroup'', ''unit-groups''} then Some Unitgroups
      else None)"

definition find_map :: "('a \<Rightarrow> 'b option) \<Rightarrow> 'a list \<Rightarrow> 'b option" where
  "find_map f xs = (case List.map_filter f xs of [] \<Rightarrow> None | y # _ \<Rightarrow> Some y)"

definition from_uri :: "string \<Rightarrow> dataset_category option" where
  "from_uri raw =
     find_map uri_segment_category (split_on CHR ''/'' (map (\<lambda>c. if c = CHR 0x5C then CHR ''/'' else c) raw))"

definition is_ascii_digit :: "char \<Rightarrow> bool" where
  "is_ascii_digit c = (CHR ''0'' \<le> c \<and> c \<le> CHR ''9'')"

definition digits :: "nat \<Rightarrow> string \<Rightarrow> bool" where
  "digits n s = (length s = n \<and> list_all is_ascii_digit s)"

definition validate_version :: "string \<Rightarrow> bool" where
  "validate_version version =
     (case split_on CHR ''.'' version of
        [a, b] \<Rightarrow> digits 2 a \<and> digits 2 b
      | [a, b, c] \<Rightarrow> digits 2 a \<and> digits 2 b \<and> digits 3 c
      | _ \<Rightarrow> False)"

definition normalize_exact_version :: "string \<Rightarrow> string option" where
  "normalize_exact_version version =
     (if validate_version version
      then Some (if count_list version CHR ''.'' = 1 then version @ ''.000'' else version) else None)"

section \<open>References\<close>

definition REFERENCE_EDGE_SCHEMA_VERSION :: string where
  "REFERENCE_EDGE_SCHEMA_VERSION = ''tidas.reference-edge.v1''"

definition REFERENCE_ISSUE_SCHEMA_VERSION :: string where
  "REFERENCE_ISSUE_SCHEMA_VERSION = ''tidas.reference-extraction-issue.v1''"

record reference_edge =
  ed_schema_version :: string
  ed_document_key :: string
  ed_source_category :: string
  ed_target_category :: string
  ed_target_uuid :: string
  ed_requested_version_state :: string
  ed_requested_version :: "string option"
  ed_requested_version_raw :: json
  ed_reference_role :: string
  ed_json_path :: string
  ed_raw_type :: json
  ed_uri :: json

record extraction_issue_record =
  ei_schema_version :: string
  ei_issue_code :: string
  ei_severity :: string
  ei_document_key :: string
  ei_source_category :: string
  ei_json_path :: string
  ei_reference_role :: string
  ei_message :: string
  ei_details :: json

record extraction_result =
  er_schema_version :: string
  er_document_key :: string
  er_source_category :: string
  er_edges :: "reference_edge list"
  er_issues :: "extraction_issue_record list"

definition reference_issue ::
  "extraction_result \<Rightarrow> string \<Rightarrow> string \<Rightarrow> string \<Rightarrow> string \<Rightarrow> json \<Rightarrow> extraction_issue_record" where
  "reference_issue result code json_path role message details =
     \<lparr>ei_schema_version = REFERENCE_ISSUE_SCHEMA_VERSION, ei_issue_code = code, ei_severity = ''error'', ei_document_key = er_document_key result,
      ei_source_category = er_source_category result, ei_json_path = json_path, ei_reference_role = role,
      ei_message = message, ei_details = details\<rparr>"

definition push_issue :: "string \<Rightarrow> string \<Rightarrow> string \<Rightarrow> string \<Rightarrow> json \<Rightarrow> extraction_result \<Rightarrow> extraction_result" where
  "push_issue code json_path role message details result =
     result\<lparr>er_issues := er_issues result @ [reference_issue result code json_path role message details]\<rparr>"

definition reference_role :: "dataset_category \<Rightarrow> string \<Rightarrow> string option \<Rightarrow> dataset_category option \<Rightarrow> string" where
  "reference_role source_category path parent_key target_category =
     (let normalized_path = to_ascii_lowercase path;
          normalized_key = to_ascii_lowercase (unwrap_or [] parent_key) in
      if source_category = Processes \<and> target_category = Some Flows \<and> text_contains normalized_path ''exchange'' \<and>
         normalized_key = ''referencetoflowdataset'' then ''process_exchange_flow''
      else if source_category = Lciamethods \<and> target_category = Some Flows \<and>
         (text_contains normalized_path ''characterisation'' \<or> text_contains normalized_path ''characterization'')
      then ''lcia_factor_flow''
      else if source_category = Lifecyclemodels \<and> target_category = Some Processes then ''lifecycle_model_process''
      else ''support_document'')"

definition looks_like_reference :: "(string \<times> json) list \<Rightarrow> string option \<Rightarrow> bool" where
  "looks_like_reference object parent_key =
     (json_get ''@refObjectId'' object \<noteq> None \<or> json_get ''@uri'' object \<noteq> None \<or>
      (case parent_key of None \<Rightarrow> False | Some key \<Rightarrow> text_contains (to_ascii_lowercase key) ''referenceto''))"

definition target_category_of :: "(string \<times> json) list \<Rightarrow> dataset_category option" where
  "target_category_of object =
     (case Option.bind (as_str (unwrap_or JNull (json_get ''@type'' object))) from_reference_type of
        Some c \<Rightarrow> Some c
      | None \<Rightarrow> Option.bind (as_str (unwrap_or JNull (json_get ''@uri'' object))) from_uri)"

definition object_id_of :: "(string \<times> json) list \<Rightarrow> string option" where
  "object_id_of object =
     (case Option.bind (json_get ''@refObjectId'' object) as_str of
        None \<Rightarrow> None
      | Some raw \<Rightarrow> if text_trim raw = [] then None else Some (text_trim raw))"

text \<open>The state of the requested version and the version.\<close>

definition version_of :: "json \<Rightarrow> string \<times> string option" where
  "version_of raw_version =
     (case raw_version of
        JNull \<Rightarrow> (''omitted'', None)
      | JString v \<Rightarrow> if validate_version v then (''explicit'', Some v) else (''invalid'', Some v)
      | _ \<Rightarrow> (''invalid'', None))"

definition extract_reference ::
  "(string \<Rightarrow> u8 list option) \<Rightarrow> dataset_category \<Rightarrow> (string \<times> json) list \<Rightarrow> string \<Rightarrow> string option
   \<Rightarrow> extraction_result \<Rightarrow> extraction_result" where
  "extract_reference parse_uuid source_category object path parent_key result =
     (let raw_type = unwrap_or JNull (json_get ''@type'' object);
          uri = unwrap_or JNull (json_get ''@uri'' object);
          target_category = target_category_of object;
          role = reference_role source_category path parent_key target_category;
          result = (if target_category = None
            then push_issue ''reference_type_unresolved'' path role
                   ''Reference target type cannot be resolved from @type or @uri.''
                   (json_object [(''raw_type'', raw_type), (''uri'', uri)]) result
            else result) in
      case object_id_of object of
        None \<Rightarrow> push_issue ''reference_object_id_missing'' path role
                  ''Recognized reference is missing a non-empty @refObjectId.''
                  (json_object [(''raw_ref_object_id'', unwrap_or JNull (json_get ''@refObjectId'' object)),
                                (''raw_type'', raw_type), (''uri'', uri)]) result
      | Some raw_id \<Rightarrow>
          let result = (if parse_uuid raw_id = None \<or> to_ascii_lowercase raw_id \<noteq> raw_id
                then push_issue ''reference_uuid_invalid'' path role
                       ''Reference @refObjectId is not a canonical lowercase UUID.''
                       (json_object [(''raw_ref_object_id'', JString raw_id)]) result
                else result);
              raw_version = unwrap_or JNull (json_get ''@version'' object);
              (version_state, requested_version) = version_of raw_version;
              result = (if version_state = ''invalid''
                then push_issue ''reference_version_invalid'' path role
                       ''Reference @version must match NN.NN or NN.NN.NNN.''
                       (json_object [(''requested_version_raw'', raw_version)]) result
                else result) in
          case target_category of
            None \<Rightarrow> result
          | Some target \<Rightarrow>
              result\<lparr>er_edges := er_edges result @
                [\<lparr>ed_schema_version = REFERENCE_EDGE_SCHEMA_VERSION, ed_document_key = er_document_key result, ed_source_category = table_name source_category,
                  ed_target_category = table_name target, ed_target_uuid = raw_id,
                  ed_requested_version_state = version_state, ed_requested_version = requested_version,
                  ed_requested_version_raw = raw_version, ed_reference_role = role, ed_json_path = path,
                  ed_raw_type = raw_type, ed_uri = uri\<rparr>]\<rparr>)"

section \<open>The walk\<close>

definition excluded_path :: "dataset_category \<Rightarrow> bool \<Rightarrow> string \<Rightarrow> bool" where
  "excluded_path source_category include_process_lcia_results path \<longleftrightarrow>
     source_category = Sources \<and>
       eq_ignore_ascii_case path ''$.sourceDataSet.sourceInformation.dataSetInformation.referenceToDigitalFile'' \<or>
     \<not> include_process_lcia_results \<and> source_category = Processes \<and> eq_ignore_ascii_case path ''$.processDataSet.LCIAResults''"

definition member_path :: "string \<Rightarrow> string \<Rightarrow> string" where
  "member_path path key = path @ ''.'' @ key"

definition item_path :: "string \<Rightarrow> nat \<Rightarrow> string" where
  "item_path path index = path @ ''['' @ show_nat index @ '']''"

function walk_references ::
  "(string \<Rightarrow> u8 list option) \<Rightarrow> dataset_category \<Rightarrow> bool \<Rightarrow> json \<Rightarrow> string \<Rightarrow> string option
   \<Rightarrow> extraction_result \<Rightarrow> extraction_result" where
  "walk_references parse_uuid cat incl node path parent_key result =
     (if excluded_path cat incl path then result
      else case node of
        JObject object \<Rightarrow>
          foldl (\<lambda>result (key, value). walk_references parse_uuid cat incl value (member_path path key) (Some key) result)
            (if looks_like_reference object parent_key then extract_reference parse_uuid cat object path parent_key result
             else result) object
      | JArray items \<Rightarrow>
          foldl (\<lambda>result (index, item). walk_references parse_uuid cat incl item (item_path path index) parent_key result)
            result (List.enumerate 0 items)
      | _ \<Rightarrow> result)"
  by auto

termination walk_references
proof (relation "measure (\<lambda>(p, c, i, node, q, k, r). size node)", goal_cases)
  case (3 parse_uuid cat incl node path parent_key result object r e key val)
  then show ?case using size_entry [of key val object] by simp
next
  case (2 parse_uuid cat incl node path parent_key result items r e index item)
  then have "item \<in> set items" by (auto simp: in_set_enumerate_eq)
  then show ?case using 2 by (simp add: size_list_estimation' less_Suc_eq_le)
qed simp

declare walk_references.simps [simp del]

definition extract_references_with_profile ::
  "(string \<Rightarrow> u8 list option) \<Rightarrow> string \<Rightarrow> dataset_category \<Rightarrow> json \<Rightarrow> bool \<Rightarrow> extraction_result" where
  "extract_references_with_profile parse_uuid document_key category payload include_process_lcia_results =
     walk_references parse_uuid category include_process_lcia_results payload ''$'' None
       \<lparr>er_schema_version = ''tidas.reference-extraction-result.v1'', er_document_key = document_key, er_source_category = table_name category, er_edges = [], er_issues = []\<rparr>"

definition extract_references ::
  "(string \<Rightarrow> u8 list option) \<Rightarrow> string \<Rightarrow> dataset_category \<Rightarrow> json \<Rightarrow> extraction_result" where
  "extract_references parse_uuid document_key category payload =
     extract_references_with_profile parse_uuid document_key category payload True"

definition extract_scope_closure_references ::
  "(string \<Rightarrow> u8 list option) \<Rightarrow> string \<Rightarrow> dataset_category \<Rightarrow> json \<Rightarrow> extraction_result" where
  "extract_scope_closure_references parse_uuid document_key category payload =
     extract_references_with_profile parse_uuid document_key category payload False"

section \<open>The reference policy\<close>

datatype artifact_purpose = ReviewSubmit | CalculationBundle | CertificateClosure

datatype source_reference_role =
  ExchangeFlow | ProviderProcess | RequiredSupport | AdministrativeSupport | LineageRole | ModelComposition

definition role_as_str :: "source_reference_role \<Rightarrow> string" where
  "role_as_str role =
     (case role of ExchangeFlow \<Rightarrow> ''exchange_flow'' | ProviderProcess \<Rightarrow> ''provider_process''
      | RequiredSupport \<Rightarrow> ''required_support'' | AdministrativeSupport \<Rightarrow> ''administrative_support''
      | LineageRole \<Rightarrow> ''lineage'' | ModelComposition \<Rightarrow> ''model_composition'')"

datatype source_reference_action =
  ValidateExchangeAxis | ValidateProviderInvariant | FetchRequiredSupport | FetchOptionalSupport | RecordEvidence
  | TraverseAdministrative

record classified_source_reference =
  cl_policy_version :: string
  cl_role :: source_reference_role
  cl_action :: source_reference_action

datatype policy_error = UnknownFlowOrProcessPath string string string

definition is_lineage_path :: "string \<Rightarrow> bool" where
  "is_lineage_path path =
     (text_contains path ''referencetoprecedingdatasetversion'' \<or> text_contains path ''referencetoreplaceddataset'' \<or>
      text_contains path ''referencetooriginaldataset'')"

definition is_model_composition_path :: "string \<Rightarrow> string \<Rightarrow> bool" where
  "is_model_composition_path source path =
     (text_contains path ''referencetoincludedprocesses'' \<or> text_contains path ''referencetoincludedprocess'' \<or>
      source = ''lifecyclemodels'' \<and> text_contains path ''referenceto'')"

definition is_administrative_support_path :: "string \<Rightarrow> bool" where
  "is_administrative_support_path path =
     list_ex (ends_with path)
       [''referencetocommissioner'', ''referencetocompliancesystem'', ''referencetocontact'',
        ''referencetoconvertedoriginaldatasetfrom'', ''referencetodatahandlingprinciples'', ''referencetodatasetformat'',
        ''referencetodatasetuseapproval'', ''referencetodatasource'', ''referencetoentitieswithexclusiveaccess'',
        ''referencetolcamethoddetails'', ''referencetologo'', ''referencetoownershipofdataset'',
        ''referencetopersonorentityenteringthedata'', ''referencetopersonorentitygeneratingthedataset'',
        ''referencetoregistrationauthority'', ''referencetotechnologyflowdiagrammorpicture'',
        ''referencetotechnologypictogramme'', ''referencetounchangedrepublication'']"

definition classify_malformed_reference_role :: "string \<Rightarrow> string \<Rightarrow> source_reference_role option" where
  "classify_malformed_reference_role source_category json_path =
     (let path = to_ascii_lowercase json_path in
      if is_lineage_path path then Some LineageRole
      else if is_model_composition_path source_category path then Some ModelComposition
      else if is_administrative_support_path path then Some AdministrativeSupport
      else if source_category = ''processes'' \<and> text_contains path ''exchange'' \<and> ends_with path ''referencetoflowdataset''
      then Some ExchangeFlow
      else if source_category = ''processes'' \<and> (text_contains path ''provider'' \<or> text_contains path ''referenceprocess'')
      then Some ProviderProcess
      else None)"

definition classify_role_parts :: "string \<Rightarrow> string \<Rightarrow> string \<Rightarrow> policy_error + source_reference_role" where
  "classify_role_parts source target json_path =
     (let path = to_ascii_lowercase json_path in
      if source = ''processes'' \<and> target = ''flows'' \<and> text_contains path ''exchange'' \<and> ends_with path ''referencetoflowdataset''
      then Inr ExchangeFlow
      else if source = ''lciamethods'' \<and> target = ''flows'' \<and>
         (text_contains path ''characterisation'' \<or> text_contains path ''characterization'')
      then Inr RequiredSupport
      else if is_lineage_path path then Inr LineageRole
      else if is_model_composition_path source path \<or> source = ''lifecyclemodels'' \<and> target = ''processes''
      then Inr ModelComposition
      else if is_administrative_support_path path then Inr AdministrativeSupport
      else if source = ''processes'' \<and> target = ''processes'' \<and> (text_contains path ''provider'' \<or> text_contains path ''referenceprocess'')
      then Inr ProviderProcess
      else if target \<in> {''contacts'', ''flowproperties'', ''lciamethods'', ''sources'', ''unitgroups''} then Inr RequiredSupport
      else if target \<in> {''flows'', ''processes''} then Inl (UnknownFlowOrProcessPath source target json_path)
      else Inr RequiredSupport)"

definition classify_role :: "reference_edge \<Rightarrow> policy_error + source_reference_role" where
  "classify_role edge = classify_role_parts (ed_source_category edge) (ed_target_category edge) (ed_json_path edge)"

definition role_action :: "artifact_purpose \<Rightarrow> source_reference_role \<Rightarrow> source_reference_action" where
  "role_action purpose role =
     (if purpose = CertificateClosure then TraverseAdministrative
      else case role of
        ExchangeFlow \<Rightarrow> ValidateExchangeAxis | ProviderProcess \<Rightarrow> ValidateProviderInvariant
      | RequiredSupport \<Rightarrow> FetchRequiredSupport | AdministrativeSupport \<Rightarrow> FetchOptionalSupport
      | LineageRole \<Rightarrow> RecordEvidence | ModelComposition \<Rightarrow> RecordEvidence)"

definition SOURCE_REFERENCE_POLICY_VERSION :: string where
  "SOURCE_REFERENCE_POLICY_VERSION = ''source-reference-policy.v4''"

definition classify_reference :: "reference_edge \<Rightarrow> artifact_purpose \<Rightarrow> policy_error + classified_source_reference" where
  "classify_reference edge purpose =
     res_bind (classify_role edge) (\<lambda>role.
     Inr \<lparr>cl_policy_version = SOURCE_REFERENCE_POLICY_VERSION, cl_role = role, cl_action = role_action purpose role\<rparr>)"

section \<open>What one reference object gives\<close>

definition edge_from ::
  "dataset_category \<Rightarrow> (string \<times> json) list \<Rightarrow> string \<Rightarrow> string option \<Rightarrow> reference_edge \<Rightarrow> bool" where
  "edge_from cat object path parent e \<longleftrightarrow>
     ed_json_path e = path \<and> ed_source_category e = table_name cat \<and> object_id_of object = Some (ed_target_uuid e) \<and>
     (\<exists>c. target_category_of object = Some c \<and> ed_target_category e = table_name c \<and>
          ed_reference_role e = reference_role cat path parent (Some c)) \<and>
     ed_requested_version_raw e = unwrap_or JNull (json_get ''@version'' object) \<and>
     version_of (ed_requested_version_raw e) = (ed_requested_version_state e, ed_requested_version e)"

text \<open>An edge that the scan can follow: a lower-case UUID, and no version or one of the right form.\<close>

definition canonical_edge :: "(string \<Rightarrow> u8 list option) \<Rightarrow> reference_edge \<Rightarrow> bool" where
  "canonical_edge parse_uuid e \<longleftrightarrow>
     parse_uuid (ed_target_uuid e) \<noteq> None \<and> to_ascii_lowercase (ed_target_uuid e) = ed_target_uuid e \<and>
     (ed_requested_version_state e = ''omitted'' \<and> ed_requested_version e = None \<or>
      ed_requested_version_state e = ''explicit'' \<and> (\<exists>v. ed_requested_version e = Some v \<and> validate_version v))"

lemma push_issue_simps [simp]:
  "er_edges (push_issue c p r m d result) = er_edges result"
  "er_document_key (push_issue c p r m d result) = er_document_key result"
  "er_source_category (push_issue c p r m d result) = er_source_category result"
  "er_issues (push_issue c p r m d result) = er_issues result @ [reference_issue result c p r m d]"
  by (simp_all add: push_issue_def)

lemma reference_issue_path [simp]: "ei_json_path (reference_issue result c p r m d) = p"
  by (simp add: reference_issue_def)

lemma version_of_cases:
  "fst (version_of raw) = ''omitted'' \<and> snd (version_of raw) = None \<or>
   fst (version_of raw) = ''explicit'' \<and> (\<exists>v. snd (version_of raw) = Some v \<and> validate_version v) \<or>
   fst (version_of raw) = ''invalid''"
  by (auto simp: version_of_def split: json.splits)

text \<open>What the extraction of one object adds: edges and issues at its path, at least one of them.\<close>

definition adds ::
  "(string \<Rightarrow> u8 list option) \<Rightarrow> dataset_category \<Rightarrow> (string \<times> json) list \<Rightarrow> string \<Rightarrow> string option
   \<Rightarrow> reference_edge list \<Rightarrow> extraction_issue_record list \<Rightarrow> bool" where
  "adds parse_uuid cat object path parent es is \<longleftrightarrow>
     (\<forall>e \<in> set es. edge_from cat object path parent e) \<and> (\<forall>i \<in> set is. ei_json_path i = path) \<and>
     (es = [] \<longrightarrow> is \<noteq> []) \<and> (is = [] \<longrightarrow> (\<forall>e \<in> set es. canonical_edge parse_uuid e))"

lemma extract_reference_adds:
  "\<exists>es is. er_edges (extract_reference parse_uuid cat object path parent r) = er_edges r @ es \<and>
     er_issues (extract_reference parse_uuid cat object path parent r) = er_issues r @ is \<and>
     adds parse_uuid cat object path parent es is"
proof (cases "object_id_of object")
  case None
  then show ?thesis by (auto simp: extract_reference_def Let_def adds_def)
next
  case (Some raw_id)
  obtain state version where version: "version_of (unwrap_or JNull (json_get ''@version'' object)) = (state, version)"
    by (cases "version_of (unwrap_or JNull (json_get ''@version'' object))")
  show ?thesis
  proof (cases "target_category_of object")
    case None
    then show ?thesis using Some version by (auto simp: extract_reference_def Let_def adds_def)
  next
    case target: (Some c)
    let ?e = "\<lparr>ed_schema_version = REFERENCE_EDGE_SCHEMA_VERSION, ed_document_key = er_document_key r,
        ed_source_category = table_name cat, ed_target_category = table_name c, ed_target_uuid = raw_id,
        ed_requested_version_state = state, ed_requested_version = version,
        ed_requested_version_raw = unwrap_or JNull (json_get ''@version'' object),
        ed_reference_role = reference_role cat path parent (Some c), ed_json_path = path,
        ed_raw_type = unwrap_or JNull (json_get ''@type'' object), ed_uri = unwrap_or JNull (json_get ''@uri'' object)\<rparr>"
    have "edge_from cat object path parent ?e" using Some target version by (simp add: edge_from_def)
    moreover have "er_edges (extract_reference parse_uuid cat object path parent r) = er_edges r @ [?e]"
      using Some target version by (simp add: extract_reference_def Let_def)
    moreover have "\<exists>is. er_issues (extract_reference parse_uuid cat object path parent r) = er_issues r @ is \<and>
        (\<forall>i \<in> set is. ei_json_path i = path) \<and> (is = [] \<longrightarrow> canonical_edge parse_uuid ?e)"
      using Some target version version_of_cases [of "unwrap_or JNull (json_get ''@version'' object)"]
      by (auto simp: extract_reference_def Let_def canonical_edge_def)
    ultimately show ?thesis unfolding adds_def by (intro exI [of _ "[?e]"]) auto
  qed
qed

section \<open>The walk visits every part\<close>

text \<open>The parts of a document below a starting point, without what lies under an excluded path.\<close>

inductive document_node ::
  "dataset_category \<Rightarrow> bool \<Rightarrow> string \<Rightarrow> string option \<Rightarrow> json \<Rightarrow> string \<Rightarrow> string option \<Rightarrow> json \<Rightarrow> bool"
  for cat incl path0 parent0 node0 where
  start: "\<not> excluded_path cat incl path0 \<Longrightarrow> document_node cat incl path0 parent0 node0 path0 parent0 node0"
| member: "document_node cat incl path0 parent0 node0 path parent (JObject object) \<Longrightarrow> (key, v) \<in> set object \<Longrightarrow>
    \<not> excluded_path cat incl (member_path path key) \<Longrightarrow> document_node cat incl path0 parent0 node0 (member_path path key) (Some key) v"
| item: "document_node cat incl path0 parent0 node0 path parent (JArray items) \<Longrightarrow> index < length items \<Longrightarrow>
    \<not> excluded_path cat incl (item_path path index) \<Longrightarrow>
    document_node cat incl path0 parent0 node0 (item_path path index) parent (items ! index)"

function reference_nodes ::
  "dataset_category \<Rightarrow> bool \<Rightarrow> json \<Rightarrow> string \<Rightarrow> string option \<Rightarrow> (string \<times> string option \<times> (string \<times> json) list) list" where
  "reference_nodes cat incl node path parent =
     (if excluded_path cat incl path then []
      else case node of
        JObject object \<Rightarrow> (if looks_like_reference object parent then [(path, parent, object)] else []) @
          concat (map (\<lambda>(key, v). reference_nodes cat incl v (member_path path key) (Some key)) object)
      | JArray items \<Rightarrow> concat (map (\<lambda>(index, v). reference_nodes cat incl v (item_path path index) parent) (List.enumerate 0 items))
      | _ \<Rightarrow> [])"
  by auto

termination reference_nodes
proof (relation "measure (\<lambda>(c, i, node, q, k). size node)", goal_cases)
  case (3 cat incl node path parent object e key v)
  then show ?case using size_entry [of key v object] by simp
next
  case (2 cat incl node path parent items e index v)
  then have "v \<in> set items" by (auto simp: in_set_enumerate_eq)
  then show ?case using 2 by (simp add: size_list_estimation' less_Suc_eq_le)
qed simp

declare reference_nodes.simps [simp del]

lemma foldl_concat_map:
  "(\<And>x r. x \<in> set xs \<Longrightarrow> g r x = foldl step r (f x)) \<Longrightarrow> foldl g r xs = foldl step r (concat (map f xs))"
  by (induction xs arbitrary: r) simp_all

lemma walk_references_nodes:
  "walk_references parse_uuid cat incl node path parent r =
   foldl (\<lambda>r (path, parent, object). extract_reference parse_uuid cat object path parent r) r (reference_nodes cat incl node path parent)"
proof (induction parse_uuid cat incl node path parent r rule: walk_references.induct)
  case (1 parse_uuid cat incl node path parent r)
  let ?step = "\<lambda>r (path, parent, object). extract_reference parse_uuid cat object path parent r"
  show ?case
  proof (cases "excluded_path cat incl path")
    case True
    then show ?thesis by (simp add: walk_references.simps reference_nodes.simps)
  next
    case False
    show ?thesis
    proof (cases node)
      case (JObject object)
      have "foldl (\<lambda>r (key, v). walk_references parse_uuid cat incl v (member_path path key) (Some key) r) r0 object =
          foldl ?step r0 (concat (map (\<lambda>(key, v). reference_nodes cat incl v (member_path path key) (Some key)) object))" for r0
        by (rule foldl_concat_map) (use 1(2) [OF False JObject] in auto)
      then show ?thesis using False JObject by (simp add: walk_references.simps [of _ _ _ "JObject object"] reference_nodes.simps [of _ _ "JObject object"])
    next
      case (JArray items)
      have "foldl (\<lambda>r (index, v). walk_references parse_uuid cat incl v (item_path path index) parent r) r0 (List.enumerate 0 items) =
          foldl ?step r0 (concat (map (\<lambda>(index, v). reference_nodes cat incl v (item_path path index) parent) (List.enumerate 0 items)))" for r0
        by (rule foldl_concat_map) (use 1(1) [OF False JArray] in auto)
      then show ?thesis using False JArray by (simp add: walk_references.simps [of _ _ _ "JArray items"] reference_nodes.simps [of _ _ "JArray items"])
    qed (use False in \<open>simp_all add: walk_references.simps reference_nodes.simps\<close>)
  qed
qed

lemma document_node_start: "document_node cat incl p0 q0 n0 path parent node \<Longrightarrow> \<not> excluded_path cat incl p0"
  by (induction rule: document_node.induct) simp_all

lemma document_node_trans:
  "document_node cat incl p1 q1 n1 path parent node \<Longrightarrow> document_node cat incl p0 q0 n0 p1 q1 n1 \<Longrightarrow>
   document_node cat incl p0 q0 n0 path parent node"
  by (induction rule: document_node.induct) (auto intro: document_node.intros)

text \<open>The parts below an object are the object and the parts below its members; arrays are alike.\<close>

lemma document_node_Object:
  assumes "document_node cat incl p0 q0 (JObject object) path parent node"
  shows "path = p0 \<and> parent = q0 \<and> node = JObject object \<or>
    (\<exists>key v. (key, v) \<in> set object \<and> document_node cat incl (member_path p0 key) (Some key) v path parent node)"
  using assms
proof (induction rule: document_node.induct)
  case (member path parent obj key v)
  then show ?case by (auto intro: document_node.intros)
next
  case (item path parent items index)
  then show ?case by (auto intro: document_node.intros)
qed simp

lemma document_node_Array:
  assumes "document_node cat incl p0 q0 (JArray items) path parent node"
  shows "path = p0 \<and> parent = q0 \<and> node = JArray items \<or>
    (\<exists>i < length items. document_node cat incl (item_path p0 i) q0 (items ! i) path parent node)"
  using assms
proof (induction rule: document_node.induct)
  case (member path parent obj key v)
  then show ?case by (auto intro: document_node.intros)
next
  case (item path parent xs index)
  then show ?case by (auto intro: document_node.intros)
qed simp

lemma document_node_Object_iff:
  "document_node cat incl p0 q0 (JObject object) path parent node \<longleftrightarrow> \<not> excluded_path cat incl p0 \<and>
   (path = p0 \<and> parent = q0 \<and> node = JObject object \<or>
    (\<exists>key v. (key, v) \<in> set object \<and> document_node cat incl (member_path p0 key) (Some key) v path parent node))"
proof (intro iffI conjI; (elim conjE)?)
  assume *: "\<not> excluded_path cat incl p0" "path = p0 \<and> parent = q0 \<and> node = JObject object \<or>
    (\<exists>key v. (key, v) \<in> set object \<and> document_node cat incl (member_path p0 key) (Some key) v path parent node)"
  note start = document_node.start [OF *(1), of q0 "JObject object"]
  from *(2) show "document_node cat incl p0 q0 (JObject object) path parent node"
  proof (elim disjE exE conjE)
    fix key v
    assume kv: "(key, v) \<in> set object" "document_node cat incl (member_path p0 key) (Some key) v path parent node"
    show ?thesis by (rule document_node_trans [OF kv(2) document_node.member [OF start kv(1) document_node_start [OF kv(2)]]])
  qed (use start in simp)
qed (blast dest: document_node_start document_node_Object)+

lemma document_node_Array_iff:
  "document_node cat incl p0 q0 (JArray items) path parent node \<longleftrightarrow> \<not> excluded_path cat incl p0 \<and>
   (path = p0 \<and> parent = q0 \<and> node = JArray items \<or>
    (\<exists>i < length items. document_node cat incl (item_path p0 i) q0 (items ! i) path parent node))"
proof (intro iffI conjI; (elim conjE)?)
  assume *: "\<not> excluded_path cat incl p0" "path = p0 \<and> parent = q0 \<and> node = JArray items \<or>
    (\<exists>i < length items. document_node cat incl (item_path p0 i) q0 (items ! i) path parent node)"
  note start = document_node.start [OF *(1), of q0 "JArray items"]
  from *(2) show "document_node cat incl p0 q0 (JArray items) path parent node"
  proof (elim disjE exE conjE)
    fix i
    assume i: "i < length items" "document_node cat incl (item_path p0 i) q0 (items ! i) path parent node"
    show ?thesis by (rule document_node_trans [OF i(2) document_node.item [OF start i(1) document_node_start [OF i(2)]]])
  qed (use start in simp)
qed (blast dest: document_node_start document_node_Array)+

lemma document_node_scalar:
  assumes "document_node cat incl p0 q0 n0 path parent node" "\<forall>xs. n0 \<noteq> JArray xs" "\<forall>obj. n0 \<noteq> JObject obj"
  shows "node = n0"
  using assms by (induction rule: document_node.induct) auto

lemma reference_nodes_iff:
  "(path, parent, object) \<in> set (reference_nodes cat incl n0 p0 q0) \<longleftrightarrow>
   document_node cat incl p0 q0 n0 path parent (JObject object) \<and> looks_like_reference object parent"
proof (induction cat incl n0 p0 q0 rule: reference_nodes.induct)
  case (1 cat incl n0 p0 q0)
  show ?case
  proof (cases "excluded_path cat incl p0")
    case True
    then show ?thesis using document_node_start [of cat incl p0] by (auto simp: reference_nodes.simps)
  next
    case False
    show ?thesis
    proof (cases n0)
      case (JObject obj)
      have "(\<exists>kv \<in> set obj. (path, parent, object) \<in> set (case kv of (key, v) \<Rightarrow> reference_nodes cat incl v (member_path p0 key) (Some key))) \<longleftrightarrow>
          (\<exists>key v. (key, v) \<in> set obj \<and> document_node cat incl (member_path p0 key) (Some key) v path parent (JObject object)) \<and>
          looks_like_reference object parent"
        using 1(2) [OF False JObject] by fastforce
      then show ?thesis using False
        by (auto simp: JObject reference_nodes.simps [of _ _ "JObject obj"] document_node_Object_iff simp del: split_paired_Ex)
    next
      case (JArray items)
      have "(\<exists>iv \<in> set (List.enumerate 0 items). (path, parent, object) \<in> set (case iv of (i, v) \<Rightarrow> reference_nodes cat incl v (item_path p0 i) q0)) \<longleftrightarrow>
          (\<exists>i < length items. document_node cat incl (item_path p0 i) q0 (items ! i) path parent (JObject object)) \<and>
          looks_like_reference object parent"
        using 1(1) [OF False JArray] by (fastforce simp: in_set_enumerate_eq)
      then show ?thesis using False
        by (auto simp: JArray reference_nodes.simps [of _ _ "JArray items"] document_node_Array_iff)
    qed (use False document_node_scalar [of cat incl p0 q0 n0 path parent "JObject object"] in \<open>auto simp: reference_nodes.simps\<close>)
  qed
qed

lemma fold_extract:
  "\<exists>parts. list_all2 (\<lambda>(path, parent, object) (es, is). adds parse_uuid cat object path parent es is) nodes parts \<and>
     er_edges (foldl (\<lambda>r (path, parent, object). extract_reference parse_uuid cat object path parent r) r nodes) =
       er_edges r @ concat (map fst parts) \<and>
     er_issues (foldl (\<lambda>r (path, parent, object). extract_reference parse_uuid cat object path parent r) r nodes) =
       er_issues r @ concat (map snd parts)"
proof (induction nodes arbitrary: r)
  case (Cons node nodes)
  obtain path parent object where node: "node = (path, parent, object)" by (cases node)
  let ?r = "extract_reference parse_uuid cat object path parent r"
  obtain es "is" where first: "er_edges ?r = er_edges r @ es" "er_issues ?r = er_issues r @ is" "adds parse_uuid cat object path parent es is"
    using extract_reference_adds by blast
  obtain parts where rest: "list_all2 (\<lambda>(path, parent, object) (es, is). adds parse_uuid cat object path parent es is) nodes parts"
      "er_edges (foldl (\<lambda>r (path, parent, object). extract_reference parse_uuid cat object path parent r) ?r nodes) =
        er_edges ?r @ concat (map fst parts)"
      "er_issues (foldl (\<lambda>r (path, parent, object). extract_reference parse_uuid cat object path parent r) ?r nodes) =
        er_issues ?r @ concat (map snd parts)"
    using Cons.IH [of ?r] by blast
  show ?case using first rest by (intro exI [of _ "(es, is) # parts"]) (simp add: node)
qed simp

section \<open>Properties\<close>

text \<open>
  C31. Extraction loses no reference: every object of the document outside the excluded paths that looks like a
  reference yields an edge from its own data or an issue at its path, every edge comes from such an object, and
  an edge at a path without an issue has a lower-case UUID and either no version or one of the form NN.NN or
  NN.NN.NNN.
\<close>

theorem extraction_accounts_for_references:
  assumes "result = extract_references_with_profile parse_uuid document_key cat payload incl"
  shows "(\<forall>path parent object. document_node cat incl ''$'' None payload path parent (JObject object) \<and> looks_like_reference object parent \<longrightarrow>
      (\<exists>e \<in> set (er_edges result). edge_from cat object path parent e) \<or> (\<exists>i \<in> set (er_issues result). ei_json_path i = path)) \<and>
    (\<forall>e \<in> set (er_edges result). \<exists>parent object.
      document_node cat incl ''$'' None payload (ed_json_path e) parent (JObject object) \<and> looks_like_reference object parent \<and>
      edge_from cat object (ed_json_path e) parent e \<and>
      (canonical_edge parse_uuid e \<or> (\<exists>i \<in> set (er_issues result). ei_json_path i = ed_json_path e)))"
proof -
  let ?nodes = "reference_nodes cat incl payload ''$'' None"
  obtain parts where parts: "list_all2 (\<lambda>(path, parent, object) (es, is). adds parse_uuid cat object path parent es is) ?nodes parts"
      "er_edges result = concat (map fst parts)" "er_issues result = concat (map snd parts)"
    using fold_extract [of parse_uuid cat ?nodes] unfolding assms extract_references_with_profile_def walk_references_nodes
    by (metis append_Nil extraction_result.select_convs(4,5))
  have node_part: "\<exists>es is. (es, is) \<in> set parts \<and> adds parse_uuid cat object path parent es is"
    if "(path, parent, object) \<in> set ?nodes" for path parent object
    using parts(1) that by (fastforce simp: list_all2_conv_all_nth in_set_conv_nth)
  have part_node: "\<exists>path parent object. (path, parent, object) \<in> set ?nodes \<and> adds parse_uuid cat object path parent es is"
    if "(es, is) \<in> set parts" for es "is"
    using parts(1) that by (fastforce simp: list_all2_conv_all_nth in_set_conv_nth)
  have "(\<exists>e \<in> set (er_edges result). edge_from cat object path parent e) \<or> (\<exists>i \<in> set (er_issues result). ei_json_path i = path)"
    if node: "document_node cat incl ''$'' None payload path parent (JObject object)" "looks_like_reference object parent" for path parent object
  proof -
    obtain es "is" where p: "(es, is) \<in> set parts" "adds parse_uuid cat object path parent es is"
      using node_part [of path parent object] node by (auto simp: reference_nodes_iff)
    show ?thesis
    proof (cases es)
      case Nil
      then obtain i where "i \<in> set is" "ei_json_path i = path" using p(2) unfolding adds_def by (metis list.set_sel(1))
      then show ?thesis using p(1) parts(3) by force
    next
      case (Cons e es')
      then show ?thesis using p parts(2) unfolding adds_def by force
    qed
  qed
  moreover have "\<exists>parent object.
      document_node cat incl ''$'' None payload (ed_json_path e) parent (JObject object) \<and> looks_like_reference object parent \<and>
      edge_from cat object (ed_json_path e) parent e \<and>
      (canonical_edge parse_uuid e \<or> (\<exists>i \<in> set (er_issues result). ei_json_path i = ed_json_path e))"
    if "e \<in> set (er_edges result)" for e
  proof -
    obtain es "is" where p: "(es, is) \<in> set parts" "e \<in> set es" using \<open>e \<in> set (er_edges result)\<close> parts(2) by auto
    obtain path parent object where node: "(path, parent, object) \<in> set ?nodes" "adds parse_uuid cat object path parent es is"
      using part_node [OF p(1)] by blast
    have from_node: "edge_from cat object path parent e" using node(2) p(2) by (simp add: adds_def)
    then have path: "ed_json_path e = path" by (simp add: edge_from_def)
    have "canonical_edge parse_uuid e \<or> (\<exists>i \<in> set (er_issues result). ei_json_path i = path)"
    proof (cases "is")
      case Nil
      then show ?thesis using node(2) p(2) by (simp add: adds_def)
    next
      case (Cons i is')
      then have "i \<in> set (er_issues result)" "ei_json_path i = path" using p(1) parts(3) node(2) by (force simp: adds_def)+
      then show ?thesis by blast
    qed
    then show ?thesis using node(1) from_node path by (auto simp: reference_nodes_iff)
  qed
  ultimately show ?thesis by blast
qed

definition demo_document :: json where
  "demo_document = JObject [(''referenceToSource'', JObject [(''@refObjectId'', JString ''a''), (''@type'', JString ''source data set'')])]"

lemma demo_document_node:
  "document_node Processes False ''$'' None demo_document (member_path ''$'' ''referenceToSource'') (Some ''referenceToSource'')
     (JObject [(''@refObjectId'', JString ''a''), (''@type'', JString ''source data set'')])"
proof (rule document_node.member)
  show "document_node Processes False ''$'' None demo_document ''$'' None
      (JObject [(''referenceToSource'', JObject [(''@refObjectId'', JString ''a''), (''@type'', JString ''source data set'')])])"
    unfolding demo_document_def by (rule document_node.start) (simp add: excluded_path_def eq_ignore_ascii_case_def to_ascii_lowercase_def)
qed (simp_all add: excluded_path_def eq_ignore_ascii_case_def to_ascii_lowercase_def member_path_def)

theorem extraction_accounts_for_references_witness:
  "\<exists>result. result = extract_scope_closure_references (\<lambda>_. Some []) ''k'' Processes demo_document \<and>
    ((\<exists>e \<in> set (er_edges result). ed_target_uuid e = text_trim ''a'') \<or>
     (\<exists>i \<in> set (er_issues result). ei_json_path i = ''$.referenceToSource''))"
proof -
  let ?object = "[(''@refObjectId'', JString ''a''), (''@type'', JString ''source data set'')]"
  let ?r = "extract_scope_closure_references (\<lambda>_. Some []) ''k'' Processes demo_document"
  have "looks_like_reference ?object (Some ''referenceToSource'')" by (simp add: looks_like_reference_def json_get_def)
  then have "(\<exists>e \<in> set (er_edges ?r). edge_from Processes ?object (member_path ''$'' ''referenceToSource'') (Some ''referenceToSource'') e) \<or>
      (\<exists>i \<in> set (er_issues ?r). ei_json_path i = member_path ''$'' ''referenceToSource'')"
    using extraction_accounts_for_references [OF extract_scope_closure_references_def [of "\<lambda>_. Some []" "''k''" Processes demo_document]]
      demo_document_node by blast
  then show ?thesis by (auto simp: edge_from_def object_id_of_def json_get_def as_str_def member_path_def split: if_splits)
qed

lemma split_on_append: "c \<notin> set a \<Longrightarrow> split_on c (a @ c # s) = a # split_on c s"
  by (induction a) auto

lemma split_on_single: "c \<notin> set a \<Longrightarrow> split_on c a = [a]"
  by (induction a) auto

lemma split_on_Cons: "split_on c s = a # segs \<Longrightarrow> segs \<noteq> [] \<Longrightarrow> \<exists>t. s = a @ c # t \<and> c \<notin> set a \<and> split_on c t = segs"
proof (induction s arbitrary: a)
  case (Cons x s)
  show ?case
  proof (cases "x = c")
    case False
    then obtain a' where a': "split_on c s = a' # segs" "a = x # a'" using Cons.prems by (auto split: list.splits)
    then obtain t where "s = a' @ c # t \<and> c \<notin> set a' \<and> split_on c t = segs" using Cons.IH Cons.prems(2) by blast
    then show ?thesis using a' False by auto
  qed (use Cons.prems in auto)
qed simp

lemma split_on_one: "split_on c s = [a] \<Longrightarrow> s = a \<and> c \<notin> set a"
proof (induction s arbitrary: a)
  case (Cons x s)
  then show ?case by (cases "x = c") (auto split: list.splits)
qed simp

text \<open>
  An accepted version is normalised to the form NN.NN.NNN, which names the same revision when it already has
  that form, and normalising again changes nothing.
\<close>

theorem normalized_version_form:
  assumes "normalize_exact_version v = Some w"
  shows "(\<exists>a b c. w = a @ ''.'' @ b @ ''.'' @ c \<and> digits 2 a \<and> digits 2 b \<and> digits 3 c \<and> (v = w \<or> v = a @ ''.'' @ b \<and> c = ''000'')) \<and>
    normalize_exact_version w = Some w"
proof -
  have no_dot: "CHR ''.'' \<notin> set s" if "digits n s" for n s
    using that by (auto simp: digits_def list_all_iff is_ascii_digit_def less_eq_char_def)
  have count: "count_list s CHR ''.'' = 0" if "digits n s" for n s using no_dot [OF that] by (simp add: count_list_0_iff)
  have full: "validate_version (a @ ''.'' @ b @ ''.'' @ c) \<and> count_list (a @ ''.'' @ b @ ''.'' @ c) CHR ''.'' = 2"
    if "digits 2 a" "digits 2 b" "digits 3 c" for a b c
    using that no_dot [OF that(1)] no_dot [OF that(2)] no_dot [OF that(3)] count [OF that(1)] count [OF that(2)] count [OF that(3)]
    by (simp add: validate_version_def split_on_append split_on_single)
  from assms have v: "validate_version v" "w = (if count_list v CHR ''.'' = 1 then v @ ''.000'' else v)"
    by (auto simp: normalize_exact_version_def split: if_splits)
  then consider (two) a b where "split_on CHR ''.'' v = [a, b]" "digits 2 a" "digits 2 b"
    | (three) a b c where "split_on CHR ''.'' v = [a, b, c]" "digits 2 a" "digits 2 b" "digits 3 c"
    by (auto simp: validate_version_def split: list.splits)
  then show ?thesis
  proof cases
    case two
    then have va: "v = a @ ''.'' @ b" using split_on_Cons [of "CHR ''.''" v a "[b]"] split_on_one by fastforce
    then have "w = a @ ''.'' @ b @ ''.'' @ ''000''" using v(2) count [OF two(2)] count [OF two(3)] by simp
    moreover have zeros: "digits 3 ''000''" by (simp add: digits_def is_ascii_digit_def)
    ultimately show ?thesis using va two full [OF two(2,3) zeros] by (auto simp: normalize_exact_version_def)
  next
    case three
    obtain t where t: "v = a @ CHR ''.'' # t" "split_on CHR ''.'' t = [b, c]" using split_on_Cons three(1) by blast
    then have "v = a @ ''.'' @ b @ ''.'' @ c" using split_on_Cons [of "CHR ''.''" t b "[c]"] split_on_one by fastforce
    moreover from this have "w = v" using v(2) full [OF three(2-4)] by auto
    ultimately show ?thesis using three full [OF three(2-4)] by (auto simp: normalize_exact_version_def)
  qed
qed

theorem normalized_version_form_witness: "normalize_exact_version ''01.01.000'' = Some ''01.01.000''"
proof -
  have "normalize_exact_version ''01.01'' = Some ''01.01.000''"
    by (simp add: normalize_exact_version_def validate_version_def digits_def is_ascii_digit_def)
  from normalized_version_form [OF this] show ?thesis by simp
qed

end
