(* ===== verification/Closure_Issues.thy ===== *)
theory Closure_Issues
  imports Reference_Extraction
begin

text \<open>
  The issues of a scope closure, \<open>crates/solver-worker/src/scope_closure.rs\<close>: their construction, the occurrences that
  resolved references attach to them, the coalescing of issues with the same key, the affected roots of each
  issue with a cache over the sources, and the severities accepted by the database. The UUID parser and
  formatter, the escaping of JSON strings and the hash are the fields of an environment. Theorems: coalescing
  keeps one issue per key with the union of the occurrences, and every issue gets exactly the roots that reach
  its source.
\<close>

section \<open>Data\<close>

record closure_env =
  en_parse_uuid :: "string \<Rightarrow> u8 list option"
  en_uuid_text :: "u8 list \<Rightarrow> string"
  en_string_text :: "string \<Rightarrow> string"
  en_sha256_hex :: "string \<Rightarrow> string"

record issue_occurrence =
  oc_occurrence_key :: string
  oc_source :: "exact_dataset_identity option"
  oc_json_path :: "string option"
  oc_reference_role :: "string option"
  oc_details :: json

record closure_issue =
  ci_issue_key :: string
  ci_severity :: string
  ci_blocking :: bool
  ci_issue_code :: string
  ci_source :: "exact_dataset_identity option"
  ci_json_path :: "string option"
  ci_reference_role :: "string option"
  ci_requested_target_type :: "string option"
  ci_requested_target_id :: "u8 list option"
  ci_requested_target_version :: "string option"
  ci_message :: string
  ci_suggested_action :: "string option"
  ci_occurrence_count :: nat
  ci_occurrences :: "issue_occurrence list"
  ci_affected_root_count :: nat
  ci_affected_roots :: "exact_dataset_identity list"
  ci_affected_root_witness_paths :: "exact_dataset_identity list list"
  ci_witness_path :: "exact_dataset_identity list"

text \<open>\<open>u32::try_from(n).unwrap_or(u32::MAX)\<close>.\<close>

definition u32_saturated :: "nat \<Rightarrow> nat" where
  "u32_saturated n = (if n < 2 ^ 32 then n else 2 ^ 32 - 1)"

definition document_key :: "closure_env \<Rightarrow> exact_dataset_identity \<Rightarrow> string" where
  "document_key env i = table_name (id_category i) @ '':'' @ en_uuid_text env (id_bytes i) @ '':'' @ id_version i"

definition identity_json :: "closure_env \<Rightarrow> exact_dataset_identity \<Rightarrow> json" where
  "identity_json env i =
     json_object [(''category'', JString (table_name (id_category i))), (''id'', JString (en_uuid_text env (id_bytes i))),
                  (''version'', JString (id_version i))]"

definition hash_key :: "closure_env \<Rightarrow> (string \<times> json) list \<Rightarrow> string" where
  "hash_key env entries = canonical_json_sha256 (en_string_text env) (en_sha256_hex env) (json_object entries)"

section \<open>Construction\<close>

text \<open>The fields that every constructor fills alike: one occurrence, no affected roots, blocking.\<close>

definition blocker_issue ::
  "string \<Rightarrow> string \<Rightarrow> exact_dataset_identity \<Rightarrow> string option \<Rightarrow> string option
   \<Rightarrow> string option \<times> u8 list option \<times> string option \<Rightarrow> string \<Rightarrow> string \<Rightarrow> json \<Rightarrow> closure_issue" where
  "blocker_issue issue_key code source path role requested message action details =
     (case requested of (target_type, target_id, target_version) \<Rightarrow>
        \<lparr>ci_issue_key = issue_key, ci_severity = ''blocker'', ci_blocking = True, ci_issue_code = code, ci_source = Some source,
         ci_json_path = path, ci_reference_role = role, ci_requested_target_type = target_type,
         ci_requested_target_id = target_id, ci_requested_target_version = target_version, ci_message = message,
         ci_suggested_action = Some action, ci_occurrence_count = 1,
         ci_occurrences = [\<lparr>oc_occurrence_key = issue_key @ '':0'', oc_source = Some source, oc_json_path = path,
                            oc_reference_role = role, oc_details = details\<rparr>],
         ci_affected_root_count = 0, ci_affected_roots = [], ci_affected_root_witness_paths = [], ci_witness_path = []\<rparr>)"

definition requested_of :: "exact_dataset_identity \<Rightarrow> string option \<times> u8 list option \<times> string option" where
  "requested_of i = (Some (table_name (id_category i)), Some (id_bytes i), Some (id_version i))"

definition extraction_issue :: "closure_env \<Rightarrow> exact_dataset_identity \<Rightarrow> extraction_issue_record \<Rightarrow> closure_issue" where
  "extraction_issue env source issue =
     blocker_issue
       (hash_key env [(''code'', JString (ei_issue_code issue)), (''source'', identity_json env source),
                      (''path'', JString (ei_json_path issue)), (''role'', JString (ei_reference_role issue))])
       (ei_issue_code issue) source (Some (ei_json_path issue)) (Some (ei_reference_role issue)) (None, None, None)
       (ei_message issue) ''Repair the source reference and rerun closure preflight.'' (ei_details issue)"

definition missing_dataset_issue :: "closure_env \<Rightarrow> exact_dataset_identity \<Rightarrow> bool \<Rightarrow> closure_issue" where
  "missing_dataset_issue env target explicitly_requested =
     (let code = (if explicitly_requested then ''reference_exact_version_missing'' else ''reference_target_missing'') in
      blocker_issue (hash_key env [(''code'', JString code), (''target'', identity_json env target)]) code target None None
        (requested_of target) (''Exact referenced dataset '' @ document_key env target @ '' was not found.'')
        ''Publish or repair the exact referenced revision.'' (json_object []))"

definition provider_boundary_issue ::
  "closure_env \<Rightarrow> string \<Rightarrow> exact_dataset_identity \<Rightarrow> string \<Rightarrow> json \<Rightarrow> closure_issue" where
  "provider_boundary_issue env code identity message details =
     blocker_issue (hash_key env [(''code'', JString code), (''identity'', identity_json env identity)]) code identity None None
       (requested_of identity) (message @ '' Evidence: '' @ write_canonical_json (en_string_text env) details)
       ''Recreate the closure request from a consistent published release snapshot.'' details"

definition provider_outside_universe_issue ::
  "closure_env \<Rightarrow> exact_dataset_identity \<Rightarrow> exact_dataset_identity \<Rightarrow> reference_edge \<Rightarrow> closure_issue" where
  "provider_outside_universe_issue env source target edge =
     blocker_issue
       (hash_key env [(''code'', JString ''provider_outside_scope_universe''), (''source'', identity_json env source),
                      (''path'', JString (ed_json_path edge)), (''target'', identity_json env target)])
       ''provider_outside_scope_universe'' source (Some (ed_json_path edge)) (Some (ed_reference_role edge)) (requested_of target)
       ''Referenced process is outside the frozen scope-only provider universe.''
       ''Include the provider as a root or use the tracked transitive-expansion policy.''
       (json_object [(''target'', identity_json env target)])"

definition omitted_version_issue ::
  "closure_env \<Rightarrow> exact_dataset_identity \<Rightarrow> reference_edge \<Rightarrow> u8 list option \<Rightarrow> closure_issue" where
  "omitted_version_issue env source edge target_id =
     blocker_issue
       (hash_key env [(''code'', JString ''reference_version_omitted''), (''source'', identity_json env source),
                      (''path'', JString (ed_json_path edge)), (''target'', JString (ed_target_uuid edge))])
       ''reference_version_omitted'' source (Some (ed_json_path edge)) (Some (ed_reference_role edge))
       (Some (ed_target_category edge), target_id, None)
       ''Reference omits @version and the selected policy did not resolve it.''
       ''Bind the reference to an exact published version.''
       (json_object [(''targetId'', case target_id of None \<Rightarrow> JNull | Some u \<Rightarrow> JString (en_uuid_text env u))])"

section \<open>Coalescing\<close>

text \<open>\<open>dedup_by\<close> on a key keeps the first of every run of equal keys.\<close>

fun dedup_key :: "('a \<Rightarrow> 'k) \<Rightarrow> 'a list \<Rightarrow> 'a list" where
  "dedup_key f (x # y # ys) = (if f x = f y then dedup_key f (x # ys) else x # dedup_key f (y # ys))"
| "dedup_key f xs = xs"

definition sorted_occurrences :: "issue_occurrence list \<Rightarrow> issue_occurrence list" where
  "sorted_occurrences os = dedup_key oc_occurrence_key (sort_key oc_occurrence_key os)"

text \<open>
  The binary search in a sorted vector finds the key or the place where it belongs; the vector it is applied to is
  always sorted (\<open>coalesced_wf\<close> below).
\<close>

definition insert_occurrence :: "issue_occurrence list \<Rightarrow> issue_occurrence \<Rightarrow> issue_occurrence list" where
  "insert_occurrence os x =
     (if oc_occurrence_key x \<in> oc_occurrence_key ` set os then os else insort_key oc_occurrence_key x os)"

text \<open>The ordered map from issue keys to issues is the list of its entries in the order of the keys.\<close>

definition coalesce_issue_into :: "(string \<times> closure_issue) list \<Rightarrow> closure_issue \<Rightarrow> (string \<times> closure_issue) list" where
  "coalesce_issue_into output issue =
     (let issue = issue\<lparr>ci_occurrences := sorted_occurrences (ci_occurrences issue)\<rparr> in
      case map_of output (ci_issue_key issue) of
        Some existing \<Rightarrow>
          (let os = foldl insert_occurrence (ci_occurrences existing) (ci_occurrences issue) in
           AList.update (ci_issue_key issue)
             (existing\<lparr>ci_occurrences := os, ci_occurrence_count := u32_saturated (length os)\<rparr>) output)
      | None \<Rightarrow>
          insort_key fst (ci_issue_key issue, issue\<lparr>ci_occurrence_count := u32_saturated (length (ci_occurrences issue))\<rparr>) output)"

definition finish_coalesced_issues :: "(string \<times> closure_issue) list \<Rightarrow> closure_issue list" where
  "finish_coalesced_issues output =
     map (\<lambda>(_, issue). let os = sorted_occurrences (ci_occurrences issue) in
            issue\<lparr>ci_occurrences := os, ci_occurrence_count := u32_saturated (length os)\<rparr>) output"

definition coalesce_issues :: "closure_issue list \<Rightarrow> closure_issue list" where
  "coalesce_issues issues = finish_coalesced_issues (foldl coalesce_issue_into [] issues)"

section \<open>Occurrences of references\<close>

definition reference_occurrence :: "closure_env \<Rightarrow> string \<Rightarrow> resolved_reference \<Rightarrow> issue_occurrence" where
  "reference_occurrence env issue_key r =
     \<lparr>oc_occurrence_key = hash_key env [(''issueKey'', JString issue_key), (''source'', identity_json env (rr_source r)),
                                        (''jsonPath'', JString (rr_json_path r)), (''referenceRole'', JString (rr_reference_role r))],
      oc_source = Some (rr_source r), oc_json_path = Some (rr_json_path r), oc_reference_role = Some (rr_reference_role r),
      oc_details = json_object [(''requestedVersionState'', JString (rr_requested_version_state r)),
                                (''target'', identity_json env (rr_target r))]\<rparr>"

definition attach_issue_occurrences :: "closure_env \<Rightarrow> resolved_reference list \<Rightarrow> closure_issue \<Rightarrow> closure_issue" where
  "attach_issue_occurrences env references issue =
     (case ci_source issue of
        None \<Rightarrow> issue
      | Some target \<Rightarrow>
          if ci_requested_target_id issue = Some (id_bytes target) \<and> ci_requested_target_version issue = Some (id_version target)
          then let os = sorted_occurrences (map (reference_occurrence env (ci_issue_key issue))
                          (filter (\<lambda>r. rr_target r = target) references)) in
               if os = [] then issue
               else issue\<lparr>ci_occurrence_count := u32_saturated (length os),
                          ci_reference_role := oc_reference_role (hd os), ci_occurrences := os\<rparr>
          else issue)"

definition attach_reference_occurrences :: "closure_env \<Rightarrow> resolved_reference list \<Rightarrow> closure_issue list \<Rightarrow> closure_issue list" where
  "attach_reference_occurrences env references issues = map (attach_issue_occurrences env references) issues"

section \<open>Affected roots\<close>

definition issue_affected_roots ::
  "u32 list \<Rightarrow> compact_reference_graph \<Rightarrow> closure_issue list \<times> (u32 \<times> affected) list \<Rightarrow> closure_issue
   \<Rightarrow> codec_error + (closure_issue list \<times> (u32 \<times> affected) list)" where
  "issue_affected_roots root_ids graph s issue =
     (case s of (issues, cache) \<Rightarrow>
        case ci_source issue of
          None \<Rightarrow>
            Inr (issues @ [issue\<lparr>ci_affected_root_count := u32_saturated (length (ci_affected_roots issue)),
                                 ci_affected_roots := take ISSUE_INLINE_AFFECTED_ROOT_SAMPLE_LIMIT (ci_affected_roots issue),
                                 ci_affected_root_witness_paths :=
                                   take ISSUE_INLINE_AFFECTED_ROOT_SAMPLE_LIMIT (ci_affected_root_witness_paths issue)\<rparr>], cache)
        | Some source \<Rightarrow>
            (case map_of (rg_identity_ids graph) source of
               None \<Rightarrow> Inr (issues @ [issue], cache)
             | Some source_id \<Rightarrow>
                 res_bind (case map_of cache source_id of
                             Some entry \<Rightarrow> Inr (entry, cache)
                           | None \<Rightarrow> res_bind (compute_single_source_affected_roots source_id root_ids graph)
                                       (\<lambda>entry. Inr (entry, (source_id, entry) # cache)))
                   (\<lambda>((n, roots, witnesses), cache).
                 Inr (issues @ [issue\<lparr>ci_affected_root_count := n, ci_affected_roots := roots,
                                      ci_witness_path := (case witnesses of [] \<Rightarrow> [] | w # _ \<Rightarrow> w),
                                      ci_affected_root_witness_paths := witnesses\<rparr>], cache))))"

definition compute_affected_roots_batch ::
  "exact_dataset_identity list \<Rightarrow> compact_reference_graph \<Rightarrow> closure_issue list \<Rightarrow> codec_error + closure_issue list" where
  "compute_affected_roots_batch roots graph issues =
     (let root_ids = List.map_filter (map_of (rg_identity_ids graph)) roots in
      res_bind (try_fold (issue_affected_roots root_ids graph) ([], []) issues) (\<lambda>(issues, cache). Inr issues))"

section \<open>Severities\<close>

datatype severity_error =
    BlockingWithNonBlockingSeverity string string
  | NonBlockingWithBlockingSeverity string string
  | UnsupportedSeverity string string

definition normalize_severity :: "closure_issue \<Rightarrow> severity_error + closure_issue" where
  "normalize_severity issue =
     (let s = ci_severity issue in
      if ci_blocking issue \<and> s \<in> {''blocker'', ''error'', ''fatal''} then Inr (issue\<lparr>ci_severity := ''blocker''\<rparr>)
      else if \<not> ci_blocking issue \<and> s = ''warning'' then Inr (issue\<lparr>ci_severity := ''warning''\<rparr>)
      else if \<not> ci_blocking issue \<and> s = ''info'' then Inr (issue\<lparr>ci_severity := ''info''\<rparr>)
      else if ci_blocking issue \<and> s \<in> {''warning'', ''info''} then Inl (BlockingWithNonBlockingSeverity (ci_issue_code issue) s)
      else if \<not> ci_blocking issue \<and> s \<in> {''blocker'', ''error'', ''fatal''}
      then Inl (NonBlockingWithBlockingSeverity (ci_issue_code issue) s)
      else Inl (UnsupportedSeverity (ci_issue_code issue) s))"

definition normalize_database_issue_severities :: "closure_issue list \<Rightarrow> severity_error + closure_issue list" where
  "normalize_database_issue_severities issues = try_map normalize_severity issues"

section \<open>Coalescing keeps one issue per key\<close>

lemma dedup_key_set: "f ` set (dedup_key f xs) = f ` set xs"
  by (induction f xs rule: dedup_key.induct) auto

lemma dedup_key_subset: "set (dedup_key f xs) \<subseteq> set xs"
  by (induction f xs rule: dedup_key.induct) auto

lemma dedup_key_strict: "sorted (map f xs) \<Longrightarrow> sorted_wrt (<) (map f (dedup_key f xs))"
proof (induction f xs rule: dedup_key.induct)
  case (1 f x y ys)
  show ?case
  proof (cases "f x = f y")
    case False
    then have less: "f x < f y" using "1.prems" by (simp add: order.strict_iff_order)
    have "sorted_wrt (<) (map f (dedup_key f (y # ys)))" using "1.IH"(2) [OF False] "1.prems" by simp
    moreover have "f x < k" if "k \<in> f ` set (dedup_key f (y # ys))" for k
      using that less "1.prems" by (auto simp: dedup_key_set)
    ultimately show ?thesis using False by auto
  qed (use 1 in simp)
qed simp_all

lemma sorted_occurrences_strict: "sorted_wrt (<) (map oc_occurrence_key (sorted_occurrences os))"
  unfolding sorted_occurrences_def by (intro dedup_key_strict) simp

lemma sorted_occurrences_keys: "oc_occurrence_key ` set (sorted_occurrences os) = oc_occurrence_key ` set os"
  by (simp add: sorted_occurrences_def dedup_key_set)

lemma dedup_key_strict_id: "sorted_wrt (<) (map f xs) \<Longrightarrow> dedup_key f xs = (xs :: 'a list)" for f :: "'a \<Rightarrow> 'k :: linorder"
  by (induction f xs rule: dedup_key.induct) auto

lemma sorted_occurrences_id: "sorted_wrt (<) (map oc_occurrence_key os) \<Longrightarrow> sorted_occurrences os = os"
  unfolding sorted_occurrences_def by (metis dedup_key_strict_id sort_key_id_if_sorted strict_sorted_imp_sorted)

lemma insort_key_strict:
  "sorted_wrt (<) (map f xs) \<Longrightarrow> f x \<notin> f ` set xs \<Longrightarrow> sorted_wrt (<) (map f (insort_key f x xs))"
proof (induction xs)
  case (Cons y ys)
  have "f x \<noteq> f y" using Cons.prems(2) by auto
  then show ?case using Cons by (auto simp: set_insort_key)
qed simp

lemma insert_occurrences:
  assumes "sorted_wrt (<) (map oc_occurrence_key os)"
  shows "sorted_wrt (<) (map oc_occurrence_key (foldl insert_occurrence os xs)) \<and>
    oc_occurrence_key ` set (foldl insert_occurrence os xs) = oc_occurrence_key ` set os \<union> oc_occurrence_key ` set xs"
  using assms
proof (induction xs arbitrary: os)
  case (Cons x xs)
  have "sorted_wrt (<) (map oc_occurrence_key (insert_occurrence os x))"
    using Cons.prems by (simp add: insert_occurrence_def insort_key_strict)
  moreover have "oc_occurrence_key ` set (insert_occurrence os x) = insert (oc_occurrence_key x) (oc_occurrence_key ` set os)"
    by (auto simp: insert_occurrence_def set_insort_key)
  ultimately show ?case using Cons.IH [of "insert_occurrence os x"] by simp
qed simp

lemma map_of_insort: "k \<notin> fst ` set al \<Longrightarrow> map_of (insort_key fst (k, v) al) = (map_of al)(k \<mapsto> v)"
  by (induction al) (auto simp: fun_upd_def)

text \<open>An issue without its occurrences; the occurrence keys of the issues with a key.\<close>

definition issue_base :: "closure_issue \<Rightarrow> closure_issue" where
  "issue_base i = i\<lparr>ci_occurrences := [], ci_occurrence_count := 0\<rparr>"

definition key_occurrences :: "closure_issue list \<Rightarrow> string \<Rightarrow> string set" where
  "key_occurrences issues k = (\<Union>i \<in> {i \<in> set issues. ci_issue_key i = k}. oc_occurrence_key ` set (ci_occurrences i))"

definition coalesced_issue :: "closure_issue list \<Rightarrow> closure_issue \<Rightarrow> bool" where
  "coalesced_issue issues c \<longleftrightarrow>
     (\<exists>first. find (\<lambda>i. ci_issue_key i = ci_issue_key c) issues = Some first \<and> issue_base c = issue_base first) \<and>
     sorted_wrt (<) (map oc_occurrence_key (ci_occurrences c)) \<and>
     oc_occurrence_key ` set (ci_occurrences c) = key_occurrences issues (ci_issue_key c) \<and>
     ci_occurrence_count c = u32_saturated (length (ci_occurrences c))"

definition coalesced_wf :: "closure_issue list \<Rightarrow> (string \<times> closure_issue) list \<Rightarrow> bool" where
  "coalesced_wf issues output \<longleftrightarrow>
     sorted_wrt (<) (map fst output) \<and> fst ` set output = ci_issue_key ` set issues \<and>
     (\<forall>k c. map_of output k = Some c \<longrightarrow> ci_issue_key c = k \<and> coalesced_issue issues c)"

lemma key_occurrences_snoc:
  "key_occurrences (issues @ [i]) k =
   key_occurrences issues k \<union> (if ci_issue_key i = k then oc_occurrence_key ` set (ci_occurrences i) else {})"
  by (auto simp: key_occurrences_def)

lemma find_append: "find P (xs @ ys) = (case find P xs of Some x \<Rightarrow> Some x | None \<Rightarrow> find P ys)"
  by (induction xs) auto

lemma find_key_None: "k \<notin> ci_issue_key ` set issues \<Longrightarrow> find (\<lambda>i. ci_issue_key i = k) issues = None"
  by (auto simp: find_None_iff)

lemma coalesced_issue_other:
  "coalesced_issue issues c \<Longrightarrow> ci_issue_key i \<noteq> ci_issue_key c \<Longrightarrow> coalesced_issue (issues @ [i]) c"
  by (auto simp: coalesced_issue_def key_occurrences_snoc find_append)

lemma coalesced_issue_merge:
  assumes c: "coalesced_issue issues c" and key: "ci_issue_key i = ci_issue_key c"
    and os: "os = foldl insert_occurrence (ci_occurrences c) (sorted_occurrences (ci_occurrences i))"
  shows "coalesced_issue (issues @ [i]) (c\<lparr>ci_occurrences := os, ci_occurrence_count := u32_saturated (length os)\<rparr>)"
proof -
  have "sorted_wrt (<) (map oc_occurrence_key (ci_occurrences c))" using c by (simp add: coalesced_issue_def)
  note ins = insert_occurrences [OF this, of "sorted_occurrences (ci_occurrences i)", folded os]
  have "issue_base (c\<lparr>ci_occurrences := os, ci_occurrence_count := u32_saturated (length os)\<rparr>) = issue_base c"
    by (simp add: issue_base_def)
  then show ?thesis
    using c ins key unfolding coalesced_issue_def
    by (auto simp: key_occurrences_snoc find_append sorted_occurrences_keys)
qed

lemma coalesced_issue_new:
  assumes "ci_issue_key i \<notin> ci_issue_key ` set issues" and os: "os = sorted_occurrences (ci_occurrences i)"
  shows "coalesced_issue (issues @ [i]) (i\<lparr>ci_occurrences := os, ci_occurrence_count := u32_saturated (length os)\<rparr>)"
proof -
  have "ci_issue_key j \<noteq> ci_issue_key i" if "j \<in> set issues" for j using assms(1) that by (metis imageI)
  then have "key_occurrences issues (ci_issue_key i) = {}" by (auto simp: key_occurrences_def)
  then show ?thesis
    using find_key_None [OF assms(1)] sorted_occurrences_strict [of "ci_occurrences i", folded os] sorted_occurrences_keys [of "ci_occurrences i", folded os]
    by (simp add: coalesced_issue_def key_occurrences_snoc find_append issue_base_def)
qed

lemma coalesce_step:
  assumes "coalesced_wf issues output"
  shows "coalesced_wf (issues @ [i]) (coalesce_issue_into output i)"
proof -
  let ?k = "ci_issue_key i" and ?os = "sorted_occurrences (ci_occurrences i)"
  note wf = assms [unfolded coalesced_wf_def]
  show ?thesis
  proof (cases "map_of output ?k")
    case None
    then have new: "?k \<notin> fst ` set output" "?k \<notin> ci_issue_key ` set issues" using wf by (simp_all add: map_of_eq_None_iff)
    let ?i = "i\<lparr>ci_occurrences := ?os, ci_occurrence_count := u32_saturated (length ?os)\<rparr>"
    have out: "coalesce_issue_into output i = insort_key fst (?k, ?i) output"
      using None by (simp add: coalesce_issue_into_def Let_def)
    have "coalesced_issue (issues @ [i]) c" if "map_of output k = Some c" for k c
    proof -
      have "k \<noteq> ?k" using that None by auto
      then show ?thesis using that wf by (intro coalesced_issue_other) auto
    qed
    then have "\<forall>k c. ((map_of output)(?k \<mapsto> ?i)) k = Some c \<longrightarrow> ci_issue_key c = k \<and> coalesced_issue (issues @ [i]) c"
      using wf coalesced_issue_new [OF new(2) refl] by simp
    moreover have "sorted_wrt (<) (map fst (insort_key fst (?k, ?i) output))"
      by (rule insort_key_strict) (use wf new(1) in simp_all)
    moreover have "fst ` set (insort_key fst (?k, ?i) output) = ci_issue_key ` set (issues @ [i])"
      using wf by (simp add: set_insort_key)
    ultimately show ?thesis unfolding coalesced_wf_def out map_of_insort [OF new(1)] by blast
  next
    case (Some c)
    let ?new = "foldl insert_occurrence (ci_occurrences c) ?os"
    let ?c = "c\<lparr>ci_occurrences := ?new, ci_occurrence_count := u32_saturated (length ?new)\<rparr>"
    have out: "coalesce_issue_into output i = AList.update ?k ?c output"
      using Some by (simp add: coalesce_issue_into_def Let_def)
    have c: "ci_issue_key c = ?k" "coalesced_issue issues c" using wf Some by auto
    have keys: "map fst (AList.update ?k ?c output) = map fst output"
      using map_of_SomeD [OF Some] by (metis fst_conv imageI list.set_map update_keys)
    have keyset: "fst ` set (AList.update ?k ?c output) = fst ` set output" using arg_cong [OF keys, of set] by simp
    have issues: "ci_issue_key ` set (issues @ [i]) = ci_issue_key ` set issues"
    proof -
      have "?k \<in> fst ` set output" using map_of_SomeD [OF Some] by (metis fst_conv imageI)
      then show ?thesis using wf by (simp add: insert_absorb)
    qed
    have "coalesced_issue (issues @ [i]) d" if "map_of output k = Some d" "k \<noteq> ?k" for k d
      using that wf by (intro coalesced_issue_other) auto
    then have "\<forall>k d. ((map_of output)(?k \<mapsto> ?c)) k = Some d \<longrightarrow> ci_issue_key d = k \<and> coalesced_issue (issues @ [i]) d"
      using wf c(1) coalesced_issue_merge [OF c(2) c(1) [symmetric] refl] by simp
    then show ?thesis
      unfolding coalesced_wf_def out update_conv' keys keyset issues using conjunct1 [OF wf] conjunct1 [OF conjunct2 [OF wf]] by blast
  qed
qed

lemma coalesce_fold: "coalesced_wf issues (foldl coalesce_issue_into [] issues)"
proof (induction issues rule: rev_induct)
  case Nil
  then show ?case by (simp add: coalesced_wf_def)
next
  case (snoc i issues)
  then show ?case using coalesce_step by simp
qed

lemma coalesce_issues_eq: "coalesce_issues issues = map snd (foldl coalesce_issue_into [] issues)"
proof -
  let ?out = "foldl coalesce_issue_into [] issues"
  note wf = coalesce_fold [of issues, unfolded coalesced_wf_def]
  have "(let os = sorted_occurrences (ci_occurrences c) in c\<lparr>ci_occurrences := os, ci_occurrence_count := u32_saturated (length os)\<rparr>) = c"
    if "(k, c) \<in> set ?out" for k c
  proof -
    have "distinct (map fst ?out)" using wf by (simp add: strict_sorted_iff)
    then have "coalesced_issue issues c" using wf that by (auto simp: map_of_eq_Some_iff)
    then have "sorted_occurrences (ci_occurrences c) = ci_occurrences c" "ci_occurrence_count c = u32_saturated (length (ci_occurrences c))"
      by (simp_all add: coalesced_issue_def sorted_occurrences_id)
    then show ?thesis by (simp add: Let_def)
  qed
  then show ?thesis by (auto simp: coalesce_issues_def finish_coalesced_issues_def)
qed

section \<open>Every issue gets its affected roots\<close>

text \<open>What the batch reports for an issue: nothing of it changes but the affected roots.\<close>

definition without_roots :: "closure_issue \<Rightarrow> closure_issue" where
  "without_roots i = i\<lparr>ci_affected_root_count := 0, ci_affected_roots := [], ci_affected_root_witness_paths := [], ci_witness_path := []\<rparr>"

definition roots_reported ::
  "resolved_reference list \<Rightarrow> exact_dataset_identity list \<Rightarrow> compact_reference_graph \<Rightarrow> closure_issue \<Rightarrow> closure_issue \<Rightarrow> bool" where
  "roots_reported references roots g i i' \<longleftrightarrow>
     without_roots i' = without_roots i \<and>
     (\<forall>source. ci_source i = Some source \<and> source \<in> set (rg_identities g) \<longrightarrow>
        (let affected = filter (\<lambda>r. (source, r) \<in> (referenced_by references)\<^sup>*) roots in
         ci_affected_root_count i' = min (length affected) (2 ^ 32 - 1) \<and> ci_affected_roots i' = take 100 affected \<and>
         list_all2 (reference_path references source) (take 100 affected) (ci_affected_root_witness_paths i') \<and>
         (affected \<noteq> [] \<longrightarrow> reference_path references source (hd affected) (ci_witness_path i'))))"

lemma identity_ids_dom:
  assumes "from_references references roots = Inr g"
  shows "map_of (rg_identity_ids g) i = None \<longleftrightarrow> i \<notin> set (rg_identities g)"
proof -
  note facts = from_references_graph [OF assms]
  have "\<exists>k. map_of (rg_identity_ids g) i = Some k" if i: "i \<in> set (rg_identities g)"
  proof -
    obtain j where j: "j < length (rg_identities g)" "rg_identities g ! j = i" using i by (auto simp: in_set_conv_nth)
    moreover have "length (rg_identities g) \<le> 2 ^ 32" using facts by (simp add: graph_wf_def)
    ultimately have "unat (of_nat j :: u32) = j" by (simp add: unat_of_nat)
    then show ?thesis using facts j by (metis (no_types, lifting))
  qed
  moreover have "i \<in> set (rg_identities g)" if "map_of (rg_identity_ids g) i = Some k" for k
    using facts that by (metis nth_mem)
  ultimately show ?thesis by (metis not_None_eq)
qed

lemma issue_affected_roots_step:
  assumes g: "from_references references roots = Inr g" and root_ids: "root_ids = List.map_filter (map_of (rg_identity_ids g)) roots"
    and cache: "\<And>k e. map_of cache k = Some e \<Longrightarrow> compute_single_source_affected_roots k root_ids g = Inr e"
  shows "\<exists>i' cache'. issue_affected_roots root_ids g (done, cache) i = Inr (done @ [i'], cache') \<and> roots_reported references roots g i i' \<and>
    (\<forall>k e. map_of cache' k = Some e \<longrightarrow> compute_single_source_affected_roots k root_ids g = Inr e)"
proof (cases "ci_source i")
  case None
  then show ?thesis using cache by (auto simp: issue_affected_roots_def roots_reported_def without_roots_def)
next
  case (Some source)
  show ?thesis
  proof (cases "map_of (rg_identity_ids g) source")
    case None
    then have "issue_affected_roots root_ids g (done, cache) i = Inr (done @ [i], cache)" using Some by (simp add: issue_affected_roots_def)
    moreover have "source \<notin> set (rg_identities g)" using None identity_ids_dom [OF g] by blast
    then have "roots_reported references roots g i i" using Some by (simp add: roots_reported_def)
    ultimately show ?thesis using cache by blast
  next
    case id: (Some k)
    let ?A = "filter (\<lambda>r. (source, r) \<in> (referenced_by references)\<^sup>*) roots"
    obtain ws where ws: "compute_single_source_affected_roots k root_ids g = Inr (min (length ?A) (2 ^ 32 - 1), take 100 ?A, ws)"
        "list_all2 (reference_path references source) (take 100 ?A) ws"
      using affected_roots_correct [OF g id refl] unfolding root_ids ISSUE_INLINE_AFFECTED_ROOT_SAMPLE_LIMIT_def by blast
    let ?e = "(min (length ?A) (2 ^ 32 - 1), take 100 ?A, ws)"
    obtain cache' where lookup: "(case map_of cache k of Some entry \<Rightarrow> Inr (entry, cache)
        | None \<Rightarrow> res_bind (compute_single_source_affected_roots k root_ids g) (\<lambda>entry. Inr (entry, (k, entry) # cache))) = Inr (?e, cache')"
      and cache': "\<And>k e. map_of cache' k = Some e \<Longrightarrow> compute_single_source_affected_roots k root_ids g = Inr e"
    proof (cases "map_of cache k")
      case None
      show ?thesis
      proof (rule that [of "(k, ?e) # cache"])
        fix j e
        assume "map_of ((k, ?e) # cache) j = Some e"
        then show "compute_single_source_affected_roots j root_ids g = Inr e" using ws(1) cache by (cases "j = k") auto
      qed (use None ws(1) in simp)
    next
      case (Some e)
      then show ?thesis using that [of cache] ws(1) cache by simp
    qed
    let ?i = "i\<lparr>ci_affected_root_count := min (length ?A) (2 ^ 32 - 1), ci_affected_roots := take 100 ?A,
        ci_witness_path := (case ws of [] \<Rightarrow> [] | w # _ \<Rightarrow> w), ci_affected_root_witness_paths := ws\<rparr>"
    have "issue_affected_roots root_ids g (done, cache) i = Inr (done @ [?i], cache')"
      using Some id lookup by (simp add: issue_affected_roots_def)
    moreover have "roots_reported references roots g i ?i"
    proof -
      have "reference_path references source (hd ?A) (case ws of [] \<Rightarrow> [] | w # _ \<Rightarrow> w)" if "?A \<noteq> []"
      proof -
        obtain a A' where "?A = a # A'" using \<open>?A \<noteq> []\<close> by (metis neq_Nil_conv)
        then show ?thesis using ws(2) by (auto simp: list_all2_Cons1)
      qed
      then show ?thesis using Some ws(2) by (simp add: roots_reported_def without_roots_def Let_def)
    qed
    ultimately show ?thesis using cache' by blast
  qed
qed

lemma issue_affected_roots_fold:
  assumes g: "from_references references roots = Inr g" and root_ids: "root_ids = List.map_filter (map_of (rg_identity_ids g)) roots"
    and cache: "\<And>k e. map_of cache k = Some e \<Longrightarrow> compute_single_source_affected_roots k root_ids g = Inr e"
  shows "\<exists>issues' cache'. try_fold (issue_affected_roots root_ids g) (done, cache) issues = Inr (done @ issues', cache') \<and>
    list_all2 (roots_reported references roots g) issues issues'"
  using cache
proof (induction issues arbitrary: "done" cache)
  case (Cons i issues)
  obtain i' cache1 where step: "issue_affected_roots root_ids g (done, cache) i = Inr (done @ [i'], cache1)"
      "roots_reported references roots g i i'" "\<And>k e. map_of cache1 k = Some e \<Longrightarrow> compute_single_source_affected_roots k root_ids g = Inr e"
    using issue_affected_roots_step [OF g root_ids Cons.prems] by blast
  obtain issues' cache' where "try_fold (issue_affected_roots root_ids g) (done @ [i'], cache1) issues = Inr ((done @ [i']) @ issues', cache')"
      "list_all2 (roots_reported references roots g) issues issues'"
    using Cons.IH [OF step(3)] by blast
  then show ?case using step by (intro exI [of _ "i' # issues'"] exI [of _ cache']) simp
qed simp

section \<open>Properties\<close>

text \<open>
  C25. Coalescing produces the issues in strictly ascending order of their keys, one for every key of the input. Each is the
  first issue with its key, except that its occurrences are those of all issues with the key, one per
  occurrence key in strictly ascending order, and its count is their number (saturated at 32 bits).
\<close>

theorem coalesced_issues_correct:
  "sorted_wrt (<) (map ci_issue_key (coalesce_issues issues)) \<and>
   ci_issue_key ` set (coalesce_issues issues) = ci_issue_key ` set issues \<and>
   (\<forall>c \<in> set (coalesce_issues issues). coalesced_issue issues c)"
proof -
  let ?out = "foldl coalesce_issue_into [] issues"
  note wf = coalesce_fold [of issues, unfolded coalesced_wf_def]
  have distinct: "distinct (map fst ?out)" using wf by (simp add: strict_sorted_iff)
  have entry: "ci_issue_key c = k \<and> coalesced_issue issues c" if "(k, c) \<in> set ?out" for k c
    using wf that distinct by (auto simp: map_of_eq_Some_iff)
  then have keys: "map ci_issue_key (coalesce_issues issues) = map fst ?out"
    unfolding coalesce_issues_eq by auto
  then have "ci_issue_key ` set (coalesce_issues issues) = fst ` set ?out" by (metis list.set_map)
  moreover have "coalesced_issue issues c" if "c \<in> set (coalesce_issues issues)" for c
    using that entry unfolding coalesce_issues_eq by auto
  ultimately show ?thesis
    using conjunct1 [OF wf] conjunct1 [OF conjunct2 [OF wf]] by (intro conjI ballI) (simp_all only: keys)
qed

definition demo_issue :: "string \<Rightarrow> closure_issue" where
  "demo_issue occurrence =
     (blocker_issue ''k'' ''code'' demo_flow None None (None, None, None) ''m'' ''a'' JNull)
       \<lparr>ci_occurrences := [\<lparr>oc_occurrence_key = occurrence, oc_source = None, oc_json_path = None, oc_reference_role = None, oc_details = JNull\<rparr>]\<rparr>"

theorem coalesced_issues_correct_witness:
  "\<exists>c \<in> set (coalesce_issues [demo_issue ''b'', demo_issue ''a'']). oc_occurrence_key ` set (ci_occurrences c) = {''a'', ''b''}"
proof -
  note correct = coalesced_issues_correct [of "[demo_issue ''b'', demo_issue ''a'']"]
  have key: "ci_issue_key (demo_issue o') = ''k''" "oc_occurrence_key ` set (ci_occurrences (demo_issue o')) = {o'}" for o'
    by (simp_all add: demo_issue_def blocker_issue_def)
  have "''k'' \<in> ci_issue_key ` set (coalesce_issues [demo_issue ''b'', demo_issue ''a''])"
    using conjunct1 [OF conjunct2 [OF correct]] by (simp add: key(1))
  then obtain c where c: "c \<in> set (coalesce_issues [demo_issue ''b'', demo_issue ''a''])" "ci_issue_key c = ''k''"
    by (metis imageE)
  then have "oc_occurrence_key ` set (ci_occurrences c) = key_occurrences [demo_issue ''b'', demo_issue ''a''] ''k''"
    using conjunct2 [OF conjunct2 [OF correct]] by (simp add: coalesced_issue_def)
  also have "{i \<in> set [demo_issue ''b'', demo_issue ''a'']. ci_issue_key i = ''k''} = {demo_issue ''a'', demo_issue ''b''}" using key(1) by auto
  then have "key_occurrences [demo_issue ''b'', demo_issue ''a''] ''k'' = {''a'', ''b''}" unfolding key_occurrences_def by (simp add: key(2) insert_commute)
  finally show ?thesis using c(1) by blast
qed

text \<open>
  The batch over all issues, with its cache by source, never fails: every issue whose source is a node of the graph is given
  the number of roots that reach the source by references, the first hundred of them with a witness path each,
  and the path of the first root; nothing else of an issue changes.
\<close>

theorem issues_get_affected_roots:
  assumes "from_references references roots = Inr g"
  shows "\<exists>issues'. compute_affected_roots_batch roots g issues = Inr issues' \<and>
    list_all2 (roots_reported references roots g) issues issues'"
  using issue_affected_roots_fold [OF assms refl, of "[]" "[]" issues] by (auto simp: compute_affected_roots_batch_def)

theorem issues_get_affected_roots_witness:
  "\<exists>i'. compute_affected_roots_batch [demo_process] demo_graph [demo_issue ''a''] = Inr [i'] \<and> ci_affected_roots i' = [demo_process]"
proof -
  obtain i' where i': "compute_affected_roots_batch [demo_process] demo_graph [demo_issue ''a''] = Inr [i']"
      "roots_reported [demo_reference] [demo_process] demo_graph (demo_issue ''a'') i'"
    using issues_get_affected_roots [OF demo_from_references, of "[demo_issue ''a'']"] by (auto simp: list_all2_Cons1)
  moreover have "ci_source (demo_issue ''a'') = Some demo_flow" "demo_flow \<in> set (rg_identities demo_graph)"
    by (simp_all add: demo_issue_def blocker_issue_def demo_graph_def)
  ultimately show ?thesis using demo_reaches by (auto simp: roots_reported_def Let_def)
qed

lemma normalize_severity_result:
  "case normalize_severity i of
     Inr o' \<Rightarrow> o' = i\<lparr>ci_severity := ci_severity o'\<rparr> \<and> (ci_blocking o' \<longleftrightarrow> ci_severity o' = ''blocker'') \<and>
        ci_severity o' \<in> {''blocker'', ''warning'', ''info''}
   | Inl e \<Rightarrow> \<not> (if ci_blocking i then ci_severity i \<in> {''blocker'', ''error'', ''fatal''} else ci_severity i \<in> {''warning'', ''info''})"
  unfolding normalize_severity_def Let_def
  by (cases "ci_blocking i"; cases "ci_severity i \<in> {''blocker'', ''error'', ''fatal''}"; cases "ci_severity i = ''warning''";
      cases "ci_severity i = ''info''"; simp)

text \<open>
  Severities accepted for the database agree with the blocking flag: a normalised issue is a blocker exactly when it blocks, and
  the normalisation fails exactly when the flag and the severity of some issue disagree or the severity is unknown.
\<close>

theorem severities_match_blocking:
  "(case normalize_database_issue_severities issues of
      Inr out \<Rightarrow> list_all2 (\<lambda>i o'. o' = i\<lparr>ci_severity := ci_severity o'\<rparr> \<and>
          (ci_blocking o' \<longleftrightarrow> ci_severity o' = ''blocker'') \<and> ci_severity o' \<in> {''blocker'', ''warning'', ''info''}) issues out
    | Inl e \<Rightarrow> \<exists>i \<in> set issues. \<not> (if ci_blocking i then ci_severity i \<in> {''blocker'', ''error'', ''fatal''}
                                    else ci_severity i \<in> {''warning'', ''info''}))"
proof (cases "normalize_database_issue_severities issues")
  case (Inl e)
  then have "\<exists>i \<in> set issues. normalize_severity i = Inl e"
    unfolding normalize_database_issue_severities_def by (rule try_map_fails)
  then obtain i where "i \<in> set issues" "normalize_severity i = Inl e" by (elim bexE)
  then show ?thesis
    using normalize_severity_result [of i] unfolding Inl sum.case \<open>normalize_severity i = Inl e\<close> by (intro bexI [of _ i])
next
  case (Inr out)
  then have "list_all2 (\<lambda>i o'. normalize_severity i = Inr o') issues out"
    by (simp add: normalize_database_issue_severities_def try_map_eq_Inr)
  then show ?thesis unfolding Inr sum.case
  proof (rule list_all2_mono)
    fix i o'
    assume "normalize_severity i = Inr o'"
    then show "o' = i\<lparr>ci_severity := ci_severity o'\<rparr> \<and> (ci_blocking o' \<longleftrightarrow> ci_severity o' = ''blocker'') \<and>
        ci_severity o' \<in> {''blocker'', ''warning'', ''info''}"
      using normalize_severity_result [of i] by (simp only: sum.case)
  qed
qed

end
