(* ===== verification/External_Sort.thy ===== *)
theory External_Sort
  imports Json_Value "HOL-Library.Product_Lexorder"
begin

text \<open>
  The external sort of the scope closure, \<open>crates/solver-worker/src/scope_closure.rs\<close>: spools of canonical JSON lines
  with their capacity limits, sorted runs of bounded size, the merge of runs with a heap of line heads, and
  the writer that compacts runs in passes of a bounded fan-in. A file is its content; the free space found
  before each step, the JSON parser and the hash are arguments. Theorems: the merge of sorted runs is a sorted
  permutation of their lines, the sorted spool has exactly the lines of its input in order, and the passes end
  with at most the fan-in of runs.
\<close>

section \<open>Data\<close>

datatype jsonl_error =
    RunBudgetZero
  | RecordTooLarge nat
  | ByteOverflow
  | EventOverflow
  | RunByteOverflow
  | TempSpaceOverflow
  | TempSpaceLow nat nat
  | RelationTempSpaceOverflow
  | RelationTempSpaceLow nat nat
  | SpoolCapacity nat nat
  | SortCountMismatch nat nat
  | SpoolInvalid nat
  | LineWithoutNewline
  | LineInvalid
  | IndexOutOfRange
  | MergeDiverges

record jsonl_env =
  je_string_text :: "string \<Rightarrow> string"
  je_sha256_hex :: "string \<Rightarrow> string"
  je_parse :: "string \<Rightarrow> json option"
  je_sort_space :: nat
  je_run_space :: "nat \<Rightarrow> nat"
  je_merge_space :: "nat \<Rightarrow> nat \<Rightarrow> nat"

definition VALIDATION_SORT_RUN_BYTES :: nat where
  "VALIDATION_SORT_RUN_BYTES = 32 * 1024 * 1024"

definition VALIDATION_ISSUE_SPOOL_MAX_BYTES :: nat where
  "VALIDATION_ISSUE_SPOOL_MAX_BYTES = 2 * 1024 * 1024 * 1024"

definition VALIDATION_ISSUE_SPOOL_MAX_EVENTS :: nat where
  "VALIDATION_ISSUE_SPOOL_MAX_EVENTS = 5000000"

definition TEMP_FREE_SPACE_RESERVE_BYTES :: nat where
  "TEMP_FREE_SPACE_RESERVE_BYTES = 512 * 1024 * 1024"

definition ISSUE_PARTITION_MAX_UNCOMPRESSED_BYTES :: nat where
  "ISSUE_PARTITION_MAX_UNCOMPRESSED_BYTES = 32 * 1024 * 1024"

definition SORT_MERGE_FAN_IN :: nat where
  "SORT_MERGE_FAN_IN = 64"

definition newline :: char where
  "newline = CHR 0x0A"

section \<open>Spools\<close>

record spool_writer =
  sw_file :: string
  sw_event_count :: nat
  sw_byte_size :: nat
  sw_enforce_validation_limits :: bool

record value_spool =
  vs_file :: string
  vs_event_count :: nat
  vs_byte_size :: nat
  vs_sha256 :: string

definition spool_writer_new :: spool_writer where
  "spool_writer_new = \<lparr>sw_file = [], sw_event_count = 0, sw_byte_size = 0, sw_enforce_validation_limits = True\<rparr>"

definition spool_writer_new_derived :: spool_writer where
  "spool_writer_new_derived = spool_writer_new\<lparr>sw_enforce_validation_limits := False\<rparr>"

definition record_append :: "spool_writer \<Rightarrow> nat \<Rightarrow> jsonl_error + spool_writer" where
  "record_append w byte_count =
     (if u64_max < sw_byte_size w + byte_count then Inl ByteOverflow
      else
      let w = w\<lparr>sw_byte_size := sw_byte_size w + byte_count\<rparr> in
      if u64_max < sw_event_count w + 1 then Inl EventOverflow
      else
      let w = w\<lparr>sw_event_count := sw_event_count w + 1\<rparr> in
      if sw_enforce_validation_limits w \<and>
         (VALIDATION_ISSUE_SPOOL_MAX_BYTES < sw_byte_size w \<or> VALIDATION_ISSUE_SPOOL_MAX_EVENTS < sw_event_count w)
      then Inl (SpoolCapacity (sw_byte_size w) (sw_event_count w))
      else Inr w)"

definition append_canonical_bytes :: "spool_writer \<Rightarrow> string \<Rightarrow> jsonl_error + spool_writer" where
  "append_canonical_bytes w bytes =
     record_append (w\<lparr>sw_file := sw_file w @ bytes @ [newline]\<rparr>) (length bytes + 1)"

definition append_raw_jsonl_line :: "spool_writer \<Rightarrow> string \<Rightarrow> jsonl_error + spool_writer" where
  "append_raw_jsonl_line w bytes =
     (if bytes = [] \<or> last bytes \<noteq> newline then Inl LineWithoutNewline
      else record_append (w\<lparr>sw_file := sw_file w @ bytes\<rparr>) (length bytes))"

definition spool_append :: "jsonl_env \<Rightarrow> spool_writer \<Rightarrow> json \<Rightarrow> jsonl_error + spool_writer" where
  "spool_append env w event = append_canonical_bytes w (write_canonical_json (je_string_text env) event)"

definition spool_finish :: "jsonl_env \<Rightarrow> spool_writer \<Rightarrow> value_spool" where
  "spool_finish env w =
     \<lparr>vs_file = sw_file w, vs_event_count = sw_event_count w, vs_byte_size = sw_byte_size w,
      vs_sha256 = je_sha256_hex env (sw_file w)\<rparr>"

section \<open>Reading lines\<close>

text \<open>\<open>read_until\<close>: the bytes up to the newline, without it, and the rest after it.\<close>

definition first_line :: "string \<Rightarrow> string" where
  "first_line file = takeWhile (\<lambda>c. c \<noteq> newline) file"

definition after_line :: "string \<Rightarrow> string" where
  "after_line file = tl (dropWhile (\<lambda>c. c \<noteq> newline) file)"

lemma after_line_shorter: "file \<noteq> [] \<Longrightarrow> length (after_line file) < length file"
proof -
  assume "file \<noteq> []"
  have "length (dropWhile (\<lambda>c. c \<noteq> newline) file) \<le> length file" by (rule length_dropWhile_le)
  moreover have "0 < length file" using \<open>file \<noteq> []\<close> by simp
  ultimately show ?thesis unfolding after_line_def length_tl by linarith
qed

definition strip_carriage_return :: "string \<Rightarrow> string" where
  "strip_carriage_return line = (if line \<noteq> [] \<and> last line = CHR 0x0D then butlast line else line)"

definition read_canonical_jsonl_line :: "string \<Rightarrow> string option \<times> string" where
  "read_canonical_jsonl_line file =
     (if file = [] then (None, []) else (Some (strip_carriage_return (first_line file)), after_line file))"

definition is_ascii_whitespace :: "char \<Rightarrow> bool" where
  "is_ascii_whitespace c = (c \<in> {CHR 0x20, CHR 0x09, CHR 0x0A, CHR 0x0C, CHR 0x0D})"

text \<open>\<open>invalid\<close> is the error for a line that does not parse, in the error type of the visitor.\<close>

function visit_jsonl ::
  "(nat \<Rightarrow> 'e) \<Rightarrow> (string \<Rightarrow> json option) \<Rightarrow> ('s \<Rightarrow> json \<Rightarrow> 'e + 's) \<Rightarrow> nat \<Rightarrow> 's \<Rightarrow> string \<Rightarrow> 'e + 's" where
  "visit_jsonl invalid parse visit index s file =
     (if file = [] then Inr s
      else
      let json_bytes = strip_carriage_return (first_line file) in
      if list_all is_ascii_whitespace json_bytes then visit_jsonl invalid parse visit (index + 1) s (after_line file)
      else case parse json_bytes of
        None \<Rightarrow> Inl (invalid (index + 1))
      | Some v \<Rightarrow> (case visit s v of Inl e \<Rightarrow> Inl e | Inr s \<Rightarrow> visit_jsonl invalid parse visit (index + 1) s (after_line file)))"
  by pat_completeness auto

termination visit_jsonl
  by (relation "measure (\<lambda>(e, p, v, i, s, file). length file)") (auto simp: after_line_shorter)

declare visit_jsonl.simps [simp del]

section \<open>Runs and their merge\<close>

definition run_file :: "string list \<Rightarrow> string" where
  "run_file lines = concat (map (\<lambda>line. line @ [newline]) lines)"

definition write_sorted_jsonl_run :: "string list \<Rightarrow> string" where
  "write_sorted_jsonl_run buffered = run_file (sort buffered)"

text \<open>The heap of reversed pairs gives the least line, and the least index among equal lines.\<close>

definition heap_pop :: "(string \<times> nat) list \<Rightarrow> ((string \<times> nat) \<times> (string \<times> nat) list) option" where
  "heap_pop heap =
     (case heap of [] \<Rightarrow> None | x # xs \<Rightarrow> let m = foldl min x xs in Some (m, remove1 m heap))"

lemma heap_pop_Some: "heap_pop heap = Some (m, rest) \<Longrightarrow> m \<in> set heap \<and> rest = remove1 m heap \<and> (\<forall>y \<in> set heap. m \<le> y)"
proof -
  have fold: "foldl min x xs \<in> set (x # xs) \<and> (\<forall>y \<in> set (x # xs). foldl min x xs \<le> y)" for x and xs :: "(string \<times> nat) list"
  proof (induction xs arbitrary: x)
    case (Cons y ys)
    from Cons.IH [of "min x y"] show ?case by (auto simp: min_def split: if_splits)
  qed simp
  assume "heap_pop heap = Some (m, rest)"
  then obtain x xs where "heap = x # xs" "m = foldl min x xs" "rest = remove1 m heap"
    by (cases heap) (auto simp: heap_pop_def Let_def)
  then show ?thesis using fold [of x xs] by simp
qed

definition heap_refill :: "(string \<times> nat) list \<Rightarrow> nat \<Rightarrow> string option \<Rightarrow> (string \<times> nat) list" where
  "heap_refill heap index next = (case next of None \<Rightarrow> heap | Some line \<Rightarrow> heap @ [(line, index)])"

definition merge_size :: "string list \<Rightarrow> (string \<times> nat) list \<Rightarrow> nat" where
  "merge_size readers heap = 2 * sum_list (map length readers) + length heap"

lemma sum_length_update:
  "i < length xs \<Longrightarrow> sum_list (map length (xs[i := y])) + length (xs ! i) = sum_list (map length xs) + length y"
proof (induction xs arbitrary: i)
  case (Cons x xs)
  then show ?case by (cases i) auto
qed simp

lemma merge_size_decreases:
  assumes "heap_pop heap = Some ((line, index), rest)" "index < length readers"
    and "read_canonical_jsonl_line (readers ! index) = (next, file)"
  shows "merge_size (readers[index := file]) (heap_refill rest index next) < merge_size readers heap"
proof -
  have len: "length rest + 1 = length heap"
    using heap_pop_Some [OF assms(1)] by (auto simp: length_remove1) (metis Suc_pred length_pos_if_in_set)
  have sum: "sum_list (map length (readers[index := file])) + length (readers ! index) = sum_list (map length readers) + length file"
    by (rule sum_length_update [OF assms(2)])
  show ?thesis
  proof (cases "readers ! index = []")
    case True
    then show ?thesis using assms(3) sum len by (auto simp: read_canonical_jsonl_line_def merge_size_def heap_refill_def)
  next
    case False
    then have "length file < length (readers ! index)"
      using assms(3) after_line_shorter [OF False] by (auto simp: read_canonical_jsonl_line_def)
    then show ?thesis using sum len by (auto simp: merge_size_def heap_refill_def split: option.splits)
  qed
qed

function merge_loop :: "string list \<Rightarrow> (string \<times> nat) list \<Rightarrow> string list \<Rightarrow> jsonl_error + string list" where
  "merge_loop readers heap output =
     (case heap_pop heap of
        None \<Rightarrow> Inr output
      | Some ((line, index), rest) \<Rightarrow>
          if index < length readers
          then (case read_canonical_jsonl_line (readers ! index) of (next, file) \<Rightarrow>
                  merge_loop (readers[index := file]) (heap_refill rest index next) (output @ [line]))
          else Inl IndexOutOfRange)"
  by pat_completeness auto

termination merge_loop
  by (relation "measure (\<lambda>(readers, heap, out). merge_size readers heap)") (auto intro: merge_size_decreases)

declare merge_loop.simps [simp del]

definition start_reader :: "string list \<times> (string \<times> nat) list \<Rightarrow> nat \<times> string \<Rightarrow> string list \<times> (string \<times> nat) list" where
  "start_reader s item =
     (case (s, item) of ((readers, heap), (index, file)) \<Rightarrow>
        case read_canonical_jsonl_line file of (next, rest) \<Rightarrow> (readers @ [rest], heap_refill heap index next))"

text \<open>The lines in the order in which the merge visits them.\<close>

definition merge_sorted_jsonl_runs :: "string list \<Rightarrow> jsonl_error + string list" where
  "merge_sorted_jsonl_runs runs =
     (case foldl start_reader ([], []) (List.enumerate 0 runs) of (readers, heap) \<Rightarrow> merge_loop readers heap [])"

section \<open>Sorting a spool\<close>

definition ensure_temp_free_space :: "nat \<Rightarrow> nat \<Rightarrow> jsonl_error + unit" where
  "ensure_temp_free_space available planned =
     (if u64_max < planned + TEMP_FREE_SPACE_RESERVE_BYTES then Inl TempSpaceOverflow
      else if available < planned + TEMP_FREE_SPACE_RESERVE_BYTES
      then Inl (TempSpaceLow available (planned + TEMP_FREE_SPACE_RESERVE_BYTES))
      else Inr ())"

definition buffer_event ::
  "jsonl_env \<Rightarrow> nat \<Rightarrow> string list \<times> string list \<times> nat \<Rightarrow> json \<Rightarrow> jsonl_error + (string list \<times> string list \<times> nat)" where
  "buffer_event env run_bytes s event =
     (case s of (runs, buffered, buffered_bytes) \<Rightarrow>
        let bytes = write_canonical_json (je_string_text env) event;
            buffered_bytes = saturating_add buffered_bytes (length bytes);
            buffered = buffered @ [bytes] in
        if run_bytes \<le> buffered_bytes then Inr (runs @ [write_sorted_jsonl_run buffered], [], 0)
        else Inr (runs, buffered, buffered_bytes))"

definition sort_jsonl_spool_with_run_bytes :: "jsonl_env \<Rightarrow> value_spool \<Rightarrow> nat \<Rightarrow> jsonl_error + value_spool" where
  "sort_jsonl_spool_with_run_bytes env spool run_bytes =
     (if run_bytes = 0 then Inl RunBudgetZero
      else
      res_bind (ensure_temp_free_space (je_sort_space env) (saturating_mul (vs_byte_size spool) 2)) (\<lambda>_.
      res_bind (visit_jsonl SpoolInvalid (je_parse env) (buffer_event env run_bytes) 0 ([], [], 0) (vs_file spool)) (\<lambda>(runs, buffered, _).
      let runs = (if buffered = [] then runs else runs @ [write_sorted_jsonl_run buffered]) in
      res_bind (merge_sorted_jsonl_runs runs) (\<lambda>lines.
      res_bind (try_fold append_canonical_bytes spool_writer_new lines) (\<lambda>w.
      let output = spool_finish env w in
      if vs_event_count output \<noteq> vs_event_count spool
      then Inl (SortCountMismatch (vs_event_count spool) (vs_event_count output))
      else Inr output)))))"

definition sort_jsonl_spool :: "jsonl_env \<Rightarrow> value_spool \<Rightarrow> jsonl_error + value_spool" where
  "sort_jsonl_spool env spool = sort_jsonl_spool_with_run_bytes env spool VALIDATION_SORT_RUN_BYTES"

section \<open>The run writer\<close>

record run_writer =
  rw_run_bytes :: nat
  rw_merge_fan_in :: nat
  rw_runs :: "string list"
  rw_buffered :: "string list"
  rw_buffered_bytes :: nat
  rw_event_count :: nat
  rw_byte_size :: nat

record sorted_runs =
  sx_runs :: "string list"
  sx_event_count :: nat
  sx_byte_size :: nat

definition run_writer_new :: run_writer where
  "run_writer_new =
     \<lparr>rw_run_bytes = VALIDATION_SORT_RUN_BYTES, rw_merge_fan_in = SORT_MERGE_FAN_IN, rw_runs = [], rw_buffered = [],
      rw_buffered_bytes = 0, rw_event_count = 0, rw_byte_size = 0\<rparr>"

text \<open>The check of free space before a run or a merged run is written; the stage only goes into the message.\<close>

definition ensure_relation_temp_capacity :: "nat \<Rightarrow> nat \<Rightarrow> jsonl_error + unit" where
  "ensure_relation_temp_capacity available planned =
     (if u64_max < planned + TEMP_FREE_SPACE_RESERVE_BYTES then Inl RelationTempSpaceOverflow
      else if planned + TEMP_FREE_SPACE_RESERVE_BYTES \<le> available then Inr ()
      else Inl (RelationTempSpaceLow available (planned + TEMP_FREE_SPACE_RESERVE_BYTES)))"

definition ensure_relation_temp_free_space :: "nat \<Rightarrow> nat \<Rightarrow> jsonl_error + unit" where
  "ensure_relation_temp_free_space available planned = ensure_relation_temp_capacity available planned"

lemmas relation_space_defs = ensure_relation_temp_free_space_def ensure_relation_temp_capacity_def

definition flush_run :: "jsonl_env \<Rightarrow> run_writer \<Rightarrow> jsonl_error + run_writer" where
  "flush_run env w =
     (if rw_buffered w = [] then Inr w
      else res_bind (ensure_relation_temp_free_space (je_run_space env (length (rw_runs w))) (rw_buffered_bytes w)) (\<lambda>_.
           Inr (w\<lparr>rw_runs := rw_runs w @ [write_sorted_jsonl_run (rw_buffered w)], rw_buffered := [], rw_buffered_bytes := 0\<rparr>)))"

definition run_append :: "jsonl_env \<Rightarrow> run_writer \<Rightarrow> json \<Rightarrow> jsonl_error + run_writer" where
  "run_append env w event =
     (let bytes = write_canonical_json (je_string_text env) event; record_bytes = length bytes + 1 in
      if u64_max < record_bytes then Inl ByteOverflow
      else if ISSUE_PARTITION_MAX_UNCOMPRESSED_BYTES < record_bytes then Inl (RecordTooLarge record_bytes)
      else if u64_max < rw_byte_size w + record_bytes then Inl ByteOverflow
      else if u64_max < rw_event_count w + 1 then Inl EventOverflow
      else if u64_max < rw_buffered_bytes w + record_bytes then Inl RunByteOverflow
      else
      let w = w\<lparr>rw_byte_size := rw_byte_size w + record_bytes, rw_event_count := rw_event_count w + 1,
                rw_buffered_bytes := rw_buffered_bytes w + record_bytes, rw_buffered := rw_buffered w @ [bytes]\<rparr> in
      if rw_run_bytes w \<le> rw_buffered_bytes w then flush_run env w else Inr w)"

function chunks :: "nat \<Rightarrow> 'a list \<Rightarrow> 'a list list" where
  "chunks n xs = (if xs = [] \<or> n = 0 then [] else take n xs # chunks n (drop n xs))"
  by auto

termination chunks
  by (relation "measure (\<lambda>(n, xs). length xs)") auto

declare chunks.simps [simp del]

definition merge_group :: "jsonl_env \<Rightarrow> nat \<Rightarrow> nat \<times> string list \<Rightarrow> jsonl_error + string" where
  "merge_group env pass item =
     (case item of (group_index, files) \<Rightarrow>
        let planned = foldl (\<lambda>total file. saturating_add total (length file)) 0 files in
        res_bind (ensure_relation_temp_free_space (je_merge_space env pass group_index) planned) (\<lambda>_.
        res_bind (merge_sorted_jsonl_runs files) (\<lambda>lines. Inr (run_file lines))))"

text \<open>
  The passes of \<open>finish\<close>. With a fan-in of one they would not end, so the loop has fuel; every constructor of the
  writer sets a fan-in of at least two, for which the number of runs is enough.
\<close>

fun merge_passes :: "jsonl_env \<Rightarrow> nat \<Rightarrow> nat \<Rightarrow> nat \<Rightarrow> string list \<Rightarrow> jsonl_error + string list" where
  "merge_passes env fan_in 0 pass runs = (if fan_in < length runs then Inl MergeDiverges else Inr runs)"
| "merge_passes env fan_in (Suc fuel) pass runs =
     (if fan_in < length runs
      then (case try_map (merge_group env pass) (List.enumerate 0 (chunks fan_in runs)) of
              Inl e \<Rightarrow> Inl e
            | Inr compacted \<Rightarrow> merge_passes env fan_in fuel (pass + 1) compacted)
      else Inr runs)"

definition run_writer_finish :: "jsonl_env \<Rightarrow> run_writer \<Rightarrow> jsonl_error + sorted_runs" where
  "run_writer_finish env w =
     res_bind (flush_run env w) (\<lambda>w.
     res_bind (merge_passes env (rw_merge_fan_in w) (length (rw_runs w)) 0 (rw_runs w)) (\<lambda>runs.
     Inr \<lparr>sx_runs = runs, sx_event_count = rw_event_count w, sx_byte_size = rw_byte_size w\<rparr>))"

definition sorted_runs_visit ::
  "jsonl_env \<Rightarrow> ('s \<Rightarrow> json \<Rightarrow> jsonl_error + 's) \<Rightarrow> 's \<Rightarrow> sorted_runs \<Rightarrow> jsonl_error + 's" where
  "sorted_runs_visit env visit s runs =
     res_bind (merge_sorted_jsonl_runs (sx_runs runs)) (\<lambda>lines.
     try_fold (\<lambda>s line. res_bind (ok_or LineInvalid (je_parse env line)) (visit s)) s lines)"

section \<open>The merge is a sorted permutation\<close>

text \<open>A line that survives writing and reading: no newline inside and no carriage return at the end.\<close>

definition line_ok :: "string \<Rightarrow> bool" where
  "line_ok line \<longleftrightarrow> newline \<notin> set line \<and> (line = [] \<or> last line \<noteq> CHR 0x0D)"

lemma run_file_simps [simp]: "run_file [] = []" "run_file (l # ls) = l @ newline # run_file ls"
  by (simp_all add: run_file_def)

lemma first_line_run: "newline \<notin> set l \<Longrightarrow> first_line (l @ newline # rest) = l"
  unfolding first_line_def by (subst takeWhile_append2) auto

lemma after_line_run: "newline \<notin> set l \<Longrightarrow> after_line (l @ newline # rest) = rest"
  unfolding after_line_def by (subst dropWhile_append2) auto

lemma read_line_run:
  "list_all line_ok ls \<Longrightarrow>
   read_canonical_jsonl_line (run_file ls) = (case ls of [] \<Rightarrow> (None, []) | l # ls' \<Rightarrow> (Some l, run_file ls'))"
  by (cases ls)
     (auto simp: read_canonical_jsonl_line_def first_line_run after_line_run line_ok_def strip_carriage_return_def)

text \<open>
  The state of the merge for the lines that are left of every run: the head of each in the heap, the rest in the
  reader.
\<close>

definition merge_state :: "string list list \<Rightarrow> string list \<Rightarrow> (string \<times> nat) list \<Rightarrow> bool" where
  "merge_state rs readers heap \<longleftrightarrow>
     length readers = length rs \<and> distinct heap \<and>
     (\<forall>i < length rs. readers ! i = run_file (tl (rs ! i)) \<and> list_all line_ok (rs ! i) \<and> sorted (rs ! i)) \<and>
     (\<forall>l i. (l, i) \<in> set heap \<longleftrightarrow> i < length rs \<and> rs ! i \<noteq> [] \<and> l = hd (rs ! i))"

lemma mset_concat_update:
  "i < length rs \<Longrightarrow> rs ! i = l # ls \<Longrightarrow> mset (concat rs) = add_mset l (mset (concat (rs[i := ls])))"
proof (induction rs arbitrary: i)
  case (Cons r rs)
  then show ?case by (cases i) auto
qed simp

lemma merge_state_step:
  assumes st: "merge_state rs readers heap" and pop: "heap_pop heap = Some ((l, i), rest)"
    and read: "read_canonical_jsonl_line (readers ! i) = (next, file)"
  shows "i < length rs \<and> (\<exists>ls. rs ! i = l # ls \<and> merge_state (rs[i := ls]) (readers[i := file]) (heap_refill rest i next)) \<and>
    (\<forall>k \<in> set (concat rs). l \<le> k)"
proof -
  note st' = st [unfolded merge_state_def]
  note pop' = heap_pop_Some [OF pop]
  have i: "i < length rs" "rs ! i \<noteq> []" "l = hd (rs ! i)" using pop' st' by auto
  then obtain ls where ls: "rs ! i = l # ls" by (cases "rs ! i") auto
  have "list_all line_ok (l # ls) \<and> sorted (l # ls)" using st' i(1) ls by metis
  then have ok: "list_all line_ok ls" "sorted ls" by simp_all
  have readout: "next = (case ls of [] \<Rightarrow> None | k # _ \<Rightarrow> Some k)" "file = run_file (tl ls)"
    using read st' i(1) ls read_line_run [OF ok(1)] by (cases ls; simp)+
  have rest: "rest = remove1 (l, i) heap" "distinct heap" using pop' st' by simp_all
  have refill: "set (heap_refill rest i next) = (set heap - {(l, i)}) \<union> (case ls of [] \<Rightarrow> {} | k # _ \<Rightarrow> {(k, i)})"
    using rest readout(1) by (cases ls) (auto simp: heap_refill_def)
  have others: "(k, i) \<in> set heap \<Longrightarrow> k = l" for k using st' ls by auto
  have "merge_state (rs[i := ls]) (readers[i := file]) (heap_refill rest i next)"
    unfolding merge_state_def
  proof (intro conjI allI impI)
    show "distinct (heap_refill rest i next)"
      using rest readout(1) others by (cases ls) (auto simp: heap_refill_def)
    fix j k
    show "(k, j) \<in> set (heap_refill rest i next) \<longleftrightarrow> j < length (rs[i := ls]) \<and> rs[i := ls] ! j \<noteq> [] \<and> k = hd (rs[i := ls] ! j)"
    proof (cases "j = i")
      case True
      have "(k, i) \<in> set heap - {(l, i)} \<longleftrightarrow> False" using others by blast
      then show ?thesis using True i(1) refill by (cases ls) auto
    next
      case False
      then show ?thesis using st' refill by (cases ls) auto
    qed
  qed (use st' i(1) ok readout(2) in \<open>auto simp: nth_list_update\<close>)
  moreover have "l \<le> k" if k: "k \<in> set (concat rs)" for k
  proof -
    obtain j where j: "j < length rs" "k \<in> set (rs ! j)" using k unfolding set_concat by (metis UN_E in_set_conv_nth)
    then obtain h hs where h: "rs ! j = h # hs" by (cases "rs ! j") auto
    have "(h, j) \<in> set heap" using st' j(1) h by auto
    then have "(l, i) \<le> (h, j)" using pop' by blast
    then have "l \<le> h" by (auto simp: less_eq_prod_def)
    moreover have "h \<le> k" using st' j h by (metis order_refl set_ConsD sorted_simps(2))
    ultimately show ?thesis by simp
  qed
  ultimately show ?thesis using i(1) ls by blast
qed

lemma merge_loop_correct:
  "merge_state rs readers heap \<Longrightarrow>
   \<exists>m. merge_loop readers heap out = Inr (out @ m) \<and> sorted m \<and> mset m = mset (concat rs)"
proof (induction readers heap out arbitrary: rs rule: merge_loop.induct)
  case (1 readers heap out)
  show ?case
  proof (cases "heap_pop heap")
    case None
    then have "heap = []" by (cases heap) (auto simp: heap_pop_def Let_def)
    then have "rs ! i = []" if "i < length rs" for i using "1.prems" that by (auto simp: merge_state_def)
    then have "concat rs = []" by (auto simp: concat_eq_Nil_conv in_set_conv_nth)
    then show ?thesis using None by (simp add: merge_loop.simps)
  next
    case (Some item)
    obtain l i rest where item: "item = ((l, i), rest)" by (metis prod.collapse)
    note pop = Some [unfolded item]
    obtain "next" "file" where read: "read_canonical_jsonl_line (readers ! i) = (next, file)" by fastforce
    obtain ls where ls: "i < length rs" "rs ! i = l # ls" "merge_state (rs[i := ls]) (readers[i := file]) (heap_refill rest i next)"
        "\<forall>k \<in> set (concat rs). l \<le> k"
      using merge_state_step [OF "1.prems" pop read] by blast
    have len: "i < length readers" using ls(1) "1.prems" by (simp add: merge_state_def)
    obtain m where m: "merge_loop (readers[i := file]) (heap_refill rest i next) (out @ [l]) = Inr ((out @ [l]) @ m)"
        "sorted m" "mset m = mset (concat (rs[i := ls]))"
      using "1.IH" [OF pop refl refl len read [symmetric] ls(3)] by blast
    have ms: "mset (l # m) = mset (concat rs)" using m(3) mset_concat_update [OF ls(1,2)] by simp
    then have "set (l # m) = set (concat rs)" by (rule mset_eq_setD)
    then have "sorted (l # m)" using m(2) ls(4) by auto
    then show ?thesis using m(1) ms pop len read by (intro exI [of _ "l # m"]) (simp add: merge_loop.simps [of readers heap])
  qed
qed

lemma start_readers:
  assumes "\<forall>r \<in> set rs. list_all line_ok r \<and> sorted r" "merge_state rs0 readers heap"
  shows "\<exists>readers' heap'. foldl start_reader (readers, heap) (List.enumerate (length rs0) (map run_file rs)) = (readers', heap') \<and>
    merge_state (rs0 @ rs) readers' heap'"
  using assms
proof (induction rs arbitrary: rs0 readers heap)
  case (Cons r rs)
  have read: "read_canonical_jsonl_line (run_file r) = (case r of [] \<Rightarrow> (None, []) | l # ls \<Rightarrow> (Some l, run_file ls))"
    using Cons.prems(1) read_line_run by simp
  note st = Cons.prems(2) [unfolded merge_state_def]
  define next' where "next' = (case r of [] \<Rightarrow> None | l # ls \<Rightarrow> Some l)"
  have step: "start_reader (readers, heap) (length rs0, run_file r) = (readers @ [run_file (tl r)], heap_refill heap (length rs0) next')"
    unfolding start_reader_def prod.case read next'_def by (cases r) simp_all
  have "merge_state (rs0 @ [r]) (readers @ [run_file (tl r)]) (heap_refill heap (length rs0) next')"
    unfolding merge_state_def
  proof (intro conjI allI impI)
    show "distinct (heap_refill heap (length rs0) next')" using st by (cases r) (auto simp: heap_refill_def next'_def)
    fix k j
    show "(k, j) \<in> set (heap_refill heap (length rs0) next') \<longleftrightarrow>
        j < length (rs0 @ [r]) \<and> (rs0 @ [r]) ! j \<noteq> [] \<and> k = hd ((rs0 @ [r]) ! j)"
      using st by (cases r) (auto simp: heap_refill_def next'_def nth_append less_Suc_eq)
  qed (use st Cons.prems(1) in \<open>auto simp: nth_append less_Suc_eq\<close>)
  from Cons.IH [OF _ this] Cons.prems(1) show ?case by (simp add: step)
qed auto

lemma merge_runs_correct:
  assumes "\<forall>r \<in> set rs. list_all line_ok r \<and> sorted r"
  shows "merge_sorted_jsonl_runs (map run_file rs) = Inr (sort (concat rs))"
proof -
  have "merge_state [] [] []" by (simp add: merge_state_def)
  from start_readers [OF assms this] obtain readers heap where start:
      "foldl start_reader ([], []) (List.enumerate 0 (map run_file rs)) = (readers, heap)" "merge_state rs readers heap" by auto
  from merge_loop_correct [OF start(2), of "[]"] obtain m where "merge_loop readers heap [] = Inr m" "sorted m" "mset m = mset (concat rs)"
    by auto
  then show ?thesis using start(1) by (simp add: merge_sorted_jsonl_runs_def properties_for_sort)
qed

section \<open>Lines of canonical values\<close>

text \<open>What JSON promises of the text of a string beyond \<open>self_delimiting\<close>: control characters are escaped and it ends with a quotation mark.\<close>

definition plain_strings :: "(string \<Rightarrow> string) \<Rightarrow> bool" where
  "plain_strings st \<longleftrightarrow> (\<forall>s. newline \<notin> set (st s) \<and> st s \<noteq> [] \<and> hd (st s) = CHR 0x22 \<and> last (st s) = CHR 0x22)"

lemma comma_separated_set: "set (comma_separated ts) \<subseteq> insert (CHR '','') (\<Union>t \<in> set ts. set t)"
  by (induction ts rule: comma_separated.induct) auto

lemma not_number_char: "\<not> number_char newline" "\<not> number_char (CHR 0x0D)" "\<not> number_start (CHR 0x0D)"
  by (simp_all add: number_char_def number_start_def newline_def)

lemma not_in_comma_separated: "c \<noteq> CHR '','' \<Longrightarrow> (\<And>t. t \<in> set ts \<Longrightarrow> c \<notin> set t) \<Longrightarrow> c \<notin> set (comma_separated ts)"
  using comma_separated_set [of ts] by blast

lemma canonical_no_newline: "plain_strings st \<Longrightarrow> json_wf v \<Longrightarrow> newline \<notin> set (write_canonical_json st v)"
proof (induction st v rule: write_canonical_json.induct)
  case (3 st n)
  then show ?case using not_number_char(1) by (auto simp: list_all_iff)
next
  case (4 st s)
  then show ?case by (simp add: plain_strings_def)
next
  case (5 st items)
  have "newline \<notin> set (comma_separated (map (write_canonical_json st) items))"
    by (rule not_in_comma_separated) (use 5 in \<open>auto simp: newline_def list_all_iff\<close>)
  then show ?case by (simp add: newline_def)
next
  case (6 st entries)
  have "newline \<notin> set (st k @ '':'' @ write_canonical_json st v)" if "(k, v) \<in> set entries" for k v
  proof -
    have "newline \<notin> set (write_canonical_json st v)" using 6 that by (fastforce simp: list_all_iff)
    moreover have "newline \<notin> set (st k)" using 6(2) unfolding plain_strings_def by blast
    ultimately show ?thesis by (simp add: newline_def)
  qed
  then have "newline \<notin> set (comma_separated (map (\<lambda>(k, v). st k @ '':'' @ write_canonical_json st v) (sort_key fst entries)))"
    by (intro not_in_comma_separated) (auto simp: newline_def)
  then show ?case by (simp add: newline_def)
qed (simp_all add: newline_def)

lemma canonical_ends:
  assumes "plain_strings st" "json_wf v"
  shows "write_canonical_json st v \<noteq> [] \<and> last (write_canonical_json st v) \<noteq> CHR 0x0D \<and> \<not> is_ascii_whitespace (hd (write_canonical_json st v))"
proof (cases v)
  case (JNumber n)
  then have n: "n \<noteq> []" "number_start (hd n)" "list_all number_char n" using assms(2) by simp_all
  then have "number_char (last n)" by (simp add: list_all_iff)
  moreover have "\<not> is_ascii_whitespace (hd n)" using n(2) by (auto simp: number_start_def is_ascii_whitespace_def)
  ultimately show ?thesis using n(1) not_number_char(2) JNumber by auto
next
  case (JString s)
  then show ?thesis using assms(1) by (simp add: plain_strings_def is_ascii_whitespace_def)
qed (simp_all add: is_ascii_whitespace_def)

lemma canonical_line_ok: "plain_strings st \<Longrightarrow> json_wf v \<Longrightarrow> line_ok (write_canonical_json st v)"
  unfolding line_ok_def using canonical_no_newline canonical_ends by blast

lemma canonical_not_blank: "plain_strings st \<Longrightarrow> json_wf v \<Longrightarrow> \<not> list_all is_ascii_whitespace (write_canonical_json st v)"
  using canonical_ends [of st v] by (cases "write_canonical_json st v") auto

section \<open>Spools hold their lines\<close>

lemma append_lines:
  assumes "try_fold append_canonical_bytes w lines = Inr w'"
  shows "sw_file w' = sw_file w @ run_file lines \<and> sw_event_count w' = sw_event_count w + length lines \<and>
    sw_byte_size w' = sw_byte_size w + length (run_file lines) \<and> sw_enforce_validation_limits w' = sw_enforce_validation_limits w \<and>
    (lines \<noteq> [] \<longrightarrow> sw_byte_size w' \<le> u64_max \<and> sw_event_count w' \<le> u64_max \<and>
      (sw_enforce_validation_limits w \<longrightarrow>
        sw_byte_size w' \<le> VALIDATION_ISSUE_SPOOL_MAX_BYTES \<and> sw_event_count w' \<le> VALIDATION_ISSUE_SPOOL_MAX_EVENTS))"
  using assms
proof (induction lines arbitrary: w)
  case (Cons l ls)
  from Cons.prems obtain w1 where w1: "append_canonical_bytes w l = Inr w1" "try_fold append_canonical_bytes w1 ls = Inr w'"
    by (auto simp: res_simps)
  have step: "sw_file w1 = sw_file w @ l @ [newline]" "sw_event_count w1 = sw_event_count w + 1" "sw_byte_size w1 = sw_byte_size w + length l + 1"
      "sw_enforce_validation_limits w1 = sw_enforce_validation_limits w"
      "sw_byte_size w1 \<le> u64_max \<and> sw_event_count w1 \<le> u64_max \<and>
        (sw_enforce_validation_limits w \<longrightarrow>
          sw_byte_size w1 \<le> VALIDATION_ISSUE_SPOOL_MAX_BYTES \<and> sw_event_count w1 \<le> VALIDATION_ISSUE_SPOOL_MAX_EVENTS)"
    using w1(1) by (auto simp: append_canonical_bytes_def record_append_def Let_def split: if_splits)
  show ?case
  proof (cases ls)
    case Nil
    then show ?thesis using w1(2) step by simp
  next
    case (Cons a as)
    then show ?thesis using Cons.IH [OF w1(2)] step by auto
  qed
qed simp

lemma append_lines_succeeds:
  assumes "sw_byte_size w + length (run_file lines) \<le> u64_max" "sw_event_count w + length lines \<le> u64_max"
    and "sw_enforce_validation_limits w \<longrightarrow> sw_byte_size w + length (run_file lines) \<le> VALIDATION_ISSUE_SPOOL_MAX_BYTES \<and>
      sw_event_count w + length lines \<le> VALIDATION_ISSUE_SPOOL_MAX_EVENTS"
  shows "\<exists>w'. try_fold append_canonical_bytes w lines = Inr w'"
  using assms
proof (induction lines arbitrary: w)
  case (Cons l ls)
  let ?w = "w\<lparr>sw_file := sw_file w @ l @ [newline], sw_byte_size := sw_byte_size w + (length l + 1), sw_event_count := sw_event_count w + 1\<rparr>"
  have "append_canonical_bytes w l = Inr ?w"
    using Cons.prems by (auto simp: append_canonical_bytes_def record_append_def Let_def)
  moreover have "\<exists>w'. try_fold append_canonical_bytes ?w ls = Inr w'" using Cons.prems by (intro Cons.IH) auto
  ultimately show ?case by simp
qed simp

lemma visit_lines:
  assumes "list_all (\<lambda>l. line_ok l \<and> \<not> list_all is_ascii_whitespace l \<and> parse l = Some (p l)) lines"
  shows "visit_jsonl invalid parse visit k s (run_file lines) = try_fold (\<lambda>s l. visit s (p l)) s lines"
  using assms
proof (induction lines arbitrary: k s)
  case Nil
  then show ?case by (simp add: visit_jsonl.simps)
next
  case (Cons l ls)
  have l: "line_ok l" "\<not> list_all is_ascii_whitespace l" "parse l = Some (p l)" using Cons.prems by simp_all
  then have "first_line (run_file (l # ls)) = l" "after_line (run_file (l # ls)) = run_file ls" "strip_carriage_return l = l"
    by (auto simp: first_line_run after_line_run line_ok_def strip_carriage_return_def)
  moreover have "run_file (l # ls) \<noteq> []" by simp
  ultimately have "visit_jsonl invalid parse visit k s (run_file (l # ls)) =
      (case visit s (p l) of Inl e \<Rightarrow> Inl e | Inr s \<Rightarrow> visit_jsonl invalid parse visit (k + 1) s (run_file ls))"
    using l by (subst visit_jsonl.simps) (simp add: Let_def del: run_file_simps split: sum.split)
  then show ?case using Cons by (cases "visit s (p l)") simp_all
qed

section \<open>Sorting\<close>

text \<open>The runs and the buffer hold the lines read so far; the runs are sorted.\<close>

definition runs_hold :: "string list \<Rightarrow> string list \<Rightarrow> string list \<Rightarrow> bool" where
  "runs_hold lines runs buffered \<longleftrightarrow>
     (\<exists>rs. runs = map run_file rs \<and> (\<forall>r \<in> set rs. sorted r) \<and> mset (concat rs) + mset buffered = mset lines)"

lemma runs_hold_flush: "runs_hold lines runs buffered \<Longrightarrow> runs_hold lines (runs @ [write_sorted_jsonl_run buffered]) []"
  unfolding runs_hold_def
proof (elim exE conjE)
  fix rs assume "runs = map run_file rs" "\<forall>r \<in> set rs. sorted r" "mset (concat rs) + mset buffered = mset lines"
  then show "\<exists>rs. runs @ [write_sorted_jsonl_run buffered] = map run_file rs \<and> (\<forall>r \<in> set rs. sorted r) \<and> mset (concat rs) + mset [] = mset lines"
    by (intro exI [of _ "rs @ [sort buffered]"]) (auto simp: write_sorted_jsonl_run_def)
qed

lemma runs_hold_push: "runs_hold lines runs buffered \<Longrightarrow> runs_hold (lines @ [l]) runs (buffered @ [l])"
  unfolding runs_hold_def by auto

lemma runs_hold_merge:
  assumes "runs_hold lines runs []" "list_all line_ok lines"
  shows "merge_sorted_jsonl_runs runs = Inr (sort lines)"
proof -
  obtain rs where rs: "runs = map run_file rs" "\<forall>r \<in> set rs. sorted r" "mset (concat rs) = mset lines"
    using assms(1) by (auto simp: runs_hold_def)
  have "set (concat rs) = set lines" using rs(3) by (rule mset_eq_setD)
  then have "\<forall>r \<in> set rs. list_all line_ok r \<and> sorted r" using assms(2) rs(2) by (auto simp: list_all_iff)
  then have "merge_sorted_jsonl_runs runs = Inr (sort (concat rs))" using rs(1) merge_runs_correct by simp
  moreover have "sort (concat rs) = sort lines" using rs(3) by (intro properties_for_sort) simp_all
  ultimately show ?thesis by simp
qed

lemma buffer_events:
  assumes "runs_hold lines0 runs buffered"
  shows "\<exists>runs' buffered' n'. try_fold (buffer_event env run_bytes) (runs, buffered, n) vs = Inr (runs', buffered', n') \<and>
    runs_hold (lines0 @ map (write_canonical_json (je_string_text env)) vs) runs' buffered'"
  using assms
proof (induction vs arbitrary: lines0 runs buffered n)
  case (Cons v vs)
  let ?l = "write_canonical_json (je_string_text env) v"
  have push: "runs_hold (lines0 @ [?l]) runs (buffered @ [?l])" using Cons.prems by (rule runs_hold_push)
  obtain runs1 buffered1 n1 where step: "buffer_event env run_bytes (runs, buffered, n) v = Inr (runs1, buffered1, n1)"
      "runs_hold (lines0 @ [?l]) runs1 buffered1"
    using push runs_hold_flush [OF push] by (cases "run_bytes \<le> saturating_add n (length ?l)") (auto simp: buffer_event_def Let_def)
  from Cons.IH [OF step(2), of n1] step(1) show ?case by auto
qed simp

lemma length_run_file: "length (run_file ls) = sum_list (map (\<lambda>l. length l + 1) ls)"
  by (induction ls) simp_all

lemma length_run_file_sort: "length (run_file (sort ls)) = length (run_file ls)"
proof -
  have "sum_mset (image_mset (\<lambda>l. length l + 1) (mset (sort ls))) = sum_mset (image_mset (\<lambda>l. length l + 1) (mset ls))" by simp
  then show ?thesis unfolding length_run_file by (metis mset_map sum_mset_sum_list)
qed

text \<open>The parser reads back what was written, up to the order of entries.\<close>

definition reads_back :: "jsonl_env \<Rightarrow> json list \<Rightarrow> bool" where
  "reads_back env vs = list_all (\<lambda>v. case je_parse env (write_canonical_json (je_string_text env) v) of None \<Rightarrow> False | Some w \<Rightarrow> same_json v w) vs"

lemma try_fold_map: "try_fold f s (map g xs) = try_fold (\<lambda>s x. f s (g x)) s xs"
  by (induction xs arbitrary: s) simp_all

text \<open>Visiting a spool of canonical lines visits values with the same canonical text.\<close>

lemma spool_rereads:
  assumes st: "plain_strings (je_string_text env)" and vs: "list_all json_wf vs" "reads_back env vs"
    and lines: "lines = map (write_canonical_json (je_string_text env)) vs"
  shows "visit_jsonl invalid (je_parse env) visit k s (run_file lines) = try_fold visit s (map (\<lambda>l. the (je_parse env l)) lines)"
    and "map (write_canonical_json (je_string_text env)) (map (\<lambda>l. the (je_parse env l)) lines) = lines"
proof -
  let ?c = "write_canonical_json (je_string_text env)" and ?p = "\<lambda>l. the (je_parse env l)"
  have reread: "je_parse env (?c v) = Some (?p (?c v)) \<and> ?c (?p (?c v)) = ?c v" if v: "v \<in> set vs" for v
  proof -
    obtain u where u: "je_parse env (?c v) = Some u" "same_json v u"
      using vs(2) v by (fastforce simp: reads_back_def list_all_iff split: option.splits)
    have "?c u = ?c v" using u(2) unfolding same_json_def by (metis canonical_sort_entries)
    then show ?thesis using u(1) by simp
  qed
  have good: "list_all (\<lambda>l. line_ok l \<and> \<not> list_all is_ascii_whitespace l \<and> je_parse env l = Some (?p l)) lines"
    unfolding lines list_all_iff [of _ "map ?c vs"] set_map
    using vs(1) canonical_line_ok [OF st] canonical_not_blank [OF st] reread by (auto simp only: list_all_iff [of json_wf])
  show "visit_jsonl invalid (je_parse env) visit k s (run_file lines) = try_fold visit s (map ?p lines)"
    by (simp only: visit_lines [OF good] try_fold_map)
  show "map ?c (map ?p lines) = lines" using reread by (simp add: lines)
qed

lemma sort_spool_correct:
  assumes st: "plain_strings (je_string_text env)" and vs: "list_all json_wf vs" "reads_back env vs"
    and w: "try_fold (spool_append env) spool_writer_new vs = Inr w" and run_bytes: "0 < run_bytes"
    and lines: "lines = map (write_canonical_json (je_string_text env)) vs"
  shows "sort_jsonl_spool_with_run_bytes env (spool_finish env w) run_bytes =
    res_bind (ensure_temp_free_space (je_sort_space env) (saturating_mul (sw_byte_size w) 2)) (\<lambda>_.
    Inr \<lparr>vs_file = run_file (sort lines), vs_event_count = length vs, vs_byte_size = sw_byte_size w,
         vs_sha256 = je_sha256_hex env (run_file (sort lines))\<rparr>)"
proof -
  let ?c = "write_canonical_json (je_string_text env)"
  have "try_fold append_canonical_bytes spool_writer_new lines = try_fold (spool_append env) spool_writer_new vs"
  proof -
    have "try_fold append_canonical_bytes w0 (map ?c us) = try_fold (spool_append env) w0 us" for w0 us
      by (induction us arbitrary: w0) (simp_all add: spool_append_def)
    then show ?thesis by (simp add: lines)
  qed
  then have w': "try_fold append_canonical_bytes spool_writer_new lines = Inr w" using w by simp
  note content = append_lines [OF w']
  have new: "sw_file spool_writer_new = []" "sw_event_count spool_writer_new = 0" "sw_byte_size spool_writer_new = 0"
      "sw_enforce_validation_limits spool_writer_new" by (simp_all add: spool_writer_new_def)
  have ok: "list_all line_ok lines" using vs(1) st by (auto simp: lines list_all_iff canonical_line_ok)
  let ?us = "map (\<lambda>l. the (je_parse env l)) lines"
  note reread = spool_rereads [OF st vs lines]
  have visit: "visit_jsonl SpoolInvalid (je_parse env) (buffer_event env run_bytes) 0 ([], [], 0) (run_file lines) =
      try_fold (buffer_event env run_bytes) ([], [], 0) ?us"
    by (rule reread(1))
  have "runs_hold [] [] []" by (simp add: runs_hold_def)
  from buffer_events [OF this, of env run_bytes 0 ?us] obtain runs buffered n where
    run: "try_fold (buffer_event env run_bytes) ([], [], 0) ?us = Inr (runs, buffered, n)" "runs_hold lines runs buffered"
    using reread(2) by auto
  let ?runs = "if buffered = [] then runs else runs @ [write_sorted_jsonl_run buffered]"
  have "runs_hold lines ?runs []" using run(2) runs_hold_flush by auto
  then have merge: "merge_sorted_jsonl_runs ?runs = Inr (sort lines)" using runs_hold_merge ok by blast
  have limits: "length (run_file (sort lines)) \<le> u64_max \<and> length (sort lines) \<le> u64_max \<and>
      length (run_file (sort lines)) \<le> VALIDATION_ISSUE_SPOOL_MAX_BYTES \<and> length (sort lines) \<le> VALIDATION_ISSUE_SPOOL_MAX_EVENTS"
    using content new length_run_file_sort [of lines]
    by (cases "lines = []") (auto simp: u64_max_def VALIDATION_ISSUE_SPOOL_MAX_BYTES_def VALIDATION_ISSUE_SPOOL_MAX_EVENTS_def)
  then obtain o' where out: "try_fold append_canonical_bytes spool_writer_new (sort lines) = Inr o'"
    using append_lines_succeeds [of spool_writer_new "sort lines"] new by auto
  note out' = append_lines [OF out]
  have finish: "spool_finish env o' = \<lparr>vs_file = run_file (sort lines), vs_event_count = length vs, vs_byte_size = sw_byte_size w,
         vs_sha256 = je_sha256_hex env (run_file (sort lines))\<rparr>"
    using out' content new length_run_file_sort [of lines] by (simp add: spool_finish_def lines)
  show ?thesis
    unfolding sort_jsonl_spool_with_run_bytes_def
    using run_bytes content new visit run(1) merge out finish
    by (cases "ensure_temp_free_space (je_sort_space env) (saturating_mul (sw_byte_size w) 2)")
       (simp_all add: spool_finish_def lines Let_def)
qed

section \<open>Passes of the run writer\<close>

lemma concat_chunks: "0 < n \<Longrightarrow> concat (chunks n xs) = xs"
proof (induction n xs rule: chunks.induct)
  case (1 n xs)
  then show ?case by (cases "xs = []") (simp_all add: chunks.simps [of n xs] chunks.simps [of n "[]"])
qed

lemma length_chunks: "2 \<le> n \<Longrightarrow> 2 * length (chunks n xs) \<le> length xs + 1"
proof (induction n xs rule: chunks.induct)
  case (1 n xs)
  show ?case
  proof (cases "xs = []")
    case False
    have "2 * length (chunks n (drop n xs)) \<le> length (drop n xs) + 1" using 1 False by auto
    moreover have "1 \<le> length xs" using False by (simp add: Suc_le_eq)
    ultimately show ?thesis using False "1.prems" by (cases "n \<le> length xs") (auto simp: chunks.simps [of n xs] chunks.simps [of n "[]"])
  qed (simp add: chunks.simps)
qed

lemma chunks_map: "chunks n (map f xs) = map (map f) (chunks n xs)"
proof (induction n xs rule: chunks.induct)
  case (1 n xs)
  then show ?case by (cases "xs = [] \<or> n = 0") (simp_all add: chunks.simps [of n xs] chunks.simps [of n "map f xs"] take_map drop_map)
qed

text \<open>A file of sorted lines that survive reading.\<close>

definition good_run :: "string list \<Rightarrow> bool" where
  "good_run r \<longleftrightarrow> list_all line_ok r \<and> sorted r"

lemma merge_groups:
  assumes "\<forall>g \<in> set groups. \<forall>r \<in> set g. good_run r"
    and "try_map (merge_group env pass) (List.enumerate k (map (map run_file) groups)) = Inr compacted"
  shows "compacted = map (\<lambda>g. run_file (sort (concat g))) groups"
  using assms
proof (induction groups arbitrary: k compacted)
  case (Cons g groups)
  have "merge_sorted_jsonl_runs (map run_file g) = Inr (sort (concat g))"
    using Cons.prems(1) by (intro merge_runs_correct) (auto simp: good_run_def)
  then show ?case using Cons by (auto simp: res_simps merge_group_def Let_def)
qed simp

lemma merge_group_error:
  assumes "\<forall>r \<in> set g. good_run r" "merge_group env pass (k, map run_file g) = Inl e"
  shows "e \<noteq> IndexOutOfRange \<and> e \<noteq> MergeDiverges"
proof -
  have "merge_sorted_jsonl_runs (map run_file g) = Inr (sort (concat g))"
    using assms(1) by (intro merge_runs_correct) (auto simp: good_run_def)
  then show ?thesis using assms(2) by (auto simp: merge_group_def Let_def relation_space_defs res_simps split: if_splits)
qed

lemma mset_concat_sorted_groups: "mset (concat (map (\<lambda>g. sort (concat g)) groups)) = mset (concat (concat groups))"
  by (induction groups) simp_all

lemma merge_passes_correct:
  assumes "2 \<le> fan_in" "\<forall>r \<in> set rs. good_run r" "length rs \<le> fan_in + fuel"
  shows "(\<exists>rs'. merge_passes env fan_in fuel pass (map run_file rs) = Inr (map run_file rs') \<and> length rs' \<le> fan_in \<and>
      (\<forall>r \<in> set rs'. good_run r) \<and> mset (concat rs') = mset (concat rs)) \<or>
    (\<exists>e. merge_passes env fan_in fuel pass (map run_file rs) = Inl e \<and> e \<noteq> IndexOutOfRange \<and> e \<noteq> MergeDiverges)"
  using assms
proof (induction fuel arbitrary: pass rs)
  case 0
  then show ?case by (intro disjI1 exI [of _ rs]) simp
next
  case (Suc fuel)
  show ?case
  proof (cases "fan_in < length rs")
    case False
    then show ?thesis using Suc.prems by (intro disjI1 exI [of _ rs]) simp
  next
    case True
    let ?groups = "chunks fan_in rs" and ?files = "List.enumerate 0 (chunks fan_in (map run_file rs))"
    have groups: "concat ?groups = rs" using Suc.prems(1) by (simp add: concat_chunks)
    then have good: "\<forall>g \<in> set ?groups. \<forall>r \<in> set g. good_run r" using Suc.prems(2) by (metis UN_I set_concat)
    show ?thesis
    proof (cases "try_map (merge_group env pass) ?files")
      case (Inl e)
      then have "\<exists>item \<in> set ?files. merge_group env pass item = Inl e" by (rule try_map_fails)
      then obtain item where item: "item \<in> set ?files" "merge_group env pass item = Inl e" by (elim bexE)
      then have "fst item < length ?groups" "item = (fst item, map run_file (?groups ! fst item))"
        by (auto simp: chunks_map in_set_enumerate_eq prod_eq_iff)
      then obtain k g where "item = (k, map run_file g)" "g \<in> set ?groups" by (metis nth_mem)
      then have "e \<noteq> IndexOutOfRange \<and> e \<noteq> MergeDiverges" using merge_group_error [of g env pass k e] good item(2) by blast
      then show ?thesis using True Inl by simp
    next
      case (Inr compacted)
      let ?rs = "map (\<lambda>g. sort (concat g)) ?groups"
      have compacted: "compacted = map run_file ?rs"
        using merge_groups [OF good Inr [unfolded chunks_map]] by simp
      have "good_run (sort (concat g))" if "g \<in> set ?groups" for g
        using good that by (auto simp: good_run_def list_all_iff)
      then have "\<forall>r \<in> set ?rs. good_run r" by auto
      moreover have "length ?rs \<le> fan_in + fuel" using length_chunks [OF Suc.prems(1), of rs] Suc.prems(1,3) unfolding length_map by linarith
      moreover have "mset (concat ?rs) = mset (concat rs)" using mset_concat_sorted_groups [of ?groups] groups by simp
      ultimately show ?thesis using Suc.IH [OF Suc.prems(1), of ?rs "pass + 1"] True Inr compacted by simp
    qed
  qed
qed

lemma run_append_step:
  assumes "run_append env w v = Inr w'" "runs_hold lines (rw_runs w) (rw_buffered w)"
  shows "runs_hold (lines @ [write_canonical_json (je_string_text env) v]) (rw_runs w') (rw_buffered w') \<and>
    rw_event_count w' = rw_event_count w + 1 \<and> rw_merge_fan_in w' = rw_merge_fan_in w"
proof -
  let ?l = "write_canonical_json (je_string_text env) v"
  have push: "runs_hold (lines @ [?l]) (rw_runs w) (rw_buffered w @ [?l])" using assms(2) by (rule runs_hold_push)
  show ?thesis using assms(1) push runs_hold_flush [OF push]
    by (auto simp: run_append_def flush_run_def Let_def res_simps split: if_splits)
qed

lemma run_appends:
  assumes "try_fold (run_append env) w vs = Inr w'" "runs_hold lines (rw_runs w) (rw_buffered w)"
  shows "runs_hold (lines @ map (write_canonical_json (je_string_text env)) vs) (rw_runs w') (rw_buffered w') \<and>
    rw_event_count w' = rw_event_count w + length vs \<and> rw_merge_fan_in w' = rw_merge_fan_in w"
  using assms
proof (induction vs arbitrary: w lines)
  case (Cons v vs)
  from Cons.prems(1) obtain w1 where w1: "run_append env w v = Inr w1" "try_fold (run_append env) w1 vs = Inr w'"
    by (auto simp: res_simps)
  note step = run_append_step [OF w1(1) Cons.prems(2)]
  then show ?case using Cons.IH [OF w1(2), of "lines @ [write_canonical_json (je_string_text env) v]"] by simp
qed simp

section \<open>Properties\<close>

text \<open>
  C23. Sorting a spool whose values were written through its writer, with any positive run budget, either reports that
  the free space is too low or produces the spool of exactly the same lines in ascending order, with the same
  number of events and bytes: no other error occurs, and no line is lost, duplicated or changed.
\<close>

theorem external_sort_correct:
  assumes "plain_strings (je_string_text env)" "list_all json_wf vs" "reads_back env vs"
    and "try_fold (spool_append env) spool_writer_new vs = Inr w" "0 < run_bytes"
  shows "sort_jsonl_spool_with_run_bytes env (spool_finish env w) run_bytes =
    res_bind (ensure_temp_free_space (je_sort_space env) (saturating_mul (sw_byte_size w) 2)) (\<lambda>_.
    let lines = sort (map (write_canonical_json (je_string_text env)) vs) in
    Inr \<lparr>vs_file = run_file lines, vs_event_count = length vs, vs_byte_size = sw_byte_size w,
         vs_sha256 = je_sha256_hex env (run_file lines)\<rparr>)"
  using sort_spool_correct [OF assms refl] by (simp add: Let_def)

definition demo_jsonl :: jsonl_env where
  "demo_jsonl = \<lparr>je_string_text = (\<lambda>s. CHR 0x22 # concat (map (\<lambda>c. if c = newline then ''.'' else [c]) s) @ [CHR 0x22]),
     je_sha256_hex = id, je_parse = (\<lambda>t. if t = ''null'' then Some JNull else Some (JBool True)), je_sort_space = 2 ^ 40,
     je_run_space = (\<lambda>_. 2 ^ 40), je_merge_space = (\<lambda>_ _. 2 ^ 40)\<rparr>"

lemma demo_jsonl_plain: "plain_strings (je_string_text demo_jsonl)"
  by (auto simp: plain_strings_def demo_jsonl_def newline_def)

theorem external_sort_correct_witness:
  "\<exists>w s. try_fold (spool_append demo_jsonl) spool_writer_new [JBool True, JNull] = Inr w \<and>
    sort_jsonl_spool_with_run_bytes demo_jsonl (spool_finish demo_jsonl w) 1 = Inr s \<and> vs_file s = ''null'' @ [newline] @ ''true'' @ [newline]"
proof -
  obtain w where w: "try_fold (spool_append demo_jsonl) spool_writer_new [JBool True, JNull] = Inr w" "sw_byte_size w = 10"
    by (simp add: spool_append_def append_canonical_bytes_def record_append_def spool_writer_new_def u64_max_def
        VALIDATION_ISSUE_SPOOL_MAX_BYTES_def VALIDATION_ISSUE_SPOOL_MAX_EVENTS_def Let_def)
  have "list_all json_wf [JBool True, JNull]" by simp
  moreover have "reads_back demo_jsonl [JBool True, JNull]" by (simp add: reads_back_def demo_jsonl_def same_json_def)
  ultimately have "sort_jsonl_spool_with_run_bytes demo_jsonl (spool_finish demo_jsonl w) 1 =
    res_bind (ensure_temp_free_space (je_sort_space demo_jsonl) (saturating_mul (sw_byte_size w) 2)) (\<lambda>_.
    let lines = sort (map (write_canonical_json (je_string_text demo_jsonl)) [JBool True, JNull]) in
    Inr \<lparr>vs_file = run_file lines, vs_event_count = length [JBool True, JNull], vs_byte_size = sw_byte_size w,
         vs_sha256 = je_sha256_hex demo_jsonl (run_file lines)\<rparr>)"
    using external_sort_correct [OF demo_jsonl_plain _ _ w(1), of 1] by simp
  then show ?thesis using w
    by (simp add: ensure_temp_free_space_def demo_jsonl_def saturating_mul_def u64_max_def TEMP_FREE_SPACE_RESERVE_BYTES_def less_eq_char_def)
qed

text \<open>
  C24. The run writer with a fan-in of at least two: finishing after any appended values ends without running out of
  passes, leaves at most the fan-in of runs, counts every value, and merging these runs visits the canonical
  lines of all values in ascending order.
\<close>

theorem run_writer_sorts:
  assumes "plain_strings (je_string_text env)" "list_all json_wf vs" "2 \<le> fan_in"
    and "try_fold (run_append env) (run_writer_new\<lparr>rw_run_bytes := run_bytes, rw_merge_fan_in := fan_in\<rparr>) vs = Inr w"
  shows "case run_writer_finish env w of
      Inl e \<Rightarrow> e \<noteq> MergeDiverges \<and> e \<noteq> IndexOutOfRange
    | Inr runs \<Rightarrow> length (sx_runs runs) \<le> fan_in \<and> sx_event_count runs = length vs \<and>
        merge_sorted_jsonl_runs (sx_runs runs) = Inr (sort (map (write_canonical_json (je_string_text env)) vs))"
proof -
  let ?lines = "map (write_canonical_json (je_string_text env)) vs"
  have ok: "list_all line_ok ?lines" using assms(1,2) by (auto simp: list_all_iff canonical_line_ok)
  have "runs_hold [] (rw_runs (run_writer_new\<lparr>rw_run_bytes := run_bytes, rw_merge_fan_in := fan_in\<rparr>))
      (rw_buffered (run_writer_new\<lparr>rw_run_bytes := run_bytes, rw_merge_fan_in := fan_in\<rparr>))"
    by (simp add: runs_hold_def run_writer_new_def)
  from run_appends [OF assms(4) this] have w: "runs_hold ?lines (rw_runs w) (rw_buffered w)" "rw_event_count w = length vs" "rw_merge_fan_in w = fan_in"
    by (simp_all add: run_writer_new_def)
  show ?thesis
  proof (cases "flush_run env w")
    case (Inl e)
    then show ?thesis by (auto simp: run_writer_finish_def flush_run_def relation_space_defs res_simps split: if_splits)
  next
    case (Inr w1)
    then have w1: "runs_hold ?lines (rw_runs w1) []" "rw_event_count w1 = length vs" "rw_merge_fan_in w1 = fan_in"
      using w runs_hold_flush [OF w(1)] by (auto simp: flush_run_def res_simps split: if_splits)
    obtain rs where rs: "rw_runs w1 = map run_file rs" "\<forall>r \<in> set rs. sorted r" "mset (concat rs) = mset ?lines"
      using w1(1) by (auto simp: runs_hold_def)
    have "set (concat rs) = set ?lines" using rs(3) by (rule mset_eq_setD)
    then have "\<forall>l \<in> set (concat rs). line_ok l" using ok unfolding list_all_iff by (simp only:)
    then have "\<forall>r \<in> set rs. good_run r" using rs(2) by (simp add: good_run_def list_all_iff)
    from merge_passes_correct [OF assms(3) this le_add2, of env 0] show ?thesis
    proof (elim disjE exE conjE)
      fix rs'
      assume rs': "merge_passes env fan_in (length rs) 0 (map run_file rs) = Inr (map run_file rs')" "length rs' \<le> fan_in"
        "\<forall>r \<in> set rs'. good_run r" "mset (concat rs') = mset (concat rs)"
      have "merge_sorted_jsonl_runs (map run_file rs') = Inr (sort (concat rs'))"
        using rs'(3) by (intro merge_runs_correct) (simp add: good_run_def)
      moreover have "sort (concat rs') = sort ?lines" using rs'(4) rs(3) by (intro properties_for_sort) simp_all
      ultimately show ?thesis using Inr w1 rs(1) rs'(1,2) by (simp add: run_writer_finish_def)
    qed (use Inr w1 rs(1) in \<open>simp_all add: run_writer_finish_def\<close>)
  qed
qed

lemma demo_runs:
  "\<exists>w. try_fold (run_append demo_jsonl) (run_writer_new\<lparr>rw_run_bytes := 1, rw_merge_fan_in := 2\<rparr>) [JBool True, JNull] = Inr w"
  by (simp add: run_append_def flush_run_def run_writer_new_def relation_space_defs demo_jsonl_def u64_max_def
      TEMP_FREE_SPACE_RESERVE_BYTES_def ISSUE_PARTITION_MAX_UNCOMPRESSED_BYTES_def Let_def)

theorem run_writer_sorts_witness:
  "\<exists>w. try_fold (run_append demo_jsonl) (run_writer_new\<lparr>rw_run_bytes := 1, rw_merge_fan_in := 2\<rparr>) [JBool True, JNull] = Inr w \<and>
    run_writer_finish demo_jsonl w \<noteq> Inl MergeDiverges"
proof -
  obtain w where w: "try_fold (run_append demo_jsonl) (run_writer_new\<lparr>rw_run_bytes := 1, rw_merge_fan_in := 2\<rparr>) [JBool True, JNull] = Inr w"
    using demo_runs by blast
  have "list_all json_wf [JBool True, JNull]" "(2 :: nat) \<le> 2" by simp_all
  from run_writer_sorts [OF demo_jsonl_plain this w] w show ?thesis
    by (intro exI [of _ w]) (auto split: sum.splits)
qed

end
