(* ===== verification/Closure_Scan.thy ===== *)
theory Closure_Scan
  imports Closure_Issues External_Sort
begin

text \<open>
  The scan of a scope closure, \<open>crates/solver-worker/src/scope_closure.rs\<close>: the frozen snapshot as a boundary on what the
  database returns, the resolution of omitted versions, the breadth-first collection of all data sets
  reachable from the roots, and its finalization. The provider (database reads, heartbeats, memory checks) is
  a record of operations over an arbitrary state. Theorems: the collected universe is the closure of the roots
  under the resolved references, every member of it was read, reported as missing or makes the scan
  incomplete, only documents that match the frozen hashes enter a scan over the snapshot, and the collection
  ends whenever the references stay within a finite universe.
\<close>

section \<open>Requests and snapshots\<close>

record requested_identity =
  rq_id :: "u8 list"
  rq_version :: string

record scope_link_policy =
  lp_link_semantics_version :: string
  lp_flow_identity_policy :: string
  lp_allocation_semantics_version :: string
  lp_technosphere_boundary_policy :: string
  lp_provider_universe_policy :: string

record requested_scope_manifest =
  rm_schema_version :: string
  rm_coverage_mode :: string
  rm_eligibility_predicate_version :: string
  rm_processes :: "requested_identity list"
  rm_lcia_methods :: "requested_identity list"
  rm_version_resolution_policy :: string
  rm_legacy_omitted_version_policy :: string
  rm_certificate_freshness_policy :: string
  rm_link_policy :: scope_link_policy
  rm_process_manifest_hash :: "string option"

definition manifest_roots :: "requested_scope_manifest \<Rightarrow> exact_dataset_identity list" where
  "manifest_roots m =
     remdups_adj (sort (map (\<lambda>i. Identity Processes (rq_id i) (rq_version i)) (rm_processes m) @
                        map (\<lambda>i. Identity Lciamethods (rq_id i) (rq_version i)) (rm_lcia_methods m)))"

record snapshot_dataset_entry =
  se_dataset_type :: dataset_category
  se_dataset_id :: "u8 list"
  se_dataset_version :: string
  se_role :: string
  se_source_process_id :: "u8 list option"
  se_source_process_version :: "string option"
  se_version_significant_hash :: string
  se_semantic_hash :: string
  se_canonical_content_hash :: string

definition entry_identity :: "snapshot_dataset_entry \<Rightarrow> exact_dataset_identity" where
  "entry_identity e = Identity (se_dataset_type e) (se_dataset_id e) (se_dataset_version e)"

text \<open>A map collected from pairs: the last entry with a key stays. The list is in no particular order.\<close>

definition collect_map :: "('a \<Rightarrow> 'k) \<Rightarrow> 'a list \<Rightarrow> ('k \<times> 'a) list" where
  "collect_map key xs = foldl (\<lambda>m x. AList.update (key x) x m) [] xs"

type_synonym snapshot_universe = "(exact_dataset_identity \<times> snapshot_dataset_entry) list"

definition snapshot_dataset_universe :: "snapshot_dataset_entry list \<Rightarrow> snapshot_universe" where
  "snapshot_dataset_universe datasets = collect_map entry_identity datasets"

record closure_document =
  dc_identity :: exact_dataset_identity
  dc_payload :: json

record fetch_result =
  fr_documents :: "closure_document list"
  fr_issues :: "closure_issue list"
  fr_incomplete_identities :: "exact_dataset_identity list"

datatype scan_error =
    ProviderFailed string
  | UnsupportedOmittedPolicy string
  | CategoryError codec_error
  | InvalidExactVersion string
  | DuplicateDocument exact_dataset_identity
  | DocumentByteOverflow
  | SpoolError jsonl_error
  | GraphError codec_error

definition payload_hash :: "closure_env \<Rightarrow> json \<Rightarrow> string" where
  "payload_hash env v = canonical_json_sha256 (en_string_text env) (en_sha256_hex env) v"

definition boundary_step ::
  "closure_env \<Rightarrow> snapshot_universe \<Rightarrow> (exact_dataset_identity \<times> closure_document) list \<Rightarrow> fetch_result \<Rightarrow> exact_dataset_identity
   \<Rightarrow> fetch_result" where
  "boundary_step env universe live r identity =
     (let reject = (\<lambda>code message details.
        r\<lparr>fr_issues := fr_issues r @ [provider_boundary_issue env code identity message details],
          fr_incomplete_identities := identity # fr_incomplete_identities r\<rparr>) in
      case map_of universe identity of
        None \<Rightarrow>
          if map_of live identity \<noteq> None
          then reject ''snapshot_dataset_not_allowed''
                 ''A live exact dataset exists but is absent from the frozen public-release manifest.''
                 (json_object [(''snapshotAllowed'', JBool False), (''liveOnly'', JBool True)])
          else r
      | Some entry \<Rightarrow>
          (case map_of live identity of
             None \<Rightarrow>
               reject ''snapshot_dataset_unavailable''
                 ''The frozen public-release dataset is no longer readable from the source table.''
                 (json_object [(''expectedCanonicalContentHash'', JString (se_canonical_content_hash entry))])
           | Some document \<Rightarrow>
               let actual_hash = payload_hash env (dc_payload document) in
               if actual_hash \<noteq> se_canonical_content_hash entry
               then reject ''snapshot_source_drift''
                      ''Live content no longer matches the canonical hash frozen in the public-release manifest.''
                      (json_object [(''expectedCanonicalContentHash'', JString (se_canonical_content_hash entry)),
                                    (''actualCanonicalContentHash'', JString actual_hash)])
               else r\<lparr>fr_documents := fr_documents r @ [document]\<rparr>))"

definition enforce_snapshot_boundary ::
  "closure_env \<Rightarrow> exact_dataset_identity list \<Rightarrow> snapshot_universe \<Rightarrow> closure_document list \<Rightarrow> fetch_result" where
  "enforce_snapshot_boundary env identities universe live_documents =
     foldl (boundary_step env universe (collect_map dc_identity live_documents))
       \<lparr>fr_documents = [], fr_issues = [], fr_incomplete_identities = []\<rparr> identities"

record omitted_resolution =
  om_selected :: "exact_dataset_identity option"
  om_candidates :: "exact_dataset_identity list"
  om_policy :: string

definition resolve_snapshot_omitted_version ::
  "snapshot_universe \<Rightarrow> dataset_category \<Rightarrow> u8 list \<Rightarrow> string \<Rightarrow> scan_error + omitted_resolution" where
  "resolve_snapshot_omitted_version universe category uuid policy =
     (if policy = ''reject'' then Inr \<lparr>om_selected = None, om_candidates = [], om_policy = policy\<rparr>
      else if policy \<noteq> ''latest_eligible'' then Inl (UnsupportedOmittedPolicy policy)
      else
      let candidates = sort_key id_version (filter (\<lambda>i. id_category i = category \<and> id_bytes i = uuid) (sort (map fst universe))) in
      Inr \<lparr>om_selected = (if candidates = [] then None else Some (last candidates)), om_candidates = candidates, om_policy = policy\<rparr>)"

section \<open>The spool of documents\<close>

record document_record =
  dr_identity :: exact_dataset_identity
  dr_canonical_content_hash :: string
  dr_offset :: nat
  dr_byte_size :: nat

record document_writer =
  dw_file :: string
  dw_records :: "(exact_dataset_identity \<times> document_record) list"
  dw_byte_size :: nat

definition document_writer_new :: document_writer where
  "document_writer_new = \<lparr>dw_file = [], dw_records = [], dw_byte_size = 0\<rparr>"

definition document_bytes :: "closure_env \<Rightarrow> closure_document \<Rightarrow> string" where
  "document_bytes env d =
     write_canonical_json (en_string_text env)
       (json_object [(''identity'', identity_json env (dc_identity d)), (''payload'', dc_payload d)])"

definition document_append :: "closure_env \<Rightarrow> document_writer \<Rightarrow> closure_document \<Rightarrow> scan_error + document_writer" where
  "document_append env w d =
     (let bytes = document_bytes env d;
          rec = \<lparr>dr_identity = dc_identity d, dr_canonical_content_hash = payload_hash env (dc_payload d),
                 dr_offset = dw_byte_size w, dr_byte_size = length bytes\<rparr> in
      if map_of (dw_records w) (dc_identity d) \<noteq> None then Inl (DuplicateDocument (dc_identity d))
      else if u64_max < dw_byte_size w + length bytes then Inl DocumentByteOverflow
      else Inr \<lparr>dw_file = dw_file w @ bytes, dw_records = insort_key fst (dc_identity d, rec) (dw_records w),
                dw_byte_size = dw_byte_size w + length bytes\<rparr>)"

record document_spool =
  dp_file :: string
  dp_records :: "document_record list"
  dp_byte_size :: nat

definition document_finish :: "document_writer \<Rightarrow> document_spool" where
  "document_finish w = \<lparr>dp_file = dw_file w, dp_records = map snd (dw_records w), dp_byte_size = dw_byte_size w\<rparr>"

text \<open>The bytes that \<open>visit\<close> reads for a record; a short file is an error of the read.\<close>

definition record_bytes_at :: "document_spool \<Rightarrow> document_record \<Rightarrow> string option" where
  "record_bytes_at spool r =
     (if dr_offset r + dr_byte_size r \<le> length (dp_file spool)
      then Some (take (dr_byte_size r) (drop (dr_offset r) (dp_file spool))) else None)"

section \<open>Collection\<close>

record 's scan_provider =
  sp_memory :: "string \<Rightarrow> 's \<Rightarrow> scan_error + 's"
  sp_checkpoint :: "nat \<Rightarrow> nat \<Rightarrow> 's \<Rightarrow> scan_error + 's"
  sp_fetch_exact :: "exact_dataset_identity list \<Rightarrow> 's \<Rightarrow> scan_error + (fetch_result \<times> 's)"
  sp_resolve_omitted_version :: "dataset_category \<Rightarrow> u8 list \<Rightarrow> string \<Rightarrow> 's \<Rightarrow> scan_error + (omitted_resolution \<times> 's)"

record scan_state =
  ss_pending :: "exact_dataset_identity list"
  ss_scheduled :: "exact_dataset_identity list"
  ss_documents :: document_writer
  ss_edges :: spool_writer
  ss_resolved_references :: "resolved_reference list"
  ss_omitted :: "json list"
  ss_raw_issues :: "closure_issue list"
  ss_complete :: bool

definition option_text :: "string option \<Rightarrow> json" where
  "option_text t = (case t of None \<Rightarrow> JNull | Some s \<Rightarrow> JString s)"

definition edge_json :: "reference_edge \<Rightarrow> json" where
  "edge_json e =
     json_object [(''schema_version'', JString (ed_schema_version e)), (''document_key'', JString (ed_document_key e)),
       (''source_category'', JString (ed_source_category e)), (''target_category'', JString (ed_target_category e)),
       (''target_uuid'', JString (ed_target_uuid e)), (''requested_version_state'', JString (ed_requested_version_state e)),
       (''requested_version'', option_text (ed_requested_version e)), (''requested_version_raw'', ed_requested_version_raw e),
       (''reference_role'', JString (ed_reference_role e)), (''json_path'', JString (ed_json_path e)),
       (''raw_type'', ed_raw_type e), (''uri'', ed_uri e)]"

definition omitted_json ::
  "closure_env \<Rightarrow> exact_dataset_identity \<Rightarrow> reference_edge \<Rightarrow> dataset_category \<Rightarrow> u8 list \<Rightarrow> omitted_resolution \<Rightarrow> json" where
  "omitted_json env source edge category uuid r =
     json_object [(''source'', identity_json env source), (''jsonPath'', JString (ed_json_path edge)),
       (''referenceRole'', JString (ed_reference_role edge)), (''targetCategory'', JString (table_name category)),
       (''targetId'', JString (en_uuid_text env uuid)), (''policy'', JString (om_policy r)),
       (''candidateUniverse'', JString ''frozen-public-release-manifest''),
       (''candidates'', JArray (map (identity_json env) (om_candidates r))),
       (''selected'', case om_selected r of None \<Rightarrow> JNull | Some i \<Rightarrow> identity_json env i)]"

definition classified_edge :: "reference_edge \<Rightarrow> classified_source_reference option \<times> reference_edge" where
  "classified_edge edge =
     (case classify_reference edge CertificateClosure of
        Inl _ \<Rightarrow> (None, edge)
      | Inr c \<Rightarrow> (Some c, edge\<lparr>ed_reference_role := role_as_str (cl_role c)\<rparr>))"

definition resolve_target ::
  "closure_env \<Rightarrow> 's scan_provider \<Rightarrow> requested_scope_manifest \<Rightarrow> exact_dataset_identity \<Rightarrow> reference_edge \<Rightarrow> dataset_category
   \<Rightarrow> u8 list option \<Rightarrow> scan_state \<times> 's \<Rightarrow> scan_error + (exact_dataset_identity option \<times> scan_state \<times> 's)" where
  "resolve_target env pv manifest source edge category target_id s =
     (case s of (st, p) \<Rightarrow>
        case target_id of
          None \<Rightarrow> Inr (None, st, p)
        | Some uuid \<Rightarrow>
            if ed_requested_version_state edge = ''explicit'' \<and> ed_requested_version edge \<noteq> None
            then (case normalize_exact_version (the (ed_requested_version edge)) of
                    None \<Rightarrow> Inl (InvalidExactVersion (the (ed_requested_version edge)))
                  | Some version \<Rightarrow> Inr (Some (Identity category uuid version), st, p))
            else if ed_requested_version_state edge = ''omitted''
            then res_bind (sp_resolve_omitted_version pv category uuid (rm_legacy_omitted_version_policy manifest) p) (\<lambda>(r, p).
                 Inr (om_selected r, st\<lparr>ss_omitted := ss_omitted st @ [omitted_json env source edge category uuid r]\<rparr>, p))
            else Inr (None, st, p))"

definition follow_target ::
  "closure_env \<Rightarrow> requested_scope_manifest \<Rightarrow> exact_dataset_identity list \<Rightarrow> exact_dataset_identity
   \<Rightarrow> classified_source_reference option \<Rightarrow> reference_edge \<Rightarrow> exact_dataset_identity option \<Rightarrow> scan_state \<Rightarrow> scan_state" where
  "follow_target env manifest roots source classified edge target st =
     (case target of
        None \<Rightarrow> st
      | Some t \<Rightarrow>
          if id_category t = Processes \<and> (case classified of None \<Rightarrow> True | Some c \<Rightarrow> cl_role c = ProviderProcess) \<and>
             t \<notin> set roots \<and> lp_provider_universe_policy (rm_link_policy manifest) = ''scope_only''
          then st\<lparr>ss_raw_issues := ss_raw_issues st @ [provider_outside_universe_issue env source t edge]\<rparr>
          else
          let st = st\<lparr>ss_resolved_references := ss_resolved_references st @
                 [\<lparr>rr_source = source, rr_target = t, rr_json_path = ed_json_path edge, rr_reference_role = ed_reference_role edge,
                   rr_requested_version_state = ed_requested_version_state edge\<rparr>]\<rparr> in
          if t \<in> set (ss_scheduled st) then st
          else st\<lparr>ss_scheduled := insort t (ss_scheduled st), ss_pending := ss_pending st @ [t]\<rparr>)"

definition scan_edge ::
  "closure_env \<Rightarrow> jsonl_env \<Rightarrow> 's scan_provider \<Rightarrow> requested_scope_manifest \<Rightarrow> exact_dataset_identity list \<Rightarrow> exact_dataset_identity
   \<Rightarrow> scan_state \<times> 's \<Rightarrow> reference_edge \<Rightarrow> scan_error + (scan_state \<times> 's)" where
  "scan_edge env jenv pv manifest roots source s edge =
     (let (classified, edge) = classified_edge edge in
      res_bind (map_err CategoryError (parse_category (ed_target_category edge))) (\<lambda>category.
      let target_id = en_parse_uuid env (ed_target_uuid edge) in
      res_bind (resolve_target env pv manifest source edge category target_id s) (\<lambda>(target, st, p).
      let st = (if ed_requested_version_state edge = ''omitted'' \<and> target = None
                then st\<lparr>ss_raw_issues := ss_raw_issues st @ [omitted_version_issue env source edge target_id]\<rparr> else st);
          st = follow_target env manifest roots source classified edge target st in
      res_bind (map_err SpoolError (spool_append jenv (ss_edges st) (edge_json edge))) (\<lambda>edges.
      Inr (st\<lparr>ss_edges := edges\<rparr>, p)))))"

definition scan_document ::
  "closure_env \<Rightarrow> jsonl_env \<Rightarrow> 's scan_provider \<Rightarrow> requested_scope_manifest \<Rightarrow> exact_dataset_identity list
   \<Rightarrow> scan_state \<times> 's \<Rightarrow> closure_document \<Rightarrow> scan_error + (scan_state \<times> 's)" where
  "scan_document env jenv pv manifest roots s document =
     (case s of (st, p) \<Rightarrow>
        let source = dc_identity document;
            extraction = extract_scope_closure_references (en_parse_uuid env) (document_key env source) (id_category source)
                           (dc_payload document);
            st = st\<lparr>ss_raw_issues := ss_raw_issues st @ map (extraction_issue env source) (er_issues extraction)\<rparr> in
        res_bind (try_fold (scan_edge env jenv pv manifest roots source) (st, p) (er_edges extraction)) (\<lambda>(st, p).
        res_bind (document_append env (ss_documents st) document) (\<lambda>documents.
        Inr (st\<lparr>ss_documents := documents\<rparr>, p))))"

definition scan_requested ::
  "closure_env \<Rightarrow> jsonl_env \<Rightarrow> 's scan_provider \<Rightarrow> requested_scope_manifest \<Rightarrow> exact_dataset_identity list
   \<Rightarrow> exact_dataset_identity list \<Rightarrow> (exact_dataset_identity \<times> closure_document) list \<times> scan_state \<times> 's \<Rightarrow> exact_dataset_identity
   \<Rightarrow> scan_error + ((exact_dataset_identity \<times> closure_document) list \<times> scan_state \<times> 's)" where
  "scan_requested env jenv pv manifest roots incomplete s requested =
     (case s of (fetched, st, p) \<Rightarrow>
        case map_of fetched requested of
          None \<Rightarrow>
            Inr (fetched,
                 if requested \<in> set incomplete then st
                 else st\<lparr>ss_raw_issues := ss_raw_issues st @
                        [missing_dataset_issue env requested
                           (list_ex (\<lambda>r. rr_target r = requested \<and> rr_requested_version_state r = ''explicit'')
                              (ss_resolved_references st))]\<rparr>, p)
        | Some document \<Rightarrow>
            res_bind (scan_document env jenv pv manifest roots (st, p) document) (\<lambda>(st, p).
            Inr (AList.delete requested fetched, st, p)))"

definition FETCH_BATCH_SIZE :: nat where
  "FETCH_BATCH_SIZE = 96"

definition scan_turn ::
  "closure_env \<Rightarrow> jsonl_env \<Rightarrow> 's scan_provider \<Rightarrow> requested_scope_manifest \<Rightarrow> exact_dataset_identity list
   \<Rightarrow> scan_state \<times> 's \<Rightarrow> scan_error + (scan_state \<times> 's)" where
  "scan_turn env jenv pv manifest roots s =
     (case s of (st, p) \<Rightarrow>
        res_bind (sp_memory pv ''discover_reference_graph'' p) (\<lambda>p.
        res_bind (sp_checkpoint pv (length (dw_records (ss_documents st))) (length (ss_scheduled st)) p) (\<lambda>p.
        let batch = take FETCH_BATCH_SIZE (ss_pending st);
            st = st\<lparr>ss_pending := drop FETCH_BATCH_SIZE (ss_pending st)\<rparr> in
        res_bind (sp_fetch_exact pv batch p) (\<lambda>(fetched, p).
        let st = st\<lparr>ss_complete := (if fr_incomplete_identities fetched = [] then ss_complete st else False),
                    ss_raw_issues := ss_raw_issues st @ fr_issues fetched\<rparr> in
        res_bind (try_fold (scan_requested env jenv pv manifest roots (fr_incomplete_identities fetched))
                    (collect_map dc_identity (fr_documents fetched), st, p) batch) (\<lambda>(_, st, p).
        Inr (st, p))))))"

partial_function (option) scan_loop ::
  "closure_env \<Rightarrow> jsonl_env \<Rightarrow> 's scan_provider \<Rightarrow> requested_scope_manifest \<Rightarrow> exact_dataset_identity list
   \<Rightarrow> scan_state \<times> 's \<Rightarrow> (scan_error + (scan_state \<times> 's)) option" where
  "scan_loop env jenv pv manifest roots s =
     (if ss_pending (fst s) = [] then Some (Inr s)
      else case scan_turn env jenv pv manifest roots s of
        Inl e \<Rightarrow> Some (Inl e)
      | Inr s \<Rightarrow> scan_loop env jenv pv manifest roots s)"

definition scan_start :: "exact_dataset_identity list \<Rightarrow> scan_state" where
  "scan_start roots =
     \<lparr>ss_pending = roots, ss_scheduled = roots, ss_documents = document_writer_new, ss_edges = spool_writer_new,
      ss_resolved_references = [], ss_omitted = [], ss_raw_issues = [], ss_complete = True\<rparr>"

section \<open>Finalization\<close>

text \<open>A scan as it leaves the collection: the relation spools are absent then (\<open>issue_relations: None\<close>).\<close>

record scope_closure_scan =
  sc_schema_version :: string
  sc_complete :: bool
  sc_roots :: "exact_dataset_identity list"
  sc_documents :: document_spool
  sc_edges :: value_spool
  sc_resolved_references :: value_spool
  sc_omitted_version_resolutions :: "json list"
  sc_issues :: "closure_issue list"
  sc_frontier :: "exact_dataset_identity list"
  sc_provider_universe :: "exact_dataset_identity list"
  sc_reference_graph :: compact_reference_graph
  sc_tidas_issue_event_count :: nat

definition reference_key ::
  "resolved_reference \<Rightarrow> exact_dataset_identity \<times> exact_dataset_identity \<times> string \<times> string \<times> string" where
  "reference_key r = (rr_source r, rr_target r, rr_json_path r, rr_reference_role r, rr_requested_version_state r)"

definition reference_json :: "closure_env \<Rightarrow> resolved_reference \<Rightarrow> json" where
  "reference_json env r =
     json_object [(''source'', identity_json env (rr_source r)), (''target'', identity_json env (rr_target r)),
       (''jsonPath'', JString (rr_json_path r)), (''referenceRole'', JString (rr_reference_role r)),
       (''requestedVersionState'', JString (rr_requested_version_state r))]"

definition finalize_scope_closure_scan ::
  "closure_env \<Rightarrow> jsonl_env \<Rightarrow> exact_dataset_identity list \<Rightarrow> scan_state \<Rightarrow> scan_error + scope_closure_scan" where
  "finalize_scope_closure_scan env jenv roots st =
     res_bind (map_err SpoolError (sort_jsonl_spool jenv (spool_finish jenv (ss_edges st)))) (\<lambda>edges.
     let resolved = sort_key reference_key (ss_resolved_references st);
         omitted = sort_key (write_canonical_json (en_string_text env)) (ss_omitted st);
         issues = coalesce_issues (attach_reference_occurrences env resolved (ss_raw_issues st)) in
     res_bind (map_err GraphError (from_references resolved roots)) (\<lambda>graph.
     res_bind (map_err GraphError (compute_affected_roots_batch roots graph issues)) (\<lambda>issues.
     res_bind (map_err SpoolError (try_fold (\<lambda>w r. spool_append jenv w (reference_json env r)) spool_writer_new resolved)) (\<lambda>writer.
     Inr \<lparr>sc_schema_version = ''lcia.scope-closure-scan.v1'', sc_complete = ss_complete st, sc_roots = roots,
          sc_documents = document_finish (ss_documents st), sc_edges = edges, sc_resolved_references = spool_finish jenv writer,
          sc_omitted_version_resolutions = omitted, sc_issues = sort_key ci_issue_key issues, sc_frontier = [],
          sc_provider_universe = ss_scheduled st, sc_reference_graph = graph,
          sc_tidas_issue_event_count = 0\<rparr>))))"

definition collect_scope_closure ::
  "closure_env \<Rightarrow> jsonl_env \<Rightarrow> 's scan_provider \<Rightarrow> requested_scope_manifest \<Rightarrow> 's \<Rightarrow> (scan_error + (scope_closure_scan \<times> 's)) option" where
  "collect_scope_closure env jenv pv manifest p =
     (let roots = manifest_roots manifest in
      case scan_loop env jenv pv manifest roots (scan_start roots, p) of
        None \<Rightarrow> None
      | Some (Inl e) \<Rightarrow> Some (Inl e)
      | Some (Inr (st, p)) \<Rightarrow>
          Some (res_bind (finalize_scope_closure_scan env jenv roots st) (\<lambda>scan.
                res_bind (sp_memory pv ''scope_closure_finalize'' p) (\<lambda>p. Inr (scan, p)))))"

text \<open>The provider over a frozen snapshot: reads of the live tables are an argument.\<close>

definition snapshot_provider ::
  "closure_env \<Rightarrow> snapshot_universe \<Rightarrow> (string \<Rightarrow> 's \<Rightarrow> scan_error + 's) \<Rightarrow> (nat \<Rightarrow> nat \<Rightarrow> 's \<Rightarrow> scan_error + 's)
   \<Rightarrow> (exact_dataset_identity list \<Rightarrow> 's \<Rightarrow> scan_error + (closure_document list \<times> 's)) \<Rightarrow> 's scan_provider" where
  "snapshot_provider env universe memory heartbeat fetch_live =
     \<lparr>sp_memory = memory, sp_checkpoint = heartbeat,
      sp_fetch_exact = (\<lambda>identities p. res_bind (fetch_live identities p) (\<lambda>(live, p).
        Inr (enforce_snapshot_boundary env identities universe live, p))),
      sp_resolve_omitted_version = (\<lambda>category uuid policy p.
        res_bind (resolve_snapshot_omitted_version universe category uuid policy) (\<lambda>r. Inr (r, p)))\<rparr>"

section \<open>Maps collected from pairs\<close>

lemma collect_map_snoc: "collect_map key (xs @ [x]) = AList.update (key x) x (collect_map key xs)"
  by (simp add: collect_map_def)

lemma collect_map_key: "map_of (collect_map key xs) k = Some x \<Longrightarrow> x \<in> set xs \<and> key x = k"
proof (induction xs arbitrary: x rule: rev_induct)
  case Nil
  then show ?case by (simp add: collect_map_def)
next
  case (snoc y ys)
  show ?case
  proof (cases "k = key y")
    case True
    with snoc.prems show ?thesis by (simp add: collect_map_snoc update_conv)
  next
    case False
    with snoc.prems have "map_of (collect_map key ys) k = Some x" by (simp add: collect_map_snoc update_conv)
    from snoc.IH [OF this] show ?thesis by simp
  qed
qed

lemma collect_map_dom: "fst ` set (collect_map key xs) = key ` set xs"
proof (induction xs rule: rev_induct)
  case Nil
  then show ?case by (simp add: collect_map_def)
next
  case (snoc y ys)
  then show ?case by (simp add: collect_map_snoc dom_update)
qed

lemma map_of_delete_Some: "map_of (AList.delete k al) i = Some x \<Longrightarrow> map_of al i = Some x"
  by (auto simp: delete_conv' split: if_splits)

section \<open>What the scan of a document changes\<close>

text \<open>
  The scan of one document with identity \<open>source\<close> only adds: issues, references from \<open>source\<close>, and new targets of
  these references to both the schedule and the queue.
\<close>

definition scan_grows :: "exact_dataset_identity \<Rightarrow> scan_state \<Rightarrow> scan_state \<Rightarrow> bool" where
  "scan_grows source st st' \<longleftrightarrow>
     ss_documents st' = ss_documents st \<and> ss_complete st' = ss_complete st \<and>
     (\<exists>issues. ss_raw_issues st' = ss_raw_issues st @ issues) \<and>
     (\<exists>refs targets. ss_resolved_references st' = ss_resolved_references st @ refs \<and> (\<forall>r \<in> set refs. rr_source r = source) \<and>
        ss_pending st' = ss_pending st @ targets \<and> distinct targets \<and> set targets \<inter> set (ss_scheduled st) = {} \<and>
        set (ss_scheduled st') = set (ss_scheduled st) \<union> set targets \<and> set targets \<subseteq> rr_target ` set refs \<and>
        rr_target ` set refs \<subseteq> set (ss_scheduled st')) \<and>
     (sorted_wrt (<) (ss_scheduled st) \<longrightarrow> sorted_wrt (<) (ss_scheduled st'))"

lemma scan_grows_refl [simp]: "scan_grows source st st"
  by (simp add: scan_grows_def)

lemma scan_grows_issue [simp]: "scan_grows source st (st\<lparr>ss_raw_issues := ss_raw_issues st @ issues\<rparr>)"
  by (simp add: scan_grows_def)

lemma scan_grows_trans:
  assumes one: "scan_grows source st st1" and two: "scan_grows source st1 st2"
  shows "scan_grows source st st2"
proof -
  from one obtain refs targets where a: "ss_resolved_references st1 = ss_resolved_references st @ refs" "\<forall>r \<in> set refs. rr_source r = source"
      "ss_pending st1 = ss_pending st @ targets" "distinct targets" "set targets \<inter> set (ss_scheduled st) = {}"
      "set (ss_scheduled st1) = set (ss_scheduled st) \<union> set targets" "set targets \<subseteq> rr_target ` set refs"
      "rr_target ` set refs \<subseteq> set (ss_scheduled st1)"
    unfolding scan_grows_def by blast
  from two obtain refs' targets' where b: "ss_resolved_references st2 = ss_resolved_references st1 @ refs'"
      "\<forall>r \<in> set refs'. rr_source r = source"
      "ss_pending st2 = ss_pending st1 @ targets'" "distinct targets'" "set targets' \<inter> set (ss_scheduled st1) = {}"
      "set (ss_scheduled st2) = set (ss_scheduled st1) \<union> set targets'" "set targets' \<subseteq> rr_target ` set refs'"
      "rr_target ` set refs' \<subseteq> set (ss_scheduled st2)"
    unfolding scan_grows_def by blast
  have refs: "ss_resolved_references st2 = ss_resolved_references st @ (refs @ refs')" "ss_pending st2 = ss_pending st @ (targets @ targets')"
    using a(1,3) b(1,3) by simp_all
  have sources: "\<forall>r \<in> set (refs @ refs'). rr_source r = source" using a(2) b(2) unfolding set_append by blast
  have scheduled: "set (ss_scheduled st2) = set (ss_scheduled st) \<union> set (targets @ targets')" using a(6) b(6) by (simp add: Un_assoc)
  have fresh: "distinct (targets @ targets')" "set (targets @ targets') \<inter> set (ss_scheduled st) = {}"
    using a(4,5) b(4,5) unfolding a(6) by auto
  have targets: "set (targets @ targets') \<subseteq> rr_target ` set (refs @ refs')" "rr_target ` set (refs @ refs') \<subseteq> set (ss_scheduled st2)"
    using a(7,8) b(7,8) unfolding b(6) by auto
  have rest: "ss_documents st2 = ss_documents st" "ss_complete st2 = ss_complete st"
      "\<exists>issues. ss_raw_issues st2 = ss_raw_issues st @ issues"
      "sorted_wrt (<) (ss_scheduled st) \<longrightarrow> sorted_wrt (<) (ss_scheduled st2)"
    using one two unfolding scan_grows_def by (simp_all, force)
  show ?thesis unfolding scan_grows_def
    by (intro conjI exI [of _ "refs @ refs'"] exI [of _ "targets @ targets'"] refs sources fresh scheduled targets rest)
qed

lemma insort_strict: "sorted_wrt (<) xs \<Longrightarrow> x \<notin> set xs \<Longrightarrow> sorted_wrt (<) (insort x xs)" for x :: "'a :: linorder"
  by (simp add: strict_sorted_iff sorted_insort distinct_insort)

lemma follow_target_grows: "scan_grows source st (follow_target env manifest roots source classified edge target st)"
proof (cases target)
  case (Some t)
  let ?r = "\<lparr>rr_source = source, rr_target = t, rr_json_path = ed_json_path edge, rr_reference_role = ed_reference_role edge,
             rr_requested_version_state = ed_requested_version_state edge\<rparr>"
  show ?thesis
  proof (cases "t \<in> set (ss_scheduled st)")
    case True
    then have "scan_grows source st (st\<lparr>ss_resolved_references := ss_resolved_references st @ [?r]\<rparr>)"
      by (auto simp: scan_grows_def intro!: exI [of _ "[?r]"])
    then show ?thesis using Some True by (simp add: follow_target_def)
  next
    case False
    then have "scan_grows source st (st\<lparr>ss_resolved_references := ss_resolved_references st @ [?r],
        ss_scheduled := insort t (ss_scheduled st), ss_pending := ss_pending st @ [t]\<rparr>)"
      by (auto simp: scan_grows_def insort_strict set_insort_key intro!: exI [of _ "[?r]"])
    then show ?thesis using Some False by (simp add: follow_target_def)
  qed
qed (simp add: follow_target_def)

text \<open>What becomes of an extracted reference: an explicit reference to a parsable identity is recorded or reported as
  outside the provider universe; an omitted version is resolved, reported as outside or reported as omitted.\<close>

definition target_followed ::
  "closure_env \<Rightarrow> exact_dataset_identity \<Rightarrow> reference_edge \<Rightarrow> exact_dataset_identity \<Rightarrow> resolved_reference list \<Rightarrow> closure_issue list \<Rightarrow> bool" where
  "target_followed env source edge t refs issues \<longleftrightarrow>
     \<lparr>rr_source = source, rr_target = t, rr_json_path = ed_json_path edge, rr_reference_role = ed_reference_role edge,
      rr_requested_version_state = ed_requested_version_state edge\<rparr> \<in> set refs \<or>
     provider_outside_universe_issue env source t edge \<in> set issues"

definition edge_followed ::
  "closure_env \<Rightarrow> exact_dataset_identity \<Rightarrow> reference_edge \<Rightarrow> resolved_reference list \<Rightarrow> closure_issue list \<Rightarrow> bool" where
  "edge_followed env source edge refs issues \<longleftrightarrow>
     (\<forall>uuid version. ed_requested_version_state edge = ''explicit'' \<and> en_parse_uuid env (ed_target_uuid edge) = Some uuid \<and>
        ed_requested_version edge = Some version \<longrightarrow>
        (\<exists>category v. parse_category (ed_target_category edge) = Inr category \<and> normalize_exact_version version = Some v \<and>
           target_followed env source edge (Identity category uuid v) refs issues)) \<and>
     (ed_requested_version_state edge = ''omitted'' \<longrightarrow>
        (\<exists>t. target_followed env source edge t refs issues) \<or>
        omitted_version_issue env source edge (en_parse_uuid env (ed_target_uuid edge)) \<in> set issues)"

abbreviation target_followed_in where
  "target_followed_in env source edge t st \<equiv> target_followed env source edge t (ss_resolved_references st) (ss_raw_issues st)"

abbreviation edge_followed_in where
  "edge_followed_in env source edge st \<equiv> edge_followed env source edge (ss_resolved_references st) (ss_raw_issues st)"

lemma edge_followed_mono:
  assumes "edge_followed_in env source edge st" "set (ss_resolved_references st) \<subseteq> set (ss_resolved_references st')"
    "set (ss_raw_issues st) \<subseteq> set (ss_raw_issues st')"
  shows "edge_followed_in env source edge st'"
  using assms unfolding edge_followed_def target_followed_def by (meson subsetD)

lemma scan_grows_mono:
  assumes "scan_grows source st st'"
  shows "set (ss_resolved_references st) \<subseteq> set (ss_resolved_references st')" "set (ss_raw_issues st) \<subseteq> set (ss_raw_issues st')"
    "set (ss_scheduled st) \<subseteq> set (ss_scheduled st')"
  using assms unfolding scan_grows_def by auto

lemma follow_target_followed:
  "target = Some t \<Longrightarrow> target_followed_in env source edge t (follow_target env manifest roots source classified edge target st)"
  by (auto simp: follow_target_def target_followed_def Let_def)

lemma resolve_target_grows:
  assumes "resolve_target env pv manifest source edge category target_id (st, p) = Inr (target, st1, p1)"
  shows "scan_grows source st st1" "ss_raw_issues st1 = ss_raw_issues st"
  using assms by (auto simp: resolve_target_def scan_grows_def res_simps split: option.splits if_splits)

lemma resolve_target_explicit:
  assumes "resolve_target env pv manifest source edge category (Some uuid) (st, p) = Inr (target, st1, p1)"
    "ed_requested_version_state edge = ''explicit''" "ed_requested_version edge = Some version"
  shows "\<exists>v. normalize_exact_version version = Some v \<and> target = Some (Identity category uuid v)"
  using assms by (auto simp: resolve_target_def split: option.splits if_splits)

lemma scan_edge_step:
  assumes "scan_edge env jenv pv manifest roots source (st, p) edge = Inr (st', p')"
  shows "scan_grows source st st' \<and> edge_followed_in env source (snd (classified_edge edge)) st'"
proof -
  obtain classified edge' where ce: "classified_edge edge = (classified, edge')" by fastforce
  let ?target_id = "en_parse_uuid env (ed_target_uuid edge')"
  obtain category where cat: "parse_category (ed_target_category edge') = Inr category"
    by (cases "parse_category (ed_target_category edge')") (use assms in \<open>simp_all add: scan_edge_def ce Let_def\<close>)
  obtain target st1 p1 where res: "resolve_target env pv manifest source edge' category ?target_id (st, p) = Inr (target, st1, p1)"
    by (cases "resolve_target env pv manifest source edge' category ?target_id (st, p)")
       (use assms in \<open>auto simp: scan_edge_def ce Let_def cat\<close>)
  define st2 where "st2 = (if ed_requested_version_state edge' = ''omitted'' \<and> target = None
         then st1\<lparr>ss_raw_issues := ss_raw_issues st1 @ [omitted_version_issue env source edge' ?target_id]\<rparr> else st1)"
  define st3 where "st3 = follow_target env manifest roots source classified edge' target st2"
  obtain edges where "spool_append jenv (ss_edges st3) (edge_json edge') = Inr edges"
    by (cases "spool_append jenv (ss_edges st3) (edge_json edge')")
       (use assms res in \<open>auto simp: scan_edge_def ce Let_def cat st2_def st3_def\<close>)
  then have st3: "st' = st3\<lparr>ss_edges := edges\<rparr>"
    using assms res by (auto simp: scan_edge_def ce Let_def cat st2_def st3_def)
  have "scan_grows source st1 st2" by (simp add: st2_def)
  then have "scan_grows source st1 st3" unfolding st3_def using scan_grows_trans follow_target_grows by blast
  then have grows: "scan_grows source st st3" using scan_grows_trans resolve_target_grows(1) [OF res] by blast
  have followed: "target_followed_in env source edge' t st3" if "target = Some t" for t
    unfolding st3_def by (rule follow_target_followed [OF that])
  have issue: "omitted_version_issue env source edge' ?target_id \<in> set (ss_raw_issues st3)"
    if "ed_requested_version_state edge' = ''omitted''" "target = None"
    using that by (simp add: st3_def st2_def follow_target_def)
  have "edge_followed_in env source edge' st3"
    unfolding edge_followed_def
  proof (intro conjI allI impI)
    fix uuid version
    assume e: "ed_requested_version_state edge' = ''explicit'' \<and> en_parse_uuid env (ed_target_uuid edge') = Some uuid \<and>
        ed_requested_version edge' = Some version"
    then obtain v where v: "normalize_exact_version version = Some v" "target = Some (Identity category uuid v)"
      using resolve_target_explicit [of env pv manifest source edge' category uuid st p target st1 p1 version] res
      by auto
    then show "\<exists>category v. parse_category (ed_target_category edge') = Inr category \<and> normalize_exact_version version = Some v \<and>
           target_followed_in env source edge' (Identity category uuid v) st3"
      using cat followed by blast
  next
    assume "ed_requested_version_state edge' = ''omitted''"
    then show "(\<exists>t. target_followed_in env source edge' t st3) \<or>
        omitted_version_issue env source edge' (en_parse_uuid env (ed_target_uuid edge')) \<in> set (ss_raw_issues st3)"
      using followed issue by (cases target) auto
  qed
  then have "edge_followed_in env source edge' st'" by (rule edge_followed_mono) (simp_all add: st3)
  moreover have "scan_grows source st st'" using grows by (simp add: st3 scan_grows_def)
  ultimately show ?thesis by (simp add: ce)
qed

lemma scan_edges_step:
  assumes "try_fold (scan_edge env jenv pv manifest roots source) (st, p) edges = Inr (st', p')"
  shows "scan_grows source st st' \<and> (\<forall>e \<in> set edges. edge_followed_in env source (snd (classified_edge e)) st')"
  using assms
proof (induction edges arbitrary: st p)
  case (Cons e edges)
  from Cons.prems obtain st1 p1 where one: "scan_edge env jenv pv manifest roots source (st, p) e = Inr (st1, p1)"
      and rest: "try_fold (scan_edge env jenv pv manifest roots source) (st1, p1) edges = Inr (st', p')"
    by (auto simp: res_simps)
  note first = scan_edge_step [OF one] and others = Cons.IH [OF rest]
  have "edge_followed_in env source (snd (classified_edge e)) st'"
    using first others scan_grows_mono [of source st1 st'] by (blast intro: edge_followed_mono)
  then show ?case using first others scan_grows_trans by auto
qed simp

definition document_extraction :: "closure_env \<Rightarrow> closure_document \<Rightarrow> extraction_result" where
  "document_extraction env d =
     extract_scope_closure_references (en_parse_uuid env) (document_key env (dc_identity d)) (id_category (dc_identity d)) (dc_payload d)"

text \<open>All references of a document are followed and all issues of its extraction are reported.\<close>

definition document_followed :: "closure_env \<Rightarrow> closure_document \<Rightarrow> resolved_reference list \<Rightarrow> closure_issue list \<Rightarrow> bool" where
  "document_followed env d refs issues \<longleftrightarrow>
     (\<forall>e \<in> set (er_edges (document_extraction env d)). edge_followed env (dc_identity d) (snd (classified_edge e)) refs issues) \<and>
     extraction_issue env (dc_identity d) ` set (er_issues (document_extraction env d)) \<subseteq> set issues"

abbreviation document_followed_in where
  "document_followed_in env d st \<equiv> document_followed env d (ss_resolved_references st) (ss_raw_issues st)"

lemma document_followed_mono:
  assumes "document_followed_in env d st" "set (ss_resolved_references st) \<subseteq> set (ss_resolved_references st')"
    "set (ss_raw_issues st) \<subseteq> set (ss_raw_issues st')"
  shows "document_followed_in env d st'"
proof -
  have "edge_followed_in env (dc_identity d) (snd (classified_edge e)) st'" if "e \<in> set (er_edges (document_extraction env d))" for e
    by (rule edge_followed_mono [OF _ assms(2,3)]) (use assms(1) that in \<open>simp add: document_followed_def\<close>)
  moreover have "extraction_issue env (dc_identity d) ` set (er_issues (document_extraction env d)) \<subseteq> set (ss_raw_issues st')"
    by (rule subset_trans [OF _ assms(3)]) (use assms(1) in \<open>simp add: document_followed_def\<close>)
  ultimately show ?thesis by (simp add: document_followed_def)
qed

lemma scan_document_step:
  assumes "scan_document env jenv pv manifest roots (st, p) d = Inr (st', p')"
  shows "\<exists>st1 w. scan_grows (dc_identity d) st st1 \<and> document_followed_in env d st1 \<and>
    document_append env (ss_documents st) d = Inr w \<and> st' = st1\<lparr>ss_documents := w\<rparr>"
proof -
  let ?st = "st\<lparr>ss_raw_issues := ss_raw_issues st @ map (extraction_issue env (dc_identity d)) (er_issues (document_extraction env d))\<rparr>"
  from assms obtain st1 p1 w where
      edges: "try_fold (scan_edge env jenv pv manifest roots (dc_identity d)) (?st, p) (er_edges (document_extraction env d)) = Inr (st1, p1)"
    and w: "document_append env (ss_documents st1) d = Inr w" and st': "st' = st1\<lparr>ss_documents := w\<rparr>"
    unfolding scan_document_def document_extraction_def [symmetric] by (auto simp: Let_def res_simps document_extraction_def [symmetric])
  note step = scan_edges_step [OF edges]
  then have grows: "scan_grows (dc_identity d) st st1" using scan_grows_trans [OF scan_grows_issue] by blast
  have "set (ss_raw_issues ?st) \<subseteq> set (ss_raw_issues st1)" using step scan_grows_mono(2) by blast
  then have "document_followed_in env d st1" using step by (auto simp: document_followed_def)
  moreover have "ss_documents st1 = ss_documents st" using grows by (simp add: scan_grows_def)
  ultimately show ?thesis using grows w st' by auto
qed

section \<open>The spool keeps every document\<close>

text \<open>A record of the spool leads to the bytes of a document that satisfies \<open>good\<close>, with its hash.\<close>

definition record_of :: "closure_env \<Rightarrow> document_writer \<Rightarrow> document_record \<Rightarrow> closure_document \<Rightarrow> bool" where
  "record_of env w r d \<longleftrightarrow>
     dr_identity r = dc_identity d \<and> dr_canonical_content_hash r = payload_hash env (dc_payload d) \<and>
     record_bytes_at (document_finish w) r = Some (document_bytes env d)"

lemma document_append_step:
  assumes "document_append env w d = Inr w'" and size: "dw_byte_size w = length (dw_file w)" and sorted: "sorted_wrt (<) (map fst (dw_records w))"
  shows "dw_byte_size w' = length (dw_file w') \<and> sorted_wrt (<) (map fst (dw_records w')) \<and>
    (\<exists>r. record_of env w' r d \<and> set (dw_records w') = insert (dc_identity d, r) (set (dw_records w))) \<and>
    (\<forall>r d'. record_of env w r d' \<longrightarrow> record_of env w' r d')"
proof -
  let ?r = "\<lparr>dr_identity = dc_identity d, dr_canonical_content_hash = payload_hash env (dc_payload d),
             dr_offset = dw_byte_size w, dr_byte_size = length (document_bytes env d)\<rparr>"
  from assms(1) have fresh: "map_of (dw_records w) (dc_identity d) = None"
    and w': "w' = \<lparr>dw_file = dw_file w @ document_bytes env d, dw_records = insort_key fst (dc_identity d, ?r) (dw_records w),
                dw_byte_size = dw_byte_size w + length (document_bytes env d)\<rparr>"
    by (auto simp: document_append_def Let_def split: if_splits)
  from fresh have new: "dc_identity d \<notin> fst ` set (dw_records w)" by (simp add: map_of_eq_None_iff)
  have "record_of env w' ?r d" using size by (simp add: record_of_def record_bytes_at_def document_finish_def w')
  moreover have "set (dw_records w') = insert (dc_identity d, ?r) (set (dw_records w))" by (simp add: w' set_insort_key)
  moreover have "record_of env w' r d'" if "record_of env w r d'" for r d'
    using that by (auto simp: record_of_def record_bytes_at_def document_finish_def w' split: if_splits)
  moreover have "sorted_wrt (<) (map fst (dw_records w'))"
    using insort_key_strict [of fst "dw_records w" "(dc_identity d, ?r)"] sorted new by (simp add: w')
  ultimately show ?thesis using size by (auto simp: w')
qed

section \<open>The invariant of the collection\<close>

definition reachable :: "resolved_reference list \<Rightarrow> exact_dataset_identity list \<Rightarrow> exact_dataset_identity set" where
  "reachable refs roots = ((referenced_by refs)\<inverse>)\<^sup>* `` set roots"

lemma reachable_roots: "set roots \<subseteq> reachable refs roots"
  by (auto simp: reachable_def)

lemma reachable_step: "r \<in> set refs \<Longrightarrow> rr_source r \<in> reachable refs roots \<Longrightarrow> rr_target r \<in> reachable refs roots"
  unfolding reachable_def referenced_by_def by (auto intro: rtrancl_into_rtrancl)

lemma reachable_mono: "set refs \<subseteq> set refs' \<Longrightarrow> reachable refs roots \<subseteq> reachable refs' roots"
  unfolding reachable_def by (intro Image_mono rtrancl_mono) (auto simp: referenced_by_def)

lemma reachable_least:
  assumes "set roots \<subseteq> S" "\<And>r. r \<in> set refs \<Longrightarrow> rr_source r \<in> S \<Longrightarrow> rr_target r \<in> S"
  shows "reachable refs roots \<subseteq> S"
proof
  fix x assume "x \<in> reachable refs roots"
  then obtain root where "root \<in> set roots" "(root, x) \<in> ((referenced_by refs)\<inverse>)\<^sup>*" by (auto simp: reachable_def)
  from this(2) show "x \<in> S"
  proof (induction rule: rtrancl_induct)
    case base
    then show ?case using assms(1) \<open>root \<in> set roots\<close> by blast
  next
    case (step y z)
    then show ?case using assms(2) by (auto simp: referenced_by_def)
  qed
qed

lemma reachable_grows:
  assumes grows: "scan_grows source st st'" and all: "set (ss_scheduled st) = reachable (ss_resolved_references st) roots"
    and sources: "rr_source ` set (ss_resolved_references st) \<subseteq> set (ss_scheduled st)" and source: "source \<in> set (ss_scheduled st)"
  shows "set (ss_scheduled st') = reachable (ss_resolved_references st') roots"
proof -
  from grows obtain refs targets where refs: "ss_resolved_references st' = ss_resolved_references st @ refs" "\<forall>r \<in> set refs. rr_source r = source"
      "set (ss_scheduled st') = set (ss_scheduled st) \<union> set targets" "set targets \<subseteq> rr_target ` set refs"
      "rr_target ` set refs \<subseteq> set (ss_scheduled st')"
    unfolding scan_grows_def by blast
  have mono: "reachable (ss_resolved_references st) roots \<subseteq> reachable (ss_resolved_references st') roots"
    by (rule reachable_mono) (simp add: refs(1))
  have "rr_target r \<in> reachable (ss_resolved_references st') roots" if "r \<in> set refs" for r
    using that refs(1,2) source mono all by (intro reachable_step) auto
  then have le: "set (ss_scheduled st') \<subseteq> reachable (ss_resolved_references st') roots"
    using refs(3,4) mono all by blast
  have "reachable (ss_resolved_references st') roots \<subseteq> set (ss_scheduled st')"
  proof (rule reachable_least)
    show "set roots \<subseteq> set (ss_scheduled st')" using reachable_roots all refs(3) by blast
    fix r assume r: "r \<in> set (ss_resolved_references st')" "rr_source r \<in> set (ss_scheduled st')"
    show "rr_target r \<in> set (ss_scheduled st')"
    proof (cases "r \<in> set (ss_resolved_references st)")
      case True
      then have "rr_target r \<in> set (ss_scheduled st)" using sources all reachable_step by blast
      then show ?thesis using refs(3) by blast
    next
      case False
      then show ?thesis using r refs(1,5) by auto
    qed
  qed
  with le show ?thesis by blast
qed

text \<open>\<open>todo\<close> are the identities of the current batch that are still to be handled.\<close>

definition scan_inv ::
  "closure_env \<Rightarrow> (closure_document \<Rightarrow> bool) \<Rightarrow> exact_dataset_identity list \<Rightarrow> exact_dataset_identity list \<Rightarrow> scan_state \<Rightarrow> bool" where
  "scan_inv env good roots todo st \<longleftrightarrow>
     sorted_wrt (<) (ss_scheduled st) \<and> distinct (todo @ ss_pending st) \<and> set (todo @ ss_pending st) \<subseteq> set (ss_scheduled st) \<and>
     dw_byte_size (ss_documents st) = length (dw_file (ss_documents st)) \<and> sorted_wrt (<) (map fst (dw_records (ss_documents st))) \<and>
     fst ` set (dw_records (ss_documents st)) \<subseteq> set (ss_scheduled st) - set (todo @ ss_pending st) \<and>
     set (ss_scheduled st) = reachable (ss_resolved_references st) roots \<and>
     rr_source ` set (ss_resolved_references st) \<subseteq> fst ` set (dw_records (ss_documents st)) \<and>
     (\<forall>(i, r) \<in> set (dw_records (ss_documents st)).
        \<exists>d. dc_identity d = i \<and> good d \<and> record_of env (ss_documents st) r d \<and> document_followed_in env d st) \<and>
     (\<forall>i \<in> set (ss_scheduled st).
        i \<in> set (todo @ ss_pending st) \<or> i \<in> fst ` set (dw_records (ss_documents st)) \<or>
        (\<exists>explicit. missing_dataset_issue env i explicit \<in> set (ss_raw_issues st)) \<or> \<not> ss_complete st)"

lemma scan_invD:
  assumes "scan_inv env good roots todo st"
  shows "sorted_wrt (<) (ss_scheduled st)" "distinct (todo @ ss_pending st)" "set (todo @ ss_pending st) \<subseteq> set (ss_scheduled st)"
    "dw_byte_size (ss_documents st) = length (dw_file (ss_documents st))" "sorted_wrt (<) (map fst (dw_records (ss_documents st)))"
    "fst ` set (dw_records (ss_documents st)) \<subseteq> set (ss_scheduled st) - set (todo @ ss_pending st)"
    "set (ss_scheduled st) = reachable (ss_resolved_references st) roots"
    "rr_source ` set (ss_resolved_references st) \<subseteq> fst ` set (dw_records (ss_documents st))"
    "(i, r) \<in> set (dw_records (ss_documents st)) \<Longrightarrow>
       \<exists>d. dc_identity d = i \<and> good d \<and> record_of env (ss_documents st) r d \<and> document_followed_in env d st"
    "i \<in> set (ss_scheduled st) \<Longrightarrow>
       i \<in> set (todo @ ss_pending st) \<or> i \<in> fst ` set (dw_records (ss_documents st)) \<or>
       (\<exists>explicit. missing_dataset_issue env i explicit \<in> set (ss_raw_issues st)) \<or> \<not> ss_complete st"
  using assms unfolding scan_inv_def by (blast, blast, blast, blast, blast, blast, blast, blast, fast, blast)

lemma scan_document_inv:
  assumes step: "scan_document env jenv pv manifest roots (st, p) d = Inr (st', p')" and inv: "scan_inv env good roots (dc_identity d # todo) st"
    and good: "good d"
  shows "scan_inv env good roots todo st'"
proof -
  let ?x = "dc_identity d"
  obtain st1 w where grows: "scan_grows ?x st st1" and followed: "document_followed_in env d st1"
      and w: "document_append env (ss_documents st) d = Inr w" and st': "st' = st1\<lparr>ss_documents := w\<rparr>"
    using scan_document_step [OF step] by blast
  note inv = scan_invD [OF inv]
  from grows obtain refs targets where refs: "ss_resolved_references st1 = ss_resolved_references st @ refs" "\<forall>r \<in> set refs. rr_source r = ?x"
      and queue: "ss_pending st1 = ss_pending st @ targets" "distinct targets" "set targets \<inter> set (ss_scheduled st) = {}"
      "set (ss_scheduled st1) = set (ss_scheduled st) \<union> set targets"
    unfolding scan_grows_def by blast
  have size: "dw_byte_size (ss_documents st) = length (dw_file (ss_documents st))"
    and sorted: "sorted_wrt (<) (map fst (dw_records (ss_documents st)))" by (rule inv(4), rule inv(5))
  obtain r where r: "record_of env w r d" "set (dw_records w) = insert (?x, r) (set (dw_records (ss_documents st)))"
      and kept: "\<forall>r d'. record_of env (ss_documents st) r d' \<longrightarrow> record_of env w r d'"
      and spool: "dw_byte_size w = length (dw_file w)" "sorted_wrt (<) (map fst (dw_records w))"
    using document_append_step [OF w size sorted] by blast
  have x: "?x \<in> set (ss_scheduled st)" using inv(3) by simp
  have sched: "sorted_wrt (<) (ss_scheduled st1)" using inv(1) grows by (simp add: scan_grows_def)
  have sources: "rr_source ` set (ss_resolved_references st) \<subseteq> set (ss_scheduled st)" using inv(6,8) by blast
  have reach: "set (ss_scheduled st1) = reachable (ss_resolved_references st1) roots"
    by (rule reachable_grows [OF grows inv(7) sources x])
  have queued: "distinct (todo @ ss_pending st1)" "set (todo @ ss_pending st1) \<subseteq> set (ss_scheduled st1)"
    using inv(2,3) queue by auto
  have docs: "fst ` set (dw_records w) \<subseteq> set (ss_scheduled st1) - set (todo @ ss_pending st1)"
    using inv(2,3,6) queue r(2) by auto
  have srcs: "rr_source ` set (ss_resolved_references st1) \<subseteq> fst ` set (dw_records w)"
    using inv(8) refs unfolding r(2) by auto
  have recorded: "\<exists>d'. dc_identity d' = i \<and> good d' \<and> record_of env w r' d' \<and> document_followed_in env d' st'"
    if "(i, r') \<in> set (dw_records w)" for i r'
  proof (cases "(i, r') = (?x, r)")
    case True
    have "document_followed_in env d st'" by (rule document_followed_mono [OF followed]) (simp_all add: st')
    then show ?thesis using True r(1) good by blast
  next
    case False
    then have "(i, r') \<in> set (dw_records (ss_documents st))" using that r(2) by blast
    then obtain d' where d': "dc_identity d' = i" "good d'" "record_of env (ss_documents st) r' d'" "document_followed_in env d' st"
      using inv(9) by blast
    have "document_followed_in env d' st'"
      by (rule document_followed_mono [OF d'(4)]) (use scan_grows_mono [OF grows] in \<open>simp_all add: st'\<close>)
    then show ?thesis using d' kept by blast
  qed
  have accounted: "i \<in> set (todo @ ss_pending st1) \<or> i \<in> fst ` set (dw_records w) \<or>
      (\<exists>explicit. missing_dataset_issue env i explicit \<in> set (ss_raw_issues st1)) \<or> \<not> ss_complete st1"
    if i: "i \<in> set (ss_scheduled st1)" for i
  proof (cases "i \<in> set targets \<or> i = ?x")
    case True
    then show ?thesis using queue(1) r(2) by auto
  next
    case False
    then have "i \<in> set (ss_scheduled st)" using i queue(4) by blast
    then have "i \<in> set ((?x # todo) @ ss_pending st) \<or> i \<in> fst ` set (dw_records (ss_documents st)) \<or>
        (\<exists>explicit. missing_dataset_issue env i explicit \<in> set (ss_raw_issues st)) \<or> \<not> ss_complete st"
      by (rule inv(10))
    moreover have "set (ss_raw_issues st) \<subseteq> set (ss_raw_issues st1)" "ss_complete st1 = ss_complete st"
      using grows scan_grows_mono(2) by (auto simp: scan_grows_def)
    ultimately show ?thesis using False queue(1) r(2) by auto
  qed
  show ?thesis unfolding scan_inv_def
    by (intro conjI ballI) (use sched queued spool docs reach srcs recorded accounted in \<open>auto simp: st'\<close>)
qed

lemma scan_document_complete:
  "scan_document env jenv pv manifest roots (st, p) d = Inr (st', p') \<Longrightarrow> ss_complete st' = ss_complete st"
  using scan_document_step by (fastforce simp: scan_grows_def)

text \<open>The documents of a fetch, by identity.\<close>

definition fetched_ok :: "(closure_document \<Rightarrow> bool) \<Rightarrow> (exact_dataset_identity \<times> closure_document) list \<Rightarrow> bool" where
  "fetched_ok good fetched \<longleftrightarrow> (\<forall>i d. map_of fetched i = Some d \<longrightarrow> dc_identity d = i \<and> good d)"

lemma fetched_okD: "fetched_ok good fetched \<Longrightarrow> map_of fetched i = Some d \<Longrightarrow> dc_identity d = i \<and> good d"
  by (simp add: fetched_ok_def)

lemma fetched_ok_delete: "fetched_ok good fetched \<Longrightarrow> fetched_ok good (AList.delete k fetched)"
  using map_of_delete_Some unfolding fetched_ok_def by metis

lemma fetched_ok_collect: "(\<And>d. d \<in> set ds \<Longrightarrow> good d) \<Longrightarrow> fetched_ok good (collect_map dc_identity ds)"
  using collect_map_key unfolding fetched_ok_def by metis

lemma scan_requested_inv:
  assumes step: "scan_requested env jenv pv manifest roots incomplete (fetched, st, p) x = Inr (fetched', st', p')"
    and inv: "scan_inv env good roots (x # todo) st" and ok: "fetched_ok good fetched" and incomplete: "incomplete \<noteq> [] \<longrightarrow> \<not> ss_complete st"
  shows "scan_inv env good roots todo st' \<and> fetched_ok good fetched' \<and> (incomplete \<noteq> [] \<longrightarrow> \<not> ss_complete st')"
proof (cases "map_of fetched x")
  case (Some d)
  note d = fetched_okD [OF ok Some]
  from step Some obtain p1 where scan: "scan_document env jenv pv manifest roots (st, p) d = Inr (st', p1)"
      and f: "fetched' = AList.delete x fetched"
    by (auto simp: scan_requested_def res_simps)
  have "scan_inv env good roots todo st'" by (rule scan_document_inv [OF scan]) (use inv d in simp_all)
  then show ?thesis using scan_document_complete [OF scan] incomplete fetched_ok_delete [OF ok] f by simp
next
  case None
  define explicit where "explicit = list_ex (\<lambda>r. rr_target r = x \<and> rr_requested_version_state r = ''explicit'') (ss_resolved_references st)"
  from step None have f: "fetched' = fetched" and st': "st' = (if x \<in> set incomplete then st
      else st\<lparr>ss_raw_issues := ss_raw_issues st @ [missing_dataset_issue env x explicit]\<rparr>)"
    by (auto simp: scan_requested_def explicit_def)
  have same: "ss_scheduled st' = ss_scheduled st" "ss_pending st' = ss_pending st" "ss_documents st' = ss_documents st"
      "ss_complete st' = ss_complete st" "ss_resolved_references st' = ss_resolved_references st"
      "set (ss_raw_issues st) \<subseteq> set (ss_raw_issues st')"
    by (auto simp: st')
  note inv = scan_invD [OF inv]
  have x: "missing_dataset_issue env x explicit \<in> set (ss_raw_issues st') \<or> \<not> ss_complete st'"
    using incomplete by (auto simp: st')
  have recorded: "\<exists>d. dc_identity d = i \<and> good d \<and> record_of env (ss_documents st') r d \<and> document_followed_in env d st'"
    if rec: "(i, r) \<in> set (dw_records (ss_documents st'))" for i r
  proof -
    obtain d where d: "dc_identity d = i" "good d" "record_of env (ss_documents st) r d" "document_followed_in env d st"
      using inv(9) [OF rec [unfolded same(3)]] by blast
    have "document_followed_in env d st'" by (rule document_followed_mono [OF d(4)]) (simp_all add: same)
    with d show ?thesis by (auto simp: same(3))
  qed
  have accounted: "i \<in> set (todo @ ss_pending st') \<or> i \<in> fst ` set (dw_records (ss_documents st')) \<or>
      (\<exists>explicit. missing_dataset_issue env i explicit \<in> set (ss_raw_issues st')) \<or> \<not> ss_complete st'"
    if i: "i \<in> set (ss_scheduled st')" for i
  proof (cases "i = x")
    case True
    then show ?thesis using x by blast
  next
    case False
    moreover have "i \<in> set ((x # todo) @ ss_pending st) \<or> i \<in> fst ` set (dw_records (ss_documents st)) \<or>
        (\<exists>explicit. missing_dataset_issue env i explicit \<in> set (ss_raw_issues st)) \<or> \<not> ss_complete st"
      using i unfolding same(1) by (rule inv(10))
    ultimately show ?thesis using same(6) unfolding same(2-4) by auto
  qed
  have "scan_inv env good roots todo st'" unfolding scan_inv_def
    by (intro conjI ballI) (use inv(1-8) recorded accounted in \<open>auto simp: same(1-5)\<close>)
  then show ?thesis using ok incomplete f same(4) by simp
qed

lemma scan_batch_inv:
  assumes "try_fold (scan_requested env jenv pv manifest roots incomplete) (fetched, st, p) todo = Inr (fetched', st', p')"
    and "scan_inv env good roots todo st" "fetched_ok good fetched" "incomplete \<noteq> [] \<longrightarrow> \<not> ss_complete st"
  shows "scan_inv env good roots [] st'"
  using assms
proof (induction todo arbitrary: fetched st p)
  case (Cons x todo)
  from Cons.prems(1) obtain fetched1 st1 p1 where
      one: "scan_requested env jenv pv manifest roots incomplete (fetched, st, p) x = Inr (fetched1, st1, p1)"
    and rest: "try_fold (scan_requested env jenv pv manifest roots incomplete) (fetched1, st1, p1) todo = Inr (fetched', st', p')"
    by (auto simp: res_simps)
  note step = scan_requested_inv [OF one Cons.prems(2-4)]
  then show ?case by (intro Cons.IH [OF rest]) blast+
qed simp

lemma scan_turn_parts:
  assumes "scan_turn env jenv pv manifest roots (st, p) = Inr (st', p')"
  obtains p1 fetched p2 fetched' where "sp_fetch_exact pv (take FETCH_BATCH_SIZE (ss_pending st)) p1 = Inr (fetched, p2)"
    "try_fold (scan_requested env jenv pv manifest roots (fr_incomplete_identities fetched))
       (collect_map dc_identity (fr_documents fetched),
        st\<lparr>ss_pending := drop FETCH_BATCH_SIZE (ss_pending st),
           ss_complete := (if fr_incomplete_identities fetched = [] then ss_complete st else False),
           ss_raw_issues := ss_raw_issues st @ fr_issues fetched\<rparr>, p2) (take FETCH_BATCH_SIZE (ss_pending st)) = Inr (fetched', st', p')"
  using assms unfolding scan_turn_def by (auto simp: Let_def res_simps cong: if_cong)

lemma scan_inv_batch:
  assumes inv: "scan_inv env good roots [] st"
  shows "scan_inv env good roots (take n (ss_pending st))
    (st\<lparr>ss_pending := drop n (ss_pending st), ss_complete := (if none then ss_complete st else False), ss_raw_issues := ss_raw_issues st @ issues\<rparr>)"
    (is "scan_inv _ _ _ _ ?st")
proof -
  note inv = scan_invD [OF inv]
  have pending: "set (ss_pending st) = set (take n (ss_pending st)) \<union> set (drop n (ss_pending st))"
    by (simp flip: set_append)
  have "\<exists>d. dc_identity d = i \<and> good d \<and> record_of env (ss_documents ?st) r d \<and> document_followed_in env d ?st"
    if "(i, r) \<in> set (dw_records (ss_documents ?st))" for i r
  proof -
    have "(i, r) \<in> set (dw_records (ss_documents st))" using that by simp
    from inv(9) [OF this] obtain d where d: "dc_identity d = i" "good d" "record_of env (ss_documents st) r d" "document_followed_in env d st"
      by blast
    have "document_followed_in env d ?st" by (rule document_followed_mono [OF d(4)]) simp_all
    with d show ?thesis by auto
  qed
  moreover have "i \<in> set (take n (ss_pending st) @ ss_pending ?st) \<or> i \<in> fst ` set (dw_records (ss_documents ?st)) \<or>
       (\<exists>explicit. missing_dataset_issue env i explicit \<in> set (ss_raw_issues ?st)) \<or> \<not> ss_complete ?st"
    if "i \<in> set (ss_scheduled ?st)" for i
    using inv(10) [of i] that pending by auto
  ultimately show ?thesis unfolding scan_inv_def
    by (intro conjI ballI) (use inv(1-8) pending distinct_append [of "take n (ss_pending st)" "drop n (ss_pending st)"] in \<open>auto\<close>)
qed

text \<open>How a step changes the queue: it appends identities that were not scheduled before.\<close>

definition queue_grows :: "scan_state \<Rightarrow> exact_dataset_identity list \<Rightarrow> scan_state \<Rightarrow> bool" where
  "queue_grows st targets st' \<longleftrightarrow>
     ss_pending st' = ss_pending st @ targets \<and> set targets \<inter> set (ss_scheduled st) = {} \<and>
     set (ss_scheduled st') = set (ss_scheduled st) \<union> set targets"

lemma queue_grows_trans: "queue_grows st ts st1 \<Longrightarrow> queue_grows st1 ts' st2 \<Longrightarrow> queue_grows st (ts @ ts') st2"
  by (auto simp: queue_grows_def)

lemma scan_requested_queue:
  assumes "scan_requested env jenv pv manifest roots incomplete (fetched, st, p) x = Inr (fetched', st', p')"
  shows "\<exists>ts. queue_grows st ts st' \<and> (map_of fetched x = None \<longrightarrow> ts = [])"
    and "map_of fetched' i = Some d \<Longrightarrow> map_of fetched i = Some d"
proof -
  show "\<exists>ts. queue_grows st ts st' \<and> (map_of fetched x = None \<longrightarrow> ts = [])"
  proof (cases "map_of fetched x")
    case None
    with assms have "queue_grows st [] st'" by (auto simp: scan_requested_def queue_grows_def split: if_splits)
    then show ?thesis by blast
  next
    case (Some d)
    with assms obtain p1 where "scan_document env jenv pv manifest roots (st, p) d = Inr (st', p1)"
      by (auto simp: scan_requested_def res_simps)
    from scan_document_step [OF this] obtain st1 w where "scan_grows (dc_identity d) st st1" "st' = st1\<lparr>ss_documents := w\<rparr>" by blast
    moreover from this(1) obtain ts where "ss_pending st1 = ss_pending st @ ts" "set ts \<inter> set (ss_scheduled st) = {}"
        "set (ss_scheduled st1) = set (ss_scheduled st) \<union> set ts"
      unfolding scan_grows_def by blast
    ultimately have "queue_grows st ts st'" by (simp add: queue_grows_def)
    then show ?thesis using Some by (intro exI [of _ ts]) simp
  qed
  show "map_of fetched i = Some d" if "map_of fetched' i = Some d"
  proof (cases "map_of fetched x")
    case None
    with assms that show ?thesis by (simp add: scan_requested_def)
  next
    case (Some d')
    with assms have "fetched' = AList.delete x fetched" by (auto simp: scan_requested_def res_simps)
    then show ?thesis using that map_of_delete_Some by metis
  qed
qed

lemma scan_batch_queue:
  assumes "try_fold (scan_requested env jenv pv manifest roots incomplete) (fetched, st, p) todo = Inr (fetched', st', p')"
  shows "\<exists>ts. queue_grows st ts st' \<and> ((\<forall>x \<in> set todo. map_of fetched x = None) \<longrightarrow> ts = [])"
  using assms
proof (induction todo arbitrary: fetched st p)
  case Nil
  then show ?case by (auto simp: queue_grows_def)
next
  case (Cons x todo)
  from Cons.prems obtain fetched1 st1 p1 where
      one: "scan_requested env jenv pv manifest roots incomplete (fetched, st, p) x = Inr (fetched1, st1, p1)"
    and rest: "try_fold (scan_requested env jenv pv manifest roots incomplete) (fetched1, st1, p1) todo = Inr (fetched', st', p')"
    by (auto simp: res_simps)
  from scan_requested_queue(1) [OF one] obtain ts where ts: "queue_grows st ts st1" "map_of fetched x = None \<longrightarrow> ts = []"
    by (elim exE conjE)
  from Cons.IH [OF rest] obtain ts' where ts': "queue_grows st1 ts' st'" "(\<forall>x \<in> set todo. map_of fetched1 x = None) \<longrightarrow> ts' = []"
    by (elim exE conjE)
  have "map_of fetched1 y = None" if "map_of fetched y = None" for y
  proof (rule ccontr)
    assume "map_of fetched1 y \<noteq> None"
    then obtain d where "map_of fetched1 y = Some d" by blast
    from scan_requested_queue(2) [OF one this] show False using that by simp
  qed
  then have "(\<forall>x \<in> set (x # todo). map_of fetched x = None) \<longrightarrow> ts @ ts' = []" using ts(2) ts'(2) by simp
  then show ?case using queue_grows_trans [OF ts(1) ts'(1)] by (intro exI [of _ "ts @ ts'"] conjI)
qed

section \<open>Providers\<close>

text \<open>A provider all of whose documents satisfy \<open>good\<close>.\<close>

locale document_provider =
  fixes pv :: "'s scan_provider" and good :: "closure_document \<Rightarrow> bool"
  assumes fetched_good: "sp_fetch_exact pv ids p = Inr (r, p') \<Longrightarrow> d \<in> set (fr_documents r) \<Longrightarrow> good d"
begin

lemma scan_turn_inv:
  assumes "scan_turn env jenv pv manifest roots (st, p) = Inr (st', p')" "scan_inv env good roots [] st"
  shows "scan_inv env good roots [] st'"
  using assms(1)
proof (rule scan_turn_parts)
  fix p1 p2 fetched' and fetched :: fetch_result
  let ?batch = "take FETCH_BATCH_SIZE (ss_pending st)"
  let ?st = "st\<lparr>ss_pending := drop FETCH_BATCH_SIZE (ss_pending st),
           ss_complete := (if fr_incomplete_identities fetched = [] then ss_complete st else False),
           ss_raw_issues := ss_raw_issues st @ fr_issues fetched\<rparr>"
  assume fetch: "sp_fetch_exact pv ?batch p1 = Inr (fetched, p2)"
    and fold: "try_fold (scan_requested env jenv pv manifest roots (fr_incomplete_identities fetched))
       (collect_map dc_identity (fr_documents fetched), ?st, p2) ?batch = Inr (fetched', st', p')"
  show ?thesis
  proof (rule scan_batch_inv [OF fold])
    show "scan_inv env good roots ?batch ?st" by (rule scan_inv_batch [OF assms(2)])
    show "fetched_ok good (collect_map dc_identity (fr_documents fetched))"
      by (rule fetched_ok_collect) (rule fetched_good [OF fetch])
  qed simp
qed

lemma scan_turn_queue:
  assumes "scan_turn env jenv pv manifest roots (st, p) = Inr (st', p')"
  shows "\<exists>ts. queue_grows (st\<lparr>ss_pending := drop FETCH_BATCH_SIZE (ss_pending st)\<rparr>) ts st' \<and>
    ((\<forall>x \<in> set (take FETCH_BATCH_SIZE (ss_pending st)). x \<notin> dc_identity ` Collect good) \<longrightarrow> ts = [])"
  using assms
proof (rule scan_turn_parts)
  fix p1 p2 fetched' and fetched :: fetch_result
  let ?batch = "take FETCH_BATCH_SIZE (ss_pending st)"
  let ?st = "st\<lparr>ss_pending := drop FETCH_BATCH_SIZE (ss_pending st),
           ss_complete := (if fr_incomplete_identities fetched = [] then ss_complete st else False),
           ss_raw_issues := ss_raw_issues st @ fr_issues fetched\<rparr>"
  assume fetch: "sp_fetch_exact pv ?batch p1 = Inr (fetched, p2)"
    and fold: "try_fold (scan_requested env jenv pv manifest roots (fr_incomplete_identities fetched))
       (collect_map dc_identity (fr_documents fetched), ?st, p2) ?batch = Inr (fetched', st', p')"
  have none: "map_of (collect_map dc_identity (fr_documents fetched)) x = None" if "x \<notin> dc_identity ` Collect good" for x
  proof (rule ccontr)
    assume "map_of (collect_map dc_identity (fr_documents fetched)) x \<noteq> None"
    then obtain d where "map_of (collect_map dc_identity (fr_documents fetched)) x = Some d" by blast
    from collect_map_key [OF this] show False using that fetched_good [OF fetch] by blast
  qed
  obtain ts where "queue_grows ?st ts st'" "(\<forall>x \<in> set ?batch. map_of (collect_map dc_identity (fr_documents fetched)) x = None) \<longrightarrow> ts = []"
    using scan_batch_queue [OF fold] by (elim exE conjE)
  then show ?thesis using none by (auto simp: queue_grows_def)
qed

lemma scan_loop_inv:
  assumes "scan_loop env jenv pv manifest roots s = Some (Inr t)" "scan_inv env good roots [] (fst s)"
  shows "scan_inv env good roots [] (fst t) \<and> ss_pending (fst t) = []"
proof -
  let ?P = "\<lambda>env (jenv :: jsonl_env) pv' (manifest :: requested_scope_manifest) roots s res. pv' = pv \<longrightarrow> scan_inv env good roots [] (fst s) \<longrightarrow>
    (\<forall>t. res = (Inr t :: scan_error + scan_state \<times> 's) \<longrightarrow> scan_inv env good roots [] (fst t) \<and> ss_pending (fst t) = [])"
  have "?P env jenv pv manifest roots s (Inr t)"
  proof (rule scan_loop.raw_induct [of ?P, OF _ assms(1)])
    fix loop env jenv and pv' :: "'s scan_provider" and manifest roots and s :: "scan_state \<times> 's" and res
    assume IH: "\<And>env jenv pv' manifest roots s res. loop env jenv pv' manifest roots s = Some res \<Longrightarrow> ?P env jenv pv' manifest roots s res"
      and body: "(if ss_pending (fst s) = [] then Some (Inr s)
        else case scan_turn env jenv pv' manifest roots s of Inl e \<Rightarrow> Some (Inl e)
             | Inr s \<Rightarrow> loop env jenv pv' manifest roots s) = Some res"
    show "?P env jenv pv' manifest roots s res"
    proof (cases "ss_pending (fst s) = []")
      case True
      then show ?thesis using body by auto
    next
      case False
      obtain st p where s: "s = (st, p)" by fastforce
      show ?thesis
      proof (cases "scan_turn env jenv pv' manifest roots s")
        case (Inl e)
        then show ?thesis using body False by auto
      next
        case (Inr s')
        obtain st' p' where s': "s' = (st', p')" by fastforce
        have "loop env jenv pv' manifest roots s' = Some res" using body False Inr by simp
        from IH [OF this] show ?thesis using scan_turn_inv [of env jenv manifest roots st p st' p'] Inr s s' by auto
      qed
    qed
  qed
  then show ?thesis using assms by blast
qed

end

text \<open>A provider with documents for finitely many identities only: the collection ends.\<close>

locale bounded_provider = document_provider +
  assumes finite_universe: "finite (dc_identity ` Collect good)"
begin

definition outstanding :: "scan_state \<Rightarrow> exact_dataset_identity set" where
  "outstanding st = dc_identity ` Collect good - (set (ss_scheduled st) - set (ss_pending st))"

lemma scan_turn_decreases:
  assumes turn: "scan_turn env jenv pv manifest roots (st, p) = Inr (st', p')" and inv: "scan_inv env good roots [] st"
    and pending: "ss_pending st \<noteq> []"
  shows "((card (outstanding st'), length (ss_pending st')), (card (outstanding st), length (ss_pending st))) \<in> less_than <*lex*> less_than"
proof -
  let ?batch = "take FETCH_BATCH_SIZE (ss_pending st)" and ?rest = "drop FETCH_BATCH_SIZE (ss_pending st)"
  obtain ts where ts: "queue_grows (st\<lparr>ss_pending := ?rest\<rparr>) ts st'"
      "(\<forall>x \<in> set ?batch. x \<notin> dc_identity ` Collect good) \<longrightarrow> ts = []"
    using scan_turn_queue [OF turn] by (elim exE conjE)
  have st': "ss_pending st' = ?rest @ ts" "set ts \<inter> set (ss_scheduled st) = {}" "set (ss_scheduled st') = set (ss_scheduled st) \<union> set ts"
    using ts(1) by (simp_all add: queue_grows_def)
  have split: "set (ss_pending st) = set ?batch \<union> set ?rest" "set ?batch \<inter> set ?rest = {}" "set (ss_pending st) \<subseteq> set (ss_scheduled st)"
    using scan_invD(2,3) [OF inv] by (simp_all flip: set_append add: set_take_disj_set_drop_if_distinct)
  have outstanding: "outstanding st' = outstanding st - set ?batch"
    using split st' unfolding outstanding_def by auto
  have fin: "finite (outstanding st)" using finite_universe by (simp add: outstanding_def)
  show ?thesis
  proof (cases "\<exists>x \<in> set ?batch. x \<in> dc_identity ` Collect good")
    case True
    then obtain x where "x \<in> set ?batch" "x \<in> outstanding st" using split by (auto simp: outstanding_def)
    then have "outstanding st' \<subset> outstanding st" unfolding outstanding by blast
    then have "card (outstanding st') < card (outstanding st)" by (rule psubset_card_mono [OF fin])
    then show ?thesis by simp
  next
    case False
    then have "ts = []" using ts(2) by blast
    then have "length (ss_pending st') < length (ss_pending st)" using st'(1) pending by (simp add: FETCH_BATCH_SIZE_def)
    moreover have "card (outstanding st') \<le> card (outstanding st)" unfolding outstanding by (rule card_mono [OF fin]) blast
    ultimately show ?thesis by auto
  qed
qed

lemma scan_loop_returns:
  assumes "scan_inv env good roots [] (fst s)"
  shows "\<exists>result. scan_loop env jenv pv manifest roots s = Some result"
proof -
  have "wf (inv_image (less_than <*lex*> less_than) (\<lambda>s. (card (outstanding (fst s)), length (ss_pending (fst s)))) :: ((scan_state \<times> 's) \<times> scan_state \<times> 's) set)"
    by (intro wf_inv_image wf_lex_prod) auto
  then show ?thesis using assms
  proof (induction s rule: wf_induct_rule)
    case (less s)
    obtain st p where s: "s = (st, p)" by fastforce
    show ?case
    proof (cases "ss_pending st = [] \<or> (\<exists>e. scan_turn env jenv pv manifest roots s = Inl e)")
      case True
      then show ?thesis by (auto simp: scan_loop.simps s)
    next
      case False
      then obtain st' p' where turn: "scan_turn env jenv pv manifest roots (st, p) = Inr (st', p')"
        by (cases "scan_turn env jenv pv manifest roots s") (auto simp: s)
      have "\<exists>result. scan_loop env jenv pv manifest roots (st', p') = Some result"
        using scan_turn_decreases [OF turn] scan_turn_inv [OF turn] less.prems False by (intro less.IH) (auto simp: s)
      then show ?thesis using False turn by (subst scan_loop.simps) (simp add: s)
    qed
  qed
qed

end

section \<open>The whole collection\<close>

lemma manifest_roots_strict: "sorted_wrt (<) (manifest_roots manifest)"
  unfolding manifest_roots_def by (rule sorted_remdups_adj) simp

lemma scan_start_inv:
  assumes "sorted_wrt (<) roots"
  shows "scan_inv env good roots [] (scan_start roots)"
proof -
  have "reachable [] roots = set roots" by (auto simp: reachable_def referenced_by_def)
  then show ?thesis using assms by (simp add: scan_inv_def scan_start_def document_writer_new_def strict_sorted_iff)
qed

lemma coalesce_keys: "ci_issue_key ` set (coalesce_issues issues) = ci_issue_key ` set issues"
proof -
  let ?out = "foldl coalesce_issue_into [] issues"
  note wf = coalesce_fold [of issues, unfolded coalesced_wf_def]
  have "distinct (map fst ?out)" using wf by (simp add: strict_sorted_iff)
  then have "ci_issue_key c = k" if "(k, c) \<in> set ?out" for k c using wf that by (auto simp: map_of_eq_Some_iff)
  then have "map ci_issue_key (coalesce_issues issues) = map fst ?out" unfolding coalesce_issues_eq by auto
  then have "ci_issue_key ` set (coalesce_issues issues) = fst ` set ?out" by (metis list.set_map)
  then show ?thesis using wf by simp
qed

lemma attach_keys: "ci_issue_key ` set (attach_reference_occurrences env refs issues) = ci_issue_key ` set issues"
proof -
  have "ci_issue_key (attach_issue_occurrences env refs i) = ci_issue_key i" for i
    by (auto simp: attach_issue_occurrences_def Let_def split: option.splits)
  then show ?thesis by (auto simp: attach_reference_occurrences_def image_image)
qed

lemma roots_batch_keys:
  assumes "from_references refs roots = Inr g" "compute_affected_roots_batch roots g issues = Inr issues'"
  shows "ci_issue_key ` set issues' = ci_issue_key ` set issues"
proof -
  have "list_all2 (roots_reported refs roots g) issues issues'"
    using issue_affected_roots_fold [OF assms(1) refl, of "[]" "[]" issues] assms(2) by (auto simp: compute_affected_roots_batch_def)
  then have "map ci_issue_key issues' = map ci_issue_key issues"
  proof (induction rule: list_all2_induct)
    case (Cons i issues i' issues')
    then have "ci_issue_key (without_roots i') = ci_issue_key (without_roots i)" by (simp add: roots_reported_def)
    then show ?case using Cons by (simp add: without_roots_def)
  qed simp
  then show ?thesis by (metis list.set_map)
qed

lemma finalize_parts:
  assumes "finalize_scope_closure_scan env jenv roots st = Inr scan"
  defines "refs \<equiv> sort_key reference_key (ss_resolved_references st)"
  shows "sc_complete scan = ss_complete st" "sc_provider_universe scan = ss_scheduled st" "sc_roots scan = roots"
    "sc_documents scan = document_finish (ss_documents st)" "from_references refs roots = Inr (sc_reference_graph scan)"
    "ci_issue_key ` set (sc_issues scan) = ci_issue_key ` set (ss_raw_issues st)"
    "vs_file (sc_resolved_references scan) = run_file (map (write_canonical_json (je_string_text jenv) \<circ> reference_json env) refs)"
proof -
  from assms(1) obtain edges graph issues writer where graph: "from_references refs roots = Inr graph"
      and issues: "compute_affected_roots_batch roots graph (coalesce_issues (attach_reference_occurrences env refs (ss_raw_issues st))) = Inr issues"
      and writer: "try_fold (\<lambda>w r. spool_append jenv w (reference_json env r)) spool_writer_new refs = Inr writer"
      and scan: "scan = \<lparr>sc_schema_version = ''lcia.scope-closure-scan.v1'', sc_complete = ss_complete st, sc_roots = roots,
          sc_documents = document_finish (ss_documents st), sc_edges = edges, sc_resolved_references = spool_finish jenv writer,
          sc_omitted_version_resolutions = sort_key (write_canonical_json (en_string_text env)) (ss_omitted st),
          sc_issues = sort_key ci_issue_key issues, sc_frontier = [],
          sc_provider_universe = ss_scheduled st, sc_reference_graph = graph, sc_tidas_issue_event_count = 0\<rparr>"
    unfolding finalize_scope_closure_scan_def by (auto simp: Let_def res_simps refs_def)
  show "sc_complete scan = ss_complete st" "sc_provider_universe scan = ss_scheduled st" "sc_roots scan = roots"
    "sc_documents scan = document_finish (ss_documents st)" "from_references refs roots = Inr (sc_reference_graph scan)"
    using graph by (simp_all add: scan)
  show "ci_issue_key ` set (sc_issues scan) = ci_issue_key ` set (ss_raw_issues st)"
    using roots_batch_keys [OF graph issues] by (simp add: scan coalesce_keys attach_keys)
  have "try_fold append_canonical_bytes spool_writer_new (map (write_canonical_json (je_string_text jenv) \<circ> reference_json env) refs) = Inr writer"
    using writer by (simp add: try_fold_map spool_append_def)
  from append_lines [OF this] show "vs_file (sc_resolved_references scan) = run_file (map (write_canonical_json (je_string_text jenv) \<circ> reference_json env) refs)"
    by (simp add: scan spool_finish_def spool_writer_new_def)
qed

lemma collect_parts:
  assumes "collect_scope_closure env jenv pv manifest p = Some (Inr (scan, p'))"
  obtains st p1 where "scan_loop env jenv pv manifest (manifest_roots manifest) (scan_start (manifest_roots manifest), p) = Some (Inr (st, p1))"
    "finalize_scope_closure_scan env jenv (manifest_roots manifest) st = Inr scan"
  using assms unfolding collect_scope_closure_def by (auto simp: Let_def res_simps split: option.splits sum.splits prod.splits)

text \<open>What a returned scan accounts for, with the references and issues it was built from.\<close>

definition closure_accounted ::
  "closure_env \<Rightarrow> (closure_document \<Rightarrow> bool) \<Rightarrow> resolved_reference list \<Rightarrow> closure_issue list \<Rightarrow> scope_closure_scan \<Rightarrow> bool" where
  "closure_accounted env good refs issues scan \<longleftrightarrow>
     sorted_wrt (<) (sc_provider_universe scan) \<and> set (sc_provider_universe scan) = reachable refs (sc_roots scan) \<and>
     (\<forall>i \<in> set (sc_provider_universe scan).
        i \<in> dr_identity ` set (dp_records (sc_documents scan)) \<or>
        (\<exists>explicit. missing_dataset_issue env i explicit \<in> set issues) \<or> \<not> sc_complete scan) \<and>
     (\<forall>r \<in> set refs. rr_source r \<in> dr_identity ` set (dp_records (sc_documents scan))) \<and>
     sorted_wrt (<) (map dr_identity (dp_records (sc_documents scan))) \<and>
     (\<forall>r \<in> set (dp_records (sc_documents scan)).
        \<exists>d. good d \<and> dr_identity r = dc_identity d \<and> dr_canonical_content_hash r = payload_hash env (dc_payload d) \<and>
            record_bytes_at (sc_documents scan) r = Some (document_bytes env d) \<and> document_followed env d refs issues)"

lemma document_followed_sort: "document_followed env d (sort_key f refs) issues \<longleftrightarrow> document_followed env d refs issues"
  by (simp add: document_followed_def edge_followed_def target_followed_def)

context document_provider
begin

lemma collect_accounted:
  assumes "collect_scope_closure env jenv pv manifest p = Some (Inr (scan, p'))"
  shows "\<exists>refs issues. sc_roots scan = manifest_roots manifest \<and> from_references refs (sc_roots scan) = Inr (sc_reference_graph scan) \<and>
    vs_file (sc_resolved_references scan) = run_file (map (write_canonical_json (je_string_text jenv) \<circ> reference_json env) refs) \<and>
    ci_issue_key ` set (sc_issues scan) = ci_issue_key ` set issues \<and> closure_accounted env good refs issues scan"
  using assms
proof (rule collect_parts)
  let ?roots = "manifest_roots manifest"
  fix st p1
  assume loop: "scan_loop env jenv pv manifest ?roots (scan_start ?roots, p) = Some (Inr (st, p1))"
    and final: "finalize_scope_closure_scan env jenv ?roots st = Inr scan"
  let ?refs = "sort_key reference_key (ss_resolved_references st)"
  note parts = finalize_parts [OF final]
  have inv: "scan_inv env good ?roots [] st" and pending: "ss_pending st = []"
    using scan_loop_inv [OF loop] scan_start_inv [OF manifest_roots_strict] by simp_all
  note inv = scan_invD [OF inv]
  have identity: "dr_identity r = i" if "(i, r) \<in> set (dw_records (ss_documents st))" for i r
    using inv(9) [OF that] by (auto simp: record_of_def)
  have keys: "map dr_identity (dp_records (sc_documents scan)) = map fst (dw_records (ss_documents st))"
    using identity by (auto simp: parts(4) document_finish_def)
  have ids: "dr_identity ` set (dp_records (sc_documents scan)) = fst ` set (dw_records (ss_documents st))"
    using keys by (metis list.set_map)
  have "reachable ?refs ?roots = reachable (ss_resolved_references st) ?roots"
    by (simp add: reachable_def referenced_by_def)
  moreover have "\<exists>d. good d \<and> dr_identity r = dc_identity d \<and> dr_canonical_content_hash r = payload_hash env (dc_payload d) \<and>
            record_bytes_at (sc_documents scan) r = Some (document_bytes env d) \<and> document_followed env d ?refs (ss_raw_issues st)"
    if "r \<in> set (dp_records (sc_documents scan))" for r
  proof -
    from that obtain i where "(i, r) \<in> set (dw_records (ss_documents st))" by (auto simp: parts(4) document_finish_def)
    from inv(9) [OF this] show ?thesis by (auto simp: record_of_def parts(4) document_followed_sort)
  qed
  ultimately have "closure_accounted env good ?refs (ss_raw_issues st) scan"
    using inv(1,5,7,8,10) pending unfolding closure_accounted_def keys ids parts(1-3) by auto
  then show ?thesis using parts by (intro exI [of _ ?refs] exI [of _ "ss_raw_issues st"]) simp
qed

end

context bounded_provider
begin

lemma collect_returns: "\<exists>result. collect_scope_closure env jenv pv manifest p = Some result"
proof -
  let ?roots = "manifest_roots manifest"
  obtain result where "scan_loop env jenv pv manifest ?roots (scan_start ?roots, p) = Some result"
    using scan_loop_returns [of env ?roots "(scan_start ?roots, p)" jenv manifest] scan_start_inv [OF manifest_roots_strict] by auto
  then show ?thesis by (auto simp: collect_scope_closure_def Let_def split: sum.splits prod.splits)
qed

end

section \<open>The provider over the frozen snapshot\<close>

text \<open>Content that the manifest of the release froze.\<close>

definition frozen :: "closure_env \<Rightarrow> snapshot_universe \<Rightarrow> closure_document \<Rightarrow> bool" where
  "frozen env universe d \<longleftrightarrow>
     (\<exists>entry. map_of universe (dc_identity d) = Some entry \<and> se_canonical_content_hash entry = payload_hash env (dc_payload d))"

lemma boundary_step_documents:
  assumes live: "\<And>i d. map_of live i = Some d \<Longrightarrow> dc_identity d = i" and r: "\<forall>d \<in> set (fr_documents r). frozen env universe d"
  shows "\<forall>d \<in> set (fr_documents (boundary_step env universe live r i)). frozen env universe d"
proof (cases "map_of universe i")
  case None
  then show ?thesis using r by (simp add: boundary_step_def)
next
  case (Some entry)
  show ?thesis
  proof (cases "map_of live i")
    case None
    then show ?thesis using r Some by (simp add: boundary_step_def Let_def)
  next
    case (Some d)
    have "frozen env universe d" if "payload_hash env (dc_payload d) = se_canonical_content_hash entry"
      using that live [OF Some] \<open>map_of universe i = Some entry\<close> by (simp add: frozen_def)
    then show ?thesis using r Some \<open>map_of universe i = Some entry\<close> by (simp add: boundary_step_def Let_def)
  qed
qed

lemma boundary_documents_frozen:
  "\<forall>d \<in> set (fr_documents (enforce_snapshot_boundary env identities universe live)). frozen env universe d"
proof -
  have "\<forall>d \<in> set (fr_documents (foldl (boundary_step env universe (collect_map dc_identity live)) r identities)). frozen env universe d"
    if "\<forall>d \<in> set (fr_documents r). frozen env universe d" for r
    using that
  proof (induction identities arbitrary: r)
    case (Cons i identities)
    have "\<forall>d \<in> set (fr_documents (boundary_step env universe (collect_map dc_identity live) r i)). frozen env universe d"
      by (rule boundary_step_documents [OF _ Cons.prems]) (use collect_map_key in fastforce)
    from Cons.IH [OF this] show ?case by simp
  qed simp
  from this [of "\<lparr>fr_documents = [], fr_issues = [], fr_incomplete_identities = []\<rparr>"] show ?thesis
    by (simp add: enforce_snapshot_boundary_def)
qed

interpretation any: document_provider pv "\<lambda>_. True" for pv :: "'s scan_provider"
  by unfold_locales simp

interpretation snapshot: bounded_provider "snapshot_provider env universe memory heartbeat fetch_live" "frozen env universe"
  for env universe memory heartbeat fetch_live
proof unfold_locales
  fix ids p r p' d
  assume "sp_fetch_exact (snapshot_provider env universe memory heartbeat fetch_live) ids p = Inr (r, p')" "d \<in> set (fr_documents r)"
  then show "frozen env universe d" using boundary_documents_frozen by (auto simp: snapshot_provider_def res_simps)
next
  have "dc_identity ` Collect (frozen env universe) \<subseteq> fst ` set universe"
    by (force simp: frozen_def dest: map_of_SomeD)
  then show "finite (dc_identity ` Collect (frozen env universe))" by (rule finite_subset) simp
qed

section \<open>Properties\<close>

text \<open>
  C18. A collection that returns is closed and accounts for everything, for an arbitrary provider: with the references that it
  writes and builds its graph from, the universe is exactly what the roots reach by references; every member was
  read into the document spool, or an issue reports it as missing, or the scan is marked incomplete; references
  start at documents that were read; the spool returns for every record the bytes and hash of a document all of
  whose references were followed or reported and whose extraction issues were all reported (issues up to the
  coalescing by key).
\<close>

theorem scope_closure_accounts_for_everything:
  assumes "collect_scope_closure env jenv pv manifest p = Some (Inr (scan, p'))"
  shows "\<exists>refs issues. sc_roots scan = manifest_roots manifest \<and> from_references refs (sc_roots scan) = Inr (sc_reference_graph scan) \<and>
    vs_file (sc_resolved_references scan) = run_file (map (write_canonical_json (je_string_text jenv) \<circ> reference_json env) refs) \<and>
    ci_issue_key ` set (sc_issues scan) = ci_issue_key ` set issues \<and> closure_accounted env (\<lambda>_. True) refs issues scan"
  by (rule any.collect_accounted [OF assms])

text \<open>
  C19. The collection over the frozen snapshot always returns, with a scan or an error, whatever the live tables return: only
  the finitely many frozen identities have documents, and no identity is scheduled twice.
\<close>

theorem snapshot_collection_returns:
  "\<exists>result. collect_scope_closure env jenv (snapshot_provider env universe memory heartbeat fetch_live) manifest p = Some result"
  by (rule snapshot.collect_returns)

text \<open>
  C20. Only frozen content enters a scan over the snapshot: every document of the scan has an entry in the frozen
  universe, and its recorded hash is the one the entry froze.
\<close>

theorem snapshot_scan_is_frozen:
  assumes "collect_scope_closure env jenv (snapshot_provider env universe memory heartbeat fetch_live) manifest p = Some (Inr (scan, p'))"
    and "r \<in> set (dp_records (sc_documents scan))"
  shows "\<exists>entry. map_of universe (dr_identity r) = Some entry \<and> dr_canonical_content_hash r = se_canonical_content_hash entry"
proof -
  from snapshot.collect_accounted [OF assms(1)] obtain refs issues where "closure_accounted env (frozen env universe) refs issues scan"
    by blast
  then obtain d where "frozen env universe d" "dr_identity r = dc_identity d" "dr_canonical_content_hash r = payload_hash env (dc_payload d)"
    using assms(2) unfolding closure_accounted_def by blast
  then show ?thesis by (auto simp: frozen_def)
qed

definition demo_env :: closure_env where
  "demo_env = \<lparr>en_parse_uuid = (\<lambda>_. None), en_uuid_text = (\<lambda>_. ''u''), en_string_text = id, en_sha256_hex = id\<rparr>"

definition demo_manifest :: requested_scope_manifest where
  "demo_manifest =
     \<lparr>rm_schema_version = '''', rm_coverage_mode = '''', rm_eligibility_predicate_version = '''',
      rm_processes = [\<lparr>rq_id = [1], rq_version = ''1''\<rparr>], rm_lcia_methods = [], rm_version_resolution_policy = '''',
      rm_legacy_omitted_version_policy = ''reject'', rm_certificate_freshness_policy = '''',
      rm_link_policy = \<lparr>lp_link_semantics_version = '''', lp_flow_identity_policy = '''', lp_allocation_semantics_version = '''',
        lp_technosphere_boundary_policy = '''', lp_provider_universe_policy = ''scope_only''\<rparr>,
      rm_process_manifest_hash = None\<rparr>"

definition demo_root_document :: closure_document where
  "demo_root_document = \<lparr>dc_identity = Identity Processes [1] ''1'', dc_payload = JNull\<rparr>"

definition demo_entry :: snapshot_dataset_entry where
  "demo_entry =
     \<lparr>se_dataset_type = Processes, se_dataset_id = [1], se_dataset_version = ''1'', se_role = '''', se_source_process_id = None,
      se_source_process_version = None, se_version_significant_hash = '''', se_semantic_hash = '''',
      se_canonical_content_hash = payload_hash demo_env JNull\<rparr>"

definition demo_provider :: "unit scan_provider" where
  "demo_provider = snapshot_provider demo_env (snapshot_dataset_universe [demo_entry]) (\<lambda>_ s. Inr s) (\<lambda>_ _ s. Inr s)
     (\<lambda>_ s. Inr ([demo_root_document], s))"

lemma demo_roots: "manifest_roots demo_manifest = [dc_identity demo_root_document]"
  by (simp add: manifest_roots_def demo_manifest_def demo_root_document_def)

lemma demo_extraction: "er_edges (document_extraction demo_env demo_root_document) = []" "er_issues (document_extraction demo_env demo_root_document) = []"
  by (simp_all add: document_extraction_def extract_scope_closure_references_def extract_references_with_profile_def demo_root_document_def
     walk_references.simps)

lemma demo_fetch:
  "sp_fetch_exact demo_provider [dc_identity demo_root_document] () =
     Inr (\<lparr>fr_documents = [demo_root_document], fr_issues = [], fr_incomplete_identities = []\<rparr>, ())"
  by (simp add: demo_provider_def snapshot_provider_def enforce_snapshot_boundary_def boundary_step_def collect_map_def snapshot_dataset_universe_def
    entry_identity_def demo_entry_def demo_root_document_def)

lemma demo_turn:
  "\<exists>w. document_append demo_env document_writer_new demo_root_document = Inr w \<and>
     scan_turn demo_env demo_jsonl demo_provider demo_manifest [dc_identity demo_root_document]
       (scan_start [dc_identity demo_root_document], ()) =
     Inr ((scan_start [dc_identity demo_root_document])\<lparr>ss_pending := [], ss_documents := w\<rparr>, ())"
proof -
  obtain w where w: "document_append demo_env document_writer_new demo_root_document = Inr w"
    by (simp add: document_append_def document_writer_new_def document_bytes_def demo_env_def demo_root_document_def identity_json_def
        json_object_def table_name_def u64_max_def)
  have "scan_document demo_env demo_jsonl demo_provider demo_manifest roots (st, p) demo_root_document =
      res_bind (document_append demo_env (ss_documents st) demo_root_document) (\<lambda>documents. Inr (st\<lparr>ss_documents := documents\<rparr>, p))" for roots st p
    by (simp add: scan_document_def Let_def demo_extraction document_extraction_def [symmetric])
  moreover have "sp_memory demo_provider t s = Inr s" "sp_checkpoint demo_provider a b s = Inr s" for t s a b
    by (simp_all add: demo_provider_def snapshot_provider_def)
  ultimately show ?thesis using w
    by (simp add: scan_turn_def scan_start_def Let_def demo_fetch FETCH_BATCH_SIZE_def collect_map_def scan_requested_def)
qed

lemma demo_collect:
  "\<exists>scan. collect_scope_closure demo_env demo_jsonl demo_provider demo_manifest () = Some (Inr (scan, ())) \<and>
     sc_complete scan \<and> sc_provider_universe scan = [dc_identity demo_root_document] \<and>
     dr_identity ` set (dp_records (sc_documents scan)) = {dc_identity demo_root_document}"
proof -
  let ?root = "dc_identity demo_root_document"
  obtain w where w: "document_append demo_env document_writer_new demo_root_document = Inr w"
    and turn: "scan_turn demo_env demo_jsonl demo_provider demo_manifest [?root] (scan_start [?root], ()) =
        Inr ((scan_start [?root])\<lparr>ss_pending := [], ss_documents := w\<rparr>, ())"
    using demo_turn by blast
  let ?st = "(scan_start [?root])\<lparr>ss_pending := [], ss_documents := w\<rparr>"
  have "scan_loop demo_env demo_jsonl demo_provider demo_manifest [?root] (?st, ()) = Some (Inr (?st, ()))"
    by (subst scan_loop.simps) simp
  then have loop: "scan_loop demo_env demo_jsonl demo_provider demo_manifest [?root] (scan_start [?root], ()) = Some (Inr (?st, ()))"
    by (subst scan_loop.simps) (simp add: turn, simp add: scan_start_def)
  have sorted: "sort_jsonl_spool demo_jsonl (spool_finish demo_jsonl spool_writer_new) = Inr (spool_finish demo_jsonl spool_writer_new)"
    by (simp add: sort_jsonl_spool_def sort_jsonl_spool_with_run_bytes_def VALIDATION_SORT_RUN_BYTES_def ensure_temp_free_space_def spool_finish_def
        spool_writer_new_def saturating_mul_def u64_max_def TEMP_FREE_SPACE_RESERVE_BYTES_def demo_jsonl_def merge_sorted_jsonl_runs_def merge_loop.simps
        visit_jsonl.simps heap_pop_def)
  obtain g where g: "from_references [] [?root] = Inr g"
    by (simp add: from_references_def number_identities_eq)
  have "compute_affected_roots_batch [?root] g (coalesce_issues (attach_reference_occurrences demo_env [] [])) = Inr []"
    by (simp add: compute_affected_roots_batch_def coalesce_issues_eq attach_reference_occurrences_def)
  then obtain scan where scan: "finalize_scope_closure_scan demo_env demo_jsonl [?root] ?st = Inr scan"
    using sorted g by (simp add: finalize_scope_closure_scan_def scan_start_def)
  have "sp_memory demo_provider t s = Inr s" for t s by (simp add: demo_provider_def snapshot_provider_def)
  then have "collect_scope_closure demo_env demo_jsonl demo_provider demo_manifest () = Some (Inr (scan, ()))"
    using loop scan by (simp add: collect_scope_closure_def demo_roots)
  moreover have "dr_identity ` snd ` set (dw_records w) = {?root}"
    using w by (auto simp: document_append_def document_writer_new_def Let_def split: if_splits)
  ultimately show ?thesis using finalize_parts [OF scan] by (auto simp: scan_start_def document_finish_def)
qed

theorem scope_closure_accounts_for_everything_witness:
  "\<exists>scan refs issues. collect_scope_closure demo_env demo_jsonl demo_provider demo_manifest () = Some (Inr (scan, ())) \<and> sc_complete scan \<and>
     closure_accounted demo_env (\<lambda>_. True) refs issues scan \<and> reachable refs [dc_identity demo_root_document] = {dc_identity demo_root_document}"
proof -
  obtain scan where scan: "collect_scope_closure demo_env demo_jsonl demo_provider demo_manifest () = Some (Inr (scan, ()))" "sc_complete scan"
      "sc_provider_universe scan = [dc_identity demo_root_document]"
    using demo_collect by blast
  from scope_closure_accounts_for_everything [OF scan(1)] obtain refs issues where
      "sc_roots scan = [dc_identity demo_root_document]" "closure_accounted demo_env (\<lambda>_. True) refs issues scan"
    unfolding demo_roots by blast
  moreover from this have "set (sc_provider_universe scan) = reachable refs (sc_roots scan)" unfolding closure_accounted_def by blast
  ultimately show ?thesis using scan by (intro exI [of _ scan] exI [of _ refs] exI [of _ issues]) simp
qed

theorem snapshot_scan_is_frozen_witness:
  "\<exists>scan. collect_scope_closure demo_env demo_jsonl demo_provider demo_manifest () = Some (Inr (scan, ())) \<and>
     (\<exists>r \<in> set (dp_records (sc_documents scan)). \<exists>entry.
     map_of (snapshot_dataset_universe [demo_entry]) (dr_identity r) = Some entry \<and> dr_canonical_content_hash r = se_canonical_content_hash entry)"
proof -
  obtain scan where scan: "collect_scope_closure demo_env demo_jsonl demo_provider demo_manifest () = Some (Inr (scan, ()))"
      "dr_identity ` set (dp_records (sc_documents scan)) = {dc_identity demo_root_document}"
    using demo_collect by blast
  then obtain r where "r \<in> set (dp_records (sc_documents scan))" by blast
  with snapshot_scan_is_frozen [OF scan(1) [unfolded demo_provider_def] this] scan(1) show ?thesis by blast
qed

end
