(* ===== verification/Issue_Partition.thy ===== *)
theory Issue_Partition
  imports External_Sort
begin

text \<open>
  Partitioned evidence of a scope closure, \<open>crates/solver-worker/src/scope_closure.rs\<close>: the accumulator that distributes a stream of
  records over compressed partitions bounded in records and bytes, with records that exceed the bound split
  into chunks behind an index. The files of the temporary directory are an association list from paths to contents, the
  compressor and the hash are arguments; disk errors are not modelled. Theorem: the layout leads back to the
  stream, record by record, and the manifest describes the files.
\<close>

section \<open>Paths\<close>

definition digit_char :: "nat \<Rightarrow> char" where
  "digit_char d = char_of (48 + d)"

fun decimal :: "nat \<Rightarrow> string" where
  "decimal n = (if n < 10 then [digit_char n] else decimal (n div 10) @ [digit_char (n mod 10)])"

declare decimal.simps [simp del]

text \<open>\<open>{n:0w}\<close> in a format string.\<close>

definition padded :: "nat \<Rightarrow> nat \<Rightarrow> string" where
  "padded w n = replicate (w - length (decimal n)) (CHR ''0'') @ decimal n"

section \<open>Manifest entries\<close>

datatype artifact_role = ClosureReport | CompleteMachineResult | ClosureBundle

record artifact_manifest_entry =
  am_artifact_type :: string
  am_artifact_role :: artifact_role
  am_file_name :: string
  am_content_type :: string
  am_byte_size :: nat
  am_checksum_sha256 :: string

text \<open>A prepared artifact and its path in the temporary directory.\<close>

record prepared_artifact =
  pr_descriptor :: artifact_manifest_entry
  pr_path :: string

record partition_manifest_entry =
  pm_relation :: string
  pm_path :: string
  pm_media_type :: string
  pm_record_count :: nat
  pm_uncompressed_byte_size :: nat
  pm_uncompressed_sha256 :: string
  pm_compressed_byte_size :: nat
  pm_compressed_sha256 :: string
  pm_first_issue_key :: string
  pm_last_issue_key :: string

record layout_entry =
  le_relation :: string
  le_sequence_ordinal :: nat
  le_kind :: string
  le_path :: string

record oversized_manifest_entry =
  om_relation :: string
  om_record_ordinal :: nat
  om_record_key :: string
  om_logical_byte_size :: nat
  om_logical_sha256 :: string
  om_index_path :: string
  om_index_byte_size :: nat
  om_index_sha256 :: string

record oversized_chunk =
  oh_ordinal :: nat
  oh_path :: string
  oh_byte_size :: nat
  oh_sha256 :: string

record oversized_index =
  ox_schema_version :: string
  ox_relation :: string
  ox_record_ordinal :: nat
  ox_record_key :: string
  ox_logical_byte_size :: nat
  ox_logical_sha256 :: string
  ox_chunk_byte_size :: nat
  ox_chunk_count :: nat
  ox_chunks :: "oversized_chunk list"

record active_partition =
  ap_relative_path :: string
  ap_encoder :: string
  ap_uncompressed_digest :: string
  ap_record_count :: nat
  ap_uncompressed_bytes :: nat
  ap_first_issue_key :: string
  ap_last_issue_key :: string

type_synonym file_store = "(string \<times> string) list"

record partition_accumulator =
  pa_files :: file_store
  pa_relation :: string
  pa_max_records :: nat
  pa_max_uncompressed_bytes :: nat
  pa_active :: "active_partition option"
  pa_entries :: "partition_manifest_entry list"
  pa_artifacts :: "prepared_artifact list"
  pa_relation_digest :: string
  pa_logical_record_count :: nat
  pa_logical_byte_size :: nat
  pa_layout :: "layout_entry list"
  pa_oversized_records :: "oversized_manifest_entry list"

record partition_env =
  pe_string_text :: "string \<Rightarrow> string"
  pe_sha256_hex :: "string \<Rightarrow> string"
  pe_zstd :: "string \<Rightarrow> string"

datatype partition_error =
    MissingNewlineFraming
  | PartitionCancelled string
  | LogicalRecordOverflow
  | LogicalByteOverflow
  | PartitionRecordOverflow
  | PartitionByteOverflow

definition ISSUE_PARTITION_MAX_RECORDS :: nat where
  "ISSUE_PARTITION_MAX_RECORDS = 25000"

definition OVERSIZED_RECORD_CHUNK_BYTES :: nat where
  "OVERSIZED_RECORD_CHUNK_BYTES = 8 * 1024 * 1024"

section \<open>The accumulator\<close>

definition partition_accumulator_new :: "file_store \<Rightarrow> string \<Rightarrow> partition_accumulator" where
  "partition_accumulator_new files relation =
     \<lparr>pa_files = files, pa_relation = relation, pa_max_records = ISSUE_PARTITION_MAX_RECORDS,
      pa_max_uncompressed_bytes = ISSUE_PARTITION_MAX_UNCOMPRESSED_BYTES, pa_active = None, pa_entries = [], pa_artifacts = [],
      pa_relation_digest = [], pa_logical_record_count = 0, pa_logical_byte_size = 0, pa_layout = [], pa_oversized_records = []\<rparr>"

definition accumulator_with_limits :: "file_store \<Rightarrow> string \<Rightarrow> nat \<Rightarrow> nat \<Rightarrow> partition_accumulator" where
  "accumulator_with_limits files relation max_records max_bytes =
     (partition_accumulator_new files relation)\<lparr>pa_max_records := max_records, pa_max_uncompressed_bytes := max_bytes\<rparr>"

definition machine_artifact :: "string \<Rightarrow> string \<Rightarrow> nat \<Rightarrow> string \<Rightarrow> prepared_artifact" where
  "machine_artifact path content_type byte_size sha256 =
     \<lparr>pr_descriptor = \<lparr>am_artifact_type = ''closure_complete_machine_result'', am_artifact_role = CompleteMachineResult,
        am_file_name = path, am_content_type = content_type, am_byte_size = byte_size, am_checksum_sha256 = sha256\<rparr>, pr_path = path\<rparr>"

definition part_path :: "string \<Rightarrow> nat \<Rightarrow> string" where
  "part_path relation index = relation @ ''/part-'' @ padded 6 index @ ''.ndjson.zst''"

definition open_partition :: "partition_accumulator \<Rightarrow> string \<Rightarrow> active_partition" where
  "open_partition acc issue_key =
     \<lparr>ap_relative_path = part_path (pa_relation acc) (length (pa_entries acc)), ap_encoder = [], ap_uncompressed_digest = [],
      ap_record_count = 0, ap_uncompressed_bytes = 0, ap_first_issue_key = issue_key, ap_last_issue_key = issue_key\<rparr>"

definition partition_flush :: "partition_env \<Rightarrow> partition_accumulator \<Rightarrow> partition_accumulator" where
  "partition_flush env acc =
     (case pa_active acc of
        None \<Rightarrow> acc
      | Some active \<Rightarrow>
          let compressed = pe_zstd env (ap_encoder active);
              compressed_sha256 = pe_sha256_hex env compressed;
              entry = \<lparr>pm_relation = pa_relation acc, pm_path = ap_relative_path active, pm_media_type = ''application/x-ndjson+zstd'',
                       pm_record_count = ap_record_count active, pm_uncompressed_byte_size = ap_uncompressed_bytes active,
                       pm_uncompressed_sha256 = pe_sha256_hex env (ap_uncompressed_digest active),
                       pm_compressed_byte_size = length compressed, pm_compressed_sha256 = compressed_sha256,
                       pm_first_issue_key = ap_first_issue_key active, pm_last_issue_key = ap_last_issue_key active\<rparr> in
          acc\<lparr>pa_files := (ap_relative_path active, compressed) # pa_files acc, pa_active := None,
              pa_layout := pa_layout acc @ [\<lparr>le_relation = pa_relation acc, le_sequence_ordinal = length (pa_layout acc),
                                            le_kind = ''ndjson_partition'', le_path = ap_relative_path active\<rparr>],
              pa_artifacts := pa_artifacts acc @
                [machine_artifact (ap_relative_path active) ''application/x-ndjson+zstd'' (length compressed) compressed_sha256],
              pa_entries := pa_entries acc @ [entry]\<rparr>)"

definition record_directory :: "string \<Rightarrow> nat \<Rightarrow> string" where
  "record_directory relation ordinal = relation @ ''/oversized/record-'' @ padded 20 ordinal"

definition chunk_path :: "string \<Rightarrow> nat \<Rightarrow> string" where
  "chunk_path directory ordinal = directory @ ''/chunk-'' @ padded 6 ordinal @ ''.bin''"

definition write_chunk ::
  "partition_env \<Rightarrow> (string \<Rightarrow> nat \<Rightarrow> nat \<Rightarrow> bool) option \<Rightarrow> nat \<Rightarrow> string
   \<Rightarrow> file_store \<times> oversized_chunk list \<times> prepared_artifact list \<Rightarrow> nat \<times> string
   \<Rightarrow> partition_error + (file_store \<times> oversized_chunk list \<times> prepared_artifact list)" where
  "write_chunk env cancellation record_ordinal directory s item =
     (case (s, item) of ((files, chunk_list, artifacts), (ordinal, chunk)) \<Rightarrow>
        let stage = ''scope_closure_administrative_oversized_record_chunk'' in
        if (case cancellation of None \<Rightarrow> False | Some cancelled \<Rightarrow> cancelled stage record_ordinal ordinal)
        then Inl (PartitionCancelled stage)
        else
        let path = chunk_path directory ordinal; sha256 = pe_sha256_hex env chunk in
        Inr ((path, chunk) # files,
             chunk_list @ [\<lparr>oh_ordinal = ordinal, oh_path = path, oh_byte_size = length chunk, oh_sha256 = sha256\<rparr>],
             artifacts @ [machine_artifact path ''application/vnd.tiangong.scope-closure-canonical-json-chunk'' (length chunk) sha256]))"

definition number_json :: "nat \<Rightarrow> json" where
  "number_json n = JNumber (decimal n)"

definition chunk_json :: "oversized_chunk \<Rightarrow> json" where
  "chunk_json c =
     json_object [(''ordinal'', number_json (oh_ordinal c)), (''path'', JString (oh_path c)), (''byteSize'', number_json (oh_byte_size c)),
                  (''sha256'', JString (oh_sha256 c))]"

definition index_json :: "oversized_index \<Rightarrow> json" where
  "index_json x =
     json_object [(''schemaVersion'', JString (ox_schema_version x)), (''relation'', JString (ox_relation x)),
       (''recordOrdinal'', number_json (ox_record_ordinal x)), (''recordKey'', JString (ox_record_key x)),
       (''logicalByteSize'', number_json (ox_logical_byte_size x)), (''logicalSha256'', JString (ox_logical_sha256 x)),
       (''chunkByteSize'', number_json (ox_chunk_byte_size x)), (''chunkCount'', number_json (ox_chunk_count x)),
       (''chunks'', JArray (map chunk_json (ox_chunks x)))]"

definition strip_prefix :: "string \<Rightarrow> string \<Rightarrow> string option" where
  "strip_prefix p s = (if take (length p) s = p then Some (drop (length p) s) else None)"

definition count_record :: "partition_accumulator \<Rightarrow> nat \<Rightarrow> partition_error + partition_accumulator" where
  "count_record acc record_bytes =
     (if u64_max < pa_logical_record_count acc + 1 then Inl LogicalRecordOverflow
      else if u64_max < pa_logical_byte_size acc + record_bytes then Inl LogicalByteOverflow
      else Inr (acc\<lparr>pa_logical_record_count := pa_logical_record_count acc + 1,
                    pa_logical_byte_size := pa_logical_byte_size acc + record_bytes\<rparr>))"

definition push_oversized_record ::
  "partition_env \<Rightarrow> (string \<Rightarrow> nat \<Rightarrow> nat \<Rightarrow> bool) option \<Rightarrow> partition_accumulator \<Rightarrow> string \<Rightarrow> string
   \<Rightarrow> partition_error + partition_accumulator" where
  "push_oversized_record env cancellation acc issue_key bytes =
     (if bytes = [] \<or> last bytes \<noteq> newline then Inl MissingNewlineFraming
      else
      let acc = partition_flush env acc;
          logical_bytes = butlast bytes;
          record_ordinal = pa_logical_record_count acc;
          directory = record_directory (pa_relation acc) record_ordinal in
      res_bind (try_fold (write_chunk env cancellation record_ordinal directory) (pa_files acc, [], pa_artifacts acc)
                  (List.enumerate 0 (chunks OVERSIZED_RECORD_CHUNK_BYTES logical_bytes))) (\<lambda>(files, chunk_list, artifacts).
      let logical_sha256 = pe_sha256_hex env logical_bytes;
          index = \<lparr>ox_schema_version = ''lcia.scope-closure-administrative-oversized-record.v1'',
                   ox_relation = (case strip_prefix ''administrative/'' (pa_relation acc) of None \<Rightarrow> pa_relation acc | Some r \<Rightarrow> r),
                   ox_record_ordinal = record_ordinal, ox_record_key = issue_key, ox_logical_byte_size = length logical_bytes,
                   ox_logical_sha256 = logical_sha256, ox_chunk_byte_size = OVERSIZED_RECORD_CHUNK_BYTES,
                   ox_chunk_count = length chunk_list, ox_chunks = chunk_list\<rparr>;
          index_path = directory @ ''/index.json'';
          index_bytes = write_canonical_json (pe_string_text env) (index_json index);
          index_sha256 = pe_sha256_hex env index_bytes in
      count_record
        (acc\<lparr>pa_files := (index_path, index_bytes) # files,
             pa_artifacts := artifacts @
               [machine_artifact index_path ''application/vnd.tiangong.scope-closure-oversized-record-index+json''
                  (length index_bytes) index_sha256],
             pa_layout := pa_layout acc @ [\<lparr>le_relation = pa_relation acc, le_sequence_ordinal = length (pa_layout acc),
                                           le_kind = ''oversized_record'', le_path = index_path\<rparr>],
             pa_oversized_records := pa_oversized_records acc @
               [\<lparr>om_relation = pa_relation acc, om_record_ordinal = record_ordinal, om_record_key = issue_key,
                 om_logical_byte_size = length logical_bytes, om_logical_sha256 = logical_sha256, om_index_path = index_path,
                 om_index_byte_size = length index_bytes, om_index_sha256 = index_sha256\<rparr>],
             pa_relation_digest := pa_relation_digest acc @ bytes\<rparr>) (length bytes)))"

definition make_room :: "partition_env \<Rightarrow> partition_accumulator \<Rightarrow> nat \<Rightarrow> partition_accumulator" where
  "make_room env acc record_bytes =
     (case pa_active acc of
        None \<Rightarrow> acc
      | Some active \<Rightarrow>
          if pa_max_records acc \<le> ap_record_count active \<or>
             pa_max_uncompressed_bytes acc < saturating_add (ap_uncompressed_bytes active) record_bytes
          then partition_flush env acc else acc)"

definition push_bytes_with_cancellation ::
  "partition_env \<Rightarrow> (string \<Rightarrow> nat \<Rightarrow> nat \<Rightarrow> bool) option \<Rightarrow> partition_accumulator \<Rightarrow> string \<Rightarrow> string
   \<Rightarrow> partition_error + partition_accumulator" where
  "push_bytes_with_cancellation env cancellation acc issue_key bytes =
     (let record_bytes = length bytes in
      if pa_max_uncompressed_bytes acc < record_bytes then push_oversized_record env cancellation acc issue_key bytes
      else
      let acc = make_room env acc record_bytes;
          active = (case pa_active acc of None \<Rightarrow> open_partition acc issue_key | Some active \<Rightarrow> active);
          active = active\<lparr>ap_encoder := ap_encoder active @ bytes, ap_uncompressed_digest := ap_uncompressed_digest active @ bytes\<rparr> in
      res_bind (count_record (acc\<lparr>pa_relation_digest := pa_relation_digest acc @ bytes\<rparr>) record_bytes) (\<lambda>acc.
      if u64_max < ap_record_count active + 1 then Inl PartitionRecordOverflow
      else if u64_max < ap_uncompressed_bytes active + record_bytes then Inl PartitionByteOverflow
      else Inr (acc\<lparr>pa_active := Some (active\<lparr>ap_record_count := ap_record_count active + 1,
             ap_uncompressed_bytes := ap_uncompressed_bytes active + record_bytes, ap_last_issue_key := issue_key\<rparr>)\<rparr>)))"

definition push_bytes :: "partition_env \<Rightarrow> partition_accumulator \<Rightarrow> string \<Rightarrow> string \<Rightarrow> partition_error + partition_accumulator" where
  "push_bytes env acc issue_key bytes = push_bytes_with_cancellation env None acc issue_key bytes"

definition push_value :: "partition_env \<Rightarrow> partition_accumulator \<Rightarrow> string \<Rightarrow> json \<Rightarrow> partition_error + partition_accumulator" where
  "push_value env acc issue_key v = push_bytes env acc issue_key (write_canonical_json (pe_string_text env) v @ [newline])"

record partition_finish_result =
  pf_files :: file_store
  pf_entries :: "partition_manifest_entry list"
  pf_artifacts :: "prepared_artifact list"
  pf_relation_sha256 :: string
  pf_logical_record_count :: nat
  pf_logical_byte_size :: nat
  pf_layout :: "layout_entry list"
  pf_oversized_records :: "oversized_manifest_entry list"

definition partition_finish :: "partition_env \<Rightarrow> partition_accumulator \<Rightarrow> partition_finish_result" where
  "partition_finish env acc =
     (let acc = partition_flush env acc in
      \<lparr>pf_files = pa_files acc, pf_entries = pa_entries acc, pf_artifacts = pa_artifacts acc,
       pf_relation_sha256 = pe_sha256_hex env (pa_relation_digest acc), pf_logical_record_count = pa_logical_record_count acc,
       pf_logical_byte_size = pa_logical_byte_size acc, pf_layout = pa_layout acc, pf_oversized_records = pa_oversized_records acc\<rparr>)"

section \<open>Paths are distinct\<close>

definition decimal_value :: "string \<Rightarrow> nat" where
  "decimal_value s = foldl (\<lambda>n c. 10 * n + (of_char c - 48)) 0 s"

lemma of_digit_char: "d < 10 \<Longrightarrow> of_char (digit_char d) = (48 + d :: nat)"
  by (simp add: digit_char_def of_char_of)

lemma decimal_value_decimal: "decimal_value (decimal n) = n"
proof (induction n rule: decimal.induct)
  case (1 n)
  show ?case
  proof (cases "n < 10")
    case True
    then show ?thesis by (simp add: decimal.simps [of n] decimal_value_def of_digit_char)
  next
    case False
    then have "decimal n = decimal (n div 10) @ [digit_char (n mod 10)]" by (simp add: decimal.simps [of n])
    then have "decimal_value (decimal n) = 10 * (n div 10) + n mod 10"
      using 1 False by (simp add: decimal_value_def of_digit_char)
    then show ?thesis by simp
  qed
qed

lemma decimal_value_padded: "decimal_value (padded w n) = n"
proof -
  have "foldl (\<lambda>n c. 10 * n + (of_char c - 48)) (0 :: nat) (replicate k (CHR ''0'')) = 0" for k
    by (induction k) simp_all
  then show ?thesis using decimal_value_decimal [of n] by (simp add: padded_def decimal_value_def)
qed

lemma padded_inj: "padded w m = padded w n \<Longrightarrow> m = n"
  by (metis decimal_value_padded)

lemma decimal_no_slash: "CHR ''/'' \<notin> set (decimal n)"
proof (induction n rule: decimal.induct)
  case (1 n)
  have digit: "CHR ''/'' \<noteq> digit_char d" if "d < 10" for d
  proof
    assume "CHR ''/'' = digit_char d"
    then have "(of_char (digit_char d) :: nat) = of_char (CHR ''/'')" by metis
    then show False using that by (simp add: of_digit_char)
  qed
  show ?case
  proof (cases "n < 10")
    case True
    then show ?thesis using digit by (simp add: decimal.simps [of n])
  next
    case False
    then show ?thesis using 1 digit [of "n mod 10"] by (simp add: decimal.simps [of n])
  qed
qed

lemma padded_no_slash: "CHR ''/'' \<notin> set (padded w n)"
  using decimal_no_slash [of n] by (simp add: padded_def)

lemma append_sep_eq: "c \<notin> set a \<Longrightarrow> c \<notin> set b \<Longrightarrow> a @ c # x = b @ c # y \<Longrightarrow> a = b"
proof (induction a arbitrary: b)
  case Nil
  then show ?case by (cases b) auto
next
  case (Cons d a)
  then show ?case by (cases b) auto
qed

definition path_in :: "string \<Rightarrow> string \<Rightarrow> bool" where
  "path_in directory path \<longleftrightarrow> (\<exists>rest. path = directory @ CHR ''/'' # rest)"

lemma path_in_append: "path_in d (d @ CHR ''/'' # rest)"
  by (auto simp: path_in_def)

lemma part_path_inj: "part_path r i = part_path r j \<Longrightarrow> i = j"
  by (auto simp: part_path_def dest: padded_inj)

lemma record_directory_inj: "path_in (record_directory r m) p \<Longrightarrow> path_in (record_directory r n) p \<Longrightarrow> m = n"
proof -
  assume "path_in (record_directory r m) p" "path_in (record_directory r n) p"
  then obtain x y where "padded 20 m @ CHR ''/'' # x = padded 20 n @ CHR ''/'' # y"
    by (auto simp: path_in_def record_directory_def)
  then have "padded 20 m = padded 20 n" by (rule append_sep_eq [OF padded_no_slash padded_no_slash])
  then show "m = n" by (rule padded_inj)
qed

lemma part_path_not_record: "\<not> path_in (record_directory r n) (part_path r i)"
  by (simp add: path_in_def record_directory_def part_path_def)

lemma part_path_in: "path_in r (part_path r i)"
  by (simp add: path_in_def part_path_def)

lemma record_path_in: "path_in (record_directory r n) p \<Longrightarrow> path_in r p"
  by (auto simp: path_in_def record_directory_def)

lemma chunk_path_in: "path_in d (chunk_path d i)"
  by (simp add: path_in_def chunk_path_def)

lemma chunk_path_inj: "chunk_path d i = chunk_path d j \<Longrightarrow> i = j"
  by (auto simp: chunk_path_def dest: padded_inj)

lemma chunk_path_not_index: "chunk_path d i \<noteq> d @ ''/index.json''"
  by (simp add: chunk_path_def)

section \<open>What the files say\<close>

text \<open>The bytes that an entry of the layout stands for, read from the files with a decompressor.\<close>

definition chunk_reads :: "partition_env \<Rightarrow> file_store \<Rightarrow> oversized_chunk \<Rightarrow> string \<Rightarrow> bool" where
  "chunk_reads env files c bytes \<longleftrightarrow>
     map_of files (oh_path c) = Some bytes \<and> oh_byte_size c = length bytes \<and> oh_sha256 c = pe_sha256_hex env bytes \<and>
     length bytes \<le> OVERSIZED_RECORD_CHUNK_BYTES"

definition oversized_reads :: "partition_env \<Rightarrow> file_store \<Rightarrow> string \<Rightarrow> string \<Rightarrow> bool" where
  "oversized_reads env files index_path bytes \<longleftrightarrow>
     (\<exists>x pieces. map_of files index_path = Some (write_canonical_json (pe_string_text env) (index_json x)) \<and>
        ox_chunk_count x = length (ox_chunks x) \<and> list_all2 (chunk_reads env files) (ox_chunks x) pieces \<and>
        bytes = concat pieces @ [newline] \<and> ox_logical_byte_size x = length (concat pieces) \<and>
        ox_logical_sha256 x = pe_sha256_hex env (concat pieces))"

definition layout_reads :: "partition_env \<Rightarrow> (string \<Rightarrow> string option) \<Rightarrow> file_store \<Rightarrow> layout_entry \<Rightarrow> string \<Rightarrow> bool" where
  "layout_reads env unzstd files e bytes \<longleftrightarrow>
     (if le_kind e = ''ndjson_partition'' then (case map_of files (le_path e) of None \<Rightarrow> False | Some z \<Rightarrow> unzstd z = Some bytes)
      else le_kind e = ''oversized_record'' \<and> oversized_reads env files (le_path e) bytes)"

lemma chunk_reads_mono: "map_of files \<subseteq>\<^sub>m map_of files' \<Longrightarrow> chunk_reads env files c b \<Longrightarrow> chunk_reads env files' c b"
  by (auto simp: chunk_reads_def map_le_def dom_def)

lemma oversized_reads_mono:
  assumes le: "map_of files \<subseteq>\<^sub>m map_of files'" and reads: "oversized_reads env files p b"
  shows "oversized_reads env files' p b"
proof -
  from reads obtain x pieces where x: "map_of files p = Some (write_canonical_json (pe_string_text env) (index_json x))"
        "ox_chunk_count x = length (ox_chunks x)" "list_all2 (chunk_reads env files) (ox_chunks x) pieces"
        "b = concat pieces @ [newline]" "ox_logical_byte_size x = length (concat pieces)" "ox_logical_sha256 x = pe_sha256_hex env (concat pieces)"
    unfolding oversized_reads_def by (elim exE conjE)
  have "map_of files' p = map_of files p" using le x(1) by (metis domI map_le_def)
  moreover have "list_all2 (chunk_reads env files') (ox_chunks x) pieces"
    using x(3) by (rule list_all2_mono) (rule chunk_reads_mono [OF le])
  ultimately show ?thesis unfolding oversized_reads_def by (intro exI [of _ x] exI [of _ pieces]) (simp add: x)
qed

lemma layout_reads_mono:
  assumes le: "map_of files \<subseteq>\<^sub>m map_of files'" and reads: "layout_reads env unzstd files e b"
  shows "layout_reads env unzstd files' e b"
proof (cases "le_kind e = ''ndjson_partition''")
  case True
  with reads obtain z where "map_of files (le_path e) = Some z" "unzstd z = Some b" by (auto simp: layout_reads_def split: option.splits)
  moreover from this have "map_of files' (le_path e) = map_of files (le_path e)" using le by (metis domI map_le_def)
  ultimately show ?thesis using True by (simp add: layout_reads_def)
next
  case False
  then show ?thesis using reads oversized_reads_mono [OF le] by (simp add: layout_reads_def)
qed

lemma map_le_fresh: "p \<notin> fst ` set files \<Longrightarrow> map_of files \<subseteq>\<^sub>m map_of ((p, c) # files)"
  by (auto simp: map_le_def dom_map_of_conv_image_fst)

section \<open>The invariant of the accumulator\<close>

abbreviation group_data :: "(string \<times> string) list \<Rightarrow> string" where
  "group_data g \<equiv> concat (map snd g)"

text \<open>A manifest entry describes a group of whole records within the bounds, and its file.\<close>

definition entry_describes ::
  "partition_env \<Rightarrow> file_store \<Rightarrow> nat \<Rightarrow> nat \<Rightarrow> partition_manifest_entry \<Rightarrow> (string \<times> string) list \<Rightarrow> bool" where
  "entry_describes env files max_records max_bytes e g \<longleftrightarrow>
     g \<noteq> [] \<and> length g \<le> max_records \<and> length (group_data g) \<le> max_bytes \<and>
     pm_record_count e = length g \<and> pm_uncompressed_byte_size e = length (group_data g) \<and>
     pm_uncompressed_sha256 e = pe_sha256_hex env (group_data g) \<and>
     map_of files (pm_path e) = Some (pe_zstd env (group_data g)) \<and>
     pm_compressed_byte_size e = length (pe_zstd env (group_data g)) \<and>
     pm_compressed_sha256 e = pe_sha256_hex env (pe_zstd env (group_data g)) \<and>
     pm_first_issue_key e = fst (hd g) \<and> pm_last_issue_key e = fst (last g)"

lemma entry_describes_mono:
  "map_of files \<subseteq>\<^sub>m map_of files' \<Longrightarrow> entry_describes env files mr mb e g \<Longrightarrow> entry_describes env files' mr mb e g"
  by (auto simp: entry_describes_def map_le_def dom_def)

text \<open>The groups that are partitions.\<close>

definition partition_groups :: "layout_entry list \<Rightarrow> (string \<times> string) list list \<Rightarrow> (string \<times> string) list list" where
  "partition_groups layout groups = map snd (filter (\<lambda>(e, g). le_kind e = ''ndjson_partition'') (zip layout groups))"

lemma partition_groups_snoc:
  "length layout = length groups \<Longrightarrow>
   partition_groups (layout @ [e]) (groups @ [g]) = partition_groups layout groups @ (if le_kind e = ''ndjson_partition'' then [g] else [])"
  by (simp add: partition_groups_def)

definition active_holds :: "partition_accumulator \<Rightarrow> active_partition \<Rightarrow> (string \<times> string) list \<Rightarrow> bool" where
  "active_holds acc a g \<longleftrightarrow>
     g \<noteq> [] \<and> length g \<le> pa_max_records acc \<and> length (group_data g) \<le> pa_max_uncompressed_bytes acc \<and>
     ap_relative_path a = part_path (pa_relation acc) (length (pa_entries acc)) \<and>
     ap_encoder a = group_data g \<and> ap_uncompressed_digest a = group_data g \<and> ap_record_count a = length g \<and>
     ap_uncompressed_bytes a = length (group_data g) \<and> ap_first_issue_key a = fst (hd g) \<and> ap_last_issue_key a = fst (last g)"

text \<open>\<open>groups\<close> are the groups of records behind the entries of the layout, \<open>current\<close> is the group in the active partition.\<close>

definition acc_inv ::
  "partition_env \<Rightarrow> (string \<Rightarrow> string option) \<Rightarrow> file_store \<Rightarrow> (string \<times> string) list list \<Rightarrow> (string \<times> string) list
   \<Rightarrow> partition_accumulator \<Rightarrow> bool" where
  "acc_inv env unzstd files0 groups current acc \<longleftrightarrow>
     list_all2 (\<lambda>e g. layout_reads env unzstd (pa_files acc) e (group_data g)) (pa_layout acc) groups \<and>
     list_all2 (entry_describes env (pa_files acc) (pa_max_records acc) (pa_max_uncompressed_bytes acc)) (pa_entries acc)
       (partition_groups (pa_layout acc) groups) \<and>
     map le_sequence_ordinal (pa_layout acc) = [0..<length (pa_layout acc)] \<and>
     (case pa_active acc of None \<Rightarrow> current = [] | Some a \<Rightarrow> active_holds acc a current) \<and>
     (\<exists>new. pa_files acc = new @ files0 \<and> (\<forall>p \<in> fst ` set new. path_in (pa_relation acc) p)) \<and>
     (\<forall>i \<ge> length (pa_entries acc). part_path (pa_relation acc) i \<notin> fst ` set (pa_files acc)) \<and>
     (\<forall>n \<ge> pa_logical_record_count acc. \<forall>p \<in> fst ` set (pa_files acc). \<not> path_in (record_directory (pa_relation acc) n) p)"

definition acc_counts :: "(string \<times> string) list \<Rightarrow> partition_accumulator \<Rightarrow> bool" where
  "acc_counts records acc \<longleftrightarrow>
     pa_relation_digest acc = group_data records \<and> pa_logical_record_count acc = length records \<and>
     pa_logical_byte_size acc = length (group_data records)"

lemma flush_fields [simp]:
  "pa_active (partition_flush env acc) = None" "pa_relation (partition_flush env acc) = pa_relation acc"
  "pa_max_records (partition_flush env acc) = pa_max_records acc"
  "pa_max_uncompressed_bytes (partition_flush env acc) = pa_max_uncompressed_bytes acc"
  "pa_logical_record_count (partition_flush env acc) = pa_logical_record_count acc"
  "pa_logical_byte_size (partition_flush env acc) = pa_logical_byte_size acc"
  "pa_relation_digest (partition_flush env acc) = pa_relation_digest acc"
  "pa_oversized_records (partition_flush env acc) = pa_oversized_records acc"
  by (simp_all add: partition_flush_def Let_def split: option.split)

lemma flush_inv:
  assumes inv: "acc_inv env unzstd files0 groups current acc" and zstd: "\<And>s. unzstd (pe_zstd env s) = Some s"
  shows "acc_inv env unzstd files0 (if current = [] then groups else groups @ [current]) [] (partition_flush env acc)"
proof (cases "pa_active acc")
  case None
  then have "partition_flush env acc = acc" "current = []" using inv by (simp_all add: partition_flush_def acc_inv_def)
  then show ?thesis using inv by simp
next
  case (Some a)
  note inv = inv [unfolded acc_inv_def]
  have active: "active_holds acc a current" using inv Some by simp
  let ?p = "ap_relative_path a" and ?z = "pe_zstd env (ap_encoder a)" and ?acc = "partition_flush env acc"
  have p: "?p = part_path (pa_relation acc) (length (pa_entries acc))" using active by (simp add: active_holds_def)
  have fresh: "?p \<notin> fst ` set (pa_files acc)" unfolding p using inv by blast
  have files: "pa_files ?acc = (?p, ?z) # pa_files acc" by (simp add: partition_flush_def Some Let_def)
  note le = map_le_fresh [OF fresh, of ?z]
  let ?e = "\<lparr>le_relation = pa_relation acc, le_sequence_ordinal = length (pa_layout acc), le_kind = ''ndjson_partition'', le_path = ?p\<rparr>"
  have layout: "pa_layout ?acc = pa_layout acc @ [?e]" by (simp add: partition_flush_def Some Let_def)
  obtain entry where entries: "pa_entries ?acc = pa_entries acc @ [entry]"
      and entry: "entry_describes env (pa_files ?acc) (pa_max_records acc) (pa_max_uncompressed_bytes acc) entry current"
    using active by (simp add: partition_flush_def Some Let_def entry_describes_def active_holds_def)
  have current: "current \<noteq> []" using active by (simp add: active_holds_def)
  have "layout_reads env unzstd (pa_files ?acc) ?e (group_data current)"
    using zstd active by (simp add: layout_reads_def files active_holds_def)
  moreover have "list_all2 (\<lambda>e g. layout_reads env unzstd (pa_files ?acc) e (group_data g)) (pa_layout acc) groups"
    by (rule list_all2_mono [OF conjunct1 [OF inv]]) (unfold files, rule layout_reads_mono [OF le])
  ultimately have reads: "list_all2 (\<lambda>e g. layout_reads env unzstd (pa_files ?acc) e (group_data g)) (pa_layout ?acc) (groups @ [current])"
    unfolding layout by (simp add: list_all2_appendI)
  have len: "length (pa_layout acc) = length groups" using conjunct1 [OF inv] by (rule list_all2_lengthD)
  have "list_all2 (entry_describes env (pa_files ?acc) (pa_max_records acc) (pa_max_uncompressed_bytes acc)) (pa_entries acc)
      (partition_groups (pa_layout acc) groups)"
    by (rule list_all2_mono [OF conjunct1 [OF conjunct2 [OF inv]]]) (unfold files, rule entry_describes_mono [OF le])
  then have described: "list_all2 (entry_describes env (pa_files ?acc) (pa_max_records acc) (pa_max_uncompressed_bytes acc)) (pa_entries ?acc)
      (partition_groups (pa_layout ?acc) (groups @ [current]))"
    unfolding entries layout partition_groups_snoc [OF len] using entry by (simp add: list_all2_appendI)
  have seq: "map le_sequence_ordinal (pa_layout ?acc) = [0..<length (pa_layout ?acc)]" using inv unfolding layout by simp
  obtain new where new: "pa_files acc = new @ files0" "\<forall>p \<in> fst ` set new. path_in (pa_relation acc) p" using inv by blast
  have "pa_files ?acc = ((?p, ?z) # new) @ files0" "\<forall>q \<in> fst ` set ((?p, ?z) # new). path_in (pa_relation acc) q"
    using new part_path_in [of "pa_relation acc"] by (simp_all add: files p)
  moreover have "part_path (pa_relation acc) i \<notin> fst ` set (pa_files ?acc)" if "length (pa_entries ?acc) \<le> i" for i
    using that inv part_path_inj [of "pa_relation acc" i "length (pa_entries acc)"] unfolding files entries p by auto
  moreover have "\<not> path_in (record_directory (pa_relation acc) n) q" if "pa_logical_record_count acc \<le> n" "q \<in> fst ` set (pa_files ?acc)" for n q
    using that inv part_path_not_record [of "pa_relation acc" n] unfolding files p by auto
  ultimately show ?thesis using reads described seq current unfolding acc_inv_def by (auto intro!: exI [of _ "(?p, ?z) # new"])
qed

lemma flush_counts: "acc_counts records (partition_flush env acc) = acc_counts records acc"
  by (simp add: acc_counts_def)

section \<open>Pushing a record\<close>

lemma count_recordD:
  assumes "count_record acc n = Inr acc'"
  shows "acc' = acc\<lparr>pa_logical_record_count := pa_logical_record_count acc + 1, pa_logical_byte_size := pa_logical_byte_size acc + n\<rparr>"
  using assms by (auto simp: count_record_def split: if_splits)

lemma make_room_inv:
  fixes n :: nat
  assumes inv: "acc_inv env unzstd files0 groups current acc" and zstd: "\<And>s. unzstd (pe_zstd env s) = Some s"
  defines "acc1 \<equiv> make_room env acc n"
  shows "\<exists>groups1 current1. acc_inv env unzstd files0 groups1 current1 acc1 \<and> concat groups1 @ current1 = concat groups @ current \<and>
    (\<forall>a. pa_active acc1 = Some a \<longrightarrow> ap_record_count a < pa_max_records acc1 \<and>
       saturating_add (ap_uncompressed_bytes a) n \<le> pa_max_uncompressed_bytes acc1)"
proof (cases "acc1 = partition_flush env acc")
  case True
  then have "acc_inv env unzstd files0 (if current = [] then groups else groups @ [current]) [] acc1"
    using flush_inv [OF inv zstd] by simp
  then show ?thesis using True by (intro exI conjI) (assumption, auto)
next
  case False
  then have "acc1 = acc" "\<forall>a. pa_active acc1 = Some a \<longrightarrow> ap_record_count a < pa_max_records acc1 \<and>
       saturating_add (ap_uncompressed_bytes a) n \<le> pa_max_uncompressed_bytes acc1"
    unfolding acc1_def by (auto simp: make_room_def split: option.splits if_splits)
  then show ?thesis using inv by blast
qed

lemma make_room_fields [simp]:
  "pa_relation (make_room env acc n) = pa_relation acc" "pa_max_records (make_room env acc n) = pa_max_records acc"
  "pa_max_uncompressed_bytes (make_room env acc n) = pa_max_uncompressed_bytes acc"
  "pa_logical_record_count (make_room env acc n) = pa_logical_record_count acc"
  "pa_logical_byte_size (make_room env acc n) = pa_logical_byte_size acc"
  "pa_relation_digest (make_room env acc n) = pa_relation_digest acc"
  by (simp_all add: make_room_def split: option.split)

lemma acc_inv_activate:
  assumes inv: "acc_inv env unzstd files0 groups current acc" and active: "active_holds acc a g"
  shows "acc_inv env unzstd files0 groups g
    (acc\<lparr>pa_relation_digest := d, pa_logical_record_count := Suc (pa_logical_record_count acc), pa_logical_byte_size := b, pa_active := Some a\<rparr>)"
proof -
  note inv = inv [unfolded acc_inv_def]
  have "active_holds (acc\<lparr>pa_relation_digest := d, pa_logical_record_count := c, pa_logical_byte_size := b, pa_active := Some a\<rparr>) a g" for c
    using active by (simp add: active_holds_def)
  then show ?thesis unfolding acc_inv_def
    by (intro conjI) (use inv in \<open>simp_all add: Suc_le_eq less_imp_le\<close>)
qed

lemma push_small:
  assumes push: "push_bytes_with_cancellation env cancellation acc key bytes = Inr acc'"
    and small: "length bytes \<le> pa_max_uncompressed_bytes acc" and records: "0 < pa_max_records acc"
    and inv: "acc_inv env unzstd files0 groups current acc" and zstd: "\<And>s. unzstd (pe_zstd env s) = Some s"
  shows "\<exists>groups' current'. acc_inv env unzstd files0 groups' current' acc' \<and>
    concat groups' @ current' = concat groups @ current @ [(key, bytes)]"
proof -
  let ?acc1 = "make_room env acc (length bytes)"
  obtain groups1 current1 where inv1: "acc_inv env unzstd files0 groups1 current1 ?acc1"
      and same: "concat groups1 @ current1 = concat groups @ current"
      and room: "\<And>a. pa_active ?acc1 = Some a \<Longrightarrow> ap_record_count a < pa_max_records ?acc1 \<and>
        saturating_add (ap_uncompressed_bytes a) (length bytes) \<le> pa_max_uncompressed_bytes ?acc1"
    using make_room_inv [OF inv zstd, of "length bytes"] by blast
  define a0 where "a0 = (case pa_active ?acc1 of None \<Rightarrow> open_partition ?acc1 key | Some active \<Rightarrow> active)"
  define a1 where "a1 = a0\<lparr>ap_encoder := ap_encoder a0 @ bytes, ap_uncompressed_digest := ap_uncompressed_digest a0 @ bytes,
      ap_record_count := ap_record_count a0 + 1, ap_uncompressed_bytes := ap_uncompressed_bytes a0 + length bytes, ap_last_issue_key := key\<rparr>"
  from push small have acc': "acc' = ?acc1\<lparr>pa_relation_digest := pa_relation_digest acc @ bytes,
      pa_logical_record_count := Suc (pa_logical_record_count acc), pa_logical_byte_size := pa_logical_byte_size acc + length bytes,
      pa_active := Some a1\<rparr>" and fits: "ap_uncompressed_bytes a0 + length bytes \<le> u64_max"
    unfolding push_bytes_with_cancellation_def a1_def a0_def [symmetric] Let_def
    by (auto simp: res_simps a0_def [symmetric] dest!: count_recordD split: if_splits)
  have "active_holds ?acc1 a1 (current1 @ [(key, bytes)])"
  proof (cases "pa_active ?acc1")
    case None
    then have "current1 = []" "a0 = open_partition ?acc1 key" using inv1 by (simp_all add: acc_inv_def a0_def)
    then show ?thesis using small records by (simp add: active_holds_def a1_def open_partition_def)
  next
    case (Some a)
    then have a: "a0 = a" "active_holds ?acc1 a current1" using inv1 by (simp_all add: acc_inv_def a0_def)
    have "length (group_data current1) + length bytes \<le> pa_max_uncompressed_bytes ?acc1"
      using room [OF Some] fits a by (simp add: active_holds_def saturating_add_def)
    moreover have "length current1 < pa_max_records ?acc1" using room [OF Some] a by (simp add: active_holds_def)
    ultimately show ?thesis using a by (auto simp: active_holds_def a1_def)
  qed
  from acc_inv_activate [OF inv1 this] have "acc_inv env unzstd files0 groups1 (current1 @ [(key, bytes)]) acc'" by (simp add: acc')
  then show ?thesis using same by (metis append.assoc)
qed

lemma push_counts:
  assumes push: "push_bytes_with_cancellation env cancellation acc key bytes = Inr acc'" and counts: "acc_counts records acc"
  shows "acc_counts (records @ [(key, bytes)]) acc' \<and> pa_relation acc' = pa_relation acc \<and> pa_max_records acc' = pa_max_records acc \<and>
    pa_max_uncompressed_bytes acc' = pa_max_uncompressed_bytes acc"
  using push counts unfolding push_bytes_with_cancellation_def push_oversized_record_def
  by (auto simp: Let_def res_simps acc_counts_def dest!: count_recordD split: if_splits)

lemma write_chunkD:
  assumes "write_chunk env cancellation n d (files, cs, arts) (k, s) = Inr t"
  shows "\<exists>arts1. t = ((chunk_path d k, s) # files,
    cs @ [\<lparr>oh_ordinal = k, oh_path = chunk_path d k, oh_byte_size = length s, oh_sha256 = pe_sha256_hex env s\<rparr>], arts1)"
  using assms by (auto simp: write_chunk_def Let_def split: if_splits)

lemma write_chunks:
  assumes "try_fold (write_chunk env cancellation n d) (files, cs, arts) (List.enumerate k pieces) = Inr (files', cs', arts')"
    and "\<forall>i \<ge> k. chunk_path d i \<notin> fst ` set files" and "\<forall>s \<in> set pieces. length s \<le> OVERSIZED_RECORD_CHUNK_BYTES"
  shows "\<exists>new cs1. files' = new @ files \<and> (\<forall>p \<in> fst ` set new. \<exists>i. p = chunk_path d i) \<and> cs' = cs @ cs1 \<and>
    list_all2 (chunk_reads env files') cs1 pieces \<and> map_of files \<subseteq>\<^sub>m map_of files'"
  using assms
proof (induction pieces arbitrary: k files cs arts)
  case (Cons s pieces)
  let ?c = "\<lparr>oh_ordinal = k, oh_path = chunk_path d k, oh_byte_size = length s, oh_sha256 = pe_sha256_hex env s\<rparr>"
  from Cons.prems(1) obtain arts1 where
      "try_fold (write_chunk env cancellation n d) ((chunk_path d k, s) # files, cs @ [?c], arts1) (List.enumerate (Suc k) pieces) = Inr (files', cs', arts')"
    by (auto simp: res_simps dest!: write_chunkD)
  moreover have "\<forall>i \<ge> Suc k. chunk_path d i \<notin> fst ` set ((chunk_path d k, s) # files)"
    using Cons.prems(2) by (auto dest: chunk_path_inj)
  ultimately obtain new cs1 where IH: "files' = new @ (chunk_path d k, s) # files" "\<forall>p \<in> fst ` set new. \<exists>i. p = chunk_path d i"
      "cs' = (cs @ [?c]) @ cs1" "list_all2 (chunk_reads env files') cs1 pieces" "map_of ((chunk_path d k, s) # files) \<subseteq>\<^sub>m map_of files'"
    using Cons.IH Cons.prems(3) by (metis list.set_intros(2))
  have "map_of files' (chunk_path d k) = Some s" using IH(5) by (simp add: map_le_def)
  then have "chunk_reads env files' ?c s" using Cons.prems(3) by (simp add: chunk_reads_def)
  moreover have "map_of files \<subseteq>\<^sub>m map_of ((chunk_path d k, s) # files)" by (rule map_le_fresh) (use Cons.prems(2) in blast)
  ultimately show ?case using IH map_le_trans
    by (intro exI [of _ "new @ [(chunk_path d k, s)]"] exI [of _ "?c # cs1"]) auto
qed simp

lemma chunk_lengths: "s \<in> set (chunks n xs) \<Longrightarrow> length s \<le> n"
proof (induction n xs rule: chunks.induct)
  case (1 n xs)
  show ?case
  proof (cases "xs = [] \<or> n = 0")
    case True
    then show ?thesis using 1(2) by (simp add: chunks.simps [of n xs])
  next
    case False
    then have "s = take n xs \<or> s \<in> set (chunks n (drop n xs))" using 1(2) by (simp add: chunks.simps [of n xs])
    then show ?thesis using 1(1) [OF False] by auto
  qed
qed

lemma fresh_after_record:
  assumes written: "\<And>p. p \<in> fst ` set files' \<Longrightarrow> path_in (record_directory r n) p \<or> p \<in> fst ` set files"
    and parts: "\<forall>i \<ge> k. part_path r i \<notin> fst ` set files"
    and dirs: "\<forall>m \<ge> n. \<forall>p \<in> fst ` set files. \<not> path_in (record_directory r m) p"
  shows "\<forall>i \<ge> k. part_path r i \<notin> fst ` set files'" and "\<forall>m \<ge> Suc n. \<forall>p \<in> fst ` set files'. \<not> path_in (record_directory r m) p"
proof -
  show "\<forall>i \<ge> k. part_path r i \<notin> fst ` set files'" using written parts part_path_not_record by blast
  show "\<forall>m \<ge> Suc n. \<forall>p \<in> fst ` set files'. \<not> path_in (record_directory r m) p"
  proof (intro allI impI ballI notI)
    fix m p
    assume m: "Suc n \<le> m" "p \<in> fst ` set files'" "path_in (record_directory r m) p"
    from written [OF m(2)] show False
    proof
      assume "path_in (record_directory r n) p"
      with m(3) have "m = n" by (rule record_directory_inj)
      with m(1) show False by simp
    next
      assume "p \<in> fst ` set files"
      with m(1,3) show False using dirs by (meson Suc_leD)
    qed
  qed
qed

lemma push_oversized:
  assumes push: "push_oversized_record env cancellation acc key bytes = Inr acc'"
    and inv: "acc_inv env unzstd files0 groups current acc" and zstd: "\<And>s. unzstd (pe_zstd env s) = Some s"
  shows "\<exists>groups'. acc_inv env unzstd files0 groups' [] acc' \<and> concat groups' = concat groups @ current @ [(key, bytes)]"
proof -
  define acc1 where "acc1 = partition_flush env acc"
  define groups1 where "groups1 = (if current = [] then groups else groups @ [current])"
  let ?r = "pa_relation acc" and ?n = "pa_logical_record_count acc"
  let ?d = "record_directory ?r ?n" and ?logical = "butlast bytes"
  let ?pieces = "chunks OVERSIZED_RECORD_CHUNK_BYTES ?logical"
  let ?ip = "?d @ ''/index.json''"
  have inv1: "acc_inv env unzstd files0 groups1 [] acc1" using flush_inv [OF inv zstd] by (simp add: acc1_def groups1_def)
  note i1 = inv1 [unfolded acc_inv_def]
  have fields: "pa_relation acc1 = ?r" "pa_logical_record_count acc1 = ?n" "pa_active acc1 = None" by (simp_all add: acc1_def)
  from push have framed: "bytes \<noteq> []" "last bytes = newline" by (auto simp: push_oversized_record_def split: if_splits)
  then have bytes: "bytes = ?logical @ [newline]" by (metis append_butlast_last_id)
  from push framed obtain files cs arts index over arts' where
      fold: "try_fold (write_chunk env cancellation ?n ?d) (pa_files acc1, [], pa_artifacts acc1) (List.enumerate 0 ?pieces) = Inr (files, cs, arts)"
    and acc': "count_record (acc1\<lparr>pa_files := (?ip, write_canonical_json (pe_string_text env) (index_json index)) # files,
        pa_artifacts := arts',
        pa_layout := pa_layout acc1 @ [\<lparr>le_relation = ?r, le_sequence_ordinal = length (pa_layout acc1), le_kind = ''oversized_record'', le_path = ?ip\<rparr>],
        pa_oversized_records := over, pa_relation_digest := pa_relation_digest acc1 @ bytes\<rparr>) (length bytes) = Inr acc'"
    and index: "ox_chunk_count index = length (ox_chunks index)" "ox_chunks index = cs" "ox_logical_byte_size index = length ?logical"
      "ox_logical_sha256 index = pe_sha256_hex env ?logical"
    unfolding push_oversized_record_def acc1_def by (auto simp: Let_def res_simps)
  let ?e = "\<lparr>le_relation = ?r, le_sequence_ordinal = length (pa_layout acc1), le_kind = ''oversized_record'', le_path = ?ip\<rparr>"
  let ?files' = "(?ip, write_canonical_json (pe_string_text env) (index_json index)) # files"
  have nodir: "\<forall>m \<ge> ?n. \<forall>p \<in> fst ` set (pa_files acc1). \<not> path_in (record_directory ?r m) p"
    using i1 unfolding fields by blast
  have none: "\<not> path_in ?d p" if "p \<in> fst ` set (pa_files acc1)" for p using nodir that by blast
  then have "\<forall>i \<ge> 0. chunk_path ?d i \<notin> fst ` set (pa_files acc1)" using chunk_path_in by blast
  from write_chunks [OF fold this] obtain new where new: "files = new @ pa_files acc1" "\<forall>p \<in> fst ` set new. \<exists>i. p = chunk_path ?d i"
      "list_all2 (chunk_reads env files) cs ?pieces" "map_of (pa_files acc1) \<subseteq>\<^sub>m map_of files"
    using chunk_lengths by (metis append_Nil)
  have "path_in ?d ?ip" using path_in_append [of ?d "''index.json''"] by simp
  then have "?ip \<notin> fst ` set (pa_files acc1)" using none by blast
  moreover have "?ip \<notin> fst ` set new" using new(2) chunk_path_not_index by metis
  ultimately have ip: "?ip \<notin> fst ` set files" by (simp add: new(1) image_Un)
  note le1 = map_le_fresh [OF ip, of "write_canonical_json (pe_string_text env) (index_json index)"]
  have le: "map_of (pa_files acc1) \<subseteq>\<^sub>m map_of ?files'" by (rule map_le_trans [OF new(4) le1])
  have pieces: "concat ?pieces = ?logical" by (rule concat_chunks) (simp add: OVERSIZED_RECORD_CHUNK_BYTES_def)
  have "list_all2 (chunk_reads env ?files') cs ?pieces" by (rule list_all2_mono [OF new(3)]) (rule chunk_reads_mono [OF le1])
  then have "oversized_reads env ?files' ?ip bytes"
    unfolding oversized_reads_def using index pieces bytes by (intro exI [of _ index] exI [of _ ?pieces]) simp
  then have "layout_reads env unzstd ?files' ?e (group_data [(key, bytes)])" by (simp add: layout_reads_def)
  moreover have "list_all2 (\<lambda>e g. layout_reads env unzstd ?files' e (group_data g)) (pa_layout acc1) groups1"
    by (rule list_all2_mono [OF conjunct1 [OF i1]]) (rule layout_reads_mono [OF le])
  ultimately have reads: "list_all2 (\<lambda>e g. layout_reads env unzstd ?files' e (group_data g)) (pa_layout acc1 @ [?e]) (groups1 @ [[(key, bytes)]])"
    by (simp add: list_all2_appendI)
  have len: "length (pa_layout acc1) = length groups1" using conjunct1 [OF i1] by (rule list_all2_lengthD)
  have described: "list_all2 (entry_describes env ?files' (pa_max_records acc1) (pa_max_uncompressed_bytes acc1)) (pa_entries acc1)
      (partition_groups (pa_layout acc1 @ [?e]) (groups1 @ [[(key, bytes)]]))"
    unfolding partition_groups_snoc [OF len] using list_all2_mono [OF conjunct1 [OF conjunct2 [OF i1]] entry_describes_mono [OF le]] by simp
  have seq: "map le_sequence_ordinal (pa_layout acc1 @ [?e]) = [0..<length (pa_layout acc1 @ [?e])]" using i1 by simp
  obtain old where old: "pa_files acc1 = old @ files0" "\<forall>p \<in> fst ` set old. path_in ?r p" using i1 fields by auto
  have written: "p \<in> fst ` set ?files' \<Longrightarrow> path_in ?d p \<or> p \<in> fst ` set (pa_files acc1)" for p
    using new(1,2) path_in_append [of ?d "''index.json''"] chunk_path_in [of ?d] by auto
  have added: "?files' = (((?ip, write_canonical_json (pe_string_text env) (index_json index)) # new @ old) @ files0)"
      "\<forall>p \<in> fst ` set ((?ip, write_canonical_json (pe_string_text env) (index_json index)) # new @ old). path_in ?r p"
    using new(1,2) old record_path_in [of ?r ?n] path_in_append [of ?d "''index.json''"] chunk_path_in [of ?d] by auto
  have "\<forall>i \<ge> length (pa_entries acc1). part_path ?r i \<notin> fst ` set (pa_files acc1)" using i1 unfolding fields by blast
  note fresh = fresh_after_record [OF written this nodir]
  have parts: "part_path ?r i \<notin> fst ` set ?files'" if "length (pa_entries acc1) \<le> i" for i using fresh(1) that by blast
  have dirs: "\<not> path_in (record_directory ?r m) p" if "Suc ?n \<le> m" "p \<in> fst ` set ?files'" for m p using fresh(2) that by blast
  have "acc_inv env unzstd files0 (groups1 @ [[(key, bytes)]]) [] acc'"
    unfolding acc_inv_def count_recordD [OF acc']
    by (intro conjI) (use reads described seq added parts dirs fields in \<open>simp_all add: exI\<close>)
  moreover have "concat (groups1 @ [[(key, bytes)]]) = concat groups @ current @ [(key, bytes)]" by (simp add: groups1_def)
  ultimately show ?thesis by blast
qed

lemma push_inv:
  assumes push: "push_bytes_with_cancellation env cancellation acc key bytes = Inr acc'"
    and records: "0 < pa_max_records acc" and inv: "acc_inv env unzstd files0 groups current acc" and zstd: "\<And>s. unzstd (pe_zstd env s) = Some s"
  shows "\<exists>groups' current'. acc_inv env unzstd files0 groups' current' acc' \<and>
    concat groups' @ current' = concat groups @ current @ [(key, bytes)]"
proof (cases "length bytes \<le> pa_max_uncompressed_bytes acc")
  case True
  then show ?thesis by (rule push_small [OF push _ records inv zstd])
next
  case False
  then have "push_oversized_record env cancellation acc key bytes = Inr acc'"
    using push by (simp add: push_bytes_with_cancellation_def)
  from push_oversized [OF this inv zstd] show ?thesis by (metis append_Nil2)
qed

definition push_all ::
  "partition_env \<Rightarrow> (string \<Rightarrow> nat \<Rightarrow> nat \<Rightarrow> bool) option \<Rightarrow> partition_accumulator \<Rightarrow> (string \<times> string) list
   \<Rightarrow> partition_error + partition_accumulator" where
  "push_all env cancellation = try_fold (\<lambda>acc (key, bytes). push_bytes_with_cancellation env cancellation acc key bytes)"

lemma push_all_inv:
  assumes "push_all env cancellation acc records = Inr acc'" and "0 < pa_max_records acc"
    and "acc_inv env unzstd files0 groups current acc" and "acc_counts done acc" and zstd: "\<And>s. unzstd (pe_zstd env s) = Some s"
  shows "acc_counts (done @ records) acc' \<and> pa_relation acc' = pa_relation acc \<and> pa_max_records acc' = pa_max_records acc \<and>
    pa_max_uncompressed_bytes acc' = pa_max_uncompressed_bytes acc \<and>
    (\<exists>groups' current'. acc_inv env unzstd files0 groups' current' acc' \<and> concat groups' @ current' = concat groups @ current @ records)"
  using assms(1-4)
proof (induction records arbitrary: acc groups current "done")
  case Nil
  then have "acc' = acc" by (simp add: push_all_def)
  then show ?case using Nil by (intro conjI exI [of _ groups] exI [of _ current]) simp_all
next
  case (Cons r records)
  obtain key bytes where r: "r = (key, bytes)" by fastforce
  from Cons.prems(1) obtain acc1 where push: "push_bytes_with_cancellation env cancellation acc key bytes = Inr acc1"
      and rest: "push_all env cancellation acc1 records = Inr acc'"
    by (auto simp: push_all_def r res_simps)
  note counts = push_counts [OF push Cons.prems(4)]
  obtain groups1 current1 where inv1: "acc_inv env unzstd files0 groups1 current1 acc1"
      and same: "concat groups1 @ current1 = concat groups @ current @ [(key, bytes)]"
    using push_inv [OF push Cons.prems(2,3) zstd] by blast
  have "0 < pa_max_records acc1" using counts Cons.prems(2) by simp
  from Cons.IH [OF rest this inv1 conjunct1 [OF counts]] obtain groups' current' where
      IH: "acc_counts ((done @ [(key, bytes)]) @ records) acc'" "pa_relation acc' = pa_relation acc1" "pa_max_records acc' = pa_max_records acc1"
        "pa_max_uncompressed_bytes acc' = pa_max_uncompressed_bytes acc1" "acc_inv env unzstd files0 groups' current' acc'"
        "concat groups' @ current' = concat groups1 @ current1 @ records"
    by blast
  have "concat groups' @ current' = concat groups @ current @ r # records" using IH(6) same r by (metis append.assoc append_Cons append_Nil)
  then show ?case using IH counts r by (intro conjI exI [of _ groups'] exI [of _ current']) simp_all
qed

lemma acc_inv_new:
  assumes "\<forall>p \<in> fst ` set files. \<not> path_in relation p"
  shows "acc_inv env unzstd files [] [] (accumulator_with_limits files relation max_records max_bytes)"
proof -
  have "part_path relation i \<notin> fst ` set files" for i using assms part_path_in by blast
  moreover have "\<not> path_in (record_directory relation n) p" if "p \<in> fst ` set files" for n p using assms that record_path_in by blast
  ultimately show ?thesis
    by (simp add: acc_inv_def accumulator_with_limits_def partition_accumulator_new_def partition_groups_def)
qed

lemma acc_counts_new: "acc_counts [] (accumulator_with_limits files relation max_records max_bytes)"
  by (simp add: acc_counts_def accumulator_with_limits_def partition_accumulator_new_def)

text \<open>What a finished relation promises about a stream of records.\<close>

definition restores ::
  "partition_env \<Rightarrow> (string \<Rightarrow> string option) \<Rightarrow> file_store \<Rightarrow> string \<Rightarrow> nat \<Rightarrow> nat \<Rightarrow> (string \<times> string) list \<Rightarrow> partition_finish_result \<Rightarrow> bool" where
  "restores env unzstd files relation max_records max_bytes records out \<longleftrightarrow>
     (\<exists>groups. concat groups = records \<and>
        list_all2 (\<lambda>e g. layout_reads env unzstd (pf_files out) e (group_data g)) (pf_layout out) groups \<and>
        list_all2 (entry_describes env (pf_files out) max_records max_bytes) (pf_entries out) (partition_groups (pf_layout out) groups)) \<and>
     map le_sequence_ordinal (pf_layout out) = [0..<length (pf_layout out)] \<and>
     pf_relation_sha256 out = pe_sha256_hex env (group_data records) \<and> pf_logical_record_count out = length records \<and>
     pf_logical_byte_size out = length (group_data records) \<and>
     (\<exists>new. pf_files out = new @ files \<and> (\<forall>p \<in> fst ` set new. path_in relation p))"

lemma push_all_restores:
  assumes push: "push_all env cancellation (accumulator_with_limits files relation max_records max_bytes) records = Inr acc"
    and fresh: "\<forall>p \<in> fst ` set files. \<not> path_in relation p" and max: "0 < max_records" and zstd: "\<And>s. unzstd (pe_zstd env s) = Some s"
  shows "restores env unzstd files relation max_records max_bytes records (partition_finish env acc)"
proof -
  let ?acc0 = "accumulator_with_limits files relation max_records max_bytes"
  have limits: "pa_relation ?acc0 = relation" "pa_max_records ?acc0 = max_records" "pa_max_uncompressed_bytes ?acc0 = max_bytes"
    by (simp_all add: accumulator_with_limits_def partition_accumulator_new_def)
  obtain groups current where inv: "acc_inv env unzstd files groups current acc" and all: "concat groups @ current = records"
      and counts: "acc_counts records acc"
      and same: "pa_relation acc = relation" "pa_max_records acc = max_records" "pa_max_uncompressed_bytes acc = max_bytes"
    using push_all_inv [OF push _ acc_inv_new [OF fresh] acc_counts_new zstd] max limits by auto
  let ?groups = "if current = [] then groups else groups @ [current]"
  note flushed = flush_inv [OF inv zstd, unfolded acc_inv_def]
  have "concat ?groups = records" using all by (cases "current = []") simp_all
  then show ?thesis
    using flushed counts unfolding restores_def partition_finish_def Let_def
    by (intro conjI exI [of _ ?groups]) (simp_all add: same acc_counts_def)
qed

section \<open>Properties\<close>

text \<open>
  C21. A stream of records pushed into an accumulator is restored by its layout: reading the entries in their order,
  decompressing partitions and joining the chunks of oversized records, yields groups of whole records whose
  concatenation is the stream. Every partition holds at least one record and stays within both bounds; the manifest has
  the sizes, hashes and first and last keys of its partitions, the hash, count and size of the whole stream,
  and no file outside the directory of the relation is touched.
\<close>

theorem partitions_restore_stream:
  assumes "push_all env cancellation (accumulator_with_limits files relation max_records max_bytes) records = Inr acc"
    and "\<forall>p \<in> fst ` set files. \<not> path_in relation p" and "0 < max_records" and "\<And>s. unzstd (pe_zstd env s) = Some s"
  shows "restores env unzstd files relation max_records max_bytes records (partition_finish env acc)"
  by (rule push_all_restores [OF assms])

definition demo_partition_env :: partition_env where
  "demo_partition_env = \<lparr>pe_string_text = id, pe_sha256_hex = id, pe_zstd = (\<lambda>s. CHR ''z'' # s)\<rparr>"

theorem partitions_restore_stream_witness:
  "\<exists>acc. push_all demo_partition_env None (accumulator_with_limits [] ''r'' 1 4) [(''a'', ''1'' @ [newline]), (''b'', ''12345'' @ [newline])] = Inr acc \<and>
     restores demo_partition_env (\<lambda>z. if z = [] then None else Some (tl z)) [] ''r'' 1 4
       [(''a'', ''1'' @ [newline]), (''b'', ''12345'' @ [newline])] (partition_finish demo_partition_env acc)"
proof -
  let ?acc0 = "accumulator_with_limits [] ''r'' 1 4" and ?records = "[(''a'', ''1'' @ [newline]), (''b'', ''12345'' @ [newline])]"
  have ch: "chunks OVERSIZED_RECORD_CHUNK_BYTES ''12345'' = [''12345'']"
    by (simp add: chunks.simps OVERSIZED_RECORD_CHUNK_BYTES_def)
  have "\<exists>acc. push_all demo_partition_env None ?acc0 ?records = Inr acc"
    by (simp add: push_all_def push_bytes_with_cancellation_def accumulator_with_limits_def partition_accumulator_new_def make_room_def
        open_partition_def count_record_def push_oversized_record_def partition_flush_def ch write_chunk_def Let_def u64_max_def)
  then obtain acc where acc: "push_all demo_partition_env None ?acc0 ?records = Inr acc" by blast
  have "restores demo_partition_env (\<lambda>z. if z = [] then None else Some (tl z)) [] ''r'' 1 4 ?records (partition_finish demo_partition_env acc)"
    by (rule partitions_restore_stream [OF acc]) (simp_all add: demo_partition_env_def)
  with acc show ?thesis by blast
qed

end
