(* ===== verification/Administrative_Evidence.thy ===== *)
theory Administrative_Evidence
  imports Closure_Scan Issue_Partition
begin

text \<open>
  The administrative evidence of a scope closure, \<open>crates/solver-worker/src/scope_closure.rs\<close>: the eight relations of a scan are written
  as partitioned streams for the manifest, and summarized independently for the closure bundle. Theorems: both
  computations give the same summaries, and the layout of every relation restores its stream from the files
  that are there at the end.
\<close>

section \<open>Summaries\<close>

record evidence_summary =
  es_relation :: string
  es_record_count :: nat
  es_logical_byte_size :: nat
  es_logical_sha256 :: string
  es_partition_prefix :: string

datatype evidence_error =
    EvidenceCancelled string
  | EvidencePartition partition_error
  | EvidenceSpoolInvalid nat
  | EvidenceSpool jsonl_error
  | EvidenceByteOverflow
  | EvidenceOrdinalOverflow
  | DocumentUnreadable exact_dataset_identity

definition administrative_partition_prefix :: "string \<Rightarrow> string" where
  "administrative_partition_prefix relation = ''administrative/'' @ relation"

definition documents_visit ::
  "document_spool \<Rightarrow> ('s \<Rightarrow> exact_dataset_identity \<Rightarrow> string \<Rightarrow> evidence_error + 's) \<Rightarrow> 's \<Rightarrow> evidence_error + 's" where
  "documents_visit spool visit s =
     try_fold (\<lambda>s r. case record_bytes_at spool r of
         None \<Rightarrow> Inl (DocumentUnreadable (dr_identity r))
       | Some bytes \<Rightarrow> visit s (dr_identity r) bytes) s (dp_records spool)"

text \<open>The digest is the text fed to the hash so far.\<close>

definition digest_record :: "string \<times> nat \<Rightarrow> string \<Rightarrow> evidence_error + (string \<times> nat)" where
  "digest_record s bytes =
     (case s of (digest, byte_size) \<Rightarrow>
        let n = byte_size + saturating_add (length bytes) 1 in
        if u64_max < n then Inl EvidenceByteOverflow else Inr (digest @ bytes @ [newline], n))"

definition evidence_summary_of :: "jsonl_env \<Rightarrow> string \<Rightarrow> nat \<Rightarrow> string \<times> nat \<Rightarrow> evidence_summary" where
  "evidence_summary_of jenv relation record_count s =
     (case s of (digest, byte_size) \<Rightarrow>
        \<lparr>es_relation = relation, es_record_count = record_count, es_logical_byte_size = byte_size, es_logical_sha256 = je_sha256_hex jenv digest,
         es_partition_prefix = administrative_partition_prefix relation\<rparr>)"

definition summarize_document_records :: "jsonl_env \<Rightarrow> document_spool \<Rightarrow> evidence_error + evidence_summary" where
  "summarize_document_records jenv documents =
     res_bind (documents_visit documents (\<lambda>s _ bytes. digest_record s bytes) ([], 0)) (\<lambda>s.
     Inr (evidence_summary_of jenv ''documents'' (length (dp_records documents)) s))"

definition summarize_jsonl_spool :: "string \<Rightarrow> value_spool \<Rightarrow> evidence_summary" where
  "summarize_jsonl_spool relation spool =
     \<lparr>es_relation = relation, es_record_count = vs_event_count spool, es_logical_byte_size = vs_byte_size spool,
      es_logical_sha256 = vs_sha256 spool, es_partition_prefix = administrative_partition_prefix relation\<rparr>"

definition summarize_values :: "jsonl_env \<Rightarrow> string \<Rightarrow> json list \<Rightarrow> evidence_error + evidence_summary" where
  "summarize_values jenv relation vs =
     res_bind (try_fold (\<lambda>s v. digest_record s (write_canonical_json (je_string_text jenv) v)) ([], 0) vs) (\<lambda>s.
     Inr (evidence_summary_of jenv relation (length vs) s))"

definition administrative_evidence_summaries ::
  "closure_env \<Rightarrow> jsonl_env \<Rightarrow> scope_closure_scan \<Rightarrow> value_spool \<Rightarrow> evidence_error + evidence_summary list" where
  "administrative_evidence_summaries env jenv scan resolution_map =
     res_bind (summarize_document_records jenv (sc_documents scan)) (\<lambda>documents.
     res_bind (summarize_values jenv ''frontier'' (map (identity_json env) (sc_frontier scan))) (\<lambda>frontier.
     res_bind (summarize_values jenv ''omitted-version-resolutions'' (sc_omitted_version_resolutions scan)) (\<lambda>omitted.
     res_bind (summarize_values jenv ''provider-universe'' (map (identity_json env) (sc_provider_universe scan))) (\<lambda>universe.
     res_bind (summarize_values jenv ''roots'' (map (identity_json env) (sc_roots scan))) (\<lambda>roots.
     Inr (sort_key es_relation
            [documents, summarize_jsonl_spool ''edges'' (sc_edges scan), frontier, omitted, universe,
             summarize_jsonl_spool ''resolution-map'' resolution_map,
             summarize_jsonl_spool ''resolved-references'' (sc_resolved_references scan), roots]))))))"

section \<open>The resolution map\<close>

definition json_member :: "json \<Rightarrow> string \<Rightarrow> json" where
  "json_member v key = (case v of JObject entries \<Rightarrow> (case map_of entries key of None \<Rightarrow> JNull | Some w \<Rightarrow> w) | _ \<Rightarrow> JNull)"

definition resolution_request :: "json \<Rightarrow> json" where
  "resolution_request edge =
     json_object [(''kind'', JString ''reference-request''), (''source'', json_member edge ''document_key''),
       (''jsonPath'', json_member edge ''json_path''), (''role'', json_member edge ''reference_role''),
       (''targetCategory'', json_member edge ''target_category''), (''targetId'', json_member edge ''target_uuid''),
       (''requestedVersionState'', json_member edge ''requested_version_state''), (''requestedVersion'', json_member edge ''requested_version'')]"

definition resolution_provenance :: "json \<Rightarrow> json" where
  "resolution_provenance resolution =
     json_object [(''kind'', JString ''omitted-version-resolution''), (''provenance'', resolution)]"

definition build_resolution_map_spool :: "jsonl_env \<Rightarrow> value_spool \<Rightarrow> json list \<Rightarrow> jsonl_error + value_spool" where
  "build_resolution_map_spool jenv edges omitted_resolutions =
     res_bind (visit_jsonl SpoolInvalid (je_parse jenv) (\<lambda>w edge. spool_append jenv w (resolution_request edge)) 0 spool_writer_new (vs_file edges)) (\<lambda>w.
     res_bind (try_fold (\<lambda>w r. spool_append jenv w (resolution_provenance r)) w omitted_resolutions) (\<lambda>w.
     sort_jsonl_spool jenv (spool_finish jenv w)))"

section \<open>Partitioned relations\<close>

definition ADMINISTRATIVE_PARTITION_MAX_RECORDS :: nat where
  "ADMINISTRATIVE_PARTITION_MAX_RECORDS = 25000"

definition ADMINISTRATIVE_PARTITION_MAX_UNCOMPRESSED_BYTES :: nat where
  "ADMINISTRATIVE_PARTITION_MAX_UNCOMPRESSED_BYTES = 32 * 1024 * 1024"

record administrative_output =
  ao_files :: file_store
  ao_summaries :: "evidence_summary list"
  ao_entries :: "partition_manifest_entry list"
  ao_layout :: "layout_entry list"
  ao_oversized_records :: "oversized_manifest_entry list"
  ao_artifacts :: "prepared_artifact list"

definition administrative_accumulator :: "file_store \<Rightarrow> string \<Rightarrow> partition_accumulator" where
  "administrative_accumulator files relation =
     accumulator_with_limits files (administrative_partition_prefix relation) ADMINISTRATIVE_PARTITION_MAX_RECORDS
       ADMINISTRATIVE_PARTITION_MAX_UNCOMPRESSED_BYTES"

definition finish_administrative_relation ::
  "partition_env \<Rightarrow> string \<Rightarrow> partition_accumulator \<Rightarrow> administrative_output \<Rightarrow> administrative_output" where
  "finish_administrative_relation penv relation acc out =
     (let r = partition_finish penv acc in
      \<lparr>ao_files = pf_files r,
       ao_summaries = ao_summaries out @
         [\<lparr>es_relation = relation, es_record_count = pf_logical_record_count r, es_logical_byte_size = pf_logical_byte_size r,
           es_logical_sha256 = pf_relation_sha256 r, es_partition_prefix = administrative_partition_prefix relation\<rparr>],
       ao_entries = ao_entries out @ pf_entries r,
       ao_layout = ao_layout out @ map (\<lambda>e. e\<lparr>le_relation := relation\<rparr>) (pf_layout r),
       ao_oversized_records = ao_oversized_records out @ map (\<lambda>e. e\<lparr>om_relation := relation\<rparr>) (pf_oversized_records r),
       ao_artifacts = ao_artifacts out @ pf_artifacts r\<rparr>)"

text \<open>The answers of the cancellation token are a function of the relation, the stage, the record and the chunk.\<close>

type_synonym cancellation = "string \<Rightarrow> string \<Rightarrow> nat \<Rightarrow> nat \<Rightarrow> bool"

definition push_checked ::
  "partition_env \<Rightarrow> cancellation \<Rightarrow> string \<Rightarrow> string \<Rightarrow> nat \<Rightarrow> string \<Rightarrow> partition_accumulator \<Rightarrow> string
   \<Rightarrow> evidence_error + partition_accumulator" where
  "push_checked penv cancelled relation stage index key acc bytes =
     (if cancelled relation stage index 0 then Inl (EvidenceCancelled stage)
      else map_err EvidencePartition (push_bytes_with_cancellation penv (Some (cancelled relation)) acc key bytes))"

definition prepare_documents_relation ::
  "closure_env \<Rightarrow> partition_env \<Rightarrow> cancellation \<Rightarrow> document_spool \<Rightarrow> administrative_output \<Rightarrow> evidence_error + administrative_output" where
  "prepare_documents_relation env penv cancelled documents out =
     res_bind (documents_visit documents
         (\<lambda>(acc, index) identity bytes.
            res_bind (push_checked penv cancelled ''documents'' ''scope_closure_administrative_documents'' index (document_key env identity) acc
                        (bytes @ [newline])) (\<lambda>acc. Inr (acc, index + 1)))
         (administrative_accumulator (ao_files out) ''documents'', 0)) (\<lambda>(acc, _).
     Inr (finish_administrative_relation penv ''documents'' acc out))"

definition prepare_spooled_administrative_relation ::
  "jsonl_env \<Rightarrow> partition_env \<Rightarrow> cancellation \<Rightarrow> string \<Rightarrow> value_spool \<Rightarrow> administrative_output \<Rightarrow> evidence_error + administrative_output" where
  "prepare_spooled_administrative_relation jenv penv cancelled relation spool out =
     res_bind (visit_jsonl EvidenceSpoolInvalid (je_parse jenv)
         (\<lambda>(acc, ordinal) v.
            res_bind (push_checked penv cancelled relation ''scope_closure_administrative_spool'' ordinal (padded 20 ordinal) acc
                        (write_canonical_json (je_string_text jenv) v @ [newline])) (\<lambda>acc.
            if u64_max < ordinal + 1 then Inl EvidenceOrdinalOverflow else Inr (acc, ordinal + 1)))
         0 (administrative_accumulator (ao_files out) relation, 0) (vs_file spool)) (\<lambda>(acc, _).
     Inr (finish_administrative_relation penv relation acc out))"

definition prepare_values_administrative_relation ::
  "jsonl_env \<Rightarrow> partition_env \<Rightarrow> cancellation \<Rightarrow> string \<Rightarrow> json list \<Rightarrow> administrative_output \<Rightarrow> evidence_error + administrative_output" where
  "prepare_values_administrative_relation jenv penv cancelled relation vs out =
     res_bind (try_fold
         (\<lambda>acc (ordinal, v). push_checked penv cancelled relation ''scope_closure_administrative_values'' ordinal (padded 20 ordinal) acc
                               (write_canonical_json (je_string_text jenv) v @ [newline]))
         (administrative_accumulator (ao_files out) relation) (List.enumerate 0 vs)) (\<lambda>acc.
     Inr (finish_administrative_relation penv relation acc out))"

definition administrative_start :: "file_store \<Rightarrow> administrative_output" where
  "administrative_start files =
     \<lparr>ao_files = files, ao_summaries = [], ao_entries = [], ao_layout = [], ao_oversized_records = [], ao_artifacts = []\<rparr>"

definition sort_administrative_output :: "administrative_output \<Rightarrow> administrative_output" where
  "sort_administrative_output out =
     out\<lparr>ao_summaries := sort_key es_relation (ao_summaries out), ao_entries := sort_key pm_path (ao_entries out),
         ao_layout := sort_key (\<lambda>e. (le_relation e, le_sequence_ordinal e)) (ao_layout out),
         ao_oversized_records := sort_key (\<lambda>e. (om_relation e, om_record_ordinal e)) (ao_oversized_records out),
         ao_artifacts := sort_key (\<lambda>a. am_file_name (pr_descriptor a)) (ao_artifacts out)\<rparr>"

definition prepare_administrative_partition_artifacts ::
  "closure_env \<Rightarrow> jsonl_env \<Rightarrow> partition_env \<Rightarrow> cancellation \<Rightarrow> file_store \<Rightarrow> scope_closure_scan \<Rightarrow> value_spool
   \<Rightarrow> evidence_error + administrative_output" where
  "prepare_administrative_partition_artifacts env jenv penv cancelled files scan resolution_map =
     res_bind (prepare_documents_relation env penv cancelled (sc_documents scan) (administrative_start files)) (\<lambda>out.
     res_bind (prepare_spooled_administrative_relation jenv penv cancelled ''edges'' (sc_edges scan) out) (\<lambda>out.
     res_bind (prepare_values_administrative_relation jenv penv cancelled ''frontier'' (map (identity_json env) (sc_frontier scan)) out) (\<lambda>out.
     res_bind (prepare_values_administrative_relation jenv penv cancelled ''omitted-version-resolutions''
                 (sc_omitted_version_resolutions scan) out) (\<lambda>out.
     res_bind (prepare_values_administrative_relation jenv penv cancelled ''provider-universe''
                 (map (identity_json env) (sc_provider_universe scan)) out) (\<lambda>out.
     res_bind (prepare_spooled_administrative_relation jenv penv cancelled ''resolution-map'' resolution_map out) (\<lambda>out.
     res_bind (prepare_spooled_administrative_relation jenv penv cancelled ''resolved-references'' (sc_resolved_references scan) out) (\<lambda>out.
     res_bind (prepare_values_administrative_relation jenv penv cancelled ''roots'' (map (identity_json env) (sc_roots scan)) out) (\<lambda>out.
     Inr (sort_administrative_output out)))))))))"

section \<open>Every relation is a stream of records\<close>

text \<open>The records of a relation as it is pushed: keys and lines.\<close>

definition document_records :: "closure_env \<Rightarrow> document_spool \<Rightarrow> (string \<times> string) list" where
  "document_records env documents =
     map (\<lambda>r. (document_key env (dr_identity r), the (record_bytes_at documents r) @ [newline])) (dp_records documents)"

definition value_records :: "jsonl_env \<Rightarrow> json list \<Rightarrow> (string \<times> string) list" where
  "value_records jenv vs =
     map (\<lambda>(ordinal, v). (padded 20 ordinal, write_canonical_json (je_string_text jenv) v @ [newline])) (List.enumerate 0 vs)"

definition relation_pushed ::
  "partition_env \<Rightarrow> cancellation \<Rightarrow> string \<Rightarrow> (string \<times> string) list \<Rightarrow> administrative_output \<Rightarrow> administrative_output \<Rightarrow> bool" where
  "relation_pushed penv cancelled relation records out out' \<longleftrightarrow>
     (\<exists>acc. push_all penv (Some (cancelled relation)) (administrative_accumulator (ao_files out) relation) records = Inr acc \<and>
        out' = finish_administrative_relation penv relation acc out)"

lemma push_checkedD:
  "push_checked penv cancelled relation stage index key acc bytes = Inr acc' \<Longrightarrow>
   push_bytes_with_cancellation penv (Some (cancelled relation)) acc key bytes = Inr acc'"
  by (auto simp: push_checked_def res_simps split: if_splits)

lemma documents_fold:
  assumes "try_fold (\<lambda>s r. case record_bytes_at documents r of
         None \<Rightarrow> Inl (DocumentUnreadable (dr_identity r))
       | Some bytes \<Rightarrow> (\<lambda>(acc, index) identity bytes.
            res_bind (push_checked penv cancelled relation stage index (document_key env identity) acc (bytes @ [newline]))
              (\<lambda>acc. Inr (acc, index + 1))) s (dr_identity r) bytes) (acc, n) rs = Inr (acc', n')"
  shows "push_all penv (Some (cancelled relation)) acc
     (map (\<lambda>r. (document_key env (dr_identity r), the (record_bytes_at documents r) @ [newline])) rs) = Inr acc'"
  using assms
proof (induction rs arbitrary: acc n)
  case (Cons r rs)
  obtain bytes where bytes: "record_bytes_at documents r = Some bytes"
    using Cons.prems by (cases "record_bytes_at documents r") simp_all
  with Cons.prems obtain acc1 where "push_checked penv cancelled relation stage n (document_key env (dr_identity r)) acc (bytes @ [newline]) = Inr acc1"
      and rest: "try_fold (\<lambda>s r. case record_bytes_at documents r of
         None \<Rightarrow> Inl (DocumentUnreadable (dr_identity r))
       | Some bytes \<Rightarrow> (\<lambda>(acc, index) identity bytes.
            res_bind (push_checked penv cancelled relation stage index (document_key env identity) acc (bytes @ [newline]))
              (\<lambda>acc. Inr (acc, index + 1))) s (dr_identity r) bytes) (acc1, n + 1) rs = Inr (acc', n')"
    by (auto simp: res_simps)
  from push_checkedD [OF this(1)] Cons.IH [OF rest] show ?case by (simp add: push_all_def bytes)
qed (simp add: push_all_def)

lemma documents_pushed:
  assumes "prepare_documents_relation env penv cancelled documents out = Inr out'"
  shows "relation_pushed penv cancelled ''documents'' (document_records env documents) out out'"
  using assms unfolding prepare_documents_relation_def documents_visit_def relation_pushed_def document_records_def
  by (auto simp: res_bind_eq_Inr dest!: documents_fold)

lemma values_fold:
  assumes "try_fold (\<lambda>acc (ordinal, v). push_checked penv cancelled relation stage ordinal (padded 20 ordinal) acc (c v @ [newline])) acc
     (List.enumerate n vs) = Inr acc'"
  shows "push_all penv (Some (cancelled relation)) acc (map (\<lambda>(ordinal, v). (padded 20 ordinal, c v @ [newline])) (List.enumerate n vs)) = Inr acc'"
  using assms
proof (induction vs arbitrary: acc n)
  case (Cons v vs)
  from Cons.prems obtain acc1 where "push_checked penv cancelled relation stage n (padded 20 n) acc (c v @ [newline]) = Inr acc1"
      and rest: "try_fold (\<lambda>acc (ordinal, v). push_checked penv cancelled relation stage ordinal (padded 20 ordinal) acc (c v @ [newline])) acc1
        (List.enumerate (Suc n) vs) = Inr acc'"
    by (auto simp: res_bind_eq_Inr)
  from push_checkedD [OF this(1)] Cons.IH [OF rest] show ?case by (simp add: push_all_def)
qed (simp add: push_all_def)

lemma values_pushed:
  assumes "prepare_values_administrative_relation jenv penv cancelled relation vs out = Inr out'"
  shows "relation_pushed penv cancelled relation (value_records jenv vs) out out'"
  using assms unfolding prepare_values_administrative_relation_def relation_pushed_def value_records_def
  by (auto simp: res_bind_eq_Inr dest!: values_fold)

lemma spool_fold:
  assumes "try_fold (\<lambda>(acc, ordinal) v.
       res_bind (push_checked penv cancelled relation stage ordinal (padded 20 ordinal) acc (c v @ [newline])) (\<lambda>acc.
       if u64_max < ordinal + 1 then Inl EvidenceOrdinalOverflow else Inr (acc, ordinal + 1))) (acc, n) us = Inr (acc', n')"
  shows "push_all penv (Some (cancelled relation)) acc (map (\<lambda>(ordinal, v). (padded 20 ordinal, c v @ [newline])) (List.enumerate n us)) = Inr acc'"
  using assms
proof (induction us arbitrary: acc n)
  case (Cons u us)
  from Cons.prems obtain acc1 where "push_checked penv cancelled relation stage n (padded 20 n) acc (c u @ [newline]) = Inr acc1"
      and rest: "try_fold (\<lambda>(acc, ordinal) v.
       res_bind (push_checked penv cancelled relation stage ordinal (padded 20 ordinal) acc (c v @ [newline])) (\<lambda>acc.
       if u64_max < ordinal + 1 then Inl EvidenceOrdinalOverflow else Inr (acc, ordinal + 1))) (acc1, Suc n) us = Inr (acc', n')"
    by (auto simp: res_bind_eq_Inr split: if_splits)
  from push_checkedD [OF this(1)] Cons.IH [OF rest] show ?case by (simp add: push_all_def)
qed (simp add: push_all_def)

text \<open>A spool that holds the canonical lines of values, with their count, size and hash.\<close>

definition spool_of :: "jsonl_env \<Rightarrow> json list \<Rightarrow> value_spool \<Rightarrow> bool" where
  "spool_of jenv vs spool \<longleftrightarrow>
     vs_file spool = run_file (map (write_canonical_json (je_string_text jenv)) vs) \<and> vs_event_count spool = length vs \<and>
     vs_byte_size spool = length (vs_file spool) \<and> vs_sha256 spool = je_sha256_hex jenv (vs_file spool) \<and>
     list_all json_wf vs \<and> reads_back jenv vs"

lemma value_records_cong:
  assumes "map (write_canonical_json (je_string_text jenv)) us = map (write_canonical_json (je_string_text jenv)) vs"
  shows "value_records jenv us = value_records jenv vs"
proof -
  have "value_records jenv ws = map (\<lambda>(ordinal, l). (padded 20 ordinal, l @ [newline]))
      (List.enumerate 0 (map (write_canonical_json (je_string_text jenv)) ws))" for ws
    by (simp add: value_records_def enumerate_map_upt enumerate_eq_zip zip_map2 case_prod_unfold)
  then show ?thesis using assms by simp
qed

lemma spool_pushed:
  assumes prep: "prepare_spooled_administrative_relation jenv penv cancelled relation spool out = Inr out'"
    and spool: "spool_of jenv vs spool" and plain: "plain_strings (je_string_text jenv)"
  shows "relation_pushed penv cancelled relation (value_records jenv vs) out out'"
proof -
  let ?c = "write_canonical_json (je_string_text jenv)" and ?us = "map (\<lambda>l. the (je_parse jenv l)) (map (write_canonical_json (je_string_text jenv)) vs)"
  have wf: "list_all json_wf vs" "reads_back jenv vs" and content: "vs_file spool = run_file (map ?c vs)"
    using spool by (simp_all add: spool_of_def)
  note reread = spool_rereads [OF plain wf refl]
  from prep obtain acc n where visit: "visit_jsonl EvidenceSpoolInvalid (je_parse jenv) (\<lambda>(acc, ordinal) v.
            res_bind (push_checked penv cancelled relation ''scope_closure_administrative_spool'' ordinal (padded 20 ordinal) acc (?c v @ [newline])) (\<lambda>acc.
            if u64_max < ordinal + 1 then Inl EvidenceOrdinalOverflow else Inr (acc, ordinal + 1)))
         0 (administrative_accumulator (ao_files out) relation, 0) (run_file (map ?c vs)) = Inr (acc, n)"
      and out': "out' = finish_administrative_relation penv relation acc out"
    unfolding prepare_spooled_administrative_relation_def content by (auto simp: res_bind_eq_Inr)
  have "push_all penv (Some (cancelled relation)) (administrative_accumulator (ao_files out) relation) (value_records jenv ?us) = Inr acc"
    using spool_fold [OF visit [unfolded reread(1)]] by (simp only: value_records_def)
  then show ?thesis unfolding relation_pushed_def out' value_records_cong [OF reread(2)] by blast
qed

section \<open>Relations do not disturb each other\<close>

definition stream_summary :: "partition_env \<Rightarrow> string \<times> (string \<times> string) list \<Rightarrow> evidence_summary" where
  "stream_summary penv s =
     (case s of (relation, records) \<Rightarrow>
        \<lparr>es_relation = relation, es_record_count = length records, es_logical_byte_size = length (group_data records),
         es_logical_sha256 = pe_sha256_hex penv (group_data records), es_partition_prefix = administrative_partition_prefix relation\<rparr>)"

definition relation_layout :: "string \<Rightarrow> layout_entry list \<Rightarrow> layout_entry list" where
  "relation_layout relation layout = filter (\<lambda>e. le_relation e = relation) layout"

definition relation_restored ::
  "partition_env \<Rightarrow> (string \<Rightarrow> string option) \<Rightarrow> administrative_output \<Rightarrow> string \<times> (string \<times> string) list \<Rightarrow> bool" where
  "relation_restored penv unzstd out s \<longleftrightarrow>
     (case s of (relation, records) \<Rightarrow>
        \<exists>groups. concat groups = records \<and>
          list_all2 (\<lambda>e g. layout_reads penv unzstd (ao_files out) e (group_data g)) (relation_layout relation (ao_layout out)) groups)"

definition evidence_inv ::
  "partition_env \<Rightarrow> (string \<Rightarrow> string option) \<Rightarrow> file_store \<Rightarrow> (string \<times> (string \<times> string) list) list \<Rightarrow> administrative_output \<Rightarrow> bool" where
  "evidence_inv penv unzstd files streams out \<longleftrightarrow>
     (\<forall>s \<in> set streams. relation_restored penv unzstd out s) \<and> ao_summaries out = map (stream_summary penv) streams \<and>
     le_relation ` set (ao_layout out) \<subseteq> fst ` set streams \<and>
     (\<forall>relation. map le_sequence_ordinal (relation_layout relation (ao_layout out)) =
        [0..<length (relation_layout relation (ao_layout out))]) \<and>
     (\<exists>new. ao_files out = new @ files \<and>
        (\<forall>p \<in> fst ` set new. \<exists>relation \<in> fst ` set streams. path_in (administrative_partition_prefix relation) p))"

lemma prefix_disjoint:
  assumes "CHR ''/'' \<notin> set r" "CHR ''/'' \<notin> set r'" "path_in (administrative_partition_prefix r) p" "path_in (administrative_partition_prefix r') p"
  shows "r = r'"
proof -
  from assms(3,4) obtain x y where "r @ CHR ''/'' # x = r' @ CHR ''/'' # y"
    by (auto simp: path_in_def administrative_partition_prefix_def)
  then show ?thesis by (rule append_sep_eq [OF assms(1,2)])
qed

lemma layout_reads_relation: "layout_reads penv unzstd files (e\<lparr>le_relation := r\<rparr>) b = layout_reads penv unzstd files e b"
  by (simp add: layout_reads_def)

lemma map_le_append: "fst ` set new \<inter> fst ` set files = {} \<Longrightarrow> map_of files \<subseteq>\<^sub>m map_of (new @ files)"
proof (induction new)
  case (Cons x new)
  obtain p c where x: "x = (p, c)" by fastforce
  have "p \<notin> fst ` set files" using Cons.prems x by auto
  moreover have "map_of files \<subseteq>\<^sub>m map_of (new @ files)" using Cons by auto
  ultimately show ?case by (auto simp: map_le_def x dom_map_of_conv_image_fst)
qed simp

lemma evidence_step:
  assumes inv: "evidence_inv penv unzstd files streams out" and pushed: "relation_pushed penv cancelled relation records out out'"
    and new_relation: "relation \<notin> fst ` set streams" and slash: "\<forall>r \<in> insert relation (fst ` set streams). CHR ''/'' \<notin> set r"
    and fresh: "\<forall>p \<in> fst ` set files. \<not> path_in (administrative_partition_prefix relation) p" and zstd: "\<And>s. unzstd (pe_zstd penv s) = Some s"
  shows "evidence_inv penv unzstd files (streams @ [(relation, records)]) out'"
proof -
  let ?prefix = "administrative_partition_prefix relation"
  from pushed obtain acc where push: "push_all penv (Some (cancelled relation)) (accumulator_with_limits (ao_files out) ?prefix
        ADMINISTRATIVE_PARTITION_MAX_RECORDS ADMINISTRATIVE_PARTITION_MAX_UNCOMPRESSED_BYTES) records = Inr acc"
      and out': "out' = finish_administrative_relation penv relation acc out"
    unfolding relation_pushed_def administrative_accumulator_def by blast
  define r where "r = partition_finish penv acc"
  note inv = inv [unfolded evidence_inv_def]
  obtain new where new: "ao_files out = new @ files"
      "\<forall>p \<in> fst ` set new. \<exists>rel \<in> fst ` set streams. path_in (administrative_partition_prefix rel) p"
    using inv by blast
  have free: "\<forall>p \<in> fst ` set (ao_files out). \<not> path_in ?prefix p"
  proof (intro ballI notI)
    fix p
    assume p: "p \<in> fst ` set (ao_files out)" "path_in ?prefix p"
    then have "p \<in> fst ` set new" using fresh new(1) by (auto simp: image_Un)
    then obtain rel where "rel \<in> fst ` set streams" "path_in (administrative_partition_prefix rel) p" using new(2) by blast
    then show False using prefix_disjoint [of rel relation p] p(2) slash new_relation by blast
  qed
  have "restores penv unzstd (ao_files out) ?prefix ADMINISTRATIVE_PARTITION_MAX_RECORDS ADMINISTRATIVE_PARTITION_MAX_UNCOMPRESSED_BYTES records r"
    unfolding r_def by (rule push_all_restores [OF push free _ zstd]) (simp add: ADMINISTRATIVE_PARTITION_MAX_RECORDS_def)
  note restores = this [unfolded restores_def]
  obtain added where added: "pf_files r = added @ ao_files out" "\<forall>p \<in> fst ` set added. path_in ?prefix p" using restores by blast
  have files': "ao_files out' = added @ ao_files out" using added(1) by (simp add: out' finish_administrative_relation_def Let_def r_def)
  have le: "map_of (ao_files out) \<subseteq>\<^sub>m map_of (ao_files out')" unfolding files' by (rule map_le_append) (use added(2) free in blast)
  have layout': "ao_layout out' = ao_layout out @ map (\<lambda>e. e\<lparr>le_relation := relation\<rparr>) (pf_layout r)"
    by (simp add: out' finish_administrative_relation_def Let_def r_def)
  have none: "relation_layout relation (ao_layout out) = []" using inv new_relation by (force simp: relation_layout_def filter_empty_conv)
  have mine: "relation_layout relation (ao_layout out') = map (\<lambda>e. e\<lparr>le_relation := relation\<rparr>) (pf_layout r)"
    using none by (simp add: layout' relation_layout_def)
  have others: "relation_layout rel (ao_layout out') = relation_layout rel (ao_layout out)" if "rel \<noteq> relation" for rel
    using that by (auto simp: layout' relation_layout_def filter_empty_conv)
  obtain groups where "concat groups = records" "list_all2 (\<lambda>e g. layout_reads penv unzstd (pf_files r) e (group_data g)) (pf_layout r) groups"
    using restores by blast
  then have "relation_restored penv unzstd out' (relation, records)" unfolding relation_restored_def prod.case mine
    by (intro exI [of _ groups]) (simp add: list_all2_map1 layout_reads_relation files' added(1))
  moreover have "relation_restored penv unzstd out' s" if s: "s \<in> set streams" for s
  proof -
    obtain rel recs where rel: "s = (rel, recs)" by fastforce
    then have "rel \<noteq> relation" using s new_relation by force
    then have same: "relation_layout rel (ao_layout out') = relation_layout rel (ao_layout out)" by (rule others)
    have "relation_restored penv unzstd out (rel, recs)" using conjunct1 [OF inv] s rel by simp
    then obtain gs where gs: "concat gs = recs"
        "list_all2 (\<lambda>e g. layout_reads penv unzstd (ao_files out) e (group_data g)) (relation_layout rel (ao_layout out)) gs"
      unfolding relation_restored_def prod.case by (elim exE conjE)
    have "list_all2 (\<lambda>e g. layout_reads penv unzstd (ao_files out') e (group_data g)) (relation_layout rel (ao_layout out)) gs"
      by (rule list_all2_mono [OF gs(2)]) (rule layout_reads_mono [OF le])
    then show ?thesis unfolding rel relation_restored_def prod.case same using gs(1) by (intro exI [of _ gs] conjI)
  qed
  ultimately have "\<forall>s \<in> set (streams @ [(relation, records)]). relation_restored penv unzstd out' s" by simp
  moreover have "ao_summaries out' = map (stream_summary penv) (streams @ [(relation, records)])"
    using inv restores by (simp add: out' finish_administrative_relation_def Let_def r_def [symmetric] stream_summary_def)
  moreover have "le_relation ` set (ao_layout out') \<subseteq> fst ` set (streams @ [(relation, records)])" using inv unfolding layout' by auto
  moreover have "map le_sequence_ordinal (relation_layout rel (ao_layout out')) = [0..<length (relation_layout rel (ao_layout out'))]" for rel
    using inv restores by (cases "rel = relation") (simp_all add: mine others comp_def)
  moreover have "ao_files out' = (added @ new) @ files" "\<forall>p \<in> fst ` set (added @ new).
      \<exists>rel \<in> fst ` set (streams @ [(relation, records)]). path_in (administrative_partition_prefix rel) p"
    using added(2) new unfolding files' by (auto simp: image_Un)
  ultimately show ?thesis unfolding evidence_inv_def by blast
qed

lemma evidence_start: "evidence_inv penv unzstd files [] (administrative_start files)"
  by (simp add: evidence_inv_def administrative_start_def relation_layout_def)

lemma sorted_relation_layout:
  assumes "evidence_inv penv unzstd files streams out"
  shows "relation_layout relation (ao_layout (sort_administrative_output out)) = relation_layout relation (ao_layout out)"
proof -
  let ?k = "\<lambda>e. (le_relation e, le_sequence_ordinal e)" and ?l = "relation_layout relation (ao_layout out)"
  have ordinals: "map le_sequence_ordinal ?l = [0..<length ?l]" using assms by (simp add: evidence_inv_def)
  have "map ?k ?l = map (Pair relation) (map le_sequence_ordinal ?l)"
    by (auto simp: relation_layout_def)
  then have "sorted (map ?k ?l)" unfolding ordinals by (simp add: sorted_wrt_map sorted_wrt_upt)
  then have "sort_key ?k ?l = ?l" by (rule sort_key_id_if_sorted)
  then show ?thesis by (simp add: relation_layout_def sort_administrative_output_def filter_sort)
qed

lemma sorted_restored:
  assumes inv: "evidence_inv penv unzstd files streams out" and s: "s \<in> set streams"
  shows "relation_restored penv unzstd (sort_administrative_output out) s"
proof -
  have "relation_restored penv unzstd out s" using assms by (simp add: evidence_inv_def)
  moreover have "ao_files (sort_administrative_output out) = ao_files out" by (simp add: sort_administrative_output_def)
  ultimately show ?thesis by (simp add: relation_restored_def sorted_relation_layout [OF inv] split: prod.splits)
qed

section \<open>Both summaries agree\<close>

lemma count_record_bound: "count_record acc n = Inr acc' \<Longrightarrow> pa_logical_byte_size acc' \<le> u64_max"
  by (auto simp: count_record_def split: if_splits)

lemma push_bound:
  assumes "push_bytes_with_cancellation env cancellation acc key bytes = Inr acc'"
  shows "pa_logical_byte_size acc' \<le> u64_max"
  using assms unfolding push_bytes_with_cancellation_def push_oversized_record_def
  by (auto simp: Let_def res_simps dest!: count_record_bound split: if_splits)

lemma push_all_bound:
  assumes "push_all env cancellation acc records = Inr acc'" "pa_logical_byte_size acc \<le> u64_max"
  shows "pa_logical_byte_size acc' \<le> u64_max"
  using assms unfolding push_all_def by (rule try_fold_invariant) (auto dest: push_bound)

lemma relation_pushed_bound:
  assumes "relation_pushed penv cancelled relation records out out'"
  shows "length (group_data records) \<le> u64_max"
proof -
  let ?acc0 = "administrative_accumulator (ao_files out) relation"
  from assms obtain acc where push: "push_all penv (Some (cancelled relation)) ?acc0 records = Inr acc" unfolding relation_pushed_def by blast
  have counts: "acc_counts [] ?acc0" unfolding administrative_accumulator_def by (rule acc_counts_new)
  have "acc_counts records acc"
  proof -
    have "acc_counts (done @ rs) acc'" if "push_all penv c acc0 rs = Inr acc'" "acc_counts done acc0" for c acc0 rs acc' "done"
      using that
    proof (induction rs arbitrary: acc0 "done")
      case (Cons x rs)
      obtain key bytes where x: "x = (key, bytes)" by fastforce
      from Cons.prems(1) obtain acc1 where one: "push_bytes_with_cancellation penv c acc0 key bytes = Inr acc1"
          and rest: "push_all penv c acc1 rs = Inr acc'" by (auto simp: push_all_def x res_simps)
      from Cons.IH [OF rest conjunct1 [OF push_counts [OF one Cons.prems(2)]]] show ?case by (simp add: x)
    qed (simp add: push_all_def)
    from this [OF push counts] show ?thesis by simp
  qed
  moreover have "pa_logical_byte_size acc \<le> u64_max"
    by (rule push_all_bound [OF push]) (use counts in \<open>simp add: acc_counts_def\<close>)
  ultimately show ?thesis by (simp add: acc_counts_def)
qed

lemma digest_records:
  assumes "n + length (run_file lines) \<le> u64_max"
  shows "try_fold digest_record (d, n) lines = Inr (d @ run_file lines, n + length (run_file lines))"
  using assms
proof (induction lines arbitrary: d n)
  case (Cons l ls)
  have "saturating_add (length l) 1 = length l + 1" using Cons.prems by (intro saturating_add_exact) simp
  then have "digest_record (d, n) l = Inr (d @ l @ [newline], n + (length l + 1))"
    using Cons.prems by (simp add: digest_record_def Let_def)
  moreover have "try_fold digest_record (d @ l @ [newline], n + (length l + 1)) ls =
      Inr ((d @ l @ [newline]) @ run_file ls, n + (length l + 1) + length (run_file ls))"
    by (rule Cons.IH) (use Cons.prems in simp)
  ultimately show ?case by simp
qed simp

lemma value_records_data: "group_data (value_records jenv vs) = run_file (map (write_canonical_json (je_string_text jenv)) vs)"
proof -
  have "concat (map snd (map (\<lambda>(ordinal, v). (padded 20 ordinal, c v @ [newline])) (List.enumerate n vs))) = run_file (map c vs)" for n c
    by (induction vs arbitrary: n) simp_all
  then show ?thesis by (simp add: value_records_def)
qed

lemma length_value_records [simp]: "length (value_records jenv vs) = length vs"
  by (simp add: value_records_def)

lemma document_records_data: "group_data (document_records env documents) = run_file (map (\<lambda>r. the (record_bytes_at documents r)) (dp_records documents))"
  by (simp add: document_records_def run_file_def comp_def)

lemma summarize_values_stream:
  assumes "length (group_data (value_records jenv vs)) \<le> u64_max" and "pe_sha256_hex penv = je_sha256_hex jenv"
  shows "summarize_values jenv relation vs = Inr (stream_summary penv (relation, value_records jenv vs))"
proof -
  let ?lines = "map (write_canonical_json (je_string_text jenv)) vs"
  have "try_fold (\<lambda>s v. digest_record s (write_canonical_json (je_string_text jenv) v)) ([], 0) vs = try_fold digest_record ([], 0) ?lines"
    by (simp add: try_fold_map)
  also have "\<dots> = Inr (run_file ?lines, length (run_file ?lines))"
    using digest_records [of 0 ?lines "[]"] assms(1) by (simp add: value_records_data)
  finally show ?thesis
    using assms(2) by (simp add: summarize_values_def evidence_summary_of_def stream_summary_def value_records_data)
qed

lemma summarize_spool_stream:
  assumes "spool_of jenv vs spool" and "pe_sha256_hex penv = je_sha256_hex jenv"
  shows "summarize_jsonl_spool relation spool = stream_summary penv (relation, value_records jenv vs)"
  using assms by (simp add: summarize_jsonl_spool_def stream_summary_def value_records_data spool_of_def)

lemma documents_readable:
  assumes "documents_visit documents visit s = Inr t" "r \<in> set (dp_records documents)"
  shows "record_bytes_at documents r \<noteq> None"
proof -
  have "\<forall>r \<in> set rs. record_bytes_at documents r \<noteq> None" if "try_fold (\<lambda>s r. case record_bytes_at documents r of
         None \<Rightarrow> Inl (DocumentUnreadable (dr_identity r)) | Some bytes \<Rightarrow> visit s (dr_identity r) bytes) s rs = Inr t" for rs s
    using that
  proof (induction rs arbitrary: s)
    case (Cons r rs)
    then show ?case by (cases "record_bytes_at documents r") (auto simp: res_bind_eq_Inr)
  qed simp
  then show ?thesis using assms by (auto simp: documents_visit_def)
qed

lemma summarize_documents_stream:
  assumes readable: "\<forall>r \<in> set (dp_records documents). record_bytes_at documents r \<noteq> None"
    and bound: "length (group_data (document_records env documents)) \<le> u64_max" and sha: "pe_sha256_hex penv = je_sha256_hex jenv"
  shows "summarize_document_records jenv documents = Inr (stream_summary penv (''documents'', document_records env documents))"
proof -
  let ?line = "\<lambda>r. the (record_bytes_at documents r)"
  have "try_fold (\<lambda>s r. case record_bytes_at documents r of
         None \<Rightarrow> Inl (DocumentUnreadable (dr_identity r)) | Some bytes \<Rightarrow> digest_record s bytes) s rs = try_fold digest_record s (map ?line rs)"
    if "\<forall>r \<in> set rs. record_bytes_at documents r \<noteq> None" for s rs
    using that
  proof (induction rs arbitrary: s)
    case (Cons r rs)
    then show ?case by (cases "digest_record s (?line r)") auto
  qed simp
  then have "documents_visit documents (\<lambda>s _ bytes. digest_record s bytes) ([], 0) = try_fold digest_record ([], 0) (map ?line (dp_records documents))"
    using readable by (simp add: documents_visit_def)
  also have "\<dots> = Inr (run_file (map ?line (dp_records documents)), length (run_file (map ?line (dp_records documents))))"
    using digest_records [of 0 "map ?line (dp_records documents)" "[]"] bound by (simp add: document_records_data)
  finally show ?thesis
    using sha document_records_data [of env documents]
    by (simp add: summarize_document_records_def evidence_summary_of_def stream_summary_def) (simp add: document_records_def)
qed

section \<open>Properties\<close>

definition administrative_streams ::
  "closure_env \<Rightarrow> jsonl_env \<Rightarrow> scope_closure_scan \<Rightarrow> json list \<Rightarrow> json list \<Rightarrow> json list \<Rightarrow> (string \<times> (string \<times> string) list) list" where
  "administrative_streams env jenv scan edges resolutions references =
     [(''documents'', document_records env (sc_documents scan)), (''edges'', value_records jenv edges),
      (''frontier'', value_records jenv (map (identity_json env) (sc_frontier scan))),
      (''omitted-version-resolutions'', value_records jenv (sc_omitted_version_resolutions scan)),
      (''provider-universe'', value_records jenv (map (identity_json env) (sc_provider_universe scan))),
      (''resolution-map'', value_records jenv resolutions), (''resolved-references'', value_records jenv references),
      (''roots'', value_records jenv (map (identity_json env) (sc_roots scan)))]"

lemma prepare_parts:
  assumes prep: "prepare_administrative_partition_artifacts env jenv penv cancelled files scan resolution_map = Inr out"
    and spools: "spool_of jenv edges (sc_edges scan)" "spool_of jenv resolutions resolution_map" "spool_of jenv references (sc_resolved_references scan)"
    and plain: "plain_strings (je_string_text jenv)" and zstd: "\<And>s. unzstd (pe_zstd penv s) = Some s"
    and fresh: "\<forall>p \<in> fst ` set files. \<not> path_in ''administrative'' p"
  shows "\<exists>out8. out = sort_administrative_output out8 \<and>
    evidence_inv penv unzstd files (administrative_streams env jenv scan edges resolutions references) out8 \<and>
    (\<forall>s \<in> set (administrative_streams env jenv scan edges resolutions references). length (group_data (snd s)) \<le> u64_max) \<and>
    (\<forall>r \<in> set (dp_records (sc_documents scan)). record_bytes_at (sc_documents scan) r \<noteq> None)"
proof -
  from prep obtain out1 out2 out3 out4 out5 out6 out7 out8 where
      o1: "prepare_documents_relation env penv cancelled (sc_documents scan) (administrative_start files) = Inr out1"
    and o2: "prepare_spooled_administrative_relation jenv penv cancelled ''edges'' (sc_edges scan) out1 = Inr out2"
    and o3: "prepare_values_administrative_relation jenv penv cancelled ''frontier'' (map (identity_json env) (sc_frontier scan)) out2 = Inr out3"
    and o4: "prepare_values_administrative_relation jenv penv cancelled ''omitted-version-resolutions'' (sc_omitted_version_resolutions scan) out3 = Inr out4"
    and o5: "prepare_values_administrative_relation jenv penv cancelled ''provider-universe'' (map (identity_json env) (sc_provider_universe scan)) out4 = Inr out5"
    and o6: "prepare_spooled_administrative_relation jenv penv cancelled ''resolution-map'' resolution_map out5 = Inr out6"
    and o7: "prepare_spooled_administrative_relation jenv penv cancelled ''resolved-references'' (sc_resolved_references scan) out6 = Inr out7"
    and o8: "prepare_values_administrative_relation jenv penv cancelled ''roots'' (map (identity_json env) (sc_roots scan)) out7 = Inr out8"
    and out: "out = sort_administrative_output out8"
    unfolding prepare_administrative_partition_artifacts_def by (auto simp: res_bind_eq_Inr)
  note p = documents_pushed [OF o1] spool_pushed [OF o2 spools(1) plain] values_pushed [OF o3] values_pushed [OF o4] values_pushed [OF o5]
    spool_pushed [OF o6 spools(2) plain] spool_pushed [OF o7 spools(3) plain] values_pushed [OF o8]
  have free: "\<forall>p \<in> fst ` set files. \<not> path_in (administrative_partition_prefix r) p" for r
    using fresh by (auto simp: path_in_def administrative_partition_prefix_def)
  have "evidence_inv penv unzstd files (administrative_streams env jenv scan edges resolutions references) out8"
    unfolding administrative_streams_def
    using evidence_step [OF evidence_step [OF evidence_step [OF evidence_step [OF evidence_step [OF evidence_step [OF evidence_step
      [OF evidence_step [OF evidence_start p(1) _ _ free zstd] p(2) _ _ free zstd] p(3) _ _ free zstd] p(4) _ _ free zstd] p(5) _ _ free zstd]
      p(6) _ _ free zstd] p(7) _ _ free zstd] p(8) _ _ free zstd]
    by simp
  moreover have "\<forall>s \<in> set (administrative_streams env jenv scan edges resolutions references). length (group_data (snd s)) \<le> u64_max"
    using p [THEN relation_pushed_bound] by (simp add: administrative_streams_def)
  moreover have "\<forall>r \<in> set (dp_records (sc_documents scan)). record_bytes_at (sc_documents scan) r \<noteq> None"
    using o1 documents_readable unfolding prepare_documents_relation_def by (fastforce simp: res_bind_eq_Inr)
  ultimately show ?thesis using out by blast
qed

text \<open>
  C22. The evidence of a scan is consistent: whenever the partitioned artifacts are prepared, the summaries that the closure
  bundle computes independently of them (record counts, sizes and hashes of the eight relations) are the
  summaries of the prepared partitions, and reading the files through the sorted layout of a relation restores
  exactly the stream of its records. The spools of the scan hold canonical lines, the decompressor undoes the compressor.
\<close>

theorem administrative_evidence_consistent:
  assumes "prepare_administrative_partition_artifacts env jenv penv cancelled files scan resolution_map = Inr out"
    and "spool_of jenv edges (sc_edges scan)" "spool_of jenv resolutions resolution_map" "spool_of jenv references (sc_resolved_references scan)"
    and "plain_strings (je_string_text jenv)" and "\<And>s. unzstd (pe_zstd penv s) = Some s" and "pe_sha256_hex penv = je_sha256_hex jenv"
    and "\<forall>p \<in> fst ` set files. \<not> path_in ''administrative'' p"
  shows "administrative_evidence_summaries env jenv scan resolution_map = Inr (ao_summaries out) \<and>
    (\<forall>s \<in> set (administrative_streams env jenv scan edges resolutions references). relation_restored penv unzstd out s)"
proof -
  let ?streams = "administrative_streams env jenv scan edges resolutions references"
  obtain out8 where out: "out = sort_administrative_output out8" and inv: "evidence_inv penv unzstd files ?streams out8"
      and bound: "\<forall>s \<in> set ?streams. length (group_data (snd s)) \<le> u64_max"
      and readable: "\<forall>r \<in> set (dp_records (sc_documents scan)). record_bytes_at (sc_documents scan) r \<noteq> None"
    using prepare_parts [OF assms(1-6,8)] by blast
  have vals: "summarize_values jenv r vs = Inr (stream_summary penv (r, value_records jenv vs))" if "(r, value_records jenv vs) \<in> set ?streams" for r vs
    using bound that by (intro summarize_values_stream [OF _ assms(7)]) force
  have docs: "summarize_document_records jenv (sc_documents scan) = Inr (stream_summary penv (''documents'', document_records env (sc_documents scan)))"
    using bound by (intro summarize_documents_stream [OF readable _ assms(7)]) (simp add: administrative_streams_def)
  have "administrative_evidence_summaries env jenv scan resolution_map = Inr (sort_key es_relation (map (stream_summary penv) ?streams))"
    unfolding administrative_evidence_summaries_def
    using docs vals summarize_spool_stream [OF assms(2,7)] summarize_spool_stream [OF assms(3,7)] summarize_spool_stream [OF assms(4,7)]
    by (simp add: administrative_streams_def)
  moreover have "ao_summaries out = sort_key es_relation (map (stream_summary penv) ?streams)"
    using inv by (simp add: out sort_administrative_output_def evidence_inv_def)
  moreover have "relation_restored penv unzstd out s" if "s \<in> set ?streams" for s unfolding out by (rule sorted_restored [OF inv that])
  ultimately show ?thesis by simp
qed

definition demo_spool :: "json list \<Rightarrow> value_spool" where
  "demo_spool vs =
     (let content = run_file (map (write_canonical_json (je_string_text demo_jsonl)) vs) in
      \<lparr>vs_file = content, vs_event_count = length vs, vs_byte_size = length content, vs_sha256 = content\<rparr>)"

definition demo_scan :: scope_closure_scan where
  "demo_scan =
     \<lparr>sc_schema_version = '''', sc_complete = True, sc_roots = [], sc_documents = document_finish document_writer_new,
      sc_edges = demo_spool [JNull], sc_resolved_references = demo_spool [], sc_omitted_version_resolutions = [JBool True],
      sc_issues = [], sc_frontier = [], sc_provider_universe = [],
      sc_reference_graph = \<lparr>rg_identities = [], rg_identity_ids = [], rg_reverse = []\<rparr>, sc_tidas_issue_event_count = 0\<rparr>"

lemma demo_spool_of: "spool_of demo_jsonl [] (demo_spool [])" "spool_of demo_jsonl [JNull] (demo_spool [JNull])"
  by (simp_all add: spool_of_def demo_spool_def Let_def demo_jsonl_def reads_back_def same_json_def)

lemma demo_visit: "visit_jsonl invalid (je_parse demo_jsonl) visit 0 s (vs_file (demo_spool [JNull])) = visit s JNull"
  "visit_jsonl invalid (je_parse demo_jsonl) visit 0 s (vs_file (demo_spool [])) = Inr s"
proof -
  have wf: "list_all json_wf [JNull]" "reads_back demo_jsonl [JNull]" using demo_spool_of(2) by (simp_all add: spool_of_def)
  have "visit_jsonl invalid (je_parse demo_jsonl) visit 0 s (vs_file (demo_spool [JNull])) = try_fold visit s [JNull]"
    using spool_rereads(1) [OF demo_jsonl_plain wf refl, of invalid visit 0 s] by (simp add: demo_spool_def Let_def demo_jsonl_def)
  then show "visit_jsonl invalid (je_parse demo_jsonl) visit 0 s (vs_file (demo_spool [JNull])) = visit s JNull"
    by (cases "visit s JNull") simp_all
  show "visit_jsonl invalid (je_parse demo_jsonl) visit 0 s (vs_file (demo_spool [])) = Inr s"
    by (simp add: demo_spool_def visit_jsonl.simps)
qed

lemma demo_evidence_push:
  assumes "length bytes \<le> 100" "length bytes > 0"
  shows "\<exists>acc. push_checked demo_partition_env (\<lambda>_ _ _ _. False) relation stage n key (administrative_accumulator files relation) bytes = Inr acc"
  using assms by (simp add: push_checked_def push_bytes_with_cancellation_def administrative_accumulator_def accumulator_with_limits_def
      partition_accumulator_new_def make_room_def open_partition_def count_record_def Let_def u64_max_def
      ADMINISTRATIVE_PARTITION_MAX_UNCOMPRESSED_BYTES_def)

lemma demo_evidence_prepare:
  "\<exists>out. prepare_administrative_partition_artifacts demo_env demo_jsonl demo_partition_env (\<lambda>_ _ _ _. False) [] demo_scan (demo_spool []) = Inr out"
proof -
  have doc: "\<exists>out'. prepare_documents_relation demo_env demo_partition_env (\<lambda>_ _ _ _. False) (sc_documents demo_scan) out = Inr out'" for out
    by (simp add: prepare_documents_relation_def documents_visit_def demo_scan_def document_finish_def document_writer_new_def)
  have null: "\<exists>out'. prepare_spooled_administrative_relation demo_jsonl demo_partition_env (\<lambda>_ _ _ _. False) relation (demo_spool [JNull]) out = Inr out'" for relation out
    using demo_evidence_push [of "''null'' @ [newline]" relation "''scope_closure_administrative_spool''" 0 "padded 20 0" "ao_files out"]
    by (auto simp: prepare_spooled_administrative_relation_def demo_visit u64_max_def)
  have empty: "\<exists>out'. prepare_spooled_administrative_relation demo_jsonl demo_partition_env (\<lambda>_ _ _ _. False) relation (demo_spool []) out = Inr out'" for relation out
    by (simp add: prepare_spooled_administrative_relation_def demo_visit)
  have none: "\<exists>out'. prepare_values_administrative_relation demo_jsonl demo_partition_env (\<lambda>_ _ _ _. False) relation [] out = Inr out'" for relation out
    by (simp add: prepare_values_administrative_relation_def)
  have true: "\<exists>out'. prepare_values_administrative_relation demo_jsonl demo_partition_env (\<lambda>_ _ _ _. False) relation [JBool True] out = Inr out'" for relation out
    using demo_evidence_push [of "''true'' @ [newline]" relation "''scope_closure_administrative_values''" 0 "padded 20 0" "ao_files out"]
    by (auto simp: prepare_values_administrative_relation_def)
  have scan: "sc_edges demo_scan = demo_spool [JNull]" "sc_frontier demo_scan = []" "sc_omitted_version_resolutions demo_scan = [JBool True]"
      "sc_provider_universe demo_scan = []" "sc_resolved_references demo_scan = demo_spool []" "sc_roots demo_scan = []"
    by (simp_all add: demo_scan_def)
  have bind: "(\<exists>y. res_bind m f = Inr y)" if "\<exists>x. m = Inr x" "\<And>x. \<exists>y. f x = Inr y" for m :: "'e + 'a" and f :: "'a \<Rightarrow> 'e + 'b"
    using that by auto
  show ?thesis unfolding prepare_administrative_partition_artifacts_def scan list.map
    by (intro bind doc null empty none true) simp
qed

theorem administrative_evidence_consistent_witness:
  "\<exists>out. prepare_administrative_partition_artifacts demo_env demo_jsonl demo_partition_env (\<lambda>_ _ _ _. False) [] demo_scan (demo_spool []) = Inr out \<and>
     administrative_evidence_summaries demo_env demo_jsonl demo_scan (demo_spool []) = Inr (ao_summaries out) \<and>
     relation_restored demo_partition_env (\<lambda>z. if z = [] then None else Some (tl z)) out (''edges'', value_records demo_jsonl [JNull])"
proof -
  obtain out where out: "prepare_administrative_partition_artifacts demo_env demo_jsonl demo_partition_env (\<lambda>_ _ _ _. False) [] demo_scan (demo_spool []) = Inr out"
    using demo_evidence_prepare by blast
  have "spool_of demo_jsonl [JNull] (sc_edges demo_scan)" "spool_of demo_jsonl [] (sc_resolved_references demo_scan)"
    using demo_spool_of by (simp_all add: demo_scan_def)
  from administrative_evidence_consistent [OF out this(1) demo_spool_of(1) this(2) demo_jsonl_plain, of "\<lambda>z. if z = [] then None else Some (tl z)"] out
  show ?thesis by (simp add: demo_partition_env_def demo_jsonl_def administrative_streams_def)
qed

end
