(* ===== verification/Snapshot_Coverage.thy ===== *)
theory Snapshot_Coverage
  imports Balance_Compilation
begin

text \<open>
  The coverage report of a snapshot (\<open>crates/solver-worker/src/snapshot_artifacts.rs\<close>) and the diagnostics of
  provider decisions that \<open>bin/snapshot_builder.rs\<close> summarizes into it: counters by label, histograms, weights
  and the largest gaps. Counters are ordered maps (\<open>BTreeMap\<close>), kept as association lists sorted by key.
  Theorems: every counter is the number of decisions with its label, the counters of a histogram add up to
  the number of decisions, and the reported gaps are the largest ones.
\<close>

section \<open>Data\<close>

datatype compiled_flow_kind = ProductKind | ElementaryKind

datatype compiled_source_flow_type = SourceProduct | SourceWaste | SourceElementary | SourceOther

record compiled_flow =
  cf_flow_idx :: i32
  cf_flow_id :: uuid
  cf_flow_version :: string
  cf_kind :: compiled_flow_kind
  cf_space :: compiled_flow_space
  cf_source_type :: compiled_source_flow_type

record compiled_reference_port =
  crp_process_idx :: i32
  crp_flow_id :: uuid
  crp_flow_version :: string
  crp_reference_exchange_internal_id :: string
  crp_coefficient :: f64
  crp_raw_direction :: exchange_direction
  crp_raw_amount :: f64
  crp_signed_raw_coefficient :: f64
  crp_source_flow_type :: compiled_source_flow_type

record compiled_biosphere_edge =
  be_process_idx :: i32
  be_flow_idx :: i32
  be_amount :: f64
  be_process_partition :: scope_process_partition

record compiled_provider_output =
  po_flow_id :: uuid
  po_provider_idx :: i32
  po_output_exchange_internal_id :: "string option"
  po_output_exchange_is_reference :: bool
  po_output_normalized_amount :: "f64 option"
  po_output_allocation_state :: provider_output_allocation_state
  po_eligibility :: provider_candidate_eligibility
  po_reference_coefficient :: "f64 option"
  po_reference_direction :: "exchange_direction option"

record compiled_reference_stats =
  st_missing_reference :: i64
  st_invalid_reference :: i64
  st_normalized_processes :: i64

record compiled_allocation_stats =
  st_exchange_total :: i64
  st_fraction_present_count :: i64
  st_fraction_missing_count :: i64
  st_fraction_invalid_count :: i64
  st_legacy_empty_allocation_as_undeclared_count :: i64
  st_legacy_single_output_target_inferred_count :: i64
  st_legacy_single_reference_target_inferred_count :: i64

text \<open>The release evidence is carried along unread, so its type is a parameter.\<close>

record 'e compiled_graph =
  cg_processes :: "compiled_process list"
  cg_flows :: "compiled_flow list"
  cg_reference_ports :: "compiled_reference_port list"
  cg_balance_resolutions :: "compiled_balance_resolution list"
  cg_unresolved_balances :: "compiled_unresolved_balance list"
  cg_provider_outputs :: "compiled_provider_output list"
  cg_provider_decisions :: "compiled_provider_decision list"
  cg_technosphere_edges :: "compiled_technosphere_edge list"
  cg_biosphere_edges :: "compiled_biosphere_edge list"
  cg_reference_stats :: compiled_reference_stats
  cg_allocation_stats :: compiled_allocation_stats
  cg_matching_stats :: compiled_matching_stats
  cg_release_evidence :: "'e option"

type_synonym counters = "(string \<times> i64) list"

record provider_decision_diagnostics =
  pd_resolved_strategy_counts :: counters
  pd_unresolved_reason_counts :: counters
  pd_candidate_eligibility_counts :: counters
  pd_rejected_non_reference_output_count :: i64
  pd_volume_fallback_to_one_count :: i64
  pd_geography_tier_counts :: counters
  pd_supply_region_source_counts :: counters

record snapshot_candidate_summary =
  cs_candidate_count_histogram :: counters

record snapshot_resolution_summary =
  rs_resolved_strategy_counts :: counters
  rs_unresolved_reason_counts :: counters

record snapshot_geography_summary =
  gg_tier_counts :: counters
  gg_tier_counts_by_strategy :: "(string \<times> counters) list"
  gg_supply_region_source_counts :: counters
  gg_supply_region_source_counts_by_strategy :: "(string \<times> counters) list"
  gg_exchange_location_present_count :: i64
  gg_exchange_location_present_count_by_strategy :: counters
  gg_requested_location_granularity_counts :: counters
  gg_requested_location_granularity_counts_by_strategy :: "(string \<times> counters) list"

record snapshot_volume_weight_summary =
  vw_candidate_total :: i64
  vw_valid_volume_count :: i64
  vw_fallback_to_one_count :: i64
  vw_decisions_total :: i64
  vw_decisions_all_valid_count :: i64
  vw_decisions_partial_missing_count :: i64
  vw_decisions_all_missing_count :: i64

record snapshot_unmatched_flow_entry =
  ue_flow_id :: uuid
  ue_flow_name :: "string option"
  ue_count :: i64

record snapshot_process_gap_entry =
  pg_process_id :: uuid
  pg_process_name :: "string option"
  pg_input_edges_total :: i64
  pg_unmatched_no_provider :: i64
  pg_a_write_pct :: f64

record snapshot_gap_summary =
  gs_unmatched_top_flows :: "snapshot_unmatched_flow_entry list"
  gs_process_gap_top :: "snapshot_process_gap_entry list"

record snapshot_matching_coverage =
  mc_input_edges_total :: i64
  mc_matched_unique_provider :: i64
  mc_matched_multi_provider :: i64
  mc_unmatched_no_provider :: i64
  mc_matched_multi_resolved :: i64
  mc_matched_multi_unresolved :: i64
  mc_matched_multi_fallback_equal :: i64
  mc_a_input_edges_written :: i64
  mc_residual_edges_total :: i64
  mc_a_balance_edges_written :: i64
  mc_a_write_pct :: f64
  mc_provider_present_resolved_pct :: f64
  mc_unique_provider_match_pct :: f64
  mc_any_provider_match_pct :: f64
  mc_provider_decision_diagnostics :: provider_decision_diagnostics
  mc_candidate_summary :: snapshot_candidate_summary
  mc_resolution_summary :: snapshot_resolution_summary
  mc_geography_summary :: snapshot_geography_summary
  mc_volume_weight_summary :: snapshot_volume_weight_summary
  mc_gap_summary :: snapshot_gap_summary

record snapshot_reference_coverage =
  rf_process_total :: i64
  rf_normalized_process_count :: i64
  rf_missing_reference_count :: i64
  rf_invalid_reference_count :: i64

record snapshot_allocation_coverage =
  al_exchange_total :: i64
  al_allocation_fraction_present_pct :: f64
  al_allocation_fraction_missing_count :: i64
  al_allocation_fraction_invalid_count :: i64
  al_legacy_empty_allocation_as_undeclared_count :: i64
  al_legacy_single_output_target_inferred_count :: i64
  al_legacy_single_reference_target_inferred_count :: i64

record snapshot_singular_risk =
  sk_risk_level :: string
  sk_prefilter_diag_abs_ge_cutoff :: i64
  sk_postfilter_a_diag_abs_ge_cutoff :: i64
  sk_m_zero_diagonal_count :: i64
  sk_m_min_abs_diagonal :: f64

record snapshot_matrix_scale =
  sc_process_count :: i64
  sc_flow_count :: i64
  sc_impact_count :: i64
  sc_a_nnz :: i64
  sc_b_nnz :: i64
  sc_c_nnz :: i64
  sc_m_nnz_estimated :: i64
  sc_m_sparsity_estimated :: f64

record snapshot_coverage_report =
  cv_schema_version :: string
  cv_matching :: snapshot_matching_coverage
  cv_reference :: snapshot_reference_coverage
  cv_allocation :: snapshot_allocation_coverage
  cv_singular_risk :: snapshot_singular_risk
  cv_matrix_scale :: snapshot_matrix_scale

section \<open>Ordered maps\<close>

text \<open>\<open>*map.entry(key).or_insert(default) = f(...)\<close> on an ordered map.\<close>

fun entry_modify :: "'k::linorder \<Rightarrow> 'v \<Rightarrow> ('v \<Rightarrow> 'v) \<Rightarrow> ('k \<times> 'v) list \<Rightarrow> ('k \<times> 'v) list" where
  "entry_modify key init f [] = [(key, f init)]"
| "entry_modify key init f ((k, v) # rest) =
     (if key < k then (key, f init) # (k, v) # rest
      else if key = k then (key, f v) # rest
      else (k, v) # entry_modify key init f rest)"

definition count_up :: "'k::linorder \<Rightarrow> ('k \<times> i64) list \<Rightarrow> ('k \<times> i64) list" where
  "count_up key = entry_modify key 0 (\<lambda>n. n + 1)"

definition count_some :: "('a \<Rightarrow> string) \<Rightarrow> 'a option \<Rightarrow> counters \<Rightarrow> counters" where
  "count_some label value counts = (case value of None \<Rightarrow> counts | Some v \<Rightarrow> count_up (label v) counts)"

section \<open>Labels\<close>

definition provider_resolution_strategy_label :: "provider_resolution_strategy \<Rightarrow> string" where
  "provider_resolution_strategy_label strategy =
     (case strategy of
        UniqueProviderStrategy \<Rightarrow> ''unique_provider''
      | SelectedModelResultStrategy \<Rightarrow> ''selected_model_result''
      | BestProviderStrictStrategy \<Rightarrow> ''best_provider_strict''
      | SplitByEvidenceStrategy \<Rightarrow> ''split_by_evidence''
      | SplitByProcessVolumeStrategy \<Rightarrow> ''split_by_process_volume''
      | SplitEqualStrategy \<Rightarrow> ''split_equal''
      | SplitEqualFallbackStrategy \<Rightarrow> ''split_equal_fallback'')"

definition provider_geography_tier_label :: "geography_tier \<Rightarrow> string" where
  "provider_geography_tier_label tier =
     (case tier of
        LocalSubnational \<Rightarrow> ''local_subnational''
      | SameCountry \<Rightarrow> ''same_country''
      | SameRegion \<Rightarrow> ''same_region''
      | GlobalTier \<Rightarrow> ''global''
      | OtherTier \<Rightarrow> ''other'')"

definition provider_supply_region_source_label :: "provider_supply_region_source \<Rightarrow> string" where
  "provider_supply_region_source_label source =
     (case source of
        ExchangeLocation \<Rightarrow> ''exchange_location''
      | ConsumerProcessLocation \<Rightarrow> ''consumer_process_location''
      | Unspecified \<Rightarrow> ''unspecified'')"

definition provider_failure_reason_label :: "provider_failure_reason \<Rightarrow> string" where
  "provider_failure_reason_label reason =
     (case reason of
        NoProviderCandidates \<Rightarrow> ''no_provider_candidates''
      | RejectedNonReferenceOnly \<Rightarrow> ''rejected_non_reference_only''
      | RuleRequiresUniqueProvider \<Rightarrow> ''rule_requires_unique_provider''
      | NoCandidateGeMinScore \<Rightarrow> ''no_candidate_ge_min_score''
      | Top1BelowTop1MinScore \<Rightarrow> ''top1_below_top1_min_score''
      | Top1Top2RatioTooClose \<Rightarrow> ''top1_top2_ratio_too_close''
      | ScoreSumNonPositive \<Rightarrow> ''score_sum_non_positive''
      | NoOppositeSignReference \<Rightarrow> ''no_opposite_sign_reference''
      | LineageOverlapRequiresBindingReason \<Rightarrow> ''lineage_overlap_requires_binding'')"

definition provider_candidate_eligibility_label :: "provider_candidate_eligibility \<Rightarrow> string" where
  "provider_candidate_eligibility_label eligibility =
     (case eligibility of
        EligibilityUnknown \<Rightarrow> ''unknown''
      | AcceptedReferenceOutput \<Rightarrow> ''accepted_reference_output''
      | RejectedNonReferenceOutput \<Rightarrow> ''rejected_non_reference_output''
      | AcceptedOppositeSignReference \<Rightarrow> ''accepted_opposite_sign_reference''
      | RejectedSameSignReference \<Rightarrow> ''rejected_same_sign_reference'')"

definition candidate_count_bucket_label :: "i32 \<Rightarrow> string" where
  "candidate_count_bucket_label candidate_count =
     (if candidate_count \<le> 0 then ''zero''
      else if candidate_count = 1 then ''one''
      else if candidate_count \<le> 5 then ''two_to_five''
      else if candidate_count \<le> 20 then ''six_to_twenty''
      else ''gt_twenty'')"

definition location_granularity_label :: "string option \<Rightarrow> string" where
  "location_granularity_label location =
     (case map_option trim location of
        None \<Rightarrow> ''unspecified''
      | Some v \<Rightarrow>
          if v = [] then ''unspecified''
          else let descriptor = parse_location_descriptor (Some v) in
               if loc_is_global descriptor then ''global''
               else if loc_is_subnational descriptor then ''subnational''
               else if loc_country_code descriptor \<noteq> None then ''country''
               else if loc_region_group descriptor \<noteq> None then ''region''
               else ''unknown'')"

section \<open>Percentages\<close>

text \<open>\<open>f64::round\<close> rounds half away from zero and keeps the sign of a zero.\<close>

fun f64_round_half_away :: "f64 \<Rightarrow> f64" where
  "f64_round_half_away (Fin q) =
     (if q < 0 then (let n = \<lfloor>- q + 1 / 2\<rfloor> in if n = 0 then NegZero else Fin (- of_int n))
      else Fin (of_int \<lfloor>q + 1 / 2\<rfloor>))"
| "f64_round_half_away x = x"

definition pct :: "i64 \<Rightarrow> i64 \<Rightarrow> f64" where
  "pct numerator denominator =
     (if denominator \<le> 0 then Fin 0
      else f64_div (f64_round_half_away
             (f64_div (f64_round (of_int numerator)) (f64_round (of_int denominator)) * Fin 10000)) (Fin 100))"

section \<open>Decision diagnostics\<close>

definition count_candidate :: "provider_decision_diagnostics \<Rightarrow> compiled_provider_candidate \<Rightarrow> provider_decision_diagnostics" where
  "count_candidate d candidate =
     d\<lparr>pd_candidate_eligibility_counts :=
         count_up (provider_candidate_eligibility_label (cc_eligibility candidate)) (pd_candidate_eligibility_counts d),
       pd_rejected_non_reference_output_count := pd_rejected_non_reference_output_count d +
         (if cc_eligibility candidate = RejectedNonReferenceOutput then 1 else 0)\<rparr>"

definition count_decision :: "provider_decision_diagnostics \<Rightarrow> compiled_provider_decision \<Rightarrow> provider_decision_diagnostics" where
  "count_decision d decision =
     (let d = d\<lparr>pd_resolved_strategy_counts :=
            count_some provider_resolution_strategy_label (cd_resolution_strategy decision) (pd_resolved_strategy_counts d)\<rparr>;
          d = d\<lparr>pd_unresolved_reason_counts :=
            count_some provider_failure_reason_label (cd_failure_reason decision) (pd_unresolved_reason_counts d)\<rparr>;
          d = d\<lparr>pd_geography_tier_counts :=
            count_some provider_geography_tier_label (cd_geography_tier decision) (pd_geography_tier_counts d)\<rparr>;
          d = d\<lparr>pd_supply_region_source_counts :=
            count_some provider_supply_region_source_label (cd_supply_region_source decision) (pd_supply_region_source_counts d)\<rparr>;
          d = foldl count_candidate d (cd_candidates decision)
      in d\<lparr>pd_volume_fallback_to_one_count := pd_volume_fallback_to_one_count d + cd_volume_fallback_to_one_count decision\<rparr>)"

definition summarize_provider_decision_diagnostics :: "compiled_provider_decision list \<Rightarrow> provider_decision_diagnostics" where
  "summarize_provider_decision_diagnostics decisions =
     foldl count_decision
       \<lparr>pd_resolved_strategy_counts = [], pd_unresolved_reason_counts = [], pd_candidate_eligibility_counts = [],
        pd_rejected_non_reference_output_count = 0, pd_volume_fallback_to_one_count = 0,
        pd_geography_tier_counts = [], pd_supply_region_source_counts = []\<rparr> decisions"

section \<open>Matching diagnostics\<close>

record process_gap_accumulator =
  ga_input_edges_total :: i64
  ga_unmatched_no_provider :: i64
  ga_a_input_edges_written :: i64

definition process_gap_default :: process_gap_accumulator where
  "process_gap_default = \<lparr>ga_input_edges_total = 0, ga_unmatched_no_provider = 0, ga_a_input_edges_written = 0\<rparr>"

record matching_diagnostics_summary =
  md_provider_decision_diagnostics :: provider_decision_diagnostics
  md_candidate_summary :: snapshot_candidate_summary
  md_resolution_summary :: snapshot_resolution_summary
  md_geography_summary :: snapshot_geography_summary
  md_volume_weight_summary :: snapshot_volume_weight_summary
  md_gap_summary :: snapshot_gap_summary

definition volume_weight_default :: snapshot_volume_weight_summary where
  "volume_weight_default =
     \<lparr>vw_candidate_total = 0, vw_valid_volume_count = 0, vw_fallback_to_one_count = 0, vw_decisions_total = 0,
      vw_decisions_all_valid_count = 0, vw_decisions_partial_missing_count = 0, vw_decisions_all_missing_count = 0\<rparr>"

text \<open>The local variables of the loop over the decisions.\<close>

record matching_accumulator =
  ma_candidate_count_histogram :: counters
  ma_tier_counts_by_strategy :: "(string \<times> counters) list"
  ma_supply_region_source_counts_by_strategy :: "(string \<times> counters) list"
  ma_requested_location_granularity_counts :: counters
  ma_requested_location_granularity_counts_by_strategy :: "(string \<times> counters) list"
  ma_exchange_location_present_count :: i64
  ma_exchange_location_present_count_by_strategy :: counters
  ma_unmatched_flow_counts :: "(uuid \<times> i64) list"
  ma_process_gap_counts :: "(i32 \<times> process_gap_accumulator) list"
  ma_volume_weight_summary :: snapshot_volume_weight_summary

definition GAP_TOP_K_LIMIT :: usize where
  "GAP_TOP_K_LIMIT = 20"

definition count_nested :: "string \<Rightarrow> string \<Rightarrow> (string \<times> counters) list \<Rightarrow> (string \<times> counters) list" where
  "count_nested outer inner = entry_modify outer [] (count_up inner)"

definition count_location :: "compiled_provider_decision \<Rightarrow> matching_accumulator \<Rightarrow> matching_accumulator" where
  "count_location decision a =
     (let granularity = location_granularity_label (cd_supply_region_location decision);
          a = a\<lparr>ma_exchange_location_present_count := ma_exchange_location_present_count a +
                  (if cd_exchange_location_present decision then 1 else 0),
                ma_requested_location_granularity_counts :=
                  count_up granularity (ma_requested_location_granularity_counts a)\<rparr>
      in case cd_resolution_strategy decision of
           None \<Rightarrow> a
         | Some strategy \<Rightarrow>
             let label = provider_resolution_strategy_label strategy in
             a\<lparr>ma_tier_counts_by_strategy :=
                 (case cd_geography_tier decision of
                    None \<Rightarrow> ma_tier_counts_by_strategy a
                  | Some tier \<Rightarrow> count_nested label (provider_geography_tier_label tier) (ma_tier_counts_by_strategy a)),
               ma_supply_region_source_counts_by_strategy :=
                 (case cd_supply_region_source decision of
                    None \<Rightarrow> ma_supply_region_source_counts_by_strategy a
                  | Some source \<Rightarrow> count_nested label (provider_supply_region_source_label source)
                      (ma_supply_region_source_counts_by_strategy a)),
               ma_exchange_location_present_count_by_strategy :=
                 (if cd_exchange_location_present decision
                  then count_up label (ma_exchange_location_present_count_by_strategy a)
                  else ma_exchange_location_present_count_by_strategy a),
               ma_requested_location_granularity_counts_by_strategy :=
                 count_nested label granularity (ma_requested_location_granularity_counts_by_strategy a)\<rparr>)"

definition count_volume :: "compiled_provider_decision \<Rightarrow> snapshot_volume_weight_summary \<Rightarrow> snapshot_volume_weight_summary" where
  "count_volume decision v =
     (if cd_resolution_strategy decision \<noteq> Some SplitByProcessVolumeStrategy then v
      else
        let candidate_count = int (length (cd_allocations decision));
            fallback_count = cd_volume_fallback_to_one_count decision;
            v = v\<lparr>vw_decisions_total := vw_decisions_total v + 1,
                  vw_candidate_total := vw_candidate_total v + candidate_count,
                  vw_fallback_to_one_count := vw_fallback_to_one_count v + fallback_count\<rparr>
        in if fallback_count = 0 then v\<lparr>vw_decisions_all_valid_count := vw_decisions_all_valid_count v + 1\<rparr>
           else if candidate_count \<le> fallback_count
           then v\<lparr>vw_decisions_all_missing_count := vw_decisions_all_missing_count v + 1\<rparr>
           else v\<lparr>vw_decisions_partial_missing_count := vw_decisions_partial_missing_count v + 1\<rparr>)"

definition count_process_gap :: "compiled_provider_decision \<Rightarrow> process_gap_accumulator \<Rightarrow> process_gap_accumulator" where
  "count_process_gap decision g =
     g\<lparr>ga_input_edges_total := ga_input_edges_total g + 1,
       ga_a_input_edges_written := ga_a_input_edges_written g + (if cd_matched_provider_count decision > 0 then 1 else 0),
       ga_unmatched_no_provider := ga_unmatched_no_provider g +
         (if cd_decision_kind decision = Some NoProvider then 1 else 0)\<rparr>"

definition count_matching :: "matching_accumulator \<Rightarrow> compiled_provider_decision \<Rightarrow> matching_accumulator" where
  "count_matching a decision =
     (let a = a\<lparr>ma_candidate_count_histogram :=
            count_up (candidate_count_bucket_label (cd_candidate_provider_count decision)) (ma_candidate_count_histogram a)\<rparr>;
          a = count_location decision a;
          a = a\<lparr>ma_volume_weight_summary := count_volume decision (ma_volume_weight_summary a)\<rparr>;
          a = a\<lparr>ma_process_gap_counts :=
            entry_modify (cd_consumer_idx decision) process_gap_default (count_process_gap decision) (ma_process_gap_counts a)\<rparr>
      in if cd_decision_kind decision = Some NoProvider
         then a\<lparr>ma_unmatched_flow_counts := count_up (cd_flow_id decision) (ma_unmatched_flow_counts a)\<rparr>
         else a)"

definition matching_accumulator_new :: matching_accumulator where
  "matching_accumulator_new =
     \<lparr>ma_candidate_count_histogram = [], ma_tier_counts_by_strategy = [], ma_supply_region_source_counts_by_strategy = [],
      ma_requested_location_granularity_counts = [], ma_requested_location_granularity_counts_by_strategy = [],
      ma_exchange_location_present_count = 0, ma_exchange_location_present_count_by_strategy = [],
      ma_unmatched_flow_counts = [], ma_process_gap_counts = [], ma_volume_weight_summary = volume_weight_default\<rparr>"

definition unmatched_flow_le :: "snapshot_unmatched_flow_entry \<Rightarrow> snapshot_unmatched_flow_entry \<Rightarrow> bool" where
  "unmatched_flow_le left right =
     (ue_count right < ue_count left \<or> ue_count left = ue_count right \<and> ue_flow_id left \<le> ue_flow_id right)"

definition top_unmatched_flows :: "(uuid \<times> i64) list \<Rightarrow> snapshot_unmatched_flow_entry list" where
  "top_unmatched_flows unmatched_flow_counts =
     take GAP_TOP_K_LIMIT (sort_by unmatched_flow_le
       (map (\<lambda>(flow_id, n). \<lparr>ue_flow_id = flow_id, ue_flow_name = None, ue_count = n\<rparr>) unmatched_flow_counts))"

definition process_gap_le :: "snapshot_process_gap_entry \<Rightarrow> snapshot_process_gap_entry \<Rightarrow> bool" where
  "process_gap_le left right =
     (pg_unmatched_no_provider right < pg_unmatched_no_provider left \<or>
      pg_unmatched_no_provider left = pg_unmatched_no_provider right \<and>
        (pg_input_edges_total right < pg_input_edges_total left \<or>
         pg_input_edges_total left = pg_input_edges_total right \<and> pg_process_id left \<le> pg_process_id right))"

definition process_gap_entry :: "compiled_process list \<Rightarrow> i32 \<times> process_gap_accumulator \<Rightarrow> snapshot_process_gap_entry option" where
  "process_gap_entry processes entry =
     (case entry of (process_idx, counts) \<Rightarrow>
        if ga_unmatched_no_provider counts = 0 then None
        else map_option (\<lambda>process. \<lparr>pg_process_id = cp_process_id process, pg_process_name = cp_process_name process,
               pg_input_edges_total = ga_input_edges_total counts,
               pg_unmatched_no_provider = ga_unmatched_no_provider counts,
               pg_a_write_pct = pct (ga_a_input_edges_written counts) (ga_input_edges_total counts)\<rparr>)
             (compiled_process_for_idx processes process_idx))"

definition top_process_gaps :: "(i32 \<times> process_gap_accumulator) list \<Rightarrow> compiled_process list \<Rightarrow> snapshot_process_gap_entry list" where
  "top_process_gaps process_gap_counts processes =
     take GAP_TOP_K_LIMIT (sort_by process_gap_le (List.map_filter (process_gap_entry processes) process_gap_counts))"

definition summarize_matching_diagnostics :: "'e compiled_graph \<Rightarrow> matching_diagnostics_summary" where
  "summarize_matching_diagnostics compiled_graph =
     (let diagnostics = summarize_provider_decision_diagnostics (cg_provider_decisions compiled_graph);
          a = foldl count_matching matching_accumulator_new (cg_provider_decisions compiled_graph);
          v = ma_volume_weight_summary a;
          v = v\<lparr>vw_valid_volume_count := max (vw_candidate_total v - vw_fallback_to_one_count v) 0\<rparr>
      in \<lparr>md_provider_decision_diagnostics = diagnostics,
          md_candidate_summary = \<lparr>cs_candidate_count_histogram = ma_candidate_count_histogram a\<rparr>,
          md_resolution_summary =
            \<lparr>rs_resolved_strategy_counts = pd_resolved_strategy_counts diagnostics,
             rs_unresolved_reason_counts = pd_unresolved_reason_counts diagnostics\<rparr>,
          md_geography_summary =
            \<lparr>gg_tier_counts = pd_geography_tier_counts diagnostics,
             gg_tier_counts_by_strategy = ma_tier_counts_by_strategy a,
             gg_supply_region_source_counts = pd_supply_region_source_counts diagnostics,
             gg_supply_region_source_counts_by_strategy = ma_supply_region_source_counts_by_strategy a,
             gg_exchange_location_present_count = ma_exchange_location_present_count a,
             gg_exchange_location_present_count_by_strategy = ma_exchange_location_present_count_by_strategy a,
             gg_requested_location_granularity_counts = ma_requested_location_granularity_counts a,
             gg_requested_location_granularity_counts_by_strategy = ma_requested_location_granularity_counts_by_strategy a\<rparr>,
          md_volume_weight_summary = v,
          md_gap_summary =
            \<lparr>gs_unmatched_top_flows = top_unmatched_flows (ma_unmatched_flow_counts a),
             gs_process_gap_top = top_process_gaps (ma_process_gap_counts a) (cg_processes compiled_graph)\<rparr>\<rparr>)"

section \<open>Counters\<close>

abbreviation ordered_keys :: "('k::linorder \<times> 'v) list \<Rightarrow> bool" where
  "ordered_keys m \<equiv> sorted_wrt (<) (map fst m)"

lemma entry_modify_keys: "fst ` set (entry_modify key init f m) = insert key (fst ` set m)"
proof (induction m)
  case (Cons e m)
  then show ?case by (cases e) (simp add: insert_commute)
qed simp

lemma entry_modify_ordered [simp]: "ordered_keys m \<Longrightarrow> ordered_keys (entry_modify key init f m)"
proof (induction m)
  case (Cons e m)
  then show ?case using entry_modify_keys [of key init f m] by (cases e) (auto simp: image_iff)
qed simp

lemma map_of_entry_modify:
  "ordered_keys m \<Longrightarrow> map_of (entry_modify key init f m) = (map_of m)(key \<mapsto> f (unwrap_or init (map_of m key)))"
proof (induction m)
  case (Cons e m)
  obtain k v where e: "e = (k, v)" by fastforce
  have "map_of m key = None" if "key < k"
    using Cons.prems that by (fastforce simp: e map_of_eq_None_iff)
  with Cons show ?case by (auto simp: e fun_upd_twist)
qed simp

definition tally :: "('k \<times> i64) list \<Rightarrow> 'k \<Rightarrow> i64" where
  "tally counts key = unwrap_or 0 (map_of counts key)"

definition total :: "('k \<times> i64) list \<Rightarrow> i64" where
  "total counts = sum_list (map snd counts)"

definition tallied :: "('a \<Rightarrow> 'k::linorder) \<Rightarrow> 'a list \<Rightarrow> ('k \<times> i64) list" where
  "tallied label = foldl (\<lambda>counts x. count_up (label x) counts) []"

lemma total_entry_modify: "total (entry_modify key 0 (\<lambda>n. n + 1) counts) = total counts + 1"
  by (induction counts) (auto simp: total_def)

lemma tallied_snoc: "tallied label (xs @ [x]) = count_up (label x) (tallied label xs)"
  by (simp add: tallied_def)

lemma tallied_ordered [simp]: "ordered_keys (tallied label xs)"
  by (induction xs rule: rev_induct) (simp_all add: tallied_snoc count_up_def, simp add: tallied_def)

lemma total_tallied: "total (tallied label xs) = int (length xs)"
  by (induction xs rule: rev_induct)
    (simp_all add: tallied_snoc count_up_def total_entry_modify, simp add: tallied_def total_def)

lemma map_of_tallied:
  "map_of (tallied label xs) key =
     (if key \<in> label ` set xs then Some (int (length (filter (\<lambda>x. label x = key) xs))) else None)"
proof (induction xs rule: rev_induct)
  case (snoc x xs)
  have none: "filter (\<lambda>x. label x = key) xs = []" if "key \<notin> label ` set xs"
    using that by (auto simp: filter_empty_conv)
  show ?case
    using snoc.IH none by (auto simp: tallied_snoc count_up_def map_of_entry_modify unwrap_or_def)
qed (simp add: tallied_def)

lemma tally_tallied: "tally (tallied label xs) key = int (length (filter (\<lambda>x. label x = key) xs))"
  by (auto simp: tally_def map_of_tallied filter_empty_conv)

lemma foldl_count_some:
  "foldl (\<lambda>counts d. count_some label (field d) counts) [] ds = tallied label (List.map_filter field ds)"
  by (induction ds rule: rev_induct)
    (auto simp: count_some_def List.map_filter_def tallied_snoc split: option.split, simp add: tallied_def)

lemma foldl_guarded_count:
  "foldl (\<lambda>counts d. if P d then count_up (label d) counts else counts) [] ds = tallied label (filter P ds)"
  by (induction ds rule: rev_induct) (auto simp: tallied_snoc, simp add: tallied_def)

text \<open>A loop that updates several accumulators is a loop over each of them.\<close>

lemma foldl_project:
  assumes "\<And>s x. field (step s x) = f (field s) x"
  shows "field (foldl step s xs) = foldl f (field s) xs"
  by (induction xs arbitrary: s) (simp_all add: assms)

section \<open>What the diagnostics count\<close>

lemma foldl_count_candidate:
  "foldl count_candidate d cs =
     d\<lparr>pd_candidate_eligibility_counts := pd_candidate_eligibility_counts (foldl count_candidate d cs),
       pd_rejected_non_reference_output_count := pd_rejected_non_reference_output_count (foldl count_candidate d cs)\<rparr>"
proof (induction cs arbitrary: d)
  case (Cons c cs)
  show ?case by (simp, subst Cons.IH) (simp add: count_candidate_def)
qed simp

lemma count_decision_fields:
  "pd_resolved_strategy_counts (count_decision d x) =
     count_some provider_resolution_strategy_label (cd_resolution_strategy x) (pd_resolved_strategy_counts d)"
  "pd_unresolved_reason_counts (count_decision d x) =
     count_some provider_failure_reason_label (cd_failure_reason x) (pd_unresolved_reason_counts d)"
  "pd_geography_tier_counts (count_decision d x) =
     count_some provider_geography_tier_label (cd_geography_tier x) (pd_geography_tier_counts d)"
  by (simp_all add: count_decision_def Let_def, (subst foldl_count_candidate, simp)+)

lemma decision_counters:
  "pd_resolved_strategy_counts (summarize_provider_decision_diagnostics ds) =
     tallied provider_resolution_strategy_label (List.map_filter cd_resolution_strategy ds)"
  "pd_unresolved_reason_counts (summarize_provider_decision_diagnostics ds) =
     tallied provider_failure_reason_label (List.map_filter cd_failure_reason ds)"
  "pd_geography_tier_counts (summarize_provider_decision_diagnostics ds) =
     tallied provider_geography_tier_label (List.map_filter cd_geography_tier ds)"
  unfolding summarize_provider_decision_diagnostics_def
  by (subst foldl_project [where step = count_decision], rule count_decision_fields, simp add: foldl_count_some)+

lemma count_location_fields [simp]:
  "ma_candidate_count_histogram (count_location x a) = ma_candidate_count_histogram a"
  "ma_unmatched_flow_counts (count_location x a) = ma_unmatched_flow_counts a"
  "ma_process_gap_counts (count_location x a) = ma_process_gap_counts a"
  "ma_volume_weight_summary (count_location x a) = ma_volume_weight_summary a"
  by (simp_all add: count_location_def Let_def split: option.split)

lemma count_matching_fields:
  "ma_candidate_count_histogram (count_matching a x) =
     count_up (candidate_count_bucket_label (cd_candidate_provider_count x)) (ma_candidate_count_histogram a)"
  "ma_unmatched_flow_counts (count_matching a x) =
     (if cd_decision_kind x = Some NoProvider then count_up (cd_flow_id x) (ma_unmatched_flow_counts a)
      else ma_unmatched_flow_counts a)"
  "ma_process_gap_counts (count_matching a x) =
     entry_modify (cd_consumer_idx x) process_gap_default (count_process_gap x) (ma_process_gap_counts a)"
  "ma_volume_weight_summary (count_matching a x) = count_volume x (ma_volume_weight_summary a)"
  by (simp_all add: count_matching_def Let_def)

lemma matching_counters:
  fixes ds
  defines "a \<equiv> foldl count_matching matching_accumulator_new ds"
  shows "ma_candidate_count_histogram a = tallied (\<lambda>d. candidate_count_bucket_label (cd_candidate_provider_count d)) ds"
    "ma_unmatched_flow_counts a = tallied cd_flow_id (filter (\<lambda>d. cd_decision_kind d = Some NoProvider) ds)"
    "ma_process_gap_counts a =
       foldl (\<lambda>m d. entry_modify (cd_consumer_idx d) process_gap_default (count_process_gap d) m) [] ds"
    "ma_volume_weight_summary a = foldl (\<lambda>v d. count_volume d v) volume_weight_default ds"
  unfolding a_def
  by (subst foldl_project [where step = count_matching], rule count_matching_fields,
      simp add: matching_accumulator_new_def foldl_guarded_count tallied_def)+

lemma label_filter:
  assumes "inj label"
  shows "length (filter (\<lambda>v. label v = label w) (List.map_filter field ds)) = length (filter (\<lambda>d. field d = Some w) ds)"
  using assms by (induction ds) (auto simp: List.map_filter_def dest: injD)

lemma labels_inj: "inj provider_resolution_strategy_label" "inj provider_failure_reason_label" "inj provider_geography_tier_label"
  by (auto simp: provider_resolution_strategy_label_def provider_failure_reason_label_def provider_geography_tier_label_def
      split: provider_resolution_strategy.splits provider_failure_reason.splits geography_tier.splits intro!: injI)

text \<open>Counting by two labels: the counters of one strategy.\<close>

definition number :: "('a \<Rightarrow> bool) \<Rightarrow> 'a list \<Rightarrow> i64" where
  "number P xs = int (length (filter P xs))"

lemma number_simps [simp]:
  "number P [] = 0" "number P (xs @ ys) = number P xs + number P ys" "number P [x] = (if P x then 1 else 0)"
  by (simp_all add: number_def)

definition nested_tally :: "(string \<times> counters) list \<Rightarrow> string \<Rightarrow> string \<Rightarrow> i64" where
  "nested_tally m outer inner = tally (unwrap_or [] (map_of m outer)) inner"

definition strategy_key :: "(compiled_provider_decision \<Rightarrow> string option) \<Rightarrow> compiled_provider_decision \<Rightarrow> (string \<times> string) option" where
  "strategy_key inner d =
     (case cd_resolution_strategy d of
        None \<Rightarrow> None
      | Some s \<Rightarrow> map_option (Pair (provider_resolution_strategy_label s)) (inner d))"

definition count_keyed :: "('d \<Rightarrow> (string \<times> string) option) \<Rightarrow> (string \<times> counters) list \<Rightarrow> 'd \<Rightarrow> (string \<times> counters) list" where
  "count_keyed key m d = (case key d of None \<Rightarrow> m | Some (outer, inner) \<Rightarrow> count_nested outer inner m)"

lemma count_keyed_ordered:
  "ordered_keys (foldl (count_keyed key) [] ds) \<and>
   (\<forall>outer c. map_of (foldl (count_keyed key) [] ds) outer = Some c \<longrightarrow> ordered_keys c)"
proof (induction ds rule: rev_induct)
  case (snoc d ds)
  then show ?case
    by (auto simp: count_keyed_def count_nested_def count_up_def map_of_entry_modify unwrap_or_def split: option.split)
qed simp

lemma nested_tally_keyed:
  "nested_tally (foldl (count_keyed key) [] ds) outer inner = number (\<lambda>d. key d = Some (outer, inner)) ds"
proof (induction ds rule: rev_induct)
  case (snoc d ds)
  let ?m = "foldl (count_keyed key) [] ds"
  have ord: "ordered_keys ?m" "\<And>c. map_of ?m outer = Some c \<Longrightarrow> ordered_keys c"
    using count_keyed_ordered [of key ds] by blast+
  show ?case
  proof (cases "key d")
    case None
    with snoc.IH show ?thesis by (simp add: count_keyed_def)
  next
    case (Some k)
    then obtain p q where k: "key d = Some (p, q)" by (cases k) auto
    have "ordered_keys (unwrap_or [] (map_of ?m outer))" using ord(2) by (cases "map_of ?m outer") auto
    moreover have "count_keyed key ?m d = count_nested p q ?m" by (simp add: count_keyed_def k)
    ultimately show ?thesis using snoc.IH k ord(1)
      by (auto simp: count_nested_def count_up_def nested_tally_def tally_def map_of_entry_modify)
  qed
qed (simp add: nested_tally_def tally_def)

lemma strategy_key_iff:
  "strategy_key inner d = Some (provider_resolution_strategy_label s, i) \<longleftrightarrow>
     cd_resolution_strategy d = Some s \<and> inner d = Some i"
  using labels_inj(1) by (auto simp: strategy_key_def dest: injD split: option.split)

lemma count_matching_geography:
  "ma_tier_counts_by_strategy (count_matching a x) =
     count_keyed (strategy_key (\<lambda>d. map_option provider_geography_tier_label (cd_geography_tier d)))
       (ma_tier_counts_by_strategy a) x"
  "ma_supply_region_source_counts_by_strategy (count_matching a x) =
     count_keyed (strategy_key (\<lambda>d. map_option provider_supply_region_source_label (cd_supply_region_source d)))
       (ma_supply_region_source_counts_by_strategy a) x"
  "ma_requested_location_granularity_counts_by_strategy (count_matching a x) =
     count_keyed (strategy_key (\<lambda>d. Some (location_granularity_label (cd_supply_region_location d))))
       (ma_requested_location_granularity_counts_by_strategy a) x"
  "ma_requested_location_granularity_counts (count_matching a x) =
     count_up (location_granularity_label (cd_supply_region_location x)) (ma_requested_location_granularity_counts a)"
  "ma_exchange_location_present_count (count_matching a x) =
     ma_exchange_location_present_count a + (if cd_exchange_location_present x then 1 else 0)"
  "ma_exchange_location_present_count_by_strategy (count_matching a x) =
     count_some provider_resolution_strategy_label
       (if cd_exchange_location_present x then cd_resolution_strategy x else None)
       (ma_exchange_location_present_count_by_strategy a)"
  by (simp_all add: count_matching_def count_location_def Let_def count_keyed_def strategy_key_def count_some_def
      split: option.split)

lemma foldl_number: "foldl (\<lambda>n d. n + (if P d then 1 else 0)) (0::int) ds = number P ds"
  by (induction ds rule: rev_induct) simp_all

lemma geography_counters:
  fixes ds
  defines "a \<equiv> foldl count_matching matching_accumulator_new ds"
  shows "ma_tier_counts_by_strategy a =
      foldl (count_keyed (strategy_key (\<lambda>d. map_option provider_geography_tier_label (cd_geography_tier d)))) [] ds"
    "ma_supply_region_source_counts_by_strategy a =
      foldl (count_keyed (strategy_key (\<lambda>d. map_option provider_supply_region_source_label (cd_supply_region_source d)))) [] ds"
    "ma_requested_location_granularity_counts_by_strategy a =
      foldl (count_keyed (strategy_key (\<lambda>d. Some (location_granularity_label (cd_supply_region_location d))))) [] ds"
    "ma_requested_location_granularity_counts a = tallied (\<lambda>d. location_granularity_label (cd_supply_region_location d)) ds"
    "ma_exchange_location_present_count a = number cd_exchange_location_present ds"
    "ma_exchange_location_present_count_by_strategy a = tallied provider_resolution_strategy_label
      (List.map_filter (\<lambda>d. if cd_exchange_location_present d then cd_resolution_strategy d else None) ds)"
  unfolding a_def
  by (subst foldl_project [where step = count_matching], rule count_matching_geography,
      simp add: matching_accumulator_new_def tallied_def foldl_number foldl_count_some [unfolded tallied_def])+

lemma count_decision_rest:
  "pd_supply_region_source_counts (count_decision d x) =
     count_some provider_supply_region_source_label (cd_supply_region_source x) (pd_supply_region_source_counts d)"
  "pd_volume_fallback_to_one_count (count_decision d x) =
     pd_volume_fallback_to_one_count d + cd_volume_fallback_to_one_count x"
  by (simp_all add: count_decision_def Let_def, (subst foldl_count_candidate, simp)+)

lemma candidate_counters:
  "pd_candidate_eligibility_counts (foldl count_candidate d cs) =
     foldl (\<lambda>m c. count_up (provider_candidate_eligibility_label (cc_eligibility c)) m) (pd_candidate_eligibility_counts d) cs"
  "pd_rejected_non_reference_output_count (foldl count_candidate d cs) =
     pd_rejected_non_reference_output_count d + number (\<lambda>c. cc_eligibility c = RejectedNonReferenceOutput) cs"
  by (induction cs rule: rev_induct) (simp_all add: count_candidate_def)

lemma decision_counters_rest:
  "pd_supply_region_source_counts (summarize_provider_decision_diagnostics ds) =
     tallied provider_supply_region_source_label (List.map_filter cd_supply_region_source ds)"
  "pd_volume_fallback_to_one_count (summarize_provider_decision_diagnostics ds) =
     sum_list (map cd_volume_fallback_to_one_count ds)"
  "pd_candidate_eligibility_counts (summarize_provider_decision_diagnostics ds) =
     tallied (\<lambda>c. provider_candidate_eligibility_label (cc_eligibility c)) (concat (map cd_candidates ds))"
  "pd_rejected_non_reference_output_count (summarize_provider_decision_diagnostics ds) =
     number (\<lambda>c. cc_eligibility c = RejectedNonReferenceOutput) (concat (map cd_candidates ds))"
  unfolding summarize_provider_decision_diagnostics_def
proof (induction ds rule: rev_induct)
  case Nil
  { case 1 show ?case by (simp add: tallied_def List.map_filter_def) next
    case 2 show ?case by simp next
    case 3 show ?case by (simp add: tallied_def) next
    case 4 show ?case by simp }
next
  case (snoc d ds)
  { case 1 show ?case using snoc(1) by (auto simp: count_decision_rest count_some_def List.map_filter_def tallied_snoc split: option.split) next
    case 2 show ?case using snoc(2) by (simp add: count_decision_rest) next
    case 3 show ?case using snoc(3) by (simp add: count_decision_def Let_def candidate_counters tallied_def) next
    case 4 show ?case using snoc(4) by (simp add: count_decision_def Let_def candidate_counters) }
qed

definition by_volume :: "compiled_provider_decision \<Rightarrow> bool" where
  "by_volume d = (cd_resolution_strategy d = Some SplitByProcessVolumeStrategy)"

lemma volume_counters:
  fixes ds
  defines "v \<equiv> foldl (\<lambda>v d. count_volume d v) volume_weight_default ds"
  shows "vw_decisions_total v = number by_volume ds"
    "vw_candidate_total v = sum_list (map (\<lambda>d. int (length (cd_allocations d))) (filter by_volume ds))"
    "vw_fallback_to_one_count v = sum_list (map cd_volume_fallback_to_one_count (filter by_volume ds))"
    "vw_decisions_all_valid_count v = number (\<lambda>d. by_volume d \<and> cd_volume_fallback_to_one_count d = 0) ds"
    "vw_decisions_all_missing_count v = number (\<lambda>d. by_volume d \<and> cd_volume_fallback_to_one_count d \<noteq> 0 \<and>
       int (length (cd_allocations d)) \<le> cd_volume_fallback_to_one_count d) ds"
    "vw_decisions_partial_missing_count v = number (\<lambda>d. by_volume d \<and> cd_volume_fallback_to_one_count d \<noteq> 0 \<and>
       cd_volume_fallback_to_one_count d < int (length (cd_allocations d))) ds"
  unfolding v_def
  by (induction ds rule: rev_induct) (auto simp: volume_weight_default_def count_volume_def by_volume_def Let_def)

text \<open>An ordered map is the list of its keys in ascending order, each with its value.\<close>

lemma ordered_map_eq:
  assumes "ordered_keys m" "\<And>k. map_of m k = (if k \<in> A then Some (f k) else None)"
  shows "m = map (\<lambda>k. (k, f k)) (sorted_list_of_set A)"
proof -
  have "fst ` set m = A" using assms(2) by (metis dom_map_of_conv_image_fst domIff option.distinct(1) set_eqI)
  moreover have "sorted (map fst m)" "distinct (map fst m)" using assms(1) by (simp_all add: strict_sorted_iff)
  ultimately have keys: "map fst m = sorted_list_of_set A"
    using sorted_list_of_set.idem_if_sorted_distinct [of "map fst m"] by simp
  have "(\<lambda>k. (k, f k)) (fst e) = e" if "e \<in> set m" for e
    using map_of_is_SomeI [OF \<open>distinct (map fst m)\<close>, of "fst e" "snd e"] that assms(2) [of "fst e"]
    by (simp split: if_splits)
  then have "map (\<lambda>e. (fst e, f (fst e))) m = m" by (intro map_idI) simp
  then show ?thesis unfolding keys [symmetric] by (simp add: comp_def)
qed

lemma tallied_eq: "tallied label xs = map (\<lambda>k. (k, number (\<lambda>x. label x = k) xs)) (sorted_list_of_set (label ` set xs))"
  by (rule ordered_map_eq) (simp_all add: map_of_tallied number_def)

text \<open>The counts behind the gap of one consuming process, and the entry reported for it.\<close>

definition process_gap_counts_of :: "compiled_provider_decision list \<Rightarrow> i32 \<Rightarrow> process_gap_accumulator" where
  "process_gap_counts_of ds idx =
     \<lparr>ga_input_edges_total = number (\<lambda>d. cd_consumer_idx d = idx) ds,
      ga_unmatched_no_provider = number (\<lambda>d. cd_consumer_idx d = idx \<and> cd_decision_kind d = Some NoProvider) ds,
      ga_a_input_edges_written = number (\<lambda>d. cd_consumer_idx d = idx \<and> 0 < cd_matched_provider_count d) ds\<rparr>"

lemma process_gap_counts_default: "idx \<notin> cd_consumer_idx ` set ds \<Longrightarrow> process_gap_counts_of ds idx = process_gap_default"
  by (auto simp: process_gap_counts_of_def process_gap_default_def number_def filter_empty_conv)

lemma process_gap_counts_eq:
  "foldl (\<lambda>m d. entry_modify (cd_consumer_idx d) process_gap_default (count_process_gap d) m) [] ds =
     map (\<lambda>idx. (idx, process_gap_counts_of ds idx)) (sorted_list_of_set (cd_consumer_idx ` set ds))"
  (is "?m ds = _")
proof (rule ordered_map_eq)
  show ord: "ordered_keys (?m ds)" for ds by (induction ds rule: rev_induct) simp_all
  show "map_of (?m ds) idx = (if idx \<in> cd_consumer_idx ` set ds then Some (process_gap_counts_of ds idx) else None)" for idx
  proof (induction ds rule: rev_induct)
    case (snoc d ds)
    have step: "count_process_gap d (process_gap_counts_of ds (cd_consumer_idx d)) = process_gap_counts_of (ds @ [d]) (cd_consumer_idx d)"
      by (simp add: count_process_gap_def process_gap_counts_of_def)
    have other: "process_gap_counts_of (ds @ [d]) idx = process_gap_counts_of ds idx" if "idx \<noteq> cd_consumer_idx d"
      using that by (simp add: process_gap_counts_of_def)
    show ?case
      using snoc.IH step other ord [of ds] process_gap_counts_default [of idx ds]
      by (auto simp: map_of_entry_modify)
  qed simp
qed

lemma number_map_filter: "number (\<lambda>x. x = w) (List.map_filter field ds) = number (\<lambda>d. field d = Some w) ds"
  by (induction ds) (auto simp: number_def List.map_filter_def)

lemma source_labels_inj: "inj provider_supply_region_source_label"
  by (auto simp: provider_supply_region_source_label_def split: provider_supply_region_source.splits intro!: injI)

lemma eligibility_labels_inj: "inj provider_candidate_eligibility_label"
  by (auto simp: provider_candidate_eligibility_label_def split: provider_candidate_eligibility.splits intro!: injI)

definition missing_provider :: "compiled_provider_decision \<Rightarrow> bool" where
  "missing_provider d = (cd_decision_kind d = Some NoProvider)"

definition unmatched_of :: "compiled_provider_decision list \<Rightarrow> uuid \<Rightarrow> i64" where
  "unmatched_of ds flow_id = int (length (filter (\<lambda>d. missing_provider d \<and> cd_flow_id d = flow_id) ds))"

text \<open>
  C34. The matching diagnostics account for the decisions, counter by counter. For every strategy, failure
  reason, geography tier, supply-region source and candidate eligibility, the counter under its label is the
  number of decisions (for eligibilities: of their candidates) that have it; the same holds of the counters
  kept per strategy, of the exchange locations present, of the location granularities and of the buckets of
  the candidate histogram, which counts every decision once. The volume summary counts the decisions split by
  process volume and their allocations, and among them separately those with no missing volume, with all
  missing and with some missing. The gap lists are the first twenty, in the reporting order, of the flows with
  a decision without a provider and of the processes with such a decision, each with its exact counts.
\<close>

theorem diagnostics_account_for_decisions:
  fixes graph :: "'e compiled_graph" and s :: provider_resolution_strategy
  defines "ds \<equiv> cg_provider_decisions graph" and "md \<equiv> summarize_matching_diagnostics graph"
  defines "pd \<equiv> md_provider_decision_diagnostics md" and "gg \<equiv> md_geography_summary md"
    and "vw \<equiv> md_volume_weight_summary md" and "candidates \<equiv> concat (map cd_candidates ds)"
    and "strategy \<equiv> provider_resolution_strategy_label s"
  shows "tally (pd_resolved_strategy_counts pd) strategy = number (\<lambda>d. cd_resolution_strategy d = Some s) ds \<and>
    tally (pd_unresolved_reason_counts pd) (provider_failure_reason_label r) = number (\<lambda>d. cd_failure_reason d = Some r) ds \<and>
    tally (pd_geography_tier_counts pd) (provider_geography_tier_label t) = number (\<lambda>d. cd_geography_tier d = Some t) ds \<and>
    tally (pd_supply_region_source_counts pd) (provider_supply_region_source_label src) =
      number (\<lambda>d. cd_supply_region_source d = Some src) ds \<and>
    tally (pd_candidate_eligibility_counts pd) (provider_candidate_eligibility_label e) =
      number (\<lambda>c. cc_eligibility c = e) candidates \<and>
    pd_rejected_non_reference_output_count pd = number (\<lambda>c. cc_eligibility c = RejectedNonReferenceOutput) candidates \<and>
    pd_volume_fallback_to_one_count pd = sum_list (map cd_volume_fallback_to_one_count ds) \<and>
    rs_resolved_strategy_counts (md_resolution_summary md) = pd_resolved_strategy_counts pd \<and>
    rs_unresolved_reason_counts (md_resolution_summary md) = pd_unresolved_reason_counts pd \<and>
    gg_tier_counts gg = pd_geography_tier_counts pd \<and>
    gg_supply_region_source_counts gg = pd_supply_region_source_counts pd \<and>
    nested_tally (gg_tier_counts_by_strategy gg) strategy (provider_geography_tier_label t) =
      number (\<lambda>d. cd_resolution_strategy d = Some s \<and> cd_geography_tier d = Some t) ds \<and>
    nested_tally (gg_supply_region_source_counts_by_strategy gg) strategy (provider_supply_region_source_label src) =
      number (\<lambda>d. cd_resolution_strategy d = Some s \<and> cd_supply_region_source d = Some src) ds \<and>
    gg_exchange_location_present_count gg = number cd_exchange_location_present ds \<and>
    tally (gg_exchange_location_present_count_by_strategy gg) strategy =
      number (\<lambda>d. cd_resolution_strategy d = Some s \<and> cd_exchange_location_present d) ds \<and>
    tally (gg_requested_location_granularity_counts gg) g =
      number (\<lambda>d. location_granularity_label (cd_supply_region_location d) = g) ds \<and>
    nested_tally (gg_requested_location_granularity_counts_by_strategy gg) strategy g =
      number (\<lambda>d. cd_resolution_strategy d = Some s \<and> location_granularity_label (cd_supply_region_location d) = g) ds \<and>
    tally (cs_candidate_count_histogram (md_candidate_summary md)) b =
      number (\<lambda>d. candidate_count_bucket_label (cd_candidate_provider_count d) = b) ds \<and>
    total (cs_candidate_count_histogram (md_candidate_summary md)) = int (length ds) \<and>
    vw_decisions_total vw = number by_volume ds \<and>
    vw_candidate_total vw = sum_list (map (\<lambda>d. int (length (cd_allocations d))) (filter by_volume ds)) \<and>
    vw_fallback_to_one_count vw = sum_list (map cd_volume_fallback_to_one_count (filter by_volume ds)) \<and>
    vw_valid_volume_count vw = max (vw_candidate_total vw - vw_fallback_to_one_count vw) 0 \<and>
    vw_decisions_all_valid_count vw = number (\<lambda>d. by_volume d \<and> cd_volume_fallback_to_one_count d = 0) ds \<and>
    vw_decisions_all_missing_count vw = number (\<lambda>d. by_volume d \<and> cd_volume_fallback_to_one_count d \<noteq> 0 \<and>
      int (length (cd_allocations d)) \<le> cd_volume_fallback_to_one_count d) ds \<and>
    vw_decisions_partial_missing_count vw = number (\<lambda>d. by_volume d \<and> cd_volume_fallback_to_one_count d \<noteq> 0 \<and>
      cd_volume_fallback_to_one_count d < int (length (cd_allocations d))) ds \<and>
    gs_unmatched_top_flows (md_gap_summary md) = take GAP_TOP_K_LIMIT (sort_by unmatched_flow_le
      (map (\<lambda>f. \<lparr>ue_flow_id = f, ue_flow_name = None, ue_count = unmatched_of ds f\<rparr>)
         (sorted_list_of_set (cd_flow_id ` set (filter missing_provider ds))))) \<and>
    gs_process_gap_top (md_gap_summary md) = take GAP_TOP_K_LIMIT (sort_by process_gap_le
      (List.map_filter (\<lambda>idx. process_gap_entry (cg_processes graph) (idx, process_gap_counts_of ds idx))
         (sorted_list_of_set (cd_consumer_idx ` set ds))))"
proof -
  note defs = pd_def gg_def vw_def md_def ds_def candidates_def strategy_def summarize_matching_diagnostics_def Let_def
  note labels = label_filter [OF labels_inj(1)] label_filter [OF labels_inj(2)] label_filter [OF labels_inj(3)]
    label_filter [OF source_labels_inj]
  have nested: "provider_geography_tier_label x = provider_geography_tier_label t \<longleftrightarrow> x = t"
    "provider_supply_region_source_label y = provider_supply_region_source_label src \<longleftrightarrow> y = src"
    for x y using labels_inj(3) source_labels_inj by (auto dest: injD)
  have elig: "provider_candidate_eligibility_label x = provider_candidate_eligibility_label e \<longleftrightarrow> x = e" for x
    using eligibility_labels_inj by (auto dest: injD)
  have present: "(if P then x else None) = Some s \<longleftrightarrow> x = Some s \<and> P" for P and x by auto
  have missing: "filter (\<lambda>d. cd_decision_kind d = Some NoProvider) ds = filter missing_provider ds"
    by (simp add: missing_provider_def [abs_def])
  have flows: "number (\<lambda>d. cd_flow_id d = f) (filter missing_provider ds) = unmatched_of ds f" for f
    by (simp add: number_def unmatched_of_def conj_commute)
  have tops: "gs_unmatched_top_flows (md_gap_summary md) = take GAP_TOP_K_LIMIT (sort_by unmatched_flow_le
      (map (\<lambda>f. \<lparr>ue_flow_id = f, ue_flow_name = None, ue_count = unmatched_of ds f\<rparr>)
         (sorted_list_of_set (cd_flow_id ` set (filter missing_provider ds)))))"
    by (simp add: md_def ds_def [symmetric] summarize_matching_diagnostics_def Let_def top_unmatched_flows_def
        matching_counters missing tallied_eq flows comp_def del: set_filter)
  have gaps: "gs_process_gap_top (md_gap_summary md) = take GAP_TOP_K_LIMIT (sort_by process_gap_le
      (List.map_filter (\<lambda>idx. process_gap_entry (cg_processes graph) (idx, process_gap_counts_of ds idx))
         (sorted_list_of_set (cd_consumer_idx ` set ds))))"
    by (simp add: md_def ds_def [symmetric] summarize_matching_diagnostics_def Let_def top_process_gaps_def
        matching_counters process_gap_counts_eq List.map_filter_def filter_map comp_def)
  show ?thesis
    by (intro conjI tops gaps; simp add: defs decision_counters decision_counters_rest matching_counters geography_counters
        volume_counters tally_tallied total_tallied labels nested_tally_keyed strategy_key_iff nested elig present number_map_filter flip: number_def)
qed

section \<open>The largest gaps\<close>

lemma unmatched_flow_order: "totalp unmatched_flow_le" "reflp unmatched_flow_le" "transp unmatched_flow_le"
  by (auto simp: unmatched_flow_le_def totalp_on_def reflp_def transp_def)

lemma take_sorted_keeps_largest:
  assumes "sorted_wrt le xs" "x \<in> set xs" "x \<notin> set (take n xs)"
  shows "length (take n xs) = n" and "y \<in> set (take n xs) \<Longrightarrow> le y x"
proof -
  from assms(2,3) have x: "x \<in> set (drop n xs)" by (metis UnE append_take_drop_id set_append)
  then show "length (take n xs) = n" by (cases "n \<le> length xs") auto
  from assms(1) have "sorted_wrt le (take n xs @ drop n xs)" by simp
  then show "le y x" if "y \<in> set (take n xs)" using that x by (simp only: sorted_wrt_append)
qed

lemma unmatched_entries:
  fixes ds
  defines "counts \<equiv> tallied cd_flow_id (filter (\<lambda>d. cd_decision_kind d = Some NoProvider) ds)"
  shows "(f, n) \<in> set counts \<longleftrightarrow> n = unmatched_of ds f \<and> 0 < n"
proof -
  have "alist_wf counts" unfolding counts_def alist_wf_def by (metis strict_sorted_iff tallied_ordered)
  then have "(f, n) \<in> set counts \<longleftrightarrow> map_of counts f = Some n" by (simp add: alist_get_iff)
  also have "\<dots> \<longleftrightarrow> n = unmatched_of ds f \<and> 0 < n"
    unfolding counts_def map_of_tallied
    by (auto simp: unmatched_of_def missing_provider_def filter_filter conj_commute image_iff
        length_greater_0_conv [symmetric] filter_empty_conv simp del: length_greater_0_conv)
  finally show ?thesis .
qed

text \<open>
  The reported gaps are the largest ones: at most twenty flows, in descending order of their count, each
  with the number of its decisions without a provider; a flow that is left out has no more than any
  reported one, and is left out only when the list is full.
\<close>

theorem reported_gaps_are_largest:
  fixes graph :: "'e compiled_graph"
  defines "ds \<equiv> cg_provider_decisions graph"
    and "E \<equiv> gs_unmatched_top_flows (md_gap_summary (summarize_matching_diagnostics graph))"
  shows "length E \<le> GAP_TOP_K_LIMIT \<and> sorted_wrt unmatched_flow_le E \<and> distinct (map ue_flow_id E) \<and>
    list_all (\<lambda>e. ue_count e = unmatched_of ds (ue_flow_id e) \<and> 0 < ue_count e) E \<and>
    (unmatched_of ds f \<le> 0 \<or> f \<in> ue_flow_id ` set E \<or>
       length E = GAP_TOP_K_LIMIT \<and> list_all (\<lambda>e. unmatched_of ds f \<le> ue_count e) E)"
proof -
  let ?counts = "tallied cd_flow_id (filter (\<lambda>d. cd_decision_kind d = Some NoProvider) ds)"
  let ?entry = "\<lambda>(flow_id, n). \<lparr>ue_flow_id = flow_id, ue_flow_name = None, ue_count = n\<rparr>"
  let ?S = "sort_by unmatched_flow_le (map ?entry ?counts)"
  have E: "E = take GAP_TOP_K_LIMIT ?S"
    by (simp add: E_def ds_def summarize_matching_diagnostics_def Let_def top_unmatched_flows_def matching_counters)
  have sorted: "sorted_wrt unmatched_flow_le ?S" by (rule sorted_wrt_sort_by [OF unmatched_flow_order])
  have "distinct (map ue_flow_id (map ?entry ?counts))"
    using strict_sorted_iff [of "map fst ?counts"] by (simp add: comp_def case_prod_unfold)
  then have "distinct (map ue_flow_id ?S)"
    by (metis mset_eq_imp_distinct_iff mset_map mset_sort_by)
  then have dist: "distinct (map ue_flow_id E)" unfolding E take_map [symmetric] by (rule distinct_take)
  have exact: "list_all (\<lambda>e. ue_count e = unmatched_of ds (ue_flow_id e) \<and> 0 < ue_count e) E"
    unfolding list_all_iff E using unmatched_entries [of _ _ ds] by (auto dest!: in_set_takeD)
  have omitted: "length E = GAP_TOP_K_LIMIT \<and> list_all (\<lambda>e. unmatched_of ds f \<le> ue_count e) E"
    if "0 < unmatched_of ds f" "f \<notin> ue_flow_id ` set E"
  proof -
    let ?x = "\<lparr>ue_flow_id = f, ue_flow_name = None, ue_count = unmatched_of ds f\<rparr>"
    have x: "?x \<in> set ?S" using that(1) unmatched_entries [of f "unmatched_of ds f" ds] by force
    have out: "?x \<notin> set (take GAP_TOP_K_LIMIT ?S)" using that(2) unfolding E by force
    show ?thesis
      using take_sorted_keeps_largest [OF sorted x out]
      unfolding E list_all_iff by (fastforce simp: unmatched_flow_le_def)
  qed
  have "unmatched_of ds f \<le> 0 \<or> f \<in> ue_flow_id ` set E \<or>
      length E = GAP_TOP_K_LIMIT \<and> list_all (\<lambda>e. unmatched_of ds f \<le> ue_count e) E"
    using omitted by (meson not_le)
  then show ?thesis using dist exact sorted by (simp add: E sorted_wrt_take)
qed

end
