(* ===== verification/Matrix_Readiness.thy ===== *)
theory Matrix_Readiness
  imports Snapshot_Coverage Solver_Service Json_Value
begin

text \<open>
  The readiness gate of \<open>crates/solver-worker/src/readiness.rs\<close>: a snapshot is checked for closure of its
  providers, for its references, allocations and singular risk, and by factorizing its matrix and solving a
  sample of unit demands. Every violation of the policy is a blocker, everything else a finding. The texts of
  floating-point numbers and of a debug-printed report are arguments. A panic of a called routine is a value
  of the model; it does not occur. Theorems: a snapshot passes exactly when it meets the policy, a passed
  one is published or reviewed, and the sample solves fail only when UMFPACK does.
\<close>

section \<open>Data\<close>

type_synonym json_value = "Json_Value.json"

datatype snapshot_selection_mode = FilteredLibrary | RequestRootsClosure

record scope_closure_snapshot_binding =
  cb_schema_version :: string
  cb_effective_scope_hash :: string
  cb_data_snapshot_token :: string
  cb_closure_bundle_hash :: string

text \<open>The proof of the factor source is carried along unread, so its type is a parameter.\<close>

record 's snapshot_build_config =
  bc_process_states :: string
  bc_include_user_id :: "uuid option"
  bc_data_scope :: "string option"
  bc_scope_manifest_sha256 :: "string option"
  bc_scope_closure_binding :: "scope_closure_snapshot_binding option"
  bc_lcia_method_factor_source :: "'s option"
  bc_selection_mode :: snapshot_selection_mode
  bc_request_roots :: "request_root_process list"
  bc_process_limit :: i32
  bc_provider_rule :: string
  bc_provider_candidate_eligibility_mode :: string
  bc_provider_lineage_policy :: string
  bc_provider_lineage_source_sha256 :: "string option"
  bc_reference_normalization_mode :: string
  bc_allocation_fraction_mode :: string
  bc_allocation_semantics_version :: string
  bc_link_semantics_version :: string
  bc_technosphere_boundary_policy :: string
  bc_flow_identity_policy :: string
  bc_source_closure_policy :: string
  bc_source_reference_policy :: string
  bc_biosphere_sign_mode :: string
  bc_self_loop_cutoff :: f64
  bc_singular_eps :: f64
  bc_has_lcia :: bool
  bc_artifact_purpose :: "string option"
  bc_root_dependency_fingerprint :: "string option"
  bc_root_revision_checksum :: "string option"
  bc_method_id :: "uuid option"
  bc_method_version :: "string option"

datatype readiness_status = Passed | ReadinessFailed

datatype finding_severity = InfoSeverity | WarningSeverity | BlockerSeverity

datatype compute_anomaly_policy = IgnoreAnomaly | WarnAnomaly | BlockAnomaly

record matrix_readiness_policy =
  mp_min_provider_write_pct :: f64
  mp_max_unmatched_no_provider :: i64
  mp_max_multi_unresolved :: i64
  mp_allow_equal_fallback :: bool
  mp_allow_medium_singular_risk :: bool
  mp_allow_high_singular_risk :: bool
  mp_require_lcia_factors :: bool
  mp_run_factorization :: bool
  mp_sample_solve_unit_limit :: usize
  mp_negative_lcia_policy :: compute_anomaly_policy
  mp_negative_lcia_epsilon :: f64

definition default_min_provider_write_pct :: f64 where
  "default_min_provider_write_pct = Fin 100"

definition default_sample_solve_unit_limit :: usize where
  "default_sample_solve_unit_limit = 16"

definition default_negative_lcia_policy :: compute_anomaly_policy where
  "default_negative_lcia_policy = WarnAnomaly"

definition default_negative_lcia_epsilon :: f64 where
  "default_negative_lcia_epsilon = f64_lit (1 / 10 ^ 12)"

definition matrix_readiness_policy_default :: matrix_readiness_policy where
  "matrix_readiness_policy_default =
     \<lparr>mp_min_provider_write_pct = default_min_provider_write_pct,
      mp_max_unmatched_no_provider = 0,
      mp_max_multi_unresolved = 0,
      mp_allow_equal_fallback = False,
      mp_allow_medium_singular_risk = False,
      mp_allow_high_singular_risk = False,
      mp_require_lcia_factors = True,
      mp_run_factorization = True,
      mp_sample_solve_unit_limit = default_sample_solve_unit_limit,
      mp_negative_lcia_policy = default_negative_lcia_policy,
      mp_negative_lcia_epsilon = default_negative_lcia_epsilon\<rparr>"

record ('s, 'e) matrix_readiness_input =
  mi_schema_version :: string
  mi_snapshot_id :: "uuid option"
  mi_config :: "'s snapshot_build_config option"
  mi_coverage :: snapshot_coverage_report
  mi_payload :: "f64 model_sparse_data"
  mi_compiled_graph :: "'e compiled_graph option"
  mi_policy :: matrix_readiness_policy

record provider_closure_metrics =
  pc_input_edges_total :: i64
  pc_a_input_edges_written :: i64
  pc_residual_edges_total :: i64
  pc_a_balance_edges_written :: i64
  pc_a_write_pct :: f64
  pc_provider_present_resolved_pct :: f64
  pc_unmatched_no_provider :: i64
  pc_matched_multi_unresolved :: i64
  pc_matched_multi_fallback_equal :: i64
  pc_provider_evidence_count :: usize

record graph_readiness_metrics =
  gr_process_count :: i64
  gr_flow_count :: i64
  gr_impact_count :: i64
  gr_a_nnz :: i64
  gr_b_nnz :: i64
  gr_c_nnz :: i64
  gr_m_nnz_estimated :: i64
  gr_m_sparsity_estimated :: f64
  gr_reference_missing_count :: i64
  gr_reference_invalid_count :: i64
  gr_allocation_fraction_missing_count :: i64
  gr_allocation_fraction_invalid_count :: i64
  gr_legacy_empty_allocation_as_undeclared_count :: i64
  gr_legacy_single_output_target_inferred_count :: i64
  gr_legacy_single_reference_target_inferred_count :: i64
  gr_singular_risk_level :: string
  gr_m_zero_diagonal_count :: i64
  gr_m_min_abs_diagonal :: f64

record compute_stability_metrics =
  cm_factorization_checked :: bool
  cm_factorization_ready :: bool
  cm_validation :: "validation_report option"
  cm_sampled_unit_solves :: usize
  cm_non_finite_value_count :: usize
  cm_negative_lcia_value_count :: usize
  cm_min_lcia_value :: "f64 option"

record matrix_readiness_metrics =
  mm_provider_closure :: provider_closure_metrics
  mm_graph_readiness :: graph_readiness_metrics
  mm_compute_stability :: compute_stability_metrics

record provider_candidate_evidence =
  ce_provider_idx :: i32
  ce_provider_id :: uuid
  ce_output_exchange_internal_id :: "string option"
  ce_output_exchange_is_reference :: bool
  ce_output_normalized_amount :: "f64 option"
  ce_output_allocation_state :: string
  ce_eligibility :: string
  ce_process_name :: "string option"
  ce_location :: "string option"
  ce_reference_year :: "i32 option"
  ce_annual_supply_or_production_volume :: "f64 option"
  ce_reference_exchange_internal_id :: "string option"
  ce_reference_coefficient :: "f64 option"

record provider_allocation_evidence =
  ae_provider_idx :: i32
  ae_provider_id :: "uuid option"
  ae_weight :: f64

record provider_decision_evidence =
  de_consumer_idx :: i32
  de_consumer_process_id :: "uuid option"
  de_consumer_process_version :: "string option"
  de_consumer_process_name :: "string option"
  de_flow_id :: uuid
  de_flow_version :: string
  de_candidate_provider_count :: i32
  de_matched_provider_count :: i32
  de_decision_kind :: "string option"
  de_resolution_strategy :: "string option"
  de_failure_reason :: "string option"
  de_ambiguity :: string
  de_confidence :: string
  de_geography_tier :: "string option"
  de_supply_region_source :: "string option"
  de_supply_region_location :: "string option"
  de_candidates :: "provider_candidate_evidence list"
  de_allocations :: "provider_allocation_evidence list"

record readiness_finding =
  rf_code :: string
  rf_severity :: finding_severity
  rf_message :: string
  rf_details :: json_value

record matrix_readiness_report =
  rr_schema_version :: string
  rr_generated_at_utc :: string
  rr_snapshot_id :: "uuid option"
  rr_status :: readiness_status
  rr_next_action :: string
  rr_policy :: matrix_readiness_policy
  rr_metrics :: matrix_readiness_metrics
  rr_provider_evidence :: "provider_decision_evidence list"
  rr_balance_evidence :: "compiled_balance_resolution list"
  rr_unresolved_balances :: "compiled_unresolved_balance list"
  rr_findings :: "readiness_finding list"
  rr_blockers :: "readiness_finding list"

definition REPORT_SCHEMA_VERSION :: string where
  "REPORT_SCHEMA_VERSION = ''matrix_readiness_report.v2''"

definition INPUT_SCHEMA_VERSION :: string where
  "INPUT_SCHEMA_VERSION = ''matrix_readiness_input.v2''"

definition DETAIL_LIMIT :: usize where
  "DETAIL_LIMIT = 8"

text \<open>
  The texts that the standard library and \<open>serde_json\<close> print: a float in a message, a finite float in a JSON
  value, and the debug form of a validation report.
\<close>

record texts =
  tx_display :: "f64 \<Rightarrow> string"
  tx_number :: "f64 \<Rightarrow> string"
  tx_report :: "validation_report \<Rightarrow> string"

section \<open>Details\<close>

definition json_f64 :: "texts \<Rightarrow> f64 \<Rightarrow> json_value" where
  "json_f64 tx v = (if is_finite v then JNumber (tx_number tx v) else JNull)"

definition json_int :: "int \<Rightarrow> json_value" where
  "json_int n = JNumber (show_int n)"

definition json_opt :: "('a \<Rightarrow> json_value) \<Rightarrow> 'a option \<Rightarrow> json_value" where
  "json_opt f v = (case v of None \<Rightarrow> JNull | Some x \<Rightarrow> f x)"

definition finding :: "string \<Rightarrow> finding_severity \<Rightarrow> string \<Rightarrow> json_value \<Rightarrow> readiness_finding" where
  "finding code severity message details =
     \<lparr>rf_code = code, rf_severity = severity, rf_message = message, rf_details = details\<rparr>"

definition push_blocker :: "string \<Rightarrow> string \<Rightarrow> json_value \<Rightarrow> readiness_finding list \<Rightarrow> readiness_finding list" where
  "push_blocker code message details blockers = blockers @ [finding code BlockerSeverity message details]"

text \<open>\<open>if condition { push }\<close>.\<close>

definition push_blocker_if ::
  "bool \<Rightarrow> string \<Rightarrow> string \<Rightarrow> json_value \<Rightarrow> readiness_finding list \<Rightarrow> readiness_finding list" where
  "push_blocker_if condition code message details blockers =
     (if condition then push_blocker code message details blockers else blockers)"

definition push_warning_if ::
  "bool \<Rightarrow> string \<Rightarrow> string \<Rightarrow> json_value \<Rightarrow> readiness_finding list \<Rightarrow> readiness_finding list" where
  "push_warning_if condition code message details findings =
     (if condition then findings @ [finding code WarningSeverity message details] else findings)"

section \<open>Labels\<close>

definition provider_ambiguity_label :: "compiled_provider_decision \<Rightarrow> string" where
  "provider_ambiguity_label decision =
     (case cd_decision_kind decision of
        Some UniqueProviderDecision \<Rightarrow> ''none''
      | Some MultiResolved \<Rightarrow> ''multi_provider_resolved''
      | Some MultiUnresolved \<Rightarrow> ''multi_provider_unresolved''
      | Some NoProvider \<Rightarrow> ''no_provider''
      | None \<Rightarrow> ''unknown'')"

definition provider_confidence_label :: "compiled_provider_decision \<Rightarrow> string" where
  "provider_confidence_label decision =
     (case (cd_decision_kind decision, cd_used_equal_fallback decision, cd_failure_reason decision) of
        (Some UniqueProviderDecision, False, None) \<Rightarrow> ''high''
      | (Some MultiResolved, False, None) \<Rightarrow> ''medium''
      | _ \<Rightarrow> ''low'')"

definition provider_decision_kind_label :: "provider_decision_kind \<Rightarrow> string" where
  "provider_decision_kind_label kind =
     (case kind of
        UniqueProviderDecision \<Rightarrow> ''unique_provider''
      | MultiResolved \<Rightarrow> ''multi_resolved''
      | MultiUnresolved \<Rightarrow> ''multi_unresolved''
      | NoProvider \<Rightarrow> ''no_provider'')"

definition provider_resolution_strategy_label :: "provider_resolution_strategy \<Rightarrow> string" where
  "provider_resolution_strategy_label strategy =
     (case strategy of
        UniqueProviderStrategy \<Rightarrow> ''unique_provider''
      | SelectedModelResultStrategy \<Rightarrow> ''selected_model_result''
      | BestProviderStrictStrategy \<Rightarrow> ''best_provider_strict''
      | SplitByEvidenceStrategy \<Rightarrow> ''split_by_evidence''
      | SplitByProcessVolumeStrategy \<Rightarrow> ''split_by_process_volume''
      | SplitEqualStrategy \<Rightarrow> ''split_equal''
      | SplitEqualFallbackStrategy \<Rightarrow> ''split_equal_fallback'')"

definition provider_failure_reason_label :: "provider_failure_reason \<Rightarrow> string" where
  "provider_failure_reason_label reason =
     (case reason of
        NoProviderCandidates \<Rightarrow> ''no_provider_candidates''
      | RejectedNonReferenceOnly \<Rightarrow> ''rejected_non_reference_only''
      | RuleRequiresUniqueProvider \<Rightarrow> ''rule_requires_unique_provider''
      | NoCandidateGeMinScore \<Rightarrow> ''no_candidate_ge_min_score''
      | Top1BelowTop1MinScore \<Rightarrow> ''top1_below_top1_min_score''
      | Top1Top2RatioTooClose \<Rightarrow> ''top1_top2_ratio_too_close''
      | ScoreSumNonPositive \<Rightarrow> ''score_sum_non_positive''
      | NoOppositeSignReference \<Rightarrow> ''no_opposite_sign_reference''
      | LineageOverlapRequiresBindingReason \<Rightarrow> ''lineage_overlap_requires_binding'')"

definition provider_candidate_eligibility_label :: "provider_candidate_eligibility \<Rightarrow> string" where
  "provider_candidate_eligibility_label eligibility =
     (case eligibility of
        EligibilityUnknown \<Rightarrow> ''unknown''
      | AcceptedReferenceOutput \<Rightarrow> ''accepted_reference_output''
      | RejectedNonReferenceOutput \<Rightarrow> ''rejected_non_reference_output''
      | AcceptedOppositeSignReference \<Rightarrow> ''accepted_opposite_sign_reference''
      | RejectedSameSignReference \<Rightarrow> ''rejected_same_sign_reference'')"

definition provider_output_allocation_state_label :: "provider_output_allocation_state \<Rightarrow> string" where
  "provider_output_allocation_state_label state =
     (case state of
        OutputUnknown \<Rightarrow> ''unknown''
      | OutputPresent \<Rightarrow> ''present''
      | OutputMissing \<Rightarrow> ''missing''
      | OutputInvalid \<Rightarrow> ''invalid'')"

definition provider_geography_tier_label :: "geography_tier \<Rightarrow> string" where
  "provider_geography_tier_label tier =
     (case tier of
        LocalSubnational \<Rightarrow> ''local_subnational''
      | SameCountry \<Rightarrow> ''same_country''
      | SameRegion \<Rightarrow> ''same_region''
      | GlobalTier \<Rightarrow> ''global''
      | OtherTier \<Rightarrow> ''other'')"

definition provider_supply_region_source_label :: "provider_supply_region_source \<Rightarrow> string" where
  "provider_supply_region_source_label source =
     (case source of
        ExchangeLocation \<Rightarrow> ''exchange_location''
      | ConsumerProcessLocation \<Rightarrow> ''consumer_process_location''
      | Unspecified \<Rightarrow> ''unspecified'')"

section \<open>Evidence of provider decisions\<close>

text \<open>The ordered map of the processes by index: a later process replaces an earlier one.\<close>

definition processes_by_idx :: "compiled_process list \<Rightarrow> i32 \<Rightarrow> compiled_process option" where
  "processes_by_idx processes = map_of (rev (map (\<lambda>process. (cp_process_idx process, process)) processes))"

definition candidate_evidence :: "compiled_provider_candidate \<Rightarrow> provider_candidate_evidence" where
  "candidate_evidence candidate =
     \<lparr>ce_provider_idx = cc_provider_idx candidate,
      ce_provider_id = cc_provider_id candidate,
      ce_output_exchange_internal_id = cc_output_exchange_internal_id candidate,
      ce_output_exchange_is_reference = cc_output_exchange_is_reference candidate,
      ce_output_normalized_amount = cc_output_normalized_amount candidate,
      ce_output_allocation_state = provider_output_allocation_state_label (cc_output_allocation_state candidate),
      ce_eligibility = provider_candidate_eligibility_label (cc_eligibility candidate),
      ce_process_name = cc_process_name candidate,
      ce_location = cc_location candidate,
      ce_reference_year = cc_reference_year candidate,
      ce_annual_supply_or_production_volume = cc_annual_supply_or_production_volume candidate,
      ce_reference_exchange_internal_id = cc_reference_exchange_internal_id candidate,
      ce_reference_coefficient = cc_reference_coefficient candidate\<rparr>"

definition provider_decision_evidence_of ::
  "(i32 \<Rightarrow> compiled_process option) \<Rightarrow> compiled_provider_decision \<Rightarrow> provider_decision_evidence" where
  "provider_decision_evidence_of processes decision =
     (let consumer = processes (cd_consumer_idx decision) in
      \<lparr>de_consumer_idx = cd_consumer_idx decision,
       de_consumer_process_id = map_option cp_process_id consumer,
       de_consumer_process_version = map_option cp_process_version consumer,
       de_consumer_process_name = Option.bind consumer cp_process_name,
       de_flow_id = cd_flow_id decision,
       de_flow_version = cd_flow_version decision,
       de_candidate_provider_count = cd_candidate_provider_count decision,
       de_matched_provider_count = cd_matched_provider_count decision,
       de_decision_kind = map_option provider_decision_kind_label (cd_decision_kind decision),
       de_resolution_strategy = map_option provider_resolution_strategy_label (cd_resolution_strategy decision),
       de_failure_reason = map_option provider_failure_reason_label (cd_failure_reason decision),
       de_ambiguity = provider_ambiguity_label decision,
       de_confidence = provider_confidence_label decision,
       de_geography_tier = map_option provider_geography_tier_label (cd_geography_tier decision),
       de_supply_region_source = map_option provider_supply_region_source_label (cd_supply_region_source decision),
       de_supply_region_location = cd_supply_region_location decision,
       de_candidates = map candidate_evidence (cd_candidates decision),
       de_allocations = map (\<lambda>allocation.
         \<lparr>ae_provider_idx = ca_provider_idx allocation,
          ae_provider_id = map_option cp_process_id (processes (ca_provider_idx allocation)),
          ae_weight = ca_weight allocation\<rparr>) (cd_allocations decision)\<rparr>)"

definition provider_evidence_from_graph :: "'e compiled_graph \<Rightarrow> provider_decision_evidence list" where
  "provider_evidence_from_graph graph =
     map (provider_decision_evidence_of (processes_by_idx (cg_processes graph))) (cg_provider_decisions graph)"

section \<open>Provider closure\<close>

definition rejected_candidate_json :: "texts \<Rightarrow> compiled_provider_candidate \<Rightarrow> json_value" where
  "rejected_candidate_json tx candidate = json_object
     [(''provider_idx'', json_int (cc_provider_idx candidate)),
      (''provider_id'', JString (cc_provider_id candidate)),
      (''process_name'', json_opt JString (cc_process_name candidate)),
      (''output_exchange_internal_id'', json_opt JString (cc_output_exchange_internal_id candidate)),
      (''output_exchange_is_reference'', JBool (cc_output_exchange_is_reference candidate)),
      (''output_normalized_amount'', json_opt (json_f64 tx) (cc_output_normalized_amount candidate)),
      (''output_allocation_state'',
        JString (provider_output_allocation_state_label (cc_output_allocation_state candidate))),
      (''eligibility'', JString (provider_candidate_eligibility_label (cc_eligibility candidate)))]"

definition reference_gap_json ::
  "texts \<Rightarrow> (i32 \<Rightarrow> compiled_process option) \<Rightarrow> compiled_provider_decision \<Rightarrow> json_value" where
  "reference_gap_json tx processes decision =
     (let consumer = processes (cd_consumer_idx decision) in json_object
     [(''consumer_idx'', json_int (cd_consumer_idx decision)),
      (''consumer_process_id'', json_opt (\<lambda>p. JString (cp_process_id p)) consumer),
      (''consumer_process_version'', json_opt (\<lambda>p. JString (cp_process_version p)) consumer),
      (''consumer_process_name'', json_opt JString (Option.bind consumer cp_process_name)),
      (''flow_id'', JString (cd_flow_id decision)),
      (''flow_version'', JString (cd_flow_version decision)),
      (''candidate_provider_count'', json_int (cd_candidate_provider_count decision)),
      (''matched_provider_count'', json_int (cd_matched_provider_count decision)),
      (''failure_reason'', JString ''rejected_non_reference_only''),
      (''candidates'', JArray (map (rejected_candidate_json tx) (cd_candidates decision)))])"

definition reference_gaps :: "'e compiled_graph \<Rightarrow> compiled_provider_decision list" where
  "reference_gaps graph =
     filter (\<lambda>decision. cd_failure_reason decision = Some RejectedNonReferenceOnly) (cg_provider_decisions graph)"

definition add_reference_provider_missing_findings ::
  "texts \<Rightarrow> ('s, 'e) matrix_readiness_input \<Rightarrow> readiness_finding list \<Rightarrow> readiness_finding list" where
  "add_reference_provider_missing_findings tx input blockers =
     (case mi_compiled_graph input of
        None \<Rightarrow> blockers
      | Some graph \<Rightarrow>
          let gaps = map (reference_gap_json tx (processes_by_idx (cg_processes graph))) (reference_gaps graph)
          in if gaps = [] then blockers
             else push_blocker ''provider_closure_reference_provider_missing''
                    ''input flows are supplied only by non-reference outputs; publish a complete process whose quantitative reference supplies each flow''
                    (json_object
                       [(''missing_reference_provider_count'', json_int (int (length gaps))),
                        (''examples'', JArray (take DETAIL_LIMIT gaps))])
                    blockers)"

definition unsupported_policy_text :: "string \<Rightarrow> string" where
  "unsupported_policy_text label =
     ''unsupported technosphere_boundary_policy='' @ label @ ''; expected closed, open, or cutoff''"

definition boundary_policy_label :: "('s, 'e) matrix_readiness_input \<Rightarrow> string" where
  "boundary_policy_label input =
     (case mi_config input of None \<Rightarrow> ''closed'' | Some config \<Rightarrow> bc_technosphere_boundary_policy config)"

definition add_provider_findings ::
  "texts \<Rightarrow> ('s, 'e) matrix_readiness_input \<Rightarrow> readiness_finding list \<times> readiness_finding list
   \<Rightarrow> readiness_finding list \<times> readiness_finding list" where
  "add_provider_findings tx input acc =
     (let findings = fst acc;
          blockers = snd acc;
          matching = cv_matching (mi_coverage input);
          policy = mi_policy input;
          label = boundary_policy_label input;
          parsed = (case policy_parse label of
             Inr p \<Rightarrow> (p, blockers)
           | Inl _ \<Rightarrow> (Closed, push_blocker ''technosphere_boundary_policy_unsupported'' (unsupported_policy_text label)
               (json_object [(''technosphere_boundary_policy'', JString label)]) blockers));
          boundary = fst parsed;
          blockers = snd parsed;
          blockers = push_blocker_if (requires_closure boundary \<and> mc_a_write_pct matching < mp_min_provider_write_pct policy)
              ''provider_closure_write_pct_below_policy''
              (''provider closure wrote '' @ tx_display tx (mc_a_write_pct matching) @
               ''% of input edges; policy requires at least '' @ tx_display tx (mp_min_provider_write_pct policy) @ ''%'')
              (json_object [(''a_write_pct'', json_f64 tx (mc_a_write_pct matching)),
                 (''min_provider_write_pct'', json_f64 tx (mp_min_provider_write_pct policy))]) blockers;
          blockers = push_blocker_if (requires_closure boundary \<and> mp_max_unmatched_no_provider policy < mc_unmatched_no_provider matching)
              ''provider_closure_unmatched''
              (show_int (mc_unmatched_no_provider matching) @ '' input edges have no provider; policy allows '' @
               show_int (mp_max_unmatched_no_provider policy))
              (json_object [(''unmatched_no_provider'', json_int (mc_unmatched_no_provider matching)),
                 (''max_unmatched_no_provider'', json_int (mp_max_unmatched_no_provider policy))]) blockers;
          blockers = (if requires_closure boundary then add_reference_provider_missing_findings tx input blockers
            else blockers);
          blockers = push_blocker_if (requires_closure boundary \<and> mp_max_multi_unresolved policy < mc_matched_multi_unresolved matching)
              ''provider_closure_multi_unresolved''
              (show_int (mc_matched_multi_unresolved matching) @ '' multi-provider edges are unresolved; policy allows '' @
               show_int (mp_max_multi_unresolved policy))
              (json_object [(''matched_multi_unresolved'', json_int (mc_matched_multi_unresolved matching)),
                 (''max_multi_unresolved'', json_int (mp_max_multi_unresolved policy))]) blockers;
          blockers = push_blocker_if (\<not> mp_allow_equal_fallback policy \<and> 0 < mc_matched_multi_fallback_equal matching)
              ''provider_closure_equal_fallback''
              (show_int (mc_matched_multi_fallback_equal matching) @ '' multi-provider edges fell back to equal allocation'')
              (json_object [(''matched_multi_fallback_equal'', json_int (mc_matched_multi_fallback_equal matching))]) blockers;
          findings = push_warning_if (\<not> requires_closure boundary \<and>
              (0 < mc_unmatched_no_provider matching \<or> 0 < mc_matched_multi_unresolved matching))
              ''technosphere_boundary_unresolved_permitted''
              (policy_as_str boundary @ '' technosphere boundary permits unresolved non-zero balance coefficients'')
              (json_object [(''technosphere_boundary_policy'', JString (policy_as_str boundary)),
                 (''unmatched_no_provider'', json_int (mc_unmatched_no_provider matching)),
                 (''matched_multi_unresolved'', json_int (mc_matched_multi_unresolved matching)),
                 (''unresolved_balance_evidence_count'', json_int (case mi_compiled_graph input of
                    None \<Rightarrow> 0 | Some graph \<Rightarrow> int (length (cg_unresolved_balances graph))))]) findings;
          findings = push_warning_if (mc_input_edges_total matching = 0)
              ''provider_closure_no_input_edges''
              ''snapshot has no input edges to check for provider closure'' JNull findings
      in (findings, blockers))"

section \<open>Graph\<close>

definition add_singular_risk_findings ::
  "texts \<Rightarrow> matrix_readiness_policy \<Rightarrow> snapshot_singular_risk \<Rightarrow> readiness_finding list \<times> readiness_finding list
   \<Rightarrow> readiness_finding list \<times> readiness_finding list" where
  "add_singular_risk_findings tx policy risk acc =
     (let diagonal = json_object
            [(''prefilter_diag_abs_ge_cutoff'', json_int (sk_prefilter_diag_abs_ge_cutoff risk)),
             (''postfilter_a_diag_abs_ge_cutoff'', json_int (sk_postfilter_a_diag_abs_ge_cutoff risk))];
          level = sk_risk_level risk
      in if level = ''high'' \<and> \<not> mp_allow_high_singular_risk policy
         then (fst acc, push_blocker ''singular_risk_high'' ''matrix singular risk is high''
                (json_object [(''m_zero_diagonal_count'', json_int (sk_m_zero_diagonal_count risk)),
                   (''m_min_abs_diagonal'', json_f64 tx (sk_m_min_abs_diagonal risk))]) (snd acc))
         else if level = ''medium'' \<and> \<not> mp_allow_medium_singular_risk policy
         then (fst acc, push_blocker ''singular_risk_medium''
                ''matrix singular risk is medium and requires review by policy'' diagonal (snd acc))
         else if level = ''medium''
         then (fst acc @ [finding ''singular_risk_medium'' WarningSeverity
                ''matrix singular risk is medium and requires manual review'' diagonal], snd acc)
         else if level = ''low'' then acc
         else (fst acc @ [finding ''singular_risk_observed'' InfoSeverity
                (''matrix singular risk level is '' @ level) (json_object [(''risk_level'', JString level)])], snd acc))"

definition add_graph_findings ::
  "texts \<Rightarrow> ('s, 'e) matrix_readiness_input \<Rightarrow> readiness_finding list \<times> readiness_finding list
   \<Rightarrow> readiness_finding list \<times> readiness_finding list" where
  "add_graph_findings tx input acc =
     (let coverage = mi_coverage input;
          missing = rf_missing_reference_count (cv_reference coverage);
          invalid = rf_invalid_reference_count (cv_reference coverage);
          invalid_fractions = al_allocation_fraction_invalid_count (cv_allocation coverage);
          scale = cv_matrix_scale coverage;
          blockers = push_blocker_if (0 < missing \<or> 0 < invalid)
              ''reference_normalization_not_closed''
              ''quantitative reference normalization has missing or invalid references''
              (json_object [(''missing_reference_count'', json_int missing), (''invalid_reference_count'', json_int invalid)])
              (snd acc);
          blockers = push_blocker_if (0 < invalid_fractions)
              ''allocation_fraction_invalid'' ''allocation fractions contain invalid values''
              (json_object [(''allocation_fraction_invalid_count'', json_int invalid_fractions)]) blockers;
          acc = add_singular_risk_findings tx (mi_policy input) (cv_singular_risk coverage) (fst acc, blockers);
          blockers = push_blocker_if (mp_require_lcia_factors (mi_policy input) \<and> sc_c_nnz scale = 0)
              ''lcia_factors_missing''
              ''LCIA factors are required but no characterization factors were written''
              (json_object [(''impact_count'', json_int (sc_impact_count scale)), (''c_nnz'', json_int (sc_c_nnz scale))])
              (snd acc);
          findings = push_warning_if (sc_b_nnz scale = 0)
              ''biosphere_entries_missing''
              ''snapshot has no biosphere entries; compute results may be uninformative'' JNull (fst acc)
      in (findings, blockers))"

section \<open>Error texts\<close>

definition validation_message_text :: "validation_message \<Rightarrow> string" where
  "validation_message_text message =
     (case message of
        NotSquare \<Rightarrow> ''M must be square for direct solve''
      | EmptyColumnsDetected n \<Rightarrow> show_nat n @ '' empty columns detected''
      | EmptyRowsDetected n \<Rightarrow> show_nat n @ '' empty rows detected''
      | NearZeroDiagonal n \<Rightarrow> show_nat n @ '' near-zero or missing diagonal entries'')"

definition data_builder_error_text :: "data_builder_error \<Rightarrow> string" where
  "data_builder_error_text e =
     (case e of
        BuilderInvalidDimensions process flow impact \<Rightarrow>
          ''invalid dimensions: process='' @ show_int process @ '', flow='' @ show_int flow @ '', impact='' @ show_int impact
      | BuilderMatrix m \<Rightarrow> ''matrix error: '' @ matrix_error_text m)"

definition solver_error_text :: "texts \<Rightarrow> solver_error \<Rightarrow> string" where
  "solver_error_text tx e =
     (case e of
        SolverDataBuilder b \<Rightarrow> ''data builder failed: '' @ data_builder_error_text b
      | SolverFactorization u \<Rightarrow> ''factorization failed: '' @ umfpack_error_text u
      | NotPrepared v \<Rightarrow> ''factorization key not prepared for model '' @ v
      | ValidationFailed report \<Rightarrow> ''matrix validation failed: '' @ tx_report tx report
      | RhsDimensionMismatch rhs_len n \<Rightarrow>
          ''rhs dimension '' @ show_nat rhs_len @ '' does not match process count '' @ show_nat n
      | WorkloadAdmissionRejected estimated capacity multiplier \<Rightarrow>
          ''factorization workload admission rejected: estimated_bytes='' @ show_nat estimated @ '' capacity_bytes='' @
          show_nat capacity @ '' fill_in_multiplier='' @ tx_display tx multiplier
      | CacheAdmission a \<Rightarrow>
          ''factorization cache admission rejected: estimated_bytes='' @ show_nat (ae_estimated_bytes a) @
          '' capacity_bytes='' @ show_nat (ae_capacity_bytes a)
      | IndexPanic \<Rightarrow> [])"

section \<open>Compute stability\<close>

definition observe_value :: "compute_stability_metrics \<Rightarrow> f64 \<Rightarrow> compute_stability_metrics" where
  "observe_value metrics v =
     (if \<not> is_finite v then metrics\<lparr>cm_non_finite_value_count := cm_non_finite_value_count metrics + 1\<rparr> else metrics)"

definition observe_values :: "f64 list option \<Rightarrow> compute_stability_metrics \<Rightarrow> compute_stability_metrics" where
  "observe_values values metrics = foldl observe_value metrics (unwrap_or [] values)"

definition observe_lcia_value :: "matrix_readiness_policy \<Rightarrow> compute_stability_metrics \<Rightarrow> f64 \<Rightarrow> compute_stability_metrics" where
  "observe_lcia_value policy metrics v =
     (if \<not> is_finite v then metrics\<lparr>cm_non_finite_value_count := cm_non_finite_value_count metrics + 1\<rparr>
      else
        let metrics = metrics\<lparr>cm_min_lcia_value :=
              Some (case cm_min_lcia_value metrics of None \<Rightarrow> v | Some current \<Rightarrow> f64_min current v)\<rparr>
        in if v < - mp_negative_lcia_epsilon policy
           then metrics\<lparr>cm_negative_lcia_value_count := cm_negative_lcia_value_count metrics + 1\<rparr> else metrics)"

definition observe_lcia_values ::
  "f64 list option \<Rightarrow> matrix_readiness_policy \<Rightarrow> compute_stability_metrics \<Rightarrow> compute_stability_metrics" where
  "observe_lcia_values values policy metrics = foldl (observe_lcia_value policy) metrics (unwrap_or [] values)"

definition metrics_unchecked :: "bool \<Rightarrow> compute_stability_metrics" where
  "metrics_unchecked checked =
     \<lparr>cm_factorization_checked = checked, cm_factorization_ready = False, cm_validation = None, cm_sampled_unit_solves = 0,
      cm_non_finite_value_count = 0, cm_negative_lcia_value_count = 0, cm_min_lcia_value = None\<rparr>"

definition unit_demand :: "usize \<Rightarrow> usize \<Rightarrow> f64 list" where
  "unit_demand n process_idx = (replicate n (Fin 0))[process_idx := Fin 1]"

type_synonym sample_state = "solver_service \<times> compute_stability_metrics \<times> readiness_finding list"

definition sample_step ::
  "umfpack_lib \<Rightarrow> (nat list \<Rightarrow> string) \<Rightarrow> (nat \<Rightarrow> system_time) \<Rightarrow> texts \<Rightarrow> f64 model_sparse_data \<Rightarrow> matrix_readiness_policy
   \<Rightarrow> sample_state \<Rightarrow> usize \<Rightarrow> panic + sample_state" where
  "sample_step lib blake3_hex now tx payload policy state process_idx =
     (case state of (service, metrics, blockers) \<Rightarrow>
        let n = unwrap_or 0 (usize_try_from (process_count payload)) in
        if \<not> process_idx < n then Inl IndexOutOfBounds
        else
          case solve_one lib blake3_hex (now (process_idx + 2)) (model_version payload) numeric_options_default
                 (unit_demand n process_idx) \<lparr>return_x = True, return_g = True, return_h = True\<rparr> service of
            (Inr result, service) \<Rightarrow>
              let metrics = metrics\<lparr>cm_sampled_unit_solves := cm_sampled_unit_solves metrics + 1\<rparr>;
                  metrics = observe_values (sr_x result) metrics;
                  metrics = observe_values (sr_g result) metrics;
                  metrics = observe_lcia_values (sr_h result) policy metrics
              in Inr (service, metrics, blockers)
          | (Inl e, service) \<Rightarrow>
              if e = IndexPanic then Inl IndexOutOfBounds
              else Inr (service, metrics, push_blocker ''sample_unit_solve_failed''
                (''unit demand solve failed for process index '' @ show_nat process_idx @ '': '' @ solver_error_text tx e)
                (json_object [(''process_idx'', json_int (int process_idx))]) blockers))"

definition anomaly_severity :: "compute_anomaly_policy \<Rightarrow> finding_severity" where
  "anomaly_severity policy =
     (case policy of IgnoreAnomaly \<Rightarrow> InfoSeverity | WarnAnomaly \<Rightarrow> WarningSeverity | BlockAnomaly \<Rightarrow> BlockerSeverity)"

text \<open>The two checks after the sampling loop.\<close>

definition add_sample_findings ::
  "texts \<Rightarrow> matrix_readiness_policy \<Rightarrow> compute_stability_metrics \<Rightarrow> readiness_finding list \<times> readiness_finding list
   \<Rightarrow> readiness_finding list \<times> readiness_finding list" where
  "add_sample_findings tx policy metrics acc =
     (let findings = fst acc;
          blockers = push_blocker_if (0 < cm_non_finite_value_count metrics)
              ''compute_non_finite_values'' ''sample unit solve produced non-finite values''
              (json_object [(''non_finite_value_count'', json_int (int (cm_non_finite_value_count metrics)))]) (snd acc)
      in if 0 < cm_negative_lcia_value_count metrics
         then
           let severity = anomaly_severity (mp_negative_lcia_policy policy);
               item = finding ''negative_lcia_values'' severity
                 ''sample unit solve produced negative LCIA values below policy epsilon''
                 (json_object
                    [(''negative_lcia_value_count'', json_int (int (cm_negative_lcia_value_count metrics))),
                     (''min_lcia_value'', json_opt (json_f64 tx) (cm_min_lcia_value metrics)),
                     (''negative_lcia_epsilon'', json_f64 tx (mp_negative_lcia_epsilon policy))])
           in if severity = BlockerSeverity then (findings, blockers @ [item]) else (findings @ [item], blockers)
         else (findings, blockers))"

definition sample_count :: "f64 model_sparse_data \<Rightarrow> matrix_readiness_policy \<Rightarrow> usize" where
  "sample_count payload policy =
     min (unwrap_or 0 (usize_try_from (process_count payload))) (mp_sample_solve_unit_limit policy)"

definition run_compute_stability ::
  "umfpack_lib \<Rightarrow> (nat list \<Rightarrow> string) \<Rightarrow> (usize \<Rightarrow> usize) \<Rightarrow> (nat \<Rightarrow> system_time) \<Rightarrow> texts
   \<Rightarrow> f64 model_sparse_data \<Rightarrow> matrix_readiness_policy \<Rightarrow> readiness_finding list \<times> readiness_finding list
   \<Rightarrow> panic + (compute_stability_metrics \<times> readiness_finding list \<times> readiness_finding list)" where
  "run_compute_stability lib blake3_hex cap now tx payload policy acc =
     (let metrics = metrics_unchecked True in
      case prepare lib blake3_hex cap now payload numeric_options_default service_new of
        (Inl e, service) \<Rightarrow>
          if e = IndexPanic then Inl IndexOutOfBounds
          else
            let metrics = (case e of ValidationFailed report \<Rightarrow> metrics\<lparr>cm_validation := Some report\<rparr> | _ \<Rightarrow> metrics)
            in Inr (metrics, fst acc, push_blocker ''factorization_not_ready''
                 (''factorization failed: '' @ solver_error_text tx e) JNull (snd acc))
      | (Inr result, service) \<Rightarrow>
          let validation = fd_validation (pr_diagnostics result);
              metrics = metrics\<lparr>cm_factorization_ready := True, cm_validation := Some validation\<rparr>;
              findings = (if vr_status validation = WarningNearSingular
                then fst acc @ [finding ''matrix_validation_warning'' WarningSeverity
                  ''factorization matrix validation emitted warnings''
                  (json_object [(''messages'', JArray (map (\<lambda>m. JString (validation_message_text m)) (vr_messages validation)))])]
                else fst acc)
          in res_bind (try_fold (sample_step lib blake3_hex now tx payload policy) (service, metrics, snd acc)
                 [0..<sample_count payload policy])
               (\<lambda>(service, metrics, blockers). Inr (metrics, add_sample_findings tx policy metrics (findings, blockers))))"

section \<open>The report\<close>

definition next_action :: "readiness_finding list \<Rightarrow> readiness_finding list \<Rightarrow> string" where
  "next_action blockers findings =
     (let starts = (\<lambda>text item. take (length text) (rf_code item) = text) in
      if list_ex (starts ''provider_closure'') blockers then ''repair_provider_closure_then_recheck''
      else if list_ex (\<lambda>item. starts ''factorization'' item \<or> starts ''compute'' item) blockers
      then ''repair_compute_stability_then_recheck''
      else if list_ex (starts ''lcia'') blockers then ''repair_lcia_factors_then_recheck''
      else if blockers \<noteq> [] then ''repair_graph_readiness_then_recheck''
      else if list_ex (\<lambda>item. rf_severity item = WarningSeverity) findings then ''manual_review_warnings''
      else ''publish_ready'')"

definition readiness_metrics ::
  "snapshot_coverage_report \<Rightarrow> usize \<Rightarrow> compute_stability_metrics \<Rightarrow> matrix_readiness_metrics" where
  "readiness_metrics coverage evidence_count compute =
     (let matching = cv_matching coverage; scale = cv_matrix_scale coverage; reference = cv_reference coverage;
          allocation = cv_allocation coverage; risk = cv_singular_risk coverage in
      \<lparr>mm_provider_closure =
         \<lparr>pc_input_edges_total = mc_input_edges_total matching,
          pc_a_input_edges_written = mc_a_input_edges_written matching,
          pc_residual_edges_total = mc_residual_edges_total matching,
          pc_a_balance_edges_written = mc_a_balance_edges_written matching,
          pc_a_write_pct = mc_a_write_pct matching,
          pc_provider_present_resolved_pct = mc_provider_present_resolved_pct matching,
          pc_unmatched_no_provider = mc_unmatched_no_provider matching,
          pc_matched_multi_unresolved = mc_matched_multi_unresolved matching,
          pc_matched_multi_fallback_equal = mc_matched_multi_fallback_equal matching,
          pc_provider_evidence_count = evidence_count\<rparr>,
       mm_graph_readiness =
         \<lparr>gr_process_count = sc_process_count scale,
          gr_flow_count = sc_flow_count scale,
          gr_impact_count = sc_impact_count scale,
          gr_a_nnz = sc_a_nnz scale,
          gr_b_nnz = sc_b_nnz scale,
          gr_c_nnz = sc_c_nnz scale,
          gr_m_nnz_estimated = sc_m_nnz_estimated scale,
          gr_m_sparsity_estimated = sc_m_sparsity_estimated scale,
          gr_reference_missing_count = rf_missing_reference_count reference,
          gr_reference_invalid_count = rf_invalid_reference_count reference,
          gr_allocation_fraction_missing_count = al_allocation_fraction_missing_count allocation,
          gr_allocation_fraction_invalid_count = al_allocation_fraction_invalid_count allocation,
          gr_legacy_empty_allocation_as_undeclared_count = al_legacy_empty_allocation_as_undeclared_count allocation,
          gr_legacy_single_output_target_inferred_count = al_legacy_single_output_target_inferred_count allocation,
          gr_legacy_single_reference_target_inferred_count = al_legacy_single_reference_target_inferred_count allocation,
          gr_singular_risk_level = sk_risk_level risk,
          gr_m_zero_diagonal_count = sk_m_zero_diagonal_count risk,
          gr_m_min_abs_diagonal = sk_m_min_abs_diagonal risk\<rparr>,
       mm_compute_stability = compute\<rparr>)"

definition verify_matrix_readiness ::
  "umfpack_lib \<Rightarrow> (nat list \<Rightarrow> string) \<Rightarrow> (usize \<Rightarrow> usize) \<Rightarrow> (nat \<Rightarrow> system_time) \<Rightarrow> texts \<Rightarrow> string
   \<Rightarrow> ('s, 'e) matrix_readiness_input \<Rightarrow> panic + matrix_readiness_report" where
  "verify_matrix_readiness lib blake3_hex cap now tx generated_at input =
     (let provider_evidence = (case mi_compiled_graph input of None \<Rightarrow> [] | Some graph \<Rightarrow> provider_evidence_from_graph graph);
          balance_evidence = (case mi_compiled_graph input of None \<Rightarrow> [] | Some graph \<Rightarrow> cg_balance_resolutions graph);
          unresolved = (case mi_compiled_graph input of None \<Rightarrow> [] | Some graph \<Rightarrow> cg_unresolved_balances graph);
          acc = add_provider_findings tx input ([], []);
          acc = add_graph_findings tx input acc
      in res_bind
           (if mp_run_factorization (mi_policy input)
            then run_compute_stability lib blake3_hex cap now tx (mi_payload input) (mi_policy input) acc
            else Inr (metrics_unchecked False, acc))
           (\<lambda>(compute, findings, blockers).
              Inr \<lparr>rr_schema_version = REPORT_SCHEMA_VERSION,
                   rr_generated_at_utc = generated_at,
                   rr_snapshot_id = mi_snapshot_id input,
                   rr_status = (if blockers = [] then Passed else ReadinessFailed),
                   rr_next_action = next_action blockers findings,
                   rr_policy = mi_policy input,
                   rr_metrics = readiness_metrics (mi_coverage input) (length provider_evidence) compute,
                   rr_provider_evidence = provider_evidence,
                   rr_balance_evidence = balance_evidence,
                   rr_unresolved_balances = unresolved,
                   rr_findings = findings,
                   rr_blockers = blockers\<rparr>))"

section \<open>Blockers and findings\<close>

text \<open>Blockers are collected apart from the other findings.\<close>

definition severities_kept :: "readiness_finding list \<times> readiness_finding list \<Rightarrow> bool" where
  "severities_kept acc =
     (list_all (\<lambda>f. rf_severity f \<noteq> BlockerSeverity) (fst acc) \<and> list_all (\<lambda>f. rf_severity f = BlockerSeverity) (snd acc))"

lemma severities_kept_pair [simp]:
  "severities_kept (findings, blockers) \<longleftrightarrow>
     list_all (\<lambda>f. rf_severity f \<noteq> BlockerSeverity) findings \<and> list_all (\<lambda>f. rf_severity f = BlockerSeverity) blockers"
  by (simp add: severities_kept_def)

lemma push_blocker_severity [simp]:
  "list_all (\<lambda>f. rf_severity f = BlockerSeverity) (push_blocker code message details bs) \<longleftrightarrow>
     list_all (\<lambda>f. rf_severity f = BlockerSeverity) bs"
  "list_all (\<lambda>f. rf_severity f = BlockerSeverity) (push_blocker_if c code message details bs) \<longleftrightarrow>
     list_all (\<lambda>f. rf_severity f = BlockerSeverity) bs"
  by (simp_all add: push_blocker_def push_blocker_if_def finding_def)

lemma push_warning_severity [simp]:
  "list_all (\<lambda>f. rf_severity f \<noteq> BlockerSeverity) (push_warning_if c code message details fs) \<longleftrightarrow>
     list_all (\<lambda>f. rf_severity f \<noteq> BlockerSeverity) fs"
  by (simp add: push_warning_if_def finding_def)

lemma finding_severity [simp]: "rf_severity (finding code severity message details) = severity"
  by (simp add: finding_def)

lemma push_blocker_Nil [simp]:
  "push_blocker code message details bs \<noteq> []"
  "push_blocker_if c code message details bs = [] \<longleftrightarrow> \<not> c \<and> bs = []"
  by (simp_all add: push_blocker_def push_blocker_if_def)

lemma missing_findings_severity [simp]:
  "list_all (\<lambda>f. rf_severity f = BlockerSeverity) (add_reference_provider_missing_findings tx input bs) \<longleftrightarrow>
     list_all (\<lambda>f. rf_severity f = BlockerSeverity) bs"
  by (simp add: add_reference_provider_missing_findings_def Let_def split: option.split)

definition provider_meets_policy :: "('s, 'e) matrix_readiness_input \<Rightarrow> bool" where
  "provider_meets_policy input =
     (let matching = cv_matching (mi_coverage input); policy = mi_policy input in
      (case policy_parse (boundary_policy_label input) of
         Inl _ \<Rightarrow> False
       | Inr boundary \<Rightarrow> requires_closure boundary \<longrightarrow>
           \<not> mc_a_write_pct matching < mp_min_provider_write_pct policy \<and>
           mc_unmatched_no_provider matching \<le> mp_max_unmatched_no_provider policy \<and>
           (case mi_compiled_graph input of None \<Rightarrow> True | Some graph \<Rightarrow> reference_gaps graph = []) \<and>
           mc_matched_multi_unresolved matching \<le> mp_max_multi_unresolved policy) \<and>
      (mp_allow_equal_fallback policy \<or> mc_matched_multi_fallback_equal matching \<le> 0))"

definition graph_meets_policy :: "('s, 'e) matrix_readiness_input \<Rightarrow> bool" where
  "graph_meets_policy input =
     (let coverage = mi_coverage input; policy = mi_policy input in
      rf_missing_reference_count (cv_reference coverage) \<le> 0 \<and> rf_invalid_reference_count (cv_reference coverage) \<le> 0 \<and>
      al_allocation_fraction_invalid_count (cv_allocation coverage) \<le> 0 \<and>
      (sk_risk_level (cv_singular_risk coverage) = ''high'' \<longrightarrow> mp_allow_high_singular_risk policy) \<and>
      (sk_risk_level (cv_singular_risk coverage) = ''medium'' \<longrightarrow> mp_allow_medium_singular_risk policy) \<and>
      (mp_require_lcia_factors policy \<longrightarrow> sc_c_nnz (cv_matrix_scale coverage) \<noteq> 0))"

lemma missing_findings_Nil [simp]:
  "add_reference_provider_missing_findings tx input bs = [] \<longleftrightarrow>
     bs = [] \<and> (case mi_compiled_graph input of None \<Rightarrow> True | Some graph \<Rightarrow> reference_gaps graph = [])"
  by (auto simp: add_reference_provider_missing_findings_def Let_def split: option.split)

lemma provider_blockers_Nil:
  "snd (add_provider_findings tx input acc) = [] \<longleftrightarrow> snd acc = [] \<and> provider_meets_policy input"
proof (cases "policy_parse (boundary_policy_label input)")
  case (Inl e)
  then show ?thesis
    by (simp add: add_provider_findings_def provider_meets_policy_def Let_def)
next
  case (Inr boundary)
  then show ?thesis
    by (auto simp: add_provider_findings_def provider_meets_policy_def Let_def not_less)
qed

lemma provider_findings_severities: "severities_kept acc \<Longrightarrow> severities_kept (add_provider_findings tx input acc)"
  by (cases acc) (simp add: add_provider_findings_def Let_def split: sum.split)

lemma risk_blockers_Nil:
  "snd (add_singular_risk_findings tx policy risk acc) = [] \<longleftrightarrow> snd acc = [] \<and>
     (sk_risk_level risk = ''high'' \<longrightarrow> mp_allow_high_singular_risk policy) \<and>
     (sk_risk_level risk = ''medium'' \<longrightarrow> mp_allow_medium_singular_risk policy)"
  by (auto simp: add_singular_risk_findings_def Let_def)

lemma risk_findings_severities: "severities_kept acc \<Longrightarrow> severities_kept (add_singular_risk_findings tx policy risk acc)"
  by (cases acc) (simp add: add_singular_risk_findings_def Let_def)

lemma graph_blockers_Nil:
  "snd (add_graph_findings tx input acc) = [] \<longleftrightarrow> snd acc = [] \<and> graph_meets_policy input"
  by (auto simp: add_graph_findings_def graph_meets_policy_def Let_def risk_blockers_Nil not_less)

lemma graph_findings_severities:
  assumes "severities_kept acc"
  shows "severities_kept (add_graph_findings tx input acc)"
  using assms risk_findings_severities [of _ tx "mi_policy input" "cv_singular_risk (mi_coverage input)"]
  by (cases acc) (simp add: add_graph_findings_def Let_def severities_kept_def)

section \<open>Samples\<close>

definition non_finite_in :: "f64 list \<Rightarrow> nat" where
  "non_finite_in vs = length (filter (\<lambda>v. \<not> is_finite v) vs)"

definition negative_in :: "matrix_readiness_policy \<Rightarrow> f64 list \<Rightarrow> nat" where
  "negative_in policy vs = length (filter (\<lambda>v. is_finite v \<and> v < - mp_negative_lcia_epsilon policy) vs)"

lemma observe_values_counts [simp]:
  "cm_non_finite_value_count (observe_values vs m) = cm_non_finite_value_count m + non_finite_in (unwrap_or [] vs)"
  "cm_negative_lcia_value_count (observe_values vs m) = cm_negative_lcia_value_count m"
  "cm_sampled_unit_solves (observe_values vs m) = cm_sampled_unit_solves m"
proof -
  have "cm_non_finite_value_count (foldl observe_value m xs) = cm_non_finite_value_count m + non_finite_in xs \<and>
      cm_negative_lcia_value_count (foldl observe_value m xs) = cm_negative_lcia_value_count m \<and>
      cm_sampled_unit_solves (foldl observe_value m xs) = cm_sampled_unit_solves m" for xs
    by (induction xs arbitrary: m) (auto simp: observe_value_def non_finite_in_def)
  then show "cm_non_finite_value_count (observe_values vs m) = cm_non_finite_value_count m + non_finite_in (unwrap_or [] vs)"
    "cm_negative_lcia_value_count (observe_values vs m) = cm_negative_lcia_value_count m"
    "cm_sampled_unit_solves (observe_values vs m) = cm_sampled_unit_solves m"
    by (simp_all add: observe_values_def)
qed

lemma observe_lcia_values_counts [simp]:
  "cm_non_finite_value_count (observe_lcia_values vs policy m) = cm_non_finite_value_count m + non_finite_in (unwrap_or [] vs)"
  "cm_negative_lcia_value_count (observe_lcia_values vs policy m) =
     cm_negative_lcia_value_count m + negative_in policy (unwrap_or [] vs)"
  "cm_sampled_unit_solves (observe_lcia_values vs policy m) = cm_sampled_unit_solves m"
proof -
  have "cm_non_finite_value_count (foldl (observe_lcia_value policy) m xs) = cm_non_finite_value_count m + non_finite_in xs \<and>
      cm_negative_lcia_value_count (foldl (observe_lcia_value policy) m xs) =
        cm_negative_lcia_value_count m + negative_in policy xs \<and>
      cm_sampled_unit_solves (foldl (observe_lcia_value policy) m xs) = cm_sampled_unit_solves m" for xs
    by (induction xs arbitrary: m) (auto simp: observe_lcia_value_def non_finite_in_def negative_in_def Let_def)
  then show "cm_non_finite_value_count (observe_lcia_values vs policy m) =
      cm_non_finite_value_count m + non_finite_in (unwrap_or [] vs)"
    "cm_negative_lcia_value_count (observe_lcia_values vs policy m) =
      cm_negative_lcia_value_count m + negative_in policy (unwrap_or [] vs)"
    "cm_sampled_unit_solves (observe_lcia_values vs policy m) = cm_sampled_unit_solves m"
    by (simp_all add: observe_lcia_values_def)
qed

text \<open>The outcome of the sample solve of a process on a prepared service.\<close>

definition sample_outcome ::
  "umfpack_lib \<Rightarrow> (nat list \<Rightarrow> string) \<Rightarrow> (nat \<Rightarrow> system_time) \<Rightarrow> f64 model_sparse_data \<Rightarrow> solver_service \<Rightarrow> usize
   \<Rightarrow> solver_error + solve_result" where
  "sample_outcome lib hash now payload service i =
     fst (solve_one lib hash (now (i + 2)) (model_version payload) numeric_options_default
       (unit_demand (nat (process_count payload)) i) \<lparr>return_x = True, return_g = True, return_h = True\<rparr> service)"

definition outcome_non_finite :: "solver_error + solve_result \<Rightarrow> nat" where
  "outcome_non_finite r = (case r of
      Inl _ \<Rightarrow> 0
    | Inr res \<Rightarrow> non_finite_in (unwrap_or [] (sr_x res)) + non_finite_in (unwrap_or [] (sr_g res)) + non_finite_in (unwrap_or [] (sr_h res)))"

definition outcome_negative :: "matrix_readiness_policy \<Rightarrow> solver_error + solve_result \<Rightarrow> nat" where
  "outcome_negative policy r = (case r of Inl _ \<Rightarrow> 0 | Inr res \<Rightarrow> negative_in policy (unwrap_or [] (sr_h res)))"

text \<open>What sampling the processes \<open>is\<close> adds to the metrics and the blockers.\<close>

definition sampled ::
  "(usize \<Rightarrow> solver_error + solve_result) \<Rightarrow> matrix_readiness_policy \<Rightarrow> usize list
   \<Rightarrow> compute_stability_metrics \<times> readiness_finding list \<Rightarrow> compute_stability_metrics \<times> readiness_finding list \<Rightarrow> bool" where
  "sampled outcome policy is before after =
     (case (before, after) of ((m, bs), (m', bs')) \<Rightarrow>
        cm_non_finite_value_count m' = cm_non_finite_value_count m + sum_list (map (outcome_non_finite \<circ> outcome) is) \<and>
        cm_negative_lcia_value_count m' =
          cm_negative_lcia_value_count m + sum_list (map (outcome_negative policy \<circ> outcome) is) \<and>
        cm_sampled_unit_solves m' + length bs' = cm_sampled_unit_solves m + length bs + length is \<and>
        (bs' = [] \<longleftrightarrow> bs = [] \<and> list_all (is_ok \<circ> outcome) is) \<and>
        (list_all (\<lambda>f. rf_severity f = BlockerSeverity) bs' \<longleftrightarrow> list_all (\<lambda>f. rf_severity f = BlockerSeverity) bs))"

lemma sampled_Nil [simp]: "sampled outcome policy [] s s"
  by (simp add: sampled_def split: prod.split)

lemma sampled_Cons:
  "sampled outcome policy [i] s t \<Longrightarrow> sampled outcome policy is t u \<Longrightarrow> sampled outcome policy (i # is) s u"
  by (cases s; cases t; cases u) (simp add: sampled_def)

lemma sample_step_sampled:
  assumes "cache_view (sv_cache service) = cache_view (sv_cache s)" "i < nat (process_count payload)"
    "sample_outcome lib hash now payload s i \<noteq> Inl IndexPanic"
  obtains service' m' bs' where
    "sample_step lib hash now tx payload policy (service, m, bs) i = Inr (service', m', bs')"
    "cache_view (sv_cache service') = cache_view (sv_cache s)"
    "sampled (sample_outcome lib hash now payload s) policy [i] (m, bs) (m', bs')"
proof -
  let ?n = "nat (process_count payload)" and ?so = "\<lparr>return_x = True, return_g = True, return_h = True\<rparr>"
  obtain r service' where r: "solve_one lib hash (now (i + 2)) (model_version payload) numeric_options_default
      (unit_demand ?n i) ?so service = (r, service')" by fastforce
  have out: "sample_outcome lib hash now payload s i = r"
    using solve_one_same_view [OF assms(1), of lib hash "now (i + 2)" "model_version payload" numeric_options_default
        "unit_demand ?n i" ?so] r by (simp add: sample_outcome_def)
  have view: "cache_view (sv_cache service') = cache_view (sv_cache s)"
    using solve_one_keeps_view [of lib hash "now (i + 2)" "model_version payload" numeric_options_default
        "unit_demand ?n i" ?so service] r assms(1) by simp
  have n: "unwrap_or 0 (usize_try_from (process_count payload)) = ?n" using assms(2) by simp
  show thesis
  proof (cases r)
    case (Inl e)
    let ?bs = "push_blocker ''sample_unit_solve_failed''
      (''unit demand solve failed for process index '' @ show_nat i @ '': '' @ solver_error_text tx e)
      (json_object [(''process_idx'', json_int (int i))]) bs"
    from Inl assms(3) out have "e \<noteq> IndexPanic" by simp
    with Inl r n assms(2) have "sample_step lib hash now tx payload policy (service, m, bs) i = Inr (service', m, ?bs)"
      by (simp add: sample_step_def Let_def)
    moreover have "length ?bs = length bs + 1" by (simp add: push_blocker_def)
    ultimately show thesis using Inl out view
      by (intro that [of service' m ?bs]) (simp_all add: sampled_def outcome_non_finite_def outcome_negative_def)
  next
    case (Inr res)
    let ?m = "observe_lcia_values (sr_h res) policy (observe_values (sr_g res) (observe_values (sr_x res)
      (m\<lparr>cm_sampled_unit_solves := cm_sampled_unit_solves m + 1\<rparr>)))"
    from Inr r n assms(2) have "sample_step lib hash now tx payload policy (service, m, bs) i = Inr (service', ?m, bs)"
      by (simp add: sample_step_def Let_def)
    with Inr out view show thesis
      by (intro that [of service' ?m bs]) (simp_all add: sampled_def outcome_non_finite_def outcome_negative_def)
  qed
qed

lemma sample_loop:
  assumes "cache_view (sv_cache service) = cache_view (sv_cache s)"
    "\<And>i. i \<in> set is \<Longrightarrow> i < nat (process_count payload)"
    "\<And>i. i \<in> set is \<Longrightarrow> sample_outcome lib hash now payload s i \<noteq> Inl IndexPanic"
  shows "\<exists>service' m' bs'.
    try_fold (sample_step lib hash now tx payload policy) (service, m, bs) is = Inr (service', m', bs') \<and>
    sampled (sample_outcome lib hash now payload s) policy is (m, bs) (m', bs')"
  using assms
proof (induction "is" arbitrary: service m bs)
  case (Cons i rest)
  have i: "i < nat (process_count payload)" "sample_outcome lib hash now payload s i \<noteq> Inl IndexPanic"
    using Cons.prems(2) [of i] Cons.prems(3) [of i] by simp_all
  obtain service1 m1 bs1 where
    step: "sample_step lib hash now tx payload policy (service, m, bs) i = Inr (service1, m1, bs1)"
    and view: "cache_view (sv_cache service1) = cache_view (sv_cache s)"
    and first: "sampled (sample_outcome lib hash now payload s) policy [i] (m, bs) (m1, bs1)"
    by (rule sample_step_sampled [OF Cons.prems(1) i])
  have "\<exists>service' m' bs'.
    try_fold (sample_step lib hash now tx payload policy) (service1, m1, bs1) rest = Inr (service', m', bs') \<and>
    sampled (sample_outcome lib hash now payload s) policy rest (m1, bs1) (m', bs')"
    by (rule Cons.IH [OF view]) (rule Cons.prems(2) Cons.prems(3); simp)+
  then show ?case using step sampled_Cons [OF first] by auto
qed simp

section \<open>The policy is what passes\<close>

definition acceptable_result :: "matrix_readiness_policy \<Rightarrow> solve_result \<Rightarrow> bool" where
  "acceptable_result policy res =
     (list_all is_finite (unwrap_or [] (sr_x res)) \<and> list_all is_finite (unwrap_or [] (sr_g res)) \<and>
      list_all is_finite (unwrap_or [] (sr_h res)) \<and>
      (mp_negative_lcia_policy policy = BlockAnomaly \<longrightarrow>
        list_all (\<lambda>v. \<not> v < - mp_negative_lcia_epsilon policy) (unwrap_or [] (sr_h res))))"

definition compute_meets_policy ::
  "umfpack_lib \<Rightarrow> (nat list \<Rightarrow> string) \<Rightarrow> (usize \<Rightarrow> usize) \<Rightarrow> (nat \<Rightarrow> system_time) \<Rightarrow> f64 model_sparse_data
   \<Rightarrow> matrix_readiness_policy \<Rightarrow> bool" where
  "compute_meets_policy lib hash cap now payload policy =
     (case prepare lib hash cap now payload numeric_options_default service_new of
        (Inl _, _) \<Rightarrow> False
      | (Inr _, service) \<Rightarrow>
          list_all (\<lambda>i. case sample_outcome lib hash now payload service i of
              Inl _ \<Rightarrow> False | Inr res \<Rightarrow> acceptable_result policy res) [0..<sample_count payload policy])"

lemma outcome_counts_zero:
  "is_ok r \<and> outcome_non_finite r = 0 \<and> (mp_negative_lcia_policy policy = BlockAnomaly \<longrightarrow> outcome_negative policy r = 0) \<longleftrightarrow>
     (case r of Inl _ \<Rightarrow> False | Inr res \<Rightarrow> acceptable_result policy res)"
  by (cases r)
    (auto simp: outcome_non_finite_def outcome_negative_def acceptable_result_def non_finite_in_def negative_in_def
      filter_empty_conv list_all_iff)

lemma sample_findings_Nil:
  "snd (add_sample_findings tx policy m acc) = [] \<longleftrightarrow>
     snd acc = [] \<and> cm_non_finite_value_count m = 0 \<and>
     (mp_negative_lcia_policy policy = BlockAnomaly \<longrightarrow> cm_negative_lcia_value_count m = 0)"
  by (cases "mp_negative_lcia_policy policy") (auto simp: add_sample_findings_def anomaly_severity_def Let_def)

lemma sample_findings_severities: "severities_kept acc \<Longrightarrow> severities_kept (add_sample_findings tx policy m acc)"
  by (cases acc; cases "mp_negative_lcia_policy policy") (simp_all add: add_sample_findings_def anomaly_severity_def Let_def)

lemma DEFAULT_CAPACITY_fits: "DEFAULT_CAPACITY_BYTES < u64_max"
  by (simp add: DEFAULT_CAPACITY_BYTES_def u64_max_def)

lemma sample_outcome_no_panic:
  assumes "umfpack_contract lib" "prepare lib hash cap now payload numeric_options_default service_new = (Inr r, s)"
  shows "sample_outcome lib hash now payload s i = Inl e \<Longrightarrow> \<exists>u. e = SolverFactorization u"
proof -
  assume out: "sample_outcome lib hash now payload s i = Inl e"
  have len: "length (unit_demand (nat (process_count payload)) i) = nat (process_count payload)"
    by (simp add: unit_demand_def)
  show ?thesis
    by (rule prepare_solve_cases [OF service_new_reachable DEFAULT_CAPACITY_fits assms])
      (use out len in \<open>auto simp: sample_outcome_def split: sum.splits\<close>)
qed

lemma compute_stability_spec:
  assumes "umfpack_contract lib"
  shows "\<exists>m acc'. run_compute_stability lib hash cap now tx payload policy acc = Inr (m, acc') \<and>
    (snd acc' = [] \<longleftrightarrow> snd acc = [] \<and> compute_meets_policy lib hash cap now payload policy) \<and>
    (severities_kept acc \<longrightarrow> severities_kept acc')"
proof -
  obtain r s where p: "prepare lib hash cap now payload numeric_options_default service_new = (r, s)" by fastforce
  show ?thesis
  proof (cases r)
    case (Inl e)
    have "e \<noteq> IndexPanic"
      using prepare_errD [of lib hash cap now payload numeric_options_default service_new e s] p Inl by auto
    with p Inl show ?thesis
      by (cases acc) (simp add: run_compute_stability_def compute_meets_policy_def Let_def)
  next
    case (Inr result)
    note p = p [unfolded Inr]
    let ?v = "fd_validation (pr_diagnostics result)" and ?is = "[0..<sample_count payload policy]"
    let ?m = "metrics_unchecked True\<lparr>cm_factorization_ready := True, cm_validation := Some ?v\<rparr>"
    let ?out = "sample_outcome lib hash now payload s"
    have "\<exists>service' m' bs'. try_fold (sample_step lib hash now tx payload policy) (s, ?m, snd acc) ?is = Inr (service', m', bs') \<and>
      sampled ?out policy ?is (?m, snd acc) (m', bs')"
      using sample_outcome_no_panic [OF assms p]
      by (intro sample_loop) (fastforce simp: sample_count_def unwrap_or_def usize_try_from_def split: if_splits)+
    then obtain service' m' bs' where
      loop: "try_fold (sample_step lib hash now tx payload policy) (s, ?m, snd acc) ?is = Inr (service', m', bs')"
      and sampled: "sampled ?out policy ?is (?m, snd acc) (m', bs')" by (elim exE conjE)
    obtain fs where run: "run_compute_stability lib hash cap now tx payload policy acc =
        Inr (m', add_sample_findings tx policy m' (fs, bs'))"
      and fs: "list_all (\<lambda>f. rf_severity f \<noteq> BlockerSeverity) (fst acc) \<longrightarrow> list_all (\<lambda>f. rf_severity f \<noteq> BlockerSeverity) fs"
      using p loop by (auto simp: run_compute_stability_def Let_def split: if_splits)
    have "snd (add_sample_findings tx policy m' (fs, bs')) = [] \<longleftrightarrow> snd acc = [] \<and>
        list_all (\<lambda>i. is_ok (?out i) \<and> outcome_non_finite (?out i) = 0 \<and>
          (mp_negative_lcia_policy policy = BlockAnomaly \<longrightarrow> outcome_negative policy (?out i) = 0)) ?is"
      using sampled
      by (auto simp: sample_findings_Nil sampled_def metrics_unchecked_def list_all_iff comp_def)
    then have "snd (add_sample_findings tx policy m' (fs, bs')) = [] \<longleftrightarrow>
        snd acc = [] \<and> compute_meets_policy lib hash cap now payload policy"
      by (simp add: outcome_counts_zero compute_meets_policy_def p)
    moreover have "severities_kept acc \<longrightarrow> severities_kept (add_sample_findings tx policy m' (fs, bs'))"
      using fs sampled sample_findings_severities [of "(fs, bs')" tx policy m']
      by (simp add: sampled_def severities_kept_def)
    ultimately show ?thesis using run by blast
  qed
qed

lemma verify_spec:
  assumes "umfpack_contract lib"
  obtains report where "verify_matrix_readiness lib hash cap now tx stamp input = Inr report"
    "rr_status report = (if rr_blockers report = [] then Passed else ReadinessFailed)"
    "rr_next_action report = next_action (rr_blockers report) (rr_findings report)"
    "rr_blockers report = [] \<longleftrightarrow> provider_meets_policy input \<and> graph_meets_policy input \<and>
       (mp_run_factorization (mi_policy input) \<longrightarrow> compute_meets_policy lib hash cap now (mi_payload input) (mi_policy input))"
    "severities_kept (rr_findings report, rr_blockers report)"
    "rr_unresolved_balances report = (case mi_compiled_graph input of None \<Rightarrow> [] | Some graph \<Rightarrow> cg_unresolved_balances graph)"
proof -
  let ?acc = "add_graph_findings tx input (add_provider_findings tx input ([], []))"
  have static: "snd ?acc = [] \<longleftrightarrow> provider_meets_policy input \<and> graph_meets_policy input"
    by (simp add: graph_blockers_Nil provider_blockers_Nil)
  have kept: "severities_kept ?acc"
    by (intro graph_findings_severities provider_findings_severities) simp
  let ?run = "if mp_run_factorization (mi_policy input)
    then run_compute_stability lib hash cap now tx (mi_payload input) (mi_policy input) ?acc
    else Inr (metrics_unchecked False, ?acc)"
  obtain m fs bs where run: "?run = Inr (m, fs, bs)" and kept': "severities_kept (fs, bs)"
    and nil: "bs = [] \<longleftrightarrow> snd ?acc = [] \<and>
      (mp_run_factorization (mi_policy input) \<longrightarrow> compute_meets_policy lib hash cap now (mi_payload input) (mi_policy input))"
  proof (cases "mp_run_factorization (mi_policy input)")
    case False
    with kept show ?thesis by (cases ?acc) (intro that [of "metrics_unchecked False" "fst ?acc" "snd ?acc"]; simp)
  next
    case True
    obtain m acc' where "run_compute_stability lib hash cap now tx (mi_payload input) (mi_policy input) ?acc = Inr (m, acc')"
      "snd acc' = [] \<longleftrightarrow> snd ?acc = [] \<and> compute_meets_policy lib hash cap now (mi_payload input) (mi_policy input)"
      "severities_kept ?acc \<longrightarrow> severities_kept acc'"
      using compute_stability_spec [OF assms, of hash cap now tx "mi_payload input" "mi_policy input" ?acc] by (elim exE conjE)
    with True kept show ?thesis by (cases acc') (intro that [of m "fst acc'" "snd acc'"]; simp)
  qed
  from run have "\<exists>report. verify_matrix_readiness lib hash cap now tx stamp input = Inr report \<and>
      rr_status report = (if bs = [] then Passed else ReadinessFailed) \<and> rr_next_action report = next_action bs fs \<and>
      rr_blockers report = bs \<and> rr_findings report = fs \<and>
      rr_unresolved_balances report = (case mi_compiled_graph input of None \<Rightarrow> [] | Some graph \<Rightarrow> cg_unresolved_balances graph)"
    unfolding verify_matrix_readiness_def Let_def by simp
  then show thesis using that kept' nil static by (elim exE conjE) simp
qed

text \<open>
  C14. The readiness gate returns a report on every input, without a slice index out of range, and passes a
  snapshot exactly when it meets the policy: the boundary policy is known; under a closed boundary enough
  edges are written, no more are unmatched or unresolved than allowed and no input is supplied only by
  non-reference outputs; no equal fallback, missing reference, invalid allocation, forbidden singular risk
  or missing factor; and, when the matrix is factorized, the factorization succeeds and every sampled unit
  demand is solved with finite results. Every blocker has the severity of a blocker and no finding has.
\<close>

theorem readiness_passes_iff_policy_met:
  assumes "umfpack_contract lib"
  shows "\<exists>report. verify_matrix_readiness lib hash cap now tx stamp input = Inr report \<and>
    (rr_status report = Passed \<longleftrightarrow> provider_meets_policy input \<and> graph_meets_policy input \<and>
       (mp_run_factorization (mi_policy input) \<longrightarrow> compute_meets_policy lib hash cap now (mi_payload input) (mi_policy input))) \<and>
    severities_kept (rr_findings report, rr_blockers report)"
  by (rule verify_spec [OF assms, of hash cap now tx stamp input]) (auto split: if_splits)

text \<open>
  The next action of a report follows its status: a passed snapshot is published, or reviewed when there is a
  warning; any other action is a repair, and it is asked for exactly when there is a blocker.
\<close>

theorem next_action_follows_status:
  assumes "verify_matrix_readiness lib hash cap now tx stamp input = Inr report"
  shows "(rr_status report = Passed \<longleftrightarrow> rr_blockers report = []) \<and>
    (rr_next_action report = ''publish_ready'' \<longleftrightarrow>
       rr_status report = Passed \<and> list_all (\<lambda>f. rf_severity f \<noteq> WarningSeverity) (rr_findings report)) \<and>
    (rr_next_action report = ''manual_review_warnings'' \<longleftrightarrow>
       rr_status report = Passed \<and> list_ex (\<lambda>f. rf_severity f = WarningSeverity) (rr_findings report))"
proof -
  from assms have r: "rr_status report = (if rr_blockers report = [] then Passed else ReadinessFailed)"
    "rr_next_action report = next_action (rr_blockers report) (rr_findings report)"
    by (auto simp: verify_matrix_readiness_def Let_def res_simps)
  show ?thesis
  proof (cases "rr_blockers report")
    case Nil
    with r show ?thesis by (auto simp: next_action_def Let_def list_all_iff list_ex_iff)
  next
    case (Cons b bs)
    with r show ?thesis by (simp add: next_action_def Let_def)
  qed
qed

text \<open>
  After a successful factorization every sampled unit demand is either solved or blocked, and one that is
  blocked was refused by UMFPACK: the prepared model is found, the demand has the right length and no index
  is out of range.
\<close>

theorem samples_fail_only_in_umfpack:
  assumes "umfpack_contract lib" "prepare lib hash cap now payload numeric_options_default service_new = (Inr r, s)"
  shows "sample_count payload policy \<le> mp_sample_solve_unit_limit policy \<and>
    (case sample_outcome lib hash now payload s i of
       Inl e \<Rightarrow> \<exists>u. e = SolverFactorization u
     | Inr res \<Rightarrow> sr_x res \<noteq> None \<and> sr_g res \<noteq> None \<and> sr_h res \<noteq> None \<and>
         length (unwrap_or [] (sr_x res)) = nat (process_count payload))"
proof -
  have len: "length (unit_demand (nat (process_count payload)) i) = nat (process_count payload)"
    by (simp add: unit_demand_def)
  show ?thesis
    by (rule prepare_solve_cases [OF service_new_reachable DEFAULT_CAPACITY_fits assms])
      (use len in \<open>auto simp: sample_outcome_def sample_count_def split: sum.splits\<close>)
qed

section \<open>Examples\<close>

definition example_texts :: texts where
  "example_texts = \<lparr>tx_display = (\<lambda>_. ''0''), tx_number = (\<lambda>_. ''0''), tx_report = (\<lambda>_. [])\<rparr>"

definition example_matching :: "i64 \<Rightarrow> snapshot_matching_coverage" where
  "example_matching written =
     \<lparr>mc_input_edges_total = 1, mc_matched_unique_provider = written, mc_matched_multi_provider = 0,
      mc_unmatched_no_provider = 1 - written, mc_matched_multi_resolved = 0, mc_matched_multi_unresolved = 0,
      mc_matched_multi_fallback_equal = 0, mc_a_input_edges_written = written, mc_residual_edges_total = 1,
      mc_a_balance_edges_written = written, mc_a_write_pct = Fin (100 * of_int written),
      mc_provider_present_resolved_pct = Fin 100, mc_unique_provider_match_pct = Fin (100 * of_int written),
      mc_any_provider_match_pct = Fin (100 * of_int written),
      mc_provider_decision_diagnostics = summarize_provider_decision_diagnostics [],
      mc_candidate_summary = \<lparr>cs_candidate_count_histogram = []\<rparr>,
      mc_resolution_summary = \<lparr>rs_resolved_strategy_counts = [], rs_unresolved_reason_counts = []\<rparr>,
      mc_geography_summary = \<lparr>gg_tier_counts = [], gg_tier_counts_by_strategy = [], gg_supply_region_source_counts = [],
        gg_supply_region_source_counts_by_strategy = [], gg_exchange_location_present_count = 0,
        gg_exchange_location_present_count_by_strategy = [], gg_requested_location_granularity_counts = [],
        gg_requested_location_granularity_counts_by_strategy = []\<rparr>,
      mc_volume_weight_summary = volume_weight_default,
      mc_gap_summary = \<lparr>gs_unmatched_top_flows = [], gs_process_gap_top = []\<rparr>\<rparr>"

definition example_coverage :: "i64 \<Rightarrow> string \<Rightarrow> snapshot_coverage_report" where
  "example_coverage written risk =
     \<lparr>cv_schema_version = ''v2'', cv_matching = example_matching written,
      cv_reference = \<lparr>rf_process_total = 1, rf_normalized_process_count = 1, rf_missing_reference_count = 0,
        rf_invalid_reference_count = 0\<rparr>,
      cv_allocation = \<lparr>al_exchange_total = 1, al_allocation_fraction_present_pct = Fin 100,
        al_allocation_fraction_missing_count = 0, al_allocation_fraction_invalid_count = 0,
        al_legacy_empty_allocation_as_undeclared_count = 0, al_legacy_single_output_target_inferred_count = 0,
        al_legacy_single_reference_target_inferred_count = 0\<rparr>,
      cv_singular_risk = \<lparr>sk_risk_level = risk, sk_prefilter_diag_abs_ge_cutoff = 0,
        sk_postfilter_a_diag_abs_ge_cutoff = 0, sk_m_zero_diagonal_count = 0, sk_m_min_abs_diagonal = Fin 1\<rparr>,
      cv_matrix_scale = \<lparr>sc_process_count = 1, sc_flow_count = 1, sc_impact_count = 1, sc_a_nnz = 0, sc_b_nnz = 1,
        sc_c_nnz = 1, sc_m_nnz_estimated = 1, sc_m_sparsity_estimated = Fin 0\<rparr>\<rparr>"

definition example_readiness_input :: "i64 \<Rightarrow> string \<Rightarrow> bool \<Rightarrow> (unit, unit) matrix_readiness_input" where
  "example_readiness_input written risk check =
     \<lparr>mi_schema_version = INPUT_SCHEMA_VERSION, mi_snapshot_id = Some ''v'', mi_config = None,
      mi_coverage = example_coverage written risk, mi_payload = demo_data, mi_compiled_graph = None,
      mi_policy = matrix_readiness_policy_default\<lparr>mp_run_factorization := check\<rparr>\<rparr>"

abbreviation example_readiness :: "i64 \<Rightarrow> string \<Rightarrow> bool \<Rightarrow> panic + matrix_readiness_report" where
  "example_readiness written risk check \<equiv> verify_matrix_readiness demo_lib demo_hash id (\<lambda>i. i) example_texts ''now''
     (example_readiness_input written risk check)"

lemmas example_input_defs = example_readiness_input_def example_coverage_def example_matching_def
  matrix_readiness_policy_default_def default_min_provider_write_pct_def

lemma example_policy_met: "provider_meets_policy (example_readiness_input 1 ''low'' f)" "graph_meets_policy (example_readiness_input 1 ''low'' f)"
  by (simp_all add: provider_meets_policy_def graph_meets_policy_def example_input_defs boundary_policy_label_def policy_parse_def
      requires_closure_def f64_ops)

text \<open>A closed snapshot of low risk passes; with an unmatched edge the same snapshot fails.\<close>

theorem readiness_passes_iff_policy_met_witness:
  "(\<exists>report. example_readiness 1 ''low'' False = Inr report \<and> rr_status report = Passed) \<and>
   (\<exists>report. example_readiness 0 ''low'' True = Inr report \<and> rr_status report = ReadinessFailed)"
proof
  have "\<not> mp_run_factorization (mi_policy (example_readiness_input 1 ''low'' False))" by (simp add: example_input_defs)
  with readiness_passes_iff_policy_met [OF demo_lib_contract, of demo_hash id "\<lambda>i. i" example_texts "''now''"
      "example_readiness_input 1 ''low'' False"] example_policy_met
  show "\<exists>report. example_readiness 1 ''low'' False = Inr report \<and> rr_status report = Passed" by auto
  have "\<not> provider_meets_policy (example_readiness_input 0 ''low'' True)"
    by (simp add: provider_meets_policy_def example_input_defs boundary_policy_label_def policy_parse_def requires_closure_def f64_ops)
  with readiness_passes_iff_policy_met [OF demo_lib_contract, of demo_hash id "\<lambda>i. i" example_texts "''now''"
      "example_readiness_input 0 ''low'' True"]
  show "\<exists>report. example_readiness 0 ''low'' True = Inr report \<and> rr_status report = ReadinessFailed"
    by (metis (full_types) readiness_status.exhaust)
qed

theorem next_action_follows_status_witness:
  "\<exists>report. example_readiness 1 ''low'' False = Inr report \<and> rr_next_action report = ''publish_ready''"
proof -
  obtain report where r: "example_readiness 1 ''low'' False = Inr report" "rr_blockers report = []" "rr_findings report = []"
    by (simp add: verify_matrix_readiness_def add_provider_findings_def add_graph_findings_def add_singular_risk_findings_def
        example_input_defs boundary_policy_label_def policy_parse_def requires_closure_def f64_ops push_blocker_if_def
        push_warning_if_def add_reference_provider_missing_findings_def)
  from next_action_follows_status [OF r(1)] r show ?thesis by simp
qed

lemma demo_workload_new: "workload_estimated_bytes id (Fin 8) demo_matrices = 220"
proof -
  have "f64_ceil (f64_round 20 * Fin 8) = Fin 160" by code_simp
  then show ?thesis
    by (simp add: workload_estimated_bytes_def demo_matrices_def csc_estimated_owned_bytes_def demo_1x1_def Let_def
        saturating_add_def saturating_mul_def u64_max_def round_half_even_def)
qed

lemma demo_prepare_new:
  "\<exists>r s'. prepare demo_lib demo_hash id (\<lambda>i. i) demo_data numeric_options_default service_new = (Inr r, s')"
  unfolding service_new_policy
  by (rule demo_prepare_policy) (simp_all add: demo_workload_new f64_max_def f64_ops DEFAULT_CAPACITY_BYTES_def)

theorem samples_fail_only_in_umfpack_witness:
  "\<exists>r s. prepare demo_lib demo_hash id (\<lambda>i. i) demo_data numeric_options_default service_new = (Inr r, s) \<and>
     sample_count demo_data matrix_readiness_policy_default = 1 \<and>
     (case sample_outcome demo_lib demo_hash (\<lambda>i. i) demo_data s 0 of
        Inl e \<Rightarrow> \<exists>u. e = SolverFactorization u
      | Inr res \<Rightarrow> length (unwrap_or [] (sr_x res)) = 1)"
proof -
  obtain r s where p: "prepare demo_lib demo_hash id (\<lambda>i. i) demo_data numeric_options_default service_new = (Inr r, s)"
    using demo_prepare_new by blast
  have v: "nat (process_count demo_data) = 1" "sample_count demo_data matrix_readiness_policy_default = 1"
    by (simp_all add: demo_data_def sample_count_def matrix_readiness_policy_default_def default_sample_solve_unit_limit_def)
  show ?thesis
    using samples_fail_only_in_umfpack [OF demo_lib_contract p, of matrix_readiness_policy_default 0] p v
    by (intro exI [of _ r] exI [of _ s]) (auto split: sum.splits)
qed

end
