(* ===== verification/Lcia_Coverage.thy ===== *)
theory Lcia_Coverage
  imports Snapshot_Coverage
begin

text \<open>
  Characterization factors of a snapshot (\<open>crates/solver-worker/src/bin/snapshot_builder.rs\<close> with the records of
  \<open>calculation_evidence.rs\<close>): the direction in which a flow is observed, the factors that are active for it, and
  the coverage of the observed exchanges by the factors of each method, with one line of evidence for every
  exchange that a method leaves uncharacterized. The text of a line and the hash are arguments. Theorems: a
  factor is active exactly when it is declared for the one direction of its flow, and the coverage counts every
  pair of method and exchange once and proves every gap.
\<close>

section \<open>Data\<close>

record impact_factor_set =
  if_impact_id :: uuid
  if_method_version :: string
  if_artifact_locator_id :: uuid
  if_impact_key :: string
  if_impact_name :: string
  if_unit :: string
  if_factors_by_flow :: "(uuid \<times> f64) list"
  if_factors_by_flow_direction :: "((uuid \<times> exchange_direction) \<times> f64) list"

record lcia_exchange_observation =
  lo_flow_id :: uuid
  lo_flow_version :: string
  lo_direction :: "exchange_direction option"
  lo_direction_label :: string
  lo_exchange_id :: string
  lo_amount :: "f64 option"

type_synonym flow_directions = "(uuid \<times> exchange_direction option) list"

record active_lcia_factor_selection =
  af_factors_by_impact :: "(uuid \<times> f64) list list"
  af_active_flow_ids :: "uuid list"
  af_direction_by_flow :: flow_directions

record lcia_factor_coverage_counts =
  fc_matched :: u64
  fc_unmatched :: u64
  fc_invalid :: u64
  fc_unsupported_direction :: u64

record lcia_method_factor_coverage =
  fm_method_id :: uuid
  fm_method_version :: string
  fm_artifact_locator_id :: uuid
  fm_counts :: lcia_factor_coverage_counts

record lcia_uncharacterized_record =
  ur_method_id :: uuid
  ur_method_version :: string
  ur_artifact_locator_id :: uuid
  ur_flow_uuid :: uuid
  ur_flow_version :: string
  ur_direction :: string
  ur_exchange_id :: string
  ur_amount :: "f64 option"
  ur_reason :: string

record lcia_factor_coverage_build =
  fb_counts :: lcia_factor_coverage_counts
  fb_by_method :: "lcia_method_factor_coverage list"
  fb_records :: string
  fb_record_count :: u64
  fb_artifact_byte_size :: u64
  fb_artifact_sha256 :: string

datatype lcia_coverage_error =
    UnknownOutcome
  | GapRecordsExceeded
  | GapBytesOverflow
  | GapBytesExceeded
  | GapCountOverflow
  | CoverageCountOverflow string

definition MAX_LCIA_GAP_EVIDENCE_RECORDS :: u64 where
  "MAX_LCIA_GAP_EVIDENCE_RECORDS = 25000000"

definition MAX_LCIA_GAP_EVIDENCE_BYTES :: u64 where
  "MAX_LCIA_GAP_EVIDENCE_BYTES = 8 * 1024 * 1024 * 1024"

definition exchange_direction_as_str :: "exchange_direction \<Rightarrow> string" where
  "exchange_direction_as_str d = (case d of ExchangeInput \<Rightarrow> ''Input'' | ExchangeOutput \<Rightarrow> ''Output'')"

section \<open>Directions\<close>

text \<open>The two collections of the loop: the directions seen of each flow, and the flows with an unsupported one.\<close>

definition observe_direction ::
  "(uuid \<times> exchange_direction list) list \<times> uuid list \<Rightarrow> lcia_exchange_observation
   \<Rightarrow> (uuid \<times> exchange_direction list) list \<times> uuid list" where
  "observe_direction st observation =
     (case lo_direction observation of
        Some direction \<Rightarrow> (map_set_insert (lo_flow_id observation) direction (fst st), snd st)
      | None \<Rightarrow> (fst st, set_union (snd st) [lo_flow_id observation]))"

definition resolved_direction ::
  "(uuid \<times> exchange_direction list) list \<times> uuid list \<Rightarrow> uuid \<Rightarrow> exchange_direction option" where
  "resolved_direction st flow_id =
     (if flow_id \<in> set (snd st) then None
      else case map_of (fst st) flow_id of
             Some [direction] \<Rightarrow> Some direction
           | _ \<Rightarrow> None)"

definition unique_supported_direction_by_flow :: "lcia_exchange_observation list \<Rightarrow> flow_directions" where
  "unique_supported_direction_by_flow observations =
     (let st = foldl observe_direction ([], []) observations in
      map (\<lambda>flow_id. (flow_id, resolved_direction st flow_id)) (remdups (map lo_flow_id observations)))"

section \<open>Active factors\<close>

definition btree_insert :: "'k::linorder \<Rightarrow> 'v \<Rightarrow> ('k \<times> 'v) list \<Rightarrow> ('k \<times> 'v) list" where
  "btree_insert key v = entry_modify key v (\<lambda>_. v)"

definition select_directional ::
  "impact_factor_set \<Rightarrow> (uuid \<times> f64) list \<Rightarrow> uuid \<times> exchange_direction option \<Rightarrow> (uuid \<times> f64) list" where
  "select_directional impact active entry =
     (case snd entry of
        None \<Rightarrow> active
      | Some direction \<Rightarrow>
          (case map_of (if_factors_by_flow_direction impact) (fst entry, direction) of
             None \<Rightarrow> active
           | Some v \<Rightarrow> if retain_sparse_value v True then btree_insert (fst entry) v active else active))"

definition select_undirected :: "impact_factor_set \<Rightarrow> (uuid \<times> f64) list \<Rightarrow> uuid \<Rightarrow> (uuid \<times> f64) list" where
  "select_undirected impact active flow_id =
     (case map_of (if_factors_by_flow impact) flow_id of
        None \<Rightarrow> active
      | Some v \<Rightarrow> if F64_EPSILON < \<bar>v\<bar> then btree_insert flow_id v active else active)"

definition active_factors_of_impact ::
  "flow_directions \<Rightarrow> uuid list \<Rightarrow> bool \<Rightarrow> impact_factor_set \<Rightarrow> (uuid \<times> f64) list" where
  "active_factors_of_impact directions biosphere_flow_ids directional_lcia impact =
     (if directional_lcia then foldl (select_directional impact) [] directions
      else foldl (select_undirected impact) [] biosphere_flow_ids)"

definition select_active_lcia_factors ::
  "impact_factor_set list \<Rightarrow> uuid list \<Rightarrow> lcia_exchange_observation list \<Rightarrow> bool \<Rightarrow> active_lcia_factor_selection" where
  "select_active_lcia_factors impact_factor_sets biosphere_flow_ids observations directional_lcia =
     (let directions = (if directional_lcia then unique_supported_direction_by_flow observations else []) in
      foldl (\<lambda>selection impact.
          let active = active_factors_of_impact directions biosphere_flow_ids directional_lcia impact in
          selection\<lparr>af_active_flow_ids := foldl (\<lambda>ids k. insort_insert k ids) (af_active_flow_ids selection) (map fst active),
                    af_factors_by_impact := af_factors_by_impact selection @ [active]\<rparr>)
        \<lparr>af_factors_by_impact = [], af_active_flow_ids = [], af_direction_by_flow = directions\<rparr> impact_factor_sets)"

section \<open>Coverage\<close>

definition observation_le :: "lcia_exchange_observation \<Rightarrow> lcia_exchange_observation \<Rightarrow> bool" where
  "observation_le left right =
     (lo_flow_id left < lo_flow_id right \<or> lo_flow_id left = lo_flow_id right \<and>
       (lo_direction_label left < lo_direction_label right \<or> lo_direction_label left = lo_direction_label right \<and>
        lo_exchange_id left \<le> lo_exchange_id right))"

definition method_le :: "impact_factor_set \<Rightarrow> impact_factor_set \<Rightarrow> bool" where
  "method_le left right =
     (if_impact_id left < if_impact_id right \<or>
      if_impact_id left = if_impact_id right \<and> if_method_version left \<le> if_method_version right)"

definition finite_amount :: "lcia_exchange_observation \<Rightarrow> f64 option" where
  "finite_amount observation = (case lo_amount observation of Some v \<Rightarrow> if is_finite v then Some v else None | None \<Rightarrow> None)"

definition coverage_outcome ::
  "flow_directions \<Rightarrow> impact_factor_set \<Rightarrow> lcia_exchange_observation \<Rightarrow> (string \<times> string) option" where
  "coverage_outcome direction_by_flow method observation =
     (if lo_direction observation = None then Some (''unsupported_direction'', ''unsupported_exchange_direction'')
      else if map_of direction_by_flow (lo_flow_id observation) = Some None
      then Some (''unsupported_direction'', ''ambiguous_elementary_flow_direction_axis'')
      else if finite_amount observation = None then Some (''invalid'', ''invalid_exchange_amount'')
      else if (case lo_direction observation of
                 None \<Rightarrow> False
               | Some direction \<Rightarrow>
                   map_of (if_factors_by_flow_direction method) (lo_flow_id observation, direction) \<noteq> None)
      then None
      else Some (''unmatched'', ''no_lcia_factor_for_flow_direction''))"

definition uncharacterized_record ::
  "impact_factor_set \<Rightarrow> lcia_exchange_observation \<Rightarrow> string \<Rightarrow> lcia_uncharacterized_record" where
  "uncharacterized_record method observation reason =
     \<lparr>ur_method_id = if_impact_id method,
      ur_method_version = if_method_version method,
      ur_artifact_locator_id = if_artifact_locator_id method,
      ur_flow_uuid = lo_flow_id observation,
      ur_flow_version = lo_flow_version observation,
      ur_direction = (case lo_direction observation of
         None \<Rightarrow> lo_direction_label observation | Some direction \<Rightarrow> exchange_direction_as_str direction),
      ur_exchange_id = lo_exchange_id observation,
      ur_amount = finite_amount observation,
      ur_reason = reason\<rparr>"

definition counts_default :: lcia_factor_coverage_counts where
  "counts_default = \<lparr>fc_matched = 0, fc_unmatched = 0, fc_invalid = 0, fc_unsupported_direction = 0\<rparr>"

text \<open>The gap evidence that is written: its text, the number of records and their size.\<close>

record gap_evidence =
  ge_records :: string
  ge_record_count :: u64
  ge_artifact_byte_size :: u64

definition checked_add :: "'e \<Rightarrow> u64 \<Rightarrow> u64 \<Rightarrow> 'e + u64" where
  "checked_add e a b = (if a + b \<le> u64_max then Inr (a + b) else Inl e)"

definition count_gap :: "string \<Rightarrow> lcia_factor_coverage_counts \<Rightarrow> lcia_coverage_error + lcia_factor_coverage_counts" where
  "count_gap kind counts =
     (if kind = ''unmatched'' then Inr (counts\<lparr>fc_unmatched := saturating_add (fc_unmatched counts) 1\<rparr>)
      else if kind = ''invalid'' then Inr (counts\<lparr>fc_invalid := saturating_add (fc_invalid counts) 1\<rparr>)
      else if kind = ''unsupported_direction''
      then Inr (counts\<lparr>fc_unsupported_direction := saturating_add (fc_unsupported_direction counts) 1\<rparr>)
      else Inl UnknownOutcome)"

definition write_gap :: "string \<Rightarrow> gap_evidence \<Rightarrow> lcia_coverage_error + gap_evidence" where
  "write_gap line evidence =
     (if MAX_LCIA_GAP_EVIDENCE_RECORDS \<le> ge_record_count evidence then Inl GapRecordsExceeded
      else
      res_bind (checked_add GapBytesOverflow (ge_artifact_byte_size evidence) (length line)) (\<lambda>byte_size.
      if MAX_LCIA_GAP_EVIDENCE_BYTES < byte_size then Inl GapBytesExceeded
      else
      res_bind (checked_add GapCountOverflow (ge_record_count evidence) 1) (\<lambda>record_count.
      Inr \<lparr>ge_records = ge_records evidence @ line, ge_record_count = record_count, ge_artifact_byte_size = byte_size\<rparr>)))"

definition cover_observation ::
  "(lcia_uncharacterized_record \<Rightarrow> string) \<Rightarrow> flow_directions \<Rightarrow> impact_factor_set
   \<Rightarrow> lcia_factor_coverage_counts \<times> gap_evidence \<Rightarrow> lcia_exchange_observation
   \<Rightarrow> lcia_coverage_error + lcia_factor_coverage_counts \<times> gap_evidence" where
  "cover_observation to_json direction_by_flow method st observation =
     (case coverage_outcome direction_by_flow method observation of
        None \<Rightarrow> Inr ((fst st)\<lparr>fc_matched := saturating_add (fc_matched (fst st)) 1\<rparr>, snd st)
      | Some (kind, reason) \<Rightarrow>
          res_bind (count_gap kind (fst st)) (\<lambda>counts.
          res_bind (write_gap (to_json (uncharacterized_record method observation reason) @ [CHR 0x0A]) (snd st)) (\<lambda>evidence.
          Inr (counts, evidence))))"

definition add_counts ::
  "lcia_factor_coverage_counts \<Rightarrow> lcia_factor_coverage_counts \<Rightarrow> lcia_coverage_error + lcia_factor_coverage_counts" where
  "add_counts counts method_counts =
     res_bind (checked_add (CoverageCountOverflow ''matched'') (fc_matched counts) (fc_matched method_counts)) (\<lambda>m.
     res_bind (checked_add (CoverageCountOverflow ''unmatched'') (fc_unmatched counts) (fc_unmatched method_counts)) (\<lambda>u.
     res_bind (checked_add (CoverageCountOverflow ''invalid'') (fc_invalid counts) (fc_invalid method_counts)) (\<lambda>i.
     res_bind (checked_add (CoverageCountOverflow ''unsupported-direction'')
       (fc_unsupported_direction counts) (fc_unsupported_direction method_counts)) (\<lambda>d.
     Inr \<lparr>fc_matched = m, fc_unmatched = u, fc_invalid = i, fc_unsupported_direction = d\<rparr>))))"

type_synonym coverage_state = "lcia_factor_coverage_counts \<times> lcia_method_factor_coverage list \<times> gap_evidence"

definition cover_method ::
  "(lcia_uncharacterized_record \<Rightarrow> string) \<Rightarrow> flow_directions \<Rightarrow> lcia_exchange_observation list
   \<Rightarrow> coverage_state \<Rightarrow> impact_factor_set \<Rightarrow> lcia_coverage_error + coverage_state" where
  "cover_method to_json direction_by_flow observations st method =
     (case st of (counts, by_method, evidence) \<Rightarrow>
        res_bind (try_fold (cover_observation to_json direction_by_flow method) (counts_default, evidence) observations)
          (\<lambda>(method_counts, evidence).
        res_bind (add_counts counts method_counts) (\<lambda>counts.
        Inr (counts, by_method @ [\<lparr>fm_method_id = if_impact_id method, fm_method_version = if_method_version method,
               fm_artifact_locator_id = if_artifact_locator_id method, fm_counts = method_counts\<rparr>], evidence))))"

definition build_lcia_factor_coverage ::
  "(lcia_uncharacterized_record \<Rightarrow> string) \<Rightarrow> (string \<Rightarrow> string) \<Rightarrow> lcia_exchange_observation list
   \<Rightarrow> impact_factor_set list \<Rightarrow> flow_directions \<Rightarrow> lcia_coverage_error + lcia_factor_coverage_build" where
  "build_lcia_factor_coverage to_json sha256_hex observations impact_factor_sets direction_by_flow =
     res_bind (try_fold (cover_method to_json direction_by_flow (sort_by observation_le observations))
         (counts_default, [], \<lparr>ge_records = [], ge_record_count = 0, ge_artifact_byte_size = 0\<rparr>)
         (sort_by method_le impact_factor_sets))
       (\<lambda>(counts, by_method, evidence).
          Inr \<lparr>fb_counts = counts, fb_by_method = by_method, fb_records = ge_records evidence,
               fb_record_count = ge_record_count evidence, fb_artifact_byte_size = ge_artifact_byte_size evidence,
               fb_artifact_sha256 = sha256_hex (ge_records evidence)\<rparr>)"

section \<open>The direction of a flow\<close>

definition observed :: "lcia_exchange_observation list \<Rightarrow> uuid \<Rightarrow> lcia_exchange_observation list" where
  "observed observations flow_id = filter (\<lambda>o'. lo_flow_id o' = flow_id) observations"

definition single_direction :: "lcia_exchange_observation list \<Rightarrow> uuid \<Rightarrow> exchange_direction \<Rightarrow> bool" where
  "single_direction observations flow_id d =
     (observed observations flow_id \<noteq> [] \<and> list_all (\<lambda>o'. lo_direction o' = Some d) (observed observations flow_id))"

lemma direction_scan:
  fixes observations
  defines "st \<equiv> foldl observe_direction ([], []) observations"
  shows "set (snd st) = {lo_flow_id o' |o'. o' \<in> set observations \<and> lo_direction o' = None}"
    and "set (unwrap_or [] (map_of (fst st) f)) = {d. \<exists>o' \<in> set (observed observations f). lo_direction o' = Some d}"
    and "distinct (unwrap_or [] (map_of (fst st) f))"
  unfolding st_def
  by (induction observations rule: rev_induct)
    (auto simp: observe_direction_def observed_def map_set_insert_def set_union_def update_conv' split: option.splits)

lemma defined_singleton:
  "(\<forall>x \<in> A. g x \<noteq> None) \<and> {d. \<exists>x \<in> A. g x = Some d} = {d0} \<longleftrightarrow> A \<noteq> {} \<and> (\<forall>x \<in> A. g x = Some d0)"
proof
  assume A: "(\<forall>x \<in> A. g x \<noteq> None) \<and> {d. \<exists>x \<in> A. g x = Some d} = {d0}"
  have "g x = Some d0" if "x \<in> A" for x
  proof -
    from A that obtain d where d: "g x = Some d" by blast
    with that have "d \<in> {d. \<exists>x \<in> A. g x = Some d}" by blast
    with A d show ?thesis by simp
  qed
  with A show "A \<noteq> {} \<and> (\<forall>x \<in> A. g x = Some d0)" by auto
qed auto

lemma resolved_direction_iff:
  "resolved_direction (foldl observe_direction ([], []) observations) f = Some d \<longleftrightarrow> single_direction observations f d"
proof -
  let ?st = "foldl observe_direction ([], []) observations"
  let ?ds = "unwrap_or [] (map_of (fst ?st) f)"
  note scan = direction_scan(1) [of observations] direction_scan(2) [of observations f] direction_scan(3) [of observations f]
  have out: "f \<notin> {lo_flow_id o' |o'. o' \<in> set observations \<and> lo_direction o' = None} \<longleftrightarrow>
      (\<forall>o' \<in> set (observed observations f). lo_direction o' \<noteq> None)"
    by (auto simp: observed_def)
  have "resolved_direction ?st f = Some d \<longleftrightarrow> f \<notin> set (snd ?st) \<and> ?ds = [d]"
    by (auto simp: resolved_direction_def unwrap_or_def split: option.splits list.splits)
  also have "?ds = [d] \<longleftrightarrow> set ?ds = {d}"
  proof
    assume "set ?ds = {d}"
    with scan(3) show "?ds = [d]" by (cases ?ds; cases "tl ?ds") auto
  qed simp
  finally show ?thesis
    unfolding scan(1,2) out defined_singleton by (simp add: single_direction_def list_all_iff)
qed

lemma direction_by_flow_get:
  "map_of (unique_supported_direction_by_flow observations) f =
     (if observed observations f = [] then None
      else Some (resolved_direction (foldl observe_direction ([], []) observations) f))"
  by (auto simp: unique_supported_direction_by_flow_def Let_def map_of_map_restrict restrict_map_def observed_def filter_empty_conv)

lemma direction_by_flow_wf: "alist_wf (unique_supported_direction_by_flow observations)"
  by (simp add: alist_wf_def unique_supported_direction_by_flow_def Let_def comp_def)

section \<open>What is active\<close>

definition usable_factor :: "f64 \<Rightarrow> bool" where
  "usable_factor v = (is_finite v \<and> \<not> f64_is_zero v)"

lemma retain_usable: "retain_sparse_value v True = usable_factor v"
  by (cases v) (auto simp: retain_sparse_value_def usable_factor_def f64_eq_def f64_is_zero_def)

lemma btree_insert_ordered [simp]: "ordered_keys m \<Longrightarrow> ordered_keys (btree_insert k v m)"
  by (simp add: btree_insert_def)

lemma map_of_btree_insert [simp]: "ordered_keys m \<Longrightarrow> map_of (btree_insert k v m) = (map_of m)(k \<mapsto> v)"
  by (simp add: btree_insert_def map_of_entry_modify)

lemma select_directional_fold:
  assumes "alist_wf entries" "ordered_keys active"
  shows "ordered_keys (foldl (select_directional impact) active entries)"
    and "map_of (foldl (select_directional impact) active entries) f =
      (case Option.bind (map_of entries f) (\<lambda>direction. Option.bind direction (\<lambda>d.
              map_of (if_factors_by_flow_direction impact) (f, d))) of
         Some v \<Rightarrow> if usable_factor v then Some v else map_of active f
       | None \<Rightarrow> map_of active f)"
proof -
  have step: "ordered_keys (select_directional impact m e)" if "ordered_keys m" for m e
    using that by (simp add: select_directional_def split: option.split)
  show "ordered_keys (foldl (select_directional impact) active entries)"
    using assms(2) by (induction entries arbitrary: active) (simp_all add: step)
  show "map_of (foldl (select_directional impact) active entries) f =
      (case Option.bind (map_of entries f) (\<lambda>direction. Option.bind direction (\<lambda>d.
              map_of (if_factors_by_flow_direction impact) (f, d))) of
         Some v \<Rightarrow> if usable_factor v then Some v else map_of active f
       | None \<Rightarrow> map_of active f)"
    using assms
  proof (induction entries arbitrary: active)
    case (Cons e entries)
    obtain g direction where e: "e = (g, direction)" by fastforce
    have fresh: "map_of entries f = None" if "f = g"
      using Cons.prems(1) that by (simp add: e map_of_eq_None_iff)
    have one: "map_of (select_directional impact active e) f =
        (case (if f = g then Option.bind direction (\<lambda>d. map_of (if_factors_by_flow_direction impact) (f, d)) else None) of
           Some v \<Rightarrow> if usable_factor v then Some v else map_of active f
         | None \<Rightarrow> map_of active f)"
      using Cons.prems(2) by (cases direction) (auto simp: e select_directional_def retain_usable split: option.split)
    have rest: "alist_wf entries" using Cons.prems(1) by (simp add: e)
    show ?case
      using Cons.IH [OF rest step [OF Cons.prems(2)], of e] one fresh by (cases "f = g") (auto simp: e split: option.splits)
  qed simp
qed

lemma foldl_insort_insert: "set (foldl (\<lambda>ids k. insort_insert k ids) ids ks) = set ids \<union> set ks"
  by (induction ks arbitrary: ids) (simp_all add: set_insort_insert)

lemma selection_fold:
  "foldl (\<lambda>selection impact.
      selection\<lparr>af_active_flow_ids := foldl (\<lambda>ids k. insort_insert k ids) (af_active_flow_ids selection) (map fst (active impact)),
                af_factors_by_impact := af_factors_by_impact selection @ [active impact]\<rparr>) s impacts =
     s\<lparr>af_factors_by_impact := af_factors_by_impact s @ map active impacts,
       af_active_flow_ids := foldl (\<lambda>ids k. insort_insert k ids) (af_active_flow_ids s) (concat (map (map fst \<circ> active) impacts))\<rparr>"
  by (induction impacts arbitrary: s) simp_all

lemma selection_factors:
  "af_factors_by_impact (select_active_lcia_factors impacts flows observations directional) =
     map (active_factors_of_impact (if directional then unique_supported_direction_by_flow observations else []) flows directional) impacts"
  "set (af_active_flow_ids (select_active_lcia_factors impacts flows observations directional)) =
     (\<Union>impact \<in> set impacts. fst ` set (active_factors_of_impact
        (if directional then unique_supported_direction_by_flow observations else []) flows directional impact))"
  by (simp_all add: select_active_lcia_factors_def Let_def selection_fold foldl_insort_insert)

text \<open>
  C32. With directional factors, a factor of an impact is active for a flow exactly when the flow is observed, all
  its observations have one supported direction, and the impact declares a finite non-zero factor for the flow in
  that direction. The active flows are those that have an active factor of some impact.
\<close>

theorem active_factors_exact:
  fixes impacts flows observations
  defines "selection \<equiv> select_active_lcia_factors impacts flows observations True"
  shows "length (af_factors_by_impact selection) = length impacts \<and>
    (\<forall>i < length impacts. (f, v) \<in> set (af_factors_by_impact selection ! i) \<longleftrightarrow>
       (\<exists>d. single_direction observations f d \<and>
          map_of (if_factors_by_flow_direction (impacts ! i)) (f, d) = Some v \<and> usable_factor v)) \<and>
    (f \<in> set (af_active_flow_ids selection) \<longleftrightarrow>
       (\<exists>factors \<in> set (af_factors_by_impact selection). f \<in> fst ` set factors))"
proof -
  let ?dirs = "unique_supported_direction_by_flow observations"
  have exact: "(f, v) \<in> set (active_factors_of_impact ?dirs flows True impact) \<longleftrightarrow>
      (\<exists>d. single_direction observations f d \<and> map_of (if_factors_by_flow_direction impact) (f, d) = Some v \<and> usable_factor v)"
    for impact
  proof -
    note fold = select_directional_fold [OF direction_by_flow_wf [of observations], of "[]" impact]
    have "alist_wf (active_factors_of_impact ?dirs flows True impact)"
      using fold(1) by (simp add: alist_wf_def active_factors_of_impact_def strict_sorted_iff)
    then have "(f, v) \<in> set (active_factors_of_impact ?dirs flows True impact) \<longleftrightarrow>
        map_of (active_factors_of_impact ?dirs flows True impact) f = Some v"
      by (simp add: alist_get_iff)
    also have "\<dots> \<longleftrightarrow> (\<exists>d. resolved_direction (foldl observe_direction ([], []) observations) f = Some d \<and>
        observed observations f \<noteq> [] \<and> map_of (if_factors_by_flow_direction impact) (f, d) = Some v \<and> usable_factor v)"
      by (auto simp: active_factors_of_impact_def fold(2) direction_by_flow_get split: option.splits bind_splits)
    finally show ?thesis by (auto simp: resolved_direction_iff single_direction_def)
  qed
  show ?thesis by (simp add: selection_def selection_factors exact)
qed

section \<open>What is covered\<close>

definition gap_line ::
  "(lcia_uncharacterized_record \<Rightarrow> string) \<Rightarrow> flow_directions \<Rightarrow> impact_factor_set \<Rightarrow> lcia_exchange_observation \<Rightarrow> string option" where
  "gap_line to_json directions method observation =
     map_option (\<lambda>(kind, reason). to_json (uncharacterized_record method observation reason) @ [CHR 0x0A])
       (coverage_outcome directions method observation)"

definition gap_lines ::
  "(lcia_uncharacterized_record \<Rightarrow> string) \<Rightarrow> flow_directions \<Rightarrow> impact_factor_set \<Rightarrow> lcia_exchange_observation list \<Rightarrow> string list" where
  "gap_lines to_json directions method observations = List.map_filter (gap_line to_json directions method) observations"

definition kind_count :: "flow_directions \<Rightarrow> impact_factor_set \<Rightarrow> lcia_exchange_observation list \<Rightarrow> string \<Rightarrow> nat" where
  "kind_count directions method observations kind =
     length (filter (\<lambda>o'. map_option fst (coverage_outcome directions method o') = Some kind) observations)"

definition expected_counts ::
  "flow_directions \<Rightarrow> lcia_exchange_observation list \<Rightarrow> impact_factor_set \<Rightarrow> lcia_factor_coverage_counts" where
  "expected_counts directions observations method =
     \<lparr>fc_matched = length (filter (\<lambda>o'. coverage_outcome directions method o' = None) observations),
      fc_unmatched = kind_count directions method observations ''unmatched'',
      fc_invalid = kind_count directions method observations ''invalid'',
      fc_unsupported_direction = kind_count directions method observations ''unsupported_direction''\<rparr>"

definition plus_counts ::
  "lcia_factor_coverage_counts \<Rightarrow> lcia_factor_coverage_counts \<Rightarrow> lcia_factor_coverage_counts" where
  "plus_counts a b =
     \<lparr>fc_matched = fc_matched a + fc_matched b, fc_unmatched = fc_unmatched a + fc_unmatched b,
      fc_invalid = fc_invalid a + fc_invalid b,
      fc_unsupported_direction = fc_unsupported_direction a + fc_unsupported_direction b\<rparr>"

definition pairs_counted :: "lcia_factor_coverage_counts \<Rightarrow> nat" where
  "pairs_counted c = fc_matched c + fc_unmatched c + fc_invalid c + fc_unsupported_direction c"

definition append_lines :: "gap_evidence \<Rightarrow> string list \<Rightarrow> gap_evidence" where
  "append_lines e ls =
     \<lparr>ge_records = ge_records e @ concat ls, ge_record_count = ge_record_count e + length ls,
      ge_artifact_byte_size = ge_artifact_byte_size e + length (concat ls)\<rparr>"

definition within_limits :: "gap_evidence \<Rightarrow> bool" where
  "within_limits e =
     (ge_record_count e \<le> MAX_LCIA_GAP_EVIDENCE_RECORDS \<and> ge_artifact_byte_size e \<le> MAX_LCIA_GAP_EVIDENCE_BYTES)"

lemma outcome_cases:
  obtains "coverage_outcome directions method observation = None"
  | reason where "coverage_outcome directions method observation = Some (''unmatched'', reason)"
  | reason where "coverage_outcome directions method observation = Some (''invalid'', reason)"
  | reason where "coverage_outcome directions method observation = Some (''unsupported_direction'', reason)"
proof -
  let ?o = "coverage_outcome directions method observation"
  have "?o = None \<or> (\<exists>reason. ?o = Some (''unmatched'', reason)) \<or> (\<exists>reason. ?o = Some (''invalid'', reason)) \<or>
    (\<exists>reason. ?o = Some (''unsupported_direction'', reason))"
    by (simp add: coverage_outcome_def)
  then show thesis by (elim disjE exE) (erule that)+
qed

lemma kinds_distinct [simp]:
  "(''unmatched'' = ''invalid'') = False" "(''unmatched'' = ''unsupported_direction'') = False"
  "(''invalid'' = ''unmatched'') = False" "(''invalid'' = ''unsupported_direction'') = False"
  "(''unsupported_direction'' = ''unmatched'') = False" "(''unsupported_direction'' = ''invalid'') = False"
  by simp_all

lemma expected_counts_total: "pairs_counted (expected_counts directions observations method) = length observations"
proof (induction observations)
  case (Cons o' observations)
  then show ?case
    by (cases rule: outcome_cases [of directions "method" o']) (simp_all add: pairs_counted_def expected_counts_def kind_count_def)
qed (simp add: pairs_counted_def expected_counts_def kind_count_def)

lemma gap_lines_length:
  "length (gap_lines to_json directions method observations) + fc_matched (expected_counts directions observations method) =
     length observations"
  by (induction observations) (auto simp: gap_lines_def gap_line_def expected_counts_def List.map_filter_def)

lemma write_gapD:
  "write_gap line e = Inr e' \<Longrightarrow> e' = append_lines e [line] \<and> within_limits e'"
  by (auto simp: write_gap_def append_lines_def within_limits_def checked_add_def res_simps split: if_splits)

lemma plus_counts_assoc: "plus_counts (plus_counts a b) c = plus_counts a (plus_counts b c)"
  by (simp add: plus_counts_def)

lemma append_lines_append: "append_lines (append_lines e ls) ls' = append_lines e (ls @ ls')"
  by (simp add: append_lines_def)

lemma expected_counts_Cons:
  "expected_counts directions (o' # observations) method =
     plus_counts (expected_counts directions [o'] method) (expected_counts directions observations method)"
  by (simp add: expected_counts_def plus_counts_def kind_count_def)

lemma cover_observationD:
  assumes "cover_observation to_json directions method (c, e) o' = Inr (c', e')" "pairs_counted c < u64_max"
  shows "c' = plus_counts c (expected_counts directions [o'] method) \<and>
    e' = append_lines e (gap_lines to_json directions method [o']) \<and> (within_limits e \<longrightarrow> within_limits e')"
  using assms
  by (cases rule: outcome_cases [of directions "method" o'])
    (auto simp: cover_observation_def count_gap_def res_simps saturating_add_def pairs_counted_def plus_counts_def
      expected_counts_def kind_count_def gap_lines_def gap_line_def List.map_filter_def dest!: write_gapD,
      simp_all add: append_lines_def)

lemma cover_observations:
  assumes "try_fold (cover_observation to_json directions method) (c, e) observations = Inr (c', e')"
    "pairs_counted c + length observations \<le> u64_max"
  shows "c' = plus_counts c (expected_counts directions observations method) \<and>
    e' = append_lines e (gap_lines to_json directions method observations) \<and> (within_limits e \<longrightarrow> within_limits e')"
  using assms
proof (induction observations arbitrary: c e)
  case Nil
  then show ?case by (simp add: plus_counts_def expected_counts_def kind_count_def append_lines_def gap_lines_def List.map_filter_def)
next
  case (Cons o' observations)
  from Cons.prems(1) obtain c1 e1 where
    step: "cover_observation to_json directions method (c, e) o' = Inr (c1, e1)"
    and rest: "try_fold (cover_observation to_json directions method) (c1, e1) observations = Inr (c', e')"
    by (auto simp: res_simps)
  have one: "c1 = plus_counts c (expected_counts directions [o'] method)"
    "e1 = append_lines e (gap_lines to_json directions method [o'])" "within_limits e \<longrightarrow> within_limits e1"
    using cover_observationD [OF step] Cons.prems(2) by auto
  have "pairs_counted c1 = pairs_counted c + 1"
    using expected_counts_total [of directions "[o']" "method"] by (simp add: one(1) pairs_counted_def plus_counts_def)
  with Cons.prems(2) have fits: "pairs_counted c1 + length observations \<le> u64_max" by simp
  have split: "gap_lines to_json directions method (o' # observations) =
      gap_lines to_json directions method [o'] @ gap_lines to_json directions method observations"
    by (simp add: gap_lines_def List.map_filter_def)
  from Cons.IH [OF rest fits] one show ?case
    by (auto simp: plus_counts_assoc append_lines_append split expected_counts_Cons [of directions o' observations])
qed

lemma add_countsD: "add_counts a b = Inr c \<Longrightarrow> c = plus_counts a b"
  by (auto simp: add_counts_def plus_counts_def checked_add_def res_simps split: if_splits)

definition sum_counts :: "lcia_factor_coverage_counts list \<Rightarrow> lcia_factor_coverage_counts" where
  "sum_counts cs = foldl plus_counts counts_default cs"

definition method_coverage ::
  "flow_directions \<Rightarrow> lcia_exchange_observation list \<Rightarrow> impact_factor_set \<Rightarrow> lcia_method_factor_coverage" where
  "method_coverage directions observations method =
     \<lparr>fm_method_id = if_impact_id method, fm_method_version = if_method_version method,
      fm_artifact_locator_id = if_artifact_locator_id method, fm_counts = expected_counts directions observations method\<rparr>"

lemma plus_counts_default [simp]: "plus_counts counts_default c = c" "pairs_counted counts_default = 0"
  by (simp_all add: plus_counts_def counts_default_def pairs_counted_def)

lemma cover_method_okD:
  assumes "cover_method to_json directions observations (c, bs, e) method = Inr st"
  obtains mc e1 c1 where
    "try_fold (cover_observation to_json directions method) (counts_default, e) observations = Inr (mc, e1)"
    "add_counts c mc = Inr c1"
    "st = (c1, bs @ [\<lparr>fm_method_id = if_impact_id method, fm_method_version = if_method_version method,
         fm_artifact_locator_id = if_artifact_locator_id method, fm_counts = mc\<rparr>], e1)"
  using assms by (auto simp: cover_method_def res_simps)

lemma cover_methods:
  assumes "try_fold (cover_method to_json directions observations) (c, bs, e) methods = Inr (c', bs', e')"
    "length observations \<le> u64_max"
  shows "c' = foldl plus_counts c (map (expected_counts directions observations) methods) \<and>
    bs' = bs @ map (method_coverage directions observations) methods \<and>
    e' = append_lines e (concat (map (\<lambda>m. gap_lines to_json directions m observations) methods)) \<and>
    (within_limits e \<longrightarrow> within_limits e')"
  using assms(1)
proof (induction methods arbitrary: c bs e)
  case Nil
  then show ?case by (simp add: append_lines_def)
next
  case (Cons "method" methods)
  from Cons.prems obtain mc e1 c1 where
    loop: "try_fold (cover_observation to_json directions method) (counts_default, e) observations = Inr (mc, e1)"
    and add: "add_counts c mc = Inr c1"
    and rest: "try_fold (cover_method to_json directions observations)
      (c1, bs @ [\<lparr>fm_method_id = if_impact_id method, fm_method_version = if_method_version method,
         fm_artifact_locator_id = if_artifact_locator_id method, fm_counts = mc\<rparr>], e1) methods = Inr (c', bs', e')"
    using cover_method_okD by (auto simp: res_simps) metis
  have one: "mc = expected_counts directions observations method"
    "e1 = append_lines e (gap_lines to_json directions method observations)" "within_limits e \<longrightarrow> within_limits e1"
    using cover_observations [OF loop] assms(2) by auto
  from Cons.IH [OF rest] one add_countsD [OF add] show ?case
    by (auto simp: append_lines_append method_coverage_def)
qed

lemma expected_counts_perm:
  assumes "mset observations = mset observations'"
  shows "expected_counts directions observations method = expected_counts directions observations' method"
proof -
  have "length (filter P observations) = length (filter P observations')" for P
    using assms by (metis mset_filter size_mset)
  then show ?thesis by (simp add: expected_counts_def kind_count_def)
qed

lemma pairs_counted_sum: "pairs_counted (foldl plus_counts c cs) = pairs_counted c + sum_list (map pairs_counted cs)"
  by (induction cs arbitrary: c) (simp_all add: pairs_counted_def plus_counts_def)

lemma matched_sum: "fc_matched (foldl plus_counts c cs) = fc_matched c + sum_list (map fc_matched cs)"
  by (induction cs arbitrary: c) (simp_all add: plus_counts_def)

text \<open>
  C15. The factor coverage accounts for every pair of method and observed exchange: each method counts each exchange
  once, as matched, unmatched, invalid or of unsupported direction; the totals are the sums over the methods; and
  the evidence has exactly one line for every pair that is not matched, in the order of methods and exchanges,
  within the limits of records and bytes. Its hash is that of the lines.
\<close>

theorem factor_coverage_accounts_for_pairs:
  assumes "build_lcia_factor_coverage to_json sha256_hex observations methods directions = Inr b"
    "length observations \<le> u64_max"
  shows "fb_by_method b = map (method_coverage directions observations) (sort_by method_le methods) \<and>
    fb_counts b = sum_counts (map fm_counts (fb_by_method b)) \<and>
    pairs_counted (fb_counts b) = length methods * length observations \<and>
    fb_records b = concat (concat (map (\<lambda>m. gap_lines to_json directions m (sort_by observation_le observations))
      (sort_by method_le methods))) \<and>
    fb_record_count b + fc_matched (fb_counts b) = length methods * length observations \<and>
    fb_record_count b \<le> MAX_LCIA_GAP_EVIDENCE_RECORDS \<and>
    fb_artifact_byte_size b = length (fb_records b) \<and> fb_artifact_byte_size b \<le> MAX_LCIA_GAP_EVIDENCE_BYTES \<and>
    fb_artifact_sha256 b = sha256_hex (fb_records b)"
proof -
  let ?os = "sort_by observation_le observations" and ?ms = "sort_by method_le methods"
  let ?e = "\<lparr>ge_records = [], ge_record_count = 0, ge_artifact_byte_size = 0\<rparr>"
  let ?lines = "concat (map (\<lambda>m. gap_lines to_json directions m ?os) ?ms)"
  from assms(1) obtain c bs e where
    loop: "try_fold (cover_method to_json directions ?os) (counts_default, [], ?e) ?ms = Inr (c, bs, e)"
    and b: "b = \<lparr>fb_counts = c, fb_by_method = bs, fb_records = ge_records e, fb_record_count = ge_record_count e,
      fb_artifact_byte_size = ge_artifact_byte_size e, fb_artifact_sha256 = sha256_hex (ge_records e)\<rparr>"
    by (auto simp: build_lcia_factor_coverage_def res_simps)
  have perm: "expected_counts directions ?os = expected_counts directions observations"
    by (rule ext) (rule expected_counts_perm, simp)
  have cov: "method_coverage directions ?os = method_coverage directions observations"
    by (rule ext) (simp add: method_coverage_def perm)
  have r: "c = foldl plus_counts counts_default (map (expected_counts directions observations) ?ms)"
    "bs = map (method_coverage directions observations) ?ms" "e = append_lines ?e ?lines" "within_limits e"
    using cover_methods [OF loop] assms(2) by (auto simp: perm cov within_limits_def)
  have lines: "length ?lines + sum_list (map fc_matched (map (expected_counts directions observations) ms)) =
      length ms * length observations" if "?lines = concat (map (\<lambda>m. gap_lines to_json directions m ?os) ms)" for ms
    unfolding that
  proof (induction ms)
    case (Cons m ms)
    have "length (gap_lines to_json directions m ?os) + fc_matched (expected_counts directions observations m) = length observations"
      using gap_lines_length [of to_json directions m ?os] by (simp add: perm)
    with Cons show ?case by simp
  qed simp
  have total: "pairs_counted c = length methods * length observations"
    by (simp add: r(1) pairs_counted_sum comp_def expected_counts_total sum_list_triv)
  have matched: "fc_matched c = sum_list (map fc_matched (map (expected_counts directions observations) ?ms))"
    by (simp add: r(1) matched_sum counts_default_def)
  have count: "length ?lines + fc_matched c = length methods * length observations"
    unfolding matched using lines [of ?ms] by simp
  show ?thesis
    using r total count
    by (simp add: b sum_counts_def append_lines_def within_limits_def comp_def method_coverage_def)
qed

section \<open>Examples\<close>

definition example_impact :: impact_factor_set where
  "example_impact = \<lparr>if_impact_id = ''gwp'', if_method_version = ''1'', if_artifact_locator_id = ''a'', if_impact_key = ''k'',
     if_impact_name = ''n'', if_unit = ''kg'', if_factors_by_flow = [],
     if_factors_by_flow_direction = [((''co2'', ExchangeOutput), Fin 1)]\<rparr>"

definition example_observation :: "string \<Rightarrow> exchange_direction option \<Rightarrow> lcia_exchange_observation" where
  "example_observation flow direction = \<lparr>lo_flow_id = flow, lo_flow_version = ''1'', lo_direction = direction,
     lo_direction_label = ''x'', lo_exchange_id = ''e'', lo_amount = Some (Fin 2)\<rparr>"

theorem active_factors_exact_witness:
  "(''co2'', Fin 1) \<in> set (af_factors_by_impact (select_active_lcia_factors [example_impact] []
     [example_observation ''co2'' (Some ExchangeOutput)] True) ! 0)"
proof -
  have "single_direction [example_observation ''co2'' (Some ExchangeOutput)] ''co2'' ExchangeOutput"
    by (simp add: single_direction_def observed_def example_observation_def)
  then show ?thesis
    using active_factors_exact [of "[example_impact]" "[]" "[example_observation ''co2'' (Some ExchangeOutput)]" "''co2''" "Fin 1"]
    by (auto simp: example_impact_def usable_factor_def f64_is_zero_def)
qed

text \<open>Of the three exchanges one is matched, one has no factor and one no supported direction.\<close>

theorem factor_coverage_accounts_for_pairs_witness:
  "\<exists>b. build_lcia_factor_coverage (\<lambda>_. ''r'') (\<lambda>s. s)
       [example_observation ''co2'' (Some ExchangeOutput), example_observation ''ch4'' (Some ExchangeInput),
        example_observation ''no2'' None] [example_impact] [] = Inr b \<and>
     pairs_counted (fb_counts b) = 3 \<and> fb_record_count b = 2"
proof -
  let ?obs = "[example_observation ''co2'' (Some ExchangeOutput), example_observation ''ch4'' (Some ExchangeInput),
    example_observation ''no2'' None]"
  obtain b where b: "build_lcia_factor_coverage (\<lambda>_. ''r'') (\<lambda>s. s) ?obs [example_impact] [] = Inr b" "fb_record_count b = 2"
    by (simp add: build_lcia_factor_coverage_def cover_method_def cover_observation_def coverage_outcome_def count_gap_def
        write_gap_def checked_add_def add_counts_def example_observation_def example_impact_def finite_amount_def
        observation_le_def counts_default_def MAX_LCIA_GAP_EVIDENCE_RECORDS_def MAX_LCIA_GAP_EVIDENCE_BYTES_def
        saturating_add_def u64_max_def)
  from factor_coverage_accounts_for_pairs [OF b(1)] b show ?thesis by (auto simp: u64_max_def)
qed

end
