(* ===== verification/Snapshot_Assembly.thy ===== *)
theory Snapshot_Assembly
  imports Matrix_Readiness Lcia_Coverage Contribution_Path
begin

text \<open>
  The assembly of a snapshot in \<open>crates/solver-worker/src/bin/snapshot_builder.rs\<close>: the compiled graph becomes the
  sparse matrices, the coverage report with its singular risk, the index document and the readiness report.
  The iteration orders of the hash maps are parameters. Of the method selection only \<open>has_lcia\<close> is read.
  Theorems: the assembled matrices are within their dimensions with one entry per cell, the risk level is that
  of the diagonal of \<open>I - A\<close>, and a snapshot that passes the gate under a closed boundary has balanced every
  residual of its compilation.
\<close>

section \<open>Data\<close>

datatype assembly_error =
    ProcessOverflow
  | FlowOverflow
  | ImpactOverflow
  | CountOverflowed string
  | OmittedImpact
  | NoImpactFactors
  | AssemblyBalance balance_error
  | AssemblyCoverage lcia_coverage_error
  | AssemblyPanic

record 'e build_output =
  bo_data :: "f64 model_sparse_data"
  bo_coverage :: snapshot_coverage_report
  bo_snapshot_index :: snapshot_index_document
  bo_readiness :: matrix_readiness_report
  bo_compiled_graph :: "'e compiled_graph"
  bo_lcia_factor_coverage :: "lcia_factor_coverage_build option"

text \<open>
  The orders in which the hash maps of the technosphere cells, of the biosphere cells and of the columns of one
  impact iterate.
\<close>

record map_orders =
  mo_a_cells :: "(i32 \<times> i32) sparse_map \<Rightarrow> (i32 \<times> i32) sparse_map"
  mo_b_cells :: "(i32 \<times> i32) sparse_map \<Rightarrow> (i32 \<times> i32) sparse_map"
  mo_columns :: "i32 sparse_map \<Rightarrow> i32 sparse_map"

definition SNAPSHOT_COVERAGE_SCHEMA_VERSION :: string where
  "SNAPSHOT_COVERAGE_SCHEMA_VERSION = ''snapshot_coverage.v3''"

definition i32_of_usize :: "assembly_error \<Rightarrow> usize \<Rightarrow> assembly_error + i32" where
  "i32_of_usize e n = (if int n \<le> i32_max then Inr (int n) else Inl e)"

definition i64_of_usize :: "assembly_error \<Rightarrow> usize \<Rightarrow> assembly_error + i64" where
  "i64_of_usize e n = (if int n \<le> i64_max then Inr (int n) else Inl e)"

section \<open>Matrices\<close>

definition push_flow_index :: "(uuid \<times> i32 list) list \<Rightarrow> compiled_flow \<Rightarrow> (uuid \<times> i32 list) list" where
  "push_flow_index m flow =
     (if cf_space flow = Biosphere
      then AList.update (cf_flow_id flow) (unwrap_or [] (map_of m (cf_flow_id flow)) @ [cf_flow_idx flow]) m
      else m)"

definition flow_indices_by_id :: "compiled_flow list \<Rightarrow> (uuid \<times> i32 list) list" where
  "flow_indices_by_id flows = foldl push_flow_index [] flows"

definition technosphere_map :: "compiled_technosphere_edge list \<Rightarrow> (i32 \<times> i32) sparse_map" where
  "technosphere_map edges =
     filter (\<lambda>(key, v). F64_EPSILON < \<bar>v\<bar>)
       (foldl (\<lambda>m edge. add_technosphere_edge m (te_provider_idx edge) (te_consumer_idx edge) (te_amount edge)) [] edges)"

definition biosphere_map :: "bool \<Rightarrow> compiled_biosphere_edge list \<Rightarrow> assembly_error + (i32 \<times> i32) sparse_map" where
  "biosphere_map directional_lcia edges =
     res_bind (map_err AssemblyBalance
         (try_fold (\<lambda>m edge. accumulate_biosphere_edge m (be_flow_idx edge, be_process_idx edge) (be_amount edge) directional_lcia)
            [] edges))
       (\<lambda>m. Inr (filter (\<lambda>(key, v). retain_sparse_value v directional_lcia) m))"

definition cells_to_triplets :: "(i32 \<times> i32) sparse_map \<Rightarrow> f64 sparse_triplet list" where
  "cells_to_triplets m = map (\<lambda>((row, col), v). \<lparr>s_row = row, s_col = col, s_value = v\<rparr>) m"

definition add_factor_to_flow ::
  "(uuid \<times> i32 list) list \<Rightarrow> uuid \<Rightarrow> i32 sparse_map \<Rightarrow> uuid \<times> f64 \<Rightarrow> assembly_error + i32 sparse_map" where
  "add_factor_to_flow flow_indices impact_id c_map factor =
     (case map_of flow_indices (fst factor) of
        None \<Rightarrow> Inr c_map
      | Some indices \<Rightarrow>
          map_err AssemblyBalance
            (try_fold (\<lambda>m flow_idx. accumulate_finite_factor m flow_idx (snd factor) impact_id) c_map indices))"

definition impact_row_entries ::
  "map_orders \<Rightarrow> (uuid \<times> i32 list) list \<Rightarrow> bool \<Rightarrow> (uuid \<times> f64) list list \<Rightarrow> nat \<times> impact_factor_set
   \<Rightarrow> assembly_error + f64 sparse_triplet list" where
  "impact_row_entries orders flow_indices directional_lcia factors_by_impact entry =
     (case entry of (impact_idx, impact) \<Rightarrow>
        res_bind (i32_of_usize ImpactOverflow impact_idx) (\<lambda>impact_row.
        res_bind (ok_or OmittedImpact (vec_get factors_by_impact impact_idx)) (\<lambda>factors.
        res_bind (try_fold (add_factor_to_flow flow_indices (if_impact_id impact)) [] factors) (\<lambda>c_map.
        Inr (map (\<lambda>(col, v). \<lparr>s_row = impact_row, s_col = col, s_value = v\<rparr>)
              (mo_columns orders (filter (\<lambda>(col, v). retain_sparse_value v directional_lcia) c_map)))))))"

definition characterization_entries ::
  "map_orders \<Rightarrow> (uuid \<times> i32 list) list \<Rightarrow> bool \<Rightarrow> (uuid \<times> f64) list list \<Rightarrow> impact_factor_set list
   \<Rightarrow> assembly_error + f64 sparse_triplet list" where
  "characterization_entries orders flow_indices directional_lcia factors_by_impact impacts =
     res_bind (try_map (impact_row_entries orders flow_indices directional_lcia factors_by_impact) (enumerate 0 impacts))
       (\<lambda>rows. Inr (concat rows))"

section \<open>Singular risk\<close>

definition diagonal_of :: "f64 sparse_triplet list \<Rightarrow> i32 sparse_map" where
  "diagonal_of triplets =
     foldl (\<lambda>d t. if s_row t = s_col t then AList.update (s_row t) (unwrap_or (Fin 0) (map_of d (s_row t)) + s_value t) d else d)
       [] triplets"

definition abs_m_diag :: "i32 sparse_map \<Rightarrow> i32 \<Rightarrow> f64" where
  "abs_m_diag diag_a idx = \<bar>Fin 1 - unwrap_or (Fin 0) (map_of diag_a idx)\<bar>"

definition scan_diagonal :: "f64 \<Rightarrow> i32 sparse_map \<Rightarrow> i64 \<times> f64 \<Rightarrow> i32 \<Rightarrow> i64 \<times> f64" where
  "scan_diagonal singular_eps diag_a st idx =
     (let d = abs_m_diag diag_a idx in
      (if d \<le> singular_eps then fst st + 1 else fst st, if d < snd st then d else snd st))"

definition m_diagonal :: "f64 \<Rightarrow> i32 sparse_map \<Rightarrow> nat \<Rightarrow> i64 \<times> f64" where
  "m_diagonal singular_eps diag_a n =
     (let st = foldl (scan_diagonal singular_eps diag_a) (0, PosInf) (map int [0..<n]) in
      (fst st, if \<not> is_finite (snd st) then Fin 0 else snd st))"

definition risk_level_of :: "i64 \<Rightarrow> i64 \<Rightarrow> i64 \<Rightarrow> string" where
  "risk_level_of m_zero_diag_count prefilter_diag_ge_cutoff a_diag_ge_cutoff =
     (if 0 < m_zero_diag_count then ''high''
      else if 0 < prefilter_diag_ge_cutoff \<or> 0 < a_diag_ge_cutoff then ''medium''
      else ''low'')"

definition count_at_cutoff :: "f64 \<Rightarrow> ('k \<times> f64) list \<Rightarrow> nat" where
  "count_at_cutoff cutoff m = length (filter (\<lambda>(key, v). cutoff \<le> \<bar>v\<bar>) m)"

definition singular_risk_of ::
  "f64 \<Rightarrow> f64 \<Rightarrow> nat \<Rightarrow> (i32 \<times> i32) sparse_map \<Rightarrow> f64 sparse_triplet list \<Rightarrow> assembly_error + snapshot_singular_risk" where
  "singular_risk_of self_loop_cutoff singular_eps n a_map triplets =
     (let diag_a = diagonal_of triplets in
      res_bind (i64_of_usize (CountOverflowed ''prefilter'')
          (count_at_cutoff self_loop_cutoff (filter (\<lambda>((row, col), v). row = col) a_map))) (\<lambda>prefilter.
      res_bind (i64_of_usize (CountOverflowed ''diag'') (count_at_cutoff self_loop_cutoff diag_a)) (\<lambda>postfilter.
      let (zero_count, min_abs) = m_diagonal singular_eps diag_a n in
      Inr \<lparr>sk_risk_level = risk_level_of zero_count prefilter postfilter,
           sk_prefilter_diag_abs_ge_cutoff = prefilter, sk_postfilter_a_diag_abs_ge_cutoff = postfilter,
           sk_m_zero_diagonal_count = zero_count, sk_m_min_abs_diagonal = min_abs\<rparr>)))"

section \<open>Coverage\<close>

definition matching_coverage_of :: "'e compiled_graph \<Rightarrow> snapshot_matching_coverage" where
  "matching_coverage_of graph =
     (let stats = cg_matching_stats graph;
          present = ms_matched_unique_provider stats + ms_matched_multi_provider stats;
          diagnostics = summarize_matching_diagnostics graph in
      \<lparr>mc_input_edges_total = ms_input_edges_total stats,
       mc_matched_unique_provider = ms_matched_unique_provider stats,
       mc_matched_multi_provider = ms_matched_multi_provider stats,
       mc_unmatched_no_provider = ms_unmatched_no_provider stats,
       mc_matched_multi_resolved = ms_matched_multi_resolved stats,
       mc_matched_multi_unresolved = ms_matched_multi_unresolved stats,
       mc_matched_multi_fallback_equal = ms_matched_multi_fallback_equal stats,
       mc_a_input_edges_written = ms_a_input_edges_written stats,
       mc_residual_edges_total = ms_residual_edges_total stats,
       mc_a_balance_edges_written = ms_a_balance_edges_written stats,
       mc_a_write_pct = pct (ms_a_input_edges_written stats) (ms_input_edges_total stats),
       mc_provider_present_resolved_pct = pct (ms_a_input_edges_written stats) present,
       mc_unique_provider_match_pct = pct (ms_matched_unique_provider stats) (ms_input_edges_total stats),
       mc_any_provider_match_pct = pct present (ms_input_edges_total stats),
       mc_provider_decision_diagnostics = md_provider_decision_diagnostics diagnostics,
       mc_candidate_summary = md_candidate_summary diagnostics,
       mc_resolution_summary = md_resolution_summary diagnostics,
       mc_geography_summary = md_geography_summary diagnostics,
       mc_volume_weight_summary = md_volume_weight_summary diagnostics,
       mc_gap_summary = md_gap_summary diagnostics\<rparr>)"

definition reference_coverage_of :: "'e compiled_graph \<Rightarrow> i64 \<Rightarrow> snapshot_reference_coverage" where
  "reference_coverage_of graph n =
     \<lparr>rf_process_total = n,
      rf_normalized_process_count = st_normalized_processes (cg_reference_stats graph),
      rf_missing_reference_count = st_missing_reference (cg_reference_stats graph),
      rf_invalid_reference_count = st_invalid_reference (cg_reference_stats graph)\<rparr>"

definition allocation_coverage_of :: "'e compiled_graph \<Rightarrow> snapshot_allocation_coverage" where
  "allocation_coverage_of graph =
     (let stats = cg_allocation_stats graph in
      \<lparr>al_exchange_total = st_exchange_total stats,
       al_allocation_fraction_present_pct = pct (st_fraction_present_count stats) (st_exchange_total stats),
       al_allocation_fraction_missing_count = st_fraction_missing_count stats,
       al_allocation_fraction_invalid_count = st_fraction_invalid_count stats,
       al_legacy_empty_allocation_as_undeclared_count = st_legacy_empty_allocation_as_undeclared_count stats,
       al_legacy_single_output_target_inferred_count = st_legacy_single_output_target_inferred_count stats,
       al_legacy_single_reference_target_inferred_count = st_legacy_single_reference_target_inferred_count stats\<rparr>)"

definition matrix_scale_of ::
  "f64 model_sparse_data \<Rightarrow> i64 \<Rightarrow> assembly_error + snapshot_matrix_scale" where
  "matrix_scale_of data m_zero_diag_count =
     (let n = process_count data in
      res_bind (i64_of_usize (CountOverflowed ''a nnz'') (length (technosphere_entries data))) (\<lambda>a_nnz.
      res_bind (i64_of_usize (CountOverflowed ''b nnz'') (length (biosphere_entries data))) (\<lambda>b_nnz.
      res_bind (i64_of_usize (CountOverflowed ''c nnz'') (length (characterization_factors data))) (\<lambda>c_nnz.
      res_bind (i64_of_usize (CountOverflowed ''a offdiag'')
        (length (filter (\<lambda>t. s_row t \<noteq> s_col t) (technosphere_entries data)))) (\<lambda>a_offdiag_nnz.
      let m_nnz_estimated = a_offdiag_nnz + max (n - m_zero_diag_count) 0 in
      Inr \<lparr>sc_process_count = n, sc_flow_count = flow_count data, sc_impact_count = impact_count data,
           sc_a_nnz = a_nnz, sc_b_nnz = b_nnz, sc_c_nnz = c_nnz, sc_m_nnz_estimated = m_nnz_estimated,
           sc_m_sparsity_estimated = (if n = 0 then Fin 1
             else Fin 1 - f64_div (f64_round (of_int m_nnz_estimated)) (f64_round (of_int (n * n))))\<rparr>)))))"

section \<open>Index and policy\<close>

definition impact_map_entry :: "nat \<times> impact_factor_set \<Rightarrow> assembly_error + snapshot_impact_map_entry" where
  "impact_map_entry entry =
     (case entry of (impact_idx, impact) \<Rightarrow>
        res_bind (i32_of_usize ImpactOverflow impact_idx) (\<lambda>idx.
        Inr \<lparr>ie_impact_id = if_impact_id impact, ie_impact_index = idx, ie_impact_version = Some (if_method_version impact),
             ie_impact_key = if_impact_key impact, ie_impact_name = if_impact_name impact, ie_unit = if_unit impact\<rparr>))"

definition build_snapshot_impact_map ::
  "uuid \<Rightarrow> bool \<Rightarrow> impact_factor_set list \<Rightarrow> assembly_error + snapshot_impact_map_entry list" where
  "build_snapshot_impact_map snapshot_id method_has_lcia impact_factor_sets =
     (if \<not> method_has_lcia
      then Inr [\<lparr>ie_impact_id = snapshot_id, ie_impact_index = 0, ie_impact_version = None, ie_impact_key = ''lcia-disabled'',
                 ie_impact_name = ''LCIA disabled (placeholder impact)'', ie_unit = ''unknown''\<rparr>]
      else if impact_factor_sets = [] then Inl NoImpactFactors
      else try_map impact_map_entry (enumerate 0 impact_factor_sets))"

definition process_map_entry :: "compiled_process \<Rightarrow> snapshot_process_map_entry" where
  "process_map_entry meta =
     \<lparr>pe_process_id = cp_process_id meta, pe_process_index = cp_process_idx meta, pe_process_version = cp_process_version meta,
      pe_process_name = cp_process_name meta, pe_location = cp_location meta\<rparr>"

definition snapshot_readiness_policy :: "'s snapshot_build_config \<Rightarrow> bool \<Rightarrow> matrix_readiness_policy" where
  "snapshot_readiness_policy build_config has_lcia =
     matrix_readiness_policy_default\<lparr>mp_allow_medium_singular_risk := bc_scope_closure_binding build_config \<noteq> None,
       mp_require_lcia_factors := has_lcia\<rparr>"

section \<open>Assembly\<close>

text \<open>The matrices with their singular risk, in the order in which the source can fail.\<close>

definition assemble_matrices ::
  "map_orders \<Rightarrow> uuid \<Rightarrow> 'e compiled_graph \<Rightarrow> f64 \<Rightarrow> f64 \<Rightarrow> bool \<Rightarrow> impact_factor_set list \<Rightarrow> bool \<Rightarrow> (uuid \<times> f64) list list
   \<Rightarrow> assembly_error + f64 model_sparse_data \<times> snapshot_singular_risk" where
  "assemble_matrices orders snapshot_id graph self_loop_cutoff singular_eps has_lcia impact_factor_sets directional_lcia
       factors_by_impact =
     res_bind (i32_of_usize ProcessOverflow (length (cg_processes graph))) (\<lambda>process_total.
     res_bind (i32_of_usize FlowOverflow (length (cg_flows graph))) (\<lambda>flow_total.
     let a_map = technosphere_map (cg_technosphere_edges graph);
         a_entries = cells_to_triplets (mo_a_cells orders a_map) in
     res_bind (biosphere_map directional_lcia (cg_biosphere_edges graph)) (\<lambda>b_map.
     res_bind (singular_risk_of self_loop_cutoff singular_eps (nat process_total) a_map a_entries) (\<lambda>risk.
     res_bind (if has_lcia
               then characterization_entries orders (flow_indices_by_id (cg_flows graph)) directional_lcia factors_by_impact
                      impact_factor_sets
               else Inr []) (\<lambda>factors.
     res_bind (if has_lcia then i32_of_usize ImpactOverflow (length impact_factor_sets) else Inr 1) (\<lambda>impact_total.
     Inr (\<lparr>model_version = snapshot_id, process_count = process_total, flow_count = flow_total, impact_count = impact_total,
           technosphere_entries = a_entries, biosphere_entries = cells_to_triplets (mo_b_cells orders b_map),
           characterization_factors = factors\<rparr>, risk)))))))"

definition assemble_coverage ::
  "'e compiled_graph \<Rightarrow> f64 model_sparse_data \<Rightarrow> snapshot_singular_risk \<Rightarrow> assembly_error + snapshot_coverage_report" where
  "assemble_coverage graph data risk =
     res_bind (matrix_scale_of data (sk_m_zero_diagonal_count risk)) (\<lambda>scale.
     Inr \<lparr>cv_schema_version = SNAPSHOT_COVERAGE_SCHEMA_VERSION,
          cv_matching = matching_coverage_of graph,
          cv_reference = reference_coverage_of graph (process_count data),
          cv_allocation = allocation_coverage_of graph,
          cv_singular_risk = risk,
          cv_matrix_scale = scale\<rparr>)"

definition snapshot_readiness_input ::
  "uuid \<Rightarrow> 's snapshot_build_config \<Rightarrow> bool \<Rightarrow> snapshot_coverage_report \<Rightarrow> f64 model_sparse_data \<Rightarrow> 'e compiled_graph
   \<Rightarrow> ('s, 'e) matrix_readiness_input" where
  "snapshot_readiness_input snapshot_id build_config has_lcia coverage data graph =
     \<lparr>mi_schema_version = INPUT_SCHEMA_VERSION, mi_snapshot_id = Some snapshot_id, mi_config = Some build_config,
      mi_coverage = coverage, mi_payload = data, mi_compiled_graph = Some graph,
      mi_policy = snapshot_readiness_policy build_config has_lcia\<rparr>"

text \<open>
  The parameters of the environment: UMFPACK, the key hash, the allocator's capacities, the clock, the printed
  numbers, the time stamp, the text of a gap record and its hash.
\<close>

record assembly_env =
  en_lib :: umfpack_lib
  en_blake3_hex :: "nat list \<Rightarrow> string"
  en_cap :: "usize \<Rightarrow> usize"
  en_now :: "nat \<Rightarrow> system_time"
  en_texts :: texts
  en_stamp :: string
  en_gap_json :: "lcia_uncharacterized_record \<Rightarrow> string"
  en_sha256_hex :: "string \<Rightarrow> string"

definition assemble_sparse_payload_with_selection ::
  "assembly_env \<Rightarrow> map_orders \<Rightarrow> uuid \<Rightarrow> bool \<Rightarrow> 's snapshot_build_config \<Rightarrow> 'e compiled_graph \<Rightarrow> f64 \<Rightarrow> f64 \<Rightarrow> bool
   \<Rightarrow> impact_factor_set list \<Rightarrow> lcia_exchange_observation list \<Rightarrow> bool \<Rightarrow> active_lcia_factor_selection
   \<Rightarrow> assembly_error + 'e build_output" where
  "assemble_sparse_payload_with_selection env orders snapshot_id method_has_lcia build_config graph self_loop_cutoff singular_eps
       has_lcia impact_factor_sets observations directional_lcia selection =
     res_bind (assemble_matrices orders snapshot_id graph self_loop_cutoff singular_eps has_lcia impact_factor_sets
         directional_lcia (af_factors_by_impact selection)) (\<lambda>(data, risk).
     res_bind (assemble_coverage graph data risk) (\<lambda>coverage.
     res_bind (build_snapshot_impact_map snapshot_id method_has_lcia impact_factor_sets) (\<lambda>impact_map.
     let index = \<lparr>si_version = 1, si_snapshot_id = snapshot_id, si_process_count = process_count data,
                  si_impact_count = impact_count data, si_process_map = map process_map_entry (cg_processes graph),
                  si_impact_map = impact_map\<rparr> in
     res_bind (map_err (\<lambda>_. AssemblyPanic)
         (verify_matrix_readiness (en_lib env) (en_blake3_hex env) (en_cap env) (en_now env) (en_texts env) (en_stamp env)
            (snapshot_readiness_input snapshot_id build_config has_lcia coverage data graph))) (\<lambda>readiness.
     res_bind (if directional_lcia
               then res_bind (map_err AssemblyCoverage (build_lcia_factor_coverage (en_gap_json env) (en_sha256_hex env)
                      observations impact_factor_sets (af_direction_by_flow selection))) (\<lambda>b. Inr (Some b))
               else Inr None) (\<lambda>factor_coverage.
     Inr \<lparr>bo_data = data, bo_coverage = coverage, bo_snapshot_index = index, bo_readiness = readiness,
          bo_compiled_graph = graph, bo_lcia_factor_coverage = factor_coverage\<rparr>)))))"

definition assemble_sparse_payload ::
  "assembly_env \<Rightarrow> map_orders \<Rightarrow> uuid \<Rightarrow> bool \<Rightarrow> 's snapshot_build_config \<Rightarrow> 'e compiled_graph \<Rightarrow> f64 \<Rightarrow> f64 \<Rightarrow> bool
   \<Rightarrow> impact_factor_set list \<Rightarrow> lcia_exchange_observation list \<Rightarrow> bool \<Rightarrow> assembly_error + 'e build_output" where
  "assemble_sparse_payload env orders snapshot_id method_has_lcia build_config graph self_loop_cutoff singular_eps
       has_lcia impact_factor_sets observations directional_lcia =
     assemble_sparse_payload_with_selection env orders snapshot_id method_has_lcia build_config graph self_loop_cutoff singular_eps
       has_lcia impact_factor_sets observations directional_lcia
       (select_active_lcia_factors impact_factor_sets
         (sort (remdups (map cf_flow_id (filter (\<lambda>flow. cf_space flow = Biosphere) (cg_flows graph)))))
         observations directional_lcia)"

section \<open>What is assembled\<close>

text \<open>A hash map iterates over each of its entries once, in some order.\<close>

definition orders_permute :: "map_orders \<Rightarrow> bool" where
  "orders_permute orders \<longleftrightarrow> (\<forall>m. mset (mo_a_cells orders m) = mset m) \<and>
     (\<forall>m. mset (mo_b_cells orders m) = mset m) \<and> (\<forall>m. mset (mo_columns orders m) = mset m)"

lemma assembleD:
  assumes "assemble_sparse_payload_with_selection env orders snapshot_id method_has_lcia build_config graph cutoff eps
    has_lcia impacts observations directional selection = Inr out"
  obtains risk where
    "assemble_matrices orders snapshot_id graph cutoff eps has_lcia impacts directional (af_factors_by_impact selection) =
       Inr (bo_data out, risk)"
    "assemble_coverage graph (bo_data out) risk = Inr (bo_coverage out)"
    "verify_matrix_readiness (en_lib env) (en_blake3_hex env) (en_cap env) (en_now env) (en_texts env) (en_stamp env)
       (snapshot_readiness_input snapshot_id build_config has_lcia (bo_coverage out) (bo_data out) graph) = Inr (bo_readiness out)"
    "bo_compiled_graph out = graph"
  using assms
  by (auto simp: assemble_sparse_payload_with_selection_def res_simps Let_def)

lemma assemble_matricesD:
  assumes "assemble_matrices orders snapshot_id graph cutoff eps has_lcia impacts directional factors = Inr (data, risk)"
  obtains b_map where
    "biosphere_map directional (cg_biosphere_edges graph) = Inr b_map"
    "process_count data = int (length (cg_processes graph))" "flow_count data = int (length (cg_flows graph))"
    "impact_count data = (if has_lcia then int (length impacts) else 1)"
    "technosphere_entries data = cells_to_triplets (mo_a_cells orders (technosphere_map (cg_technosphere_edges graph)))"
    "biosphere_entries data = cells_to_triplets (mo_b_cells orders b_map)"
    "(if has_lcia then characterization_entries orders (flow_indices_by_id (cg_flows graph)) directional factors impacts
      else Inr []) = Inr (characterization_factors data)"
    "singular_risk_of cutoff eps (length (cg_processes graph)) (technosphere_map (cg_technosphere_edges graph))
       (technosphere_entries data) = Inr risk"
  using assms
  by (auto simp: assemble_matrices_def res_simps Let_def i32_of_usize_def split: if_splits)

section \<open>Cells of the technosphere\<close>

text \<open>The amount of a cell: the edges above the threshold, added in their order.\<close>

definition cell_edges :: "compiled_technosphere_edge list \<Rightarrow> i32 \<times> i32 \<Rightarrow> compiled_technosphere_edge list" where
  "cell_edges edges cell = filter (\<lambda>e. (te_provider_idx e, te_consumer_idx e) = cell \<and> F64_EPSILON < \<bar>te_amount e\<bar>) edges"

definition cell_amount :: "compiled_technosphere_edge list \<Rightarrow> i32 \<times> i32 \<Rightarrow> f64" where
  "cell_amount edges cell = foldl (\<lambda>sum e. sum + te_amount e) (Fin 0) (cell_edges edges cell)"

definition summed_cells :: "compiled_technosphere_edge list \<Rightarrow> (i32 \<times> i32) sparse_map" where
  "summed_cells edges =
     foldl (\<lambda>m edge. add_technosphere_edge m (te_provider_idx edge) (te_consumer_idx edge) (te_amount edge)) [] edges"

lemma summed_cells_snoc:
  "summed_cells (edges @ [e]) = add_technosphere_edge (summed_cells edges) (te_provider_idx e) (te_consumer_idx e) (te_amount e)"
  by (simp add: summed_cells_def)

lemma summed_cells_wf: "alist_wf (summed_cells edges)"
  by (induction edges rule: rev_induct) (simp_all add: summed_cells_snoc add_technosphere_edge_def, simp add: summed_cells_def)

lemma map_of_summed_cells:
  "map_of (summed_cells edges) cell = (if cell_edges edges cell = [] then None else Some (cell_amount edges cell))"
proof (induction edges rule: rev_induct)
  case (snoc e edges)
  have "map_of (summed_cells (edges @ [e])) cell =
      (if F64_EPSILON < \<bar>te_amount e\<bar> \<and> (te_provider_idx e, te_consumer_idx e) = cell
       then Some (unwrap_or (Fin 0) (map_of (summed_cells edges) cell) + te_amount e) else map_of (summed_cells edges) cell)"
    by (auto simp: summed_cells_snoc add_technosphere_edge_def update_conv')
  then show ?case using snoc.IH by (auto simp: cell_edges_def cell_amount_def)
qed (simp add: summed_cells_def cell_edges_def)

lemma alist_wf_filter [simp]: "alist_wf m \<Longrightarrow> alist_wf (filter P m)"
  by (simp add: alist_wf_def distinct_map_filter)

lemma map_of_filter_wf:
  "alist_wf m \<Longrightarrow> map_of (filter P m) k = (case map_of m k of Some v \<Rightarrow> if P (k, v) then Some v else None | None \<Rightarrow> None)"
proof (induction m)
  case (Cons e m)
  obtain k' v where e: "e = (k', v)" by fastforce
  have "map_of (filter P m) k' = None" using Cons.prems by (auto simp: e map_of_eq_None_iff)
  with Cons show ?case by (auto simp: e)
qed simp

lemma technosphere_map_summed: "technosphere_map edges = filter (\<lambda>(cell, v). F64_EPSILON < \<bar>v\<bar>) (summed_cells edges)"
  by (simp add: technosphere_map_def summed_cells_def)

lemma technosphere_map_wf: "alist_wf (technosphere_map edges)"
  by (simp add: technosphere_map_summed summed_cells_wf)

lemma technosphere_map_get:
  "map_of (technosphere_map edges) cell =
     (if cell_edges edges cell \<noteq> [] \<and> F64_EPSILON < \<bar>cell_amount edges cell\<bar> then Some (cell_amount edges cell) else None)"
  by (simp add: technosphere_map_summed map_of_filter_wf summed_cells_wf map_of_summed_cells)

section \<open>Triplets\<close>

definition triplet_cell :: "f64 sparse_triplet \<Rightarrow> i32 \<times> i32" where
  "triplet_cell t = (s_row t, s_col t)"

definition cells_of :: "f64 sparse_triplet list \<Rightarrow> (i32 \<times> i32) sparse_map" where
  "cells_of ts = map (\<lambda>t. (triplet_cell t, s_value t)) ts"

lemma cells_of_triplets [simp]: "cells_of (cells_to_triplets m) = m"
  by (simp add: cells_of_def cells_to_triplets_def triplet_cell_def comp_def case_prod_unfold)

lemma alist_wf_perm: "mset m = mset m' \<Longrightarrow> alist_wf m = alist_wf m'"
  by (metis alist_wf_def mset_eq_imp_distinct_iff mset_map)

lemma map_of_perm: "mset m = mset m' \<Longrightarrow> alist_wf m' \<Longrightarrow> map_of m = map_of m'"
  by (metis alist_wf_def alist_wf_perm map_of_inject_set mset_eq_setD)

lemma ordered_cells:
  assumes "mset m' = mset m" "alist_wf m"
  shows "alist_wf (cells_of (cells_to_triplets m'))" "map_of (cells_of (cells_to_triplets m')) = map_of m"
    "set (cells_of (cells_to_triplets m')) = set m"
  using alist_wf_perm [OF assms(1)] map_of_perm [OF assms] mset_eq_setD [OF assms(1)] assms(2) by simp_all

lemma orders_permuteD:
  assumes "orders_permute orders"
  shows "mset (mo_a_cells orders m) = mset m" "mset (mo_b_cells orders m) = mset m" "mset (mo_columns orders c) = mset c"
  using assms by (simp_all add: orders_permute_def)

section \<open>Cells of the biosphere\<close>

lemma accumulate_biosphere_cases:
  "accumulate_biosphere_edge m key amount preserve = Inr m' \<Longrightarrow> m' = m \<or> (\<exists>v. is_finite v \<and> m' = AList.update key v m)"
  by (auto simp: accumulate_biosphere_edge_def Let_def split: if_splits)

lemma biosphere_mapD:
  assumes "biosphere_map directional edges = Inr m"
  shows "alist_wf m \<and> list_all (\<lambda>(cell, v). is_finite v \<and> cell \<in> (\<lambda>e. (be_flow_idx e, be_process_idx e)) ` set edges) m"
proof -
  let ?step = "\<lambda>m edge. accumulate_biosphere_edge m (be_flow_idx edge, be_process_idx edge) (be_amount edge) directional"
  let ?P = "\<lambda>m. sparse_wf m \<and> fst ` set m \<subseteq> (\<lambda>e. (be_flow_idx e, be_process_idx e)) ` set edges"
  from assms obtain m0 where fold: "try_fold ?step [] edges = Inr m0"
    and m: "m = filter (\<lambda>(key, v). retain_sparse_value v directional) m0"
    by (auto simp: biosphere_map_def res_simps)
  have "?P m0"
  proof (rule try_fold_invariant [OF fold, where P = ?P])
    show "?P []" by (simp add: sparse_wf_def)
    show "?P t" if "x \<in> set edges" "?P s" "?step s x = Inr t" for s x t
      using accumulate_biosphere_cases [OF that(3)] that(1,2) by (elim disjE exE conjE) (simp_all add: sparse_wf_update)
  qed
  then show ?thesis
    by (force simp: m sparse_wf_def alist_wf_def [symmetric] list_all_iff)
qed

section \<open>Rows of the characterization\<close>

lemma flow_indices_set:
  assumes "map_of (flow_indices_by_id flows) f = Some indices" "i \<in> set indices"
  shows "\<exists>flow \<in> set flows. cf_flow_idx flow = i \<and> cf_space flow = Biosphere \<and> cf_flow_id flow = f"
  using assms unfolding flow_indices_by_id_def
proof (induction flows arbitrary: indices rule: rev_induct)
  case (snoc flow flows)
  let ?m = "foldl push_flow_index [] flows"
  have "map_of (push_flow_index ?m flow) f = (if cf_space flow = Biosphere \<and> cf_flow_id flow = f
      then Some (unwrap_or [] (map_of ?m f) @ [cf_flow_idx flow]) else map_of ?m f)"
    by (auto simp: push_flow_index_def update_conv')
  with snoc.prems(1) have get: "(if cf_space flow = Biosphere \<and> cf_flow_id flow = f
      then Some (unwrap_or [] (map_of ?m f) @ [cf_flow_idx flow]) else map_of ?m f) = Some indices" by simp
  show ?case
  proof (cases "i \<in> set (unwrap_or [] (map_of ?m f))")
    case True
    then show ?thesis using snoc.IH [of "unwrap_or [] (map_of ?m f)"] by (cases "map_of ?m f") auto
  next
    case False
    with get snoc.prems(2) show ?thesis by (auto split: if_splits)
  qed
qed simp

lemma accumulate_finite_factor_wf:
  "accumulate_finite_factor m k v method = Inr m' \<Longrightarrow> sparse_wf m \<Longrightarrow> sparse_wf m' \<and> fst ` set m' = insert k (fst ` set m)"
proof -
  assume "accumulate_finite_factor m k v method = Inr m'" "sparse_wf m"
  then have "\<exists>w. is_finite w \<and> m' = AList.update k w m"
    by (auto simp: accumulate_finite_factor_def Let_def split: if_splits)
  with \<open>sparse_wf m\<close> show ?thesis by (elim exE conjE) (simp add: sparse_wf_update)
qed

lemma add_factor_wf:
  assumes "add_factor_to_flow (flow_indices_by_id flows) impact_id m factor = Inr m'"
    "sparse_wf m \<and> fst ` set m \<subseteq> cf_flow_idx ` set flows"
  shows "sparse_wf m' \<and> fst ` set m' \<subseteq> cf_flow_idx ` set flows"
proof (cases "map_of (flow_indices_by_id flows) (fst factor)")
  case None
  with assms show ?thesis by (simp add: add_factor_to_flow_def)
next
  case (Some indices)
  with assms(1) have fold: "try_fold (\<lambda>m flow_idx. accumulate_finite_factor m flow_idx (snd factor) impact_id) m indices = Inr m'"
    by (simp add: add_factor_to_flow_def res_simps)
  show ?thesis
  proof (rule try_fold_invariant [OF fold, where P = "\<lambda>m. sparse_wf m \<and> fst ` set m \<subseteq> cf_flow_idx ` set flows"])
    show "sparse_wf m \<and> fst ` set m \<subseteq> cf_flow_idx ` set flows" by (rule assms(2))
    show "sparse_wf t \<and> fst ` set t \<subseteq> cf_flow_idx ` set flows"
      if "x \<in> set indices" "sparse_wf s \<and> fst ` set s \<subseteq> cf_flow_idx ` set flows"
        "accumulate_finite_factor s x (snd factor) impact_id = Inr t" for s x t
      using accumulate_finite_factor_wf [OF that(3)] that(2) flow_indices_set [OF Some that(1)] by (elim bexE conjE) (simp, blast)
  qed
qed

definition row_sound :: "compiled_flow list \<Rightarrow> nat \<Rightarrow> f64 sparse_triplet list \<Rightarrow> bool" where
  "row_sound flows i ts =
     (distinct (map s_col ts) \<and>
      list_all (\<lambda>t. s_row t = int i \<and> s_col t \<in> cf_flow_idx ` set flows \<and> is_finite (s_value t)) ts)"

lemma impact_row_sound:
  assumes "impact_row_entries orders (flow_indices_by_id flows) directional factors (i, impact) = Inr ts" "orders_permute orders"
  shows "row_sound flows i ts"
proof -
  from assms(1) obtain fs m where
    fold: "try_fold (add_factor_to_flow (flow_indices_by_id flows) (if_impact_id impact)) [] fs = Inr m"
    and ts: "ts = map (\<lambda>(col, v). \<lparr>s_row = int i, s_col = col, s_value = v\<rparr>)
      (mo_columns orders (filter (\<lambda>(col, v). retain_sparse_value v directional) m))"
    by (auto simp: impact_row_entries_def res_simps i32_of_usize_def split: if_splits)
  let ?m = "filter (\<lambda>(col, v). retain_sparse_value v directional) m"
  have "sparse_wf m \<and> fst ` set m \<subseteq> cf_flow_idx ` set flows"
    by (rule try_fold_invariant [OF fold, where P = "\<lambda>m. sparse_wf m \<and> fst ` set m \<subseteq> cf_flow_idx ` set flows"])
      (simp add: sparse_wf_def, rule add_factor_wf)
  then have wf: "distinct (map fst ?m)" "\<And>col v. (col, v) \<in> set ?m \<Longrightarrow> col \<in> cf_flow_idx ` set flows \<and> is_finite v"
    by (auto simp: sparse_wf_def list_all_iff distinct_map_filter image_subset_iff)
  have perm: "mset (mo_columns orders ?m) = mset ?m" by (rule orders_permuteD [OF assms(2)])
  have "distinct (map fst (mo_columns orders ?m))"
    using wf(1) perm by (metis mset_eq_imp_distinct_iff mset_map)
  moreover have "set (mo_columns orders ?m) = set ?m" by (rule mset_eq_setD [OF perm])
  ultimately show ?thesis
    unfolding row_sound_def ts list_all_iff using wf(2) by (auto simp: comp_def case_prod_unfold)
qed

lemma rows_sound:
  assumes "list_all2 (\<lambda>e ts. row_sound flows (fst e) ts) (enumerate n impacts) rows"
  shows "distinct (map triplet_cell (concat rows)) \<and>
    list_all (\<lambda>t. int n \<le> s_row t \<and> s_row t < int (n + length impacts) \<and> s_col t \<in> cf_flow_idx ` set flows \<and>
      is_finite (s_value t)) (concat rows)"
  using assms
proof (induction impacts arbitrary: n rows)
  case (Cons impact impacts)
  then obtain ts rest where rows: "rows = ts # rest" and first: "row_sound flows n ts"
    and others: "list_all2 (\<lambda>e ts. row_sound flows (fst e) ts) (enumerate (Suc n) impacts) rest"
    by (auto simp: list_all2_Cons1)
  note IH = Cons.IH [OF others]
  have "distinct (map triplet_cell ts)"
    using first by (auto simp: row_sound_def triplet_cell_def list_all_iff distinct_map inj_on_def)
  moreover have "triplet_cell ` set ts \<inter> triplet_cell ` set (concat rest) = {}"
    using IH first by (fastforce simp: row_sound_def triplet_cell_def list_all_iff)
  moreover have "list_all (\<lambda>t. int n \<le> s_row t \<and> s_row t < int (n + length (impact # impacts)) \<and>
      s_col t \<in> cf_flow_idx ` set flows \<and> is_finite (s_value t)) (concat rest)"
    by (rule list.pred_mono_strong [OF conjunct2 [OF IH]]) simp
  moreover have "list_all (\<lambda>t. int n \<le> s_row t \<and> s_row t < int (n + length (impact # impacts)) \<and>
      s_col t \<in> cf_flow_idx ` set flows \<and> is_finite (s_value t)) ts"
    using first by (auto simp: row_sound_def list_all_iff)
  ultimately show ?case using IH by (simp add: rows)
qed simp

lemma characterization_sound:
  assumes "characterization_entries orders (flow_indices_by_id flows) directional factors impacts = Inr ts" "orders_permute orders"
  shows "distinct (map triplet_cell ts) \<and>
    list_all (\<lambda>t. 0 \<le> s_row t \<and> s_row t < int (length impacts) \<and> s_col t \<in> cf_flow_idx ` set flows \<and> is_finite (s_value t)) ts"
proof -
  from assms(1) obtain rows where rows: "try_map (impact_row_entries orders (flow_indices_by_id flows) directional factors)
      (enumerate 0 impacts) = Inr rows" and ts: "ts = concat rows"
    by (auto simp: characterization_entries_def res_simps)
  have "list_all2 (\<lambda>e ts. row_sound flows (fst e) ts) (enumerate 0 impacts) rows"
    using rows [unfolded try_map_eq_Inr] by (rule list_all2_mono) (metis impact_row_sound assms(2) prod.collapse)
  from rows_sound [OF this] show ?thesis by (simp add: ts)
qed

section \<open>The matrices\<close>

text \<open>The indices of the compiled graph are positions in its processes and flows.\<close>

definition graph_in_range :: "'e compiled_graph \<Rightarrow> bool" where
  "graph_in_range graph =
     (let processes = {0..<int (length (cg_processes graph))}; flows = {0..<int (length (cg_flows graph))} in
      list_all (\<lambda>e. te_provider_idx e \<in> processes \<and> te_consumer_idx e \<in> processes) (cg_technosphere_edges graph) \<and>
      list_all (\<lambda>e. be_process_idx e \<in> processes \<and> be_flow_idx e \<in> flows) (cg_biosphere_edges graph) \<and>
      list_all (\<lambda>flow. cf_flow_idx flow \<in> flows) (cg_flows graph))"

lemma cells_distinct: "alist_wf (cells_of ts) \<longleftrightarrow> distinct (map triplet_cell ts)"
  by (simp add: alist_wf_def cells_of_def comp_def)

lemma triplets_in_set: "t \<in> set ts \<Longrightarrow> (triplet_cell t, s_value t) \<in> set (cells_of ts)"
  by (auto simp: cells_of_def)

lemma technosphere_in_range:
  assumes "graph_in_range graph" "(cell, v) \<in> set (technosphere_map (cg_technosphere_edges graph))"
  shows "fst cell \<in> {0..<int (length (cg_processes graph))} \<and> snd cell \<in> {0..<int (length (cg_processes graph))}"
proof -
  have "map_of (technosphere_map (cg_technosphere_edges graph)) cell = Some v"
    using assms(2) technosphere_map_wf by (simp add: alist_get_iff)
  then have "cell_edges (cg_technosphere_edges graph) cell \<noteq> []" by (auto simp: technosphere_map_get split: if_splits)
  then obtain e where "e \<in> set (cg_technosphere_edges graph)" "cell = (te_provider_idx e, te_consumer_idx e)"
    by (auto simp: cell_edges_def filter_empty_conv)
  with assms(1) show ?thesis by (simp add: graph_in_range_def list_all_iff Let_def)
qed

text \<open>
  C13. The assembled matrices: every index is within the dimensions, no cell occurs twice, the values of the biosphere
  and of the characterization are finite, and a cell of the technosphere holds the sum of its edges, left out when
  the sum is within the threshold.
\<close>

theorem assembled_matrices_sound:
  assumes "assemble_matrices orders snapshot_id graph cutoff eps has_lcia impacts directional factors = Inr (data, risk)"
    "orders_permute orders" "graph_in_range graph"
  shows "list_all (sparse_in_range (process_count data) (process_count data)) (technosphere_entries data) \<and>
    list_all (sparse_in_range (flow_count data) (process_count data)) (biosphere_entries data) \<and>
    list_all (sparse_in_range (impact_count data) (flow_count data)) (characterization_factors data) \<and>
    distinct (map triplet_cell (technosphere_entries data)) \<and> distinct (map triplet_cell (biosphere_entries data)) \<and>
    distinct (map triplet_cell (characterization_factors data)) \<and>
    list_all (\<lambda>t. is_finite (s_value t)) (biosphere_entries data @ characterization_factors data) \<and>
    map_of (cells_of (technosphere_entries data)) cell =
      (if cell_edges (cg_technosphere_edges graph) cell \<noteq> [] \<and> F64_EPSILON < \<bar>cell_amount (cg_technosphere_edges graph) cell\<bar>
       then Some (cell_amount (cg_technosphere_edges graph) cell) else None)"
proof -
  obtain b_map where
    b: "biosphere_map directional (cg_biosphere_edges graph) = Inr b_map"
    and dims: "process_count data = int (length (cg_processes graph))" "flow_count data = int (length (cg_flows graph))"
      "impact_count data = (if has_lcia then int (length impacts) else 1)"
    and entries: "technosphere_entries data = cells_to_triplets (mo_a_cells orders (technosphere_map (cg_technosphere_edges graph)))"
      "biosphere_entries data = cells_to_triplets (mo_b_cells orders b_map)"
    and c: "(if has_lcia then characterization_entries orders (flow_indices_by_id (cg_flows graph)) directional factors impacts
      else Inr []) = Inr (characterization_factors data)"
    by (rule assemble_matricesD [OF assms(1)])
  note bm = biosphere_mapD [OF b]
  note A = ordered_cells [OF orders_permuteD(1) [OF assms(2)] technosphere_map_wf [of "cg_technosphere_edges graph"], folded entries]
  note B = ordered_cells [OF orders_permuteD(2) [OF assms(2)] conjunct1 [OF bm], folded entries]
  have "list_all (sparse_in_range (process_count data) (process_count data)) (technosphere_entries data)"
    unfolding list_all_iff
  proof
    fix t assume "t \<in> set (technosphere_entries data)"
    then have "(triplet_cell t, s_value t) \<in> set (technosphere_map (cg_technosphere_edges graph))"
      unfolding A(3) [symmetric] by (rule triplets_in_set)
    from technosphere_in_range [OF assms(3) this] show "sparse_in_range (process_count data) (process_count data) t"
      by (simp add: sparse_in_range_def dims triplet_cell_def)
  qed
  moreover have "list_all (\<lambda>t. sparse_in_range (flow_count data) (process_count data) t \<and> is_finite (s_value t)) (biosphere_entries data)"
    unfolding list_all_iff
  proof
    fix t assume "t \<in> set (biosphere_entries data)"
    then have "(triplet_cell t, s_value t) \<in> set b_map" unfolding B(3) [symmetric] by (rule triplets_in_set)
    with bm have "is_finite (s_value t)" "triplet_cell t \<in> (\<lambda>e. (be_flow_idx e, be_process_idx e)) ` set (cg_biosphere_edges graph)"
      by (auto simp: list_all_iff)
    with assms(3) show "sparse_in_range (flow_count data) (process_count data) t \<and> is_finite (s_value t)"
      by (auto simp: sparse_in_range_def dims triplet_cell_def graph_in_range_def list_all_iff Let_def)
  qed
  moreover have "distinct (map triplet_cell (characterization_factors data)) \<and>
      list_all (\<lambda>t. sparse_in_range (impact_count data) (flow_count data) t \<and> is_finite (s_value t)) (characterization_factors data)"
  proof (cases has_lcia)
    case True
    with c have "characterization_entries orders (flow_indices_by_id (cg_flows graph)) directional factors impacts =
      Inr (characterization_factors data)" by simp
    from characterization_sound [OF this assms(2)] assms(3) True show ?thesis
      by (fastforce simp: sparse_in_range_def dims graph_in_range_def list_all_iff Let_def)
  qed (use c in simp)
  ultimately show ?thesis
    using A(1,2) B(1) by (simp add: cells_distinct technosphere_map_get list_all_iff ball_Un)
qed

section \<open>The diagonal\<close>

definition a_diagonal :: "compiled_technosphere_edge list \<Rightarrow> i32 \<Rightarrow> f64" where
  "a_diagonal edges i = (case map_of (technosphere_map edges) (i, i) of None \<Rightarrow> Fin 0 | Some v \<Rightarrow> Fin 0 + v)"

lemma diagonal_get:
  "alist_wf m \<Longrightarrow> map_of (diagonal_of (cells_to_triplets m)) i = map_option (\<lambda>v. Fin 0 + v) (map_of m (i, i))"
proof (induction m rule: rev_induct)
  case (snoc e m)
  obtain r c v where e: "e = ((r, c), v)" by (metis prod.collapse)
  from snoc.prems have wf: "alist_wf m" and fresh: "(r, c) \<notin> fst ` set m" by (auto simp: alist_wf_def e)
  have none: "map_of m (r, c) = None" using fresh by (simp add: map_of_eq_None_iff)
  let ?d = "diagonal_of (cells_to_triplets m)"
  have "map_of (diagonal_of (cells_to_triplets (m @ [e]))) i =
      (if r = c \<and> i = r then Some (unwrap_or (Fin 0) (map_of ?d r) + v) else map_of ?d i)"
    by (auto simp: diagonal_of_def cells_to_triplets_def e update_conv')
  with snoc.IH [OF wf] none show ?case by (auto simp: e map_of_append map_add_def split: option.splits)
qed (simp add: diagonal_of_def cells_to_triplets_def)

lemma scan_diagonal_count:
  "fst (foldl (scan_diagonal eps d) st is) = fst st + int (length (filter (\<lambda>i. abs_m_diag d i \<le> eps) is))"
  by (induction "is" arbitrary: st) (simp_all add: scan_diagonal_def Let_def)

text \<open>
  C33. The singular risk is that of the diagonal of \<open>I - A\<close>: the count of zero diagonals is the number of processes for
  which \<open>1 - a\<close> is within epsilon of zero, and the risk is high exactly when there is one.
\<close>

theorem singular_risk_is_diagonal:
  assumes "assemble_matrices orders snapshot_id graph cutoff eps has_lcia impacts directional factors = Inr (data, risk)"
    "orders_permute orders"
  shows "sk_m_zero_diagonal_count risk =
      int (length (filter (\<lambda>i. \<bar>Fin 1 - a_diagonal (cg_technosphere_edges graph) (int i)\<bar> \<le> eps) [0..<length (cg_processes graph)])) \<and>
    (sk_risk_level risk = ''high'' \<longleftrightarrow>
      list_ex (\<lambda>i. \<bar>Fin 1 - a_diagonal (cg_technosphere_edges graph) (int i)\<bar> \<le> eps) [0..<length (cg_processes graph)]) \<and>
    sk_risk_level risk \<in> {''high'', ''medium'', ''low''}"
proof -
  let ?m = "technosphere_map (cg_technosphere_edges graph)" and ?n = "length (cg_processes graph)"
  let ?d = "diagonal_of (cells_to_triplets (mo_a_cells orders ?m))"
  let ?zero = "\<lambda>i. \<bar>Fin 1 - a_diagonal (cg_technosphere_edges graph) (int i)\<bar> \<le> eps"
  have entries: "technosphere_entries data = cells_to_triplets (mo_a_cells orders ?m)"
    and risk: "singular_risk_of cutoff eps ?n ?m (technosphere_entries data) = Inr risk"
    by (rule assemble_matricesD [OF assms(1)]; simp)+
  have perm: "mset (mo_a_cells orders ?m) = mset ?m" by (rule orders_permuteD [OF assms(2)])
  have "map_of ?d i = map_option (\<lambda>v. Fin 0 + v) (map_of ?m (i, i))" for i
    using diagonal_get [of "mo_a_cells orders ?m" i] alist_wf_perm [OF perm] map_of_perm [OF perm] technosphere_map_wf by simp
  then have diag: "abs_m_diag ?d (int i) \<le> eps \<longleftrightarrow> ?zero i" for i
    by (simp add: abs_m_diag_def a_diagonal_def split: option.split)
  have zeros: "sk_m_zero_diagonal_count risk = int (length (filter ?zero [0..<?n]))"
    using risk unfolding entries
    by (auto simp: singular_risk_of_def res_simps Let_def m_diagonal_def scan_diagonal_count filter_map comp_def diag case_prod_unfold)
  have level: "sk_risk_level risk = risk_level_of (sk_m_zero_diagonal_count risk) (sk_prefilter_diag_abs_ge_cutoff risk)
      (sk_postfilter_a_diag_abs_ge_cutoff risk)"
    using risk by (auto simp: singular_risk_of_def res_simps Let_def case_prod_unfold)
  have "0 < length (filter ?zero [0..<?n]) \<longleftrightarrow> list_ex ?zero [0..<?n]"
    by (simp add: filter_empty_conv list_ex_iff)
  then show ?thesis using zeros level by (simp add: risk_level_of_def)
qed

section \<open>Closed snapshots\<close>

text \<open>The graph carries the decisions, edges and statistics of a compilation.\<close>

definition carries :: "'e compiled_graph \<Rightarrow> compiled_balance_batch \<Rightarrow> bool" where
  "carries graph batch =
     (cg_provider_decisions graph = bb_decisions batch \<and> cg_unresolved_balances graph = bb_unresolved batch \<and>
      cg_balance_resolutions graph = bb_resolutions batch \<and> cg_technosphere_edges graph = bb_technosphere_edges batch \<and>
      cg_matching_stats graph = bb_matching_stats batch)"

definition unresolved_counted :: "compiled_balance_batch \<Rightarrow> bool" where
  "unresolved_counted b =
     (int (length (bb_unresolved b)) =
        ms_unmatched_no_provider (bb_matching_stats b) + ms_matched_multi_unresolved (bb_matching_stats b) \<and>
      0 \<le> ms_unmatched_no_provider (bb_matching_stats b) \<and> 0 \<le> ms_matched_multi_unresolved (bb_matching_stats b) \<and>
      length (bb_unresolved b) = length (filter (\<lambda>d. cd_failure_reason d \<noteq> None) (bb_decisions b)))"

lemma choose_balance_unresolved:
  assumes "choose_balance rule exchange metas anchor gate ports s = Inr (choice, s')" "machine_volumes metas"
  shows "ms_unmatched_no_provider s' + ms_matched_multi_unresolved s' =
      ms_unmatched_no_provider s + ms_matched_multi_unresolved s + (if ch_allocations choice = [] then 1 else 0) \<and>
    ms_unmatched_no_provider s \<le> ms_unmatched_no_provider s' \<and> ms_matched_multi_unresolved s \<le> ms_matched_multi_unresolved s'"
proof -
  note d = choose_balanceD [OF assms]
  from assms(1) show ?thesis
  proof (cases rule: choose_balance_cases)
    case (unique p)
    then have "ch_failure_reason choice = None" by (auto simp: choose_unique_def res_simps)
    with d unique show ?thesis by simp
  next
    case (multi r)
    then have "ch_failure_reason choice = None" by (auto simp: choose_resolved_def res_simps)
    with d multi show ?thesis by simp
  qed (simp_all add: failed_choice_def)
qed

lemma compile_exchange_unresolved:
  assumes "compile_exchange port_map metas processes rule lineage b exchange residual = Inr b'" "unresolved_counted b"
    "machine_volumes metas"
  shows "unresolved_counted b'"
  using assms(1)
proof (rule compile_exchangeD)
  fix anchor gate candidates n choice s matched b1
  assume choice: "choose_balance rule exchange metas anchor gate (port_map (flow_link_identity_of exchange))
       ((bb_matching_stats b)\<lparr>ms_input_edges_total := ms_input_edges_total (bb_matching_stats b) + 1,
          ms_residual_edges_total := ms_residual_edges_total (bb_matching_stats b) + 1\<rparr>) = Inr (choice, s)"
    and b1: "b1 = b\<lparr>bb_matching_stats := s,
            bb_decisions := bb_decisions b @ [decision_of exchange anchor n matched (map (attach_lineage gate) candidates) choice]\<rparr>"
    and cases: "(ch_allocations choice = [] \<and> (\<exists>u. b' = b1\<lparr>bb_unresolved := bb_unresolved b1 @ [u]\<rparr>)) \<or>
     (ch_allocations choice \<noteq> [] \<and>
      push_balance processes exchange residual (port_map (flow_link_identity_of exchange)) (ch_allocations choice) b1 = Inr b')"
  note counts = choose_balance_unresolved [OF choice assms(3)]
  have reason: "ch_failure_reason choice \<noteq> None \<longleftrightarrow> ch_allocations choice = []"
    using choose_balanceD [OF choice assms(3)] by simp
  from cases show ?thesis
  proof (elim disjE conjE exE)
    fix u assume "ch_allocations choice = []" "b' = b1\<lparr>bb_unresolved := bb_unresolved b1 @ [u]\<rparr>"
    with counts reason assms(2) show ?thesis by (simp add: b1 unresolved_counted_def decision_of_def)
  next
    assume "ch_allocations choice \<noteq> []"
      "push_balance processes exchange residual (port_map (flow_link_identity_of exchange)) (ch_allocations choice) b1 = Inr b'"
    with push_balance_stats [OF this(2)] counts reason assms(2) show ?thesis
      by (simp add: b1 unresolved_counted_def decision_of_def)
  qed
qed

lemma compilation_unresolved:
  assumes "compile_signed_flow_balances exchanges space port_map metas processes rule lineage = Inr batch" "machine_volumes metas"
  shows "stats_balanced batch \<and> unresolved_counted batch"
  using assms(1) unfolding compile_signed_flow_balances_def
proof (rule try_fold_invariant)
  show "stats_balanced balance_batch_default \<and> unresolved_counted balance_batch_default"
    by (simp add: stats_balanced_def unresolved_counted_def balance_batch_default_def matching_stats_default_def)
next
  fix b e b' assume "stats_balanced b \<and> unresolved_counted b" "compile_step space port_map metas processes rule lineage b e = Inr b'"
  then show "stats_balanced b' \<and> unresolved_counted b'"
    using assms(2)
    by (auto simp: compile_step_def split: if_splits option.splits dest: compile_exchange_stats compile_exchange_unresolved)
qed

lemma pct_full:
  assumes "0 < n" "n < 9007199254740992"
  shows "pct n n = Fin 100"
proof -
  have "f64_div (Fin (of_int n)) (Fin (of_int n)) = Fin 1"
    using assms(1) by (simp add: f64_div_def f64_is_zero_def)
  moreover have "f64_div (f64_round_half_away (Fin 1 * Fin 10000)) (Fin 100) = Fin 100" by code_simp
  ultimately show ?thesis using assms by (simp add: pct_def)
qed

lemma snapshot_input_simps [simp]:
  "mi_config (snapshot_readiness_input i c l cov d g) = Some c" "mi_coverage (snapshot_readiness_input i c l cov d g) = cov"
  "mi_compiled_graph (snapshot_readiness_input i c l cov d g) = Some g" "mi_payload (snapshot_readiness_input i c l cov d g) = d"
  "mi_policy (snapshot_readiness_input i c l cov d g) = snapshot_readiness_policy c l"
  by (simp_all add: snapshot_readiness_input_def)

lemma snapshot_policy_simps [simp]:
  "mp_min_provider_write_pct (snapshot_readiness_policy c l) = Fin 100" "mp_max_unmatched_no_provider (snapshot_readiness_policy c l) = 0"
  "mp_max_multi_unresolved (snapshot_readiness_policy c l) = 0" "mp_allow_equal_fallback (snapshot_readiness_policy c l) = False"
  "mp_allow_high_singular_risk (snapshot_readiness_policy c l) = False" "mp_run_factorization (snapshot_readiness_policy c l) = True"
  by (simp_all add: snapshot_readiness_policy_def matrix_readiness_policy_default_def default_min_provider_write_pct_def)

lemma coverage_matching: "assemble_coverage graph data risk = Inr coverage \<Longrightarrow>
    cv_matching coverage = matching_coverage_of graph \<and> cv_singular_risk coverage = risk"
  by (auto simp: assemble_coverage_def res_simps)

lemma matching_coverage_simps [simp]:
  "mc_a_write_pct (matching_coverage_of g) = pct (ms_a_input_edges_written (cg_matching_stats g)) (ms_input_edges_total (cg_matching_stats g))"
  "mc_unmatched_no_provider (matching_coverage_of g) = ms_unmatched_no_provider (cg_matching_stats g)"
  "mc_matched_multi_unresolved (matching_coverage_of g) = ms_matched_multi_unresolved (cg_matching_stats g)"
  "mc_matched_multi_fallback_equal (matching_coverage_of g) = ms_matched_multi_fallback_equal (cg_matching_stats g)"
  "mc_input_edges_total (matching_coverage_of g) = ms_input_edges_total (cg_matching_stats g)"
  by (simp_all add: matching_coverage_of_def Let_def)

text \<open>
  Under a closed boundary the provider part of the gate accepts a snapshot exactly when its compilation has a residual
  exchange, resolved all of them and used no equal fallback.
\<close>

lemma closed_gate_iff:
  assumes "stats_balanced batch \<and> unresolved_counted batch" "carries graph batch" "cv_matching coverage = matching_coverage_of graph"
    "bc_technosphere_boundary_policy config = ''closed''" "length (bb_decisions batch) < 9007199254740992"
  shows "provider_meets_policy (snapshot_readiness_input i config has_lcia coverage data graph) \<longleftrightarrow>
    bb_decisions batch \<noteq> [] \<and> bb_unresolved batch = [] \<and> ms_matched_multi_fallback_equal (bb_matching_stats batch) \<le> 0"
proof -
  let ?s = "bb_matching_stats batch" and ?n = "length (bb_decisions batch)"
  have stats: "ms_input_edges_total ?s = int ?n" "ms_a_input_edges_written ?s = int ?n - int (length (bb_unresolved batch))"
    "int (length (bb_unresolved batch)) = ms_unmatched_no_provider ?s + ms_matched_multi_unresolved ?s"
    using assms(1) by (simp_all add: stats_balanced_def unresolved_counted_def Let_def)
  have gaps: "reference_gaps graph = []" if "bb_unresolved batch = []"
    using assms(1,2) that by (auto simp: unresolved_counted_def carries_def reference_gaps_def filter_empty_conv)
  have empty: "pct (ms_a_input_edges_written ?s) (ms_input_edges_total ?s) < Fin 100" if "bb_decisions batch = []"
    using that by (simp add: stats(1) pct_def f64_ops)
  have full: "pct (ms_a_input_edges_written ?s) (ms_input_edges_total ?s) = Fin 100"
    if "bb_decisions batch \<noteq> []" "bb_unresolved batch = []"
    using that assms(5) pct_full [of "int ?n"] by (simp add: stats(1,2))
  show ?thesis (is "?accepts \<longleftrightarrow> ?balanced")
  proof
    assume ?accepts
    then have a: "\<not> pct (ms_a_input_edges_written ?s) (ms_input_edges_total ?s) < Fin 100" "ms_unmatched_no_provider ?s \<le> 0"
      "ms_matched_multi_unresolved ?s \<le> 0" "ms_matched_multi_fallback_equal ?s \<le> 0"
      using assms(2-4) by (simp_all add: provider_meets_policy_def boundary_policy_label_def policy_parse_def requires_closure_def carries_def Let_def)
    from a(2,3) stats(3) have "int (length (bb_unresolved batch)) \<le> 0" by linarith
    then have "bb_unresolved batch = []" by simp
    with a empty show ?balanced by auto
  next
    assume b: ?balanced
    then have "ms_unmatched_no_provider ?s = 0" "ms_matched_multi_unresolved ?s = 0"
      using stats(3) assms(1) by (simp_all add: unresolved_counted_def)
    with b full gaps assms(2-4) show ?accepts
      by (simp add: provider_meets_policy_def boundary_policy_label_def policy_parse_def requires_closure_def carries_def Let_def f64_ops)
  qed
qed

text \<open>
  C12. A snapshot of a compilation under a closed boundary passes the readiness gate exactly when the compilation has a
  residual exchange, left none unresolved and used no equal fallback, the references, allocations, singular risk and
  factors meet the policy, and the factorization with its samples does. Then every decision has providers, every
  balance is written, and no diagonal of \<open>I - A\<close> is within epsilon of zero.
\<close>

theorem closed_snapshot_passes_iff_balanced:
  assumes "compile_signed_flow_balances exchanges space port_map metas processes rule lineage = Inr batch" "machine_volumes metas"
    "carries graph batch" "length (bb_decisions batch) < 9007199254740992"
    "assemble_sparse_payload_with_selection env orders snapshot_id method_has_lcia config graph cutoff eps
       has_lcia impacts observations directional selection = Inr out"
    "bc_technosphere_boundary_policy config = ''closed''" "umfpack_contract (en_lib env)"
  shows "(rr_status (bo_readiness out) = Passed \<longleftrightarrow>
      bb_decisions batch \<noteq> [] \<and> bb_unresolved batch = [] \<and> ms_matched_multi_fallback_equal (bb_matching_stats batch) \<le> 0 \<and>
      graph_meets_policy (snapshot_readiness_input snapshot_id config has_lcia (bo_coverage out) (bo_data out) graph) \<and>
      compute_meets_policy (en_lib env) (en_blake3_hex env) (en_cap env) (en_now env) (bo_data out)
        (snapshot_readiness_policy config has_lcia)) \<and>
    (rr_status (bo_readiness out) = Passed \<longrightarrow>
      list_all (\<lambda>d. cd_failure_reason d = None) (bb_decisions batch) \<and>
      ms_a_balance_edges_written (bb_matching_stats batch) = int (length (bb_decisions batch)) \<and>
      sk_risk_level (cv_singular_risk (bo_coverage out)) \<noteq> ''high'')"
proof -
  let ?input = "snapshot_readiness_input snapshot_id config has_lcia (bo_coverage out) (bo_data out) graph"
  obtain risk where cov: "assemble_coverage graph (bo_data out) risk = Inr (bo_coverage out)"
    and ready: "verify_matrix_readiness (en_lib env) (en_blake3_hex env) (en_cap env) (en_now env) (en_texts env) (en_stamp env)
       ?input = Inr (bo_readiness out)"
    by (rule assembleD [OF assms(5)])
  note inv = compilation_unresolved [OF assms(1,2)]
  note gate = closed_gate_iff [OF inv assms(3) conjunct1 [OF coverage_matching [OF cov]] assms(6,4),
      of snapshot_id has_lcia "bo_data out"]
  obtain report where report: "verify_matrix_readiness (en_lib env) (en_blake3_hex env) (en_cap env) (en_now env) (en_texts env)
      (en_stamp env) ?input = Inr report"
    and status: "rr_status report = (if rr_blockers report = [] then Passed else ReadinessFailed)"
    and met: "rr_blockers report = [] \<longleftrightarrow> provider_meets_policy ?input \<and> graph_meets_policy ?input \<and>
      (mp_run_factorization (mi_policy ?input) \<longrightarrow>
       compute_meets_policy (en_lib env) (en_blake3_hex env) (en_cap env) (en_now env) (mi_payload ?input) (mi_policy ?input))"
    by (rule verify_spec [OF assms(7), of "en_blake3_hex env" "en_cap env" "en_now env" "en_texts env" "en_stamp env" ?input])
  have passed: "rr_status (bo_readiness out) = Passed \<longleftrightarrow> provider_meets_policy ?input \<and> graph_meets_policy ?input \<and>
      compute_meets_policy (en_lib env) (en_blake3_hex env) (en_cap env) (en_now env) (bo_data out) (snapshot_readiness_policy config has_lcia)"
    using report ready status met by auto
  have resolved: "list_all (\<lambda>d. cd_failure_reason d = None) (bb_decisions batch)" "ms_a_balance_edges_written (bb_matching_stats batch) =
      int (length (bb_decisions batch))" if "bb_unresolved batch = []"
    using inv that by (auto simp: unresolved_counted_def stats_balanced_def Let_def filter_empty_conv list_all_iff)
  have "sk_risk_level (cv_singular_risk (bo_coverage out)) \<noteq> ''high''" if "graph_meets_policy ?input"
    using that by (auto simp: graph_meets_policy_def Let_def)
  with passed gate resolved show ?thesis by blast
qed

text \<open>
  C36. A closed snapshot without any residual exchange is refused, although the gate has a warning for it: the share of
  written edges of no edges is zero percent.
\<close>

theorem closed_snapshot_without_residuals_fails:
  assumes "assemble_sparse_payload_with_selection env orders snapshot_id method_has_lcia config graph cutoff eps
       has_lcia impacts observations directional selection = Inr out"
    "bc_technosphere_boundary_policy config = ''closed''" "ms_input_edges_total (cg_matching_stats graph) = 0"
    "umfpack_contract (en_lib env)"
  shows "rr_status (bo_readiness out) = ReadinessFailed"
proof -
  let ?input = "snapshot_readiness_input snapshot_id config has_lcia (bo_coverage out) (bo_data out) graph"
  obtain risk where cov: "assemble_coverage graph (bo_data out) risk = Inr (bo_coverage out)"
    and ready: "verify_matrix_readiness (en_lib env) (en_blake3_hex env) (en_cap env) (en_now env) (en_texts env) (en_stamp env)
       ?input = Inr (bo_readiness out)"
    by (rule assembleD [OF assms(1)])
  have "\<not> provider_meets_policy ?input"
    using conjunct1 [OF coverage_matching [OF cov]] assms(2,3)
    by (simp add: provider_meets_policy_def boundary_policy_label_def policy_parse_def requires_closure_def Let_def pct_def f64_ops)
  then show ?thesis
    using ready
    by (auto intro: verify_spec [OF assms(4), of "en_blake3_hex env" "en_cap env" "en_now env" "en_texts env" "en_stamp env" ?input])
qed

section \<open>Examples\<close>

text \<open>Without LCIA the assembly returns for every graph whose sizes fit and whose biosphere cells do not overflow.\<close>

lemma length_update_le: "length (AList.update k v m) \<le> Suc (length m)"
  by (induction m) auto

lemma length_foldl_le:
  assumes "\<And>m x. length (f m x) \<le> Suc (length m)"
  shows "length (foldl f m xs) \<le> length m + length xs"
proof (induction xs arbitrary: m)
  case (Cons x xs)
  from Cons.IH [of "f m x"] assms [of m x] show ?case by simp
qed simp

lemma length_technosphere_map: "length (technosphere_map edges) \<le> length edges"
  unfolding technosphere_map_def
  by (rule order_trans [OF length_filter_le order_trans [OF length_foldl_le]])
    (simp_all add: add_technosphere_edge_def length_update_le)

lemma length_diagonal_of: "length (diagonal_of ts) \<le> length ts"
  unfolding diagonal_of_def
  by (rule order_trans [OF length_foldl_le]) (simp_all add: length_update_le)

lemma i64_of_usize_le: "int n \<le> i64_max \<Longrightarrow> k \<le> n \<Longrightarrow> i64_of_usize e k = Inr (int k)"
  by (simp add: i64_of_usize_def)

lemma singular_risk_total:
  assumes "int n \<le> i64_max" "length a_map \<le> n" "length ts \<le> n"
  obtains risk where "singular_risk_of cutoff eps k a_map ts = Inr risk"
proof -
  have "count_at_cutoff cutoff (filter P a_map) \<le> n" for P
    unfolding count_at_cutoff_def using assms(2) by (meson length_filter_le order_trans)
  moreover have "count_at_cutoff cutoff (diagonal_of ts) \<le> n"
    unfolding count_at_cutoff_def using assms(3) length_diagonal_of [of ts] by (meson length_filter_le order_trans)
  ultimately show thesis
    using that by (cases "m_diagonal eps (diagonal_of ts) k") (simp add: singular_risk_of_def Let_def i64_of_usize_le [OF assms(1)])
qed

lemma coverage_total:
  assumes "int n \<le> i64_max" "length (technosphere_entries data) \<le> n" "length (biosphere_entries data) \<le> n"
    "length (characterization_factors data) \<le> n"
  obtains coverage where "assemble_coverage graph data risk = Inr coverage"
proof -
  have "length (filter P (technosphere_entries data)) \<le> n" for P
    using assms(2) by (meson length_filter_le order_trans)
  then show thesis
    using assms(2-4) that by (simp add: assemble_coverage_def matrix_scale_of_def Let_def i64_of_usize_le [OF assms(1)])
qed

lemma assembly_without_lcia_total:
  assumes "umfpack_contract (en_lib env)" "orders_permute orders"
    "int (length (cg_processes graph)) \<le> i32_max" "int (length (cg_flows graph)) \<le> i32_max"
    "int n \<le> i64_max" "length (cg_technosphere_edges graph) \<le> n"
    "biosphere_map False (cg_biosphere_edges graph) = Inr b_map" "length b_map \<le> n"
  obtains out where "assemble_sparse_payload_with_selection env orders snapshot_id False config graph cutoff eps
    False impacts observations False selection = Inr out"
proof -
  define a where "a = technosphere_map (cg_technosphere_edges graph)"
  define t where "t = cells_to_triplets (mo_a_cells orders a)"
  define b where "b = cells_to_triplets (mo_b_cells orders b_map)"
  define data where "data = \<lparr>model_version = snapshot_id, process_count = int (length (cg_processes graph)),
    flow_count = int (length (cg_flows graph)), impact_count = 1, technosphere_entries = t, biosphere_entries = b,
    characterization_factors = []\<rparr>"
  have a: "length a \<le> n" unfolding a_def using length_technosphere_map assms(6) by (rule order_trans)
  have "length (mo_a_cells orders m) = length m" "length (mo_b_cells orders m) = length m" for m
    by (rule mset_eq_length, rule orders_permuteD [OF assms(2)])+
  then have "length t = length a" "length b = length b_map" by (simp_all add: t_def b_def cells_to_triplets_def)
  then have sizes: "length t \<le> n" "length b \<le> n" using a assms(8) by simp_all
  obtain risk where risk: "singular_risk_of cutoff eps (length (cg_processes graph)) a t = Inr risk"
    by (rule singular_risk_total [OF assms(5) a sizes(1)])
  have "assemble_matrices orders snapshot_id graph cutoff eps False impacts False factors = Inr (data, risk)" for factors
    using assms(3,4,7) risk
    by (simp add: assemble_matrices_def i32_of_usize_def Let_def data_def a_def [symmetric] t_def [symmetric] b_def)
  moreover obtain coverage where "assemble_coverage graph data risk = Inr coverage"
    using coverage_total [OF assms(5), of data graph risk] sizes by (auto simp: data_def)
  moreover obtain report where "verify_matrix_readiness (en_lib env) (en_blake3_hex env) (en_cap env) (en_now env) (en_texts env)
      (en_stamp env) (snapshot_readiness_input snapshot_id config False coverage data graph) = Inr report"
    by (rule verify_spec [OF assms(1)])
  ultimately show thesis
    using that by (simp add: assemble_sparse_payload_with_selection_def build_snapshot_impact_map_def Let_def)
qed

definition example_orders :: map_orders where
  "example_orders = \<lparr>mo_a_cells = rev, mo_b_cells = rev, mo_columns = rev\<rparr>"

definition example_env :: assembly_env where
  "example_env = \<lparr>en_lib = demo_lib, en_blake3_hex = demo_hash, en_cap = id, en_now = (\<lambda>i. i), en_texts = example_texts,
     en_stamp = ''now'', en_gap_json = (\<lambda>_. ''r''), en_sha256_hex = id\<rparr>"

definition example_config :: "unit snapshot_build_config" where
  "example_config =
     \<lparr>bc_process_states = ''100'', bc_include_user_id = None, bc_data_scope = None, bc_scope_manifest_sha256 = None,
      bc_scope_closure_binding = None, bc_lcia_method_factor_source = None, bc_selection_mode = FilteredLibrary,
      bc_request_roots = [], bc_process_limit = 0, bc_provider_rule = ''split_equal'',
      bc_provider_candidate_eligibility_mode = '''', bc_provider_lineage_policy = '''', bc_provider_lineage_source_sha256 = None,
      bc_reference_normalization_mode = '''', bc_allocation_fraction_mode = '''', bc_allocation_semantics_version = '''',
      bc_link_semantics_version = '''', bc_technosphere_boundary_policy = ''closed'', bc_flow_identity_policy = '''',
      bc_source_closure_policy = '''', bc_source_reference_policy = '''', bc_biosphere_sign_mode = '''',
      bc_self_loop_cutoff = Fin 1, bc_singular_eps = Fin (1 / 1024), bc_has_lcia = False, bc_artifact_purpose = None,
      bc_root_dependency_fingerprint = None, bc_root_revision_checksum = None, bc_method_id = None, bc_method_version = None\<rparr>"

definition example_graph :: "compiled_balance_batch \<Rightarrow> unit compiled_graph" where
  "example_graph batch =
     \<lparr>cg_processes = example_processes,
      cg_flows = [\<lparr>cf_flow_idx = 0, cf_flow_id = ''co2'', cf_flow_version = ''1'', cf_kind = ElementaryKind, cf_space = Biosphere,
        cf_source_type = SourceElementary\<rparr>],
      cg_reference_ports = [], cg_balance_resolutions = bb_resolutions batch, cg_unresolved_balances = bb_unresolved batch,
      cg_provider_outputs = [], cg_provider_decisions = bb_decisions batch, cg_technosphere_edges = bb_technosphere_edges batch,
      cg_biosphere_edges = [\<lparr>be_process_idx = 0, be_flow_idx = 0, be_amount = Fin 1, be_process_partition = Private\<rparr>],
      cg_reference_stats = \<lparr>st_missing_reference = 0, st_invalid_reference = 0, st_normalized_processes = 3\<rparr>,
      cg_allocation_stats = \<lparr>st_exchange_total = 0, st_fraction_present_count = 0, st_fraction_missing_count = 0,
        st_fraction_invalid_count = 0, st_legacy_empty_allocation_as_undeclared_count = 0,
        st_legacy_single_output_target_inferred_count = 0, st_legacy_single_reference_target_inferred_count = 0\<rparr>,
      cg_matching_stats = bb_matching_stats batch, cg_release_evidence = None\<rparr>"

definition example_edge :: compiled_technosphere_edge where
  "example_edge = \<lparr>te_provider_idx = 1, te_consumer_idx = 1, te_flow_id = ''f'', te_amount = Fin 1, te_provider_partition = Public,
     te_consumer_partition = Public, te_partition = PublicToPublic\<rparr>"

lemma example_orders_permute: "orders_permute example_orders"
  by (simp add: orders_permute_def example_orders_def)

lemma example_biosphere: "biosphere_map False (cg_biosphere_edges (example_graph batch)) = Inr [((0, 0), Fin 1)]"
proof -
  have "biosphere_map False [\<lparr>be_process_idx = 0, be_flow_idx = 0, be_amount = Fin 1, be_process_partition = Private\<rparr>] =
    Inr [((0, 0), Fin 1)]" by code_simp
  then show ?thesis by (simp add: example_graph_def)
qed

lemma example_assembly:
  assumes "length (bb_technosphere_edges batch) \<le> 2"
  obtains out where "assemble_sparse_payload_with_selection example_env example_orders ''s'' False example_config (example_graph batch)
    (Fin 1) (Fin (1 / 1024)) False [] [] False selection = Inr out"
proof (rule assembly_without_lcia_total [where n = 2, OF _ example_orders_permute _ _ _ _ example_biosphere [of batch]])
  show "umfpack_contract (en_lib example_env)" by (simp add: example_env_def demo_lib_contract)
qed (use assms that in \<open>simp_all add: example_graph_def example_processes_def i32_max_def i64_max_def\<close>)

text \<open>One process consumes its own product: its diagonal of \<open>I - A\<close> is zero and the risk is high.\<close>

abbreviation example_loop :: compiled_balance_batch where
  "example_loop \<equiv> balance_batch_default\<lparr>bb_technosphere_edges := [example_edge]\<rparr>"

lemma example_loop_assembly:
  obtains data risk where "assemble_matrices example_orders ''s'' (example_graph example_loop) (Fin 1) (Fin (1 / 1024)) False [] False [] =
    Inr (data, risk)"
proof -
  obtain out where "assemble_sparse_payload_with_selection example_env example_orders ''s'' False example_config
      (example_graph example_loop) (Fin 1) (Fin (1 / 1024)) False [] [] False
      \<lparr>af_factors_by_impact = [], af_active_flow_ids = [], af_direction_by_flow = []\<rparr> = Inr out"
    by (rule example_assembly [of example_loop]) simp_all
  then show thesis by (rule assembleD) (use that in simp)
qed

lemma example_loop_graph: "cg_technosphere_edges (example_graph example_loop) = [example_edge]"
    "length (cg_processes (example_graph example_loop)) = 3" "graph_in_range (example_graph example_loop)"
  by (simp_all add: example_graph_def example_processes_def graph_in_range_def example_edge_def Let_def)

theorem assembled_matrices_sound_witness:
  "\<exists>data risk. assemble_matrices example_orders ''s'' (example_graph example_loop) (Fin 1) (Fin (1 / 1024)) False [] False [] =
      Inr (data, risk) \<and> map_of (cells_of (technosphere_entries data)) (1, 1) = Some (Fin 1) \<and>
    map_of (cells_of (technosphere_entries data)) (0, 1) = None"
proof (rule example_loop_assembly)
  fix data risk
  assume m: "assemble_matrices example_orders ''s'' (example_graph example_loop) (Fin 1) (Fin (1 / 1024)) False [] False [] = Inr (data, risk)"
  have "cell_edges [example_edge] (1, 1) = [example_edge]" "cell_edges [example_edge] (0, 1) = []" "cell_amount [example_edge] (1, 1) = Fin 1"
    "F64_EPSILON < Fin 1"
    by code_simp+
  with assembled_matrices_sound [OF m example_orders_permute example_loop_graph(3), of "(1, 1)"]
    assembled_matrices_sound [OF m example_orders_permute example_loop_graph(3), of "(0, 1)"] m
  show ?thesis by (simp add: example_loop_graph f64_ops)
qed

theorem singular_risk_is_diagonal_witness:
  "\<exists>data risk. assemble_matrices example_orders ''s'' (example_graph example_loop) (Fin 1) (Fin (1 / 1024)) False [] False [] =
      Inr (data, risk) \<and> sk_m_zero_diagonal_count risk = 1 \<and> sk_risk_level risk = ''high''"
proof (rule example_loop_assembly)
  fix data risk
  assume m: "assemble_matrices example_orders ''s'' (example_graph example_loop) (Fin 1) (Fin (1 / 1024)) False [] False [] = Inr (data, risk)"
  have "filter (\<lambda>i. \<bar>Fin 1 - a_diagonal [example_edge] (int i)\<bar> \<le> Fin (1 / 1024)) [0..<3] = [1]"
    "list_ex (\<lambda>i. \<bar>Fin 1 - a_diagonal [example_edge] (int i)\<bar> \<le> Fin (1 / 1024)) [0..<3]"
    by code_simp+
  with singular_risk_is_diagonal [OF m example_orders_permute] m show ?thesis by (simp add: example_loop_graph)
qed

lemma example_one_decision:
  assumes "example_compilation = Inr batch"
  shows "length (bb_decisions batch) = 1"
proof -
  have "compile_exchange example_port_map example_metas example_processes SplitEqual empty_lineage balance_batch_default
      example_exchange (Fin (- 2)) = Inr batch"
    using assms by (simp add: example_compilation_def compile_signed_flow_balances_def compile_step_def example_residual res_simps)
  then show ?thesis by (rule compile_exchangeD) (auto simp: balance_batch_default_def dest: push_balance_stats)
qed

theorem closed_snapshot_passes_iff_balanced_witness:
  "\<exists>batch out. example_compilation = Inr batch \<and>
     assemble_sparse_payload_with_selection example_env example_orders ''s'' False example_config (example_graph batch)
       (Fin 1) (Fin (1 / 1024)) False [] [] False \<lparr>af_factors_by_impact = [], af_active_flow_ids = [], af_direction_by_flow = []\<rparr> = Inr out \<and>
     (rr_status (bo_readiness out) = Passed \<longrightarrow>
       list_all (\<lambda>d. cd_failure_reason d = None) (bb_decisions batch) \<and> sk_risk_level (cv_singular_risk (bo_coverage out)) \<noteq> ''high'')"
proof (rule example_compilation_ok)
  fix batch assume b: "example_compilation = Inr batch" "map te_amount (bb_technosphere_edges batch) = [Fin 1, Fin (1 / 4)]"
  have "length (bb_technosphere_edges batch) \<le> 2" using arg_cong [OF b(2), of length] by simp
  then obtain out where out: "assemble_sparse_payload_with_selection example_env example_orders ''s'' False example_config
      (example_graph batch) (Fin 1) (Fin (1 / 1024)) False [] [] False
      \<lparr>af_factors_by_impact = [], af_active_flow_ids = [], af_direction_by_flow = []\<rparr> = Inr out"
    by (rule example_assembly)
  have "length (bb_decisions batch) = 1" by (rule example_one_decision [OF b(1)])
  with closed_snapshot_passes_iff_balanced [OF b(1) [unfolded example_compilation_def] example_volumes _ _ out]
  show ?thesis using b out demo_lib_contract by (auto simp: carries_def example_graph_def example_config_def example_env_def)
qed

theorem closed_snapshot_without_residuals_fails_witness:
  "\<exists>out. assemble_sparse_payload_with_selection example_env example_orders ''s'' False example_config
       (example_graph balance_batch_default) (Fin 1) (Fin (1 / 1024)) False [] [] False
       \<lparr>af_factors_by_impact = [], af_active_flow_ids = [], af_direction_by_flow = []\<rparr> = Inr out \<and>
     rr_status (bo_readiness out) = ReadinessFailed"
proof -
  obtain out where out: "assemble_sparse_payload_with_selection example_env example_orders ''s'' False example_config
      (example_graph balance_batch_default) (Fin 1) (Fin (1 / 1024)) False [] [] False
      \<lparr>af_factors_by_impact = [], af_active_flow_ids = [], af_direction_by_flow = []\<rparr> = Inr out"
    by (rule example_assembly [of balance_batch_default]) (simp_all add: balance_batch_default_def)
  have "bc_technosphere_boundary_policy example_config = ''closed''" "ms_input_edges_total (cg_matching_stats (example_graph balance_batch_default)) = 0"
    "umfpack_contract (en_lib example_env)"
    by (simp_all add: example_config_def example_graph_def balance_batch_default_def matching_stats_default_def example_env_def demo_lib_contract)
  from closed_snapshot_without_residuals_fails [OF out this] out show ?thesis by blast
qed

end
