(* ===== verification/Tidas_Allocation.thy ===== *)
theory Tidas_Allocation
  imports Signed_Flow Reference_Extraction
begin

text \<open>
  The calculation semantics of a process data set in \<open>crates/solver-worker/src/tidas_process_semantics.rs\<close>: the
  share of an exchange that is allocated to the quantitative reference, and the amount that is calculated with.
  Numbers in strings are read as the standard library does; the value of a JSON number and the parser of UUIDs
  belong to other packages and are arguments. Theorem: a declared allocation is accepted exactly when its
  entries form a closed vector of shares over known exchanges.
\<close>

section \<open>Reading numbers\<close>

text \<open>
  \<open>str::parse::<f64>\<close>: an optional sign, then \<open>inf\<close>, \<open>infinity\<close>, \<open>nan\<close> or a decimal number with an optional
  fraction and exponent, rounded to the nearest value.
\<close>

definition digits_value :: "string \<Rightarrow> nat" where
  "digits_value s = foldl (\<lambda>n c. 10 * n + (of_char c - 48)) 0 s"

definition split_sign :: "string \<Rightarrow> bool \<times> string" where
  "split_sign s =
     (case s of
        [] \<Rightarrow> (False, [])
      | c # rest \<Rightarrow> if c = CHR ''-'' then (True, rest) else if c = CHR ''+'' then (False, rest) else (False, s))"

definition parse_digits :: "string \<Rightarrow> int option" where
  "parse_digits s =
     (case split_sign s of (negative, body) \<Rightarrow>
        if body = [] \<or> \<not> list_all is_ascii_digit body then None
        else Some (if negative then - int (digits_value body) else int (digits_value body)))"

definition parse_decimal :: "string \<Rightarrow> rat option" where
  "parse_decimal s =
     (let whole = takeWhile is_ascii_digit s;
          rest = dropWhile is_ascii_digit s;
          point = (rest \<noteq> [] \<and> hd rest = CHR ''.'');
          fraction = (if point then takeWhile is_ascii_digit (tl rest) else []);
          rest = (if point then dropWhile is_ascii_digit (tl rest) else rest);
          mantissa = of_nat (digits_value (whole @ fraction)) / 10 ^ length fraction
      in if whole = [] \<and> fraction = [] then None
         else if rest = [] then Some mantissa
         else if hd rest = CHR ''e'' \<or> hd rest = CHR ''E''
         then map_option (\<lambda>e. mantissa * 10 powi e) (parse_digits (tl rest))
         else None)"

definition parse_f64 :: "string \<Rightarrow> f64 option" where
  "parse_f64 s =
     (case split_sign s of (negative, body) \<Rightarrow>
        map_option (\<lambda>v. if negative then - v else v)
          (if eq_ignore_ascii_case body ''inf'' \<or> eq_ignore_ascii_case body ''infinity'' then Some PosInf
           else if eq_ignore_ascii_case body ''nan'' then Some NaN
           else map_option f64_round (parse_decimal body)))"

text \<open>\<open>str::parse::<i32>\<close>.\<close>

definition parse_i32 :: "string \<Rightarrow> i32 option" where
  "parse_i32 s = (case parse_digits s of None \<Rightarrow> None
     | Some n \<Rightarrow> if - i32_max - 1 \<le> n \<and> n \<le> i32_max then Some n else None)"

lemma parse_f64_wf: "parse_f64 s = Some v \<Longrightarrow> f64_wf v"
proof -
  have "f64_wf (- f64_round q)" for q
    using f64_round_wf [of q] by (cases "f64_round q") (auto simp: f64_ops)
  then show "parse_f64 s = Some v \<Longrightarrow> f64_wf v"
    by (auto simp: parse_f64_def f64_ops split: prod.splits if_splits)
qed

section \<open>Reading JSON\<close>

text \<open>\<open>Value::get\<close> with a key, along a path, and \<open>Value::as_object\<close>.\<close>

definition value_get :: "string \<Rightarrow> json \<Rightarrow> json option" where
  "value_get key v = (case v of JObject entries \<Rightarrow> json_get key entries | _ \<Rightarrow> None)"

definition value_at :: "string list \<Rightarrow> json \<Rightarrow> json option" where
  "value_at path v = foldl (\<lambda>current key. Option.bind current (value_get key)) (Some v) path"

definition as_object :: "json \<Rightarrow> (string \<times> json) list option" where
  "as_object v = (case v of JObject entries \<Rightarrow> Some entries | _ \<Rightarrow> None)"

text \<open>\<open>as_str().map(str::trim).filter(|text| !text.is_empty())\<close>.\<close>

definition non_empty_text :: "json \<Rightarrow> string option" where
  "non_empty_text v =
     Option.bind (map_option text_trim (as_str v)) (\<lambda>text. if text = [] then None else Some text)"

text \<open>What other packages read: \<open>Uuid::parse_str\<close>, \<open>Number::as_f64\<close> and \<open>Number::as_i64\<close> of a JSON number.\<close>

record readers =
  rd_uuid :: "string \<Rightarrow> uuid option"
  rd_f64 :: "string \<Rightarrow> f64 option"
  rd_i64 :: "string \<Rightarrow> i64 option"

section \<open>Allocation\<close>

datatype percentage_error =
    PercentageEmpty
  | PercentSign
  | NotNumeric
  | NumberNotRepresentable
  | NotStringOrNumber
  | PercentageNotFinite
  | PercentageOutOfRange
  | NotFullAllocation

datatype allocation_error =
    EmptyReferenceId
  | AllocationsNotObject
  | AllocationNotPresent
  | AllocationEmptyArray
  | AllocationNotObjectOrArray
  | EntryNotObject usize
  | TargetlessNotInferable
  | FractionNotPresent usize
  | FractionInvalid usize percentage_error
  | TargetMissing usize
  | UnknownTarget usize string
  | DuplicateTarget string
  | SumNotFinite
  | SumNotClosed f64

datatype tidas_allocation_resolution =
    Undeclared
  | LegacyEmptyUndeclared
  | ExplicitFraction f64
  | LegacyInferredReference f64
  | SparseZeroFraction

definition TIDAS_ALLOCATION_SEMANTICS_VERSION :: string where
  "TIDAS_ALLOCATION_SEMANTICS_VERSION = ''tidas-reference-allocation-v3''"

definition SIGNED_FLOW_LINK_SEMANTICS_VERSION :: string where
  "SIGNED_FLOW_LINK_SEMANTICS_VERSION = ''signed-flow-balance-v1''"

definition ALLOCATION_SUM_TOLERANCE :: f64 where
  "ALLOCATION_SUM_TOLERANCE = f64_lit (10000001 / 10 ^ 12)"

definition preferred_calculation_amount_value :: "json \<Rightarrow> json option" where
  "preferred_calculation_amount_value exchange =
     (case value_get ''resultingAmount'' exchange of
        Some v \<Rightarrow> Some v
      | None \<Rightarrow> (case value_get ''meanAmount'' exchange of Some v \<Rightarrow> Some v | None \<Rightarrow> value_get ''meanValue'' exchange))"

definition percentage_of :: "readers \<Rightarrow> json \<Rightarrow> percentage_error + f64" where
  "percentage_of rd v =
     (case v of
        JString text \<Rightarrow>
          let trimmed = text_trim text in
          if trimmed = [] then Inl PercentageEmpty
          else if CHR ''%'' \<in> set trimmed then Inl PercentSign
          else ok_or NotNumeric (parse_f64 trimmed)
      | JNumber n \<Rightarrow> ok_or NumberNotRepresentable (rd_f64 rd n)
      | _ \<Rightarrow> Inl NotStringOrNumber)"

definition parse_tidas_perc :: "readers \<Rightarrow> json \<Rightarrow> percentage_error + f64" where
  "parse_tidas_perc rd v =
     res_bind (percentage_of rd v) (\<lambda>percentage.
     res_bind (ensure (is_finite percentage) PercentageNotFinite) (\<lambda>_.
     res_bind (ensure (Fin 0 \<le> percentage \<and> percentage \<le> Fin 100) PercentageOutOfRange) (\<lambda>_.
     Inr (f64_div percentage (Fin 100)))))"

definition parse_legacy_targetless_full_fraction :: "readers \<Rightarrow> json \<Rightarrow> percentage_error + f64" where
  "parse_legacy_targetless_full_fraction rd v =
     (if map_option text_trim (as_str v) = Some ''100%'' then Inr (Fin 1)
      else res_bind (parse_tidas_perc rd v) (\<lambda>fraction.
           if fraction \<noteq> Fin 1 then Inl NotFullAllocation else Inr (Fin 1)))"

definition allocation_entries :: "json \<Rightarrow> allocation_error + json list" where
  "allocation_entries allocation =
     (case allocation of
        JObject _ \<Rightarrow> Inr [allocation]
      | JArray items \<Rightarrow> if items \<noteq> [] then Inr items else Inl AllocationEmptyArray
      | _ \<Rightarrow> Inl AllocationNotObjectOrArray)"

text \<open>The branch of a single entry without a target; \<open>None\<close> falls through to the vector.\<close>

definition targetless_resolution ::
  "readers \<Rightarrow> string \<Rightarrow> string list \<Rightarrow> usize \<Rightarrow> json list \<Rightarrow> allocation_error + tidas_allocation_resolution option" where
  "targetless_resolution rd reference valid_ids reference_count items =
     (case items of
        [item] \<Rightarrow>
          res_bind (ok_or (EntryNotObject 0) (as_object item)) (\<lambda>entry.
          if json_get ''@internalReferenceToCoProduct'' entry \<noteq> None then Inr None
          else if reference_count \<noteq> 1 \<or> reference \<notin> set valid_ids then Inl TargetlessNotInferable
          else res_bind (ok_or (FractionNotPresent 0) (json_get ''@allocatedFraction'' entry)) (\<lambda>raw.
               res_bind (map_err (FractionInvalid 0) (parse_legacy_targetless_full_fraction rd raw)) (\<lambda>fraction.
               Inr (Some (LegacyInferredReference fraction)))))
      | _ \<Rightarrow> Inr None)"

record allocation_state =
  as_seen_targets :: "string list"
  as_selected_fraction :: "f64 option"
  as_fraction_sum :: f64

definition allocation_target :: "(string \<times> json) list \<Rightarrow> string option" where
  "allocation_target entry = Option.bind (json_get ''@internalReferenceToCoProduct'' entry) non_empty_text"

definition allocation_step ::
  "readers \<Rightarrow> string \<Rightarrow> string list \<Rightarrow> allocation_state \<Rightarrow> nat \<times> json \<Rightarrow> allocation_error + allocation_state" where
  "allocation_step rd reference valid_ids st indexed =
     (case indexed of (index, item) \<Rightarrow>
        res_bind (ok_or (EntryNotObject index) (as_object item)) (\<lambda>entry.
        res_bind (ok_or (TargetMissing index) (allocation_target entry)) (\<lambda>target.
        if target \<notin> set valid_ids then Inl (UnknownTarget index target)
        else if target \<in> set (as_seen_targets st) then Inl (DuplicateTarget target)
        else
        res_bind (ok_or (FractionNotPresent index) (json_get ''@allocatedFraction'' entry)) (\<lambda>raw.
        res_bind (map_err (FractionInvalid index) (parse_tidas_perc rd raw)) (\<lambda>fraction.
        let fraction_sum = as_fraction_sum st + fraction in
        if \<not> is_finite fraction_sum then Inl SumNotFinite
        else Inr \<lparr>as_seen_targets = target # as_seen_targets st,
                  as_selected_fraction = (if target = reference then Some fraction else as_selected_fraction st),
                  as_fraction_sum = fraction_sum\<rparr>)))))"

definition allocation_state_new :: allocation_state where
  "allocation_state_new = \<lparr>as_seen_targets = [], as_selected_fraction = None, as_fraction_sum = Fin 0\<rparr>"

definition vector_resolution ::
  "readers \<Rightarrow> string \<Rightarrow> string list \<Rightarrow> json list \<Rightarrow> allocation_error + tidas_allocation_resolution" where
  "vector_resolution rd reference valid_ids items =
     res_bind (try_fold (allocation_step rd reference valid_ids) allocation_state_new (enumerate 0 items)) (\<lambda>st.
     if ALLOCATION_SUM_TOLERANCE < \<bar>as_fraction_sum st - Fin 1\<bar> then Inl (SumNotClosed (as_fraction_sum st * Fin 100))
     else Inr (case as_selected_fraction st of None \<Rightarrow> SparseZeroFraction | Some fraction \<Rightarrow> ExplicitFraction fraction))"

definition resolve_tidas_exchange_allocation ::
  "readers \<Rightarrow> json \<Rightarrow> string \<Rightarrow> string list \<Rightarrow> usize \<Rightarrow> allocation_error + tidas_allocation_resolution" where
  "resolve_tidas_exchange_allocation rd exchange reference_internal_id valid_ids reference_count =
     (let reference = text_trim reference_internal_id in
      if reference = [] then Inl EmptyReferenceId
      else case value_get ''allocations'' exchange of
        None \<Rightarrow> Inr Undeclared
      | Some v \<Rightarrow>
          res_bind (ok_or AllocationsNotObject (as_object v)) (\<lambda>allocations.
          res_bind (ok_or AllocationNotPresent (json_get ''allocation'' allocations)) (\<lambda>allocation.
          if as_object allocation = Some [] then Inr LegacyEmptyUndeclared
          else
          res_bind (allocation_entries allocation) (\<lambda>items.
          res_bind (targetless_resolution rd reference valid_ids reference_count items) (\<lambda>inferred.
          case inferred of Some resolution \<Rightarrow> Inr resolution | None \<Rightarrow> vector_resolution rd reference valid_ids items)))))"

section \<open>Shares\<close>

text \<open>A parsed percentage is a share between zero and one.\<close>

definition share :: "f64 \<Rightarrow> bool" where
  "share v = (is_finite v \<and> f64_wf v \<and> Fin 0 \<le> v \<and> v \<le> Fin 1)"

lemma share_0_1 [simp]: "share (Fin 0)" "share (Fin 1)"
  by (simp_all add: share_def f64_ops f64_le_simps representable_of_int [of 1, simplified])

lemma percentage_share:
  assumes "parse_tidas_perc rd v = Inr fraction"
  shows "share fraction"
proof -
  from assms obtain p where p: "is_finite p" "Fin 0 \<le> p" "p \<le> Fin 100" "fraction = f64_div p (Fin 100)"
    by (auto simp: parse_tidas_perc_def res_simps)
  then have "f64_nonneg p" by (cases p) (auto simp: f64_nonneg_def f64_ops)
  with p f64_share [of p "Fin 100"] show ?thesis by (simp add: share_def f64_ops)
qed

lemma legacy_fraction: "parse_legacy_targetless_full_fraction rd v = Inr fraction \<Longrightarrow> fraction = Fin 1"
  by (auto simp: parse_legacy_targetless_full_fraction_def res_simps split: if_splits)

section \<open>The sum of shares\<close>

text \<open>
  A running sum of shares stays below \<open>2\<^sup>60\<close>, where adding one rounds back: the check for a sum that is not finite
  never fails.
\<close>

definition bounded_sum :: "f64 \<Rightarrow> bool" where
  "bounded_sum v = (is_finite v \<and> f64_nonneg v \<and> f64_val v \<le> 2 ^ 60)"

lemma round_above_bound: "f64_round (2 ^ 60 + 1) = Fin (2 ^ 60)"
  by code_simp

lemma share_values: "share v \<Longrightarrow> f64_nonneg v \<and> 0 \<le> f64_val v \<and> f64_val v \<le> 1"
  by (cases v) (auto simp: share_def f64_nonneg_def f64_ops f64_le_simps)

lemma bounded_round:
  assumes "0 \<le> q" "q \<le> 2 ^ 60 + 1"
  shows "bounded_sum (f64_round q)"
proof -
  have "f64_le (f64_round q) (Fin (2 ^ 60))" using f64_round_mono [OF assms] by (simp only: round_above_bound)
  then show ?thesis using f64_round_nonneg [OF assms(1)]
    by (cases "f64_round q") (auto simp: bounded_sum_def f64_le_simps f64_le_def f64_eq_def f64_is_zero_def)
qed

lemma bounded_sum_step:
  assumes "bounded_sum s" "share v"
  shows "bounded_sum (s + v)"
proof -
  have v: "f64_nonneg v" "0 \<le> f64_val v" "f64_val v \<le> 1" "is_finite v"
    using share_values [OF assms(2)] assms(2) by (simp_all add: share_def)
  have "0 \<le> f64_val s" using assms(1) by (cases s) (auto simp: bounded_sum_def)
  then have "bounded_sum (f64_round (f64_val s + f64_val v))"
    using v assms(1) by (intro bounded_round) (auto simp: bounded_sum_def)
  with assms(1) v show ?thesis
    by (cases s; cases v) (auto simp: f64_ops f64_add_def bounded_sum_def)
qed

section \<open>Closed vectors\<close>

definition ok_option :: "'e + 'a \<Rightarrow> 'a option" where
  "ok_option r = (case r of Inl _ \<Rightarrow> None | Inr v \<Rightarrow> Some v)"

lemma ok_option_eq_Some [res_simps]: "ok_option r = Some v \<longleftrightarrow> r = Inr v"
  by (cases r) (simp_all add: ok_option_def)

text \<open>The share that an entry declares, the abstract vector, and when it is closed.\<close>

definition entry_share :: "readers \<Rightarrow> json \<Rightarrow> (string \<times> f64) option" where
  "entry_share rd item =
     Option.bind (as_object item) (\<lambda>entry.
     Option.bind (allocation_target entry) (\<lambda>target.
     Option.bind (json_get ''@allocatedFraction'' entry) (\<lambda>raw.
     map_option (Pair target) (ok_option (parse_tidas_perc rd raw)))))"

definition closed_vector :: "string list \<Rightarrow> (string \<times> f64) list \<Rightarrow> bool" where
  "closed_vector valid_ids shares =
     (distinct (map fst shares) \<and> set (map fst shares) \<subseteq> set valid_ids \<and>
      \<not> ALLOCATION_SUM_TOLERANCE < \<bar>foldl (+) (Fin 0) (map snd shares) - Fin 1\<bar>)"

lemma entry_share_iff:
  "entry_share rd item = Some (target, fraction) \<longleftrightarrow>
     (\<exists>entry raw. as_object item = Some entry \<and> allocation_target entry = Some target \<and>
        json_get ''@allocatedFraction'' entry = Some raw \<and> parse_tidas_perc rd raw = Inr fraction)"
  by (auto simp: entry_share_def bind_eq_Some_conv res_simps)

lemma entry_share_range: "entry_share rd item = Some (target, fraction) \<Longrightarrow> share fraction"
  by (auto simp: entry_share_iff percentage_share)

lemma allocation_step_iff:
  assumes "bounded_sum (as_fraction_sum st)"
  shows "allocation_step rd reference valid_ids st (index, item) = Inr st' \<longleftrightarrow>
    (\<exists>target fraction. entry_share rd item = Some (target, fraction) \<and> target \<in> set valid_ids \<and>
       target \<notin> set (as_seen_targets st) \<and>
       st' = \<lparr>as_seen_targets = target # as_seen_targets st,
              as_selected_fraction = (if target = reference then Some fraction else as_selected_fraction st),
              as_fraction_sum = as_fraction_sum st + fraction\<rparr>)"
proof -
  have "is_finite (as_fraction_sum st + fraction)" if "parse_tidas_perc rd raw = Inr fraction" for raw fraction
    using bounded_sum_step [OF assms percentage_share [OF that]] by (simp add: bounded_sum_def)
  then show ?thesis
    by (fastforce simp: allocation_step_def entry_share_iff res_simps Let_def split: if_splits)
qed

definition selected :: "string \<Rightarrow> f64 option \<Rightarrow> (string \<times> f64) list \<Rightarrow> f64 option" where
  "selected reference before shares = (case map_of shares reference of None \<Rightarrow> before | Some fraction \<Rightarrow> Some fraction)"

lemma selected_Cons:
  "target \<notin> fst ` set shares \<Longrightarrow> selected reference before ((target, fraction) # shares) =
     selected reference (if target = reference then Some fraction else before) shares"
  by (auto simp: selected_def map_of_eq_None_iff [symmetric] split: option.split)

lemma allocation_fold_iff:
  assumes "bounded_sum (as_fraction_sum st)"
  shows "try_fold (allocation_step rd reference valid_ids) st (enumerate k items) = Inr st' \<longleftrightarrow>
    (\<exists>shares. map (entry_share rd) items = map Some shares \<and> distinct (map fst shares) \<and>
       set (map fst shares) \<subseteq> set valid_ids - set (as_seen_targets st) \<and>
       st' = \<lparr>as_seen_targets = rev (map fst shares) @ as_seen_targets st,
              as_selected_fraction = selected reference (as_selected_fraction st) shares,
              as_fraction_sum = foldl (+) (as_fraction_sum st) (map snd shares)\<rparr>)"
  using assms
proof (induction items arbitrary: st k)
  case Nil
  then show ?case by (auto simp: selected_def)
next
  case (Cons item items)
  have next_sum: "bounded_sum (as_fraction_sum st + fraction)" if "entry_share rd item = Some (target, fraction)" for target fraction
    using that Cons.prems entry_share_range bounded_sum_step by blast
  show ?case (is "?lhs \<longleftrightarrow> ?rhs")
  proof
    assume ?lhs
    then obtain target fraction where e: "entry_share rd item = Some (target, fraction)" "target \<in> set valid_ids"
        "target \<notin> set (as_seen_targets st)"
      and rest: "try_fold (allocation_step rd reference valid_ids)
         \<lparr>as_seen_targets = target # as_seen_targets st,
          as_selected_fraction = (if target = reference then Some fraction else as_selected_fraction st),
          as_fraction_sum = as_fraction_sum st + fraction\<rparr> (enumerate (Suc k) items) = Inr st'"
      by (auto simp: res_simps allocation_step_iff [OF Cons.prems])
    from rest obtain shares where s: "map (entry_share rd) items = map Some shares" "distinct (map fst shares)"
        "set (map fst shares) \<subseteq> set valid_ids - insert target (set (as_seen_targets st))"
        "st' = \<lparr>as_seen_targets = rev (map fst shares) @ target # as_seen_targets st,
          as_selected_fraction = selected reference (if target = reference then Some fraction else as_selected_fraction st) shares,
          as_fraction_sum = foldl (+) (as_fraction_sum st + fraction) (map snd shares)\<rparr>"
      using Cons.IH next_sum [OF e(1)] by (auto simp: next_sum [OF e(1)])
    then have "target \<notin> fst ` set shares" by auto
    from selected_Cons [OF this] e s show ?rhs
      by (intro exI [of _ "(target, fraction) # shares"]) auto
  next
    assume ?rhs
    then obtain target fraction shares where e: "entry_share rd item = Some (target, fraction)"
        "map (entry_share rd) items = map Some shares" "distinct (map fst ((target, fraction) # shares))"
        "set (map fst ((target, fraction) # shares)) \<subseteq> set valid_ids - set (as_seen_targets st)"
        "st' = \<lparr>as_seen_targets = rev (map fst ((target, fraction) # shares)) @ as_seen_targets st,
              as_selected_fraction = selected reference (as_selected_fraction st) ((target, fraction) # shares),
              as_fraction_sum = foldl (+) (as_fraction_sum st) (map snd ((target, fraction) # shares))\<rparr>"
      by (auto simp: map_eq_Cons_conv)
    let ?st = "\<lparr>as_seen_targets = target # as_seen_targets st,
          as_selected_fraction = (if target = reference then Some fraction else as_selected_fraction st),
          as_fraction_sum = as_fraction_sum st + fraction\<rparr>"
    have "allocation_step rd reference valid_ids st (k, item) = Inr ?st"
      using e by (auto simp: allocation_step_iff [OF Cons.prems])
    moreover have "try_fold (allocation_step rd reference valid_ids) ?st (enumerate (Suc k) items) = Inr st'"
      using e next_sum [OF e(1)] Cons.IH [of ?st "Suc k"]
      by (auto intro!: exI [of _ shares] simp: selected_Cons)
    ultimately show ?lhs by simp
  qed
qed

section \<open>Text without white space\<close>

text \<open>A text that begins and ends with a printable ASCII character is not trimmed.\<close>

definition plain_char :: "char \<Rightarrow> bool" where
  "plain_char c = (0x20 < (of_char c :: nat) \<and> (of_char c :: nat) < 0x80)"

lemma white_space_not_plain: "list_all (\<lambda>w. w \<noteq> [] \<and> \<not> plain_char (hd w) \<and> \<not> plain_char (last w)) WHITE_SPACE"
  by (simp add: WHITE_SPACE_def plain_char_def)

lemma starts_with_hd: "starts_with s w \<Longrightarrow> w \<noteq> [] \<Longrightarrow> hd w = hd s"
  by (cases s; cases w) (auto simp: starts_with_def)

lemma ends_with_last: "ends_with s w \<Longrightarrow> w \<noteq> [] \<Longrightarrow> last w = last s"
  using starts_with_hd [of "rev s" "rev w"] by (cases "s = []") (auto simp: ends_with_def hd_rev starts_with_def)

lemma text_trim_plain:
  assumes "s \<noteq> []" "plain_char (hd s)" "plain_char (last s)"
  shows "text_trim s = s"
proof -
  have "white_prefix s = None" "white_suffix s = None"
    using assms white_space_not_plain starts_with_hd ends_with_last
    by (fastforce simp: white_prefix_def white_suffix_def find_None_iff list_all_iff)+
  then show ?thesis by (simp add: text_trim_def text_trim_start.simps [of s] text_trim_end.simps [of s])
qed

section \<open>Accepted allocations\<close>

lemma vector_resolution_iff:
  "vector_resolution rd reference valid_ids items = Inr r \<longleftrightarrow>
     (\<exists>shares. map (entry_share rd) items = map Some shares \<and> closed_vector valid_ids shares \<and>
        r = (case map_of shares reference of None \<Rightarrow> SparseZeroFraction | Some fraction \<Rightarrow> ExplicitFraction fraction))"
proof -
  have "bounded_sum (as_fraction_sum allocation_state_new)" by (simp add: allocation_state_new_def bounded_sum_def)
  note fold = allocation_fold_iff [OF this, of rd reference valid_ids 0 items]
  have sel: "selected reference None shares = map_of shares reference" for shares
    by (simp add: selected_def split: option.split)
  have "vector_resolution rd reference valid_ids items = Inr r \<longleftrightarrow>
      (\<exists>st. try_fold (allocation_step rd reference valid_ids) allocation_state_new (enumerate 0 items) = Inr st \<and>
        \<not> ALLOCATION_SUM_TOLERANCE < \<bar>as_fraction_sum st - Fin 1\<bar> \<and>
        r = (case as_selected_fraction st of None \<Rightarrow> SparseZeroFraction | Some fraction \<Rightarrow> ExplicitFraction fraction))"
    by (auto simp: vector_resolution_def res_simps split: if_splits)
  then show ?thesis unfolding fold by (auto simp: allocation_state_new_def closed_vector_def sel)
qed

text \<open>The entries of a declared vector: not the empty object and not a single entry without a target.\<close>

definition declared_vector :: "json \<Rightarrow> json list option" where
  "declared_vector exchange =
     Option.bind (value_get ''allocations'' exchange) (\<lambda>v.
     Option.bind (as_object v) (\<lambda>allocations.
     Option.bind (json_get ''allocation'' allocations) (\<lambda>allocation.
     Option.bind (ok_option (allocation_entries allocation)) (\<lambda>items.
     if as_object allocation = Some [] then None
     else case items of
       [item] \<Rightarrow> Option.bind (as_object item) (\<lambda>entry.
          if json_get ''@internalReferenceToCoProduct'' entry = None then None else Some items)
     | _ \<Rightarrow> Some items))))"

lemma declared_vectorD:
  assumes "declared_vector exchange = Some items"
  obtains v allocations allocation where "value_get ''allocations'' exchange = Some v" "as_object v = Some allocations"
    "json_get ''allocation'' allocations = Some allocation" "as_object allocation \<noteq> Some []"
    "allocation_entries allocation = Inr items" "\<And>reference valid_ids n. targetless_resolution rd reference valid_ids n items = Inr None"
proof -
  from assms obtain v allocations allocation items' where
    *: "value_get ''allocations'' exchange = Some v" "as_object v = Some allocations"
      "json_get ''allocation'' allocations = Some allocation" "allocation_entries allocation = Inr items'"
      "(if as_object allocation = Some [] then None
        else case items' of
          [item] \<Rightarrow> Option.bind (as_object item) (\<lambda>entry.
             if json_get ''@internalReferenceToCoProduct'' entry = None then None else Some items')
        | _ \<Rightarrow> Some items') = Some items"
    unfolding declared_vector_def bind_eq_Some_conv res_simps by blast
  from *(5) have "as_object allocation \<noteq> Some []" "items' = items"
    "targetless_resolution rd reference valid_ids n items = Inr None" for reference valid_ids n
    by (auto simp: targetless_resolution_def bind_eq_Some_conv split: if_splits list.splits)
  with * that show thesis by simp
qed

text \<open>
  C17. A declared allocation vector is accepted exactly when every entry names a target and a share between zero and one,
  the targets are distinct known exchanges and the shares sum to one within the tolerance; the result is the
  share of the quantitative reference, or zero when the vector leaves it out.
\<close>

theorem allocation_accepted_iff_closed:
  assumes "declared_vector exchange = Some items" "text_trim reference_internal_id \<noteq> []"
  shows "resolve_tidas_exchange_allocation rd exchange reference_internal_id valid_ids reference_count = Inr r \<longleftrightarrow>
    (\<exists>shares. map (entry_share rd) items = map Some shares \<and> closed_vector valid_ids shares \<and>
       list_all (\<lambda>(target, fraction). share fraction) shares \<and>
       r = (case map_of shares (text_trim reference_internal_id) of
              None \<Rightarrow> SparseZeroFraction | Some fraction \<Rightarrow> ExplicitFraction fraction))"
proof -
  have shares: "list_all (\<lambda>(target, fraction). share fraction) shares" if "map (entry_share rd) items = map Some shares" for shares
    using that entry_share_range
    by (auto simp: list_all_iff) (metis (no_types, lifting) image_iff list.set_map)
  have "resolve_tidas_exchange_allocation rd exchange reference_internal_id valid_ids reference_count =
      vector_resolution rd (text_trim reference_internal_id) valid_ids items"
    by (rule declared_vectorD [OF assms(1), of rd])
      (simp add: resolve_tidas_exchange_allocation_def assms(2) Let_def)
  then show ?thesis using shares by (auto simp: vector_resolution_iff)
qed

text \<open>The share of any accepted allocation.\<close>

definition resolved_fraction :: "tidas_allocation_resolution \<Rightarrow> f64" where
  "resolved_fraction r =
     (case r of Undeclared \<Rightarrow> Fin 1 | LegacyEmptyUndeclared \<Rightarrow> Fin 1 | ExplicitFraction f \<Rightarrow> f
      | LegacyInferredReference f \<Rightarrow> f | SparseZeroFraction \<Rightarrow> Fin 0)"

lemma resolved_fraction_share:
  assumes "resolve_tidas_exchange_allocation rd exchange reference valid_ids n = Inr r"
  shows "share (resolved_fraction r)"
proof -
  have vector: "share (resolved_fraction r)" if "vector_resolution rd reference valid_ids items = Inr r" for reference items
  proof -
    from that obtain shares where s: "map (entry_share rd) items = map Some shares"
      and r: "r = (case map_of shares reference of None \<Rightarrow> SparseZeroFraction | Some fraction \<Rightarrow> ExplicitFraction fraction)"
      by (auto simp: vector_resolution_iff)
    show ?thesis
    proof (cases "map_of shares reference")
      case (Some fraction)
      then have "Some (reference, fraction) \<in> set (map Some shares)" by (auto dest: map_of_SomeD)
      then obtain item where "entry_share rd item = Some (reference, fraction)" unfolding s [symmetric] by auto
      then show ?thesis using Some by (simp add: r resolved_fraction_def entry_share_range)
    qed (simp add: r resolved_fraction_def)
  qed
  have targetless: "share (resolved_fraction r)" if "targetless_resolution rd reference valid_ids n items = Inr (Some r)" for reference items
    using that by (auto simp: targetless_resolution_def res_simps resolved_fraction_def dest: legacy_fraction split: list.splits if_splits)
  show ?thesis
    using assms vector targetless
    by (auto simp: resolve_tidas_exchange_allocation_def Let_def res_simps resolved_fraction_def
        split: if_splits option.splits)
qed

section \<open>Examples\<close>

definition example_readers :: readers where
  "example_readers = \<lparr>rd_uuid = Some, rd_f64 = parse_f64, rd_i64 = (\<lambda>_. None)\<rparr>"

definition example_allocation :: "(string \<times> string) list \<Rightarrow> json" where
  "example_allocation shares = JObject [(''allocations'', JObject [(''allocation'', JArray (map (\<lambda>(target, perc).
     JObject [(''@internalReferenceToCoProduct'', JString target), (''@allocatedFraction'', JString perc)]) shares))])]"

text \<open>A quarter goes to the reference product \<open>1\<close>; without the second entry the vector is refused.\<close>

theorem allocation_accepted_iff_closed_witness:
  "resolve_tidas_exchange_allocation example_readers (example_allocation [(''1'', ''25''), (''2'', ''7.5e1'')]) ''1'' [''1'', ''2''] 1 =
     Inr (ExplicitFraction (Fin (1 / 4)))"
proof -
  let ?e = "example_allocation [(''1'', ''25''), (''2'', ''7.5e1'')]" and ?shares = "[(''1'', Fin (1 / 4)), (''2'', Fin (3 / 4))]"
  obtain items where "declared_vector ?e = Some items" "map (entry_share example_readers) items = map Some ?shares"
  proof
    show "declared_vector ?e = Some (map (\<lambda>(target, perc). JObject [(''@internalReferenceToCoProduct'', JString target),
        (''@allocatedFraction'', JString perc)]) [(''1'', ''25''), (''2'', ''7.5e1'')])" by code_simp
    show "map (entry_share example_readers) (map (\<lambda>(target, perc). JObject [(''@internalReferenceToCoProduct'', JString target),
        (''@allocatedFraction'', JString perc)]) [(''1'', ''25''), (''2'', ''7.5e1'')]) = map Some ?shares" by code_simp
  qed
  moreover have "text_trim ''1'' = ''1''" by (simp add: text_trim_plain plain_char_def)
  moreover have "closed_vector [''1'', ''2''] ?shares" "list_all (\<lambda>(target, fraction). share fraction) ?shares"
    by code_simp+
  ultimately show ?thesis using allocation_accepted_iff_closed [of ?e items "''1''" example_readers "[''1'', ''2'']" 1] by force
qed

end
