(* ===== verification/Process_Parsing.thy ===== *)
theory Process_Parsing
  imports Balance_Compilation Tidas_Allocation
begin

text \<open>
  The reading of a process data set in \<open>crates/solver-worker/src/bin/snapshot_builder.rs\<close>: its name, place, year and
  volume, the normalization by its quantitative reference, and its exchanges with their allocated amounts.
  Theorem: a process that is read has exactly one quantitative reference, normalized to a signed unit, finite
  amounts and shares between zero and one, and its statistics account for every exchange.
\<close>

section \<open>Data\<close>

record process_row =
  row_id :: uuid
  row_version :: string
  row_model_id :: "uuid option"
  row_model_version :: "string option"
  row_user_id :: "uuid option"
  row_state_code :: i32
  row_team_id :: "uuid option"
  row_review_id :: "uuid option"
  row_modified_at :: "string option"
  row_json :: json

record reference_parse_stats =
  rps_missing_reference :: i64
  rps_invalid_reference :: i64
  rps_normalized_processes :: i64

record allocation_parse_stats =
  aps_exchange_total :: i64
  aps_fraction_present_count :: i64
  aps_fraction_missing_count :: i64
  aps_fraction_invalid_count :: i64
  aps_legacy_empty_allocation_as_undeclared_count :: i64
  aps_legacy_single_reference_target_inferred_count :: i64

datatype allocation_fallback_state = NoFallback | LegacyEmptyFallback | LegacySingleReferenceFallback

text \<open>\<open>ParsedProcessChunk\<close>.\<close>

record parsed_process_chunk =
  ch_meta :: process_meta
  ch_exchanges :: "parsed_exchange list"
  ch_flow_ids :: "uuid list"
  ch_reference :: reference_parse_stats
  ch_allocation :: allocation_parse_stats

datatype parse_error =
    MultipleReferences "string list"
  | MissingReference
  | ReferenceMatches string usize
  | ReferenceWithoutDirection string
  | ReferenceAmountNotFinite string
  | InvalidReferenceCoefficient signed_flow_error
  | InvalidReferencePivot signed_flow_error
  | MissingReferenceAfterValidation
  | DuplicateExchangeId string
  | InvalidAllocation "string option" allocation_error
  | InvalidCoefficient signed_flow_error
  | PivotMismatch f64 f64

section \<open>Reading the document\<close>

definition process_exchange_items :: "json \<Rightarrow> json list" where
  "process_exchange_items process_json =
     (case value_at [''processDataSet'', ''exchanges'', ''exchange''] process_json of
        None \<Rightarrow> []
      | Some exchange \<Rightarrow> (case exchange of JArray items \<Rightarrow> items | JObject _ \<Rightarrow> [exchange] | _ \<Rightarrow> []))"

definition parse_uuid_at :: "readers \<Rightarrow> json \<Rightarrow> string list \<Rightarrow> uuid option" where
  "parse_uuid_at rd v path = Option.bind (Option.bind (value_at path v) as_str) (rd_uuid rd)"

definition parse_reference_internal_ids :: "json \<Rightarrow> string list" where
  "parse_reference_internal_ids process_json =
     (case value_at [''processDataSet'', ''processInformation'', ''quantitativeReference'', ''referenceToReferenceFlow'']
             process_json of
        None \<Rightarrow> []
      | Some v \<Rightarrow> List.map_filter non_empty_text (case v of JArray items \<Rightarrow> items | _ \<Rightarrow> [v]))"

definition parse_reference_internal_id :: "json \<Rightarrow> string option" where
  "parse_reference_internal_id process_json =
     (let ids = parse_reference_internal_ids process_json in if length ids = 1 then Some (ids ! 0) else None)"

definition parse_exchange_internal_id :: "json \<Rightarrow> string option" where
  "parse_exchange_internal_id exchange = Option.bind (value_get ''@dataSetInternalID'' exchange) non_empty_text"

definition is_reference_internal_exchange :: "string option \<Rightarrow> string option \<Rightarrow> bool" where
  "is_reference_internal_exchange exchange_id reference_id =
     (case reference_id of None \<Rightarrow> False | Some reference \<Rightarrow> exchange_id = Some reference)"

definition parse_number :: "readers \<Rightarrow> json option \<Rightarrow> f64 option" where
  "parse_number rd v =
     Option.bind
       (case v of
          Some (JString text) \<Rightarrow> parse_f64 (filter (\<lambda>c. c \<noteq> CHR '','') text)
        | Some (JNumber n) \<Rightarrow> rd_f64 rd n
        | _ \<Rightarrow> None)
       (\<lambda>number. if is_finite number then Some number else None)"

definition parse_exchange_direction :: "string option \<Rightarrow> exchange_direction option" where
  "parse_exchange_direction v =
     (case map_option text_trim v of
        None \<Rightarrow> None
      | Some label \<Rightarrow>
          if label = ''Input'' then Some ExchangeInput else if label = ''Output'' then Some ExchangeOutput else None)"

fun parse_location_string_value :: "json \<Rightarrow> string option"
  and first_location :: "json list \<Rightarrow> string option" where
  "parse_location_string_value (JArray items) = first_location items"
| "parse_location_string_value (JObject entries) =
     Option.bind (case json_get ''@location'' entries of Some v \<Rightarrow> Some v | None \<Rightarrow> json_get ''#text'' entries) non_empty_text"
| "parse_location_string_value (JString text) = non_empty_text (JString text)"
| "parse_location_string_value JNull = None"
| "parse_location_string_value (JBool b) = None"
| "parse_location_string_value (JNumber n) = None"
| "first_location [] = None"
| "first_location (v # vs) =
     (case parse_location_string_value v of Some location \<Rightarrow> Some location | None \<Rightarrow> first_location vs)"

definition parse_exchange_location :: "json \<Rightarrow> string option" where
  "parse_exchange_location exchange = Option.bind (value_get ''location'' exchange) parse_location_string_value"

definition parse_process_location :: "json \<Rightarrow> string option" where
  "parse_process_location process_json =
     Option.bind (value_at [''processDataSet'', ''processInformation'', ''geography'',
         ''locationOfOperationSupplyOrProduction'', ''@location''] process_json) non_empty_text"

definition parse_process_name :: "json \<Rightarrow> string option" where
  "parse_process_name process_json =
     Option.bind (value_at [''processDataSet'', ''processInformation'', ''dataSetInformation'', ''name'', ''baseName'']
         process_json) (\<lambda>v.
     Option.bind (case v of JArray items \<Rightarrow> (case items of [] \<Rightarrow> None | item # _ \<Rightarrow> Some item) | JObject _ \<Rightarrow> Some v | _ \<Rightarrow> None) (\<lambda>v.
     non_empty_text (case value_get ''#text'' v of Some text \<Rightarrow> text | None \<Rightarrow> v)))"

definition parse_process_reference_year :: "readers \<Rightarrow> json \<Rightarrow> i32 option" where
  "parse_process_reference_year rd process_json =
     Option.bind (value_at [''processDataSet'', ''processInformation'', ''time'', ''common:referenceYear''] process_json) (\<lambda>v.
     case v of
       JNumber n \<Rightarrow> Option.bind (rd_i64 rd n) (\<lambda>year. if - i32_max - 1 \<le> year \<and> year \<le> i32_max then Some year else None)
     | JString text \<Rightarrow> parse_i32 (text_trim text)
     | _ \<Rightarrow> None)"

definition parse_positive_number_prefix :: "string \<Rightarrow> f64 option" where
  "parse_positive_number_prefix text =
     (case split_whitespace [] text of
        [] \<Rightarrow> None
      | token # _ \<Rightarrow>
          Option.bind (parse_f64 (filter (\<lambda>c. c \<noteq> CHR '','') token)) (\<lambda>v. if is_finite v \<and> Fin 0 < v then Some v else None))"

fun parse_string_multi_lang_number_prefix :: "json \<Rightarrow> f64 option"
  and first_number_prefix :: "json list \<Rightarrow> f64 option" where
  "parse_string_multi_lang_number_prefix (JArray items) = first_number_prefix items"
| "parse_string_multi_lang_number_prefix (JObject entries) =
     Option.bind (Option.bind (json_get ''#text'' entries) as_str) parse_positive_number_prefix"
| "parse_string_multi_lang_number_prefix (JString text) = parse_positive_number_prefix text"
| "parse_string_multi_lang_number_prefix JNull = None"
| "parse_string_multi_lang_number_prefix (JBool b) = None"
| "parse_string_multi_lang_number_prefix (JNumber n) = None"
| "first_number_prefix [] = None"
| "first_number_prefix (v # vs) =
     (case parse_string_multi_lang_number_prefix v of Some n \<Rightarrow> Some n | None \<Rightarrow> first_number_prefix vs)"

definition parse_process_annual_supply_or_production_volume :: "json \<Rightarrow> f64 option" where
  "parse_process_annual_supply_or_production_volume process_json =
     Option.bind (value_at [''processDataSet'', ''modellingAndValidation'', ''dataSourcesTreatmentAndRepresentativeness'',
         ''annualSupplyOrProductionVolume''] process_json) parse_string_multi_lang_number_prefix"

section \<open>Normalization and allocation\<close>

definition reference_parse_stats_default :: reference_parse_stats where
  "reference_parse_stats_default = \<lparr>rps_missing_reference = 0, rps_invalid_reference = 0, rps_normalized_processes = 0\<rparr>"

definition resolve_reference_normalization ::
  "readers \<Rightarrow> json \<Rightarrow> json list \<Rightarrow> parse_error + reference_pivot \<times> reference_parse_stats" where
  "resolve_reference_normalization rd process_json exchanges =
     (let ids = parse_reference_internal_ids process_json in
      if 1 < length ids then Inl (MultipleReferences ids)
      else case ids of
        [] \<Rightarrow> Inl MissingReference
      | reference # _ \<Rightarrow>
          let reference_exchanges = filter (\<lambda>ex. parse_exchange_internal_id ex = Some reference) exchanges in
          if length reference_exchanges \<noteq> 1 then Inl (ReferenceMatches reference (length reference_exchanges))
          else
            let reference_exchange = reference_exchanges ! 0 in
            res_bind (ok_or (ReferenceWithoutDirection reference)
                (parse_exchange_direction (Option.bind (value_get ''exchangeDirection'' reference_exchange) as_str))) (\<lambda>direction.
            res_bind (ok_or (ReferenceAmountNotFinite reference)
                (parse_number rd (preferred_calculation_amount_value reference_exchange))) (\<lambda>reference_amount.
            res_bind (map_err InvalidReferenceCoefficient
                (signed_coefficient (signed_flow_direction_of direction) reference_amount)) (\<lambda>raw_coefficient.
            res_bind (map_err InvalidReferencePivot (normalize_reference_coefficient raw_coefficient)) (\<lambda>pivot.
            Inr (pivot, reference_parse_stats_default\<lparr>rps_normalized_processes := 1\<rparr>))))))"

definition resolve_allocation_fraction ::
  "readers \<Rightarrow> json \<Rightarrow> string \<Rightarrow> string list \<Rightarrow> usize
   \<Rightarrow> allocation_error + f64 \<times> allocation_fraction_state \<times> allocation_fallback_state" where
  "resolve_allocation_fraction rd exchange reference_internal_id valid_ids reference_count =
     res_bind (resolve_tidas_exchange_allocation rd exchange reference_internal_id valid_ids reference_count) (\<lambda>r.
     case r of
       Undeclared \<Rightarrow> Inr (Fin 1, AllocationMissing, NoFallback)
     | LegacyEmptyUndeclared \<Rightarrow> Inr (Fin 1, AllocationMissing, LegacyEmptyFallback)
     | ExplicitFraction fraction \<Rightarrow> Inr (fraction, AllocationPresent, NoFallback)
     | LegacyInferredReference fraction \<Rightarrow> Inr (fraction, AllocationPresent, LegacySingleReferenceFallback)
     | SparseZeroFraction \<Rightarrow> Inr (Fin 0, AllocationSparseZero, NoFallback))"

section \<open>Exchanges\<close>

text \<open>The internal identifiers of the exchanges and the number of exchanges with that of the reference.\<close>

definition collect_internal_id ::
  "string \<Rightarrow> string list \<times> usize \<Rightarrow> json \<Rightarrow> parse_error + string list \<times> usize" where
  "collect_internal_id reference st exchange =
     (case st of (ids, reference_count) \<Rightarrow>
        (case parse_exchange_internal_id exchange of
           None \<Rightarrow> Inr st
         | Some own_id \<Rightarrow>
             if own_id \<in> set ids then Inl (DuplicateExchangeId own_id)
             else Inr (own_id # ids, if own_id = reference then reference_count + 1 else reference_count)))"

definition count_allocation_state :: "allocation_fraction_state \<Rightarrow> allocation_parse_stats \<Rightarrow> allocation_parse_stats" where
  "count_allocation_state state stats =
     (case state of
        AllocationPresent \<Rightarrow> stats\<lparr>aps_fraction_present_count := aps_fraction_present_count stats + 1\<rparr>
      | AllocationSparseZero \<Rightarrow> stats\<lparr>aps_fraction_present_count := aps_fraction_present_count stats + 1\<rparr>
      | AllocationMissing \<Rightarrow> stats\<lparr>aps_fraction_missing_count := aps_fraction_missing_count stats + 1\<rparr>
      | AllocationInvalid \<Rightarrow> stats\<lparr>aps_fraction_invalid_count := aps_fraction_invalid_count stats + 1\<rparr>)"

definition count_allocation_fallback :: "allocation_fallback_state \<Rightarrow> allocation_parse_stats \<Rightarrow> allocation_parse_stats" where
  "count_allocation_fallback fallback stats =
     (case fallback of
        NoFallback \<Rightarrow> stats
      | LegacyEmptyFallback \<Rightarrow>
          stats\<lparr>aps_legacy_empty_allocation_as_undeclared_count := aps_legacy_empty_allocation_as_undeclared_count stats + 1\<rparr>
      | LegacySingleReferenceFallback \<Rightarrow>
          stats\<lparr>aps_legacy_single_reference_target_inferred_count := aps_legacy_single_reference_target_inferred_count stats + 1\<rparr>)"

definition signed_raw_of :: "exchange_direction option \<Rightarrow> f64 option \<Rightarrow> parse_error + f64 option" where
  "signed_raw_of direction raw_amount =
     (case (direction, raw_amount) of
        (Some d, Some raw) \<Rightarrow>
          res_bind (map_err InvalidCoefficient (signed_coefficient (signed_flow_direction_of d) raw)) (\<lambda>c. Inr (Some c))
      | _ \<Rightarrow> Inr None)"

text \<open>The normalized amount of the quantitative reference must be its pivot.\<close>

definition check_pivot :: "reference_pivot \<Rightarrow> bool \<Rightarrow> exchange_direction option \<Rightarrow> f64 option \<Rightarrow> parse_error + unit" where
  "check_pivot pivot is_reference direction amount =
     (case (direction, amount) of
        (Some d, Some a) \<Rightarrow>
          if is_reference
          then res_bind (map_err InvalidCoefficient (signed_coefficient (signed_flow_direction_of d) a)) (\<lambda>coefficient.
               if SIGNED_FLOW_CLOSURE_TOLERANCE < \<bar>coefficient - rp_coefficient pivot\<bar>
               then Inl (PivotMismatch (rp_coefficient pivot) coefficient) else Inr ())
          else Inr ()
      | _ \<Rightarrow> Inr ())"

definition parse_exchange_item ::
  "readers \<Rightarrow> process_row \<Rightarrow> i32 \<Rightarrow> string \<Rightarrow> string list \<Rightarrow> usize \<Rightarrow> reference_pivot
   \<Rightarrow> parsed_exchange list \<times> allocation_parse_stats \<Rightarrow> nat \<times> json \<Rightarrow> parse_error + parsed_exchange list \<times> allocation_parse_stats" where
  "parse_exchange_item rd row process_idx reference_internal_id internal_ids reference_count pivot st indexed =
     (case (st, indexed) of ((exchanges, stats), (exchange_index, ex)) \<Rightarrow>
        let direction_label = unwrap_or ''unknown'' (Option.bind (value_get ''exchangeDirection'' ex) non_empty_text);
            direction = parse_exchange_direction (Some direction_label) in
        (case parse_uuid_at rd ex [''referenceToFlowDataSet'', ''@refObjectId''] of
          None \<Rightarrow> Inr (exchanges, stats)
        | Some flow_id \<Rightarrow>
            let internal_id = parse_exchange_internal_id ex;
                exchange_id = row_id row @ '':'' @ row_version row @ '':'' @
                  (case internal_id of None \<Rightarrow> show_nat exchange_index | Some own_id \<Rightarrow> own_id);
                flow_version = unwrap_or ''unknown''
                  (Option.bind (value_at [''referenceToFlowDataSet'', ''@version''] ex) non_empty_text);
                stats = stats\<lparr>aps_exchange_total := aps_exchange_total stats + 1\<rparr> in
            res_bind (map_err (InvalidAllocation internal_id)
                (resolve_allocation_fraction rd ex reference_internal_id internal_ids reference_count))
              (\<lambda>(allocation_fraction, state, fallback).
            let stats = count_allocation_fallback fallback (count_allocation_state state stats);
                is_reference = is_reference_internal_exchange internal_id (Some reference_internal_id);
                attributed_fraction = (if is_reference then Fin 1 else allocation_fraction);
                raw_amount = parse_number rd (preferred_calculation_amount_value ex) in
            res_bind (signed_raw_of direction raw_amount) (\<lambda>signed_raw.
            let amount = Option.bind (map_option (\<lambda>raw. raw * rp_scale pivot * attributed_fraction) raw_amount)
                  (\<lambda>normalized. if is_finite normalized then Some normalized else None) in
            res_bind (check_pivot pivot is_reference direction amount) (\<lambda>_.
            Inr (exchanges @ [\<lparr>ex_process_idx = process_idx, ex_flow_id = flow_id, ex_direction = direction,
                   ex_direction_label = direction_label, ex_internal_id = internal_id, ex_exchange_id = exchange_id,
                   ex_flow_version = flow_version, ex_is_reference_exchange = is_reference, ex_raw_amount = raw_amount,
                   ex_signed_raw_coefficient = signed_raw, ex_amount = amount, ex_allocation_state = state,
                   ex_allocation_fraction = allocation_fraction, ex_allocation_target_internal_id = reference_internal_id,
                   ex_location = parse_exchange_location ex\<rparr>], stats))))))"

definition allocation_parse_stats_default :: allocation_parse_stats where
  "allocation_parse_stats_default =
     \<lparr>aps_exchange_total = 0, aps_fraction_present_count = 0, aps_fraction_missing_count = 0, aps_fraction_invalid_count = 0,
      aps_legacy_empty_allocation_as_undeclared_count = 0, aps_legacy_single_reference_target_inferred_count = 0\<rparr>"

definition parse_process_meta :: "readers \<Rightarrow> process_row \<Rightarrow> i32 \<Rightarrow> process_meta" where
  "parse_process_meta rd row process_idx =
     \<lparr>meta_process_idx = process_idx, meta_process_id = row_id row, meta_process_version = row_version row,
      meta_process_name = parse_process_name (row_json row), meta_model_id = row_model_id row,
      meta_model_version = row_model_version row, meta_location = parse_process_location (row_json row),
      meta_reference_year = parse_process_reference_year rd (row_json row),
      meta_annual_supply_or_production_volume = parse_process_annual_supply_or_production_volume (row_json row)\<rparr>"

definition parse_process_chunk :: "readers \<Rightarrow> process_row \<Rightarrow> i32 \<Rightarrow> parse_error + parsed_process_chunk" where
  "parse_process_chunk rd row process_idx =
     (let items = process_exchange_items (row_json row) in
      res_bind (resolve_reference_normalization rd (row_json row) items) (\<lambda>(pivot, reference_stats).
      res_bind (ok_or MissingReferenceAfterValidation (parse_reference_internal_id (row_json row))) (\<lambda>reference_internal_id.
      res_bind (try_fold (collect_internal_id reference_internal_id) ([], 0) items) (\<lambda>(internal_ids, reference_count).
      res_bind (try_fold (parse_exchange_item rd row process_idx reference_internal_id internal_ids reference_count pivot)
          ([], allocation_parse_stats_default) (enumerate 0 items)) (\<lambda>(exchanges, allocation_stats).
      Inr \<lparr>ch_meta = parse_process_meta rd row process_idx, ch_exchanges = exchanges,
           ch_flow_ids = sort (remdups (map ex_flow_id exchanges)), ch_reference = reference_stats,
           ch_allocation = allocation_stats\<rparr>)))))"

section \<open>What is read\<close>

lemma reference_normalizationD:
  assumes "resolve_reference_normalization rd doc items = Inr (pivot, stats)"
  obtains reference where "parse_reference_internal_ids doc = [reference]" "parse_reference_internal_id doc = Some reference"
    "length (filter (\<lambda>ex. parse_exchange_internal_id ex = Some reference) items) = 1"
    "rp_coefficient pivot \<in> {Fin 1, Fin (- 1)}" "is_finite (rp_scale pivot)" "Fin 0 < rp_scale pivot"
    "stats = reference_parse_stats_default\<lparr>rps_normalized_processes := 1\<rparr>"
proof -
  let ?ids = "parse_reference_internal_ids doc"
  from assms have "\<not> 1 < length ?ids" "?ids \<noteq> []"
    by (auto simp: resolve_reference_normalization_def Let_def split: if_splits list.splits)
  then obtain reference where ids: "?ids = [reference]" by (cases ?ids) auto
  from assms obtain raw where n: "length (filter (\<lambda>ex. parse_exchange_internal_id ex = Some reference) items) = 1"
    and p: "normalize_reference_coefficient raw = Inr pivot"
    and stats: "stats = reference_parse_stats_default\<lparr>rps_normalized_processes := 1\<rparr>"
    by (auto simp: resolve_reference_normalization_def ids Let_def res_simps split: if_splits)
  from p have raw: "is_finite raw" "\<not> f64_eq raw (Fin 0)" and pivot: "is_finite (rp_scale pivot)" "Fin 0 < rp_scale pivot"
      "rp_coefficient pivot = f64_signum raw"
    by (auto simp: normalize_reference_coefficient_def res_simps Let_def)
  from raw have "f64_signum raw \<in> {Fin 1, Fin (- 1)}" by (cases raw) (auto simp: f64_signum_def f64_eq_def f64_is_zero_def)
  with ids n pivot stats show thesis using that by (simp add: parse_reference_internal_id_def)
qed

lemma collect_internal_ids:
  assumes "try_fold (collect_internal_id reference) (ids, n) items = Inr (ids', n')"
  shows "distinct (List.map_filter parse_exchange_internal_id items) \<and>
    set ids' = set ids \<union> set (List.map_filter parse_exchange_internal_id items) \<and>
    set ids \<inter> set (List.map_filter parse_exchange_internal_id items) = {} \<and>
    n' = n + length (filter (\<lambda>ex. parse_exchange_internal_id ex = Some reference) items)"
  using assms
proof (induction items arbitrary: ids n)
  case Nil
  then show ?case by simp
next
  case (Cons ex items)
  show ?case
  proof (cases "parse_exchange_internal_id ex")
    case None
    with Cons show ?thesis by (simp add: collect_internal_id_def)
  next
    case (Some own)
    have step: "collect_internal_id reference (ids, n) ex =
        (if own \<in> set ids then Inl (DuplicateExchangeId own) else Inr (own # ids, if own = reference then n + 1 else n))"
      by (simp add: collect_internal_id_def Some)
    with Cons.prems have new: "own \<notin> set ids" by (auto split: if_splits)
    with Cons.prems step have "try_fold (collect_internal_id reference) (own # ids, if own = reference then n + 1 else n) items = Inr (ids', n')"
      by simp
    from Cons.IH [OF this] new Some show ?thesis by auto
  qed
qed

text \<open>
  What is read from one exchange of the document, for the given reference, identifiers and pivot: flow, direction,
  location, raw and signed amount come from the document, the share from its allocation, and the amount is
  the normalized share of the raw amount.
\<close>

definition exchange_reads ::
  "readers \<Rightarrow> i32 \<Rightarrow> string \<Rightarrow> string list \<Rightarrow> reference_pivot \<Rightarrow> json \<Rightarrow> parsed_exchange \<Rightarrow> bool" where
  "exchange_reads rd process_idx reference ids pivot ex e =
     (ex_process_idx e = process_idx \<and>
      parse_uuid_at rd ex [''referenceToFlowDataSet'', ''@refObjectId''] = Some (ex_flow_id e) \<and>
      ex_internal_id e = parse_exchange_internal_id ex \<and>
      ex_direction e =
        parse_exchange_direction (Some (unwrap_or ''unknown'' (Option.bind (value_get ''exchangeDirection'' ex) non_empty_text))) \<and>
      ex_location e = parse_exchange_location ex \<and>
      ex_is_reference_exchange e = (ex_internal_id e = Some reference) \<and>
      (\<exists>fallback. resolve_allocation_fraction rd ex reference ids 1 = Inr (ex_allocation_fraction e, ex_allocation_state e, fallback)) \<and>
      share (ex_allocation_fraction e) \<and> ex_allocation_state e \<noteq> AllocationInvalid \<and>
      ex_raw_amount e = parse_number rd (preferred_calculation_amount_value ex) \<and>
      ex_signed_raw_coefficient e =
        (case (ex_direction e, ex_raw_amount e) of
           (Some d, Some raw) \<Rightarrow> Some (direction_sign (signed_flow_direction_of d) * raw) | _ \<Rightarrow> None) \<and>
      (case ex_raw_amount e of None \<Rightarrow> ex_amount e = None
       | Some raw \<Rightarrow> is_finite raw \<and>
           ex_amount e =
             (let v = raw * rp_scale pivot * (if ex_is_reference_exchange e then Fin 1 else ex_allocation_fraction e)
              in if is_finite v then Some v else None)) \<and>
      (case (ex_direction e, ex_amount e) of
         (Some d, Some a) \<Rightarrow> ex_is_reference_exchange e \<longrightarrow>
           \<not> SIGNED_FLOW_CLOSURE_TOLERANCE < \<bar>direction_sign (signed_flow_direction_of d) * a - rp_coefficient pivot\<bar>
       | _ \<Rightarrow> True))"

definition has_flow :: "readers \<Rightarrow> json \<Rightarrow> bool" where
  "has_flow rd ex = (parse_uuid_at rd ex [''referenceToFlowDataSet'', ''@refObjectId''] \<noteq> None)"

text \<open>The fallback that the allocation of an exchange took, and the statistics of the exchanges that were read.\<close>

definition fallback_is :: "allocation_fallback_state \<Rightarrow> readers \<Rightarrow> string \<Rightarrow> string list \<Rightarrow> json \<Rightarrow> bool" where
  "fallback_is fallback rd reference ids ex \<longleftrightarrow>
     (\<exists>fraction state. resolve_allocation_fraction rd ex reference ids 1 = Inr (fraction, state, fallback))"

definition stats_account ::
  "readers \<Rightarrow> string \<Rightarrow> string list \<Rightarrow> json list \<Rightarrow> parsed_exchange list \<Rightarrow> allocation_parse_stats \<Rightarrow> bool" where
  "stats_account rd reference ids items es stats =
     (aps_exchange_total stats = int (length es) \<and>
      aps_fraction_present_count stats =
        int (length (filter (\<lambda>e. ex_allocation_state e = AllocationPresent \<or> ex_allocation_state e = AllocationSparseZero) es)) \<and>
      aps_fraction_missing_count stats = int (length (filter (\<lambda>e. ex_allocation_state e = AllocationMissing) es)) \<and>
      aps_fraction_invalid_count stats = 0 \<and>
      aps_legacy_empty_allocation_as_undeclared_count stats =
        int (length (filter (fallback_is LegacyEmptyFallback rd reference ids) items)) \<and>
      aps_legacy_single_reference_target_inferred_count stats =
        int (length (filter (fallback_is LegacySingleReferenceFallback rd reference ids) items)))"

lemma allocation_fractionD:
  assumes "resolve_allocation_fraction rd ex reference ids n = Inr (fraction, state, fallback)"
  shows "share fraction \<and> state \<noteq> AllocationInvalid"
proof -
  from assms obtain r where r: "resolve_tidas_exchange_allocation rd ex reference ids n = Inr r"
    and c: "(case r of Undeclared \<Rightarrow> Inr (Fin 1, AllocationMissing, NoFallback)
        | LegacyEmptyUndeclared \<Rightarrow> Inr (Fin 1, AllocationMissing, LegacyEmptyFallback)
        | ExplicitFraction fraction \<Rightarrow> Inr (fraction, AllocationPresent, NoFallback)
        | LegacyInferredReference fraction \<Rightarrow> Inr (fraction, AllocationPresent, LegacySingleReferenceFallback)
        | SparseZeroFraction \<Rightarrow> Inr (Fin 0, AllocationSparseZero, NoFallback)) =
        (Inr (fraction, state, fallback) :: allocation_error + f64 \<times> allocation_fraction_state \<times> allocation_fallback_state)"
    unfolding resolve_allocation_fraction_def res_bind_eq_Inr by blast
  have "fraction = resolved_fraction r \<and> state \<noteq> AllocationInvalid"
    using c by (cases r) (auto simp: resolved_fraction_def)
  with resolved_fraction_share [OF r] show ?thesis by simp
qed

lemma count_states_account:
  assumes "stats_account rd reference ids items es stats" "ex_allocation_state e = state" "state \<noteq> AllocationInvalid"
    "resolve_allocation_fraction rd ex reference ids 1 = Inr (fraction, state, fallback)"
  shows "stats_account rd reference ids (items @ [ex]) (es @ [e]) (count_allocation_fallback fallback (count_allocation_state state
    (stats\<lparr>aps_exchange_total := aps_exchange_total stats + 1\<rparr>)))"
proof -
  have "fallback_is f rd reference ids ex \<longleftrightarrow> f = fallback" for f using assms(4) by (auto simp: fallback_is_def)
  with assms(1-3) show ?thesis
    by (cases state; cases fallback) (simp_all add: stats_account_def count_allocation_state_def count_allocation_fallback_def)
qed

lemma parse_number_finite: "parse_number rd v = Some raw \<Longrightarrow> is_finite raw"
  by (auto simp: parse_number_def bind_eq_Some_conv split: if_splits)

lemma signed_coefficientD: "signed_coefficient d a = Inr c \<Longrightarrow> c = direction_sign d * a \<and> is_finite c \<and> is_finite a"
  by (auto simp: signed_coefficient_def res_simps Let_def)

lemma signed_raw_ofD:
  "signed_raw_of direction raw = Inr c \<Longrightarrow>
     c = (case (direction, raw) of (Some d, Some raw) \<Rightarrow> Some (direction_sign (signed_flow_direction_of d) * raw) | _ \<Rightarrow> None)"
  by (auto simp: signed_raw_of_def res_simps dest!: signed_coefficientD split: option.splits)

lemma check_pivotD:
  assumes "check_pivot pivot is_reference direction amount = Inr u"
  shows "case (direction, amount) of
         (Some d, Some a) \<Rightarrow> is_reference \<longrightarrow>
           \<not> SIGNED_FLOW_CLOSURE_TOLERANCE < \<bar>direction_sign (signed_flow_direction_of d) * a - rp_coefficient pivot\<bar>
       | _ \<Rightarrow> True"
  using assms by (auto simp: check_pivot_def res_simps dest!: signed_coefficientD split: option.splits if_splits)

lemma parse_exchange_itemD:
  assumes "parse_exchange_item rd row process_idx reference ids 1 pivot (es, stats) (index, ex) = Inr (es', stats')"
    "stats_account rd reference ids items es stats"
  shows "if has_flow rd ex
     then \<exists>e. es' = es @ [e] \<and> exchange_reads rd process_idx reference ids pivot ex e \<and>
       stats_account rd reference ids (items @ [ex]) es' stats'
     else es' = es \<and> stats' = stats"
proof (cases "parse_uuid_at rd ex [''referenceToFlowDataSet'', ''@refObjectId'']")
  case None
  with assms show ?thesis by (simp add: parse_exchange_item_def has_flow_def Let_def)
next
  case (Some flow_id)
  let ?internal = "parse_exchange_internal_id ex"
  let ?raw = "parse_number rd (preferred_calculation_amount_value ex)"
  let ?label = "unwrap_or ''unknown'' (Option.bind (value_get ''exchangeDirection'' ex) non_empty_text)"
  let ?direction = "parse_exchange_direction (Some ?label)"
  let ?reference = "is_reference_internal_exchange ?internal (Some reference)"
  from assms(1) Some obtain fraction state fallback signed_raw amount u e where
    f: "resolve_allocation_fraction rd ex reference ids 1 = Inr (fraction, state, fallback)"
    and signed: "signed_raw_of ?direction ?raw = Inr signed_raw"
    and amount: "amount = Option.bind (map_option (\<lambda>raw. raw * rp_scale pivot * (if ?reference then Fin 1 else fraction)) ?raw)
      (\<lambda>normalized. if is_finite normalized then Some normalized else None)"
    and pivot: "check_pivot pivot ?reference ?direction amount = Inr u"
    and stats': "stats' = count_allocation_fallback fallback (count_allocation_state state
        (stats\<lparr>aps_exchange_total := aps_exchange_total stats + 1\<rparr>))"
    and es': "es' = es @ [e]"
    and e: "ex_process_idx e = process_idx" "ex_direction e = ?direction" "ex_internal_id e = ?internal"
      "ex_is_reference_exchange e = ?reference" "ex_raw_amount e = ?raw" "ex_amount e = amount"
      "ex_allocation_state e = state" "ex_allocation_fraction e = fraction" "ex_flow_id e = flow_id"
      "ex_signed_raw_coefficient e = signed_raw" "ex_location e = parse_exchange_location ex"
    by (auto simp: parse_exchange_item_def Let_def res_simps)
  have ref: "?reference = (?internal = Some reference)" by (auto simp: is_reference_internal_exchange_def)
  have "exchange_reads rd process_idx reference ids pivot ex e"
    unfolding exchange_reads_def e ref [symmetric]
    using allocation_fractionD [OF f] check_pivotD [OF pivot] signed_raw_ofD [OF signed] f Some
    by (auto simp: amount Let_def dest: parse_number_finite split: option.split)
  with Some es' show ?thesis
    using count_states_account [OF assms(2) e(7) _ f] allocation_fractionD [OF f] by (simp add: has_flow_def stats')
qed

lemma parse_exchanges:
  assumes "try_fold (parse_exchange_item rd row process_idx reference ids 1 pivot) (es, stats) (enumerate k items) = Inr (es', stats')"
    "stats_account rd reference ids seen es stats" "list_all2 (exchange_reads rd process_idx reference ids pivot) seen es"
  shows "stats_account rd reference ids (seen @ filter (has_flow rd) items) es' stats' \<and>
    list_all2 (exchange_reads rd process_idx reference ids pivot) (seen @ filter (has_flow rd) items) es'"
  using assms
proof (induction items arbitrary: es stats k "seen")
  case Nil
  then show ?case by simp
next
  case (Cons ex items)
  from Cons.prems(1) obtain es1 stats1 where
    step: "parse_exchange_item rd row process_idx reference ids 1 pivot (es, stats) (k, ex) = Inr (es1, stats1)"
    and rest: "try_fold (parse_exchange_item rd row process_idx reference ids 1 pivot) (es1, stats1) (enumerate (Suc k) items) = Inr (es', stats')"
    by (auto simp: res_simps)
  note d = parse_exchange_itemD [OF step Cons.prems(2)]
  show ?case
  proof (cases "has_flow rd ex")
    case True
    with d obtain e where e: "es1 = es @ [e]" "exchange_reads rd process_idx reference ids pivot ex e"
      "stats_account rd reference ids (seen @ [ex]) es1 stats1" by auto
    have "list_all2 (exchange_reads rd process_idx reference ids pivot) (seen @ [ex]) es1"
      unfolding e(1) using Cons.prems(3) e(2) by (intro list_all2_appendI) simp_all
    from Cons.IH [OF rest e(3) this] True show ?thesis by simp
  next
    case False
    with d have "es1 = es" "stats1 = stats" by simp_all
    with Cons.IH [of es stats "Suc k" "seen"] rest Cons.prems(2,3) False show ?thesis by simp
  qed
qed

lemma number_prefix_wf:
  "parse_string_multi_lang_number_prefix v = Some x \<Longrightarrow> f64_wf x \<and> is_finite x \<and> Fin 0 < x"
  "first_number_prefix items = Some x \<Longrightarrow> f64_wf x \<and> is_finite x \<and> Fin 0 < x"
proof -
  have prefix: "f64_wf x \<and> is_finite x \<and> Fin 0 < x" if "parse_positive_number_prefix s = Some x" for s
    using that by (auto simp: parse_positive_number_prefix_def bind_eq_Some_conv dest: parse_f64_wf split: list.splits if_splits)
  show "parse_string_multi_lang_number_prefix v = Some x \<Longrightarrow> f64_wf x \<and> is_finite x \<and> Fin 0 < x"
    "first_number_prefix items = Some x \<Longrightarrow> f64_wf x \<and> is_finite x \<and> Fin 0 < x"
    by (induction v and items rule: parse_string_multi_lang_number_prefix_first_number_prefix.induct)
      (auto simp: bind_eq_Some_conv dest: prefix split: option.splits)
qed

lemma parse_process_chunkD:
  assumes "parse_process_chunk rd row process_idx = Inr chunk"
  obtains reference pivot ids where "parse_reference_internal_ids (row_json row) = [reference]"
    "resolve_reference_normalization rd (row_json row) (process_exchange_items (row_json row)) = Inr (pivot, ch_reference chunk)"
    "rp_coefficient pivot \<in> {Fin 1, Fin (- 1)}" "is_finite (rp_scale pivot)"
    "length (filter (\<lambda>ex. parse_exchange_internal_id ex = Some reference) (process_exchange_items (row_json row))) = 1"
    "distinct (List.map_filter parse_exchange_internal_id (process_exchange_items (row_json row)))"
    "set ids = set (List.map_filter parse_exchange_internal_id (process_exchange_items (row_json row)))"
    "list_all2 (exchange_reads rd process_idx reference ids pivot)
      (filter (has_flow rd) (process_exchange_items (row_json row))) (ch_exchanges chunk)"
    "stats_account rd reference ids (filter (has_flow rd) (process_exchange_items (row_json row))) (ch_exchanges chunk)
      (ch_allocation chunk)"
    "ch_reference chunk = \<lparr>rps_missing_reference = 0, rps_invalid_reference = 0, rps_normalized_processes = 1\<rparr>"
    "set (ch_flow_ids chunk) = ex_flow_id ` set (ch_exchanges chunk)" "sorted (ch_flow_ids chunk)" "distinct (ch_flow_ids chunk)"
    "ch_meta chunk = parse_process_meta rd row process_idx"
proof -
  let ?items = "process_exchange_items (row_json row)"
  from assms obtain pivot stats ref ids n where
    norm: "resolve_reference_normalization rd (row_json row) ?items = Inr (pivot, stats)"
    and ref: "parse_reference_internal_id (row_json row) = Some ref"
    and ids: "try_fold (collect_internal_id ref) ([], 0) ?items = Inr (ids, n)"
    and fold: "try_fold (parse_exchange_item rd row process_idx ref ids n pivot) ([], allocation_parse_stats_default) (enumerate 0 ?items) =
      Inr (ch_exchanges chunk, ch_allocation chunk)"
    and chunk: "ch_reference chunk = stats" "ch_meta chunk = parse_process_meta rd row process_idx"
      "ch_flow_ids chunk = sort (remdups (map ex_flow_id (ch_exchanges chunk)))"
    by (auto simp: parse_process_chunk_def Let_def res_simps)
  from norm obtain reference where r: "parse_reference_internal_ids (row_json row) = [reference]"
      "parse_reference_internal_id (row_json row) = Some reference"
      "length (filter (\<lambda>ex. parse_exchange_internal_id ex = Some reference) ?items) = 1"
      "rp_coefficient pivot \<in> {Fin 1, Fin (- 1)}" "is_finite (rp_scale pivot)" "Fin 0 < rp_scale pivot"
      "stats = reference_parse_stats_default\<lparr>rps_normalized_processes := 1\<rparr>"
    by (rule reference_normalizationD)
  note c = collect_internal_ids [OF ids]
  have "ref = reference" "n = 1" using r(2,3) ref c by simp_all
  note fold = fold [unfolded this]
  have "stats_account rd reference ids [] [] allocation_parse_stats_default"
    by (simp add: stats_account_def allocation_parse_stats_default_def)
  from parse_exchanges [OF fold this]
  have "stats_account rd reference ids (filter (has_flow rd) ?items) (ch_exchanges chunk) (ch_allocation chunk)"
    "list_all2 (exchange_reads rd process_idx reference ids pivot) (filter (has_flow rd) ?items) (ch_exchanges chunk)"
    by simp_all
  with r c chunk norm show thesis
    by (intro that [of reference pivot ids]) (simp_all add: reference_parse_stats_default_def)
qed

text \<open>
  C16. A process that is read has exactly one quantitative reference, exactly one exchange with its identifier, and
  a pivot of plus or minus one; the identifiers of its exchanges are distinct. Exactly the exchanges of the document
  that name a flow are read, in order, each from its own object: flow, direction, location and raw amount as the
  document has them, the share of the reference as its allocation resolves it, between zero and one, the
  amount as raw amount times reference scale times share, and the amount of the reference equal to its pivot within
  the tolerance. The statistics count the exchanges by the state of their allocation and by the fallback
  taken, and never an invalid one: an invalid allocation or reference is an error of the whole process.
\<close>

theorem parsed_process_sound:
  assumes "parse_process_chunk rd row process_idx = Inr chunk"
  defines "items \<equiv> process_exchange_items (row_json row)"
  shows "\<exists>reference pivot ids. parse_reference_internal_ids (row_json row) = [reference] \<and>
    resolve_reference_normalization rd (row_json row) items = Inr (pivot, ch_reference chunk) \<and>
    rp_coefficient pivot \<in> {Fin 1, Fin (- 1)} \<and> is_finite (rp_scale pivot) \<and>
    length (filter (\<lambda>ex. parse_exchange_internal_id ex = Some reference) items) = 1 \<and>
    distinct (List.map_filter parse_exchange_internal_id items) \<and>
    set ids = set (List.map_filter parse_exchange_internal_id items) \<and>
    list_all2 (exchange_reads rd process_idx reference ids pivot) (filter (has_flow rd) items) (ch_exchanges chunk) \<and>
    stats_account rd reference ids (filter (has_flow rd) items) (ch_exchanges chunk) (ch_allocation chunk) \<and>
    ch_reference chunk = \<lparr>rps_missing_reference = 0, rps_invalid_reference = 0, rps_normalized_processes = 1\<rparr> \<and>
    set (ch_flow_ids chunk) = ex_flow_id ` set (ch_exchanges chunk) \<and> sorted (ch_flow_ids chunk) \<and>
    distinct (ch_flow_ids chunk) \<and> ch_meta chunk = parse_process_meta rd row process_idx"
  unfolding items_def by (rule parse_process_chunkD [OF assms(1)]) blast

section \<open>Examples\<close>

definition example_exchange_json :: "string \<Rightarrow> string \<Rightarrow> string \<Rightarrow> string \<Rightarrow> json" where
  "example_exchange_json own_id direction flow amount = JObject
     [(''@dataSetInternalID'', JString own_id), (''exchangeDirection'', JString direction),
      (''referenceToFlowDataSet'', JObject [(''@refObjectId'', JString flow), (''@version'', JString ''01.00.000'')]),
      (''meanAmount'', JString amount)]"

definition example_process_json :: "string \<Rightarrow> json list \<Rightarrow> json" where
  "example_process_json reference items = JObject [(''processDataSet'', JObject
     [(''processInformation'', JObject [(''quantitativeReference'', JObject [(''referenceToReferenceFlow'', JString reference)])]),
      (''exchanges'', JObject [(''exchange'', JArray items)])])]"

definition example_row :: "uuid \<Rightarrow> json \<Rightarrow> process_row" where
  "example_row own_id doc = \<lparr>row_id = own_id, row_version = ''01.00.000'', row_model_id = None, row_model_version = None,
     row_user_id = None, row_state_code = 100, row_team_id = None, row_review_id = None, row_modified_at = None, row_json = doc\<rparr>"

definition example_steel :: process_row where
  "example_steel = example_row ''steel'' (example_process_json ''0''
     [example_exchange_json ''0'' ''Output'' ''slab'' ''2'', example_exchange_json ''1'' ''Input'' ''power'' ''1,000''])"


lemmas json_simps = value_at_def value_get_def json_get_def as_str_def as_object_def

lemma example_items: "process_exchange_items (row_json example_steel) =
    [example_exchange_json ''0'' ''Output'' ''slab'' ''2'', example_exchange_json ''1'' ''Input'' ''power'' ''1,000'']"
  by (simp add: example_steel_def example_row_def example_process_json_def process_exchange_items_def json_simps)

lemma example_trims: "text_trim ''0'' = ''0''" "text_trim ''1'' = ''1''" "text_trim ''Input'' = ''Input''" "text_trim ''Output'' = ''Output''"
    "text_trim ''01.00.000'' = ''01.00.000''"
  by (simp_all add: text_trim_plain plain_char_def)

lemma example_exchange_reads:
  assumes "text_trim own_id = own_id" "own_id \<noteq> []" "text_trim direction = direction" "direction \<noteq> []"
  shows "parse_exchange_internal_id (example_exchange_json own_id direction flow amount) = Some own_id"
    "Option.bind (value_get ''exchangeDirection'' (example_exchange_json own_id direction flow amount)) non_empty_text = Some direction"
    "parse_uuid_at example_readers (example_exchange_json own_id direction flow amount) [''referenceToFlowDataSet'', ''@refObjectId''] = Some flow"
    "parse_number example_readers (preferred_calculation_amount_value (example_exchange_json own_id direction flow amount)) =
       Option.bind (parse_f64 (filter (\<lambda>c. c \<noteq> CHR '','') amount)) (\<lambda>v. if is_finite v then Some v else None)"
    "resolve_allocation_fraction example_readers (example_exchange_json own_id direction flow amount) ''0'' ids n =
       Inr (Fin 1, AllocationMissing, NoFallback)"
  using assms example_trims
  by (simp_all add: example_exchange_json_def parse_exchange_internal_id_def non_empty_text_def json_simps parse_uuid_at_def
      example_readers_def preferred_calculation_amount_value_def parse_number_def resolve_allocation_fraction_def
      resolve_tidas_exchange_allocation_def)

lemma example_numbers: "parse_f64 ''2'' = Some (Fin 2)" "parse_f64 ''1000'' = Some (Fin 1000)"
  by (simp_all add: parse_f64_def split_sign_def parse_decimal_def digits_value_def eq_ignore_ascii_case_def to_ascii_lowercase_def
      ascii_lower_def is_ascii_digit_def less_eq_char_def)

lemma example_directions: "parse_exchange_direction (Some ''Output'') = Some ExchangeOutput" "parse_exchange_direction (Some ''Input'') = Some ExchangeInput"
  by (simp_all add: parse_exchange_direction_def example_trims)

lemma example_amounts:
  "signed_coefficient Output (Fin 2) = Inr (Fin 2)" "signed_coefficient Input (Fin 1000) = Inr (Fin (- 1000))"
  "normalize_reference_coefficient (Fin 2) = Inr \<lparr>rp_raw_coefficient = Fin 2, rp_scale = Fin (1 / 2), rp_coefficient = Fin 1\<rparr>"
  "Fin 2 * Fin (1 / 2) * Fin 1 = (Fin 1 :: f64)" "Fin 1000 * Fin (1 / 2) * Fin 1 = (Fin 500 :: f64)"
  "check_pivot \<lparr>rp_raw_coefficient = Fin 2, rp_scale = Fin (1 / 2), rp_coefficient = Fin 1\<rparr> True (Some ExchangeOutput) (Some (Fin 1)) = Inr ()"
  "check_pivot \<lparr>rp_raw_coefficient = Fin 2, rp_scale = Fin (1 / 2), rp_coefficient = Fin 1\<rparr> False (Some ExchangeInput) (Some (Fin 500)) = Inr ()"
  by code_simp+

lemma example_reference: "parse_reference_internal_ids (row_json example_steel) = [''0'']"
  by (simp add: parse_reference_internal_ids_def example_steel_def example_row_def example_process_json_def json_simps
      non_empty_text_def example_trims map_filter_def)

lemma example_normalization:
  "resolve_reference_normalization example_readers (row_json example_steel) (process_exchange_items (row_json example_steel)) =
     Inr (\<lparr>rp_raw_coefficient = Fin 2, rp_scale = Fin (1 / 2), rp_coefficient = Fin 1\<rparr>,
       reference_parse_stats_default\<lparr>rps_normalized_processes := 1\<rparr>)"
proof -
  have "Option.bind (value_get ''exchangeDirection'' (example_exchange_json ''0'' ''Output'' ''slab'' ''2'')) as_str = Some ''Output''"
    by (simp add: example_exchange_json_def json_simps)
  then show ?thesis
    by (simp add: resolve_reference_normalization_def example_reference example_items example_exchange_reads example_trims
        example_directions example_numbers example_amounts signed_flow_direction_of_def)
qed

lemma example_steel_parses:
  obtains chunk where "parse_process_chunk example_readers example_steel 0 = Inr chunk"
    "map ex_amount (ch_exchanges chunk) = [Some (Fin 1), Some (Fin 500)]"
  by (simp add: parse_process_chunk_def example_normalization)
    (simp add: example_items parse_reference_internal_id_def example_reference collect_internal_id_def example_exchange_reads
      example_trims parse_exchange_item_def example_directions example_numbers example_amounts signed_raw_of_def
      signed_flow_direction_of_def is_reference_internal_exchange_def Let_def)

text \<open>Two units of slab need a thousand of power: normalized to one unit of slab, five hundred.\<close>

theorem parsed_process_sound_witness:
  "\<exists>chunk. parse_process_chunk example_readers example_steel 0 = Inr chunk \<and>
     map ex_amount (ch_exchanges chunk) = [Some (Fin 1), Some (Fin 500)] \<and>
     aps_exchange_total (ch_allocation chunk) = 2 \<and> aps_fraction_invalid_count (ch_allocation chunk) = 0"
proof (rule example_steel_parses)
  fix chunk
  assume c: "parse_process_chunk example_readers example_steel 0 = Inr chunk" "map ex_amount (ch_exchanges chunk) = [Some (Fin 1), Some (Fin 500)]"
  have "length (ch_exchanges chunk) = 2" using arg_cong [OF c(2), of length] by simp
  with parsed_process_sound [OF c(1)] c show ?thesis by (auto simp: stats_account_def)
qed

end
