(* ===== verification/Spec2Isabelle.thy ===== *)
theory Spec2Isabelle
  imports Solver_Service Artifact_Gc Contribution_Path Balance_Compilation Root_Impact Frozen_Graph Administrative_Evidence Snapshot_Assembly Process_Parsing
begin

text \<open>
  \<^bold>\<open>Verification of the TianGong LCA worker.\<close>

  The program computes life cycle assessments. A \<^emph>\<open>snapshot builder\<close> reads process data sets, links
  every input of a process to the processes that provide it and writes the sparse matrices \<open>A\<close>
  (technosphere), \<open>B\<close> (biosphere) and \<open>C\<close> (characterization). A \<^emph>\<open>solver service\<close> factorizes
  \<open>M = I - A\<close> with UMFPACK, keeps factorizations in a cache bounded in bytes, and answers a request
  with \<open>x = M\<inverse> y\<close>, \<open>g = B x\<close>, \<open>h = C g\<close>. A \<^emph>\<open>contribution path analysis\<close> walks the solved model. The
  \<^emph>\<open>scope closure\<close> scan reads, starting from the requested roots, every data set that they reach by
  references within a frozen release, reports what is missing or inconsistent, and records which roots
  a defective data set affects, in compact binary indexes. The \<^emph>\<open>artifact collector\<close> deletes superseded objects under leases.

  \<^bold>\<open>Layout.\<close> Paths are relative to \<open>src/crates\<close>. Each theory states its data as records and datatypes
  with the fields of the source, then one definition per function of the source, then its lemmas.

  \<^item> \<open>Worker_Prelude\<close>: results as a sum type (\<open>Inl\<close> the error), \<open>res_bind\<close> for the question mark
    operator, \<open>try_fold\<close> and \<open>try_map\<close> for loops with early return, machine integer conversions,
    vectors with checked indexing, the collections of simplification rules.
  \<^item> \<open>Float64\<close>: binary64 numbers: a finite value carries its rational, arithmetic rounds the exact
    result to nearest, ties to even, with gradual underflow and overflow to infinity.
  \<^item> \<open>Csc_Matrix\<close> (\<open>suitesparse-ffi/src/matrix.rs\<close>): compressed columns from triplets, validation,
    product with a vector. The lemmas show that construction sums duplicates and drops small entries,
    that validation accepts exactly the well-formed matrices and that the product is the product.
  \<^item> \<open>Umfpack_Ffi\<close> (\<open>suitesparse-ffi/src/umfpack.rs\<close>): the wrapper of the C library with its handles
    as a heap; the library itself is a record of call results and a contract.
  \<^item> \<open>Data_Builder\<close>, \<open>Matrix_Validator\<close>, \<open>Factorization_Cache\<close>, \<open>Solver_Service\<close>
    (\<open>solver-core/src\<close>): the build of \<open>M\<close>, position by position in binary64, the check before factorization, the cache (byte budget,
    least recently used eviction, refinement of a map of slots) and the service on top of them. The
    cache's contract is a locale which the service's lemmas use.
  \<^item> \<open>Signed_Flow\<close> (\<open>solver-worker/src/signed_flow.rs\<close>): reference pivots and weighted balances.
  \<^item> \<open>Tidas_Allocation\<close> (\<open>solver-worker/src/tidas_process_semantics.rs\<close>), \<open>Process_Parsing\<close>
    (\<open>solver-worker/src/bin/snapshot_builder.rs\<close>): the share of an exchange that is allocated to the quantitative
    reference, accepted exactly when the declared vector is closed; the reading of a process data set into
    normalized exchanges, which the compilation below starts from.
  \<^item> \<open>Provider_Linking\<close>, \<open>Provider_Lineage\<close>, \<open>Balance_Compilation\<close>
    (\<open>solver-worker/src/bin/snapshot_builder.rs\<close>, \<open>compiled_graph.rs\<close>, \<open>graph_types.rs\<close>): the choice among
    candidate providers, the gate against counting a nested model twice, and the loop over residual
    exchanges that emits edges, decisions and statistics.
  \<^item> \<open>Snapshot_Coverage\<close>, \<open>Lcia_Coverage\<close> (\<open>snapshot_builder.rs\<close>, \<open>snapshot_artifacts.rs\<close>,
    \<open>calculation_evidence.rs\<close>): the counters over provider decisions and the largest gaps; the selection
    of characterization factors by the observed direction of a flow and the coverage of exchanges by
    factors with its evidence of gaps.
  \<^item> \<open>Matrix_Readiness\<close> (\<open>solver-worker/src/readiness.rs\<close>): the gate before a snapshot is published. It
    always returns a report, which passes exactly when the policy is met.
  \<^item> \<open>Snapshot_Assembly\<close> (\<open>snapshot_builder.rs\<close>): the compiled graph becomes matrices, coverage report,
    index and readiness report. It composes the compilation of balances, the coverage, the gate and
    through it the solver service: under a closed boundary a snapshot passes exactly when every
    residual exchange of its compilation is balanced and the numerical checks hold.
  \<^item> \<open>Contribution_Path\<close> (\<open>solver-worker/src/contribution_path.rs\<close>): the bounded walk over providers.
  \<^item> \<open>Artifact_Gc\<close> (\<open>solver-worker/src/artifact_gc.rs\<close>): the collector over an arbitrary backend, in a
    state monad with the log of the calls it makes.
  \<^item> \<open>Byte_Codec\<close>, \<open>Root_Impact\<close> (\<open>solver-worker/src/scope_closure.rs\<close>): little-endian integers,
    strings, delta varints; the root impact index with its writer, decoder and compact modes. Decoding
    returns what was written, and the compact modes represent exactly the affected roots.
  \<^item> \<open>Reference_Graph\<close>, \<open>Frozen_Graph\<close> (\<open>scope_closure.rs\<close>): the graph of resolved references, the
    breadth-first search for the roots that reach a data set with a witness path each, and the frozen
    graph file from which the same witnesses can be reconstructed.
  \<^item> \<open>Json_Value\<close>, \<open>Reference_Extraction\<close> (\<open>scope_closure.rs\<close>, \<open>source_reference_policy.rs\<close>): the
    canonical text of JSON values, which identifies the value; the walk over a document that extracts
    its references, accounting for every object that looks like one; the roles of references.
  \<^item> \<open>Closure_Issues\<close> (\<open>scope_closure.rs\<close>): the issues, their coalescing by key, their occurrences and
    affected roots, the agreement of severity and blocking.
  \<^item> \<open>External_Sort\<close> (\<open>scope_closure.rs\<close>, \<open>tidas_cli.rs\<close>): spools of JSON lines, sorted runs and their
    merge in passes with a bounded fan-in; the result is the sorted list of the same lines.
  \<^item> \<open>Closure_Scan\<close> (\<open>scope_closure.rs\<close>): the boundary of the frozen snapshot, the collection loop and its
    finalization, over an arbitrary provider. The locale \<open>document_provider\<close> states what is promised of
    the documents a provider returns, \<open>bounded_provider\<close> that they are finitely many; the snapshot
    provider is an instance of both. A returned scan is closed under references and accounts for every
    member; over the snapshot the collection always returns and reads frozen content only.
  \<^item> \<open>Issue_Partition\<close> (\<open>scope_closure.rs\<close>): the partitions a relation of the evidence is published in. Their
    records and bytes stay within the limits, a record larger than a partition is published in chunks,
    and the published layout gives back the stream of records.
  \<^item> \<open>Administrative_Evidence\<close> (\<open>scope_closure.rs\<close>): the eight relations of the administrative evidence
    and its two writers; the summaries of the single bundle are those of the partitioned evidence.

  \<^bold>\<open>State and effects.\<close> State under a mutex is a record passed through the operations; operations that
  may fail return the error and the state they leave. Hash maps are association lists in the order of
  insertion, and where the source iterates over one the order is a parameter of the model. Database,
  object store, clock, hash functions, compressor and UMFPACK are parameters, with their documented
  behaviour as named hypotheses where a theorem needs it.

  \<^bold>\<open>Loops and bounds.\<close> Loops over collections are folds. Loops that the source runs until a condition
  holds are functions with a termination measure, or have fuel whose sufficiency is part of the
  theorem about them. The collection loop of the scan may not end for an arbitrary provider: it is a
  partial function with an optional result, and its termination over the snapshot is a theorem.

  \<^bold>\<open>Not modelled.\<close> SQL and row decoding (\<open>db.rs\<close>, \<open>queue.rs\<close>), HTTP, object storage requests, archives
  (\<open>package_execution.rs\<close>, \<open>calculation_bundle.rs\<close>), prompts and calls of the language model service,
  command line programs, the renderer of the process graph cache and its table of coordinates:
  input and output, or data, without logic that could be stated without a model of the outside system.
  NaN payloads and the sign of NaN are not represented.
\<close>

end
